(* ===== verification/Vmw_Prelude.thy ===== *)
theory Vmw_Prelude
  imports Main "HOL-Library.Word"
begin

text \<open>
  Shared vocabulary of the vmwgfx development: the C integer types as machine words, the
  kernel's error returns as values, and the lemmas on lists, maps and words that several
  components use.
\<close>

unbundle bit_operations_syntax

section \<open>C integers\<close>

type_synonym u8 = "8 word"
type_synonym u16 = "16 word"
type_synonym u32 = "32 word"
type_synonym u64 = "64 word"

abbreviation PAGE_SIZE :: nat where "PAGE_SIZE \<equiv> 4096"

section \<open>Error returns\<close>

text \<open>
  A function that returns a negative error code returns \<open>Inl\<close> of that code; success is
  \<open>Inr\<close>. \<open>OOPS\<close> stands for a call that does not come back to its caller: a \<open>BUG()\<close>
  or \<open>BUG_ON\<close> that fires, or the use of a null or out-of-range pointer.
\<close>

datatype kerr =
    EPERM | ENOENT | EINTR | EIO | ENOMEM | EACCES | EFAULT | EBUSY | EEXIST | ENODEV
  | EINVAL | ENOSPC | ERANGE | EDEADLK | ENOSYS | EALREADY | EAGAIN | ETIME
  | ERESTARTSYS | ESRCH | OOPS

type_synonym 'a kres = "kerr + 'a"

fun kbind :: "'a kres \<Rightarrow> ('a \<Rightarrow> 'b kres) \<Rightarrow> 'b kres" where
  "kbind (Inl e) f = Inl e"
| "kbind (Inr x) f = f x"

lemma kbind_Inr_iff [simp]: "kbind m f = Inr y \<longleftrightarrow> (\<exists>x. m = Inr x \<and> f x = Inr y)"
  by (cases m) auto

lemma kbind_Inl_iff: "kbind m f = Inl e \<longleftrightarrow> m = Inl e \<or> (\<exists>x. m = Inr x \<and> f x = Inl e)"
  by (cases m) auto

section \<open>Collections of rewrite rules\<close>

named_theorems model_defs \<open>definitions of the model that proofs unfold\<close>

lemma option_eqI: "(\<And>r. a = Some r \<longleftrightarrow> b = Some r) \<Longrightarrow> a = b"
  by (metis option.exhaust)

section \<open>Lists\<close>

lemma nth_list_update_if: "xs[i := v] ! j = (if i = j \<and> i < length xs then v else xs ! j)"
  by (cases "i = j") (simp_all add: list_update_beyond)

lemma set_takeWhile_dropWhile: "set (takeWhile P xs) \<union> set (dropWhile P xs) = set xs"
  by (metis set_append takeWhile_dropWhile_id)

lemma remove1_sorted_wrt: "sorted_wrt P xs \<Longrightarrow> sorted_wrt P (remove1 a xs)"
proof (induction xs)
  case (Cons x xs)
  then show ?case by (auto dest: notin_set_remove1 set_remove1_subset [THEN subsetD])
qed simp

lemma sorted_wrt_irrefl_distinct:
  "sorted_wrt P xs \<Longrightarrow> (\<And>x. \<not> P x x) \<Longrightarrow> distinct xs"
  by (induction xs) auto

section \<open>Counting in finite maps\<close>

definition count_map :: "('v \<Rightarrow> bool) \<Rightarrow> ('k \<Rightarrow> 'v option) \<Rightarrow> nat" where
  "count_map P m = card {x. \<exists>v. m x = Some v \<and> P v}"

lemma finite_count_map: "finite (dom m) \<Longrightarrow> finite {x. \<exists>v. m x = Some v \<and> P v}"
  by (rule finite_subset [of _ "dom m"]) auto

lemma count_map_insert:
  assumes "finite (dom m)" "m x = None"
  shows "count_map P (m(x \<mapsto> v)) = count_map P m + (if P v then 1 else 0)"
proof -
  have "{y. \<exists>w. (m(x \<mapsto> v)) y = Some w \<and> P w} =
      (if P v then insert x {y. \<exists>w. m y = Some w \<and> P w} else {y. \<exists>w. m y = Some w \<and> P w})"
    using assms(2) by auto
  then show ?thesis using assms(2) finite_count_map [OF assms(1), of P] by (simp add: count_map_def)
qed

lemma count_map_delete:
  assumes "finite (dom m)" "m x = Some v"
  shows "count_map P m = count_map P (m(x := None)) + (if P v then 1 else 0)"
  using count_map_insert [of "m(x := None)" x P v] assms by (simp add: fun_upd_idem)

lemma count_map_replace:
  assumes "finite (dom m)" "m x = Some v"
  shows "count_map P (m(x \<mapsto> w)) + (if P v then 1 else 0) = count_map P m + (if P w then 1 else 0)"
  using count_map_insert [of "m(x := None)" x P w] count_map_delete [OF assms, of P] assms(1) by simp

lemma count_map_pos: "finite (dom m) \<Longrightarrow> m x = Some v \<Longrightarrow> P v \<Longrightarrow> 0 < count_map P m"
  using finite_count_map [of m P] by (auto simp: count_map_def card_gt_0_iff)

lemma count_map_0: "finite (dom m) \<Longrightarrow> count_map P m = 0 \<longleftrightarrow> (\<forall>x v. m x = Some v \<longrightarrow> \<not> P v)"
  using finite_count_map [of m P] by (auto simp: count_map_def)

lemma count_map_empty [simp]: "count_map P (\<lambda>x. None) = 0"
  by (simp add: count_map_def)

lemma count_map_dom: "count_map (\<lambda>v. True) m = card (dom m)"
  by (simp add: count_map_def dom_def)

section \<open>Words\<close>

lemma unat_and_mask: "unat (w AND (2 ^ b - 1)) = unat w mod 2 ^ b"
  for w :: "'a::len word"
proof -
  have "w AND (2 ^ b - 1) = take_bit b w"
    by (simp add: take_bit_eq_mask mask_eq_exp_minus_1)
  then show ?thesis by (simp add: unsigned_take_bit_eq take_bit_nat_def)
qed

lemma unat_Suc_mod: "unat (w + 1) = Suc (unat w) mod 2 ^ LENGTH('a)"
  for w :: "'a::len word"
  by (simp add: unat_word_ariths)

lemma unat_two_power: "n < LENGTH('a) \<Longrightarrow> unat (2 ^ n :: 'a::len word) = 2 ^ n"
proof -
  assume n: "n < LENGTH('a)"
  have "(2 ^ n :: 'a word) = of_nat (2 ^ n)" by simp
  then have "unat (2 ^ n :: 'a word) = 2 ^ n mod 2 ^ LENGTH('a)" by (metis unat_of_nat)
  also have "\<dots> = 2 ^ n" using n by (intro mod_less) simp
  finally show ?thesis .
qed

lemma or_mult_add: "x < 2 ^ n \<Longrightarrow> (x::nat) OR (y * 2 ^ n) = x + y * 2 ^ n"
proof -
  assume x: "x < 2 ^ n"
  have "x AND (y * 2 ^ n) = 0"
  proof (rule bit_eqI)
    fix m show "bit (x AND (y * 2 ^ n)) m = bit (0::nat) m"
      using x by (cases "m < n")
        (auto simp: bit_and_iff bit_push_bit_iff simp flip: push_bit_eq_mult,
         metis bit_take_bit_iff take_bit_nat_eq_self)
  qed
  then show ?thesis by (simp add: disjunctive_add_eq_or)
qed

lemma unat_push_bit:
  fixes t :: "'a::len word"
  shows "unat t * 2 ^ n < 2 ^ LENGTH('a) \<Longrightarrow> unat (push_bit n t) = unat t * 2 ^ n"
  unfolding unsigned_push_bit_eq by (simp add: push_bit_eq_mult take_bit_nat_eq_self)

lemma unat_or_push_bit:
  fixes k t :: "'a::len word"
  assumes "unat k < 2 ^ n" "unat t * 2 ^ n < 2 ^ LENGTH('a)"
  shows "unat (k OR push_bit n t) = unat k + unat t * 2 ^ n"
  unfolding unsigned_or_eq unat_push_bit [OF assms(2)] by (rule or_mult_add [OF assms(1)])

lemma add_mult_eq_iff:
  fixes x x' y y' b :: nat
  assumes "x < b" "x' < b"
  shows "x + y * b = x' + y' * b \<longleftrightarrow> x = x' \<and> y = y'"
proof
  assume eq: "x + y * b = x' + y' * b"
  have "x = (x + y * b) mod b" "x' = (x' + y' * b) mod b" using assms by simp_all
  with eq have "x = x'" by simp
  with eq assms show "x = x' \<and> y = y'" by simp
qed simp

lemma and_not_mask: "(y :: 'a::len word) AND NOT (mask k) = push_bit k (drop_bit k y)"
  by (rule bit_word_eqI) (auto simp: bit_and_iff bit_not_iff bit_mask_iff bit_push_bit_iff bit_drop_bit_eq)

lemma unat_drop_bit_div: "unat (drop_bit k (w :: 'a::len word)) = unat w div 2 ^ k"
  by (simp add: unat_drop_bit_eq drop_bit_nat_def)

text \<open>The kernel's \<open>PAGE_ALIGN\<close>, at the width of its argument.\<close>

definition PAGE_ALIGN :: "'a::len word \<Rightarrow> 'a word" where
  "PAGE_ALIGN x = (x + 4095) AND NOT 4095"

lemma unat_page_align:
  "unat (PAGE_ALIGN (x :: 'a::len word)) = unat (x + 4095) div 4096 * 4096"
proof -
  have "(4095 :: 'a word) = mask 12" by (simp add: mask_eq_exp_minus_1)
  then have *: "PAGE_ALIGN x = push_bit 12 (drop_bit 12 (x + 4095))"
    unfolding PAGE_ALIGN_def by (simp only: and_not_mask)
  have "unat (drop_bit 12 (x + 4095)) * 2 ^ 12 \<le> unat (x + 4095)"
    by (simp add: unat_drop_bit_div)
  also have "\<dots> < 2 ^ LENGTH('a)" by (rule unsigned_less)
  finally show ?thesis unfolding * by (simp add: unat_push_bit unat_drop_bit_div)
qed

end
