(* ===== verification/Hashtab.thy ===== *)
theory Hashtab
  imports Vmw_Prelude
begin

text \<open>
  The chained hash table of \<open>src/drm_hashtab.c\<close>. A table is an array of chains, each kept in
  increasing key order. The kernel's \<open>hash_long\<close> (linux/hash.h) is a parameter of the model:
  what the table relies on is that it returns a value of the requested number of bits.
  An item is the embedded \<open>struct drm_hash_item\<close>: its key, and the object that contains it
  (\<open>drm_hash_entry\<close>), which also identifies the list node.
\<close>

section \<open>Data\<close>

record 'v drm_hash_item =
  item_key :: u64
  item_obj :: 'v

record 'v drm_open_hash =
  ht_order :: nat
  ht_table :: "'v drm_hash_item list list option"

type_synonym hash_fn = "u64 \<Rightarrow> nat \<Rightarrow> u64"

section \<open>Operations\<close>

definition drm_ht_create ::
  "(nat \<Rightarrow> bool) \<Rightarrow> (nat \<Rightarrow> bool) \<Rightarrow> nat \<Rightarrow> 'v drm_open_hash \<times> unit kres" where
  \<comment> \<open>\<open>kcalloc_ok\<close> and \<open>vzalloc_ok\<close> say whether the allocators succeed\<close>
  "drm_ht_create kcalloc_ok vzalloc_ok order =
     (let size = unat (push_bit order (1 :: u32));
          ok = (if size \<le> PAGE_SIZE div 8 then kcalloc_ok size else vzalloc_ok (size * 8))
      in if ok then (\<lparr>ht_order = order, ht_table = Some (replicate size [])\<rparr>, Inr ())
         else (\<lparr>ht_order = order, ht_table = None\<rparr>, Inl ENOMEM))"

definition ht_chain :: "'v drm_open_hash \<Rightarrow> u64 \<Rightarrow> 'v drm_hash_item list kres" where
  "ht_chain ht hashed_key =
     (case ht_table ht of None \<Rightarrow> Inl OOPS
      | Some t \<Rightarrow> if unat hashed_key < length t then Inr (t ! unat hashed_key) else Inl OOPS)"

definition ht_set_chain ::
  "'v drm_open_hash \<Rightarrow> u64 \<Rightarrow> 'v drm_hash_item list \<Rightarrow> 'v drm_open_hash" where
  "ht_set_chain ht hashed_key l =
     ht\<lparr>ht_table := map_option (\<lambda>t. t[unat hashed_key := l]) (ht_table ht)\<rparr>"

fun hlist_find_key :: "u64 \<Rightarrow> 'v drm_hash_item list \<Rightarrow> 'v drm_hash_item option" where
  "hlist_find_key key [] = None"
| "hlist_find_key key (entry # es) =
     (if item_key entry = key then Some entry
      else if item_key entry > key then None
      else hlist_find_key key es)"

definition drm_ht_find_key ::
  "hash_fn \<Rightarrow> 'v drm_open_hash \<Rightarrow> u64 \<Rightarrow> 'v drm_hash_item option kres" where
  "drm_ht_find_key hash_long ht key =
     kbind (ht_chain ht (hash_long key (ht_order ht))) (\<lambda>h_list. Inr (hlist_find_key key h_list))"

definition drm_ht_find_key_rcu ::
  "hash_fn \<Rightarrow> 'v drm_open_hash \<Rightarrow> u64 \<Rightarrow> 'v drm_hash_item option kres" where
  "drm_ht_find_key_rcu hash_long ht key =
     kbind (ht_chain ht (hash_long key (ht_order ht))) (\<lambda>h_list. Inr (hlist_find_key key h_list))"

text \<open>
  The insertion loop counts the entries it passes: the counter is the position behind
  \<open>parent\<close>, and 0 when \<open>parent\<close> is null.
\<close>

fun ht_insert_pos :: "u64 \<Rightarrow> 'v drm_hash_item list \<Rightarrow> nat \<Rightarrow> nat kres" where
  "ht_insert_pos key [] n = Inr n"
| "ht_insert_pos key (entry # es) n =
     (if item_key entry = key then Inl EINVAL
      else if item_key entry > key then Inr n
      else ht_insert_pos key es (Suc n))"

definition drm_ht_insert_item ::
  "hash_fn \<Rightarrow> 'v drm_open_hash \<Rightarrow> 'v drm_hash_item \<Rightarrow> 'v drm_open_hash kres" where
  "drm_ht_insert_item hash_long ht item =
     (let hashed_key = hash_long (item_key item) (ht_order ht) in
      kbind (ht_chain ht hashed_key) (\<lambda>h_list.
      kbind (ht_insert_pos (item_key item) h_list 0) (\<lambda>n.
        Inr (ht_set_chain ht hashed_key (take n h_list @ item # drop n h_list)))))"

text \<open>
  The \<open>do ... while\<close> loop of \<open>drm_ht_just_insert_please\<close>; \<open>None\<close> means that the fuel
  ran out, which \<open>just_insert_loop_total\<close> below excludes for the fuel the caller gives.
\<close>

fun ht_just_insert_loop ::
  "hash_fn \<Rightarrow> 'v drm_open_hash \<Rightarrow> 'v \<Rightarrow> u64 \<Rightarrow> nat \<Rightarrow> u64 \<Rightarrow> u64 \<Rightarrow> nat \<Rightarrow> u64 \<Rightarrow>
   ('v drm_open_hash \<times> u64) kres option" where
  "ht_just_insert_loop hash_long ht obj msk shift add first 0 unshifted_key = None"
| "ht_just_insert_loop hash_long ht obj msk shift add first (Suc fuel) unshifted_key =
     (let key = push_bit shift unshifted_key + add in
      case drm_ht_insert_item hash_long ht \<lparr>item_key = key, item_obj = obj\<rparr> of
        Inr ht' \<Rightarrow> Some (Inr (ht', key))
      | Inl OOPS \<Rightarrow> Some (Inl OOPS)
      | Inl e \<Rightarrow>
          (let unshifted_key' = (unshifted_key + 1) AND msk in
           if unshifted_key' \<noteq> first
           then ht_just_insert_loop hash_long ht obj msk shift add first fuel unshifted_key'
           else Some (Inl EINVAL)))"

definition drm_ht_just_insert_please ::
  "hash_fn \<Rightarrow> 'v drm_open_hash \<Rightarrow> 'v \<Rightarrow> u64 \<Rightarrow> nat \<Rightarrow> nat \<Rightarrow> u64 \<Rightarrow>
   ('v drm_open_hash \<times> u64) kres option" where
  "drm_ht_just_insert_please hash_long ht obj seed bits shift add =
     (let msk = push_bit bits 1 - 1; first = hash_long seed bits in
      ht_just_insert_loop hash_long ht obj msk shift add first (2 ^ bits) first)"

definition drm_ht_find_item :: "hash_fn \<Rightarrow> 'v drm_open_hash \<Rightarrow> u64 \<Rightarrow> 'v kres" where
  "drm_ht_find_item hash_long ht key =
     kbind (drm_ht_find_key_rcu hash_long ht key)
       (\<lambda>list. case list of None \<Rightarrow> Inl EINVAL | Some entry \<Rightarrow> Inr (item_obj entry))"

definition drm_ht_remove_key :: "hash_fn \<Rightarrow> 'v drm_open_hash \<Rightarrow> u64 \<Rightarrow> 'v drm_open_hash kres" where
  "drm_ht_remove_key hash_long ht key =
     kbind (drm_ht_find_key hash_long ht key)
       (\<lambda>list. case list of None \<Rightarrow> Inl EINVAL
        | Some entry \<Rightarrow>
            kbind (ht_chain ht (hash_long key (ht_order ht))) (\<lambda>h_list.
              Inr (ht_set_chain ht (hash_long key (ht_order ht)) (remove1 entry h_list))))"

text \<open>
  \<open>hlist_del_init_rcu\<close> unlinks the node of an object from the chain it is on, and does
  nothing to a node that is on no chain.
\<close>

definition drm_ht_remove_item :: "'v drm_open_hash \<Rightarrow> 'v \<Rightarrow> 'v drm_open_hash" where
  "drm_ht_remove_item ht obj =
     ht\<lparr>ht_table := map_option (map (filter (\<lambda>e. item_obj e \<noteq> obj))) (ht_table ht)\<rparr>"

definition drm_ht_remove :: "'v drm_open_hash \<Rightarrow> 'v drm_open_hash" where
  "drm_ht_remove ht = ht\<lparr>ht_table := None\<rparr>"


section \<open>Contents and invariant\<close>

definition ht_items :: "'v drm_open_hash \<Rightarrow> 'v drm_hash_item list" where
  "ht_items ht = (case ht_table ht of None \<Rightarrow> [] | Some t \<Rightarrow> concat t)"

text \<open>What a table holds, as a map from keys to objects, whatever chain an item is on.\<close>

definition ht_map :: "'v drm_open_hash \<Rightarrow> u64 \<Rightarrow> 'v option" where
  "ht_map ht = map_of (map (\<lambda>e. (item_key e, item_obj e)) (ht_items ht))"

definition chain_ok :: "hash_fn \<Rightarrow> nat \<Rightarrow> nat \<Rightarrow> 'v drm_hash_item list \<Rightarrow> bool" where
  "chain_ok hash_long order i l \<longleftrightarrow>
     sorted_wrt (\<lambda>a b. item_key a < item_key b) l \<and>
     (\<forall>e\<in>set l. unat (hash_long (item_key e) order) = i)"

definition hash_in_range :: "hash_fn \<Rightarrow> nat \<Rightarrow> bool" where
  "hash_in_range hash_long order \<longleftrightarrow> (\<forall>k. unat (hash_long k order) < 2 ^ order)"

definition ht_inv :: "hash_fn \<Rightarrow> 'v drm_open_hash \<Rightarrow> bool" where
  "ht_inv hash_long ht \<longleftrightarrow>
     hash_in_range hash_long (ht_order ht) \<and>
     (case ht_table ht of None \<Rightarrow> False
      | Some t \<Rightarrow> length t = 2 ^ ht_order ht \<and>
          (\<forall>i < length t. chain_ok hash_long (ht_order ht) i (t ! i)))"

lemma ht_invE:
  assumes "ht_inv hash_long ht"
  obtains t where "ht_table ht = Some t" "length t = 2 ^ ht_order ht"
    "\<And>i. i < length t \<Longrightarrow> chain_ok hash_long (ht_order ht) i (t ! i)"
    "\<And>k. unat (hash_long k (ht_order ht)) < length t"
  using assms by (auto simp: ht_inv_def hash_in_range_def split: option.splits)

lemma item_eta [simp]: "\<lparr>item_key = item_key e, item_obj = item_obj e\<rparr> = e"
  by (cases e) simp

subsection \<open>One chain\<close>

lemma hlist_find_key_Some:
  "sorted_wrt (\<lambda>a b. item_key a < item_key b) l \<Longrightarrow>
   hlist_find_key k l = Some e \<longleftrightarrow> e \<in> set l \<and> item_key e = k"
proof (induction l)
  case (Cons x l)
  then show ?case by (auto dest: less_trans)
qed simp

lemma hlist_find_key_None:
  "sorted_wrt (\<lambda>a b. item_key a < item_key b) l \<Longrightarrow>
   hlist_find_key k l = None \<longleftrightarrow> k \<notin> item_key ` set l"
proof (induction l)
  case (Cons x l)
  then show ?case by (auto dest: less_trans)
qed simp

lemma ht_insert_pos_sorted:
  "sorted_wrt (\<lambda>a b. item_key a < item_key b) l \<Longrightarrow>
   ht_insert_pos k l n =
     (if k \<in> item_key ` set l then Inl EINVAL
      else Inr (n + length (takeWhile (\<lambda>e. item_key e < k) l)))"
proof (induction l arbitrary: n)
  case (Cons x l)
  then show ?case by (auto dest: less_trans)
qed simp

lemma sorted_insert_chain:
  assumes "sorted_wrt (\<lambda>a b. item_key a < item_key b) l" and "item_key x \<notin> item_key ` set l"
  shows "sorted_wrt (\<lambda>a b. item_key a < item_key b)
    (takeWhile (\<lambda>e. item_key e < item_key x) l @ x # dropWhile (\<lambda>e. item_key e < item_key x) l)"
  using assms
proof (induction l)
  case (Cons y l)
  then show ?case
    by (auto dest: set_takeWhileD set_dropWhileD less_trans)
qed simp

lemma chain_insert:
  "take (length (takeWhile P l)) l @ x # drop (length (takeWhile P l)) l
   = takeWhile P l @ x # dropWhile P l"
  by (simp add: takeWhile_eq_take [symmetric] dropWhile_eq_drop [symmetric])

subsection \<open>The whole table\<close>

lemma set_ht_items:
  assumes "ht_inv hash_long ht" and "ht_table ht = Some t"
  shows "e \<in> set (ht_items ht) \<longleftrightarrow> e \<in> set (t ! unat (hash_long (item_key e) (ht_order ht)))"
  using assms by (elim ht_invE) (auto simp: ht_items_def in_set_conv_nth chain_ok_def; metis nth_mem)

lemma chain_subset_items: "ht_table ht = Some t \<Longrightarrow> i < length t \<Longrightarrow> set (t ! i) \<subseteq> set (ht_items ht)"
  by (simp add: ht_items_def) (blast intro: nth_mem)

lemma ht_items_unique:
  assumes inv: "ht_inv hash_long ht" and "e \<in> set (ht_items ht)" "e' \<in> set (ht_items ht)"
    and "item_key e = item_key e'"
  shows "e = e'"
proof -
  from inv obtain t where t: "ht_table ht = Some t"
    and ok: "\<And>i. i < length t \<Longrightarrow> chain_ok hash_long (ht_order ht) i (t ! i)"
    and lt: "\<And>k. unat (hash_long k (ht_order ht)) < length t"
    by (elim ht_invE) auto
  let ?l = "t ! unat (hash_long (item_key e) (ht_order ht))"
  have "sorted_wrt (\<lambda>a b. item_key a < item_key b) ?l"
    using ok [OF lt] by (simp add: chain_ok_def)
  moreover have "e \<in> set ?l" "e' \<in> set ?l"
    using assms set_ht_items [OF inv t] by auto
  ultimately show ?thesis
    using \<open>item_key e = item_key e'\<close> hlist_find_key_Some [of ?l "item_key e"] by (metis option.inject)
qed

lemma ht_map_Some:
  assumes "ht_inv hash_long ht"
  shows "ht_map ht k = Some v \<longleftrightarrow> \<lparr>item_key = k, item_obj = v\<rparr> \<in> set (ht_items ht)"
proof
  assume "ht_map ht k = Some v"
  then obtain e where "e \<in> set (ht_items ht)" "item_key e = k" "item_obj e = v"
    unfolding ht_map_def by (auto dest!: map_of_SomeD)
  then show "\<lparr>item_key = k, item_obj = v\<rparr> \<in> set (ht_items ht)"
    by auto
next
  assume mem: "\<lparr>item_key = k, item_obj = v\<rparr> \<in> set (ht_items ht)"
  then have "(k, v) \<in> set (map (\<lambda>e. (item_key e, item_obj e)) (ht_items ht))"
    by force
  then obtain w where w: "ht_map ht k = Some w"
    unfolding ht_map_def by (metis weak_map_of_SomeI)
  then obtain e where "e \<in> set (ht_items ht)" "item_key e = k" "item_obj e = w"
    unfolding ht_map_def by (auto dest!: map_of_SomeD)
  with ht_items_unique [OF assms mem, of e] w show "ht_map ht k = Some v" by auto
qed

lemma ht_map_None:
  "ht_map ht k = None \<longleftrightarrow> k \<notin> item_key ` set (ht_items ht)"
  by (force simp: ht_map_def map_of_eq_None_iff)

lemma ht_map_add:
  assumes "ht_inv hash_long ht" "ht_inv hash_long ht'" "ht_map ht k = None"
    and "set (ht_items ht') = insert \<lparr>item_key = k, item_obj = v\<rparr> (set (ht_items ht))"
  shows "ht_map ht' = (ht_map ht)(k \<mapsto> v)"
proof
  fix j
  show "ht_map ht' j = ((ht_map ht)(k \<mapsto> v)) j"
  proof (cases "j = k")
    case True
    then show ?thesis using assms ht_map_Some [OF assms(2), of k v] by simp
  next
    case False
    then have "ht_map ht' j = Some w \<longleftrightarrow> ht_map ht j = Some w" for w
      using assms ht_map_Some [OF assms(2), of j w] ht_map_Some [OF assms(1), of j w] by simp
    with False show ?thesis by (metis fun_upd_other option.exhaust)
  qed
qed

lemma ht_map_del:
  assumes "ht_inv hash_long ht" "ht_inv hash_long ht'"
    and "set (ht_items ht') = {e \<in> set (ht_items ht). item_key e \<noteq> k}"
  shows "ht_map ht' = (ht_map ht)(k := None)"
proof
  fix j
  show "ht_map ht' j = ((ht_map ht)(k := None)) j"
  proof (cases "j = k")
    case True
    then show ?thesis using assms by (auto simp: ht_map_None)
  next
    case False
    then have "ht_map ht' j = Some w \<longleftrightarrow> ht_map ht j = Some w" for w
      using assms ht_map_Some [OF assms(2), of j w] ht_map_Some [OF assms(1), of j w] by simp
    with False show ?thesis by (metis fun_upd_other option.exhaust)
  qed
qed

section \<open>Lookup\<close>

lemma ht_chain_inv:
  assumes "ht_inv hash_long ht" and "ht_table ht = Some t"
  shows "ht_chain ht (hash_long k (ht_order ht)) = Inr (t ! unat (hash_long k (ht_order ht)))"
  using assms by (elim ht_invE) (simp add: ht_chain_def)

lemma drm_ht_find_item_map:
  assumes inv: "ht_inv hash_long ht"
  shows "drm_ht_find_item hash_long ht k =
    (case ht_map ht k of None \<Rightarrow> Inl EINVAL | Some v \<Rightarrow> Inr v)"
proof -
  from inv obtain t where t: "ht_table ht = Some t"
    and ok: "\<And>i. i < length t \<Longrightarrow> chain_ok hash_long (ht_order ht) i (t ! i)"
    and lt: "\<And>k. unat (hash_long k (ht_order ht)) < length t"
    by (elim ht_invE) auto
  let ?l = "t ! unat (hash_long k (ht_order ht))"
  have srt: "sorted_wrt (\<lambda>a b. item_key a < item_key b) ?l"
    using ok [OF lt] by (simp add: chain_ok_def)
  show ?thesis
  proof (cases "hlist_find_key k ?l")
    case None
    then have "ht_map ht k = None"
      using hlist_find_key_None [OF srt, of k] set_ht_items [OF inv t] by (auto simp: ht_map_None)
    then show ?thesis
      using None ht_chain_inv [OF inv t] by (simp add: drm_ht_find_item_def drm_ht_find_key_rcu_def)
  next
    case (Some e)
    then have "e \<in> set ?l" "item_key e = k"
      using hlist_find_key_Some [OF srt] by auto
    then have "ht_map ht k = Some (item_obj e)"
      using set_ht_items [OF inv t, of e] by (auto simp: ht_map_Some [OF inv])
    then show ?thesis
      using Some ht_chain_inv [OF inv t] by (simp add: drm_ht_find_item_def drm_ht_find_key_rcu_def)
  qed
qed

section \<open>Insertion and removal\<close>

lemma ht_set_chain_inv:
  assumes inv: "ht_inv hash_long ht"
    and ok: "chain_ok hash_long (ht_order ht) (unat h) l"
  shows "ht_inv hash_long (ht_set_chain ht h l)"
  using assms by (auto simp: ht_inv_def ht_set_chain_def nth_list_update_if split: option.splits)

lemma ht_set_chain_items:
  assumes inv: "ht_inv hash_long ht" and t: "ht_table ht = Some t" and h: "unat h < length t"
    and ok: "chain_ok hash_long (ht_order ht) (unat h) l"
  shows "set (ht_items (ht_set_chain ht h l)) =
    {e \<in> set (ht_items ht). unat (hash_long (item_key e) (ht_order ht)) \<noteq> unat h} \<union> set l"
proof -
  let ?ht = "ht_set_chain ht h l"
  have t': "ht_table ?ht = Some (t[unat h := l])" and o: "ht_order ?ht = ht_order ht"
    using t by (simp_all add: ht_set_chain_def)
  have "e \<in> set (ht_items ?ht) \<longleftrightarrow>
     e \<in> set (ht_items ht) \<and> unat (hash_long (item_key e) (ht_order ht)) \<noteq> unat h \<or> e \<in> set l" for e
    using set_ht_items [OF ht_set_chain_inv [OF inv ok] t', of e] set_ht_items [OF inv t, of e] h ok
    by (auto simp: o nth_list_update_if chain_ok_def)
  then show ?thesis by blast
qed

lemma drm_ht_insert_item_dup:
  assumes inv: "ht_inv hash_long ht" and "ht_map ht (item_key x) = Some w"
  shows "drm_ht_insert_item hash_long ht x = Inl EINVAL"
proof -
  from inv obtain t where t: "ht_table ht = Some t"
    and ok: "\<And>i. i < length t \<Longrightarrow> chain_ok hash_long (ht_order ht) i (t ! i)"
    and lt: "\<And>k. unat (hash_long k (ht_order ht)) < length t"
    by (elim ht_invE) auto
  let ?l = "t ! unat (hash_long (item_key x) (ht_order ht))"
  have srt: "sorted_wrt (\<lambda>a b. item_key a < item_key b) ?l"
    using ok [OF lt] by (simp add: chain_ok_def)
  from assms(2) have "\<lparr>item_key = item_key x, item_obj = w\<rparr> \<in> set ?l"
    using set_ht_items [OF inv t] by (simp add: ht_map_Some [OF inv])
  then have "item_key x \<in> item_key ` set ?l" by (rule image_eqI [rotated]) simp
  then show ?thesis
    using ht_chain_inv [OF inv t]
    by (simp add: drm_ht_insert_item_def Let_def ht_insert_pos_sorted [OF srt])
qed

lemma drm_ht_insert_item_new:
  assumes inv: "ht_inv hash_long ht" and new: "ht_map ht (item_key x) = None"
  obtains ht' where "drm_ht_insert_item hash_long ht x = Inr ht'" "ht_inv hash_long ht'"
    "ht_map ht' = (ht_map ht)(item_key x \<mapsto> item_obj x)"
proof -
  from inv obtain t where t: "ht_table ht = Some t"
    and ok: "\<And>i. i < length t \<Longrightarrow> chain_ok hash_long (ht_order ht) i (t ! i)"
    and lt: "\<And>k. unat (hash_long k (ht_order ht)) < length t"
    by (elim ht_invE) auto
  let ?h = "hash_long (item_key x) (ht_order ht)"
  let ?l = "t ! unat ?h"
  let ?P = "\<lambda>e. item_key e < item_key x"
  let ?l' = "takeWhile ?P ?l @ x # dropWhile ?P ?l"
  let ?ht = "ht_set_chain ht ?h ?l'"
  have srt: "sorted_wrt (\<lambda>a b. item_key a < item_key b) ?l"
    and hashed: "\<forall>e\<in>set ?l. unat (hash_long (item_key e) (ht_order ht)) = unat ?h"
    using ok [OF lt] by (simp_all add: chain_ok_def)
  have fresh: "item_key x \<notin> item_key ` set ?l"
    using new chain_subset_items [OF t lt] unfolding ht_map_None by blast
  have l': "set ?l' = insert x (set ?l)"
    using set_takeWhile_dropWhile [of ?P ?l] by auto
  have ok': "chain_ok hash_long (ht_order ht) (unat ?h) ?l'"
    using sorted_insert_chain [OF srt fresh] hashed l' by (simp add: chain_ok_def)
  have eq: "drm_ht_insert_item hash_long ht x = Inr ?ht"
    using ht_chain_inv [OF inv t] fresh
    by (simp add: drm_ht_insert_item_def Let_def ht_insert_pos_sorted [OF srt] chain_insert)
  have inv': "ht_inv hash_long ?ht" by (rule ht_set_chain_inv [OF inv ok'])
  have "set (ht_items ?ht) = insert x (set (ht_items ht))"
    using ht_set_chain_items [OF inv t lt ok'] l' hashed set_ht_items [OF inv t] by auto
  then have "ht_map ?ht = (ht_map ht)(item_key x \<mapsto> item_obj x)"
    by (intro ht_map_add [OF inv inv' new]) simp
  with eq inv' show ?thesis by (rule that)
qed

lemma drm_ht_remove_key_hit:
  assumes inv: "ht_inv hash_long ht" and hit: "ht_map ht k = Some v"
  obtains ht' where "drm_ht_remove_key hash_long ht k = Inr ht'" "ht_inv hash_long ht'"
    "ht_map ht' = (ht_map ht)(k := None)"
proof -
  from inv obtain t where t: "ht_table ht = Some t"
    and ok: "\<And>i. i < length t \<Longrightarrow> chain_ok hash_long (ht_order ht) i (t ! i)"
    and lt: "\<And>k. unat (hash_long k (ht_order ht)) < length t"
    by (elim ht_invE) auto
  let ?h = "hash_long k (ht_order ht)"
  let ?l = "t ! unat ?h"
  let ?x = "\<lparr>item_key = k, item_obj = v\<rparr>"
  let ?ht = "ht_set_chain ht ?h (remove1 ?x ?l)"
  have srt: "sorted_wrt (\<lambda>a b. item_key a < item_key b) ?l"
    and hashed: "\<forall>e\<in>set ?l. unat (hash_long (item_key e) (ht_order ht)) = unat ?h"
    using ok [OF lt] by (simp_all add: chain_ok_def)
  have x: "?x \<in> set ?l"
    using hit set_ht_items [OF inv t] by (simp add: ht_map_Some [OF inv])
  have "distinct ?l"
    by (rule sorted_wrt_irrefl_distinct [OF srt]) simp
  have l': "set (remove1 ?x ?l) = {e \<in> set ?l. item_key e \<noteq> k}"
    using x ht_items_unique [OF inv, of ?x] chain_subset_items [OF t lt]
    unfolding set_remove1_eq [OF \<open>distinct ?l\<close>] by fastforce
  have ok': "chain_ok hash_long (ht_order ht) (unat ?h) (remove1 ?x ?l)"
    using remove1_sorted_wrt [OF srt] hashed l' by (simp add: chain_ok_def)
  have "hlist_find_key k ?l = Some ?x"
    using hlist_find_key_Some [OF srt, of k] x by auto
  then have eq: "drm_ht_remove_key hash_long ht k = Inr ?ht"
    using ht_chain_inv [OF inv t] by (simp add: drm_ht_remove_key_def drm_ht_find_key_def)
  have inv': "ht_inv hash_long ?ht" by (rule ht_set_chain_inv [OF inv ok'])
  have "set (ht_items ?ht) = {e \<in> set (ht_items ht). item_key e \<noteq> k}"
    using ht_set_chain_items [OF inv t lt ok'] l' hashed set_ht_items [OF inv t] by auto
  then have "ht_map ?ht = (ht_map ht)(k := None)"
    by (rule ht_map_del [OF inv inv'])
  with eq inv' show ?thesis by (rule that)
qed

lemma drm_ht_remove_key_miss:
  assumes inv: "ht_inv hash_long ht" and miss: "ht_map ht k = None"
  shows "drm_ht_remove_key hash_long ht k = Inl EINVAL"
proof -
  from inv obtain t where t: "ht_table ht = Some t"
    and ok: "\<And>i. i < length t \<Longrightarrow> chain_ok hash_long (ht_order ht) i (t ! i)"
    and lt: "\<And>k. unat (hash_long k (ht_order ht)) < length t"
    by (elim ht_invE) auto
  let ?l = "t ! unat (hash_long k (ht_order ht))"
  have "sorted_wrt (\<lambda>a b. item_key a < item_key b) ?l"
    using ok [OF lt] by (simp add: chain_ok_def)
  moreover have "k \<notin> item_key ` set ?l"
    using miss chain_subset_items [OF t lt] unfolding ht_map_None by blast
  ultimately have "hlist_find_key k ?l = None" by (simp add: hlist_find_key_None)
  then show ?thesis
    using ht_chain_inv [OF inv t] by (simp add: drm_ht_remove_key_def drm_ht_find_key_def)
qed

lemma drm_ht_remove_item_items:
  "set (ht_items (drm_ht_remove_item ht v)) = {e \<in> set (ht_items ht). item_obj e \<noteq> v}"
  by (auto simp: ht_items_def drm_ht_remove_item_def split: option.splits)

lemma drm_ht_remove_item_inv:
  "ht_inv hash_long ht \<Longrightarrow> ht_inv hash_long (drm_ht_remove_item ht v)"
  by (auto simp: ht_inv_def drm_ht_remove_item_def chain_ok_def sorted_wrt_filter
      split: option.splits)

lemma drm_ht_remove_item_map:
  assumes inv: "ht_inv hash_long ht"
    and uniq: "\<And>j. ht_map ht j = Some v \<longleftrightarrow> j = k"
  shows "ht_map (drm_ht_remove_item ht v) = (ht_map ht)(k := None)"
proof (rule ht_map_del [OF inv drm_ht_remove_item_inv [OF inv]])
  have "item_obj e = v \<longleftrightarrow> item_key e = k" if "e \<in> set (ht_items ht)" for e
  proof -
    have "ht_map ht (item_key e) = Some (item_obj e)"
      using that by (simp add: ht_map_Some [OF inv])
    then show ?thesis using uniq by (metis option.inject)
  qed
  then show "set (ht_items (drm_ht_remove_item ht v)) = {e \<in> set (ht_items ht). item_key e \<noteq> k}"
    unfolding drm_ht_remove_item_items by blast
qed

lemma drm_ht_create_ok:
  assumes "hash_in_range hash_long order" "order < 32"
    and "drm_ht_create kcalloc_ok vzalloc_ok order = (ht, Inr ())"
  shows "ht_inv hash_long ht \<and> ht_map ht = Map.empty"
proof -
  have "unat (push_bit order (1 :: u32)) = 2 ^ order"
    using assms(2) by (simp add: push_bit_eq_mult unat_two_power)
  then show ?thesis
    using assms
    by (auto simp: drm_ht_create_def Let_def ht_inv_def chain_ok_def ht_map_def ht_items_def
        split: if_splits)
qed

section \<open>The interface the table offers\<close>

text \<open>
  What a client may rely on: a partial map from 64-bit keys to objects, with insertion that
  refuses a key in use, lookup, and removal by key or by object.
\<close>

locale keyed_store =
  fixes invar :: "'h \<Rightarrow> bool"
    and lookup :: "'h \<Rightarrow> u64 \<Rightarrow> 'v option"
    and find_item :: "'h \<Rightarrow> u64 \<Rightarrow> 'v kres"
    and insert_item :: "'h \<Rightarrow> u64 \<Rightarrow> 'v \<Rightarrow> 'h kres"
    and remove_key :: "'h \<Rightarrow> u64 \<Rightarrow> 'h kres"
    and remove_obj :: "'h \<Rightarrow> 'v \<Rightarrow> 'h"
  assumes find_law:
      "invar h \<Longrightarrow> find_item h k = (case lookup h k of None \<Rightarrow> Inl EINVAL | Some v \<Rightarrow> Inr v)"
    and insert_dup: "invar h \<Longrightarrow> lookup h k = Some w \<Longrightarrow> insert_item h k v = Inl EINVAL"
    and insert_new: "invar h \<Longrightarrow> lookup h k = None \<Longrightarrow>
      \<exists>h'. insert_item h k v = Inr h' \<and> invar h' \<and> lookup h' = (lookup h)(k \<mapsto> v)"
    and remove_hit: "invar h \<Longrightarrow> lookup h k = Some v \<Longrightarrow>
      \<exists>h'. remove_key h k = Inr h' \<and> invar h' \<and> lookup h' = (lookup h)(k := None)"
    and remove_miss: "invar h \<Longrightarrow> lookup h k = None \<Longrightarrow> remove_key h k = Inl EINVAL"
    and remove_obj_invar: "invar h \<Longrightarrow> invar (remove_obj h v)"
    and remove_obj_law: "invar h \<Longrightarrow> (\<And>j. lookup h j = Some v \<longleftrightarrow> j = k) \<Longrightarrow>
      lookup (remove_obj h v) = (lookup h)(k := None)"
begin

lemma insert_Inr:
  "invar h \<Longrightarrow> insert_item h k v = Inr h' \<Longrightarrow>
   lookup h k = None \<and> invar h' \<and> lookup h' = (lookup h)(k \<mapsto> v)"
  using insert_new [of h k v] insert_dup [of h k _ v] by (cases "lookup h k") auto

lemma find_Inr: "invar h \<Longrightarrow> find_item h k = Inr v \<longleftrightarrow> lookup h k = Some v"
  by (simp add: find_law split: option.splits)

lemma find_after_insert:
  "invar h \<Longrightarrow> insert_item h k v = Inr h' \<Longrightarrow>
   find_item h' j = (if j = k then Inr v else find_item h j)"
  using insert_Inr [of h k v h'] by (simp add: find_law)

lemma remove_after_insert:
  assumes "invar h" "insert_item h k v = Inr h'"
  obtains h'' where "remove_key h' k = Inr h''" "invar h''" "lookup h'' = lookup h"
proof -
  from assms have "lookup h k = None" "invar h'" "lookup h' = (lookup h)(k \<mapsto> v)"
    by (auto dest: insert_Inr)
  with remove_hit [of h' k v] that show ?thesis by (auto simp: fun_upd_idem)
qed

lemma remove_obj_after_insert:
  assumes "invar h" "insert_item h k v = Inr h'" "v \<notin> ran (lookup h)"
  shows "lookup (remove_obj h' v) = lookup h"
proof -
  from assms have *: "lookup h k = None" "invar h'" "lookup h' = (lookup h)(k \<mapsto> v)"
    by (auto dest: insert_Inr)
  have "lookup h' j = Some v \<longleftrightarrow> j = k" for j
    using * assms(3) by (auto simp: ran_def)
  from remove_obj_law [OF \<open>invar h'\<close> this] * show ?thesis by (simp add: fun_upd_idem)
qed

end

interpretation drm_ht: keyed_store
  "ht_inv hash_long" ht_map "drm_ht_find_item hash_long"
  "\<lambda>h k v. drm_ht_insert_item hash_long h \<lparr>item_key = k, item_obj = v\<rparr>"
  "drm_ht_remove_key hash_long" drm_ht_remove_item
  for hash_long
proof (unfold_locales, goal_cases)
  case (1 h k) then show ?case by (rule drm_ht_find_item_map)
next
  case (2 h k w v) then show ?case by (auto intro: drm_ht_insert_item_dup)
next
  case (3 h k v)
  then show ?case
    by (auto elim: drm_ht_insert_item_new [of hash_long h "\<lparr>item_key = k, item_obj = v\<rparr>"])
next
  case (4 h k v) then show ?case by (metis drm_ht_remove_key_hit)
next
  case (5 h k) then show ?case by (rule drm_ht_remove_key_miss)
next
  case (6 h v) then show ?case by (rule drm_ht_remove_item_inv)
next
  case (7 h v k) then show ?case by (rule drm_ht_remove_item_map)
qed

section \<open>Inserting under any free key\<close>

definition key_candidate :: "nat \<Rightarrow> u64 \<Rightarrow> nat \<Rightarrow> u64" where
  "key_candidate bits first m = of_nat ((unat first + m) mod 2 ^ bits)"

lemma unat_key_candidate:
  "bits < 64 \<Longrightarrow> unat (key_candidate bits first m) = (unat first + m) mod 2 ^ bits"
proof -
  assume "bits < 64"
  then have "(2 :: nat) ^ bits < 2 ^ 64" by (intro power_strict_increasing) auto
  moreover have "(unat first + m) mod 2 ^ bits < 2 ^ bits" by simp
  ultimately have "(unat first + m) mod 2 ^ bits < 2 ^ 64" by linarith
  then show ?thesis by (simp add: key_candidate_def unat_of_nat)
qed

lemma key_candidate_0:
  "unat first < 2 ^ bits \<Longrightarrow> key_candidate bits first 0 = first"
  by (simp add: key_candidate_def)

lemma key_candidate_Suc:
  assumes "bits < 64"
  shows "(key_candidate bits first m + 1) AND (2 ^ bits - 1) = key_candidate bits first (Suc m)"
proof -
  have dvd: "(2 :: nat) ^ bits dvd 2 ^ 64" using assms by (intro le_imp_power_dvd) simp
  have "unat ((key_candidate bits first m + 1) AND (2 ^ bits - 1))
      = Suc ((unat first + m) mod 2 ^ bits) mod 2 ^ 64 mod 2 ^ bits"
    using assms by (simp add: unat_and_mask unat_Suc_mod unat_key_candidate)
  also have "\<dots> = (unat first + Suc m) mod 2 ^ bits"
    by (simp add: mod_mod_cancel [OF dvd, simplified] mod_Suc_eq)
  also have "\<dots> = unat (key_candidate bits first (Suc m))"
    using assms by (simp add: unat_key_candidate)
  finally show ?thesis by (rule word_unat_eq_iff [THEN iffD2])
qed

lemma key_candidate_back:
  assumes "bits < 64" "unat first < 2 ^ bits" "m < 2 ^ bits"
  shows "key_candidate bits first (Suc m) = first \<longleftrightarrow> Suc m = 2 ^ bits"
proof -
  have "key_candidate bits first (Suc m) = first \<longleftrightarrow> (unat first + Suc m) mod 2 ^ bits = unat first mod 2 ^ bits"
    using assms by (auto simp: unat_key_candidate word_unat_eq_iff)
  also have "\<dots> \<longleftrightarrow> 2 ^ bits dvd Suc m"
    by (metis add_diff_cancel_left' le_add1 mod_eq_dvd_iff_nat)
  also have "\<dots> \<longleftrightarrow> Suc m = 2 ^ bits"
    using assms(3) by (auto dest: dvd_imp_le)
  finally show ?thesis .
qed

lemma key_candidate_onto:
  assumes "bits < 64" "unat first < 2 ^ bits" "unat x < 2 ^ bits"
  obtains m where "m < 2 ^ bits" "key_candidate bits first m = x"
proof
  let ?m = "(unat x + (2 ^ bits - unat first)) mod 2 ^ bits"
  show "?m < 2 ^ bits" by simp
  have "unat (key_candidate bits first ?m) = (unat first + (unat x + (2 ^ bits - unat first))) mod 2 ^ bits"
    using assms(1) by (simp add: unat_key_candidate mod_add_right_eq)
  also have "\<dots> = unat x" using assms(2,3) by simp
  finally show "key_candidate bits first ?m = x" by (rule word_unat_eq_iff [THEN iffD2])
qed

text \<open>
  The loop tries the candidates from the \<open>m\<close>-th on: it stores the object under the first
  free one, and reports \<open>EINVAL\<close> when it has come round to the first.
\<close>

lemma just_insert_loop_total:
  assumes inv: "ht_inv hash_long ht" and bits: "bits < 64" "unat first < 2 ^ bits"
  shows "m + fuel = 2 ^ bits \<Longrightarrow> 0 < fuel \<Longrightarrow>
    (let r = ht_just_insert_loop hash_long ht obj (push_bit bits 1 - 1) shift add first fuel
               (key_candidate bits first m);
         key = (\<lambda>i. push_bit shift (key_candidate bits first i) + add)
     in (\<exists>i ht'. m \<le> i \<and> i < 2 ^ bits \<and> ht_map ht (key i) = None \<and> r = Some (Inr (ht', key i)) \<and>
            ht_inv hash_long ht' \<and> ht_map ht' = (ht_map ht)(key i \<mapsto> obj)) \<or>
        (r = Some (Inl EINVAL) \<and> (\<forall>i. m \<le> i \<and> i < 2 ^ bits \<longrightarrow> ht_map ht (key i) \<noteq> None)))"
proof (induction fuel arbitrary: m)
  case (Suc fuel)
  let ?key = "\<lambda>i. push_bit shift (key_candidate bits first i) + add"
  let ?item = "\<lparr>item_key = ?key m, item_obj = obj\<rparr>"
  show ?case
  proof (cases "ht_map ht (?key m)")
    case None
    then obtain ht' where ins: "drm_ht_insert_item hash_long ht ?item = Inr ht'"
      and new: "ht_inv hash_long ht'" "ht_map ht' = (ht_map ht)(?key m \<mapsto> obj)"
      by (elim drm_ht_insert_item_new [OF inv, of ?item, simplified]) auto
    have "m \<le> m \<and> m < 2 ^ bits" using Suc.prems by simp
    with None ins new show ?thesis by (auto simp: Let_def intro!: exI [of _ m])
  next
    case (Some w)
    then have dup: "drm_ht_insert_item hash_long ht ?item = Inl EINVAL"
      by (intro drm_ht_insert_item_dup [OF inv]) simp
    have m: "m < 2 ^ bits" using Suc.prems by simp
    show ?thesis
    proof (cases "Suc m = 2 ^ bits")
      case True
      then have "key_candidate bits first (Suc m) = first"
        using key_candidate_back [OF bits m] by simp
      moreover have "i = m" if "m \<le> i" "i < 2 ^ bits" for i using that True by simp
      ultimately show ?thesis
        using dup Some by (auto simp: Let_def key_candidate_Suc [OF bits(1)])
    next
      case False
      then have ne: "key_candidate bits first (Suc m) \<noteq> first"
        using key_candidate_back [OF bits m] by simp
      have split: "m \<le> i \<longleftrightarrow> i = m \<or> Suc m \<le> i" for i by auto
      from False Suc.prems have "Suc m + fuel = 2 ^ bits" "0 < fuel" by auto
      from Suc.IH [OF this] Some dup ne show ?thesis
        by (simp add: Let_def key_candidate_Suc [OF bits(1)] split) blast
    qed
  qed
qed simp

lemma drm_ht_just_insert_total:
  assumes "ht_inv hash_long ht" "bits < 64" "hash_in_range hash_long bits"
  shows "(\<exists>x ht'. let key = push_bit shift x + add in
            unat x < 2 ^ bits \<and> ht_map ht key = None \<and>
            drm_ht_just_insert_please hash_long ht obj seed bits shift add = Some (Inr (ht', key)) \<and>
            ht_inv hash_long ht' \<and> ht_map ht' = (ht_map ht)(key \<mapsto> obj)) \<or>
         (drm_ht_just_insert_please hash_long ht obj seed bits shift add = Some (Inl EINVAL) \<and>
            (\<forall>x. unat x < 2 ^ bits \<longrightarrow> ht_map ht (push_bit shift x + add) \<noteq> None))"
proof -
  let ?first = "hash_long seed bits"
  let ?r = "drm_ht_just_insert_please hash_long ht obj seed bits shift add"
  have first: "unat ?first < 2 ^ bits" using assms(3) by (simp add: hash_in_range_def)
  have "?r = ht_just_insert_loop hash_long ht obj (push_bit bits 1 - 1) shift add ?first (2 ^ bits)
      (key_candidate bits ?first 0)"
    by (simp add: drm_ht_just_insert_please_def Let_def key_candidate_0 [OF first])
  with just_insert_loop_total [OF assms(1,2) first, of 0 "2 ^ bits" obj shift add]
  consider i ht' where "i < 2 ^ bits" "ht_map ht (push_bit shift (key_candidate bits ?first i) + add) = None"
      "?r = Some (Inr (ht', push_bit shift (key_candidate bits ?first i) + add))" "ht_inv hash_long ht'"
      "ht_map ht' = (ht_map ht)(push_bit shift (key_candidate bits ?first i) + add \<mapsto> obj)"
    | "?r = Some (Inl EINVAL)"
      "\<And>i. i < 2 ^ bits \<Longrightarrow> ht_map ht (push_bit shift (key_candidate bits ?first i) + add) \<noteq> None"
    by (auto simp: Let_def)
  then show ?thesis
  proof cases
    case 1
    then show ?thesis
      using unat_key_candidate [OF assms(2), of ?first i]
      by (intro disjI1 exI [of _ "key_candidate bits ?first i"] exI [of _ ht']) (simp add: Let_def)
  next
    case 2
    then show ?thesis by (metis key_candidate_onto [OF assms(2) first])
  qed
qed

section \<open>Properties\<close>

text \<open>
  A hash function for the concrete instances: the low bits of the key, which is in range for
  every table order.
\<close>

definition low_bits_hash :: hash_fn where
  "low_bits_hash k n = take_bit n k"

lemma low_bits_hash_in_range: "n \<le> 64 \<Longrightarrow> hash_in_range low_bits_hash n"
  by (simp add: hash_in_range_def low_bits_hash_def unsigned_take_bit_eq take_bit_nat_def)

text \<open>
  C26: Inserting into the hash table refines insertion into a partial map: a key in use is
  refused with EINVAL and the table is not changed; any other key is stored, the table stays
  well formed, and afterwards looking up that key returns the object and every other lookup
  is as before.
\<close>

theorem drm_ht_insert_refines_map:
  assumes "ht_inv hash_long ht"
  shows "(\<exists>w. ht_map ht k = Some w) \<and>
      drm_ht_insert_item hash_long ht \<lparr>item_key = k, item_obj = v\<rparr> = Inl EINVAL \<or>
    (\<exists>ht'. ht_map ht k = None \<and>
      drm_ht_insert_item hash_long ht \<lparr>item_key = k, item_obj = v\<rparr> = Inr ht' \<and>
      ht_inv hash_long ht' \<and> ht_map ht' = (ht_map ht)(k \<mapsto> v) \<and>
      (\<forall>j. drm_ht_find_item hash_long ht' j =
         (if j = k then Inr v else drm_ht_find_item hash_long ht j)))"
proof (cases "ht_map ht k")
  case (Some w)
  then show ?thesis using drm_ht.insert_dup [OF assms Some] by blast
next
  case None
  from drm_ht.insert_new [OF assms None] obtain ht' where
    "drm_ht_insert_item hash_long ht \<lparr>item_key = k, item_obj = v\<rparr> = Inr ht'" "ht_inv hash_long ht'"
    "ht_map ht' = (ht_map ht)(k \<mapsto> v)" by blast
  with None drm_ht.find_after_insert [OF assms] show ?thesis by blast
qed

definition small_table :: "nat drm_open_hash" where
  "small_table = \<lparr>ht_order = 1, ht_table = Some [[\<lparr>item_key = 4, item_obj = 40\<rparr>], []]\<rparr>"

lemma small_table_inv: "ht_inv low_bits_hash small_table"
  using low_bits_hash_in_range [of 1]
  by (auto simp: ht_inv_def small_table_def chain_ok_def low_bits_hash_def less_Suc_eq)

theorem drm_ht_insert_refines_map_witness:
  "\<exists>ht'. drm_ht_insert_item low_bits_hash small_table \<lparr>item_key = 6, item_obj = 60\<rparr> = Inr ht' \<and>
     drm_ht_find_item low_bits_hash ht' 6 = Inr 60 \<and> drm_ht_find_item low_bits_hash ht' 4 = Inr 40"
proof -
  have "ht_map small_table 6 = None" "drm_ht_find_item low_bits_hash small_table 4 = Inr 40"
    by (simp_all add: ht_map_def ht_items_def small_table_def drm_ht_find_item_def
        drm_ht_find_key_rcu_def ht_chain_def low_bits_hash_def)
  with drm_ht_insert_refines_map [OF small_table_inv, of 6 60] show ?thesis by auto
qed

text \<open>\<open>drm_ht_just_insert_please\<close> always returns, after at most \<open>2 ^ bits\<close> insertion
  attempts: either it stores the object under a key of the requested form that was free, and
  nothing else changes, or it returns EINVAL, and then every key of that form is in use.
\<close>

lemma drm_ht_just_insert_please_spec:
  assumes "ht_inv hash_long ht" "bits < 64" "hash_in_range hash_long bits"
  shows "(\<exists>x ht'. let key = push_bit shift x + add in
            unat x < 2 ^ bits \<and> ht_map ht key = None \<and>
            drm_ht_just_insert_please hash_long ht obj seed bits shift add = Some (Inr (ht', key)) \<and>
            ht_inv hash_long ht' \<and> ht_map ht' = (ht_map ht)(key \<mapsto> obj)) \<or>
         (drm_ht_just_insert_please hash_long ht obj seed bits shift add = Some (Inl EINVAL) \<and>
            (\<forall>x. unat x < 2 ^ bits \<longrightarrow> ht_map ht (push_bit shift x + add) \<noteq> None))"
  using assms by (rule drm_ht_just_insert_total)

lemma drm_ht_just_insert_please_spec_example:
  "ht_inv low_bits_hash small_table \<and>
   (\<exists>ht' k. drm_ht_just_insert_please low_bits_hash small_table 9 4 2 1 0 = Some (Inr (ht', k)))"
proof -
  have r: "hash_in_range low_bits_hash 2" by (rule low_bits_hash_in_range) simp
  have "ht_map small_table (push_bit 1 1 + 0) = None" "unat (1 :: u64) < 2 ^ 2"
    by (simp_all add: ht_map_def ht_items_def small_table_def)
  with drm_ht_just_insert_please_spec [OF small_table_inv _ r, of 1 0 9 4] small_table_inv
  show ?thesis by (fastforce simp: Let_def)
qed

end
