(* ===== verification/Cmdbuf_Res.thy ===== *)
theory Cmdbuf_Res
  imports Hashtab
begin

text \<open>
  Command-buffer managed resources (\<open>src/vmwgfx_cmdbuf_res.c\<close>) and the shader and view
  name spaces built on them (\<open>src/vmwgfx_shader.c\<close>, \<open>src/vmwgfx_so.c\<close>). The entries, the
  managers and the reference counts of the resources are kept in one store, addressed by
  pointers (numbers; 0 is the null pointer), because a staging list of an execbuf call may
  hold entries of several managers and an entry is shared by a hash table and a list.
  Allocation takes the address \<open>kzalloc\<close> returned as an argument, \<open>None\<close> when it fails.
\<close>

section \<open>Data\<close>

datatype vmw_cmdbuf_res_type = vmw_cmdbuf_res_shader | vmw_cmdbuf_res_view

datatype vmw_cmdbuf_res_state =
  VMW_CMDBUF_RES_COMMITTED | VMW_CMDBUF_RES_ADD | VMW_CMDBUF_RES_DEL

record vmw_cmdbuf_res =
  cres_res :: nat
  cres_key :: u64
  cres_state :: vmw_cmdbuf_res_state
  cres_man :: nat

record vmw_cmdbuf_res_manager =
  man_resources :: "nat drm_open_hash"
  man_list :: "nat list"
  man_dev_priv :: nat

record cres_store =
  entries :: "nat \<Rightarrow> vmw_cmdbuf_res option"
  mans :: "nat \<Rightarrow> vmw_cmdbuf_res_manager option"
  krefs :: "nat \<Rightarrow> int"
  notified :: "(nat \<times> vmw_cmdbuf_res_state) list"

fun res_type_code :: "vmw_cmdbuf_res_type \<Rightarrow> u32" where
  "res_type_code vmw_cmdbuf_res_shader = 0"
| "res_type_code vmw_cmdbuf_res_view = 1"

abbreviation VMW_CMDBUF_RES_MAN_HT_ORDER :: nat where
  "VMW_CMDBUF_RES_MAN_HT_ORDER \<equiv> 12"

definition cmdbuf_res_key :: "vmw_cmdbuf_res_type \<Rightarrow> u32 \<Rightarrow> u64" where
  "cmdbuf_res_key res_type user_key = ucast (user_key OR push_bit 24 (res_type_code res_type))"

definition kref_get :: "nat \<Rightarrow> cres_store \<Rightarrow> cres_store" where
  "kref_get res w = w\<lparr>krefs := (krefs w)(res := krefs w res + 1)\<rparr>"

definition kref_put :: "nat \<Rightarrow> cres_store \<Rightarrow> cres_store" where
  "kref_put res w = w\<lparr>krefs := (krefs w)(res := krefs w res - 1)\<rparr>"

definition upd_man ::
  "nat \<Rightarrow> (vmw_cmdbuf_res_manager \<Rightarrow> vmw_cmdbuf_res_manager) \<Rightarrow> cres_store \<Rightarrow> cres_store" where
  "upd_man man f w = w\<lparr>mans := (mans w)(man := map_option f (mans w man))\<rparr>"

definition set_entry :: "nat \<Rightarrow> vmw_cmdbuf_res option \<Rightarrow> cres_store \<Rightarrow> cres_store" where
  "set_entry p e w = w\<lparr>entries := (entries w)(p := e)\<rparr>"

section \<open>Operations\<close>

definition vmw_cmdbuf_res_lookup ::
  "hash_fn \<Rightarrow> cres_store \<Rightarrow> nat \<Rightarrow> vmw_cmdbuf_res_type \<Rightarrow> u32 \<Rightarrow> nat kres" where
  "vmw_cmdbuf_res_lookup hash_long w man res_type user_key =
     (case mans w man of None \<Rightarrow> Inl OOPS
      | Some m \<Rightarrow>
          kbind (drm_ht_find_item hash_long (man_resources m) (cmdbuf_res_key res_type user_key))
            (\<lambda>p. case entries w p of None \<Rightarrow> Inl OOPS | Some e \<Rightarrow> Inr (cres_res e)))"

text \<open>
  \<open>list_del\<close> takes the entry off the list it is on, the manager's or the caller's: the
  caller's list is the argument and a part of the result.
\<close>

definition vmw_cmdbuf_res_free ::
  "cres_store \<Rightarrow> nat \<Rightarrow> nat \<Rightarrow> vmw_cmdbuf_res \<Rightarrow> nat list \<Rightarrow> cres_store \<times> nat list" where
  "vmw_cmdbuf_res_free w man p e list =
     (let w1 = upd_man man (\<lambda>m. m\<lparr>man_list := removeAll p (man_list m)\<rparr>) w;
          w2 = upd_man man (\<lambda>m. m\<lparr>man_resources := drm_ht_remove_item (man_resources m) p\<rparr>) w1;
          w3 = kref_put (cres_res e) w2
      in (set_entry p None w3, removeAll p list))"

definition commit_notify ::
  "(nat \<Rightarrow> bool) \<Rightarrow> nat \<Rightarrow> vmw_cmdbuf_res_state \<Rightarrow> cres_store \<Rightarrow> cres_store" where
  "commit_notify has_notify res st w =
     (if has_notify res then w\<lparr>notified := notified w @ [(res, st)]\<rparr> else w)"

text \<open>
  Both loops visit every entry of the caller's list and unlink it, so the list is empty when
  they return. \<open>has_notify\<close> says which resources have a \<open>commit_notify\<close> callback; the calls
  made are recorded in order.
\<close>

fun vmw_cmdbuf_res_commit :: "(nat \<Rightarrow> bool) \<Rightarrow> cres_store \<Rightarrow> nat list \<Rightarrow> cres_store kres" where
  "vmw_cmdbuf_res_commit has_notify w [] = Inr w"
| "vmw_cmdbuf_res_commit has_notify w (p # next) =
     (case entries w p of None \<Rightarrow> Inl OOPS
      | Some e \<Rightarrow>
          (let w1 = commit_notify has_notify (cres_res e) (cres_state e) w in
           case cres_state e of
             VMW_CMDBUF_RES_ADD \<Rightarrow>
               vmw_cmdbuf_res_commit has_notify
                 (upd_man (cres_man e) (\<lambda>m. m\<lparr>man_list := man_list m @ [p]\<rparr>)
                   (set_entry p (Some (e\<lparr>cres_state := VMW_CMDBUF_RES_COMMITTED\<rparr>)) w1)) next
           | VMW_CMDBUF_RES_DEL \<Rightarrow>
               vmw_cmdbuf_res_commit has_notify (set_entry p None (kref_put (cres_res e) w1)) next
           | VMW_CMDBUF_RES_COMMITTED \<Rightarrow> Inl OOPS))"

fun vmw_cmdbuf_res_revert :: "hash_fn \<Rightarrow> cres_store \<Rightarrow> nat list \<Rightarrow> cres_store kres" where
  "vmw_cmdbuf_res_revert hash_long w [] = Inr w"
| "vmw_cmdbuf_res_revert hash_long w (p # next) =
     (case entries w p of None \<Rightarrow> Inl OOPS
      | Some e \<Rightarrow>
          (case cres_state e of
             VMW_CMDBUF_RES_ADD \<Rightarrow>
               vmw_cmdbuf_res_revert hash_long (fst (vmw_cmdbuf_res_free w (cres_man e) p e next)) next
           | VMW_CMDBUF_RES_DEL \<Rightarrow>
               vmw_cmdbuf_res_revert hash_long
                 (set_entry p (Some (e\<lparr>cres_state := VMW_CMDBUF_RES_COMMITTED\<rparr>))
                   (upd_man (cres_man e) (\<lambda>m. m\<lparr>man_list := man_list m @ [p]\<rparr>)
                     (upd_man (cres_man e)
                       (\<lambda>m. case drm_ht_insert_item hash_long (man_resources m)
                                 \<lparr>item_key = cres_key e, item_obj = p\<rparr> of
                              Inr ht \<Rightarrow> m\<lparr>man_resources := ht\<rparr> | Inl _ \<Rightarrow> m) w))) next
           | VMW_CMDBUF_RES_COMMITTED \<Rightarrow> Inl OOPS))"

text \<open>
  The zeroed entry of \<open>kzalloc\<close> with its key set: what stays allocated when the key is
  already in use.
\<close>

definition zero_cres :: "u64 \<Rightarrow> vmw_cmdbuf_res" where
  "zero_cres key = \<lparr>cres_res = 0, cres_key = key, cres_state = VMW_CMDBUF_RES_COMMITTED, cres_man = 0\<rparr>"

definition vmw_cmdbuf_res_add ::
  "hash_fn \<Rightarrow> nat option \<Rightarrow> cres_store \<Rightarrow> nat \<Rightarrow> vmw_cmdbuf_res_type \<Rightarrow> u32 \<Rightarrow> nat \<Rightarrow> nat list \<Rightarrow>
   (cres_store \<times> nat list) \<times> unit kres" where
  "vmw_cmdbuf_res_add hash_long kzalloc w man res_type user_key res list =
     (case kzalloc of None \<Rightarrow> ((w, list), Inl ENOMEM)
      | Some p \<Rightarrow>
          (let key = cmdbuf_res_key res_type user_key; w1 = set_entry p (Some (zero_cres key)) w in
           case mans w man of None \<Rightarrow> ((w1, list), Inl OOPS)
           | Some m \<Rightarrow>
               (case drm_ht_insert_item hash_long (man_resources m)
                       \<lparr>item_key = key, item_obj = p\<rparr> of
                  Inl ret \<Rightarrow> ((w1, list), Inl ret)
                | Inr ht \<Rightarrow>
                    ((kref_get res
                        (set_entry p (Some \<lparr>cres_res = res, cres_key = key,
                           cres_state = VMW_CMDBUF_RES_ADD, cres_man = man\<rparr>)
                          (upd_man man (\<lambda>m. m\<lparr>man_resources := ht\<rparr>) w1)), list @ [p]), Inr ()))))"

definition vmw_cmdbuf_res_remove ::
  "hash_fn \<Rightarrow> cres_store \<Rightarrow> nat \<Rightarrow> vmw_cmdbuf_res_type \<Rightarrow> u32 \<Rightarrow> nat list \<Rightarrow>
   (cres_store \<times> nat list) \<times> nat option kres" where
  \<comment> \<open>the value of a successful call is \<open>*res_p\<close>, \<open>None\<close> for the null pointer\<close>
  "vmw_cmdbuf_res_remove hash_long w man res_type user_key list =
     (case mans w man of None \<Rightarrow> ((w, list), Inl OOPS)
      | Some m \<Rightarrow>
          (case drm_ht_find_item hash_long (man_resources m) (cmdbuf_res_key res_type user_key) of
             Inl OOPS \<Rightarrow> ((w, list), Inl OOPS)
           | Inl _ \<Rightarrow> ((w, list), Inl EINVAL)
           | Inr p \<Rightarrow>
               (case entries w p of None \<Rightarrow> ((w, list), Inl OOPS)
                | Some e \<Rightarrow>
                    (case cres_state e of
                       VMW_CMDBUF_RES_ADD \<Rightarrow> (vmw_cmdbuf_res_free w man p e list, Inr None)
                     | VMW_CMDBUF_RES_COMMITTED \<Rightarrow>
                         ((set_entry p (Some (e\<lparr>cres_state := VMW_CMDBUF_RES_DEL\<rparr>))
                            (upd_man man (\<lambda>m. m\<lparr>man_list := removeAll p (man_list m)\<rparr>)
                              (upd_man man (\<lambda>m. m\<lparr>man_resources :=
                                 drm_ht_remove_item (man_resources m) p\<rparr>) w)), list @ [p]),
                          Inr (Some (cres_res e)))
                     | VMW_CMDBUF_RES_DEL \<Rightarrow> ((w, list), Inl OOPS)))))"

definition vmw_cmdbuf_res_man_create ::
  "(nat \<Rightarrow> bool) \<Rightarrow> (nat \<Rightarrow> bool) \<Rightarrow> nat option \<Rightarrow> cres_store \<Rightarrow> nat \<Rightarrow> cres_store \<times> nat kres" where
  "vmw_cmdbuf_res_man_create kcalloc_ok vzalloc_ok kzalloc w dev_priv =
     (case kzalloc of None \<Rightarrow> (w, Inl ENOMEM)
      | Some man \<Rightarrow>
          (case drm_ht_create kcalloc_ok vzalloc_ok VMW_CMDBUF_RES_MAN_HT_ORDER of
             (ht, Inr _) \<Rightarrow>
               (w\<lparr>mans := (mans w)(man \<mapsto>
                  \<lparr>man_resources = ht, man_list = [], man_dev_priv = dev_priv\<rparr>)\<rparr>, Inr man)
           | (ht, Inl ret) \<Rightarrow> (w, Inl ret)))"

fun free_all :: "cres_store \<Rightarrow> nat \<Rightarrow> nat list \<Rightarrow> cres_store kres" where
  "free_all w man [] = Inr w"
| "free_all w man (p # next) =
     (case entries w p of None \<Rightarrow> Inl OOPS
      | Some e \<Rightarrow> free_all (fst (vmw_cmdbuf_res_free w man p e next)) man next)"

definition vmw_cmdbuf_res_man_destroy :: "cres_store \<Rightarrow> nat \<Rightarrow> cres_store kres" where
  "vmw_cmdbuf_res_man_destroy w man =
     (case mans w man of None \<Rightarrow> Inl OOPS
      | Some m \<Rightarrow> kbind (free_all w man (man_list m))
          (\<lambda>w'. Inr (w'\<lparr>mans := (mans w')(man := None)\<rparr>)))"

section \<open>Shader and view name spaces\<close>

datatype vmw_view_type = vmw_view_sr | vmw_view_rt | vmw_view_ds | vmw_view_max

fun view_type_code :: "vmw_view_type \<Rightarrow> u32" where
  "view_type_code vmw_view_sr = 0"
| "view_type_code vmw_view_rt = 1"
| "view_type_code vmw_view_ds = 2"
| "view_type_code vmw_view_max = 3"

abbreviation SVGA_COTABLE_MAX_IDS :: u32 where "SVGA_COTABLE_MAX_IDS \<equiv> 65533"

definition vmw_shader_id_ok :: "u32 \<Rightarrow> u32 \<Rightarrow> bool" where
  "vmw_shader_id_ok user_key shader_type \<longleftrightarrow> user_key \<le> push_bit 20 1 - 1 \<and> shader_type < 16"

definition vmw_shader_key :: "u32 \<Rightarrow> u32 \<Rightarrow> u32" where
  "vmw_shader_key user_key shader_type = user_key OR push_bit 20 shader_type"

definition vmw_shader_remove ::
  "hash_fn \<Rightarrow> cres_store \<Rightarrow> nat \<Rightarrow> u32 \<Rightarrow> u32 \<Rightarrow> nat list \<Rightarrow>
   (cres_store \<times> nat list) \<times> nat option kres" where
  "vmw_shader_remove hash_long w man user_key shader_type list =
     (if \<not> vmw_shader_id_ok user_key shader_type then ((w, list), Inl EINVAL)
      else vmw_cmdbuf_res_remove hash_long w man vmw_cmdbuf_res_shader
             (vmw_shader_key user_key shader_type) list)"

definition vmw_shader_lookup ::
  "hash_fn \<Rightarrow> cres_store \<Rightarrow> nat \<Rightarrow> u32 \<Rightarrow> u32 \<Rightarrow> nat kres" where
  "vmw_shader_lookup hash_long w man user_key shader_type =
     (if \<not> vmw_shader_id_ok user_key shader_type then Inl EINVAL
      else vmw_cmdbuf_res_lookup hash_long w man vmw_cmdbuf_res_shader
             (vmw_shader_key user_key shader_type))"

definition vmw_view_key :: "u32 \<Rightarrow> vmw_view_type \<Rightarrow> u32" where
  "vmw_view_key user_key view_type = user_key OR push_bit 20 (view_type_code view_type)"

definition vmw_view_id_ok :: "u32 \<Rightarrow> vmw_view_type \<Rightarrow> bool" where
  "vmw_view_id_ok user_key view_type \<longleftrightarrow>
     user_key < SVGA_COTABLE_MAX_IDS \<and> view_type_code view_type < view_type_code vmw_view_max"

definition vmw_view_remove ::
  "hash_fn \<Rightarrow> cres_store \<Rightarrow> nat \<Rightarrow> u32 \<Rightarrow> vmw_view_type \<Rightarrow> nat list \<Rightarrow>
   (cres_store \<times> nat list) \<times> nat option kres" where
  "vmw_view_remove hash_long w man user_key view_type list =
     (if \<not> vmw_view_id_ok user_key view_type then ((w, list), Inl EINVAL)
      else vmw_cmdbuf_res_remove hash_long w man vmw_cmdbuf_res_view
             (vmw_view_key user_key view_type) list)"

definition vmw_view_lookup ::
  "hash_fn \<Rightarrow> cres_store \<Rightarrow> nat \<Rightarrow> vmw_view_type \<Rightarrow> u32 \<Rightarrow> nat kres" where
  "vmw_view_lookup hash_long w man view_type user_key =
     vmw_cmdbuf_res_lookup hash_long w man vmw_cmdbuf_res_view (vmw_view_key user_key view_type)"

section \<open>Store updates\<close>

lemma store_simps [simp]:
  "entries (set_entry p e w) = (entries w)(p := e)" "mans (set_entry p e w) = mans w"
  "krefs (set_entry p e w) = krefs w" "notified (set_entry p e w) = notified w"
  "entries (upd_man man f w) = entries w"
  "mans (upd_man man f w) = (mans w)(man := map_option f (mans w man))"
  "krefs (upd_man man f w) = krefs w" "notified (upd_man man f w) = notified w"
  "entries (kref_get r w) = entries w" "mans (kref_get r w) = mans w"
  "entries (kref_put r w) = entries w" "mans (kref_put r w) = mans w"
  "entries (commit_notify hn r st w) = entries w" "mans (commit_notify hn r st w) = mans w"
  by (simp_all add: set_entry_def upd_man_def kref_get_def kref_put_def commit_notify_def)

section \<open>Invariant\<close>

text \<open>
  An entry is live for a manager when it is committed and on the manager's list, or staged
  for addition. The manager's hash table holds exactly its live entries, each under its key.
\<close>

definition on_list :: "cres_store \<Rightarrow> nat \<Rightarrow> nat \<Rightarrow> bool" where
  "on_list w man p \<longleftrightarrow> (\<exists>m. mans w man = Some m \<and> p \<in> set (man_list m))"

definition has_state ::
  "cres_store \<Rightarrow> nat \<Rightarrow> u64 \<Rightarrow> nat \<Rightarrow> vmw_cmdbuf_res_state \<Rightarrow> bool" where
  "has_state w man k p st \<longleftrightarrow>
     (\<exists>e. entries w p = Some e \<and> cres_man e = man \<and> cres_key e = k \<and> cres_state e = st)"

definition live :: "cres_store \<Rightarrow> nat list \<Rightarrow> nat \<Rightarrow> u64 \<Rightarrow> nat \<Rightarrow> bool" where
  "live w staged man k p \<longleftrightarrow>
     has_state w man k p VMW_CMDBUF_RES_COMMITTED \<and> on_list w man p \<or>
     has_state w man k p VMW_CMDBUF_RES_ADD \<and> p \<in> set staged"

definition man_ok :: "hash_fn \<Rightarrow> cres_store \<Rightarrow> nat list \<Rightarrow> nat \<Rightarrow> vmw_cmdbuf_res_manager \<Rightarrow> bool" where
  "man_ok hash_long w staged man m \<longleftrightarrow>
     ht_inv hash_long (man_resources m) \<and> distinct (man_list m) \<and>
     (\<forall>p\<in>set (man_list m). \<exists>k. has_state w man k p VMW_CMDBUF_RES_COMMITTED) \<and>
     (\<forall>k p. ht_map (man_resources m) k = Some p \<longleftrightarrow> live w staged man k p)"

definition staged_ok :: "cres_store \<Rightarrow> nat \<Rightarrow> bool" where
  "staged_ok w p \<longleftrightarrow> (\<exists>man m k. mans w man = Some m \<and>
     (has_state w man k p VMW_CMDBUF_RES_ADD \<or> has_state w man k p VMW_CMDBUF_RES_DEL))"

definition cres_inv :: "hash_fn \<Rightarrow> cres_store \<Rightarrow> nat list \<Rightarrow> bool" where
  "cres_inv hash_long w staged \<longleftrightarrow>
     distinct staged \<and> (\<forall>p\<in>set staged. staged_ok w p) \<and>
     (\<forall>man m. mans w man = Some m \<longrightarrow> man_ok hash_long w staged man m)"

text \<open>
  What a reader sees through a manager, and what was there before the staged actions: the
  committed entries and those staged for removal.
\<close>

definition res_of :: "cres_store \<Rightarrow> nat \<Rightarrow> nat \<Rightarrow> bool" where
  "res_of w p r \<longleftrightarrow> (\<exists>e. entries w p = Some e \<and> cres_res e = r)"

definition based :: "cres_store \<Rightarrow> nat list \<Rightarrow> nat \<Rightarrow> u64 \<Rightarrow> nat \<Rightarrow> bool" where
  "based w staged man k p \<longleftrightarrow>
     has_state w man k p VMW_CMDBUF_RES_COMMITTED \<and> on_list w man p \<or>
     has_state w man k p VMW_CMDBUF_RES_DEL \<and> p \<in> set staged"

definition visible :: "cres_store \<Rightarrow> nat list \<Rightarrow> nat \<Rightarrow> u64 \<Rightarrow> nat \<Rightarrow> bool" where
  "visible w staged man k r \<longleftrightarrow> (\<exists>p. live w staged man k p \<and> res_of w p r)"

definition baseline :: "cres_store \<Rightarrow> nat list \<Rightarrow> nat \<Rightarrow> u64 \<Rightarrow> nat \<Rightarrow> bool" where
  "baseline w staged man k r \<longleftrightarrow> (\<exists>p. based w staged man k p \<and> res_of w p r)"

lemma visible_cong:
  assumes "\<And>q. live w' s' man k q \<longleftrightarrow> live w s man k q"
    and "\<And>q. live w s man k q \<Longrightarrow> res_of w' q r \<longleftrightarrow> res_of w q r"
  shows "visible w' s' man k r = visible w s man k r"
  using assms by (auto simp: visible_def)

lemma baseline_cong:
  assumes "\<And>q. based w' s' man k q \<longleftrightarrow> based w s man k q"
    and "\<And>q. based w s man k q \<Longrightarrow> res_of w' q r \<longleftrightarrow> res_of w q r"
  shows "baseline w' s' man k r = baseline w s man k r"
  using assms by (auto simp: baseline_def)

lemma live_no_baseline: "visible w [] man k r = baseline w [] man k r"
  by (simp add: visible_def baseline_def live_def based_def)

lemma cres_invD:
  assumes "cres_inv hash_long w staged"
  shows "distinct staged" "\<And>p. p \<in> set staged \<Longrightarrow> staged_ok w p"
    "\<And>man m. mans w man = Some m \<Longrightarrow> man_ok hash_long w staged man m"
  using assms by (auto simp: cres_inv_def)

lemma man_okD:
  assumes "man_ok hash_long w staged man m"
  shows "ht_inv hash_long (man_resources m)" "distinct (man_list m)"
    "\<And>p. p \<in> set (man_list m) \<Longrightarrow> \<exists>k. has_state w man k p VMW_CMDBUF_RES_COMMITTED"
    "\<And>k p. ht_map (man_resources m) k = Some p \<longleftrightarrow> live w staged man k p"
  using assms by (auto simp: man_ok_def)

lemma has_state_unique:
  "has_state w man k p st \<Longrightarrow> has_state w man' k' p st' \<Longrightarrow> man = man' \<and> k = k' \<and> st = st'"
  by (auto simp: has_state_def)

lemma live_unique_key: "live w staged man k p \<Longrightarrow> live w staged man' k' p \<Longrightarrow> man = man' \<and> k = k'"
  by (auto simp: live_def dest: has_state_unique)

lemma lookup_visible:
  assumes inv: "cres_inv hash_long w staged" and m: "mans w man = Some m"
  shows "vmw_cmdbuf_res_lookup hash_long w man rt uk = Inr r \<longleftrightarrow>
    visible w staged man (cmdbuf_res_key rt uk) r"
proof -
  note ok = man_okD [OF cres_invD(3) [OF inv m]]
  show ?thesis
    using m by (auto simp: vmw_cmdbuf_res_lookup_def visible_def res_of_def drm_ht.find_Inr [OF ok(1)] ok(4)
        split: option.splits)
qed

lemma has_state_frame [simp]:
  "has_state (upd_man x f w) man k p st = has_state w man k p st"
  "has_state (kref_get r w) man k p st = has_state w man k p st"
  "has_state (kref_put r w) man k p st = has_state w man k p st"
  "has_state (commit_notify hn r s w) man k p st = has_state w man k p st"
  by (simp_all add: has_state_def)

lemma on_list_frame [simp]:
  "on_list (set_entry q e w) man p = on_list w man p"
  "on_list (kref_get r w) man p = on_list w man p"
  "on_list (kref_put r w) man p = on_list w man p"
  "on_list (commit_notify hn r s w) man p = on_list w man p"
  by (simp_all add: on_list_def)

lemma has_state_set_entry:
  "has_state (set_entry q eo w) man k p st \<longleftrightarrow>
     (if p = q then (case eo of None \<Rightarrow> False
        | Some e \<Rightarrow> cres_man e = man \<and> cres_key e = k \<and> cres_state e = st)
      else has_state w man k p st)"
  by (auto simp: has_state_def split: option.splits)

lemma on_list_upd_man:
  "on_list (upd_man x f w) man p \<longleftrightarrow>
     (if man = x then (\<exists>m. mans w man = Some m \<and> p \<in> set (man_list (f m))) else on_list w man p)"
  by (auto simp: on_list_def)

lemma staged_ok_frame [simp]:
  "staged_ok (upd_man x f w) p = staged_ok w p" "staged_ok (kref_get r w) p = staged_ok w p"
  "staged_ok (kref_put r w) p = staged_ok w p" "staged_ok (commit_notify hn r s w) p = staged_ok w p"
  "p \<noteq> q \<Longrightarrow> staged_ok (set_entry q eo w) p = staged_ok w p"
  by (auto simp: staged_ok_def has_state_set_entry)

lemmas step_simps = has_state_set_entry on_list_upd_man

lemma on_list_committed:
  assumes "cres_inv hash_long w staged" "on_list w man p"
  shows "\<exists>k. has_state w man k p VMW_CMDBUF_RES_COMMITTED"
  using assms man_okD(3) [OF cres_invD(3) [OF assms(1)]] by (auto simp: on_list_def)

lemma staged_rest:
  assumes "cres_inv hash_long w (p # next)" "q \<in> set next"
  shows "q \<noteq> p" "staged_ok w q"
  using assms cres_invD(1,2) [OF assms(1)] by auto

section \<open>Commit\<close>

lemma commit_add_step:
  assumes inv: "cres_inv hash_long w (p # next)" and e: "entries w p = Some e"
    and st: "cres_state e = VMW_CMDBUF_RES_ADD"
    and w': "w' = upd_man (cres_man e) (\<lambda>m. m\<lparr>man_list := man_list m @ [p]\<rparr>)
        (set_entry p (Some (e\<lparr>cres_state := VMW_CMDBUF_RES_COMMITTED\<rparr>)) (commit_notify hn r s w))"
  shows "cres_inv hash_long w' next \<and> (\<forall>man k r. visible w' next man k r = visible w (p # next) man k r)"
proof -
  have pnext: "p \<notin> set next" and dist: "distinct next" using cres_invD(1) [OF inv] by auto
  have state: "has_state w man k p s' \<longleftrightarrow>
      man = cres_man e \<and> k = cres_key e \<and> s' = VMW_CMDBUF_RES_ADD" for man k s'
    using e st by (auto simp: has_state_def)
  have off: "\<not> on_list w man p" for man
    using on_list_committed [OF inv] state by fastforce
  obtain m0 where m0: "mans w (cres_man e) = Some m0"
    using cres_invD(2) [OF inv, of p] state by (auto simp: staged_ok_def)
  have live: "live w' next man k q \<longleftrightarrow> live w (p # next) man k q" for man k q
    using pnext m0 state off unfolding w' live_def
    by (auto simp: step_simps on_list_def)
  have "staged_ok w' q" if "q \<in> set next" for q
    using staged_rest [OF inv that] by (simp add: w')
  moreover have "man_ok hash_long w' next man m" if "mans w' man = Some m" for man m
  proof -
    from that obtain m1 where m1: "mans w man = Some m1" "man_resources m = man_resources m1"
      and l: "man_list m = (if man = cres_man e then man_list m1 @ [p] else man_list m1)"
      unfolding w' by (auto split: if_splits)
    note ok = man_okD [OF cres_invD(3) [OF inv m1(1)]]
    have "p \<notin> set (man_list m1)" using off m1 by (auto simp: on_list_def)
    moreover have "\<exists>k. has_state w' man k q VMW_CMDBUF_RES_COMMITTED" if "q \<in> set (man_list m)" for q
      using that ok(3) [of q] l \<open>p \<notin> set (man_list m1)\<close> unfolding w'
      by (auto simp: step_simps split: if_splits)
    ultimately show ?thesis
      using ok l m1 by (auto simp: man_ok_def live)
  qed
  moreover have "visible w' next man k r = visible w (p # next) man k r" for man k r
    by (rule visible_cong [OF live]) (use e in \<open>auto simp: res_of_def w'\<close>)
  ultimately show ?thesis using dist by (auto simp: cres_inv_def)
qed

lemma commit_del_step:
  assumes inv: "cres_inv hash_long w (p # next)" and e: "entries w p = Some e"
    and st: "cres_state e = VMW_CMDBUF_RES_DEL"
    and w': "w' = set_entry p None (kref_put x (commit_notify hn r s w))"
  shows "cres_inv hash_long w' next \<and> (\<forall>man k r. visible w' next man k r = visible w (p # next) man k r)"
proof -
  have pnext: "p \<notin> set next" and dist: "distinct next" using cres_invD(1) [OF inv] by auto
  have state: "has_state w man k p s' \<longleftrightarrow>
      man = cres_man e \<and> k = cres_key e \<and> s' = VMW_CMDBUF_RES_DEL" for man k s'
    using e st by (auto simp: has_state_def)
  have off: "\<not> on_list w man p" for man
    using on_list_committed [OF inv] state by fastforce
  have live: "live w' next man k q \<longleftrightarrow> live w (p # next) man k q" for man k q
    using pnext state unfolding w' live_def by (auto simp: step_simps)
  have "staged_ok w' q" if "q \<in> set next" for q
    using staged_rest [OF inv that] by (simp add: w')
  moreover have "man_ok hash_long w' next man m" if "mans w' man = Some m" for man m
  proof -
    from that have m: "mans w man = Some m" by (simp add: w')
    note ok = man_okD [OF cres_invD(3) [OF inv m]]
    have "p \<notin> set (man_list m)" using off m by (auto simp: on_list_def)
    then have "\<exists>k. has_state w' man k q VMW_CMDBUF_RES_COMMITTED" if "q \<in> set (man_list m)" for q
      using that ok(3) [of q] unfolding w' by (auto simp: step_simps)
    with ok show ?thesis by (auto simp: man_ok_def live)
  qed
  moreover have "\<not> live w (p # next) man k p" for man k
    using state off by (simp add: live_def)
  then have "visible w' next man k r = visible w (p # next) man k r" for man k r
    by (intro visible_cong [OF live]) (auto simp: res_of_def w')
  ultimately show ?thesis using dist by (auto simp: cres_inv_def)
qed

lemma staged_state:
  "staged_ok w p \<Longrightarrow> \<exists>e. entries w p = Some e \<and> cres_state e \<noteq> VMW_CMDBUF_RES_COMMITTED"
  by (auto simp: staged_ok_def has_state_def)

lemma commit_correct:
  assumes "cres_inv hash_long w staged"
  shows "\<exists>w'. vmw_cmdbuf_res_commit hn w staged = Inr w' \<and> cres_inv hash_long w' [] \<and>
    (\<forall>man k r. visible w' [] man k r = visible w staged man k r)"
  using assms
proof (induction staged arbitrary: w)
  case (Cons p "next")
  obtain e where e: "entries w p = Some e" "cres_state e \<noteq> VMW_CMDBUF_RES_COMMITTED"
    using staged_state [OF cres_invD(2) [OF Cons.prems, of p]] by auto
  then consider "cres_state e = VMW_CMDBUF_RES_ADD" | "cres_state e = VMW_CMDBUF_RES_DEL"
    by (cases "cres_state e") auto
  then show ?case
  proof cases
    case 1
    from commit_add_step [OF Cons.prems e(1) 1 refl, of hn "cres_res e" "cres_state e"]
    show ?thesis using Cons.IH e 1 by (fastforce simp: Let_def)
  next
    case 2
    from commit_del_step [OF Cons.prems e(1) 2 refl, of "cres_res e" hn "cres_res e" "cres_state e"]
    show ?thesis using Cons.IH e 2 by (fastforce simp: Let_def)
  qed
qed auto

section \<open>Revert\<close>

text \<open>
  Reverting puts the removed entries back, which needs their keys to be free: no entry staged
  for removal has a key in use, and no two of them have the same key.
\<close>

definition no_conflict :: "cres_store \<Rightarrow> nat list \<Rightarrow> bool" where
  "no_conflict w staged \<longleftrightarrow>
     (\<forall>p\<in>set staged. \<forall>man k. has_state w man k p VMW_CMDBUF_RES_DEL \<longrightarrow>
        (\<forall>q. \<not> live w staged man k q) \<and>
        (\<forall>q\<in>set staged. has_state w man k q VMW_CMDBUF_RES_DEL \<longrightarrow> q = p))"

lemma live_unique:
  assumes "man_ok hash_long w staged man m" "live w staged man k p" "live w staged man k q"
  shows "q = p"
  using assms(2,3) man_okD(4) [OF assms(1), of k] by (metis option.inject)

lemma remove_obj_live:
  assumes ok: "man_ok hash_long w staged man m" and p: "live w staged man k0 p"
  shows "ht_map (drm_ht_remove_item (man_resources m) p) k = Some q \<longleftrightarrow> live w staged man k q \<and> q \<noteq> p"
proof -
  have "ht_map (man_resources m) j = Some p \<longleftrightarrow> j = k0" for j
    using p live_unique_key by (auto simp: man_okD(4) [OF ok])
  from drm_ht.remove_obj_law [OF man_okD(1) [OF ok] this]
  have rm: "ht_map (drm_ht_remove_item (man_resources m) p) = (ht_map (man_resources m))(k0 := None)" .
  show ?thesis
  proof (cases "k = k0")
    case True
    then show ?thesis using live_unique [OF ok p, of q] by (auto simp: rm)
  next
    case False
    then have "q \<noteq> p" if "live w staged man k q" using live_unique_key [OF p, of man k] that by auto
    with False show ?thesis by (auto simp: rm man_okD(4) [OF ok])
  qed
qed

lemma free_add_step:
  assumes inv: "cres_inv hash_long w staged" and p: "p \<in> set staged"
    and e: "entries w p = Some e" and st: "cres_state e = VMW_CMDBUF_RES_ADD"
    and w': "w' = fst (vmw_cmdbuf_res_free w (cres_man e) p e list)"
    and staged': "staged' = removeAll p staged"
  shows "cres_inv hash_long w' staged'"
    "\<And>man k q. live w' staged' man k q \<longleftrightarrow> live w staged man k q \<and> q \<noteq> p"
    "\<And>man k r. baseline w' staged' man k r = baseline w staged man k r"
    "\<And>q. entries w' q = (if q = p then None else entries w q)"
proof -
  have state: "has_state w man k p s' \<longleftrightarrow>
      man = cres_man e \<and> k = cres_key e \<and> s' = VMW_CMDBUF_RES_ADD" for man k s'
    using e st by (auto simp: has_state_def)
  have off: "\<not> on_list w man p" for man
    using on_list_committed [OF inv] state by fastforce
  obtain m0 where m0: "mans w (cres_man e) = Some m0"
    using cres_invD(2) [OF inv p] state by (auto simp: staged_ok_def)
  have w'': "w' = set_entry p None (kref_put (cres_res e)
      (upd_man (cres_man e) (\<lambda>m. m\<lparr>man_resources := drm_ht_remove_item (man_resources m) p\<rparr>)
        (upd_man (cres_man e) (\<lambda>m. m\<lparr>man_list := removeAll p (man_list m)\<rparr>) w)))"
    by (simp add: w' vmw_cmdbuf_res_free_def Let_def)
  have onl: "on_list w' man q \<longleftrightarrow> on_list w man q" for man q
    using off unfolding w'' by (auto simp: on_list_def)
  have stt: "has_state w' man k q s \<longleftrightarrow> q \<noteq> p \<and> has_state w man k q s" for man k q s
    by (simp add: w'' step_simps)
  have ro: "q \<noteq> p \<Longrightarrow> res_of w' q r = res_of w q r" for q r by (simp add: w'' res_of_def)
  show live: "live w' staged' man k q \<longleftrightarrow> live w staged man k q \<and> q \<noteq> p" for man k q
    using off unfolding live_def onl stt by (auto simp: staged')
  have livep: "live w staged man k p \<longleftrightarrow> man = cres_man e \<and> k = cres_key e" for man k
    using state off p by (auto simp: live_def)
  have "staged_ok w' q" if "q \<in> set staged'" for q
    using cres_invD(2) [OF inv, of q] that by (simp add: w'' staged')
  moreover have "man_ok hash_long w' staged' man m" if "mans w' man = Some m" for man m
  proof -
    from that obtain m1 where m1: "mans w man = Some m1"
      and l: "set (man_list m) = set (man_list m1)" "distinct (man_list m1) \<Longrightarrow> distinct (man_list m)"
      and res: "man_resources m = (if man = cres_man e then drm_ht_remove_item (man_resources m1) p
            else man_resources m1)"
      using off unfolding w'' by (auto simp: on_list_def distinct_removeAll split: if_splits)
    note ok = man_okD [OF cres_invD(3) [OF inv m1(1)]]
    have map: "ht_map (man_resources m) k = Some q \<longleftrightarrow> live w' staged' man k q" for k q
      using remove_obj_live [OF cres_invD(3) [OF inv m1(1)], of "cres_key e" p k q] livep [of man k] ok(4) [of k q]
      by (cases "man = cres_man e") (auto simp: res live livep)
    have "\<exists>k. has_state w' man k q VMW_CMDBUF_RES_COMMITTED" if "q \<in> set (man_list m)" for q
      using that ok(3) [of q] l off m1 unfolding w''
      by (auto simp: step_simps on_list_def)
    with ok l res map show ?thesis
      by (auto simp: man_ok_def drm_ht.remove_obj_invar)
  qed
  ultimately show "cres_inv hash_long w' staged'"
    using cres_invD(1) [OF inv] by (auto simp: cres_inv_def staged' distinct_removeAll)
  show "baseline w' staged' man k r = baseline w staged man k r" for man k r
  proof (rule baseline_cong)
    have ne: "based w staged man k q \<Longrightarrow> q \<noteq> p" for q using state off by (auto simp: based_def)
    show "based w' staged' man k q \<longleftrightarrow> based w staged man k q" for q
      using ne [of q] by (auto simp: based_def onl stt staged')
    show "based w staged man k q \<Longrightarrow> res_of w' q r \<longleftrightarrow> res_of w q r" for q
      by (rule ro [OF ne])
  qed
  show "entries w' q = (if q = p then None else entries w q)" for q by (simp add: w'')
qed

lemma revert_add_step:
  assumes inv: "cres_inv hash_long w (p # next)" and nc: "no_conflict w (p # next)"
    and e: "entries w p = Some e" and st: "cres_state e = VMW_CMDBUF_RES_ADD"
    and w': "w' = fst (vmw_cmdbuf_res_free w (cres_man e) p e list)"
  shows "cres_inv hash_long w' next \<and> no_conflict w' next \<and>
    (\<forall>man k r. baseline w' next man k r = baseline w (p # next) man k r)"
proof -
  have pnext: "p \<notin> set next" using cres_invD(1) [OF inv] by auto
  note step = free_add_step [OF inv _ e st w' refl]
  have rest: "removeAll p (p # next) = next" using pnext by simp
  have "has_state w' man k q s = (q \<noteq> p \<and> has_state w man k q s)" for man k q s
    by (simp add: has_state_def step(4))
  then have "no_conflict w' next"
    using nc pnext step(2) unfolding no_conflict_def rest by auto
  with step(1,3) show ?thesis unfolding rest by simp
qed

lemma revert_del_step:
  assumes inv: "cres_inv hash_long w (p # next)" and nc: "no_conflict w (p # next)"
    and e: "entries w p = Some e" and st: "cres_state e = VMW_CMDBUF_RES_DEL"
    and w': "w' = set_entry p (Some (e\<lparr>cres_state := VMW_CMDBUF_RES_COMMITTED\<rparr>))
       (upd_man (cres_man e) (\<lambda>m. m\<lparr>man_list := man_list m @ [p]\<rparr>)
         (upd_man (cres_man e)
           (\<lambda>m. case drm_ht_insert_item hash_long (man_resources m)
                     \<lparr>item_key = cres_key e, item_obj = p\<rparr> of
                  Inr ht \<Rightarrow> m\<lparr>man_resources := ht\<rparr> | Inl _ \<Rightarrow> m) w))"
  shows "cres_inv hash_long w' next \<and> no_conflict w' next \<and>
    (\<forall>man k r. baseline w' next man k r = baseline w (p # next) man k r)"
proof -
  have pnext: "p \<notin> set next" and dist: "distinct next" using cres_invD(1) [OF inv] by auto
  have state: "has_state w man k p s' \<longleftrightarrow>
      man = cres_man e \<and> k = cres_key e \<and> s' = VMW_CMDBUF_RES_DEL" for man k s'
    using e st by (auto simp: has_state_def)
  have off: "\<not> on_list w man p" for man
    using on_list_committed [OF inv] state by fastforce
  obtain m0 where m0: "mans w (cres_man e) = Some m0"
    using cres_invD(2) [OF inv, of p] state by (auto simp: staged_ok_def)
  note ok0 = man_okD [OF cres_invD(3) [OF inv m0]]
  have free: "\<not> live w (p # next) (cres_man e) (cres_key e) q" for q
    using nc state by (simp add: no_conflict_def)
  then have "ht_map (man_resources m0) (cres_key e) = None"
    using ok0(4) by (metis option.exhaust)
  from drm_ht.insert_new [OF ok0(1) this, of p] obtain ht where
    ht: "drm_ht_insert_item hash_long (man_resources m0) \<lparr>item_key = cres_key e, item_obj = p\<rparr> = Inr ht"
      "ht_inv hash_long ht" "ht_map ht = (ht_map (man_resources m0))(cres_key e \<mapsto> p)" by blast
  have mans': "mans w' = (mans w)(cres_man e \<mapsto> m0\<lparr>man_resources := ht, man_list := man_list m0 @ [p]\<rparr>)"
    using m0 ht by (simp add: w')
  have onl: "on_list w' man q \<longleftrightarrow> on_list w man q \<or> man = cres_man e \<and> q = p" for man q
    using m0 by (auto simp: on_list_def mans')
  have stt: "has_state w' man k q s' \<longleftrightarrow>
      (if q = p then man = cres_man e \<and> k = cres_key e \<and> s' = VMW_CMDBUF_RES_COMMITTED
       else has_state w man k q s')" for man k q s'
    by (auto simp: w' step_simps)
  have live: "live w' next man k q \<longleftrightarrow>
      live w (p # next) man k q \<or> man = cres_man e \<and> k = cres_key e \<and> q = p" for man k q
    using pnext off state unfolding live_def onl stt by auto
  have livep: "\<not> live w (p # next) man k p" for man k
    using state off by (auto simp: live_def)
  have "staged_ok w' q" if "q \<in> set next" for q
    using staged_rest [OF inv that] by (simp add: w')
  moreover have "man_ok hash_long w' next man m" if m: "mans w' man = Some m" for man m
  proof (cases "man = cres_man e")
    case True
    have "p \<notin> set (man_list m0)" using off m0 by (auto simp: on_list_def)
    moreover have "m = m0\<lparr>man_resources := ht, man_list := man_list m0 @ [p]\<rparr>"
      using True m by (simp add: mans')
    moreover have "ht_map ht k = Some q \<longleftrightarrow> live w' next man k q" for k q
      using True ht(3) ok0(4) [of k q] free by (auto simp: live)
    moreover have "\<exists>k. has_state w' man k q VMW_CMDBUF_RES_COMMITTED"
      if "q \<in> set (man_list m0 @ [p])" for q
      using that ok0(3) [of q] True by (cases "q = p") (auto simp: stt)
    ultimately show ?thesis using ok0(2) ht(2) by (auto simp: man_ok_def)
  next
    case False
    then have m1: "mans w man = Some m" using m by (simp add: mans')
    note ok = man_okD [OF cres_invD(3) [OF inv m1]]
    have "p \<notin> set (man_list m)" using off m1 by (auto simp: on_list_def)
    with ok False show ?thesis by (auto simp: man_ok_def live stt)
  qed
  moreover have "no_conflict w' next"
    unfolding no_conflict_def
  proof (intro ballI allI impI, goal_cases)
    case (1 q man k)
    then have q: "has_state w man k q VMW_CMDBUF_RES_DEL" "q \<noteq> p"
      using pnext by (auto simp: stt split: if_splits)
    with nc 1(1) have "\<not> live w (p # next) man k x"
        "x \<in> set (p # next) \<Longrightarrow> has_state w man k x VMW_CMDBUF_RES_DEL \<Longrightarrow> x = q" for x
      by (auto simp: no_conflict_def)
    moreover from this(2) [of p] q have "\<not> (man = cres_man e \<and> k = cres_key e)"
      by (auto simp: state)
    ultimately show ?case by (auto simp: live stt split: if_splits)
  qed
  moreover have "baseline w' next man k r = baseline w (p # next) man k r" for man k r
  proof -
    have ent: "entries w' q = (if q = p then Some (e\<lparr>cres_state := VMW_CMDBUF_RES_COMMITTED\<rparr>) else entries w q)" for q
      by (simp add: w')
    show ?thesis
      by (rule baseline_cong)
        (use state pnext off e in \<open>auto simp: based_def onl stt ent res_of_def\<close>)
  qed
  ultimately show ?thesis using dist by (auto simp: cres_inv_def)
qed

lemma revert_correct:
  assumes "cres_inv hash_long w staged" "no_conflict w staged"
  shows "\<exists>w'. vmw_cmdbuf_res_revert hash_long w staged = Inr w' \<and> cres_inv hash_long w' [] \<and>
    (\<forall>man k r. visible w' [] man k r = baseline w staged man k r)"
  using assms
proof (induction staged arbitrary: w)
  case Nil
  then show ?case by (auto simp: live_no_baseline)
next
  case (Cons p "next")
  obtain e where e: "entries w p = Some e" "cres_state e \<noteq> VMW_CMDBUF_RES_COMMITTED"
    using staged_state [OF cres_invD(2) [OF Cons.prems(1), of p]] by auto
  then consider "cres_state e = VMW_CMDBUF_RES_ADD" | "cres_state e = VMW_CMDBUF_RES_DEL"
    by (cases "cres_state e") auto
  then show ?case
  proof cases
    case 1
    from revert_add_step [OF Cons.prems e(1) 1 refl, of "next"]
    show ?thesis using Cons.IH e 1 by fastforce
  next
    case 2
    from revert_del_step [OF Cons.prems e(1) 2 refl]
    show ?thesis using Cons.IH e 2 by fastforce
  qed
qed

section \<open>Staging an addition or a removal\<close>

definition del_ok :: "cres_store \<Rightarrow> nat list \<Rightarrow> bool" where
  "del_ok w staged \<longleftrightarrow>
     (\<forall>p\<in>set staged. \<forall>man k. has_state w man k p VMW_CMDBUF_RES_DEL \<longrightarrow>
        (\<forall>q. live w staged man k q \<longrightarrow> has_state w man k q VMW_CMDBUF_RES_ADD) \<and>
        (\<forall>q\<in>set staged. has_state w man k q VMW_CMDBUF_RES_DEL \<longrightarrow> q = p))"

lemma fresh_entry:
  assumes "cres_inv hash_long w staged" "entries w p = None"
  shows "p \<notin> set staged" "\<not> on_list w man p" "\<not> has_state w man k p st"
  using assms staged_state [OF cres_invD(2) [OF assms(1)], of p] on_list_committed [OF assms(1), of man p]
  by (auto simp: has_state_def)

lemma add_used_key:
  assumes inv: "cres_inv hash_long w staged" and m: "mans w man = Some m" and p: "entries w p = None"
    and used: "live w staged man (cmdbuf_res_key rt uk) q"
  defines "w' \<equiv> set_entry p (Some (zero_cres (cmdbuf_res_key rt uk))) w"
  shows "vmw_cmdbuf_res_add hash_long (Some p) w man rt uk res staged = ((w', staged), Inl EINVAL)"
    "cres_inv hash_long w' staged" "\<And>man k r. visible w' staged man k r = visible w staged man k r"
    "\<And>man k r. baseline w' staged man k r = baseline w staged man k r"
proof -
  note ok = man_okD [OF cres_invD(3) [OF inv m]]
  have "ht_map (man_resources m) (cmdbuf_res_key rt uk) = Some q" using used by (simp add: ok(4))
  from drm_ht.insert_dup [OF ok(1) this] m
  show "vmw_cmdbuf_res_add hash_long (Some p) w man rt uk res staged = ((w', staged), Inl EINVAL)"
    by (simp add: vmw_cmdbuf_res_add_def Let_def w'_def)
  note fresh = fresh_entry [OF inv p]
  have live: "live w' staged man k q = live w staged man k q" for man k q
    using fresh unfolding live_def by (auto simp: w'_def step_simps)
  have "man_ok hash_long w' staged man m" if "mans w man = Some m" for man m
  proof -
    note ok = man_okD [OF cres_invD(3) [OF inv that]]
    have "p \<notin> set (man_list m)" using fresh(2) that by (auto simp: on_list_def)
    then have "\<exists>k. has_state w' man k q VMW_CMDBUF_RES_COMMITTED" if "q \<in> set (man_list m)" for q
      using that ok(3) [of q] by (auto simp: w'_def step_simps)
    with ok show ?thesis by (auto simp: man_ok_def live)
  qed
  moreover have "staged_ok w' q" if "q \<in> set staged" for q
  proof -
    have "q \<noteq> p" using that fresh(1) by auto
    with cres_invD(2) [OF inv that] show ?thesis by (simp add: w'_def)
  qed
  ultimately show "cres_inv hash_long w' staged"
    using cres_invD(1) [OF inv] by (auto simp: cres_inv_def w'_def)
  show "visible w' staged man k r = visible w staged man k r" for man k r
    by (rule visible_cong [OF live]) (use fresh in \<open>auto simp: live_def w'_def res_of_def\<close>)
  show "baseline w' staged man k r = baseline w staged man k r" for man k r
    by (rule baseline_cong) (use fresh in \<open>auto simp: based_def w'_def step_simps res_of_def\<close>)
qed

lemma del_ok_added:
  assumes del: "del_ok w staged" and p: "p \<notin> set staged" "\<And>man k. \<not> live w staged man k p"
    and live: "\<And>man' k q. live w' (staged @ [p]) man' k q \<longleftrightarrow> live w staged man' k q \<or> man' = man \<and> k = k0 \<and> q = p"
    and stt: "\<And>man' k q. has_state w' man' k q VMW_CMDBUF_RES_DEL \<longleftrightarrow> q \<noteq> p \<and> has_state w man' k q VMW_CMDBUF_RES_DEL"
      "\<And>man' k q. has_state w' man' k q VMW_CMDBUF_RES_ADD \<longleftrightarrow>
        (if q = p then man' = man \<and> k = k0 else has_state w man' k q VMW_CMDBUF_RES_ADD)"
  shows "del_ok w' (staged @ [p])"
  unfolding del_ok_def
proof (intro ballI allI impI, goal_cases)
  case (1 q man' k)
  then have "q \<in> set staged" "has_state w man' k q VMW_CMDBUF_RES_DEL"
    by (auto simp: stt)
  then have "live w staged man' k x \<longrightarrow> has_state w man' k x VMW_CMDBUF_RES_ADD"
      "x \<in> set staged \<longrightarrow> has_state w man' k x VMW_CMDBUF_RES_DEL \<longrightarrow> x = q" for x
    using del by (auto simp: del_ok_def)
  then show ?case using p by (simp add: live stt)
qed

lemma add_free_key:
  assumes inv: "cres_inv hash_long w staged" and m: "mans w man = Some m" and p: "entries w p = None"
    and free: "\<And>q. \<not> live w staged man (cmdbuf_res_key rt uk) q"
  obtains w' where
    "vmw_cmdbuf_res_add hash_long (Some p) w man rt uk res staged = ((w', staged @ [p]), Inr ())"
    "cres_inv hash_long w' (staged @ [p])"
    "\<And>man' k r. visible w' (staged @ [p]) man' k r \<longleftrightarrow>
       visible w staged man' k r \<or> man' = man \<and> k = cmdbuf_res_key rt uk \<and> r = res"
    "\<And>man k r. baseline w' (staged @ [p]) man k r = baseline w staged man k r"
    "del_ok w staged \<Longrightarrow> del_ok w' (staged @ [p])"
    "krefs w' = (krefs w)(res := krefs w res + 1)"
proof -
  let ?k = "cmdbuf_res_key rt uk"
  note ok0 = man_okD [OF cres_invD(3) [OF inv m]]
  have "ht_map (man_resources m) ?k = None" using free ok0(4) by (metis option.exhaust)
  from drm_ht.insert_new [OF ok0(1) this, of p] obtain ht where
    ht: "drm_ht_insert_item hash_long (man_resources m) \<lparr>item_key = ?k, item_obj = p\<rparr> = Inr ht"
      "ht_inv hash_long ht" "ht_map ht = (ht_map (man_resources m))(?k \<mapsto> p)" by blast
  define e where "e = \<lparr>cres_res = res, cres_key = ?k, cres_state = VMW_CMDBUF_RES_ADD, cres_man = man\<rparr>"
  define w' where "w' = kref_get res (set_entry p (Some e)
      (upd_man man (\<lambda>m. m\<lparr>man_resources := ht\<rparr>) (set_entry p (Some (zero_cres ?k)) w)))"
  note fresh = fresh_entry [OF inv p]
  have mans': "mans w' = (mans w)(man \<mapsto> m\<lparr>man_resources := ht\<rparr>)" using m by (simp add: w'_def)
  have ent: "entries w' q = (if q = p then Some e else entries w q)" for q by (simp add: w'_def)
  have onl: "on_list w' man' q = on_list w man' q" for man' q
    using m by (auto simp: on_list_def mans')
  have stt: "has_state w' man' k q s \<longleftrightarrow>
      (if q = p then man' = man \<and> k = ?k \<and> s = VMW_CMDBUF_RES_ADD else has_state w man' k q s)" for man' k q s
    by (auto simp: has_state_def ent e_def)
  have live: "live w' (staged @ [p]) man' k q \<longleftrightarrow>
      live w staged man' k q \<or> man' = man \<and> k = ?k \<and> q = p" for man' k q
    using fresh unfolding live_def onl stt by auto
  have livep: "\<not> live w staged man' k p" for man' k using fresh by (simp add: live_def)
  have "man_ok hash_long w' (staged @ [p]) man' m'" if m': "mans w' man' = Some m'" for man' m'
  proof -
    have "\<exists>m1. mans w man' = Some m1 \<and> man_list m' = man_list m1 \<and>
        man_resources m' = (if man' = man then ht else man_resources m1) \<and> (man' = man \<longrightarrow> m1 = m)"
      using m' m by (auto simp: mans' split: if_splits)
    then obtain m1 where m1: "mans w man' = Some m1" "man_list m' = man_list m1"
        "man_resources m' = (if man' = man then ht else man_resources m1)" "man' = man \<longrightarrow> m1 = m" by blast
    note ok = man_okD [OF cres_invD(3) [OF inv m1(1)]]
    have "p \<notin> set (man_list m1)" using fresh(2) m1 by (auto simp: on_list_def)
    then have "\<exists>k. has_state w' man' k q VMW_CMDBUF_RES_COMMITTED" if "q \<in> set (man_list m1)" for q
      using that ok(3) [of q] by (auto simp: stt)
    moreover have "ht_map (man_resources m') k = Some q \<longleftrightarrow> live w' (staged @ [p]) man' k q" for k q
      using m1 ht(3) ok(4) [of k q] free by (auto simp: live)
    ultimately show ?thesis using ok m1 ht(2) by (auto simp: man_ok_def)
  qed
  moreover have "staged_ok w' q" if "q \<in> set (staged @ [p])" for q
    using that cres_invD(2) [OF inv, of q] m
    by (cases "q = p") (auto simp: staged_ok_def stt mans')
  ultimately have inv': "cres_inv hash_long w' (staged @ [p])"
    using cres_invD(1) [OF inv] fresh(1) by (auto simp: cres_inv_def)
  show ?thesis
  proof (rule that [OF _ inv'])
    show "vmw_cmdbuf_res_add hash_long (Some p) w man rt uk res staged = ((w', staged @ [p]), Inr ())"
      using m ht by (simp add: vmw_cmdbuf_res_add_def Let_def w'_def e_def)
    show "visible w' (staged @ [p]) man' k r \<longleftrightarrow>
       visible w staged man' k r \<or> man' = man \<and> k = ?k \<and> r = res" for man' k r
    proof -
      have "res_of w' q r = (if q = p then r = res else res_of w q r)" for q
        by (auto simp: res_of_def ent e_def)
      then show ?thesis using livep unfolding visible_def live by metis
    qed
    show "baseline w' (staged @ [p]) man' k r = baseline w staged man' k r" for man' k r
      by (rule baseline_cong) (use fresh in \<open>auto simp: based_def onl stt ent res_of_def\<close>)
    show "del_ok w' (staged @ [p])" if "del_ok w staged"
      by (rule del_ok_added [OF that fresh(1) livep live]) (simp_all add: stt)
    show "krefs w' = (krefs w)(res := krefs w res + 1)"
      by (simp add: w'_def kref_get_def set_entry_def upd_man_def)
  qed
qed

lemma remove_missing:
  assumes inv: "cres_inv hash_long w staged" and m: "mans w man = Some m"
    and none: "\<And>q. \<not> live w staged man (cmdbuf_res_key rt uk) q"
  shows "vmw_cmdbuf_res_remove hash_long w man rt uk staged = ((w, staged), Inl EINVAL)"
proof -
  note ok = man_okD [OF cres_invD(3) [OF inv m]]
  have "ht_map (man_resources m) (cmdbuf_res_key rt uk) = None"
    using none ok(4) by (metis option.exhaust)
  with drm_ht.find_law [OF ok(1)] m show ?thesis by (simp add: vmw_cmdbuf_res_remove_def)
qed

lemma live_entry:
  assumes "cres_inv hash_long w staged" "live w staged man k p"
  obtains e where "entries w p = Some e" "cres_man e = man" "cres_key e = k"
    "cres_state e = VMW_CMDBUF_RES_COMMITTED \<and> on_list w man p \<and> p \<notin> set staged \<or>
     cres_state e = VMW_CMDBUF_RES_ADD \<and> p \<in> set staged"
proof -
  from assms(2) obtain e where e: "entries w p = Some e" "cres_man e = man" "cres_key e = k"
    "cres_state e = VMW_CMDBUF_RES_COMMITTED \<and> on_list w man p \<or>
     cres_state e = VMW_CMDBUF_RES_ADD \<and> p \<in> set staged"
    by (auto simp: live_def has_state_def)
  moreover have "p \<notin> set staged" if "cres_state e = VMW_CMDBUF_RES_COMMITTED"
    using that e(1) staged_state [OF cres_invD(2) [OF assms(1)], of p] by auto
  ultimately show ?thesis by (intro that) auto
qed

lemma remove_finds:
  assumes inv: "cres_inv hash_long w staged" and m: "mans w man = Some m"
    and p: "live w staged man (cmdbuf_res_key rt uk) p"
  shows "drm_ht_find_item hash_long (man_resources m) (cmdbuf_res_key rt uk) = Inr p"
  using man_okD [OF cres_invD(3) [OF inv m]] p by (simp add: drm_ht.find_Inr)

text \<open>Removing an entry of the same batch takes it off the staging list.\<close>

lemma remove_staged:
  assumes inv: "cres_inv hash_long w staged" and m: "mans w man = Some m"
    and p: "live w staged man (cmdbuf_res_key rt uk) p" "p \<in> set staged"
  obtains w' where
    "vmw_cmdbuf_res_remove hash_long w man rt uk staged = ((w', removeAll p staged), Inr None)"
    "cres_inv hash_long w' (removeAll p staged)"
    "\<And>man' k q. live w' (removeAll p staged) man' k q \<longleftrightarrow> live w staged man' k q \<and> q \<noteq> p"
    "\<And>q r. q \<noteq> p \<Longrightarrow> res_of w' q r = res_of w q r"
    "\<And>man k r. baseline w' (removeAll p staged) man k r = baseline w staged man k r"
    "del_ok w staged \<Longrightarrow> del_ok w' (removeAll p staged)"
proof -
  from live_entry [OF inv p(1)] p(2) obtain e where e: "entries w p = Some e" "cres_man e = man"
    "cres_key e = cmdbuf_res_key rt uk" "cres_state e = VMW_CMDBUF_RES_ADD" by blast
  define w' where "w' = fst (vmw_cmdbuf_res_free w (cres_man e) p e staged)"
  note step = free_add_step [OF inv p(2) e(1,4) w'_def refl]
  show ?thesis
  proof (rule that [OF _ step(1,2) _ step(3)])
    show "vmw_cmdbuf_res_remove hash_long w man rt uk staged = ((w', removeAll p staged), Inr None)"
      using m e remove_finds [OF inv m p(1)]
      by (simp add: vmw_cmdbuf_res_remove_def w'_def vmw_cmdbuf_res_free_def Let_def)
    show "q \<noteq> p \<Longrightarrow> res_of w' q r = res_of w q r" for q r by (simp add: res_of_def step(4))
    have "has_state w' man k q s = (q \<noteq> p \<and> has_state w man k q s)" for man k q s
      by (simp add: has_state_def step(4))
    then show "del_ok w' (removeAll p staged)" if "del_ok w staged"
      using that unfolding del_ok_def step(2) by auto
  qed
qed

text \<open>Removing a committed entry stages its removal.\<close>

lemma del_ok_removed:
  assumes del: "del_ok w staged" and p: "live w staged man k0 p"
    and unique: "\<And>x. live w staged man k0 x \<Longrightarrow> x = p"
    and live: "\<And>man' k q. live w' (staged @ [p]) man' k q \<longleftrightarrow> live w staged man' k q \<and> q \<noteq> p"
    and not_add: "\<not> has_state w man k0 p VMW_CMDBUF_RES_ADD"
    and stt: "\<And>man' k q. has_state w' man' k q VMW_CMDBUF_RES_DEL \<longleftrightarrow>
        (if q = p then man' = man \<and> k = k0 else has_state w man' k q VMW_CMDBUF_RES_DEL)"
      "\<And>man' k q. q \<noteq> p \<Longrightarrow> has_state w' man' k q VMW_CMDBUF_RES_ADD = has_state w man' k q VMW_CMDBUF_RES_ADD"
  shows "del_ok w' (staged @ [p])"
  unfolding del_ok_def
proof (intro ballI allI impI, goal_cases)
  case (1 q man' k)
  have none: "\<not> has_state w man k0 x VMW_CMDBUF_RES_DEL" if "x \<in> set staged" for x
    using del that p not_add unfolding del_ok_def by blast
  show ?case
  proof (cases "q = p")
    case True
    then have "man' = man" "k = k0" using 1 by (auto simp: stt)
    with True none unique show ?thesis by (auto simp: live stt)
  next
    case False
    then have q: "q \<in> set staged" "has_state w man' k q VMW_CMDBUF_RES_DEL" using 1 by (auto simp: stt)
    then have d: "live w staged man' k x \<longrightarrow> has_state w man' k x VMW_CMDBUF_RES_ADD"
        "x \<in> set staged \<longrightarrow> has_state w man' k x VMW_CMDBUF_RES_DEL \<longrightarrow> x = q" for x
      using del by (auto simp: del_ok_def)
    moreover have "\<not> (man' = man \<and> k = k0)" using none q by blast
    ultimately show ?thesis by (auto simp: live stt split: if_splits)
  qed
qed

lemma remove_committed:
  assumes inv: "cres_inv hash_long w staged" and m: "mans w man = Some m"
    and p: "live w staged man (cmdbuf_res_key rt uk) p" "p \<notin> set staged"
  obtains w' r where
    "vmw_cmdbuf_res_remove hash_long w man rt uk staged = ((w', staged @ [p]), Inr (Some r))"
    "res_of w p r" "cres_inv hash_long w' (staged @ [p])"
    "\<And>man' k q. live w' (staged @ [p]) man' k q \<longleftrightarrow> live w staged man' k q \<and> q \<noteq> p"
    "\<And>q r. q \<noteq> p \<Longrightarrow> res_of w' q r = res_of w q r"
    "\<And>man k r. baseline w' (staged @ [p]) man k r = baseline w staged man k r"
    "del_ok w staged \<Longrightarrow> del_ok w' (staged @ [p])"
proof -
  let ?k = "cmdbuf_res_key rt uk"
  from live_entry [OF inv p(1)] p(2) obtain e where e: "entries w p = Some e" "cres_man e = man"
    "cres_key e = ?k" "cres_state e = VMW_CMDBUF_RES_COMMITTED" and pl: "on_list w man p" by blast
  define w' where "w' = set_entry p (Some (e\<lparr>cres_state := VMW_CMDBUF_RES_DEL\<rparr>))
      (upd_man man (\<lambda>m. m\<lparr>man_list := removeAll p (man_list m)\<rparr>)
        (upd_man man (\<lambda>m. m\<lparr>man_resources := drm_ht_remove_item (man_resources m) p\<rparr>) w))"
  have state: "has_state w man' k p s \<longleftrightarrow> man' = man \<and> k = ?k \<and> s = VMW_CMDBUF_RES_COMMITTED" for man' k s
    using e by (auto simp: has_state_def)
  have stt: "has_state w' man' k q s \<longleftrightarrow>
      (if q = p then man' = man \<and> k = ?k \<and> s = VMW_CMDBUF_RES_DEL else has_state w man' k q s)" for man' k q s
    using e by (auto simp: w'_def step_simps)
  have mans': "mans w' = (mans w)(man \<mapsto> m\<lparr>man_resources := drm_ht_remove_item (man_resources m) p,
       man_list := removeAll p (man_list m)\<rparr>)" using m by (simp add: w'_def)
  have onp: "on_list w man' p \<longleftrightarrow> man' = man" for man'
    using pl on_list_committed [OF inv, of man' p] state by auto
  have onl: "on_list w' man' q \<longleftrightarrow> on_list w man' q \<and> q \<noteq> p" for man' q
    using m onp by (auto simp: on_list_def mans' split: if_splits)
  have ro: "q \<noteq> p \<Longrightarrow> res_of w' q r = res_of w q r" for q r by (simp add: w'_def res_of_def)
  have live: "live w' (staged @ [p]) man' k q \<longleftrightarrow> live w staged man' k q \<and> q \<noteq> p" for man' k q
    by (auto simp: live_def onl stt)
  have livep: "live w staged man' k p \<longleftrightarrow> man' = man \<and> k = ?k" for man' k
    using p live_unique_key by blast
  have "man_ok hash_long w' (staged @ [p]) man' m'" if m': "mans w' man' = Some m'" for man' m'
  proof (cases "man' = man")
    case True
    note ok = man_okD [OF cres_invD(3) [OF inv m]]
    have "ht_map (drm_ht_remove_item (man_resources m) p) k = Some q \<longleftrightarrow> live w' (staged @ [p]) man k q" for k q
      using remove_obj_live [OF cres_invD(3) [OF inv m] p(1)] by (simp add: live)
    moreover have "\<exists>k. has_state w' man k q VMW_CMDBUF_RES_COMMITTED" if "q \<in> set (removeAll p (man_list m))" for q
      using that ok(3) [of q] by (auto simp: stt)
    ultimately show ?thesis
      using True m' ok drm_ht.remove_obj_invar [OF ok(1), of p]
      by (auto simp: man_ok_def mans' distinct_removeAll)
  next
    case False
    then have m1: "mans w man' = Some m'" using m' by (simp add: mans')
    note ok = man_okD [OF cres_invD(3) [OF inv m1]]
    have "p \<notin> set (man_list m')" using onp [of man'] m1 False by (auto simp: on_list_def)
    then have "\<exists>k. has_state w' man' k q VMW_CMDBUF_RES_COMMITTED" if "q \<in> set (man_list m')" for q
      using that ok(3) [of q] by (auto simp: stt)
    moreover have "q \<noteq> p" if "live w staged man' k q" for k q using that livep [of man' k] False by auto
    ultimately show ?thesis using ok by (auto simp: man_ok_def live)
  qed
  moreover have "staged_ok w' q" if "q \<in> set (staged @ [p])" for q
    using that cres_invD(2) [OF inv, of q] m by (cases "q = p") (auto simp: staged_ok_def stt mans')
  ultimately have inv': "cres_inv hash_long w' (staged @ [p])"
    using cres_invD(1) [OF inv] p(2) by (auto simp: cres_inv_def)
  show ?thesis
  proof (rule that [OF _ _ inv' live ro])
    show "vmw_cmdbuf_res_remove hash_long w man rt uk staged = ((w', staged @ [p]), Inr (Some (cres_res e)))"
      using m e remove_finds [OF inv m p(1)] by (simp add: vmw_cmdbuf_res_remove_def w'_def)
    show "res_of w p (cres_res e)" using e by (simp add: res_of_def)
    show "baseline w' (staged @ [p]) man' k r = baseline w staged man' k r" for man' k r
    proof (rule baseline_cong)
      show "based w' (staged @ [p]) man' k q \<longleftrightarrow> based w staged man' k q" for q
        using state onp p(2) by (auto simp: based_def onl stt)
      show "res_of w' q r \<longleftrightarrow> res_of w q r" for q
        using e by (cases "q = p") (auto simp: ro, auto simp: res_of_def w'_def)
    qed
    show "del_ok w' (staged @ [p])" if "del_ok w staged"
      by (rule del_ok_removed [OF that p(1) live_unique [OF cres_invD(3) [OF inv m] p(1)] live])
        (simp_all add: state stt)
  qed
qed

section \<open>Batches against a specification\<close>

text \<open>
  What the managers hold, as a function: the specification state of the component.
\<close>

definition cres_view :: "cres_store \<Rightarrow> nat \<Rightarrow> u64 \<Rightarrow> nat option" where
  "cres_view w man k =
     (case mans w man of None \<Rightarrow> None
      | Some m \<Rightarrow> (case ht_map (man_resources m) k of None \<Rightarrow> None
          | Some p \<Rightarrow> map_option cres_res (entries w p)))"

lemma live_man:
  assumes "cres_inv hash_long w staged" "live w staged man k p"
  shows "mans w man \<noteq> None"
  using assms cres_invD(2) [OF assms(1), of p]
  by (auto simp: live_def on_list_def staged_ok_def dest: has_state_unique)

lemma visible_man: "cres_inv hash_long w staged \<Longrightarrow> visible w staged man k r \<Longrightarrow> mans w man \<noteq> None"
  unfolding visible_def using live_man by blast

lemma cres_view_visible:
  assumes inv: "cres_inv hash_long w staged"
  shows "cres_view w man k = Some r \<longleftrightarrow> visible w staged man k r"
proof (cases "mans w man")
  case None
  then show ?thesis using visible_man [OF inv, of man k r] by (auto simp: cres_view_def)
next
  case (Some m)
  note ok = man_okD [OF cres_invD(3) [OF inv Some]]
  have "visible w staged man k r \<longleftrightarrow> (\<exists>p. ht_map (man_resources m) k = Some p \<and> res_of w p r)"
    by (simp add: visible_def ok(4))
  then show ?thesis using Some by (auto simp: cres_view_def res_of_def split: option.splits)
qed

datatype stage_op =
    Stage_add nat nat vmw_cmdbuf_res_type u32 nat
  | Stage_remove nat vmw_cmdbuf_res_type u32

fun stage :: "hash_fn \<Rightarrow> stage_op \<Rightarrow> cres_store \<times> nat list \<Rightarrow> cres_store \<times> nat list" where
  "stage hash_long (Stage_add p man rt uk res) (w, staged) =
     fst (vmw_cmdbuf_res_add hash_long (Some p) w man rt uk res staged)"
| "stage hash_long (Stage_remove man rt uk) (w, staged) =
     fst (vmw_cmdbuf_res_remove hash_long w man rt uk staged)"

fun spec_stage :: "stage_op \<Rightarrow> (nat \<Rightarrow> u64 \<Rightarrow> nat option) \<Rightarrow> nat \<Rightarrow> u64 \<Rightarrow> nat option" where
  "spec_stage (Stage_add p man rt uk res) V =
     (let k = cmdbuf_res_key rt uk in
      if V man k = None then V(man := (V man)(k \<mapsto> res)) else V)"
| "spec_stage (Stage_remove man rt uk) V = V(man := (V man)(cmdbuf_res_key rt uk := None))"

fun op_man :: "stage_op \<Rightarrow> nat" where
  "op_man (Stage_add p man rt uk res) = man"
| "op_man (Stage_remove man rt uk) = man"

fun op_addrs :: "stage_op \<Rightarrow> nat list" where
  "op_addrs (Stage_add p man rt uk res) = [p]"
| "op_addrs (Stage_remove man rt uk) = []"

definition ops_ok :: "cres_store \<Rightarrow> stage_op list \<Rightarrow> bool" where
  "ops_ok w ops \<longleftrightarrow> distinct (concat (map op_addrs ops)) \<and>
     (\<forall>op\<in>set ops. mans w (op_man op) \<noteq> None \<and> (\<forall>p\<in>set (op_addrs op). entries w p = None))"

lemma free_frame:
  "entries w q = None \<Longrightarrow> entries (fst (vmw_cmdbuf_res_free w man p e l)) q = None"
  "mans (fst (vmw_cmdbuf_res_free w man p e l)) x = None \<longleftrightarrow> mans w x = None"
  by (auto simp: vmw_cmdbuf_res_free_def Let_def)

lemma stage_frame:
  assumes "stage hash_long op (w, staged) = (w', staged')"
  shows "entries w q = None \<Longrightarrow> q \<notin> set (op_addrs op) \<Longrightarrow> entries w' q = None"
    "mans w' x = None \<longleftrightarrow> mans w x = None"
proof -
  have "(entries w q = None \<longrightarrow> q \<notin> set (op_addrs op) \<longrightarrow> entries w' q = None) \<and>
      (mans w' x = None \<longleftrightarrow> mans w x = None)"
  proof (cases op)
    case (Stage_add p man rt uk res)
    with assms show ?thesis
      by (auto simp: vmw_cmdbuf_res_add_def Let_def split: option.splits sum.splits if_splits)
  next
    case (Stage_remove man rt uk)
    with assms free_frame show ?thesis
      by (auto simp: vmw_cmdbuf_res_remove_def prod_eq_iff split: option.splits sum.splits kerr.splits
          vmw_cmdbuf_res_state.splits if_splits)
  qed
  then show "entries w q = None \<Longrightarrow> q \<notin> set (op_addrs op) \<Longrightarrow> entries w' q = None"
    "mans w' x = None \<longleftrightarrow> mans w x = None" by auto
qed

lemma visible_removed:
  assumes inv: "cres_inv hash_long w staged" and p: "live w staged man k p"
    and live: "\<And>man' k q. live w' staged' man' k q \<longleftrightarrow> live w staged man' k q \<and> q \<noteq> p"
    and ro: "\<And>q r. q \<noteq> p \<Longrightarrow> res_of w' q r = res_of w q r"
  shows "visible w' staged' man' k' r \<longleftrightarrow> visible w staged man' k' r \<and> \<not> (man' = man \<and> k' = k)"
proof -
  obtain m where m: "mans w man = Some m"
    using live_man [OF inv p] by auto
  have "q = p" if "live w staged man k q" for q
    using that p man_okD(4) [OF cres_invD(3) [OF inv m], of k] by (metis option.inject)
  then have "live w staged man' k' q \<and> q \<noteq> p \<longleftrightarrow> live w staged man' k' q \<and> \<not> (man' = man \<and> k' = k)" for q
    using live_unique_key [OF p, of man' k'] by blast
  then show ?thesis unfolding visible_def live using ro by metis
qed

lemma stage_add_correct:
  assumes inv: "cres_inv hash_long w staged" and del: "del_ok w staged" and ok: "ops_ok w [op]"
    and st: "stage hash_long op (w, staged) = (w', staged')"
    and Stage_add: "op = Stage_add p man rt uk res"
  shows "cres_inv hash_long w' staged' \<and> del_ok w' staged' \<and>
    cres_view w' = spec_stage op (cres_view w) \<and>
    (\<forall>man k r. baseline w' staged' man k r = baseline w staged man k r)"
proof -
  let ?k = "cmdbuf_res_key rt uk"
  from ok Stage_add obtain m where m: "mans w man = Some m" and p: "entries w p = None"
    by (auto simp: ops_ok_def)
  show ?thesis
  proof (cases "\<exists>q. live w staged man ?k q")
    case True
    then obtain q where q: "live w staged man ?k q" by blast
    note used = add_used_key [OF inv m p q]
    have w': "w' = set_entry p (Some (zero_cres ?k)) w" "staged' = staged"
      using st Stage_add used(1) by auto
    have "visible w staged man ?k r" if "res_of w q r" for r using q that by (auto simp: visible_def)
    then have some: "cres_view w man ?k \<noteq> None"
      using live_entry [OF inv q] cres_view_visible [OF inv, of man ?k]
      by (metis option.distinct(1) res_of_def)
    have fresh: "\<not> live w staged man k p" for man k using fresh_entry [OF inv p] by (simp add: live_def)
    have "del_ok w' staged'"
      using del fresh_entry [OF inv p] unfolding del_ok_def w' live_def by (auto simp: step_simps)
    moreover have "cres_view w' man k = cres_view w man k" for man k
      by (rule option_eqI) (use cres_view_visible [OF inv] cres_view_visible [OF used(2)] used(3) w' in simp)
    ultimately show ?thesis using used some Stage_add w' by (auto simp: Let_def fun_eq_iff)
  next
    case False
    then obtain w2 where w2:
      "vmw_cmdbuf_res_add hash_long (Some p) w man rt uk res staged = ((w2, staged @ [p]), Inr ())"
      "cres_inv hash_long w2 (staged @ [p])"
      "\<And>man' k r. visible w2 (staged @ [p]) man' k r \<longleftrightarrow>
         visible w staged man' k r \<or> man' = man \<and> k = ?k \<and> r = res"
      "\<And>man k r. baseline w2 (staged @ [p]) man k r = baseline w staged man k r"
      "del_ok w2 (staged @ [p])"
      using add_free_key [OF inv m p, of rt uk res] del by metis
    have none: "cres_view w man ?k = None"
      using False cres_view_visible [OF inv, of man ?k] by (auto simp: visible_def)
    have "cres_view w2 man' k = ((cres_view w)(man := (cres_view w man)(?k \<mapsto> res))) man' k" for man' k
      by (rule option_eqI)
        (use w2(3) [of man' k] none cres_view_visible [OF inv, of man' k]
           cres_view_visible [OF w2(2), of man' k] in auto)
    then show ?thesis using w2 none st Stage_add by (auto simp: Let_def fun_eq_iff)
  qed
qed

lemma stage_remove_correct:
  assumes inv: "cres_inv hash_long w staged" and del: "del_ok w staged" and ok: "ops_ok w [op]"
    and st: "stage hash_long op (w, staged) = (w', staged')"
    and Stage_remove: "op = Stage_remove man rt uk"
  shows "cres_inv hash_long w' staged' \<and> del_ok w' staged' \<and>
    cres_view w' = spec_stage op (cres_view w) \<and>
    (\<forall>man k r. baseline w' staged' man k r = baseline w staged man k r)"
proof -
  let ?k = "cmdbuf_res_key rt uk"
  from ok Stage_remove obtain m where m: "mans w man = Some m" by (auto simp: ops_ok_def)
  have goal: ?thesis
    if "cres_inv hash_long w' staged'" "del_ok w' staged'"
      "\<And>man' k r. visible w' staged' man' k r \<longleftrightarrow> visible w staged man' k r \<and> \<not> (man' = man \<and> k = ?k)"
      "\<And>man k r. baseline w' staged' man k r = baseline w staged man k r"
  proof -
    have "cres_view w' man' k = ((cres_view w)(man := (cres_view w man)(?k := None))) man' k" for man' k
      by (rule option_eqI)
        (use that(3) [of man' k] cres_view_visible [OF inv, of man' k]
           cres_view_visible [OF that(1), of man' k] in auto)
    then show ?thesis using that Stage_remove by (auto simp: fun_eq_iff)
  qed
  show ?thesis
  proof (cases "\<exists>q. live w staged man ?k q")
    case False
    then have "w' = w" "staged' = staged"
      using remove_missing [OF inv m, of rt uk] st Stage_remove by auto
    with False inv del show ?thesis by (intro goal) (auto simp: visible_def)
  next
    case True
    then obtain q where q: "live w staged man ?k q" by blast
    show ?thesis
    proof (cases "q \<in> set staged")
      case True
      obtain w2 where r: "vmw_cmdbuf_res_remove hash_long w man rt uk staged = ((w2, removeAll q staged), Inr None)"
        and w2: "cres_inv hash_long w2 (removeAll q staged)"
        "\<And>man' k x. live w2 (removeAll q staged) man' k x \<longleftrightarrow> live w staged man' k x \<and> x \<noteq> q"
        "\<And>x r. x \<noteq> q \<Longrightarrow> res_of w2 x r = res_of w x r"
        "\<And>man k r. baseline w2 (removeAll q staged) man k r = baseline w staged man k r"
        "del_ok w staged \<Longrightarrow> del_ok w2 (removeAll q staged)"
        by (rule remove_staged [OF inv m q True]) (rule that)
      have "w' = w2" "staged' = removeAll q staged" using st Stage_remove r by simp_all
      with w2 del visible_removed [OF inv q w2(2,3)] show ?thesis by (intro goal) auto
    next
      case False
      obtain w2 x where r: "vmw_cmdbuf_res_remove hash_long w man rt uk staged = ((w2, staged @ [q]), Inr (Some x))"
        and w2: "cres_inv hash_long w2 (staged @ [q])"
        "\<And>man' k x. live w2 (staged @ [q]) man' k x \<longleftrightarrow> live w staged man' k x \<and> x \<noteq> q"
        "\<And>x r. x \<noteq> q \<Longrightarrow> res_of w2 x r = res_of w x r"
        "\<And>man k r. baseline w2 (staged @ [q]) man k r = baseline w staged man k r"
        "del_ok w staged \<Longrightarrow> del_ok w2 (staged @ [q])"
        by (rule remove_committed [OF inv m q False]) (rule that)
      have "w' = w2" "staged' = staged @ [q]" using st Stage_remove r by simp_all
      with w2 del visible_removed [OF inv q w2(2,3)] show ?thesis by (intro goal) auto
    qed
  qed
qed

lemma stage_correct:
  assumes inv: "cres_inv hash_long w staged" and del: "del_ok w staged" and ok: "ops_ok w [op]"
    and st: "stage hash_long op (w, staged) = (w', staged')"
  shows "cres_inv hash_long w' staged' \<and> del_ok w' staged' \<and>
    cres_view w' = spec_stage op (cres_view w) \<and>
    (\<forall>man k r. baseline w' staged' man k r = baseline w staged man k r)"
  using stage_add_correct [OF assms] stage_remove_correct [OF assms] by (cases op) blast+

fun stage_all :: "hash_fn \<Rightarrow> stage_op list \<Rightarrow> cres_store \<times> nat list \<Rightarrow> cres_store \<times> nat list" where
  "stage_all hash_long [] s = s"
| "stage_all hash_long (op # ops) s = stage_all hash_long ops (stage hash_long op s)"

fun spec_stage_all ::
  "stage_op list \<Rightarrow> (nat \<Rightarrow> u64 \<Rightarrow> nat option) \<Rightarrow> nat \<Rightarrow> u64 \<Rightarrow> nat option" where
  "spec_stage_all [] V = V"
| "spec_stage_all (op # ops) V = spec_stage_all ops (spec_stage op V)"

lemma ops_ok_Cons:
  assumes "ops_ok w (op # ops)" "stage hash_long op (w, staged) = (w', staged')"
  shows "ops_ok w [op]" "ops_ok w' ops"
proof -
  show "ops_ok w [op]" using assms(1) by (auto simp: ops_ok_def)
  have "entries w' p = None" if "op' \<in> set ops" "p \<in> set (op_addrs op')" for op' p
  proof (rule stage_frame(1) [OF assms(2)])
    show "entries w p = None" "p \<notin> set (op_addrs op)"
      using assms(1) that by (auto simp: ops_ok_def)
  qed
  then show "ops_ok w' ops"
    using assms(1) stage_frame(2) [OF assms(2)] by (auto simp: ops_ok_def)
qed

lemma stage_all_correct:
  assumes "cres_inv hash_long w staged" "del_ok w staged" "ops_ok w ops"
    and "stage_all hash_long ops (w, staged) = (w', staged')"
  shows "cres_inv hash_long w' staged' \<and> del_ok w' staged' \<and>
    cres_view w' = spec_stage_all ops (cres_view w) \<and>
    (\<forall>man k r. baseline w' staged' man k r = baseline w staged man k r)"
  using assms
proof (induction ops arbitrary: w staged)
  case (Cons op ops)
  obtain w1 s1 where s1: "stage hash_long op (w, staged) = (w1, s1)" by fastforce
  note ok = ops_ok_Cons [OF Cons.prems(3) s1]
  from stage_correct [OF Cons.prems(1,2) ok(1) s1] Cons.IH [of w1 s1] ok(2) Cons.prems(4) s1
  show ?case by auto
qed auto

text \<open>A whole batch, from an empty staging list.\<close>

lemma batch_commit_view:
  assumes inv: "cres_inv hash_long w []" and ok: "ops_ok w ops"
    and st: "stage_all hash_long ops (w, []) = (w1, staged)"
  obtains w2 where "vmw_cmdbuf_res_commit hn w1 staged = Inr w2" "cres_inv hash_long w2 []"
    "cres_view w2 = spec_stage_all ops (cres_view w)"
proof -
  have "del_ok w []" by (simp add: del_ok_def)
  from stage_all_correct [OF inv this ok st] have b: "cres_inv hash_long w1 staged"
    "cres_view w1 = spec_stage_all ops (cres_view w)" by auto
  from commit_correct [OF b(1), of hn] obtain w2 where w2:
    "vmw_cmdbuf_res_commit hn w1 staged = Inr w2" "cres_inv hash_long w2 []"
    "\<And>man k r. visible w2 [] man k r = visible w1 staged man k r" by blast
  have "cres_view w2 man k = cres_view w1 man k" for man k
    by (rule option_eqI) (simp add: cres_view_visible [OF b(1)] cres_view_visible [OF w2(2)] w2(3))
  with b(2) that [OF w2(1,2)] show ?thesis by (auto simp: fun_eq_iff)
qed

lemma batch_revert_view:
  assumes inv: "cres_inv hash_long w []" and ok: "ops_ok w ops"
    and st: "stage_all hash_long ops (w, []) = (w1, staged)" and nc: "no_conflict w1 staged"
  obtains w2 where "vmw_cmdbuf_res_revert hash_long w1 staged = Inr w2" "cres_inv hash_long w2 []"
    "cres_view w2 = cres_view w"
proof -
  have "del_ok w []" by (simp add: del_ok_def)
  from stage_all_correct [OF inv this ok st] have b: "cres_inv hash_long w1 staged"
    "\<And>man k r. baseline w1 staged man k r = visible w [] man k r"
    by (auto simp: live_no_baseline)
  from revert_correct [OF b(1) nc] obtain w2 where w2:
    "vmw_cmdbuf_res_revert hash_long w1 staged = Inr w2" "cres_inv hash_long w2 []"
    "\<And>man k r. visible w2 [] man k r = baseline w1 staged man k r" by blast
  have "cres_view w2 man k = cres_view w man k" for man k
    by (rule option_eqI) (simp add: cres_view_visible [OF inv] cres_view_visible [OF w2(2)] w2(3) b(2))
  with that [OF w2(1,2)] show ?thesis by (auto simp: fun_eq_iff)
qed

section \<open>Managers\<close>

lemma lookup_view:
  assumes inv: "cres_inv hash_long w staged" and man: "mans w man \<noteq> None"
  shows "vmw_cmdbuf_res_lookup hash_long w man rt uk =
    (case cres_view w man (cmdbuf_res_key rt uk) of None \<Rightarrow> Inl EINVAL | Some r \<Rightarrow> Inr r)"
proof -
  from man obtain m where m: "mans w man = Some m" by auto
  note ok = man_okD [OF cres_invD(3) [OF inv m]]
  have "entries w p \<noteq> None" if "ht_map (man_resources m) k = Some p" for k p
    using that live_entry [OF inv, of man k p] by (auto simp: ok(4))
  then show ?thesis
    using m by (auto simp: vmw_cmdbuf_res_lookup_def cres_view_def drm_ht.find_law [OF ok(1)]
        split: option.splits)
qed

lemma man_create_correct:
  assumes inv: "cres_inv hash_long w []" and fresh: "mans w man = None"
    and h: "hash_in_range hash_long VMW_CMDBUF_RES_MAN_HT_ORDER"
    and c: "vmw_cmdbuf_res_man_create kc vz (Some man) w dev = (w', Inr man)"
  shows "cres_inv hash_long w' [] \<and> cres_view w' = (cres_view w)(man := Map.empty)"
proof -
  obtain ht where ht: "drm_ht_create kc vz VMW_CMDBUF_RES_MAN_HT_ORDER = (ht, Inr ())"
    and w': "w' = w\<lparr>mans := (mans w)(man \<mapsto> \<lparr>man_resources = ht, man_list = [], man_dev_priv = dev\<rparr>)\<rparr>"
    using c by (auto simp: vmw_cmdbuf_res_man_create_def split: prod.splits sum.splits)
  from drm_ht_create_ok [OF h _ ht] have ok: "ht_inv hash_long ht" "ht_map ht = Map.empty" by auto
  have st: "has_state w' = has_state w" by (simp add: fun_eq_iff has_state_def w')
  have onl: "on_list w' x p = on_list w x p" for x p using fresh by (auto simp: on_list_def w')
  have live: "live w' [] x k p = live w [] x k p" for x k p by (simp add: live_def st onl)
  have "\<not> on_list w man p" for p using fresh by (simp add: on_list_def)
  then have nolive: "\<not> live w [] man k p" for k p by (simp add: live_def)
  have "man_ok hash_long w' [] x m" if "mans w' x = Some m" for x m
  proof (cases "x = man")
    case True
    with that have "m = \<lparr>man_resources = ht, man_list = [], man_dev_priv = dev\<rparr>" by (simp add: w')
    with True ok nolive show ?thesis by (simp add: man_ok_def live)
  next
    case False
    with that have "man_ok hash_long w [] x m" using cres_invD(3) [OF inv] by (simp add: w')
    then show ?thesis by (simp add: man_ok_def live st)
  qed
  then have "cres_inv hash_long w' []" by (simp add: cres_inv_def)
  moreover have "cres_view w' x k = ((cres_view w)(man := Map.empty)) x k" for x k
    using ok by (cases "x = man") (simp_all add: cres_view_def w' split: option.splits)
  ultimately show ?thesis by (auto simp: fun_eq_iff)
qed

section \<open>Properties\<close>

text \<open>
  C3: Staging any sequence of additions and removals and committing it refines a sequence of
  updates of one finite map per manager: the commit never hits its \<open>BUG()\<close> branch, the
  bookkeeping stays consistent, and every later lookup returns what the map says (an addition
  under a key in use is refused and leaves the map alone).
\<close>

theorem batch_commit_refines:
  assumes "cres_inv hash_long w []" "ops_ok w ops"
  shows "\<exists>w2. vmw_cmdbuf_res_commit hn (fst (stage_all hash_long ops (w, [])))
             (snd (stage_all hash_long ops (w, []))) = Inr w2 \<and>
           cres_inv hash_long w2 [] \<and>
           (\<forall>man rt uk. mans w2 man = None \<or> vmw_cmdbuf_res_lookup hash_long w2 man rt uk =
              (case spec_stage_all ops (cres_view w) man (cmdbuf_res_key rt uk) of
                 None \<Rightarrow> Inl EINVAL | Some r \<Rightarrow> Inr r))"
proof -
  have "stage_all hash_long ops (w, []) =
      (fst (stage_all hash_long ops (w, [])), snd (stage_all hash_long ops (w, [])))" by simp
  from batch_commit_view [OF assms this, of hn] lookup_view show ?thesis by metis
qed

text \<open>
  C4: When a batch of additions and removals is reverted and no key it removed was added
  again, every lookup in every manager returns exactly what it returned before the batch.
\<close>

theorem batch_revert_restores:
  assumes "cres_inv hash_long w []" "ops_ok w ops"
    and "no_conflict (fst (stage_all hash_long ops (w, []))) (snd (stage_all hash_long ops (w, [])))"
  shows "\<exists>w2. vmw_cmdbuf_res_revert hash_long (fst (stage_all hash_long ops (w, [])))
             (snd (stage_all hash_long ops (w, []))) = Inr w2 \<and>
           cres_inv hash_long w2 [] \<and> cres_view w2 = cres_view w"
proof -
  have "stage_all hash_long ops (w, []) =
      (fst (stage_all hash_long ops (w, [])), snd (stage_all hash_long ops (w, [])))" by simp
  from batch_revert_view [OF assms(1,2) this assms(3)] show ?thesis by metis
qed

text \<open>The instance used below: one manager with a one-chain table and one committed shader.\<close>

definition demo_store :: cres_store where
  "demo_store =
     \<lparr>entries = [10 \<mapsto> \<lparr>cres_res = 77, cres_key = 5, cres_state = VMW_CMDBUF_RES_COMMITTED, cres_man = 1\<rparr>],
      mans = [1 \<mapsto> \<lparr>man_resources = \<lparr>ht_order = 0, ht_table = Some [[\<lparr>item_key = 5, item_obj = 10\<rparr>]]\<rparr>,
                    man_list = [10], man_dev_priv = 0\<rparr>],
      krefs = (\<lambda>_. 1), notified = []\<rparr>"

lemma demo_store_inv: "cres_inv low_bits_hash demo_store []"
proof -
  have h: "ht_inv low_bits_hash \<lparr>ht_order = 0, ht_table = Some [[\<lparr>item_key = 5, item_obj = 10 :: nat\<rparr>]]\<rparr>"
    using low_bits_hash_in_range [of 0] by (simp add: ht_inv_def chain_ok_def low_bits_hash_def)
  show ?thesis
    using h by (auto simp: cres_inv_def demo_store_def man_ok_def live_def has_state_def on_list_def
        ht_map_def ht_items_def)
qed

definition demo_ops :: "stage_op list" where
  "demo_ops = [Stage_remove 1 vmw_cmdbuf_res_shader 5, Stage_add 11 1 vmw_cmdbuf_res_shader 6 88]"

lemma demo_ops_ok: "ops_ok demo_store demo_ops"
  by (simp add: ops_ok_def demo_ops_def demo_store_def)

lemmas demo_eval = demo_store_def demo_ops_def vmw_cmdbuf_res_add_def vmw_cmdbuf_res_remove_def
  cmdbuf_res_key_def drm_ht_insert_item_def drm_ht_find_item_def drm_ht_find_key_rcu_def
  ht_chain_def ht_set_chain_def low_bits_hash_def drm_ht_remove_item_def upd_man_def set_entry_def
  kref_get_def kref_put_def vmw_cmdbuf_res_free_def vmw_cmdbuf_res_lookup_def commit_notify_def

theorem batch_commit_refines_witness:
  "\<exists>w2. vmw_cmdbuf_res_commit (\<lambda>_. True) (fst (stage_all low_bits_hash demo_ops (demo_store, [])))
      (snd (stage_all low_bits_hash demo_ops (demo_store, []))) = Inr w2 \<and>
    (mans w2 1 = None \<or> vmw_cmdbuf_res_lookup low_bits_hash w2 1 vmw_cmdbuf_res_shader 6 = Inr 88)"
proof -
  have "spec_stage_all demo_ops (cres_view demo_store) 1 (cmdbuf_res_key vmw_cmdbuf_res_shader 6) = Some 88"
    by (simp add: demo_ops_def cres_view_def demo_store_def ht_map_def ht_items_def cmdbuf_res_key_def)
  with batch_commit_refines [OF demo_store_inv demo_ops_ok, of "\<lambda>_. True"] show ?thesis by fastforce
qed

theorem batch_revert_restores_witness:
  "\<exists>w2. vmw_cmdbuf_res_revert low_bits_hash (fst (stage_all low_bits_hash demo_ops (demo_store, [])))
      (snd (stage_all low_bits_hash demo_ops (demo_store, []))) = Inr w2 \<and>
    cres_view w2 = cres_view demo_store"
proof -
  have "no_conflict (fst (stage_all low_bits_hash demo_ops (demo_store, [])))
      (snd (stage_all low_bits_hash demo_ops (demo_store, [])))"
    by (auto simp: demo_eval no_conflict_def live_def has_state_def on_list_def)
  from batch_revert_restores [OF demo_store_inv demo_ops_ok this] show ?thesis by blast
qed


section \<open>The key space\<close>

lemma unat_vmw_key:
  fixes a t :: u32
  assumes "unat a < 2 ^ 20" "unat t < 16"
  shows "unat (a OR push_bit 20 t) = unat a + unat t * 2 ^ 20" "unat (a OR push_bit 20 t) < 2 ^ 24"
  using assms unat_or_push_bit [of a 20 t] by simp_all

lemma unat_cmdbuf_res_key:
  assumes "unat uk < 2 ^ 24"
  shows "unat (cmdbuf_res_key rt uk) = unat uk + unat (res_type_code rt) * 2 ^ 24"
proof -
  have "unat (res_type_code rt) < 2" by (cases rt) simp_all
  then have "unat (uk OR push_bit 24 (res_type_code rt)) = unat uk + unat (res_type_code rt) * 2 ^ 24"
    using assms by (intro unat_or_push_bit) simp_all
  moreover have "unat (cmdbuf_res_key rt uk) = unat (uk OR push_bit 24 (res_type_code rt))"
    unfolding cmdbuf_res_key_def unsigned_ucast_eq
    by (rule take_bit_nat_eq_self) (rule order.strict_trans [OF unsigned_less], simp)
  ultimately show ?thesis by simp
qed

lemma shader_id_bounds: "vmw_shader_id_ok a t \<Longrightarrow> unat a < 2 ^ 20 \<and> unat t < 16"
  by (simp add: vmw_shader_id_ok_def word_le_nat_alt word_less_nat_alt)

lemma view_id_bounds: "vmw_view_id_ok a v \<Longrightarrow> unat a < 2 ^ 20 \<and> unat (view_type_code v) < 16"
  by (cases v) (simp_all add: vmw_view_id_ok_def word_le_nat_alt word_less_nat_alt)

lemma view_type_code_inject: "unat (view_type_code v) = unat (view_type_code v') \<longleftrightarrow> v = v'"
  by (cases v; cases v') simp_all

text \<open>For ids that pass the range checks the hash keys never collide: two shaders share a key
  only if id and type agree, two views share a key only if id and view type agree, and a
  shader and a view never share one.
\<close>

lemma cmdbuf_keys_distinct:
  assumes "vmw_shader_id_ok a t" "vmw_shader_id_ok b u" "vmw_view_id_ok c v" "vmw_view_id_ok d x"
  shows "(cmdbuf_res_key vmw_cmdbuf_res_shader (vmw_shader_key a t) =
          cmdbuf_res_key vmw_cmdbuf_res_shader (vmw_shader_key b u) \<longleftrightarrow> a = b \<and> t = u) \<and>
         (cmdbuf_res_key vmw_cmdbuf_res_view (vmw_view_key c v) =
          cmdbuf_res_key vmw_cmdbuf_res_view (vmw_view_key d x) \<longleftrightarrow> c = d \<and> v = x) \<and>
         cmdbuf_res_key vmw_cmdbuf_res_shader (vmw_shader_key a t) \<noteq>
         cmdbuf_res_key vmw_cmdbuf_res_view (vmw_view_key c v)"
proof -
  note bs = assms(1,2) [THEN shader_id_bounds] assms(3,4) [THEN view_id_bounds]
  have sh: "unat (cmdbuf_res_key vmw_cmdbuf_res_shader (vmw_shader_key a t)) = unat a + unat t * 2 ^ 20"
    if "unat a < 2 ^ 20 \<and> unat t < 16" for a t
    using that unat_vmw_key [of a t] by (simp add: unat_cmdbuf_res_key vmw_shader_key_def)
  have vi: "unat (cmdbuf_res_key vmw_cmdbuf_res_view (vmw_view_key c v)) =
      unat c + unat (view_type_code v) * 2 ^ 20 + 2 ^ 24"
    if "unat c < 2 ^ 20 \<and> unat (view_type_code v) < 16" for c v
    using that unat_vmw_key [of c "view_type_code v"] by (simp add: unat_cmdbuf_res_key vmw_view_key_def)
  have split: "x + y * 2 ^ 20 = x' + y' * 2 ^ 20 \<longleftrightarrow> x = x' \<and> y = y'"
    if "x < 2 ^ 20" "x' < 2 ^ 20" for x x' y y' :: nat using that by (rule add_mult_eq_iff)
  have "unat a + unat t * 2 ^ 20 \<noteq> unat c + unat (view_type_code v) * 2 ^ 20 + 2 ^ 24"
    using bs by auto
  with bs show ?thesis
    by (simp add: word_unat_eq_iff sh vi split [simplified] view_type_code_inject)
qed

lemma cmdbuf_keys_distinct_example:
  "vmw_shader_id_ok 1048575 15 \<and> vmw_view_id_ok 65532 vmw_view_ds \<and>
   cmdbuf_res_key vmw_cmdbuf_res_shader (vmw_shader_key 1048575 15) \<noteq>
   cmdbuf_res_key vmw_cmdbuf_res_view (vmw_view_key 65532 vmw_view_ds)"
proof -
  have "vmw_shader_id_ok 1048575 15" "vmw_view_id_ok 65532 vmw_view_ds"
    by (simp_all add: vmw_shader_id_ok_def vmw_view_id_ok_def)
  with cmdbuf_keys_distinct [OF this(1,1,2,2)] show ?thesis by blast
qed

text \<open>\<open>vmw_view_lookup\<close> does not check its id, unlike the other view and shader
  operations: a shader-resource lookup whose id has bit 20 set finds the render-target view
  with the remaining id, whatever the manager holds, although that id is out of range.
\<close>

lemma view_lookup_confuses_types:
  "vmw_view_lookup hash_long w man vmw_view_sr (user_key OR push_bit 20 1) =
     vmw_view_lookup hash_long w man vmw_view_rt user_key \<and>
   \<not> vmw_view_id_ok (user_key OR push_bit 20 1) vmw_view_sr"
proof -
  have "unat (user_key OR push_bit 20 1) \<ge> 2 ^ 20"
  proof (rule ccontr)
    assume "\<not> ?thesis"
    then have "take_bit 20 (unat (user_key OR push_bit 20 1)) = unat (user_key OR push_bit 20 1)"
      by (simp add: take_bit_nat_eq_self_iff)
    then have "\<not> bit (unat (user_key OR push_bit 20 1)) 20" by (metis bit_take_bit_iff less_irrefl)
    then show False by (simp add: bit_unsigned_iff bit_simps)
  qed
  then show ?thesis
    by (simp add: vmw_view_lookup_def vmw_view_key_def vmw_view_id_ok_def word_less_nat_alt)
qed

end
