(* ===== verification/Vmw_Device.thy ===== *)
theory Vmw_Device
  imports Vmw_Prelude
begin

text \<open>
  The device state that the FIFO, the marker queue, the fences and the interrupt code share:
  the parts of \<open>struct vmw_private\<close> and \<open>struct vmw_fifo_state\<close> (\<open>src/vmwgfx_drv.h\<close>),
  \<open>struct vmw_marker\<close> (\<open>src/vmwgfx_marker.c\<close>) and \<open>struct vmw_fence_manager\<close>
  (\<open>src/vmwgfx_fence.c\<close>) they use. The memory-mapped FIFO is a function from word indices
  to 32-bit words; a device register reads as the host left it, and the driver's writes to
  registers are recorded in order. The kernel's clock is an argument of the operations that read it.
\<close>

section \<open>Device constants\<close>

abbreviation (input) SVGA_FIFO_MIN :: nat where "SVGA_FIFO_MIN \<equiv> 0"
abbreviation (input) SVGA_FIFO_MAX :: nat where "SVGA_FIFO_MAX \<equiv> 1"
abbreviation (input) SVGA_FIFO_NEXT_CMD :: nat where "SVGA_FIFO_NEXT_CMD \<equiv> 2"
abbreviation (input) SVGA_FIFO_STOP :: nat where "SVGA_FIFO_STOP \<equiv> 3"
abbreviation (input) SVGA_FIFO_CAPABILITIES :: nat where "SVGA_FIFO_CAPABILITIES \<equiv> 4"
abbreviation (input) SVGA_FIFO_FENCE :: nat where "SVGA_FIFO_FENCE \<equiv> 6"
abbreviation (input) SVGA_FIFO_3D_HWVERSION :: nat where "SVGA_FIFO_3D_HWVERSION \<equiv> 7"
abbreviation (input) SVGA_FIFO_RESERVED :: nat where "SVGA_FIFO_RESERVED \<equiv> 14"
abbreviation (input) SVGA_FIFO_3D_HWVERSION_REVISED :: nat where "SVGA_FIFO_3D_HWVERSION_REVISED \<equiv> 17"
abbreviation (input) SVGA_FIFO_FENCE_GOAL :: nat where "SVGA_FIFO_FENCE_GOAL \<equiv> 289"
abbreviation (input) SVGA_FIFO_BUSY :: nat where "SVGA_FIFO_BUSY \<equiv> 290"

abbreviation (input) SVGA_FIFO_CAP_FENCE :: u32 where "SVGA_FIFO_CAP_FENCE \<equiv> 1"
abbreviation (input) SVGA_FIFO_CAP_PITCHLOCK :: u32 where "SVGA_FIFO_CAP_PITCHLOCK \<equiv> 4"
abbreviation (input) SVGA_FIFO_CAP_RESERVE :: u32 where "SVGA_FIFO_CAP_RESERVE \<equiv> 64"
abbreviation (input) SVGA_FIFO_CAP_3D_HWVERSION_REVISED :: u32 where "SVGA_FIFO_CAP_3D_HWVERSION_REVISED \<equiv> 256"
abbreviation (input) SVGA3D_HWVERSION_WS8_B1 :: u32 where "SVGA3D_HWVERSION_WS8_B1 \<equiv> 0x20001"
abbreviation (input) SVGA3D_DEVCAP_3D :: u32 where "SVGA3D_DEVCAP_3D \<equiv> 0"
abbreviation (input) VMWGFX_FIFO_STATIC_SIZE :: u32 where "VMWGFX_FIFO_STATIC_SIZE \<equiv> 1024 * 1024"

abbreviation (input) SVGA_CAP_3D :: u32 where "SVGA_CAP_3D \<equiv> 0x4000"
abbreviation (input) SVGA_CAP_EXTENDED_FIFO :: u32 where "SVGA_CAP_EXTENDED_FIFO \<equiv> 0x8000"
abbreviation (input) SVGA_CAP_IRQMASK :: u32 where "SVGA_CAP_IRQMASK \<equiv> 0x40000"
abbreviation (input) SVGA_CAP_COMMAND_BUFFERS :: u32 where "SVGA_CAP_COMMAND_BUFFERS \<equiv> 0x1000000"
abbreviation (input) SVGA_CAP_GBOBJECTS :: u32 where "SVGA_CAP_GBOBJECTS \<equiv> 0x8000000"

abbreviation (input) SVGA_CAP_DX :: u32 where "SVGA_CAP_DX \<equiv> 0x10000000"
abbreviation (input) SVGA_CAP_HP_CMD_QUEUE :: u32 where "SVGA_CAP_HP_CMD_QUEUE \<equiv> 0x20000000"

abbreviation (input) SVGA_SYNC_GENERIC :: u32 where "SVGA_SYNC_GENERIC \<equiv> 1"
abbreviation (input) SVGA_SYNC_FIFOFULL :: u32 where "SVGA_SYNC_FIFOFULL \<equiv> 2"

abbreviation (input) SVGA_IRQFLAG_ANY_FENCE :: u32 where "SVGA_IRQFLAG_ANY_FENCE \<equiv> 1"
abbreviation (input) SVGA_IRQFLAG_FIFO_PROGRESS :: u32 where "SVGA_IRQFLAG_FIFO_PROGRESS \<equiv> 2"
abbreviation (input) SVGA_IRQFLAG_COMMAND_BUFFER :: u32 where "SVGA_IRQFLAG_COMMAND_BUFFER \<equiv> 8"
abbreviation (input) SVGA_IRQFLAG_ERROR :: u32 where "SVGA_IRQFLAG_ERROR \<equiv> 16"
abbreviation (input) SVGA_IRQFLAG_FENCE_GOAL :: u32 where "SVGA_IRQFLAG_FENCE_GOAL \<equiv> 4"

abbreviation (input) SVGA_REG_ENABLE :: nat where "SVGA_REG_ENABLE \<equiv> 1"
abbreviation (input) SVGA_REG_CONFIG_DONE :: nat where "SVGA_REG_CONFIG_DONE \<equiv> 20"
abbreviation (input) SVGA_REG_SYNC :: nat where "SVGA_REG_SYNC \<equiv> 21"
abbreviation (input) SVGA_REG_BUSY :: nat where "SVGA_REG_BUSY \<equiv> 22"
abbreviation (input) SVGA_REG_MEM_REGS :: nat where "SVGA_REG_MEM_REGS \<equiv> 30"
abbreviation (input) SVGA_REG_IRQMASK :: nat where "SVGA_REG_IRQMASK \<equiv> 33"
abbreviation (input) SVGA_REG_COMMAND_LOW :: nat where "SVGA_REG_COMMAND_LOW \<equiv> 48"
abbreviation (input) SVGA_REG_COMMAND_HIGH :: nat where "SVGA_REG_COMMAND_HIGH \<equiv> 49"
abbreviation (input) SVGA_REG_DEV_CAP :: nat where "SVGA_REG_DEV_CAP \<equiv> 52"
abbreviation (input) SVGA_REG_TRACES :: nat where "SVGA_REG_TRACES \<equiv> 45"

section \<open>State\<close>

record vmw_marker =
  mk_seqno :: u32
  mk_submitted :: u64

record vmw_marker_queue =
  mq_head :: "vmw_marker list"
  mq_lag :: u64
  mq_lag_time :: u64

record vmw_fifo_state =
  fifo_capabilities :: u32
  reserved_size :: u32
  static_buffer :: "u32 list"
  static_buffer_size :: u32
  dynamic_buffer :: "u32 list option"
  using_bounce_buffer :: bool
  fifo_dx :: bool
  fifo_mutex :: bool
  marker_queue :: vmw_marker_queue

record vmw_fence_action =
  fa_id :: nat
  fa_type :: nat
  fa_seq_passed :: bool

record vmw_fence_obj =
  fence_seqno :: u32
  fence_signaled :: bool
  seq_passed_actions :: "vmw_fence_action list"

record vmw_fence_manager =
  fence_list :: "nat list"
  fence_objs :: "nat \<Rightarrow> vmw_fence_obj option"
  num_fence_objects :: int
  fifo_down :: bool
  cleanup_list :: "vmw_fence_action list"
  pending_actions :: "nat \<Rightarrow> u32"
  goal_irq_on :: bool
  seqno_valid :: bool
  work_scheduled :: bool
  passed_calls :: "nat list"

datatype vmw_display_unit_type = vmw_du_invalid | vmw_du_legacy | vmw_du_screen_object | vmw_du_screen_target

record vmw_private =
  mmio :: "nat \<Rightarrow> u32"
  capabilities :: u32
  mmio_size :: u32
  regs :: "nat \<Rightarrow> u32"
  reg_writes :: "(nat \<times> u32) list"
  irq_acks :: "u32 list"
  irq_mask :: u32
  irqthread_fence_pending :: bool
  irqthread_cmdbuf_pending :: bool
  fifo_queue_waiters :: int
  fence_queue_waiters :: int
  goal_queue_waiters :: int
  cmdbuf_waiters :: int
  error_waiters :: int
  last_read_seqno :: u32
  marker_seq :: u32
  enable_state :: u32
  config_done_state :: u32
  traces_state :: u32
  has_mob :: bool
  active_display_unit :: vmw_display_unit_type
  fifo :: vmw_fifo_state
  fman :: vmw_fence_manager

abbreviation mmio_write :: "u32 \<Rightarrow> nat \<Rightarrow> vmw_private \<Rightarrow> vmw_private" where
  "mmio_write v i dev \<equiv> dev\<lparr>mmio := (mmio dev)(i := v)\<rparr>"

definition vmw_write :: "nat \<Rightarrow> u32 \<Rightarrow> vmw_private \<Rightarrow> vmw_private" where
  "vmw_write reg v dev = dev\<lparr>reg_writes := reg_writes dev @ [(reg, v)]\<rparr>"

definition vmw_read :: "nat \<Rightarrow> vmw_private \<Rightarrow> u32" where
  "vmw_read reg dev = regs dev reg"

abbreviation upd_fifo :: "(vmw_fifo_state \<Rightarrow> vmw_fifo_state) \<Rightarrow> vmw_private \<Rightarrow> vmw_private" where
  "upd_fifo f dev \<equiv> dev\<lparr>fifo := f (fifo dev)\<rparr>"

definition reserveable :: "vmw_private \<Rightarrow> bool" where
  "reserveable dev \<longleftrightarrow> fifo_capabilities (fifo dev) AND SVGA_FIFO_CAP_RESERVE \<noteq> 0"

section \<open>Interrupt sources\<close>

text \<open>
  \<open>vmw_generic_waiter_add\<close> and \<open>vmw_generic_waiter_remove\<close> (\<open>src/vmwgfx_irq.c\<close>) work on
  the counter their caller points at, here given by the accessor and the update of its field.
  The counters are \<open>int\<close> in the code; here they do not overflow, that is, there are fewer than \<open>2 ^ 31\<close> waiters.
\<close>

definition vmw_generic_waiter_add ::
  "u32 \<Rightarrow> (vmw_private \<Rightarrow> int) \<Rightarrow> ((int \<Rightarrow> int) \<Rightarrow> vmw_private \<Rightarrow> vmw_private) \<Rightarrow>
   vmw_private \<Rightarrow> vmw_private" where
  "vmw_generic_waiter_add flag get upd dev =
     (let first = get dev = 0; dev1 = upd (\<lambda>c. c + 1) dev in
      if first
      then (let msk = irq_mask dev1 OR flag in
            vmw_write SVGA_REG_IRQMASK msk (dev1\<lparr>irq_acks := irq_acks dev1 @ [flag], irq_mask := msk\<rparr>))
      else dev1)"

definition vmw_generic_waiter_remove ::
  "u32 \<Rightarrow> (vmw_private \<Rightarrow> int) \<Rightarrow> ((int \<Rightarrow> int) \<Rightarrow> vmw_private \<Rightarrow> vmw_private) \<Rightarrow>
   vmw_private \<Rightarrow> vmw_private" where
  "vmw_generic_waiter_remove flag get upd dev =
     (let dev1 = upd (\<lambda>c. c - 1) dev in
      if get dev1 = 0
      then (let msk = irq_mask dev1 AND NOT flag in
            vmw_write SVGA_REG_IRQMASK msk (dev1\<lparr>irq_mask := msk\<rparr>))
      else dev1)"

definition vmw_fifo_waiter_add :: "vmw_private \<Rightarrow> vmw_private" where
  "vmw_fifo_waiter_add =
     vmw_generic_waiter_add SVGA_IRQFLAG_FIFO_PROGRESS fifo_queue_waiters fifo_queue_waiters_update"

definition vmw_fifo_waiter_remove :: "vmw_private \<Rightarrow> vmw_private" where
  "vmw_fifo_waiter_remove =
     vmw_generic_waiter_remove SVGA_IRQFLAG_FIFO_PROGRESS fifo_queue_waiters fifo_queue_waiters_update"

definition vmw_seqno_waiter_add :: "vmw_private \<Rightarrow> vmw_private" where
  "vmw_seqno_waiter_add =
     vmw_generic_waiter_add SVGA_IRQFLAG_ANY_FENCE fence_queue_waiters fence_queue_waiters_update"

definition vmw_seqno_waiter_remove :: "vmw_private \<Rightarrow> vmw_private" where
  "vmw_seqno_waiter_remove =
     vmw_generic_waiter_remove SVGA_IRQFLAG_ANY_FENCE fence_queue_waiters fence_queue_waiters_update"

definition vmw_goal_waiter_add :: "vmw_private \<Rightarrow> vmw_private" where
  "vmw_goal_waiter_add =
     vmw_generic_waiter_add SVGA_IRQFLAG_FENCE_GOAL goal_queue_waiters goal_queue_waiters_update"

definition vmw_goal_waiter_remove :: "vmw_private \<Rightarrow> vmw_private" where
  "vmw_goal_waiter_remove =
     vmw_generic_waiter_remove SVGA_IRQFLAG_FENCE_GOAL goal_queue_waiters goal_queue_waiters_update"

section \<open>Waking the host\<close>

definition vmw_fifo_ping_host :: "u32 \<Rightarrow> vmw_private \<Rightarrow> vmw_private" where
  "vmw_fifo_ping_host reason dev =
     (if mmio dev SVGA_FIFO_BUSY = 0
      then vmw_write SVGA_REG_SYNC reason (mmio_write 1 SVGA_FIFO_BUSY dev)
      else dev)"

section \<open>A device for concrete instances\<close>

definition idle_fman :: vmw_fence_manager where
  "idle_fman = \<lparr>fence_list = [], fence_objs = (\<lambda>_. None), num_fence_objects = 0, fifo_down = False,
     cleanup_list = [], pending_actions = (\<lambda>_. 0), goal_irq_on = False, seqno_valid = False,
     work_scheduled = False, passed_calls = []\<rparr>"

definition idle_fifo :: vmw_fifo_state where
  "idle_fifo = \<lparr>fifo_capabilities = 0, reserved_size = 0, static_buffer = replicate 8 0,
     static_buffer_size = 32, dynamic_buffer = None, using_bounce_buffer = False,
     fifo_dx = False, fifo_mutex = False, marker_queue = \<lparr>mq_head = [], mq_lag = 0, mq_lag_time = 0\<rparr>\<rparr>"

definition idle_dev :: vmw_private where
  "idle_dev =
     \<lparr>mmio = (\<lambda>_. 0), capabilities = 0, mmio_size = 4128, regs = (\<lambda>_. 0), reg_writes = [], irq_acks = [],
      irq_mask = 0, irqthread_fence_pending = False, irqthread_cmdbuf_pending = False,
      fifo_queue_waiters = 0, fence_queue_waiters = 0, goal_queue_waiters = 0, cmdbuf_waiters = 0, error_waiters = 0, last_read_seqno = 0,
      marker_seq = 0, enable_state = 0, config_done_state = 0, traces_state = 0,
      has_mob = False, active_display_unit = vmw_du_legacy, fifo = idle_fifo, fman = idle_fman\<rparr>"

lemmas idle_dev_eval = idle_dev_def idle_fifo_def idle_fman_def

end
