(* ===== verification/Fifo.thy ===== *)
theory Fifo
  imports Vmw_Device
begin

text \<open>
  The command FIFO of \<open>src/vmwgfx_fifo.c\<close>: a ring of 32-bit words in device memory between
  the byte offsets MIN and MAX, written by the driver at NEXT_CMD and read by the host at STOP.
  What the host does while the driver looks at the FIFO is an argument: one
  \<open>host_view\<close> per iteration of the reservation loop, with the value of STOP at the top
  of the iteration and, should the driver sleep, the value when it wakes up and whether a
  signal ended the wait.
\<close>

section \<open>Reservation\<close>

record host_view =
  hv_stop :: u32
  hv_wait_stop :: u32
  hv_signal :: bool

datatype fifo_ptr = In_place nat | Static_buffer | Dynamic_buffer

datatype fifo_action = Reserve_in_place | Need_bounce | Need_wait

definition vmw_fifo_is_full :: "vmw_private \<Rightarrow> u32 \<Rightarrow> bool" where
  "vmw_fifo_is_full dev bytes =
     (let fmax = mmio dev SVGA_FIFO_MAX; next_cmd = mmio dev SVGA_FIFO_NEXT_CMD;
          fmin = mmio dev SVGA_FIFO_MIN; stop = mmio dev SVGA_FIFO_STOP
      in (fmax - next_cmd) + (stop - fmin) \<le> bytes)"

text \<open>
  Sleeping for FIFO space: the wait succeeds when the FIFO is not full for the request any
  more, and otherwise ends with a signal (if it may) or with the timeout.
\<close>

definition fifo_sleep :: "vmw_private \<Rightarrow> u32 \<Rightarrow> bool \<Rightarrow> host_view \<Rightarrow> vmw_private \<times> unit kres" where
  "fifo_sleep dev bytes interruptible hv =
     (let dev1 = mmio_write (hv_wait_stop hv) SVGA_FIFO_STOP dev in
      (dev1, if \<not> vmw_fifo_is_full dev1 bytes then Inr ()
             else if interruptible \<and> hv_signal hv then Inl ERESTARTSYS else Inl EBUSY))"

definition vmw_fifo_wait_noirq ::
  "vmw_private \<Rightarrow> u32 \<Rightarrow> bool \<Rightarrow> host_view \<Rightarrow> vmw_private \<times> unit kres" where
  "vmw_fifo_wait_noirq dev bytes interruptible hv = fifo_sleep dev bytes interruptible hv"

definition vmw_fifo_wait ::
  "vmw_private \<Rightarrow> u32 \<Rightarrow> bool \<Rightarrow> host_view \<Rightarrow> vmw_private \<times> unit kres" where
  "vmw_fifo_wait dev bytes interruptible hv =
     (if \<not> vmw_fifo_is_full dev bytes then (dev, Inr ())
      else
        (let dev1 = vmw_fifo_ping_host SVGA_SYNC_FIFOFULL dev in
         if capabilities dev1 AND SVGA_CAP_IRQMASK = 0
         then vmw_fifo_wait_noirq dev1 bytes interruptible hv
         else
           (case fifo_sleep (vmw_fifo_waiter_add dev1) bytes interruptible hv of
              (dev2, ret) \<Rightarrow> (vmw_fifo_waiter_remove dev2, ret))))"

text \<open>
  One pass of the loop in \<open>vmw_local_fifo_reserve\<close>. The code reads STOP at the top of the pass and \<open>vmw_fifo_is_full\<close> reads it again;
  here both reads give the value \<open>hv_stop\<close> of the pass. A host that consumes more commands between the two reads only leaves more room.
\<close>

definition fifo_classify :: "vmw_private \<Rightarrow> u32 \<Rightarrow> u32 \<Rightarrow> u32 \<Rightarrow> u32 \<Rightarrow> u32 \<Rightarrow> fifo_action" where
  "fifo_classify dev bytes fmax fmin next_cmd stop =
     (if next_cmd \<ge> stop then
        (if next_cmd + bytes < fmax \<or> (next_cmd + bytes = fmax \<and> stop > fmin) then Reserve_in_place
         else if vmw_fifo_is_full dev bytes then Need_wait
         else Need_bounce)
      else (if next_cmd + bytes < stop then Reserve_in_place else Need_wait))"

definition fifo_out_err :: "vmw_private \<Rightarrow> vmw_private \<times> fifo_ptr option" where
  "fifo_out_err dev = (upd_fifo (\<lambda>f. f\<lparr>reserved_size := 0, fifo_mutex := False\<rparr>) dev, None)"

definition fifo_bounce ::
  "(u32 \<Rightarrow> u32 list option) \<Rightarrow> vmw_private \<Rightarrow> u32 \<Rightarrow> vmw_private \<times> fifo_ptr option" where
  "fifo_bounce vmalloc dev bytes =
     (let dev1 = upd_fifo (\<lambda>f. f\<lparr>using_bounce_buffer := True\<rparr>) dev in
      if bytes < static_buffer_size (fifo dev1) then (dev1, Some Static_buffer)
      else
        (let dev2 = upd_fifo (\<lambda>f. f\<lparr>dynamic_buffer := vmalloc bytes\<rparr>) dev1 in
         if vmalloc bytes = None then fifo_out_err dev2 else (dev2, Some Dynamic_buffer)))"

fun fifo_reserve_loop ::
  "(u32 \<Rightarrow> u32 list option) \<Rightarrow> host_view list \<Rightarrow> vmw_private \<Rightarrow> u32 \<Rightarrow> u32 \<Rightarrow> u32 \<Rightarrow> u32 \<Rightarrow>
   (vmw_private \<times> fifo_ptr option) option" where
  "fifo_reserve_loop vmalloc [] dev bytes fmax fmin next_cmd = None"
| "fifo_reserve_loop vmalloc (hv # hvs) dev bytes fmax fmin next_cmd =
     (let dev1 = mmio_write (hv_stop hv) SVGA_FIFO_STOP dev in
      case fifo_classify dev1 bytes fmax fmin next_cmd (hv_stop hv) of
        Reserve_in_place \<Rightarrow>
          (if reserveable dev1 \<or> bytes \<le> 4 then
             (let dev2 = upd_fifo (\<lambda>f. f\<lparr>using_bounce_buffer := False\<rparr>) dev1;
                  dev3 = (if reserveable dev1 then mmio_write bytes SVGA_FIFO_RESERVED dev2 else dev2)
              in Some (dev3, Some (In_place (unat (drop_bit 2 next_cmd)))))
           else Some (fifo_bounce vmalloc dev1 bytes))
      | Need_bounce \<Rightarrow> Some (fifo_bounce vmalloc dev1 bytes)
      | Need_wait \<Rightarrow>
          (case vmw_fifo_wait dev1 bytes False hv of
             (dev2, Inl e) \<Rightarrow> Some (fifo_out_err dev2)
           | (dev2, Inr _) \<Rightarrow> fifo_reserve_loop vmalloc hvs dev2 bytes fmax fmin next_cmd))"

definition vmw_local_fifo_reserve ::
  "(u32 \<Rightarrow> u32 list option) \<Rightarrow> host_view list \<Rightarrow> vmw_private \<Rightarrow> u32 \<Rightarrow>
   (vmw_private \<times> fifo_ptr option) kres option" where
  \<comment> \<open>\<open>None\<close>: still looping when the given behaviour of the host is used up\<close>
  "vmw_local_fifo_reserve vmalloc hvs dev bytes =
     (let dev1 = upd_fifo (\<lambda>f. f\<lparr>fifo_mutex := True\<rparr>) dev;
          fmax = mmio dev1 SVGA_FIFO_MAX; fmin = mmio dev1 SVGA_FIFO_MIN;
          next_cmd = mmio dev1 SVGA_FIFO_NEXT_CMD
      in if bytes \<ge> fmax - fmin then Some (Inr (fifo_out_err dev1))
         else if reserved_size (fifo dev1) \<noteq> 0 \<or> dynamic_buffer (fifo dev1) \<noteq> None
         then Some (Inl OOPS)
         else map_option Inr
                (fifo_reserve_loop vmalloc hvs (upd_fifo (\<lambda>f. f\<lparr>reserved_size := bytes\<rparr>) dev1)
                   bytes fmax fmin next_cmd))"

section \<open>Commit\<close>

definition mem_write :: "(nat \<Rightarrow> u32) \<Rightarrow> nat \<Rightarrow> u32 list \<Rightarrow> nat \<Rightarrow> u32" where
  \<comment> \<open>\<open>memcpy\<close> of whole words to a word index\<close>
  "mem_write mem i ws = (\<lambda>j. if i \<le> j \<and> j < i + length ws then ws ! (j - i) else mem j)"

definition bounce_buffer :: "vmw_fifo_state \<Rightarrow> u32 list" where
  "bounce_buffer f = (case dynamic_buffer f of Some b \<Rightarrow> b | None \<Rightarrow> static_buffer f)"

definition words_of :: "u32 \<Rightarrow> nat" where
  "words_of bytes = unat bytes div 4"

definition vmw_fifo_res_copy ::
  "vmw_private \<Rightarrow> u32 \<Rightarrow> u32 \<Rightarrow> u32 \<Rightarrow> u32 \<Rightarrow> vmw_private kres" where
  "vmw_fifo_res_copy dev next_cmd fmax fmin bytes =
     (let buffer = bounce_buffer (fifo dev);
          chunk_size = (if bytes < fmax - next_cmd then bytes else fmax - next_cmd);
          dev1 = mmio_write bytes SVGA_FIFO_RESERVED dev;
          rest = bytes - chunk_size
      in if length buffer < words_of bytes then Inl OOPS
         else
           (let dev2 = dev1\<lparr>mmio := mem_write (mmio dev1) (unat (drop_bit 2 next_cmd))
                                    (take (words_of chunk_size) buffer)\<rparr>
            in Inr (if rest \<noteq> 0
                    then dev2\<lparr>mmio := mem_write (mmio dev2) (unat (drop_bit 2 fmin))
                                (take (words_of rest) (drop (words_of chunk_size) buffer))\<rparr>
                    else dev2)))"

text \<open>
  The word-by-word copy. Its caller has checked that the byte count is a multiple of four, so
  the loop runs once per word; it stores the new NEXT_CMD after every word.
\<close>

fun fifo_slow_loop ::
  "nat \<Rightarrow> u32 list \<Rightarrow> vmw_private \<Rightarrow> u32 \<Rightarrow> u32 \<Rightarrow> u32 \<Rightarrow> vmw_private kres" where
  "fifo_slow_loop 0 buffer dev next_cmd fmax fmin = Inr dev"
| "fifo_slow_loop (Suc n) [] dev next_cmd fmax fmin = Inl OOPS"
| "fifo_slow_loop (Suc n) (v # buffer) dev next_cmd fmax fmin =
     (let dev1 = mmio_write v (unat (drop_bit 2 next_cmd)) dev;
          next1 = next_cmd + 4;
          next2 = (if next1 = fmax then fmin else next1)
      in fifo_slow_loop n buffer (mmio_write next2 SVGA_FIFO_NEXT_CMD dev1) next2 fmax fmin)"

definition vmw_fifo_slow_copy ::
  "vmw_private \<Rightarrow> u32 \<Rightarrow> u32 \<Rightarrow> u32 \<Rightarrow> u32 \<Rightarrow> vmw_private kres" where
  "vmw_fifo_slow_copy dev next_cmd fmax fmin bytes =
     fifo_slow_loop (words_of bytes) (bounce_buffer (fifo dev)) dev next_cmd fmax fmin"

definition fifo_commit_copy ::
  "vmw_private \<Rightarrow> u32 \<Rightarrow> u32 \<Rightarrow> u32 \<Rightarrow> u32 \<Rightarrow> vmw_private kres" where
  "fifo_commit_copy dev next_cmd fmax fmin bytes =
     (if using_bounce_buffer (fifo dev)
      then kbind (if reserveable dev
                  then vmw_fifo_res_copy dev next_cmd fmax fmin bytes
                  else vmw_fifo_slow_copy dev next_cmd fmax fmin bytes)
             (\<lambda>d. Inr (upd_fifo (\<lambda>f. f\<lparr>dynamic_buffer := None\<rparr>) d))
      else Inr dev)"

definition fifo_commit_finish ::
  "vmw_private \<Rightarrow> u32 \<Rightarrow> u32 \<Rightarrow> u32 \<Rightarrow> u32 \<Rightarrow> vmw_private" where
  "fifo_commit_finish dev next_cmd fmax fmin bytes =
     (let next1 = next_cmd + bytes;
          next2 = (if next1 \<ge> fmax then next1 - (fmax - fmin) else next1);
          dev1 = (if using_bounce_buffer (fifo dev) \<or> reserveable dev
                  then mmio_write next2 SVGA_FIFO_NEXT_CMD dev else dev);
          dev2 = (if reserveable dev then mmio_write 0 SVGA_FIFO_RESERVED dev1 else dev1)
      in upd_fifo (\<lambda>f. f\<lparr>fifo_mutex := False\<rparr>) (vmw_fifo_ping_host SVGA_SYNC_GENERIC dev2))"

definition vmw_local_fifo_commit :: "vmw_private \<Rightarrow> u32 \<Rightarrow> vmw_private kres" where
  "vmw_local_fifo_commit dev bytes0 =
     (let next_cmd = mmio dev SVGA_FIFO_NEXT_CMD; fmax = mmio dev SVGA_FIFO_MAX;
          fmin = mmio dev SVGA_FIFO_MIN;
          bytes = (if fifo_dx (fifo dev) then bytes0 + 12 else bytes0);
          dev1 = upd_fifo (\<lambda>f. f\<lparr>fifo_dx := False\<rparr>) dev
      in if bytes AND 3 \<noteq> 0 \<or> bytes > reserved_size (fifo dev1) then Inl OOPS
         else kbind (fifo_commit_copy (upd_fifo (\<lambda>f. f\<lparr>reserved_size := 0\<rparr>) dev1)
                       next_cmd fmax fmin bytes)
                (\<lambda>dev3. Inr (fifo_commit_finish dev3 next_cmd fmax fmin bytes)))"

text \<open>The caller of a reservation writes its commands where the returned pointer points.\<close>

definition fifo_fill :: "fifo_ptr \<Rightarrow> u32 list \<Rightarrow> vmw_private \<Rightarrow> vmw_private" where
  "fifo_fill ptr ws dev =
     (case ptr of
        In_place i \<Rightarrow> dev\<lparr>mmio := mem_write (mmio dev) i ws\<rparr>
      | Static_buffer \<Rightarrow>
          upd_fifo (\<lambda>f. f\<lparr>static_buffer := ws @ drop (length ws) (static_buffer f)\<rparr>) dev
      | Dynamic_buffer \<Rightarrow>
          upd_fifo (\<lambda>f. f\<lparr>dynamic_buffer := map_option (\<lambda>b. ws @ drop (length ws) b) (dynamic_buffer f)\<rparr>) dev)"

section \<open>Bringing the FIFO up and down\<close>

text \<open>
  \<open>force_no_3d\<close> is the module parameter of the stand-alone build. \<open>dev_cap\<close> is what the
  device returns for the capability index written to \<open>SVGA_REG_DEV_CAP\<close>.
\<close>

definition vmw_fifo_have_3d :: "(u32 \<Rightarrow> u32) \<Rightarrow> bool \<Rightarrow> vmw_private \<Rightarrow> vmw_private \<times> bool" where
  "vmw_fifo_have_3d dev_cap force_no_3d dev =
     (if force_no_3d then (dev, False)
      else if capabilities dev AND SVGA_CAP_3D = 0 then (dev, False)
      else if capabilities dev AND SVGA_CAP_GBOBJECTS \<noteq> 0 then
        (if \<not> has_mob dev then (dev, False)
         else (vmw_write SVGA_REG_DEV_CAP SVGA3D_DEVCAP_3D dev, dev_cap SVGA3D_DEVCAP_3D \<noteq> 0))
      else if capabilities dev AND SVGA_CAP_EXTENDED_FIFO = 0 then (dev, False)
      else if mmio dev SVGA_FIFO_MIN \<le> of_nat (SVGA_FIFO_3D_HWVERSION * 4) then (dev, False)
      else
        (let hwversion = mmio dev
               (if fifo_capabilities (fifo dev) AND SVGA_FIFO_CAP_3D_HWVERSION_REVISED \<noteq> 0
                then SVGA_FIFO_3D_HWVERSION_REVISED else SVGA_FIFO_3D_HWVERSION)
         in (dev, hwversion \<noteq> 0 \<and> \<not> hwversion < SVGA3D_HWVERSION_WS8_B1 \<and>
                  active_display_unit dev \<noteq> vmw_du_legacy)))"

definition vmw_fifo_have_pitchlock :: "vmw_private \<Rightarrow> bool" where
  "vmw_fifo_have_pitchlock dev \<longleftrightarrow>
     capabilities dev AND SVGA_CAP_EXTENDED_FIFO \<noteq> 0 \<and>
     mmio dev SVGA_FIFO_CAPABILITIES AND SVGA_FIFO_CAP_PITCHLOCK \<noteq> 0"

definition vmw_marker_queue_init :: "u64 \<Rightarrow> vmw_marker_queue" where
  "vmw_marker_queue_init now = \<lparr>mq_head = [], mq_lag = 0, mq_lag_time = now\<rparr>"

definition vmw_fifo_init ::
  "(u32 \<Rightarrow> u32 list option) \<Rightarrow> u64 \<Rightarrow> vmw_private \<Rightarrow> vmw_private \<times> unit kres" where
  "vmw_fifo_init vmalloc now dev =
     (let dev1 = upd_fifo (\<lambda>f. f\<lparr>fifo_dx := False, static_buffer_size := VMWGFX_FIFO_STATIC_SIZE\<rparr>) dev in
      case vmalloc VMWGFX_FIFO_STATIC_SIZE of
        None \<Rightarrow> (dev1, Inl ENOMEM)
      | Some buf \<Rightarrow>
          (let dev2 = upd_fifo (\<lambda>f. f\<lparr>static_buffer := buf, dynamic_buffer := None, reserved_size := 0,
                        using_bounce_buffer := False, fifo_mutex := False\<rparr>) dev1;
               dev3 = dev2\<lparr>enable_state := vmw_read SVGA_REG_ENABLE dev2,
                           config_done_state := vmw_read SVGA_REG_CONFIG_DONE dev2,
                           traces_state := vmw_read SVGA_REG_TRACES dev2\<rparr>;
               dev4 = vmw_write SVGA_REG_TRACES 0 (vmw_write SVGA_REG_ENABLE (1 OR 2) dev3);
               fmin0 = (if capabilities dev4 AND SVGA_CAP_EXTENDED_FIFO \<noteq> 0
                        then vmw_read SVGA_REG_MEM_REGS dev4 else 4);
               fmin1 = push_bit 2 fmin0;
               fmin = (if fmin1 < 4096 then 4096 else fmin1);
               dev5 = mmio_write (mmio_size dev4) SVGA_FIFO_MAX (mmio_write fmin SVGA_FIFO_MIN dev4);
               dev6 = mmio_write fmin SVGA_FIFO_STOP (mmio_write fmin SVGA_FIFO_NEXT_CMD dev5);
               dev7 = vmw_write SVGA_REG_CONFIG_DONE 1 (mmio_write 0 SVGA_FIFO_BUSY dev6);
               dev8 = upd_fifo (\<lambda>f. f\<lparr>fifo_capabilities := mmio dev7 SVGA_FIFO_CAPABILITIES\<rparr>) dev7;
               dev9 = mmio_write (last_read_seqno dev8) SVGA_FIFO_FENCE
                        (dev8\<lparr>marker_seq := last_read_seqno dev8\<rparr>)
           in (upd_fifo (\<lambda>f. f\<lparr>marker_queue := vmw_marker_queue_init now\<rparr>) dev9, Inr ())))"

text \<open>
  \<open>vmw_fifo_release\<close> waits for the device to become idle: \<open>polls\<close> are the values the BUSY
  register returns, and \<open>None\<close> says that all of them were nonzero. The marker queue is taken
  down by freeing its nodes; the list head keeps pointing at them, and nothing uses it
  before the next \<open>vmw_fifo_init\<close>.
\<close>

definition vmw_fifo_release :: "u32 list \<Rightarrow> vmw_private \<Rightarrow> vmw_private option" where
  "vmw_fifo_release polls dev =
     (let dev1 = vmw_write SVGA_REG_SYNC SVGA_SYNC_GENERIC dev in
      if list_all (\<lambda>b. b \<noteq> 0) polls then None
      else
        (let dev2 = dev1\<lparr>last_read_seqno := mmio dev1 SVGA_FIFO_FENCE\<rparr>;
             dev3 = vmw_write SVGA_REG_CONFIG_DONE (config_done_state dev2) dev2;
             dev4 = vmw_write SVGA_REG_ENABLE (enable_state dev3) dev3;
             dev5 = vmw_write SVGA_REG_TRACES (traces_state dev4) dev4
         in Some (upd_fifo (\<lambda>f. f\<lparr>static_buffer := [], dynamic_buffer := None\<rparr>) dev5)))"

section \<open>The ring as a queue of words\<close>

definition fifo_base :: "vmw_private \<Rightarrow> nat" where
  "fifo_base dev = unat (mmio dev SVGA_FIFO_MIN) div 4"

definition fifo_cap :: "vmw_private \<Rightarrow> nat" where
  "fifo_cap dev = unat (mmio dev SVGA_FIFO_MAX) div 4 - fifo_base dev"

definition fifo_tail :: "vmw_private \<Rightarrow> nat" where
  "fifo_tail dev = unat (mmio dev SVGA_FIFO_NEXT_CMD) div 4 - fifo_base dev"

definition fifo_head :: "vmw_private \<Rightarrow> nat" where
  "fifo_head dev = unat (mmio dev SVGA_FIFO_STOP) div 4 - fifo_base dev"

definition fifo_used :: "vmw_private \<Rightarrow> nat" where
  "fifo_used dev = (fifo_tail dev + fifo_cap dev - fifo_head dev) mod fifo_cap dev"

definition fifo_content :: "vmw_private \<Rightarrow> u32 list" where
  \<comment> \<open>the commands the host has not consumed yet, oldest first\<close>
  "fifo_content dev =
     map (\<lambda>i. mmio dev (fifo_base dev + (fifo_head dev + i) mod fifo_cap dev)) [0..<fifo_used dev]"

definition ring_pos_ok :: "vmw_private \<Rightarrow> u32 \<Rightarrow> bool" where
  "ring_pos_ok dev p \<longleftrightarrow> 4 dvd unat p \<and> mmio dev SVGA_FIFO_MIN \<le> p \<and> p < mmio dev SVGA_FIFO_MAX"

definition fifo_ok :: "vmw_private \<Rightarrow> bool" where
  "fifo_ok dev \<longleftrightarrow>
     4096 \<le> unat (mmio dev SVGA_FIFO_MIN) \<and> unat (mmio dev SVGA_FIFO_MAX) \<le> 2 ^ 31 \<and>
     4 dvd unat (mmio dev SVGA_FIFO_MIN) \<and> 4 dvd unat (mmio dev SVGA_FIFO_MAX) \<and>
     ring_pos_ok dev (mmio dev SVGA_FIFO_NEXT_CMD) \<and> ring_pos_ok dev (mmio dev SVGA_FIFO_STOP)"

definition fifo_idle :: "vmw_private \<Rightarrow> bool" where
  \<comment> \<open>no reservation outstanding, as between any two of the driver's commands\<close>
  "fifo_idle dev \<longleftrightarrow>
     reserved_size (fifo dev) = 0 \<and> dynamic_buffer (fifo dev) = None \<and> \<not> fifo_dx (fifo dev) \<and>
     \<not> fifo_mutex (fifo dev) \<and> 4 * length (static_buffer (fifo dev)) = unat (static_buffer_size (fifo dev))"

definition vmalloc_ok :: "(u32 \<Rightarrow> u32 list option) \<Rightarrow> bool" where
  "vmalloc_ok vmalloc \<longleftrightarrow> (\<forall>b buf. vmalloc b = Some buf \<longrightarrow> unat b \<le> 4 * length buf)"

text \<open>The same geometry with the registers as numbers of words.\<close>

definition fifo_geom :: "vmw_private \<Rightarrow> nat \<Rightarrow> nat \<Rightarrow> nat \<Rightarrow> nat \<Rightarrow> bool" where
  "fifo_geom dev m n t s \<longleftrightarrow>
     unat (mmio dev SVGA_FIFO_MIN) = 4 * m \<and> unat (mmio dev SVGA_FIFO_MAX) = 4 * (m + n) \<and>
     unat (mmio dev SVGA_FIFO_NEXT_CMD) = 4 * (m + t) \<and> unat (mmio dev SVGA_FIFO_STOP) = 4 * (m + s) \<and>
     1024 \<le> m \<and> m + n \<le> 2 ^ 29 \<and> t < n \<and> s < n"

lemma fifo_geom_of_ok:
  assumes "fifo_ok dev"
  shows "fifo_geom dev (fifo_base dev) (fifo_cap dev) (fifo_tail dev) (fifo_head dev)"
  using assms
  by (auto simp: fifo_ok_def ring_pos_ok_def fifo_geom_def fifo_base_def fifo_cap_def fifo_tail_def
      fifo_head_def word_le_nat_alt word_less_nat_alt elim!: dvdE)

lemma fifo_ok_of_geom:
  assumes "fifo_geom dev m n t s"
  shows "fifo_ok dev" "fifo_base dev = m" "fifo_cap dev = n" "fifo_tail dev = t" "fifo_head dev = s"
  using assms
  by (auto simp: fifo_ok_def ring_pos_ok_def fifo_geom_def fifo_base_def fifo_cap_def fifo_tail_def
      fifo_head_def word_le_nat_alt word_less_nat_alt)

section \<open>Reservation\<close>

lemma vmw_fifo_ping_host_frame [simp]:
  "fifo (vmw_fifo_ping_host r dev) = fifo dev"
  "i \<noteq> SVGA_FIFO_BUSY \<Longrightarrow> mmio (vmw_fifo_ping_host r dev) i = mmio dev i"
  "capabilities (vmw_fifo_ping_host r dev) = capabilities dev"
  by (auto simp: vmw_fifo_ping_host_def vmw_write_def)

lemma vmw_fifo_waiter_frame [simp]:
  "fifo (vmw_fifo_waiter_add dev) = fifo dev" "mmio (vmw_fifo_waiter_add dev) = mmio dev"
  "fifo (vmw_fifo_waiter_remove dev) = fifo dev" "mmio (vmw_fifo_waiter_remove dev) = mmio dev"
  by (auto simp: vmw_fifo_waiter_add_def vmw_fifo_waiter_remove_def vmw_generic_waiter_add_def
      vmw_generic_waiter_remove_def vmw_write_def Let_def)

lemma fifo_sleep_frame:
  "fst (fifo_sleep dev bytes intr hv) = mmio_write (hv_wait_stop hv) SVGA_FIFO_STOP dev"
  by (simp add: fifo_sleep_def Let_def)

lemma vmw_fifo_wait_frame:
  assumes "vmw_fifo_wait dev bytes intr hv = (dev', r)"
  shows "fifo dev' = fifo dev"
    "i \<noteq> SVGA_FIFO_BUSY \<Longrightarrow> i \<noteq> SVGA_FIFO_STOP \<Longrightarrow> mmio dev' i = mmio dev i"
  using assms fifo_sleep_frame[of "vmw_fifo_ping_host SVGA_SYNC_FIFOFULL dev" bytes intr hv]
    fifo_sleep_frame[of "vmw_fifo_waiter_add (vmw_fifo_ping_host SVGA_SYNC_FIFOFULL dev)" bytes intr hv]
  by (auto simp: vmw_fifo_wait_def vmw_fifo_wait_noirq_def Let_def split: if_splits prod.splits)

text \<open>What a successful reservation leaves behind.\<close>

definition reservation_buffer ::
  "(u32 \<Rightarrow> u32 list option) \<Rightarrow> vmw_private \<Rightarrow> u32 \<Rightarrow> u32 \<Rightarrow> vmw_private \<Rightarrow> fifo_ptr \<Rightarrow> bool" where
  "reservation_buffer vmalloc dev bytes next_cmd dev' ptr \<longleftrightarrow>
     (case ptr of
        In_place i \<Rightarrow>
          i = unat (drop_bit 2 next_cmd) \<and> (reserveable dev \<or> bytes \<le> 4) \<and>
          fifo dev' = (fifo dev)\<lparr>using_bounce_buffer := False\<rparr>
      | Static_buffer \<Rightarrow>
          bytes < static_buffer_size (fifo dev) \<and>
          fifo dev' = (fifo dev)\<lparr>using_bounce_buffer := True\<rparr>
      | Dynamic_buffer \<Rightarrow>
          \<not> bytes < static_buffer_size (fifo dev) \<and> vmalloc bytes \<noteq> None \<and>
          fifo dev' = (fifo dev)\<lparr>using_bounce_buffer := True, dynamic_buffer := vmalloc bytes\<rparr>)"

definition fifo_regs_kept :: "vmw_private \<Rightarrow> vmw_private \<Rightarrow> bool" where
  "fifo_regs_kept dev dev' \<longleftrightarrow>
     (\<forall>i. i \<noteq> SVGA_FIFO_STOP \<longrightarrow> i \<noteq> SVGA_FIFO_BUSY \<longrightarrow> i \<noteq> SVGA_FIFO_RESERVED \<longrightarrow> mmio dev' i = mmio dev i)"

lemma fifo_bounce_SomeD:
  assumes "fifo_bounce vmalloc dev bytes = (dev', Some ptr)"
  shows "mmio dev' = mmio dev" "reservation_buffer vmalloc dev bytes next_cmd dev' ptr" "ptr \<noteq> In_place i"
  using assms
  by (auto simp: fifo_bounce_def fifo_out_err_def reservation_buffer_def Let_def split: if_splits)

lemma fifo_reserve_loop_SomeD:
  assumes "fifo_reserve_loop vmalloc hvs dev bytes fmax fmin next_cmd = Some (dev', Some ptr)"
  shows "\<exists>hv dev1. hv \<in> set hvs \<and> fifo_regs_kept dev dev1 \<and> mmio dev1 SVGA_FIFO_STOP = hv_stop hv \<and>
      fifo_classify dev1 bytes fmax fmin next_cmd (hv_stop hv) \<noteq> Need_wait \<and>
      ((\<exists>i. ptr = In_place i) \<longrightarrow>
         fifo_classify dev1 bytes fmax fmin next_cmd (hv_stop hv) = Reserve_in_place) \<and>
      (\<forall>i. i \<noteq> SVGA_FIFO_RESERVED \<longrightarrow> mmio dev' i = mmio dev1 i) \<and>
      reservation_buffer vmalloc dev bytes next_cmd dev' ptr"
  using assms
proof (induction hvs arbitrary: dev)
  case (Cons hv hvs)
  let ?d = "mmio_write (hv_stop hv) SVGA_FIFO_STOP dev"
  show ?case
  proof (cases "fifo_classify ?d bytes fmax fmin next_cmd (hv_stop hv) = Need_wait")
    case True
    with Cons.prems obtain d2 where w: "vmw_fifo_wait ?d bytes False hv = (d2, Inr ())"
      and l: "fifo_reserve_loop vmalloc hvs d2 bytes fmax fmin next_cmd = Some (dev', Some ptr)"
      by (auto simp: Let_def fifo_out_err_def split: prod.splits sum.splits)
    have fr: "fifo d2 = fifo dev" using vmw_fifo_wait_frame(1)[OF w] by simp
    have mm: "mmio d2 i = mmio dev i" if "i \<noteq> SVGA_FIFO_BUSY" "i \<noteq> SVGA_FIFO_STOP" for i
      using vmw_fifo_wait_frame(2)[OF w that] that by simp
    from Cons.IH[OF l] show ?thesis
      using fr mm
      by (auto simp: fifo_regs_kept_def reservation_buffer_def reserveable_def split: fifo_ptr.splits)
  next
    case False
    have *: "reservation_buffer vmalloc ?d bytes next_cmd dev' ptr = reservation_buffer vmalloc dev bytes next_cmd dev' ptr"
      by (cases ptr) (simp_all add: reservation_buffer_def reserveable_def)
    have "(\<forall>i. i \<noteq> SVGA_FIFO_RESERVED \<longrightarrow> mmio dev' i = mmio ?d i) \<and>
        ((\<exists>i. ptr = In_place i) \<longrightarrow> fifo_classify ?d bytes fmax fmin next_cmd (hv_stop hv) = Reserve_in_place) \<and>
        reservation_buffer vmalloc ?d bytes next_cmd dev' ptr"
    proof (cases "fifo_bounce vmalloc ?d bytes = (dev', Some ptr)")
      case True
      from fifo_bounce_SomeD[OF this] show ?thesis by auto
    next
      case nb: False
      with False Cons.prems show ?thesis
        by (auto simp: Let_def reservation_buffer_def reserveable_def
            split: if_splits fifo_action.splits)
    qed
    with False show ?thesis unfolding *
      by (intro exI[of _ hv] exI[of _ ?d]) (auto simp: fifo_regs_kept_def)
  qed
qed simp

lemma mod_below_twice:
  "(a::nat) < 2 * n \<Longrightarrow> a mod n = (if a < n then a else a - n)"
  by (auto simp: le_mod_geq mod_if)

lemma fifo_used_geom:
  assumes "fifo_geom dev m n t s"
  shows "fifo_used dev = (if s \<le> t then t - s else t + n - s)"
proof -
  have lt: "t < n" "s < n" using assms by (auto simp: fifo_geom_def)
  then have "(t + n - s) mod n = (if t + n - s < n then t + n - s else t + n - s - n)"
    by (intro mod_below_twice) simp
  also have "\<dots> = (if s \<le> t then t - s else t + n - s)"
    using lt by auto
  finally show ?thesis using fifo_ok_of_geom[OF assms] by (simp add: fifo_used_def)
qed

lemma fifo_classify_space:
  assumes g: "fifo_geom dev m n t s" and b: "unat bytes < 4 * n"
    and c: "fifo_classify dev bytes (mmio dev SVGA_FIFO_MAX) (mmio dev SVGA_FIFO_MIN)
              (mmio dev SVGA_FIFO_NEXT_CMD) (mmio dev SVGA_FIFO_STOP) = a" "a \<noteq> Need_wait"
  shows "4 * fifo_used dev + unat bytes < 4 * n"
    "a = Reserve_in_place \<Longrightarrow> 4 * t + unat bytes \<le> 4 * n"
proof -
  have add: "unat (mmio dev SVGA_FIFO_NEXT_CMD + bytes) = 4 * (m + t) + unat bytes"
    using g b by (subst unat_add_lem[THEN iffD1]) (auto simp: fifo_geom_def)
  have sub1: "unat (mmio dev SVGA_FIFO_MAX - mmio dev SVGA_FIFO_NEXT_CMD) = 4 * (n - t)"
    using g by (subst unat_sub) (auto simp: fifo_geom_def word_le_nat_alt)
  have sub2: "unat (mmio dev SVGA_FIFO_STOP - mmio dev SVGA_FIFO_MIN) = 4 * s"
    using g by (subst unat_sub) (auto simp: fifo_geom_def word_le_nat_alt)
  have full: "unat (mmio dev SVGA_FIFO_MAX - mmio dev SVGA_FIFO_NEXT_CMD +
                (mmio dev SVGA_FIFO_STOP - mmio dev SVGA_FIFO_MIN)) = 4 * (n - t) + 4 * s"
    using g sub1 sub2 by (subst unat_add_lem[THEN iffD1]) (auto simp: fifo_geom_def)
  note word = word_le_nat_alt word_less_nat_alt word_unat_eq_iff
  show "4 * fifo_used dev + unat bytes < 4 * n"
    using g c b add full
    by (auto simp: fifo_used_geom[OF g] fifo_classify_def vmw_fifo_is_full_def Let_def fifo_geom_def
        word split: if_splits)
  show "a = Reserve_in_place \<Longrightarrow> 4 * t + unat bytes \<le> 4 * n"
    using g c b add
    by (auto simp: fifo_classify_def fifo_geom_def word split: if_splits)
qed

section \<open>Commit writes a segment of the ring\<close>

definition ring_off :: "nat \<Rightarrow> nat \<Rightarrow> nat \<Rightarrow> nat" where
  \<comment> \<open>how far position \<open>p\<close> is behind position \<open>t\<close> on a ring of \<open>n\<close>\<close>
  "ring_off n t p = (if t \<le> p then p - t else p + n - t)"

definition ring_write :: "nat \<Rightarrow> nat \<Rightarrow> nat \<Rightarrow> u32 list \<Rightarrow> (nat \<Rightarrow> u32) \<Rightarrow> nat \<Rightarrow> u32" where
  "ring_write m n t ws mem j =
     (if m \<le> j \<and> j < m + n \<and> ring_off n t (j - m) < length ws then ws ! ring_off n t (j - m) else mem j)"

lemma ring_write_in_place:
  assumes "t + length ws \<le> n"
  shows "mem_write mem (m + t) ws = ring_write m n t ws mem"
  using assms by (auto simp: mem_write_def ring_write_def ring_off_def fun_eq_iff)

lemma ring_write_two_parts:
  assumes "t < n" "length ws < n" "c = n - t" "c \<le> length ws"
  shows "mem_write (mem_write mem (m + t) (take c ws)) m (drop c ws) = ring_write m n t ws mem"
  using assms by (auto simp: mem_write_def ring_write_def ring_off_def fun_eq_iff add.commute)

lemma ring_write_Cons:
  assumes "t < n" "Suc (length ws) < n"
  shows "ring_write m n (if Suc t = n then 0 else Suc t) ws (mem(m + t := w)) = ring_write m n t (w # ws) mem"
  using assms
  by (auto simp: ring_write_def ring_off_def fun_eq_iff nth_Cons' split: if_splits)

lemma ring_write_below: "j < m \<Longrightarrow> ring_write m n t ws mem j = mem j"
  by (simp add: ring_write_def)

lemma fifo_content_append:
  assumes g1: "fifo_geom d1 m n t s" and g2: "fifo_geom d2 m n ((t + length ws) mod n) s"
    and room: "fifo_used d1 + length ws < n"
    and data: "\<And>j. m \<le> j \<Longrightarrow> mmio d2 j = ring_write m n t ws (mmio d1) j"
  shows "fifo_content d2 = fifo_content d1 @ ws"
proof -
  have lt: "t < n" "s < n" using g1 by (auto simp: fifo_geom_def)
  have tm: "(t + length ws) mod n = (if t + length ws < n then t + length ws else t + length ws - n)"
    using lt room by (intro mod_below_twice) simp
  have used2: "fifo_used d2 = fifo_used d1 + length ws"
    using lt room unfolding fifo_used_geom[OF g1] fifo_used_geom[OF g2] tm by (auto split: if_splits)
  note g1s = fifo_ok_of_geom[OF g1] and g2s = fifo_ok_of_geom[OF g2]
  show ?thesis
  proof (rule nth_equalityI)
    show "length (fifo_content d2) = length (fifo_content d1 @ ws)"
      by (simp add: fifo_content_def used2)
  next
    fix k
    assume "k < length (fifo_content d2)"
    then have k: "k < fifo_used d1 + length ws" by (simp add: fifo_content_def used2)
    have sk: "(s + k) mod n = (if s + k < n then s + k else s + k - n)"
      using lt room k by (intro mod_below_twice) simp
    have off: "ring_off n t ((s + k) mod n) =
        (if fifo_used d1 \<le> k then k - fifo_used d1 else n - fifo_used d1 + k)"
      using lt room k unfolding sk fifo_used_geom[OF g1] ring_off_def by (auto split: if_splits)
    have "(s + k) mod n < n" using lt by simp
    then show "fifo_content d2 ! k = (fifo_content d1 @ ws) ! k"
      using k room off
      by (auto simp: fifo_content_def used2 g1s g2s data nth_append ring_write_def)
  qed
qed

lemma unat_word_index: "unat (drop_bit 2 (w :: u32)) = unat w div 4"
  by (simp add: drop_bit_eq_div unat_div)

lemma fifo_slow_loop_spec:
  assumes "fifo_slow_loop k buf dev nx fmax fmin = Inr dev'"
    "unat fmin = 4 * m" "unat fmax = 4 * (m + n)" "unat nx = 4 * (m + t)" "t < n" "k < n"
    "1024 \<le> m" "m + n \<le> 2 ^ 29"
  shows "k \<le> length buf \<and>
    (\<forall>j. j \<noteq> SVGA_FIFO_NEXT_CMD \<longrightarrow> mmio dev' j = ring_write m n t (take k buf) (mmio dev) j) \<and>
    (k = 0 \<longrightarrow> mmio dev' SVGA_FIFO_NEXT_CMD = mmio dev SVGA_FIFO_NEXT_CMD) \<and>
    (\<exists>f. dev' = dev\<lparr>mmio := f\<rparr>)"
  using assms
proof (induction k buf dev nx fmax fmin arbitrary: t rule: fifo_slow_loop.induct)
  case (1 buf dev nx fmax fmin)
  then show ?case by (auto simp: ring_write_def intro!: exI[of _ "mmio dev'"])
next
  case (3 k v buf dev nx fmax fmin)
  let ?nx = "if nx + 4 = fmax then fmin else nx + 4"
  let ?t = "if Suc t = n then 0 else Suc t"
  let ?dev = "mmio_write ?nx SVGA_FIFO_NEXT_CMD (mmio_write v (m + t) dev)"
  have idx: "unat (drop_bit 2 nx) = m + t"
    using 3(4-6) by (simp add: unat_word_index)
  have n4: "unat (nx + 4) = 4 * (m + Suc t)"
    using 3 by (subst unat_add_lem[THEN iffD1]) auto
  have nx: "unat ?nx = 4 * (m + ?t)"
    using 3 n4 by (auto simp: word_unat_eq_iff)
  have run: "fifo_slow_loop k buf ?dev ?nx fmax fmin = Inr dev'"
    using 3(2) by (simp add: Let_def idx)
  have ih: "k \<le> length buf \<and>
      (\<forall>j. j \<noteq> SVGA_FIFO_NEXT_CMD \<longrightarrow> mmio dev' j = ring_write m n ?t (take k buf) (mmio ?dev) j) \<and>
      (\<exists>f. dev' = ?dev\<lparr>mmio := f\<rparr>)"
    using 3(1)[OF _ refl refl run 3(3,4) nx _ _ 3(8,9)] 3(6,7) idx by (simp add: fun_upd_def)
  have "ring_write m n ?t (take k buf) (mmio ?dev) j = ring_write m n t (v # take k buf) (mmio dev) j"
    if "j \<noteq> SVGA_FIFO_NEXT_CMD" for j
  proof -
    have "ring_write m n ?t (take k buf) (mmio ?dev) j =
        ring_write m n ?t (take k buf) ((mmio dev)(m + t := v)) j"
      using that by (simp add: ring_write_def)
    also have "\<dots> = ring_write m n t (v # take k buf) (mmio dev) j"
      using 3 ih by (subst ring_write_Cons) auto
    finally show ?thesis .
  qed
  with ih show ?case by auto
qed simp

lemma fifo_slow_loop_total:
  "k \<le> length buf \<Longrightarrow> \<exists>dev'. fifo_slow_loop k buf dev nx fmax fmin = Inr dev'"
  by (induction k buf dev nx fmax fmin rule: fifo_slow_loop.induct) (auto simp: Let_def)

text \<open>Both ways of copying the bounce buffer out write the same segment of the ring.\<close>

lemma vmw_fifo_res_copy_spec:
  assumes g: "fifo_geom dev m n t s" and bytes: "unat bytes = 4 * k" and k: "k < n"
    and buf: "k \<le> length (bounce_buffer (fifo dev))"
  shows "\<exists>dev'. vmw_fifo_res_copy dev (mmio dev SVGA_FIFO_NEXT_CMD) (mmio dev SVGA_FIFO_MAX)
      (mmio dev SVGA_FIFO_MIN) bytes = Inr dev' \<and>
      (\<forall>j. j \<noteq> SVGA_FIFO_RESERVED \<longrightarrow>
         mmio dev' j = ring_write m n t (take k (bounce_buffer (fifo dev))) (mmio dev) j) \<and>
      fifo dev' = fifo dev"
proof -
  let ?nx = "mmio dev SVGA_FIFO_NEXT_CMD" and ?mx = "mmio dev SVGA_FIFO_MAX"
    and ?mn = "mmio dev SVGA_FIFO_MIN" and ?buf = "bounce_buffer (fifo dev)"
  define chunk where "chunk = (if bytes < ?mx - ?nx then bytes else ?mx - ?nx)"
  define mem where "mem = (mmio dev)(SVGA_FIFO_RESERVED := bytes)"
  have t: "t < n" and m: "1024 \<le> m" using g by (auto simp: fifo_geom_def)
  have room: "unat (?mx - ?nx) = 4 * (n - t)"
    using g by (subst unat_sub) (auto simp: fifo_geom_def word_le_nat_alt)
  have chunk: "unat chunk = 4 * (if k < n - t then k else n - t)"
    using bytes room by (auto simp: chunk_def word_less_nat_alt)
  have rest: "unat (bytes - chunk) = 4 * (k - (if k < n - t then k else n - t))"
    using bytes chunk by (subst unat_sub) (auto simp: word_le_nat_alt)
  have idx: "unat (drop_bit 2 ?nx) = m + t" "unat (drop_bit 2 ?mn) = m"
    using g by (auto simp: unat_word_index fifo_geom_def)
  have len: "\<not> length ?buf < words_of bytes" using bytes buf by (simp add: words_of_def)
  have eq: "vmw_fifo_res_copy dev ?nx ?mx ?mn bytes =
      Inr (dev\<lparr>mmio := ring_write m n t (take k ?buf) mem\<rparr>)"
  proof (cases "k < n - t")
    case True
    have lt: "bytes < ?mx - ?nx" using True bytes room by (simp add: word_less_nat_alt)
    have w: "words_of bytes = k" using bytes by (simp add: words_of_def)
    have "mem_write mem (m + t) (take k ?buf) = ring_write m n t (take k ?buf) mem"
      using True buf by (intro ring_write_in_place) simp
    then show ?thesis
      using len lt w idx by (simp add: vmw_fifo_res_copy_def Let_def mem_def)
  next
    case False
    have lt: "\<not> bytes < ?mx - ?nx" using False bytes room by (simp add: word_less_nat_alt)
    then have c: "chunk = ?mx - ?nx" by (simp add: chunk_def)
    have w: "words_of (?mx - ?nx) = n - t" "words_of (bytes - (?mx - ?nx)) = k - (n - t)"
      using chunk rest False unfolding c by (auto simp: words_of_def)
    have z: "bytes - (?mx - ?nx) = 0 \<longleftrightarrow> k = n - t"
      using rest False unfolding c by (auto simp: word_unat_eq_iff)
    have "mem_write (mem_write mem (m + t) (take (n - t) (take k ?buf))) m (drop (n - t) (take k ?buf)) =
        ring_write m n t (take k ?buf) mem"
      using False t k buf by (intro ring_write_two_parts) auto
    moreover have "take (n - t) (take k ?buf) = take (n - t) ?buf" "take (k - (n - t)) (drop (n - t) ?buf) = drop (n - t) (take k ?buf)"
      using False by (auto simp: min_def drop_take)
    moreover have "mem_write f m [] = f" for f by (rule ext) (auto simp: mem_write_def)
    ultimately show ?thesis
      using len lt w z idx by (auto simp: vmw_fifo_res_copy_def Let_def mem_def)
  qed
  show ?thesis
    unfolding eq using m by (auto simp: ring_write_def mem_def)
qed

lemma vmw_fifo_slow_copy_spec:
  assumes g: "fifo_geom dev m n t s" and bytes: "unat bytes = 4 * k" and k: "k < n"
    and buf: "k \<le> length (bounce_buffer (fifo dev))"
  shows "\<exists>dev'. vmw_fifo_slow_copy dev (mmio dev SVGA_FIFO_NEXT_CMD) (mmio dev SVGA_FIFO_MAX)
      (mmio dev SVGA_FIFO_MIN) bytes = Inr dev' \<and>
      (\<forall>j. j \<noteq> SVGA_FIFO_NEXT_CMD \<longrightarrow>
         mmio dev' j = ring_write m n t (take k (bounce_buffer (fifo dev))) (mmio dev) j) \<and>
      fifo dev' = fifo dev"
proof -
  obtain dev' where d: "fifo_slow_loop k (bounce_buffer (fifo dev)) dev (mmio dev SVGA_FIFO_NEXT_CMD)
      (mmio dev SVGA_FIFO_MAX) (mmio dev SVGA_FIFO_MIN) = Inr dev'"
    using fifo_slow_loop_total[OF buf] by blast
  have "words_of bytes = k" using bytes by (simp add: words_of_def)
  with d fifo_slow_loop_spec[OF d, of m n t] g k show ?thesis
    by (auto simp: vmw_fifo_slow_copy_def fifo_geom_def)
qed

lemma fifo_advance:
  assumes g: "fifo_geom dev m n t s" and bytes: "unat bytes = 4 * k" and k: "k < n"
    and nx: "nx = mmio dev SVGA_FIFO_NEXT_CMD + bytes"
    and mx: "mx = mmio dev SVGA_FIFO_MAX" and mn: "mn = mmio dev SVGA_FIFO_MIN"
  shows "unat (if mx \<le> nx then nx - (mx - mn) else nx) = 4 * (m + (t + k) mod n)"
proof -
  have lt: "t < n" using g by (simp add: fifo_geom_def)
  have unx: "unat nx = 4 * (m + t + k)"
    using g bytes k unfolding nx by (subst unat_add_lem[THEN iffD1]) (auto simp: fifo_geom_def)
  have sz: "unat (mx - mn) = 4 * n"
    using g unfolding mx mn by (subst unat_sub) (auto simp: fifo_geom_def word_le_nat_alt)
  have le: "mx \<le> nx \<longleftrightarrow> n \<le> t + k"
    using g unx unfolding mx by (auto simp: fifo_geom_def word_le_nat_alt)
  have "unat (nx - (mx - mn)) = 4 * (m + t + k) - 4 * n" if "n \<le> t + k"
    using that unx sz by (subst unat_sub) (auto simp: word_le_nat_alt)
  moreover have "(t + k) mod n = (if t + k < n then t + k else t + k - n)"
    using lt k by (intro mod_below_twice) simp
  ultimately show ?thesis using le unx by auto
qed

lemma vmw_local_fifo_commit_spec:
  assumes g: "fifo_geom dev m n t s" and bytes: "unat bytes = 4 * k" and k: "k < n"
    and res: "bytes \<le> reserved_size (fifo dev)" and dx: "\<not> fifo_dx (fifo dev)"
    and mode: "using_bounce_buffer (fifo dev) \<or> reserveable dev"
    and ws: "ws = (if using_bounce_buffer (fifo dev) then take k (bounce_buffer (fifo dev)) else [])"
      "using_bounce_buffer (fifo dev) \<Longrightarrow> k \<le> length (bounce_buffer (fifo dev))"
  shows "\<exists>dev'. vmw_local_fifo_commit dev bytes = Inr dev' \<and> fifo_geom dev' m n ((t + k) mod n) s \<and>
      (\<forall>j. m \<le> j \<longrightarrow> mmio dev' j = ring_write m n t ws (mmio dev) j) \<and>
      fifo dev' = (fifo dev)\<lparr>fifo_dx := False, reserved_size := 0, fifo_mutex := False,
        dynamic_buffer := (if using_bounce_buffer (fifo dev) then None else dynamic_buffer (fifo dev))\<rparr>"
proof -
  let ?nx = "mmio dev SVGA_FIFO_NEXT_CMD + bytes" and ?mx = "mmio dev SVGA_FIFO_MAX" and ?mn = "mmio dev SVGA_FIFO_MIN"
  define next_cmd where "next_cmd = (if ?mx \<le> ?nx then ?nx - (?mx - ?mn) else ?nx)"
  define dev2 where "dev2 = upd_fifo (\<lambda>f. f\<lparr>fifo_dx := False, reserved_size := 0\<rparr>) dev"
  have g2: "fifo_geom dev2 m n t s" using g by (simp add: dev2_def fifo_geom_def)
  have m: "1024 \<le> m" "0 < n" using g by (auto simp: fifo_geom_def)
  have nx: "unat next_cmd = 4 * (m + (t + k) mod n)"
    unfolding next_cmd_def by (rule fifo_advance[OF g bytes k refl refl refl])
  have al: "bytes AND 3 = 0"
    using bytes unat_and_mask[of bytes 2] by (simp add: word_unat_eq_iff)
  have same: "reserveable dev2 = reserveable dev" "bounce_buffer (fifo dev2) = bounce_buffer (fifo dev)"
    "using_bounce_buffer (fifo dev2) = using_bounce_buffer (fifo dev)" "mmio dev2 = mmio dev"
    by (auto simp: dev2_def reserveable_def bounce_buffer_def split: option.split)
  obtain dev3 where d3: "fifo_commit_copy dev2 (mmio dev SVGA_FIFO_NEXT_CMD) ?mx ?mn bytes = Inr dev3"
    and m3: "\<And>j. j \<noteq> SVGA_FIFO_NEXT_CMD \<Longrightarrow> j \<noteq> SVGA_FIFO_RESERVED \<Longrightarrow> mmio dev3 j = ring_write m n t ws (mmio dev) j"
    and f3: "fifo dev3 = (fifo dev2)\<lparr>dynamic_buffer := if using_bounce_buffer (fifo dev) then None else dynamic_buffer (fifo dev)\<rparr>"
  proof (cases "using_bounce_buffer (fifo dev)")
    case True
    let ?copy = "if reserveable dev2
             then vmw_fifo_res_copy dev2 (mmio dev SVGA_FIFO_NEXT_CMD) ?mx ?mn bytes
             else vmw_fifo_slow_copy dev2 (mmio dev SVGA_FIFO_NEXT_CMD) ?mx ?mn bytes"
    have "\<exists>d. ?copy = Inr d \<and> fifo d = fifo dev2 \<and>
        (\<forall>j. j \<noteq> SVGA_FIFO_NEXT_CMD \<longrightarrow> j \<noteq> SVGA_FIFO_RESERVED \<longrightarrow> mmio d j = ring_write m n t ws (mmio dev) j)"
      using vmw_fifo_res_copy_spec[OF g2 bytes k] vmw_fifo_slow_copy_spec[OF g2 bytes k] True ws
      by (cases "reserveable dev2") (auto simp: same)
    then obtain d where "?copy = Inr d" "fifo d = fifo dev2"
        "\<And>j. j \<noteq> SVGA_FIFO_NEXT_CMD \<Longrightarrow> j \<noteq> SVGA_FIFO_RESERVED \<Longrightarrow> mmio d j = ring_write m n t ws (mmio dev) j"
      by blast
    then show ?thesis
      by (intro that[of "upd_fifo (\<lambda>f. f\<lparr>dynamic_buffer := None\<rparr>) d"]) (auto simp: fifo_commit_copy_def same True)
  next
    case False
    show ?thesis
      by (rule that[of dev2]) (use False ws in \<open>auto simp: fifo_commit_copy_def same ring_write_def dev2_def\<close>)
  qed
  have r3: "reserveable dev3 = reserveable dev" "using_bounce_buffer (fifo dev3) = using_bounce_buffer (fifo dev)"
    using f3 by (auto simp: reserveable_def dev2_def)
  let ?fin = "mmio_write next_cmd SVGA_FIFO_NEXT_CMD dev3"
  let ?dev_end = "upd_fifo (\<lambda>f. f\<lparr>fifo_mutex := False\<rparr>) (vmw_fifo_ping_host SVGA_SYNC_GENERIC
      (if reserveable dev then mmio_write 0 SVGA_FIFO_RESERVED ?fin else ?fin))"
  have "vmw_local_fifo_commit dev bytes = Inr ?dev_end"
    using d3 mode al res dx r3
    by (auto simp: vmw_local_fifo_commit_def fifo_commit_finish_def Let_def dev2_def[symmetric] next_cmd_def)
  moreover have "fifo_geom ?dev_end m n ((t + k) mod n) s"
    using g nx m m3 by (auto simp: fifo_geom_def ring_write_below)
  moreover have "mmio ?dev_end j = ring_write m n t ws (mmio dev) j" if "m \<le> j" "j \<noteq> SVGA_FIFO_BUSY" for j
    using that m m3 by auto
  ultimately show ?thesis
    using m f3 by (intro exI[of _ ?dev_end]) (auto simp: dev2_def)
qed

section \<open>Reserve, fill and commit\<close>

lemma reserve_geom:
  assumes ok: "fifo_ok dev" and views: "list_all (\<lambda>hv. ring_pos_ok dev (hv_stop hv)) hvs"
    and run: "vmw_local_fifo_reserve vmalloc hvs dev bytes = Some (Inr (dev1, Some ptr))"
  shows "\<exists>s. fifo_geom dev1 (fifo_base dev) (fifo_cap dev) (fifo_tail dev) s \<and>
      (\<forall>i. fifo_base dev \<le> i \<longrightarrow> mmio dev1 i = mmio dev i) \<and>
      4 * fifo_used dev1 + unat bytes < 4 * fifo_cap dev \<and>
      ((\<exists>i. ptr = In_place i) \<longrightarrow> 4 * fifo_tail dev + unat bytes \<le> 4 * fifo_cap dev) \<and>
      reservation_buffer vmalloc (upd_fifo (\<lambda>f. f\<lparr>fifo_mutex := True, reserved_size := bytes\<rparr>) dev)
        bytes (mmio dev SVGA_FIFO_NEXT_CMD) dev1 ptr"
proof -
  let ?mx = "mmio dev SVGA_FIFO_MAX" and ?mn = "mmio dev SVGA_FIFO_MIN" and ?nx = "mmio dev SVGA_FIFO_NEXT_CMD"
  let ?d0 = "upd_fifo (\<lambda>f. f\<lparr>fifo_mutex := True, reserved_size := bytes\<rparr>) dev"
  note g = fifo_geom_of_ok[OF ok]
  have lt: "bytes < ?mx - ?mn" and loop: "fifo_reserve_loop vmalloc hvs ?d0 bytes ?mx ?mn ?nx = Some (dev1, Some ptr)"
    using run by (auto simp: vmw_local_fifo_reserve_def Let_def fifo_out_err_def split: if_splits)
  have b: "unat bytes < 4 * fifo_cap dev"
  proof -
    have "unat (?mx - ?mn) = 4 * fifo_cap dev"
      using g by (subst unat_sub) (auto simp: fifo_geom_def word_le_nat_alt)
    with lt show ?thesis by (simp add: word_less_nat_alt)
  qed
  from fifo_reserve_loop_SomeD[OF loop] obtain hv d where hv: "hv \<in> set hvs"
    and kept: "fifo_regs_kept ?d0 d" and stop: "mmio d SVGA_FIFO_STOP = hv_stop hv"
    and cls: "fifo_classify d bytes ?mx ?mn ?nx (hv_stop hv) \<noteq> Need_wait"
      "(\<exists>i. ptr = In_place i) \<longrightarrow> fifo_classify d bytes ?mx ?mn ?nx (hv_stop hv) = Reserve_in_place"
    and m1: "\<And>i. i \<noteq> SVGA_FIFO_RESERVED \<Longrightarrow> mmio dev1 i = mmio d i"
    and buf: "reservation_buffer vmalloc ?d0 bytes ?nx dev1 ptr"
    by blast
  define s where "s = unat (hv_stop hv) div 4 - fifo_base dev"
  have regs: "mmio d SVGA_FIFO_MAX = ?mx" "mmio d SVGA_FIFO_MIN = ?mn" "mmio d SVGA_FIFO_NEXT_CMD = ?nx"
    using kept by (auto simp: fifo_regs_kept_def)
  have "ring_pos_ok dev (hv_stop hv)" using views hv by (simp add: list_all_iff)
  then have gd: "fifo_geom d (fifo_base dev) (fifo_cap dev) (fifo_tail dev) s"
    using g regs stop
    by (auto simp: fifo_geom_def ring_pos_ok_def s_def word_le_nat_alt word_less_nat_alt elim!: dvdE)
  then have gd1: "fifo_geom dev1 (fifo_base dev) (fifo_cap dev) (fifo_tail dev) s"
    by (auto simp: fifo_geom_def m1)
  have used: "fifo_used dev1 = fifo_used d" by (simp add: fifo_used_geom[OF gd] fifo_used_geom[OF gd1])
  have "mmio dev1 i = mmio dev i" if "fifo_base dev \<le> i" for i
    using that g kept m1[of i] by (auto simp: fifo_geom_def fifo_regs_kept_def)
  then show ?thesis
    using gd1 buf fifo_classify_space[OF gd b, unfolded regs stop, OF refl] cls used by auto
qed

lemma fifo_fill_keeps:
  assumes "reservation_buffer vmalloc (upd_fifo (\<lambda>f. f\<lparr>fifo_mutex := True, reserved_size := bytes\<rparr>) dev)
      bytes next_cmd dev1 ptr"
  shows "reserved_size (fifo (fifo_fill ptr ws dev1)) = bytes"
    "fifo_dx (fifo (fifo_fill ptr ws dev1)) = fifo_dx (fifo dev)"
    "reserveable (fifo_fill ptr ws dev1) = reserveable dev"
    "static_buffer_size (fifo (fifo_fill ptr ws dev1)) = static_buffer_size (fifo dev)"
    "length ws \<le> length (static_buffer (fifo dev)) \<or> ptr \<noteq> Static_buffer \<Longrightarrow>
     length (static_buffer (fifo (fifo_fill ptr ws dev1))) = length (static_buffer (fifo dev))"
  using assms by (cases ptr; simp add: reservation_buffer_def fifo_fill_def reserveable_def)+

text \<open>
  What \<open>fifo_fill\<close> leaves in the bounce buffer, or directly in the ring, once committed, is
  the same segment of the ring in all cases.
\<close>

lemma fifo_fill_effect:
  assumes idle: "fifo_idle dev" and vm: "vmalloc_ok vmalloc" and fits: "4 * length ws \<le> unat bytes"
    and geom: "fifo_geom dev1 m n t s" and nx: "unat (mmio dev SVGA_FIFO_NEXT_CMD) = 4 * (m + t)"
    and place: "(\<exists>i. ptr = In_place i) \<longrightarrow> 4 * t + unat bytes \<le> 4 * n"
    and buf: "reservation_buffer vmalloc (upd_fifo (\<lambda>f. f\<lparr>fifo_mutex := True, reserved_size := bytes\<rparr>) dev)
      bytes (mmio dev SVGA_FIFO_NEXT_CMD) dev1 ptr"
  defines "d \<equiv> fifo_fill ptr ws dev1"
  shows "if using_bounce_buffer (fifo d)
      then length ws \<le> length (bounce_buffer (fifo d)) \<and> take (length ws) (bounce_buffer (fifo d)) = ws \<and> mmio d = mmio dev1
      else mmio d = ring_write m n t ws (mmio dev1)"
    "using_bounce_buffer (fifo d) = (\<forall>i. ptr \<noteq> In_place i)"
    "\<not> using_bounce_buffer (fifo d) \<Longrightarrow> dynamic_buffer (fifo d) = None"
    "length (static_buffer (fifo d)) = length (static_buffer (fifo dev))"
proof -
  have idx: "unat (drop_bit 2 (mmio dev SVGA_FIFO_NEXT_CMD)) = m + t" using nx by (simp add: unat_word_index)
  have inpl: "mem_write (mmio dev1) (m + t) ws = ring_write m n t ws (mmio dev1)" if "4 * t + unat bytes \<le> 4 * n"
    using that fits by (intro ring_write_in_place) simp
  show "if using_bounce_buffer (fifo d)
      then length ws \<le> length (bounce_buffer (fifo d)) \<and> take (length ws) (bounce_buffer (fifo d)) = ws \<and> mmio d = mmio dev1
      else mmio d = ring_write m n t ws (mmio dev1)"
    "using_bounce_buffer (fifo d) = (\<forall>i. ptr \<noteq> In_place i)"
    "\<not> using_bounce_buffer (fifo d) \<Longrightarrow> dynamic_buffer (fifo d) = None"
    "length (static_buffer (fifo d)) = length (static_buffer (fifo dev))"
    using idle vm fits place buf inpl idx
    by (cases ptr; force simp: d_def reservation_buffer_def fifo_fill_def fifo_idle_def vmalloc_ok_def
        bounce_buffer_def word_less_nat_alt)+
qed

lemma fifo_reserve_commit:
  assumes "fifo_ok dev" "fifo_idle dev" "vmalloc_ok vmalloc"
    and "list_all (\<lambda>hv. ring_pos_ok dev (hv_stop hv)) hvs"
    and "vmw_local_fifo_reserve vmalloc hvs dev bytes = Some (Inr (dev1, Some ptr))"
    and "reserveable dev \<or> 4 < bytes" and "4 * length ws \<le> unat bytes"
    and "mmio d1 = mmio dev1" "fifo d1 = fifo dev1"
  shows "\<exists>dev2. vmw_local_fifo_commit (fifo_fill ptr ws d1) (of_nat (4 * length ws)) = Inr dev2 \<and>
    fifo_content dev2 = fifo_content dev1 @ ws \<and> fifo_ok dev2 \<and> fifo_idle dev2 \<and>
    fifo_content dev1 = fifo_content (mmio_write (mmio dev1 SVGA_FIFO_STOP) SVGA_FIFO_STOP dev)"
proof -
  let ?d = "fifo_fill ptr ws d1" and ?k = "length ws" and ?b = "of_nat (4 * length ws) :: u32"
  let ?m = "fifo_base dev" and ?n = "fifo_cap dev" and ?t = "fifo_tail dev"
  note g = fifo_geom_of_ok[OF assms(1)]
  from reserve_geom[OF assms(1,4,5)] obtain s where g1: "fifo_geom dev1 ?m ?n ?t s"
    and same: "\<And>i. ?m \<le> i \<Longrightarrow> mmio dev1 i = mmio dev i"
    and room: "4 * fifo_used dev1 + unat bytes < 4 * ?n"
    and place: "(\<exists>i. ptr = In_place i) \<longrightarrow> 4 * ?t + unat bytes \<le> 4 * ?n"
    and buf: "reservation_buffer vmalloc (upd_fifo (\<lambda>f. f\<lparr>fifo_mutex := True, reserved_size := bytes\<rparr>) dev)
        bytes (mmio dev SVGA_FIFO_NEXT_CMD) dev1 ptr"
    by blast
  have gd1: "fifo_geom d1 ?m ?n ?t s" using g1 assms(8) by (simp add: fifo_geom_def)
  have buf1: "reservation_buffer vmalloc (upd_fifo (\<lambda>f. f\<lparr>fifo_mutex := True, reserved_size := bytes\<rparr>) dev)
        bytes (mmio dev SVGA_FIFO_NEXT_CMD) d1 ptr"
    using buf unfolding reservation_buffer_def assms(9) .
  have m: "1024 \<le> ?m" and nx: "unat (mmio dev SVGA_FIFO_NEXT_CMD) = 4 * (?m + ?t)"
    using g by (auto simp: fifo_geom_def)
  note fill = fifo_fill_effect[OF assms(2,3,7) gd1 nx place buf1]
  note kept = fifo_fill_keeps[OF buf1, of ws]
  have ub: "unat ?b = 4 * ?k"
    using assms(7) unsigned_less[of bytes, where 'a = nat] by (simp only: unat_of_nat) simp
  have k: "?k < ?n" and b: "?b \<le> bytes" using room assms(7) ub by (auto simp: word_le_nat_alt)
  have gd: "fifo_geom ?d ?m ?n ?t s"
    using fill(1) gd1 m by (auto simp: fifo_geom_def ring_write_below split: if_splits)
  have mode: "using_bounce_buffer (fifo ?d) \<or> reserveable ?d"
    using assms(6) buf1 fill(2) kept(3) by (auto simp: reservation_buffer_def reserveable_def)
  obtain dev2 where c: "vmw_local_fifo_commit ?d ?b = Inr dev2"
    and g2: "fifo_geom dev2 ?m ?n ((?t + ?k) mod ?n) s"
    and w: "\<And>j. ?m \<le> j \<Longrightarrow> mmio dev2 j = ring_write ?m ?n ?t (if using_bounce_buffer (fifo ?d)
          then take ?k (bounce_buffer (fifo ?d)) else []) (mmio ?d) j"
    and f2: "fifo dev2 = (fifo ?d)\<lparr>fifo_dx := False, reserved_size := 0, fifo_mutex := False,
        dynamic_buffer := (if using_bounce_buffer (fifo ?d) then None else dynamic_buffer (fifo ?d))\<rparr>"
    using vmw_local_fifo_commit_spec[OF gd ub k _ _ mode refl] fill(1) kept b assms(2)
    by (auto simp: fifo_idle_def)
  have "mmio dev2 j = ring_write ?m ?n ?t ws (mmio dev1) j" if "?m \<le> j" for j
    using w[OF that] fill(1) assms(8) by (auto simp: ring_write_def split: if_splits)
  then have app: "fifo_content dev2 = fifo_content dev1 @ ws"
    using room assms(7) by (intro fifo_content_append[OF g1 g2]) simp_all
  have "fifo_idle dev2" using f2 fill(3,4) kept(4) assms(2) by (auto simp: fifo_idle_def)
  moreover
  let ?h = "mmio_write (mmio dev1 SVGA_FIFO_STOP) SVGA_FIFO_STOP dev"
  have gh: "fifo_geom ?h ?m ?n ?t s" using g g1 by (simp add: fifo_geom_def)
  have "fifo_content dev1 = fifo_content ?h"
    using same m by (simp add: fifo_content_def fifo_used_geom[OF g1] fifo_used_geom[OF gh]
        fifo_ok_of_geom[OF g1] fifo_ok_of_geom[OF gh])
  ultimately show ?thesis using c app fifo_ok_of_geom(1)[OF g2] by blast
qed


text \<open>A small FIFO: the page of registers and eight words of ring, three of them in use across the end.\<close>

definition small_fifo :: "u32 \<Rightarrow> u32 \<Rightarrow> u32 \<Rightarrow> vmw_private" where
  "small_fifo caps next_cmd stop =
     idle_dev\<lparr>mmio := (\<lambda>i. if i = SVGA_FIFO_MIN then 4096 else if i = SVGA_FIFO_MAX then 4128
                  else if i = SVGA_FIFO_NEXT_CMD then next_cmd else if i = SVGA_FIFO_STOP then stop
                  else if 1024 \<le> i \<and> i < 1032 then of_nat i else 0),
      fifo := idle_fifo\<lparr>fifo_capabilities := caps\<rparr>\<rparr>"

lemmas small_fifo_eval = small_fifo_def idle_dev_eval fifo_ok_def ring_pos_ok_def fifo_idle_def
  reserveable_def vmalloc_ok_def vmw_local_fifo_reserve_def fifo_classify_def vmw_fifo_is_full_def
  fifo_bounce_def fifo_fill_def


section \<open>The two hard cases of reservation\<close>

text \<open>When the host's read pointer is ahead of the write pointer and the request does not
  fit in front of it, \<open>vmw_fifo_is_full\<close> still reports free space (it adds the room up to
  the end and the room before STOP, as if STOP were behind), so \<open>vmw_fifo_wait\<close> returns at
  once: the reservation loop spins for as long as the host does not move STOP, without the timeout
  its comment promises and without waking the host (no register is written in any number of iterations).
\<close>
lemma fifo_reserve_spins:
  assumes "fifo_ok dev" "fifo_idle dev"
    and "bytes < mmio dev SVGA_FIFO_MAX - mmio dev SVGA_FIFO_MIN"
    and "mmio dev SVGA_FIFO_NEXT_CMD < mmio dev SVGA_FIFO_STOP"
    and "mmio dev SVGA_FIFO_STOP \<le> mmio dev SVGA_FIFO_NEXT_CMD + bytes"
    and "hv_stop hv = mmio dev SVGA_FIFO_STOP"
  shows "vmw_local_fifo_reserve vmalloc (replicate n hv) dev bytes = None \<and>
    vmw_fifo_wait dev bytes False hv = (dev, Inr ())"
proof -
  have room: "\<not> vmw_fifo_is_full d bytes" if "mmio d = mmio dev" for d
  proof -
    note g = fifo_geom_of_ok[OF assms(1)]
    let ?s = "fifo_head dev" and ?t = "fifo_tail dev" and ?n = "fifo_cap dev"
    have "unat (mmio dev SVGA_FIFO_MAX - mmio dev SVGA_FIFO_NEXT_CMD) = 4 * (?n - ?t)"
      "unat (mmio dev SVGA_FIFO_STOP - mmio dev SVGA_FIFO_MIN) = 4 * ?s"
      "unat (mmio dev SVGA_FIFO_MAX - mmio dev SVGA_FIFO_MIN) = 4 * ?n"
      using g by (subst unat_sub; auto simp: fifo_geom_def word_le_nat_alt)+
    moreover from this have "unat (mmio dev SVGA_FIFO_MAX - mmio dev SVGA_FIFO_NEXT_CMD +
        (mmio dev SVGA_FIFO_STOP - mmio dev SVGA_FIFO_MIN)) = 4 * (?n - ?t) + 4 * ?s"
      using g by (subst unat_add_lem[THEN iffD1]) (auto simp: fifo_geom_def)
    ultimately show ?thesis
      using assms(3,4) g that
      by (auto simp: vmw_fifo_is_full_def Let_def word_le_nat_alt word_less_nat_alt fifo_geom_def)
  qed
  have "fifo_reserve_loop vmalloc (replicate n hv) d bytes (mmio dev SVGA_FIFO_MAX) (mmio dev SVGA_FIFO_MIN)
      (mmio dev SVGA_FIFO_NEXT_CMD) = None" if "mmio d = mmio dev" for d
    using that
  proof (induction n arbitrary: d)
    case (Suc n)
    have "mmio d SVGA_FIFO_STOP = hv_stop hv" using Suc.prems assms(6) by simp
    then have same: "mmio_write (hv_stop hv) SVGA_FIFO_STOP d = d" by (cases d) (simp add: fun_upd_idem)
    have wait: "vmw_fifo_wait d bytes False hv = (d, Inr ())"
      using room[OF Suc.prems] by (simp add: vmw_fifo_wait_def)
    have cls: "fifo_classify d bytes (mmio dev SVGA_FIFO_MAX) (mmio dev SVGA_FIFO_MIN)
        (mmio dev SVGA_FIFO_NEXT_CMD) (hv_stop hv) = Need_wait"
      using assms(4-6) by (simp add: fifo_classify_def not_le not_less)
    show ?case
      unfolding replicate_Suc fifo_reserve_loop.simps Let_def same cls wait using Suc by simp
  qed simp
  then show ?thesis
    using assms(2,3) room[of dev]
    by (simp add: vmw_local_fifo_reserve_def fifo_idle_def Let_def vmw_fifo_wait_def)
qed

text \<open>Witness: a ring of eight words with one free word, and a request for two.\<close>
lemma fifo_reserve_spins_example:
  "\<forall>n. vmw_local_fifo_reserve (\<lambda>b. None) (replicate n \<lparr>hv_stop = 4108, hv_wait_stop = 4108, hv_signal = False\<rparr>)
     (small_fifo 64 4100 4108) 8 = None"
  by (intro allI conjunct1[OF fifo_reserve_spins]) (simp_all add: small_fifo_eval)

text \<open>On a device without the RESERVED register, a reservation of at most one word is handed
  out in place, and its commit neither copies anything nor advances NEXT_CMD: the word the
  caller wrote is not part of the FIFO's contents afterwards.
\<close>
lemma fifo_single_word_never_published:
  assumes "fifo_ok dev" "fifo_idle dev" "\<not> reserveable dev" "bytes = 4"
    and "list_all (\<lambda>hv. ring_pos_ok dev (hv_stop hv)) hvs"
    and "vmw_local_fifo_reserve vmalloc hvs dev bytes = Some (Inr (dev1, Some (In_place i)))"
    and "vmw_local_fifo_commit (fifo_fill (In_place i) [w] dev1) bytes = Inr dev2"
  shows "mmio dev2 SVGA_FIFO_NEXT_CMD = mmio dev SVGA_FIFO_NEXT_CMD \<and> fifo_content dev2 = fifo_content dev1"
proof -
  let ?d = "fifo_fill (In_place i) [w] dev1"
  let ?m = "fifo_base dev" and ?n = "fifo_cap dev" and ?t = "fifo_tail dev"
  from reserve_geom[OF assms(1,5,6)] obtain s where g1: "fifo_geom dev1 ?m ?n ?t s"
    and room: "4 * fifo_used dev1 + unat bytes < 4 * ?n" and place: "4 * ?t + unat bytes \<le> 4 * ?n"
    and buf: "reservation_buffer vmalloc (upd_fifo (\<lambda>f. f\<lparr>fifo_mutex := True, reserved_size := bytes\<rparr>) dev)
        bytes (mmio dev SVGA_FIFO_NEXT_CMD) dev1 (In_place i)"
    by blast
  have m: "1024 \<le> ?m" and i: "i = ?m + ?t" and nx: "mmio dev SVGA_FIFO_NEXT_CMD = mmio dev1 SVGA_FIFO_NEXT_CMD"
    using g1 fifo_geom_of_ok[OF assms(1)] buf
    by (auto simp: fifo_geom_def reservation_buffer_def unat_word_index word_unat_eq_iff)
  have d: "mmio ?d = (mmio dev1)(i := w)" "\<not> reserveable ?d" "\<not> using_bounce_buffer (fifo ?d)"
    using buf assms(3) fifo_fill_keeps(3)[OF buf, of "[w]"]
    by (auto simp: fifo_fill_def mem_write_def reservation_buffer_def fun_eq_iff)
  have com: "mmio dev2 j = mmio ?d j" if "j \<noteq> SVGA_FIFO_BUSY" for j
    using assms(7) d that
    by (auto simp: vmw_local_fifo_commit_def fifo_commit_copy_def fifo_commit_finish_def Let_def reserveable_def
        split: if_splits)
  have g2: "fifo_geom dev2 ?m ?n ?t s" using g1 com d i m by (auto simp: fifo_geom_def)
  have used: "fifo_used dev2 = fifo_used dev1" by (simp add: fifo_used_geom[OF g1] fifo_used_geom[OF g2])
  have lt: "?t < ?n" "s < ?n" using g1 by (auto simp: fifo_geom_def)
  have "mmio dev2 (?m + (s + k) mod ?n) = mmio dev1 (?m + (s + k) mod ?n)" if "k < fifo_used dev1" for k
  proof -
    have "(s + k) mod ?n = (if s + k < ?n then s + k else s + k - ?n)"
      using lt room that by (intro mod_below_twice) simp
    then have "(s + k) mod ?n \<noteq> ?t"
      using that lt room assms(4) unfolding fifo_used_geom[OF g1] by (auto split: if_splits)
    then show ?thesis using com d i m by auto
  qed
  then show ?thesis
    using com d i m nx used
    by (auto simp: fifo_content_def fifo_ok_of_geom[OF g1] fifo_ok_of_geom[OF g2])
qed

text \<open>Witness: one word reserved and committed on an empty FIFO.\<close>
lemma fifo_single_word_never_published_example:
  "\<exists>dev1 dev2. vmw_local_fifo_reserve (\<lambda>b. None) [\<lparr>hv_stop = 4096, hv_wait_stop = 4096, hv_signal = False\<rparr>]
      (small_fifo 0 4096 4096) 4 = Some (Inr (dev1, Some (In_place 1024))) \<and>
    vmw_local_fifo_commit (fifo_fill (In_place 1024) [71] dev1) 4 = Inr dev2 \<and>
    mmio dev2 SVGA_FIFO_NEXT_CMD = 4096 \<and> fifo_content dev2 = fifo_content dev1"
proof -
  let ?hv = "\<lparr>hv_stop = 4096, hv_wait_stop = 4096, hv_signal = False\<rparr>"
  let ?dev = "small_fifo 0 4096 4096"
  obtain dev1 where r: "vmw_local_fifo_reserve (\<lambda>b. None) [?hv] ?dev 4 = Some (Inr (dev1, Some (In_place 1024)))"
    and c: "\<exists>dev2. vmw_local_fifo_commit (fifo_fill (In_place 1024) [71] dev1) 4 = Inr dev2"
    by (simp add: small_fifo_eval vmw_local_fifo_commit_def fifo_commit_copy_def Let_def)
  from c obtain dev2 where c2: "vmw_local_fifo_commit (fifo_fill (In_place 1024) [71] dev1) 4 = Inr dev2" by blast
  have "fifo_ok ?dev" "fifo_idle ?dev" "\<not> reserveable ?dev" "mmio ?dev SVGA_FIFO_NEXT_CMD = 4096"
    "list_all (\<lambda>hv. ring_pos_ok ?dev (hv_stop hv)) [?hv]"
    by (simp_all add: small_fifo_eval)
  with fifo_single_word_never_published[OF _ _ _ refl _ r c2] r c2 show ?thesis by auto
qed

text \<open>\<open>vmw_fifo_init\<close> brings the FIFO up empty and well-formed, at least a page above the
  registers, with no reservation and the fence register at the last sequence number read,
  whenever the static buffer can be allocated and the device memory is a multiple of four bytes,
  no more than 2 GB and larger than the register area; otherwise it returns -ENOMEM.
\<close>
lemma vmw_fifo_init_establishes:
  assumes "4 dvd unat (mmio_size dev)" "unat (mmio_size dev) \<le> 2 ^ 31" "4096 < mmio_size dev"
    and "capabilities dev AND SVGA_CAP_EXTENDED_FIFO \<noteq> 0 \<Longrightarrow> 4 * unat (regs dev SVGA_REG_MEM_REGS) < unat (mmio_size dev)"
    and "\<forall>b buf. vmalloc b = Some buf \<longrightarrow> 4 * length buf = unat b"
  shows "case vmw_fifo_init vmalloc now dev of
      (dev', Inl e) \<Rightarrow> e = ENOMEM \<and> vmalloc VMWGFX_FIFO_STATIC_SIZE = None
    | (dev', Inr _) \<Rightarrow> fifo_ok dev' \<and> fifo_idle dev' \<and> fifo_content dev' = [] \<and>
        mmio dev' SVGA_FIFO_FENCE = last_read_seqno dev' \<and> marker_seq dev' = last_read_seqno dev'"
proof (cases "vmalloc VMWGFX_FIFO_STATIC_SIZE")
  case None
  then show ?thesis by (simp add: vmw_fifo_init_def Let_def)
next
  case (Some buf)
  let ?r = "regs dev SVGA_REG_MEM_REGS"
  let ?raw = "push_bit 2 (if capabilities dev AND SVGA_CAP_EXTENDED_FIFO \<noteq> 0 then ?r else 4) :: u32"
  let ?mn = "if ?raw < 4096 then 4096 else ?raw"
  have raw: "4 dvd unat ?raw \<and> unat ?raw < unat (mmio_size dev)"
  proof (cases "capabilities dev AND SVGA_CAP_EXTENDED_FIFO \<noteq> 0")
    case True
    with assms(2,4) have "unat (push_bit 2 ?r) = 4 * unat ?r"
      by (subst unat_push_bit) auto
    with True assms(4) show ?thesis by simp
  next
    case False
    then show ?thesis using assms(3) by (simp add: word_less_nat_alt)
  qed
  then have mn: "4 dvd unat ?mn" "?mn < mmio_size dev" "4096 \<le> unat ?mn"
    using assms(3) by (auto simp: word_less_nat_alt)
  obtain dev' where i: "vmw_fifo_init vmalloc now dev = (dev', Inr ())" and
    "mmio dev' SVGA_FIFO_MIN = ?mn" "mmio dev' SVGA_FIFO_MAX = mmio_size dev"
    "mmio dev' SVGA_FIFO_NEXT_CMD = ?mn" "mmio dev' SVGA_FIFO_STOP = ?mn"
    "fifo_idle dev'" "mmio dev' SVGA_FIFO_FENCE = last_read_seqno dev'" "marker_seq dev' = last_read_seqno dev'"
    using Some assms(5) by (simp add: vmw_fifo_init_def Let_def vmw_write_def vmw_read_def fifo_idle_def)
  moreover from this mn assms(1,2) have "fifo_ok dev'" "fifo_content dev' = []"
    by (simp_all add: fifo_ok_def ring_pos_ok_def fifo_content_def fifo_used_def fifo_tail_def fifo_head_def)
  ultimately show ?thesis by simp
qed

text \<open>Witness: a device with one page of registers and eight words of ring.\<close>
lemma vmw_fifo_init_establishes_example:
  "fifo_ok (fst (vmw_fifo_init (\<lambda>b. if 4 dvd unat b then Some (replicate (unat b div 4) 0) else None) 0 (small_fifo 0 0 0)))"
proof -
  let ?vm = "\<lambda>b :: u32. if 4 dvd unat b then Some (replicate (unat b div 4) (0 :: u32)) else None"
  have "4 dvd unat (mmio_size (small_fifo 0 0 0))" "unat (mmio_size (small_fifo 0 0 0)) \<le> 2 ^ 31"
    "4096 < mmio_size (small_fifo 0 0 0)" "capabilities (small_fifo 0 0 0) AND SVGA_CAP_EXTENDED_FIFO = 0"
    by (simp_all add: small_fifo_def idle_dev_eval)
  moreover have "\<forall>b buf. ?vm b = Some buf \<longrightarrow> 4 * length buf = unat b" by auto
  moreover have "?vm VMWGFX_FIFO_STATIC_SIZE \<noteq> None" by simp
  ultimately show ?thesis
    using vmw_fifo_init_establishes[of "small_fifo 0 0 0" ?vm 0]
    by (auto split: prod.splits sum.splits)
qed

end
