(* ===== verification/Seqno.thy ===== *)
theory Seqno
  imports Vmw_Prelude
begin

text \<open>
  Comparison of 32-bit sequence numbers that wrap around. The driver calls a sequence number
  \<open>y\<close> passed at \<open>x\<close> when \<open>x - y\<close>, computed modulo \<open>2 ^ 32\<close>, is below a constant: \<open>1 << 31\<close> in
  \<open>src/vmwgfx_fence.c\<close>, \<open>1 << 24\<close> in \<open>src/vmwgfx_irq.c\<close>; \<open>src/vmwgfx_marker.c\<close> compares with \<open>1 << 30\<close>. The locale states what such a test
  gives its clients, as long as the sequence numbers in use lie within a window of that size.
\<close>

definition seq_dist :: "u32 \<Rightarrow> u32 \<Rightarrow> nat" where
  "seq_dist base x = unat (x - base)"

lemma seq_dist_inj: "seq_dist base x = seq_dist base y \<longleftrightarrow> x = y"
  by (simp add: seq_dist_def flip: word_unat_eq_iff)

lemma seq_dist_diff:
  assumes "seq_dist base y \<le> seq_dist base x"
  shows "unat (x - y) = seq_dist base x - seq_dist base y"
proof -
  have "unat ((x - base) - (y - base)) = unat (x - base) - unat (y - base)"
    using assms by (intro unat_sub) (simp add: seq_dist_def word_le_nat_alt)
  then show ?thesis by (simp add: seq_dist_def)
qed

locale seqno_window =
  fixes wrap :: u32
  assumes half: "unat wrap \<le> 2 ^ 31"
begin

lemma passed_iff:
  assumes "seq_dist base x < unat wrap" "seq_dist base y < unat wrap"
  shows "x - y < wrap \<longleftrightarrow> seq_dist base y \<le> seq_dist base x"
proof (cases "seq_dist base y \<le> seq_dist base x")
  case True
  with seq_dist_diff[OF True] assms show ?thesis by (simp add: word_less_nat_alt)
next
  case False
  then have d: "unat (y - x) < unat wrap" "0 < unat (y - x)"
    using seq_dist_diff[of base x y] assms by linarith+
  have "2 ^ 32 \<le> unat (x - y) + unat (y - x)"
    using unat_add_lem[of "x - y" "y - x"] d by (auto simp: not_less[symmetric])
  then have "unat wrap \<le> unat (x - y)" using d half by simp
  with False show ?thesis by (simp add: word_less_nat_alt)
qed

lemma not_passed_iff:
  assumes "seq_dist base x < unat wrap" "seq_dist base y < unat wrap"
  shows "x - y > wrap \<longleftrightarrow> seq_dist base x < seq_dist base y"
proof (cases "seq_dist base y \<le> seq_dist base x")
  case True
  with seq_dist_diff[OF True] assms show ?thesis by (simp add: word_less_nat_alt)
next
  case False
  then have d: "unat (y - x) < unat wrap" "0 < unat (y - x)"
    using seq_dist_diff[of base x y] assms by linarith+
  have "2 ^ 32 \<le> unat (x - y) + unat (y - x)"
    using unat_add_lem[of "x - y" "y - x"] d by (auto simp: not_less[symmetric])
  then have "unat wrap < unat (x - y)" using d half by simp
  with False show ?thesis by (simp add: word_less_nat_alt)
qed

lemma dropWhile_passed:
  assumes "sorted_wrt (\<lambda>f g. seq_dist base (s f) < seq_dist base (s g)) fs"
    and "\<forall>f\<in>set fs. seq_dist base (s f) < unat wrap" and "seq_dist base x < unat wrap"
  shows "dropWhile (\<lambda>f. x - s f < wrap) fs = filter (\<lambda>f. \<not> x - s f < wrap) fs \<and>
         takeWhile (\<lambda>f. x - s f < wrap) fs = filter (\<lambda>f. x - s f < wrap) fs"
  using assms
proof (induction fs)
  case (Cons f fs)
  show ?case
  proof (cases "x - s f < wrap")
    case True
    with Cons show ?thesis by simp
  next
    case False
    have "\<not> x - s g < wrap" if "g \<in> set fs" for g
      using False Cons.prems that passed_iff[of base x "s f"] passed_iff[of base x "s g"] by force
    with False show ?thesis by (simp add: filter_empty_conv filter_id_conv)
  qed
qed simp

end

interpretation fence_win: seqno_window "0x80000000"
  by unfold_locales simp

interpretation marker_win: seqno_window "0x40000000"
  by unfold_locales simp

interpretation irq_win: seqno_window "0x1000000"
  by unfold_locales simp

end
