(* ===== verification/Fence.thy ===== *)
theory Fence
  imports Vmw_Device Seqno "HOL-Library.Multiset"
begin

text \<open>
  Fence objects, \<open>src/vmwgfx_fence.c\<close>: the list of unsignaled fences in order of submission,
  signaling them when the device's fence register passes their sequence number, running the
  actions attached to them, and keeping the device's fence goal, the sequence number at which it
  raises the FENCE_GOAL interrupt. Sequence numbers are 32-bit and wrap around. Fence objects are
  numbered; the embedded \<open>struct dma_fence\<close> is the sequence number and the SIGNALED flag.
\<close>

section \<open>Operations\<close>

abbreviation (input) VMW_FENCE_WRAP :: u32 where "VMW_FENCE_WRAP \<equiv> 0x80000000"

abbreviation upd_fman :: "(vmw_fence_manager \<Rightarrow> vmw_fence_manager) \<Rightarrow> vmw_private \<Rightarrow> vmw_private" where
  "upd_fman f dev \<equiv> dev\<lparr>fman := f (fman dev)\<rparr>"

definition dma_fence_is_signaled :: "vmw_fence_manager \<Rightarrow> nat \<Rightarrow> bool" where
  "dma_fence_is_signaled fm f = (case fence_objs fm f of Some fo \<Rightarrow> fence_signaled fo | None \<Rightarrow> False)"

definition vmw_fence_manager_init :: vmw_fence_manager where
  "vmw_fence_manager_init = \<lparr>fence_list = [], fence_objs = (\<lambda>_. None), num_fence_objects = 0, fifo_down = True,
     cleanup_list = [], pending_actions = (\<lambda>_. 0), goal_irq_on = False, seqno_valid = False,
     work_scheduled = False, passed_calls = []\<rparr>"

definition vmw_fence_manager_takedown :: "vmw_fence_manager \<Rightarrow> unit kres" where
  "vmw_fence_manager_takedown fm =
     (if \<not> (fence_list fm = [] \<and> cleanup_list fm = []) then Inl OOPS else Inr ())"

definition vmw_fence_obj_init :: "nat \<Rightarrow> u32 \<Rightarrow> vmw_private \<Rightarrow> vmw_private \<times> unit kres" where
  "vmw_fence_obj_init f seqno dev =
     (let dev1 = upd_fman (\<lambda>fm. fm\<lparr>fence_objs := (fence_objs fm)(f \<mapsto>
              \<lparr>fence_seqno = seqno, fence_signaled = False, seq_passed_actions = []\<rparr>)\<rparr>) dev
      in if fifo_down (fman dev1) then (dev1, Inl EBUSY)
         else (upd_fman (\<lambda>fm. fm\<lparr>fence_list := fence_list fm @ [f],
                                  num_fence_objects := num_fence_objects fm + 1\<rparr>) dev1, Inr ()))"

text \<open>\<open>vmw_fence_create\<close>: the object's address is the argument, \<open>None\<close> when allocation fails.\<close>

definition vmw_fence_create :: "nat option \<Rightarrow> u32 \<Rightarrow> vmw_private \<Rightarrow> vmw_private \<times> nat kres" where
  "vmw_fence_create alloc seqno dev =
     (case alloc of
        None \<Rightarrow> (dev, Inl ENOMEM)
      | Some f \<Rightarrow>
          (case vmw_fence_obj_init f seqno dev of
             (dev1, Inr _) \<Rightarrow> (dev1, Inr f)
           | (dev1, Inl e) \<Rightarrow> (upd_fman (\<lambda>fm. fm\<lparr>fence_objs := (fence_objs fm)(f := None)\<rparr>) dev1, Inl e)))"

definition vmw_fence_obj_destroy :: "nat \<Rightarrow> vmw_private \<Rightarrow> vmw_private" where
  "vmw_fence_obj_destroy f =
     upd_fman (\<lambda>fm. fm\<lparr>fence_list := remove1 f (fence_list fm), num_fence_objects := num_fence_objects fm - 1,
                        fence_objs := (fence_objs fm)(f := None)\<rparr>)"

definition vmw_fence_enable_signaling :: "nat \<Rightarrow> vmw_private \<Rightarrow> vmw_private \<times> bool" where
  "vmw_fence_enable_signaling f dev =
     (case fence_objs (fman dev) f of
        None \<Rightarrow> (dev, False)
      | Some fo \<Rightarrow>
          (if mmio dev SVGA_FIFO_FENCE - fence_seqno fo < VMW_FENCE_WRAP then (dev, False)
           else (vmw_fifo_ping_host SVGA_SYNC_GENERIC dev, True)))"

fun vmw_fences_perform_actions :: "vmw_fence_action list \<Rightarrow> vmw_fence_manager \<Rightarrow> vmw_fence_manager" where
  "vmw_fences_perform_actions [] fm = fm"
| "vmw_fences_perform_actions (a # as) fm =
     vmw_fences_perform_actions as
       (fm\<lparr>pending_actions := (pending_actions fm)(fa_type a := pending_actions fm (fa_type a) - 1),
           passed_calls := passed_calls fm @ (if fa_seq_passed a then [fa_id a] else []),
           cleanup_list := cleanup_list fm @ [a]\<rparr>)"

definition fence_actions :: "vmw_fence_manager \<Rightarrow> nat \<Rightarrow> vmw_fence_action list" where
  "fence_actions fm f = (case fence_objs fm f of Some fo \<Rightarrow> seq_passed_actions fo | None \<Rightarrow> [])"

definition seqno_of :: "vmw_fence_manager \<Rightarrow> nat \<Rightarrow> u32" where
  "seqno_of fm f = (case fence_objs fm f of Some fo \<Rightarrow> fence_seqno fo | None \<Rightarrow> 0)"

text \<open>Unlink a fence, signal it, and perform its actions: the body of the loop in \<open>__vmw_fences_update\<close>.\<close>

definition fence_pass :: "nat \<Rightarrow> vmw_fence_manager \<Rightarrow> vmw_fence_manager" where
  "fence_pass f fm =
     vmw_fences_perform_actions (fence_actions fm f)
       (fm\<lparr>fence_list := remove1 f (fence_list fm),
           fence_objs := (fence_objs fm)(f := map_option
             (\<lambda>fo. fo\<lparr>fence_signaled := True, seq_passed_actions := []\<rparr>) (fence_objs fm f))\<rparr>)"

fun fences_scan :: "u32 \<Rightarrow> nat list \<Rightarrow> vmw_fence_manager \<Rightarrow> vmw_fence_manager" where
  "fences_scan seqno [] fm = fm"
| "fences_scan seqno (f # fs) fm =
     (if seqno - seqno_of fm f < VMW_FENCE_WRAP then fences_scan seqno fs (fence_pass f fm) else fm)"

definition vmw_fence_goal_new_locked :: "u32 \<Rightarrow> vmw_private \<Rightarrow> vmw_private \<times> bool" where
  "vmw_fence_goal_new_locked passed_seqno dev =
     (if \<not> seqno_valid (fman dev) then (dev, False)
      else if passed_seqno - mmio dev SVGA_FIFO_FENCE_GOAL \<ge> VMW_FENCE_WRAP then (dev, False)
      else
        (case find (\<lambda>f. fence_actions (fman dev) f \<noteq> []) (fence_list (fman dev)) of
           None \<Rightarrow> (upd_fman (\<lambda>fm. fm\<lparr>seqno_valid := False\<rparr>) dev, True)
         | Some f \<Rightarrow>
             (mmio_write (seqno_of (fman dev) f) SVGA_FIFO_FENCE_GOAL
                (upd_fman (\<lambda>fm. fm\<lparr>seqno_valid := True\<rparr>) dev), True)))"

definition vmw_fence_goal_check_locked :: "nat \<Rightarrow> vmw_private \<Rightarrow> vmw_private \<times> bool" where
  "vmw_fence_goal_check_locked f dev =
     (if dma_fence_is_signaled (fman dev) f then (dev, False)
      else if seqno_valid (fman dev) \<and> mmio dev SVGA_FIFO_FENCE_GOAL - seqno_of (fman dev) f < VMW_FENCE_WRAP
      then (dev, False)
      else (upd_fman (\<lambda>fm. fm\<lparr>seqno_valid := True\<rparr>)
              (mmio_write (seqno_of (fman dev) f) SVGA_FIFO_FENCE_GOAL dev), True))"

text \<open>
  The body of \<open>__vmw_fences_update\<close> from its \<open>rerun\<close> label on. \<open>rereads\<close> are the values the
  host has put into the fence register by the time of each read after the first; once they are
  used up the register does not change any more.
\<close>

fun fences_rerun :: "u32 list \<Rightarrow> u32 \<Rightarrow> vmw_private \<Rightarrow> vmw_private" where
  "fences_rerun rereads seqno dev =
     (let dev1 = upd_fman (\<lambda>fm. fences_scan seqno (fence_list fm) fm) dev;
          (dev2, needs_rerun) = vmw_fence_goal_new_locked seqno dev1
      in if needs_rerun
         then (case rereads of
                 [] \<Rightarrow> dev2
               | new_seqno # rest \<Rightarrow>
                   (let dev3 = mmio_write new_seqno SVGA_FIFO_FENCE dev2 in
                    if new_seqno \<noteq> seqno then fences_rerun rest new_seqno dev3 else dev3))
         else dev2)"

declare fences_rerun.simps [simp del]

definition vmw_fences_update_locked :: "u32 list \<Rightarrow> vmw_private \<Rightarrow> vmw_private" where
  \<comment> \<open>\<open>__vmw_fences_update\<close>\<close>
  "vmw_fences_update_locked rereads dev =
     (let dev1 = fences_rerun rereads (mmio dev SVGA_FIFO_FENCE) dev in
      if cleanup_list (fman dev1) \<noteq> [] then upd_fman (\<lambda>fm. fm\<lparr>work_scheduled := True\<rparr>) dev1 else dev1)"

definition vmw_fences_update :: "u32 list \<Rightarrow> vmw_private \<Rightarrow> vmw_private" where
  "vmw_fences_update rereads dev = vmw_fences_update_locked rereads dev"

definition vmw_fence_obj_signaled :: "u32 list \<Rightarrow> nat \<Rightarrow> vmw_private \<Rightarrow> vmw_private \<times> bool" where
  "vmw_fence_obj_signaled rereads f dev =
     (if dma_fence_is_signaled (fman dev) f then (dev, True)
      else (let dev1 = vmw_fences_update rereads dev in (dev1, dma_fence_is_signaled (fman dev1) f)))"

definition vmw_fence_obj_wait_result :: "int \<Rightarrow> int" where
  \<comment> \<open>\<open>vmw_fence_obj_wait\<close>: from the result of \<open>dma_fence_wait_timeout\<close> to an error code\<close>
  "vmw_fence_obj_wait_result ret = (if ret > 0 then 0 else if ret = 0 then - 16 else ret)"

definition vmw_fence_obj_flush :: "vmw_private \<Rightarrow> vmw_private" where
  "vmw_fence_obj_flush dev = vmw_fifo_ping_host SVGA_SYNC_GENERIC dev"

definition vmw_fence_obj_add_action :: "u32 list \<Rightarrow> nat \<Rightarrow> vmw_fence_action \<Rightarrow> vmw_private \<Rightarrow> vmw_private" where
  "vmw_fence_obj_add_action rereads f a dev =
     (let dev1 = upd_fman (\<lambda>fm. fm\<lparr>pending_actions :=
              (pending_actions fm)(fa_type a := pending_actions fm (fa_type a) + 1)\<rparr>) dev
      in if dma_fence_is_signaled (fman dev1) f
         then upd_fman (vmw_fences_perform_actions [a]) dev1
         else
           (let dev2 = upd_fman (\<lambda>fm. fm\<lparr>fence_objs := (fence_objs fm)(f := map_option
                    (\<lambda>fo. fo\<lparr>seq_passed_actions := seq_passed_actions fo @ [a]\<rparr>) (fence_objs fm f))\<rparr>) dev1;
                (dev3, run_update) = vmw_fence_goal_check_locked f dev2
            in if run_update
               then (let dev4 = (if \<not> goal_irq_on (fman dev3)
                                 then vmw_goal_waiter_add (upd_fman (\<lambda>fm. fm\<lparr>goal_irq_on := True\<rparr>) dev3)
                                 else dev3)
                     in vmw_fences_update rereads dev4)
               else dev3))"

text \<open>
  \<open>vmw_fence_work_func\<close>, returning the actions whose cleanup it runs. \<open>arrivals\<close> are the
  actions that come onto the cleanup list while a round runs its callbacks; the worker goes on
  until it finds the list empty, and one more round than the list of arrivals is enough for that.
\<close>

fun vmw_fence_work_func ::
  "vmw_fence_action list list \<Rightarrow> vmw_private \<Rightarrow> vmw_private \<times> vmw_fence_action list" where
  "vmw_fence_work_func arrivals dev =
     (let todo = cleanup_list (fman dev);
          dev1 = upd_fman (\<lambda>fm. fm\<lparr>cleanup_list := []\<rparr>) dev;
          dev2 = (if \<not> seqno_valid (fman dev1) \<and> goal_irq_on (fman dev1)
                  then vmw_goal_waiter_remove (upd_fman (\<lambda>fm. fm\<lparr>goal_irq_on := False\<rparr>) dev1) else dev1)
      in if todo = [] then (dev2, [])
         else (case arrivals of
                 [] \<Rightarrow> (dev2, todo)
               | as # rest \<Rightarrow>
                   (case vmw_fence_work_func rest (upd_fman (\<lambda>fm. fm\<lparr>cleanup_list := cleanup_list fm @ as\<rparr>) dev2) of
                      (dev3, done3) \<Rightarrow> (dev3, todo @ done3))))"

declare vmw_fence_work_func.simps [simp del]

text \<open>
  \<open>vmw_fence_fifo_down\<close>: the last fence of the list is waited for; \<open>waits\<close> gives, per
  round, whether the wait failed (timeout) and the fence register the wait's own updates saw. A
  wait that succeeds has signaled the fence.
\<close>

definition fifo_down_round :: "bool \<times> u32 \<Rightarrow> vmw_private \<Rightarrow> vmw_private kres" where
  "fifo_down_round w dev =
     (let f = last (fence_list (fman dev));
          dev1 = vmw_fences_update_locked [] (mmio_write (snd w) SVGA_FIFO_FENCE dev);
          dev2 = (if fst w
                  then upd_fman (fence_pass f) dev1 else dev1)
      in if f \<in> set (fence_list (fman dev2)) then Inl OOPS else Inr dev2)"

fun fifo_down_loop :: "(bool \<times> u32) list \<Rightarrow> vmw_private \<Rightarrow> vmw_private kres option" where
  "fifo_down_loop ws dev =
     (if fence_list (fman dev) = [] then Some (Inr dev)
      else (case ws of
              [] \<Rightarrow> None
            | w # ws \<Rightarrow>
                (case fifo_down_round w dev of
                   Inl e \<Rightarrow> Some (Inl e)
                 | Inr dev1 \<Rightarrow> fifo_down_loop ws dev1)))"

declare fifo_down_loop.simps [simp del]

definition vmw_fence_fifo_down :: "(bool \<times> u32) list \<Rightarrow> vmw_private \<Rightarrow> vmw_private kres option" where
  "vmw_fence_fifo_down ws dev = fifo_down_loop ws (upd_fman (\<lambda>fm. fm\<lparr>fifo_down := True\<rparr>) dev)"

definition vmw_fence_fifo_up :: "vmw_private \<Rightarrow> vmw_private" where
  "vmw_fence_fifo_up = upd_fman (\<lambda>fm. fm\<lparr>fifo_down := False\<rparr>)"

text \<open>The timeout of \<open>vmw_fence_obj_wait_ioctl\<close>: microseconds to ticks without a 64-bit division.\<close>

definition fence_wait_timeout :: "u64 \<Rightarrow> u64 \<Rightarrow> u64" where
  "fence_wait_timeout hz timeout_us =
     (let wait_timeout = timeout_us * hz
      in drop_bit 20 wait_timeout + drop_bit 24 wait_timeout - drop_bit 26 wait_timeout)"

text \<open>
  \<open>vmw_fence_wait\<close>: one \<open>wait_view\<close> per round of its loop, with the fence register at the
  update, whether a signal is pending, and what is left of the timeout when \<open>schedule_timeout\<close> returns.
\<close>

record wait_view =
  wv_seqno :: u32
  wv_signal :: bool
  wv_left :: nat

abbreviation (input) ERESTARTSYS_code :: int where "ERESTARTSYS_code \<equiv> - 512"

definition vmw_fence_timeout_error :: "nat \<Rightarrow> nat" where
  "vmw_fence_timeout_error timeout = timeout"

fun fence_wait_loop ::
  "wait_view list \<Rightarrow> nat \<Rightarrow> bool \<Rightarrow> nat \<Rightarrow> nat \<Rightarrow> vmw_private \<Rightarrow> (vmw_private \<times> int) option" where
  "fence_wait_loop [] f intr timeout ret dev = None"
| "fence_wait_loop (v # vs) f intr timeout ret dev =
     (let dev1 = vmw_fences_update_locked [] (mmio_write (wv_seqno v) SVGA_FIFO_FENCE dev) in
      if dma_fence_is_signaled (fman dev1) f
      then Some (dev1, if ret = 0 \<and> timeout > 0 then 1 else int ret)
      else if intr \<and> wv_signal v then Some (dev1, ERESTARTSYS_code)
      else if ret = 0 \<and> vmw_fence_timeout_error timeout = 0 then Some (dev1, 0)
      else fence_wait_loop vs f intr timeout (wv_left v) dev1)"

definition vmw_fence_wait ::
  "wait_view list \<Rightarrow> bool \<Rightarrow> nat \<Rightarrow> bool \<Rightarrow> nat \<Rightarrow> vmw_private \<Rightarrow> (vmw_private \<times> int) option" where
  "vmw_fence_wait views sig f intr timeout dev =
     (case vmw_fence_obj_signaled [] f dev of
        (dev1, True) \<Rightarrow> Some (dev1, int timeout)
      | (dev1, False) \<Rightarrow>
          (let dev2 = vmw_seqno_waiter_add (vmw_fifo_ping_host SVGA_SYNC_GENERIC dev1) in
           map_option (\<lambda>(dev3, ret). (vmw_seqno_waiter_remove dev3, ret))
             (if intr \<and> sig then Some (dev2, ERESTARTSYS_code)
              else fence_wait_loop views f intr timeout timeout dev2)))"

section \<open>The effect of an update\<close>

lemma perform_actions_effect:
  "vmw_fences_perform_actions as fm =
     fm\<lparr>pending_actions := (\<lambda>t. pending_actions fm t - of_nat (length (filter (\<lambda>a. fa_type a = t) as))),
        passed_calls := passed_calls fm @ map fa_id (filter fa_seq_passed as),
        cleanup_list := cleanup_list fm @ as\<rparr>"
  by (induction as arbitrary: fm) (auto simp: fun_eq_iff algebra_simps)

lemma fence_pass_simps [simp]:
  "fence_list (fence_pass f fm) = remove1 f (fence_list fm)"
  "fence_objs (fence_pass f fm) = (fence_objs fm)(f := map_option
     (\<lambda>fo. fo\<lparr>fence_signaled := True, seq_passed_actions := []\<rparr>) (fence_objs fm f))"
  "cleanup_list (fence_pass f fm) = cleanup_list fm @ fence_actions fm f"
  "passed_calls (fence_pass f fm) = passed_calls fm @ map fa_id (filter fa_seq_passed (fence_actions fm f))"
  "pending_actions (fence_pass f fm) =
     (\<lambda>t. pending_actions fm t - of_nat (length (filter (\<lambda>a. fa_type a = t) (fence_actions fm f))))"
  "seqno_valid (fence_pass f fm) = seqno_valid fm" "goal_irq_on (fence_pass f fm) = goal_irq_on fm"
  "fifo_down (fence_pass f fm) = fifo_down fm" "num_fence_objects (fence_pass f fm) = num_fence_objects fm"
  "work_scheduled (fence_pass f fm) = work_scheduled fm"
  by (simp_all add: fence_pass_def perform_actions_effect)

lemma seqno_of_fence_pass [simp]: "seqno_of (fence_pass f fm) g = seqno_of fm g"
  by (simp add: seqno_of_def split: option.split)

lemma fence_actions_fence_pass [simp]:
  "fence_actions (fence_pass f fm) g = (if g = f then [] else fence_actions fm g)"
  by (simp add: fence_actions_def split: option.split)

lemma fences_scan_fold:
  "fences_scan s fs fm = fold fence_pass (takeWhile (\<lambda>f. s - seqno_of fm f < VMW_FENCE_WRAP) fs) fm"
  by (induction s fs fm rule: fences_scan.induct) auto

lemma fold_fence_pass_simps:
  "seqno_of (fold fence_pass fs fm) g = seqno_of fm g"
  "fence_list (fold fence_pass fs fm) = fold remove1 fs (fence_list fm)"
  "seqno_valid (fold fence_pass fs fm) = seqno_valid fm" "goal_irq_on (fold fence_pass fs fm) = goal_irq_on fm"
  "fifo_down (fold fence_pass fs fm) = fifo_down fm" "num_fence_objects (fold fence_pass fs fm) = num_fence_objects fm"
  "fence_actions (fold fence_pass fs fm) g = (if g \<in> set fs then [] else fence_actions fm g)"
  "fence_objs (fold fence_pass fs fm) g = (if g \<in> set fs then map_option
     (\<lambda>fo. fo\<lparr>fence_signaled := True, seq_passed_actions := []\<rparr>) (fence_objs fm g) else fence_objs fm g)"
  by (induction fs arbitrary: fm) (auto simp: option.map_comp o_def split: if_splits)

lemma fold_fence_pass_lists:
  assumes "distinct fs"
  shows "cleanup_list (fold fence_pass fs fm) = cleanup_list fm @ concat (map (fence_actions fm) fs)"
    "passed_calls (fold fence_pass fs fm) =
       passed_calls fm @ map fa_id (filter fa_seq_passed (concat (map (fence_actions fm) fs)))"
    "pending_actions (fold fence_pass fs fm) t =
       pending_actions fm t - of_nat (length (filter (\<lambda>a. fa_type a = t) (concat (map (fence_actions fm) fs))))"
proof -
  have eq: "map (fence_actions (fence_pass f fm)) gs = map (fence_actions fm) gs" if "f \<notin> set gs" for f gs and fm
    using that by (auto simp: map_eq_conv)
  show "cleanup_list (fold fence_pass fs fm) = cleanup_list fm @ concat (map (fence_actions fm) fs)"
    using assms by (induction fs arbitrary: fm) (auto simp: eq)
  show "passed_calls (fold fence_pass fs fm) =
       passed_calls fm @ map fa_id (filter fa_seq_passed (concat (map (fence_actions fm) fs)))"
    using assms by (induction fs arbitrary: fm) (auto simp: eq)
  show "pending_actions (fold fence_pass fs fm) t =
       pending_actions fm t - of_nat (length (filter (\<lambda>a. fa_type a = t) (concat (map (fence_actions fm) fs))))"
    using assms by (induction fs arbitrary: fm) (auto simp: eq diff_diff_eq)
qed

lemma fold_remove1_append: "distinct (fs @ gs) \<Longrightarrow> fold remove1 fs (fs @ gs) = gs"
  by (induction fs) auto

lemma fences_scan_list:
  assumes "distinct (fence_list fm)"
  shows "fence_list (fences_scan s (fence_list fm) fm) = dropWhile (\<lambda>f. s - seqno_of fm f < VMW_FENCE_WRAP) (fence_list fm)"
  using fold_remove1_append[of "takeWhile (\<lambda>f. s - seqno_of fm f < VMW_FENCE_WRAP) (fence_list fm)"
      "dropWhile (\<lambda>f. s - seqno_of fm f < VMW_FENCE_WRAP) (fence_list fm)"] assms
  by (simp add: fences_scan_fold fold_fence_pass_simps)

section \<open>Well-formed fence managers\<close>

definition attached :: "vmw_fence_manager \<Rightarrow> vmw_fence_action list" where
  "attached fm = concat (map (fence_actions fm) (fence_list fm))"

definition fman_inv :: "vmw_fence_manager \<Rightarrow> bool" where
  \<comment> \<open>the list holds exactly the objects that can still be signaled, and the action counts are right\<close>
  "fman_inv fm \<longleftrightarrow> distinct (fence_list fm) \<and>
     list_all (\<lambda>f. \<exists>fo. fence_objs fm f = Some fo \<and> \<not> fence_signaled fo) (fence_list fm) \<and>
     (\<forall>f. f \<notin> set (fence_list fm) \<longrightarrow> fence_actions fm f = []) \<and>
     (\<forall>t. pending_actions fm t = of_nat (length (filter (\<lambda>a. fa_type a = t) (attached fm))))"

definition in_window :: "u32 \<Rightarrow> vmw_fence_manager \<Rightarrow> bool" where
  \<comment> \<open>the fences were submitted in the order of their sequence numbers, from \<open>base\<close> on\<close>
  "in_window base fm \<longleftrightarrow>
     sorted_wrt (\<lambda>f g. seq_dist base (seqno_of fm f) < seq_dist base (seqno_of fm g)) (fence_list fm) \<and>
     (\<forall>f \<in> set (fence_list fm). seq_dist base (seqno_of fm f) < 2 ^ 31)"

definition goal_armed :: "vmw_private \<Rightarrow> bool" where
  \<comment> \<open>the goal is valid while actions are pending, and is then the sequence number of one of their fences\<close>
  "goal_armed dev \<longleftrightarrow>
     (attached (fman dev) \<noteq> [] \<longrightarrow> seqno_valid (fman dev)) \<and>
     (seqno_valid (fman dev) \<longrightarrow> (\<exists>f \<in> set (fence_list (fman dev)).
        fence_actions (fman dev) f \<noteq> [] \<and> mmio dev SVGA_FIFO_FENCE_GOAL = seqno_of (fman dev) f))"

lemma fman_invD:
  assumes "fman_inv fm"
  shows "distinct (fence_list fm)"
    and "f \<in> set (fence_list fm) \<Longrightarrow> \<exists>fo. fence_objs fm f = Some fo \<and> \<not> fence_signaled fo"
    and "f \<notin> set (fence_list fm) \<Longrightarrow> fence_actions fm f = []"
    and "pending_actions fm t = of_nat (length (filter (\<lambda>a. fa_type a = t) (attached fm)))"
  using assms by (auto simp: fman_inv_def list_all_iff)

lemma in_window_scan:
  assumes "in_window base fm" "seq_dist base s < 2 ^ 31"
  shows "takeWhile (\<lambda>f. s - seqno_of fm f < VMW_FENCE_WRAP) (fence_list fm) =
           filter (\<lambda>f. seq_dist base (seqno_of fm f) \<le> seq_dist base s) (fence_list fm)"
    "dropWhile (\<lambda>f. s - seqno_of fm f < VMW_FENCE_WRAP) (fence_list fm) =
           filter (\<lambda>f. seq_dist base s < seq_dist base (seqno_of fm f)) (fence_list fm)"
  using assms fence_win.dropWhile_passed[of base "seqno_of fm" "fence_list fm" s] fence_win.passed_iff[of base s]
  by (auto simp: in_window_def not_le[symmetric] intro!: filter_cong)

lemma fences_scan_inv:
  assumes inv: "fman_inv fm"
  shows "fman_inv (fences_scan s (fence_list fm) fm)"
proof -
  define fm' where "fm' = fences_scan s (fence_list fm) fm"
  let ?P = "\<lambda>f. s - seqno_of fm f < VMW_FENCE_WRAP"
  let ?t = "takeWhile ?P (fence_list fm)" and ?d = "dropWhile ?P (fence_list fm)"
  have td: "?t @ ?d = fence_list fm" by simp
  have dist: "distinct (?t @ ?d)" using fman_invD(1)[OF inv] by simp
  have dt: "distinct ?t" using fman_invD(1)[OF inv] by simp
  have disj: "f \<in> set ?d \<Longrightarrow> f \<notin> set ?t" for f
    using dist unfolding distinct_append by blast
  have fm': "fm' = fold fence_pass ?t fm" by (simp add: fm'_def fences_scan_fold)
  have l: "fence_list fm' = ?d" using fences_scan_list[OF fman_invD(1)[OF inv]] by (simp add: fm'_def)
  have act: "map (fence_actions fm') ?d = map (fence_actions fm) ?d"
    using disj by (auto simp: fm' fold_fence_pass_simps)
  have split: "attached fm = concat (map (fence_actions fm) ?t) @ attached fm'"
    unfolding attached_def l act by (metis td concat_append map_append)
  have "fence_actions fm' f = []" if "f \<notin> set ?d" for f
    using that fman_invD(3)[OF inv, of f] td by (auto simp: fm' fold_fence_pass_simps) (metis Un_iff set_append td)
  moreover have "\<exists>fo. fence_objs fm' f = Some fo \<and> \<not> fence_signaled fo" if "f \<in> set ?d" for f
    using that fman_invD(2)[OF inv, of f] disj[OF that] td by (auto simp: fm' fold_fence_pass_simps dest: set_dropWhileD)
  moreover have "pending_actions fm' t = of_nat (length (filter (\<lambda>a. fa_type a = t) (attached fm')))" for t
    using fman_invD(4)[OF inv, of t] fold_fence_pass_lists(3)[OF dt, of fm t] by (simp add: split fm')
  ultimately have "fman_inv fm'"
    using dist by (auto simp: fman_inv_def l list_all_iff)
  then show ?thesis by (simp add: fm'_def)
qed

lemma attached_Nil_iff: "attached fm = [] \<longleftrightarrow> (\<forall>f \<in> set (fence_list fm). fence_actions fm f = [])"
  by (simp add: attached_def)

lemma attached_seqno_valid [simp]: "attached (fm\<lparr>seqno_valid := b\<rparr>) = attached fm"
  by (simp add: attached_def fence_actions_def cong: map_cong)

lemma seqno_valid_frame [simp]:
  "fence_actions (fm\<lparr>seqno_valid := b\<rparr>) f = fence_actions fm f"
  "seqno_of (fm\<lparr>seqno_valid := b\<rparr>) f = seqno_of fm f"
  "in_window base (fm\<lparr>seqno_valid := b\<rparr>) = in_window base fm"
  by (simp_all add: fence_actions_def seqno_of_def in_window_def)

lemma fman_inv_seqno_valid [simp]: "fman_inv (fm\<lparr>seqno_valid := b\<rparr>) = fman_inv fm"
  by (simp add: fman_inv_def)

lemma fold_fence_pass_seqno_valid:
  "fold fence_pass fs (fm\<lparr>seqno_valid := b\<rparr>) = (fold fence_pass fs fm)\<lparr>seqno_valid := b\<rparr>"
proof (induction fs arbitrary: fm)
  case (Cons f fs)
  have "fence_pass f (fm\<lparr>seqno_valid := b\<rparr>) = (fence_pass f fm)\<lparr>seqno_valid := b\<rparr>"
    by (simp add: fence_pass_def perform_actions_effect)
  then show ?case by (simp only: fold_Cons o_apply Cons.IH)
qed simp

lemma filter_two_bounds:
  fixes d :: "'a \<Rightarrow> nat"
  assumes "sorted_wrt (\<lambda>f g. d f < d g) xs" "a \<le> b"
  shows "filter (\<lambda>x. d x \<le> a) xs @ filter (\<lambda>x. d x \<le> b) (filter (\<lambda>x. a < d x) xs) = filter (\<lambda>x. d x \<le> b) xs"
  using assms
proof (induction xs)
  case (Cons x xs)
  show ?case
  proof (cases "d x \<le> a")
    case False
    then have "\<forall>y \<in> set xs. a < d y" using Cons.prems by auto
    then have "filter (\<lambda>x. d x \<le> a) xs = []" "filter (\<lambda>x. a < d x) xs = xs"
      by (auto simp: filter_empty_conv filter_id_conv not_le)
    with False show ?thesis by auto
  qed (use Cons in auto)
qed simp

lemma filter_sorted_split:
  fixes d :: "'a \<Rightarrow> nat"
  assumes "sorted_wrt (\<lambda>f g. d f < d g) xs"
  shows "filter (\<lambda>x. d x \<le> a) xs @ filter (\<lambda>x. a < d x) xs = xs"
  using assms
proof (induction xs)
  case (Cons x xs)
  show ?case
  proof (cases "d x \<le> a")
    case False
    then have "\<forall>y \<in> set xs. a < d y" using Cons.prems by auto
    then have "filter (\<lambda>x. d x \<le> a) xs = []" "filter (\<lambda>x. a < d x) xs = xs"
      by (auto simp: filter_empty_conv filter_id_conv not_le)
    with False show ?thesis by auto
  qed (use Cons in auto)
qed simp

text \<open>The part of the manager that one pass over the list leaves unchanged, and the goal it computes.\<close>

definition scanned :: "u32 \<Rightarrow> vmw_private \<Rightarrow> vmw_private" where
  "scanned s dev = upd_fman (\<lambda>fm. fences_scan s (fence_list fm) fm) dev"

lemma scanned_mmio [simp]: "mmio (scanned s dev) = mmio dev"
  by (simp add: scanned_def)

lemma goal_new_cases:
  obtains (keep) "vmw_fence_goal_new_locked s dev = (dev, False)"
      "\<not> seqno_valid (fman dev) \<or> \<not> s - mmio dev SVGA_FIFO_FENCE_GOAL < VMW_FENCE_WRAP"
  | (none) "vmw_fence_goal_new_locked s dev = (upd_fman (\<lambda>fm. fm\<lparr>seqno_valid := False\<rparr>) dev, True)"
      "attached (fman dev) = []" "seqno_valid (fman dev)" "s - mmio dev SVGA_FIFO_FENCE_GOAL < VMW_FENCE_WRAP"
  | (new) f where "vmw_fence_goal_new_locked s dev = (mmio_write (seqno_of (fman dev) f) SVGA_FIFO_FENCE_GOAL
        (upd_fman (\<lambda>fm. fm\<lparr>seqno_valid := True\<rparr>) dev), True)"
      "f \<in> set (fence_list (fman dev))" "fence_actions (fman dev) f \<noteq> []"
      "seqno_valid (fman dev)" "s - mmio dev SVGA_FIFO_FENCE_GOAL < VMW_FENCE_WRAP"
proof (cases "seqno_valid (fman dev) \<and> s - mmio dev SVGA_FIFO_FENCE_GOAL < VMW_FENCE_WRAP")
  case True
  show ?thesis
  proof (cases "find (\<lambda>f. fence_actions (fman dev) f \<noteq> []) (fence_list (fman dev))")
    case None
    then have "attached (fman dev) = []" by (auto simp: attached_Nil_iff find_None_iff)
    with None True show ?thesis
      by (intro none) (simp_all add: vmw_fence_goal_new_locked_def not_le)
  next
    case (Some f)
    then have "f \<in> set (fence_list (fman dev))" "fence_actions (fman dev) f \<noteq> []"
      by (auto simp: find_Some_iff)
    with Some True show ?thesis
      by (intro new[of f]) (simp_all add: vmw_fence_goal_new_locked_def not_le)
  qed
next
  case False
  then show ?thesis by (intro keep) (auto simp: vmw_fence_goal_new_locked_def not_le)
qed

lemma goal_armed_after_goal_new:
  assumes armed: "goal_armed dev" and win: "in_window base (fman dev)" and inv: "fman_inv (fman dev)"
    and s: "seq_dist base s < 2 ^ 31" and run: "vmw_fence_goal_new_locked s (scanned s dev) = (dev', b)"
  shows "goal_armed dev'"
proof -
  let ?fm = "fman dev" and ?fm1 = "fman (scanned s dev)"
  let ?P = "\<lambda>f. s - seqno_of ?fm f < VMW_FENCE_WRAP"
  have l: "fence_list ?fm1 = dropWhile ?P (fence_list ?fm)"
    using fences_scan_list[OF fman_invD(1)[OF inv]] by (simp add: scanned_def)
  have act: "fence_actions ?fm1 f = fence_actions ?fm f" if "f \<in> set (fence_list ?fm1)" for f
  proof -
    have "f \<notin> set (takeWhile ?P (fence_list ?fm))"
      using that in_window_scan(1,2)[OF win s] unfolding l by auto
    then show ?thesis by (simp add: scanned_def fences_scan_fold fold_fence_pass_simps)
  qed
  have sq: "seqno_of ?fm1 f = seqno_of ?fm f" for f
    by (simp add: scanned_def fences_scan_fold fold_fence_pass_simps)
  have kept: "goal_armed (scanned s dev)"
    if "\<not> seqno_valid ?fm1 \<or> \<not> s - mmio dev SVGA_FIFO_FENCE_GOAL < VMW_FENCE_WRAP"
    unfolding goal_armed_def
  proof (intro conjI impI)
    have v: "seqno_valid ?fm1 = seqno_valid ?fm" by (simp add: scanned_def fences_scan_fold fold_fence_pass_simps)
    show "seqno_valid ?fm1" if "attached ?fm1 \<noteq> []"
      using that armed act l v by (auto simp: attached_Nil_iff goal_armed_def dest: set_dropWhileD)
    assume v1: "seqno_valid ?fm1"
    with armed v obtain f where f: "f \<in> set (fence_list ?fm)" "fence_actions ?fm f \<noteq> []"
        "mmio dev SVGA_FIFO_FENCE_GOAL = seqno_of ?fm f" by (auto simp: goal_armed_def)
    have f1: "f \<in> set (fence_list ?fm1)"
      using that v1 f win s fence_win.passed_iff[of base s "seqno_of ?fm f"]
      unfolding l in_window_scan(2)[OF win s] by (auto simp: in_window_def)
    show "\<exists>f\<in>set (fence_list ?fm1). fence_actions ?fm1 f \<noteq> [] \<and>
        mmio (scanned s dev) SVGA_FIFO_FENCE_GOAL = seqno_of ?fm1 f"
      using f1 act[OF f1] f sq[of f] by (intro bexI[of _ f]) simp_all
  qed
  show ?thesis
  proof (cases rule: goal_new_cases[of s "scanned s dev"])
    case keep
    from keep(1) run have "dev' = scanned s dev" by simp
    then show ?thesis using kept keep(2) by simp
  qed (use run in \<open>auto simp: goal_armed_def\<close>)
qed

definition window_reads :: "u32 \<Rightarrow> u32 list \<Rightarrow> bool" where
  \<comment> \<open>the fence register only advances, and stays within the window\<close>
  "window_reads base rs \<longleftrightarrow> sorted (map (seq_dist base) rs) \<and> (\<forall>r \<in> set rs. seq_dist base r < 2 ^ 31)"

definition passed_fences :: "u32 \<Rightarrow> u32 \<Rightarrow> vmw_fence_manager \<Rightarrow> nat list" where
  "passed_fences base s fm = filter (\<lambda>f. seq_dist base (seqno_of fm f) \<le> seq_dist base s) (fence_list fm)"

lemma scanned_fman:
  assumes "in_window base (fman dev)" "seq_dist base s < 2 ^ 31"
  shows "fman (scanned s dev) = fold fence_pass (passed_fences base s (fman dev)) (fman dev)"
  using in_window_scan(1)[OF assms] by (simp add: scanned_def fences_scan_fold passed_fences_def)

lemma scanned_list:
  assumes "in_window base (fman dev)" "seq_dist base s < 2 ^ 31" "fman_inv (fman dev)"
  shows "fence_list (fman (scanned s dev)) =
    filter (\<lambda>f. seq_dist base s < seq_dist base (seqno_of (fman dev) f)) (fence_list (fman dev))"
  using in_window_scan(2)[OF assms(1,2)] fences_scan_list[OF fman_invD(1)[OF assms(3)]] by (simp add: scanned_def)

lemma scanned_keeps:
  assumes "in_window base (fman dev)" "seq_dist base s < 2 ^ 31" "fman_inv (fman dev)"
  shows "in_window base (fman (scanned s dev))" "fman_inv (fman (scanned s dev))"
proof -
  have sq: "seqno_of (fman (scanned s dev)) f = seqno_of (fman dev) f" for f
    by (simp add: scanned_def fences_scan_fold fold_fence_pass_simps)
  show "in_window base (fman (scanned s dev))"
    using assms(1) unfolding in_window_def sq scanned_list[OF assms] by (auto intro: sorted_wrt_filter)
  show "fman_inv (fman (scanned s dev))"
    using fences_scan_inv[OF assms(3)] by (simp add: scanned_def)
qed

text \<open>One pass, the new goal included, changes the manager as the passed fences say, and its goal flag.\<close>

lemma goal_new_frame:
  assumes "vmw_fence_goal_new_locked s dev = (dev', b)"
  shows "\<exists>v. fman dev' = (fman dev)\<lparr>seqno_valid := v\<rparr>" "mmio dev' SVGA_FIFO_FENCE = mmio dev SVGA_FIFO_FENCE"
proof -
  have "\<exists>v. fman dev = (fman dev)\<lparr>seqno_valid := v\<rparr>" by (rule exI[of _ "seqno_valid (fman dev)"]) simp
  then show "\<exists>v. fman dev' = (fman dev)\<lparr>seqno_valid := v\<rparr>"
    using assms by (cases rule: goal_new_cases[of s dev]) auto
  show "mmio dev' SVGA_FIFO_FENCE = mmio dev SVGA_FIFO_FENCE"
    using assms by (cases rule: goal_new_cases[of s dev]) auto
qed

lemma fences_rerun_step:
  "fences_rerun rereads s dev =
     (case vmw_fence_goal_new_locked s (scanned s dev) of
        (dev2, False) \<Rightarrow> dev2
      | (dev2, True) \<Rightarrow>
          (case rereads of [] \<Rightarrow> dev2
           | r # rest \<Rightarrow> (let dev3 = mmio_write r SVGA_FIFO_FENCE dev2 in
                          if r \<noteq> s then fences_rerun rest r dev3 else dev3)))"
  by (subst fences_rerun.simps) (auto simp: scanned_def Let_def split: prod.split list.split bool.split)

definition update_effect :: "u32 \<Rightarrow> vmw_private \<Rightarrow> vmw_private \<Rightarrow> bool" where
  "update_effect base dev dev' \<longleftrightarrow>
     (\<exists>v. fman dev' = (fold fence_pass (passed_fences base (mmio dev' SVGA_FIFO_FENCE) (fman dev)) (fman dev))\<lparr>seqno_valid := v\<rparr>) \<and>
     goal_armed dev' \<and> fman_inv (fman dev') \<and> in_window base (fman dev')"

lemma update_effectD:
  assumes "update_effect base dev d"
  shows "goal_armed d" "fman_inv (fman d)" "in_window base (fman d)"
  using assms by (simp_all add: update_effect_def)

lemma update_effect_one:
  assumes "in_window base (fman dev)" "fman_inv (fman dev)" "goal_armed dev" "seq_dist base s < 2 ^ 31"
    and "vmw_fence_goal_new_locked s (scanned s dev) = (dev', b)" "mmio dev SVGA_FIFO_FENCE = s"
  shows "update_effect base dev dev'"
proof -
  obtain v where v: "fman dev' = (fman (scanned s dev))\<lparr>seqno_valid := v\<rparr>"
    and r: "mmio dev' SVGA_FIFO_FENCE = s"
    using goal_new_frame[OF assms(5)] assms(6) by auto
  have "goal_armed dev'" using goal_armed_after_goal_new[OF assms(3,1,2,4,5)] .
  then show ?thesis
    using scanned_fman[OF assms(1,4)] scanned_keeps[OF assms(1,4,2)] r
    by (auto simp: update_effect_def v)
qed

lemma update_effect_trans:
  assumes e: "update_effect base dev d2" and e': "update_effect base d2 d3"
    and le: "seq_dist base (mmio d2 SVGA_FIFO_FENCE) \<le> seq_dist base (mmio d3 SVGA_FIFO_FENCE)"
    and win: "in_window base (fman dev)" and inv: "fman_inv (fman dev)"
    and s: "seq_dist base (mmio d2 SVGA_FIFO_FENCE) < 2 ^ 31"
  shows "update_effect base dev d3"
proof -
  let ?s = "mmio d2 SVGA_FIFO_FENCE" and ?r = "mmio d3 SVGA_FIFO_FENCE"
  let ?d = "\<lambda>f. seq_dist base (seqno_of (fman dev) f)"
  obtain v where v: "fman d2 = (fold fence_pass (passed_fences base ?s (fman dev)) (fman dev))\<lparr>seqno_valid := v\<rparr>"
    using e by (auto simp: update_effect_def)
  obtain w where w: "fman d3 = (fold fence_pass (passed_fences base ?r (fman d2)) (fman d2))\<lparr>seqno_valid := w\<rparr>"
    using e' by (auto simp: update_effect_def)
  have l: "fence_list (fman d2) = filter (\<lambda>f. seq_dist base ?s < ?d f) (fence_list (fman dev))"
    using scanned_list[OF win s inv] scanned_fman[OF win s] by (simp add: v)
  define p2 where "p2 = passed_fences base ?r (fman d2)"
  have app: "passed_fences base ?s (fman dev) @ p2 = passed_fences base ?r (fman dev)"
    using filter_two_bounds[of ?d "fence_list (fman dev)"] win le
    by (simp add: p2_def passed_fences_def l in_window_def) (simp add: v fold_fence_pass_simps)
  have "fman d3 = (fold fence_pass p2 ((fold fence_pass (passed_fences base ?s (fman dev)) (fman dev))\<lparr>seqno_valid := v\<rparr>))\<lparr>seqno_valid := w\<rparr>"
    unfolding w p2_def[symmetric] by (simp only: v)
  also have "\<dots> = (fold fence_pass (passed_fences base ?s (fman dev) @ p2) (fman dev))\<lparr>seqno_valid := w\<rparr>"
    by (simp add: fold_fence_pass_seqno_valid)
  finally have "fman d3 = (fold fence_pass (passed_fences base ?r (fman dev)) (fman dev))\<lparr>seqno_valid := w\<rparr>"
    by (simp only: app)
  with e' show ?thesis by (auto simp: update_effect_def)
qed

lemma fman_mmio_write [simp]: "goal_armed (mmio_write r SVGA_FIFO_FENCE dev) = goal_armed dev"
  by (simp add: goal_armed_def)

lemma fences_rerun_effect:
  assumes "in_window base (fman dev)" "fman_inv (fman dev)" "goal_armed dev"
    and "window_reads base (s # rereads)" "mmio dev SVGA_FIFO_FENCE = s"
  shows "update_effect base dev (fences_rerun rereads s dev) \<and>
    seq_dist base s \<le> seq_dist base (mmio (fences_rerun rereads s dev) SVGA_FIFO_FENCE)"
  using assms
proof (induction rereads arbitrary: s dev)
  case Nil
  obtain d2 b where g: "vmw_fence_goal_new_locked s (scanned s dev) = (d2, b)" by (cases "vmw_fence_goal_new_locked s (scanned s dev)")
  have s: "seq_dist base s < 2 ^ 31" using Nil.prems by (simp add: window_reads_def)
  have "mmio d2 SVGA_FIFO_FENCE = s" using goal_new_frame(2)[OF g] Nil.prems by simp
  then show ?case
    using update_effect_one[OF Nil.prems(1-3) s g Nil.prems(5)] g
    by (auto simp: fences_rerun_step[of _ s dev] split: bool.split)
next
  case (Cons r rest)
  obtain d2 b where g: "vmw_fence_goal_new_locked s (scanned s dev) = (d2, b)" by (cases "vmw_fence_goal_new_locked s (scanned s dev)")
  have s: "seq_dist base s < 2 ^ 31" "seq_dist base s \<le> seq_dist base r"
    and wr: "window_reads base (r # rest)"
    using Cons.prems by (auto simp: window_reads_def)
  have m2: "mmio d2 SVGA_FIFO_FENCE = s" using goal_new_frame(2)[OF g] Cons.prems by simp
  note e = update_effect_one[OF Cons.prems(1-3) s(1) g Cons.prems(5)]
  let ?d3 = "mmio_write r SVGA_FIFO_FENCE d2"
  show ?case
  proof (cases "b \<and> r \<noteq> s")
    case True
    have run: "fences_rerun (r # rest) s dev = fences_rerun rest r ?d3"
      using g True by (simp add: fences_rerun_step[of _ s dev])
    have ih: "update_effect base ?d3 (fences_rerun rest r ?d3)"
      "seq_dist base r \<le> seq_dist base (mmio (fences_rerun rest r ?d3) SVGA_FIFO_FENCE)"
      using Cons.IH[of ?d3 r] e wr by (auto simp: update_effect_def)
    then have "update_effect base d2 (fences_rerun rest r ?d3)" by (simp add: update_effect_def)
    then show ?thesis
      using update_effect_trans[OF e, of "fences_rerun rest r ?d3"] Cons.prems m2 s ih(2) run by simp
  next
    case False
    have same: "mmio_write s SVGA_FIFO_FENCE d2 = d2"
      using m2 by (cases d2) (simp add: fun_upd_idem)
    have "fences_rerun (r # rest) s dev = d2"
      using g False same by (auto simp: fences_rerun_step[of _ s dev] split: bool.split)
    with e m2 show ?thesis by simp
  qed
qed

lemma vmw_fences_update_effect:
  assumes "in_window base (fman dev)" "fman_inv (fman dev)" "goal_armed dev"
    and "window_reads base (mmio dev SVGA_FIFO_FENCE # rereads)"
  obtains d where "update_effect base dev d" "mmio (vmw_fences_update rereads dev) = mmio d"
    "\<exists>b. fman (vmw_fences_update rereads dev) = (fman d)\<lparr>work_scheduled := b\<rparr>"
    "seq_dist base (mmio dev SVGA_FIFO_FENCE) \<le> seq_dist base (mmio d SVGA_FIFO_FENCE)"
proof -
  let ?d = "fences_rerun rereads (mmio dev SVGA_FIFO_FENCE) dev"
  have "\<exists>b. fman ?d = (fman ?d)\<lparr>work_scheduled := b\<rparr>" by (rule exI[of _ "work_scheduled (fman ?d)"]) simp
  then show ?thesis
    using fences_rerun_effect[OF assms refl]
    by (intro that[of ?d]) (auto simp: vmw_fences_update_def vmw_fences_update_locked_def Let_def)
qed

lemma work_scheduled_frame [simp]:
  "fence_actions (fm\<lparr>work_scheduled := b\<rparr>) f = fence_actions fm f"
  "seqno_of (fm\<lparr>work_scheduled := b\<rparr>) f = seqno_of fm f"
  "dma_fence_is_signaled (fm\<lparr>work_scheduled := b\<rparr>) f = dma_fence_is_signaled fm f"
  "in_window base (fm\<lparr>work_scheduled := b\<rparr>) = in_window base fm"
  by (simp_all add: fence_actions_def seqno_of_def in_window_def dma_fence_is_signaled_def)

lemma attached_work_scheduled [simp]: "attached (fm\<lparr>work_scheduled := b\<rparr>) = attached fm"
  by (simp add: attached_def fence_actions_def cong: map_cong)

lemma fman_inv_work_scheduled [simp]: "fman_inv (fm\<lparr>work_scheduled := b\<rparr>) = fman_inv fm"
  by (simp add: fman_inv_def)

lemma goal_armed_cong:
  assumes "mmio d' = mmio d" "fman d' = (fman d)\<lparr>work_scheduled := b\<rparr>"
  shows "goal_armed d' = goal_armed d"
  using assms by (simp add: goal_armed_def)

lemma dma_fence_is_signaled_pass:
  "dma_fence_is_signaled ((fold fence_pass fs fm)\<lparr>seqno_valid := v\<rparr>) f \<longleftrightarrow>
     (f \<in> set fs \<and> fence_objs fm f \<noteq> None) \<or> dma_fence_is_signaled fm f"
  by (auto simp: dma_fence_is_signaled_def fold_fence_pass_simps split: option.split)

lemma update_effect_facts:
  assumes "update_effect base dev d" "in_window base (fman dev)" "fman_inv (fman dev)"
  defines "p \<equiv> passed_fences base (mmio d SVGA_FIFO_FENCE) (fman dev)"
  shows "fence_list (fman d) = filter (\<lambda>f. seq_dist base (mmio d SVGA_FIFO_FENCE) <
           seq_dist base (seqno_of (fman dev) f)) (fence_list (fman dev))"
    "fence_list (fman dev) = p @ fence_list (fman d)"
    "dma_fence_is_signaled (fman d) f \<longleftrightarrow> dma_fence_is_signaled (fman dev) f \<or> f \<in> set p"
    "cleanup_list (fman d) = cleanup_list (fman dev) @ concat (map (fence_actions (fman dev)) p)"
    "passed_calls (fman d) = passed_calls (fman dev) @ map fa_id (filter fa_seq_passed
       (concat (map (fence_actions (fman dev)) p)))"
    "f \<in> set (fence_list (fman d)) \<Longrightarrow> fence_actions (fman d) f = fence_actions (fman dev) f"
    "seqno_of (fman d) f = seqno_of (fman dev) f"
proof -
  let ?l = "fence_list (fman dev)"
  let ?q = "filter (\<lambda>f. seq_dist base (mmio d SVGA_FIFO_FENCE) < seq_dist base (seqno_of (fman dev) f)) ?l"
  obtain v where v: "fman d = (fold fence_pass p (fman dev))\<lparr>seqno_valid := v\<rparr>"
    using assms(1) by (auto simp: update_effect_def p_def)
  have l: "p @ ?q = ?l"
    using assms(2) filter_sorted_split[of "\<lambda>f. seq_dist base (seqno_of (fman dev) f)" ?l]
    by (simp add: in_window_def passed_fences_def p_def)
  have dist: "distinct (p @ ?q)" using fman_invD(1)[OF assms(3)] by (simp only: l)
  then have "fold remove1 p ?l = ?q" using fold_remove1_append[OF dist] by (simp only: l)
  then show ql: "fence_list (fman d) = ?q" by (simp add: v fold_fence_pass_simps)
  show "?l = p @ fence_list (fman d)" using l ql by simp
  have dp: "distinct p" using dist by simp
  have fo: "fence_objs (fman dev) f \<noteq> None" if "f \<in> set p"
    using that fman_invD(2)[OF assms(3), of f] l by (metis Un_iff option.distinct(1) set_append)
  show "dma_fence_is_signaled (fman d) f \<longleftrightarrow> dma_fence_is_signaled (fman dev) f \<or> f \<in> set p"
    using fo dma_fence_is_signaled_pass[of v p "fman dev" f] by (auto simp: v)
  show "cleanup_list (fman d) = cleanup_list (fman dev) @ concat (map (fence_actions (fman dev)) p)"
    "passed_calls (fman d) = passed_calls (fman dev) @ map fa_id (filter fa_seq_passed
       (concat (map (fence_actions (fman dev)) p)))"
    using fold_fence_pass_lists(1,2)[OF dp, of "fman dev"] by (simp_all add: v)
  show "f \<in> set (fence_list (fman d)) \<Longrightarrow> fence_actions (fman d) f = fence_actions (fman dev) f"
    using dist unfolding ql by (auto simp: v fold_fence_pass_simps)
  show "seqno_of (fman d) f = seqno_of (fman dev) f" by (simp add: v fold_fence_pass_simps)
qed

text \<open>
  C10: \<open>vmw_fences_update\<close> is exact. With the fences submitted in the order of their sequence
  numbers, less than \<open>2 ^ 31\<close> apart (across the wrap-around of the 32-bit counter too), and a
  fence register that only advances, the fences that stay on the list are exactly those the last value
  read has not reached; all others of the list are signaled, and no further one is; the actions of the
  signaled fences have been run once, in order, and handed to the cleanup worker. The manager stays
  well-formed (in particular the counts of pending actions), and while actions are still
  attached the fence goal is valid and equal to the sequence number of a fence that has some.
\<close>
theorem vmw_fences_update_exact:
  assumes "fman_inv (fman dev)" "in_window base (fman dev)" "goal_armed dev"
    and "window_reads base (mmio dev SVGA_FIFO_FENCE # rereads)"
    and "dev' = vmw_fences_update rereads dev" and "s = mmio dev' SVGA_FIFO_FENCE"
  shows "fence_list (fman dev') =
      filter (\<lambda>f. seq_dist base s < seq_dist base (seqno_of (fman dev) f)) (fence_list (fman dev)) \<and>
    (\<forall>f. dma_fence_is_signaled (fman dev') f \<longleftrightarrow>
       dma_fence_is_signaled (fman dev) f \<or> f \<in> set (passed_fences base s (fman dev))) \<and>
    cleanup_list (fman dev') = cleanup_list (fman dev) @
      concat (map (fence_actions (fman dev)) (passed_fences base s (fman dev))) \<and>
    passed_calls (fman dev') = passed_calls (fman dev) @ map fa_id (filter fa_seq_passed
      (concat (map (fence_actions (fman dev)) (passed_fences base s (fman dev))))) \<and>
    fman_inv (fman dev') \<and> in_window base (fman dev') \<and> goal_armed dev'"
proof -
  obtain d b where e: "update_effect base dev d" and mm: "mmio dev' = mmio d"
    and fm: "fman dev' = (fman d)\<lparr>work_scheduled := b\<rparr>"
    and le: "seq_dist base (mmio dev SVGA_FIFO_FENCE) \<le> seq_dist base (mmio d SVGA_FIFO_FENCE)"
    using vmw_fences_update_effect[OF assms(2,1,3,4)] assms(5) by metis
  note facts = update_effect_facts[OF e assms(2,1)]
  have s: "mmio d SVGA_FIFO_FENCE = s" using mm assms(6) by simp
  have "goal_armed dev'" using goal_armed_cong[OF mm fm] e by (simp add: update_effect_def)
  moreover have "fman_inv (fman dev')" "in_window base (fman dev')" using e by (simp_all add: fm update_effect_def)
  ultimately show ?thesis
    using facts(1,3,4,5) by (simp add: fm s)
qed

text \<open>Three fences around the wrap-around of the counter, the second and the third with an action.\<close>

definition three_fences :: vmw_private where
  "three_fences = idle_dev\<lparr>
     mmio := (\<lambda>i. if i = SVGA_FIFO_FENCE then 0xFFFFFFFF else if i = SVGA_FIFO_FENCE_GOAL then 0xFFFFFFFF else 0),
     fman := idle_fman\<lparr>fence_list := [10, 11, 12],
       fence_objs := [10 \<mapsto> \<lparr>fence_seqno = 0xFFFFFFFE, fence_signaled = False, seq_passed_actions = []\<rparr>,
                      11 \<mapsto> \<lparr>fence_seqno = 0xFFFFFFFF, fence_signaled = False,
                             seq_passed_actions = [\<lparr>fa_id = 70, fa_type = 0, fa_seq_passed = True\<rparr>]\<rparr>,
                      12 \<mapsto> \<lparr>fence_seqno = 1, fence_signaled = False,
                             seq_passed_actions = [\<lparr>fa_id = 71, fa_type = 0, fa_seq_passed = True\<rparr>]\<rparr>],
       pending_actions := (\<lambda>t. if t = 0 then 2 else 0), seqno_valid := True\<rparr>\<rparr>"

lemma three_fences_ok:
  "fman_inv (fman three_fences)" "in_window 0xFFFFFFF0 (fman three_fences)" "goal_armed three_fences"
  by (simp_all add: three_fences_def idle_dev_eval fman_inv_def in_window_def goal_armed_def attached_def
      fence_actions_def seqno_of_def seq_dist_def)

text \<open>Witness: the register at the second fence, then past it by one when it is read again.\<close>
theorem vmw_fences_update_exact_witness:
  "fence_list (fman (vmw_fences_update [0] three_fences)) = [12] \<and>
   passed_calls (fman (vmw_fences_update [0] three_fences)) = [70] \<and>
   goal_armed (vmw_fences_update [0] three_fences)"
proof -
  have s: "mmio (vmw_fences_update [0] three_fences) SVGA_FIFO_FENCE = 0"
    by (simp add: three_fences_def idle_dev_eval vmw_fences_update_def vmw_fences_update_locked_def
        fences_rerun.simps vmw_fence_goal_new_locked_def seqno_of_def fence_actions_def fence_pass_def)
  have "window_reads 0xFFFFFFF0 [mmio three_fences SVGA_FIFO_FENCE, 0]"
    by (simp add: three_fences_def window_reads_def seq_dist_def)
  from vmw_fences_update_exact[OF three_fences_ok this refl refl] show ?thesis
    unfolding s by (simp add: three_fences_def idle_dev_eval passed_fences_def seqno_of_def seq_dist_def fence_actions_def)
qed

section \<open>The rerun loop ends\<close>

lemma scanned_shrinks:
  assumes "in_window base (fman dev)" "seq_dist base s < 2 ^ 31" "fman_inv (fman dev)"
    and "f \<in> set (fence_list (fman dev))" "s - seqno_of (fman dev) f < VMW_FENCE_WRAP"
  shows "length (fence_list (fman (scanned s dev))) < length (fence_list (fman dev))"
proof -
  have "\<not> seq_dist base s < seq_dist base (seqno_of (fman dev) f)"
    using assms fence_win.passed_iff[of base s "seqno_of (fman dev) f"] by (auto simp: in_window_def)
  then show ?thesis
    unfolding scanned_list[OF assms(1-3)] using assms(4) by (intro length_filter_less) auto
qed

lemma goal_new_goal_in_list:
  assumes "vmw_fence_goal_new_locked s dev = (dev', True)"
  shows "seqno_valid (fman dev') \<Longrightarrow>
    \<exists>f \<in> set (fence_list (fman dev')). mmio dev' SVGA_FIFO_FENCE_GOAL = seqno_of (fman dev') f"
  using assms by (cases rule: goal_new_cases[of s dev]) auto

lemma fences_rerun_enough:
  assumes "in_window base (fman dev)" "fman_inv (fman dev)" "\<forall>r \<in> set (s # rs). seq_dist base r < 2 ^ 31"
    and "seqno_valid (fman dev) \<Longrightarrow>
      \<exists>f \<in> set (fence_list (fman dev)). mmio dev SVGA_FIFO_FENCE_GOAL = seqno_of (fman dev) f"
    and "length (fence_list (fman dev)) \<le> length rs"
  shows "fences_rerun (rs @ extra) s dev = fences_rerun rs s dev"
  using assms
proof (induction rs arbitrary: s dev)
  case (Cons r rs)
  obtain d2 b where g: "vmw_fence_goal_new_locked s (scanned s dev) = (d2, b)" by (cases "vmw_fence_goal_new_locked s (scanned s dev)")
  have s: "seq_dist base s < 2 ^ 31" using Cons.prems by simp
  obtain v where v: "fman d2 = (fman (scanned s dev))\<lparr>seqno_valid := v\<rparr>" using goal_new_frame(1)[OF g] by auto
  show ?case
  proof (cases b)
    case True
    have sv: "seqno_valid (fman dev)" "s - mmio dev SVGA_FIFO_FENCE_GOAL < VMW_FENCE_WRAP"
      using g True by (auto simp: vmw_fence_goal_new_locked_def scanned_def fences_scan_fold fold_fence_pass_simps
          not_le split: if_splits)
    then obtain f where "f \<in> set (fence_list (fman dev))" "mmio dev SVGA_FIFO_FENCE_GOAL = seqno_of (fman dev) f"
      using Cons.prems(4) by blast
    with sv scanned_shrinks[OF Cons.prems(1) s Cons.prems(2)]
    have "length (fence_list (fman (scanned s dev))) \<le> length rs" using Cons.prems(5) by fastforce
    then have "fences_rerun (rs @ extra) r (mmio_write r SVGA_FIFO_FENCE d2) =
        fences_rerun rs r (mmio_write r SVGA_FIFO_FENCE d2)"
      using Cons.prems(3) scanned_keeps[OF Cons.prems(1) s Cons.prems(2)] goal_new_goal_in_list[OF g[unfolded eqTrueI[OF True]]]
      by (intro Cons.IH) (auto simp: v)
    with g True show ?thesis by (simp add: fences_rerun_step[of _ s dev] Let_def)
  qed (use g in \<open>simp add: fences_rerun_step[of _ s dev]\<close>)
next
  case Nil
  then have "fence_list (fman dev) = []" by simp
  with Nil.prems(4) have "\<not> seqno_valid (fman dev)" by auto
  then have "vmw_fence_goal_new_locked s (scanned s dev) = (scanned s dev, False)"
    by (simp add: vmw_fence_goal_new_locked_def scanned_def fences_scan_fold fold_fence_pass_simps)
  then show ?case by (simp add: fences_rerun_step[of _ s dev])
qed

text \<open>The rerun loop of \<open>__vmw_fences_update\<close>, which goes back whenever the fence goal was
  moved and the device has made progress meanwhile, ends: however often the host changes the fence
  register, at most one more read than there are unsignaled fences is made, since every rerun but
  the first signals the fence the goal was set to.
\<close>
lemma fences_update_rerun_bounded:
  assumes "fman_inv (fman dev)" "in_window base (fman dev)"
    and "\<forall>r \<in> set (mmio dev SVGA_FIFO_FENCE # rs). seq_dist base r < 2 ^ 31"
    and "length (fence_list (fman dev)) < length rs"
  shows "vmw_fences_update (rs @ extra) dev = vmw_fences_update rs dev"
proof -
  let ?s = "mmio dev SVGA_FIFO_FENCE"
  obtain r rs' where rs: "rs = r # rs'" using assms(4) by (cases rs) auto
  obtain d2 b where g: "vmw_fence_goal_new_locked ?s (scanned ?s dev) = (d2, b)"
    by (cases "vmw_fence_goal_new_locked ?s (scanned ?s dev)")
  have s: "seq_dist base ?s < 2 ^ 31" using assms(3) by simp
  obtain v where v: "fman d2 = (fman (scanned ?s dev))\<lparr>seqno_valid := v\<rparr>" using goal_new_frame(1)[OF g] by auto
  have "fences_rerun (rs @ extra) ?s dev = fences_rerun rs ?s dev"
  proof (cases b)
    case True
    have "length (fence_list (fman (scanned ?s dev))) \<le> length rs'"
      unfolding scanned_list[OF assms(2) s assms(1)] using assms(4) by (simp add: rs order.trans[OF length_filter_le])
    then have "fences_rerun (rs' @ extra) r (mmio_write r SVGA_FIFO_FENCE d2) =
        fences_rerun rs' r (mmio_write r SVGA_FIFO_FENCE d2)"
      using assms(3) scanned_keeps[OF assms(2) s assms(1)] goal_new_goal_in_list[OF g[unfolded eqTrueI[OF True]]]
      by (intro fences_rerun_enough) (auto simp: v rs)
    with g True show ?thesis by (simp add: fences_rerun_step[of _ ?s dev] Let_def rs)
  qed (use g in \<open>simp add: fences_rerun_step[of _ ?s dev] rs\<close>)
  then show ?thesis by (simp add: vmw_fences_update_def vmw_fences_update_locked_def)
qed

text \<open>Witness: the three fences, and a register that would go on moving.\<close>
lemma fences_update_rerun_bounded_example:
  "vmw_fences_update ([0, 1, 2, 3] @ [4, 5, 6, 7]) three_fences = vmw_fences_update [0, 1, 2, 3] three_fences"
  by (rule fences_update_rerun_bounded[OF three_fences_ok(1,2)])
    (simp_all add: three_fences_def seq_dist_def)

section \<open>Attaching actions\<close>

definition all_actions :: "vmw_fence_manager \<Rightarrow> vmw_fence_action multiset" where
  \<comment> \<open>the actions the manager is responsible for: not yet run, or run and waiting for their cleanup\<close>
  "all_actions fm = mset (cleanup_list fm) + mset (attached fm)"

lemma update_effect_all_actions:
  assumes "update_effect base dev d" "in_window base (fman dev)" "fman_inv (fman dev)"
  shows "all_actions (fman d) = all_actions (fman dev)"
proof -
  note facts = update_effect_facts[OF assms]
  have q: "map (fence_actions (fman d)) (fence_list (fman d)) = map (fence_actions (fman dev)) (fence_list (fman d))"
    using facts(6) by simp
  have "attached (fman dev) = concat (map (fence_actions (fman dev)) (passed_fences base (mmio d SVGA_FIFO_FENCE) (fman dev))) @
      concat (map (fence_actions (fman dev)) (fence_list (fman d)))"
    unfolding attached_def by (subst facts(2)) simp
  then show ?thesis
    by (simp add: all_actions_def facts(4)) (simp add: attached_def q)
qed

lemma vmw_fences_update_keeps:
  assumes "fman_inv (fman dev)" "in_window base (fman dev)" "goal_armed dev"
    and "window_reads base (mmio dev SVGA_FIFO_FENCE # rereads)"
  shows "fman_inv (fman (vmw_fences_update rereads dev)) \<and> in_window base (fman (vmw_fences_update rereads dev)) \<and>
    goal_armed (vmw_fences_update rereads dev) \<and>
    all_actions (fman (vmw_fences_update rereads dev)) = all_actions (fman dev)"
proof -
  obtain d b where e: "update_effect base dev d" and mm: "mmio (vmw_fences_update rereads dev) = mmio d"
    and fm: "fman (vmw_fences_update rereads dev) = (fman d)\<lparr>work_scheduled := b\<rparr>"
    using vmw_fences_update_effect[OF assms(2,1,3,4)] by metis
  show ?thesis
    using e goal_armed_cong[OF mm fm] update_effect_all_actions[OF e assms(2,1)]
    by (simp add: update_effect_def fm all_actions_def)
qed

text \<open>The state once the action hangs on an unsignaled fence.\<close>

definition with_action :: "nat \<Rightarrow> vmw_fence_action \<Rightarrow> vmw_fence_manager \<Rightarrow> vmw_fence_manager" where
  "with_action f a fm =
     fm\<lparr>pending_actions := (pending_actions fm)(fa_type a := pending_actions fm (fa_type a) + 1),
        fence_objs := (fence_objs fm)(f := map_option
           (\<lambda>fo. fo\<lparr>seq_passed_actions := seq_passed_actions fo @ [a]\<rparr>) (fence_objs fm f))\<rparr>"

lemma with_action_actions:
  assumes "fence_objs fm f \<noteq> None"
  shows "fence_actions (with_action f a fm) g = (if g = f then fence_actions fm f @ [a] else fence_actions fm g)"
    "seqno_of (with_action f a fm) g = seqno_of fm g" "fence_list (with_action f a fm) = fence_list fm"
    "seqno_valid (with_action f a fm) = seqno_valid fm" "cleanup_list (with_action f a fm) = cleanup_list fm"
    "dma_fence_is_signaled (with_action f a fm) g = dma_fence_is_signaled fm g"
  using assms by (auto simp: with_action_def fence_actions_def seqno_of_def dma_fence_is_signaled_def split: option.split)

lemma mset_attached_with_action:
  assumes "fence_objs fm f \<noteq> None" "f \<in> set (fence_list fm)" "distinct (fence_list fm)"
  shows "mset (attached (with_action f a fm)) = mset (attached fm) + {#a#}"
proof -
  obtain xs ys where l: "fence_list fm = xs @ f # ys" "f \<notin> set xs" "f \<notin> set ys"
    using assms(2,3) by (metis split_list distinct_append distinct.simps(2) not_distinct_conv_prefix split_list_first)
  then have "map (fence_actions (with_action f a fm)) xs = map (fence_actions fm) xs"
      "map (fence_actions (with_action f a fm)) ys = map (fence_actions fm) ys"
    by (auto simp: with_action_actions(1)[OF assms(1)])
  then have "attached (with_action f a fm) =
      concat (map (fence_actions fm) xs) @ (fence_actions fm f @ [a]) @ concat (map (fence_actions fm) ys)"
    unfolding attached_def with_action_actions(3)[OF assms(1)] l(1)
    by (simp only: map_append list.map concat_append concat.simps with_action_actions(1)[OF assms(1)]) simp
  then show ?thesis by (simp add: attached_def l(1))
qed

lemma with_action_inv:
  assumes inv: "fman_inv fm" and f: "f \<in> set (fence_list fm)"
  shows "fman_inv (with_action f a fm)"
proof -
  have fo: "fence_objs fm f \<noteq> None" using fman_invD(2)[OF inv f] by auto
  have "length (filter (\<lambda>b. fa_type b = t) (attached (with_action f a fm))) =
      size (filter_mset (\<lambda>b. fa_type b = t) (mset (attached fm) + {#a#}))" for t
    using mset_attached_with_action[OF fo f fman_invD(1)[OF inv], of a] by (metis mset_filter size_mset)
  then have "length (filter (\<lambda>b. fa_type b = t) (attached (with_action f a fm))) =
      length (filter (\<lambda>b. fa_type b = t) (attached fm)) + (if fa_type a = t then 1 else 0)" for t
    by (auto simp flip: mset_filter)
  then have "pending_actions (with_action f a fm) t =
      of_nat (length (filter (\<lambda>b. fa_type b = t) (attached (with_action f a fm))))" for t
    using fman_invD(4)[OF inv, of t] fman_invD(4)[OF inv, of "fa_type a"] by (auto simp: with_action_def)
  moreover have "\<exists>fo. fence_objs (with_action f a fm) g = Some fo \<and> \<not> fence_signaled fo"
    if "g \<in> set (fence_list fm)" for g
    using fman_invD(2)[OF inv that] by (auto simp: with_action_def)
  ultimately show ?thesis
    using inv f fman_invD(1,3)[OF inv] by (auto simp: fman_inv_def with_action_actions[OF fo] list_all_iff)
qed

lemma perform_one_inv:
  assumes inv: "fman_inv fm"
  shows "fman_inv (vmw_fences_perform_actions [a]
      (fm\<lparr>pending_actions := (pending_actions fm)(fa_type a := pending_actions fm (fa_type a) + 1)\<rparr>)) \<and>
    attached (vmw_fences_perform_actions [a]
      (fm\<lparr>pending_actions := (pending_actions fm)(fa_type a := pending_actions fm (fa_type a) + 1)\<rparr>)) = attached fm"
proof -
  have eq: "vmw_fences_perform_actions [a]
      (fm\<lparr>pending_actions := (pending_actions fm)(fa_type a := pending_actions fm (fa_type a) + 1)\<rparr>) =
      fm\<lparr>passed_calls := passed_calls fm @ (if fa_seq_passed a then [fa_id a] else []), cleanup_list := cleanup_list fm @ [a]\<rparr>"
    by (simp add: fun_upd_idem)
  have act: "fence_actions (fm\<lparr>passed_calls := x, cleanup_list := y\<rparr>) = fence_actions fm" for x y
    by (simp add: fence_actions_def fun_eq_iff)
  show ?thesis unfolding eq using inv by (simp add: fman_inv_def attached_def act)
qed

lemma goal_irq_on_frame [simp]:
  "fence_actions (fm\<lparr>seqno_valid := v, goal_irq_on := b\<rparr>) f = fence_actions fm f"
  "seqno_of (fm\<lparr>seqno_valid := v, goal_irq_on := b\<rparr>) f = seqno_of fm f"
  "in_window base (fm\<lparr>seqno_valid := v, goal_irq_on := b\<rparr>) = in_window base fm"
  by (simp_all add: fence_actions_def seqno_of_def in_window_def)

lemma attached_goal_irq_on [simp]: "attached (fm\<lparr>seqno_valid := v, goal_irq_on := b\<rparr>) = attached fm"
  by (simp add: attached_def fence_actions_def cong: map_cong)

lemma inv_goal_irq_on [simp]:
  "fman_inv (fm\<lparr>seqno_valid := v, goal_irq_on := b\<rparr>) = fman_inv fm"
  "all_actions (fm\<lparr>seqno_valid := v, goal_irq_on := b\<rparr>) = all_actions fm"
  "all_actions (fm\<lparr>seqno_valid := v\<rparr>) = all_actions fm"
  by (simp_all add: fman_inv_def all_actions_def)

lemma vmw_goal_waiter_add_frame [simp]:
  "fman (vmw_goal_waiter_add dev) = fman dev" "mmio (vmw_goal_waiter_add dev) = mmio dev"
  by (simp_all add: vmw_goal_waiter_add_def vmw_generic_waiter_add_def vmw_write_def Let_def)

lemma add_action_signaled:
  assumes "fman_inv (fman dev)" "in_window base (fman dev)" "goal_armed dev"
    and "window_reads base (mmio dev SVGA_FIFO_FENCE # rereads)"
    and True: "dma_fence_is_signaled (fman dev) f"
    and "dev' = vmw_fence_obj_add_action rereads f a dev"
  shows "fman_inv (fman dev') \<and> in_window base (fman dev') \<and> goal_armed dev' \<and>
    all_actions (fman dev') = all_actions (fman dev) + {#a#}"
proof -
  let ?fm = "vmw_fences_perform_actions [a] ((fman dev)\<lparr>pending_actions :=
      (pending_actions (fman dev))(fa_type a := pending_actions (fman dev) (fa_type a) + 1)\<rparr>)"
  have d: "dev' = dev\<lparr>fman := ?fm\<rparr>"
    using True by (simp add: assms(6) vmw_fence_obj_add_action_def dma_fence_is_signaled_def)
  have fr: "fence_list ?fm = fence_list (fman dev)" "seqno_valid ?fm = seqno_valid (fman dev)"
    "cleanup_list ?fm = cleanup_list (fman dev) @ [a]" "fence_objs ?fm = fence_objs (fman dev)" by simp_all
  have "fence_actions ?fm = fence_actions (fman dev)" "seqno_of ?fm = seqno_of (fman dev)"
    using fr by (simp_all add: fence_actions_def seqno_of_def fun_eq_iff)
  then show ?thesis
    using assms(2,3) perform_one_inv[OF assms(1), of a] fr
    by (simp add: d goal_armed_def in_window_def all_actions_def del: vmw_fences_perform_actions.simps)
qed

lemma add_action_unsignaled:
  assumes "fman_inv (fman dev)" "in_window base (fman dev)" "goal_armed dev"
    and "window_reads base (mmio dev SVGA_FIFO_FENCE # rereads)"
    and f: "f \<in> set (fence_list (fman dev))"
    and "dev' = vmw_fence_obj_add_action rereads f a dev"
  shows "fman_inv (fman dev') \<and> in_window base (fman dev') \<and> goal_armed dev' \<and>
    all_actions (fman dev') = all_actions (fman dev) + {#a#}"
proof -
  have False: "\<not> dma_fence_is_signaled (fman dev) f"
    using fman_invD(2)[OF assms(1) f] by (auto simp: dma_fence_is_signaled_def)
  have fo: "fence_objs (fman dev) f \<noteq> None" using fman_invD(2)[OF assms(1) f] by auto
  let ?fm = "with_action f a (fman dev)" and ?d = "upd_fman (with_action f a) dev"
  have inv: "fman_inv ?fm" "in_window base ?fm"
    using with_action_inv[OF assms(1) f] assms(2) by (simp_all add: in_window_def with_action_actions[OF fo])
  have all: "all_actions ?fm = all_actions (fman dev) + {#a#}"
    using mset_attached_with_action[OF fo f fman_invD(1)[OF assms(1)], of a]
    by (simp add: all_actions_def with_action_actions[OF fo])
  have upd: "upd_fman (\<lambda>fm. fm\<lparr>fence_objs := (fence_objs fm)(f := map_option
        (\<lambda>fo. fo\<lparr>seq_passed_actions := seq_passed_actions fo @ [a]\<rparr>) (fence_objs fm f))\<rparr>)
      (upd_fman (\<lambda>fm. fm\<lparr>pending_actions := (pending_actions fm)(fa_type a := pending_actions fm (fa_type a) + 1)\<rparr>) dev) = ?d"
    by (simp add: with_action_def)
  have ns: "\<not> dma_fence_is_signaled (fman dev\<lparr>pending_actions := p\<rparr>) f" for p
    using False by (simp add: dma_fence_is_signaled_def)
  have act: "f \<in> set (fence_list ?fm)" "fence_actions ?fm f \<noteq> []"
    using f by (simp_all add: with_action_actions[OF fo])
  have chk: "dev' = (case vmw_fence_goal_check_locked f ?d of (dev3, run_update) \<Rightarrow>
      if run_update
      then vmw_fences_update rereads (if \<not> goal_irq_on (fman dev3)
             then vmw_goal_waiter_add (upd_fman (\<lambda>fm. fm\<lparr>goal_irq_on := True\<rparr>) dev3) else dev3)
      else dev3)"
    unfolding assms(6) vmw_fence_obj_add_action_def Let_def using ns by (simp add: with_action_def)
  have ns': "\<not> dma_fence_is_signaled ?fm f" using False by (simp add: with_action_actions[OF fo])
  show ?thesis
  proof (cases "seqno_valid ?fm \<and> mmio dev SVGA_FIFO_FENCE_GOAL - seqno_of ?fm f < VMW_FENCE_WRAP")
    case True
    have d: "dev' = ?d" using True ns' by (simp add: chk vmw_fence_goal_check_locked_def)
    show ?thesis
      using inv all assms(3) True act(2)
      by (auto simp: d goal_armed_def with_action_actions[OF fo])
  next
    case nv: False
    let ?d3 = "upd_fman (\<lambda>fm. fm\<lparr>seqno_valid := True\<rparr>) (mmio_write (seqno_of ?fm f) SVGA_FIFO_FENCE_GOAL ?d)"
    let ?d4 = "if goal_irq_on (fman dev) then ?d3 else vmw_goal_waiter_add (upd_fman (\<lambda>fm. fm\<lparr>goal_irq_on := True\<rparr>) ?d3)"
    have d: "dev' = vmw_fences_update rereads ?d4"
      using nv ns' unfolding chk vmw_fence_goal_check_locked_def by (auto simp: with_action_def)
    have m4: "mmio ?d4 = (mmio dev)(SVGA_FIFO_FENCE_GOAL := seqno_of ?fm f)" by simp
    have f4: "\<exists>b. fman ?d4 = ?fm\<lparr>seqno_valid := True, goal_irq_on := b\<rparr>"
      by (rule exI[of _ True]) (cases "fman dev", simp add: with_action_def)
    have "goal_armed ?d4"
      using act m4 f4 unfolding goal_armed_def by auto
    then show ?thesis
      using vmw_fences_update_keeps[of ?d4 base rereads] inv all f4 m4 assms(4) unfolding d by auto
  qed
qed

text \<open>\<open>vmw_fence_obj_add_action\<close> keeps the fence manager well-formed and loses no
  action. The new action joins those the manager is responsible for (attached to an unsignaled fence, or run
  and waiting for cleanup), none disappears, the counts of pending actions stay
  right, and the fence goal stays armed: as long as an action is attached the goal is valid and
  is the sequence number of a fence with an action.
\<close>
lemma vmw_fence_obj_add_action_ok:
  assumes "fman_inv (fman dev)" "in_window base (fman dev)" "goal_armed dev"
    and "window_reads base (mmio dev SVGA_FIFO_FENCE # rereads)"
    and "f \<in> set (fence_list (fman dev)) \<or> dma_fence_is_signaled (fman dev) f"
    and "dev' = vmw_fence_obj_add_action rereads f a dev"
  shows "fman_inv (fman dev') \<and> in_window base (fman dev') \<and> goal_armed dev' \<and>
    all_actions (fman dev') = all_actions (fman dev) + {#a#}"
  using assms add_action_signaled[of dev base rereads f] add_action_unsignaled[of dev base rereads f] by blast

text \<open>Witness: an action on the first of the three fences, while the goal is at the second.\<close>
lemma vmw_fence_obj_add_action_ok_example:
  "all_actions (fman (vmw_fence_obj_add_action [] 12 \<lparr>fa_id = 72, fa_type = 0, fa_seq_passed = True\<rparr> three_fences)) =
   all_actions (fman three_fences) + {#\<lparr>fa_id = 72, fa_type = 0, fa_seq_passed = True\<rparr>#}"
proof -
  have "window_reads 0xFFFFFFF0 [mmio three_fences SVGA_FIFO_FENCE]" "12 \<in> set (fence_list (fman three_fences))"
    by (simp_all add: three_fences_def idle_dev_eval window_reads_def seq_dist_def)
  with vmw_fence_obj_add_action_ok[OF three_fences_ok, of "[]" 12 _ "\<lparr>fa_id = 72, fa_type = 0, fa_seq_passed = True\<rparr>"]
  show ?thesis by blast
qed

text \<open>\<open>vmw_fence_goal_check_locked\<close> keeps the later of the current goal and the fence it is
  called for. When the current goal is valid, it is replaced exactly when the fence has a
  higher sequence number than the goal; a fence with a lower one leaves the goal alone. (The
  comment on the function asks for the opposite: a new goal when the current one is invalid or
  has a higher sequence number than the fence. The action of the earlier fence is then
  run only when the interrupt for the later one arrives.)
\<close>
lemma goal_check_keeps_later_goal:
  assumes "seqno_valid (fman dev)" "\<not> dma_fence_is_signaled (fman dev) f"
    and "seq_dist base (mmio dev SVGA_FIFO_FENCE_GOAL) < 2 ^ 31" "seq_dist base (seqno_of (fman dev) f) < 2 ^ 31"
  shows "(snd (vmw_fence_goal_check_locked f dev) \<longleftrightarrow>
      seq_dist base (mmio dev SVGA_FIFO_FENCE_GOAL) < seq_dist base (seqno_of (fman dev) f)) \<and>
    seq_dist base (mmio (fst (vmw_fence_goal_check_locked f dev)) SVGA_FIFO_FENCE_GOAL) =
      max (seq_dist base (mmio dev SVGA_FIFO_FENCE_GOAL)) (seq_dist base (seqno_of (fman dev) f))"
  using assms fence_win.passed_iff[of base "mmio dev SVGA_FIFO_FENCE_GOAL" "seqno_of (fman dev) f"]
  by (auto simp: vmw_fence_goal_check_locked_def)

text \<open>Witness: the goal at the second fence is replaced by the third fence's number.\<close>
lemma goal_check_keeps_later_goal_example:
  "mmio three_fences SVGA_FIFO_FENCE_GOAL = 0xFFFFFFFF \<and>
   snd (vmw_fence_goal_check_locked 12 three_fences) \<and> \<not> snd (vmw_fence_goal_check_locked 10 three_fences)"
proof -
  have ok: "seqno_valid (fman three_fences)" "\<not> dma_fence_is_signaled (fman three_fences) 12"
    "\<not> dma_fence_is_signaled (fman three_fences) 10"
    "mmio three_fences SVGA_FIFO_FENCE_GOAL = 0xFFFFFFFF" "seqno_of (fman three_fences) 12 = 1"
    "seqno_of (fman three_fences) 10 = 0xFFFFFFFE"
    by (simp_all add: three_fences_def dma_fence_is_signaled_def seqno_of_def)
  show ?thesis
    using goal_check_keeps_later_goal[OF ok(1,2), where base = "0xFFFFFFF0"]
      goal_check_keeps_later_goal[OF ok(1,3), where base = "0xFFFFFFF0"]
    by (simp add: ok seq_dist_def)
qed

section \<open>Waiting\<close>

lemma fence_wait_loop_signaled:
  assumes "fence_wait_loop vs f False timeout ret dev = Some (dev', r)" "0 < timeout"
  shows "0 < r \<and> dma_fence_is_signaled (fman dev') f"
  using assms
  by (induction vs f False timeout ret dev rule: fence_wait_loop.induct)
    (auto simp: Let_def vmw_fence_timeout_error_def split: if_splits)

lemma vmw_seqno_waiter_frame [simp]:
  "fman (vmw_seqno_waiter_add dev) = fman dev" "mmio (vmw_seqno_waiter_add dev) = mmio dev"
  "fman (vmw_seqno_waiter_remove dev) = fman dev" "mmio (vmw_seqno_waiter_remove dev) = mmio dev"
  by (simp_all add: vmw_seqno_waiter_add_def vmw_generic_waiter_add_def vmw_write_def Let_def
      vmw_seqno_waiter_remove_def vmw_generic_waiter_remove_def)

lemma fence_wait_loop_returns:
  assumes "fman_inv (fman dev)" "in_window base (fman dev)" "goal_armed dev"
    and "window_reads base (map wv_seqno vs)" "0 < timeout"
    and "f \<in> set (fence_list (fman dev)) \<or> dma_fence_is_signaled (fman dev) f"
    and "v \<in> set vs" "seq_dist base (seqno_of (fman dev) f) \<le> seq_dist base (wv_seqno v)"
  shows "\<exists>dev' r. fence_wait_loop vs f False timeout ret dev = Some (dev', r)"
  using assms
proof (induction vs arbitrary: dev ret)
  case (Cons w ws)
  let ?d = "mmio_write (wv_seqno w) SVGA_FIFO_FENCE dev"
  have wr: "window_reads base [mmio ?d SVGA_FIFO_FENCE]" using Cons.prems(4) by (simp add: window_reads_def)
  obtain d b where e: "update_effect base ?d d" and mm: "mmio (vmw_fences_update [] ?d) = mmio d"
    and fm: "fman (vmw_fences_update [] ?d) = (fman d)\<lparr>work_scheduled := b\<rparr>"
    and le: "seq_dist base (wv_seqno w) \<le> seq_dist base (mmio d SVGA_FIFO_FENCE)"
    by (rule vmw_fences_update_effect[of base ?d "[]"]) (use Cons.prems(1-3) wr in auto)
  note facts = update_effect_facts[OF e] and kept = update_effectD[OF e]
  show ?case
  proof (cases "dma_fence_is_signaled (fman d) f")
    case True
    then show ?thesis by (simp add: Let_def fm vmw_fences_update_def[symmetric])
  next
    case False
    have f: "f \<in> set (fence_list (fman d))"
      using False facts(2,3) Cons.prems(1,2,6) by auto
    then have "\<not> seq_dist base (seqno_of (fman dev) f) \<le> seq_dist base (mmio d SVGA_FIFO_FENCE)"
      using facts(1) Cons.prems(1,2) by auto
    then have "v \<noteq> w" using le Cons.prems(8) by auto
    with Cons.prems have "\<exists>dev' r. fence_wait_loop ws f False timeout (wv_left w) (vmw_fences_update [] ?d) = Some (dev', r)"
      using kept f facts(7) goal_armed_cong[OF mm fm]
      by (intro Cons.IH) (auto simp: fm window_reads_def)
    with False Cons.prems(5) show ?thesis
      by (simp add: Let_def fm vmw_fences_update_def[symmetric] vmw_fence_timeout_error_def)
  qed
qed simp

text \<open>
  C38: An uninterruptible \<open>vmw_fence_wait\<close> with a nonzero timeout neither gives up nor
  returns early. Whenever it returns, the fence is signaled and the result is positive, so
  that \<open>vmw_fence_obj_wait\<close> returns success and not -EBUSY (a timeout is only reported in the log and
  the wait restarted); and it does return by the time the device's fence register reaches the
  fence's sequence number, for fences submitted in order.
\<close>
theorem vmw_fence_wait_returns_signaled:
  assumes "fman_inv (fman dev)" "in_window base (fman dev)" "goal_armed dev"
    and "window_reads base (mmio dev SVGA_FIFO_FENCE # map wv_seqno views)" "0 < timeout"
    and "f \<in> set (fence_list (fman dev)) \<or> dma_fence_is_signaled (fman dev) f"
    and "v \<in> set views" "seq_dist base (seqno_of (fman dev) f) \<le> seq_dist base (wv_seqno v)"
  shows "\<exists>dev' r. vmw_fence_wait views sig f False timeout dev = Some (dev', r) \<and> 0 < r \<and>
    dma_fence_is_signaled (fman dev') f \<and> vmw_fence_obj_wait_result r = 0"
proof (cases "dma_fence_is_signaled (fman dev) f")
  case True
  then show ?thesis
    using assms(5) by (simp add: vmw_fence_wait_def vmw_fence_obj_signaled_def vmw_fence_obj_wait_result_def)
next
  case ns: False
  have wr: "window_reads base [mmio dev SVGA_FIFO_FENCE]" "window_reads base (map wv_seqno views)"
    using assms(4) by (auto simp: window_reads_def)
  let ?d1 = "vmw_fences_update [] dev" and ?d2 = "vmw_seqno_waiter_add (vmw_fifo_ping_host SVGA_SYNC_GENERIC (vmw_fences_update [] dev))"
  obtain d b where e: "update_effect base dev d" and mm: "mmio ?d1 = mmio d"
    and fm: "fman ?d1 = (fman d)\<lparr>work_scheduled := b\<rparr>"
    using vmw_fences_update_effect[OF assms(2,1,3) wr(1)] by metis
  note facts = update_effect_facts[OF e assms(2,1)]
  show ?thesis
  proof (cases "dma_fence_is_signaled (fman ?d1) f")
    case True
    then show ?thesis
      using ns assms(5) by (simp add: vmw_fence_wait_def vmw_fence_obj_signaled_def vmw_fence_obj_wait_result_def Let_def)
  next
    case False
    have g: "fman ?d2 = fman ?d1" "goal_armed ?d2 = goal_armed ?d1"
      by (simp_all add: vmw_fifo_ping_host_def vmw_write_def goal_armed_def)
    have "\<exists>dev' r. fence_wait_loop views f False timeout timeout ?d2 = Some (dev', r)"
    proof (rule fence_wait_loop_returns[OF _ _ _ wr(2) assms(5) _ assms(7)])
      show "f \<in> set (fence_list (fman ?d2)) \<or> dma_fence_is_signaled (fman ?d2) f"
        using facts(2,3) False assms(6) by (auto simp only: g fm work_scheduled_frame) auto
      show "seq_dist base (seqno_of (fman ?d2) f) \<le> seq_dist base (wv_seqno v)"
        using assms(8) facts(7) by (simp only: g fm work_scheduled_frame)
    qed (use update_effectD[OF e] goal_armed_cong[OF mm fm] in \<open>simp_all only: g fm work_scheduled_frame fman_inv_work_scheduled\<close>)
    then obtain dev' r where l: "fence_wait_loop views f False timeout timeout ?d2 = Some (dev', r)" by blast
    with fence_wait_loop_signaled[OF l assms(5)] ns False show ?thesis
      by (simp add: vmw_fence_wait_def vmw_fence_obj_signaled_def vmw_fence_obj_wait_result_def Let_def)
  qed
qed

text \<open>Witness: waiting for the third of the three fences, with two looks at the register.\<close>
theorem vmw_fence_wait_returns_signaled_witness:
  "\<exists>dev' r. vmw_fence_wait [\<lparr>wv_seqno = 0, wv_signal = False, wv_left = 0\<rparr>, \<lparr>wv_seqno = 1, wv_signal = False, wv_left = 0\<rparr>]
     False 12 False 100 three_fences = Some (dev', r) \<and> 0 < r \<and> dma_fence_is_signaled (fman dev') 12"
proof -
  let ?v = "\<lparr>wv_seqno = 1, wv_signal = False, wv_left = 0\<rparr>"
  let ?vs = "[\<lparr>wv_seqno = 0, wv_signal = False, wv_left = 0\<rparr>, ?v]"
  have "window_reads 0xFFFFFFF0 (mmio three_fences SVGA_FIFO_FENCE # map wv_seqno ?vs)"
    "12 \<in> set (fence_list (fman three_fences))" "?v \<in> set ?vs"
    "seq_dist 0xFFFFFFF0 (seqno_of (fman three_fences) 12) \<le> seq_dist 0xFFFFFFF0 (wv_seqno ?v)"
    by (simp_all add: three_fences_def idle_dev_eval window_reads_def seq_dist_def seqno_of_def)
  with vmw_fence_wait_returns_signaled[OF three_fences_ok, of ?vs 100 12 ?v False] show ?thesis by auto
qed

end
