(* ===== verification/Irq.thy ===== *)
theory Irq
  imports Fifo Fence
begin

text \<open>
  Sequence numbers and interrupts: \<open>src/vmwgfx_marker.c\<close> (the queue of submitted markers
  that measures how far the device lags behind), \<open>src/vmwgfx_irq.c\<close> (reading the fence register,
  deciding whether a sequence number has passed, waiting for it, the interrupt handler and the
  reference-counted interrupt mask) and \<open>vmw_fifo_send_fence\<close> of \<open>src/vmwgfx_fifo.c\<close>.
  The clock \<open>ktime_get_raw_ns\<close> is an argument; the command buffer manager is absent (\<open>cman\<close> is NULL).
\<close>

section \<open>Markers\<close>

definition vmw_marker_queue_takedown :: "vmw_marker_queue \<Rightarrow> vmw_marker list" where
  \<comment> \<open>the markers it frees\<close>
  "vmw_marker_queue_takedown queue = mq_head queue"

definition vmw_marker_push :: "bool \<Rightarrow> u64 \<Rightarrow> u32 \<Rightarrow> vmw_marker_queue \<Rightarrow> vmw_marker_queue \<times> unit kres" where
  "vmw_marker_push oom now seqno queue =
     (if oom then (queue, Inl ENOMEM)
      else (queue\<lparr>mq_head := mq_head queue @ [\<lparr>mk_seqno = seqno, mk_submitted = now\<rparr>]\<rparr>, Inr ()))"

fun marker_pull_loop :: "u32 \<Rightarrow> u64 \<Rightarrow> vmw_marker list \<Rightarrow> vmw_marker_queue \<Rightarrow> bool \<Rightarrow> vmw_marker_queue \<times> bool" where
  "marker_pull_loop signaled_seqno now [] queue updated = (queue, updated)"
| "marker_pull_loop signaled_seqno now (mk # mks) queue updated =
     (if signaled_seqno - mk_seqno mk > 0x40000000
      then marker_pull_loop signaled_seqno now mks queue updated
      else marker_pull_loop signaled_seqno now mks
             (queue\<lparr>mq_lag := now - mk_submitted mk, mq_lag_time := now, mq_head := remove1 mk (mq_head queue)\<rparr>) True)"

definition vmw_marker_pull :: "u64 \<Rightarrow> u32 \<Rightarrow> vmw_marker_queue \<Rightarrow> vmw_marker_queue \<times> unit kres" where
  "vmw_marker_pull now signaled_seqno queue =
     (if mq_head queue = [] then (queue\<lparr>mq_lag := 0, mq_lag_time := now\<rparr>, Inr ())
      else (case marker_pull_loop signaled_seqno now (mq_head queue) queue False of
              (queue', updated) \<Rightarrow> (queue', if updated then Inr () else Inl EBUSY)))"

definition vmw_fifo_lag :: "u64 \<Rightarrow> vmw_marker_queue \<Rightarrow> vmw_marker_queue \<times> u64" where
  "vmw_fifo_lag now queue =
     (let queue1 = queue\<lparr>mq_lag := mq_lag queue + (now - mq_lag_time queue), mq_lag_time := now\<rparr>
      in (queue1, mq_lag queue1))"

definition vmw_lag_lt :: "u64 \<Rightarrow> u32 \<Rightarrow> vmw_marker_queue \<Rightarrow> vmw_marker_queue \<times> bool" where
  "vmw_lag_lt now us queue =
     (case vmw_fifo_lag now queue of (queue1, lag) \<Rightarrow> (queue1, lag \<le> ucast us * 1000))"

section \<open>Sequence numbers\<close>

abbreviation (input) IRQ_FENCE_WRAP :: u32 where "IRQ_FENCE_WRAP \<equiv> 0x1000000"

definition vmw_fifo_idle :: "vmw_private \<Rightarrow> bool" where
  "vmw_fifo_idle dev = (vmw_read SVGA_REG_BUSY dev = 0)"

definition vmw_update_seqno :: "u64 \<Rightarrow> vmw_private \<Rightarrow> vmw_private" where
  "vmw_update_seqno now dev =
     (let seqno = mmio dev SVGA_FIFO_FENCE in
      if last_read_seqno dev \<noteq> seqno
      then (let dev1 = dev\<lparr>last_read_seqno := seqno\<rparr>;
                dev2 = upd_fifo (\<lambda>f. f\<lparr>marker_queue := fst (vmw_marker_pull now seqno (marker_queue f))\<rparr>) dev1
            in vmw_fences_update [] dev2)
      else dev)"

definition vmw_seqno_passed :: "u64 \<Rightarrow> u32 \<Rightarrow> vmw_private \<Rightarrow> vmw_private \<times> bool" where
  "vmw_seqno_passed now seqno dev =
     (if last_read_seqno dev - seqno < IRQ_FENCE_WRAP then (dev, True)
      else
        (let dev1 = vmw_update_seqno now dev in
         if last_read_seqno dev1 - seqno < IRQ_FENCE_WRAP then (dev1, True)
         else if fifo_capabilities (fifo dev1) AND SVGA_FIFO_CAP_FENCE = 0 \<and> vmw_fifo_idle dev1 then (dev1, True)
         else (dev1, marker_seq dev1 - seqno > IRQ_FENCE_WRAP)))"

text \<open>
  The polling wait. Per round, the environment gives the fence register, the BUSY register, whether
  the deadline has passed and whether a signal is pending. A round that finds the
  deadline passed breaks out with result 0, as the code does.
\<close>

record poll_view =
  pv_fence :: u32
  pv_busy :: u32
  pv_deadline :: bool
  pv_signal :: bool
  pv_now :: u64

definition poll_dev :: "poll_view \<Rightarrow> vmw_private \<Rightarrow> vmw_private" where
  "poll_dev pv dev = (mmio_write (pv_fence pv) SVGA_FIFO_FENCE dev)\<lparr>regs := (regs dev)(SVGA_REG_BUSY := pv_busy pv)\<rparr>"

fun fallback_wait_loop ::
  "poll_view list \<Rightarrow> bool \<Rightarrow> u32 \<Rightarrow> bool \<Rightarrow> vmw_private \<Rightarrow> (vmw_private \<times> unit kres) option" where
  "fallback_wait_loop [] idle seqno interruptible dev = None"
| "fallback_wait_loop (pv # pvs) idle seqno interruptible dev =
     (let dev0 = poll_dev pv dev;
          (dev1, ready) = (if idle then (dev0, vmw_fifo_idle dev0) else vmw_seqno_passed (pv_now pv) seqno dev0)
      in if ready then Some (dev1, Inr ())
         else if pv_deadline pv then Some (dev1, Inr ())
         else if interruptible \<and> pv_signal pv then Some (dev1, Inl ERESTARTSYS)
         else fallback_wait_loop pvs idle seqno interruptible dev1)"

definition vmw_fallback_wait ::
  "poll_view list \<Rightarrow> bool \<Rightarrow> u32 \<Rightarrow> bool \<Rightarrow> vmw_private \<Rightarrow> (vmw_private \<times> unit kres) option" where
  "vmw_fallback_wait pvs idle seqno interruptible dev =
     (let signal_seq = marker_seq dev in
      map_option (\<lambda>(dev1, ret).
          (if ret = Inr () \<and> idle then mmio_write signal_seq SVGA_FIFO_FENCE dev1 else dev1, ret))
        (fallback_wait_loop pvs idle seqno interruptible dev))"

text \<open>
  Sleeping in \<open>wait_event_timeout\<close>: the condition is evaluated once per wake-up; the timeout
  ends the wait with 0 unless the condition holds then.
\<close>

fun wait_event_loop :: "poll_view list \<Rightarrow> u32 \<Rightarrow> bool \<Rightarrow> vmw_private \<Rightarrow> (vmw_private \<times> unit kres) option" where
  "wait_event_loop [] seqno interruptible dev = None"
| "wait_event_loop (pv # pvs) seqno interruptible dev =
     (case vmw_seqno_passed (pv_now pv) seqno (poll_dev pv dev) of
        (dev1, True) \<Rightarrow> Some (dev1, Inr ())
      | (dev1, False) \<Rightarrow>
          (if interruptible \<and> pv_signal pv then Some (dev1, Inl ERESTARTSYS)
           else if pv_deadline pv then Some (dev1, Inl EBUSY)
           else wait_event_loop pvs seqno interruptible dev1))"

definition vmw_wait_seqno ::
  "poll_view list \<Rightarrow> u64 \<Rightarrow> u32 \<Rightarrow> bool \<Rightarrow> vmw_private \<Rightarrow> (vmw_private \<times> unit kres) option" where
  "vmw_wait_seqno pvs now seqno interruptible dev =
     (if last_read_seqno dev - seqno < IRQ_FENCE_WRAP then Some (dev, Inr ())
      else
        (case vmw_seqno_passed now seqno dev of
           (dev1, True) \<Rightarrow> Some (dev1, Inr ())
         | (dev1, False) \<Rightarrow>
             (let dev2 = vmw_fifo_ping_host SVGA_SYNC_GENERIC dev1 in
              if fifo_capabilities (fifo dev2) AND SVGA_FIFO_CAP_FENCE = 0
              then vmw_fallback_wait pvs True seqno interruptible dev2
              else if capabilities dev2 AND SVGA_CAP_IRQMASK = 0
              then vmw_fallback_wait pvs False seqno interruptible dev2
              else map_option (\<lambda>(dev3, ret). (vmw_seqno_waiter_remove dev3, ret))
                     (wait_event_loop pvs seqno interruptible (vmw_seqno_waiter_add dev2)))))"

text \<open>\<open>vmw_wait_lag\<close>: per round the time of the lag test and the environment of the wait.\<close>

fun vmw_wait_lag :: "(u64 \<times> poll_view list) list \<Rightarrow> u32 \<Rightarrow> vmw_private \<Rightarrow> (vmw_private \<times> unit kres) option" where
  "vmw_wait_lag [] us dev = None"
| "vmw_wait_lag ((now, pvs) # rounds) us dev =
     (case vmw_lag_lt now us (marker_queue (fifo dev)) of
        (queue1, True) \<Rightarrow> Some (upd_fifo (\<lambda>f. f\<lparr>marker_queue := queue1\<rparr>) dev, Inr ())
      | (queue1, False) \<Rightarrow>
          (let dev1 = upd_fifo (\<lambda>f. f\<lparr>marker_queue := queue1\<rparr>) dev;
               seqno = (case mq_head queue1 of [] \<Rightarrow> marker_seq dev1 | mk # _ \<Rightarrow> mk_seqno mk)
           in case vmw_wait_seqno pvs now seqno True dev1 of
                None \<Rightarrow> None
              | Some (dev2, Inl e) \<Rightarrow> Some (dev2, Inl e)
              | Some (dev2, Inr _) \<Rightarrow>
                  vmw_wait_lag rounds us
                    (upd_fifo (\<lambda>f. f\<lparr>marker_queue := fst (vmw_marker_pull now seqno (marker_queue f))\<rparr>) dev2)))"

section \<open>Interrupts\<close>

datatype irqreturn = IRQ_NONE | IRQ_HANDLED | IRQ_WAKE_THREAD

definition vmw_irq_handler :: "u32 \<Rightarrow> vmw_private \<Rightarrow> vmw_private \<times> bool \<times> irqreturn" where
  \<comment> \<open>the status port's value is an argument; the flag says whether FIFO waiters are woken up\<close>
  "vmw_irq_handler status dev =
     (let masked_status = status AND irq_mask dev in
      if status = 0 then (dev, False, IRQ_NONE)
      else
        (let dev1 = dev\<lparr>irq_acks := irq_acks dev @ [status]\<rparr>;
             wake_fifo = masked_status AND SVGA_IRQFLAG_FIFO_PROGRESS \<noteq> 0;
             fence = masked_status AND (SVGA_IRQFLAG_ANY_FENCE OR SVGA_IRQFLAG_FENCE_GOAL) \<noteq> 0;
             cmdbuf = masked_status AND (SVGA_IRQFLAG_COMMAND_BUFFER OR SVGA_IRQFLAG_ERROR) \<noteq> 0;
             wake1 = fence \<and> \<not> irqthread_fence_pending dev1;
             dev2 = (if fence then dev1\<lparr>irqthread_fence_pending := True\<rparr> else dev1);
             wake2 = cmdbuf \<and> \<not> irqthread_cmdbuf_pending dev2;
             dev3 = (if cmdbuf then dev2\<lparr>irqthread_cmdbuf_pending := True\<rparr> else dev2)
         in (dev3, wake_fifo, if wake1 \<or> wake2 then IRQ_WAKE_THREAD else IRQ_HANDLED)))"

definition vmw_thread_fn :: "vmw_private \<Rightarrow> vmw_private \<times> bool \<times> irqreturn" where
  \<comment> \<open>the flag says whether the command buffer manager's thread function runs\<close>
  "vmw_thread_fn dev =
     (let (dev1, ret1) = (if irqthread_fence_pending dev
                          then (vmw_fences_update [] (dev\<lparr>irqthread_fence_pending := False\<rparr>), IRQ_HANDLED)
                          else (dev, IRQ_NONE))
      in if irqthread_cmdbuf_pending dev1
         then (dev1\<lparr>irqthread_cmdbuf_pending := False\<rparr>, True, IRQ_HANDLED)
         else (dev1, False, ret1))"

definition vmw_irq_preinstall :: "u32 \<Rightarrow> vmw_private \<Rightarrow> vmw_private" where
  "vmw_irq_preinstall status dev =
     (if capabilities dev AND SVGA_CAP_IRQMASK = 0 then dev else dev\<lparr>irq_acks := irq_acks dev @ [status]\<rparr>)"

definition vmw_irq_uninstall :: "u32 \<Rightarrow> vmw_private \<Rightarrow> vmw_private" where
  "vmw_irq_uninstall status dev =
     (if capabilities dev AND SVGA_CAP_IRQMASK = 0 then dev
      else (let dev1 = vmw_write SVGA_REG_IRQMASK 0 dev in dev1\<lparr>irq_acks := irq_acks dev1 @ [status]\<rparr>))"

section \<open>Emitting a fence\<close>

fun next_seqno :: "u32 \<Rightarrow> u32" where
  \<comment> \<open>the \<open>do ... while (*seqno == 0)\<close> loop, which goes round once more at the wrap-around\<close>
  "next_seqno s = (if s + 1 = 0 then s + 1 + 1 else s + 1)"

declare next_seqno.simps [simp del]

definition vmw_fifo_send_fence ::
  "(u32 \<Rightarrow> u32 list option) \<Rightarrow> host_view list \<Rightarrow> poll_view list \<Rightarrow> bool \<Rightarrow> u64 \<Rightarrow> vmw_private \<Rightarrow>
   (vmw_private \<times> u32 \<times> unit kres) kres option" where
  "vmw_fifo_send_fence vmalloc hvs pvs oom now dev =
     (case vmw_local_fifo_reserve vmalloc hvs dev 8 of
        None \<Rightarrow> None
      | Some (Inl e) \<Rightarrow> Some (Inl e)
      | Some (Inr (dev1, None)) \<Rightarrow>
          (case vmw_fallback_wait pvs True (marker_seq dev1) False dev1 of
             None \<Rightarrow> None
           | Some (dev2, _) \<Rightarrow> Some (Inr (dev2, marker_seq dev1, Inl ENOMEM)))
      | Some (Inr (dev1, Some ptr)) \<Rightarrow>
          (let seqno = next_seqno (marker_seq dev1); dev2 = dev1\<lparr>marker_seq := seqno\<rparr> in
           if fifo_capabilities (fifo dev2) AND SVGA_FIFO_CAP_FENCE = 0
           then Some (kbind (vmw_local_fifo_commit dev2 0) (\<lambda>d. Inr (d, seqno, Inr ())))
           else Some (kbind (vmw_local_fifo_commit (fifo_fill ptr [30, seqno] dev2) 8)
                  (\<lambda>d. (let d1 = upd_fifo (\<lambda>f. f\<lparr>marker_queue := fst (vmw_marker_push oom now seqno (marker_queue f))\<rparr>) d
                        in Inr (vmw_update_seqno now d1, seqno, Inr ()))))))"

section \<open>The interrupt mask\<close>

text \<open>Any interleaving of waiters of the three kinds coming and going.\<close>

inductive waiter_step :: "vmw_private \<Rightarrow> vmw_private \<Rightarrow> bool" where
  fifo_add: "waiter_step dev (vmw_fifo_waiter_add dev)"
| fifo_remove: "0 < fifo_queue_waiters dev \<Longrightarrow> waiter_step dev (vmw_fifo_waiter_remove dev)"
| seqno_add: "waiter_step dev (vmw_seqno_waiter_add dev)"
| seqno_remove: "0 < fence_queue_waiters dev \<Longrightarrow> waiter_step dev (vmw_seqno_waiter_remove dev)"
| goal_add: "waiter_step dev (vmw_goal_waiter_add dev)"
| goal_remove: "0 < goal_queue_waiters dev \<Longrightarrow> waiter_step dev (vmw_goal_waiter_remove dev)"

inductive_cases waiter_stepE: "waiter_step dev dev'"

definition written_mask :: "vmw_private \<Rightarrow> u32" where
  \<comment> \<open>the device's mask: the last value written to the register, or what it was before\<close>
  "written_mask dev = fold (\<lambda>(r, v) m. if r = SVGA_REG_IRQMASK then v else m) (reg_writes dev) (regs dev SVGA_REG_IRQMASK)"

definition irq_mask_ok :: "vmw_private \<Rightarrow> bool" where
  "irq_mask_ok dev \<longleftrightarrow>
     written_mask dev = irq_mask dev \<and>
     0 \<le> fence_queue_waiters dev \<and> 0 \<le> fifo_queue_waiters dev \<and> 0 \<le> goal_queue_waiters dev \<and>
     (bit (irq_mask dev) 0 \<longleftrightarrow> 0 < fence_queue_waiters dev) \<and>
     (bit (irq_mask dev) 1 \<longleftrightarrow> 0 < fifo_queue_waiters dev) \<and>
     (bit (irq_mask dev) 2 \<longleftrightarrow> 0 < goal_queue_waiters dev)"

lemma flag_bits:
  "bit (m OR 1 :: u32) k \<longleftrightarrow> bit m k \<or> k = 0" "bit (m OR 2 :: u32) k \<longleftrightarrow> bit m k \<or> k = 1"
  "bit (m OR 4 :: u32) k \<longleftrightarrow> bit m k \<or> k = 2"
  "bit (m AND NOT 1 :: u32) k \<longleftrightarrow> bit m k \<and> k \<noteq> 0" "bit (m AND NOT 2 :: u32) k \<longleftrightarrow> bit m k \<and> k \<noteq> 1"
  "bit (m AND NOT 4 :: u32) k \<longleftrightarrow> bit m k \<and> k \<noteq> 2"
proof -
  have b: "bit (1 :: u32) k \<longleftrightarrow> k = 0" "bit (2 :: u32) k \<longleftrightarrow> k = 1" "bit (4 :: u32) k \<longleftrightarrow> k = 2"
    using bit_exp_iff[where 'a = "32 word", of 0 k] bit_exp_iff[where 'a = "32 word", of 1 k]
      bit_exp_iff[where 'a = "32 word", of 2 k] by auto
  show "bit (m OR 1 :: u32) k \<longleftrightarrow> bit m k \<or> k = 0" "bit (m OR 2 :: u32) k \<longleftrightarrow> bit m k \<or> k = 1"
    "bit (m OR 4 :: u32) k \<longleftrightarrow> bit m k \<or> k = 2"
    "bit (m AND NOT 1 :: u32) k \<longleftrightarrow> bit m k \<and> k \<noteq> 0" "bit (m AND NOT 2 :: u32) k \<longleftrightarrow> bit m k \<and> k \<noteq> 1"
    "bit (m AND NOT 4 :: u32) k \<longleftrightarrow> bit m k \<and> k \<noteq> 2"
    by (simp_all only: bit_or_iff bit_and_iff bit_not_iff b) (use bit_imp_possible_bit[of m k] in auto)
qed

lemma written_mask_write:
  "written_mask (vmw_write SVGA_REG_IRQMASK v dev) = v"
  by (simp add: written_mask_def vmw_write_def)

lemmas waiter_defs = vmw_fifo_waiter_add_def vmw_fifo_waiter_remove_def vmw_seqno_waiter_add_def
  vmw_seqno_waiter_remove_def vmw_goal_waiter_add_def vmw_goal_waiter_remove_def
  vmw_generic_waiter_add_def vmw_generic_waiter_remove_def

lemma vmw_write_frame [simp]:
  "irq_mask (vmw_write r v dev) = irq_mask dev" "fence_queue_waiters (vmw_write r v dev) = fence_queue_waiters dev"
  "fifo_queue_waiters (vmw_write r v dev) = fifo_queue_waiters dev"
  "goal_queue_waiters (vmw_write r v dev) = goal_queue_waiters dev" "regs (vmw_write r v dev) = regs dev"
  by (simp_all add: vmw_write_def)

lemma written_mask_frame [simp]:
  "written_mask (fifo_queue_waiters_update g dev) = written_mask dev"
  "written_mask (fence_queue_waiters_update g dev) = written_mask dev"
  "written_mask (goal_queue_waiters_update g dev) = written_mask dev"
  by (simp_all add: written_mask_def)

lemma waiter_step_ok:
  assumes "waiter_step dev dev'" "irq_mask_ok dev"
  shows "irq_mask_ok dev' \<and> (\<forall>k > 2. bit (irq_mask dev') k = bit (irq_mask dev) k)"
  using assms
  by (cases rule: waiter_step.cases)
    (auto simp: irq_mask_ok_def waiter_defs Let_def written_mask_write flag_bits[simplified])

text \<open>
  C27: The interrupt mask is reference counted correctly. Whatever the order in which waiters
  for FIFO space, for sequence numbers and for the fence goal come and go, an interrupt source
  is unmasked exactly while it has waiters, the mask register of the device agrees with the driver's copy of
  the mask, and the bits of the other sources are left alone.
\<close>
theorem irq_mask_tracks_waiters:
  assumes "waiter_step\<^sup>*\<^sup>* dev dev'" "irq_mask_ok dev"
  shows "irq_mask_ok dev' \<and> (\<forall>k > 2. bit (irq_mask dev') k = bit (irq_mask dev) k)"
  using assms(1)
proof (induction rule: rtranclp_induct)
  case (step d d')
  with waiter_step_ok[OF step(2)] show ?case by auto
qed (use assms(2) in simp)

text \<open>Witness: two waiters for sequence numbers, of which one leaves, next to one for FIFO space.\<close>
theorem irq_mask_tracks_waiters_witness:
  "irq_mask_ok (vmw_seqno_waiter_remove (vmw_fifo_waiter_add (vmw_seqno_waiter_add (vmw_seqno_waiter_add idle_dev))))"
proof -
  let ?d1 = "vmw_seqno_waiter_add idle_dev" and ?d2 = "vmw_seqno_waiter_add (vmw_seqno_waiter_add idle_dev)"
  let ?d3 = "vmw_fifo_waiter_add ?d2"
  have "0 < fence_queue_waiters ?d3" by (simp add: waiter_defs Let_def idle_dev_eval vmw_write_def)
  then have "waiter_step\<^sup>*\<^sup>* idle_dev (vmw_seqno_waiter_remove ?d3)"
    by (meson converse_rtranclp_into_rtranclp rtranclp.rtrancl_refl waiter_step.intros)
  moreover have "irq_mask_ok idle_dev" by (simp add: irq_mask_ok_def idle_dev_eval written_mask_def)
  ultimately show ?thesis using irq_mask_tracks_waiters by blast
qed

section \<open>Passed sequence numbers\<close>

lemma marker_pull_loop_spec:
  assumes "marker_pull_loop s now mks q upd = (q', upd')" "mq_head q = pre @ mks"
    and "\<forall>mk \<in> set pre. s - mk_seqno mk > 0x40000000"
  shows "mq_head q' = pre @ filter (\<lambda>mk. s - mk_seqno mk > 0x40000000) mks"
    "upd' \<longleftrightarrow> upd \<or> (\<exists>mk \<in> set mks. \<not> s - mk_seqno mk > 0x40000000)"
    "filter (\<lambda>mk. \<not> s - mk_seqno mk > 0x40000000) mks \<noteq> [] \<Longrightarrow>
       mq_lag q' = now - mk_submitted (last (filter (\<lambda>mk. \<not> s - mk_seqno mk > 0x40000000) mks)) \<and> mq_lag_time q' = now"
    "filter (\<lambda>mk. \<not> s - mk_seqno mk > 0x40000000) mks = [] \<Longrightarrow> q' = q"
proof -
  have "mq_head q' = pre @ filter (\<lambda>mk. s - mk_seqno mk > 0x40000000) mks \<and>
    (upd' \<longleftrightarrow> upd \<or> (\<exists>mk \<in> set mks. \<not> s - mk_seqno mk > 0x40000000)) \<and>
    (if filter (\<lambda>mk. \<not> s - mk_seqno mk > 0x40000000) mks = [] then q' = q
     else mq_lag q' = now - mk_submitted (last (filter (\<lambda>mk. \<not> s - mk_seqno mk > 0x40000000) mks)) \<and> mq_lag_time q' = now)"
    using assms
  proof (induction s now mks q upd arbitrary: pre rule: marker_pull_loop.induct)
    case (2 s now mk mks q upd)
    show ?case
    proof (cases "s - mk_seqno mk > 0x40000000")
      case True
      with 2 show ?thesis using "2.IH"(1)[OF True, of "pre @ [mk]"] by auto
    next
      case False
      then have "mk \<notin> set pre" using 2 by auto
      then have "remove1 mk (mq_head q) = pre @ mks" using 2 by (simp add: remove1_append)
      with "2.IH"(2)[OF False, of pre] 2 False show ?thesis by (auto split: if_splits)
    qed
  qed auto
  then show "mq_head q' = pre @ filter (\<lambda>mk. s - mk_seqno mk > 0x40000000) mks"
    "upd' \<longleftrightarrow> upd \<or> (\<exists>mk \<in> set mks. \<not> s - mk_seqno mk > 0x40000000)"
    "filter (\<lambda>mk. \<not> s - mk_seqno mk > 0x40000000) mks \<noteq> [] \<Longrightarrow>
       mq_lag q' = now - mk_submitted (last (filter (\<lambda>mk. \<not> s - mk_seqno mk > 0x40000000) mks)) \<and> mq_lag_time q' = now"
    "filter (\<lambda>mk. \<not> s - mk_seqno mk > 0x40000000) mks = [] \<Longrightarrow> q' = q"
    by (auto split: if_splits)
qed

text \<open>\<open>vmw_marker_pull\<close> keeps exactly the markers the signaled sequence number has not reached,
  in order (for sequence numbers within a window of \<open>2 ^ 30\<close>, across the wrap-around), and
  sets the lag to the age of the newest marker it removes. It returns -EBUSY, with the queue
  unchanged, exactly when the queue is not empty and no marker has passed; on an empty queue it resets the lag.
\<close>
lemma vmw_marker_pull_spec:
  assumes "seq_dist base s < 2 ^ 30" "\<forall>mk \<in> set (mq_head q). seq_dist base (mk_seqno mk) < 2 ^ 30"
    and "vmw_marker_pull now s q = (q', r)"
  defines "passed \<equiv> filter (\<lambda>mk. seq_dist base (mk_seqno mk) \<le> seq_dist base s) (mq_head q)"
  shows "mq_head q' = filter (\<lambda>mk. seq_dist base s < seq_dist base (mk_seqno mk)) (mq_head q) \<and>
    (if mq_head q \<noteq> [] \<and> passed = [] then r = Inl EBUSY \<and> q' = q
     else r = Inr () \<and> mq_lag_time q' = now \<and>
       mq_lag q' = (if mq_head q = [] then 0 else now - mk_submitted (last passed)))"
proof (cases "mq_head q = []")
  case True
  with assms(3) show ?thesis by (auto simp: vmw_marker_pull_def)
next
  case False
  have iff: "s - mk_seqno mk > 0x40000000 \<longleftrightarrow> seq_dist base s < seq_dist base (mk_seqno mk)"
    if "mk \<in> set (mq_head q)" for mk
    using marker_win.not_passed_iff[of base s "mk_seqno mk"] assms(1,2) that by simp
  have kept: "filter (\<lambda>mk. s - mk_seqno mk > 0x40000000) (mq_head q) =
      filter (\<lambda>mk. seq_dist base s < seq_dist base (mk_seqno mk)) (mq_head q)"
    using iff by (intro filter_cong) auto
  have gone: "filter (\<lambda>mk. \<not> s - mk_seqno mk > 0x40000000) (mq_head q) = passed"
    using iff unfolding passed_def by (intro filter_cong) auto
  obtain q1 upd where l: "marker_pull_loop s now (mq_head q) q False = (q1, upd)" by fastforce
  note spec = marker_pull_loop_spec[OF l, of "[]", simplified, unfolded kept gone]
  have "upd \<longleftrightarrow> passed \<noteq> []" using spec(2) gone by (auto simp: filter_empty_conv)
  with l False assms(3) spec show ?thesis
    by (auto simp: vmw_marker_pull_def passed_def)
qed

text \<open>Witness: three markers around the wrap-around, of which the first two have passed.\<close>
lemma vmw_marker_pull_spec_example:
  "mq_head (fst (vmw_marker_pull 100 0 \<lparr>mq_head = [\<lparr>mk_seqno = 0xFFFFFFFF, mk_submitted = 10\<rparr>,
      \<lparr>mk_seqno = 0, mk_submitted = 30\<rparr>, \<lparr>mk_seqno = 1, mk_submitted = 50\<rparr>], mq_lag = 0, mq_lag_time = 0\<rparr>)) =
   [\<lparr>mk_seqno = 1, mk_submitted = 50\<rparr>] \<and>
   mq_lag (fst (vmw_marker_pull 100 0 \<lparr>mq_head = [\<lparr>mk_seqno = 0xFFFFFFFF, mk_submitted = 10\<rparr>,
      \<lparr>mk_seqno = 0, mk_submitted = 30\<rparr>, \<lparr>mk_seqno = 1, mk_submitted = 50\<rparr>], mq_lag = 0, mq_lag_time = 0\<rparr>)) = 70"
proof -
  let ?q = "\<lparr>mq_head = [\<lparr>mk_seqno = 0xFFFFFFFF, mk_submitted = 10\<rparr>,
      \<lparr>mk_seqno = 0, mk_submitted = 30\<rparr>, \<lparr>mk_seqno = 1, mk_submitted = 50\<rparr>], mq_lag = 0, mq_lag_time = 0\<rparr>"
  have "seq_dist 0xFFFFFFF0 0 < 2 ^ 30" "\<forall>mk \<in> set (mq_head ?q). seq_dist 0xFFFFFFF0 (mk_seqno mk) < 2 ^ 30"
    by (simp_all add: seq_dist_def)
  from vmw_marker_pull_spec[OF this prod.collapse[symmetric]] show ?thesis by (simp add: seq_dist_def)
qed

lemma goal_new_other:
  assumes "vmw_fence_goal_new_locked s dev = (dev', b)"
  shows "fifo dev' = fifo dev" "last_read_seqno dev' = last_read_seqno dev" "marker_seq dev' = marker_seq dev"
    "regs dev' = regs dev" "i \<noteq> SVGA_FIFO_FENCE_GOAL \<Longrightarrow> mmio dev' i = mmio dev i"
  using assms by (cases rule: goal_new_cases[of s dev]; auto)+

lemma fences_rerun_other:
  "fifo (fences_rerun rs s dev) = fifo dev" "last_read_seqno (fences_rerun rs s dev) = last_read_seqno dev"
  "marker_seq (fences_rerun rs s dev) = marker_seq dev" "regs (fences_rerun rs s dev) = regs dev"
  "i \<noteq> SVGA_FIFO_FENCE_GOAL \<Longrightarrow> i \<noteq> SVGA_FIFO_FENCE \<Longrightarrow> mmio (fences_rerun rs s dev) i = mmio dev i"
proof -
  let ?P = "\<lambda>d d'. fifo d' = fifo d \<and> last_read_seqno d' = last_read_seqno d \<and> marker_seq d' = marker_seq d \<and>
      regs d' = regs d \<and> (\<forall>i. i \<noteq> SVGA_FIFO_FENCE_GOAL \<longrightarrow> i \<noteq> SVGA_FIFO_FENCE \<longrightarrow> mmio d' i = mmio d i)"
  have one: "?P dev d" if "vmw_fence_goal_new_locked s (scanned s dev) = (d, b)" for s dev d b
    using goal_new_other[OF that] by (simp add: scanned_def)
  have "?P dev (fences_rerun rs s dev)"
  proof (induction rs arbitrary: s dev)
    case Nil
    obtain d b where "vmw_fence_goal_new_locked s (scanned s dev) = (d, b)" by fastforce
    with one[OF this] show ?case by (auto simp: fences_rerun_step[of _ s dev] split: bool.split)
  next
    case (Cons r rs)
    obtain d b where g: "vmw_fence_goal_new_locked s (scanned s dev) = (d, b)" by fastforce
    from one[OF g] Cons[of r "mmio_write r SVGA_FIFO_FENCE d"] g show ?case
      by (auto simp: fences_rerun_step[of _ s dev] Let_def split: bool.split)
  qed
  then show "fifo (fences_rerun rs s dev) = fifo dev" "last_read_seqno (fences_rerun rs s dev) = last_read_seqno dev"
    "marker_seq (fences_rerun rs s dev) = marker_seq dev" "regs (fences_rerun rs s dev) = regs dev"
    "i \<noteq> SVGA_FIFO_FENCE_GOAL \<Longrightarrow> i \<noteq> SVGA_FIFO_FENCE \<Longrightarrow> mmio (fences_rerun rs s dev) i = mmio dev i"
    by auto
qed

lemma vmw_fences_update_other [simp]:
  "fifo (vmw_fences_update rs dev) = fifo dev" "last_read_seqno (vmw_fences_update rs dev) = last_read_seqno dev"
  "marker_seq (vmw_fences_update rs dev) = marker_seq dev" "regs (vmw_fences_update rs dev) = regs dev"
  "i \<noteq> SVGA_FIFO_FENCE_GOAL \<Longrightarrow> i \<noteq> SVGA_FIFO_FENCE \<Longrightarrow> mmio (vmw_fences_update rs dev) i = mmio dev i"
  by (simp_all add: vmw_fences_update_def vmw_fences_update_locked_def Let_def fences_rerun_other)

lemma vmw_update_seqno_effect:
  "last_read_seqno (vmw_update_seqno now dev) = mmio dev SVGA_FIFO_FENCE"
  "marker_seq (vmw_update_seqno now dev) = marker_seq dev"
  "fifo_capabilities (fifo (vmw_update_seqno now dev)) = fifo_capabilities (fifo dev)"
  "i \<noteq> SVGA_FIFO_FENCE_GOAL \<Longrightarrow> i \<noteq> SVGA_FIFO_FENCE \<Longrightarrow> mmio (vmw_update_seqno now dev) i = mmio dev i"
  by (simp_all add: vmw_update_seqno_def Let_def)

text \<open>\<open>vmw_seqno_passed\<close> decides correctly. For sequence numbers within a window of \<open>2 ^ 24\<close>
  and a device with the fence capability, it answers yes exactly when the device's fence
  register has reached the sequence number, or when the number is beyond the last one emitted (a stale
  number from before a wrap); if it had to look at the device, the cached value is up to date afterwards.
\<close>
lemma vmw_seqno_passed_correct:
  assumes "fifo_capabilities (fifo dev) AND SVGA_FIFO_CAP_FENCE \<noteq> 0"
    and "seq_dist base (mmio dev SVGA_FIFO_FENCE) < 2 ^ 24" "seq_dist base seqno < 2 ^ 24"
    and "seq_dist base (marker_seq dev) < 2 ^ 24"
    and "seq_dist base (last_read_seqno dev) \<le> seq_dist base (mmio dev SVGA_FIFO_FENCE)"
    and "vmw_seqno_passed now seqno dev = (dev', passed)"
  shows "(passed \<longleftrightarrow> seq_dist base seqno \<le> seq_dist base (mmio dev SVGA_FIFO_FENCE) \<or>
      seq_dist base (marker_seq dev) < seq_dist base seqno) \<and>
    (dev' \<noteq> dev \<longrightarrow> last_read_seqno dev' = mmio dev SVGA_FIFO_FENCE)"
proof -
  have lr: "seq_dist base (last_read_seqno dev) < 2 ^ 24" using assms(2,5) by simp
  note iff = irq_win.passed_iff[of base "last_read_seqno dev" seqno] irq_win.passed_iff[of base "mmio dev SVGA_FIFO_FENCE" seqno]
    irq_win.not_passed_iff[of base "marker_seq dev" seqno]
  show ?thesis
    using assms lr iff
    by (auto simp: vmw_seqno_passed_def Let_def vmw_update_seqno_effect split: if_splits)
qed

text \<open>Witness: the register at the second of the three fences, asked about the third.\<close>
lemma vmw_seqno_passed_correct_example:
  "\<not> snd (vmw_seqno_passed 0 1 (three_fences\<lparr>fifo := idle_fifo\<lparr>fifo_capabilities := 1\<rparr>,
      last_read_seqno := 0xFFFFFFFE, marker_seq := 1\<rparr>))"
proof -
  let ?d = "three_fences\<lparr>fifo := idle_fifo\<lparr>fifo_capabilities := 1\<rparr>, last_read_seqno := 0xFFFFFFFE, marker_seq := 1\<rparr>"
  have "fifo_capabilities (fifo ?d) AND SVGA_FIFO_CAP_FENCE \<noteq> 0" "seq_dist 0xFFFFFFF0 (mmio ?d SVGA_FIFO_FENCE) < 2 ^ 24"
    "seq_dist 0xFFFFFFF0 1 < 2 ^ 24" "seq_dist 0xFFFFFFF0 (marker_seq ?d) < 2 ^ 24"
    "seq_dist 0xFFFFFFF0 (last_read_seqno ?d) \<le> seq_dist 0xFFFFFFF0 (mmio ?d SVGA_FIFO_FENCE)"
    by (simp_all add: three_fences_def seq_dist_def)
  from vmw_seqno_passed_correct[OF this prod.collapse[symmetric], of 0] show ?thesis
    by (simp add: three_fences_def seq_dist_def)
qed

section \<open>Emitting fences\<close>

lemma fifo_reserve_loop_marker:
  "fifo_reserve_loop vmalloc hvs dev bytes fmax fmin nx = Some (dev', ptr) \<Longrightarrow> marker_seq dev' = marker_seq dev"
proof (induction hvs arbitrary: dev)
  case (Cons hv hvs)
  have w: "marker_seq d2 = marker_seq d" if "vmw_fifo_wait d bytes False hv = (d2, r)" for d d2 r
    using that by (auto simp: vmw_fifo_wait_def vmw_fifo_wait_noirq_def fifo_sleep_def Let_def waiter_defs
        vmw_fifo_ping_host_def vmw_write_def split: if_splits)
  have b: "marker_seq (fst (fifo_bounce vmalloc d bytes)) = marker_seq d" for d
    by (simp add: fifo_bounce_def fifo_out_err_def Let_def)
  show ?case
    using Cons.prems Cons.IH w b[of "mmio_write (hv_stop hv) SVGA_FIFO_STOP dev"]
    by (auto simp: Let_def fifo_out_err_def split: fifo_action.splits if_splits prod.splits sum.splits)
qed simp

lemma fifo_slow_loop_frame:
  "fifo_slow_loop k buf dev nx fmax fmin = Inr dev' \<Longrightarrow> \<exists>f. dev' = dev\<lparr>mmio := f\<rparr>"
proof (induction k buf dev nx fmax fmin rule: fifo_slow_loop.induct)
  case (1 buf dev nx fmax fmin)
  then show ?case by (auto intro!: exI[of _ "mmio dev'"])
qed (auto simp: Let_def)

lemma vmw_local_fifo_commit_marker:
  assumes "vmw_local_fifo_commit dev b = Inr dev'"
  shows "marker_seq dev' = marker_seq dev"
proof -
  have copy: "marker_seq d' = marker_seq d" if "fifo_commit_copy d nx fmax fmin b = Inr d'" for d d' nx fmax fmin b
    using that by (auto simp: fifo_commit_copy_def vmw_fifo_res_copy_def vmw_fifo_slow_copy_def Let_def
        split: if_splits dest!: fifo_slow_loop_frame)
  have fin: "marker_seq (fifo_commit_finish d nx fmax fmin b) = marker_seq d" for d nx fmax fmin b
    by (simp add: fifo_commit_finish_def Let_def vmw_fifo_ping_host_def vmw_write_def)
  show ?thesis
    using assms by (auto simp: vmw_local_fifo_commit_def Let_def fin dest!: copy split: if_splits)
qed

lemma next_seqno_props:
  "next_seqno s \<noteq> 0" "seq_dist s (next_seqno s) \<in> {1, 2}" "seq_dist s (next_seqno s) = 2 \<longleftrightarrow> s = 0xFFFFFFFF"
proof -
  have m: "(- 1 :: u32) = 0xFFFFFFFF" by simp
  have s: "s + 1 = 0 \<longleftrightarrow> s = 0xFFFFFFFF" using eq_neg_iff_add_eq_0[of s 1] by (simp only: m)
  show "next_seqno s \<noteq> 0" by (simp add: next_seqno.simps)
  have "seq_dist s (next_seqno s) = (if s = 0xFFFFFFFF then 2 else 1)"
    by (simp add: seq_dist_def s next_seqno.simps)
  then show "seq_dist s (next_seqno s) \<in> {1, 2}" "seq_dist s (next_seqno s) = 2 \<longleftrightarrow> s = 0xFFFFFFFF" by auto
qed

lemma fifo_content_cong:
  assumes "\<And>i. i \<noteq> SVGA_FIFO_FENCE_GOAL \<Longrightarrow> i \<noteq> SVGA_FIFO_FENCE \<Longrightarrow> mmio d' i = mmio d i" "fifo_ok d"
  shows "fifo_content d' = fifo_content d \<and> fifo_ok d'"
proof -
  have g: "fifo_geom d' (fifo_base d) (fifo_cap d) (fifo_tail d) (fifo_head d)"
    using fifo_geom_of_ok[OF assms(2)] assms(1) by (simp add: fifo_geom_def)
  have m: "1024 \<le> fifo_base d" using g by (simp add: fifo_geom_def)
  show ?thesis
    using assms(1) m fifo_ok_of_geom[OF g] fifo_used_geom[OF g] fifo_used_geom[OF fifo_geom_of_ok[OF assms(2)]]
    by (simp add: fifo_content_def)
qed

text \<open>\<open>vmw_fifo_send_fence\<close> on a device with the fence capability. Once FIFO space is
  there, it appends exactly the two-word command \<open>SVGA_CMD_FENCE, seqno\<close> to the FIFO and
  returns success; the sequence number is the successor of the last one emitted, skipping zero, which
  is never used; the FIFO is left well-formed.
\<close>
lemma vmw_fifo_send_fence_emits:
  assumes "fifo_ok dev" "fifo_idle dev" "vmalloc_ok vmalloc"
    and "list_all (\<lambda>hv. ring_pos_ok dev (hv_stop hv)) hvs"
    and "vmw_local_fifo_reserve vmalloc hvs dev 8 = Some (Inr (dev1, Some ptr))"
    and "fifo_capabilities (fifo dev1) AND SVGA_FIFO_CAP_FENCE \<noteq> 0"
  shows "\<exists>dev'. vmw_fifo_send_fence vmalloc hvs pvs oom now dev = Some (Inr (dev', next_seqno (marker_seq dev), Inr ())) \<and>
    fifo_content dev' = fifo_content dev1 @ [30, next_seqno (marker_seq dev)] \<and> fifo_ok dev' \<and>
    marker_seq dev' = next_seqno (marker_seq dev) \<and> next_seqno (marker_seq dev) \<noteq> 0"
proof -
  let ?s = "next_seqno (marker_seq dev)"
  have ms: "marker_seq dev1 = marker_seq dev"
    using assms(5) fifo_reserve_loop_marker
    by (fastforce simp: vmw_local_fifo_reserve_def Let_def fifo_out_err_def split: if_splits)
  let ?d1 = "dev1\<lparr>marker_seq := ?s\<rparr>"
  obtain d2 where c: "vmw_local_fifo_commit (fifo_fill ptr [30, ?s] ?d1) 8 = Inr d2"
    and content: "fifo_content d2 = fifo_content dev1 @ [30, ?s]" and ok: "fifo_ok d2"
    using fifo_reserve_commit[OF assms(1-5), of "[30, ?s]" ?d1] by auto
  have m2: "marker_seq d2 = ?s"
    using vmw_local_fifo_commit_marker[OF c] by (simp add: fifo_fill_def split: fifo_ptr.split)
  let ?d3 = "upd_fifo (\<lambda>f. f\<lparr>marker_queue := fst (vmw_marker_push oom now ?s (marker_queue f))\<rparr>) d2"
  have run: "vmw_fifo_send_fence vmalloc hvs pvs oom now dev = Some (Inr (vmw_update_seqno now ?d3, ?s, Inr ()))"
    using assms(5,6) c ms by (simp add: vmw_fifo_send_fence_def Let_def)
  have "fifo_content (vmw_update_seqno now ?d3) = fifo_content d2 \<and> fifo_ok (vmw_update_seqno now ?d3)"
    using ok by (intro fifo_content_cong) (simp_all add: vmw_update_seqno_effect)
  then show ?thesis
    using run content m2 next_seqno_props(1) by (auto simp: vmw_update_seqno_effect)
qed

text \<open>Witness: the first fence on an empty FIFO.\<close>
lemma vmw_fifo_send_fence_emits_example:
  "\<exists>dev'. vmw_fifo_send_fence (\<lambda>b. None) [\<lparr>hv_stop = 4096, hv_wait_stop = 4096, hv_signal = False\<rparr>] [] False 0
      (small_fifo 65 4096 4096) = Some (Inr (dev', 1, Inr ())) \<and> fifo_content dev' = [30, 1]"
proof -
  let ?hv = "\<lparr>hv_stop = 4096, hv_wait_stop = 4096, hv_signal = False\<rparr>"
  let ?dev = "small_fifo 65 4096 4096"
  obtain dev1 where r: "vmw_local_fifo_reserve (\<lambda>b. None) [?hv] ?dev 8 = Some (Inr (dev1, Some (In_place 1024)))"
    and d1: "fifo_capabilities (fifo dev1) = 65" "mmio dev1 SVGA_FIFO_MIN = 4096" "mmio dev1 SVGA_FIFO_MAX = 4128"
      "mmio dev1 SVGA_FIFO_NEXT_CMD = 4096" "mmio dev1 SVGA_FIFO_STOP = 4096"
    by (simp add: small_fifo_eval)
  have "fifo_ok ?dev" "fifo_idle ?dev" "vmalloc_ok (\<lambda>b. None)" "marker_seq ?dev = 0"
    "list_all (\<lambda>hv. ring_pos_ok ?dev (hv_stop hv)) [?hv]"
    by (simp_all add: small_fifo_eval)
  moreover have "fifo_content dev1 = []"
    by (simp add: fifo_content_def fifo_used_def fifo_tail_def fifo_cap_def fifo_head_def fifo_base_def d1)
  ultimately show ?thesis
    using vmw_fifo_send_fence_emits[OF _ _ _ _ r, of "[]" False 0] d1(1) by (auto simp: next_seqno.simps)
qed

end
