(* ===== verification/Execbuf.thy ===== *)
theory Execbuf
  imports Vmw_Prelude
begin

text \<open>
  The command verifier of \<open>src/vmwgfx_execbuf.c\<close>: the table of commands, the check of one
  command, the loop over a submitted command buffer, the relocations applied before
  submission and the growth of the bounce buffer. A command buffer is memory, a function
  from byte addresses to bytes, with a start and a size; commands are read as little-endian
  32-bit words, as the code reads them, also past the end of the buffer where the code does so. What the
  handler of a command does beyond \<open>vmw_cmd_invalid\<close> and \<open>vmw_cmd_ok\<close> is an argument, over which
  the theorems are quantified: a handler may change the software context and rewrite the command memory, its own
  command (as \<open>vmw_cmd_begin_query\<close> and \<open>vmw_cmd_set_shader_const\<close> do) or any other.
\<close>

section \<open>The command table\<close>

abbreviation (input) SVGA_CMD_MAX :: u32 where "SVGA_CMD_MAX \<equiv> 47"
abbreviation (input) SVGA_3D_CMD_BASE :: u32 where "SVGA_3D_CMD_BASE \<equiv> 1040"
abbreviation (input) SVGA_3D_CMD_MAX :: u32 where "SVGA_3D_CMD_MAX \<equiv> 1245"

datatype cmd_func =
    vmw_cmd_invalid
  | vmw_cmd_surface_copy_check
  | vmw_cmd_stretch_blt_check
  | vmw_cmd_dma
  | vmw_cmd_cid_check
  | vmw_cmd_set_render_target_check
  | vmw_cmd_tex_state
  | vmw_cmd_present_check
  | vmw_cmd_shader_define
  | vmw_cmd_shader_destroy
  | vmw_cmd_set_shader
  | vmw_cmd_set_shader_const
  | vmw_cmd_draw
  | vmw_cmd_begin_query
  | vmw_cmd_end_query
  | vmw_cmd_wait_query
  | vmw_cmd_ok
  | vmw_cmd_blt_surf_screen_check
  | vmw_cmd_bind_gb_surface
  | vmw_cmd_update_gb_image
  | vmw_cmd_update_gb_surface
  | vmw_cmd_readback_gb_image
  | vmw_cmd_readback_gb_surface
  | vmw_cmd_invalidate_gb_image
  | vmw_cmd_invalidate_gb_surface
  | vmw_cmd_bind_gb_shader
  | vmw_cmd_begin_gb_query
  | vmw_cmd_end_gb_query
  | vmw_cmd_wait_gb_query
  | vmw_cmd_dx_set_single_constant_buffer
  | vmw_cmd_dx_set_shader_res
  | vmw_cmd_dx_set_shader
  | vmw_cmd_dx_cid_check
  | vmw_cmd_dx_set_vertex_buffers
  | vmw_cmd_dx_set_index_buffer
  | vmw_cmd_dx_set_rendertargets
  | vmw_cmd_dx_define_query
  | vmw_cmd_dx_bind_query
  | vmw_cmd_dx_clear_rendertarget_view
  | vmw_cmd_dx_clear_depthstencil_view
  | vmw_cmd_dx_genmips
  | vmw_cmd_dx_check_subresource
  | vmw_cmd_dx_view_define
  | vmw_cmd_dx_view_remove
  | vmw_cmd_dx_so_define
  | vmw_cmd_dx_define_shader
  | vmw_cmd_dx_destroy_shader
  | vmw_cmd_dx_bind_shader
  | vmw_cmd_dx_set_so_targets
  | vmw_cmd_buffer_copy_check
  | vmw_cmd_pred_copy_check
  | vmw_cmd_dx_transfer_from_buffer
  | vmw_cmd_intra_surface_copy

record vmw_cmd_entry =
  ce_func :: cmd_func
  user_allow :: bool
  gb_disable :: bool
  gb_enable :: bool
  cmd_name :: string

text \<open>
  The designated initializers of \<open>vmw_cmd_entries\<close>, by command number; the slots the
  table does not name are zero, that is, without a handler.
\<close>

definition vmw_cmd_entries_1 :: "(u32 \<times> vmw_cmd_entry) list" where
  "vmw_cmd_entries_1 =
    [(1040, \<lparr>ce_func = vmw_cmd_invalid, user_allow = False, gb_disable = False, gb_enable = False, cmd_name = ''SVGA_3D_CMD_SURFACE_DEFINE''\<rparr>),
     (1041, \<lparr>ce_func = vmw_cmd_invalid, user_allow = False, gb_disable = False, gb_enable = False, cmd_name = ''SVGA_3D_CMD_SURFACE_DESTROY''\<rparr>),
     (1042, \<lparr>ce_func = vmw_cmd_surface_copy_check, user_allow = True, gb_disable = False, gb_enable = False, cmd_name = ''SVGA_3D_CMD_SURFACE_COPY''\<rparr>),
     (1043, \<lparr>ce_func = vmw_cmd_stretch_blt_check, user_allow = True, gb_disable = False, gb_enable = False, cmd_name = ''SVGA_3D_CMD_SURFACE_STRETCHBLT''\<rparr>),
     (1044, \<lparr>ce_func = vmw_cmd_dma, user_allow = True, gb_disable = False, gb_enable = False, cmd_name = ''SVGA_3D_CMD_SURFACE_DMA''\<rparr>),
     (1045, \<lparr>ce_func = vmw_cmd_invalid, user_allow = False, gb_disable = False, gb_enable = False, cmd_name = ''SVGA_3D_CMD_CONTEXT_DEFINE''\<rparr>),
     (1046, \<lparr>ce_func = vmw_cmd_invalid, user_allow = False, gb_disable = False, gb_enable = False, cmd_name = ''SVGA_3D_CMD_CONTEXT_DESTROY''\<rparr>),
     (1047, \<lparr>ce_func = vmw_cmd_cid_check, user_allow = True, gb_disable = False, gb_enable = False, cmd_name = ''SVGA_3D_CMD_SETTRANSFORM''\<rparr>),
     (1048, \<lparr>ce_func = vmw_cmd_cid_check, user_allow = True, gb_disable = False, gb_enable = False, cmd_name = ''SVGA_3D_CMD_SETZRANGE''\<rparr>),
     (1049, \<lparr>ce_func = vmw_cmd_cid_check, user_allow = True, gb_disable = False, gb_enable = False, cmd_name = ''SVGA_3D_CMD_SETRENDERSTATE''\<rparr>),
     (1050, \<lparr>ce_func = vmw_cmd_set_render_target_check, user_allow = True, gb_disable = False, gb_enable = False, cmd_name = ''SVGA_3D_CMD_SETRENDERTARGET''\<rparr>),
     (1051, \<lparr>ce_func = vmw_cmd_tex_state, user_allow = True, gb_disable = False, gb_enable = False, cmd_name = ''SVGA_3D_CMD_SETTEXTURESTATE''\<rparr>),
     (1052, \<lparr>ce_func = vmw_cmd_cid_check, user_allow = True, gb_disable = False, gb_enable = False, cmd_name = ''SVGA_3D_CMD_SETMATERIAL''\<rparr>),
     (1053, \<lparr>ce_func = vmw_cmd_cid_check, user_allow = True, gb_disable = False, gb_enable = False, cmd_name = ''SVGA_3D_CMD_SETLIGHTDATA''\<rparr>),
     (1054, \<lparr>ce_func = vmw_cmd_cid_check, user_allow = True, gb_disable = False, gb_enable = False, cmd_name = ''SVGA_3D_CMD_SETLIGHTENABLED''\<rparr>),
     (1055, \<lparr>ce_func = vmw_cmd_cid_check, user_allow = True, gb_disable = False, gb_enable = False, cmd_name = ''SVGA_3D_CMD_SETVIEWPORT''\<rparr>),
     (1056, \<lparr>ce_func = vmw_cmd_cid_check, user_allow = True, gb_disable = False, gb_enable = False, cmd_name = ''SVGA_3D_CMD_SETCLIPPLANE''\<rparr>),
     (1057, \<lparr>ce_func = vmw_cmd_cid_check, user_allow = True, gb_disable = False, gb_enable = False, cmd_name = ''SVGA_3D_CMD_CLEAR''\<rparr>),
     (1058, \<lparr>ce_func = vmw_cmd_present_check, user_allow = False, gb_disable = False, gb_enable = False, cmd_name = ''SVGA_3D_CMD_PRESENT''\<rparr>),
     (1059, \<lparr>ce_func = vmw_cmd_shader_define, user_allow = True, gb_disable = False, gb_enable = False, cmd_name = ''SVGA_3D_CMD_SHADER_DEFINE''\<rparr>),
     (1060, \<lparr>ce_func = vmw_cmd_shader_destroy, user_allow = True, gb_disable = False, gb_enable = False, cmd_name = ''SVGA_3D_CMD_SHADER_DESTROY''\<rparr>),
     (1061, \<lparr>ce_func = vmw_cmd_set_shader, user_allow = True, gb_disable = False, gb_enable = False, cmd_name = ''SVGA_3D_CMD_SET_SHADER''\<rparr>),
     (1062, \<lparr>ce_func = vmw_cmd_set_shader_const, user_allow = True, gb_disable = False, gb_enable = False, cmd_name = ''SVGA_3D_CMD_SET_SHADER_CONST''\<rparr>),
     (1063, \<lparr>ce_func = vmw_cmd_draw, user_allow = True, gb_disable = False, gb_enable = False, cmd_name = ''SVGA_3D_CMD_DRAW_PRIMITIVES''\<rparr>),
     (1064, \<lparr>ce_func = vmw_cmd_cid_check, user_allow = True, gb_disable = False, gb_enable = False, cmd_name = ''SVGA_3D_CMD_SETSCISSORRECT''\<rparr>),
     (1065, \<lparr>ce_func = vmw_cmd_begin_query, user_allow = True, gb_disable = False, gb_enable = False, cmd_name = ''SVGA_3D_CMD_BEGIN_QUERY''\<rparr>),
     (1066, \<lparr>ce_func = vmw_cmd_end_query, user_allow = True, gb_disable = False, gb_enable = False, cmd_name = ''SVGA_3D_CMD_END_QUERY''\<rparr>),
     (1067, \<lparr>ce_func = vmw_cmd_wait_query, user_allow = True, gb_disable = False, gb_enable = False, cmd_name = ''SVGA_3D_CMD_WAIT_FOR_QUERY''\<rparr>),
     (1068, \<lparr>ce_func = vmw_cmd_ok, user_allow = True, gb_disable = False, gb_enable = False, cmd_name = ''SVGA_3D_CMD_PRESENT_READBACK''\<rparr>),
     (1069, \<lparr>ce_func = vmw_cmd_blt_surf_screen_check, user_allow = False, gb_disable = False, gb_enable = False, cmd_name = ''SVGA_3D_CMD_BLIT_SURFACE_TO_SCREEN''\<rparr>),
     (1070, \<lparr>ce_func = vmw_cmd_invalid, user_allow = False, gb_disable = False, gb_enable = False, cmd_name = ''SVGA_3D_CMD_SURFACE_DEFINE_V2''\<rparr>),
     (1071, \<lparr>ce_func = vmw_cmd_invalid, user_allow = False, gb_disable = False, gb_enable = False, cmd_name = ''SVGA_3D_CMD_GENERATE_MIPMAPS''\<rparr>),
     (1080, \<lparr>ce_func = vmw_cmd_invalid, user_allow = False, gb_disable = False, gb_enable = False, cmd_name = ''SVGA_3D_CMD_ACTIVATE_SURFACE''\<rparr>),
     (1081, \<lparr>ce_func = vmw_cmd_invalid, user_allow = False, gb_disable = False, gb_enable = False, cmd_name = ''SVGA_3D_CMD_DEACTIVATE_SURFACE''\<rparr>),
     (1082, \<lparr>ce_func = vmw_cmd_invalid, user_allow = False, gb_disable = False, gb_enable = False, cmd_name = ''SVGA_3D_CMD_SCREEN_DMA''\<rparr>),
     (1083, \<lparr>ce_func = vmw_cmd_invalid, user_allow = False, gb_disable = False, gb_enable = False, cmd_name = ''SVGA_3D_CMD_DEAD1''\<rparr>),
     (1084, \<lparr>ce_func = vmw_cmd_invalid, user_allow = False, gb_disable = False, gb_enable = False, cmd_name = ''SVGA_3D_CMD_DEAD2''\<rparr>),
     (1085, \<lparr>ce_func = vmw_cmd_invalid, user_allow = False, gb_disable = False, gb_enable = False, cmd_name = ''SVGA_3D_CMD_LOGICOPS_BITBLT''\<rparr>),
     (1086, \<lparr>ce_func = vmw_cmd_invalid, user_allow = False, gb_disable = False, gb_enable = False, cmd_name = ''SVGA_3D_CMD_LOGICOPS_TRANSBLT''\<rparr>),
     (1087, \<lparr>ce_func = vmw_cmd_invalid, user_allow = False, gb_disable = False, gb_enable = False, cmd_name = ''SVGA_3D_CMD_LOGICOPS_STRETCHBLT''\<rparr>),
     (1088, \<lparr>ce_func = vmw_cmd_invalid, user_allow = False, gb_disable = False, gb_enable = False, cmd_name = ''SVGA_3D_CMD_LOGICOPS_COLORFILL''\<rparr>),
     (1089, \<lparr>ce_func = vmw_cmd_invalid, user_allow = False, gb_disable = False, gb_enable = False, cmd_name = ''SVGA_3D_CMD_LOGICOPS_ALPHABLEND''\<rparr>),
     (1090, \<lparr>ce_func = vmw_cmd_invalid, user_allow = False, gb_disable = False, gb_enable = False, cmd_name = ''SVGA_3D_CMD_LOGICOPS_CLEARTYPEBLEND''\<rparr>),
     (1091, \<lparr>ce_func = vmw_cmd_invalid, user_allow = False, gb_disable = False, gb_enable = True, cmd_name = ''SVGA_3D_CMD_SET_OTABLE_BASE''\<rparr>),
     (1092, \<lparr>ce_func = vmw_cmd_invalid, user_allow = False, gb_disable = False, gb_enable = True, cmd_name = ''SVGA_3D_CMD_READBACK_OTABLE''\<rparr>),
     (1093, \<lparr>ce_func = vmw_cmd_invalid, user_allow = False, gb_disable = False, gb_enable = True, cmd_name = ''SVGA_3D_CMD_DEFINE_GB_MOB''\<rparr>),
     (1094, \<lparr>ce_func = vmw_cmd_invalid, user_allow = False, gb_disable = False, gb_enable = True, cmd_name = ''SVGA_3D_CMD_DESTROY_GB_MOB''\<rparr>),
     (1136, \<lparr>ce_func = vmw_cmd_invalid, user_allow = False, gb_disable = False, gb_enable = True, cmd_name = ''SVGA_3D_CMD_REDEFINE_GB_MOB64''\<rparr>),
     (1096, \<lparr>ce_func = vmw_cmd_invalid, user_allow = False, gb_disable = False, gb_enable = True, cmd_name = ''SVGA_3D_CMD_UPDATE_GB_MOB_MAPPING''\<rparr>),
     (1097, \<lparr>ce_func = vmw_cmd_invalid, user_allow = False, gb_disable = False, gb_enable = True, cmd_name = ''SVGA_3D_CMD_DEFINE_GB_SURFACE''\<rparr>),
     (1098, \<lparr>ce_func = vmw_cmd_invalid, user_allow = False, gb_disable = False, gb_enable = True, cmd_name = ''SVGA_3D_CMD_DESTROY_GB_SURFACE''\<rparr>),
     (1099, \<lparr>ce_func = vmw_cmd_bind_gb_surface, user_allow = True, gb_disable = False, gb_enable = True, cmd_name = ''SVGA_3D_CMD_BIND_GB_SURFACE''\<rparr>)]"

definition vmw_cmd_entries_2 :: "(u32 \<times> vmw_cmd_entry) list" where
  "vmw_cmd_entries_2 =
    [(1100, \<lparr>ce_func = vmw_cmd_invalid, user_allow = False, gb_disable = False, gb_enable = True, cmd_name = ''SVGA_3D_CMD_COND_BIND_GB_SURFACE''\<rparr>),
     (1101, \<lparr>ce_func = vmw_cmd_update_gb_image, user_allow = True, gb_disable = False, gb_enable = True, cmd_name = ''SVGA_3D_CMD_UPDATE_GB_IMAGE''\<rparr>),
     (1102, \<lparr>ce_func = vmw_cmd_update_gb_surface, user_allow = True, gb_disable = False, gb_enable = True, cmd_name = ''SVGA_3D_CMD_UPDATE_GB_SURFACE''\<rparr>),
     (1103, \<lparr>ce_func = vmw_cmd_readback_gb_image, user_allow = True, gb_disable = False, gb_enable = True, cmd_name = ''SVGA_3D_CMD_READBACK_GB_IMAGE''\<rparr>),
     (1104, \<lparr>ce_func = vmw_cmd_readback_gb_surface, user_allow = True, gb_disable = False, gb_enable = True, cmd_name = ''SVGA_3D_CMD_READBACK_GB_SURFACE''\<rparr>),
     (1105, \<lparr>ce_func = vmw_cmd_invalidate_gb_image, user_allow = True, gb_disable = False, gb_enable = True, cmd_name = ''SVGA_3D_CMD_INVALIDATE_GB_IMAGE''\<rparr>),
     (1106, \<lparr>ce_func = vmw_cmd_invalidate_gb_surface, user_allow = True, gb_disable = False, gb_enable = True, cmd_name = ''SVGA_3D_CMD_INVALIDATE_GB_SURFACE''\<rparr>),
     (1107, \<lparr>ce_func = vmw_cmd_invalid, user_allow = False, gb_disable = False, gb_enable = True, cmd_name = ''SVGA_3D_CMD_DEFINE_GB_CONTEXT''\<rparr>),
     (1108, \<lparr>ce_func = vmw_cmd_invalid, user_allow = False, gb_disable = False, gb_enable = True, cmd_name = ''SVGA_3D_CMD_DESTROY_GB_CONTEXT''\<rparr>),
     (1109, \<lparr>ce_func = vmw_cmd_invalid, user_allow = False, gb_disable = False, gb_enable = True, cmd_name = ''SVGA_3D_CMD_BIND_GB_CONTEXT''\<rparr>),
     (1110, \<lparr>ce_func = vmw_cmd_invalid, user_allow = False, gb_disable = False, gb_enable = True, cmd_name = ''SVGA_3D_CMD_READBACK_GB_CONTEXT''\<rparr>),
     (1111, \<lparr>ce_func = vmw_cmd_invalid, user_allow = False, gb_disable = False, gb_enable = True, cmd_name = ''SVGA_3D_CMD_INVALIDATE_GB_CONTEXT''\<rparr>),
     (1112, \<lparr>ce_func = vmw_cmd_invalid, user_allow = False, gb_disable = False, gb_enable = True, cmd_name = ''SVGA_3D_CMD_DEFINE_GB_SHADER''\<rparr>),
     (1114, \<lparr>ce_func = vmw_cmd_bind_gb_shader, user_allow = True, gb_disable = False, gb_enable = True, cmd_name = ''SVGA_3D_CMD_BIND_GB_SHADER''\<rparr>),
     (1113, \<lparr>ce_func = vmw_cmd_invalid, user_allow = False, gb_disable = False, gb_enable = True, cmd_name = ''SVGA_3D_CMD_DESTROY_GB_SHADER''\<rparr>),
     (1115, \<lparr>ce_func = vmw_cmd_invalid, user_allow = False, gb_disable = False, gb_enable = False, cmd_name = ''SVGA_3D_CMD_SET_OTABLE_BASE64''\<rparr>),
     (1116, \<lparr>ce_func = vmw_cmd_begin_gb_query, user_allow = True, gb_disable = False, gb_enable = True, cmd_name = ''SVGA_3D_CMD_BEGIN_GB_QUERY''\<rparr>),
     (1117, \<lparr>ce_func = vmw_cmd_end_gb_query, user_allow = True, gb_disable = False, gb_enable = True, cmd_name = ''SVGA_3D_CMD_END_GB_QUERY''\<rparr>),
     (1118, \<lparr>ce_func = vmw_cmd_wait_gb_query, user_allow = True, gb_disable = False, gb_enable = True, cmd_name = ''SVGA_3D_CMD_WAIT_FOR_GB_QUERY''\<rparr>),
     (1119, \<lparr>ce_func = vmw_cmd_ok, user_allow = True, gb_disable = False, gb_enable = True, cmd_name = ''SVGA_3D_CMD_NOP''\<rparr>),
     (1137, \<lparr>ce_func = vmw_cmd_ok, user_allow = True, gb_disable = False, gb_enable = True, cmd_name = ''SVGA_3D_CMD_NOP_ERROR''\<rparr>),
     (1120, \<lparr>ce_func = vmw_cmd_invalid, user_allow = False, gb_disable = False, gb_enable = True, cmd_name = ''SVGA_3D_CMD_ENABLE_GART''\<rparr>),
     (1121, \<lparr>ce_func = vmw_cmd_invalid, user_allow = False, gb_disable = False, gb_enable = True, cmd_name = ''SVGA_3D_CMD_DISABLE_GART''\<rparr>),
     (1122, \<lparr>ce_func = vmw_cmd_invalid, user_allow = False, gb_disable = False, gb_enable = True, cmd_name = ''SVGA_3D_CMD_MAP_MOB_INTO_GART''\<rparr>),
     (1123, \<lparr>ce_func = vmw_cmd_invalid, user_allow = False, gb_disable = False, gb_enable = True, cmd_name = ''SVGA_3D_CMD_UNMAP_GART_RANGE''\<rparr>),
     (1124, \<lparr>ce_func = vmw_cmd_invalid, user_allow = False, gb_disable = False, gb_enable = True, cmd_name = ''SVGA_3D_CMD_DEFINE_GB_SCREENTARGET''\<rparr>),
     (1125, \<lparr>ce_func = vmw_cmd_invalid, user_allow = False, gb_disable = False, gb_enable = True, cmd_name = ''SVGA_3D_CMD_DESTROY_GB_SCREENTARGET''\<rparr>),
     (1126, \<lparr>ce_func = vmw_cmd_invalid, user_allow = False, gb_disable = False, gb_enable = True, cmd_name = ''SVGA_3D_CMD_BIND_GB_SCREENTARGET''\<rparr>),
     (1127, \<lparr>ce_func = vmw_cmd_invalid, user_allow = False, gb_disable = False, gb_enable = True, cmd_name = ''SVGA_3D_CMD_UPDATE_GB_SCREENTARGET''\<rparr>),
     (1128, \<lparr>ce_func = vmw_cmd_invalid, user_allow = False, gb_disable = False, gb_enable = True, cmd_name = ''SVGA_3D_CMD_READBACK_GB_IMAGE_PARTIAL''\<rparr>),
     (1129, \<lparr>ce_func = vmw_cmd_invalid, user_allow = False, gb_disable = False, gb_enable = True, cmd_name = ''SVGA_3D_CMD_INVALIDATE_GB_IMAGE_PARTIAL''\<rparr>),
     (1130, \<lparr>ce_func = vmw_cmd_cid_check, user_allow = True, gb_disable = False, gb_enable = True, cmd_name = ''SVGA_3D_CMD_SET_GB_SHADERCONSTS_INLINE''\<rparr>),
     (1131, \<lparr>ce_func = vmw_cmd_invalid, user_allow = False, gb_disable = False, gb_enable = True, cmd_name = ''SVGA_3D_CMD_GB_SCREEN_DMA''\<rparr>),
     (1132, \<lparr>ce_func = vmw_cmd_invalid, user_allow = False, gb_disable = False, gb_enable = True, cmd_name = ''SVGA_3D_CMD_BIND_GB_SURFACE_WITH_PITCH''\<rparr>),
     (1133, \<lparr>ce_func = vmw_cmd_invalid, user_allow = False, gb_disable = False, gb_enable = True, cmd_name = ''SVGA_3D_CMD_GB_MOB_FENCE''\<rparr>),
     (1134, \<lparr>ce_func = vmw_cmd_invalid, user_allow = False, gb_disable = False, gb_enable = True, cmd_name = ''SVGA_3D_CMD_DEFINE_GB_SURFACE_V2''\<rparr>),
     (1143, \<lparr>ce_func = vmw_cmd_invalid, user_allow = False, gb_disable = False, gb_enable = True, cmd_name = ''SVGA_3D_CMD_DX_DEFINE_CONTEXT''\<rparr>),
     (1144, \<lparr>ce_func = vmw_cmd_invalid, user_allow = False, gb_disable = False, gb_enable = True, cmd_name = ''SVGA_3D_CMD_DX_DESTROY_CONTEXT''\<rparr>),
     (1145, \<lparr>ce_func = vmw_cmd_invalid, user_allow = False, gb_disable = False, gb_enable = True, cmd_name = ''SVGA_3D_CMD_DX_BIND_CONTEXT''\<rparr>),
     (1146, \<lparr>ce_func = vmw_cmd_invalid, user_allow = False, gb_disable = False, gb_enable = True, cmd_name = ''SVGA_3D_CMD_DX_READBACK_CONTEXT''\<rparr>),
     (1147, \<lparr>ce_func = vmw_cmd_invalid, user_allow = False, gb_disable = False, gb_enable = True, cmd_name = ''SVGA_3D_CMD_DX_INVALIDATE_CONTEXT''\<rparr>),
     (1148, \<lparr>ce_func = vmw_cmd_dx_set_single_constant_buffer, user_allow = True, gb_disable = False, gb_enable = True, cmd_name = ''SVGA_3D_CMD_DX_SET_SINGLE_CONSTANT_BUFFER''\<rparr>),
     (1149, \<lparr>ce_func = vmw_cmd_dx_set_shader_res, user_allow = True, gb_disable = False, gb_enable = True, cmd_name = ''SVGA_3D_CMD_DX_SET_SHADER_RESOURCES''\<rparr>),
     (1150, \<lparr>ce_func = vmw_cmd_dx_set_shader, user_allow = True, gb_disable = False, gb_enable = True, cmd_name = ''SVGA_3D_CMD_DX_SET_SHADER''\<rparr>),
     (1151, \<lparr>ce_func = vmw_cmd_dx_cid_check, user_allow = True, gb_disable = False, gb_enable = True, cmd_name = ''SVGA_3D_CMD_DX_SET_SAMPLERS''\<rparr>),
     (1152, \<lparr>ce_func = vmw_cmd_dx_cid_check, user_allow = True, gb_disable = False, gb_enable = True, cmd_name = ''SVGA_3D_CMD_DX_DRAW''\<rparr>),
     (1153, \<lparr>ce_func = vmw_cmd_dx_cid_check, user_allow = True, gb_disable = False, gb_enable = True, cmd_name = ''SVGA_3D_CMD_DX_DRAW_INDEXED''\<rparr>),
     (1154, \<lparr>ce_func = vmw_cmd_dx_cid_check, user_allow = True, gb_disable = False, gb_enable = True, cmd_name = ''SVGA_3D_CMD_DX_DRAW_INSTANCED''\<rparr>),
     (1155, \<lparr>ce_func = vmw_cmd_dx_cid_check, user_allow = True, gb_disable = False, gb_enable = True, cmd_name = ''SVGA_3D_CMD_DX_DRAW_INDEXED_INSTANCED''\<rparr>),
     (1156, \<lparr>ce_func = vmw_cmd_dx_cid_check, user_allow = True, gb_disable = False, gb_enable = True, cmd_name = ''SVGA_3D_CMD_DX_DRAW_AUTO''\<rparr>),
     (1158, \<lparr>ce_func = vmw_cmd_dx_set_vertex_buffers, user_allow = True, gb_disable = False, gb_enable = True, cmd_name = ''SVGA_3D_CMD_DX_SET_VERTEX_BUFFERS''\<rparr>)]"

definition vmw_cmd_entries_3 :: "(u32 \<times> vmw_cmd_entry) list" where
  "vmw_cmd_entries_3 =
    [(1159, \<lparr>ce_func = vmw_cmd_dx_set_index_buffer, user_allow = True, gb_disable = False, gb_enable = True, cmd_name = ''SVGA_3D_CMD_DX_SET_INDEX_BUFFER''\<rparr>),
     (1161, \<lparr>ce_func = vmw_cmd_dx_set_rendertargets, user_allow = True, gb_disable = False, gb_enable = True, cmd_name = ''SVGA_3D_CMD_DX_SET_RENDERTARGETS''\<rparr>),
     (1162, \<lparr>ce_func = vmw_cmd_dx_cid_check, user_allow = True, gb_disable = False, gb_enable = True, cmd_name = ''SVGA_3D_CMD_DX_SET_BLEND_STATE''\<rparr>),
     (1163, \<lparr>ce_func = vmw_cmd_dx_cid_check, user_allow = True, gb_disable = False, gb_enable = True, cmd_name = ''SVGA_3D_CMD_DX_SET_DEPTHSTENCIL_STATE''\<rparr>),
     (1164, \<lparr>ce_func = vmw_cmd_dx_cid_check, user_allow = True, gb_disable = False, gb_enable = True, cmd_name = ''SVGA_3D_CMD_DX_SET_RASTERIZER_STATE''\<rparr>),
     (1165, \<lparr>ce_func = vmw_cmd_dx_define_query, user_allow = True, gb_disable = False, gb_enable = True, cmd_name = ''SVGA_3D_CMD_DX_DEFINE_QUERY''\<rparr>),
     (1166, \<lparr>ce_func = vmw_cmd_dx_cid_check, user_allow = True, gb_disable = False, gb_enable = True, cmd_name = ''SVGA_3D_CMD_DX_DESTROY_QUERY''\<rparr>),
     (1167, \<lparr>ce_func = vmw_cmd_dx_bind_query, user_allow = True, gb_disable = False, gb_enable = True, cmd_name = ''SVGA_3D_CMD_DX_BIND_QUERY''\<rparr>),
     (1168, \<lparr>ce_func = vmw_cmd_dx_cid_check, user_allow = True, gb_disable = False, gb_enable = True, cmd_name = ''SVGA_3D_CMD_DX_SET_QUERY_OFFSET''\<rparr>),
     (1169, \<lparr>ce_func = vmw_cmd_dx_cid_check, user_allow = True, gb_disable = False, gb_enable = True, cmd_name = ''SVGA_3D_CMD_DX_BEGIN_QUERY''\<rparr>),
     (1170, \<lparr>ce_func = vmw_cmd_dx_cid_check, user_allow = True, gb_disable = False, gb_enable = True, cmd_name = ''SVGA_3D_CMD_DX_END_QUERY''\<rparr>),
     (1171, \<lparr>ce_func = vmw_cmd_invalid, user_allow = True, gb_disable = False, gb_enable = True, cmd_name = ''SVGA_3D_CMD_DX_READBACK_QUERY''\<rparr>),
     (1172, \<lparr>ce_func = vmw_cmd_dx_cid_check, user_allow = True, gb_disable = False, gb_enable = True, cmd_name = ''SVGA_3D_CMD_DX_SET_PREDICATION''\<rparr>),
     (1174, \<lparr>ce_func = vmw_cmd_dx_cid_check, user_allow = True, gb_disable = False, gb_enable = True, cmd_name = ''SVGA_3D_CMD_DX_SET_VIEWPORTS''\<rparr>),
     (1175, \<lparr>ce_func = vmw_cmd_dx_cid_check, user_allow = True, gb_disable = False, gb_enable = True, cmd_name = ''SVGA_3D_CMD_DX_SET_SCISSORRECTS''\<rparr>),
     (1176, \<lparr>ce_func = vmw_cmd_dx_clear_rendertarget_view, user_allow = True, gb_disable = False, gb_enable = True, cmd_name = ''SVGA_3D_CMD_DX_CLEAR_RENDERTARGET_VIEW''\<rparr>),
     (1177, \<lparr>ce_func = vmw_cmd_dx_clear_depthstencil_view, user_allow = True, gb_disable = False, gb_enable = True, cmd_name = ''SVGA_3D_CMD_DX_CLEAR_DEPTHSTENCIL_VIEW''\<rparr>),
     (1179, \<lparr>ce_func = vmw_cmd_invalid, user_allow = True, gb_disable = False, gb_enable = True, cmd_name = ''SVGA_3D_CMD_DX_PRED_COPY''\<rparr>),
     (1181, \<lparr>ce_func = vmw_cmd_dx_genmips, user_allow = True, gb_disable = False, gb_enable = True, cmd_name = ''SVGA_3D_CMD_DX_GENMIPS''\<rparr>),
     (1182, \<lparr>ce_func = vmw_cmd_dx_check_subresource, user_allow = True, gb_disable = False, gb_enable = True, cmd_name = ''SVGA_3D_CMD_DX_UPDATE_SUBRESOURCE''\<rparr>),
     (1183, \<lparr>ce_func = vmw_cmd_dx_check_subresource, user_allow = True, gb_disable = False, gb_enable = True, cmd_name = ''SVGA_3D_CMD_DX_READBACK_SUBRESOURCE''\<rparr>),
     (1184, \<lparr>ce_func = vmw_cmd_dx_check_subresource, user_allow = True, gb_disable = False, gb_enable = True, cmd_name = ''SVGA_3D_CMD_DX_INVALIDATE_SUBRESOURCE''\<rparr>),
     (1185, \<lparr>ce_func = vmw_cmd_dx_view_define, user_allow = True, gb_disable = False, gb_enable = True, cmd_name = ''SVGA_3D_CMD_DX_DEFINE_SHADERRESOURCE_VIEW''\<rparr>),
     (1186, \<lparr>ce_func = vmw_cmd_dx_view_remove, user_allow = True, gb_disable = False, gb_enable = True, cmd_name = ''SVGA_3D_CMD_DX_DESTROY_SHADERRESOURCE_VIEW''\<rparr>),
     (1187, \<lparr>ce_func = vmw_cmd_dx_view_define, user_allow = True, gb_disable = False, gb_enable = True, cmd_name = ''SVGA_3D_CMD_DX_DEFINE_RENDERTARGET_VIEW''\<rparr>),
     (1188, \<lparr>ce_func = vmw_cmd_dx_view_remove, user_allow = True, gb_disable = False, gb_enable = True, cmd_name = ''SVGA_3D_CMD_DX_DESTROY_RENDERTARGET_VIEW''\<rparr>),
     (1189, \<lparr>ce_func = vmw_cmd_dx_view_define, user_allow = True, gb_disable = False, gb_enable = True, cmd_name = ''SVGA_3D_CMD_DX_DEFINE_DEPTHSTENCIL_VIEW''\<rparr>),
     (1190, \<lparr>ce_func = vmw_cmd_dx_view_remove, user_allow = True, gb_disable = False, gb_enable = True, cmd_name = ''SVGA_3D_CMD_DX_DESTROY_DEPTHSTENCIL_VIEW''\<rparr>),
     (1191, \<lparr>ce_func = vmw_cmd_dx_so_define, user_allow = True, gb_disable = False, gb_enable = True, cmd_name = ''SVGA_3D_CMD_DX_DEFINE_ELEMENTLAYOUT''\<rparr>),
     (1192, \<lparr>ce_func = vmw_cmd_dx_cid_check, user_allow = True, gb_disable = False, gb_enable = True, cmd_name = ''SVGA_3D_CMD_DX_DESTROY_ELEMENTLAYOUT''\<rparr>),
     (1193, \<lparr>ce_func = vmw_cmd_dx_so_define, user_allow = True, gb_disable = False, gb_enable = True, cmd_name = ''SVGA_3D_CMD_DX_DEFINE_BLEND_STATE''\<rparr>),
     (1194, \<lparr>ce_func = vmw_cmd_dx_cid_check, user_allow = True, gb_disable = False, gb_enable = True, cmd_name = ''SVGA_3D_CMD_DX_DESTROY_BLEND_STATE''\<rparr>),
     (1195, \<lparr>ce_func = vmw_cmd_dx_so_define, user_allow = True, gb_disable = False, gb_enable = True, cmd_name = ''SVGA_3D_CMD_DX_DEFINE_DEPTHSTENCIL_STATE''\<rparr>),
     (1196, \<lparr>ce_func = vmw_cmd_dx_cid_check, user_allow = True, gb_disable = False, gb_enable = True, cmd_name = ''SVGA_3D_CMD_DX_DESTROY_DEPTHSTENCIL_STATE''\<rparr>),
     (1197, \<lparr>ce_func = vmw_cmd_dx_so_define, user_allow = True, gb_disable = False, gb_enable = True, cmd_name = ''SVGA_3D_CMD_DX_DEFINE_RASTERIZER_STATE''\<rparr>),
     (1198, \<lparr>ce_func = vmw_cmd_dx_cid_check, user_allow = True, gb_disable = False, gb_enable = True, cmd_name = ''SVGA_3D_CMD_DX_DESTROY_RASTERIZER_STATE''\<rparr>),
     (1199, \<lparr>ce_func = vmw_cmd_dx_so_define, user_allow = True, gb_disable = False, gb_enable = True, cmd_name = ''SVGA_3D_CMD_DX_DEFINE_SAMPLER_STATE''\<rparr>),
     (1200, \<lparr>ce_func = vmw_cmd_dx_cid_check, user_allow = True, gb_disable = False, gb_enable = True, cmd_name = ''SVGA_3D_CMD_DX_DESTROY_SAMPLER_STATE''\<rparr>),
     (1201, \<lparr>ce_func = vmw_cmd_dx_define_shader, user_allow = True, gb_disable = False, gb_enable = True, cmd_name = ''SVGA_3D_CMD_DX_DEFINE_SHADER''\<rparr>),
     (1202, \<lparr>ce_func = vmw_cmd_dx_destroy_shader, user_allow = True, gb_disable = False, gb_enable = True, cmd_name = ''SVGA_3D_CMD_DX_DESTROY_SHADER''\<rparr>),
     (1203, \<lparr>ce_func = vmw_cmd_dx_bind_shader, user_allow = True, gb_disable = False, gb_enable = True, cmd_name = ''SVGA_3D_CMD_DX_BIND_SHADER''\<rparr>),
     (1204, \<lparr>ce_func = vmw_cmd_dx_so_define, user_allow = True, gb_disable = False, gb_enable = True, cmd_name = ''SVGA_3D_CMD_DX_DEFINE_STREAMOUTPUT''\<rparr>),
     (1205, \<lparr>ce_func = vmw_cmd_dx_cid_check, user_allow = True, gb_disable = False, gb_enable = True, cmd_name = ''SVGA_3D_CMD_DX_DESTROY_STREAMOUTPUT''\<rparr>),
     (1206, \<lparr>ce_func = vmw_cmd_dx_cid_check, user_allow = True, gb_disable = False, gb_enable = True, cmd_name = ''SVGA_3D_CMD_DX_SET_STREAMOUTPUT''\<rparr>),
     (1173, \<lparr>ce_func = vmw_cmd_dx_set_so_targets, user_allow = True, gb_disable = False, gb_enable = True, cmd_name = ''SVGA_3D_CMD_DX_SET_SOTARGETS''\<rparr>),
     (1157, \<lparr>ce_func = vmw_cmd_dx_cid_check, user_allow = True, gb_disable = False, gb_enable = True, cmd_name = ''SVGA_3D_CMD_DX_SET_INPUT_LAYOUT''\<rparr>),
     (1160, \<lparr>ce_func = vmw_cmd_dx_cid_check, user_allow = True, gb_disable = False, gb_enable = True, cmd_name = ''SVGA_3D_CMD_DX_SET_TOPOLOGY''\<rparr>),
     (1209, \<lparr>ce_func = vmw_cmd_buffer_copy_check, user_allow = True, gb_disable = False, gb_enable = True, cmd_name = ''SVGA_3D_CMD_DX_BUFFER_COPY''\<rparr>),
     (1178, \<lparr>ce_func = vmw_cmd_pred_copy_check, user_allow = True, gb_disable = False, gb_enable = True, cmd_name = ''SVGA_3D_CMD_DX_PRED_COPY_REGION''\<rparr>),
     (1210, \<lparr>ce_func = vmw_cmd_dx_transfer_from_buffer, user_allow = True, gb_disable = False, gb_enable = True, cmd_name = ''SVGA_3D_CMD_DX_TRANSFER_FROM_BUFFER''\<rparr>),
     (1238, \<lparr>ce_func = vmw_cmd_intra_surface_copy, user_allow = True, gb_disable = False, gb_enable = True, cmd_name = ''SVGA_3D_CMD_INTRA_SURFACE_COPY''\<rparr>)]"

definition vmw_cmd_entries :: "u32 \<Rightarrow> vmw_cmd_entry option" where
  \<comment> \<open>indexed by the command number less \<open>SVGA_3D_CMD_BASE\<close>\<close>
  "vmw_cmd_entries i =
     map_of (vmw_cmd_entries_1 @ vmw_cmd_entries_2 @ vmw_cmd_entries_3) (i + SVGA_3D_CMD_BASE)"

section \<open>Checking one command\<close>

record sw_context =
  sw_kernel :: bool
  buf_start :: nat
  cmd_bounce_size :: u32
  cmd_bounce :: "u8 list option"

type_synonym memory = "nat \<Rightarrow> u8"

text \<open>
  A handler gets the device's guest-backed-objects flag, the software context, the memory and the address of the
  command, and returns the context and the memory it leaves behind, and its result.
\<close>

type_synonym 'c handler = "bool \<Rightarrow> 'c sw_context_scheme \<Rightarrow> memory \<Rightarrow> nat \<Rightarrow>
  'c sw_context_scheme \<times> memory \<times> unit kres"

definition read32 :: "memory \<Rightarrow> nat \<Rightarrow> u32" where
  "read32 mem a = ucast (mem a) OR push_bit 8 (ucast (mem (a + 1))) OR
     push_bit 16 (ucast (mem (a + 2))) OR push_bit 24 (ucast (mem (a + 3)))"

definition call_func :: "(cmd_func \<Rightarrow> 'c handler) \<Rightarrow> cmd_func \<Rightarrow> 'c handler" where
  "call_func handlers f gb sw mem buf =
     (case f of
        vmw_cmd_invalid \<Rightarrow> (sw, mem, Inl EINVAL)
      | vmw_cmd_ok \<Rightarrow> (sw, mem, Inr ())
      | _ \<Rightarrow> handlers f gb sw mem buf)"

definition vmw_cmd_check_not_3d ::
  "'c handler \<Rightarrow> bool \<Rightarrow> 'c sw_context_scheme \<Rightarrow> memory \<Rightarrow> nat \<Rightarrow> u32 \<Rightarrow>
   'c sw_context_scheme \<times> memory \<times> u32 kres" where
  \<comment> \<open>\<open>define_gmrfb\<close> is the handler \<open>vmw_cmd_check_define_gmrfb\<close>; the result is the command's size\<close>
  "vmw_cmd_check_not_3d define_gmrfb gb sw mem buf size_remaining =
     (let cmd_id = read32 mem buf;
          cmd_size = (if cmd_id = 1 then Some 20 else if cmd_id = 36 then Some 20
                  else if cmd_id = 37 then Some 32 else if cmd_id = 38 then Some (32 :: u32) else None)
      in case cmd_size of
           None \<Rightarrow> (sw, mem, Inl EINVAL)
         | Some n \<Rightarrow>
             (if n > size_remaining then (sw, mem, Inl EINVAL)
              else if \<not> sw_kernel sw then (sw, mem, Inl EPERM)
              else if cmd_id = 36
              then (case define_gmrfb gb sw mem buf of
                      (sw1, mem1, Inl e) \<Rightarrow> (sw1, mem1, Inl e)
                    | (sw1, mem1, Inr _) \<Rightarrow> (sw1, mem1, Inr n))
              else (sw, mem, Inr n)))"

definition vmw_cmd_check ::
  "'c handler \<Rightarrow> (cmd_func \<Rightarrow> 'c handler) \<Rightarrow> bool \<Rightarrow> 'c sw_context_scheme \<Rightarrow> memory \<Rightarrow> nat \<Rightarrow> u32 \<Rightarrow>
   'c sw_context_scheme \<times> memory \<times> u32 kres" where
  \<comment> \<open>the size is read before the handler runs, so what the handler writes does not change it\<close>
  "vmw_cmd_check define_gmrfb handlers gb sw mem buf size_remaining =
     (if read32 mem buf < SVGA_CMD_MAX
      then vmw_cmd_check_not_3d define_gmrfb gb sw mem buf size_remaining
      else
        (let cmd_size = read32 mem (buf + 4) + 8;
             cmd_id = read32 mem buf - SVGA_3D_CMD_BASE
         in if cmd_size > size_remaining then (sw, mem, Inl EINVAL)
            else if cmd_id \<ge> SVGA_3D_CMD_MAX - SVGA_3D_CMD_BASE then (sw, mem, Inl EINVAL)
            else
              (case vmw_cmd_entries cmd_id of
                 None \<Rightarrow> (sw, mem, Inl EINVAL)
               | Some entry \<Rightarrow>
                   (if \<not> user_allow entry \<and> \<not> sw_kernel sw then (sw, mem, Inl EPERM)
                    else if gb_disable entry \<and> gb then (sw, mem, Inl EINVAL)
                    else if gb_enable entry \<and> \<not> gb then (sw, mem, Inl EINVAL)
                    else (case call_func handlers (ce_func entry) gb sw mem buf of
                            (sw1, mem1, Inl e) \<Rightarrow> (sw1, mem1, Inl EINVAL)
                          | (sw1, mem1, Inr _) \<Rightarrow> (sw1, mem1, Inr cmd_size))))))"

text \<open>
  The loop of \<open>vmw_cmd_check_all\<close>. \<open>cur_size\<close> is a signed 32-bit number, here kept as the
  32-bit word and read with \<open>sint\<close>. The loop need not end, so it runs on fuel; \<open>None\<close> says that
  the fuel is used up.
\<close>

fun cmd_check_loop ::
  "nat \<Rightarrow> 'c handler \<Rightarrow> (cmd_func \<Rightarrow> 'c handler) \<Rightarrow> bool \<Rightarrow> 'c sw_context_scheme \<Rightarrow> memory \<Rightarrow> nat \<Rightarrow> u32 \<Rightarrow>
   ('c sw_context_scheme \<times> memory \<times> unit kres) option" where
  "cmd_check_loop 0 define_gmrfb handlers gb sw mem buf cur_size = None"
| "cmd_check_loop (Suc fuel) define_gmrfb handlers gb sw mem buf cur_size =
     (if sint cur_size > 0
      then (case vmw_cmd_check define_gmrfb handlers gb sw mem buf cur_size of
              (sw1, mem1, Inl e) \<Rightarrow> Some (sw1, mem1, Inl e)
            | (sw1, mem1, Inr n) \<Rightarrow>
                cmd_check_loop fuel define_gmrfb handlers gb sw1 mem1 (buf + unat n) (cur_size - n))
      else if cur_size \<noteq> 0 then Some (sw, mem, Inl EINVAL)
      else Some (sw, mem, Inr ()))"

definition vmw_cmd_check_all ::
  "nat \<Rightarrow> 'c handler \<Rightarrow> (cmd_func \<Rightarrow> 'c handler) \<Rightarrow> bool \<Rightarrow> 'c sw_context_scheme \<Rightarrow> memory \<Rightarrow> nat \<Rightarrow> u32 \<Rightarrow>
   ('c sw_context_scheme \<times> memory \<times> unit kres) option" where
  "vmw_cmd_check_all fuel define_gmrfb handlers gb sw mem buf nbytes =
     cmd_check_loop fuel define_gmrfb handlers gb (sw\<lparr>buf_start := buf\<rparr>) mem buf nbytes"

definition vmw_cmd_describe :: "memory \<Rightarrow> nat \<Rightarrow> (bool \<times> u32 \<times> string option) kres" where
  \<comment> \<open>whether the command is known, its size, and its name; \<open>OOPS\<close> for an access outside the table\<close>
  "vmw_cmd_describe mem buf =
     (let cmd_id = read32 mem buf in
      if cmd_id \<ge> SVGA_CMD_MAX
      then (let cmd_size = read32 mem (buf + 4) + 8 in
            if cmd_id \<ge> SVGA_3D_CMD_MAX then Inr (False, cmd_size, None)
            else (let i = cmd_id - SVGA_3D_CMD_BASE in
                  if i \<ge> SVGA_3D_CMD_MAX then Inl OOPS
                  else Inr (True, cmd_size, map_option cmd_name (vmw_cmd_entries i))))
      else if cmd_id = 1 then Inr (True, 20, Some ''SVGA_CMD_UPDATE'')
      else if cmd_id = 36 then Inr (True, 20, Some ''SVGA_CMD_DEFINE_GMRFB'')
      else if cmd_id = 37 then Inr (True, 32, Some ''SVGA_CMD_BLIT_GMRFB_TO_SCREEN'')
      else if cmd_id = 38 then Inr (True, 32, Some ''SVGA_CMD_BLIT_SCREEN_TO_GMRFB'')
      else Inr (False, 0, Some ''UNKNOWN''))"

section \<open>Relocations\<close>

text \<open>Here the command buffer is an array of 32-bit words, and locations are word indices.\<close>

datatype mem_type = TTM_PL_SYSTEM | TTM_PL_TT | TTM_PL_VRAM | VMW_PL_GMR | VMW_PL_MOB

record reloc_bo =
  bo_mem_type :: mem_type
  bo_offset :: u32
  bo_mem_start :: u32

record vmw_relocation =
  rel_vbo :: reloc_bo
  rel_location :: nat

fun vmw_apply_relocations :: "vmw_relocation list \<Rightarrow> (nat \<Rightarrow> u32) \<Rightarrow> (nat \<Rightarrow> u32) kres" where
  \<comment> \<open>a guest pointer is the word \<open>gmrId\<close> followed by the word \<open>offset\<close>\<close>
  "vmw_apply_relocations [] cb = Inr cb"
| "vmw_apply_relocations (reloc # relocs) cb =
     (let l = rel_location reloc; bo = rel_vbo reloc in
      case bo_mem_type bo of
        TTM_PL_VRAM \<Rightarrow> vmw_apply_relocations relocs (cb(l + 1 := cb (l + 1) + bo_offset bo, l := 0xFFFFFFFE))
      | VMW_PL_GMR \<Rightarrow> vmw_apply_relocations relocs (cb(l := bo_mem_start bo))
      | VMW_PL_MOB \<Rightarrow> vmw_apply_relocations relocs (cb(l := bo_mem_start bo))
      | _ \<Rightarrow> Inl OOPS)"

datatype vmw_resource_relocation_type = vmw_res_rel_normal | vmw_res_rel_nop | vmw_res_rel_cond_nop

record vmw_resource_relocation =
  rr_res_id :: u32
  rr_offset :: nat
  rr_rel_type :: vmw_resource_relocation_type

definition write32 :: "memory \<Rightarrow> nat \<Rightarrow> u32 \<Rightarrow> memory" where
  "write32 mem a v = mem(a := ucast v, a + 1 := ucast (drop_bit 8 v), a + 2 := ucast (drop_bit 16 v),
     a + 3 := ucast (drop_bit 24 v))"

fun vmw_resource_relocations_apply :: "nat \<Rightarrow> vmw_resource_relocation list \<Rightarrow> memory \<Rightarrow> memory" where
  \<comment> \<open>\<open>SVGA_3D_CMD_NOP\<close> is 1119\<close>
  "vmw_resource_relocations_apply cb [] mem = mem"
| "vmw_resource_relocations_apply cb (rel # rels) mem =
     (let addr = cb + rr_offset rel in
      vmw_resource_relocations_apply cb rels
        (case rr_rel_type rel of
           vmw_res_rel_normal \<Rightarrow> write32 mem addr (rr_res_id rel)
         | vmw_res_rel_nop \<Rightarrow> write32 mem addr 1119
         | vmw_res_rel_cond_nop \<Rightarrow> if rr_res_id rel = 0xFFFFFFFF then write32 mem addr 1119 else mem))"

section \<open>A handler that writes the command memory\<close>

definition vmw_cmd_dma_check ::
  "('c sw_context_scheme \<Rightarrow> memory \<Rightarrow> nat \<Rightarrow> 'c sw_context_scheme \<times> u32 kres) \<Rightarrow>
   ('c sw_context_scheme \<Rightarrow> memory \<Rightarrow> nat \<Rightarrow> 'c sw_context_scheme \<times> unit kres) \<Rightarrow> 'c handler" where
  \<comment> \<open>the handler \<open>vmw_cmd_dma\<close>: \<open>translate_guest_ptr\<close> gives the number of pages of the buffer object named by a
      guest pointer, \<open>surface_check\<close> looks up the surface and snoops the cursor image\<close>
  "vmw_cmd_dma_check translate_guest_ptr surface_check gb sw mem buf =
     (let dma = buf + 8; suffix = dma + unat (read32 mem (buf + 4)) - 12 in
      if read32 mem suffix \<noteq> 12 then (sw, mem, Inl EINVAL)
      else case translate_guest_ptr sw mem dma of
             (sw1, Inl e) \<Rightarrow> (sw1, mem, Inl e)
           | (sw1, Inr num_pages) \<Rightarrow>
               (let bo_size = num_pages * 4096; ptr_offset = read32 mem (dma + 4) in
                if ptr_offset > bo_size then (sw1, mem, Inl EINVAL)
                else
                  (let rest = bo_size - ptr_offset;
                       mem1 = (if read32 mem (suffix + 4) > rest then write32 mem (suffix + 4) rest else mem)
                   in case surface_check sw1 mem1 (dma + 12) of
                        (sw2, Inl e) \<Rightarrow> (sw2, mem1, Inl e)
                      | (sw2, Inr _) \<Rightarrow> (sw2, mem1, Inr ()))))"

section \<open>The bounce buffer\<close>

fun bounce_grow :: "nat \<Rightarrow> u32 \<Rightarrow> u32 \<Rightarrow> u32 option" where
  "bounce_grow 0 bounce_size n = None"
| "bounce_grow (Suc fuel) bounce_size n =
     (if bounce_size < n then bounce_grow fuel (PAGE_ALIGN (bounce_size + drop_bit 1 bounce_size)) n
      else Some bounce_size)"

definition vmw_resize_cmd_bounce ::
  "nat \<Rightarrow> (u32 \<Rightarrow> u8 list option) \<Rightarrow> 'c sw_context_scheme \<Rightarrow> u32 \<Rightarrow> ('c sw_context_scheme \<times> unit kres) option" where
  "vmw_resize_cmd_bounce fuel vmalloc sw n =
     (if cmd_bounce_size sw \<ge> n then Some (sw, Inr ())
      else
        (let size0 = (if cmd_bounce_size sw = 0 then 32768 else cmd_bounce_size sw) in
         map_option (\<lambda>m. case vmalloc m of
             None \<Rightarrow> (sw\<lparr>cmd_bounce := None, cmd_bounce_size := 0\<rparr>, Inl ENOMEM)
           | Some b \<Rightarrow> (sw\<lparr>cmd_bounce := Some b, cmd_bounce_size := m\<rparr>, Inr ()))
           (bounce_grow fuel size0 n)))"

section \<open>What an accepted command buffer contains\<close>

definition cmd_permitted :: "bool \<Rightarrow> memory \<Rightarrow> nat \<Rightarrow> u32 \<Rightarrow> bool" where
  \<comment> \<open>a command user space may submit: known to the table, with a handler, and available on the device\<close>
  "cmd_permitted gb mem a n \<longleftrightarrow>
     SVGA_CMD_MAX \<le> read32 mem a \<and> n = read32 mem (a + 4) + 8 \<and>
     (case vmw_cmd_entries (read32 mem a - SVGA_3D_CMD_BASE) of
        None \<Rightarrow> False
      | Some entry \<Rightarrow> ce_func entry \<noteq> vmw_cmd_invalid \<and> user_allow entry \<and>
          \<not> (gb_disable entry \<and> gb) \<and> \<not> (gb_enable entry \<and> \<not> gb))"

definition cmd_handled ::
  "(cmd_func \<Rightarrow> 'c handler) \<Rightarrow> 'c handler" where
  \<comment> \<open>the handler that the table names for the command\<close>
  "cmd_handled handlers gb sw mem a =
     (case vmw_cmd_entries (read32 mem a - SVGA_3D_CMD_BASE) of
        None \<Rightarrow> (sw, mem, Inl EINVAL)
      | Some entry \<Rightarrow> call_func handlers (ce_func entry) gb sw mem a)"

text \<open>
  The commands of a buffer, given by their sizes, are checked one after the other from \<open>sw\<close> and \<open>mem\<close> to
  \<open>sw'\<close> and \<open>mem'\<close>: each one is permitted in the memory as the handlers before it have left it, and is then passed to
  its own handler, which accepts it.
\<close>

fun stream_checked ::
  "(cmd_func \<Rightarrow> 'c handler) \<Rightarrow> bool \<Rightarrow> 'c sw_context_scheme \<Rightarrow> memory \<Rightarrow> nat \<Rightarrow> u32 list \<Rightarrow>
   'c sw_context_scheme \<Rightarrow> memory \<Rightarrow> bool" where
  "stream_checked handlers gb sw mem a [] sw' mem' = (sw' = sw \<and> mem' = mem)"
| "stream_checked handlers gb sw mem a (n # ns) sw' mem' =
     (cmd_permitted gb mem a n \<and>
      (case cmd_handled handlers gb sw mem a of
         (sw1, mem1, Inl e) \<Rightarrow> False
       | (sw1, mem1, Inr _) \<Rightarrow> stream_checked handlers gb sw1 mem1 (a + unat n) ns sw' mem'))"

definition handlers_keep_mode :: "(cmd_func \<Rightarrow> 'c handler) \<Rightarrow> bool" where
  \<comment> \<open>no handler turns a user-space submission into a kernel one\<close>
  "handlers_keep_mode handlers \<longleftrightarrow>
     (\<forall>f gb sw mem buf. sw_kernel (fst (handlers f gb sw mem buf)) = sw_kernel sw)"

lemma call_func_keeps_mode:
  "handlers_keep_mode handlers \<Longrightarrow> sw_kernel (fst (call_func handlers f gb sw mem buf)) = sw_kernel sw"
  by (cases f) (simp_all add: call_func_def handlers_keep_mode_def)

lemma vmw_cmd_check_bound:
  "vmw_cmd_check define_gmrfb handlers gb sw mem buf rem = (sw', mem', Inr n) \<Longrightarrow> n \<le> rem"
  by (auto simp: vmw_cmd_check_def vmw_cmd_check_not_3d_def Let_def not_less
      split: if_splits option.splits prod.splits sum.splits)

lemma vmw_cmd_check_user:
  assumes "vmw_cmd_check define_gmrfb handlers gb sw mem buf rem = (sw', mem', Inr n)" "\<not> sw_kernel sw"
  shows "cmd_permitted gb mem buf n" "cmd_handled handlers gb sw mem buf = (sw', mem', Inr ())"
proof -
  have inv: "call_func handlers vmw_cmd_invalid gb sw mem buf = (sw, mem, Inl EINVAL)" by (simp add: call_func_def)
  show "cmd_permitted gb mem buf n"
    using assms inv
    by (auto simp: vmw_cmd_check_def vmw_cmd_check_not_3d_def cmd_permitted_def Let_def not_less
        split: if_splits option.splits prod.splits sum.splits)
  show "cmd_handled handlers gb sw mem buf = (sw', mem', Inr ())"
    using assms
    by (auto simp: vmw_cmd_check_def vmw_cmd_check_not_3d_def cmd_handled_def Let_def
        split: if_splits option.splits prod.splits sum.splits)
qed

lemma cmd_handled_keeps_mode:
  "handlers_keep_mode handlers \<Longrightarrow> cmd_handled handlers gb sw mem buf = (sw', mem', r) \<Longrightarrow> sw_kernel sw' = sw_kernel sw"
  using call_func_keeps_mode[of handlers]
  by (auto simp: cmd_handled_def split: option.splits) (metis fst_conv)+

lemma cmd_check_loop_user:
  assumes "cmd_check_loop fuel define_gmrfb handlers gb sw mem buf cur = Some (sw', mem', Inr ())"
    and "\<not> sw_kernel sw" "handlers_keep_mode handlers"
  shows "\<exists>ns. stream_checked handlers gb sw mem buf ns sw' mem' \<and> sum_list (map unat ns) = unat cur"
  using assms(1,2)
proof (induction fuel arbitrary: sw mem buf cur)
  case (Suc fuel)
  show ?case
  proof (cases "sint cur > 0")
    case True
    with Suc.prems obtain sw1 mem1 n
      where c: "vmw_cmd_check define_gmrfb handlers gb sw mem buf cur = (sw1, mem1, Inr n)"
      and l: "cmd_check_loop fuel define_gmrfb handlers gb sw1 mem1 (buf + unat n) (cur - n) = Some (sw', mem', Inr ())"
      by (auto split: prod.splits sum.splits)
    note u = vmw_cmd_check_user[OF c Suc.prems(2)]
    have "\<not> sw_kernel sw1" using cmd_handled_keeps_mode[OF assms(3) u(2)] Suc.prems(2) by simp
    from Suc.IH[OF l this] obtain ns where ns: "stream_checked handlers gb sw1 mem1 (buf + unat n) ns sw' mem'"
      "sum_list (map unat ns) = unat (cur - n)" by blast
    have "unat (cur - n) + unat n = unat cur"
      using vmw_cmd_check_bound[OF c] by (simp add: unat_sub word_le_nat_alt)
    with u ns show ?thesis by (intro exI[of _ "n # ns"]) simp
  next
    case False
    with Suc.prems have "cur = 0" "sw' = sw" "mem' = mem" by (auto split: if_splits)
    then show ?thesis by (intro exI[of _ "[]"]) simp
  qed
qed simp

text \<open>
  C1: The command verifier lets user space submit nothing but what the command table allows. If
  \<open>vmw_cmd_check_all\<close> accepts a user-space buffer, it has checked the whole buffer as a sequence of commands, one
  after the other without gap and ending exactly at its end. Each command, in the memory as it was when
  its turn came, is a 3D command of the table that
  has a handler other than \<open>vmw_cmd_invalid\<close>, is marked as allowed for user space, and is
  neither disabled by nor in need of guest-backed objects against the device's capability; it was then passed to that
  handler, which accepted it and left the context and the memory in which the next command was checked, and the last
  one those that \<open>vmw_cmd_check_all\<close> returns.
  In particular none of the kernel-only 2D commands is accepted. The handlers may rewrite the command memory as they
  like, so the statement is about each command at the time of its check, and not about what a later handler may have
  made of it. The one thing assumed of the handlers is \<open>handlers_keep_mode\<close>:
  none of them turns the submission into a kernel one; the code sets \<open>sw_context->kernel\<close> in
  \<open>vmw_execbuf_process\<close> alone, before the check.
\<close>
theorem accepted_buffers_are_permitted:
  assumes "vmw_cmd_check_all fuel define_gmrfb handlers gb sw mem buf nbytes = Some (sw', mem', Inr ())"
    and "\<not> sw_kernel sw" "handlers_keep_mode handlers"
  shows "\<exists>ns. stream_checked handlers gb (sw\<lparr>buf_start := buf\<rparr>) mem buf ns sw' mem' \<and>
    sum_list (map unat ns) = unat nbytes"
  using assms unfolding vmw_cmd_check_all_def by (auto elim!: cmd_check_loop_user)

text \<open>
  Two commands: an empty PRESENT_READBACK and a BEGIN_QUERY of eight bytes, and a
  handler that turns every command it gets into BEGIN_GB_QUERY (1116), as \<open>vmw_cmd_begin_query\<close> does on a device with
  guest-backed objects.
\<close>

definition two_commands :: memory where
  "two_commands a =
     (let bytes = [0x2C, 4, 0, 0, 0, 0, 0, 0, 0x29, 4, 0, 0, 8, 0, 0, 0, 1, 0, 0, 0, 2, 0, 0, 0] :: u8 list
      in if a < length bytes then bytes ! a else 0)"

definition rewriting_handlers :: "cmd_func \<Rightarrow> unit handler" where
  "rewriting_handlers f gb sw mem buf = (sw, mem(buf := 0x5C), Inr ())"

definition user_ctx :: sw_context where
  "user_ctx = \<lparr>sw_kernel = False, buf_start = 0, cmd_bounce_size = 0, cmd_bounce = None\<rparr>"

lemma present_readback_entry:
  "vmw_cmd_entries 28 = Some \<lparr>ce_func = vmw_cmd_ok, user_allow = True, gb_disable = False, gb_enable = False,
     cmd_name = ''SVGA_3D_CMD_PRESENT_READBACK''\<rparr>"
  by (simp add: vmw_cmd_entries_def vmw_cmd_entries_1_def)

lemma begin_query_entry:
  "vmw_cmd_entries 25 = Some \<lparr>ce_func = vmw_cmd_begin_query, user_allow = True, gb_disable = False, gb_enable = False,
     cmd_name = ''SVGA_3D_CMD_BEGIN_QUERY''\<rparr>"
  by (simp add: vmw_cmd_entries_def vmw_cmd_entries_1_def)

lemma two_commands_accepted:
  "vmw_cmd_check_all 3 (\<lambda>_ sw mem _. (sw, mem, Inr ())) rewriting_handlers False user_ctx two_commands 0 24 =
     Some (user_ctx, two_commands(8 := 0x5C), Inr ())"
  by (simp add: vmw_cmd_check_all_def numeral_3_eq_3 vmw_cmd_check_def read32_def two_commands_def Let_def user_ctx_def
      present_readback_entry begin_query_entry call_func_def rewriting_handlers_def)

text \<open>Witness: the two commands are accepted, the second with its number rewritten, and the buffer splits.\<close>
theorem accepted_buffers_are_permitted_witness:
  "vmw_cmd_check_all 3 (\<lambda>_ sw mem _. (sw, mem, Inr ())) rewriting_handlers False user_ctx two_commands 0 24 =
     Some (user_ctx, two_commands(8 := 0x5C), Inr ()) \<and>
   (\<exists>ns. stream_checked rewriting_handlers False user_ctx two_commands 0 ns user_ctx (two_commands(8 := 0x5C)) \<and>
     sum_list (map unat ns) = 24)"
proof (rule conjI[OF two_commands_accepted])
  have ctx: "user_ctx\<lparr>buf_start := 0\<rparr> = user_ctx" "\<not> sw_kernel user_ctx" by (simp_all add: user_ctx_def)
  have "handlers_keep_mode rewriting_handlers" by (simp add: handlers_keep_mode_def rewriting_handlers_def)
  from accepted_buffers_are_permitted[OF two_commands_accepted ctx(2) this] show
    "\<exists>ns. stream_checked rewriting_handlers False user_ctx two_commands 0 ns user_ctx (two_commands(8 := 0x5C)) \<and>
       sum_list (map unat ns) = 24" by (simp add: ctx(1))
qed

section \<open>Does the verifier return?\<close>

text \<open>The state in which the loop stands after so many accepted commands, \<open>None\<close> when it has ended before.\<close>

fun cmd_check_rounds ::
  "nat \<Rightarrow> 'c handler \<Rightarrow> (cmd_func \<Rightarrow> 'c handler) \<Rightarrow> bool \<Rightarrow> 'c sw_context_scheme \<Rightarrow> memory \<Rightarrow> nat \<Rightarrow> u32 \<Rightarrow>
   ('c sw_context_scheme \<times> memory \<times> nat \<times> u32) option" where
  "cmd_check_rounds 0 define_gmrfb handlers gb sw mem buf cur_size = Some (sw, mem, buf, cur_size)"
| "cmd_check_rounds (Suc k) define_gmrfb handlers gb sw mem buf cur_size =
     (if sint cur_size > 0
      then (case vmw_cmd_check define_gmrfb handlers gb sw mem buf cur_size of
              (sw1, mem1, Inl e) \<Rightarrow> None
            | (sw1, mem1, Inr n) \<Rightarrow>
                cmd_check_rounds k define_gmrfb handlers gb sw1 mem1 (buf + unat n) (cur_size - n))
      else None)"

lemma sint_pos_unat_pos: "0 < sint (w :: u32) \<Longrightarrow> 0 < unat w"
  by (metis bot_nat_0.not_eq_extremum signed_0 unat_eq_zero less_irrefl)

lemma vmw_cmd_check_empty:
  assumes "vmw_cmd_check define_gmrfb handlers gb sw mem buf rem = (sw1, mem1, Inr 0)"
  shows "read32 mem (buf + 4) = 0xFFFFFFF8"
proof -
  have "read32 mem (buf + 4) + 8 = 0"
    using assms by (auto simp: vmw_cmd_check_def vmw_cmd_check_not_3d_def Let_def
        split: if_splits option.splits prod.splits sum.splits)
  then show ?thesis by (simp add: add_eq_0_iff2)
qed

lemma cmd_check_loop_stuck:
  assumes "cmd_check_loop fuel define_gmrfb handlers gb sw mem buf cur = None" "unat cur < fuel"
  shows "\<exists>k sw1 mem1 a rest. cmd_check_rounds k define_gmrfb handlers gb sw mem buf cur = Some (sw1, mem1, a, rest) \<and>
    0 < sint rest \<and> buf \<le> a \<and> a + unat rest = buf + unat cur \<and> read32 mem1 (a + 4) = 0xFFFFFFF8"
  using assms
proof (induction fuel arbitrary: sw mem buf cur)
  case (Suc fuel)
  then have pos: "sint cur > 0" by (auto split: if_splits)
  with Suc.prems obtain sw1 mem1 n
    where c: "vmw_cmd_check define_gmrfb handlers gb sw mem buf cur = (sw1, mem1, Inr n)"
    and l: "cmd_check_loop fuel define_gmrfb handlers gb sw1 mem1 (buf + unat n) (cur - n) = None"
    by (auto split: prod.splits sum.splits)
  note cur = sint_pos_unat_pos[OF pos]
  have le: "unat n \<le> unat cur" "unat (cur - n) = unat cur - unat n"
    using vmw_cmd_check_bound[OF c] by (simp_all add: unat_sub word_le_nat_alt)
  show ?case
  proof (cases "n = 0")
    case True
    then show ?thesis using vmw_cmd_check_empty c pos
      by (intro exI[of _ 0] exI[of _ sw] exI[of _ mem] exI[of _ buf] exI[of _ cur]) auto
  next
    case False
    then have "0 < unat n" by (simp add: unat_gt_0)
    then have "unat (cur - n) < fuel" using le Suc.prems(2) cur by linarith
    from Suc.IH[OF l this] obtain k sw2 mem2 a rest
      where r: "cmd_check_rounds k define_gmrfb handlers gb sw1 mem1 (buf + unat n) (cur - n) = Some (sw2, mem2, a, rest)"
      and a: "0 < sint rest" "buf + unat n \<le> a" "a + unat rest = buf + unat n + unat (cur - n)"
        "read32 mem2 (a + 4) = 0xFFFFFFF8" by blast
    from r c pos have "cmd_check_rounds (Suc k) define_gmrfb handlers gb sw mem buf cur = Some (sw2, mem2, a, rest)" by simp
    with a le show ?thesis by (intro exI[of _ "Suc k"] exI[of _ sw2] exI[of _ mem2] exI[of _ a] exI[of _ rest]) auto
  qed
qed simp

text \<open>
  C37: \<open>vmw_cmd_check_all\<close> returns, after at most one round per byte of the buffer, or else the loop comes,
  after some number of accepted commands, to a command header inside the buffer whose size field is
  \<open>0xFFFFFFF8\<close> in the memory as the handlers have left it by then: with every other size
  each round moves forward by at least one byte, also when the addition of the header's own size wraps around. Nothing
  is assumed of the buffer or of the handlers.
\<close>
theorem vmw_cmd_check_all_returns:
  "(\<exists>sw' mem' r. vmw_cmd_check_all (unat nbytes + 1) define_gmrfb handlers gb sw mem buf nbytes = Some (sw', mem', r)) \<or>
   (\<exists>k sw1 mem1 a rest.
      cmd_check_rounds k define_gmrfb handlers gb (sw\<lparr>buf_start := buf\<rparr>) mem buf nbytes = Some (sw1, mem1, a, rest) \<and>
      0 < sint rest \<and> buf \<le> a \<and> a + unat rest = buf + unat nbytes \<and> read32 mem1 (a + 4) = 0xFFFFFFF8)"
  using cmd_check_loop_stuck[of "unat nbytes + 1" define_gmrfb handlers gb "sw\<lparr>buf_start := buf\<rparr>" mem buf nbytes]
  unfolding vmw_cmd_check_all_def by (metis less_add_one not_None_eq prod.exhaust)

text \<open>With the size field \<open>0xFFFFFFF8\<close> the verifier does not return. The size of the command wraps
  to 0, which is never larger than what remains of the buffer, a command such as
  PRESENT_READBACK, whose handler does not look at the size, is accepted, and the loop goes on with the same
  command: for a user-space buffer of any positive length no number of rounds is enough.
\<close>
lemma vmw_cmd_check_all_hangs:
  assumes "read32 mem buf = 1068" "read32 mem (buf + 4) = 0xFFFFFFF8" "0 < sint nbytes"
  shows "vmw_cmd_check_all fuel define_gmrfb handlers gb sw mem buf nbytes = None"
proof -
  have sz: "read32 mem (buf + 4) + 8 = 0" unfolding assms(2) by simp
  have one: "vmw_cmd_check define_gmrfb handlers gb s mem buf nbytes = (s, mem, Inr 0)" for s
    unfolding vmw_cmd_check_def sz assms(1) by (simp add: present_readback_entry call_func_def)
  have "cmd_check_loop fuel define_gmrfb handlers gb s mem buf nbytes = None" for s
    by (induction fuel arbitrary: s) (simp_all add: one assms(3))
  then show ?thesis by (simp add: vmw_cmd_check_all_def)
qed

definition endless_command :: memory where
  "endless_command a =
     (let bytes = [0x2C, 4, 0, 0, 0xF8, 0xFF, 0xFF, 0xFF] :: u8 list in if a < length bytes then bytes ! a else 0)"

text \<open>Eight bytes from user space.\<close>
lemma vmw_cmd_check_all_hangs_example:
  "\<forall>fuel. vmw_cmd_check_all fuel (\<lambda>_ sw mem _. (sw, mem, Inr ())) (\<lambda>_ _ sw mem _. (sw, mem, Inr ())) False
     user_ctx endless_command 0 8 = None"
  by (intro allI vmw_cmd_check_all_hangs) (simp_all add: endless_command_def read32_def)

section \<open>Growing the bounce buffer\<close>

definition page_multiple :: "u32 \<Rightarrow> bool" where
  "page_multiple s \<longleftrightarrow> 4096 dvd unat s"

lemma page_multiple_le: "page_multiple s \<Longrightarrow> s \<le> 0xFFFFF000"
  using unsigned_less[of s, where 'a = nat] by (auto simp: page_multiple_def word_le_nat_alt elim!: dvdE)

lemma page_align_multiple: "page_multiple (PAGE_ALIGN x)"
  by (simp add: page_multiple_def unat_page_align)

lemma unat_drop_bit_1: "unat (drop_bit 1 (s :: u32)) = unat s div 2"
  by (simp add: unat_drop_bit_div)

lemma bounce_step:
  assumes "page_multiple s" "0 < s" "s < n" "unat n \<le> 2 ^ 31"
  shows "s < PAGE_ALIGN (s + drop_bit 1 s)"
proof -
  have lt: "unat s < 2 ^ 31" and s: "4096 \<le> unat s"
    using assms by (auto simp: word_less_nat_alt page_multiple_def elim!: dvdE)
  have sum: "unat (s + drop_bit 1 s) = unat s + unat s div 2"
    using lt unat_drop_bit_1[of s] by (subst unat_add_lem[THEN iffD1]) auto
  have sum2: "unat (s + drop_bit 1 s + 4095) = unat s + unat s div 2 + 4095"
    using lt sum by (subst unat_add_lem[THEN iffD1]) auto
  show ?thesis unfolding word_less_nat_alt unat_page_align sum2 using s by simp
qed

lemma bounce_grow_ends:
  assumes "page_multiple s" "0 < s" "unat n \<le> 2 ^ 31" "unat n - unat s < fuel"
  shows "\<exists>m. bounce_grow fuel s n = Some m \<and> n \<le> m \<and> page_multiple m"
  using assms
proof (induction fuel arbitrary: s)
  case (Suc fuel)
  show ?case
  proof (cases "s < n")
    case True
    let ?s = "PAGE_ALIGN (s + drop_bit 1 s)"
    note st = bounce_step[OF Suc.prems(1,2) True Suc.prems(3)]
    have "unat n - unat ?s < fuel" using st True Suc.prems(4) by (simp add: word_less_nat_alt)
    from Suc.IH[OF page_align_multiple less_trans[OF Suc.prems(2) st] Suc.prems(3) this]
    have "\<exists>m. bounce_grow fuel ?s n = Some m \<and> n \<le> m \<and> page_multiple m" .
    moreover have "bounce_grow (Suc fuel) s n = bounce_grow fuel ?s n" using True by (simp only: bounce_grow.simps if_True)
    ultimately show ?thesis by (simp only:)
  qed (use Suc.prems in \<open>auto simp: not_less\<close>)
qed simp

text \<open>\<open>vmw_resize_cmd_bounce\<close> returns for every request of up to \<open>2 ^ 31\<close> bytes: it succeeds with a
  bounce buffer of at least the requested size, a whole number of pages, or reports -ENOMEM
  and leaves no buffer behind. (The starting size is zero or a whole number of pages, which is kept.)
\<close>
lemma vmw_resize_cmd_bounce_ok:
  assumes "page_multiple (cmd_bounce_size sw)" "unat n \<le> 2 ^ 31"
  shows "\<exists>sw' r. vmw_resize_cmd_bounce (unat n + 1) vmalloc sw n = Some (sw', r) \<and> page_multiple (cmd_bounce_size sw') \<and>
    (case r of Inr _ \<Rightarrow> n \<le> cmd_bounce_size sw'
     | Inl e \<Rightarrow> e = ENOMEM \<and> cmd_bounce sw' = None \<and> cmd_bounce_size sw' = 0)"
proof (cases "cmd_bounce_size sw \<ge> n")
  case True
  with assms show ?thesis by (simp add: vmw_resize_cmd_bounce_def)
next
  case False
  let ?s0 = "if cmd_bounce_size sw = 0 then 32768 else cmd_bounce_size sw"
  have "page_multiple ?s0" "0 < ?s0" using assms(1) by (auto simp: page_multiple_def word_neq_0_conv)
  then obtain m where "bounce_grow (unat n + 1) ?s0 n = Some m" "n \<le> m" "page_multiple m"
    using bounce_grow_ends[OF _ _ assms(2), of ?s0 "unat n + 1"] by (metis diff_le_self le_imp_less_Suc Suc_eq_plus1)
  with False show ?thesis
    by (cases "vmalloc m") (auto simp: vmw_resize_cmd_bounce_def Let_def page_multiple_def simp del: bounce_grow.simps)
qed

text \<open>Witness: 100000 bytes, starting without a buffer.\<close>
lemma vmw_resize_cmd_bounce_ok_example:
  "\<exists>sw'. vmw_resize_cmd_bounce (unat (100000 :: u32) + 1) (\<lambda>n. Some []) user_ctx 100000 = Some (sw', Inr ()) \<and>
     100000 \<le> cmd_bounce_size sw'"
proof -
  have "page_multiple (cmd_bounce_size user_ctx)" by (simp add: user_ctx_def page_multiple_def)
  moreover have "unat (100000 :: u32) \<le> 2 ^ 31" by simp
  ultimately obtain sw' r where
    r: "vmw_resize_cmd_bounce (unat (100000 :: u32) + 1) (\<lambda>n. Some []) user_ctx 100000 = Some (sw', r)"
    "case r of Inr _ \<Rightarrow> 100000 \<le> cmd_bounce_size sw'
     | Inl e \<Rightarrow> e = ENOMEM \<and> cmd_bounce sw' = None \<and> cmd_bounce_size sw' = 0"
    using vmw_resize_cmd_bounce_ok[of user_ctx 100000 "\<lambda>n. Some []"] by blast
  moreover have "r \<noteq> Inl e" for e
    using r(1) by (auto simp: vmw_resize_cmd_bounce_def Let_def simp del: bounce_grow.simps split: if_splits)
  ultimately show ?thesis by (cases r) auto
qed

text \<open>A request of more than \<open>0xFFFFF000\<close> bytes, which the ioctl passes on from user
  space when commands go through the FIFO, is never satisfied: the size is always a whole
  number of pages, so it stays below the request and the growth loop runs forever.
\<close>
lemma vmw_resize_cmd_bounce_hangs:
  assumes "page_multiple (cmd_bounce_size sw)" "0xFFFFF000 < n"
  shows "vmw_resize_cmd_bounce fuel vmalloc sw n = None"
proof -
  have loop: "bounce_grow fuel s n = None" if "page_multiple s" for s
    using that
  proof (induction fuel arbitrary: s)
    case (Suc fuel)
    then have "s < n" using page_multiple_le[of s] assms(2) by simp
    with Suc show ?case by (simp add: page_align_multiple)
  qed simp
  have "page_multiple (if cmd_bounce_size sw = 0 then 32768 else cmd_bounce_size sw)"
    using assms(1) by (simp add: page_multiple_def)
  moreover have "\<not> n \<le> cmd_bounce_size sw" using page_multiple_le[OF assms(1)] assms(2) by simp
  ultimately show ?thesis using loop by (simp add: vmw_resize_cmd_bounce_def Let_def)
qed

text \<open>Witness: a request of \<open>2 ^ 32 - 1\<close> bytes.\<close>
lemma vmw_resize_cmd_bounce_hangs_example:
  "\<forall>fuel. vmw_resize_cmd_bounce fuel (\<lambda>n. Some []) user_ctx 0xFFFFFFFF = None"
  by (intro allI vmw_resize_cmd_bounce_hangs) (simp_all add: user_ctx_def page_multiple_def)

section \<open>Describing a command\<close>

text \<open>
  \<open>vmw_cmd_describe\<close>, which the command buffer manager calls on the command the device
  stopped at, reads outside the command table for every command number from \<open>SVGA_CMD_MAX\<close> up to,
  not including, \<open>SVGA_3D_CMD_BASE\<close>: the subtraction of the base wraps around, and only the upper
  bound of the range is tested before it. For all other numbers it stays inside.
\<close>
lemma vmw_cmd_describe_out_of_table:
  "vmw_cmd_describe mem buf = Inl OOPS \<longleftrightarrow> SVGA_CMD_MAX \<le> read32 mem buf \<and> read32 mem buf < SVGA_3D_CMD_BASE"
proof -
  let ?i = "read32 mem buf"
  have "unat (?i - 1040) = unat ?i - 1040" if "1040 \<le> ?i"
    using that by (simp add: unat_sub)
  then have inside: "?i - 1040 < 1245" if "1040 \<le> ?i" "?i < 1245"
    using that by (simp add: word_less_nat_alt word_le_nat_alt)
  have "1245 \<le> ?i - 1040" if "?i < 1040"
  proof -
    have "1040 - ?i \<noteq> 0" using that by auto
    moreover have "unat (1040 - ?i) \<le> 1040" using that by (simp add: unat_sub word_less_nat_alt word_le_nat_alt)
    moreover have "2 ^ 32 \<le> unat (?i - 1040) + unat (1040 - ?i)"
      using unat_add_lem[of "?i - 1040" "1040 - ?i"] calculation by (auto simp: not_less[symmetric] unat_eq_zero)
    ultimately show ?thesis by (simp add: word_le_nat_alt)
  qed
  then have low: "1245 \<le> ?i - 1040" "?i < 1245" if "?i < 1040" using that less_trans[of ?i 1040 1245] by simp_all
  consider "?i < 1040" | "1040 \<le> ?i" "?i < 1245" | "1245 \<le> ?i" by (meson not_le)
  then show ?thesis
  proof cases
    case 1
    with low show ?thesis by (auto simp: vmw_cmd_describe_def Let_def not_le not_less)
  next
    case 2
    with inside show ?thesis by (auto simp: vmw_cmd_describe_def Let_def not_le not_less)
  next
    case 3
    then have "\<not> ?i < 1040" using less_trans[of ?i 1040 1245] by auto
    with 3 show ?thesis by (auto simp: vmw_cmd_describe_def Let_def)
  qed
qed

section \<open>Applying relocations\<close>

lemma join_bytes:
  fixes v :: u32
  shows "ucast (ucast v :: u8) OR push_bit 8 (ucast (ucast (drop_bit 8 v) :: u8)) OR
     push_bit 16 (ucast (ucast (drop_bit 16 v) :: u8)) OR push_bit 24 (ucast (ucast (drop_bit 24 v) :: u8)) = v"
    (is "?l = v")
proof (rule bit_word_eqI)
  fix n
  assume "n < LENGTH(32)"
  then have n: "n < 32" by simp
  have "bit ?l n \<longleftrightarrow> (n < 8 \<and> bit v n) \<or> (8 \<le> n \<and> n - 8 < 8 \<and> bit v (8 + (n - 8))) \<or>
      (16 \<le> n \<and> n - 16 < 8 \<and> bit v (16 + (n - 16))) \<or> (24 \<le> n \<and> n - 24 < 8 \<and> bit v (24 + (n - 24)))"
    using n by (auto simp: bit_or_iff bit_push_bit_iff bit_ucast_iff bit_drop_bit_eq)
  also have "\<dots> \<longleftrightarrow> bit v n"
    using n by (cases "n < 8"; cases "n < 16"; cases "n < 24") auto
  finally show "bit ?l n = bit v n" .
qed

lemma read32_write32_same [simp]: "read32 (write32 mem a v) a = v"
  using join_bytes[of v] by (simp add: read32_def write32_def)

lemma write32_other: "x < a \<or> a + 4 \<le> x \<Longrightarrow> write32 mem a v x = mem x"
  by (auto simp: write32_def)

lemma read32_write32_other [simp]:
  "b + 4 \<le> a \<or> a + 4 \<le> b \<Longrightarrow> read32 (write32 mem a v) b = read32 mem b"
  by (auto simp: read32_def write32_other)

definition reloc_value :: "u32 \<Rightarrow> vmw_resource_relocation \<Rightarrow> u32" where
  \<comment> \<open>what should be at the place of a relocation, given what was there\<close>
  "reloc_value old rel =
     (case rr_rel_type rel of
        vmw_res_rel_normal \<Rightarrow> rr_res_id rel
      | vmw_res_rel_nop \<Rightarrow> 1119
      | vmw_res_rel_cond_nop \<Rightarrow> if rr_res_id rel = 0xFFFFFFFF then 1119 else old)"

lemma relocations_apply_Cons:
  "vmw_resource_relocations_apply cb (rel # rels) mem =
     vmw_resource_relocations_apply cb rels (write32 mem (cb + rr_offset rel) (reloc_value (read32 mem (cb + rr_offset rel)) rel))"
proof -
  have split: "read32 mem a = v \<Longrightarrow> write32 mem a v = mem" for a v
  proof (rule ext)
    fix x
    assume v: "read32 mem a = v"
    have b: "ucast v = mem a" "ucast (drop_bit 8 v) = mem (a + 1)" "ucast (drop_bit 16 v) = mem (a + 2)"
      "ucast (drop_bit 24 v) = mem (a + 3)"
      unfolding v[symmetric] read32_def
      by (rule bit_word_eqI; auto simp: bit_or_iff bit_push_bit_iff bit_ucast_iff bit_drop_bit_eq dest: bit_imp_le_length)+
    then show "write32 mem a v x = mem x" by (auto simp: write32_def)
  qed
  show ?thesis
    by (cases "rr_rel_type rel") (auto simp: reloc_value_def Let_def split)
qed

declare vmw_resource_relocations_apply.simps(2) [simp del]

text \<open>\<open>vmw_resource_relocations_apply\<close> patches exactly the recorded places. When no two
  relocations overlap, each place holds afterwards what its relocation says (the resource's
  device id, or a NOP command for an unconditional NOP relocation and for a conditional one of a resource without an
  id, or what was there before), and every byte outside these places is unchanged.
\<close>
lemma resource_relocations_exact:
  assumes "sorted_wrt (\<lambda>r s. rr_offset r + 4 \<le> rr_offset s \<or> rr_offset s + 4 \<le> rr_offset r) rels"
    and "mem' = vmw_resource_relocations_apply cb rels mem"
  shows "(\<forall>rel \<in> set rels. read32 mem' (cb + rr_offset rel) = reloc_value (read32 mem (cb + rr_offset rel)) rel) \<and>
    (\<forall>x. (\<forall>rel \<in> set rels. x < cb + rr_offset rel \<or> cb + rr_offset rel + 4 \<le> x) \<longrightarrow> mem' x = mem x)"
proof -
  have out: "vmw_resource_relocations_apply cb rels mem x = mem x"
    if "\<forall>rel \<in> set rels. x < cb + rr_offset rel \<or> cb + rr_offset rel + 4 \<le> x" for rels mem x
    using that by (induction rels arbitrary: mem) (auto simp: relocations_apply_Cons write32_other)
  have rd: "read32 (vmw_resource_relocations_apply cb rels mem) a = read32 mem a"
    if "\<forall>rel \<in> set rels. a + 4 \<le> cb + rr_offset rel \<or> cb + rr_offset rel + 4 \<le> a" for rels mem a
  proof -
    have "vmw_resource_relocations_apply cb rels mem (a + i) = mem (a + i)" if "i < 4" for i
      using that \<open>\<forall>rel \<in> set rels. _\<close> by (intro out) fastforce
    from this[of 0] this[of 1] this[of 2] this[of 3] show ?thesis by (simp add: read32_def)
  qed
  have "\<forall>rel \<in> set rels. read32 (vmw_resource_relocations_apply cb rels mem) (cb + rr_offset rel) =
      reloc_value (read32 mem (cb + rr_offset rel)) rel"
    using assms(1)
  proof (induction rels arbitrary: mem)
    case (Cons rel rels)
    let ?a = "cb + rr_offset rel"
    have "read32 (vmw_resource_relocations_apply cb (rel # rels) mem) ?a = reloc_value (read32 mem ?a) rel"
      using Cons.prems by (simp add: relocations_apply_Cons) (subst rd, auto)
    moreover have "read32 (vmw_resource_relocations_apply cb (rel # rels) mem) (cb + rr_offset r) =
        reloc_value (read32 mem (cb + rr_offset r)) r" if "r \<in> set rels" for r
      using Cons that by (auto simp: relocations_apply_Cons)
    ultimately show ?case by simp
  qed simp
  with out show ?thesis unfolding assms(2) by blast
qed

text \<open>Witness: a context id at offset 8 and a command at offset 0 that becomes a NOP.\<close>
lemma resource_relocations_exact_example:
  "read32 (vmw_resource_relocations_apply 0 [\<lparr>rr_res_id = 7, rr_offset = 8, rr_rel_type = vmw_res_rel_normal\<rparr>,
      \<lparr>rr_res_id = 0xFFFFFFFF, rr_offset = 0, rr_rel_type = vmw_res_rel_cond_nop\<rparr>] two_commands) 8 = 7"
  using resource_relocations_exact[of "[\<lparr>rr_res_id = 7, rr_offset = 8, rr_rel_type = vmw_res_rel_normal\<rparr>,
      \<lparr>rr_res_id = 0xFFFFFFFF, rr_offset = 0, rr_rel_type = vmw_res_rel_cond_nop\<rparr>]" _ 0 two_commands, OF _ refl]
  by (simp add: reloc_value_def)

section \<open>What a handler may do to a command\<close>

text \<open>
  What a command is when it is checked and what it is when the device gets it may differ. The handler of SURFACE_DMA finds the suffix of
  the command by the size in its header, without a lower bound for that size. With size 0 the suffix begins four bytes
  before the command, and the field \<open>maximumOffset\<close>, which the handler lowers to what the buffer object has left behind the guest
  pointer, is the command's own number. So a command that was checked as SURFACE_DMA is
  accepted and has any number below 1044 that user space likes, the kernel-only ones included.
\<close>
lemma dma_rewrites_own_number:
  assumes "read32 mem (buf + 4) = 0" "read32 mem (buf - 4) = 12" "4 \<le> buf"
    and "translate_guest_ptr sw mem (buf + 8) = (sw1, Inr num_pages)"
    and "read32 mem (buf + 12) \<le> num_pages * 4096" "num_pages * 4096 - read32 mem (buf + 12) < read32 mem buf"
    and "snd (surface_check sw1 (write32 mem buf (num_pages * 4096 - read32 mem (buf + 12))) (buf + 20)) = Inr ()"
  shows "\<exists>sw2 mem2. vmw_cmd_dma_check translate_guest_ptr surface_check gb sw mem buf = (sw2, mem2, Inr ()) \<and>
    read32 mem2 buf = num_pages * 4096 - read32 mem (buf + 12)"
proof -
  have pos: "buf + 8 + 0 - 12 = buf - 4" "buf - 4 + 4 = buf" "buf + 8 + 4 = buf + 12" "buf + 8 + 12 = buf + 20"
    using assms(3) by auto
  obtain sw2 where "surface_check sw1 (write32 mem buf (num_pages * 4096 - read32 mem (buf + 12))) (buf + 20) = (sw2, Inr ())"
    using assms(7) by (metis prod.collapse)
  then show ?thesis
    using assms pos
    by (simp add: vmw_cmd_dma_check_def Let_def not_less add.commute)
qed

end
