(* ===== verification/Ttm_Lock.thy ===== *)
theory Ttm_Lock
  imports Vmw_Prelude
begin

text \<open>
  The TTM lock of \<open>src/ttm/ttm_lock.c\<close>: many readers or one writer, with two further kinds of holders,
  the VT lock (a process that has left the virtual terminal) and the suspend lock, which keep both readers
  and writers out. Every attempt runs under the lock's spinlock and is one atomic step here;
  a thread that waits makes attempts, in any order with those of the others, until one
  succeeds or a signal ends its wait. Threads are numbered.
\<close>

section \<open>Operations\<close>

abbreviation (input) TTM_WRITE_LOCK_PENDING :: u32 where "TTM_WRITE_LOCK_PENDING \<equiv> 1"
abbreviation (input) TTM_VT_LOCK_PENDING :: u32 where "TTM_VT_LOCK_PENDING \<equiv> 2"
abbreviation (input) TTM_SUSPEND_LOCK_PENDING :: u32 where "TTM_SUSPEND_LOCK_PENDING \<equiv> 4"
abbreviation (input) TTM_VT_LOCK :: u32 where "TTM_VT_LOCK \<equiv> 8"
abbreviation (input) TTM_SUSPEND_LOCK :: u32 where "TTM_SUSPEND_LOCK \<equiv> 16"

record ttm_lock =
  rw :: u32
  lflags :: u32
  kill_takers :: bool
  wakeups :: nat
  killed :: nat

definition ttm_lock_init :: ttm_lock where
  "ttm_lock_init = \<lparr>rw = 0, lflags = 0, kill_takers = False, wakeups = 0, killed = 0\<rparr>"

definition wake_up_all :: "ttm_lock \<Rightarrow> ttm_lock" where
  "wake_up_all l = l\<lparr>wakeups := wakeups l + 1\<rparr>"

definition ttm_read_unlock :: "ttm_lock \<Rightarrow> ttm_lock" where
  "ttm_read_unlock l =
     (let l1 = l\<lparr>rw := rw l - 1\<rparr> in if rw l1 = 0 then wake_up_all l1 else l1)"

definition ttm_read_try :: "ttm_lock \<Rightarrow> ttm_lock \<times> bool" where
  \<comment> \<open>\<open>__ttm_read_lock\<close>\<close>
  "ttm_read_try l =
     (if kill_takers l then (l\<lparr>killed := killed l + 1\<rparr>, False)
      else if sint (rw l) \<ge> 0 \<and> lflags l = 0 then (l\<lparr>rw := rw l + 1\<rparr>, True)
      else (l, False))"

definition ttm_write_unlock :: "ttm_lock \<Rightarrow> ttm_lock" where
  "ttm_write_unlock l = wake_up_all (l\<lparr>rw := 0\<rparr>)"

definition ttm_write_try :: "ttm_lock \<Rightarrow> ttm_lock \<times> bool" where
  \<comment> \<open>\<open>__ttm_write_lock\<close>\<close>
  "ttm_write_try l =
     (if kill_takers l then (l\<lparr>killed := killed l + 1\<rparr>, False)
      else if rw l = 0 \<and> lflags l AND NOT TTM_WRITE_LOCK_PENDING = 0
      then (l\<lparr>rw := - 1, lflags := lflags l AND NOT TTM_WRITE_LOCK_PENDING\<rparr>, True)
      else (l\<lparr>lflags := lflags l OR TTM_WRITE_LOCK_PENDING\<rparr>, False))"

definition ttm_write_interrupted :: "ttm_lock \<Rightarrow> ttm_lock" where
  \<comment> \<open>the end of \<open>ttm_write_lock\<close> when a signal arrives\<close>
  "ttm_write_interrupted l = wake_up_all (l\<lparr>lflags := lflags l AND NOT TTM_WRITE_LOCK_PENDING\<rparr>)"

definition ttm_vt_unlock :: "ttm_lock \<Rightarrow> ttm_lock \<times> unit kres" where
  \<comment> \<open>\<open>__ttm_vt_unlock\<close>\<close>
  "ttm_vt_unlock l =
     (wake_up_all (l\<lparr>lflags := lflags l AND NOT TTM_VT_LOCK\<rparr>),
      if lflags l AND TTM_VT_LOCK = 0 then Inl EINVAL else Inr ())"

definition ttm_vt_try :: "ttm_lock \<Rightarrow> ttm_lock \<times> bool" where
  \<comment> \<open>\<open>__ttm_vt_lock\<close>\<close>
  "ttm_vt_try l =
     (if rw l = 0
      then (l\<lparr>lflags := (lflags l AND NOT TTM_VT_LOCK_PENDING) OR TTM_VT_LOCK\<rparr>, True)
      else (l\<lparr>lflags := lflags l OR TTM_VT_LOCK_PENDING\<rparr>, False))"

definition ttm_vt_interrupted :: "ttm_lock \<Rightarrow> ttm_lock" where
  "ttm_vt_interrupted l = wake_up_all (l\<lparr>lflags := lflags l AND NOT TTM_VT_LOCK_PENDING\<rparr>)"

definition ttm_suspend_unlock :: "ttm_lock \<Rightarrow> ttm_lock" where
  "ttm_suspend_unlock l = wake_up_all (l\<lparr>lflags := lflags l AND NOT TTM_SUSPEND_LOCK\<rparr>)"

definition ttm_suspend_try :: "ttm_lock \<Rightarrow> ttm_lock \<times> bool" where
  \<comment> \<open>\<open>__ttm_suspend_lock\<close>\<close>
  "ttm_suspend_try l =
     (if rw l = 0
      then (l\<lparr>lflags := (lflags l AND NOT TTM_SUSPEND_LOCK_PENDING) OR TTM_SUSPEND_LOCK\<rparr>, True)
      else (l\<lparr>lflags := lflags l OR TTM_SUSPEND_LOCK_PENDING\<rparr>, False))"

section \<open>Threads\<close>

datatype mode = Idle | Reading | Writing | Vt_locked | Suspended

record system =
  lk :: ttm_lock
  mode_of :: "nat \<Rightarrow> mode"

definition attempt :: "(ttm_lock \<Rightarrow> ttm_lock \<times> bool) \<Rightarrow> mode \<Rightarrow> nat \<Rightarrow> system \<Rightarrow> system" where
  "attempt op m t s =
     (case op (lk s) of (l, locked) \<Rightarrow>
        s\<lparr>lk := l, mode_of := (if locked then (mode_of s)(t := m) else mode_of s)\<rparr>)"

definition release :: "(ttm_lock \<Rightarrow> ttm_lock) \<Rightarrow> nat \<Rightarrow> system \<Rightarrow> system" where
  "release op t s = s\<lparr>lk := op (lk s), mode_of := (mode_of s)(t := Idle)\<rparr>"

text \<open>
  One step of one of \<open>n\<close> threads. \<open>single\<close> says that at most one thread at a time goes for the VT
  lock and at most one for the suspend lock, which the callers see to: there is one DRM
  master, and suspend is not reentrant.
\<close>

inductive ttm_step :: "bool \<Rightarrow> nat \<Rightarrow> system \<Rightarrow> system \<Rightarrow> bool" for single :: bool and n :: nat where
  read_lock: "t < n \<Longrightarrow> mode_of s t = Idle \<Longrightarrow> ttm_step single n s (attempt ttm_read_try Reading t s)"
| read_unlock: "t < n \<Longrightarrow> mode_of s t = Reading \<Longrightarrow> ttm_step single n s (release ttm_read_unlock t s)"
| write_lock: "t < n \<Longrightarrow> mode_of s t = Idle \<Longrightarrow> ttm_step single n s (attempt ttm_write_try Writing t s)"
| write_intr: "t < n \<Longrightarrow> mode_of s t = Idle \<Longrightarrow> ttm_step single n s (s\<lparr>lk := ttm_write_interrupted (lk s)\<rparr>)"
| write_unlock: "t < n \<Longrightarrow> mode_of s t = Writing \<Longrightarrow> ttm_step single n s (release ttm_write_unlock t s)"
| vt_lock: "t < n \<Longrightarrow> mode_of s t = Idle \<Longrightarrow> single \<longrightarrow> Vt_locked \<notin> range (mode_of s) \<Longrightarrow>
    ttm_step single n s (attempt ttm_vt_try Vt_locked t s)"
| vt_intr: "t < n \<Longrightarrow> mode_of s t = Idle \<Longrightarrow> ttm_step single n s (s\<lparr>lk := ttm_vt_interrupted (lk s)\<rparr>)"
| vt_unlock: "t < n \<Longrightarrow> mode_of s t = Vt_locked \<Longrightarrow> ttm_step single n s (release (\<lambda>l. fst (ttm_vt_unlock l)) t s)"
| suspend_lock: "t < n \<Longrightarrow> mode_of s t = Idle \<Longrightarrow> single \<longrightarrow> Suspended \<notin> range (mode_of s) \<Longrightarrow>
    ttm_step single n s (attempt ttm_suspend_try Suspended t s)"
| suspend_unlock: "t < n \<Longrightarrow> mode_of s t = Suspended \<Longrightarrow> ttm_step single n s (release ttm_suspend_unlock t s)"

inductive_cases ttm_stepE: "ttm_step single n s s'"

definition ttm_start :: system where
  "ttm_start = \<lparr>lk = ttm_lock_init, mode_of = (\<lambda>_. Idle)\<rparr>"

section \<open>The invariant\<close>

definition holders :: "mode \<Rightarrow> system \<Rightarrow> nat set" where
  "holders m s = {t. mode_of s t = m}"

definition at_most_one :: "nat set \<Rightarrow> bool" where
  "at_most_one A \<longleftrightarrow> A = {} \<or> (\<exists>t. A = {t})"

definition lock_ok :: "ttm_lock \<Rightarrow> nat set \<Rightarrow> nat set \<Rightarrow> nat set \<Rightarrow> nat set \<Rightarrow> bool" where
  \<comment> \<open>the lock's word and flags against the readers, the writers, the VT and the suspend holders\<close>
  "lock_ok l R W V S \<longleftrightarrow>
     (W = {} \<longrightarrow> rw l = of_nat (card R)) \<and> (W \<noteq> {} \<longrightarrow> rw l = - 1 \<and> R = {}) \<and> at_most_one W \<and>
     (bit (lflags l) 3 \<longleftrightarrow> V \<noteq> {}) \<and> at_most_one V \<and> (bit (lflags l) 4 \<longleftrightarrow> S \<noteq> {}) \<and> at_most_one S \<and>
     (V \<noteq> {} \<or> S \<noteq> {} \<longrightarrow> rw l = 0)"

definition ttm_inv :: "nat \<Rightarrow> system \<Rightarrow> bool" where
  "ttm_inv n s \<longleftrightarrow>
     (\<forall>t. n \<le> t \<longrightarrow> mode_of s t = Idle) \<and>
     lock_ok (lk s) (holders Reading s) (holders Writing s) (holders Vt_locked s) (holders Suspended s)"

definition exclusive :: "system \<Rightarrow> bool" where
  \<comment> \<open>no two threads hold the lock in conflicting modes\<close>
  "exclusive s \<longleftrightarrow> (\<forall>t u. t \<noteq> u \<longrightarrow>
     (mode_of s t = Writing \<longrightarrow> mode_of s u = Idle) \<and>
     (mode_of s t = Reading \<longrightarrow> mode_of s u \<in> {Idle, Reading}))"

lemma lflag_bits:
  fixes w :: u32
  shows "bit (w AND NOT 1) k \<longleftrightarrow> bit w k \<and> k \<noteq> 0" "bit (w AND NOT 2) k \<longleftrightarrow> bit w k \<and> k \<noteq> 1"
    "bit (w AND NOT 4) k \<longleftrightarrow> bit w k \<and> k \<noteq> 2" "bit (w AND NOT 8) k \<longleftrightarrow> bit w k \<and> k \<noteq> 3"
    "bit (w AND NOT 16) k \<longleftrightarrow> bit w k \<and> k \<noteq> 4" "bit (w OR 1) k \<longleftrightarrow> bit w k \<or> k = 0"
    "bit (w OR 2) k \<longleftrightarrow> bit w k \<or> k = 1" "bit (w OR 4) k \<longleftrightarrow> bit w k \<or> k = 2"
    "bit (w OR 8) k \<longleftrightarrow> bit w k \<or> k = 3" "bit (w OR 16) k \<longleftrightarrow> bit w k \<or> k = 4"
proof -
  have e: "bit (2 ^ i :: u32) k \<longleftrightarrow> k = i" if "i < 32" for i
    using that bit_exp_iff[where 'a = "32 word", of i k] by auto
  have b: "bit (1 :: u32) k \<longleftrightarrow> k = 0" "bit (2 :: u32) k \<longleftrightarrow> k = 1" "bit (4 :: u32) k \<longleftrightarrow> k = 2"
    "bit (8 :: u32) k \<longleftrightarrow> k = 3" "bit (16 :: u32) k \<longleftrightarrow> k = 4"
    using e[of 0] e[of 1] e[of 2] e[of 3] e[of 4] by simp_all
  show "bit (w AND NOT 1) k \<longleftrightarrow> bit w k \<and> k \<noteq> 0" "bit (w AND NOT 2) k \<longleftrightarrow> bit w k \<and> k \<noteq> 1"
    "bit (w AND NOT 4) k \<longleftrightarrow> bit w k \<and> k \<noteq> 2" "bit (w AND NOT 8) k \<longleftrightarrow> bit w k \<and> k \<noteq> 3"
    "bit (w AND NOT 16) k \<longleftrightarrow> bit w k \<and> k \<noteq> 4" "bit (w OR 1) k \<longleftrightarrow> bit w k \<or> k = 0"
    "bit (w OR 2) k \<longleftrightarrow> bit w k \<or> k = 1" "bit (w OR 4) k \<longleftrightarrow> bit w k \<or> k = 2"
    "bit (w OR 8) k \<longleftrightarrow> bit w k \<or> k = 3" "bit (w OR 16) k \<longleftrightarrow> bit w k \<or> k = 4"
    by (simp_all only: bit_or_iff bit_and_iff bit_not_iff b) (use bit_imp_possible_bit[of w k] in auto)
qed

lemma lflag_bits_num:
  fixes w :: u32
  shows "bit (w AND - 2) k \<longleftrightarrow> bit w k \<and> k \<noteq> 0" "bit (w AND - 3) k \<longleftrightarrow> bit w k \<and> k \<noteq> 1"
    "bit (w AND - 5) k \<longleftrightarrow> bit w k \<and> k \<noteq> 2" "bit (w AND - 9) k \<longleftrightarrow> bit w k \<and> k \<noteq> 3"
    "bit (w AND - 17) k \<longleftrightarrow> bit w k \<and> k \<noteq> 4"
  using lflag_bits(1-5)[of w k] by simp_all

lemma small_of_nat:
  assumes "c < 2 ^ 31"
  shows "(of_nat c :: u32) = 0 \<longleftrightarrow> c = 0" "(of_nat c :: u32) \<noteq> - 1" "0 \<le> sint (of_nat c :: u32)"
proof -
  have u: "unat (of_nat c :: u32) = c"
    using assms by (simp add: unat_of_nat)
  show "(of_nat c :: u32) = 0 \<longleftrightarrow> c = 0"
    using u by (cases "c = 0") auto
  show "(of_nat c :: u32) \<noteq> - 1"
  proof
    assume "(of_nat c :: u32) = - 1"
    then have "unat (- 1 :: u32) = c" using u by simp
    moreover have "unat (- 1 :: u32) = 2 ^ 32 - 1" by (simp add: unsigned_minus_1_eq_mask mask_eq_exp_minus_1)
    ultimately show False using assms by simp
  qed
  have "sint (of_nat c :: u32) = int c"
    using assms by (simp add: signed_of_nat signed_take_bit_int_eq_self)
  then show "0 \<le> sint (of_nat c :: u32)" by simp
qed

lemma at_most_one_simps [simp]: "at_most_one {}" "at_most_one {t}"
  by (auto simp: at_most_one_def)

lemma at_most_one_is: "at_most_one A \<Longrightarrow> t \<in> A \<Longrightarrow> A = {t}"
  by (auto simp: at_most_one_def)

lemma lock_ok_free:
  assumes "lock_ok l R W V S" "finite R" "card R < 2 ^ 31" "rw l = 0"
  shows "R = {}" "W = {}"
proof -
  show "W = {}" using assms by (auto simp: lock_ok_def)
  then show "R = {}" using assms small_of_nat(1)[of "card R"] by (auto simp: lock_ok_def)
qed

lemma flags_clear: "(l :: u32) = 0 \<Longrightarrow> \<not> bit l k" "(l :: u32) AND NOT 1 = 0 \<Longrightarrow> k \<noteq> 0 \<Longrightarrow> \<not> bit l k"
  using lflag_bits(1)[of l k] by auto

lemma lock_ok_read_try:
  assumes "lock_ok l R W V S" "finite R" "t \<notin> R" "ttm_read_try l = (l', True)"
  shows "lock_ok l' (insert t R) W V S"
proof -
  have l: "0 \<le> sint (rw l)" "lflags l = 0" "l' = l\<lparr>rw := rw l + 1\<rparr>"
    using assms(4) by (auto simp: ttm_read_try_def split: if_splits)
  then have "W = {}" "V = {}" "S = {}" using assms(1) flags_clear(1)[of "lflags l"] by (auto simp: lock_ok_def)
  then show ?thesis using assms(1-3) l by (simp add: lock_ok_def)
qed

lemma lock_ok_read_unlock:
  assumes "lock_ok l R W V S" "finite R" "card R < 2 ^ 31" "t \<in> R"
  shows "lock_ok (ttm_read_unlock l) (R - {t}) W V S"
proof -
  have W: "W = {}" and r: "rw l = of_nat (card R)" using assms(1,4) by (auto simp: lock_ok_def)
  have c: "card R = Suc (card (R - {t}))" using assms(2,4) by (metis card.remove)
  have "rw l \<noteq> 0" using r c small_of_nat(1)[OF assms(3)] by simp
  then have "V = {}" "S = {}" using assms(1) by (auto simp: lock_ok_def)
  then show ?thesis using assms(1) W r c
    by (simp add: lock_ok_def ttm_read_unlock_def wake_up_all_def Let_def)
qed

lemma lock_ok_write_try:
  assumes "lock_ok l R W V S" "finite R" "card R < 2 ^ 31" "ttm_write_try l = (l', True)"
  shows "lock_ok l' R (insert t W) V S"
proof -
  have l: "rw l = 0" "lflags l AND NOT 1 = 0" "l' = l\<lparr>rw := - 1, lflags := lflags l AND NOT 1\<rparr>"
    using assms(4) by (auto simp: ttm_write_try_def split: if_splits)
  have RW: "R = {}" "W = {}" using lock_ok_free[OF assms(1-3) l(1)] by auto
  moreover have "V = {}" "S = {}" using assms(1) flags_clear(2)[OF l(2)] by (auto simp: lock_ok_def)
  ultimately show ?thesis using l(2) by (simp add: lock_ok_def l(3))
qed

lemma lock_ok_write_unlock:
  assumes "lock_ok l R W V S" "t \<in> W"
  shows "lock_ok (ttm_write_unlock l) R (W - {t}) V S"
  using assms at_most_one_is[of W t]
  by (auto simp: lock_ok_def ttm_write_unlock_def wake_up_all_def)

lemma lock_ok_vt_try:
  assumes "lock_ok l R W {} S" "ttm_vt_try l = (l', True)"
  shows "lock_ok l' R W {t} S"
  using assms by (auto simp: lock_ok_def ttm_vt_try_def lflag_bits lflag_bits_num split: if_splits)

lemma lock_ok_vt_unlock:
  assumes "lock_ok l R W V S" "t \<in> V"
  shows "lock_ok (fst (ttm_vt_unlock l)) R W (V - {t}) S"
  using assms at_most_one_is[of V t]
  by (auto simp: lock_ok_def ttm_vt_unlock_def wake_up_all_def lflag_bits lflag_bits_num)

lemma lock_ok_suspend_try:
  assumes "lock_ok l R W V {}" "ttm_suspend_try l = (l', True)"
  shows "lock_ok l' R W V {t}"
  using assms by (auto simp: lock_ok_def ttm_suspend_try_def lflag_bits lflag_bits_num split: if_splits)

lemma lock_ok_suspend_unlock:
  assumes "lock_ok l R W V S" "t \<in> S"
  shows "lock_ok (ttm_suspend_unlock l) R W V (S - {t})"
  using assms at_most_one_is[of S t]
  by (auto simp: lock_ok_def ttm_suspend_unlock_def wake_up_all_def lflag_bits lflag_bits_num)

lemma lock_ok_failed:
  assumes "lock_ok l R W V S"
  shows "ttm_read_try l = (l', False) \<Longrightarrow> lock_ok l' R W V S"
    "ttm_write_try l = (l', False) \<Longrightarrow> lock_ok l' R W V S"
    "ttm_vt_try l = (l', False) \<Longrightarrow> lock_ok l' R W V S"
    "ttm_suspend_try l = (l', False) \<Longrightarrow> lock_ok l' R W V S"
    "lock_ok (ttm_write_interrupted l) R W V S" "lock_ok (ttm_vt_interrupted l) R W V S"
  using assms
  by (auto simp: lock_ok_def ttm_read_try_def ttm_write_try_def ttm_vt_try_def ttm_suspend_try_def
      ttm_write_interrupted_def ttm_vt_interrupted_def wake_up_all_def lflag_bits lflag_bits_num split: if_splits)

lemma inv_holders:
  assumes "ttm_inv n s" "n < 2 ^ 31" "m \<noteq> Idle"
  shows "finite (holders m s)" "card (holders m s) < 2 ^ 31"
proof -
  have "holders m s \<subseteq> {..<n}" using assms by (auto simp: ttm_inv_def holders_def not_less[symmetric])
  then show "finite (holders m s)" "card (holders m s) < 2 ^ 31"
    using finite_subset card_mono[of "{..<n}" "holders m s"] assms(2) by auto
qed

lemma idle_holders: "mode_of s t = Idle \<Longrightarrow> m \<noteq> Idle \<Longrightarrow> t \<notin> holders m s"
  by (auto simp: holders_def)

lemma not_in_holders: "mode_of s t = m' \<Longrightarrow> m \<noteq> m' \<Longrightarrow> holders m s - {t} = holders m s"
  by (auto simp: holders_def)

lemma holders_attempt:
  assumes "op (lk s) = (l, b)"
  shows "holders m (attempt op m' t s) = (if b then if m = m' then insert t (holders m s) else holders m s - {t} else holders m s)"
    "lk (attempt op m' t s) = l"
    "mode_of (attempt op m' t s) = (if b then (mode_of s)(t := m') else mode_of s)"
  using assms by (auto simp: attempt_def holders_def)

lemma holders_release:
  "m \<noteq> Idle \<Longrightarrow> holders m (release op t s) = holders m s - {t}" "lk (release op t s) = op (lk s)"
  "mode_of (release op t s) = (mode_of s)(t := Idle)"
  by (auto simp: release_def holders_def)

lemma ttm_inv_attempt:
  assumes "ttm_inv n s" "t < n" "mode_of s t = Idle" "op (lk s) = (l, b)" "m \<noteq> Idle"
    "lock_ok l (if b \<and> m = Reading then insert t (holders Reading s) else holders Reading s)
       (if b \<and> m = Writing then insert t (holders Writing s) else holders Writing s)
       (if b \<and> m = Vt_locked then insert t (holders Vt_locked s) else holders Vt_locked s)
       (if b \<and> m = Suspended then insert t (holders Suspended s) else holders Suspended s)"
  shows "ttm_inv n (attempt op m t s)"
proof -
  have "holders m' s - {t} = holders m' s" if "m' \<noteq> Idle" for m'
    using idle_holders[OF assms(3) that] by simp
  then show ?thesis using assms
    by (cases b) (auto simp: ttm_inv_def holders_attempt[where op = op and s = s, OF assms(4)])
qed

lemma ttm_inv_release:
  assumes "ttm_inv n s" "mode_of s t = m" "m \<noteq> Idle"
    "lock_ok (op (lk s)) (if m = Reading then holders Reading s - {t} else holders Reading s)
       (if m = Writing then holders Writing s - {t} else holders Writing s)
       (if m = Vt_locked then holders Vt_locked s - {t} else holders Vt_locked s)
       (if m = Suspended then holders Suspended s - {t} else holders Suspended s)"
  shows "ttm_inv n (release op t s)"
  using assms not_in_holders[OF assms(2)]
  by (cases m) (auto simp: ttm_inv_def holders_release)

lemma no_holders: "m \<notin> range (mode_of s) \<Longrightarrow> holders m s = {}"
  by (auto simp: holders_def)

lemma ttm_step_inv:
  assumes "ttm_step True n s s'" "ttm_inv n s" "n < 2 ^ 31"
  shows "ttm_inv n s'"
  using assms(1)
proof cases
  note ok = assms(2)[unfolded ttm_inv_def, THEN conjunct2]
  note fin = inv_holders[OF assms(2,3), of Reading, simplified]
  note failed = lock_ok_failed[OF ok]
  {
    case (read_lock t)
    obtain l b where "ttm_read_try (lk s) = (l, b)" by fastforce
    then show ?thesis using read_lock failed(1) lock_ok_read_try[OF ok] fin idle_holders[of s t Reading]
      by (cases b) (auto intro!: ttm_inv_attempt[OF assms(2)])
  next
    case (read_unlock t)
    then show ?thesis using lock_ok_read_unlock[OF ok] fin
      by (auto intro!: ttm_inv_release[OF assms(2)] simp: holders_def)
  next
    case (write_lock t)
    obtain l b where "ttm_write_try (lk s) = (l, b)" by fastforce
    then show ?thesis using write_lock failed(2) lock_ok_write_try[OF ok] fin
      by (cases b) (auto intro!: ttm_inv_attempt[OF assms(2)])
  next
    case (write_intr t)
    then show ?thesis using failed(5) assms(2) by (auto simp: ttm_inv_def holders_def)
  next
    case (write_unlock t)
    then show ?thesis using lock_ok_write_unlock[OF ok]
      by (auto intro!: ttm_inv_release[OF assms(2)] simp: holders_def)
  next
    case (vt_lock t)
    obtain l b where "ttm_vt_try (lk s) = (l, b)" by fastforce
    then show ?thesis using vt_lock failed(3) lock_ok_vt_try ok no_holders[of Vt_locked s]
      by (cases b) (auto intro!: ttm_inv_attempt[OF assms(2)])
  next
    case (vt_intr t)
    then show ?thesis using failed(6) assms(2) by (auto simp: ttm_inv_def holders_def)
  next
    case (vt_unlock t)
    then show ?thesis using lock_ok_vt_unlock[OF ok]
      by (auto intro!: ttm_inv_release[OF assms(2)] simp: holders_def)
  next
    case (suspend_lock t)
    obtain l b where "ttm_suspend_try (lk s) = (l, b)" by fastforce
    then show ?thesis using suspend_lock failed(4) lock_ok_suspend_try ok no_holders[of Suspended s]
      by (cases b) (auto intro!: ttm_inv_attempt[OF assms(2)])
  next
    case (suspend_unlock t)
    then show ?thesis using lock_ok_suspend_unlock[OF ok]
      by (auto intro!: ttm_inv_release[OF assms(2)] simp: holders_def)
  }
qed

lemma ttm_start_inv: "ttm_inv n ttm_start"
  by (auto simp: ttm_inv_def ttm_start_def ttm_lock_init_def holders_def lock_ok_def)

lemma ttm_reachable_inv:
  assumes "(ttm_step True n)\<^sup>*\<^sup>* ttm_start s" "n < 2 ^ 31"
  shows "ttm_inv n s"
  using assms(1) by induction (auto intro: ttm_start_inv ttm_step_inv assms(2))

lemma lock_ok_exclusive:
  assumes "lock_ok l R W V S" "finite R" "card R < 2 ^ 31"
  shows "t \<in> W \<Longrightarrow> R = {} \<and> V = {} \<and> S = {} \<and> W = {t}" "t \<in> R \<Longrightarrow> W = {} \<and> V = {} \<and> S = {}"
proof -
  show "R = {} \<and> V = {} \<and> S = {} \<and> W = {t}" if "t \<in> W"
  proof -
    have "rw l = - 1" "R = {}" "W = {t}" using assms(1) that at_most_one_is[of W t] by (auto simp: lock_ok_def)
    moreover then have "V = {}" "S = {}" using assms(1) by (simp_all add: lock_ok_def)
    ultimately show ?thesis by simp
  qed
  show "W = {} \<and> V = {} \<and> S = {}" if "t \<in> R"
  proof -
    have "rw l \<noteq> 0" using lock_ok_free(1)[OF assms] that by blast
    then show ?thesis using assms(1) that by (auto simp: lock_ok_def)
  qed
qed

lemma ttm_inv_exclusive:
  assumes "ttm_inv n s" "n < 2 ^ 31"
  shows "exclusive s"
  unfolding exclusive_def
proof (intro allI impI)
  fix t u :: nat
  assume "t \<noteq> u"
  note ok = assms(1)[unfolded ttm_inv_def, THEN conjunct2]
  note ex = lock_ok_exclusive[OF ok inv_holders(1,2)[OF assms mode.distinct(2)]]
  show "(mode_of s t = Writing \<longrightarrow> mode_of s u = Idle) \<and> (mode_of s t = Reading \<longrightarrow> mode_of s u \<in> {Idle, Reading})"
    using ex[of t] \<open>t \<noteq> u\<close> by (cases "mode_of s u") (auto simp: holders_def)
qed

section \<open>Readers, writers, and a pending writer\<close>

text \<open>
  C16: In every state \<open>n < 2 ^ 31\<close> threads can reach from an initialised lock, by any
  interleaving of attempts, releases and interrupted waits in which the VT lock and the suspend lock
  each have one taker at a time, a writer is alone with the lock and readers share
  it with readers only: no thread holds the VT or the suspend lock beside a reader or a writer.
\<close>

theorem ttm_lock_exclusion:
  assumes "(ttm_step True n)\<^sup>*\<^sup>* ttm_start s" "n < 2 ^ 31"
  shows "exclusive s"
  by (rule ttm_inv_exclusive[OF ttm_reachable_inv[OF assms] assms(2)])

lemma two_readers_run:
  "(ttm_step True 2)\<^sup>*\<^sup>* ttm_start (attempt ttm_read_try Reading 1 (attempt ttm_read_try Reading 0 ttm_start))"
proof -
  have "ttm_step True 2 ttm_start (attempt ttm_read_try Reading 0 ttm_start)"
    by (rule read_lock) (simp_all add: ttm_start_def)
  moreover have "ttm_step True 2 (attempt ttm_read_try Reading 0 ttm_start)
      (attempt ttm_read_try Reading 1 (attempt ttm_read_try Reading 0 ttm_start))"
    by (rule read_lock) (simp_all add: ttm_start_def attempt_def ttm_read_try_def ttm_lock_init_def)
  ultimately show ?thesis by (meson converse_rtranclp_into_rtranclp rtranclp.rtrancl_refl)
qed

theorem ttm_lock_exclusion_witness:
  "exclusive (attempt ttm_read_try Reading 1 (attempt ttm_read_try Reading 0 ttm_start)) \<and>
   mode_of (attempt ttm_read_try Reading 1 (attempt ttm_read_try Reading 0 ttm_start)) 1 = Reading"
proof
  show "exclusive (attempt ttm_read_try Reading 1 (attempt ttm_read_try Reading 0 ttm_start))"
    by (rule ttm_lock_exclusion[OF two_readers_run]) simp
qed (simp add: attempt_def ttm_read_try_def ttm_start_def ttm_lock_init_def)

definition vt_run :: system where
  \<comment> \<open>threads 0 and 1 take the VT lock, thread 0 gives it back, thread 2 starts to read\<close>
  "vt_run = attempt ttm_read_try Reading 2 (release (\<lambda>l. fst (ttm_vt_unlock l)) 0
     (attempt ttm_vt_try Vt_locked 1 (attempt ttm_vt_try Vt_locked 0 ttm_start)))"

lemmas ttm_run_defs = attempt_def release_def ttm_read_try_def ttm_vt_try_def ttm_vt_unlock_def
  wake_up_all_def ttm_start_def ttm_lock_init_def

text \<open>Without that discipline the VT lock excludes nobody for long: \<open>__ttm_vt_lock\<close> looks at the reader
  count only, so two threads can hold it, and the first to unlock clears the flag for both. From
  an initialised lock three threads reach a state in which one reads while another still holds
  the VT lock.
\<close>

lemma vt_lock_is_not_exclusive:
  "(ttm_step False 3)\<^sup>*\<^sup>* ttm_start vt_run \<and> mode_of vt_run 1 = Vt_locked \<and> mode_of vt_run 2 = Reading"
proof -
  let ?R = "ttm_step False 3"
  let ?a = "attempt ttm_vt_try Vt_locked 0 ttm_start"
  let ?b = "attempt ttm_vt_try Vt_locked 1 ?a"
  let ?c = "release (\<lambda>l. fst (ttm_vt_unlock l)) 0 ?b"
  have "?R ttm_start ?a" by (rule vt_lock) (simp_all add: ttm_run_defs)
  moreover have "?R ?a ?b" by (rule vt_lock) (simp_all add: ttm_run_defs)
  moreover have "?R ?b ?c" by (rule vt_unlock) (simp_all add: ttm_run_defs)
  moreover have "?R ?c vt_run" unfolding vt_run_def by (rule read_lock) (simp_all add: ttm_run_defs)
  ultimately have "?R\<^sup>*\<^sup>* ttm_start vt_run"
    by (meson converse_rtranclp_into_rtranclp rtranclp.rtrancl_refl)
  moreover have "mode_of vt_run 1 = Vt_locked" "mode_of vt_run 2 = Reading"
    by (simp_all add: vt_run_def ttm_run_defs)
  ultimately show ?thesis by blast
qed

definition reader_event :: "bool \<Rightarrow> ttm_lock \<Rightarrow> ttm_lock" where
  \<comment> \<open>a reader leaves, or a further one tries to enter\<close>
  "reader_event leaves l = (if leaves then ttm_read_unlock l else fst (ttm_read_try l))"

lemma readers_drain:
  assumes "\<not> kill_takers l" "lflags l = 1" "rw l = of_nat k" "k < 2 ^ 31" "count_list es True = k"
  shows "\<not> kill_takers (fold reader_event es l) \<and> lflags (fold reader_event es l) = 1 \<and> rw (fold reader_event es l) = 0"
  using assms
proof (induction es arbitrary: l k)
  case Nil
  then show ?case by simp
next
  case (Cons e es)
  let ?l = "reader_event e l"
  have "\<not> kill_takers ?l" "lflags ?l = 1" "rw ?l = of_nat (count_list es True)"
    using Cons.prems
    by (auto simp: reader_event_def ttm_read_unlock_def ttm_read_try_def wake_up_all_def Let_def)
  then show ?case using Cons.IH[of ?l] Cons.prems(4,5) by (simp split: if_splits)
qed

text \<open>A waiting writer is not starved by readers. Once its first attempt has raised the pending
  flag, no further reader gets in, whatever the order of arrivals and departures; and when the
  \<open>k\<close> readers that were inside have left, the writer's next attempt takes the lock and clears the flag.
\<close>

lemma pending_writer_gets_lock:
  assumes "\<not> kill_takers l" "lflags l = 0" "rw l = of_nat k" "0 < k" "k < 2 ^ 31" "count_list es True = k"
  shows "\<exists>l'. ttm_write_try (fold reader_event es (fst (ttm_write_try l))) = (l', True) \<and> lflags l' = 0 \<and> rw l' = - 1"
proof -
  have "fst (ttm_write_try l) = l\<lparr>lflags := 1\<rparr>"
    using assms small_of_nat(1)[of k] by (simp add: ttm_write_try_def)
  then show ?thesis
    using readers_drain[of "l\<lparr>lflags := 1\<rparr>" k es] assms by (simp add: ttm_write_try_def)
qed

lemma pending_writer_gets_lock_example:
  "\<exists>l'. ttm_write_try (fold reader_event [True, False, True] (fst (ttm_write_try (ttm_lock_init\<lparr>rw := 2\<rparr>)))) = (l', True)
     \<and> lflags l' = 0 \<and> rw l' = - 1"
  by (rule pending_writer_gets_lock[where k = 2]) (simp_all add: ttm_lock_init_def)

end
