(* ===== verification/Rect.thy ===== *)
theory Rect
  imports Vmw_Prelude "HOL-Library.Signed_Division"
begin

text \<open>
  Rectangles (\<open>src/drm_rect.c\<close>, \<open>src/drm_rect.h\<close>) and the check of a plane update that is built on
  them (\<open>drm_plane_helper_check_state\<close> of \<open>src/drm_plane_helper.c\<close>). Coordinates are C \<open>int\<close>s:
  32-bit words whose comparisons go through \<open>sint\<close> and whose arithmetic wraps (the kernel is
  built with \<open>-fno-strict-overflow\<close>).
\<close>

section \<open>Operations\<close>

type_synonym i32 = "32 word"

record drm_rect =
  x1 :: i32
  y1 :: i32
  x2 :: i32
  y2 :: i32

definition smax :: "i32 \<Rightarrow> i32 \<Rightarrow> i32" where
  "smax a b = (if sint b < sint a then a else b)"

definition smin :: "i32 \<Rightarrow> i32 \<Rightarrow> i32" where
  "smin a b = (if sint a < sint b then a else b)"

definition drm_rect_adjust_size :: "drm_rect \<Rightarrow> i32 \<Rightarrow> i32 \<Rightarrow> drm_rect" where
  "drm_rect_adjust_size r dw dh =
     \<lparr>x1 = x1 r - signed_drop_bit 1 dw, y1 = y1 r - signed_drop_bit 1 dh,
      x2 = x2 r + signed_drop_bit 1 (dw + 1), y2 = y2 r + signed_drop_bit 1 (dh + 1)\<rparr>"

definition drm_rect_translate :: "drm_rect \<Rightarrow> i32 \<Rightarrow> i32 \<Rightarrow> drm_rect" where
  "drm_rect_translate r dx dy = \<lparr>x1 = x1 r + dx, y1 = y1 r + dy, x2 = x2 r + dx, y2 = y2 r + dy\<rparr>"

definition c_div :: "i32 \<Rightarrow> i32 \<Rightarrow> i32" where
  \<comment> \<open>C division, which truncates towards zero; callers exclude a zero divisor\<close>
  "c_div a b = word_of_int (sint a sdiv sint b)"

definition drm_rect_downscale :: "drm_rect \<Rightarrow> i32 \<Rightarrow> i32 \<Rightarrow> drm_rect kres" where
  "drm_rect_downscale r horz vert =
     (if horz = 0 \<or> vert = 0 then Inl OOPS
      else Inr \<lparr>x1 = c_div (x1 r) horz, y1 = c_div (y1 r) vert, x2 = c_div (x2 r) horz, y2 = c_div (y2 r) vert\<rparr>)"

definition drm_rect_width :: "drm_rect \<Rightarrow> i32" where
  "drm_rect_width r = x2 r - x1 r"

definition drm_rect_height :: "drm_rect \<Rightarrow> i32" where
  "drm_rect_height r = y2 r - y1 r"

definition drm_rect_visible :: "drm_rect \<Rightarrow> bool" where
  "drm_rect_visible r \<longleftrightarrow> 0 < sint (drm_rect_width r) \<and> 0 < sint (drm_rect_height r)"

definition drm_rect_equals :: "drm_rect \<Rightarrow> drm_rect \<Rightarrow> bool" where
  "drm_rect_equals r s \<longleftrightarrow> x1 r = x1 s \<and> x2 r = x2 s \<and> y1 r = y1 s \<and> y2 r = y2 s"

definition drm_rect_intersect :: "drm_rect \<Rightarrow> drm_rect \<Rightarrow> drm_rect \<times> bool" where
  "drm_rect_intersect r1 r2 =
     (let r = \<lparr>x1 = smax (x1 r1) (x1 r2), y1 = smax (y1 r1) (y1 r2),
               x2 = smin (x2 r1) (x2 r2), y2 = smin (y2 r1) (y2 r2)\<rparr>
      in (r, drm_rect_visible r))"

definition clamp_int :: "int \<Rightarrow> i32" where
  \<comment> \<open>\<open>clamp_t(int64_t, tmp, INT_MIN, INT_MAX)\<close> of a 64-bit value that cannot overflow\<close>
  "clamp_int t = word_of_int (max (- (2 ^ 31)) (min t (2 ^ 31 - 1)))"

definition clip_low :: "i32 \<Rightarrow> i32 \<Rightarrow> i32 \<Rightarrow> i32 \<Rightarrow> i32" where
  \<comment> \<open>the new lower coordinate of the source, from the diff of the lower edges\<close>
  "clip_low s d c scale =
     (let diff = c - d in
      if 0 < sint diff then clamp_int (sint s + sint diff * sint scale) else s)"

definition clip_high :: "i32 \<Rightarrow> i32 \<Rightarrow> i32 \<Rightarrow> i32 \<Rightarrow> i32" where
  "clip_high s d c scale =
     (let diff = d - c in
      if 0 < sint diff then clamp_int (sint s - sint diff * sint scale) else s)"

definition drm_rect_clip_scaled :: "drm_rect \<Rightarrow> drm_rect \<Rightarrow> drm_rect \<Rightarrow> i32 \<Rightarrow> i32 \<Rightarrow> drm_rect \<times> drm_rect \<times> bool" where
  \<comment> \<open>the new source and destination and the visibility\<close>
  "drm_rect_clip_scaled src dst clip hscale vscale =
     (let src' = \<lparr>x1 = clip_low (x1 src) (x1 dst) (x1 clip) hscale,
                  y1 = clip_low (y1 src) (y1 dst) (y1 clip) vscale,
                  x2 = clip_high (x2 src) (x2 dst) (x2 clip) hscale,
                  y2 = clip_high (y2 src) (y2 dst) (y2 clip) vscale\<rparr>
      in (src', drm_rect_intersect dst clip))"

definition drm_calc_scale :: "i32 \<Rightarrow> i32 \<Rightarrow> i32 kres" where
  "drm_calc_scale src dst =
     (if sint src < 0 \<or> sint dst < 0 then Inl EINVAL
      else if dst = 0 then Inr 0
      else Inr (c_div src dst))"

definition scale_limits :: "i32 \<Rightarrow> i32 \<Rightarrow> i32 \<Rightarrow> i32 \<Rightarrow> i32 kres" where
  "scale_limits src_w dst_w min_scale max_scale =
     kbind (drm_calc_scale src_w dst_w) (\<lambda>scale.
       if dst_w = 0 then Inr scale
       else if sint scale < sint min_scale \<or> sint scale > sint max_scale then Inl ERANGE
       else Inr scale)"

definition drm_rect_calc_hscale :: "drm_rect \<Rightarrow> drm_rect \<Rightarrow> i32 \<Rightarrow> i32 \<Rightarrow> i32 kres" where
  "drm_rect_calc_hscale src dst min_hscale max_hscale =
     scale_limits (drm_rect_width src) (drm_rect_width dst) min_hscale max_hscale"

definition drm_rect_calc_vscale :: "drm_rect \<Rightarrow> drm_rect \<Rightarrow> i32 \<Rightarrow> i32 \<Rightarrow> i32 kres" where
  "drm_rect_calc_vscale src dst min_vscale max_vscale =
     scale_limits (drm_rect_height src) (drm_rect_height dst) min_vscale max_vscale"

definition drm_rect_calc_hscale_relaxed :: "drm_rect \<Rightarrow> drm_rect \<Rightarrow> i32 \<Rightarrow> i32 \<Rightarrow> (drm_rect \<times> drm_rect) \<times> i32 kres" where
  \<comment> \<open>the source and the destination, possibly shrunk, and the factor\<close>
  "drm_rect_calc_hscale_relaxed src dst min_hscale max_hscale =
     (let src_w = drm_rect_width src; dst_w = drm_rect_width dst in
      case drm_calc_scale src_w dst_w of
        Inl e \<Rightarrow> ((src, dst), Inl e)
      | Inr hscale \<Rightarrow>
          if dst_w = 0 then ((src, dst), Inr hscale)
          else if sint hscale < sint min_hscale
          then ((src, drm_rect_adjust_size dst (c_div src_w min_hscale - dst_w) 0), Inr min_hscale)
          else if sint hscale > sint max_hscale
          then ((drm_rect_adjust_size src (dst_w * max_hscale - src_w) 0, dst), Inr max_hscale)
          else ((src, dst), Inr hscale))"

definition drm_rect_calc_vscale_relaxed :: "drm_rect \<Rightarrow> drm_rect \<Rightarrow> i32 \<Rightarrow> i32 \<Rightarrow> (drm_rect \<times> drm_rect) \<times> i32 kres" where
  "drm_rect_calc_vscale_relaxed src dst min_vscale max_vscale =
     (let src_h = drm_rect_height src; dst_h = drm_rect_height dst in
      case drm_calc_scale src_h dst_h of
        Inl e \<Rightarrow> ((src, dst), Inl e)
      | Inr vscale \<Rightarrow>
          if dst_h = 0 then ((src, dst), Inr vscale)
          else if sint vscale < sint min_vscale
          then ((src, drm_rect_adjust_size dst 0 (c_div src_h min_vscale - dst_h)), Inr min_vscale)
          else if sint vscale > sint max_vscale
          then ((drm_rect_adjust_size src 0 (dst_h * max_vscale - src_h), dst), Inr max_vscale)
          else ((src, dst), Inr vscale))"

subsection \<open>Rotation\<close>

abbreviation (input) DRM_ROTATE_0 :: u32 where "DRM_ROTATE_0 \<equiv> 1"
abbreviation (input) DRM_ROTATE_90 :: u32 where "DRM_ROTATE_90 \<equiv> 2"
abbreviation (input) DRM_ROTATE_180 :: u32 where "DRM_ROTATE_180 \<equiv> 4"
abbreviation (input) DRM_ROTATE_270 :: u32 where "DRM_ROTATE_270 \<equiv> 8"
abbreviation (input) DRM_ROTATE_MASK :: u32 where "DRM_ROTATE_MASK \<equiv> 15"
abbreviation (input) DRM_REFLECT_X :: u32 where "DRM_REFLECT_X \<equiv> 16"
abbreviation (input) DRM_REFLECT_Y :: u32 where "DRM_REFLECT_Y \<equiv> 32"

definition rect_reflect :: "drm_rect \<Rightarrow> i32 \<Rightarrow> i32 \<Rightarrow> u32 \<Rightarrow> drm_rect" where
  \<comment> \<open>the reflections, which \<open>drm_rect_rotate\<close> does first and \<open>drm_rect_rotate_inv\<close> last\<close>
  "rect_reflect r width height rotation =
     (let r1 = (if rotation AND DRM_REFLECT_X \<noteq> 0 then r\<lparr>x1 := width - x2 r, x2 := width - x1 r\<rparr> else r) in
      if rotation AND DRM_REFLECT_Y \<noteq> 0 then r1\<lparr>y1 := height - y2 r, y2 := height - y1 r\<rparr> else r1)"

definition rect_turn :: "drm_rect \<Rightarrow> i32 \<Rightarrow> i32 \<Rightarrow> u32 \<Rightarrow> drm_rect" where
  "rect_turn r width height rotation =
     (let rot = rotation AND DRM_ROTATE_MASK in
      if rot = DRM_ROTATE_90 then \<lparr>x1 = y1 r, y1 = width - x2 r, x2 = y2 r, y2 = width - x1 r\<rparr>
      else if rot = DRM_ROTATE_180
      then \<lparr>x1 = width - x2 r, y1 = height - y2 r, x2 = width - x1 r, y2 = height - y1 r\<rparr>
      else if rot = DRM_ROTATE_270 then \<lparr>x1 = height - y2 r, y1 = x1 r, x2 = height - y1 r, y2 = x2 r\<rparr>
      else r)"

definition rect_turn_back :: "drm_rect \<Rightarrow> i32 \<Rightarrow> i32 \<Rightarrow> u32 \<Rightarrow> drm_rect" where
  "rect_turn_back r width height rotation =
     (let rot = rotation AND DRM_ROTATE_MASK in
      if rot = DRM_ROTATE_90 then \<lparr>x1 = width - y2 r, y1 = x1 r, x2 = width - y1 r, y2 = x2 r\<rparr>
      else if rot = DRM_ROTATE_180
      then \<lparr>x1 = width - x2 r, y1 = height - y2 r, x2 = width - x1 r, y2 = height - y1 r\<rparr>
      else if rot = DRM_ROTATE_270 then \<lparr>x1 = y1 r, y1 = height - x2 r, x2 = y2 r, y2 = height - x1 r\<rparr>
      else r)"

definition drm_rect_rotate :: "drm_rect \<Rightarrow> i32 \<Rightarrow> i32 \<Rightarrow> u32 \<Rightarrow> drm_rect" where
  "drm_rect_rotate r width height rotation =
     rect_turn (rect_reflect r width height rotation) width height rotation"

definition drm_rect_rotate_inv :: "drm_rect \<Rightarrow> i32 \<Rightarrow> i32 \<Rightarrow> u32 \<Rightarrow> drm_rect" where
  "drm_rect_rotate_inv r width height rotation =
     rect_reflect (rect_turn_back r width height rotation) width height rotation"

subsection \<open>The check of a plane update\<close>

record drm_framebuffer =
  fb_width :: u32
  fb_height :: u32

record drm_plane_state =
  ps_crtc :: "bool option" \<comment> \<open>the CRTC and whether it is enabled\<close>
  ps_fb :: "drm_framebuffer option"
  crtc_x :: i32
  crtc_y :: i32
  crtc_w :: u32
  crtc_h :: u32
  src_x :: u32
  src_y :: u32
  src_h :: u32
  src_w :: u32
  rotation :: u32
  ps_src :: drm_rect
  ps_dst :: drm_rect
  visible :: bool

definition drm_plane_state_src :: "drm_plane_state \<Rightarrow> drm_rect" where
  "drm_plane_state_src s = \<lparr>x1 = src_x s, y1 = src_y s, x2 = src_x s + src_w s, y2 = src_y s + src_h s\<rparr>"

definition drm_plane_state_dest :: "drm_plane_state \<Rightarrow> drm_rect" where
  "drm_plane_state_dest s = \<lparr>x1 = crtc_x s, y1 = crtc_y s, x2 = crtc_x s + crtc_w s, y2 = crtc_y s + crtc_h s\<rparr>"

definition drm_plane_helper_check_state ::
    "drm_plane_state \<Rightarrow> drm_rect \<Rightarrow> i32 \<Rightarrow> i32 \<Rightarrow> bool \<Rightarrow> bool \<Rightarrow> drm_plane_state \<times> unit kres" where
  "drm_plane_helper_check_state st0 clip min_scale max_scale can_position can_update_disabled =
     (let st = st0\<lparr>ps_src := drm_plane_state_src st0, ps_dst := drm_plane_state_dest st0\<rparr> in
      case (ps_fb st, ps_crtc st) of
        (None, _) \<Rightarrow> (st\<lparr>visible := False\<rparr>, Inr ())
      | (_, None) \<Rightarrow> (st\<lparr>visible := False\<rparr>, Inr ())
      | (Some fb, Some crtc_enabled) \<Rightarrow>
          if \<not> crtc_enabled \<and> \<not> can_update_disabled then (st, Inl EINVAL)
          else
            let w = push_bit 16 (fb_width fb); h = push_bit 16 (fb_height fb);
                st = st\<lparr>ps_src := drm_rect_rotate (ps_src st) w h (rotation st)\<rparr> in
            (case (drm_rect_calc_hscale (ps_src st) (ps_dst st) min_scale max_scale,
                  drm_rect_calc_vscale (ps_src st) (ps_dst st) min_scale max_scale) of
              (Inr hscale, Inr vscale) \<Rightarrow>
                (case drm_rect_clip_scaled (ps_src st) (ps_dst st) clip hscale vscale of (src, dst, vis) \<Rightarrow>
                   let st = st\<lparr>ps_src := drm_rect_rotate_inv src w h (rotation st), ps_dst := dst, visible := vis\<rparr> in
                   (st, if vis \<and> \<not> can_position \<and> \<not> drm_rect_equals dst clip then Inl EINVAL else Inr ()))
            | _ \<Rightarrow> (st, Inl ERANGE)))"

definition drm_plane_helper_check_update ::
    "bool option \<Rightarrow> drm_framebuffer option \<Rightarrow> drm_rect \<Rightarrow> drm_rect \<Rightarrow> drm_rect \<Rightarrow> u32 \<Rightarrow> i32 \<Rightarrow> i32 \<Rightarrow>
     bool \<Rightarrow> bool \<Rightarrow> bool \<Rightarrow> (drm_rect \<times> drm_rect \<times> bool) kres" where
  \<comment> \<open>source, destination and visibility, which keep their old values on an error\<close>
  "drm_plane_helper_check_update crtc fb src dst clip rot min_scale max_scale can_position can_update_disabled vis =
     (case drm_plane_helper_check_state
        \<lparr>ps_crtc = crtc, ps_fb = fb, crtc_x = x1 dst, crtc_y = y1 dst, crtc_w = drm_rect_width dst,
         crtc_h = drm_rect_height dst, src_x = x1 src, src_y = y1 src, src_h = drm_rect_height src,
         src_w = drm_rect_width src, rotation = rot, ps_src = \<lparr>x1 = 0, y1 = 0, x2 = 0, y2 = 0\<rparr>,
         ps_dst = \<lparr>x1 = 0, y1 = 0, x2 = 0, y2 = 0\<rparr>, visible = vis\<rparr>
        clip min_scale max_scale can_position can_update_disabled of
        (_, Inl e) \<Rightarrow> Inl e
      | (st, Inr ()) \<Rightarrow> Inr (ps_src st, ps_dst st, visible st))"

section \<open>Rotation and its inverse\<close>

lemma rect_reflect_twice: "rect_reflect (rect_reflect r w h rot) w h rot = r"
  by (simp add: rect_reflect_def Let_def)

lemma rect_turn_back_turn: "rect_turn_back (rect_turn r w h rot) w h rot = r"
  by (simp add: rect_turn_back_def rect_turn_def Let_def)

lemma rect_turn_turn_back: "rect_turn (rect_turn_back r w h rot) w h rot = r"
  by (simp add: rect_turn_back_def rect_turn_def Let_def)

text \<open>\<open>drm_rect_rotate_inv\<close> undoes \<open>drm_rect_rotate\<close> and the other way round, for every rectangle, every
  size of the coordinate space, every combination of rotation and reflection bits, also
  when the subtractions wrap around.
\<close>

lemma rotate_round_trip:
  "drm_rect_rotate_inv (drm_rect_rotate r w h rot) w h rot = r \<and>
   drm_rect_rotate (drm_rect_rotate_inv r w h rot) w h rot = r"
  by (simp add: drm_rect_rotate_def drm_rect_rotate_inv_def rect_reflect_twice rect_turn_back_turn rect_turn_turn_back)

section \<open>Intersection as sets of pixels\<close>

definition pixels :: "drm_rect \<Rightarrow> (int \<times> int) set" where
  "pixels r = {sint (x1 r)..<sint (x2 r)} \<times> {sint (y1 r)..<sint (y2 r)}"

definition rect_small :: "drm_rect \<Rightarrow> bool" where
  \<comment> \<open>no width or height of the rectangle or of a part of it overflows\<close>
  "rect_small r \<longleftrightarrow> (\<forall>c \<in> {x1 r, y1 r, x2 r, y2 r}. - (2 ^ 30) \<le> sint c \<and> sint c < 2 ^ 30)"

lemma sint_diff:
  fixes a b :: i32
  assumes "- (2 ^ 31) \<le> sint a - sint b" "sint a - sint b < 2 ^ 31"
  shows "sint (a - b) = sint a - sint b"
  using assms by (simp add: sint_word_ariths signed_take_bit_int_eq_self)

lemma sint_small_diff:
  fixes a b :: i32
  assumes "- (2 ^ 30) \<le> sint a" "sint a < 2 ^ 30" "- (2 ^ 30) \<le> sint b" "sint b < 2 ^ 30"
  shows "sint (a - b) = sint a - sint b"
  by (rule sint_diff) (use assms in simp_all)

lemma sint_smax: "sint (smax a b) = max (sint a) (sint b)"
  and sint_smin: "sint (smin a b) = min (sint a) (sint b)"
  by (auto simp: smax_def smin_def max_def min_def)

lemma rect_small_size:
  assumes "rect_small r"
  shows "sint (drm_rect_width r) = sint (x2 r) - sint (x1 r)" "sint (drm_rect_height r) = sint (y2 r) - sint (y1 r)"
  using assms by (simp_all add: rect_small_def drm_rect_width_def drm_rect_height_def sint_small_diff)

lemma visible_iff_pixels: "rect_small r \<Longrightarrow> drm_rect_visible r \<longleftrightarrow> pixels r \<noteq> {}"
  by (auto simp: drm_rect_visible_def rect_small_size pixels_def)

lemma rect_small_intersect:
  "rect_small a \<Longrightarrow> rect_small b \<Longrightarrow> rect_small (fst (drm_rect_intersect a b))"
  by (auto simp: rect_small_def drm_rect_intersect_def Let_def sint_smax sint_smin max_def min_def)

lemma pixels_intersect: "pixels (fst (drm_rect_intersect a b)) = pixels a \<inter> pixels b"
  by (auto simp: pixels_def drm_rect_intersect_def Let_def sint_smax sint_smin)

text \<open>\<open>drm_rect_intersect\<close> leaves exactly the pixels that lie in both rectangles, and returns true
  exactly when there is one, for rectangles whose coordinates are below \<open>2 ^ 30\<close> in absolute value (beyond
  that the width that \<open>drm_rect_visible\<close> looks at may overflow).
\<close>

lemma intersect_is_set_intersection:
  assumes "rect_small a" "rect_small b"
  shows "pixels (fst (drm_rect_intersect a b)) = pixels a \<inter> pixels b \<and>
    (snd (drm_rect_intersect a b) \<longleftrightarrow> pixels a \<inter> pixels b \<noteq> {})"
proof -
  have "snd (drm_rect_intersect a b) \<longleftrightarrow> drm_rect_visible (fst (drm_rect_intersect a b))"
    by (simp add: drm_rect_intersect_def Let_def)
  then show ?thesis
    using visible_iff_pixels[OF rect_small_intersect[OF assms]] by (simp add: pixels_intersect)
qed

lemma intersect_is_set_intersection_example:
  "snd (drm_rect_intersect \<lparr>x1 = - 5, y1 = 0, x2 = 10, y2 = 10\<rparr> \<lparr>x1 = 3, y1 = - 2, x2 = 20, y2 = 4\<rparr>) \<longleftrightarrow>
   pixels \<lparr>x1 = - 5, y1 = 0, x2 = 10, y2 = 10\<rparr> \<inter> pixels \<lparr>x1 = 3, y1 = - 2, x2 = 20, y2 = 4\<rparr> \<noteq> {}"
  by (rule intersect_is_set_intersection[THEN conjunct2]) (simp_all add: rect_small_def)

section \<open>A checked plane reads inside its source\<close>

definition rect_inside :: "i32 \<Rightarrow> i32 \<Rightarrow> drm_rect \<Rightarrow> bool" where
  \<comment> \<open>a rectangle of a coordinate space of width \<open>w\<close> and height \<open>h\<close>\<close>
  "rect_inside w h r \<longleftrightarrow>
     0 \<le> sint (x1 r) \<and> sint (x1 r) \<le> sint (x2 r) \<and> sint (x2 r) \<le> sint w \<and>
     0 \<le> sint (y1 r) \<and> sint (y1 r) \<le> sint (y2 r) \<and> sint (y2 r) \<le> sint h"

definition rect_within :: "drm_rect \<Rightarrow> drm_rect \<Rightarrow> bool" where
  "rect_within r s \<longleftrightarrow>
     sint (x1 s) \<le> sint (x1 r) \<and> sint (x1 r) \<le> sint (x2 r) \<and> sint (x2 r) \<le> sint (x2 s) \<and>
     sint (y1 s) \<le> sint (y1 r) \<and> sint (y1 r) \<le> sint (y2 r) \<and> sint (y2 r) \<le> sint (y2 s)"

definition drm_rotation_90_or_270 :: "u32 \<Rightarrow> bool" where
  "drm_rotation_90_or_270 rot \<longleftrightarrow> rot AND DRM_ROTATE_MASK = DRM_ROTATE_90 \<or> rot AND DRM_ROTATE_MASK = DRM_ROTATE_270"

definition turned :: "u32 \<Rightarrow> 'a \<times> 'a \<Rightarrow> 'a \<times> 'a" where
  \<comment> \<open>the size of the coordinate space after the rotation\<close>
  "turned rot wh = (if drm_rotation_90_or_270 rot then (snd wh, fst wh) else wh)"

lemma sint_minus_inside:
  fixes a w :: i32
  assumes "0 \<le> sint a" "sint a \<le> sint w"
  shows "sint (w - a) = sint w - sint a"
  using assms sint_lt[of w] by (intro sint_diff) simp_all

lemma rect_inside_reflect:
  "rect_inside w h r \<Longrightarrow> rect_inside w h (rect_reflect r w h rot)"
  by (auto simp: rect_inside_def rect_reflect_def Let_def sint_minus_inside)

lemma rect_inside_turn:
  "rect_inside w h r \<Longrightarrow> rect_inside (fst (turned rot (w, h))) (snd (turned rot (w, h))) (rect_turn r w h rot)"
  by (auto simp: rect_inside_def rect_turn_def turned_def drm_rotation_90_or_270_def Let_def sint_minus_inside)

lemma rect_inside_within:
  "rect_within r s \<Longrightarrow> rect_inside w h s \<Longrightarrow> rect_inside w h r"
  by (auto simp: rect_within_def rect_inside_def)

lemma rect_within_reflect:
  assumes "rect_within r s" "rect_inside w h s"
  shows "rect_within (rect_reflect r w h rot) (rect_reflect s w h rot)"
  using assms rect_inside_within[OF assms]
  by (auto simp: rect_inside_def rect_within_def rect_reflect_def Let_def sint_minus_inside)

lemma rect_within_turn_back:
  assumes "rect_within r s" "rect_inside (fst (turned rot (w, h))) (snd (turned rot (w, h))) s"
  shows "rect_within (rect_turn_back r w h rot) (rect_turn_back s w h rot)"
  using assms rect_inside_within[OF assms]
  by (auto simp: rect_inside_def rect_within_def rect_turn_back_def turned_def drm_rotation_90_or_270_def
      Let_def sint_minus_inside split: if_splits)

lemma rotate_inv_within:
  assumes "rect_inside w h src" "rect_within r (drm_rect_rotate src w h rot)"
  shows "rect_within (drm_rect_rotate_inv r w h rot) src"
proof -
  let ?s = "rect_reflect src w h rot"
  have s: "rect_inside w h ?s" by (rule rect_inside_reflect[OF assms(1)])
  have "rect_within (rect_turn_back r w h rot) (rect_turn_back (rect_turn ?s w h rot) w h rot)"
    using assms(2) by (intro rect_within_turn_back rect_inside_turn[OF s]) (simp add: drm_rect_rotate_def)
  then have "rect_within (rect_reflect (rect_turn_back r w h rot) w h rot) (rect_reflect ?s w h rot)"
    by (intro rect_within_reflect[OF _ s]) (simp add: rect_turn_back_turn)
  then show ?thesis by (simp add: drm_rect_rotate_inv_def rect_reflect_twice)
qed

lemma sint_clamp: "- (2 ^ 31) \<le> t \<Longrightarrow> t < 2 ^ 31 \<Longrightarrow> sint (clamp_int t) = t"
  by (simp add: clamp_int_def sint_sbintrunc' signed_take_bit_int_eq_self)

lemma clip_axis:
  fixes s1 s2 d1 d2 c1 c2 scale :: i32
  assumes s: "0 \<le> sint s1" "sint s1 \<le> sint s2"
    and small: "\<forall>c \<in> {d1, d2, c1, c2}. - (2 ^ 30) \<le> sint c \<and> sint c < 2 ^ 30"
    and vis: "max (sint d1) (sint c1) < min (sint d2) (sint c2)"
    and scale: "0 \<le> sint scale" "sint scale * (sint d2 - sint d1) \<le> sint s2 - sint s1"
  shows "sint s1 \<le> sint (clip_low s1 d1 c1 scale)" "sint (clip_low s1 d1 c1 scale) \<le> sint (clip_high s2 d2 c2 scale)"
    "sint (clip_high s2 d2 c2 scale) \<le> sint s2"
proof -
  define a b where "a = max 0 (sint c1 - sint d1)" and "b = max 0 (sint d2 - sint c2)"
  have ab: "0 \<le> a" "0 \<le> b" "a + b \<le> sint d2 - sint d1" using vis by (auto simp: a_def b_def max_def min_def split: if_splits)
  have le: "sint scale * (a + b) \<le> sint s2 - sint s1"
    using mult_left_mono[OF ab(3) scale(1)] scale(2) by linarith
  have pos: "0 \<le> sint scale * a" "0 \<le> sint scale * b" using ab scale(1) by simp_all
  have d: "sint (c1 - d1) = sint c1 - sint d1" "sint (d2 - c2) = sint d2 - sint c2"
    using small by (auto intro: sint_small_diff)
  have s2: "sint s2 < 2 ^ 31" using sint_lt[of s2] by simp
  have "clip_low s1 d1 c1 scale = (if 0 < a then clamp_int (sint s1 + sint scale * a) else s1)"
    by (auto simp: clip_low_def Let_def d a_def max_def mult.commute)
  moreover have "sint (clamp_int (sint s1 + sint scale * a)) = sint s1 + sint scale * a"
    by (rule sint_clamp) (use le pos s s2 in \<open>simp_all add: distrib_left\<close>)
  ultimately have lo: "sint (clip_low s1 d1 c1 scale) = sint s1 + sint scale * a" using ab(1) by auto
  have "clip_high s2 d2 c2 scale = (if 0 < b then clamp_int (sint s2 - sint scale * b) else s2)"
    by (auto simp: clip_high_def Let_def d b_def max_def mult.commute)
  moreover have "sint (clamp_int (sint s2 - sint scale * b)) = sint s2 - sint scale * b"
    by (rule sint_clamp) (use le pos s s2 in \<open>simp_all add: distrib_left\<close>)
  ultimately have hi: "sint (clip_high s2 d2 c2 scale) = sint s2 - sint scale * b" using ab(2) by auto
  show "sint s1 \<le> sint (clip_low s1 d1 c1 scale)" "sint (clip_high s2 d2 c2 scale) \<le> sint s2"
    using lo hi pos by simp_all
  show "sint (clip_low s1 d1 c1 scale) \<le> sint (clip_high s2 d2 c2 scale)"
    using lo hi le by (simp add: algebra_simps)
qed

lemma scale_limitsD:
  assumes "scale_limits s d mn mx = Inr k" "0 < sint d"
  shows "sint mn \<le> sint k" "sint k \<le> sint mx" "0 \<le> sint k" "sint k * sint d \<le> sint s"
proof -
  have s: "0 \<le> sint s" and k: "k = c_div s d" and lim: "sint mn \<le> sint k" "sint k \<le> sint mx"
    using assms by (auto simp: scale_limits_def drm_calc_scale_def split: if_splits)
  have "sint s div sint d \<le> sint s" "0 \<le> sint s div sint d"
    using s assms(2) zdiv_mono2[of "sint s" 1 "sint d"] by (simp_all add: pos_imp_zdiv_nonneg_iff)
  moreover have "sint s sdiv sint d = sint s div sint d"
    using s assms(2) by (cases "sint s = 0") (simp_all add: signed_divide_int_def)
  ultimately have "sint k = sint s div sint d" "0 \<le> sint s div sint d"
    using k sint_lt[of s] by (simp_all add: c_div_def sint_sbintrunc' signed_take_bit_int_eq_self)
  moreover have "sint s div sint d * sint d \<le> sint s" using assms(2) by (simp flip: minus_mod_eq_div_mult)
  ultimately show "sint mn \<le> sint k" "sint k \<le> sint mx" "0 \<le> sint k" "sint k * sint d \<le> sint s"
    using lim by simp_all
qed

lemma clip_scaled_within:
  assumes "rect_inside w h src" "rect_small dst" "rect_small clip"
    "drm_rect_calc_hscale src dst mn mx = Inr hs" "drm_rect_calc_vscale src dst mn mx = Inr vs"
    "drm_rect_clip_scaled src dst clip hs vs = (src', dst', True)"
  shows "rect_within src' src"
proof -
  have r: "dst' = fst (drm_rect_intersect dst clip)" "drm_rect_visible dst'"
    and src': "src' = \<lparr>x1 = clip_low (x1 src) (x1 dst) (x1 clip) hs, y1 = clip_low (y1 src) (y1 dst) (y1 clip) vs,
      x2 = clip_high (x2 src) (x2 dst) (x2 clip) hs, y2 = clip_high (y2 src) (y2 dst) (y2 clip) vs\<rparr>"
    using assms(6) by (auto simp: drm_rect_clip_scaled_def drm_rect_intersect_def Let_def)
  have "0 < sint (drm_rect_width dst')" "0 < sint (drm_rect_height dst')" using r(2) by (simp_all add: drm_rect_visible_def)
  then have vis: "max (sint (x1 dst)) (sint (x1 clip)) < min (sint (x2 dst)) (sint (x2 clip))"
    "max (sint (y1 dst)) (sint (y1 clip)) < min (sint (y2 dst)) (sint (y2 clip))"
    using rect_small_size[OF rect_small_intersect[OF assms(2,3)]]
    by (simp_all add: r(1) drm_rect_intersect_def Let_def sint_smax sint_smin)
  then have d: "0 < sint (drm_rect_width dst)" "0 < sint (drm_rect_height dst)" by (simp_all add: rect_small_size[OF assms(2)])
  have ssz: "sint (drm_rect_width src) = sint (x2 src) - sint (x1 src)" "sint (drm_rect_height src) = sint (y2 src) - sint (y1 src)"
    using assms(1) by (simp_all add: rect_inside_def drm_rect_width_def drm_rect_height_def sint_minus_inside)
  note hs = scale_limitsD[OF assms(4)[unfolded drm_rect_calc_hscale_def] d(1)]
  note vs = scale_limitsD[OF assms(5)[unfolded drm_rect_calc_vscale_def] d(2)]
  note cx = clip_axis[of "x1 src" "x2 src" "x1 dst" "x2 dst" "x1 clip" "x2 clip" hs]
  note cy = clip_axis[of "y1 src" "y2 src" "y1 dst" "y2 dst" "y1 clip" "y2 clip" vs]
  show ?thesis unfolding rect_within_def src'
    using assms(1-3) vis hs(3,4) vs(3,4) cx cy
    by (simp add: rect_inside_def rect_small_def rect_small_size[OF assms(2)] ssz)
qed

lemma check_state_visibleD:
  assumes "drm_plane_helper_check_state st clip mn mx can_position dis = (st', Inr ())" "visible st'"
  obtains fb hs vs w h dst src where
    "ps_fb st = Some fb" "w = push_bit 16 (fb_width fb)" "h = push_bit 16 (fb_height fb)"
    "drm_rect_calc_hscale (drm_rect_rotate (drm_plane_state_src st) w h (rotation st)) (drm_plane_state_dest st) mn mx = Inr hs"
    "drm_rect_calc_vscale (drm_rect_rotate (drm_plane_state_src st) w h (rotation st)) (drm_plane_state_dest st) mn mx = Inr vs"
    "drm_rect_clip_scaled (drm_rect_rotate (drm_plane_state_src st) w h (rotation st)) (drm_plane_state_dest st) clip hs vs = (src, dst, True)"
    "ps_src st' = drm_rect_rotate_inv src w h (rotation st)" "ps_dst st' = dst" "can_position \<or> drm_rect_equals dst clip"
  using assms
  by (auto simp: drm_plane_helper_check_state_def Let_def split: option.splits sum.splits prod.splits if_splits)

text \<open>
  C23: When \<open>drm_plane_helper_check_state\<close> accepts an update of a plane whose source lies inside its
  framebuffer, and the plane is visible, then the destination it leaves is the requested destination
  cut to the clip rectangle (all of the clip rectangle when the plane may not be positioned
  freely), and the source it leaves, after the rotation, the scaled clipping and the inverse rotation, lies
  inside the requested source: clipping never makes the hardware read outside the framebuffer.
\<close>

theorem checked_plane_reads_inside_source:
  assumes "drm_plane_helper_check_state st clip mn mx can_position dis = (st', Inr ())" "visible st'"
    "ps_fb st = Some fb" "rect_inside (push_bit 16 (fb_width fb)) (push_bit 16 (fb_height fb)) (drm_plane_state_src st)"
    "rect_small (drm_plane_state_dest st)" "rect_small clip"
  shows "rect_within (ps_src st') (drm_plane_state_src st) \<and>
    pixels (ps_dst st') = pixels (drm_plane_state_dest st) \<inter> pixels clip \<and>
    (\<not> can_position \<longrightarrow> pixels (ps_dst st') = pixels clip)"
proof -
  obtain fb' hs vs w h dst src where *: "ps_fb st = Some fb'" "w = push_bit 16 (fb_width fb')" "h = push_bit 16 (fb_height fb')"
    "drm_rect_calc_hscale (drm_rect_rotate (drm_plane_state_src st) w h (rotation st)) (drm_plane_state_dest st) mn mx = Inr hs"
    "drm_rect_calc_vscale (drm_rect_rotate (drm_plane_state_src st) w h (rotation st)) (drm_plane_state_dest st) mn mx = Inr vs"
    "drm_rect_clip_scaled (drm_rect_rotate (drm_plane_state_src st) w h (rotation st)) (drm_plane_state_dest st) clip hs vs = (src, dst, True)"
    "ps_src st' = drm_rect_rotate_inv src w h (rotation st)" "ps_dst st' = dst" "can_position \<or> drm_rect_equals dst clip"
    by (rule check_state_visibleD[OF assms(1,2)])
  have ins: "rect_inside w h (drm_plane_state_src st)" using * assms(3,4) by simp
  have "rect_within src (drm_rect_rotate (drm_plane_state_src st) w h (rotation st))"
    by (rule clip_scaled_within[OF _ assms(5,6) *(4-6)])
      (unfold drm_rect_rotate_def, rule rect_inside_turn[OF rect_inside_reflect[OF ins]])
  then have "rect_within (ps_src st') (drm_plane_state_src st)" unfolding *(7) by (rule rotate_inv_within[OF ins])
  moreover have "dst = fst (drm_rect_intersect (drm_plane_state_dest st) clip)"
    using *(6) by (auto simp: drm_rect_clip_scaled_def Let_def)
  moreover have "drm_rect_equals dst clip \<Longrightarrow> pixels dst = pixels clip"
    by (simp add: drm_rect_equals_def pixels_def)
  ultimately show ?thesis using *(8,9) by (auto simp: pixels_intersect)
qed

definition sample_plane :: drm_plane_state where
  \<comment> \<open>an 800 x 600 framebuffer turned by 90 degrees, shown partly off the screen\<close>
  "sample_plane = \<lparr>ps_crtc = Some True, ps_fb = Some \<lparr>fb_width = 800, fb_height = 600\<rparr>, crtc_x = - 100, crtc_y = 0,
     crtc_w = 600, crtc_h = 800, src_x = 0, src_y = 0, src_h = 39321600, src_w = 52428800, rotation = 2,
     ps_src = \<lparr>x1 = 0, y1 = 0, x2 = 0, y2 = 0\<rparr>, ps_dst = \<lparr>x1 = 0, y1 = 0, x2 = 0, y2 = 0\<rparr>, visible = False\<rparr>"

lemma sample_plane_checked:
  "drm_plane_helper_check_state sample_plane \<lparr>x1 = 0, y1 = 0, x2 = 1024, y2 = 768\<rparr> 0x8000 0x20000 True False =
   (sample_plane\<lparr>ps_src := \<lparr>x1 = 2097152, y1 = 6553600, x2 = 52428800, y2 = 39321600\<rparr>,
      ps_dst := \<lparr>x1 = 0, y1 = 0, x2 = 500, y2 = 768\<rparr>, visible := True\<rparr>, Inr ())"
  by code_simp

theorem checked_plane_reads_inside_source_witness:
  "pixels (ps_dst (fst (drm_plane_helper_check_state sample_plane \<lparr>x1 = 0, y1 = 0, x2 = 1024, y2 = 768\<rparr> 0x8000 0x20000 True False))) =
   pixels (drm_plane_state_dest sample_plane) \<inter> pixels \<lparr>x1 = 0, y1 = 0, x2 = 1024, y2 = 768\<rparr>"
  unfolding sample_plane_checked fst_conv
  by (rule checked_plane_reads_inside_source[where fb = "\<lparr>fb_width = 800, fb_height = 600\<rparr>",
        OF sample_plane_checked, THEN conjunct2, THEN conjunct1])
    (simp_all add: sample_plane_def rect_inside_def rect_small_def drm_plane_state_src_def drm_plane_state_dest_def)

end
