(* ===== verification/Surface_Format.thy ===== *)
theory Surface_Format
  imports Vmw_Prelude
begin

text \<open>
  The surface formats of \<open>src/device_include/svga3d_surfacedefs.h\<close>: the table that describes the 145
  formats of \<open>SVGA3dSurfaceFormat\<close> and the functions that compute the sizes and offsets of images,
  mip chains and surfaces from it, in 32-bit arithmetic that is clamped where the code
  clamps it and wraps elsewhere. A format is a 32-bit word, since user space passes any value.
\<close>

section \<open>The format table\<close>

subsection \<open>\<open>enum svga3d_block_desc\<close>\<close>

abbreviation (input) SVGA3DBLOCKDESC_NONE :: u32 where "SVGA3DBLOCKDESC_NONE \<equiv> 0"
abbreviation (input) SVGA3DBLOCKDESC_BLUE :: u32 where "SVGA3DBLOCKDESC_BLUE \<equiv> 1"
abbreviation (input) SVGA3DBLOCKDESC_W :: u32 where "SVGA3DBLOCKDESC_W \<equiv> 1"
abbreviation (input) SVGA3DBLOCKDESC_BUMP_L :: u32 where "SVGA3DBLOCKDESC_BUMP_L \<equiv> 1"
abbreviation (input) SVGA3DBLOCKDESC_GREEN :: u32 where "SVGA3DBLOCKDESC_GREEN \<equiv> 2"
abbreviation (input) SVGA3DBLOCKDESC_V :: u32 where "SVGA3DBLOCKDESC_V \<equiv> 2"
abbreviation (input) SVGA3DBLOCKDESC_RED :: u32 where "SVGA3DBLOCKDESC_RED \<equiv> 4"
abbreviation (input) SVGA3DBLOCKDESC_U :: u32 where "SVGA3DBLOCKDESC_U \<equiv> 4"
abbreviation (input) SVGA3DBLOCKDESC_LUMINANCE :: u32 where "SVGA3DBLOCKDESC_LUMINANCE \<equiv> 4"
abbreviation (input) SVGA3DBLOCKDESC_ALPHA :: u32 where "SVGA3DBLOCKDESC_ALPHA \<equiv> 8"
abbreviation (input) SVGA3DBLOCKDESC_Q :: u32 where "SVGA3DBLOCKDESC_Q \<equiv> 8"
abbreviation (input) SVGA3DBLOCKDESC_BUFFER :: u32 where "SVGA3DBLOCKDESC_BUFFER \<equiv> 16"
abbreviation (input) SVGA3DBLOCKDESC_COMPRESSED :: u32 where "SVGA3DBLOCKDESC_COMPRESSED \<equiv> 32"
abbreviation (input) SVGA3DBLOCKDESC_FP :: u32 where "SVGA3DBLOCKDESC_FP \<equiv> 64"
abbreviation (input) SVGA3DBLOCKDESC_PLANAR_YUV :: u32 where "SVGA3DBLOCKDESC_PLANAR_YUV \<equiv> 128"
abbreviation (input) SVGA3DBLOCKDESC_2PLANAR_YUV :: u32 where "SVGA3DBLOCKDESC_2PLANAR_YUV \<equiv> 256"
abbreviation (input) SVGA3DBLOCKDESC_3PLANAR_YUV :: u32 where "SVGA3DBLOCKDESC_3PLANAR_YUV \<equiv> 512"
abbreviation (input) SVGA3DBLOCKDESC_STENCIL :: u32 where "SVGA3DBLOCKDESC_STENCIL \<equiv> 2048"
abbreviation (input) SVGA3DBLOCKDESC_TYPELESS :: u32 where "SVGA3DBLOCKDESC_TYPELESS \<equiv> 4096"
abbreviation (input) SVGA3DBLOCKDESC_SINT :: u32 where "SVGA3DBLOCKDESC_SINT \<equiv> 8192"
abbreviation (input) SVGA3DBLOCKDESC_UINT :: u32 where "SVGA3DBLOCKDESC_UINT \<equiv> 16384"
abbreviation (input) SVGA3DBLOCKDESC_NORM :: u32 where "SVGA3DBLOCKDESC_NORM \<equiv> 32768"
abbreviation (input) SVGA3DBLOCKDESC_SRGB :: u32 where "SVGA3DBLOCKDESC_SRGB \<equiv> 65536"
abbreviation (input) SVGA3DBLOCKDESC_EXP :: u32 where "SVGA3DBLOCKDESC_EXP \<equiv> 131072"
abbreviation (input) SVGA3DBLOCKDESC_COLOR :: u32 where "SVGA3DBLOCKDESC_COLOR \<equiv> 262144"
abbreviation (input) SVGA3DBLOCKDESC_DEPTH :: u32 where "SVGA3DBLOCKDESC_DEPTH \<equiv> 524288"
abbreviation (input) SVGA3DBLOCKDESC_BUMP :: u32 where "SVGA3DBLOCKDESC_BUMP \<equiv> 1048576"
abbreviation (input) SVGA3DBLOCKDESC_YUV_VIDEO :: u32 where "SVGA3DBLOCKDESC_YUV_VIDEO \<equiv> 2097152"
abbreviation (input) SVGA3DBLOCKDESC_MIXED :: u32 where "SVGA3DBLOCKDESC_MIXED \<equiv> 4194304"
abbreviation (input) SVGA3DBLOCKDESC_CX :: u32 where "SVGA3DBLOCKDESC_CX \<equiv> 8388608"
abbreviation (input) SVGA3DBLOCKDESC_BC1 :: u32 where "SVGA3DBLOCKDESC_BC1 \<equiv> 16777216"
abbreviation (input) SVGA3DBLOCKDESC_BC2 :: u32 where "SVGA3DBLOCKDESC_BC2 \<equiv> 33554432"
abbreviation (input) SVGA3DBLOCKDESC_BC3 :: u32 where "SVGA3DBLOCKDESC_BC3 \<equiv> 67108864"
abbreviation (input) SVGA3DBLOCKDESC_BC4 :: u32 where "SVGA3DBLOCKDESC_BC4 \<equiv> 134217728"
abbreviation (input) SVGA3DBLOCKDESC_BC5 :: u32 where "SVGA3DBLOCKDESC_BC5 \<equiv> 268435456"
abbreviation (input) SVGA3DBLOCKDESC_A_UINT :: u32 where "SVGA3DBLOCKDESC_A_UINT \<equiv> SVGA3DBLOCKDESC_ALPHA OR SVGA3DBLOCKDESC_UINT OR SVGA3DBLOCKDESC_COLOR"
abbreviation (input) SVGA3DBLOCKDESC_A_UNORM :: u32 where "SVGA3DBLOCKDESC_A_UNORM \<equiv> SVGA3DBLOCKDESC_A_UINT OR SVGA3DBLOCKDESC_NORM"
abbreviation (input) SVGA3DBLOCKDESC_R_UINT :: u32 where "SVGA3DBLOCKDESC_R_UINT \<equiv> SVGA3DBLOCKDESC_RED OR SVGA3DBLOCKDESC_UINT OR SVGA3DBLOCKDESC_COLOR"
abbreviation (input) SVGA3DBLOCKDESC_R_UNORM :: u32 where "SVGA3DBLOCKDESC_R_UNORM \<equiv> SVGA3DBLOCKDESC_R_UINT OR SVGA3DBLOCKDESC_NORM"
abbreviation (input) SVGA3DBLOCKDESC_R_SINT :: u32 where "SVGA3DBLOCKDESC_R_SINT \<equiv> SVGA3DBLOCKDESC_RED OR SVGA3DBLOCKDESC_SINT OR SVGA3DBLOCKDESC_COLOR"
abbreviation (input) SVGA3DBLOCKDESC_R_SNORM :: u32 where "SVGA3DBLOCKDESC_R_SNORM \<equiv> SVGA3DBLOCKDESC_R_SINT OR SVGA3DBLOCKDESC_NORM"
abbreviation (input) SVGA3DBLOCKDESC_G_UINT :: u32 where "SVGA3DBLOCKDESC_G_UINT \<equiv> SVGA3DBLOCKDESC_GREEN OR SVGA3DBLOCKDESC_UINT OR SVGA3DBLOCKDESC_COLOR"
abbreviation (input) SVGA3DBLOCKDESC_RG_UINT :: u32 where "SVGA3DBLOCKDESC_RG_UINT \<equiv> SVGA3DBLOCKDESC_RED OR SVGA3DBLOCKDESC_GREEN OR SVGA3DBLOCKDESC_UINT OR SVGA3DBLOCKDESC_COLOR"
abbreviation (input) SVGA3DBLOCKDESC_RG_UNORM :: u32 where "SVGA3DBLOCKDESC_RG_UNORM \<equiv> SVGA3DBLOCKDESC_RG_UINT OR SVGA3DBLOCKDESC_NORM"
abbreviation (input) SVGA3DBLOCKDESC_RG_SINT :: u32 where "SVGA3DBLOCKDESC_RG_SINT \<equiv> SVGA3DBLOCKDESC_RED OR SVGA3DBLOCKDESC_GREEN OR SVGA3DBLOCKDESC_SINT OR SVGA3DBLOCKDESC_COLOR"
abbreviation (input) SVGA3DBLOCKDESC_RG_SNORM :: u32 where "SVGA3DBLOCKDESC_RG_SNORM \<equiv> SVGA3DBLOCKDESC_RG_SINT OR SVGA3DBLOCKDESC_NORM"
abbreviation (input) SVGA3DBLOCKDESC_RGB_UINT :: u32 where "SVGA3DBLOCKDESC_RGB_UINT \<equiv> SVGA3DBLOCKDESC_RED OR SVGA3DBLOCKDESC_GREEN OR SVGA3DBLOCKDESC_BLUE OR SVGA3DBLOCKDESC_UINT OR SVGA3DBLOCKDESC_COLOR"
abbreviation (input) SVGA3DBLOCKDESC_RGB_SINT :: u32 where "SVGA3DBLOCKDESC_RGB_SINT \<equiv> SVGA3DBLOCKDESC_RED OR SVGA3DBLOCKDESC_GREEN OR SVGA3DBLOCKDESC_BLUE OR SVGA3DBLOCKDESC_SINT OR SVGA3DBLOCKDESC_COLOR"
abbreviation (input) SVGA3DBLOCKDESC_RGB_UNORM :: u32 where "SVGA3DBLOCKDESC_RGB_UNORM \<equiv> SVGA3DBLOCKDESC_RGB_UINT OR SVGA3DBLOCKDESC_NORM"
abbreviation (input) SVGA3DBLOCKDESC_RGB_UNORM_SRGB :: u32 where "SVGA3DBLOCKDESC_RGB_UNORM_SRGB \<equiv> SVGA3DBLOCKDESC_RGB_UNORM OR SVGA3DBLOCKDESC_SRGB"
abbreviation (input) SVGA3DBLOCKDESC_RGBA_UINT :: u32 where "SVGA3DBLOCKDESC_RGBA_UINT \<equiv> SVGA3DBLOCKDESC_RED OR SVGA3DBLOCKDESC_GREEN OR SVGA3DBLOCKDESC_BLUE OR SVGA3DBLOCKDESC_ALPHA OR SVGA3DBLOCKDESC_UINT OR SVGA3DBLOCKDESC_COLOR"
abbreviation (input) SVGA3DBLOCKDESC_RGBA_UNORM :: u32 where "SVGA3DBLOCKDESC_RGBA_UNORM \<equiv> SVGA3DBLOCKDESC_RGBA_UINT OR SVGA3DBLOCKDESC_NORM"
abbreviation (input) SVGA3DBLOCKDESC_RGBA_UNORM_SRGB :: u32 where "SVGA3DBLOCKDESC_RGBA_UNORM_SRGB \<equiv> SVGA3DBLOCKDESC_RGBA_UNORM OR SVGA3DBLOCKDESC_SRGB"
abbreviation (input) SVGA3DBLOCKDESC_RGBA_SINT :: u32 where "SVGA3DBLOCKDESC_RGBA_SINT \<equiv> SVGA3DBLOCKDESC_RED OR SVGA3DBLOCKDESC_GREEN OR SVGA3DBLOCKDESC_BLUE OR SVGA3DBLOCKDESC_ALPHA OR SVGA3DBLOCKDESC_SINT OR SVGA3DBLOCKDESC_COLOR"
abbreviation (input) SVGA3DBLOCKDESC_RGBA_SNORM :: u32 where "SVGA3DBLOCKDESC_RGBA_SNORM \<equiv> SVGA3DBLOCKDESC_RGBA_SINT OR SVGA3DBLOCKDESC_NORM"
abbreviation (input) SVGA3DBLOCKDESC_RGBA_FP :: u32 where "SVGA3DBLOCKDESC_RGBA_FP \<equiv> SVGA3DBLOCKDESC_RED OR SVGA3DBLOCKDESC_GREEN OR SVGA3DBLOCKDESC_BLUE OR SVGA3DBLOCKDESC_ALPHA OR SVGA3DBLOCKDESC_FP OR SVGA3DBLOCKDESC_COLOR"
abbreviation (input) SVGA3DBLOCKDESC_UV :: u32 where "SVGA3DBLOCKDESC_UV \<equiv> SVGA3DBLOCKDESC_U OR SVGA3DBLOCKDESC_V OR SVGA3DBLOCKDESC_BUMP"
abbreviation (input) SVGA3DBLOCKDESC_UVL :: u32 where "SVGA3DBLOCKDESC_UVL \<equiv> SVGA3DBLOCKDESC_UV OR SVGA3DBLOCKDESC_BUMP_L OR SVGA3DBLOCKDESC_MIXED OR SVGA3DBLOCKDESC_BUMP"
abbreviation (input) SVGA3DBLOCKDESC_UVW :: u32 where "SVGA3DBLOCKDESC_UVW \<equiv> SVGA3DBLOCKDESC_UV OR SVGA3DBLOCKDESC_W OR SVGA3DBLOCKDESC_BUMP"
abbreviation (input) SVGA3DBLOCKDESC_UVWA :: u32 where "SVGA3DBLOCKDESC_UVWA \<equiv> SVGA3DBLOCKDESC_UVW OR SVGA3DBLOCKDESC_ALPHA OR SVGA3DBLOCKDESC_MIXED OR SVGA3DBLOCKDESC_BUMP"
abbreviation (input) SVGA3DBLOCKDESC_UVWQ :: u32 where "SVGA3DBLOCKDESC_UVWQ \<equiv> SVGA3DBLOCKDESC_U OR SVGA3DBLOCKDESC_V OR SVGA3DBLOCKDESC_W OR SVGA3DBLOCKDESC_Q OR SVGA3DBLOCKDESC_BUMP"
abbreviation (input) SVGA3DBLOCKDESC_L_UNORM :: u32 where "SVGA3DBLOCKDESC_L_UNORM \<equiv> SVGA3DBLOCKDESC_LUMINANCE OR SVGA3DBLOCKDESC_UINT OR SVGA3DBLOCKDESC_NORM OR SVGA3DBLOCKDESC_COLOR"
abbreviation (input) SVGA3DBLOCKDESC_LA_UNORM :: u32 where "SVGA3DBLOCKDESC_LA_UNORM \<equiv> SVGA3DBLOCKDESC_LUMINANCE OR SVGA3DBLOCKDESC_ALPHA OR SVGA3DBLOCKDESC_UINT OR SVGA3DBLOCKDESC_NORM OR SVGA3DBLOCKDESC_COLOR"
abbreviation (input) SVGA3DBLOCKDESC_R_FP :: u32 where "SVGA3DBLOCKDESC_R_FP \<equiv> SVGA3DBLOCKDESC_RED OR SVGA3DBLOCKDESC_FP OR SVGA3DBLOCKDESC_COLOR"
abbreviation (input) SVGA3DBLOCKDESC_RG_FP :: u32 where "SVGA3DBLOCKDESC_RG_FP \<equiv> SVGA3DBLOCKDESC_R_FP OR SVGA3DBLOCKDESC_GREEN OR SVGA3DBLOCKDESC_COLOR"
abbreviation (input) SVGA3DBLOCKDESC_RGB_FP :: u32 where "SVGA3DBLOCKDESC_RGB_FP \<equiv> SVGA3DBLOCKDESC_RG_FP OR SVGA3DBLOCKDESC_BLUE OR SVGA3DBLOCKDESC_COLOR"
abbreviation (input) SVGA3DBLOCKDESC_YUV :: u32 where "SVGA3DBLOCKDESC_YUV \<equiv> SVGA3DBLOCKDESC_YUV_VIDEO OR SVGA3DBLOCKDESC_COLOR"
abbreviation (input) SVGA3DBLOCKDESC_AYUV :: u32 where "SVGA3DBLOCKDESC_AYUV \<equiv> SVGA3DBLOCKDESC_ALPHA OR SVGA3DBLOCKDESC_YUV_VIDEO OR SVGA3DBLOCKDESC_COLOR"
abbreviation (input) SVGA3DBLOCKDESC_RGB_EXP :: u32 where "SVGA3DBLOCKDESC_RGB_EXP \<equiv> SVGA3DBLOCKDESC_RED OR SVGA3DBLOCKDESC_GREEN OR SVGA3DBLOCKDESC_BLUE OR SVGA3DBLOCKDESC_EXP OR SVGA3DBLOCKDESC_COLOR"
abbreviation (input) SVGA3DBLOCKDESC_COMP_TYPELESS :: u32 where "SVGA3DBLOCKDESC_COMP_TYPELESS \<equiv> SVGA3DBLOCKDESC_COMPRESSED OR SVGA3DBLOCKDESC_TYPELESS"
abbreviation (input) SVGA3DBLOCKDESC_COMP_UNORM :: u32 where "SVGA3DBLOCKDESC_COMP_UNORM \<equiv> SVGA3DBLOCKDESC_COMPRESSED OR SVGA3DBLOCKDESC_UINT OR SVGA3DBLOCKDESC_NORM OR SVGA3DBLOCKDESC_COLOR"
abbreviation (input) SVGA3DBLOCKDESC_COMP_SNORM :: u32 where "SVGA3DBLOCKDESC_COMP_SNORM \<equiv> SVGA3DBLOCKDESC_COMPRESSED OR SVGA3DBLOCKDESC_SINT OR SVGA3DBLOCKDESC_NORM OR SVGA3DBLOCKDESC_COLOR"
abbreviation (input) SVGA3DBLOCKDESC_COMP_UNORM_SRGB :: u32 where "SVGA3DBLOCKDESC_COMP_UNORM_SRGB \<equiv> SVGA3DBLOCKDESC_COMP_UNORM OR SVGA3DBLOCKDESC_SRGB"
abbreviation (input) SVGA3DBLOCKDESC_BC1_COMP_TYPELESS :: u32 where "SVGA3DBLOCKDESC_BC1_COMP_TYPELESS \<equiv> SVGA3DBLOCKDESC_BC1 OR SVGA3DBLOCKDESC_COMP_TYPELESS"
abbreviation (input) SVGA3DBLOCKDESC_BC1_COMP_UNORM :: u32 where "SVGA3DBLOCKDESC_BC1_COMP_UNORM \<equiv> SVGA3DBLOCKDESC_BC1 OR SVGA3DBLOCKDESC_COMP_UNORM"
abbreviation (input) SVGA3DBLOCKDESC_BC1_COMP_UNORM_SRGB :: u32 where "SVGA3DBLOCKDESC_BC1_COMP_UNORM_SRGB \<equiv> SVGA3DBLOCKDESC_BC1_COMP_UNORM OR SVGA3DBLOCKDESC_SRGB"
abbreviation (input) SVGA3DBLOCKDESC_BC2_COMP_TYPELESS :: u32 where "SVGA3DBLOCKDESC_BC2_COMP_TYPELESS \<equiv> SVGA3DBLOCKDESC_BC2 OR SVGA3DBLOCKDESC_COMP_TYPELESS"
abbreviation (input) SVGA3DBLOCKDESC_BC2_COMP_UNORM :: u32 where "SVGA3DBLOCKDESC_BC2_COMP_UNORM \<equiv> SVGA3DBLOCKDESC_BC2 OR SVGA3DBLOCKDESC_COMP_UNORM"
abbreviation (input) SVGA3DBLOCKDESC_BC2_COMP_UNORM_SRGB :: u32 where "SVGA3DBLOCKDESC_BC2_COMP_UNORM_SRGB \<equiv> SVGA3DBLOCKDESC_BC2_COMP_UNORM OR SVGA3DBLOCKDESC_SRGB"
abbreviation (input) SVGA3DBLOCKDESC_BC3_COMP_TYPELESS :: u32 where "SVGA3DBLOCKDESC_BC3_COMP_TYPELESS \<equiv> SVGA3DBLOCKDESC_BC3 OR SVGA3DBLOCKDESC_COMP_TYPELESS"
abbreviation (input) SVGA3DBLOCKDESC_BC3_COMP_UNORM :: u32 where "SVGA3DBLOCKDESC_BC3_COMP_UNORM \<equiv> SVGA3DBLOCKDESC_BC3 OR SVGA3DBLOCKDESC_COMP_UNORM"
abbreviation (input) SVGA3DBLOCKDESC_BC3_COMP_UNORM_SRGB :: u32 where "SVGA3DBLOCKDESC_BC3_COMP_UNORM_SRGB \<equiv> SVGA3DBLOCKDESC_BC3_COMP_UNORM OR SVGA3DBLOCKDESC_SRGB"
abbreviation (input) SVGA3DBLOCKDESC_BC4_COMP_TYPELESS :: u32 where "SVGA3DBLOCKDESC_BC4_COMP_TYPELESS \<equiv> SVGA3DBLOCKDESC_BC4 OR SVGA3DBLOCKDESC_COMP_TYPELESS"
abbreviation (input) SVGA3DBLOCKDESC_BC4_COMP_UNORM :: u32 where "SVGA3DBLOCKDESC_BC4_COMP_UNORM \<equiv> SVGA3DBLOCKDESC_BC4 OR SVGA3DBLOCKDESC_COMP_UNORM"
abbreviation (input) SVGA3DBLOCKDESC_BC4_COMP_SNORM :: u32 where "SVGA3DBLOCKDESC_BC4_COMP_SNORM \<equiv> SVGA3DBLOCKDESC_BC4 OR SVGA3DBLOCKDESC_COMP_SNORM"
abbreviation (input) SVGA3DBLOCKDESC_BC5_COMP_TYPELESS :: u32 where "SVGA3DBLOCKDESC_BC5_COMP_TYPELESS \<equiv> SVGA3DBLOCKDESC_BC5 OR SVGA3DBLOCKDESC_COMP_TYPELESS"
abbreviation (input) SVGA3DBLOCKDESC_BC5_COMP_UNORM :: u32 where "SVGA3DBLOCKDESC_BC5_COMP_UNORM \<equiv> SVGA3DBLOCKDESC_BC5 OR SVGA3DBLOCKDESC_COMP_UNORM"
abbreviation (input) SVGA3DBLOCKDESC_BC5_COMP_SNORM :: u32 where "SVGA3DBLOCKDESC_BC5_COMP_SNORM \<equiv> SVGA3DBLOCKDESC_BC5 OR SVGA3DBLOCKDESC_COMP_SNORM"
abbreviation (input) SVGA3DBLOCKDESC_NV12 :: u32 where "SVGA3DBLOCKDESC_NV12 \<equiv> SVGA3DBLOCKDESC_YUV_VIDEO OR SVGA3DBLOCKDESC_PLANAR_YUV OR SVGA3DBLOCKDESC_2PLANAR_YUV OR SVGA3DBLOCKDESC_COLOR"
abbreviation (input) SVGA3DBLOCKDESC_YV12 :: u32 where "SVGA3DBLOCKDESC_YV12 \<equiv> SVGA3DBLOCKDESC_YUV_VIDEO OR SVGA3DBLOCKDESC_PLANAR_YUV OR SVGA3DBLOCKDESC_3PLANAR_YUV OR SVGA3DBLOCKDESC_COLOR"
abbreviation (input) SVGA3DBLOCKDESC_DEPTH_UINT :: u32 where "SVGA3DBLOCKDESC_DEPTH_UINT \<equiv> SVGA3DBLOCKDESC_DEPTH OR SVGA3DBLOCKDESC_UINT"
abbreviation (input) SVGA3DBLOCKDESC_DEPTH_UNORM :: u32 where "SVGA3DBLOCKDESC_DEPTH_UNORM \<equiv> SVGA3DBLOCKDESC_DEPTH_UINT OR SVGA3DBLOCKDESC_NORM"
abbreviation (input) SVGA3DBLOCKDESC_DS :: u32 where "SVGA3DBLOCKDESC_DS \<equiv> SVGA3DBLOCKDESC_DEPTH OR SVGA3DBLOCKDESC_STENCIL"
abbreviation (input) SVGA3DBLOCKDESC_DS_UINT :: u32 where "SVGA3DBLOCKDESC_DS_UINT \<equiv> SVGA3DBLOCKDESC_DEPTH OR SVGA3DBLOCKDESC_STENCIL OR SVGA3DBLOCKDESC_UINT"
abbreviation (input) SVGA3DBLOCKDESC_DS_UNORM :: u32 where "SVGA3DBLOCKDESC_DS_UNORM \<equiv> SVGA3DBLOCKDESC_DS_UINT OR SVGA3DBLOCKDESC_NORM"
abbreviation (input) SVGA3DBLOCKDESC_DEPTH_FP :: u32 where "SVGA3DBLOCKDESC_DEPTH_FP \<equiv> SVGA3DBLOCKDESC_DEPTH OR SVGA3DBLOCKDESC_FP"
abbreviation (input) SVGA3DBLOCKDESC_UV_UINT :: u32 where "SVGA3DBLOCKDESC_UV_UINT \<equiv> SVGA3DBLOCKDESC_UV OR SVGA3DBLOCKDESC_UINT"
abbreviation (input) SVGA3DBLOCKDESC_UV_SNORM :: u32 where "SVGA3DBLOCKDESC_UV_SNORM \<equiv> SVGA3DBLOCKDESC_UV OR SVGA3DBLOCKDESC_SINT OR SVGA3DBLOCKDESC_NORM"
abbreviation (input) SVGA3DBLOCKDESC_UVCX_SNORM :: u32 where "SVGA3DBLOCKDESC_UVCX_SNORM \<equiv> SVGA3DBLOCKDESC_UV_SNORM OR SVGA3DBLOCKDESC_CX"
abbreviation (input) SVGA3DBLOCKDESC_UVWQ_SNORM :: u32 where "SVGA3DBLOCKDESC_UVWQ_SNORM \<equiv> SVGA3DBLOCKDESC_UVWQ OR SVGA3DBLOCKDESC_SINT OR SVGA3DBLOCKDESC_NORM"

subsection \<open>\<open>enum SVGA3dSurfaceFormat\<close>\<close>

abbreviation (input) SVGA3D_FORMAT_INVALID :: u32 where "SVGA3D_FORMAT_INVALID \<equiv> 0"
abbreviation (input) SVGA3D_X8R8G8B8 :: u32 where "SVGA3D_X8R8G8B8 \<equiv> 1"
abbreviation (input) SVGA3D_A8R8G8B8 :: u32 where "SVGA3D_A8R8G8B8 \<equiv> 2"
abbreviation (input) SVGA3D_R5G6B5 :: u32 where "SVGA3D_R5G6B5 \<equiv> 3"
abbreviation (input) SVGA3D_X1R5G5B5 :: u32 where "SVGA3D_X1R5G5B5 \<equiv> 4"
abbreviation (input) SVGA3D_A1R5G5B5 :: u32 where "SVGA3D_A1R5G5B5 \<equiv> 5"
abbreviation (input) SVGA3D_A4R4G4B4 :: u32 where "SVGA3D_A4R4G4B4 \<equiv> 6"
abbreviation (input) SVGA3D_Z_D32 :: u32 where "SVGA3D_Z_D32 \<equiv> 7"
abbreviation (input) SVGA3D_Z_D16 :: u32 where "SVGA3D_Z_D16 \<equiv> 8"
abbreviation (input) SVGA3D_Z_D24S8 :: u32 where "SVGA3D_Z_D24S8 \<equiv> 9"
abbreviation (input) SVGA3D_Z_D15S1 :: u32 where "SVGA3D_Z_D15S1 \<equiv> 10"
abbreviation (input) SVGA3D_LUMINANCE8 :: u32 where "SVGA3D_LUMINANCE8 \<equiv> 11"
abbreviation (input) SVGA3D_LUMINANCE4_ALPHA4 :: u32 where "SVGA3D_LUMINANCE4_ALPHA4 \<equiv> 12"
abbreviation (input) SVGA3D_LUMINANCE16 :: u32 where "SVGA3D_LUMINANCE16 \<equiv> 13"
abbreviation (input) SVGA3D_LUMINANCE8_ALPHA8 :: u32 where "SVGA3D_LUMINANCE8_ALPHA8 \<equiv> 14"
abbreviation (input) SVGA3D_DXT1 :: u32 where "SVGA3D_DXT1 \<equiv> 15"
abbreviation (input) SVGA3D_DXT2 :: u32 where "SVGA3D_DXT2 \<equiv> 16"
abbreviation (input) SVGA3D_DXT3 :: u32 where "SVGA3D_DXT3 \<equiv> 17"
abbreviation (input) SVGA3D_DXT4 :: u32 where "SVGA3D_DXT4 \<equiv> 18"
abbreviation (input) SVGA3D_DXT5 :: u32 where "SVGA3D_DXT5 \<equiv> 19"
abbreviation (input) SVGA3D_BUMPU8V8 :: u32 where "SVGA3D_BUMPU8V8 \<equiv> 20"
abbreviation (input) SVGA3D_BUMPL6V5U5 :: u32 where "SVGA3D_BUMPL6V5U5 \<equiv> 21"
abbreviation (input) SVGA3D_BUMPX8L8V8U8 :: u32 where "SVGA3D_BUMPX8L8V8U8 \<equiv> 22"
abbreviation (input) SVGA3D_FORMAT_DEAD1 :: u32 where "SVGA3D_FORMAT_DEAD1 \<equiv> 23"
abbreviation (input) SVGA3D_ARGB_S10E5 :: u32 where "SVGA3D_ARGB_S10E5 \<equiv> 24"
abbreviation (input) SVGA3D_ARGB_S23E8 :: u32 where "SVGA3D_ARGB_S23E8 \<equiv> 25"
abbreviation (input) SVGA3D_A2R10G10B10 :: u32 where "SVGA3D_A2R10G10B10 \<equiv> 26"
abbreviation (input) SVGA3D_V8U8 :: u32 where "SVGA3D_V8U8 \<equiv> 27"
abbreviation (input) SVGA3D_Q8W8V8U8 :: u32 where "SVGA3D_Q8W8V8U8 \<equiv> 28"
abbreviation (input) SVGA3D_CxV8U8 :: u32 where "SVGA3D_CxV8U8 \<equiv> 29"
abbreviation (input) SVGA3D_X8L8V8U8 :: u32 where "SVGA3D_X8L8V8U8 \<equiv> 30"
abbreviation (input) SVGA3D_A2W10V10U10 :: u32 where "SVGA3D_A2W10V10U10 \<equiv> 31"
abbreviation (input) SVGA3D_ALPHA8 :: u32 where "SVGA3D_ALPHA8 \<equiv> 32"
abbreviation (input) SVGA3D_R_S10E5 :: u32 where "SVGA3D_R_S10E5 \<equiv> 33"
abbreviation (input) SVGA3D_R_S23E8 :: u32 where "SVGA3D_R_S23E8 \<equiv> 34"
abbreviation (input) SVGA3D_RG_S10E5 :: u32 where "SVGA3D_RG_S10E5 \<equiv> 35"
abbreviation (input) SVGA3D_RG_S23E8 :: u32 where "SVGA3D_RG_S23E8 \<equiv> 36"
abbreviation (input) SVGA3D_BUFFER :: u32 where "SVGA3D_BUFFER \<equiv> 37"
abbreviation (input) SVGA3D_Z_D24X8 :: u32 where "SVGA3D_Z_D24X8 \<equiv> 38"
abbreviation (input) SVGA3D_V16U16 :: u32 where "SVGA3D_V16U16 \<equiv> 39"
abbreviation (input) SVGA3D_G16R16 :: u32 where "SVGA3D_G16R16 \<equiv> 40"
abbreviation (input) SVGA3D_A16B16G16R16 :: u32 where "SVGA3D_A16B16G16R16 \<equiv> 41"
abbreviation (input) SVGA3D_UYVY :: u32 where "SVGA3D_UYVY \<equiv> 42"
abbreviation (input) SVGA3D_YUY2 :: u32 where "SVGA3D_YUY2 \<equiv> 43"
abbreviation (input) SVGA3D_NV12 :: u32 where "SVGA3D_NV12 \<equiv> 44"
abbreviation (input) SVGA3D_AYUV :: u32 where "SVGA3D_AYUV \<equiv> 45"
abbreviation (input) SVGA3D_R32G32B32A32_TYPELESS :: u32 where "SVGA3D_R32G32B32A32_TYPELESS \<equiv> 46"
abbreviation (input) SVGA3D_R32G32B32A32_UINT :: u32 where "SVGA3D_R32G32B32A32_UINT \<equiv> 47"
abbreviation (input) SVGA3D_R32G32B32A32_SINT :: u32 where "SVGA3D_R32G32B32A32_SINT \<equiv> 48"
abbreviation (input) SVGA3D_R32G32B32_TYPELESS :: u32 where "SVGA3D_R32G32B32_TYPELESS \<equiv> 49"
abbreviation (input) SVGA3D_R32G32B32_FLOAT :: u32 where "SVGA3D_R32G32B32_FLOAT \<equiv> 50"
abbreviation (input) SVGA3D_R32G32B32_UINT :: u32 where "SVGA3D_R32G32B32_UINT \<equiv> 51"
abbreviation (input) SVGA3D_R32G32B32_SINT :: u32 where "SVGA3D_R32G32B32_SINT \<equiv> 52"
abbreviation (input) SVGA3D_R16G16B16A16_TYPELESS :: u32 where "SVGA3D_R16G16B16A16_TYPELESS \<equiv> 53"
abbreviation (input) SVGA3D_R16G16B16A16_UINT :: u32 where "SVGA3D_R16G16B16A16_UINT \<equiv> 54"
abbreviation (input) SVGA3D_R16G16B16A16_SNORM :: u32 where "SVGA3D_R16G16B16A16_SNORM \<equiv> 55"
abbreviation (input) SVGA3D_R16G16B16A16_SINT :: u32 where "SVGA3D_R16G16B16A16_SINT \<equiv> 56"
abbreviation (input) SVGA3D_R32G32_TYPELESS :: u32 where "SVGA3D_R32G32_TYPELESS \<equiv> 57"
abbreviation (input) SVGA3D_R32G32_UINT :: u32 where "SVGA3D_R32G32_UINT \<equiv> 58"
abbreviation (input) SVGA3D_R32G32_SINT :: u32 where "SVGA3D_R32G32_SINT \<equiv> 59"
abbreviation (input) SVGA3D_R32G8X24_TYPELESS :: u32 where "SVGA3D_R32G8X24_TYPELESS \<equiv> 60"
abbreviation (input) SVGA3D_D32_FLOAT_S8X24_UINT :: u32 where "SVGA3D_D32_FLOAT_S8X24_UINT \<equiv> 61"
abbreviation (input) SVGA3D_R32_FLOAT_X8X24 :: u32 where "SVGA3D_R32_FLOAT_X8X24 \<equiv> 62"
abbreviation (input) SVGA3D_X32_G8X24_UINT :: u32 where "SVGA3D_X32_G8X24_UINT \<equiv> 63"
abbreviation (input) SVGA3D_R10G10B10A2_TYPELESS :: u32 where "SVGA3D_R10G10B10A2_TYPELESS \<equiv> 64"
abbreviation (input) SVGA3D_R10G10B10A2_UINT :: u32 where "SVGA3D_R10G10B10A2_UINT \<equiv> 65"
abbreviation (input) SVGA3D_R11G11B10_FLOAT :: u32 where "SVGA3D_R11G11B10_FLOAT \<equiv> 66"
abbreviation (input) SVGA3D_R8G8B8A8_TYPELESS :: u32 where "SVGA3D_R8G8B8A8_TYPELESS \<equiv> 67"
abbreviation (input) SVGA3D_R8G8B8A8_UNORM :: u32 where "SVGA3D_R8G8B8A8_UNORM \<equiv> 68"
abbreviation (input) SVGA3D_R8G8B8A8_UNORM_SRGB :: u32 where "SVGA3D_R8G8B8A8_UNORM_SRGB \<equiv> 69"
abbreviation (input) SVGA3D_R8G8B8A8_UINT :: u32 where "SVGA3D_R8G8B8A8_UINT \<equiv> 70"
abbreviation (input) SVGA3D_R8G8B8A8_SINT :: u32 where "SVGA3D_R8G8B8A8_SINT \<equiv> 71"
abbreviation (input) SVGA3D_R16G16_TYPELESS :: u32 where "SVGA3D_R16G16_TYPELESS \<equiv> 72"
abbreviation (input) SVGA3D_R16G16_UINT :: u32 where "SVGA3D_R16G16_UINT \<equiv> 73"
abbreviation (input) SVGA3D_R16G16_SINT :: u32 where "SVGA3D_R16G16_SINT \<equiv> 74"
abbreviation (input) SVGA3D_R32_TYPELESS :: u32 where "SVGA3D_R32_TYPELESS \<equiv> 75"
abbreviation (input) SVGA3D_D32_FLOAT :: u32 where "SVGA3D_D32_FLOAT \<equiv> 76"
abbreviation (input) SVGA3D_R32_UINT :: u32 where "SVGA3D_R32_UINT \<equiv> 77"
abbreviation (input) SVGA3D_R32_SINT :: u32 where "SVGA3D_R32_SINT \<equiv> 78"
abbreviation (input) SVGA3D_R24G8_TYPELESS :: u32 where "SVGA3D_R24G8_TYPELESS \<equiv> 79"
abbreviation (input) SVGA3D_D24_UNORM_S8_UINT :: u32 where "SVGA3D_D24_UNORM_S8_UINT \<equiv> 80"
abbreviation (input) SVGA3D_R24_UNORM_X8 :: u32 where "SVGA3D_R24_UNORM_X8 \<equiv> 81"
abbreviation (input) SVGA3D_X24_G8_UINT :: u32 where "SVGA3D_X24_G8_UINT \<equiv> 82"
abbreviation (input) SVGA3D_R8G8_TYPELESS :: u32 where "SVGA3D_R8G8_TYPELESS \<equiv> 83"
abbreviation (input) SVGA3D_R8G8_UNORM :: u32 where "SVGA3D_R8G8_UNORM \<equiv> 84"
abbreviation (input) SVGA3D_R8G8_UINT :: u32 where "SVGA3D_R8G8_UINT \<equiv> 85"
abbreviation (input) SVGA3D_R8G8_SINT :: u32 where "SVGA3D_R8G8_SINT \<equiv> 86"
abbreviation (input) SVGA3D_R16_TYPELESS :: u32 where "SVGA3D_R16_TYPELESS \<equiv> 87"
abbreviation (input) SVGA3D_R16_UNORM :: u32 where "SVGA3D_R16_UNORM \<equiv> 88"
abbreviation (input) SVGA3D_R16_UINT :: u32 where "SVGA3D_R16_UINT \<equiv> 89"
abbreviation (input) SVGA3D_R16_SNORM :: u32 where "SVGA3D_R16_SNORM \<equiv> 90"
abbreviation (input) SVGA3D_R16_SINT :: u32 where "SVGA3D_R16_SINT \<equiv> 91"
abbreviation (input) SVGA3D_R8_TYPELESS :: u32 where "SVGA3D_R8_TYPELESS \<equiv> 92"
abbreviation (input) SVGA3D_R8_UNORM :: u32 where "SVGA3D_R8_UNORM \<equiv> 93"
abbreviation (input) SVGA3D_R8_UINT :: u32 where "SVGA3D_R8_UINT \<equiv> 94"
abbreviation (input) SVGA3D_R8_SNORM :: u32 where "SVGA3D_R8_SNORM \<equiv> 95"
abbreviation (input) SVGA3D_R8_SINT :: u32 where "SVGA3D_R8_SINT \<equiv> 96"
abbreviation (input) SVGA3D_P8 :: u32 where "SVGA3D_P8 \<equiv> 97"
abbreviation (input) SVGA3D_R9G9B9E5_SHAREDEXP :: u32 where "SVGA3D_R9G9B9E5_SHAREDEXP \<equiv> 98"
abbreviation (input) SVGA3D_R8G8_B8G8_UNORM :: u32 where "SVGA3D_R8G8_B8G8_UNORM \<equiv> 99"
abbreviation (input) SVGA3D_G8R8_G8B8_UNORM :: u32 where "SVGA3D_G8R8_G8B8_UNORM \<equiv> 100"
abbreviation (input) SVGA3D_BC1_TYPELESS :: u32 where "SVGA3D_BC1_TYPELESS \<equiv> 101"
abbreviation (input) SVGA3D_BC1_UNORM_SRGB :: u32 where "SVGA3D_BC1_UNORM_SRGB \<equiv> 102"
abbreviation (input) SVGA3D_BC2_TYPELESS :: u32 where "SVGA3D_BC2_TYPELESS \<equiv> 103"
abbreviation (input) SVGA3D_BC2_UNORM_SRGB :: u32 where "SVGA3D_BC2_UNORM_SRGB \<equiv> 104"
abbreviation (input) SVGA3D_BC3_TYPELESS :: u32 where "SVGA3D_BC3_TYPELESS \<equiv> 105"
abbreviation (input) SVGA3D_BC3_UNORM_SRGB :: u32 where "SVGA3D_BC3_UNORM_SRGB \<equiv> 106"
abbreviation (input) SVGA3D_BC4_TYPELESS :: u32 where "SVGA3D_BC4_TYPELESS \<equiv> 107"
abbreviation (input) SVGA3D_ATI1 :: u32 where "SVGA3D_ATI1 \<equiv> 108"
abbreviation (input) SVGA3D_BC4_SNORM :: u32 where "SVGA3D_BC4_SNORM \<equiv> 109"
abbreviation (input) SVGA3D_BC5_TYPELESS :: u32 where "SVGA3D_BC5_TYPELESS \<equiv> 110"
abbreviation (input) SVGA3D_ATI2 :: u32 where "SVGA3D_ATI2 \<equiv> 111"
abbreviation (input) SVGA3D_BC5_SNORM :: u32 where "SVGA3D_BC5_SNORM \<equiv> 112"
abbreviation (input) SVGA3D_R10G10B10_XR_BIAS_A2_UNORM :: u32 where "SVGA3D_R10G10B10_XR_BIAS_A2_UNORM \<equiv> 113"
abbreviation (input) SVGA3D_B8G8R8A8_TYPELESS :: u32 where "SVGA3D_B8G8R8A8_TYPELESS \<equiv> 114"
abbreviation (input) SVGA3D_B8G8R8A8_UNORM_SRGB :: u32 where "SVGA3D_B8G8R8A8_UNORM_SRGB \<equiv> 115"
abbreviation (input) SVGA3D_B8G8R8X8_TYPELESS :: u32 where "SVGA3D_B8G8R8X8_TYPELESS \<equiv> 116"
abbreviation (input) SVGA3D_B8G8R8X8_UNORM_SRGB :: u32 where "SVGA3D_B8G8R8X8_UNORM_SRGB \<equiv> 117"
abbreviation (input) SVGA3D_Z_DF16 :: u32 where "SVGA3D_Z_DF16 \<equiv> 118"
abbreviation (input) SVGA3D_Z_DF24 :: u32 where "SVGA3D_Z_DF24 \<equiv> 119"
abbreviation (input) SVGA3D_Z_D24S8_INT :: u32 where "SVGA3D_Z_D24S8_INT \<equiv> 120"
abbreviation (input) SVGA3D_YV12 :: u32 where "SVGA3D_YV12 \<equiv> 121"
abbreviation (input) SVGA3D_R32G32B32A32_FLOAT :: u32 where "SVGA3D_R32G32B32A32_FLOAT \<equiv> 122"
abbreviation (input) SVGA3D_R16G16B16A16_FLOAT :: u32 where "SVGA3D_R16G16B16A16_FLOAT \<equiv> 123"
abbreviation (input) SVGA3D_R16G16B16A16_UNORM :: u32 where "SVGA3D_R16G16B16A16_UNORM \<equiv> 124"
abbreviation (input) SVGA3D_R32G32_FLOAT :: u32 where "SVGA3D_R32G32_FLOAT \<equiv> 125"
abbreviation (input) SVGA3D_R10G10B10A2_UNORM :: u32 where "SVGA3D_R10G10B10A2_UNORM \<equiv> 126"
abbreviation (input) SVGA3D_R8G8B8A8_SNORM :: u32 where "SVGA3D_R8G8B8A8_SNORM \<equiv> 127"
abbreviation (input) SVGA3D_R16G16_FLOAT :: u32 where "SVGA3D_R16G16_FLOAT \<equiv> 128"
abbreviation (input) SVGA3D_R16G16_UNORM :: u32 where "SVGA3D_R16G16_UNORM \<equiv> 129"
abbreviation (input) SVGA3D_R16G16_SNORM :: u32 where "SVGA3D_R16G16_SNORM \<equiv> 130"
abbreviation (input) SVGA3D_R32_FLOAT :: u32 where "SVGA3D_R32_FLOAT \<equiv> 131"
abbreviation (input) SVGA3D_R8G8_SNORM :: u32 where "SVGA3D_R8G8_SNORM \<equiv> 132"
abbreviation (input) SVGA3D_R16_FLOAT :: u32 where "SVGA3D_R16_FLOAT \<equiv> 133"
abbreviation (input) SVGA3D_D16_UNORM :: u32 where "SVGA3D_D16_UNORM \<equiv> 134"
abbreviation (input) SVGA3D_A8_UNORM :: u32 where "SVGA3D_A8_UNORM \<equiv> 135"
abbreviation (input) SVGA3D_BC1_UNORM :: u32 where "SVGA3D_BC1_UNORM \<equiv> 136"
abbreviation (input) SVGA3D_BC2_UNORM :: u32 where "SVGA3D_BC2_UNORM \<equiv> 137"
abbreviation (input) SVGA3D_BC3_UNORM :: u32 where "SVGA3D_BC3_UNORM \<equiv> 138"
abbreviation (input) SVGA3D_B5G6R5_UNORM :: u32 where "SVGA3D_B5G6R5_UNORM \<equiv> 139"
abbreviation (input) SVGA3D_B5G5R5A1_UNORM :: u32 where "SVGA3D_B5G5R5A1_UNORM \<equiv> 140"
abbreviation (input) SVGA3D_B8G8R8A8_UNORM :: u32 where "SVGA3D_B8G8R8A8_UNORM \<equiv> 141"
abbreviation (input) SVGA3D_B8G8R8X8_UNORM :: u32 where "SVGA3D_B8G8R8X8_UNORM \<equiv> 142"
abbreviation (input) SVGA3D_BC4_UNORM :: u32 where "SVGA3D_BC4_UNORM \<equiv> 143"
abbreviation (input) SVGA3D_BC5_UNORM :: u32 where "SVGA3D_BC5_UNORM \<equiv> 144"

subsection \<open>Descriptions\<close>

record surf_size =
  width :: u32
  height :: u32
  depth :: u32

record svga3d_channel_def =
  blue :: u8
  green :: u8
  red :: u8
  alpha :: u8

record svga3d_surface_desc =
  format :: u32
  block_desc :: u32
  block_size :: surf_size
  bytes_per_block :: u32
  pitch_bytes_per_block :: u32
  bit_depth :: svga3d_channel_def
  bit_offset :: svga3d_channel_def

definition desc ::
    "u32 \<Rightarrow> u32 \<Rightarrow> u32 \<times> u32 \<times> u32 \<Rightarrow> u32 \<Rightarrow> u32 \<Rightarrow> u8 \<times> u8 \<times> u8 \<times> u8 \<Rightarrow> u8 \<times> u8 \<times> u8 \<times> u8 \<Rightarrow> svga3d_surface_desc" where
  \<comment> \<open>a row of the table, in the order of its initialiser\<close>
  "desc fmt bd bs bytes pitch d off =
     (case (bs, d, off) of ((w, h, dp), (d0, d1, d2, d3), (o0, o1, o2, o3)) \<Rightarrow>
      \<lparr>format = fmt, block_desc = bd, block_size = \<lparr>width = w, height = h, depth = dp\<rparr>,
       bytes_per_block = bytes, pitch_bytes_per_block = pitch,
       bit_depth = \<lparr>blue = d0, green = d1, red = d2, alpha = d3\<rparr>,
       bit_offset = \<lparr>blue = o0, green = o1, red = o2, alpha = o3\<rparr>\<rparr>)"

subsection \<open>The rows\<close>

definition svga3d_surface_descs_1 :: "svga3d_surface_desc list" where
  "svga3d_surface_descs_1 =
    [desc SVGA3D_FORMAT_INVALID SVGA3DBLOCKDESC_NONE (1, 1, 1) 0 0 (0, 0, 0, 0) (0, 0, 0, 0),
     desc SVGA3D_X8R8G8B8 SVGA3DBLOCKDESC_RGB_UNORM (1, 1, 1) 4 4 (8, 8, 8, 0) (0, 8, 16, 24),
     desc SVGA3D_A8R8G8B8 SVGA3DBLOCKDESC_RGBA_UNORM (1, 1, 1) 4 4 (8, 8, 8, 8) (0, 8, 16, 24),
     desc SVGA3D_R5G6B5 SVGA3DBLOCKDESC_RGB_UNORM (1, 1, 1) 2 2 (5, 6, 5, 0) (0, 5, 11, 0),
     desc SVGA3D_X1R5G5B5 SVGA3DBLOCKDESC_RGB_UNORM (1, 1, 1) 2 2 (5, 5, 5, 0) (0, 5, 10, 0),
     desc SVGA3D_A1R5G5B5 SVGA3DBLOCKDESC_RGBA_UNORM (1, 1, 1) 2 2 (5, 5, 5, 1) (0, 5, 10, 15),
     desc SVGA3D_A4R4G4B4 SVGA3DBLOCKDESC_RGBA_UNORM (1, 1, 1) 2 2 (4, 4, 4, 4) (0, 4, 8, 12),
     desc SVGA3D_Z_D32 SVGA3DBLOCKDESC_DEPTH_UNORM (1, 1, 1) 4 4 (0, 0, 32, 0) (0, 0, 0, 0),
     desc SVGA3D_Z_D16 SVGA3DBLOCKDESC_DEPTH_UNORM (1, 1, 1) 2 2 (0, 0, 16, 0) (0, 0, 0, 0),
     desc SVGA3D_Z_D24S8 SVGA3DBLOCKDESC_DS_UNORM (1, 1, 1) 4 4 (0, 8, 24, 0) (0, 0, 8, 0),
     desc SVGA3D_Z_D15S1 SVGA3DBLOCKDESC_DS_UNORM (1, 1, 1) 2 2 (0, 1, 15, 0) (0, 0, 1, 0),
     desc SVGA3D_LUMINANCE8 SVGA3DBLOCKDESC_L_UNORM (1, 1, 1) 1 1 (0, 0, 8, 0) (0, 0, 0, 0),
     desc SVGA3D_LUMINANCE4_ALPHA4 SVGA3DBLOCKDESC_LA_UNORM (1, 1, 1) 1 1 (0, 0, 4, 4) (0, 0, 0, 4),
     desc SVGA3D_LUMINANCE16 SVGA3DBLOCKDESC_L_UNORM (1, 1, 1) 2 2 (0, 0, 16, 0) (0, 0, 0, 0),
     desc SVGA3D_LUMINANCE8_ALPHA8 SVGA3DBLOCKDESC_LA_UNORM (1, 1, 1) 2 2 (0, 0, 8, 8) (0, 0, 0, 8),
     desc SVGA3D_DXT1 SVGA3DBLOCKDESC_BC1_COMP_UNORM (4, 4, 1) 8 8 (0, 0, 64, 0) (0, 0, 0, 0),
     desc SVGA3D_DXT2 SVGA3DBLOCKDESC_BC2_COMP_UNORM (4, 4, 1) 16 16 (0, 0, 128, 0) (0, 0, 0, 0),
     desc SVGA3D_DXT3 SVGA3DBLOCKDESC_BC2_COMP_UNORM (4, 4, 1) 16 16 (0, 0, 128, 0) (0, 0, 0, 0),
     desc SVGA3D_DXT4 SVGA3DBLOCKDESC_BC3_COMP_UNORM (4, 4, 1) 16 16 (0, 0, 128, 0) (0, 0, 0, 0),
     desc SVGA3D_DXT5 SVGA3DBLOCKDESC_BC3_COMP_UNORM (4, 4, 1) 16 16 (0, 0, 128, 0) (0, 0, 0, 0),
     desc SVGA3D_BUMPU8V8 SVGA3DBLOCKDESC_UV_SNORM (1, 1, 1) 2 2 (0, 8, 8, 0) (0, 8, 0, 0),
     desc SVGA3D_BUMPL6V5U5 SVGA3DBLOCKDESC_UVL (1, 1, 1) 2 2 (6, 5, 5, 0) (10, 5, 0, 0),
     desc SVGA3D_BUMPX8L8V8U8 SVGA3DBLOCKDESC_UVL (1, 1, 1) 4 4 (8, 8, 8, 0) (16, 8, 0, 0),
     desc SVGA3D_FORMAT_DEAD1 SVGA3DBLOCKDESC_UVL (1, 1, 1) 3 3 (8, 8, 8, 0) (16, 8, 0, 0),
     desc SVGA3D_ARGB_S10E5 SVGA3DBLOCKDESC_RGBA_FP (1, 1, 1) 8 8 (16, 16, 16, 16) (32, 16, 0, 48),
     desc SVGA3D_ARGB_S23E8 SVGA3DBLOCKDESC_RGBA_FP (1, 1, 1) 16 16 (32, 32, 32, 32) (64, 32, 0, 96),
     desc SVGA3D_A2R10G10B10 SVGA3DBLOCKDESC_RGBA_UNORM (1, 1, 1) 4 4 (10, 10, 10, 2) (0, 10, 20, 30),
     desc SVGA3D_V8U8 SVGA3DBLOCKDESC_UV_SNORM (1, 1, 1) 2 2 (0, 8, 8, 0) (0, 8, 0, 0),
     desc SVGA3D_Q8W8V8U8 SVGA3DBLOCKDESC_UVWQ_SNORM (1, 1, 1) 4 4 (8, 8, 8, 8) (16, 8, 0, 24)]"

definition svga3d_surface_descs_2 :: "svga3d_surface_desc list" where
  "svga3d_surface_descs_2 =
    [desc SVGA3D_CxV8U8 SVGA3DBLOCKDESC_UVCX_SNORM (1, 1, 1) 2 2 (0, 8, 8, 0) (0, 8, 0, 0),
     desc SVGA3D_X8L8V8U8 SVGA3DBLOCKDESC_UVL (1, 1, 1) 4 4 (8, 8, 8, 0) (16, 8, 0, 0),
     desc SVGA3D_A2W10V10U10 SVGA3DBLOCKDESC_UVWA (1, 1, 1) 4 4 (10, 10, 10, 2) (20, 10, 0, 30),
     desc SVGA3D_ALPHA8 SVGA3DBLOCKDESC_A_UNORM (1, 1, 1) 1 1 (0, 0, 0, 8) (0, 0, 0, 0),
     desc SVGA3D_R_S10E5 SVGA3DBLOCKDESC_R_FP (1, 1, 1) 2 2 (0, 0, 16, 0) (0, 0, 0, 0),
     desc SVGA3D_R_S23E8 SVGA3DBLOCKDESC_R_FP (1, 1, 1) 4 4 (0, 0, 32, 0) (0, 0, 0, 0),
     desc SVGA3D_RG_S10E5 SVGA3DBLOCKDESC_RG_FP (1, 1, 1) 4 4 (0, 16, 16, 0) (0, 16, 0, 0),
     desc SVGA3D_RG_S23E8 SVGA3DBLOCKDESC_RG_FP (1, 1, 1) 8 8 (0, 32, 32, 0) (0, 32, 0, 0),
     desc SVGA3D_BUFFER SVGA3DBLOCKDESC_BUFFER (1, 1, 1) 1 1 (0, 0, 8, 0) (0, 0, 0, 0),
     desc SVGA3D_Z_D24X8 SVGA3DBLOCKDESC_DEPTH_UNORM (1, 1, 1) 4 4 (0, 0, 24, 0) (0, 0, 8, 0),
     desc SVGA3D_V16U16 SVGA3DBLOCKDESC_UV_SNORM (1, 1, 1) 4 4 (0, 16, 16, 0) (0, 16, 0, 0),
     desc SVGA3D_G16R16 SVGA3DBLOCKDESC_RG_UNORM (1, 1, 1) 4 4 (0, 16, 16, 0) (0, 16, 0, 0),
     desc SVGA3D_A16B16G16R16 SVGA3DBLOCKDESC_RGBA_UNORM (1, 1, 1) 8 8 (16, 16, 16, 16) (32, 16, 0, 48),
     desc SVGA3D_UYVY SVGA3DBLOCKDESC_YUV (2, 1, 1) 4 4 (8, 0, 8, 0) (0, 0, 8, 0),
     desc SVGA3D_YUY2 SVGA3DBLOCKDESC_YUV (2, 1, 1) 4 4 (8, 0, 8, 0) (8, 0, 0, 0),
     desc SVGA3D_NV12 SVGA3DBLOCKDESC_NV12 (2, 2, 1) 6 2 (0, 0, 48, 0) (0, 0, 0, 0),
     desc SVGA3D_AYUV SVGA3DBLOCKDESC_AYUV (1, 1, 1) 4 4 (8, 8, 8, 8) (0, 8, 16, 24),
     desc SVGA3D_R32G32B32A32_TYPELESS SVGA3DBLOCKDESC_TYPELESS (1, 1, 1) 16 16 (32, 32, 32, 32) (64, 32, 0, 96),
     desc SVGA3D_R32G32B32A32_UINT SVGA3DBLOCKDESC_RGBA_UINT (1, 1, 1) 16 16 (32, 32, 32, 32) (64, 32, 0, 96),
     desc SVGA3D_R32G32B32A32_SINT SVGA3DBLOCKDESC_RGBA_SINT (1, 1, 1) 16 16 (32, 32, 32, 32) (64, 32, 0, 96),
     desc SVGA3D_R32G32B32_TYPELESS SVGA3DBLOCKDESC_TYPELESS (1, 1, 1) 12 12 (32, 32, 32, 0) (64, 32, 0, 0),
     desc SVGA3D_R32G32B32_FLOAT SVGA3DBLOCKDESC_RGB_FP (1, 1, 1) 12 12 (32, 32, 32, 0) (64, 32, 0, 0),
     desc SVGA3D_R32G32B32_UINT SVGA3DBLOCKDESC_RGB_UINT (1, 1, 1) 12 12 (32, 32, 32, 0) (64, 32, 0, 0),
     desc SVGA3D_R32G32B32_SINT SVGA3DBLOCKDESC_RGB_SINT (1, 1, 1) 12 12 (32, 32, 32, 0) (64, 32, 0, 0),
     desc SVGA3D_R16G16B16A16_TYPELESS SVGA3DBLOCKDESC_TYPELESS (1, 1, 1) 8 8 (16, 16, 16, 16) (32, 16, 0, 48),
     desc SVGA3D_R16G16B16A16_UINT SVGA3DBLOCKDESC_RGBA_UINT (1, 1, 1) 8 8 (16, 16, 16, 16) (32, 16, 0, 48),
     desc SVGA3D_R16G16B16A16_SNORM SVGA3DBLOCKDESC_RGBA_SNORM (1, 1, 1) 8 8 (16, 16, 16, 16) (32, 16, 0, 48),
     desc SVGA3D_R16G16B16A16_SINT SVGA3DBLOCKDESC_RGBA_SINT (1, 1, 1) 8 8 (16, 16, 16, 16) (32, 16, 0, 48),
     desc SVGA3D_R32G32_TYPELESS SVGA3DBLOCKDESC_TYPELESS (1, 1, 1) 8 8 (0, 32, 32, 0) (0, 32, 0, 0)]"

definition svga3d_surface_descs_3 :: "svga3d_surface_desc list" where
  "svga3d_surface_descs_3 =
    [desc SVGA3D_R32G32_UINT SVGA3DBLOCKDESC_RG_UINT (1, 1, 1) 8 8 (0, 32, 32, 0) (0, 32, 0, 0),
     desc SVGA3D_R32G32_SINT SVGA3DBLOCKDESC_RG_SINT (1, 1, 1) 8 8 (0, 32, 32, 0) (0, 32, 0, 0),
     desc SVGA3D_R32G8X24_TYPELESS SVGA3DBLOCKDESC_TYPELESS (1, 1, 1) 8 8 (0, 8, 32, 0) (0, 32, 0, 0),
     desc SVGA3D_D32_FLOAT_S8X24_UINT SVGA3DBLOCKDESC_DS (1, 1, 1) 8 8 (0, 8, 32, 0) (0, 32, 0, 0),
     desc SVGA3D_R32_FLOAT_X8X24 SVGA3DBLOCKDESC_R_FP (1, 1, 1) 8 8 (0, 0, 32, 0) (0, 0, 0, 0),
     desc SVGA3D_X32_G8X24_UINT SVGA3DBLOCKDESC_G_UINT (1, 1, 1) 8 8 (0, 8, 0, 0) (0, 32, 0, 0),
     desc SVGA3D_R10G10B10A2_TYPELESS SVGA3DBLOCKDESC_TYPELESS (1, 1, 1) 4 4 (10, 10, 10, 2) (20, 10, 0, 30),
     desc SVGA3D_R10G10B10A2_UINT SVGA3DBLOCKDESC_RGBA_UINT (1, 1, 1) 4 4 (10, 10, 10, 2) (20, 10, 0, 30),
     desc SVGA3D_R11G11B10_FLOAT SVGA3DBLOCKDESC_RGB_FP (1, 1, 1) 4 4 (10, 11, 11, 0) (22, 11, 0, 0),
     desc SVGA3D_R8G8B8A8_TYPELESS SVGA3DBLOCKDESC_TYPELESS (1, 1, 1) 4 4 (8, 8, 8, 8) (16, 8, 0, 24),
     desc SVGA3D_R8G8B8A8_UNORM SVGA3DBLOCKDESC_RGBA_UNORM (1, 1, 1) 4 4 (8, 8, 8, 8) (16, 8, 0, 24),
     desc SVGA3D_R8G8B8A8_UNORM_SRGB SVGA3DBLOCKDESC_RGBA_UNORM_SRGB (1, 1, 1) 4 4 (8, 8, 8, 8) (16, 8, 0, 24),
     desc SVGA3D_R8G8B8A8_UINT SVGA3DBLOCKDESC_RGBA_UINT (1, 1, 1) 4 4 (8, 8, 8, 8) (16, 8, 0, 24),
     desc SVGA3D_R8G8B8A8_SINT SVGA3DBLOCKDESC_RGBA_SINT (1, 1, 1) 4 4 (8, 8, 8, 8) (16, 8, 0, 24),
     desc SVGA3D_R16G16_TYPELESS SVGA3DBLOCKDESC_TYPELESS (1, 1, 1) 4 4 (0, 16, 16, 0) (0, 16, 0, 0),
     desc SVGA3D_R16G16_UINT SVGA3DBLOCKDESC_RG_UINT (1, 1, 1) 4 4 (0, 16, 16, 0) (0, 16, 0, 0),
     desc SVGA3D_R16G16_SINT SVGA3DBLOCKDESC_RG_SINT (1, 1, 1) 4 4 (0, 16, 16, 0) (0, 16, 0, 0),
     desc SVGA3D_R32_TYPELESS SVGA3DBLOCKDESC_TYPELESS (1, 1, 1) 4 4 (0, 0, 32, 0) (0, 0, 0, 0),
     desc SVGA3D_D32_FLOAT SVGA3DBLOCKDESC_DEPTH_FP (1, 1, 1) 4 4 (0, 0, 32, 0) (0, 0, 0, 0),
     desc SVGA3D_R32_UINT SVGA3DBLOCKDESC_R_UINT (1, 1, 1) 4 4 (0, 0, 32, 0) (0, 0, 0, 0),
     desc SVGA3D_R32_SINT SVGA3DBLOCKDESC_R_SINT (1, 1, 1) 4 4 (0, 0, 32, 0) (0, 0, 0, 0),
     desc SVGA3D_R24G8_TYPELESS SVGA3DBLOCKDESC_TYPELESS (1, 1, 1) 4 4 (0, 8, 24, 0) (0, 24, 0, 0),
     desc SVGA3D_D24_UNORM_S8_UINT SVGA3DBLOCKDESC_DS_UNORM (1, 1, 1) 4 4 (0, 8, 24, 0) (0, 24, 0, 0),
     desc SVGA3D_R24_UNORM_X8 SVGA3DBLOCKDESC_R_UNORM (1, 1, 1) 4 4 (0, 0, 24, 0) (0, 0, 0, 0),
     desc SVGA3D_X24_G8_UINT SVGA3DBLOCKDESC_G_UINT (1, 1, 1) 4 4 (0, 8, 0, 0) (0, 24, 0, 0),
     desc SVGA3D_R8G8_TYPELESS SVGA3DBLOCKDESC_TYPELESS (1, 1, 1) 2 2 (0, 8, 8, 0) (0, 8, 0, 0),
     desc SVGA3D_R8G8_UNORM SVGA3DBLOCKDESC_RG_UNORM (1, 1, 1) 2 2 (0, 8, 8, 0) (0, 8, 0, 0),
     desc SVGA3D_R8G8_UINT SVGA3DBLOCKDESC_RG_UINT (1, 1, 1) 2 2 (0, 8, 8, 0) (0, 8, 0, 0),
     desc SVGA3D_R8G8_SINT SVGA3DBLOCKDESC_RG_SINT (1, 1, 1) 2 2 (0, 8, 8, 0) (0, 8, 0, 0)]"

definition svga3d_surface_descs_4 :: "svga3d_surface_desc list" where
  "svga3d_surface_descs_4 =
    [desc SVGA3D_R16_TYPELESS SVGA3DBLOCKDESC_TYPELESS (1, 1, 1) 2 2 (0, 0, 16, 0) (0, 0, 0, 0),
     desc SVGA3D_R16_UNORM SVGA3DBLOCKDESC_R_UNORM (1, 1, 1) 2 2 (0, 0, 16, 0) (0, 0, 0, 0),
     desc SVGA3D_R16_UINT SVGA3DBLOCKDESC_R_UINT (1, 1, 1) 2 2 (0, 0, 16, 0) (0, 0, 0, 0),
     desc SVGA3D_R16_SNORM SVGA3DBLOCKDESC_R_SNORM (1, 1, 1) 2 2 (0, 0, 16, 0) (0, 0, 0, 0),
     desc SVGA3D_R16_SINT SVGA3DBLOCKDESC_R_SINT (1, 1, 1) 2 2 (0, 0, 16, 0) (0, 0, 0, 0),
     desc SVGA3D_R8_TYPELESS SVGA3DBLOCKDESC_TYPELESS (1, 1, 1) 1 1 (0, 0, 8, 0) (0, 0, 0, 0),
     desc SVGA3D_R8_UNORM SVGA3DBLOCKDESC_R_UNORM (1, 1, 1) 1 1 (0, 0, 8, 0) (0, 0, 0, 0),
     desc SVGA3D_R8_UINT SVGA3DBLOCKDESC_R_UINT (1, 1, 1) 1 1 (0, 0, 8, 0) (0, 0, 0, 0),
     desc SVGA3D_R8_SNORM SVGA3DBLOCKDESC_R_SNORM (1, 1, 1) 1 1 (0, 0, 8, 0) (0, 0, 0, 0),
     desc SVGA3D_R8_SINT SVGA3DBLOCKDESC_R_SINT (1, 1, 1) 1 1 (0, 0, 8, 0) (0, 0, 0, 0),
     desc SVGA3D_P8 SVGA3DBLOCKDESC_NONE (1, 1, 1) 1 1 (0, 0, 8, 0) (0, 0, 0, 0),
     desc SVGA3D_R9G9B9E5_SHAREDEXP SVGA3DBLOCKDESC_RGB_EXP (1, 1, 1) 4 4 (9, 9, 9, 5) (18, 9, 0, 27),
     desc SVGA3D_R8G8_B8G8_UNORM SVGA3DBLOCKDESC_NONE (2, 1, 1) 4 4 (0, 8, 8, 0) (0, 0, 8, 0),
     desc SVGA3D_G8R8_G8B8_UNORM SVGA3DBLOCKDESC_NONE (2, 1, 1) 4 4 (0, 8, 8, 0) (0, 8, 0, 0),
     desc SVGA3D_BC1_TYPELESS SVGA3DBLOCKDESC_BC1_COMP_TYPELESS (4, 4, 1) 8 8 (0, 0, 64, 0) (0, 0, 0, 0),
     desc SVGA3D_BC1_UNORM_SRGB SVGA3DBLOCKDESC_BC1_COMP_UNORM_SRGB (4, 4, 1) 8 8 (0, 0, 64, 0) (0, 0, 0, 0),
     desc SVGA3D_BC2_TYPELESS SVGA3DBLOCKDESC_BC2_COMP_TYPELESS (4, 4, 1) 16 16 (0, 0, 128, 0) (0, 0, 0, 0),
     desc SVGA3D_BC2_UNORM_SRGB SVGA3DBLOCKDESC_BC2_COMP_UNORM_SRGB (4, 4, 1) 16 16 (0, 0, 128, 0) (0, 0, 0, 0),
     desc SVGA3D_BC3_TYPELESS SVGA3DBLOCKDESC_BC3_COMP_TYPELESS (4, 4, 1) 16 16 (0, 0, 128, 0) (0, 0, 0, 0),
     desc SVGA3D_BC3_UNORM_SRGB SVGA3DBLOCKDESC_BC3_COMP_UNORM_SRGB (4, 4, 1) 16 16 (0, 0, 128, 0) (0, 0, 0, 0),
     desc SVGA3D_BC4_TYPELESS SVGA3DBLOCKDESC_BC4_COMP_TYPELESS (4, 4, 1) 8 8 (0, 0, 64, 0) (0, 0, 0, 0),
     desc SVGA3D_ATI1 SVGA3DBLOCKDESC_BC4_COMP_UNORM (4, 4, 1) 8 8 (0, 0, 64, 0) (0, 0, 0, 0),
     desc SVGA3D_BC4_SNORM SVGA3DBLOCKDESC_BC4_COMP_SNORM (4, 4, 1) 8 8 (0, 0, 64, 0) (0, 0, 0, 0),
     desc SVGA3D_BC5_TYPELESS SVGA3DBLOCKDESC_BC5_COMP_TYPELESS (4, 4, 1) 16 16 (0, 0, 128, 0) (0, 0, 0, 0),
     desc SVGA3D_ATI2 SVGA3DBLOCKDESC_BC5_COMP_UNORM (4, 4, 1) 16 16 (0, 0, 128, 0) (0, 0, 0, 0),
     desc SVGA3D_BC5_SNORM SVGA3DBLOCKDESC_BC5_COMP_SNORM (4, 4, 1) 16 16 (0, 0, 128, 0) (0, 0, 0, 0),
     desc SVGA3D_R10G10B10_XR_BIAS_A2_UNORM SVGA3DBLOCKDESC_RGBA_UNORM (1, 1, 1) 4 4 (10, 10, 10, 2) (20, 10, 0, 30),
     desc SVGA3D_B8G8R8A8_TYPELESS SVGA3DBLOCKDESC_TYPELESS (1, 1, 1) 4 4 (8, 8, 8, 8) (0, 8, 16, 24),
     desc SVGA3D_B8G8R8A8_UNORM_SRGB SVGA3DBLOCKDESC_RGBA_UNORM_SRGB (1, 1, 1) 4 4 (8, 8, 8, 8) (0, 8, 16, 24)]"

definition svga3d_surface_descs_5 :: "svga3d_surface_desc list" where
  "svga3d_surface_descs_5 =
    [desc SVGA3D_B8G8R8X8_TYPELESS SVGA3DBLOCKDESC_TYPELESS (1, 1, 1) 4 4 (8, 8, 8, 0) (0, 8, 16, 24),
     desc SVGA3D_B8G8R8X8_UNORM_SRGB SVGA3DBLOCKDESC_RGB_UNORM_SRGB (1, 1, 1) 4 4 (8, 8, 8, 0) (0, 8, 16, 24),
     desc SVGA3D_Z_DF16 SVGA3DBLOCKDESC_DEPTH_UNORM (1, 1, 1) 2 2 (0, 0, 16, 0) (0, 0, 0, 0),
     desc SVGA3D_Z_DF24 SVGA3DBLOCKDESC_DEPTH_UNORM (1, 1, 1) 4 4 (0, 0, 24, 0) (0, 0, 8, 0),
     desc SVGA3D_Z_D24S8_INT SVGA3DBLOCKDESC_DS_UNORM (1, 1, 1) 4 4 (0, 8, 24, 0) (0, 0, 8, 0),
     desc SVGA3D_YV12 SVGA3DBLOCKDESC_YV12 (2, 2, 1) 6 2 (0, 0, 48, 0) (0, 0, 0, 0),
     desc SVGA3D_R32G32B32A32_FLOAT SVGA3DBLOCKDESC_RGBA_FP (1, 1, 1) 16 16 (32, 32, 32, 32) (64, 32, 0, 96),
     desc SVGA3D_R16G16B16A16_FLOAT SVGA3DBLOCKDESC_RGBA_FP (1, 1, 1) 8 8 (16, 16, 16, 16) (32, 16, 0, 48),
     desc SVGA3D_R16G16B16A16_UNORM SVGA3DBLOCKDESC_RGBA_UNORM (1, 1, 1) 8 8 (16, 16, 16, 16) (32, 16, 0, 48),
     desc SVGA3D_R32G32_FLOAT SVGA3DBLOCKDESC_RG_FP (1, 1, 1) 8 8 (0, 32, 32, 0) (0, 32, 0, 0),
     desc SVGA3D_R10G10B10A2_UNORM SVGA3DBLOCKDESC_RGBA_UNORM (1, 1, 1) 4 4 (10, 10, 10, 2) (20, 10, 0, 30),
     desc SVGA3D_R8G8B8A8_SNORM SVGA3DBLOCKDESC_RGBA_SNORM (1, 1, 1) 4 4 (8, 8, 8, 8) (16, 8, 0, 24),
     desc SVGA3D_R16G16_FLOAT SVGA3DBLOCKDESC_RG_FP (1, 1, 1) 4 4 (0, 16, 16, 0) (0, 16, 0, 0),
     desc SVGA3D_R16G16_UNORM SVGA3DBLOCKDESC_RG_UNORM (1, 1, 1) 4 4 (0, 16, 16, 0) (0, 16, 0, 0),
     desc SVGA3D_R16G16_SNORM SVGA3DBLOCKDESC_RG_SNORM (1, 1, 1) 4 4 (0, 16, 16, 0) (0, 16, 0, 0),
     desc SVGA3D_R32_FLOAT SVGA3DBLOCKDESC_R_FP (1, 1, 1) 4 4 (0, 0, 32, 0) (0, 0, 0, 0),
     desc SVGA3D_R8G8_SNORM SVGA3DBLOCKDESC_RG_SNORM (1, 1, 1) 2 2 (0, 8, 8, 0) (0, 8, 0, 0),
     desc SVGA3D_R16_FLOAT SVGA3DBLOCKDESC_R_FP (1, 1, 1) 2 2 (0, 0, 16, 0) (0, 0, 0, 0),
     desc SVGA3D_D16_UNORM SVGA3DBLOCKDESC_DEPTH_UNORM (1, 1, 1) 2 2 (0, 0, 16, 0) (0, 0, 0, 0),
     desc SVGA3D_A8_UNORM SVGA3DBLOCKDESC_A_UNORM (1, 1, 1) 1 1 (0, 0, 0, 8) (0, 0, 0, 0),
     desc SVGA3D_BC1_UNORM SVGA3DBLOCKDESC_BC1_COMP_UNORM (4, 4, 1) 8 8 (0, 0, 64, 0) (0, 0, 0, 0),
     desc SVGA3D_BC2_UNORM SVGA3DBLOCKDESC_BC2_COMP_UNORM (4, 4, 1) 16 16 (0, 0, 128, 0) (0, 0, 0, 0),
     desc SVGA3D_BC3_UNORM SVGA3DBLOCKDESC_BC3_COMP_UNORM (4, 4, 1) 16 16 (0, 0, 128, 0) (0, 0, 0, 0),
     desc SVGA3D_B5G6R5_UNORM SVGA3DBLOCKDESC_RGB_UNORM (1, 1, 1) 2 2 (5, 6, 5, 0) (0, 5, 11, 0),
     desc SVGA3D_B5G5R5A1_UNORM SVGA3DBLOCKDESC_RGBA_UNORM (1, 1, 1) 2 2 (5, 5, 5, 1) (0, 5, 10, 15),
     desc SVGA3D_B8G8R8A8_UNORM SVGA3DBLOCKDESC_RGBA_UNORM (1, 1, 1) 4 4 (8, 8, 8, 8) (0, 8, 16, 24),
     desc SVGA3D_B8G8R8X8_UNORM SVGA3DBLOCKDESC_RGB_UNORM (1, 1, 1) 4 4 (8, 8, 8, 0) (0, 8, 16, 24),
     desc SVGA3D_BC4_UNORM SVGA3DBLOCKDESC_BC4_COMP_UNORM (4, 4, 1) 8 8 (0, 0, 64, 0) (0, 0, 0, 0),
     desc SVGA3D_BC5_UNORM SVGA3DBLOCKDESC_BC5_COMP_UNORM (4, 4, 1) 16 16 (0, 0, 128, 0) (0, 0, 0, 0)]"

definition svga3d_surface_descs :: "svga3d_surface_desc list" where
  "svga3d_surface_descs =
     svga3d_surface_descs_1 @ svga3d_surface_descs_2 @ svga3d_surface_descs_3 @
     svga3d_surface_descs_4 @ svga3d_surface_descs_5"

section \<open>Sizes and offsets\<close>

definition U32_MAX :: nat where "U32_MAX = 2 ^ 32 - 1"

definition clamped_umul32 :: "u32 \<Rightarrow> u32 \<Rightarrow> u32" where
  "clamped_umul32 a b =
     (let tmp = unat a * unat b in if tmp > U32_MAX then of_nat U32_MAX else of_nat tmp)"

definition svga3dsurface_get_desc :: "u32 \<Rightarrow> svga3d_surface_desc" where
  "svga3dsurface_get_desc fmt =
     (if unat fmt < length svga3d_surface_descs then svga3d_surface_descs ! unat fmt
      else svga3d_surface_descs ! 0)"

definition svga3dsurface_get_mip_size :: "surf_size \<Rightarrow> nat \<Rightarrow> surf_size" where
  \<comment> \<open>for mip levels below 32: a shift by more is undefined in C, and callers reject it\<close>
  "svga3dsurface_get_mip_size base_level mip_level =
     \<lparr>width = max (drop_bit mip_level (width base_level)) 1,
      height = max (drop_bit mip_level (height base_level)) 1,
      depth = max (drop_bit mip_level (depth base_level)) 1\<rparr>"

definition DIV_ROUND_UP :: "u32 \<Rightarrow> u32 \<Rightarrow> u32" where
  "DIV_ROUND_UP n d = (n + d - 1) div d"

definition svga3dsurface_get_size_in_blocks :: "svga3d_surface_desc \<Rightarrow> surf_size \<Rightarrow> surf_size" where
  "svga3dsurface_get_size_in_blocks ds pixel_size =
     \<lparr>width = DIV_ROUND_UP (width pixel_size) (width (block_size ds)),
      height = DIV_ROUND_UP (height pixel_size) (height (block_size ds)),
      depth = DIV_ROUND_UP (depth pixel_size) (depth (block_size ds))\<rparr>"

definition svga3dsurface_is_planar_surface :: "svga3d_surface_desc \<Rightarrow> bool" where
  "svga3dsurface_is_planar_surface ds \<longleftrightarrow> block_desc ds AND SVGA3DBLOCKDESC_PLANAR_YUV \<noteq> 0"

definition svga3dsurface_calculate_pitch :: "svga3d_surface_desc \<Rightarrow> surf_size \<Rightarrow> u32" where
  "svga3dsurface_calculate_pitch ds sz =
     width (svga3dsurface_get_size_in_blocks ds sz) * pitch_bytes_per_block ds"

definition svga3dsurface_get_image_buffer_size :: "svga3d_surface_desc \<Rightarrow> surf_size \<Rightarrow> u32 \<Rightarrow> u32" where
  "svga3dsurface_get_image_buffer_size ds sz pitch0 =
     (let image_blocks = svga3dsurface_get_size_in_blocks ds sz in
      if svga3dsurface_is_planar_surface ds
      then clamped_umul32 (clamped_umul32 (clamped_umul32 (width image_blocks) (height image_blocks))
             (depth image_blocks)) (bytes_per_block ds)
      else
        let pitch = (if pitch0 = 0 then svga3dsurface_calculate_pitch ds sz else pitch0);
            slice_size = clamped_umul32 (height image_blocks) pitch
        in clamped_umul32 slice_size (depth image_blocks))"

definition mip_bytes :: "svga3d_surface_desc \<Rightarrow> surf_size \<Rightarrow> nat \<Rightarrow> u32" where
  \<comment> \<open>the body of the loops over the mip levels\<close>
  "mip_bytes ds base mip = svga3dsurface_get_image_buffer_size ds (svga3dsurface_get_mip_size base mip) 0"

definition svga3dsurface_get_serialized_size :: "u32 \<Rightarrow> surf_size \<Rightarrow> u32 \<Rightarrow> u32 \<Rightarrow> u32" where
  "svga3dsurface_get_serialized_size fmt base_level_size num_mip_levels num_layers =
     (let ds = svga3dsurface_get_desc fmt;
          total_size = fold (\<lambda>mip total. total + mip_bytes ds base_level_size mip) [0..<unat num_mip_levels] 0
      in total_size * num_layers)"

definition svga3dsurface_get_serialized_size_extended :: "u32 \<Rightarrow> surf_size \<Rightarrow> u32 \<Rightarrow> u32 \<Rightarrow> u32 \<Rightarrow> u32" where
  "svga3dsurface_get_serialized_size_extended fmt base_level_size num_mip_levels num_layers num_samples =
     (let total_size = unat (svga3dsurface_get_serialized_size fmt base_level_size num_mip_levels num_layers)
        * max 1 (unat num_samples)
      in of_nat (min total_size U32_MAX))"

definition svga3dsurface_get_pixel_offset :: "u32 \<Rightarrow> u32 \<Rightarrow> u32 \<Rightarrow> u32 \<Rightarrow> u32 \<Rightarrow> u32 \<Rightarrow> u32" where
  "svga3dsurface_get_pixel_offset fmt w h x y z =
     (let ds = svga3dsurface_get_desc fmt;
          bw = width (block_size ds); bh = height (block_size ds); bd = depth (block_size ds);
          rowstride = DIV_ROUND_UP w bw * bytes_per_block ds;
          imgstride = DIV_ROUND_UP h bh * rowstride
      in z div bd * imgstride + y div bh * rowstride + x div bw * bytes_per_block ds)"

definition svga3dsurface_get_image_offset :: "u32 \<Rightarrow> surf_size \<Rightarrow> u32 \<Rightarrow> u32 \<Rightarrow> u32 \<Rightarrow> u32" where
  "svga3dsurface_get_image_offset fmt baseLevelSize numMipLevels face mip =
     (let ds = svga3dsurface_get_desc fmt;
          (mipChainBytes, mipChainBytesToLevel) =
            fold (\<lambda>i (chain, level).
              let bytes = mip_bytes ds baseLevelSize i in
              (chain + bytes, if i < unat mip then level + bytes else level))
            [0..<unat numMipLevels] (0, 0)
      in mipChainBytes * face + mipChainBytesToLevel)"

definition svga3dsurface_is_gb_screen_target_format :: "u32 \<Rightarrow> bool" where
  "svga3dsurface_is_gb_screen_target_format fmt \<longleftrightarrow>
     fmt = SVGA3D_X8R8G8B8 \<or> fmt = SVGA3D_A8R8G8B8 \<or> fmt = SVGA3D_R5G6B5 \<or>
     fmt = SVGA3D_X1R5G5B5 \<or> fmt = SVGA3D_A1R5G5B5 \<or> fmt = SVGA3D_P8"

definition svga3dsurface_is_dx_screen_target_format :: "u32 \<Rightarrow> bool" where
  "svga3dsurface_is_dx_screen_target_format fmt \<longleftrightarrow>
     fmt = SVGA3D_R8G8B8A8_UNORM \<or> fmt = SVGA3D_B8G8R8A8_UNORM \<or> fmt = SVGA3D_B8G8R8X8_UNORM"

definition svga3dsurface_is_screen_target_format :: "u32 \<Rightarrow> bool" where
  "svga3dsurface_is_screen_target_format fmt \<longleftrightarrow>
     svga3dsurface_is_gb_screen_target_format fmt \<or> svga3dsurface_is_dx_screen_target_format fmt"

section \<open>The table is well-formed\<close>

definition channels :: "svga3d_surface_desc \<Rightarrow> (int \<times> int) list" where
  \<comment> \<open>offset and width, in bits, of the channels a format has\<close>
  "channels ds = filter (\<lambda>(k, n). 0 < n)
     [(uint (blue (bit_offset ds)), uint (blue (bit_depth ds))), (uint (green (bit_offset ds)), uint (green (bit_depth ds))),
      (uint (red (bit_offset ds)), uint (red (bit_depth ds))), (uint (alpha (bit_offset ds)), uint (alpha (bit_depth ds)))]"

fun channels_disjoint :: "(int \<times> int) list \<Rightarrow> bool" where
  "channels_disjoint [] = True"
| "channels_disjoint ((k, n) # cs) =
     (list_all (\<lambda>(k', n'). k + n \<le> k' \<or> k' + n' \<le> k) cs \<and> channels_disjoint cs)"

definition desc_ok :: "svga3d_surface_desc \<Rightarrow> bool" where
  "desc_ok ds \<longleftrightarrow>
     (bytes_per_block ds = 0 \<longleftrightarrow> format ds = SVGA3D_FORMAT_INVALID) \<and>
     0 < uint (width (block_size ds)) \<and> uint (width (block_size ds)) \<le> 4 \<and>
     0 < uint (height (block_size ds)) \<and> uint (height (block_size ds)) \<le> 4 \<and> depth (block_size ds) = 1 \<and>
     uint (bytes_per_block ds) \<le> 16 \<and>
     (\<not> svga3dsurface_is_planar_surface ds \<longrightarrow> pitch_bytes_per_block ds = bytes_per_block ds) \<and>
     (block_desc ds AND SVGA3DBLOCKDESC_COMPRESSED \<noteq> 0 \<longleftrightarrow> width (block_size ds) = 4 \<and> height (block_size ds) = 4) \<and>
     list_all (\<lambda>(k, n). k + n \<le> 8 * uint (bytes_per_block ds)) (channels ds) \<and> channels_disjoint (channels ds)"

definition indexed_ok :: "nat \<Rightarrow> svga3d_surface_desc list \<Rightarrow> bool" where
  "indexed_ok i rows \<longleftrightarrow> map format rows = map of_nat [i..<i + length rows] \<and> list_all desc_ok rows"

lemma rows_ok:
  "indexed_ok 0 svga3d_surface_descs_1" "indexed_ok 29 svga3d_surface_descs_2" "indexed_ok 58 svga3d_surface_descs_3"
  "indexed_ok 87 svga3d_surface_descs_4" "indexed_ok 116 svga3d_surface_descs_5"
  by code_simp+

lemma indexed_ok_append:
  "indexed_ok i xs \<Longrightarrow> indexed_ok (i + length xs) ys \<Longrightarrow> indexed_ok i (xs @ ys)"
  unfolding indexed_ok_def
  by (simp add: upt_add_eq_append[OF le_add1] flip: add.assoc)

lemma rows_length [simp]:
  "length svga3d_surface_descs_1 = 29" "length svga3d_surface_descs_2 = 29" "length svga3d_surface_descs_3 = 29"
  "length svga3d_surface_descs_4 = 29" "length svga3d_surface_descs_5 = 29"
  by (simp_all add: svga3d_surface_descs_1_def svga3d_surface_descs_2_def svga3d_surface_descs_3_def
      svga3d_surface_descs_4_def svga3d_surface_descs_5_def)

lemma table_length [simp]: "length svga3d_surface_descs = 145"
  by (simp add: svga3d_surface_descs_def)

lemma table_ok: "indexed_ok 0 svga3d_surface_descs"
  unfolding svga3d_surface_descs_def
  by (intro indexed_ok_append) (simp_all add: rows_ok)

lemma table_nth:
  assumes "i < 145"
  shows "desc_ok (svga3d_surface_descs ! i)" "format (svga3d_surface_descs ! i) = of_nat i"
proof -
  show "desc_ok (svga3d_surface_descs ! i)"
    using table_ok assms by (simp add: indexed_ok_def list_all_length)
  have "map format svga3d_surface_descs ! i = map of_nat [0..<145] ! i"
    using table_ok by (simp add: indexed_ok_def)
  then show "format (svga3d_surface_descs ! i) = of_nat i" using assms by simp
qed

text \<open>
  C39: The format table is well-formed: whatever 32-bit value user space passes as a format, the lookup returns
  the row of that format, or the row of the invalid format when there is none, and the
  row is consistent. Blocks have one to four pixels a side and depth one (so no size computation divides
  by zero), four by four exactly when the format is compressed; only the invalid format has
  empty blocks; the channels lie inside the block and do not overlap; and the size of a block for the
  purposes of pitch differs from its size for planar formats only.
\<close>

theorem surface_desc_well_formed:
  "desc_ok (svga3dsurface_get_desc fmt) \<and>
   format (svga3dsurface_get_desc fmt) = (if unat fmt < 145 then fmt else SVGA3D_FORMAT_INVALID)"
  using table_nth[of "unat fmt"] table_nth[of 0] by (simp add: svga3dsurface_get_desc_def)

section \<open>Sizes are exact or clamped\<close>

lemma get_desc_ok: "desc_ok (svga3dsurface_get_desc fmt)"
  using table_nth[of "unat fmt"] table_nth[of 0] by (simp add: svga3dsurface_get_desc_def)

lemma unat_gt_0_iff_uint: "0 < unat (w :: u32) \<longleftrightarrow> 0 < uint w"
  by (simp flip: of_nat_0_less_iff[where 'a = int])

lemma desc_okD:
  assumes "desc_ok ds"
  shows "0 < unat (width (block_size ds))" "0 < unat (height (block_size ds))" "0 < unat (depth (block_size ds))"
    "depth (block_size ds) = 1" "\<not> svga3dsurface_is_planar_surface ds \<Longrightarrow> pitch_bytes_per_block ds = bytes_per_block ds"
proof -
  show "0 < unat (width (block_size ds))" "0 < unat (height (block_size ds))"
    using assms unfolding desc_ok_def by (simp_all only: unat_gt_0_iff_uint)
  show "depth (block_size ds) = 1" using assms unfolding desc_ok_def by blast
  then show "0 < unat (depth (block_size ds))" by simp
  show "pitch_bytes_per_block ds = bytes_per_block ds" if "\<not> svga3dsurface_is_planar_surface ds"
    using assms that unfolding desc_ok_def by blast
qed

definition nblocks :: "nat \<Rightarrow> nat \<Rightarrow> nat" where
  "nblocks n d = (n + d - 1) div d"

definition image_bytes :: "svga3d_surface_desc \<Rightarrow> surf_size \<Rightarrow> nat" where
  \<comment> \<open>the size of an image, without overflow\<close>
  "image_bytes ds sz =
     nblocks (unat (width sz)) (unat (width (block_size ds))) * nblocks (unat (height sz)) (unat (height (block_size ds)))
     * nblocks (unat (depth sz)) (unat (depth (block_size ds))) * unat (bytes_per_block ds)"

definition dims_ok :: "svga3d_surface_desc \<Rightarrow> surf_size \<Rightarrow> bool" where
  \<comment> \<open>the dimensions survive the rounding up, and a row fits 32 bits\<close>
  "dims_ok ds sz \<longleftrightarrow>
     unat (width sz) + unat (width (block_size ds)) \<le> 2 ^ 32 \<and> unat (height sz) + unat (height (block_size ds)) \<le> 2 ^ 32 \<and>
     (\<not> svga3dsurface_is_planar_surface ds \<longrightarrow>
        nblocks (unat (width sz)) (unat (width (block_size ds))) * unat (bytes_per_block ds) < 2 ^ 32)"

lemma unat_U32_MAX: "n \<le> U32_MAX \<Longrightarrow> unat (of_nat n :: u32) = n"
  by (simp add: U32_MAX_def unat_of_nat)

lemma unat_le_U32_MAX: "unat (a :: u32) \<le> U32_MAX"
  using unsigned_less[where 'a = nat, of a] by (simp add: U32_MAX_def)

lemma unat_clamped: "unat (clamped_umul32 a b) = min (unat a * unat b) U32_MAX"
  by (simp add: clamped_umul32_def Let_def unat_U32_MAX min_def del: of_nat_mult)

lemma min_mult_min: "min (min x (m :: nat) * c) m = min (x * c) m"
  by (cases "x \<le> m"; cases c) (auto simp: min_def)

lemma unat_DIV_ROUND_UP:
  assumes "unat n + unat d \<le> 2 ^ 32" "0 < unat d"
  shows "unat (DIV_ROUND_UP n d) = nblocks (unat n) (unat d)"
proof -
  have d1: "unat (d - 1) = unat d - 1" using assms(2) by (simp add: unat_sub word_le_nat_alt)
  have "unat (n + (d - 1)) = unat n + (unat d - 1)"
    using assms unat_add_lem[of n "d - 1"] unfolding d1 by auto
  then have "unat (n + d - 1) = unat n + unat d - 1" using assms(2) by (simp add: add_diff_eq)
  then show ?thesis by (simp add: DIV_ROUND_UP_def nblocks_def unat_div)
qed

lemma DIV_ROUND_UP_1: "DIV_ROUND_UP n 1 = n"
  by (simp add: DIV_ROUND_UP_def)

lemma size_in_blocks:
  assumes "desc_ok ds" "dims_ok ds sz"
  shows "unat (width (svga3dsurface_get_size_in_blocks ds sz)) = nblocks (unat (width sz)) (unat (width (block_size ds)))"
    "unat (height (svga3dsurface_get_size_in_blocks ds sz)) = nblocks (unat (height sz)) (unat (height (block_size ds)))"
    "unat (depth (svga3dsurface_get_size_in_blocks ds sz)) = nblocks (unat (depth sz)) (unat (depth (block_size ds)))"
  using assms desc_okD[OF assms(1)]
  by (simp_all add: svga3dsurface_get_size_in_blocks_def dims_ok_def unat_DIV_ROUND_UP DIV_ROUND_UP_1 nblocks_def)

lemma unat_pitch:
  assumes "desc_ok ds" "dims_ok ds sz" "\<not> svga3dsurface_is_planar_surface ds"
  shows "unat (svga3dsurface_calculate_pitch ds sz) =
    nblocks (unat (width sz)) (unat (width (block_size ds))) * unat (bytes_per_block ds)"
proof -
  have "unat (width (svga3dsurface_get_size_in_blocks ds sz)) * unat (bytes_per_block ds) < 2 ^ 32"
    using assms(2,3) by (simp add: size_in_blocks[OF assms(1,2)] dims_ok_def)
  then show ?thesis
    using unat_mult_lem[of "width (svga3dsurface_get_size_in_blocks ds sz)" "bytes_per_block ds"]
    by (simp add: svga3dsurface_calculate_pitch_def desc_okD(5)[OF assms(1,3)] size_in_blocks(1)[OF assms(1,2)])
qed

lemma image_buffer_size_exact:
  assumes "desc_ok ds" "dims_ok ds sz"
  shows "unat (svga3dsurface_get_image_buffer_size ds sz 0) = min (image_bytes ds sz) U32_MAX"
proof (cases "svga3dsurface_is_planar_surface ds")
  case True
  then show ?thesis
    by (simp add: svga3dsurface_get_image_buffer_size_def Let_def unat_clamped min_mult_min image_bytes_def
        size_in_blocks[OF assms])
next
  case False
  then show ?thesis
    by (simp add: svga3dsurface_get_image_buffer_size_def Let_def unat_clamped min_mult_min image_bytes_def
        size_in_blocks[OF assms] unat_pitch[OF assms]) (simp add: ac_simps)
qed

text \<open>
  For every format and every image whose rows fit 32 bits, \<open>svga3dsurface_get_image_buffer_size\<close> returns the
  number of blocks times the size of a block when that fits 32 bits, and \<open>MAX_UINT32\<close> when it does not.
\<close>

lemma image_buffer_size_clamped:
  assumes "dims_ok (svga3dsurface_get_desc fmt) sz"
  shows "unat (svga3dsurface_get_image_buffer_size (svga3dsurface_get_desc fmt) sz 0) =
    min (image_bytes (svga3dsurface_get_desc fmt) sz) (2 ^ 32 - 1)"
  using image_buffer_size_exact[OF get_desc_ok assms] by (simp add: U32_MAX_def)

lemma get_desc_1: "svga3dsurface_get_desc 1 = desc SVGA3D_X8R8G8B8 SVGA3DBLOCKDESC_RGB_UNORM (1, 1, 1) 4 4 (8, 8, 8, 0) (0, 8, 16, 24)"
  by (simp add: svga3dsurface_get_desc_def svga3d_surface_descs_def svga3d_surface_descs_1_def nth_append)

lemma get_desc_15: "svga3dsurface_get_desc 15 = desc SVGA3D_DXT1 SVGA3DBLOCKDESC_BC1_COMP_UNORM (4, 4, 1) 8 8 (0, 0, 64, 0) (0, 0, 0, 0)"
  by (simp add: svga3dsurface_get_desc_def svga3d_surface_descs_def svga3d_surface_descs_1_def nth_append)

lemma image_buffer_size_clamped_example:
  "unat (svga3dsurface_get_image_buffer_size (svga3dsurface_get_desc 1) \<lparr>width = 65536, height = 65536, depth = 1\<rparr> 0) = 2 ^ 32 - 1"
proof -
  have "dims_ok (svga3dsurface_get_desc 1) \<lparr>width = 65536, height = 65536, depth = 1\<rparr>"
    by (simp add: get_desc_1 desc_def dims_ok_def nblocks_def)
  from image_buffer_size_clamped[OF this] show ?thesis
    by (simp add: get_desc_1 desc_def image_bytes_def nblocks_def)
qed

text \<open>
  The clamping does not cover the row: the pitch is computed without it, and the rounding up wraps. For
  an image of \<open>2 ^ 30\<close> pixels of four bytes the function returns zero bytes, and a compressed image
  with \<open>2 ^ 32 - 1\<close> pixels in a row has no block at all.
\<close>

lemma image_buffer_size_wraps:
  "svga3dsurface_get_image_buffer_size (svga3dsurface_get_desc SVGA3D_X8R8G8B8) \<lparr>width = 2 ^ 30, height = 1, depth = 1\<rparr> 0 = 0 \<and>
   svga3dsurface_get_image_buffer_size (svga3dsurface_get_desc SVGA3D_DXT1) \<lparr>width = 2 ^ 32 - 1, height = 1, depth = 1\<rparr> 0 = 0"
  by (simp add: get_desc_1 get_desc_15 desc_def svga3dsurface_get_image_buffer_size_def svga3dsurface_is_planar_surface_def
      svga3dsurface_calculate_pitch_def svga3dsurface_get_size_in_blocks_def DIV_ROUND_UP_def clamped_umul32_def)

section \<open>The layout of a serialized surface\<close>

abbreviation chain_to :: "svga3d_surface_desc \<Rightarrow> surf_size \<Rightarrow> nat \<Rightarrow> nat" where
  \<comment> \<open>the bytes of the mip levels below \<open>n\<close>, without overflow\<close>
  "chain_to ds base n \<equiv> (\<Sum>i<n. unat (mip_bytes ds base i))"

lemma fold_mips: "fold (\<lambda>i t. t + f i) [0..<n] 0 = (\<Sum>i<n. f i)" for f :: "nat \<Rightarrow> u32"
  by (induction n) simp_all

lemma fold_mips_to:
  fixes f :: "nat \<Rightarrow> u32"
  shows "fold (\<lambda>i (c, l). let b = f i in (c + b, if i < m then l + b else l)) [0..<n] (0, 0) =
    (\<Sum>i<n. f i, \<Sum>i<min n m. f i)"
  by (induction n) (auto simp: Let_def min_def not_less le_Suc_eq)

lemma unat_sum_word: "unat (of_nat (\<Sum>i<n. unat (f i)) :: u32) = unat (\<Sum>i<n. f i)" for f :: "nat \<Rightarrow> u32"
proof -
  have "of_nat (\<Sum>i<n. unat (f i)) = (\<Sum>i<n. f i)" by (simp add: of_nat_sum)
  then show ?thesis by simp
qed

lemma unat_sum_small:
  fixes f :: "nat \<Rightarrow> u32"
  assumes "(\<Sum>i<n. unat (f i)) < 2 ^ 32"
  shows "unat (\<Sum>i<n. f i) = (\<Sum>i<n. unat (f i))"
proof -
  have "unat (of_nat (\<Sum>i<n. unat (f i)) :: u32) = (\<Sum>i<n. unat (f i))"
    using assms by (simp only: unat_of_nat) (simp add: mod_less)
  then show ?thesis by (simp only: unat_sum_word)
qed

lemma chain_to_mono: "m \<le> n \<Longrightarrow> chain_to ds base m \<le> chain_to ds base n"
  by (intro sum_mono2) auto

lemma serialized_size_exact:
  assumes "chain_to (svga3dsurface_get_desc fmt) base (unat n) * unat layers < 2 ^ 32" "0 < unat layers"
  shows "unat (svga3dsurface_get_serialized_size fmt base n layers) =
    chain_to (svga3dsurface_get_desc fmt) base (unat n) * unat layers"
proof -
  let ?b = "mip_bytes (svga3dsurface_get_desc fmt) base"
  have le: "chain_to (svga3dsurface_get_desc fmt) base (unat n) \<le> chain_to (svga3dsurface_get_desc fmt) base (unat n) * unat layers"
    using assms(2) by simp
  have u: "unat (\<Sum>i<unat n. ?b i) = chain_to (svga3dsurface_get_desc fmt) base (unat n)"
    by (rule unat_sum_small) (rule le_less_trans[OF le assms(1)])
  show ?thesis
    using assms(1) unat_mult_lem[of "\<Sum>i<unat n. ?b i" layers]
    by (simp only: svga3dsurface_get_serialized_size_def Let_def fold_mips u) simp
qed

lemma image_offset_exact:
  assumes "chain_to (svga3dsurface_get_desc fmt) base (unat n) * unat layers < 2 ^ 32" "face < layers" "mip < n"
  shows "unat (svga3dsurface_get_image_offset fmt base n face mip) =
    chain_to (svga3dsurface_get_desc fmt) base (unat n) * unat face + chain_to (svga3dsurface_get_desc fmt) base (unat mip)"
    (is "_ = ?c * unat face + ?l")
proof -
  let ?b = "mip_bytes (svga3dsurface_get_desc fmt) base"
  have mn: "unat mip < unat n" and fl: "Suc (unat face) \<le> unat layers"
    using assms(2,3) by (simp_all add: word_less_nat_alt)
  have lc: "?l \<le> ?c" using mn by (intro chain_to_mono) simp
  have "?c * Suc (unat face) \<le> ?c * unat layers" using fl by (rule mult_le_mono2)
  then have lt: "?c * unat face + ?c < 2 ^ 32" using assms(1) by simp
  have u: "unat (\<Sum>i<unat n. ?b i) = ?c" "unat (\<Sum>i<unat mip. ?b i) = ?l"
    using lt lc by (auto intro!: unat_sum_small)
  have m: "unat ((\<Sum>i<unat n. ?b i) * face) = ?c * unat face"
    using lt unat_mult_lem[of "\<Sum>i<unat n. ?b i" face] by (simp add: u)
  have "min (unat n) (unat mip) = unat mip" using mn by simp
  then show ?thesis
    using lt lc unat_add_lem[of "(\<Sum>i<unat n. ?b i) * face" "\<Sum>i<unat mip. ?b i"]
    by (simp only: svga3dsurface_get_image_offset_def Let_def fold_mips_to[unfolded Let_def] prod.case m u) simp
qed

text \<open>
  C29: In a surface whose serialized size fits 32 bits the images are laid out side by side: each image, of
  a face and a mip level, starts at \<open>svga3dsurface_get_image_offset\<close>, ends inside the serialized
  size, and ends where or before every later image starts, so that no two images overlap.
\<close>

theorem images_are_disjoint:
  assumes "chain_to (svga3dsurface_get_desc fmt) base (unat n) * unat layers < 2 ^ 32"
    "face < layers" "mip < n" "face' < layers" "mip' < n" "face < face' \<or> face = face' \<and> mip < mip'"
  shows "unat (svga3dsurface_get_image_offset fmt base n face mip) + unat (mip_bytes (svga3dsurface_get_desc fmt) base (unat mip))
      \<le> unat (svga3dsurface_get_image_offset fmt base n face' mip') \<and>
    unat (svga3dsurface_get_image_offset fmt base n face' mip') + unat (mip_bytes (svga3dsurface_get_desc fmt) base (unat mip'))
      \<le> unat (svga3dsurface_get_serialized_size fmt base n layers)"
proof -
  let ?ds = "svga3dsurface_get_desc fmt"
  let ?c = "chain_to ?ds base (unat n)"
  have step: "chain_to ?ds base (unat m) + unat (mip_bytes ?ds base (unat m)) \<le> ?c" if "m < n" for m
    using chain_to_mono[of "Suc (unat m)" "unat n" ?ds base] that by (simp add: word_less_nat_alt)
  have face_step: "?c * unat f + ?c \<le> ?c * unat g" if "f < g" for f g :: u32
    using mult_le_mono2[of "Suc (unat f)" "unat g" ?c] that by (simp add: word_less_nat_alt)
  have L: "0 < unat layers" using assms(2) by (metis gr_implies_not0 neq0_conv unat_0 word_less_nat_alt)
  note off = image_offset_exact[OF assms(1,2,3)] image_offset_exact[OF assms(1,4,5)] serialized_size_exact[OF assms(1) L]
  have "chain_to ?ds base (unat mip) + unat (mip_bytes ?ds base (unat mip)) \<le> chain_to ?ds base (unat mip')" if "mip < mip'"
    using chain_to_mono[of "Suc (unat mip)" "unat mip'" ?ds base] that by (simp add: word_less_nat_alt)
  then show ?thesis
    using assms(6) step[OF assms(3)] step[OF assms(5)] face_step[of face face'] face_step[OF assms(4)] unfolding off by auto
qed

theorem images_are_disjoint_witness:
  "unat (svga3dsurface_get_image_offset 1 \<lparr>width = 2, height = 2, depth = 1\<rparr> 2 0 1) +
     unat (mip_bytes (svga3dsurface_get_desc 1) \<lparr>width = 2, height = 2, depth = 1\<rparr> (unat (1 :: u32)))
   \<le> unat (svga3dsurface_get_image_offset 1 \<lparr>width = 2, height = 2, depth = 1\<rparr> 2 1 0)"
proof (rule images_are_disjoint[where layers = 6, THEN conjunct1])
  have "mip_bytes (svga3dsurface_get_desc 1) \<lparr>width = 2, height = 2, depth = 1\<rparr> i =
      (if i = 0 then 16 else 4)" if "i < 2" for i
    using that by (auto simp: less_2_cases_iff get_desc_1 desc_def mip_bytes_def svga3dsurface_get_image_buffer_size_def
        svga3dsurface_is_planar_surface_def svga3dsurface_get_mip_size_def svga3dsurface_calculate_pitch_def
        svga3dsurface_get_size_in_blocks_def DIV_ROUND_UP_def clamped_umul32_def U32_MAX_def)
  moreover have "{..<2 :: nat} = {0, 1}" by auto
  ultimately show "chain_to (svga3dsurface_get_desc 1) \<lparr>width = 2, height = 2, depth = 1\<rparr> (unat (2 :: u32)) * unat (6 :: u32) < 2 ^ 32"
    by simp
qed simp_all

section \<open>Pixels inside an image\<close>

lemma div_less_nblocks: "a < n \<Longrightarrow> 0 < d \<Longrightarrow> a div d < nblocks n d" for a n d :: nat
proof -
  assume "a < n" "0 < d"
  then have "Suc (a div d) = (a + d) div d" by (simp add: div_add_self2)
  also have "\<dots> \<le> (n + d - 1) div d" using \<open>a < n\<close> by (intro div_le_mono) simp
  finally show ?thesis by (simp add: nblocks_def)
qed

lemma nested_offset:
  fixes x y z :: nat
  assumes "x < W" "y < H" "z < D"
  shows "z * (H * (W * B)) + y * (W * B) + x * B + B \<le> D * (H * (W * B))"
proof -
  have "x * B + B \<le> W * B" using mult_le_mono1[of "Suc x" W B] assms by simp
  moreover have "y * (W * B) + W * B \<le> H * (W * B)" using mult_le_mono1[of "Suc y" H "W * B"] assms by simp
  moreover have "z * (H * (W * B)) + H * (W * B) \<le> D * (H * (W * B))"
    using mult_le_mono1[of "Suc z" D "H * (W * B)"] assms by simp
  ultimately show ?thesis by linarith
qed

lemma small_factor: "(D :: nat) * k < m \<Longrightarrow> z < D \<Longrightarrow> k < m"
  by (metis gr_implies_not0 le_less_trans mult_le_mono1 nat_mult_1 not_less_eq_eq less_one not_le)

lemma unat_offset3:
  fixes a b c d e f :: u32
  assumes "unat a * unat b + unat c * unat d + unat e * unat f < 2 ^ 32"
  shows "unat (a * b + c * d + e * f) = unat a * unat b + unat c * unat d + unat e * unat f"
proof -
  have m: "unat (a * b) = unat a * unat b" "unat (c * d) = unat c * unat d" "unat (e * f) = unat e * unat f"
    using assms unat_mult_lem[of a b] unat_mult_lem[of c d] unat_mult_lem[of e f] by simp_all
  have "unat (a * b + c * d) = unat a * unat b + unat c * unat d"
    using assms unat_add_lem[of "a * b" "c * d"] by (simp add: m)
  then show ?thesis using assms unat_add_lem[of "a * b + c * d" "e * f"] by (simp add: m)
qed

text \<open>A pixel inside an image of a non-planar format lies in a block inside the image's buffer:
  \<open>svga3dsurface_get_pixel_offset\<close> plus the size of a block stays within
  \<open>svga3dsurface_get_image_buffer_size\<close>, for every image whose size fits 32 bits.
\<close>

lemma pixel_offset_in_image:
  assumes "\<not> svga3dsurface_is_planar_surface (svga3dsurface_get_desc fmt)" "dims_ok (svga3dsurface_get_desc fmt) sz"
    "image_bytes (svga3dsurface_get_desc fmt) sz < 2 ^ 32" "x < width sz" "y < height sz" "z < depth sz"
  shows "unat (svga3dsurface_get_pixel_offset fmt (width sz) (height sz) x y z) + unat (bytes_per_block (svga3dsurface_get_desc fmt))
    \<le> unat (svga3dsurface_get_image_buffer_size (svga3dsurface_get_desc fmt) sz 0)"
proof -
  let ?ds = "svga3dsurface_get_desc fmt"
  let ?B = "unat (bytes_per_block ?ds)" and ?bw = "unat (width (block_size ?ds))" and ?bh = "unat (height (block_size ?ds))"
  let ?W = "nblocks (unat (width sz)) ?bw" and ?H = "nblocks (unat (height sz)) ?bh" and ?D = "unat (depth sz)"
  note ok = get_desc_ok[of fmt] note d = desc_okD[OF ok]
  have xyz: "unat x div ?bw < ?W" "unat y div ?bh < ?H" "unat z < ?D"
    using assms(4-6) d(1,2) by (simp_all add: word_less_nat_alt div_less_nblocks)
  have fit: "?D * (?H * (?W * ?B)) < 2 ^ 32" using assms(3) by (simp add: image_bytes_def d(4) nblocks_def ac_simps)
  have bound: "unat z * (?H * (?W * ?B)) + unat y div ?bh * (?W * ?B) + unat x div ?bw * ?B + ?B \<le> ?D * (?H * (?W * ?B))"
    by (rule nested_offset) (use xyz in auto)
  have row: "unat (DIV_ROUND_UP (width sz) (width (block_size ?ds)) * bytes_per_block ?ds) = ?W * ?B"
    using unat_pitch[OF ok assms(2,1)] by (simp add: svga3dsurface_calculate_pitch_def svga3dsurface_get_size_in_blocks_def d(5)[OF assms(1)])
  have img: "unat (DIV_ROUND_UP (height sz) (height (block_size ?ds)) * (DIV_ROUND_UP (width sz) (width (block_size ?ds)) * bytes_per_block ?ds)) = ?H * (?W * ?B)"
    using small_factor[OF fit, of "unat z"] xyz(3) size_in_blocks(2)[OF ok assms(2)]
    by (subst unat_mult_lem[THEN iffD1]) (simp_all add: svga3dsurface_get_size_in_blocks_def row)
  have "unat (svga3dsurface_get_pixel_offset fmt (width sz) (height sz) x y z) =
      unat z * (?H * (?W * ?B)) + unat y div ?bh * (?W * ?B) + unat x div ?bw * ?B"
    unfolding svga3dsurface_get_pixel_offset_def Let_def d(4) div_by_1
    using bound fit by (subst unat_offset3) (simp_all add: row img unat_div)
  then show ?thesis
    using bound fit image_buffer_size_exact[OF ok assms(2)]
    by (simp add: image_bytes_def d(4) nblocks_def U32_MAX_def ac_simps)
qed

lemma pixel_offset_in_image_example:
  "unat (svga3dsurface_get_pixel_offset 1 640 480 639 479 0) + 4
    \<le> unat (svga3dsurface_get_image_buffer_size (svga3dsurface_get_desc 1) \<lparr>width = 640, height = 480, depth = 1\<rparr> 0)"
  using pixel_offset_in_image[of 1 "\<lparr>width = 640, height = 480, depth = 1\<rparr>" 639 479 0]
  by (simp add: get_desc_1 desc_def dims_ok_def image_bytes_def nblocks_def svga3dsurface_is_planar_surface_def)

end
