(* ===== verification/Mm.thy ===== *)
theory Mm
  imports Vmw_Prelude
begin

text \<open>
  The range allocator of \<open>src/drm_mm.c\<close> and \<open>src/drm_mm.h\<close>, and the TTM range manager on top of it
  (\<open>src/ttm/ttm_bo_manager.c\<close>). Nodes are numbered; node 0 is the allocator's own \<open>head_node\<close>, whose start and
  size are set so that the space before the first node is the hole that follows it. \<open>node_list\<close> is the list of
  the other nodes in the order of the ring, \<open>hole_stack\<close> the list of the nodes that a hole follows.
  Addresses are 64-bit words.
\<close>

section \<open>State\<close>

record drm_mm_node =
  hole_follows :: bool
  scanned_block :: bool
  scanned_prev_free :: bool
  scanned_next_free :: bool
  scanned_preceeds_hole :: bool
  allocated :: bool
  node_color :: u64
  node_start :: u64
  node_size :: u64
  saved_prev :: nat \<comment> \<open>\<open>node_list.prev\<close> while a scan keeps the node off the ring\<close>

record drm_mm =
  hole_stack :: "nat list"
  node_of :: "nat \<Rightarrow> drm_mm_node"
  node_list :: "nat list"
  scan_check_range :: bool
  scan_alignment :: u32
  scan_color :: u64
  scan_size :: u64
  scan_hit_start :: u64
  scan_hit_end :: u64
  scanned_blocks :: u32
  scan_start :: u64
  scan_end :: u64
  prev_scanned_node :: "nat option"
  color_adjust :: "(nat \<Rightarrow> u64 \<Rightarrow> u64 \<times> u64 \<Rightarrow> u64 \<times> u64) option"

abbreviation (input) HEAD :: nat where "HEAD \<equiv> 0"

abbreviation ring :: "drm_mm \<Rightarrow> nat list" where "ring mm \<equiv> HEAD # node_list mm"

definition upd_node :: "nat \<Rightarrow> (drm_mm_node \<Rightarrow> drm_mm_node) \<Rightarrow> drm_mm \<Rightarrow> drm_mm" where
  "upd_node n f mm = mm\<lparr>node_of := (node_of mm)(n := f (node_of mm n))\<rparr>"

definition next_node :: "drm_mm \<Rightarrow> nat \<Rightarrow> nat" where
  "next_node mm n = (case dropWhile (\<lambda>x. x \<noteq> n) (ring mm) of _ # m # _ \<Rightarrow> m | _ \<Rightarrow> HEAD)"

definition prev_node :: "drm_mm \<Rightarrow> nat \<Rightarrow> nat" where
  "prev_node mm n = (case takeWhile (\<lambda>x. x \<noteq> n) (ring mm) of [] \<Rightarrow> last (ring mm) | xs \<Rightarrow> last xs)"

fun add_after :: "nat \<Rightarrow> nat \<Rightarrow> nat list \<Rightarrow> nat list" where
  "add_after h n [] = []"
| "add_after h n (x # xs) = (if x = h then x # n # xs else x # add_after h n xs)"

definition node_list_add :: "nat \<Rightarrow> nat \<Rightarrow> drm_mm \<Rightarrow> drm_mm" where
  \<comment> \<open>\<open>list_add(&n->node_list, &h->node_list)\<close>\<close>
  "node_list_add n h mm = mm\<lparr>node_list := tl (add_after h n (ring mm))\<rparr>"

definition hole_stack_add :: "nat \<Rightarrow> drm_mm \<Rightarrow> drm_mm" where
  "hole_stack_add n mm = mm\<lparr>hole_stack := n # hole_stack mm\<rparr>"

definition hole_stack_del :: "nat \<Rightarrow> drm_mm \<Rightarrow> drm_mm" where
  "hole_stack_del n mm = mm\<lparr>hole_stack := remove1 n (hole_stack mm)\<rparr>"

section \<open>Operations\<close>

definition hole_node_start :: "drm_mm \<Rightarrow> nat \<Rightarrow> u64" where
  \<comment> \<open>\<open>__drm_mm_hole_node_start\<close>\<close>
  "hole_node_start mm n = node_start (node_of mm n) + node_size (node_of mm n)"

definition hole_node_end :: "drm_mm \<Rightarrow> nat \<Rightarrow> u64" where
  \<comment> \<open>\<open>__drm_mm_hole_node_end\<close>\<close>
  "hole_node_end mm n = node_start (node_of mm (next_node mm n))"

definition drm_mm_hole_node_start :: "drm_mm \<Rightarrow> nat \<Rightarrow> u64 kres" where
  "drm_mm_hole_node_start mm n = (if hole_follows (node_of mm n) then Inr (hole_node_start mm n) else Inl OOPS)"

definition adjust_color :: "drm_mm \<Rightarrow> nat \<Rightarrow> u64 \<Rightarrow> u64 \<times> u64 \<Rightarrow> u64 \<times> u64" where
  "adjust_color mm n color se = (case color_adjust mm of None \<Rightarrow> se | Some f \<Rightarrow> f n color se)"

definition align_rem :: "u64 \<Rightarrow> u32 \<Rightarrow> u64" where
  \<comment> \<open>\<open>rem = do_div(tmp, alignment)\<close>\<close>
  "align_rem s alignment = s mod ucast alignment"

definition align_start :: "bool \<Rightarrow> u32 \<Rightarrow> u64 \<Rightarrow> u64" where
  "align_start ctop alignment s =
     (if alignment = 0 \<or> align_rem s alignment = 0 then s
      else if ctop then s - align_rem s alignment
      else s + (ucast alignment - align_rem s alignment))"

definition check_free_hole :: "u64 \<Rightarrow> u64 \<Rightarrow> u64 \<Rightarrow> u32 \<Rightarrow> bool" where
  "check_free_hole s e sz alignment =
     (if e - s < sz then False else e \<ge> align_start False alignment s + sz)"

definition place_node :: "drm_mm \<Rightarrow> nat \<Rightarrow> nat \<Rightarrow> u64 \<Rightarrow> u64 \<Rightarrow> u64 \<Rightarrow> u64 \<Rightarrow> drm_mm" where
  \<comment> \<open>the common part of the two insertion helpers, from the test of \<open>adj_start == hole_start\<close>
      to \<open>list_add(&node->node_list, ...)\<close>\<close>
  "place_node mm h n adj_start hole_start sz color =
     (let mm = (if adj_start = hole_start
                then hole_stack_del h (upd_node h (\<lambda>x. x\<lparr>hole_follows := False\<rparr>) mm) else mm)
      in node_list_add n h (upd_node n (\<lambda>x. x\<lparr>node_start := adj_start, node_size := sz, node_color := color,
           allocated := True\<rparr>) mm))"

definition push_hole :: "drm_mm \<Rightarrow> nat \<Rightarrow> bool \<Rightarrow> drm_mm" where
  \<comment> \<open>the end of the helpers: \<open>node->hole_follows\<close> and the hole stack\<close>
  "push_hole mm n follows =
     (if follows then hole_stack_add n (upd_node n (\<lambda>x. x\<lparr>hole_follows := True\<rparr>) mm)
      else upd_node n (\<lambda>x. x\<lparr>hole_follows := False\<rparr>) mm)"

definition drm_mm_insert_helper :: "drm_mm \<Rightarrow> nat \<Rightarrow> nat \<Rightarrow> u64 \<Rightarrow> u32 \<Rightarrow> u64 \<Rightarrow> bool \<Rightarrow> drm_mm kres" where
  "drm_mm_insert_helper mm h n sz alignment color ctop =
     kbind (drm_mm_hole_node_start mm h) (\<lambda>hole_start.
       let hole_end = hole_node_end mm h in
       if allocated (node_of mm n) then Inl OOPS
       else
         let (adj_start, adj_end) = adjust_color mm h color (hole_start, hole_end);
             adj_start = (if ctop then adj_end - sz else adj_start);
             adj_start = align_start ctop alignment adj_start
         in if adj_start < hole_start \<or> adj_end > hole_end then Inl OOPS
            else
              let mm = place_node mm h n adj_start hole_start sz color
              in if hole_node_start mm n > adj_end then Inl OOPS
                 else Inr (push_hole mm n (hole_node_start mm n < hole_end)))"

definition drm_mm_insert_helper_range ::
    "drm_mm \<Rightarrow> nat \<Rightarrow> nat \<Rightarrow> u64 \<Rightarrow> u32 \<Rightarrow> u64 \<Rightarrow> u64 \<Rightarrow> u64 \<Rightarrow> bool \<Rightarrow> drm_mm kres" where
  "drm_mm_insert_helper_range mm h n sz alignment color rstart rend ctop =
     kbind (drm_mm_hole_node_start mm h) (\<lambda>hole_start.
       let hole_end = hole_node_end mm h in
       if \<not> hole_follows (node_of mm h) \<or> allocated (node_of mm n) then Inl OOPS
       else
         let (adj_start, adj_end) = adjust_color mm h color (max hole_start rstart, min hole_end rend);
             adj_start = (if ctop then adj_end - sz else adj_start);
             adj_start = align_start ctop alignment adj_start;
             mm = place_node mm h n adj_start hole_start sz color
         in if adj_start < rstart \<or> hole_node_start mm n > adj_end \<or> hole_node_start mm n > rend then Inl OOPS
            else Inr (push_hole mm n (hole_node_start mm n < hole_end)))"

fun hole_search ::
    "drm_mm \<Rightarrow> (u64 \<times> u64) option \<Rightarrow> u64 \<Rightarrow> u32 \<Rightarrow> u64 \<Rightarrow> bool \<Rightarrow> nat list \<Rightarrow> nat option \<Rightarrow> u64 \<Rightarrow> nat option kres" where
  \<comment> \<open>the loop of the two search functions over the holes, with the range of the second one\<close>
  "hole_search mm rng sz alignment color search_best [] best best_size = Inr best"
| "hole_search mm rng sz alignment color search_best (entry # rest) best best_size =
     kbind (drm_mm_hole_node_start mm entry) (\<lambda>hole_start.
       let hole_end = hole_node_end mm entry;
           hole_size = hole_end - hole_start;
           (s, e) = (case rng of None \<Rightarrow> (hole_start, hole_end)
                     | Some (rstart, rend) \<Rightarrow> (max hole_start rstart, min hole_end rend));
           (adj_start, adj_end) = adjust_color mm entry color (s, e)
       in if color_adjust mm \<noteq> None \<and> adj_end \<le> adj_start
          then hole_search mm rng sz alignment color search_best rest best best_size
          else if \<not> check_free_hole adj_start adj_end sz alignment
          then hole_search mm rng sz alignment color search_best rest best best_size
          else if \<not> search_best then Inr (Some entry)
          else if hole_size < best_size
          then hole_search mm rng sz alignment color search_best rest (Some entry) hole_size
          else hole_search mm rng sz alignment color search_best rest best best_size)"

definition drm_mm_search_free_generic :: "drm_mm \<Rightarrow> u64 \<Rightarrow> u32 \<Rightarrow> u64 \<Rightarrow> bool \<Rightarrow> bool \<Rightarrow> nat option kres" where
  \<comment> \<open>the flags \<open>DRM_MM_SEARCH_BEST\<close> and \<open>DRM_MM_SEARCH_BELOW\<close>\<close>
  "drm_mm_search_free_generic mm sz alignment color search_best below =
     (if scanned_blocks mm \<noteq> 0 then Inl OOPS
      else hole_search mm None sz alignment color search_best
             (if below then rev (hole_stack mm) else hole_stack mm) None (- 1))"

definition drm_mm_search_free_in_range_generic ::
    "drm_mm \<Rightarrow> u64 \<Rightarrow> u32 \<Rightarrow> u64 \<Rightarrow> u64 \<Rightarrow> u64 \<Rightarrow> bool \<Rightarrow> bool \<Rightarrow> nat option kres" where
  "drm_mm_search_free_in_range_generic mm sz alignment color rstart rend search_best below =
     (if scanned_blocks mm \<noteq> 0 then Inl OOPS
      else hole_search mm (Some (rstart, rend)) sz alignment color search_best
             (if below then rev (hole_stack mm) else hole_stack mm) None (- 1))"

definition drm_mm_insert_node_generic ::
    "drm_mm \<Rightarrow> nat \<Rightarrow> u64 \<Rightarrow> u32 \<Rightarrow> u64 \<Rightarrow> bool \<times> bool \<Rightarrow> bool \<Rightarrow> drm_mm kres" where
  "drm_mm_insert_node_generic mm n sz alignment color sflags ctop =
     kbind (drm_mm_search_free_generic mm sz alignment color (fst sflags) (snd sflags)) (\<lambda>hole_node.
       case hole_node of None \<Rightarrow> Inl ENOSPC
       | Some h \<Rightarrow> drm_mm_insert_helper mm h n sz alignment color ctop)"

definition drm_mm_insert_node_in_range_generic ::
    "drm_mm \<Rightarrow> nat \<Rightarrow> u64 \<Rightarrow> u32 \<Rightarrow> u64 \<Rightarrow> u64 \<Rightarrow> u64 \<Rightarrow> bool \<times> bool \<Rightarrow> bool \<Rightarrow> drm_mm kres" where
  "drm_mm_insert_node_in_range_generic mm n sz alignment color rstart rend sflags ctop =
     kbind (drm_mm_search_free_in_range_generic mm sz alignment color rstart rend (fst sflags) (snd sflags)) (\<lambda>hole_node.
       case hole_node of None \<Rightarrow> Inl ENOSPC
       | Some h \<Rightarrow> drm_mm_insert_helper_range mm h n sz alignment color rstart rend ctop)"

definition drm_mm_insert_node :: "drm_mm \<Rightarrow> nat \<Rightarrow> u64 \<Rightarrow> u32 \<Rightarrow> bool \<times> bool \<Rightarrow> drm_mm kres" where
  "drm_mm_insert_node mm n sz alignment flags = drm_mm_insert_node_generic mm n sz alignment 0 flags False"

definition drm_mm_insert_node_in_range :: "drm_mm \<Rightarrow> nat \<Rightarrow> u64 \<Rightarrow> u32 \<Rightarrow> u64 \<Rightarrow> u64 \<Rightarrow> bool \<times> bool \<Rightarrow> drm_mm kres" where
  "drm_mm_insert_node_in_range mm n sz alignment rstart rend flags =
     drm_mm_insert_node_in_range_generic mm n sz alignment 0 rstart rend flags False"

fun reserve_loop :: "drm_mm \<Rightarrow> nat \<Rightarrow> nat list \<Rightarrow> drm_mm kres" where
  "reserve_loop mm n [] = Inl ENOSPC"
| "reserve_loop mm n (hole # rest) =
     kbind (drm_mm_hole_node_start mm hole) (\<lambda>hole_start.
       let hole_end = hole_node_end mm hole;
           s = node_start (node_of mm n); e = hole_node_start mm n
       in if hole_start > s \<or> hole_end < e then reserve_loop mm n rest
          else
            let mm = node_list_add n hole (upd_node n (\<lambda>x. x\<lparr>allocated := True\<rparr>) mm);
                mm = (if s = hole_start
                      then hole_stack_del hole (upd_node hole (\<lambda>x. x\<lparr>hole_follows := False\<rparr>) mm) else mm)
            in Inr (push_hole mm n (e \<noteq> hole_end)))"

definition drm_mm_reserve_node :: "drm_mm \<Rightarrow> nat \<Rightarrow> drm_mm kres" where
  "drm_mm_reserve_node mm n = reserve_loop mm n (hole_stack mm)"

definition drm_mm_remove_node :: "drm_mm \<Rightarrow> nat \<Rightarrow> drm_mm kres" where
  "drm_mm_remove_node mm n =
     (let x = node_of mm n in
      if \<not> allocated x then Inr mm
      else if scanned_block x \<or> scanned_prev_free x \<or> scanned_next_free x then Inl OOPS
      else
        let p = prev_node mm n in
        if hole_follows x \<noteq> (hole_node_start mm n \<noteq> hole_node_end mm n) then Inl OOPS
        else
          let mm = (if hole_follows x then hole_stack_del n mm else mm);
              mm = (if \<not> hole_follows (node_of mm p)
                    then hole_stack_add p (upd_node p (\<lambda>y. y\<lparr>hole_follows := True\<rparr>) mm)
                    else hole_stack_add p (hole_stack_del p mm))
          in Inr (upd_node n (\<lambda>y. y\<lparr>allocated := False\<rparr>) (mm\<lparr>node_list := remove1 n (node_list mm)\<rparr>)))"

definition drm_mm_replace_node :: "drm_mm \<Rightarrow> nat \<Rightarrow> nat \<Rightarrow> drm_mm" where
  "drm_mm_replace_node mm old new =
     (let onode = node_of mm old;
          mm = mm\<lparr>node_list := map (\<lambda>x. if x = old then new else x) (node_list mm),
                  hole_stack := map (\<lambda>x. if x = old then new else x) (hole_stack mm)\<rparr>;
          mm = upd_node new (\<lambda>x. x\<lparr>hole_follows := hole_follows onode, node_start := node_start onode,
                 node_size := node_size onode, node_color := node_color onode\<rparr>) mm;
          mm = upd_node old (\<lambda>x. x\<lparr>allocated := False\<rparr>) mm
      in upd_node new (\<lambda>x. x\<lparr>allocated := True\<rparr>) mm)"

definition drm_mm_clean :: "drm_mm \<Rightarrow> bool" where
  "drm_mm_clean mm \<longleftrightarrow> next_node mm (next_node mm HEAD) = HEAD"

definition clear_node :: drm_mm_node where
  "clear_node = \<lparr>hole_follows = False, scanned_block = False, scanned_prev_free = False, scanned_next_free = False,
     scanned_preceeds_hole = False, allocated = False, node_color = 0, node_start = 0, node_size = 0, saved_prev = 0\<rparr>"

definition drm_mm_init :: "u64 \<Rightarrow> u64 \<Rightarrow> drm_mm" where
  \<comment> \<open>of a \<open>struct drm_mm\<close> that is zero, and with the caller's nodes cleared\<close>
  "drm_mm_init s sz =
     \<lparr>hole_stack = [HEAD], node_of = (\<lambda>_. clear_node)(HEAD := clear_node\<lparr>hole_follows := True,
        node_start := s + sz, node_size := s - (s + sz)\<rparr>), node_list = [],
      scan_check_range = False, scan_alignment = 0, scan_color = 0, scan_size = 0, scan_hit_start = 0,
      scan_hit_end = 0, scanned_blocks = 0, scan_start = 0, scan_end = 0, prev_scanned_node = None, color_adjust = None\<rparr>"

definition drm_mm_takedown :: "drm_mm \<Rightarrow> bool" where
  \<comment> \<open>whether it warns\<close>
  "drm_mm_takedown mm \<longleftrightarrow> node_list mm \<noteq> []"

subsection \<open>The scan\<close>

definition drm_mm_init_scan :: "drm_mm \<Rightarrow> u64 \<Rightarrow> u32 \<Rightarrow> u64 \<Rightarrow> drm_mm" where
  "drm_mm_init_scan mm sz alignment color =
     mm\<lparr>scan_color := color, scan_alignment := alignment, scan_size := sz, scanned_blocks := 0, scan_hit_start := 0,
        scan_hit_end := 0, scan_check_range := False, prev_scanned_node := None\<rparr>"

definition drm_mm_init_scan_with_range :: "drm_mm \<Rightarrow> u64 \<Rightarrow> u32 \<Rightarrow> u64 \<Rightarrow> u64 \<Rightarrow> u64 \<Rightarrow> drm_mm" where
  "drm_mm_init_scan_with_range mm sz alignment color rstart rend =
     mm\<lparr>scan_color := color, scan_alignment := alignment, scan_size := sz, scanned_blocks := 0, scan_hit_start := 0,
        scan_hit_end := 0, scan_start := rstart, scan_end := rend, scan_check_range := True, prev_scanned_node := None\<rparr>"

definition drm_mm_scan_add_block :: "drm_mm \<Rightarrow> nat \<Rightarrow> (drm_mm \<times> bool) kres" where
  \<comment> \<open>\<open>node_list.next\<close> of the scanned node, which links it to the one scanned before, is not read\<close>
  "drm_mm_scan_add_block mm n =
     (if scanned_block (node_of mm n) then Inl OOPS
      else
        let p = prev_node mm n;
            mm = mm\<lparr>scanned_blocks := scanned_blocks mm + 1\<rparr>;
            mm = upd_node n (\<lambda>x. x\<lparr>scanned_block := True, scanned_preceeds_hole := hole_follows (node_of mm p), saved_prev := p\<rparr>) mm;
            mm = upd_node p (\<lambda>x. x\<lparr>hole_follows := True\<rparr>) mm;
            mm = mm\<lparr>node_list := remove1 n (node_list mm), prev_scanned_node := Some n\<rparr>;
            hole_start = hole_node_start mm p; hole_end = hole_node_end mm p;
            (s, e) = (if scan_check_range mm then (max hole_start (scan_start mm), min hole_end (scan_end mm)) else (hole_start, hole_end));
            (adj_start, adj_end) = adjust_color mm p (scan_color mm) (s, e)
        in if check_free_hole adj_start adj_end (scan_size mm) (scan_alignment mm)
           then Inr (mm\<lparr>scan_hit_start := hole_start, scan_hit_end := hole_end\<rparr>, True)
           else Inr (mm, False))"

definition drm_mm_scan_remove_block :: "drm_mm \<Rightarrow> nat \<Rightarrow> (drm_mm \<times> bool) kres" where
  "drm_mm_scan_remove_block mm n =
     (if \<not> scanned_block (node_of mm n) then Inl OOPS
      else
        let p = saved_prev (node_of mm n);
            mm = mm\<lparr>scanned_blocks := scanned_blocks mm - 1\<rparr>;
            mm = upd_node n (\<lambda>x. x\<lparr>scanned_block := False\<rparr>) mm;
            mm = upd_node p (\<lambda>x. x\<lparr>hole_follows := scanned_preceeds_hole (node_of mm n)\<rparr>) mm;
            mm = node_list_add n p mm
        in Inr (mm, hole_node_end mm n > scan_hit_start mm \<and> node_start (node_of mm n) < scan_hit_end mm))"

section \<open>The invariant\<close>

primrec next_start :: "drm_mm \<Rightarrow> nat list \<Rightarrow> u64 \<Rightarrow> u64" where
  "next_start mm [] e = e"
| "next_start mm (b # bs) e = node_start (node_of mm b)"

definition gap :: "drm_mm \<Rightarrow> nat \<Rightarrow> u64 \<Rightarrow> bool" where
  \<comment> \<open>what lies between a node and the next one is free, and marked as a hole exactly when it is not empty\<close>
  "gap mm a e \<longleftrightarrow> hole_node_start mm a \<le> e \<and> (hole_follows (node_of mm a) \<longleftrightarrow> hole_node_start mm a \<noteq> e)"

primrec chain :: "drm_mm \<Rightarrow> nat list \<Rightarrow> u64 \<Rightarrow> bool" where
  "chain mm [] e = True"
| "chain mm (a # as) e = (gap mm a (next_start mm as e) \<and> chain mm as e)"

definition unscanned :: "drm_mm_node \<Rightarrow> bool" where
  "unscanned x \<longleftrightarrow> \<not> scanned_block x \<and> \<not> scanned_prev_free x \<and> \<not> scanned_next_free x"

definition node_ok :: "drm_mm \<Rightarrow> nat \<Rightarrow> bool" where
  \<comment> \<open>a node is not empty and does not wrap around\<close>
  "node_ok mm n \<longleftrightarrow> node_start (node_of mm n) < hole_node_start mm n"

definition mm_ok :: "u64 \<Rightarrow> u64 \<Rightarrow> drm_mm \<Rightarrow> bool" where
  "mm_ok lo hi mm \<longleftrightarrow>
     distinct (ring mm) \<and> chain mm (ring mm) hi \<and>
     node_start (node_of mm HEAD) = hi \<and> hole_node_start mm HEAD = lo \<and>
     (\<forall>n \<in> set (node_list mm). node_ok mm n) \<and> (\<forall>n. allocated (node_of mm n) \<longleftrightarrow> n \<in> set (node_list mm)) \<and>
     distinct (hole_stack mm) \<and> set (hole_stack mm) = {n \<in> set (ring mm). hole_follows (node_of mm n)} \<and>
     color_adjust mm = None \<and> scanned_blocks mm = 0 \<and> (\<forall>n. unscanned (node_of mm n))"

definition span :: "drm_mm \<Rightarrow> nat \<Rightarrow> nat set" where
  \<comment> \<open>the addresses of a node\<close>
  "span mm n = {unat (node_start (node_of mm n))..<unat (node_start (node_of mm n)) + unat (node_size (node_of mm n))}"

lemma next_start_append: "next_start mm (xs @ ys) e = next_start mm xs (next_start mm ys e)"
  by (cases xs) auto

lemma chain_append: "chain mm (xs @ ys) e \<longleftrightarrow> chain mm xs (next_start mm ys e) \<and> chain mm ys e"
  by (induction xs) (auto simp: next_start_append)

lemma chain_cong:
  assumes "\<And>n. n \<in> set xs \<Longrightarrow> node_of mm' n = node_of mm n"
  shows "chain mm' xs e = chain mm xs e" "next_start mm' xs e = next_start mm xs e"
proof -
  show ns: "next_start mm' xs e = next_start mm xs e" using assms by (cases xs) auto
  show "chain mm' xs e = chain mm xs e"
    using assms
  proof (induction xs)
    case (Cons a as)
    moreover have "next_start mm' as e = next_start mm as e" using Cons.prems by (cases as) auto
    ultimately show ?case by (simp add: gap_def hole_node_start_def)
  qed simp
qed

lemma ring_split:
  assumes "n \<in> set (ring mm)" "distinct (ring mm)"
  shows "\<exists>xs ys. ring mm = xs @ n # ys \<and> n \<notin> set xs \<and> n \<notin> set ys"
proof -
  obtain xs ys where r: "ring mm = xs @ n # ys" using split_list[OF assms(1)] by blast
  then have "n \<notin> set xs \<and> n \<notin> set ys" using assms(2) unfolding r by simp
  then show ?thesis using r by blast
qed

lemma takeWhile_split: "n \<notin> set xs \<Longrightarrow> takeWhile (\<lambda>x. x \<noteq> n) (xs @ n # ys) = xs"
  by (induction xs) auto

lemma dropWhile_split: "n \<notin> set xs \<Longrightarrow> dropWhile (\<lambda>x. x \<noteq> n) (xs @ n # ys) = n # ys"
  by (induction xs) auto

lemma add_after_split: "h \<notin> set xs \<Longrightarrow> add_after h n (xs @ h # ys) = xs @ h # n # ys"
  by (induction xs) auto

lemma hole_node_end_split:
  assumes "ring mm = xs @ n # ys" "n \<notin> set xs" "node_start (node_of mm HEAD) = hi"
  shows "hole_node_end mm n = next_start mm ys hi"
  using assms(3) unfolding hole_node_end_def next_node_def assms(1) dropWhile_split[OF assms(2)]
  by (cases ys) auto

lemma prev_node_split:
  assumes "ring mm = xs @ n # ys" "n \<notin> set xs" "xs \<noteq> []"
  shows "prev_node mm n = last xs"
  using assms(3) unfolding prev_node_def assms(1) takeWhile_split[OF assms(2)]
  by (cases xs) auto

lemma unat_node_end: "node_start (node_of mm n) \<le> hole_node_start mm n \<Longrightarrow>
    unat (hole_node_start mm n) = unat (node_start (node_of mm n)) + unat (node_size (node_of mm n))"
  unfolding hole_node_start_def using unat_plus_simple word_le_nat_alt by blast

lemma chain_mono:
  assumes "chain mm (a # as) e" "\<forall>n \<in> set as. node_ok mm n"
  shows "hole_node_start mm a \<le> e" "n \<in> set as \<Longrightarrow> hole_node_start mm a \<le> node_start (node_of mm n) \<and> hole_node_start mm n \<le> e"
  using assms
proof (induction as arbitrary: a)
  case Nil
  { case 1 then show ?case by (simp add: gap_def) next case 2 then show ?case by simp }
next
  case (Cons b bs)
  have ab: "hole_node_start mm a \<le> node_start (node_of mm b)" if "chain mm (a # b # bs) e" for a using that by (simp add: gap_def)
  have bb: "node_start (node_of mm b) < hole_node_start mm b" if "\<forall>n \<in> set (b # bs). node_ok mm n"
    using that by (simp add: node_ok_def)
  { case 1
    then have "hole_node_start mm b \<le> e" using Cons.IH(1)[of b] by simp
    then show ?case using ab[OF 1(1)] bb[OF 1(2)] by (meson less_imp_le order.trans)
  next
    case 2
    show ?case
    proof (cases "n = b")
      case True
      then show ?thesis using ab[OF 2(2)] 2 Cons.IH(1)[of b] by simp
    next
      case False
      then have "hole_node_start mm b \<le> node_start (node_of mm n) \<and> hole_node_start mm n \<le> e"
        using 2 Cons.IH(2)[of b] by simp
      then show ?thesis using ab[OF 2(2)] bb[OF 2(3)] by (meson less_imp_le order.trans)
    qed }
qed

section \<open>Insertion and removal keep it\<close>

definition inserted :: "drm_mm \<Rightarrow> nat \<Rightarrow> nat \<Rightarrow> drm_mm_node \<Rightarrow> drm_mm" where
  \<comment> \<open>node \<open>n\<close>, with contents \<open>x\<close>, in the hole that follows \<open>h\<close>\<close>
  "inserted mm h n x =
     mm\<lparr>node_of := (node_of mm)(h := (node_of mm h)\<lparr>hole_follows := node_start x \<noteq> hole_node_start mm h\<rparr>, n := x),
        node_list := tl (add_after h n (ring mm)),
        hole_stack := (if hole_follows x then [n] else []) @
          (if node_start x = hole_node_start mm h then remove1 h (hole_stack mm) else hole_stack mm)\<rparr>"

lemma mm_okD:
  assumes "mm_ok lo hi mm"
  shows "distinct (ring mm)" "chain mm (ring mm) hi" "node_start (node_of mm HEAD) = hi" "hole_node_start mm HEAD = lo"
    "\<forall>n \<in> set (node_list mm). node_ok mm n" "allocated (node_of mm n) \<longleftrightarrow> n \<in> set (node_list mm)"
    "distinct (hole_stack mm)" "set (hole_stack mm) = {n \<in> set (ring mm). hole_follows (node_of mm n)}"
    "color_adjust mm = None" "scanned_blocks mm = 0" "unscanned (node_of mm n)"
  using assms by (auto simp: mm_ok_def)

lemma mm_okI:
  assumes "chain mm (ring mm) hi" "set (hole_stack mm) = {n \<in> set (ring mm). hole_follows (node_of mm n)}"
    "distinct (hole_stack mm)" "distinct (ring mm)" "\<And>n. n \<in> set (node_list mm) \<Longrightarrow> node_ok mm n"
    "\<And>n. allocated (node_of mm n) \<longleftrightarrow> n \<in> set (node_list mm)" "node_start (node_of mm HEAD) = hi"
    "hole_node_start mm HEAD = lo" "color_adjust mm = None" "scanned_blocks mm = 0" "\<And>n. unscanned (node_of mm n)"
  shows "mm_ok lo hi mm"
  using assms unfolding mm_ok_def by blast

lemma inserted_ok:
  assumes ok: "mm_ok lo hi mm" and h: "h \<in> set (ring mm)" "hole_follows (node_of mm h)" and n: "n \<noteq> HEAD" "\<not> allocated (node_of mm n)"
    and x: "hole_node_start mm h \<le> node_start x" "node_start x < node_start x + node_size x"
      "node_start x + node_size x \<le> hole_node_end mm h" "allocated x"
      "unscanned x" "hole_follows x \<longleftrightarrow> node_start x + node_size x \<noteq> hole_node_end mm h"
  shows "mm_ok lo hi (inserted mm h n x)"
proof -
  note d = mm_okD[OF ok]
  obtain xs ys where r: "ring mm = xs @ h # ys" "h \<notin> set xs" "h \<notin> set ys" using ring_split[OF h(1) d(1)] by blast
  have nn: "n \<notin> set (ring mm)" using n d(6) by simp
  then have nh: "n \<noteq> h" "n \<notin> set xs" "n \<notin> set ys" unfolding r(1) by auto
  let ?mm = "inserted mm h n x"
  have ring': "ring ?mm = xs @ h # n # ys"
  proof -
    have "add_after h n (ring mm) = xs @ h # n # ys" unfolding r(1) by (rule add_after_split[OF r(2)])
    moreover have "hd (xs @ h # n # ys) = HEAD" using r(1) by (cases xs) auto
    ultimately show ?thesis by (cases xs) (auto simp: inserted_def)
  qed
  have nl: "set (node_list ?mm) = insert n (set (node_list mm))"
  proof -
    have "insert HEAD (set (node_list ?mm)) = insert n (insert HEAD (set (node_list mm)))"
      using arg_cong[OF ring', of set] arg_cong[OF r(1), of set] by auto
    moreover have "distinct (ring ?mm)" unfolding ring' using d(1) nh unfolding r(1) by auto
    then have "HEAD \<notin> set (node_list ?mm)" by simp
    moreover have "HEAD \<notin> insert n (set (node_list mm))" using d(1) n(1) by simp
    ultimately show ?thesis by (metis insert_commute insert_ident)
  qed
  have nd: "node_of ?mm m = (if m = n then x else if m = h then (node_of mm h)\<lparr>hole_follows := node_start x \<noteq> hole_node_start mm h\<rparr> else node_of mm m)" for m
    by (simp add: inserted_def)
  have he: "hole_node_end mm h = next_start mm ys hi" by (rule hole_node_end_split[OF r(1,2) d(3)])
  have cx: "chain ?mm xs e = chain mm xs e" "next_start ?mm xs e = next_start mm xs e" for e
    by (rule chain_cong; use r nh in \<open>auto simp: nd\<close>)+
  have cy: "chain ?mm ys e = chain mm ys e" "next_start ?mm ys e = next_start mm ys e" for e
    by (rule chain_cong; use r nh in \<open>auto simp: nd\<close>)+
  have st: "hole_node_start ?mm m = (if m = n then node_start x + node_size x else hole_node_start mm m)" for m
    by (simp add: hole_node_start_def nd)
  have "chain ?mm (ring ?mm) hi"
    using d(2) x nh unfolding ring' r(1) he
    by (auto simp: chain_append cx cy gap_def st nd)
  moreover have "set (hole_stack ?mm) = {m \<in> set (ring ?mm). hole_follows (node_of ?mm m)}"
  proof -
    have hs: "set (remove1 h (hole_stack mm)) = set (hole_stack mm) - {h}" using d(7) by simp
    show ?thesis unfolding ring' using d(8) h nh unfolding r(1)
      by (auto simp: inserted_def hs)
  qed
  moreover have "distinct (hole_stack ?mm)" using d(7,8) nn by (auto simp: inserted_def distinct_remove1 dest: notin_set_remove1)
  moreover have "distinct (ring ?mm)" unfolding ring' using d(1) nh unfolding r(1) by auto
  moreover have "node_ok ?mm m" if "m \<in> set (node_list ?mm)" for m
    using that d(5) x(2) unfolding nl by (cases "m = n") (auto simp: node_ok_def nd st)
  moreover have "allocated (node_of ?mm m) \<longleftrightarrow> m \<in> set (node_list ?mm)" for m
    using d(6)[of m] d(6)[of h] x(4) unfolding nl by (simp add: nd)
  moreover have "node_start (node_of ?mm HEAD) = hi" "hole_node_start ?mm HEAD = lo"
    using d(3,4) n(1) by (auto simp: nd st)
  moreover have "color_adjust ?mm = None" "scanned_blocks ?mm = 0" using d(9,10) by (simp_all add: inserted_def)
  moreover have "unscanned (node_of ?mm m)" for m
    using d(11)[of m] d(11)[of h] x(5) by (simp add: nd unscanned_def)
  ultimately show ?thesis by (intro mm_okI)
qed

definition removed :: "drm_mm \<Rightarrow> nat \<Rightarrow> nat \<Rightarrow> drm_mm" where
  \<comment> \<open>node \<open>n\<close> gone, its space joined to the hole that follows \<open>p\<close>\<close>
  "removed mm p n =
     mm\<lparr>node_of := (node_of mm)(p := (node_of mm p)\<lparr>hole_follows := True\<rparr>, n := (node_of mm n)\<lparr>allocated := False\<rparr>),
        node_list := remove1 n (node_list mm), hole_stack := p # remove1 p (remove1 n (hole_stack mm))\<rparr>"

lemma removed_ok:
  assumes ok: "mm_ok lo hi mm" and n: "n \<in> set (node_list mm)"
  shows "mm_ok lo hi (removed mm (prev_node mm n) n)"
proof -
  note d = mm_okD[OF ok]
  obtain xs ys where r: "ring mm = xs @ n # ys" "n \<notin> set xs" "n \<notin> set ys" using ring_split[of n mm] n d(1) by auto
  have n0: "n \<noteq> HEAD" using n d(1) by (metis distinct.simps(2))
  then have "xs \<noteq> []" using r(1) by (cases xs) auto
  then obtain xs' p where xs: "xs = xs' @ [p]" by (metis rev_exhaust)
  have p: "prev_node mm n = p" using prev_node_split[OF r(1,2)] xs by simp
  have dist: "p \<noteq> n" "p \<notin> set xs'" "p \<notin> set ys" "distinct (xs @ ys)" using d(1) unfolding r(1) xs by auto
  let ?mm = "removed mm p n"
  have ring': "ring ?mm = xs @ ys"
  proof -
    have "ring ?mm = remove1 n (ring mm)" using n0 by (simp add: removed_def)
    then show ?thesis unfolding r(1) using r(2) by (simp add: remove1_append)
  qed
  have nl: "set (node_list ?mm) = set (node_list mm) - {n}" using d(1) by (simp add: removed_def)
  have nd: "node_of ?mm m = (if m = n then (node_of mm n)\<lparr>allocated := False\<rparr> else if m = p then (node_of mm p)\<lparr>hole_follows := True\<rparr> else node_of mm m)" for m
    by (simp add: removed_def)
  have st: "hole_node_start ?mm m = hole_node_start mm m" for m by (simp add: hole_node_start_def nd)
  have cx: "chain ?mm xs' e = chain mm xs' e" "next_start ?mm xs' e = next_start mm xs' e" for e
    by (rule chain_cong; use r xs dist in \<open>auto simp: nd\<close>)+
  have cy: "chain ?mm ys e = chain mm ys e" "next_start ?mm ys e = next_start mm ys e" for e
    by (rule chain_cong; use r dist in \<open>auto simp: nd\<close>)+
  have g: "gap mm p (node_start (node_of mm n))" "gap mm n (next_start mm ys hi)"
    using d(2) unfolding r(1) xs by (simp_all add: chain_append)
  moreover have "node_start (node_of mm n) < hole_node_start mm n" using d(5) n by (simp add: node_ok_def)
  ultimately have "hole_node_start mm p < next_start mm ys hi"
    unfolding gap_def by (meson le_less_trans less_le_trans)
  then have "gap ?mm p (next_start mm ys hi)" using dist(1) by (auto simp: gap_def st nd)
  then have "chain ?mm (ring ?mm) hi"
    using d(2) dist unfolding ring' r(1) xs by (simp add: chain_append cx cy nd)
  moreover have "set (hole_stack ?mm) = {m \<in> set (ring ?mm). hole_follows (node_of ?mm m)}"
  proof -
    have "set (hole_stack ?mm) = insert p (set (hole_stack mm) - {n})"
      using d(7) by (auto simp: removed_def)
    also have "\<dots> = insert p ({m \<in> set (xs @ n # ys). hole_follows (node_of mm m)} - {n})"
      using d(8) unfolding r(1) by simp
    also have "\<dots> = {m \<in> set (ring ?mm). hole_follows (node_of ?mm m)}"
      using dist r(2,3) unfolding ring' xs by (auto simp: nd)
    finally show ?thesis .
  qed
  moreover have "distinct (hole_stack ?mm)" using d(7) by (auto simp: removed_def distinct_remove1)
  moreover have "distinct (ring ?mm)" unfolding ring' by (rule dist(4))
  moreover have "node_ok ?mm m" if "m \<in> set (node_list ?mm)" for m
    using that d(5) unfolding nl by (auto simp: node_ok_def nd st)
  moreover have "allocated (node_of ?mm m) \<longleftrightarrow> m \<in> set (node_list ?mm)" for m
    using d(6)[of m] d(6)[of p] dist(1) unfolding nl by (simp add: nd)
  moreover have "node_start (node_of ?mm HEAD) = hi" "hole_node_start ?mm HEAD = lo"
    using d(3,4) n0 by (auto simp: nd st)
  moreover have "color_adjust ?mm = None" "scanned_blocks ?mm = 0" using d(9,10) by (simp_all add: removed_def)
  moreover have "unscanned (node_of ?mm m)" for m
    using d(11)[of m] d(11)[of n] d(11)[of p] by (simp add: nd unscanned_def)
  ultimately show ?thesis unfolding p by (intro mm_okI)
qed

lemma remove_node_eq:
  assumes ok: "mm_ok lo hi mm" and n: "n \<in> set (node_list mm)"
  shows "drm_mm_remove_node mm n = Inr (removed mm (prev_node mm n) n)"
proof -
  note d = mm_okD[OF ok]
  obtain xs ys where r: "ring mm = xs @ n # ys" "n \<notin> set xs" "n \<notin> set ys" using ring_split[of n mm] n d(1) by auto
  have n0: "n \<noteq> HEAD" using n d(1) by (metis distinct.simps(2))
  then have "xs \<noteq> []" using r(1) by (cases xs) auto
  then have p: "prev_node mm n \<noteq> n" "prev_node mm n \<in> set (ring mm)"
    using prev_node_split[OF r(1,2)] r(1,2) last_in_set[of xs] by auto
  have g: "gap mm n (hole_node_end mm n)"
    using d(2) unfolding hole_node_end_split[OF r(1,2) d(3)] r(1) by (simp add: chain_append)
  let ?p = "prev_node mm n" and ?mm1 = "mm\<lparr>hole_stack := remove1 n (hole_stack mm)\<rparr>"
  have "remove1 n (hole_stack mm) = hole_stack mm" if "\<not> hole_follows (node_of mm n)"
    using that d(8) by (intro remove1_idem) simp
  then have 1: "(if hole_follows (node_of mm n) then hole_stack_del n mm else mm) = ?mm1"
    by (simp add: hole_stack_del_def)
  have "remove1 ?p (remove1 n (hole_stack mm)) = remove1 n (hole_stack mm)" if "\<not> hole_follows (node_of mm ?p)"
    using that d(8) notin_set_remove1[of ?p "hole_stack mm" n] by (intro remove1_idem) simp
  then have 2: "(if \<not> hole_follows (node_of ?mm1 ?p) then hole_stack_add ?p (upd_node ?p (\<lambda>y. y\<lparr>hole_follows := True\<rparr>) ?mm1)
      else hole_stack_add ?p (hole_stack_del ?p ?mm1)) =
    mm\<lparr>hole_stack := ?p # remove1 ?p (remove1 n (hole_stack mm)), node_of := (node_of mm)(?p := (node_of mm ?p)\<lparr>hole_follows := True\<rparr>)\<rparr>"
    by (cases "hole_follows (node_of mm ?p)") (simp_all add: hole_stack_add_def hole_stack_del_def upd_node_def fun_upd_idem)
  have "node_ok mm n" "allocated (node_of mm n)" using d(5,6) n by simp_all
  then have "drm_mm_remove_node mm n = Inr (upd_node n (\<lambda>y. y\<lparr>allocated := False\<rparr>)
      (mm\<lparr>hole_stack := ?p # remove1 ?p (remove1 n (hole_stack mm)), node_of := (node_of mm)(?p := (node_of mm ?p)\<lparr>hole_follows := True\<rparr>),
          node_list := remove1 n (node_list mm)\<rparr>))"
    using g d(11)[of n] unfolding drm_mm_remove_node_def Let_def 1 2 node_ok_def gap_def unscanned_def by simp
  then show ?thesis using p(1) by (simp add: removed_def upd_node_def)
qed

section \<open>Alignment\<close>

definition al_up :: "nat \<Rightarrow> nat \<Rightarrow> nat" where
  \<comment> \<open>the first aligned address from \<open>s\<close> on\<close>
  "al_up al s = (if al = 0 \<or> s mod al = 0 then s else s + (al - s mod al))"

definition aligned :: "u32 \<Rightarrow> nat \<Rightarrow> bool" where
  "aligned alignment a \<longleftrightarrow> alignment = 0 \<or> unat alignment dvd a"

lemma al_up_bounds: "s \<le> al_up al s" "al_up al s \<le> s + al"
proof -
  have "s + (al - s mod al) \<le> s + al" by simp
  then show "s \<le> al_up al s" "al_up al s \<le> s + al"
    unfolding al_up_def by (split if_split, use le_add1 order_refl in blast)+
qed

lemma al_up_dvd: "al \<noteq> 0 \<Longrightarrow> al dvd al_up al s"
proof (cases "s mod al = 0")
  case False
  assume "al \<noteq> 0"
  then have "s + (al - s mod al) = (s - s mod al) + al" using mod_le_divisor[of al s] mod_less_eq_dividend[of s al] by linarith
  then show ?thesis using False \<open>al \<noteq> 0\<close> by (simp add: al_up_def minus_mod_eq_mult_div)
qed (auto simp: al_up_def)

lemma al_up_least:
  assumes "al dvd a" "s \<le> a" "al \<noteq> 0"
  shows "al_up al s \<le> a"
proof (rule ccontr)
  assume "\<not> al_up al s \<le> a"
  then have *: "a < al_up al s" "s mod al \<noteq> 0" using assms(2) by (auto simp: al_up_def split: if_splits)
  then have u: "al_up al s = s - s mod al + al"
    using assms(3) mod_le_divisor[of al s] mod_less_eq_dividend[of s al] by (simp add: al_up_def)
  obtain q where q: "a = al * q" using assms(1) by blast
  have s: "s - s mod al = al * (s div al)" by (simp add: minus_mod_eq_mult_div)
  have "al * q < al * Suc (s div al)" using * u s q by simp
  then have "q < Suc (s div al)" unfolding mult_less_cancel1 by blast
  then have "q \<le> s div al" by simp
  then have "a \<le> al * (s div al)" using q by simp
  moreover have "al * (s div al) < s" using *(2) mult_div_mod_eq[of al s] by linarith
  ultimately show False using assms(2) by linarith
qed

lemma unat_ucast32: "unat (ucast (a :: u32) :: u64) = unat a"
proof -
  have "unat a < 2 ^ 64" using unsigned_less[where 'a = nat, of a] by simp
  then show ?thesis by (simp add: unsigned_ucast_eq take_bit_nat_eq_self)
qed

lemma unat_align_rem: "unat (align_rem s alignment) = unat s mod unat alignment"
  by (simp add: align_rem_def unat_mod_distrib unat_ucast32)

lemma align_rem_0: "align_rem s alignment = 0 \<longleftrightarrow> unat s mod unat alignment = 0"
  by (metis unat_align_rem unat_eq_0)

lemma unat_align_up:
  assumes "unat s + 2 ^ 32 \<le> 2 ^ 64"
  shows "unat (align_start False alignment s) = al_up (unat alignment) (unat s)"
proof (cases "alignment = 0 \<or> unat s mod unat alignment = 0")
  case True
  then show ?thesis by (auto simp: align_start_def al_up_def align_rem_0)
next
  case False
  then have al: "unat alignment \<noteq> 0" "unat s mod unat alignment \<noteq> 0" by (auto simp: unat_eq_0)
  have lt: "unat alignment < 2 ^ 32" using unsigned_less[where 'a = nat, of alignment] by simp
  have "unat (ucast alignment - align_rem s alignment :: u64) = unat alignment - unat s mod unat alignment"
    using al(1) by (subst unat_sub) (simp_all add: word_le_nat_alt unat_align_rem unat_ucast32 less_imp_le)
  moreover have "unat s + (unat alignment - unat s mod unat alignment) < 2 ^ 64" using assms lt by simp
  ultimately have "unat (s + (ucast alignment - align_rem s alignment)) = unat s + (unat alignment - unat s mod unat alignment)"
    by (subst unat_add_lem[THEN iffD1]) simp_all
  then show ?thesis using False al by (simp add: align_start_def al_up_def align_rem_0)
qed

lemma unat_align_down:
  "unat (align_start True alignment s) = unat s - (if alignment = 0 then 0 else unat s mod unat alignment)"
proof -
  have "unat (s - align_rem s alignment) = unat s - unat s mod unat alignment"
    by (subst unat_sub) (simp_all add: word_le_nat_alt unat_align_rem)
  then show ?thesis by (auto simp: align_start_def align_rem_0)
qed

lemma check_free_hole_iff:
  assumes "unat s + 2 ^ 32 + unat sz \<le> 2 ^ 64"
  shows "check_free_hole s e sz alignment \<longleftrightarrow> al_up (unat alignment) (unat s) + unat sz \<le> unat e"
proof -
  let ?a = "al_up (unat alignment) (unat s)"
  have lt: "unat alignment < 2 ^ 32" using unsigned_less[where 'a = nat, of alignment] by simp
  have a: "unat (align_start False alignment s) = ?a" using assms by (intro unat_align_up) simp
  have "?a + unat sz < 2 ^ 64" using al_up_bounds(2)[of "unat alignment" "unat s"] lt assms by simp
  then have sum: "unat (align_start False alignment s + sz) = ?a + unat sz"
    by (subst unat_add_lem[THEN iffD1]) (simp_all add: a)
  have "e - s < sz \<Longrightarrow> \<not> ?a + unat sz \<le> unat e"
  proof
    assume "e - s < sz" "?a + unat sz \<le> unat e"
    moreover have "s \<le> e" using calculation(2) al_up_bounds(1)[of "unat s" "unat alignment"] by (simp add: word_le_nat_alt)
    ultimately show False using al_up_bounds(1)[of "unat s" "unat alignment"] by (simp add: word_less_nat_alt unat_sub)
  qed
  then show ?thesis by (auto simp: check_free_hole_def word_le_nat_alt sum)
qed

text \<open>
  Where the helpers put a node: below, at the first aligned address, or at the top, at the last one; and
  what they need to know of the hole.
\<close>

definition place :: "bool \<Rightarrow> u32 \<Rightarrow> u64 \<Rightarrow> u64 \<Rightarrow> u64 \<Rightarrow> u64" where
  "place ctop alignment s e sz = align_start ctop alignment (if ctop then e - sz else s)"

lemma place_ok:
  assumes "unat s + 2 ^ 32 + unat sz \<le> 2 ^ 64" "al_up (unat alignment) (unat s) + unat sz \<le> unat e" "0 < unat sz"
  shows "unat s \<le> unat (place ctop alignment s e sz)"
    "unat (place ctop alignment s e sz + sz) = unat (place ctop alignment s e sz) + unat sz"
    "unat (place ctop alignment s e sz) + unat sz \<le> unat e" "aligned alignment (unat (place ctop alignment s e sz))"
proof -
  let ?p = "place ctop alignment s e sz" and ?al = "unat alignment" and ?a = "al_up (unat alignment) (unat s)"
  have "unat s \<le> unat ?p \<and> unat ?p + unat sz \<le> unat e \<and> aligned alignment (unat ?p)"
  proof (cases ctop)
    case False
    have "unat ?p = ?a" using False assms(1) by (simp add: place_def unat_align_up)
    then show ?thesis using assms(2) al_up_bounds(1)[of "unat s" ?al] al_up_dvd[of ?al "unat s"]
      by (auto simp: aligned_def unat_eq_0)
  next
    case True
    have e: "unat (e - sz) = unat e - unat sz" using assms(2) by (intro unat_sub) (simp add: word_le_nat_alt)
    then have p: "unat ?p = (unat e - unat sz) - (if alignment = 0 then 0 else (unat e - unat sz) mod ?al)"
      using True by (simp add: place_def unat_align_down)
    show ?thesis
    proof (cases "alignment = 0")
      case al: False
      then have "?a \<le> (unat e - unat sz) div ?al * ?al"
        using al_up_dvd[of ?al "unat s"] assms(2)
        by (metis (no_types) add_le_imp_le_diff dvd_div_mult_self div_le_mono mult_le_mono1 unat_eq_0)
      moreover have "unat ?p = (unat e - unat sz) div ?al * ?al" using p al by (simp add: minus_mod_eq_div_mult)
      ultimately show ?thesis using p assms(2) al_up_bounds(1)[of "unat s" ?al] by (auto simp: aligned_def)
    next
      case True
      then show ?thesis using p assms(2) al_up_bounds(1)[of "unat s" ?al] by (simp add: aligned_def)
    qed
  qed
  moreover have "unat e < 2 ^ 64" using unsigned_less[where 'a = nat, of e] by simp
  ultimately show "unat s \<le> unat ?p" "unat ?p + unat sz \<le> unat e" "aligned alignment (unat ?p)"
    "unat (?p + sz) = unat ?p + unat sz"
    by (simp_all add: unat_add_lem[THEN iffD1])
qed

section \<open>Search and insertion\<close>

definition hole_range :: "drm_mm \<Rightarrow> (u64 \<times> u64) option \<Rightarrow> nat \<Rightarrow> u64 \<times> u64" where
  \<comment> \<open>the part of the hole after a node that lies in the allowed range\<close>
  "hole_range mm rng h =
     (case rng of None \<Rightarrow> (hole_node_start mm h, hole_node_end mm h)
      | Some (rs, re) \<Rightarrow> (max (hole_node_start mm h) rs, min (hole_node_end mm h) re))"

definition fits :: "drm_mm \<Rightarrow> (u64 \<times> u64) option \<Rightarrow> u64 \<Rightarrow> u32 \<Rightarrow> nat \<Rightarrow> bool" where
  "fits mm rng sz alignment h \<longleftrightarrow>
     al_up (unat alignment) (unat (fst (hole_range mm rng h))) + unat sz \<le> unat (snd (hole_range mm rng h))"

definition small :: "drm_mm \<Rightarrow> (u64 \<times> u64) option \<Rightarrow> u64 \<Rightarrow> nat \<Rightarrow> bool" where
  "small mm rng sz h \<longleftrightarrow> unat (fst (hole_range mm rng h)) + 2 ^ 32 + unat sz \<le> 2 ^ 64 \<and>
     hole_node_end mm h - hole_node_start mm h \<noteq> - 1"

lemma hole_search_spec:
  assumes "color_adjust mm = None" "\<forall>h \<in> set hs. hole_follows (node_of mm h) \<and> small mm rng sz h"
    "best = None \<longrightarrow> bs = - 1" "\<forall>h. best = Some h \<longrightarrow> fits mm rng sz alignment h \<and> h \<in> H" "set hs \<subseteq> H"
  shows "\<exists>r. hole_search mm rng sz alignment color sb hs best bs = Inr r \<and>
    (\<forall>h. r = Some h \<longrightarrow> h \<in> H \<and> fits mm rng sz alignment h) \<and>
    (r = None \<longrightarrow> best = None \<and> (\<forall>h \<in> set hs. \<not> fits mm rng sz alignment h))"
  using assms
proof (induction hs arbitrary: best bs)
  case Nil
  then show ?case by simp
next
  case (Cons h hs)
  let ?s = "fst (hole_range mm rng h)" and ?e = "snd (hole_range mm rng h)"
  have hf: "hole_follows (node_of mm h)" and sm: "small mm rng sz h" using Cons.prems(2) by simp_all
  have chk: "check_free_hole ?s ?e sz alignment \<longleftrightarrow> fits mm rng sz alignment h"
    using sm check_free_hole_iff by (simp add: small_def fits_def)
  have step: "hole_search mm rng sz alignment color sb (h # hs) best bs =
      (if \<not> fits mm rng sz alignment h then hole_search mm rng sz alignment color sb hs best bs
       else if \<not> sb then Inr (Some h)
       else if hole_node_end mm h - hole_node_start mm h < bs
       then hole_search mm rng sz alignment color sb hs (Some h) (hole_node_end mm h - hole_node_start mm h)
       else hole_search mm rng sz alignment color sb hs best bs)"
    using Cons.prems(1) hf unfolding chk[symmetric]
    by (simp add: drm_mm_hole_node_start_def adjust_color_def hole_range_def Let_def split: option.splits)
  have IH: "\<exists>r. hole_search mm rng sz alignment color sb hs best' bs' = Inr r \<and>
      (\<forall>h. r = Some h \<longrightarrow> h \<in> H \<and> fits mm rng sz alignment h) \<and>
      (r = None \<longrightarrow> best' = None \<and> (\<forall>h \<in> set hs. \<not> fits mm rng sz alignment h))"
    if "best' = None \<longrightarrow> bs' = - 1" "\<forall>h. best' = Some h \<longrightarrow> fits mm rng sz alignment h \<and> h \<in> H" for best' bs'
    using Cons.IH[OF Cons.prems(1) _ that] Cons.prems(2,5) by simp
  show ?case
  proof (cases "fits mm rng sz alignment h")
    case False
    then show ?thesis using IH[OF Cons.prems(3,4)] unfolding step by auto
  next
    case True
    have lt: "hole_node_end mm h - hole_node_start mm h < bs" if "best = None"
      using that Cons.prems(3) sm by (simp add: small_def word_order.not_eq_extremum[symmetric])
    have some: "\<exists>r. hole_search mm rng sz alignment color sb hs best' bs' = Inr r \<and>
        (\<forall>h. r = Some h \<longrightarrow> h \<in> H \<and> fits mm rng sz alignment h) \<and> r \<noteq> None"
      if "best' \<noteq> None" "\<forall>h. best' = Some h \<longrightarrow> fits mm rng sz alignment h \<and> h \<in> H" for best' bs'
      using IH[of best' bs'] that by blast
    show ?thesis
      using True lt some[of best bs] some[of "Some h" "hole_node_end mm h - hole_node_start mm h"] Cons.prems(4,5)
      unfolding step by (cases sb; cases "best = None") auto
  qed
qed

definition new_node :: "drm_mm \<Rightarrow> nat \<Rightarrow> u64 \<Rightarrow> u64 \<Rightarrow> u64 \<Rightarrow> bool \<Rightarrow> drm_mm_node" where
  "new_node mm n s sz color follows =
     (node_of mm n)\<lparr>node_start := s, node_size := sz, node_color := color, allocated := True, hole_follows := follows\<rparr>"

lemma place_push_eq:
  assumes "h \<noteq> n" "hole_follows (node_of mm h)"
  shows "push_hole (place_node mm h n s (hole_node_start mm h) sz color) n follows =
      inserted mm h n (new_node mm n s sz color follows)"
    "hole_node_start (place_node mm h n s (hole_node_start mm h) sz color) n = s + sz"
proof -
  have "(node_of mm h)\<lparr>hole_follows := True\<rparr> = node_of mm h" using assms(2) by simp
  then show "push_hole (place_node mm h n s (hole_node_start mm h) sz color) n follows =
      inserted mm h n (new_node mm n s sz color follows)"
    using assms(1)
    by (cases follows; cases "s = hole_node_start mm h")
      (simp_all add: push_hole_def place_node_def inserted_def new_node_def upd_node_def hole_stack_add_def hole_stack_del_def
        node_list_add_def Let_def fun_upd_idem fun_upd_twist)
  show "hole_node_start (place_node mm h n s (hole_node_start mm h) sz color) n = s + sz"
    using assms(1) by (simp add: place_node_def hole_node_start_def upd_node_def node_list_add_def hole_stack_del_def Let_def)
qed

abbreviation mm_small :: "u64 \<Rightarrow> (u64 \<times> u64) option \<Rightarrow> u64 \<Rightarrow> bool" where
  \<comment> \<open>the end of the range, or the start of the allowed range, plus the request stays 4 GB below \<open>2 ^ 64\<close>\<close>
  "mm_small hi rng sz \<equiv>
     unat hi + 2 ^ 32 + unat sz \<le> 2 ^ 64 \<and> (\<forall>rs re. rng = Some (rs, re) \<longrightarrow> unat rs + 2 ^ 32 + unat sz \<le> 2 ^ 64)"

lemma hole_bounds:
  assumes "mm_ok lo hi mm" "h \<in> set (ring mm)"
  shows "hole_node_start mm h \<le> hole_node_end mm h" "hole_node_end mm h \<le> hi" "lo \<le> hole_node_start mm h"
    "hole_follows (node_of mm h) \<longleftrightarrow> hole_node_start mm h \<noteq> hole_node_end mm h"
proof -
  note d = mm_okD[OF assms(1)]
  obtain xs ys where r: "ring mm = xs @ h # ys" "h \<notin> set xs" "h \<notin> set ys" using ring_split[OF assms(2) d(1)] by blast
  have he: "hole_node_end mm h = next_start mm ys hi" by (rule hole_node_end_split[OF r(1,2) d(3)])
  have c: "chain mm (h # ys) hi" using d(2) unfolding r(1) by (simp add: chain_append)
  then show "hole_node_start mm h \<le> hole_node_end mm h"
    "hole_follows (node_of mm h) \<longleftrightarrow> hole_node_start mm h \<noteq> hole_node_end mm h" by (simp_all add: gap_def he)
  have sub: "n \<in> set (node_list mm)" if "n \<in> set ys" for n
  proof -
    have "n \<in> set (ring mm)" using that unfolding r(1) by simp
    moreover have "n \<noteq> HEAD"
    proof
      assume "n = HEAD"
      then show False using that d(1) r by (cases xs) auto
    qed
    ultimately show ?thesis by simp
  qed
  show "hole_node_end mm h \<le> hi"
  proof (cases ys)
    case (Cons y ys')
    then have "node_start (node_of mm y) < hole_node_start mm y" "hole_node_start mm y \<le> hi"
      using chain_mono(2)[OF c, of y] d(5) sub by (auto simp: node_ok_def)
    then show ?thesis using Cons he by simp
  qed (simp add: he)
  show "lo \<le> hole_node_start mm h"
  proof (cases "h = HEAD")
    case False
    then have "lo \<le> node_start (node_of mm h)" "node_ok mm h"
      using chain_mono(2)[OF d(2), of h] d(4,5) assms(2) by auto
    then show ?thesis unfolding node_ok_def by (meson less_imp_le order.trans)
  qed (simp add: d(4))
qed

lemma hole_range_small:
  assumes ok: "mm_ok lo hi mm" and sm: "mm_small hi rng sz" and h: "h \<in> set (ring mm)"
  shows "small mm rng sz h"
proof -
  have b: "unat (hole_node_start mm h) \<le> unat (hole_node_end mm h)" "unat (hole_node_end mm h) \<le> unat hi"
    using hole_bounds[OF ok h] by (simp_all add: word_le_nat_alt)
  have "unat (hole_node_end mm h - hole_node_start mm h) \<le> unat hi"
    using b by (subst unat_sub) (simp_all add: word_le_nat_alt)
  moreover have "unat (- 1 :: u64) = 2 ^ 64 - 1" by (simp add: unsigned_minus_1_eq_mask mask_eq_exp_minus_1)
  ultimately have "hole_node_end mm h - hole_node_start mm h \<noteq> - 1" using sm by auto
  moreover have "unat (fst (hole_range mm rng h)) + 2 ^ 32 + unat sz \<le> 2 ^ 64"
    using b sm by (cases rng) (auto simp: hole_range_def max_def)
  ultimately show ?thesis by (simp add: small_def)
qed

definition insert_result :: "drm_mm \<Rightarrow> (u64 \<times> u64) option \<Rightarrow> nat \<Rightarrow> u64 \<Rightarrow> u32 \<Rightarrow> u64 \<Rightarrow> bool \<Rightarrow> nat \<Rightarrow> drm_mm" where
  "insert_result mm rng n sz alignment color ctop h =
     (let s = place ctop alignment (fst (hole_range mm rng h)) (snd (hole_range mm rng h)) sz
      in inserted mm h n (new_node mm n s sz color (s + sz \<noteq> hole_node_end mm h)))"

lemma insert_helpers_eq:
  assumes ok: "mm_ok lo hi mm" and sm: "mm_small hi rng sz" and h: "h \<in> set (hole_stack mm)" and n: "n \<noteq> HEAD" "\<not> allocated (node_of mm n)"
    and fit: "fits mm rng sz alignment h" and sz: "0 < unat sz"
  shows "rng = None \<Longrightarrow> drm_mm_insert_helper mm h n sz alignment color ctop = Inr (insert_result mm rng n sz alignment color ctop h)"
    "rng = Some (rs, re) \<Longrightarrow> drm_mm_insert_helper_range mm h n sz alignment color rs re ctop = Inr (insert_result mm rng n sz alignment color ctop h)"
    "\<And>s. s = place ctop alignment (fst (hole_range mm rng h)) (snd (hole_range mm rng h)) sz \<Longrightarrow>
       hole_node_start mm h \<le> s \<and> s < s + sz \<and> s + sz \<le> hole_node_end mm h \<and> aligned alignment (unat s) \<and>
       unat (s + sz) = unat s + unat sz \<and> (\<forall>rs re. rng = Some (rs, re) \<longrightarrow> rs \<le> s \<and> s + sz \<le> re)"
proof -
  note d = mm_okD[OF ok]
  have hr: "h \<in> set (ring mm)" "hole_follows (node_of mm h)" using h d(8) by auto
  have hn: "h \<noteq> n" using hr(1) n d(6)[of n] by auto
  let ?s = "fst (hole_range mm rng h)" and ?e = "snd (hole_range mm rng h)"
  let ?p = "place ctop alignment ?s ?e sz"
  have "unat ?s + 2 ^ 32 + unat sz \<le> 2 ^ 64" using hole_range_small[OF ok sm hr(1)] by (simp add: small_def)
  note p = place_ok[OF this fit[unfolded fits_def] sz, of ctop]
  have se: "hole_node_start mm h \<le> ?s" "?e \<le> hole_node_end mm h" "\<forall>rs re. rng = Some (rs, re) \<longrightarrow> rs \<le> ?s \<and> ?e \<le> re"
    by (cases rng; auto simp: hole_range_def)+
  have pw: "?s \<le> ?p" "?p < ?p + sz" "?p + sz \<le> ?e"
    using p sz unfolding word_le_nat_alt word_less_nat_alt by simp_all
  have all: "hole_node_start mm h \<le> ?p \<and> ?p < ?p + sz \<and> ?p + sz \<le> hole_node_end mm h \<and> aligned alignment (unat ?p) \<and>
      unat (?p + sz) = unat ?p + unat sz \<and> (\<forall>rs re. rng = Some (rs, re) \<longrightarrow> rs \<le> ?p \<and> ?p + sz \<le> re)"
  proof (intro conjI allI impI)
    show "hole_node_start mm h \<le> ?p" by (rule order.trans[OF se(1) pw(1)])
    show "?p + sz \<le> hole_node_end mm h" by (rule order.trans[OF pw(3) se(2)])
    fix rs re assume "rng = Some (rs, re)"
    then have "rs \<le> ?s" "?e \<le> re" using se(3) by blast+
    then show "rs \<le> ?p" "?p + sz \<le> re" using pw(1,3) by (blast intro: order.trans)+
  qed (use pw(2) p(2,4) in blast)+
  then show "\<And>s. s = ?p \<Longrightarrow> hole_node_start mm h \<le> s \<and> s < s + sz \<and> s + sz \<le> hole_node_end mm h \<and> aligned alignment (unat s) \<and>
      unat (s + sz) = unat s + unat sz \<and> (\<forall>rs re. rng = Some (rs, re) \<longrightarrow> rs \<le> s \<and> s + sz \<le> re)" by simp
  have lt: "?p + sz < hole_node_end mm h \<longleftrightarrow> ?p + sz \<noteq> hole_node_end mm h" using all by auto
  note eqs = place_push_eq[OF hn hr(2), of ?p sz color]
  show "drm_mm_insert_helper mm h n sz alignment color ctop = Inr (insert_result mm rng n sz alignment color ctop h)" if "rng = None"
  proof -
    have r: "?s = hole_node_start mm h" "?e = hole_node_end mm h" using that by (simp_all add: hole_range_def)
    have pl: "align_start ctop alignment (if ctop then ?e - sz else ?s) = ?p" by (simp add: place_def)
    show ?thesis
      using hr(2) n(2) d(9) all pw lt eqs pl unfolding r
      by (simp add: drm_mm_insert_helper_def drm_mm_hole_node_start_def adjust_color_def Let_def insert_result_def that hole_range_def not_less)
  qed
  show "drm_mm_insert_helper_range mm h n sz alignment color rs re ctop = Inr (insert_result mm rng n sz alignment color ctop h)"
    if "rng = Some (rs, re)"
  proof -
    have r: "?s = max (hole_node_start mm h) rs" "?e = min (hole_node_end mm h) re" using that by (simp_all add: hole_range_def)
    have pl: "align_start ctop alignment (if ctop then ?e - sz else ?s) = ?p" by (simp add: place_def)
    show ?thesis
      using hr(2) n(2) d(9) all pw lt eqs pl that unfolding r
      by (simp add: drm_mm_insert_helper_range_def drm_mm_hole_node_start_def adjust_color_def Let_def insert_result_def hole_range_def not_less)
  qed
qed

lemma insert_result_ok:
  assumes ok: "mm_ok lo hi mm" and sm: "mm_small hi rng sz" and h: "h \<in> set (hole_stack mm)" and n: "n \<noteq> HEAD" "\<not> allocated (node_of mm n)"
    and fit: "fits mm rng sz alignment h" and sz: "0 < unat sz"
  shows "mm_ok lo hi (insert_result mm rng n sz alignment color ctop h)"
proof -
  note d = mm_okD[OF ok]
  have hr: "h \<in> set (ring mm)" "hole_follows (node_of mm h)" using h d(8) by auto
  let ?s = "place ctop alignment (fst (hole_range mm rng h)) (snd (hole_range mm rng h)) sz"
  have p: "hole_node_start mm h \<le> ?s" "?s < ?s + sz" "?s + sz \<le> hole_node_end mm h"
    using insert_helpers_eq(3)[OF assms refl] by blast+
  show ?thesis unfolding insert_result_def Let_def
    by (rule inserted_ok[OF ok hr n]) (use p d(11)[of n] in \<open>simp_all add: new_node_def unscanned_def\<close>)
qed

lemma span_inserted:
  assumes "m \<noteq> n"
  shows "span (inserted mm h n x) m = span mm m"
  using assms by (simp add: span_def inserted_def)

lemma set_node_list_inserted:
  assumes "mm_ok lo hi mm" "h \<in> set (ring mm)" "n \<noteq> HEAD" "\<not> allocated (node_of mm n)" "mm_ok lo hi (inserted mm h n x)" "allocated x"
  shows "set (node_list (inserted mm h n x)) = insert n (set (node_list mm))"
proof (rule set_eqI)
  fix m
  have "allocated (node_of (inserted mm h n x) m) \<longleftrightarrow> m = n \<or> allocated (node_of mm m)"
    using assms(6) by (auto simp: inserted_def)
  then show "m \<in> set (node_list (inserted mm h n x)) \<longleftrightarrow> m \<in> insert n (set (node_list mm))"
    using mm_okD(6)[OF assms(1), of m] mm_okD(6)[OF assms(5), of m] by simp
qed

definition mm_insert :: "drm_mm \<Rightarrow> (u64 \<times> u64) option \<Rightarrow> nat \<Rightarrow> u64 \<Rightarrow> u32 \<Rightarrow> u64 \<Rightarrow> bool \<times> bool \<Rightarrow> bool \<Rightarrow> drm_mm kres" where
  \<comment> \<open>the two insertion functions, without and with a range\<close>
  "mm_insert mm rng n sz alignment color sflags ctop =
     (case rng of None \<Rightarrow> drm_mm_insert_node_generic mm n sz alignment color sflags ctop
      | Some (rs, re) \<Rightarrow> drm_mm_insert_node_in_range_generic mm n sz alignment color rs re sflags ctop)"

lemma mm_insert_cases:
  assumes ok: "mm_ok lo hi mm" and sm: "mm_small hi rng sz" and n: "n \<noteq> HEAD" "\<not> allocated (node_of mm n)" and sz: "0 < unat sz"
  shows "(\<exists>h \<in> set (hole_stack mm). fits mm rng sz alignment h \<and>
      mm_insert mm rng n sz alignment color sflags ctop = Inr (insert_result mm rng n sz alignment color ctop h)) \<or>
    (\<forall>h \<in> set (hole_stack mm). \<not> fits mm rng sz alignment h) \<and>
      mm_insert mm rng n sz alignment color sflags ctop = Inl ENOSPC"
proof -
  note d = mm_okD[OF ok]
  let ?hs = "if snd sflags then rev (hole_stack mm) else hole_stack mm"
  have hs: "set ?hs = set (hole_stack mm)" by simp
  have A: "\<forall>h \<in> set ?hs. hole_follows (node_of mm h) \<and> small mm rng sz h"
    using d(8) hole_range_small[OF ok sm] unfolding hs by auto
  have "\<exists>r. hole_search mm rng sz alignment color (fst sflags) ?hs None (- 1) = Inr r \<and>
      (\<forall>h. r = Some h \<longrightarrow> h \<in> set (hole_stack mm) \<and> fits mm rng sz alignment h) \<and>
      (r = None \<longrightarrow> None = (None :: nat option) \<and> (\<forall>h \<in> set ?hs. \<not> fits mm rng sz alignment h))"
    by (rule hole_search_spec[OF d(9) A]) (simp_all add: hs)
  then obtain r where r: "hole_search mm rng sz alignment color (fst sflags) ?hs None (- 1) = Inr r"
    and some: "\<And>h. r = Some h \<Longrightarrow> h \<in> set (hole_stack mm) \<and> fits mm rng sz alignment h"
    and none: "r = None \<Longrightarrow> \<forall>h \<in> set (hole_stack mm). \<not> fits mm rng sz alignment h"
    unfolding hs by blast
  show ?thesis
  proof (cases r)
    case None
    then have "mm_insert mm rng n sz alignment color sflags ctop = Inl ENOSPC"
      using r d(10) by (cases rng) (auto simp: mm_insert_def drm_mm_insert_node_generic_def drm_mm_insert_node_in_range_generic_def
          drm_mm_search_free_generic_def drm_mm_search_free_in_range_generic_def)
    then show ?thesis using none[OF None] by blast
  next
    case (Some h)
    note hf = some[OF Some]
    note eqs = insert_helpers_eq(1,2)[OF ok sm conjunct1[OF hf] n conjunct2[OF hf] sz]
    have "mm_insert mm rng n sz alignment color sflags ctop = Inr (insert_result mm rng n sz alignment color ctop h)"
      using r d(10) Some eqs by (cases rng) (auto simp: mm_insert_def drm_mm_insert_node_generic_def drm_mm_insert_node_in_range_generic_def
          drm_mm_search_free_generic_def drm_mm_search_free_in_range_generic_def)
    then show ?thesis using hf by blast
  qed
qed

definition free_place :: "u64 \<Rightarrow> u64 \<Rightarrow> drm_mm \<Rightarrow> (u64 \<times> u64) option \<Rightarrow> u64 \<Rightarrow> u32 \<Rightarrow> nat \<Rightarrow> bool" where
  \<comment> \<open>an aligned address with room for the request in the managed and the allowed range, clear of all nodes\<close>
  "free_place lo hi mm rng sz alignment x \<longleftrightarrow>
     aligned alignment x \<and> unat lo \<le> x \<and> x + unat sz \<le> unat hi \<and>
     (\<forall>rs re. rng = Some (rs, re) \<longrightarrow> unat rs \<le> x \<and> x + unat sz \<le> unat re) \<and>
     (\<forall>m \<in> set (node_list mm). {x..<x + unat sz} \<inter> span mm m = {})"

lemma free_in_hole:
  assumes "\<forall>n \<in> set as. node_ok mm n" "unat (hole_node_start mm a) \<le> x" "x + z \<le> unat e" "0 < z"
    "\<forall>n \<in> set as. {x..<x + z} \<inter> span mm n = {}"
  shows "\<exists>xs h ys. a # as = xs @ h # ys \<and> unat (hole_node_start mm h) \<le> x \<and> x + z \<le> unat (next_start mm ys e)"
  using assms
proof (induction as arbitrary: a)
  case Nil
  then have "[a] = [] @ a # []" "unat (hole_node_start mm a) \<le> x" "x + z \<le> unat (next_start mm [] e)" by simp_all
  then show ?case by blast
next
  case (Cons b bs)
  show ?case
  proof (cases "x + z \<le> unat (node_start (node_of mm b))")
    case True
    then have "a # b # bs = [] @ a # b # bs" "x + z \<le> unat (next_start mm (b # bs) e)" by simp_all
    then show ?thesis using Cons.prems(2) by blast
  next
    case False
    have lt: "node_start (node_of mm b) < hole_node_start mm b" using Cons.prems(1) by (simp add: node_ok_def)
    then have e: "unat (hole_node_start mm b) = unat (node_start (node_of mm b)) + unat (node_size (node_of mm b))"
      using unat_node_end by simp
    have "unat (hole_node_start mm b) \<le> x"
    proof (rule ccontr)
      assume "\<not> ?thesis"
      then have "max x (unat (node_start (node_of mm b))) \<in> {x..<x + z} \<inter> span mm b"
        using False Cons.prems(4) lt e by (auto simp: span_def word_less_nat_alt)
      then show False using Cons.prems(5) by auto
    qed
    then obtain xs h ys where "b # bs = xs @ h # ys" "unat (hole_node_start mm h) \<le> x" "x + z \<le> unat (next_start mm ys e)"
      using Cons.IH[of b] Cons.prems by auto
    then have "a # b # bs = (a # xs) @ h # ys" "unat (hole_node_start mm h) \<le> x" "x + z \<le> unat (next_start mm ys e)" by simp_all
    then show ?thesis by blast
  qed
qed

lemma free_place_fits:
  assumes ok: "mm_ok lo hi mm" and sz: "0 < unat sz" and fp: "free_place lo hi mm rng sz alignment x"
  shows "\<exists>h \<in> set (hole_stack mm). fits mm rng sz alignment h"
proof -
  note d = mm_okD[OF ok]
  obtain xs h ys where r: "ring mm = xs @ h # ys" and h: "unat (hole_node_start mm h) \<le> x" "x + unat sz \<le> unat (next_start mm ys hi)"
    using free_in_hole[of "node_list mm" mm HEAD x "unat sz" hi] d(4,5) fp sz by (auto simp: free_place_def)
  have hr: "h \<in> set (ring mm)" unfolding r by simp
  have "h \<notin> set xs" using d(1) unfolding r by simp
  then have he: "x + unat sz \<le> unat (hole_node_end mm h)" using h(2) hole_node_end_split[OF r _ d(3)] by simp
  have "hole_node_start mm h \<noteq> hole_node_end mm h" using h(1) he sz by auto
  then have hs: "h \<in> set (hole_stack mm)" using hole_bounds(4)[OF ok hr] hr d(8) by simp
  have s: "unat (fst (hole_range mm rng h)) \<le> x" "x + unat sz \<le> unat (snd (hole_range mm rng h))"
    using h(1) he fp by (cases rng; auto simp: hole_range_def free_place_def max_def min_def)+
  have "al_up (unat alignment) (unat (fst (hole_range mm rng h))) \<le> x"
  proof (cases "unat alignment = 0")
    case False
    then show ?thesis using fp s(1) by (intro al_up_least) (auto simp: free_place_def aligned_def)
  qed (use s(1) in \<open>simp add: al_up_def\<close>)
  then show ?thesis using hs s(2) by (intro bexI[of _ h]) (auto simp: fits_def)
qed

subsection \<open>Reservation, replacement, initialisation\<close>

lemma reserve_loop_spec:
  assumes ok: "mm_ok lo hi mm" and hs: "set hs \<subseteq> set (hole_stack mm)" and n: "n \<noteq> HEAD" "\<not> allocated (node_of mm n)"
    and se: "node_start (node_of mm n) < hole_node_start mm n"
  shows "(\<exists>mm'. reserve_loop mm n hs = Inr mm' \<and> mm_ok lo hi mm' \<and> set (node_list mm') = insert n (set (node_list mm)) \<and>
      (\<forall>m. span mm' m = span mm m)) \<or> reserve_loop mm n hs = Inl ENOSPC"
  using hs
proof (induction hs)
  case (Cons h hs)
  note d = mm_okD[OF ok]
  have h: "h \<in> set (ring mm)" "hole_follows (node_of mm h)" using Cons.prems d(8) by auto
  have hn: "h \<noteq> n" using h(1) n d(6)[of n] by auto
  let ?s = "node_start (node_of mm n)" and ?e = "hole_node_start mm n"
  let ?x = "(node_of mm n)\<lparr>allocated := True, hole_follows := ?e \<noteq> hole_node_end mm h\<rparr>"
  show ?case
  proof (cases "hole_node_start mm h > ?s \<or> hole_node_end mm h < ?e")
    case True
    then show ?thesis using Cons h(2) by (simp add: drm_mm_hole_node_start_def Let_def)
  next
    case False
    let ?mm1 = "node_list_add n h (upd_node n (\<lambda>x. x\<lparr>allocated := True\<rparr>) mm)"
    let ?mm2 = "if ?s = hole_node_start mm h then hole_stack_del h (upd_node h (\<lambda>x. x\<lparr>hole_follows := False\<rparr>) ?mm1) else ?mm1"
    have "reserve_loop mm n (h # hs) = Inr (push_hole ?mm2 n (?e \<noteq> hole_node_end mm h))"
      using False h(2) by (simp add: drm_mm_hole_node_start_def Let_def)
    also have "push_hole ?mm2 n (?e \<noteq> hole_node_end mm h) = inserted mm h n ?x"
    proof (rule drm_mm.equality)
      show "node_of (push_hole ?mm2 n (?e \<noteq> hole_node_end mm h)) = node_of (inserted mm h n ?x)"
        using hn h(2) by (intro ext)
          (simp add: push_hole_def hole_stack_add_def hole_stack_del_def upd_node_def node_list_add_def inserted_def)
    qed (simp_all add: push_hole_def hole_stack_add_def hole_stack_del_def upd_node_def node_list_add_def inserted_def)
    finally have "reserve_loop mm n (h # hs) = Inr (inserted mm h n ?x)" .
    moreover have i: "mm_ok lo hi (inserted mm h n ?x)"
      by (rule inserted_ok[OF ok h n]) (use False se d(11)[of n] in \<open>simp_all add: hole_node_start_def unscanned_def not_less\<close>)
    moreover have "set (node_list (inserted mm h n ?x)) = insert n (set (node_list mm))"
      by (rule set_node_list_inserted[OF ok h(1) n i]) simp
    moreover have "span (inserted mm h n ?x) m = span mm m" for m by (simp add: span_def inserted_def)
    ultimately show ?thesis by blast
  qed
qed simp

lemma mm_init_ok:
  assumes "lo < lo + sz"
  shows "mm_ok lo (lo + sz) (drm_mm_init lo sz)"
  using assms by (intro mm_okI) (auto simp: drm_mm_init_def clear_node_def gap_def hole_node_start_def unscanned_def)

lemma chain_map:
  assumes "\<And>n. n \<in> set xs \<Longrightarrow> hole_follows (node_of mm' (f n)) = hole_follows (node_of mm n) \<and>
    node_start (node_of mm' (f n)) = node_start (node_of mm n) \<and> node_size (node_of mm' (f n)) = node_size (node_of mm n)"
  shows "chain mm' (map f xs) e = chain mm xs e" "next_start mm' (map f xs) e = next_start mm xs e"
  using assms
proof (induction xs)
  case (Cons a as)
  { case 1
    then show ?case using Cons.IH by (simp add: gap_def hole_node_start_def)
  next
    case 2
    then show ?case by simp }
qed simp_all

lemma replace_ok:
  assumes ok: "mm_ok lo hi mm" and old: "old \<in> set (node_list mm)" and new: "new \<noteq> HEAD" "\<not> allocated (node_of mm new)"
  shows "mm_ok lo hi (drm_mm_replace_node mm old new)"
    "set (node_list (drm_mm_replace_node mm old new)) = insert new (set (node_list mm) - {old})"
    "span (drm_mm_replace_node mm old new) new = span mm old" "m \<noteq> new \<Longrightarrow> span (drm_mm_replace_node mm old new) m = span mm m"
proof -
  note d = mm_okD[OF ok]
  let ?f = "\<lambda>x. if x = old then new else x" and ?mm = "drm_mm_replace_node mm old new"
  have on: "old \<noteq> new" "old \<noteq> HEAD" "new \<notin> set (ring mm)" using old new d(1) d(6)[of new] by (metis distinct.simps(2) set_ConsD)+
  have nd: "node_of ?mm m = (if m = new then (node_of mm new)\<lparr>hole_follows := hole_follows (node_of mm old), node_start := node_start (node_of mm old),
      node_size := node_size (node_of mm old), node_color := node_color (node_of mm old), allocated := True\<rparr>
      else if m = old then (node_of mm old)\<lparr>allocated := False\<rparr> else node_of mm m)" for m
    using on(1) by (simp add: drm_mm_replace_node_def Let_def upd_node_def)
  have lists: "node_list ?mm = map ?f (node_list mm)" "hole_stack ?mm = map ?f (hole_stack mm)" "color_adjust ?mm = None" "scanned_blocks ?mm = 0"
    using d(9,10) by (simp_all add: drm_mm_replace_node_def Let_def upd_node_def)
  have ring': "ring ?mm = map ?f (ring mm)" using on(2) lists(1) by simp
  have inj: "inj_on ?f (set (ring mm))" using on(3) by (auto simp: inj_on_def)
  have im: "?f ` A = (if old \<in> A then insert new (A - {old}) else A)" for A :: "nat set" by auto
  show nl: "set (node_list ?mm) = insert new (set (node_list mm) - {old})" using old unfolding lists(1) by auto
  show "span ?mm new = span mm old" "m \<noteq> new \<Longrightarrow> span ?mm m = span mm m" using on(1) by (simp_all add: span_def nd)
  have st: "hole_node_start ?mm m = (if m = new then hole_node_start mm old else hole_node_start mm m)" for m
    by (simp add: hole_node_start_def nd)
  show "mm_ok lo hi ?mm"
  proof (intro mm_okI)
    show "chain ?mm (ring ?mm) hi" unfolding ring'
      using d(2) on(3) by (subst chain_map[where mm = mm]) (auto simp: nd)
    show "set (hole_stack ?mm) = {n \<in> set (ring ?mm). hole_follows (node_of ?mm n)}"
    proof -
      have "set (hole_stack ?mm) = ?f ` {n \<in> set (ring mm). hole_follows (node_of mm n)}" unfolding lists(2) set_map d(8) ..
      also have "\<dots> = {n \<in> ?f ` set (ring mm). hole_follows (node_of ?mm n)}" using on(1,3) by (auto simp: nd)
      finally show ?thesis unfolding ring' set_map .
    qed
    show "distinct (hole_stack ?mm)" unfolding lists(2) distinct_map
      using d(7) inj_on_subset[OF inj, of "set (hole_stack mm)"] d(8) by blast
    show "distinct (ring ?mm)" unfolding ring' distinct_map using d(1) inj by blast
    show "node_ok ?mm n" if "n \<in> set (node_list ?mm)" for n
      using that old d(5) unfolding nl by (auto simp: node_ok_def nd st)
    show "allocated (node_of ?mm n) \<longleftrightarrow> n \<in> set (node_list ?mm)" for n
      using d(6)[of n] unfolding nl by (auto simp: nd)
    show "node_start (node_of ?mm HEAD) = hi" "hole_node_start ?mm HEAD = lo" using d(3,4) on new by (auto simp: nd st)
    show "unscanned (node_of ?mm n)" for n using d(11)[of n] d(11)[of new] d(11)[of old] by (auto simp: nd unscanned_def)
  qed (use lists in simp_all)
qed

section \<open>Any sequence of operations\<close>

text \<open>
  One operation of a user of the allocator on one of its nodes, with the result it has. Requests are not empty,
  nodes that are inserted are not allocated and, for a reservation, describe a non-empty range that
  does not wrap around.
\<close>

inductive mm_op :: "u64 \<Rightarrow> drm_mm \<Rightarrow> drm_mm kres \<Rightarrow> bool" for hi :: u64 where
  insert_op: "n \<noteq> HEAD \<Longrightarrow> \<not> allocated (node_of mm n) \<Longrightarrow> 0 < unat sz \<Longrightarrow> mm_small hi rng sz \<Longrightarrow>
    mm_op hi mm (mm_insert mm rng n sz alignment color sflags ctop)"
| reserve_op: "n \<noteq> HEAD \<Longrightarrow> \<not> allocated (node_of mm n) \<Longrightarrow> node_start (node_of mm n) < hole_node_start mm n \<Longrightarrow>
    mm_op hi mm (drm_mm_reserve_node mm n)"
| remove_op: "n \<noteq> HEAD \<Longrightarrow> mm_op hi mm (drm_mm_remove_node mm n)"
| replace_op: "allocated (node_of mm old) \<Longrightarrow> new \<noteq> HEAD \<Longrightarrow> \<not> allocated (node_of mm new) \<Longrightarrow>
    mm_op hi mm (Inr (drm_mm_replace_node mm old new))"
| set_up_op: "n \<noteq> HEAD \<Longrightarrow> \<not> allocated (node_of mm n) \<Longrightarrow>
    mm_op hi mm (Inr (upd_node n (\<lambda>x. x\<lparr>node_start := s, node_size := z, node_color := c\<rparr>) mm))"

inductive mm_reach :: "u64 \<Rightarrow> u64 \<Rightarrow> drm_mm \<Rightarrow> bool" for lo sz :: u64 where
  init: "mm_reach lo sz (drm_mm_init lo sz)"
| op: "mm_reach lo sz mm \<Longrightarrow> mm_op (lo + sz) mm (Inr mm') \<Longrightarrow> mm_reach lo sz mm'"

lemma upd_node_ok:
  assumes ok: "mm_ok lo hi mm" and n: "n \<noteq> HEAD" "\<not> allocated (node_of mm n)"
    and f: "unscanned (f (node_of mm n))" "\<not> allocated (f (node_of mm n))"
  shows "mm_ok lo hi (upd_node n f mm)" (is "mm_ok lo hi ?mm")
proof -
  note d = mm_okD[OF ok]
  have nr: "n \<notin> set (ring mm)" using n d(6)[of n] by simp
  have nd: "node_of ?mm m = (if m = n then f (node_of mm n) else node_of mm m)" for m by (simp add: upd_node_def)
  have same: "ring ?mm = ring mm" "node_list ?mm = node_list mm" "hole_stack ?mm = hole_stack mm" "color_adjust ?mm = None" "scanned_blocks ?mm = 0"
    using d(9,10) by (simp_all add: upd_node_def)
  have st: "m \<noteq> n \<Longrightarrow> hole_node_start ?mm m = hole_node_start mm m" for m by (simp add: hole_node_start_def nd)
  show ?thesis
  proof (intro mm_okI)
    have "chain ?mm (ring mm) hi = chain mm (ring mm) hi" by (rule chain_cong(1)) (use nr in \<open>auto simp: nd\<close>)
    then show "chain ?mm (ring ?mm) hi" unfolding same using d(2) by blast
    show "set (hole_stack ?mm) = {m \<in> set (ring ?mm). hole_follows (node_of ?mm m)}" unfolding same d(8) using nr by (auto simp: nd)
    show "node_ok ?mm m" if "m \<in> set (node_list ?mm)" for m
      using that d(5) nr unfolding same by (cases "m = n") (auto simp: node_ok_def nd st)
    show "allocated (node_of ?mm m) \<longleftrightarrow> m \<in> set (node_list ?mm)" for m using d(6)[of m] f(2) n(2) unfolding same by (auto simp: nd)
    show "unscanned (node_of ?mm m)" for m using d(11)[of m] f(1) by (simp add: nd)
    show "node_start (node_of ?mm HEAD) = hi" "hole_node_start ?mm HEAD = lo" using d(3,4) n(1) by (simp_all add: nd st)
  qed (use d(1,7) same in simp_all)
qed

lemma mm_op_ok:
  assumes "mm_op hi mm r" "mm_ok lo hi mm"
  shows "r \<noteq> Inl OOPS \<and> (\<forall>mm'. r = Inr mm' \<longrightarrow> mm_ok lo hi mm')"
  using assms(1)
proof cases
  case (insert_op n sz rng alignment color sflags ctop)
  then show ?thesis
    using mm_insert_cases[OF assms(2) insert_op(5,2,3,4), of alignment color sflags ctop]
      insert_result_ok[OF assms(2) insert_op(5) _ insert_op(2,3) _ insert_op(4)] by auto
next
  case (reserve_op n)
  then show ?thesis using reserve_loop_spec[OF assms(2) order_refl reserve_op(2,3,4)] by (auto simp: drm_mm_reserve_node_def)
next
  case (remove_op n)
  then show ?thesis
    using mm_okD(6)[OF assms(2), of n] remove_node_eq[OF assms(2), of n] removed_ok[OF assms(2), of n] assms(2)
    by (cases "n \<in> set (node_list mm)") (auto simp: drm_mm_remove_node_def Let_def)
next
  case (replace_op old new)
  then show ?thesis using replace_ok(1)[OF assms(2)] mm_okD(6)[OF assms(2), of old] by auto
next
  case (set_up_op n s z c)
  then show ?thesis using upd_node_ok[OF assms(2) set_up_op(2,3)] mm_okD(11)[OF assms(2), of n] by (auto simp: unscanned_def)
qed

lemma mm_reach_ok:
  assumes "mm_reach lo sz mm" "lo < lo + sz"
  shows "mm_ok lo (lo + sz) mm"
  using assms(1)
proof induction
  case init
  show ?case by (rule mm_init_ok[OF assms(2)])
next
  case (op mm mm')
  then show ?case using mm_op_ok by blast
qed

lemma chain_disjoint:
  assumes "chain mm (a # as) e" "\<forall>n \<in> set as. node_ok mm n" "distinct as" "m \<in> set as" "n \<in> set as" "m \<noteq> n"
  shows "span mm m \<inter> span mm n = {}"
  using assms
proof (induction as arbitrary: a)
  case (Cons b bs)
  have c: "chain mm (b # bs) e" "\<forall>n \<in> set bs. node_ok mm n" using Cons.prems(1,2) by simp_all
  have before: "span mm b \<inter> span mm k = {}" if "k \<in> set bs" for k
  proof -
    have "hole_node_start mm b \<le> node_start (node_of mm k)" using chain_mono(2)[OF c that] by blast
    moreover have "node_start (node_of mm b) \<le> hole_node_start mm b" using Cons.prems(2) by (simp add: node_ok_def less_imp_le)
    ultimately have "unat (node_start (node_of mm b)) + unat (node_size (node_of mm b)) \<le> unat (node_start (node_of mm k))"
      using unat_node_end[of mm b] by (simp add: word_le_nat_alt)
    then show ?thesis by (auto simp: span_def)
  qed
  show ?case
    using Cons.IH[OF c] Cons.prems(3-6) before[of m] before[of n] by auto
qed simp

lemma mm_ok_disjoint:
  assumes "mm_ok lo hi mm"
  shows "m \<in> set (node_list mm) \<Longrightarrow> n \<in> set (node_list mm) \<Longrightarrow> m \<noteq> n \<Longrightarrow> span mm m \<inter> span mm n = {}"
    "n \<in> set (node_list mm) \<Longrightarrow> span mm n \<noteq> {} \<and> span mm n \<subseteq> {unat lo..<unat hi}"
proof -
  note d = mm_okD[OF assms]
  show "m \<in> set (node_list mm) \<Longrightarrow> n \<in> set (node_list mm) \<Longrightarrow> m \<noteq> n \<Longrightarrow> span mm m \<inter> span mm n = {}"
    using chain_disjoint[OF d(2,5)] d(1) by simp
  show "span mm n \<noteq> {} \<and> span mm n \<subseteq> {unat lo..<unat hi}" if n: "n \<in> set (node_list mm)"
  proof -
    have "lo \<le> node_start (node_of mm n)" "hole_node_start mm n \<le> hi" using chain_mono(2)[OF d(2,5) n] d(4) by simp_all
    moreover have lt: "node_start (node_of mm n) < hole_node_start mm n" using d(5) n by (simp add: node_ok_def)
    moreover note unat_node_end[OF less_imp_le[OF lt]]
    ultimately show ?thesis by (auto simp: span_def word_le_nat_alt word_less_nat_alt)
  qed
qed

text \<open>
  C14: In every state that any sequence of insertions (anywhere or in a range, bottom-up or top-down, best or
  first fit), reservations, removals and replacements reaches from an initialised allocator, the
  allocated nodes are non-empty ranges inside the managed range and no two of them overlap; and no
  operation runs into one of the allocator's \<open>BUG_ON\<close>s. Empty requests and requests within 4 GB of
  the end of the 64-bit address space are excluded.
\<close>

theorem mm_allocations_disjoint:
  assumes "mm_reach lo sz mm" "lo < lo + sz"
  shows "(\<forall>m n. allocated (node_of mm m) \<and> allocated (node_of mm n) \<and> m \<noteq> n \<longrightarrow> span mm m \<inter> span mm n = {}) \<and>
    (\<forall>n. allocated (node_of mm n) \<longrightarrow> span mm n \<noteq> {} \<and> span mm n \<subseteq> {unat lo..<unat (lo + sz)}) \<and>
    \<not> mm_op (lo + sz) mm (Inl OOPS)"
proof -
  note ok = mm_reach_ok[OF assms]
  show ?thesis using mm_ok_disjoint[OF ok] mm_okD(6)[OF ok] mm_op_ok[OF _ ok] by blast
qed

lemma mm_insert_complete_raw:
  assumes "mm_ok lo hi mm" "mm_small hi rng sz" "n \<noteq> HEAD" "\<not> allocated (node_of mm n)" "0 < unat sz"
  shows "case mm_insert mm rng n sz alignment color sflags ctop of
      Inr mm' \<Rightarrow> mm_ok lo hi mm' \<and> set (node_list mm') = insert n (set (node_list mm)) \<and>
        free_place lo hi mm rng sz alignment (unat (node_start (node_of mm' n))) \<and> node_size (node_of mm' n) = sz \<and>
        (\<forall>m. m \<noteq> n \<longrightarrow> span mm' m = span mm m)
    | Inl e \<Rightarrow> e = ENOSPC \<and> \<not> (\<exists>x. free_place lo hi mm rng sz alignment x)"
proof -
  note d = mm_okD[OF assms(1)]
  consider (found) h where "h \<in> set (hole_stack mm)" "fits mm rng sz alignment h"
      "mm_insert mm rng n sz alignment color sflags ctop = Inr (insert_result mm rng n sz alignment color ctop h)"
    | (full) "\<forall>h \<in> set (hole_stack mm). \<not> fits mm rng sz alignment h" "mm_insert mm rng n sz alignment color sflags ctop = Inl ENOSPC"
    using mm_insert_cases[OF assms(1,2,3,4,5), of alignment color sflags ctop] by blast
  then show ?thesis
  proof cases
    case found
    let ?mm = "insert_result mm rng n sz alignment color ctop h"
    let ?s = "place ctop alignment (fst (hole_range mm rng h)) (snd (hole_range mm rng h)) sz"
    have ok: "mm_ok lo hi ?mm" by (rule insert_result_ok[OF assms(1,2) found(1) assms(3,4) found(2) assms(5)])
    have h: "h \<in> set (ring mm)" using found(1) d(8) by simp
    have nl: "set (node_list ?mm) = insert n (set (node_list mm))" using ok unfolding insert_result_def Let_def
      by (intro set_node_list_inserted[OF assms(1) h assms(3,4)]) (simp_all add: new_node_def)
    have nd: "node_start (node_of ?mm n) = ?s" "node_size (node_of ?mm n) = sz" "m \<noteq> n \<Longrightarrow> span ?mm m = span mm m" for m
      by (simp_all add: insert_result_def Let_def inserted_def new_node_def span_def)
    have p: "aligned alignment (unat ?s)" "unat (?s + sz) = unat ?s + unat sz" "\<forall>rs re. rng = Some (rs, re) \<longrightarrow> rs \<le> ?s \<and> ?s + sz \<le> re"
      using insert_helpers_eq(3)[OF assms(1,2) found(1) assms(3,4) found(2) assms(5) refl] by blast+
    have sp: "span ?mm n = {unat ?s..<unat ?s + unat sz}" using nd(1,2) by (simp add: span_def)
    then have "unat lo \<le> unat ?s \<and> unat ?s + unat sz \<le> unat hi" using mm_ok_disjoint(2)[OF ok, of n] nl assms(5) by auto
    moreover have "{unat ?s..<unat ?s + unat sz} \<inter> span mm m = {}" if "m \<in> set (node_list mm)" for m
      using mm_ok_disjoint(1)[OF ok, of n m] that nl nd(3)[of m] d(6)[of n] assms(4) sp by auto
    ultimately have "free_place lo hi mm rng sz alignment (unat ?s)"
      using p unfolding free_place_def word_le_nat_alt by auto
    then show ?thesis using ok nl nd found(3) by simp
  next
    case full
    then show ?thesis using free_place_fits[OF assms(1,5), of rng alignment] by auto
  qed
qed

text \<open>
  C34: Insertion is exact. It succeeds exactly when there is a free, aligned place for the request in the managed and
  the allowed range; then the node has the requested size, lies at an aligned address in the
  allowed range, and the other nodes stay where they are. Otherwise it returns ENOSPC.
\<close>

theorem mm_insert_complete:
  assumes "mm_ok lo hi mm" "mm_small hi rng sz" "n \<noteq> HEAD" "\<not> allocated (node_of mm n)" "0 < unat sz"
  shows "case mm_insert mm rng n sz alignment color sflags ctop of
      Inr mm' \<Rightarrow> mm_ok lo hi mm' \<and> set (node_list mm') = insert n (set (node_list mm)) \<and>
        free_place lo hi mm rng sz alignment (unat (node_start (node_of mm' n))) \<and> node_size (node_of mm' n) = sz \<and>
        (\<forall>m. m \<noteq> n \<longrightarrow> span mm' m = span mm m)
    | Inl e \<Rightarrow> e = ENOSPC \<and> \<not> (\<exists>x. free_place lo hi mm rng sz alignment x)"
  by (rule mm_insert_complete_raw[OF assms])

definition sample_mm :: drm_mm where
  \<comment> \<open>a range of 100 pages with node 1 of 10 pages at its start\<close>
  "sample_mm = insert_result (drm_mm_init 0 100) None 1 10 0 0 False HEAD"

lemma sample_mm_inserted: "mm_insert (drm_mm_init 0 100) None 1 10 0 0 (True, False) False = Inr sample_mm"
proof -
  have fit: "fits (drm_mm_init 0 100) None 10 0 HEAD"
    by (simp add: fits_def hole_range_def drm_mm_init_def hole_node_start_def hole_node_end_def next_node_def al_up_def clear_node_def)
  have ok: "mm_ok 0 (0 + 100) (drm_mm_init 0 100)" by (rule mm_init_ok) simp
  have "\<exists>h \<in> set (hole_stack (drm_mm_init 0 100)). mm_insert (drm_mm_init 0 100) None 1 10 0 0 (True, False) False =
      Inr (insert_result (drm_mm_init 0 100) None 1 10 0 0 False h)"
    using mm_insert_cases[OF ok, where n = 1 and sz = 10 and rng = None and alignment = 0 and color = 0 and sflags = "(True, False)" and ctop = False] fit
    by (auto simp: drm_mm_init_def clear_node_def)
  then show ?thesis by (simp add: drm_mm_init_def sample_mm_def)
qed

lemma sample_mm_reach: "mm_reach 0 100 sample_mm"
proof (rule mm_reach.op[OF mm_reach.init])
  have "mm_op (0 + 100) (drm_mm_init 0 100) (mm_insert (drm_mm_init 0 100) None 1 10 0 0 (True, False) False)"
    by (rule insert_op) (simp_all add: drm_mm_init_def clear_node_def)
  then show "mm_op (0 + 100) (drm_mm_init 0 100) (Inr sample_mm)" by (simp only: sample_mm_inserted)
qed

lemma sample_mm_nodes: "node_list sample_mm = [1]" "allocated (node_of sample_mm n) \<longleftrightarrow> n = 1" "span sample_mm 1 = {0..<10}"
  by (simp_all add: sample_mm_def insert_result_def Let_def inserted_def new_node_def drm_mm_init_def clear_node_def place_def
      hole_range_def align_start_def hole_node_start_def span_def)

theorem mm_allocations_disjoint_witness:
  "span sample_mm 1 \<subseteq> {unat (0 :: u64)..<unat (0 + 100 :: u64)} \<and> allocated (node_of sample_mm 1)"
  using mm_allocations_disjoint[OF sample_mm_reach] sample_mm_nodes(2)[of 1] by simp

theorem mm_insert_complete_witness:
  "case mm_insert sample_mm (Some (5, 50)) 2 4 8 0 (False, True) True of
      Inr mm' \<Rightarrow> mm_ok 0 100 mm' \<and> set (node_list mm') = insert 2 (set (node_list sample_mm)) \<and>
        free_place 0 100 sample_mm (Some (5, 50)) 4 8 (unat (node_start (node_of mm' 2))) \<and> node_size (node_of mm' 2) = 4 \<and>
        (\<forall>m. m \<noteq> 2 \<longrightarrow> span mm' m = span sample_mm m)
    | Inl e \<Rightarrow> e = ENOSPC \<and> \<not> (\<exists>x. free_place 0 100 sample_mm (Some (5, 50)) 4 8 x)"
proof (rule mm_insert_complete)
  show "mm_ok 0 100 sample_mm" using mm_reach_ok[OF sample_mm_reach] by simp
  show "\<not> allocated (node_of sample_mm 2)" by (simp add: sample_mm_nodes)
qed simp_all

section \<open>The allocator is not clean\<close>

lemma drm_mm_clean_iff:
  assumes "mm_ok lo hi mm"
  shows "drm_mm_clean mm \<longleftrightarrow> length (node_list mm) \<le> 1"
proof -
  have dist: "0 \<notin> set (node_list mm)" "distinct (node_list mm)" using mm_okD(1)[OF assms] by auto
  show ?thesis
  proof (cases "node_list mm")
    case Nil
    then show ?thesis by (simp add: drm_mm_clean_def next_node_def)
  next
    case (Cons a as)
    then have "a \<noteq> 0" "0 \<notin> set as" using dist by auto
    then show ?thesis using Cons by (cases as) (auto simp: drm_mm_clean_def next_node_def)
  qed
qed

section \<open>A scan and its end\<close>

fun scan_in :: "drm_mm \<Rightarrow> nat list \<Rightarrow> drm_mm kres" where
  "scan_in mm [] = Inr mm"
| "scan_in mm (n # ns) = kbind (drm_mm_scan_add_block mm n) (\<lambda>(mm, _). scan_in mm ns)"

fun scan_out :: "drm_mm \<Rightarrow> nat list \<Rightarrow> drm_mm kres" where
  "scan_out mm [] = Inr mm"
| "scan_out mm (n # ns) = kbind (drm_mm_scan_remove_block mm n) (\<lambda>(mm, _). scan_out mm ns)"

definition core :: "drm_mm_node \<Rightarrow> drm_mm_node" where
  \<comment> \<open>a node without what only a scan reads\<close>
  "core x = x\<lparr>scanned_preceeds_hole := False, saved_prev := 0\<rparr>"

definition same_but :: "nat set \<Rightarrow> drm_mm \<Rightarrow> drm_mm \<Rightarrow> bool" where
  "same_but S mm mm' \<longleftrightarrow> node_list mm' = node_list mm \<and> hole_stack mm' = hole_stack mm \<and> scanned_blocks mm' = scanned_blocks mm \<and>
     (\<forall>m. m \<notin> S \<longrightarrow> node_of mm' m = node_of mm m) \<and> (\<forall>m. core (node_of mm' m) = core (node_of mm m))"

lemma scan_out_append: "scan_out mm (xs @ ys) = kbind (scan_out mm xs) (\<lambda>mm. scan_out mm ys)"
proof (induction xs arbitrary: mm)
  case (Cons x xs)
  then show ?case by (cases "drm_mm_scan_remove_block mm x") auto
qed simp

definition scan_added :: "drm_mm \<Rightarrow> nat \<Rightarrow> drm_mm" where
  \<comment> \<open>the ring and the nodes after \<open>drm_mm_scan_add_block\<close>\<close>
  "scan_added mm n =
     (let p = prev_node mm n in
      mm\<lparr>scanned_blocks := scanned_blocks mm + 1, node_list := remove1 n (node_list mm),
         node_of := (node_of mm)(n := (node_of mm n)\<lparr>scanned_block := True, scanned_preceeds_hole := hole_follows (node_of mm p), saved_prev := p\<rparr>,
           p := (node_of mm p)\<lparr>hole_follows := True\<rparr>)\<rparr>)"

lemma scan_add_block_eq:
  assumes "\<not> scanned_block (node_of mm n)" "prev_node mm n \<noteq> n"
  shows "\<exists>mm1 b. drm_mm_scan_add_block mm n = Inr (mm1, b) \<and> node_of mm1 = node_of (scan_added mm n) \<and>
    node_list mm1 = node_list (scan_added mm n) \<and> hole_stack mm1 = hole_stack mm \<and> scanned_blocks mm1 = scanned_blocks mm + 1"
  using assms
  by (auto simp: drm_mm_scan_add_block_def scan_added_def Let_def upd_node_def split: prod.splits)

lemma scan_remove_block_eq:
  assumes "scanned_block (node_of mm n)"
  shows "\<exists>b. drm_mm_scan_remove_block mm n =
    Inr (node_list_add n (saved_prev (node_of mm n)) (upd_node (saved_prev (node_of mm n))
      (\<lambda>x. x\<lparr>hole_follows := scanned_preceeds_hole (node_of mm n)\<rparr>)
      (upd_node n (\<lambda>x. x\<lparr>scanned_block := False\<rparr>) (mm\<lparr>scanned_blocks := scanned_blocks mm - 1\<rparr>))), b)"
  using assms by (simp add: drm_mm_scan_remove_block_def Let_def upd_node_def)

lemma ring_restored:
  assumes "distinct (ring mm)" "n \<in> set (node_list mm)"
  shows "tl (add_after (prev_node mm n) n (HEAD # remove1 n (node_list mm))) = node_list mm" "prev_node mm n \<noteq> n"
    "prev_node mm n \<in> set (HEAD # remove1 n (node_list mm))"
proof -
  obtain xs ys where r: "ring mm = xs @ n # ys" "n \<notin> set xs" "n \<notin> set ys" using ring_split[of n mm] assms by auto
  have n0: "n \<noteq> HEAD" using assms by (metis distinct.simps(2))
  then obtain xs' where "xs = HEAD # xs'" using r(1) by (cases xs) auto
  then obtain zs p where xs: "xs = zs @ [p]" by (metis list.distinct(1) rev_exhaust)
  have p: "prev_node mm n = p" using prev_node_split[OF r(1,2)] xs by simp
  have "HEAD # remove1 n (node_list mm) = remove1 n (ring mm)" using n0 by simp
  also have "\<dots> = zs @ p # ys" unfolding r(1) xs using r(2) xs by (simp add: remove1_append)
  finally have rem: "HEAD # remove1 n (node_list mm) = zs @ p # ys" .
  moreover have "p \<notin> set zs" using assms(1) unfolding r(1) xs by simp
  ultimately have "add_after p n (HEAD # remove1 n (node_list mm)) = ring mm" unfolding r(1) xs by (simp add: add_after_split)
  then show "tl (add_after (prev_node mm n) n (HEAD # remove1 n (node_list mm))) = node_list mm" unfolding p by simp
  show "prev_node mm n \<noteq> n" using r(2) xs unfolding p by auto
  show "prev_node mm n \<in> set (HEAD # remove1 n (node_list mm))" unfolding p rem by simp
qed

lemma scan_restores:
  assumes "distinct (ring mm)" "distinct ns" "set ns \<subseteq> set (node_list mm)" "\<forall>n \<in> set ns. \<not> scanned_block (node_of mm n)"
  shows "\<exists>mm1 mm2. scan_in mm ns = Inr mm1 \<and> scan_out mm1 (rev ns) = Inr mm2 \<and> same_but (set ns) mm mm2"
  using assms
proof (induction ns arbitrary: mm)
  case Nil
  then show ?case by (auto simp: same_but_def)
next
  case (Cons n ns)
  have n: "n \<in> set (node_list mm)" using Cons.prems(3) by simp
  note rr = ring_restored[OF Cons.prems(1) n]
  let ?p = "prev_node mm n"
  obtain mma b where a: "drm_mm_scan_add_block mm n = Inr (mma, b)" "node_of mma = node_of (scan_added mm n)"
    "node_list mma = remove1 n (node_list mm)" "hole_stack mma = hole_stack mm" "scanned_blocks mma = scanned_blocks mm + 1"
    using scan_add_block_eq[OF _ rr(2)] Cons.prems(4) by (auto simp: scan_added_def Let_def)
  have nd: "node_of mma m = (if m = ?p then (node_of mm ?p)\<lparr>hole_follows := True\<rparr> else if m = n then
      (node_of mm n)\<lparr>scanned_block := True, scanned_preceeds_hole := hole_follows (node_of mm ?p), saved_prev := ?p\<rparr> else node_of mm m)" for m
    using a(2) by (simp add: scan_added_def Let_def)
  have "distinct (ring mma)" using Cons.prems(1) a(3) by (auto dest: notin_set_remove1 simp: distinct_remove1)
  moreover have "set ns \<subseteq> set (node_list mma)" using Cons.prems(1-3) a(3) by auto
  moreover have "\<forall>m \<in> set ns. \<not> scanned_block (node_of mma m)" using Cons.prems(2,4) by (auto simp: nd)
  ultimately obtain mm1 mm2 where io: "scan_in mma ns = Inr mm1" "scan_out mm1 (rev ns) = Inr mm2" "same_but (set ns) mma mm2"
    using Cons.IH[of mma] Cons.prems(2) by auto
  have n2: "node_of mm2 n = node_of mma n" using io(3) Cons.prems(2) by (simp add: same_but_def)
  then have sc: "scanned_block (node_of mm2 n)" "saved_prev (node_of mm2 n) = ?p"
    "scanned_preceeds_hole (node_of mm2 n) = hole_follows (node_of mm ?p)" using rr(2) by (auto simp: nd)
  obtain mm3 c where r3: "drm_mm_scan_remove_block mm2 n = Inr (mm3, c)" and
    mm3: "mm3 = node_list_add n ?p (upd_node ?p (\<lambda>x. x\<lparr>hole_follows := hole_follows (node_of mm ?p)\<rparr>)
      (upd_node n (\<lambda>x. x\<lparr>scanned_block := False\<rparr>) (mm2\<lparr>scanned_blocks := scanned_blocks mm2 - 1\<rparr>)))"
    using scan_remove_block_eq[OF sc(1)] sc(2,3) by auto
  have "scan_out mm1 (rev (n # ns)) = Inr mm3" using io(2) r3 by (simp add: scan_out_append)
  moreover have "same_but (set (n # ns)) mm mm3"
  proof -
    have l: "node_list mm2 = remove1 n (node_list mm)" "hole_stack mm2 = hole_stack mm" "scanned_blocks mm2 = scanned_blocks mm + 1"
      using io(3) a by (simp_all add: same_but_def)
    have m3: "node_of mm3 m = (if m = ?p then (node_of mm2 ?p)\<lparr>hole_follows := hole_follows (node_of mm ?p)\<rparr>
        else if m = n then (node_of mm2 n)\<lparr>scanned_block := False\<rparr> else node_of mm2 m)" for m
      unfolding mm3 using rr(2) by (simp add: node_list_add_def upd_node_def)
    have c2: "core (node_of mm2 m) = core (node_of mma m)" "m \<notin> set ns \<Longrightarrow> node_of mm2 m = node_of mma m" for m
      using io(3) by (simp_all add: same_but_def)
    have "core (node_of mm3 m) = core (node_of mm m)" for m
    proof -
      consider "m = ?p" | "m \<noteq> ?p" "m = n" | "m \<noteq> ?p" "m \<noteq> n" by blast
      then show ?thesis
      proof cases
        case 1
        have "core (node_of mm3 ?p) = (core (node_of mm2 ?p))\<lparr>hole_follows := hole_follows (node_of mm ?p)\<rparr>" by (simp add: m3 core_def)
        also have "\<dots> = (core (node_of mma ?p))\<lparr>hole_follows := hole_follows (node_of mm ?p)\<rparr>" by (simp only: c2(1))
        also have "\<dots> = core (node_of mm ?p)" by (simp add: nd core_def)
        finally show ?thesis using 1 by simp
      next
        case 2
        then show ?thesis using Cons.prems(4) by (simp add: m3 n2 nd core_def)
      next
        case 3
        then show ?thesis using c2(1)[of m] by (simp add: m3 nd)
      qed
    qed
    moreover have "node_of mm3 m = node_of mm m" if "m \<notin> set (n # ns)" for m
      using that c2(2)[of m] by (cases "m = ?p") (auto simp: m3 nd)
    moreover have "node_list mm3 = node_list mm" "hole_stack mm3 = hole_stack mm" "scanned_blocks mm3 = scanned_blocks mm"
      using rr(1) l unfolding mm3 by (simp_all add: node_list_add_def upd_node_def)
    ultimately show ?thesis by (simp add: same_but_def)
  qed
  moreover have "scan_in mm (n # ns) = Inr mm1" using a(1) io(1) by simp
  ultimately show ?case by blast
qed

text \<open>A scan leaves no trace when it is undone in the reverse order: after
  \<open>drm_mm_scan_add_block\<close> on any sequence of distinct allocated nodes and \<open>drm_mm_scan_remove_block\<close> on
  the same nodes in the reverse order, neither of which runs into a \<open>BUG_ON\<close>, the ring, the hole stack and
  all nodes are as before, up to the two fields in which a node keeps its place during the scan.
\<close>

lemma scan_undone_in_reverse:
  assumes "mm_ok lo hi mm" "distinct ns" "\<forall>n \<in> set ns. allocated (node_of mm n)"
  shows "\<exists>mm1 mm2. scan_in mm ns = Inr mm1 \<and> scan_out mm1 (rev ns) = Inr mm2 \<and> same_but (set ns) mm mm2"
proof (rule scan_restores[OF mm_okD(1)[OF assms(1)] assms(2)])
  show "set ns \<subseteq> set (node_list mm)" using assms(3) mm_okD(6)[OF assms(1)] by blast
  show "\<forall>n \<in> set ns. \<not> scanned_block (node_of mm n)" using mm_okD(11)[OF assms(1)] by (simp add: unscanned_def)
qed

lemma scan_undone_in_reverse_example:
  "\<exists>mm1 mm2. scan_in sample_mm [1] = Inr mm1 \<and> scan_out mm1 (rev [1]) = Inr mm2 \<and> same_but (set [1]) sample_mm mm2"
  by (rule scan_undone_in_reverse[OF mm_reach_ok[OF sample_mm_reach]]) (simp_all add: sample_mm_nodes)

text \<open>
  In the order in which they were added, which the comment of \<open>drm_mm_scan_remove_block\<close> asks for, two
  adjacent nodes come back in the wrong order of the ring.
\<close>

lemma scan_undone_in_order_corrupts:
  "kbind (mm_insert (drm_mm_init 0 100) None 1 10 0 0 (False, False) False) (\<lambda>mm.
   kbind (mm_insert mm None 2 10 0 0 (False, False) False) (\<lambda>mm.
   kbind (scan_in (drm_mm_init_scan mm 20 0 0) [1, 2]) (\<lambda>mm.
   kbind (scan_out mm [1, 2]) (\<lambda>mm. Inr (node_list mm))))) = Inr [2, 1]"
  by code_simp

end
