(* ===== verification/Ttm_Bo_Manager.thy ===== *)
theory Ttm_Bo_Manager
  imports Mm
begin

text \<open>
  The TTM range manager of \<open>src/ttm/ttm_bo_manager.c\<close>, which places buffer objects in the page range of a
  memory type with the range allocator of theory \<open>Mm\<close>. What it needs of an allocator is the locale
  \<open>range_allocator\<close>; what holds of any set of owners of nodes is proved there, once, and the
  allocator's model is an interpretation of it. Memory that \<open>kzalloc\<close> hands out is the number of a node that is
  not in use, or nothing.
\<close>

section \<open>The interface of a range allocator\<close>

definition owners :: "('b \<Rightarrow> nat option) \<Rightarrow> nat set \<Rightarrow> bool" where
  \<comment> \<open>the nodes in use are owned, each by one owner\<close>
  "owners own A \<longleftrightarrow> ran own = A \<and> inj_on own (dom own)"

lemma owners_add:
  assumes "owners own A" "n \<notin> A" "own b = None"
  shows "owners (own(b \<mapsto> n)) (insert n A)"
proof -
  have "ran (own(b \<mapsto> n)) = insert n (ran own)" using assms(3) by (simp add: ran_map_upd)
  moreover have "inj_on (own(b \<mapsto> n)) (insert b (dom own))"
    using assms unfolding owners_def inj_on_def by (auto simp: ran_def)
  ultimately show ?thesis using assms(1) by (simp add: owners_def)
qed

lemma owners_remove:
  assumes "owners own A" "own b = Some n"
  shows "owners (own(b := None)) (A - {n})"
  using assms unfolding owners_def
  by (auto simp: inj_on_def ran_def dom_def) (metis option.inject)+

lemma owners_distinct: "owners own A \<Longrightarrow> own b = Some m \<Longrightarrow> own c = Some n \<Longrightarrow> b \<noteq> c \<Longrightarrow> m \<noteq> n \<and> m \<in> A \<and> n \<in> A"
  unfolding owners_def inj_on_def dom_def ran_def by auto

locale range_allocator =
  fixes inv :: "'mm \<Rightarrow> bool"
    and live :: "'mm \<Rightarrow> nat set"
    and extent :: "'mm \<Rightarrow> nat \<Rightarrow> nat set"
    and good :: "'req \<Rightarrow> nat \<Rightarrow> bool"
    and ins :: "'req \<Rightarrow> nat \<Rightarrow> 'mm \<Rightarrow> 'mm kres"
    and del :: "nat \<Rightarrow> 'mm \<Rightarrow> 'mm kres"
  assumes live_disjoint: "inv mm \<Longrightarrow> m \<in> live mm \<Longrightarrow> n \<in> live mm \<Longrightarrow> m \<noteq> n \<Longrightarrow> extent mm m \<inter> extent mm n = {}"
    and ins_ok: "inv mm \<Longrightarrow> good r n \<Longrightarrow> n \<notin> live mm \<Longrightarrow> ins r n mm = Inr mm' \<Longrightarrow>
      inv mm' \<and> live mm' = insert n (live mm) \<and> (\<forall>m \<in> live mm. extent mm' m = extent mm m)"
    and ins_err: "inv mm \<Longrightarrow> good r n \<Longrightarrow> n \<notin> live mm \<Longrightarrow> ins r n mm = Inl e \<Longrightarrow> e = ENOSPC"
    and del_ok: "inv mm \<Longrightarrow> n \<in> live mm \<Longrightarrow>
      \<exists>mm'. del n mm = Inr mm' \<and> inv mm' \<and> live mm' = live mm - {n} \<and> (\<forall>m \<in> live mm'. extent mm' m = extent mm m)"
begin

lemma owners_disjoint:
  assumes "inv mm" "owners own (live mm)" "own b = Some m" "own c = Some n" "b \<noteq> c"
  shows "extent mm m \<inter> extent mm n = {}"
  using live_disjoint[OF assms(1)] owners_distinct[OF assms(2-5)] by blast

lemma owners_ins:
  assumes "inv mm" "owners own (live mm)" "good r n" "n \<notin> live mm" "own b = None" "ins r n mm = Inr mm'"
  shows "inv mm' \<and> owners (own(b \<mapsto> n)) (live mm')"
  using ins_ok[OF assms(1,3,4,6)] owners_add[OF assms(2,4,5)] by simp

lemma owners_del:
  assumes "inv mm" "owners own (live mm)" "own b = Some n"
  shows "\<exists>mm'. del n mm = Inr mm' \<and> inv mm' \<and> owners (own(b := None)) (live mm')"
proof -
  have "n \<in> live mm" using assms(2,3) by (auto simp: owners_def ran_def)
  then show ?thesis using del_ok[OF assms(1)] owners_remove[OF assms(2,3)] by metis
qed

end

section \<open>The manager\<close>

record ttm_place =
  fpfn :: u32
  lpfn :: u32
  place_topdown :: bool \<comment> \<open>\<open>TTM_PL_FLAG_TOPDOWN\<close> in the flags\<close>

record ttm_mem_reg =
  mm_node :: "nat option"
  mem_start :: u64
  num_pages :: u64
  page_alignment :: u32

record ttm_mem_type_manager =
  priv :: "drm_mm option" \<comment> \<open>the range manager\<close>
  man_size :: u64

definition get_node_insert :: "u64 \<times> u64 \<times> bool \<times> u64 \<times> u32 \<Rightarrow> nat \<Rightarrow> drm_mm \<Rightarrow> drm_mm kres" where
  \<comment> \<open>the allocation of the node, cleared, and its insertion\<close>
  "get_node_insert r n mm =
     (case r of (fp, lp, topdown, pages, alignment) \<Rightarrow>
        drm_mm_insert_node_in_range_generic (upd_node n (\<lambda>_. clear_node) mm) n pages alignment 0 fp lp
          (if topdown then (False, True) else (True, False)) topdown)"

definition ttm_bo_man_get_node ::
    "nat option \<Rightarrow> ttm_mem_type_manager \<Rightarrow> ttm_place \<Rightarrow> ttm_mem_reg \<Rightarrow> (ttm_mem_type_manager \<times> ttm_mem_reg) kres" where
  \<comment> \<open>the first argument is what \<open>kzalloc\<close> returns\<close>
  "ttm_bo_man_get_node kzalloc man pl mem =
     (case priv man of None \<Rightarrow> Inl OOPS
      | Some mm \<Rightarrow>
          let lp = (if lpfn pl = 0 then man_size man else ucast (lpfn pl)) in
          (case kzalloc of None \<Rightarrow> Inl ENOMEM
          | Some node \<Rightarrow>
              (case get_node_insert (ucast (fpfn pl), lp, place_topdown pl, num_pages mem, page_alignment mem) node mm of
                 Inr mm' \<Rightarrow> Inr (man\<lparr>priv := Some mm'\<rparr>, mem\<lparr>mm_node := Some node, mem_start := node_start (node_of mm' node)\<rparr>)
               | Inl e \<Rightarrow> if e = OOPS then Inl OOPS else Inr (man, mem))))"

definition ttm_bo_man_put_node :: "ttm_mem_type_manager \<Rightarrow> ttm_mem_reg \<Rightarrow> (ttm_mem_type_manager \<times> ttm_mem_reg) kres" where
  "ttm_bo_man_put_node man mem =
     (case mm_node mem of None \<Rightarrow> Inr (man, mem)
      | Some node \<Rightarrow>
          (case priv man of None \<Rightarrow> Inl OOPS
           | Some mm \<Rightarrow> kbind (drm_mm_remove_node mm node) (\<lambda>mm'. Inr (man\<lparr>priv := Some mm'\<rparr>, mem\<lparr>mm_node := None\<rparr>))))"

definition ttm_bo_man_init :: "bool \<Rightarrow> ttm_mem_type_manager \<Rightarrow> u64 \<Rightarrow> ttm_mem_type_manager kres" where
  \<comment> \<open>the first argument says whether \<open>kzalloc\<close> succeeds\<close>
  "ttm_bo_man_init kzalloc_ok man p_size =
     (if \<not> kzalloc_ok then Inl ENOMEM else Inr (man\<lparr>priv := Some (drm_mm_init 0 p_size)\<rparr>))"

definition ttm_bo_man_takedown :: "ttm_mem_type_manager \<Rightarrow> ttm_mem_type_manager \<times> unit kres" where
  "ttm_bo_man_takedown man =
     (case priv man of None \<Rightarrow> (man, Inl OOPS)
      | Some mm \<Rightarrow> if drm_mm_clean mm then (man\<lparr>priv := None\<rparr>, Inr ()) else (man, Inl EBUSY))"

section \<open>The allocator provides the interface\<close>

abbreviation good_request :: "u64 \<Rightarrow> u64 \<times> u64 \<times> bool \<times> u64 \<times> u32 \<Rightarrow> nat \<Rightarrow> bool" where
  "good_request hi r n \<equiv> n \<noteq> HEAD \<and> (case r of (fp, lp, topdown, pages, alignment) \<Rightarrow> 0 < unat pages \<and> mm_small hi (Some (fp, lp)) pages)"

lemma get_node_insert_spec:
  assumes "mm_ok lo hi mm" "good_request hi r n" "n \<notin> set (node_list mm)"
  shows "case get_node_insert r n mm of
      Inr mm' \<Rightarrow> mm_ok lo hi mm' \<and> set (node_list mm') = insert n (set (node_list mm)) \<and> (\<forall>m. m \<noteq> n \<longrightarrow> span mm' m = span mm m) \<and>
        span mm' n \<subseteq> {unat (fst r)..<unat (fst (snd r))}
    | Inl e \<Rightarrow> e = ENOSPC"
proof -
  obtain fp lp td pages al where r: "r = (fp, lp, td, pages, al)" by (cases r)
  let ?mm = "upd_node n (\<lambda>_. clear_node) mm"
  have g: "n \<noteq> 0" "0 < unat pages" "mm_small hi (Some (fp, lp)) pages" using assms(2) r by auto
  have na: "\<not> allocated (node_of mm n)" using mm_okD(6)[OF assms(1), of n] assms(3) by simp
  have ok: "mm_ok lo hi ?mm" by (rule upd_node_ok[OF assms(1) g(1) na]) (simp_all add: clear_node_def unscanned_def)
  have cl: "\<not> allocated (node_of ?mm n)" by (simp add: upd_node_def clear_node_def)
  have same: "node_list ?mm = node_list mm" "m \<noteq> n \<Longrightarrow> span ?mm m = span mm m" for m by (simp_all add: upd_node_def span_def)
  have eq: "get_node_insert r n mm = mm_insert ?mm (Some (fp, lp)) n pages al 0 (if td then (False, True) else (True, False)) td"
    by (simp add: get_node_insert_def mm_insert_def r)
  show ?thesis
  proof (cases "get_node_insert r n mm")
    case (Inl e)
    then show ?thesis
      using mm_insert_complete_raw[OF ok g(3,1) cl g(2), of al 0 "if td then (False, True) else (True, False)" td] unfolding eq by simp
  next
    case (Inr mm')
    note spec = mm_insert_complete_raw[OF ok g(3,1) cl g(2), of al 0 "if td then (False, True) else (True, False)" td,
        folded eq, unfolded Inr sum.case]
    then have "unat fp \<le> unat (node_start (node_of mm' n))" "unat (node_start (node_of mm' n)) + unat pages \<le> unat lp"
      by (simp_all add: free_place_def)
    then have "span mm' n \<subseteq> {unat fp..<unat lp}" using spec by (auto simp: span_def)
    then show ?thesis using spec same unfolding Inr sum.case by (simp add: r)
  qed
qed

lemma remove_node_spec:
  assumes "mm_ok lo hi mm" "n \<in> set (node_list mm)"
  shows "\<exists>mm'. drm_mm_remove_node mm n = Inr mm' \<and> mm_ok lo hi mm' \<and> set (node_list mm') = set (node_list mm) - {n} \<and> (\<forall>m. span mm' m = span mm m)"
proof -
  have "distinct (node_list mm)" using mm_okD(1)[OF assms(1)] by simp
  then have "set (node_list (removed mm (prev_node mm n) n)) = set (node_list mm) - {n}" by (simp add: removed_def)
  moreover have "span (removed mm (prev_node mm n) n) m = span mm m" for m by (simp add: span_def removed_def)
  ultimately show ?thesis using remove_node_eq[OF assms] removed_ok[OF assms] by simp
qed

interpretation mm_alloc: range_allocator "mm_ok lo hi" "\<lambda>mm. set (node_list mm)" span "good_request hi" get_node_insert "\<lambda>n mm. drm_mm_remove_node mm n"
  for lo hi :: u64
proof unfold_locales
  show "span mm m \<inter> span mm n = {}" if "mm_ok lo hi mm" "m \<in> set (node_list mm)" "n \<in> set (node_list mm)" "m \<noteq> n" for mm m n
    using mm_ok_disjoint(1)[OF that(1)] that(2-4) by blast
  show "mm_ok lo hi mm' \<and> set (node_list mm') = insert n (set (node_list mm)) \<and> (\<forall>m \<in> set (node_list mm). span mm' m = span mm m)"
    if "mm_ok lo hi mm" "good_request hi r n" "n \<notin> set (node_list mm)" "get_node_insert r n mm = Inr mm'" for mm r n mm'
  proof -
    note spec = get_node_insert_spec[OF that(1-3), unfolded that(4) sum.case]
    then have "span mm' m = span mm m" if "m \<in> set (node_list mm)" for m
      using that \<open>n \<notin> set (node_list mm)\<close> by metis
    then show ?thesis using spec by blast
  qed
  show "e = ENOSPC" if "mm_ok lo hi mm" "good_request hi r n" "n \<notin> set (node_list mm)" "get_node_insert r n mm = Inl e" for mm r n e
    using get_node_insert_spec[OF that(1-3)] that(4) by simp
  show "\<exists>mm'. drm_mm_remove_node mm n = Inr mm' \<and> mm_ok lo hi mm' \<and> set (node_list mm') = set (node_list mm) - {n} \<and>
      (\<forall>m \<in> set (node_list mm'). span mm' m = span mm m)"
    if "mm_ok lo hi mm" "n \<in> set (node_list mm)" for mm n
  proof -
    note spec = remove_node_spec[OF that]
    obtain mm' where "drm_mm_remove_node mm n = Inr mm'" "mm_ok lo hi mm'" "set (node_list mm') = set (node_list mm) - {n}"
      "\<forall>m. span mm' m = span mm m" using spec by auto
    then show ?thesis by (intro exI[of _ mm']) simp
  qed
qed

section \<open>Buffers and their pages\<close>

record ttm_system =
  man :: ttm_mem_type_manager
  mem_of :: "nat \<Rightarrow> ttm_mem_reg"

text \<open>Buffer objects get and give back their place, in any order.\<close>

inductive ttm_man_step :: "ttm_system \<Rightarrow> ttm_system \<Rightarrow> bool" where
  get: "mm_node (mem_of s b) = None \<Longrightarrow> 0 < unat (num_pages (mem_of s b)) \<Longrightarrow>
    unat (man_size (man s)) + 2 ^ 33 + unat (num_pages (mem_of s b)) \<le> 2 ^ 64 \<Longrightarrow>
    (\<forall>n mm. kzalloc = Some n \<longrightarrow> priv (man s) = Some mm \<longrightarrow> n \<noteq> HEAD \<and> \<not> allocated (node_of mm n)) \<Longrightarrow>
    ttm_bo_man_get_node kzalloc (man s) pl (mem_of s b) = Inr (man', mem') \<Longrightarrow>
    ttm_man_step s (s\<lparr>man := man', mem_of := (mem_of s)(b := mem')\<rparr>)"
| put: "ttm_bo_man_put_node (man s) (mem_of s b) = Inr (man', mem') \<Longrightarrow>
    ttm_man_step s (s\<lparr>man := man', mem_of := (mem_of s)(b := mem')\<rparr>)"

definition ttm_man_start :: "u64 \<Rightarrow> (nat \<Rightarrow> u64 \<times> u32) \<Rightarrow> ttm_system" where
  "ttm_man_start p_size sizes =
     \<lparr>man = \<lparr>priv = Some (drm_mm_init 0 p_size), man_size = p_size\<rparr>,
      mem_of = (\<lambda>b. \<lparr>mm_node = None, mem_start = 0, num_pages = fst (sizes b), page_alignment = snd (sizes b)\<rparr>)\<rparr>"

definition ttm_man_inv :: "u64 \<Rightarrow> ttm_system \<Rightarrow> bool" where
  "ttm_man_inv p_size s \<longleftrightarrow> man_size (man s) = p_size \<and>
     (\<exists>mm. priv (man s) = Some mm \<and> mm_ok 0 p_size mm \<and> owners (\<lambda>b. mm_node (mem_of s b)) (set (node_list mm)))"

lemma ttm_man_start_inv: "0 < p_size \<Longrightarrow> ttm_man_inv p_size (ttm_man_start p_size sizes)"
  using mm_init_ok[of 0 p_size]
  by (simp add: ttm_man_inv_def ttm_man_start_def drm_mm_init_def owners_def ran_def dom_def)

lemma ttm_man_step_inv:
  assumes "ttm_man_step s s'" "ttm_man_inv p_size s"
  shows "ttm_man_inv p_size s'"
proof -
  obtain mm where mm: "priv (man s) = Some mm" "mm_ok 0 p_size mm" "owners (\<lambda>b. mm_node (mem_of s b)) (set (node_list mm))"
    and sz: "man_size (man s) = p_size" using assms(2) by (auto simp: ttm_man_inv_def)
  from assms(1) show ?thesis
  proof cases
    case (get b kzalloc pl man' mem')
    let ?lp = "if lpfn pl = 0 then man_size (man s) else ucast (lpfn pl)"
    let ?r = "(ucast (fpfn pl) :: u64, ?lp, place_topdown pl, num_pages (mem_of s b), page_alignment (mem_of s b))"
    obtain n where n: "kzalloc = Some n" using get(6) mm(1) by (cases kzalloc) (auto simp: ttm_bo_man_get_node_def)
    have na: "n \<noteq> 0" "n \<notin> set (node_list mm)" using get(5) n mm(1) mm_okD(6)[OF mm(2), of n] by auto
    have "unat (ucast (fpfn pl) :: u64) < 2 ^ 32"
      using unsigned_less[where 'a = nat, of "fpfn pl"] by (simp add: unat_ucast32)
    then have good: "good_request p_size ?r n" using na(1) get(3,4) sz by simp
    show ?thesis
    proof (cases "get_node_insert ?r n mm")
      case (Inl e)
      then have "man' = man s" "mem' = mem_of s b"
        using get(6) n mm(1) mm_alloc.ins_err[OF mm(2) good na(2)] by (auto simp: ttm_bo_man_get_node_def Let_def)
      then show ?thesis using assms(2) get(1) by (simp add: fun_upd_idem)
    next
      case (Inr mm')
      then have eq: "man' = (man s)\<lparr>priv := Some mm'\<rparr>" "mm_node mem' = Some n"
        using get(6) n mm(1) by (auto simp: ttm_bo_man_get_node_def Let_def)
      have "mm_ok 0 p_size mm' \<and> owners ((\<lambda>b. mm_node (mem_of s b))(b \<mapsto> n)) (set (node_list mm'))"
        by (rule mm_alloc.owners_ins[OF mm(2,3) good na(2) get(2) Inr])
      moreover have "(\<lambda>b. mm_node (mem_of s b))(b \<mapsto> n) = (\<lambda>c. mm_node (((mem_of s)(b := mem')) c))" using eq(2) by auto
      ultimately show ?thesis using get(1) eq(1) sz by (simp add: ttm_man_inv_def)
    qed
  next
    case (put b man' mem')
    show ?thesis
    proof (cases "mm_node (mem_of s b)")
      case None
      then show ?thesis using put assms(2) by (auto simp: ttm_bo_man_put_node_def fun_upd_idem)
    next
      case (Some n)
      obtain mm' where "drm_mm_remove_node mm n = Inr mm'" "mm_ok 0 p_size mm'"
        "owners ((\<lambda>b. mm_node (mem_of s b))(b := None)) (set (node_list mm'))"
        using mm_alloc.owners_del[OF mm(2,3) Some] by blast
      moreover then have "man' = (man s)\<lparr>priv := Some mm'\<rparr>" "mm_node mem' = None"
        using put(2) Some mm(1) by (auto simp: ttm_bo_man_put_node_def)
      moreover then have "(\<lambda>b. mm_node (mem_of s b))(b := None) = (\<lambda>c. mm_node (((mem_of s)(b := mem')) c))" by auto
      ultimately show ?thesis using put(1) sz by (simp add: ttm_man_inv_def)
    qed
  qed
qed

lemma ttm_man_reachable_inv:
  assumes "ttm_man_step\<^sup>*\<^sup>* (ttm_man_start p_size sizes) s" "0 < p_size"
  shows "ttm_man_inv p_size s"
  using assms(1) by induction (auto intro: ttm_man_start_inv[OF assms(2)] ttm_man_step_inv)

text \<open>Buffer objects never share pages: whatever the order in which they get and give back their places in
  a memory type of \<open>p_size\<close> pages, the page ranges of any two that have one are disjoint and lie
  inside the memory type, also when allocations fail.
\<close>

lemma buffers_have_disjoint_pages:
  assumes "ttm_man_step\<^sup>*\<^sup>* (ttm_man_start p_size sizes) s" "0 < p_size" "priv (man s) = Some mm"
    "mm_node (mem_of s b) = Some m" "mm_node (mem_of s c) = Some n" "b \<noteq> c"
  shows "span mm m \<inter> span mm n = {} \<and> span mm m \<subseteq> {0..<unat p_size}"
proof -
  have mm: "mm_ok 0 p_size mm" "owners (\<lambda>b. mm_node (mem_of s b)) (set (node_list mm))"
    using ttm_man_reachable_inv[OF assms(1,2)] assms(3) by (auto simp: ttm_man_inv_def)
  show ?thesis
    using mm_alloc.owners_disjoint[OF mm assms(4,5,6)] mm_ok_disjoint(2)[OF mm(1), of m] owners_distinct[OF mm(2) assms(4,5,6)] by simp
qed

subsection \<open>Two buffers\<close>

abbreviation two_start :: ttm_system where "two_start \<equiv> ttm_man_start 100 (\<lambda>_. (10, 0))"

abbreviation any_place :: ttm_place where "any_place \<equiv> \<lparr>fpfn = 0, lpfn = 0, place_topdown = False\<rparr>"

lemma two_inserts:
  "\<exists>mm1 mm2. get_node_insert (0, 100, False, 10, 0) 1 (drm_mm_init 0 100) = Inr mm1 \<and> get_node_insert (0, 100, False, 10, 0) 2 mm1 = Inr mm2"
proof -
  have "case kbind (get_node_insert (0, 100, False, 10, 0) 1 (drm_mm_init 0 100)) (get_node_insert (0, 100, False, 10, 0) 2) of
      Inl _ \<Rightarrow> False | Inr _ \<Rightarrow> True" by code_simp
  then show ?thesis by (auto split: sum.splits)
qed

lemma two_buffers:
  "\<exists>s1 s2 mm2. ttm_man_step\<^sup>*\<^sup>* two_start s1 \<and> mm_node (mem_of s1 0) = Some 1 \<and> (\<forall>b. b \<noteq> 0 \<longrightarrow> mm_node (mem_of s1 b) = None) \<and>
     ttm_man_step s1 s2 \<and> mm_node (mem_of s2 0) = Some 1 \<and> mm_node (mem_of s2 1) = Some 2 \<and> priv (man s2) = Some mm2"
proof -
  let ?r = "(0, 100, False, 10, 0) :: u64 \<times> u64 \<times> bool \<times> u64 \<times> u32"
  obtain mm1 mm2 where i: "get_node_insert ?r 1 (drm_mm_init 0 100) = Inr mm1" "get_node_insert ?r 2 mm1 = Inr mm2"
    using two_inserts by blast
  have ok0: "mm_ok 0 100 (drm_mm_init 0 100)" using mm_init_ok[of 0 100] by simp
  have "mm_ok 0 100 mm1 \<and> set (node_list mm1) = insert 1 (set (node_list (drm_mm_init 0 100))) \<and>
      (\<forall>m \<in> set (node_list (drm_mm_init 0 100)). span mm1 m = span (drm_mm_init 0 100) m)"
    by (rule mm_alloc.ins_ok[OF ok0 _ _ i(1)]) (simp_all add: drm_mm_init_def)
  then have na: "\<not> allocated (node_of mm1 2)" using mm_okD(6)[of 0 100 mm1 2] by (simp add: drm_mm_init_def)
  let ?m1 = "(mem_of two_start 0)\<lparr>mm_node := Some 1, mem_start := node_start (node_of mm1 1)\<rparr>"
  let ?s1 = "two_start\<lparr>man := (man two_start)\<lparr>priv := Some mm1\<rparr>, mem_of := (mem_of two_start)(0 := ?m1)\<rparr>"
  let ?m2 = "(mem_of two_start 1)\<lparr>mm_node := Some 2, mem_start := node_start (node_of mm2 2)\<rparr>"
  let ?s2 = "?s1\<lparr>man := (man ?s1)\<lparr>priv := Some mm2\<rparr>, mem_of := (mem_of ?s1)(1 := ?m2)\<rparr>"
  have "ttm_man_step two_start ?s1"
    by (rule ttm_man_step.get[where kzalloc = "Some 1" and pl = any_place])
      (use i(1) in \<open>simp_all add: ttm_man_start_def ttm_bo_man_get_node_def drm_mm_init_def clear_node_def\<close>)
  moreover have "ttm_man_step ?s1 ?s2"
    by (rule ttm_man_step.get[where kzalloc = "Some 2" and pl = any_place])
      (use i(2) na in \<open>simp_all add: ttm_man_start_def ttm_bo_man_get_node_def\<close>)
  ultimately show ?thesis
    by (intro exI[of _ ?s1] exI[of _ ?s2] exI[of _ mm2]) (auto simp: ttm_man_start_def)
qed

lemma buffers_have_disjoint_pages_example:
  "\<exists>s mm. ttm_man_step\<^sup>*\<^sup>* two_start s \<and> priv (man s) = Some mm \<and> span mm 1 \<inter> span mm 2 = {} \<and> span mm 1 \<subseteq> {0..<unat (100 :: u64)}"
proof -
  obtain s1 s2 mm2 where s: "ttm_man_step\<^sup>*\<^sup>* two_start s1" "ttm_man_step s1 s2" "mm_node (mem_of s2 0) = Some 1"
    "mm_node (mem_of s2 1) = Some 2" "priv (man s2) = Some mm2" using two_buffers by blast
  have r: "ttm_man_step\<^sup>*\<^sup>* two_start s2" using s(1,2) by (rule rtranclp.rtrancl_into_rtrancl)
  show ?thesis using buffers_have_disjoint_pages[OF r _ s(5,3,4)] r s(5) by auto
qed

section \<open>Taking the manager down\<close>

text \<open>\<open>ttm_bo_man_takedown\<close> refuses with EBUSY exactly when at least two buffers still have a place:
  \<open>drm_mm_clean\<close> looks at the second entry of the ring. With exactly one it reports success and frees the
  manager, although that buffer's node is still in it.
\<close>

lemma takedown_ignores_one_buffer:
  assumes "ttm_man_step\<^sup>*\<^sup>* (ttm_man_start p_size sizes) s" "0 < p_size"
  shows "snd (ttm_bo_man_takedown (man s)) = (if card {b. mm_node (mem_of s b) \<noteq> None} \<le> 1 then Inr () else Inl EBUSY)"
proof -
  obtain mm where mm: "priv (man s) = Some mm" "mm_ok 0 p_size mm" "owners (\<lambda>b. mm_node (mem_of s b)) (set (node_list mm))"
    using ttm_man_reachable_inv[OF assms] by (auto simp: ttm_man_inv_def)
  let ?own = "\<lambda>b. mm_node (mem_of s b)"
  have "distinct (node_list mm)" using mm_okD(1)[OF mm(2)] by simp
  then have "length (node_list mm) = card (ran ?own)" using mm(3) distinct_card[of "node_list mm"] by (simp add: owners_def)
  also have "\<dots> = card ((\<lambda>b. the (?own b)) ` dom ?own)" by (rule arg_cong[where f = card]) (force simp: ran_def dom_def)
  also have "\<dots> = card (dom ?own)" using mm(3) by (intro card_image) (auto simp: owners_def inj_on_def dom_def)
  finally have "length (node_list mm) = card {b. mm_node (mem_of s b) \<noteq> None}" by (simp add: dom_def)
  then show ?thesis using drm_mm_clean_iff[OF mm(2)] mm(1) by (simp add: ttm_bo_man_takedown_def)
qed

lemma takedown_ignores_one_buffer_example:
  "\<exists>s. ttm_man_step\<^sup>*\<^sup>* two_start s \<and> mm_node (mem_of s 0) = Some 1 \<and> snd (ttm_bo_man_takedown (man s)) = Inr ()"
proof -
  obtain s1 where s: "ttm_man_step\<^sup>*\<^sup>* two_start s1" "mm_node (mem_of s1 0) = Some 1" "\<forall>b. b \<noteq> 0 \<longrightarrow> mm_node (mem_of s1 b) = None"
    using two_buffers by blast
  have "{b. mm_node (mem_of s1 b) \<noteq> None} = {0}" using s(2,3) by force
  then show ?thesis using takedown_ignores_one_buffer[OF s(1)] s(1,2) by auto
qed

end
