(* ===== verification/Ttm_Memory.thy ===== *)
theory Ttm_Memory
  imports Vmw_Prelude "HOL-Library.Multiset"
begin

text \<open>
  The memory accounting of \<open>src/ttm/ttm_memory.c\<close>: zones with limits, reservation with swap-out and retry,
  release, the sysfs attributes, initialisation. A zone pointer is the position of the zone in
  \<open>glob->zones\<close>. The configuration is the one without \<open>CONFIG_HIGHMEM\<close>. The swap-out callback of
  \<open>struct ttm_mem_shrink\<close> is a parameter; it works on the accounting state and on a state of its own, and the
  theorems take that state to be the ledger of the charges that are outstanding.
\<close>

section \<open>Data\<close>

record ttm_mem_zone =
  zone_name :: string
  zone_mem :: u64
  emer_mem :: u64
  max_mem :: u64
  swap_limit :: u64
  used_mem :: u64

record ttm_mem_global =
  zones :: "ttm_mem_zone list"
  zone_kernel :: "nat option"
  zone_dma32 :: "nat option"
  has_shrink :: bool           \<comment> \<open>\<open>glob->shrink\<close> is not null\<close>
  work_queued :: bool          \<comment> \<open>\<open>glob->work\<close> is on the swap queue\<close>
  swap_queue :: bool           \<comment> \<open>the work queue exists\<close>
  page_pool :: bool            \<comment> \<open>\<open>_manager\<close> of \<open>ttm_page_alloc.c\<close> is not null\<close>
  dma_pool :: bool             \<comment> \<open>\<open>_manager\<close> of \<open>ttm_page_alloc_dma.c\<close> is not null\<close>

datatype zone_attr = Mem_Sys | Mem_Emer | Mem_Max | Mem_Swap | Mem_Used

type_synonym 'e do_shrink = "'e \<times> ttm_mem_global \<Rightarrow> ('e \<times> ttm_mem_global) \<times> int"

abbreviation (input) TTM_MEMORY_ALLOC_RETRIES :: nat where "TTM_MEMORY_ALLOC_RETRIES \<equiv> 4"

section \<open>Limits\<close>

definition ttm_mem_zone_show :: "ttm_mem_zone \<Rightarrow> zone_attr \<Rightarrow> u64" where
  \<comment> \<open>the number of kiB that is printed\<close>
  "ttm_mem_zone_show zone attr = drop_bit 10 (case attr of
      Mem_Sys \<Rightarrow> zone_mem zone
    | Mem_Emer \<Rightarrow> emer_mem zone
    | Mem_Max \<Rightarrow> max_mem zone
    | Mem_Swap \<Rightarrow> swap_limit zone
    | Mem_Used \<Rightarrow> used_mem zone)"

definition ttm_check_swapping :: "ttm_mem_global \<Rightarrow> ttm_mem_global" where
  "ttm_check_swapping glob =
     (if list_ex (\<lambda>zone. used_mem zone > swap_limit zone) (zones glob)
      then glob\<lparr>work_queued := True\<rparr> else glob)"

definition zone_store :: "ttm_mem_zone \<Rightarrow> zone_attr \<Rightarrow> u64 \<Rightarrow> ttm_mem_zone" where
  "zone_store zone attr val =
     (let val64 = push_bit 10 val;
          val64 = (if val64 > zone_mem zone then zone_mem zone else val64)
      in case attr of
           Mem_Emer \<Rightarrow> (let z = zone\<lparr>emer_mem := val64\<rparr> in if max_mem z > val64 then z\<lparr>max_mem := val64\<rparr> else z)
         | Mem_Max \<Rightarrow> (let z = zone\<lparr>max_mem := val64\<rparr> in if emer_mem z < val64 then z\<lparr>emer_mem := val64\<rparr> else z)
         | Mem_Swap \<Rightarrow> zone\<lparr>swap_limit := val64\<rparr>
         | _ \<Rightarrow> zone)"

definition ttm_mem_zone_store ::
  "ttm_mem_global \<Rightarrow> nat \<Rightarrow> zone_attr \<Rightarrow> u64 option \<Rightarrow> ttm_mem_global" where
  \<comment> \<open>\<open>val\<close> is what \<open>sscanf\<close> reads, \<open>None\<close> when it reads nothing\<close>
  "ttm_mem_zone_store glob i attr val =
     (case val of None \<Rightarrow> glob
      | Some v \<Rightarrow>
          ttm_check_swapping (glob\<lparr>zones := (zones glob)[i := zone_store (zones glob ! i) attr v]\<rparr>))"

section \<open>Swapping out\<close>

definition swap_target :: "bool \<Rightarrow> bool \<Rightarrow> u64 \<Rightarrow> ttm_mem_zone \<Rightarrow> u64" where
  "swap_target admin from_wq extra zone =
     (let target = (if from_wq then swap_limit zone
                    else if admin then emer_mem zone else max_mem zone)
      in if extra > target then 0 else target)"

definition ttm_zones_above_swap_target :: "bool \<Rightarrow> ttm_mem_global \<Rightarrow> bool \<Rightarrow> u64 \<Rightarrow> bool" where
  \<comment> \<open>\<open>admin\<close> is \<open>capable(CAP_SYS_ADMIN)\<close>\<close>
  "ttm_zones_above_swap_target admin glob from_wq extra =
     list_ex (\<lambda>zone. used_mem zone > swap_target admin from_wq extra zone) (zones glob)"

fun ttm_shrink_loop ::
  "'e do_shrink \<Rightarrow> bool \<Rightarrow> bool \<Rightarrow> u64 \<Rightarrow> nat \<Rightarrow> 'e \<times> ttm_mem_global \<Rightarrow> ('e \<times> ttm_mem_global) option" where
  "ttm_shrink_loop do_shrink admin from_wq extra 0 s = None"
| "ttm_shrink_loop do_shrink admin from_wq extra (Suc fuel) s =
     (if ttm_zones_above_swap_target admin (snd s) from_wq extra
      then case do_shrink s of (s', ret) \<Rightarrow>
             if ret \<noteq> 0 then Some s' else ttm_shrink_loop do_shrink admin from_wq extra fuel s'
      else Some s)"

definition ttm_shrink ::
  "'e do_shrink \<Rightarrow> bool \<Rightarrow> bool \<Rightarrow> u64 \<Rightarrow> nat \<Rightarrow> 'e \<times> ttm_mem_global \<Rightarrow> ('e \<times> ttm_mem_global) option" where
  "ttm_shrink do_shrink admin from_wq extra fuel s =
     (if \<not> has_shrink (snd s) then Some s else ttm_shrink_loop do_shrink admin from_wq extra fuel s)"

definition ttm_shrink_work ::
  "'e do_shrink \<Rightarrow> bool \<Rightarrow> nat \<Rightarrow> 'e \<times> ttm_mem_global \<Rightarrow> ('e \<times> ttm_mem_global) option" where
  "ttm_shrink_work do_shrink admin fuel s = ttm_shrink do_shrink admin True 0 fuel s"

definition ttm_mem_register_shrink :: "ttm_mem_global \<Rightarrow> ttm_mem_global kres" where
  "ttm_mem_register_shrink glob =
     (if has_shrink glob then Inl EBUSY else Inr (glob\<lparr>has_shrink := True\<rparr>))"

definition ttm_mem_unregister_shrink :: "ttm_mem_global \<Rightarrow> ttm_mem_global kres" where
  \<comment> \<open>the caller passes the callback it registered, so the \<open>BUG_ON\<close> tests for null\<close>
  "ttm_mem_unregister_shrink glob =
     (if has_shrink glob then Inr (glob\<lparr>has_shrink := False\<rparr>) else Inl OOPS)"

section \<open>Charging and releasing\<close>

definition in_zone :: "nat option \<Rightarrow> nat \<Rightarrow> bool" where
  \<comment> \<open>not skipped by \<open>if (single_zone && zone != single_zone) continue\<close>\<close>
  "in_zone single_zone i = (single_zone = None \<or> single_zone = Some i)"

definition charge_zones :: "(u64 \<Rightarrow> u64) \<Rightarrow> nat option \<Rightarrow> ttm_mem_zone list \<Rightarrow> ttm_mem_zone list" where
  "charge_zones f single_zone zs =
     map (\<lambda>(i, zone). if in_zone single_zone i then zone\<lparr>used_mem := f (used_mem zone)\<rparr> else zone)
       (enumerate 0 zs)"

definition ttm_mem_global_free_zone :: "ttm_mem_global \<Rightarrow> nat option \<Rightarrow> u64 \<Rightarrow> ttm_mem_global" where
  "ttm_mem_global_free_zone glob single_zone amount =
     glob\<lparr>zones := charge_zones (\<lambda>u. u - amount) single_zone (zones glob)\<rparr>"

definition ttm_mem_global_free :: "ttm_mem_global \<Rightarrow> u64 \<Rightarrow> ttm_mem_global" where
  "ttm_mem_global_free glob amount = ttm_mem_global_free_zone glob None amount"

definition zone_full :: "bool \<Rightarrow> ttm_mem_zone \<Rightarrow> bool" where
  "zone_full admin zone = (used_mem zone > (if admin then emer_mem zone else max_mem zone))"

definition ttm_mem_global_reserve ::
  "bool \<Rightarrow> ttm_mem_global \<Rightarrow> nat option \<Rightarrow> u64 \<Rightarrow> bool \<Rightarrow> ttm_mem_global \<times> unit kres" where
  "ttm_mem_global_reserve admin glob single_zone amount reserve =
     (if list_ex (\<lambda>(i, zone). in_zone single_zone i \<and> zone_full admin zone) (enumerate 0 (zones glob))
      then (ttm_check_swapping glob, Inl ENOMEM)
      else (ttm_check_swapping
              (if reserve then glob\<lparr>zones := charge_zones (\<lambda>u. u + amount) single_zone (zones glob)\<rparr> else glob),
            Inr ()))"

fun alloc_zone_loop ::
  "'e do_shrink \<Rightarrow> bool \<Rightarrow> nat option \<Rightarrow> u64 \<Rightarrow> bool \<Rightarrow> nat \<Rightarrow> nat \<Rightarrow> 'e \<times> ttm_mem_global \<Rightarrow>
   (('e \<times> ttm_mem_global) \<times> unit kres) option" where
  \<comment> \<open>\<open>fuel\<close> bounds the callbacks of one shrink; \<open>cnt\<close> is the loop's own counter\<close>
  "alloc_zone_loop do_shrink admin single_zone memory no_wait fuel cnt (e, glob) =
     (case ttm_mem_global_reserve admin glob single_zone memory True of
        (glob1, Inr _) \<Rightarrow> Some ((e, glob1), Inr ())
      | (glob1, Inl _) \<Rightarrow>
          if no_wait then Some ((e, glob1), Inl ENOMEM)
          else (case cnt of
             0 \<Rightarrow> Some ((e, glob1), Inl ENOMEM)
           | Suc cnt' \<Rightarrow>
               (case ttm_shrink do_shrink admin False (memory + drop_bit 2 memory + 16) fuel (e, glob1) of
                  None \<Rightarrow> None
                | Some s \<Rightarrow> alloc_zone_loop do_shrink admin single_zone memory no_wait fuel cnt' s)))"

declare alloc_zone_loop.simps [simp del]

definition ttm_mem_global_alloc_zone ::
  "'e do_shrink \<Rightarrow> bool \<Rightarrow> nat \<Rightarrow> 'e \<times> ttm_mem_global \<Rightarrow> nat option \<Rightarrow> u64 \<Rightarrow> bool \<Rightarrow>
   (('e \<times> ttm_mem_global) \<times> unit kres) option" where
  "ttm_mem_global_alloc_zone do_shrink admin fuel s single_zone memory no_wait =
     alloc_zone_loop do_shrink admin single_zone memory no_wait fuel TTM_MEMORY_ALLOC_RETRIES s"

definition ttm_mem_global_alloc ::
  "'e do_shrink \<Rightarrow> bool \<Rightarrow> nat \<Rightarrow> 'e \<times> ttm_mem_global \<Rightarrow> u64 \<Rightarrow> bool \<Rightarrow>
   (('e \<times> ttm_mem_global) \<times> unit kres) option" where
  "ttm_mem_global_alloc do_shrink admin fuel s memory no_wait =
     ttm_mem_global_alloc_zone do_shrink admin fuel s None memory no_wait"

definition page_zone :: "ttm_mem_global \<Rightarrow> u64 \<Rightarrow> nat option" where
  "page_zone glob pfn =
     (if zone_dma32 glob \<noteq> None \<and> pfn > 0x00100000 then zone_kernel glob else None)"

definition ttm_mem_global_alloc_page ::
  "'e do_shrink \<Rightarrow> bool \<Rightarrow> nat \<Rightarrow> 'e \<times> ttm_mem_global \<Rightarrow> u64 \<Rightarrow> bool \<Rightarrow>
   (('e \<times> ttm_mem_global) \<times> unit kres) option" where
  "ttm_mem_global_alloc_page do_shrink admin fuel s pfn no_wait =
     ttm_mem_global_alloc_zone do_shrink admin fuel s (page_zone (snd s) pfn) (of_nat PAGE_SIZE) no_wait"

definition ttm_mem_global_free_page :: "ttm_mem_global \<Rightarrow> u64 \<Rightarrow> ttm_mem_global" where
  "ttm_mem_global_free_page glob pfn =
     ttm_mem_global_free_zone glob (page_zone glob pfn) (of_nat PAGE_SIZE)"

definition ttm_get_kernel_zone_memory_size :: "ttm_mem_global \<Rightarrow> u64 kres" where
  "ttm_get_kernel_zone_memory_size glob =
     (case zone_kernel glob of
        Some i \<Rightarrow> if i < length (zones glob) then Inr (max_mem (zones glob ! i)) else Inl OOPS
      | None \<Rightarrow> Inl OOPS)"

section \<open>Rounding\<close>

function round_pot_loop :: "nat \<Rightarrow> nat \<Rightarrow> nat" where
  "round_pot_loop n tmp_size =
     (if tmp_size = 0 \<or> tmp_size \<ge> n then tmp_size else round_pot_loop n (2 * tmp_size))"
  by pat_completeness auto
termination
  by (relation "measure (\<lambda>(n, tmp_size). n - tmp_size)") auto

declare round_pot_loop.simps [simp del]

definition ttm_round_pot :: "u64 \<Rightarrow> u64" where
  \<comment> \<open>the loop runs only for sizes up to a page, so doubling does not overflow\<close>
  "ttm_round_pot n =
     (if n AND (n - 1) = 0 then n
      else if unat n > PAGE_SIZE then PAGE_ALIGN n
      else of_nat (round_pot_loop (unat n) 4))"

section \<open>Initialisation\<close>

record sysinfo =
  totalram :: u64
  totalhigh :: u64
  mem_unit :: u64

record mem_init_env =
  glob_kobj :: "unit kres"       \<comment> \<open>results of \<open>kobject_init_and_add\<close> and \<open>kzalloc\<close>\<close>
  kernel_kzalloc :: bool
  kernel_kobj :: "unit kres"
  dma32_kzalloc :: bool
  dma32_kobj :: "unit kres"
  pool_kzalloc :: bool
  pool_kobj :: bool
  dma_pool_kzalloc :: bool

definition new_zone :: "string \<Rightarrow> u64 \<Rightarrow> ttm_mem_zone" where
  "new_zone name mem =
     \<lparr>zone_name = name, zone_mem = mem, emer_mem = drop_bit 1 mem + drop_bit 2 mem,
      max_mem = drop_bit 1 mem, swap_limit = drop_bit 1 mem - drop_bit 3 mem, used_mem = 0\<rparr>"

definition ttm_mem_init_kernel_zone ::
  "mem_init_env \<Rightarrow> sysinfo \<Rightarrow> ttm_mem_global \<Rightarrow> ttm_mem_global \<times> unit kres" where
  "ttm_mem_init_kernel_zone env si glob =
     (if \<not> kernel_kzalloc env then (glob, Inl ENOMEM)
      else let zone = new_zone ''kernel'' ((totalram si - totalhigh si) * mem_unit si);
               glob = glob\<lparr>zone_kernel := Some (length (zones glob))\<rparr>
           in case kernel_kobj env of
                Inl e \<Rightarrow> (glob, Inl e)
              | Inr _ \<Rightarrow> (glob\<lparr>zones := zones glob @ [zone]\<rparr>, Inr ()))"

definition ttm_mem_init_dma32_zone ::
  "mem_init_env \<Rightarrow> sysinfo \<Rightarrow> ttm_mem_global \<Rightarrow> ttm_mem_global \<times> unit kres" where
  "ttm_mem_init_dma32_zone env si glob =
     (if \<not> dma32_kzalloc env then (glob, Inl ENOMEM)
      else if totalram si * mem_unit si \<le> 2 ^ 32 then (glob, Inr ())
      else let zone = new_zone ''dma32'' (2 ^ 32);
               glob = glob\<lparr>zone_dma32 := Some (length (zones glob))\<rparr>
           in case dma32_kobj env of
                Inl e \<Rightarrow> (glob, Inl e)
              | Inr _ \<Rightarrow> (glob\<lparr>zones := zones glob @ [zone]\<rparr>, Inr ()))"

text \<open>
  \<open>ttm_page_alloc_init\<close> uses the manager without a test for null and clears \<open>_manager\<close> when its kobject
  cannot be added; \<open>ttm_dma_page_alloc_init\<close> tests for null. \<open>ttm_mem_global_init\<close> ignores what both return.
  Both finalisers use \<open>_manager\<close> without a test.
\<close>

definition ttm_page_alloc_init :: "mem_init_env \<Rightarrow> ttm_mem_global \<Rightarrow> ttm_mem_global kres" where
  "ttm_page_alloc_init env glob =
     (if pool_kzalloc env then Inr (glob\<lparr>page_pool := pool_kobj env\<rparr>) else Inl OOPS)"

definition ttm_dma_page_alloc_init :: "mem_init_env \<Rightarrow> ttm_mem_global \<Rightarrow> ttm_mem_global" where
  "ttm_dma_page_alloc_init env glob = glob\<lparr>dma_pool := dma_pool_kzalloc env\<rparr>"

definition ttm_mem_global_release :: "ttm_mem_global \<Rightarrow> ttm_mem_global kres" where
  "ttm_mem_global_release glob =
     (if \<not> page_pool glob \<or> \<not> dma_pool glob then Inl OOPS
      else Inr (glob\<lparr>page_pool := False, dma_pool := False, swap_queue := False, work_queued := False,
                     zones := []\<rparr>))"

definition ttm_mem_global_init :: "mem_init_env \<Rightarrow> sysinfo \<Rightarrow> ttm_mem_global \<Rightarrow> ttm_mem_global \<times> unit kres" where
  "ttm_mem_global_init env si glob =
     (let glob = glob\<lparr>swap_queue := True\<rparr>;
          out_no_zone = (\<lambda>g e. case ttm_mem_global_release g of
                                 Inl e' \<Rightarrow> (g, Inl e') | Inr g' \<Rightarrow> (g', Inl e))
      in case glob_kobj env of
           Inl e \<Rightarrow> (glob, Inl e)
         | Inr _ \<Rightarrow>
            (case ttm_mem_init_kernel_zone env si glob of
               (glob1, Inl e) \<Rightarrow> out_no_zone glob1 e
             | (glob1, Inr _) \<Rightarrow>
                (case ttm_mem_init_dma32_zone env si glob1 of
                   (glob2, Inl e) \<Rightarrow> out_no_zone glob2 e
                 | (glob2, Inr _) \<Rightarrow>
                     (case ttm_page_alloc_init env glob2 of
                        Inl e \<Rightarrow> (glob2, Inl e)
                      | Inr glob3 \<Rightarrow> (ttm_dma_page_alloc_init env glob3, Inr ())))))"

section \<open>Ledger and invariant\<close>

type_synonym charge = "nat option \<times> u64"

definition charged :: "charge list \<Rightarrow> nat \<Rightarrow> nat" where
  "charged led i = (\<Sum>(z, a) \<leftarrow> led. if in_zone z i then unat a else 0)"

definition zone_ok :: "nat \<Rightarrow> charge list \<Rightarrow> nat \<Rightarrow> ttm_mem_zone \<Rightarrow> bool" where
  "zone_ok A led i z \<longleftrightarrow>
     max_mem z \<le> emer_mem z \<and> emer_mem z \<le> zone_mem z \<and> unat (zone_mem z) + A < 2 ^ 64
     \<and> unat (used_mem z) = charged led i \<and> charged led i \<le> unat (zone_mem z) + A"

definition mem_inv :: "nat \<Rightarrow> charge list \<Rightarrow> ttm_mem_global \<Rightarrow> bool" where
  "mem_inv A led glob \<longleftrightarrow> (\<forall>i < length (zones glob). zone_ok A led i (zones glob ! i))"

fun enter :: "unit kres \<Rightarrow> charge \<Rightarrow> charge list \<Rightarrow> charge list" where
  "enter (Inr u) c led = c # led"
| "enter (Inl e) c led = led"

lemma zones_check_swapping [simp]: "zones (ttm_check_swapping glob) = zones glob"
  by (simp add: ttm_check_swapping_def)

lemma has_shrink_check_swapping [simp]: "has_shrink (ttm_check_swapping glob) = has_shrink glob"
  by (simp add: ttm_check_swapping_def)

lemma mem_inv_check_swapping [simp]: "mem_inv A led (ttm_check_swapping glob) = mem_inv A led glob"
  by (simp add: mem_inv_def)

lemma length_charge_zones [simp]: "length (charge_zones f s zs) = length zs"
  by (simp add: charge_zones_def)

lemma nth_charge_zones [simp]:
  "i < length zs \<Longrightarrow>
   charge_zones f s zs ! i = (if in_zone s i then (zs ! i)\<lparr>used_mem := f (used_mem (zs ! i))\<rparr> else zs ! i)"
  by (simp add: charge_zones_def nth_enumerate_eq)

lemma charged_Cons [simp]: "charged ((z, a) # led) i = (if in_zone z i then unat a else 0) + charged led i"
  by (simp add: charged_def)

lemma charged_Nil [simp]: "charged [] i = 0"
  by (simp add: charged_def)

lemma charged_remove1:
  "(z, a) \<in> set led \<Longrightarrow> charged (remove1 (z, a) led) i + (if in_zone z i then unat a else 0) = charged led i"
  by (induction led) (auto simp: charged_def)

lemma list_ex_enumerate:
  "list_ex (\<lambda>(i, z). P i z) (enumerate 0 zs) \<longleftrightarrow> (\<exists>i < length zs. P i (zs ! i))"
  by (simp add: list_ex_length nth_enumerate_eq cong: conj_cong)

lemma zone_store_ok:
  assumes "zone_ok A led i z"
  shows "zone_ok A led i (zone_store z attr v)"
  using assms by (cases attr) (auto simp: zone_ok_def zone_store_def Let_def)

lemma store_inv:
  assumes "mem_inv A led glob"
  shows "mem_inv A led (ttm_mem_zone_store glob i attr v)"
  using assms zone_store_ok
  by (auto simp: mem_inv_def ttm_mem_zone_store_def nth_list_update_if split: option.split)

lemma free_zone_inv:
  assumes "mem_inv A led glob" "(z, a) \<in> set led"
  shows "mem_inv A (remove1 (z, a) led) (ttm_mem_global_free_zone glob z a)"
proof -
  have "zone_ok A (remove1 (z, a) led) i
          (if in_zone z i then (zones glob ! i)\<lparr>used_mem := used_mem (zones glob ! i) - a\<rparr> else zones glob ! i)"
    if "i < length (zones glob)" for i
  proof -
    from assms that have ok: "zone_ok A led i (zones glob ! i)" by (simp add: mem_inv_def)
    have c: "charged (remove1 (z, a) led) i + (if in_zone z i then unat a else 0) = charged led i"
      using assms(2) by (rule charged_remove1)
    have "unat (used_mem (zones glob ! i) - a) = unat (used_mem (zones glob ! i)) - unat a" if "in_zone z i"
      using ok c that by (simp add: zone_ok_def unat_sub word_le_nat_alt)
    with ok c show ?thesis by (auto simp: zone_ok_def)
  qed
  then show ?thesis by (simp add: mem_inv_def ttm_mem_global_free_zone_def)
qed

lemma reserve_inv:
  assumes inv: "mem_inv A led glob" and le: "unat a \<le> A"
    and r: "ttm_mem_global_reserve admin glob z a True = (glob', res)"
  shows "mem_inv A (enter res (z, a) led) glob'"
    and "length (zones glob') = length (zones glob)" and "has_shrink glob' = has_shrink glob"
proof -
  have "zone_ok A ((z, a) # led) i
          (if in_zone z i then (zones glob ! i)\<lparr>used_mem := used_mem (zones glob ! i) + a\<rparr> else zones glob ! i)"
    if "i < length (zones glob)" and nf: "in_zone z i \<longrightarrow> \<not> zone_full admin (zones glob ! i)" for i
  proof (cases "in_zone z i")
    case True
    from inv that(1) have ok: "zone_ok A led i (zones glob ! i)" by (simp add: mem_inv_def)
    then have lim: "unat (max_mem (zones glob ! i)) \<le> unat (emer_mem (zones glob ! i))"
        "unat (emer_mem (zones glob ! i)) \<le> unat (zone_mem (zones glob ! i))"
      by (simp_all add: zone_ok_def word_le_nat_alt)
    have u: "unat (used_mem (zones glob ! i)) \<le> unat (zone_mem (zones glob ! i))"
      using nf True lim by (auto simp: zone_full_def not_less word_le_nat_alt split: if_splits)
    have "unat (used_mem (zones glob ! i) + a) = unat (used_mem (zones glob ! i)) + unat a"
      using u le ok by (intro unat_plus_simple [THEN iffD1] no_olen_add_nat [THEN iffD2]) (simp add: zone_ok_def)
    with ok u le True show ?thesis by (auto simp: zone_ok_def)
  next
    case False
    with inv that show ?thesis by (simp add: mem_inv_def zone_ok_def)
  qed
  with inv r show "mem_inv A (enter res (z, a) led) glob'"
    unfolding ttm_mem_global_reserve_def list_ex_enumerate
    by (auto simp: mem_inv_def split: if_splits)
  from r show "length (zones glob') = length (zones glob)" "has_shrink glob' = has_shrink glob"
    by (auto simp: ttm_mem_global_reserve_def split: if_splits)
qed

section \<open>The swap-out callback\<close>

text \<open>
  What the accounting relies on: the callback keeps the accounts, it charges nothing new, and when it
  returns 0 it has released at least one outstanding charge.
\<close>

definition shrinker_ok :: "nat \<Rightarrow> charge list do_shrink \<Rightarrow> bool" where
  "shrinker_ok A do_shrink \<longleftrightarrow>
     (\<forall>led glob. mem_inv A led glob \<longrightarrow>
        (case do_shrink (led, glob) of ((led', glob'), ret) \<Rightarrow>
           mem_inv A led' glob' \<and> length led' \<le> length led \<and> (ret = 0 \<longrightarrow> length led' < length led)))"

lemma shrinker_okD:
  assumes "shrinker_ok A do_shrink" "mem_inv A led glob" "do_shrink (led, glob) = ((led', glob'), ret)"
  shows "mem_inv A led' glob'" "length led' \<le> length led" "ret = 0 \<Longrightarrow> length led' < length led"
  using assms unfolding shrinker_ok_def by fastforce+

lemma shrink_loop_total:
  assumes ok: "shrinker_ok A do_shrink" and "mem_inv A led glob" "length led < fuel"
  shows "\<exists>led' glob'. ttm_shrink_loop do_shrink admin from_wq extra fuel (led, glob) = Some (led', glob')
           \<and> mem_inv A led' glob' \<and> length led' \<le> length led"
  using assms(2,3)
proof (induction fuel arbitrary: led glob)
  case (Suc fuel)
  obtain led1 glob1 ret where d: "do_shrink (led, glob) = ((led1, glob1), ret)" by (metis prod.exhaust)
  note D = shrinker_okD [OF ok Suc.prems(1) d]
  show ?case
  proof (cases "ttm_zones_above_swap_target admin glob from_wq extra \<and> ret = 0")
    case True
    with D(3) Suc.prems(2) have "length led1 < fuel" by simp
    from Suc.IH [OF D(1) this] True d D(2) show ?thesis by fastforce
  next
    case False
    then show ?thesis using d D Suc.prems by auto
  qed
qed simp

lemma shrink_total:
  assumes "shrinker_ok A do_shrink" "mem_inv A led glob" "length led < fuel"
  shows "\<exists>led' glob'. ttm_shrink do_shrink admin from_wq extra fuel (led, glob) = Some (led', glob')
           \<and> mem_inv A led' glob' \<and> length led' \<le> length led"
  using shrink_loop_total [OF assms] assms(2) by (auto simp: ttm_shrink_def)

lemma alloc_loop_total:
  assumes ok: "shrinker_ok A do_shrink" and inv: "mem_inv A led glob" and fuel: "length led < fuel"
    and a: "unat a \<le> A"
  shows "\<exists>led' glob' res. alloc_zone_loop do_shrink admin z a no_wait fuel cnt (led, glob) = Some ((led', glob'), res)
           \<and> mem_inv A (enter res (z, a) led') glob' \<and> length led' \<le> length led"
  using inv fuel
proof (induction cnt arbitrary: led glob)
  case 0
  obtain glob1 res where r: "ttm_mem_global_reserve admin glob z a True = (glob1, res)" by (metis prod.exhaust)
  from reserve_inv(1) [OF 0(1) a r] r show ?case
    by (cases res) (auto simp: alloc_zone_loop.simps [where cnt = 0])
next
  case (Suc cnt)
  obtain glob1 res where r: "ttm_mem_global_reserve admin glob z a True = (glob1, res)" by (metis prod.exhaust)
  note R = reserve_inv(1) [OF Suc.prems(1) a r]
  show ?case
  proof (cases res)
    case (Inl e)
    with R have inv1: "mem_inv A led glob1" by simp
    obtain led2 glob2 where s:
        "ttm_shrink do_shrink admin False (a + drop_bit 2 a + 16) fuel (led, glob1) = Some (led2, glob2)"
        "mem_inv A led2 glob2" "length led2 \<le> length led"
      using shrink_total [OF ok inv1 Suc.prems(2)] by blast
    from Suc.IH [OF s(2)] s(3) Suc.prems(2) obtain led' glob' res' where
        "alloc_zone_loop do_shrink admin z a no_wait fuel cnt (led2, glob2) = Some ((led', glob'), res')"
        "mem_inv A (enter res' (z, a) led') glob'" "length led' \<le> length led2"
      by fastforce
    then show ?thesis using r Inl s inv1 by (fastforce simp: alloc_zone_loop.simps [where cnt = "Suc cnt"])
  next
    case (Inr u)
    with r R show ?thesis by (auto simp: alloc_zone_loop.simps [where cnt = "Suc cnt"])
  qed
qed

lemma alloc_zone_total:
  assumes "shrinker_ok A do_shrink" "mem_inv A led glob" "length led < fuel" "unat a \<le> A"
  shows "\<exists>led' glob' res. ttm_mem_global_alloc_zone do_shrink admin fuel (led, glob) z a no_wait = Some ((led', glob'), res)
           \<and> mem_inv A (enter res (z, a) led') glob' \<and> length led' \<le> length led"
  unfolding ttm_mem_global_alloc_zone_def by (rule alloc_loop_total [OF assms])

section \<open>Sequences of operations\<close>

datatype mem_op =
    Alloc_Mem bool u64 bool            \<comment> \<open>capability, amount, \<open>no_wait\<close>\<close>
  | Alloc_Page bool u64 bool           \<comment> \<open>capability, page frame, \<open>no_wait\<close>\<close>
  | Free_Mem u64
  | Free_Page u64
  | Store_Attr nat zone_attr "u64 option"
  | Shrink_Work bool
  | Register_Shrink
  | Unregister_Shrink

definition or_else :: "'a kres \<Rightarrow> 'a \<Rightarrow> 'a" where
  \<comment> \<open>a call that fails leaves the state alone; no caller unregisters a callback that is not registered\<close>
  "or_else r g = (case r of Inl e \<Rightarrow> g | Inr g' \<Rightarrow> g')"

definition drop_charge :: "charge \<Rightarrow> (ttm_mem_global \<Rightarrow> ttm_mem_global) \<Rightarrow>
    charge list \<times> ttm_mem_global \<Rightarrow> charge list \<times> ttm_mem_global" where
  \<comment> \<open>callers release what they were charged, and nothing else\<close>
  "drop_charge c f s = (if c \<in> set (fst s) then (remove1 c (fst s), f (snd s)) else s)"

fun mem_exec :: "charge list do_shrink \<Rightarrow> nat \<Rightarrow> mem_op \<Rightarrow> charge list \<times> ttm_mem_global \<Rightarrow>
    (charge list \<times> ttm_mem_global) option" where
  "mem_exec do_shrink fuel (Alloc_Mem admin a no_wait) s =
     map_option (\<lambda>((led, glob), res). (enter res (None, a) led, glob))
       (ttm_mem_global_alloc do_shrink admin fuel s a no_wait)"
| "mem_exec do_shrink fuel (Alloc_Page admin pfn no_wait) s =
     map_option (\<lambda>((led, glob), res). (enter res (page_zone (snd s) pfn, of_nat PAGE_SIZE) led, glob))
       (ttm_mem_global_alloc_page do_shrink admin fuel s pfn no_wait)"
| "mem_exec do_shrink fuel (Free_Mem a) s =
     Some (drop_charge (None, a) (\<lambda>g. ttm_mem_global_free g a) s)"
| "mem_exec do_shrink fuel (Free_Page pfn) s =
     Some (drop_charge (page_zone (snd s) pfn, of_nat PAGE_SIZE) (\<lambda>g. ttm_mem_global_free_page g pfn) s)"
| "mem_exec do_shrink fuel (Store_Attr i attr v) s = Some (fst s, ttm_mem_zone_store (snd s) i attr v)"
| "mem_exec do_shrink fuel (Shrink_Work admin) s = ttm_shrink_work do_shrink admin fuel s"
| "mem_exec do_shrink fuel Register_Shrink s = Some (fst s, or_else (ttm_mem_register_shrink (snd s)) (snd s))"
| "mem_exec do_shrink fuel Unregister_Shrink s = Some (fst s, or_else (ttm_mem_unregister_shrink (snd s)) (snd s))"

fun mem_run :: "charge list do_shrink \<Rightarrow> nat \<Rightarrow> mem_op list \<Rightarrow> charge list \<times> ttm_mem_global \<Rightarrow>
    (charge list \<times> ttm_mem_global) option" where
  "mem_run do_shrink fuel [] s = Some s"
| "mem_run do_shrink fuel (p # ps) s =
     Option.bind (mem_exec do_shrink fuel p s) (mem_run do_shrink fuel ps)"

fun op_amount :: "mem_op \<Rightarrow> nat" where
  "op_amount (Alloc_Mem admin a no_wait) = unat a"
| "op_amount (Alloc_Page admin pfn no_wait) = PAGE_SIZE"
| "op_amount _ = 0"

lemma length_enter: "length (enter res c led) \<le> Suc (length led)"
  by (cases res) auto

lemma register_inv:
  "mem_inv A led (or_else (ttm_mem_register_shrink glob) glob) = mem_inv A led glob"
  "mem_inv A led (or_else (ttm_mem_unregister_shrink glob) glob) = mem_inv A led glob"
  by (simp_all add: or_else_def ttm_mem_register_shrink_def ttm_mem_unregister_shrink_def mem_inv_def)

lemma drop_charge_inv:
  assumes "mem_inv A led glob"
    and "f glob = ttm_mem_global_free_zone glob z a" and "drop_charge (z, a) f (led, glob) = (led', glob')"
  shows "mem_inv A led' glob'" "length led' \<le> length led"
  using assms free_zone_inv [OF assms(1), of z a]
  by (auto simp: drop_charge_def length_remove1 split: if_splits)

lemma mem_exec_total:
  assumes ok: "shrinker_ok A do_shrink" and inv: "mem_inv A led glob" and f: "length led < fuel"
    and a: "op_amount p \<le> A"
  shows "\<exists>led' glob'. mem_exec do_shrink fuel p (led, glob) = Some (led', glob') \<and> mem_inv A led' glob'
           \<and> length led' \<le> Suc (length led)"
proof (cases p)
  case (Alloc_Mem admin am no_wait)
  then have "unat am \<le> A" using a by simp
  from alloc_zone_total [OF ok inv f this, of admin None no_wait] Alloc_Mem show ?thesis
    by (force simp: ttm_mem_global_alloc_def intro: order.trans [OF length_enter])
next
  case (Alloc_Page admin pfn no_wait)
  then have "unat (of_nat PAGE_SIZE :: u64) \<le> A" using a by simp
  from alloc_zone_total [OF ok inv f this, of admin "page_zone glob pfn" no_wait] Alloc_Page show ?thesis
    by (force simp: ttm_mem_global_alloc_page_def intro: order.trans [OF length_enter])
next
  case (Free_Mem am)
  obtain led' glob' where d: "drop_charge (None, am) (\<lambda>g. ttm_mem_global_free g am) (led, glob) = (led', glob')"
    by (metis prod.exhaust)
  from drop_charge_inv [OF inv _ d] Free_Mem d show ?thesis by (simp add: ttm_mem_global_free_def)
next
  case (Free_Page pfn)
  obtain led' glob' where d: "drop_charge (page_zone glob pfn, of_nat PAGE_SIZE)
      (\<lambda>g. ttm_mem_global_free_page g pfn) (led, glob) = (led', glob')"
    by (metis prod.exhaust)
  from drop_charge_inv [OF inv _ d] Free_Page d show ?thesis by (simp add: ttm_mem_global_free_page_def)
next
  case (Store_Attr i attr v)
  with store_inv [OF inv] show ?thesis by simp
next
  case (Shrink_Work admin)
  from shrink_total [OF ok inv f, of admin True 0] Shrink_Work show ?thesis
    by (fastforce simp: ttm_shrink_work_def)
qed (use inv in \<open>simp_all add: register_inv\<close>)

lemma mem_run_total:
  assumes "shrinker_ok A do_shrink" "mem_inv A led glob" "length led + length ops < fuel" "\<forall>p\<in>set ops. op_amount p \<le> A"
  shows "\<exists>led' glob'. mem_run do_shrink fuel ops (led, glob) = Some (led', glob') \<and> mem_inv A led' glob' \<and>
    length led' \<le> length led + length ops"
  using assms(2-)
proof (induction ops arbitrary: led glob)
  case (Cons p ps)
  then obtain led1 glob1 where 1: "mem_exec do_shrink fuel p (led, glob) = Some (led1, glob1)"
      "mem_inv A led1 glob1" "length led1 \<le> Suc (length led)"
    using mem_exec_total [OF assms(1) Cons.prems(1), of fuel p] by auto
  have "length led1 + length ps < fuel" using 1(3) Cons.prems(2) by simp
  from Cons.IH [OF 1(2) this] Cons.prems(3) 1(1,3) show ?case by fastforce
qed auto

section \<open>Swapping out makes room\<close>

text \<open>
  The callback works when it releases a charge whenever one is outstanding. Then the shrink loop reaches its
  target, which is no higher than the limit that the reservation tests.
\<close>

definition shrinker_works :: "nat \<Rightarrow> charge list do_shrink \<Rightarrow> bool" where
  "shrinker_works A do_shrink \<longleftrightarrow> shrinker_ok A do_shrink \<and>
     (\<forall>led glob. mem_inv A led glob \<and> led \<noteq> [] \<longrightarrow> snd (do_shrink (led, glob)) = 0)"

lemma nothing_charged_nothing_used:
  "mem_inv A [] glob \<Longrightarrow> \<not> ttm_zones_above_swap_target admin glob from_wq extra"
  by (auto simp: ttm_zones_above_swap_target_def mem_inv_def zone_ok_def list_ex_length unat_eq_zero)

lemma shrink_loop_reaches_target:
  assumes w: "shrinker_works A do_shrink" and "mem_inv A led glob"
    and "ttm_shrink_loop do_shrink admin from_wq extra fuel (led, glob) = Some (led', glob')"
  shows "\<not> ttm_zones_above_swap_target admin glob' from_wq extra"
  using assms(2,3)
proof (induction fuel arbitrary: led glob)
  case (Suc fuel)
  obtain led1 glob1 ret where d: "do_shrink (led, glob) = ((led1, glob1), ret)" by (metis prod.exhaust)
  show ?case
  proof (cases "ttm_zones_above_swap_target admin glob from_wq extra")
    case True
    then have "led \<noteq> []" using nothing_charged_nothing_used Suc.prems(1) by blast
    with w d Suc.prems(1) have "ret = 0" unfolding shrinker_works_def by (metis snd_conv)
    with True d Suc.prems(2) have "ttm_shrink_loop do_shrink admin from_wq extra fuel (led1, glob1) = Some (led', glob')"
      by simp
    moreover have "mem_inv A led1 glob1"
      using w shrinker_okD(1) [where do_shrink = do_shrink, OF _ Suc.prems(1) d] by (simp add: shrinker_works_def)
    ultimately show ?thesis by (rule Suc.IH [rotated])
  next
    case False
    with Suc.prems(2) show ?thesis by simp
  qed
qed simp

lemma swap_target_le_limit:
  "used_mem zone \<le> swap_target admin False extra zone \<Longrightarrow> \<not> zone_full admin zone"
  by (auto simp: swap_target_def zone_full_def Let_def not_less split: if_splits)

lemma reserve_below_target:
  assumes "\<not> ttm_zones_above_swap_target admin glob False extra"
  shows "snd (ttm_mem_global_reserve admin glob z a reserve) = Inr ()"
proof -
  have "\<not> zone_full admin (zones glob ! i)" if "i < length (zones glob)" for i
    using assms that
    by (intro swap_target_le_limit [of _ admin extra])
      (simp add: ttm_zones_above_swap_target_def list_ex_length not_less, metis linorder_not_le)
  then show ?thesis unfolding ttm_mem_global_reserve_def list_ex_enumerate by auto
qed

text \<open>A charge that may wait succeeds whenever the swap-out callback is registered and releases something each
time it is called with charges outstanding: after the first refused reservation the shrink loop ends below the
limit that the next reservation tests.\<close>

lemma alloc_succeeds_when_swapout_works:
  assumes w: "shrinker_works A do_shrink" and inv: "mem_inv A led glob" and f: "length led < fuel"
    and a: "unat memory \<le> A" and hs: "has_shrink glob"
  shows "\<exists>s. ttm_mem_global_alloc_zone do_shrink admin fuel (led, glob) single_zone memory False = Some (s, Inr ())"
proof -
  obtain glob1 res where r: "ttm_mem_global_reserve admin glob single_zone memory True = (glob1, res)" by (metis prod.exhaust)
  note R = reserve_inv [OF inv a r]
  have ok: "shrinker_ok A do_shrink" using w by (simp add: shrinker_works_def)
  show ?thesis
  proof (cases res)
    case (Inl e)
    with R have inv1: "mem_inv A led glob1" by simp
    let ?x = "memory + drop_bit 2 memory + 16"
    obtain led2 glob2 where s: "ttm_shrink do_shrink admin False ?x fuel (led, glob1) = Some (led2, glob2)"
        "mem_inv A led2 glob2" "length led2 \<le> length led"
      using shrink_total [OF ok inv1 f] by blast
    with R(3) hs have "ttm_shrink_loop do_shrink admin False ?x fuel (led, glob1) = Some (led2, glob2)"
      by (simp add: ttm_shrink_def)
    from reserve_below_target [OF shrink_loop_reaches_target [OF w inv1 this]]
    have "snd (ttm_mem_global_reserve admin glob2 single_zone memory True) = Inr ()" .
    then have "\<exists>s. alloc_zone_loop do_shrink admin single_zone memory False fuel 3 (led2, glob2) = Some (s, Inr ())"
      by (subst alloc_zone_loop.simps) (auto split: prod.split)
    then show ?thesis using r Inl s(1)
      by (simp add: ttm_mem_global_alloc_zone_def alloc_zone_loop.simps [where cnt = 4])
  next
    case (Inr u)
    then show ?thesis using r
      by (simp add: ttm_mem_global_alloc_zone_def alloc_zone_loop.simps [where cnt = 4])
  qed
qed

text \<open>The work item ends with every zone at its swap limit or below, and does nothing when they all are.\<close>

lemma above_swap_limit:
  "ttm_zones_above_swap_target admin glob True 0 \<longleftrightarrow> (\<exists>i < length (zones glob). swap_limit (zones glob ! i) < used_mem (zones glob ! i))"
  by (simp add: ttm_zones_above_swap_target_def swap_target_def list_ex_length)

lemma shrink_work_reaches_limit:
  assumes w: "shrinker_works A do_shrink" and inv: "mem_inv A led glob" and f: "length led < fuel" and hs: "has_shrink glob"
  shows "\<exists>led' glob'. ttm_shrink_work do_shrink admin fuel (led, glob) = Some (led', glob') \<and> mem_inv A led' glob' \<and>
    (\<forall>i < length (zones glob'). used_mem (zones glob' ! i) \<le> swap_limit (zones glob' ! i))"
proof -
  have ok: "shrinker_ok A do_shrink" using w by (simp add: shrinker_works_def)
  obtain led' glob' where s: "ttm_shrink_loop do_shrink admin True 0 fuel (led, glob) = Some (led', glob')" "mem_inv A led' glob'"
    using shrink_loop_total [OF ok inv f] by blast
  from shrink_loop_reaches_target [OF w inv s(1)] have "\<forall>i < length (zones glob'). used_mem (zones glob' ! i) \<le> swap_limit (zones glob' ! i)"
    unfolding above_swap_limit by (meson not_less)
  then show ?thesis using s hs by (simp add: ttm_shrink_work_def ttm_shrink_def)
qed

lemma shrink_work_idle:
  assumes "\<forall>i < length (zones glob). used_mem (zones glob ! i) \<le> swap_limit (zones glob ! i)" "0 < fuel"
  shows "ttm_shrink_work do_shrink admin fuel (led, glob) = Some (led, glob)"
  using assms by (cases fuel) (auto simp: ttm_shrink_work_def ttm_shrink_def above_swap_limit not_less)

section \<open>Initialisation\<close>

lemma new_zone_ok:
  assumes "unat mem + A < 2 ^ 64"
  shows "zone_ok A [] i (new_zone name mem)"
proof -
  have e: "unat (drop_bit 1 mem + drop_bit 2 mem) = unat mem div 2 + unat mem div 4"
    using unsigned_less [where 'a = nat, of mem] by (subst unat_add_lem [THEN iffD1]) (auto simp: unat_drop_bit_eq drop_bit_nat_def)
  then have "drop_bit 1 mem \<le> drop_bit 1 mem + drop_bit 2 mem" "drop_bit 1 mem + drop_bit 2 mem \<le> mem"
    by (simp_all add: word_le_nat_alt unat_drop_bit_eq drop_bit_nat_def)
  with assms show ?thesis by (simp add: zone_ok_def new_zone_def)
qed

definition blank_glob :: ttm_mem_global where
  "blank_glob = \<lparr>zones = [], zone_kernel = None, zone_dma32 = None, has_shrink = False,
     work_queued = False, swap_queue = False, page_pool = False, dma_pool = False\<rparr>"

lemma mem_global_init_inv:
  assumes "ttm_mem_global_init env si blank_glob = (glob, Inr ())"
    and "unat ((totalram si - totalhigh si) * mem_unit si) + A < 2 ^ 64" "2 ^ 32 + A < 2 ^ 64"
  shows "mem_inv A [] glob"
proof -
  let ?k = "new_zone ''kernel'' ((totalram si - totalhigh si) * mem_unit si)"
  have "zones glob = [?k] \<or> zones glob = [?k, new_zone ''dma32'' (2 ^ 32)]"
    using assms(1)
    by (auto simp: ttm_mem_global_init_def ttm_mem_init_kernel_zone_def ttm_mem_init_dma32_zone_def blank_glob_def
        ttm_page_alloc_init_def ttm_dma_page_alloc_init_def Let_def
        split: sum.splits if_splits prod.splits)
  with new_zone_ok [OF assms(2)] new_zone_ok [of "2 ^ 32" A] assms(3) show ?thesis
    by (auto simp: mem_inv_def nth_Cons split: nat.split)
qed

text \<open>
  When a zone cannot be set up, the clean-up runs before the page pools exist and uses their null managers.
\<close>

lemma failed_zone_init_oopses:
  assumes "glob_kobj env = Inr ()" "\<not> kernel_kzalloc env"
  shows "snd (ttm_mem_global_init env si blank_glob) = Inl OOPS"
  using assms
  by (simp add: ttm_mem_global_init_def ttm_mem_init_kernel_zone_def ttm_mem_global_release_def blank_glob_def)

section \<open>Rounding\<close>

lemma round_pot_loop_spec:
  "0 < t \<Longrightarrow> t < 2 * n \<Longrightarrow>
   n \<le> round_pot_loop n t \<and> round_pot_loop n t < 2 * n \<and> (\<exists>k. round_pot_loop n t = t * 2 ^ k)"
proof (induction n t rule: round_pot_loop.induct)
  case (1 n t)
  show ?case
  proof (cases "n \<le> t")
    case True
    with 1 show ?thesis by (auto simp: round_pot_loop.simps [of n t] intro: exI [of _ 0])
  next
    case False
    with 1 have "n \<le> round_pot_loop n (2 * t) \<and> round_pot_loop n (2 * t) < 2 * n \<and>
        (\<exists>k. round_pot_loop n (2 * t) = 2 * t * 2 ^ k)" by simp
    then obtain k where k: "n \<le> round_pot_loop n (2 * t)" "round_pot_loop n (2 * t) < 2 * n"
        "round_pot_loop n (2 * t) = 2 * t * 2 ^ k" by blast
    then have "round_pot_loop n (2 * t) = t * 2 ^ Suc k" by simp
    with k(1,2) False 1(2) show ?thesis by (auto simp: round_pot_loop.simps [of n t] simp del: power_Suc)
  qed
qed

lemma unat_PAGE_ALIGN:
  assumes "unat n + 4095 < 2 ^ 64"
  shows "unat (PAGE_ALIGN (n :: u64)) = (unat n + 4095) div 4096 * 4096"
proof -
  have "unat (n + 4095) = unat n + 4095"
    using assms by (subst unat_add_lem [THEN iffD1]) auto
  then show ?thesis by (simp add: unat_page_align)
qed

text \<open>
  Sizes that are not powers of two are rounded up: to a power of two up to a page, and to whole pages above.
\<close>

lemma ttm_round_pot_spec:
  assumes "0 < unat n" "unat n + 4095 < 2 ^ 64"
  shows "unat n \<le> unat (ttm_round_pot n) \<and> unat (ttm_round_pot n) < 2 * unat n
    \<and> (ttm_round_pot n \<noteq> n \<longrightarrow>
         (if unat n \<le> PAGE_SIZE then \<exists>k. unat (ttm_round_pot n) = 2 ^ k else PAGE_SIZE dvd unat (ttm_round_pot n)))"
proof -
  consider (pot) "n AND (n - 1) = 0" | (page) "n AND (n - 1) \<noteq> 0" "unat n > PAGE_SIZE"
    | (small) "n AND (n - 1) \<noteq> 0" "unat n \<le> PAGE_SIZE" by linarith
  then show ?thesis
  proof cases
    case small
    have "n \<noteq> 1" "n \<noteq> 2" using small(1) by auto
    then have "unat n \<noteq> unat (1 :: u64)" "unat n \<noteq> unat (2 :: u64)" by (metis unsigned_word_eqI)+
    then have "3 \<le> unat n" using assms(1) by simp
    with round_pot_loop_spec [of 4 "unat n"] obtain k where k: "unat n \<le> round_pot_loop (unat n) 4"
        "round_pot_loop (unat n) 4 < 2 * unat n" "round_pot_loop (unat n) 4 = 2 ^ (k + 2)"
      by (auto simp: power_add)
    have "unat (of_nat (round_pot_loop (unat n) 4) :: u64) = round_pot_loop (unat n) 4"
      using k(2) small(2) by (simp add: unat_of_nat)
    with k small show ?thesis by (auto simp: ttm_round_pot_def simp del: power_add_numeral intro!: exI [of _ "k + 2"])
  next
    case page
    have "unat n \<le> (unat n + 4095) div 4096 * 4096" "(unat n + 4095) div 4096 * 4096 < 2 * unat n"
      using page(2) div_mult_mod_eq [of "unat n + 4095" 4096] mod_less_divisor [of 4096 "unat n + 4095"] by linarith+
    then show ?thesis using assms page by (simp add: ttm_round_pot_def unat_PAGE_ALIGN)
  qed (use assms in \<open>simp add: ttm_round_pot_def\<close>)
qed

section \<open>Properties\<close>

fun swap_out_first :: "charge list do_shrink" where
  \<comment> \<open>a callback that releases the newest charge\<close>
  "swap_out_first ([], glob) = (([], glob), 1)"
| "swap_out_first (c # led, glob) = ((led, ttm_mem_global_free_zone glob (fst c) (snd c)), 0)"

lemma swap_out_first_ok: "shrinker_works A swap_out_first"
proof -
  have "mem_inv A led (ttm_mem_global_free_zone glob z a)" if "mem_inv A ((z, a) # led) glob" for z a led glob
    using free_zone_inv [OF that, of z a] by simp
  then show ?thesis
    unfolding shrinker_works_def shrinker_ok_def by (auto simp: neq_Nil_conv split: list.split elim!: swap_out_first.elims)
qed

definition small_machine :: sysinfo where
  "small_machine = \<lparr>totalram = 2 ^ 21, totalhigh = 0, mem_unit = 4096\<rparr>"

definition good_env :: mem_init_env where
  "good_env = \<lparr>glob_kobj = Inr (), kernel_kzalloc = True, kernel_kobj = Inr (), dma32_kzalloc = True,
     dma32_kobj = Inr (), pool_kzalloc = True, pool_kobj = True, dma_pool_kzalloc = True\<rparr>"

definition small_glob :: ttm_mem_global where
  "small_glob = fst (ttm_mem_global_init good_env small_machine blank_glob)"

lemmas mem_init_eval = good_env_def small_machine_def blank_glob_def ttm_mem_global_init_def
  ttm_mem_init_kernel_zone_def ttm_mem_init_dma32_zone_def ttm_page_alloc_init_def ttm_dma_page_alloc_init_def

lemma small_glob_init: "ttm_mem_global_init good_env small_machine blank_glob = (small_glob, Inr ())"
  by (simp add: small_glob_def mem_init_eval)

text \<open>C24: After a successful initialisation and any sequence of charges, page charges, releases, limit changes
through sysfs, swap-out work, and registering and unregistering the swap-out callback, every call has returned, the used memory of each zone is exactly the sum of
the outstanding charges that count for it, it never exceeds the memory of the zone by more than the largest single
request \<open>A\<close>, and the limits stay ordered, if the swap-out callback keeps the accounts (\<open>shrinker_ok\<close>) and a charge
of size \<open>A\<close> on top of a zone does not overflow 64 bits. In such a state the swap-out work does nothing when every zone is at its swap limit or
below. When a callback is registered that releases a charge as long as there is one (\<open>shrinker_works\<close>), the work brings every zone to its swap
limit or below, and a charge of at most \<open>A\<close> that may wait succeeds.\<close>

theorem memory_accounting_exact:
  assumes "ttm_mem_global_init env si blank_glob = (glob, Inr ())"
    and "unat ((totalram si - totalhigh si) * mem_unit si) + A < 2 ^ 64" "2 ^ 32 + A < 2 ^ 64"
    and "shrinker_ok A do_shrink" "\<forall>p\<in>set ops. op_amount p \<le> A" "length ops < fuel"
  shows "\<exists>led glob'. mem_run do_shrink fuel ops ([], glob) = Some (led, glob')
    \<and> (\<forall>i < length (zones glob').
         unat (used_mem (zones glob' ! i)) = charged led i
         \<and> charged led i \<le> unat (zone_mem (zones glob' ! i)) + A
         \<and> max_mem (zones glob' ! i) \<le> emer_mem (zones glob' ! i)
         \<and> emer_mem (zones glob' ! i) \<le> zone_mem (zones glob' ! i))
    \<and> ((\<forall>i < length (zones glob'). used_mem (zones glob' ! i) \<le> swap_limit (zones glob' ! i)) \<longrightarrow>
         ttm_shrink_work do_shrink admin fuel (led, glob') = Some (led, glob'))
    \<and> (has_shrink glob' \<and> shrinker_works A do_shrink \<longrightarrow>
         (\<exists>led2 glob2. ttm_shrink_work do_shrink admin fuel (led, glob') = Some (led2, glob2) \<and>
            (\<forall>i < length (zones glob2). unat (used_mem (zones glob2 ! i)) = charged led2 i \<and>
               used_mem (zones glob2 ! i) \<le> swap_limit (zones glob2 ! i))) \<and>
         (\<forall>memory. unat memory \<le> A \<longrightarrow>
            (\<exists>s. ttm_mem_global_alloc do_shrink admin fuel (led, glob') memory False = Some (s, Inr ()))))"
proof -
  have "length [] + length ops < fuel" using assms(6) by simp
  from mem_run_total [OF assms(4) mem_global_init_inv [OF assms(1-3)] this assms(5)] obtain led glob'
    where r: "mem_run do_shrink fuel ops ([], glob) = Some (led, glob')" and inv: "mem_inv A led glob'"
      and l: "length led \<le> length ops" by auto
  have f: "length led < fuel" using l assms(6) by simp
  have "ttm_shrink_work do_shrink admin fuel (led, glob') = Some (led, glob')"
    if "\<forall>i < length (zones glob'). used_mem (zones glob' ! i) \<le> swap_limit (zones glob' ! i)"
    by (rule shrink_work_idle [OF that]) (use f in simp)
  moreover have "\<exists>led2 glob2. ttm_shrink_work do_shrink admin fuel (led, glob') = Some (led2, glob2) \<and>
      (\<forall>i < length (zones glob2). unat (used_mem (zones glob2 ! i)) = charged led2 i \<and>
         used_mem (zones glob2 ! i) \<le> swap_limit (zones glob2 ! i))"
    if "has_shrink glob'" "shrinker_works A do_shrink"
    using shrink_work_reaches_limit [OF that(2) inv f that(1), of admin] by (fastforce simp: mem_inv_def zone_ok_def)
  moreover have "\<exists>s. ttm_mem_global_alloc do_shrink admin fuel (led, glob') memory False = Some (s, Inr ())"
    if "has_shrink glob'" "shrinker_works A do_shrink" "unat memory \<le> A" for memory
    using alloc_succeeds_when_swapout_works [OF that(2) inv f that(3,1)] by (simp add: ttm_mem_global_alloc_def)
  ultimately show ?thesis using r inv unfolding mem_inv_def zone_ok_def by blast
qed

text \<open>Witness: the callback is registered, and the second charge of 8 GiB is only possible after it has released the first.\<close>

abbreviation (input) swapping_ops :: "mem_op list" where
  "swapping_ops \<equiv> [Register_Shrink, Alloc_Mem False (2 ^ 33) False, Alloc_Mem False (2 ^ 33) False, Free_Mem (2 ^ 33), Alloc_Page True (2 ^ 20 + 1) False]"

theorem memory_accounting_exact_witness:
  "\<exists>led glob'. mem_run swap_out_first 6 swapping_ops ([], small_glob) = Some (led, glob')
    \<and> (\<forall>i < length (zones glob').
         unat (used_mem (zones glob' ! i)) = charged led i
         \<and> charged led i \<le> unat (zone_mem (zones glob' ! i)) + 2 ^ 33
         \<and> max_mem (zones glob' ! i) \<le> emer_mem (zones glob' ! i)
         \<and> emer_mem (zones glob' ! i) \<le> zone_mem (zones glob' ! i))
    \<and> (has_shrink glob' \<longrightarrow> (\<exists>s. ttm_mem_global_alloc swap_out_first False 6 (led, glob') (2 ^ 33) False = Some (s, Inr ())))"
proof -
  have "unat ((totalram small_machine - totalhigh small_machine) * mem_unit small_machine) + 2 ^ 33 < 2 ^ 64"
    by (simp add: small_machine_def)
  note exact = memory_accounting_exact [OF small_glob_init this, of swap_out_first swapping_ops 6 False]
  have w: "shrinker_works (2 ^ 33) swap_out_first" and o: "shrinker_ok (2 ^ 33) swap_out_first"
    using swap_out_first_ok [of "2 ^ 33"] by (simp_all add: shrinker_works_def)
  have a: "\<forall>p\<in>set swapping_ops. op_amount p \<le> 2 ^ 33" "unat (2 ^ 33 :: u64) \<le> 2 ^ 33" by simp_all
  have b: "2 ^ 32 + 2 ^ 33 < (2 :: nat) ^ 64" "length swapping_ops < 6" by simp_all
  show ?thesis using exact [OF b(1) o a(1) b(2)] w a(2) by blast
qed

definition full_glob :: ttm_mem_global where
  "full_glob = \<lparr>zones = [(new_zone ''kernel'' 1024)\<lparr>used_mem := 600\<rparr>], zone_kernel = Some 0, zone_dma32 = None,
     has_shrink = True, work_queued = False, swap_queue = True, page_pool = True, dma_pool = True\<rparr>"

lemma alloc_succeeds_when_swapout_works_example:
  "snd (ttm_mem_global_reserve False full_glob None 100 True) = Inl ENOMEM
   \<and> (\<exists>s. ttm_mem_global_alloc_zone swap_out_first False 3 ([(None, 600)], full_glob) None 100 False = Some (s, Inr ()))"
proof
  show "snd (ttm_mem_global_reserve False full_glob None 100 True) = Inl ENOMEM"
    by (simp add: ttm_mem_global_reserve_def full_glob_def new_zone_def in_zone_def zone_full_def)
  have "mem_inv 1000 [(None, 600)] full_glob"
    by (simp add: mem_inv_def full_glob_def zone_ok_def new_zone_def in_zone_def)
  then show "\<exists>s. ttm_mem_global_alloc_zone swap_out_first False 3 ([(None, 600)], full_glob) None 100 False = Some (s, Inr ())"
    by (intro alloc_succeeds_when_swapout_works [OF swap_out_first_ok [of 1000]]) (simp_all add: full_glob_def)
qed

end
