(* ===== verification/Ttm_Object.thy ===== *)
theory Ttm_Object
  imports Hashtab "HOL-Library.Monad_Syntax"
begin

text \<open>
  User-space objects of \<open>src/ttm/ttm_object.c\<close>: reference-counted base objects with a global handle, the
  reference objects that the open files hold on them, the release of everything on file close, and the export of
  prime objects as dma-bufs. Objects, references, files and dma-bufs live in stores indexed by address. An address
  that is not in its store is freed memory; using it, or a \<open>BUG_ON\<close> that fires, is \<open>None\<close>.

  Each function runs as one step. The answers of the kernel (memory, the \<open>idr\<close> and the dma-buf core) and of
  \<open>ttm_mem_global_alloc\<close> are arguments. The release callback of an object frees it, as its contract asks.
\<close>

section \<open>Data\<close>

datatype ttm_ref_type = TTM_REF_USAGE | TTM_REF_SYNCCPU_READ | TTM_REF_SYNCCPU_WRITE

datatype ttm_object_type =
  ttm_fence_type | ttm_buffer_type | ttm_lock_type | ttm_prime_type | ttm_driver_type nat

record ttm_base_object =
  b_tfile :: nat
  b_refcount :: nat
  b_handle :: u32
  b_type :: ttm_object_type
  b_shareable :: bool
  b_ref_obj_release :: bool       \<comment> \<open>the callback is not null\<close>
  b_dma_buf :: "nat option"       \<comment> \<open>\<open>dma_buf\<close> of the enclosing \<open>struct ttm_prime_object\<close>\<close>

record ttm_ref_object =
  r_kref :: nat
  r_type :: ttm_ref_type
  r_obj :: nat
  r_tfile :: nat

record ttm_object_file =
  f_refcount :: nat
  f_refs :: "nat list"
  f_hash :: "ttm_ref_type \<Rightarrow> nat drm_open_hash"

record dma_buf =
  d_priv :: nat
  d_count :: nat                  \<comment> \<open>\<open>file->f_count\<close>\<close>
  d_ours :: bool                  \<comment> \<open>\<open>dma_buf->ops == &tdev->ops\<close>\<close>

datatype obj_event = Refcount_Release nat | Ref_Obj_Release nat ttm_ref_type

record ttm_objects =
  idr :: "u32 \<Rightarrow> nat option"
  bases :: "nat \<Rightarrow> ttm_base_object option"
  refs :: "nat \<Rightarrow> ttm_ref_object option"
  files :: "nat \<Rightarrow> ttm_object_file option"
  dmabufs :: "nat \<Rightarrow> dma_buf option"
  ref_charges :: nat              \<comment> \<open>charges of \<open>sizeof(struct ttm_ref_object)\<close>\<close>
  dma_charges :: nat              \<comment> \<open>charges of \<open>tdev->dma_buf_size\<close>\<close>
  events :: "obj_event list"

abbreviation handle_key :: "u32 \<Rightarrow> u64" where "handle_key h \<equiv> ucast h"

section \<open>Files and base objects\<close>

definition ttm_object_file_ref :: "nat \<Rightarrow> ttm_objects \<Rightarrow> ttm_objects option" where
  "ttm_object_file_ref f st = do {
     tf \<leftarrow> files st f;
     Some (st\<lparr>files := (files st)(f \<mapsto> tf\<lparr>f_refcount := f_refcount tf + 1\<rparr>)\<rparr>) }"

definition ttm_object_file_unref :: "nat \<Rightarrow> ttm_objects \<Rightarrow> ttm_objects option" where
  "ttm_object_file_unref f st = do {
     tf \<leftarrow> files st f;
     (case f_refcount tf of
        0 \<Rightarrow> None
      | Suc n \<Rightarrow> Some (st\<lparr>files := (files st)
                    (f := (if n = 0 then None else Some (tf\<lparr>f_refcount := n\<rparr>)))\<rparr>)) }"

definition ttm_release_base :: "nat \<Rightarrow> ttm_objects \<Rightarrow> ttm_objects option" where
  "ttm_release_base b st = do {
     base \<leftarrow> bases st b;
     st \<leftarrow> ttm_object_file_unref (b_tfile base) (st\<lparr>idr := (idr st)(b_handle base := None)\<rparr>);
     if b_type base = ttm_prime_type \<and> b_dma_buf base \<noteq> None then None
     else Some (st\<lparr>bases := (bases st)(b := None), events := events st @ [Refcount_Release b]\<rparr>) }"

definition ttm_base_object_unref :: "nat \<Rightarrow> ttm_objects \<Rightarrow> ttm_objects option" where
  "ttm_base_object_unref b st = do {
     base \<leftarrow> bases st b;
     (case b_refcount base of
        0 \<Rightarrow> None
      | Suc n \<Rightarrow>
          (let st = st\<lparr>bases := (bases st)(b \<mapsto> base\<lparr>b_refcount := n\<rparr>)\<rparr>
           in if n = 0 then ttm_release_base b st else Some st)) }"

section \<open>Lookups\<close>

definition find_ref :: "hash_fn \<Rightarrow> nat \<Rightarrow> ttm_ref_type \<Rightarrow> u64 \<Rightarrow> ttm_objects \<Rightarrow> nat option option" where
  \<comment> \<open>\<open>drm_ht_find_item_rcu\<close> on \<open>tfile->ref_hash[t]\<close>; a null table is a crash\<close>
  "find_ref hash_long f t key st = do {
     tf \<leftarrow> files st f;
     (case drm_ht_find_item hash_long (f_hash tf t) key of
        Inr r \<Rightarrow> Some (Some r)
      | Inl OOPS \<Rightarrow> None
      | Inl _ \<Rightarrow> Some None) }"

definition ttm_base_object_noref_lookup ::
  "hash_fn \<Rightarrow> nat \<Rightarrow> u32 \<Rightarrow> ttm_objects \<Rightarrow> nat option option" where
  "ttm_base_object_noref_lookup hash_long f key st = do {
     found \<leftarrow> find_ref hash_long f TTM_REF_USAGE (handle_key key) st;
     (case found of None \<Rightarrow> Some None
      | Some r \<Rightarrow> map_option (\<lambda>ref. Some (r_obj ref)) (refs st r)) }"

definition base_get_unless_zero :: "nat \<Rightarrow> ttm_objects \<Rightarrow> (ttm_objects \<times> nat option) option" where
  "base_get_unless_zero b st = do {
     base \<leftarrow> bases st b;
     if b_refcount base = 0 then Some (st, None)
     else Some (st\<lparr>bases := (bases st)(b \<mapsto> base\<lparr>b_refcount := b_refcount base + 1\<rparr>)\<rparr>, Some b) }"

definition ttm_base_object_lookup ::
  "hash_fn \<Rightarrow> nat \<Rightarrow> u32 \<Rightarrow> ttm_objects \<Rightarrow> (ttm_objects \<times> nat option) option" where
  "ttm_base_object_lookup hash_long f key st = do {
     found \<leftarrow> find_ref hash_long f TTM_REF_USAGE (handle_key key) st;
     (case found of None \<Rightarrow> Some (st, None)
      | Some r \<Rightarrow> do { ref \<leftarrow> refs st r; base_get_unless_zero (r_obj ref) st }) }"

definition ttm_base_object_lookup_for_ref ::
  "u32 \<Rightarrow> ttm_objects \<Rightarrow> (ttm_objects \<times> nat option) option" where
  "ttm_base_object_lookup_for_ref key st =
     (case idr st key of None \<Rightarrow> Some (st, None) | Some b \<Rightarrow> base_get_unless_zero b st)"

definition ttm_ref_object_exists :: "hash_fn \<Rightarrow> nat \<Rightarrow> nat \<Rightarrow> ttm_objects \<Rightarrow> bool option" where
  "ttm_ref_object_exists hash_long f b st = do {
     base \<leftarrow> bases st b;
     found \<leftarrow> find_ref hash_long f TTM_REF_USAGE (handle_key (b_handle base)) st;
     (case found of None \<Rightarrow> Some False
      | Some r \<Rightarrow> do { ref \<leftarrow> refs st r; Some (b = r_obj ref \<and> r_kref ref \<noteq> 0) }) }"

section \<open>Reference objects\<close>

text \<open>
  The loop of \<open>ttm_ref_object_add\<close>. It returns the new state, the value of \<open>*existed\<close>, and the result.
  \<open>mem\<close> is the answer of \<open>ttm_mem_global_alloc\<close>, \<open>kmalloc\<close> the address of the new reference object.
\<close>

fun ref_add_loop ::
  "hash_fn \<Rightarrow> nat \<Rightarrow> nat \<Rightarrow> ttm_ref_type \<Rightarrow> bool \<Rightarrow> unit kres \<Rightarrow> nat option \<Rightarrow> nat \<Rightarrow> ttm_objects \<Rightarrow>
   (ttm_objects \<times> bool \<times> unit kres) option" where
  "ref_add_loop hash_long f b t require_existed mem kmalloc 0 st = None"
| "ref_add_loop hash_long f b t require_existed mem kmalloc (Suc fuel) st = do {
     base \<leftarrow> bases st b;
     tf \<leftarrow> files st f;
     found \<leftarrow> find_ref hash_long f t (handle_key (b_handle base)) st;
     live \<leftarrow> (case found of None \<Rightarrow> Some None
              | Some r \<Rightarrow> do { ref \<leftarrow> refs st r; Some (if r_kref ref \<noteq> 0 then Some (r, ref) else None) });
     (case live of
        Some (r, ref) \<Rightarrow>
          Some (st\<lparr>refs := (refs st)(r \<mapsto> ref\<lparr>r_kref := r_kref ref + 1\<rparr>)\<rparr>, True, Inr ())
      | None \<Rightarrow>
         if require_existed then Some (st, True, Inl EPERM)
         else (case (mem, kmalloc) of
             (Inl e, _) \<Rightarrow> Some (st, True, Inl e)
           | (Inr _, None) \<Rightarrow> Some (st, True, Inl ENOMEM)
           | (Inr _, Some r) \<Rightarrow>
               (case drm_ht_insert_item hash_long (f_hash tf t)
                       \<lparr>item_key = handle_key (b_handle base), item_obj = r\<rparr> of
                  Inr ht \<Rightarrow>
                    Some (st\<lparr>refs := (refs st)(r \<mapsto> \<lparr>r_kref = 1, r_type = t, r_obj = b, r_tfile = f\<rparr>),
                             files := (files st)(f \<mapsto> tf\<lparr>f_refs := f_refs tf @ [r],
                                                         f_hash := (f_hash tf)(t := ht)\<rparr>),
                             bases := (bases st)(b \<mapsto> base\<lparr>b_refcount := b_refcount base + 1\<rparr>),
                             ref_charges := ref_charges st + 1\<rparr>, False, Inr ())
                | Inl EINVAL \<Rightarrow> ref_add_loop hash_long f b t require_existed mem kmalloc fuel st
                | Inl _ \<Rightarrow> None))) }"

definition ttm_ref_object_add ::
  "hash_fn \<Rightarrow> nat \<Rightarrow> nat \<Rightarrow> ttm_ref_type \<Rightarrow> bool \<Rightarrow> unit kres \<Rightarrow> nat option \<Rightarrow> ttm_objects \<Rightarrow>
   (ttm_objects \<times> bool \<times> unit kres) option" where
  \<comment> \<open>one round of the loop is enough when no other thread interferes\<close>
  "ttm_ref_object_add hash_long f b t require_existed mem kmalloc st = do {
     base \<leftarrow> bases st b;
     if b_tfile base \<noteq> f \<and> \<not> b_shareable base then Some (st, False, Inl EPERM)
     else ref_add_loop hash_long f b t require_existed mem kmalloc 1 st }"

definition ttm_ref_object_release :: "nat \<Rightarrow> ttm_objects \<Rightarrow> ttm_objects option" where
  "ttm_ref_object_release r st = do {
     ref \<leftarrow> refs st r;
     base \<leftarrow> bases st (r_obj ref);
     tf \<leftarrow> files st (r_tfile ref);
     st \<leftarrow> Some (st\<lparr>files := (files st)(r_tfile ref \<mapsto>
              tf\<lparr>f_hash := (f_hash tf)(r_type ref := drm_ht_remove_item (f_hash tf (r_type ref)) r),
                 f_refs := remove1 r (f_refs tf)\<rparr>)\<rparr>);
     st \<leftarrow> Some (if r_type ref \<noteq> TTM_REF_USAGE \<and> b_ref_obj_release base
            then st\<lparr>events := events st @ [Ref_Obj_Release (r_obj ref) (r_type ref)]\<rparr> else st);
     st \<leftarrow> ttm_base_object_unref (r_obj ref) st;
     st \<leftarrow> Some (st\<lparr>ref_charges := ref_charges st - 1, refs := (refs st)(r := None)\<rparr>);
     if files st (r_tfile ref) = None then None else Some st }"

definition ttm_ref_object_base_unref ::
  "hash_fn \<Rightarrow> nat \<Rightarrow> u32 \<Rightarrow> ttm_ref_type \<Rightarrow> ttm_objects \<Rightarrow> (ttm_objects \<times> unit kres) option" where
  "ttm_ref_object_base_unref hash_long f key t st = do {
     found \<leftarrow> find_ref hash_long f t (handle_key key) st;
     (case found of None \<Rightarrow> Some (st, Inl EINVAL)
      | Some r \<Rightarrow> do {
          ref \<leftarrow> refs st r;
          st \<leftarrow> (case r_kref ref of
                  0 \<Rightarrow> None
                | Suc n \<Rightarrow>
                    (let st = st\<lparr>refs := (refs st)(r \<mapsto> ref\<lparr>r_kref := n\<rparr>)\<rparr>
                     in if n = 0 then ttm_ref_object_release r st else Some st));
          Some (st, Inr ()) }) }"

section \<open>Creation and release\<close>

definition ttm_base_object_init ::
  "hash_fn \<Rightarrow> nat \<Rightarrow> nat \<Rightarrow> bool \<Rightarrow> ttm_object_type \<Rightarrow> bool \<Rightarrow> u32 kres \<Rightarrow> unit kres \<Rightarrow> nat option \<Rightarrow> ttm_objects \<Rightarrow>
   (ttm_objects \<times> unit kres) option" where
  \<comment> \<open>\<open>b\<close> is the caller's memory, which the caller frees when the result is an error\<close>
  "ttm_base_object_init hash_long f b shareable object_type has_release idr_alloc mem kmalloc st = do {
     st \<leftarrow> ttm_object_file_ref f st;
     (case idr_alloc of
        Inl e \<Rightarrow> Some (st, Inl e)
      | Inr h \<Rightarrow> do {
          st \<leftarrow> Some (st\<lparr>idr := (idr st)(h \<mapsto> b),
                   bases := (bases st)(b \<mapsto> \<lparr>b_tfile = f, b_refcount = 1, b_handle = h, b_type = object_type,
                     b_shareable = shareable, b_ref_obj_release = has_release, b_dma_buf = None\<rparr>)\<rparr>);
          (st, existed, ret) \<leftarrow> ttm_ref_object_add hash_long f b TTM_REF_USAGE False mem kmalloc st;
          (case ret of
             Inr _ \<Rightarrow> map_option (\<lambda>st. (st, Inr ())) (ttm_base_object_unref b st)
           | Inl e \<Rightarrow> Some (st\<lparr>idr := (idr st)(h := None), bases := (bases st)(b := None)\<rparr>, Inl e)) }) }"

definition ref_types :: "ttm_ref_type list" where
  "ref_types = [TTM_REF_USAGE, TTM_REF_SYNCCPU_READ, TTM_REF_SYNCCPU_WRITE]"

definition ttm_object_file_init ::
  "(ttm_ref_type \<Rightarrow> nat \<Rightarrow> bool) \<Rightarrow> (ttm_ref_type \<Rightarrow> nat \<Rightarrow> bool) \<Rightarrow> nat \<Rightarrow> nat option \<Rightarrow> ttm_objects \<Rightarrow>
   ttm_objects \<times> nat option" where
  "ttm_object_file_init kcalloc_ok vzalloc_ok hash_order kmalloc st =
     (case kmalloc of None \<Rightarrow> (st, None)
      | Some f \<Rightarrow>
         (let tab = (\<lambda>t. drm_ht_create (kcalloc_ok t) (vzalloc_ok t) hash_order)
          in if list_all (\<lambda>t. snd (tab t) = Inr ()) ref_types
             then (st\<lparr>files := (files st)(f \<mapsto> \<lparr>f_refcount = 1, f_refs = [], f_hash = (\<lambda>t. fst (tab t))\<rparr>)\<rparr>, Some f)
             else (st, None)))"

fun release_refs :: "nat \<Rightarrow> nat \<Rightarrow> ttm_objects \<Rightarrow> ttm_objects option" where
  \<comment> \<open>the first argument bounds the rounds: each takes one reference off the list\<close>
  "release_refs n f st = do {
     tf \<leftarrow> files st f;
     (case (f_refs tf, n) of
        ([], _) \<Rightarrow> Some st
      | (r # _, Suc m) \<Rightarrow> do { st \<leftarrow> ttm_ref_object_release r st; release_refs m f st }
      | (r # _, 0) \<Rightarrow> None) }"

declare release_refs.simps [simp del]

definition ttm_object_file_release :: "nat \<Rightarrow> ttm_objects \<Rightarrow> ttm_objects option" where
  "ttm_object_file_release f st = do {
     tf \<leftarrow> files st f;
     st \<leftarrow> release_refs (length (f_refs tf)) f st;
     tf \<leftarrow> files st f;
     ttm_object_file_unref f
       (st\<lparr>files := (files st)(f \<mapsto> tf\<lparr>f_hash := (\<lambda>t. drm_ht_remove (f_hash tf t))\<rparr>)\<rparr>) }"

section \<open>Prime objects\<close>

definition ttm_prime_dmabuf_release :: "nat \<Rightarrow> ttm_objects \<Rightarrow> ttm_objects option" where
  "ttm_prime_dmabuf_release d st = do {
     dma \<leftarrow> dmabufs st d;
     base \<leftarrow> bases st (d_priv dma);
     st \<leftarrow> Some (if b_dma_buf base = Some d
            then st\<lparr>bases := (bases st)(d_priv dma \<mapsto> base\<lparr>b_dma_buf := None\<rparr>)\<rparr> else st);
     ttm_base_object_unref (d_priv dma) (st\<lparr>dma_charges := dma_charges st - 1\<rparr>) }"

definition dma_buf_put :: "nat \<Rightarrow> ttm_objects \<Rightarrow> ttm_objects option" where
  \<comment> \<open>the last reference runs the release method and frees the dma-buf\<close>
  "dma_buf_put d st = do {
     dma \<leftarrow> dmabufs st d;
     (case d_count dma of
        0 \<Rightarrow> None
      | Suc (Suc n) \<Rightarrow> Some (st\<lparr>dmabufs := (dmabufs st)(d \<mapsto> dma\<lparr>d_count := Suc n\<rparr>)\<rparr>)
      | Suc 0 \<Rightarrow> do {
          st \<leftarrow> (if d_ours dma then ttm_prime_dmabuf_release d st else Some st);
          Some (st\<lparr>dmabufs := (dmabufs st)(d := None)\<rparr>) }) }"

definition get_dma_buf :: "nat \<Rightarrow> ttm_objects \<Rightarrow> ttm_objects option" where
  "get_dma_buf d st = do {
     dma \<leftarrow> dmabufs st d;
     Some (st\<lparr>dmabufs := (dmabufs st)(d \<mapsto> dma\<lparr>d_count := d_count dma + 1\<rparr>)\<rparr>) }"

definition ttm_prime_fd_to_handle ::
  "hash_fn \<Rightarrow> nat \<Rightarrow> nat kres \<Rightarrow> unit kres \<Rightarrow> nat option \<Rightarrow> ttm_objects \<Rightarrow> (ttm_objects \<times> u32 kres) option" where
  \<comment> \<open>\<open>fd\<close> is what \<open>dma_buf_get\<close> finds for the file descriptor\<close>
  "ttm_prime_fd_to_handle hash_long f fd mem kmalloc st =
     (case fd of Inl e \<Rightarrow> Some (st, Inl e)
      | Inr d \<Rightarrow> do {
          st \<leftarrow> get_dma_buf d st;
          dma \<leftarrow> dmabufs st d;
          if \<not> d_ours dma then Some (st, Inl ENOSYS)
          else do {
            base \<leftarrow> bases st (d_priv dma);
            (st, existed, ret) \<leftarrow> ttm_ref_object_add hash_long f (d_priv dma) TTM_REF_USAGE False mem kmalloc st;
            st \<leftarrow> dma_buf_put d st;
            Some (st, case ret of Inl e \<Rightarrow> Inl e | Inr _ \<Rightarrow> Inr (b_handle base)) } })"

record prime_env =
  lock_ok :: bool                 \<comment> \<open>\<open>mutex_lock_interruptible\<close>\<close>
  export_mem :: "unit kres"       \<comment> \<open>\<open>ttm_mem_global_alloc\<close>\<close>
  export_ret :: "nat kres"        \<comment> \<open>\<open>dma_buf_export\<close>\<close>
  fd_ret :: "nat kres"            \<comment> \<open>\<open>dma_buf_fd\<close>\<close>

definition prime_install_fd :: "prime_env \<Rightarrow> nat \<Rightarrow> ttm_objects \<Rightarrow> (ttm_objects \<times> nat kres) option" where
  "prime_install_fd env d st =
     (case fd_ret env of
        Inr fd \<Rightarrow> Some (st, Inr fd)
      | Inl e \<Rightarrow> map_option (\<lambda>st. (st, Inl e)) (dma_buf_put d st))"

definition unref_with :: "nat \<Rightarrow> 'a \<Rightarrow> ttm_objects \<Rightarrow> (ttm_objects \<times> 'a) option" where
  "unref_with b ret st = map_option (\<lambda>st. (st, ret)) (ttm_base_object_unref b st)"

definition ttm_prime_handle_to_fd ::
  "hash_fn \<Rightarrow> prime_env \<Rightarrow> nat \<Rightarrow> u32 \<Rightarrow> ttm_objects \<Rightarrow> (ttm_objects \<times> nat kres) option" where
  "ttm_prime_handle_to_fd hash_long env f handle st = do {
     (st, found) \<leftarrow> ttm_base_object_lookup hash_long f handle st;
     (case found of
        None \<Rightarrow> Some (st, Inl ENOENT)
      | Some b \<Rightarrow> do {
          base \<leftarrow> bases st b;
          if b_type base \<noteq> ttm_prime_type then unref_with b (Inl ENOENT) st
          else if \<not> b_shareable base then unref_with b (Inl EPERM) st
          else if \<not> lock_ok env then unref_with b (Inl ERESTARTSYS) st
          else do {
            live \<leftarrow> (case b_dma_buf base of None \<Rightarrow> Some None
                     | Some d \<Rightarrow> do { dma \<leftarrow> dmabufs st d; Some (if d_count dma \<noteq> 0 then Some d else None) });
            (case live of
               Some d \<Rightarrow> do {
                 st \<leftarrow> get_dma_buf d st;
                 (st, ret) \<leftarrow> prime_install_fd env d st;
                 unref_with b ret st }
             | None \<Rightarrow>
                 (case (export_mem env, export_ret env) of
                    (Inl e, _) \<Rightarrow> unref_with b (Inl e) st
                  | (Inr _, Inl e) \<Rightarrow> unref_with b (Inl e) st
                  | (Inr _, Inr d) \<Rightarrow>
                      prime_install_fd env d
                        (st\<lparr>dmabufs := (dmabufs st)(d \<mapsto> \<lparr>d_priv = b, d_count = 1, d_ours = True\<rparr>),
                            dma_charges := dma_charges st + 1,
                            bases := (bases st)(b \<mapsto> base\<lparr>b_dma_buf := Some d\<rparr>)\<rparr>))) } }) }"

definition ttm_prime_object_init ::
  "hash_fn \<Rightarrow> nat \<Rightarrow> nat \<Rightarrow> bool \<Rightarrow> bool \<Rightarrow> u32 kres \<Rightarrow> unit kres \<Rightarrow> nat option \<Rightarrow> ttm_objects \<Rightarrow>
   (ttm_objects \<times> unit kres) option" where
  "ttm_prime_object_init hash_long f b shareable has_release idr_alloc mem kmalloc st =
     ttm_base_object_init hash_long f b shareable ttm_prime_type has_release idr_alloc mem kmalloc st"

section \<open>Invariant\<close>

text \<open>
  What files and references see of an object: its owner, its handle and whether it is shareable. None of these
  changes while the object lives.
\<close>

definition bkey :: "(nat \<Rightarrow> ttm_base_object option) \<Rightarrow> nat \<Rightarrow> (nat \<times> u32 \<times> bool) option" where
  "bkey B b = map_option (\<lambda>x. (b_tfile x, b_handle x, b_shareable x)) (B b)"

definition f_open :: "ttm_object_file \<Rightarrow> bool" where
  "f_open tf \<longleftrightarrow> ht_table (f_hash tf TTM_REF_USAGE) \<noteq> None"

definition ref_at ::
  "(nat \<Rightarrow> (nat \<times> u32 \<times> bool) option) \<Rightarrow> (nat \<Rightarrow> ttm_ref_object option) \<Rightarrow> nat \<Rightarrow> ttm_ref_type \<Rightarrow> u64 \<Rightarrow> nat \<Rightarrow> bool" where
  "ref_at K R f t k r \<longleftrightarrow> (\<exists>ref o' h s. R r = Some ref \<and> r_tfile ref = f \<and> r_type ref = t
     \<and> K (r_obj ref) = Some (o', h, s) \<and> handle_key h = k)"

definition file_ok ::
  "hash_fn \<Rightarrow> (nat \<Rightarrow> (nat \<times> u32 \<times> bool) option) \<Rightarrow> (nat \<Rightarrow> ttm_ref_object option) \<Rightarrow> nat \<Rightarrow> ttm_object_file \<Rightarrow> bool" where
  "file_ok hash_long K R f tf \<longleftrightarrow>
     distinct (f_refs tf) \<and> (\<forall>r. r \<in> set (f_refs tf) \<longleftrightarrow> (\<exists>ref. R r = Some ref \<and> r_tfile ref = f))
     \<and> (f_open tf \<longrightarrow> (\<forall>t. ht_inv hash_long (f_hash tf t) \<and> (\<forall>k r. ht_map (f_hash tf t) k = Some r \<longleftrightarrow> ref_at K R f t k r)))
     \<and> (\<not> f_open tf \<longrightarrow> f_refs tf = [])
     \<and> 0 < f_refcount tf \<and> (if f_open tf then 1 else 0) + count_map (\<lambda>(o', h, s). o' = f) K \<le> f_refcount tf"

definition struct_inv ::
  "hash_fn \<Rightarrow> (nat \<Rightarrow> (nat \<times> u32 \<times> bool) option) \<Rightarrow> (nat \<Rightarrow> ttm_ref_object option) \<Rightarrow> (nat \<Rightarrow> ttm_object_file option)
   \<Rightarrow> (u32 \<Rightarrow> nat option) \<Rightarrow> bool" where
  "struct_inv hash_long K R F I \<longleftrightarrow>
     finite (dom K) \<and> finite (dom R)
     \<and> (\<forall>f tf. F f = Some tf \<longrightarrow> file_ok hash_long K R f tf)
     \<and> (\<forall>r ref. R r = Some ref \<longrightarrow> 0 < r_kref ref \<and>
          (\<exists>o' h s tf. K (r_obj ref) = Some (o', h, s) \<and> F (r_tfile ref) = Some tf \<and> f_open tf \<and> (o' = r_tfile ref \<or> s)))
     \<and> (\<forall>b o' h s. K b = Some (o', h, s) \<longrightarrow> I h = Some b \<and> F o' \<noteq> None)
     \<and> (\<forall>h b. I h = Some b \<longrightarrow> (\<exists>o' s. K b = Some (o', h, s)))"

definition base_ok ::
  "nat \<Rightarrow> (nat \<Rightarrow> ttm_ref_object option) \<Rightarrow> (nat \<Rightarrow> dma_buf option) \<Rightarrow> nat \<Rightarrow> ttm_base_object \<Rightarrow> bool" where
  "base_ok n R D b base \<longleftrightarrow> 0 < b_refcount base
     \<and> b_refcount base = count_map (\<lambda>ref. r_obj ref = b) R + count_map (\<lambda>x. d_ours x \<and> d_priv x = b) D + n
     \<and> (\<forall>d. b_dma_buf base = Some d \<longrightarrow> (\<exists>x. D d = Some x \<and> d_ours x \<and> d_priv x = b))"

definition count_inv ::
  "(nat \<Rightarrow> nat) \<Rightarrow> (nat \<Rightarrow> ttm_base_object option) \<Rightarrow> (nat \<Rightarrow> ttm_ref_object option) \<Rightarrow> (nat \<Rightarrow> dma_buf option) \<Rightarrow> bool" where
  "count_inv held B R D \<longleftrightarrow>
     finite (dom D)
     \<and> (\<forall>b base. B b = Some base \<longrightarrow> base_ok (held b) R D b base)
     \<and> (\<forall>b. B b = None \<longrightarrow> held b = 0)
     \<and> (\<forall>d x. D d = Some x \<longrightarrow> 0 < d_count x \<and> (d_ours x \<longrightarrow> B (d_priv x) \<noteq> None))"

text \<open>\<open>held b\<close> is the number of references to \<open>b\<close> that callers in the kernel hold.\<close>

definition obj_inv :: "hash_fn \<Rightarrow> (nat \<Rightarrow> nat) \<Rightarrow> ttm_objects \<Rightarrow> bool" where
  "obj_inv hash_long held st \<longleftrightarrow>
     struct_inv hash_long (bkey (bases st)) (refs st) (files st) (idr st)
     \<and> count_inv held (bases st) (refs st) (dmabufs st)
     \<and> ref_charges st = card (dom (refs st)) \<and> dma_charges st = count_map d_ours (dmabufs st)"

lemma bkey_upd:
  "B b = Some base \<Longrightarrow> b_tfile base' = b_tfile base \<Longrightarrow> b_handle base' = b_handle base \<Longrightarrow> b_shareable base' = b_shareable base
   \<Longrightarrow> bkey (B(b \<mapsto> base')) = bkey B"
  by (auto simp: bkey_def fun_eq_iff)

lemma bkey_new: "bkey (B(b \<mapsto> base)) = (bkey B)(b \<mapsto> (b_tfile base, b_handle base, b_shareable base))"
  by (auto simp: bkey_def fun_eq_iff)

lemma bkey_del: "bkey (B(b := None)) = (bkey B)(b := None)"
  by (auto simp: bkey_def fun_eq_iff)

lemma bkey_None [simp]: "bkey B b = None \<longleftrightarrow> B b = None"
  by (simp add: bkey_def)

lemma bkey_Some: "B b = Some base \<Longrightarrow> bkey B b = Some (b_tfile base, b_handle base, b_shareable base)"
  by (simp add: bkey_def)

lemma dom_bkey [simp]: "dom (bkey B) = dom B"
  by (auto simp: bkey_def dom_def)

lemma struct_invI:
  assumes "finite (dom K)" "finite (dom R)" "\<And>f tf. F f = Some tf \<Longrightarrow> file_ok hash_long K R f tf"
    and "\<And>r ref. R r = Some ref \<Longrightarrow> 0 < r_kref ref \<and>
          (\<exists>o' h s tf. K (r_obj ref) = Some (o', h, s) \<and> F (r_tfile ref) = Some tf \<and> f_open tf \<and> (o' = r_tfile ref \<or> s))"
    and "\<And>b o' h s. K b = Some (o', h, s) \<Longrightarrow> I h = Some b \<and> F o' \<noteq> None"
    and "\<And>h b. I h = Some b \<Longrightarrow> \<exists>o' s. K b = Some (o', h, s)"
  shows "struct_inv hash_long K R F I"
  unfolding struct_inv_def using assms by blast

lemma struct_fin: "struct_inv hash_long K R F I \<Longrightarrow> finite (dom K)" "struct_inv hash_long K R F I \<Longrightarrow> finite (dom R)"
  by (simp_all add: struct_inv_def)

lemma struct_file: "struct_inv hash_long K R F I \<Longrightarrow> F f = Some tf \<Longrightarrow> file_ok hash_long K R f tf"
  by (simp add: struct_inv_def)

lemma struct_ref:
  assumes "struct_inv hash_long K R F I" "R r = Some ref"
  obtains o' h s tf where "K (r_obj ref) = Some (o', h, s)" "F (r_tfile ref) = Some tf" "f_open tf"
    "o' = r_tfile ref \<or> s" "0 < r_kref ref"
  using assms unfolding struct_inv_def by blast

lemma struct_key:
  assumes "struct_inv hash_long K R F I" "K b = Some (o', h, s)"
  shows "I h = Some b" "F o' \<noteq> None"
  using assms unfolding struct_inv_def by blast+

lemma struct_idr:
  assumes "struct_inv hash_long K R F I" "I h = Some b"
  obtains o' s where "K b = Some (o', h, s)"
  using assms unfolding struct_inv_def by blast

lemma struct_keyD: "struct_inv hash_long K R F I \<Longrightarrow> K b = Some (o', h, s) \<Longrightarrow> I h = Some b \<and> F o' \<noteq> None"
  using struct_key by blast

lemma struct_idrD: "struct_inv hash_long K R F I \<Longrightarrow> I h = Some b \<Longrightarrow> \<exists>o' s. K b = Some (o', h, s)"
  by (erule (1) struct_idr) blast

lemma struct_handle_inj:
  assumes "struct_inv hash_long K R F I" "K b = Some (o1, h, s1)" "K b' = Some (o2, h, s2)"
  shows "b = b'"
  using struct_key(1) [OF assms(1,2)] struct_key(1) [OF assms(1,3)] by simp

lemma handle_key_eq: "handle_key h = handle_key h' \<longleftrightarrow> h = h'"
proof -
  have "unat (handle_key x) = unat x" for x :: u32
    using unsigned_less [where 'a = nat, of x] by (simp add: unsigned_ucast_eq take_bit_nat_eq_self)
  then show ?thesis by (metis unsigned_word_eqI)
qed

section \<open>Base object references\<close>

lemma obj_inv_base:
  assumes "obj_inv hash_long held st" "bases st b = Some base"
  shows "0 < b_refcount base"
    "b_refcount base = count_map (\<lambda>ref. r_obj ref = b) (refs st)
       + count_map (\<lambda>x. d_ours x \<and> d_priv x = b) (dmabufs st) + held b"
    "b_dma_buf base = Some d \<Longrightarrow> \<exists>x. dmabufs st d = Some x \<and> d_ours x \<and> d_priv x = b"
  using assms unfolding obj_inv_def count_inv_def base_ok_def by blast+

lemma obj_inv_dma:
  assumes "obj_inv hash_long held st" "dmabufs st d = Some x"
  shows "0 < d_count x \<and> (d_ours x \<longrightarrow> bases st (d_priv x) \<noteq> None)"
  using assms unfolding obj_inv_def count_inv_def by blast

lemma count_inv_refcount:
  assumes "count_inv held B R D" "B b = Some base" "b_dma_buf base' = b_dma_buf base"
    and "0 < b_refcount base'" "b_refcount base' + held b = b_refcount base + n"
  shows "count_inv (held(b := n)) (B(b \<mapsto> base')) R D"
proof -
  have "base_ok n R D b base'"
    using assms by (auto simp: count_inv_def base_ok_def)
  with assms(1,2) show ?thesis by (auto simp: count_inv_def)
qed

lemma get_inv:
  assumes inv: "obj_inv hash_long held st" and b: "bases st b = Some base"
  shows "obj_inv hash_long (held(b := held b + 1))
           (st\<lparr>bases := (bases st)(b \<mapsto> base\<lparr>b_refcount := b_refcount base + 1\<rparr>)\<rparr>)"
  using inv b unfolding obj_inv_def
  by (auto simp: bkey_upd intro!: count_inv_refcount)

lemma base_get_ok:
  assumes "obj_inv hash_long held st" "bases st b \<noteq> None"
  shows "\<exists>st'. base_get_unless_zero b st = Some (st', Some b) \<and> obj_inv hash_long (held(b := held b + 1)) st'
           \<and> bkey (bases st') = bkey (bases st)"
  using assms get_inv [OF assms(1)] obj_inv_base(1) [OF assms(1)]
  by (auto simp: base_get_unless_zero_def bkey_upd)

lemma file_ok_unref:
  assumes "file_ok hash_long K R f tf" "K b = Some (f, h, s)" "finite (dom K)"
    and "\<forall>r ref. R r = Some ref \<longrightarrow> r_obj ref \<noteq> b" "f_refcount tf = Suc n" "0 < n"
  shows "file_ok hash_long (K(b := None)) R f (tf\<lparr>f_refcount := n\<rparr>)"
proof -
  have "ref_at (K(b := None)) R f t k r = ref_at K R f t k r" for t k r
    using assms(4) unfolding ref_at_def by (metis fun_upd_other)
  moreover have "count_map (\<lambda>(o', h, s). o' = f) K = count_map (\<lambda>(o', h, s). o' = f) (K(b := None)) + 1"
    using count_map_delete [OF assms(3,2), of "\<lambda>(o', h, s). o' = f"] by simp
  ultimately show ?thesis using assms(1,5,6) by (simp add: file_ok_def f_open_def)
qed

lemma file_ok_other:
  assumes "file_ok hash_long K R f tf" "K b = Some (o', h, s)" "o' \<noteq> f" "finite (dom K)"
    and "\<forall>r ref. R r = Some ref \<longrightarrow> r_obj ref \<noteq> b"
  shows "file_ok hash_long (K(b := None)) R f tf"
proof -
  have "ref_at (K(b := None)) R f t k r = ref_at K R f t k r" for t k r
    using assms(5) unfolding ref_at_def by (metis fun_upd_other)
  moreover have "count_map (\<lambda>(o', h, s). o' = f) K = count_map (\<lambda>(o', h, s). o' = f) (K(b := None))"
    using count_map_delete [OF assms(4,2), of "\<lambda>(o', h, s). o' = f"] assms(3) by simp
  ultimately show ?thesis using assms(1) by (simp add: file_ok_def f_open_def)
qed

lemma last_reference:
  assumes st: "struct_inv hash_long K R F I" and b: "K b = Some (f, h, s)" and f: "F f = Some tf"
    and refs: "\<forall>r ref. R r = Some ref \<longrightarrow> r_obj ref \<noteq> b"
  obtains n where "f_refcount tf = Suc n"
    "struct_inv hash_long (K(b := None)) R (F(f := (if n = 0 then None else Some (tf\<lparr>f_refcount := n\<rparr>)))) (I(h := None))"
    "f_open tf \<Longrightarrow> 0 < n"
proof -
  have fin: "finite (dom K)" using st by (simp add: struct_inv_def)
  have fok: "file_ok hash_long K R f tf" by (rule struct_file [OF st f])
  have cnt: "count_map (\<lambda>(o', h, s). o' = f) K = count_map (\<lambda>(o', h, s). o' = f) (K(b := None)) + 1"
    using count_map_delete [OF fin b, of "\<lambda>(o', h, s). o' = f"] by simp
  with fok obtain n where n: "f_refcount tf = Suc n"
      "(if f_open tf then 1 else 0) + count_map (\<lambda>(o', h, s). o' = f) (K(b := None)) \<le> n"
    by (cases "f_refcount tf") (auto simp: file_ok_def)
  have only: "K b' = Some (f, h', s') \<Longrightarrow> b' = b" if "n = 0" for b' h' s'
    using n(2) that count_map_pos [of "K(b := None)" b' "(f, h', s')" "\<lambda>(o', h, s). o' = f"] fin
    by (cases "b' = b") auto
  let ?F = "F(f := (if n = 0 then None else Some (tf\<lparr>f_refcount := n\<rparr>)))"
  have files: "file_ok hash_long (K(b := None)) R g tg" if "?F g = Some tg" for g tg
  proof (cases "g = f")
    case True
    with that n show ?thesis using file_ok_unref [OF fok b fin refs] by (auto split: if_splits)
  next
    case False
    with that have "file_ok hash_long K R g tg" by (intro struct_file [OF st]) simp
    from file_ok_other [OF this b] False fin refs show ?thesis by blast
  qed
  have rf: "0 < r_kref ref \<and> (\<exists>o' h s tf'. (K(b := None)) (r_obj ref) = Some (o', h, s) \<and> ?F (r_tfile ref) = Some tf'
      \<and> f_open tf' \<and> (o' = r_tfile ref \<or> s))" if r: "R r = Some ref" for r ref
  proof -
    from struct_ref [OF st r] obtain o' h' s' tf' where *: "K (r_obj ref) = Some (o', h', s')"
        "F (r_tfile ref) = Some tf'" "f_open tf'" "o' = r_tfile ref \<or> s'" "0 < r_kref ref" .
    have "?F (r_tfile ref) = Some (if r_tfile ref = f then tf\<lparr>f_refcount := n\<rparr> else tf')"
      using * n(2) f by auto
    moreover have "f_open (if r_tfile ref = f then tf\<lparr>f_refcount := n\<rparr> else tf')"
      using * f by (auto simp: f_open_def)
    ultimately show ?thesis using * refs r by (metis fun_upd_other)
  qed
  have keys: "(I(h := None)) h' = Some b' \<and> ?F o' \<noteq> None" if "(K(b := None)) b' = Some (o', h', s')" for b' o' h' s'
  proof -
    from that have "b' \<noteq> b" and k: "K b' = Some (o', h', s')" by (auto split: if_splits)
    with struct_handle_inj [OF st b, of b' o' s'] have "h' \<noteq> h" by auto
    with struct_key [OF st k] only k \<open>b' \<noteq> b\<close> show ?thesis by (cases "n = 0") auto
  qed
  have ids: "\<exists>o' s. (K(b := None)) b' = Some (o', h', s)" if "(I(h := None)) h' = Some b'" for h' b'
  proof -
    from that have h': "h' \<noteq> h" "I h' = Some b'" by (auto split: if_splits)
    from struct_idr [OF st h'(2)] obtain o' s' where k: "K b' = Some (o', h', s')" .
    with b h'(1) have "b' \<noteq> b" by auto
    with k show ?thesis by simp
  qed
  have "struct_inv hash_long (K(b := None)) R ?F (I(h := None))"
    using struct_fin [OF st] by (intro struct_invI files rf keys ids) simp_all
  moreover have "f_open tf \<Longrightarrow> 0 < n" using n(2) by simp
  ultimately show ?thesis using that n(1) by blast
qed

definition still_open :: "ttm_objects \<Rightarrow> ttm_objects \<Rightarrow> bool" where
  \<comment> \<open>open files stay open and keep their references\<close>
  "still_open st st' \<longleftrightarrow> (\<forall>f tf. files st f = Some tf \<and> f_open tf \<longrightarrow>
     (\<exists>tf'. files st' f = Some tf' \<and> f_open tf' \<and> f_refs tf' = f_refs tf \<and> f_hash tf' = f_hash tf))"

lemma still_open_refl [simp]: "files st' = files st \<Longrightarrow> still_open st st'"
  by (simp add: still_open_def)

lemma still_open_trans: "still_open s1 s2 \<Longrightarrow> still_open s2 s3 \<Longrightarrow> still_open s1 s3"
  unfolding still_open_def by metis

lemma release_inv:
  assumes inv: "obj_inv hash_long held st" and b: "bases st b = Some base"
    and rc: "b_refcount base = 1" and h: "0 < held b"
  shows "\<exists>st'. ttm_release_base b (st\<lparr>bases := (bases st)(b \<mapsto> base\<lparr>b_refcount := 0\<rparr>)\<rparr>) = Some st'
           \<and> obj_inv hash_long (held(b := held b - 1)) st'
           \<and> refs st' = refs st \<and> dmabufs st' = dmabufs st \<and> still_open st st'"
proof -
  have st: "struct_inv hash_long (bkey (bases st)) (refs st) (files st) (idr st)"
    and co: "count_inv held (bases st) (refs st) (dmabufs st)" using inv by (simp_all add: obj_inv_def)
  note B = obj_inv_base [OF inv b]
  have z: "count_map (\<lambda>ref. r_obj ref = b) (refs st) = 0" "count_map (\<lambda>x. d_ours x \<and> d_priv x = b) (dmabufs st) = 0"
      "held b = 1" using B(2) rc h by simp_all
  have norefs: "\<forall>r ref. refs st r = Some ref \<longrightarrow> r_obj ref \<noteq> b"
    using z(1) count_map_0 [OF struct_fin(2) [OF st], of "\<lambda>ref. r_obj ref = b"] by simp
  have nodma: "\<forall>d x. dmabufs st d = Some x \<longrightarrow> \<not> (d_ours x \<and> d_priv x = b)"
    using z(2) count_map_0 [of "dmabufs st" "\<lambda>x. d_ours x \<and> d_priv x = b"] co by (simp add: count_inv_def)
  have none: "b_dma_buf base = None" by (metis B(3) nodma option.exhaust)
  note K = bkey_Some [of "bases st" b, OF b]
  obtain tf where f: "files st (b_tfile base) = Some tf" using struct_key(2) [OF st K] by blast
  obtain n where n: "f_refcount tf = Suc n"
      "struct_inv hash_long ((bkey (bases st))(b := None)) (refs st)
         ((files st)(b_tfile base := (if n = 0 then None else Some (tf\<lparr>f_refcount := n\<rparr>)))) ((idr st)(b_handle base := None))"
      "f_open tf \<Longrightarrow> 0 < n"
    using last_reference [OF st K f norefs] by blast
  have op: "f_open tf \<longrightarrow> 0 < n" using n(3) by blast
  have "count_inv (held(b := 0)) ((bases st)(b := None)) (refs st) (dmabufs st)"
    using co nodma unfolding count_inv_def by auto
  then show ?thesis
    using inv b f n(1,2) op none z(3)
    by (auto simp: ttm_release_base_def ttm_object_file_unref_def bkey_del obj_inv_def still_open_def f_open_def)
qed

lemma unref_inv:
  assumes inv: "obj_inv hash_long held st" and h: "0 < held b"
  shows "\<exists>st'. ttm_base_object_unref b st = Some st' \<and> obj_inv hash_long (held(b := held b - 1)) st'
           \<and> refs st' = refs st \<and> dmabufs st' = dmabufs st \<and> still_open st st'"
proof -
  obtain base where b: "bases st b = Some base"
    using inv h unfolding obj_inv_def count_inv_def by (metis not_gr_zero option.exhaust)
  obtain n where n: "b_refcount base = Suc n"
    using obj_inv_base(1) [OF inv b] gr0_conv_Suc by blast
  show ?thesis
  proof (cases "n = 0")
    case True
    with release_inv [OF inv b _ h] n b show ?thesis by (simp add: ttm_base_object_unref_def)
  next
    case False
    have "obj_inv hash_long (held(b := held b - 1)) (st\<lparr>bases := (bases st)(b \<mapsto> base\<lparr>b_refcount := n\<rparr>)\<rparr>)"
      using inv b n h False unfolding obj_inv_def by (auto simp: bkey_upd intro!: count_inv_refcount)
    with False n b show ?thesis by (simp add: ttm_base_object_unref_def)
  qed
qed

lemma unref_frame:
  "ttm_base_object_unref b (st\<lparr>refs := R, ref_charges := c\<rparr>) =
     map_option (\<lambda>s. s\<lparr>refs := R, ref_charges := c\<rparr>) (ttm_base_object_unref b st)"
  "ttm_base_object_unref b (st\<lparr>dmabufs := D, dma_charges := c\<rparr>) =
     map_option (\<lambda>s. s\<lparr>dmabufs := D, dma_charges := c\<rparr>) (ttm_base_object_unref b st)"
  by (auto simp: ttm_base_object_unref_def ttm_release_base_def ttm_object_file_unref_def Let_def
      split: option.split nat.split bind_splits)

section \<open>Reference objects\<close>

lemma ref_at_kref: "R r = Some ref \<Longrightarrow> ref_at K (R(r \<mapsto> ref\<lparr>r_kref := n\<rparr>)) f t k r' = ref_at K R f t k r'"
  by (auto simp: ref_at_def)

lemma struct_kref:
  assumes st: "struct_inv hash_long K R F I" and r: "R r = Some ref" and n: "0 < n"
  shows "struct_inv hash_long K (R(r \<mapsto> ref\<lparr>r_kref := n\<rparr>)) F I"
proof (rule struct_invI)
  fix f tf assume "F f = Some tf"
  then have "file_ok hash_long K R f tf" by (rule struct_file [OF st])
  moreover have "(\<exists>x. (R(r \<mapsto> ref\<lparr>r_kref := n\<rparr>)) r' = Some x \<and> r_tfile x = f) \<longleftrightarrow> (\<exists>x. R r' = Some x \<and> r_tfile x = f)" for r'
    using r by auto
  ultimately show "file_ok hash_long K (R(r \<mapsto> ref\<lparr>r_kref := n\<rparr>)) f tf"
    unfolding file_ok_def ref_at_kref [of R, OF r] by simp
next
  fix r' ref' assume "(R(r \<mapsto> ref\<lparr>r_kref := n\<rparr>)) r' = Some ref'"
  then obtain x where "R r' = Some x" "r_obj ref' = r_obj x" "r_tfile ref' = r_tfile x" "0 < r_kref x \<Longrightarrow> 0 < r_kref ref'"
    using r n by (auto split: if_splits)
  with st show "0 < r_kref ref' \<and> (\<exists>o' h s tf. K (r_obj ref') = Some (o', h, s) \<and> F (r_tfile ref') = Some tf \<and> f_open tf
      \<and> (o' = r_tfile ref' \<or> s))"
    unfolding struct_inv_def by metis
qed (use struct_fin [OF st] struct_keyD [OF st] struct_idrD [OF st] in \<open>(blast | simp)+\<close>)

lemma count_inv_refs:
  assumes "count_inv held B R D" "\<And>b. B b \<noteq> None \<Longrightarrow> count_map (\<lambda>ref. r_obj ref = b) R' + held' b = count_map (\<lambda>ref. r_obj ref = b) R + held b"
    and "\<And>b. B b = None \<Longrightarrow> held' b = held b"
  shows "count_inv held' B R' D"
proof -
  have "base_ok (held' b) R' D b base" if "B b = Some base" for b base
  proof -
    have "base_ok (held b) R D b base" using assms(1) that by (simp add: count_inv_def)
    moreover have "count_map (\<lambda>ref. r_obj ref = b) R' + held' b = count_map (\<lambda>ref. r_obj ref = b) R + held b"
      using assms(2) [of b] that by simp
    ultimately show ?thesis unfolding base_ok_def by (elim conjE, intro conjI) (assumption | linarith)+
  qed
  with assms(1,3) show ?thesis by (auto simp: count_inv_def)
qed

lemma kref_inv:
  assumes inv: "obj_inv hash_long held st" and r: "refs st r = Some ref" and n: "0 < n"
  shows "obj_inv hash_long held (st\<lparr>refs := (refs st)(r \<mapsto> ref\<lparr>r_kref := n\<rparr>)\<rparr>)"
proof -
  have fin: "finite (dom (refs st))" using inv by (simp add: obj_inv_def struct_inv_def)
  have "count_map (\<lambda>x. r_obj x = b) ((refs st)(r \<mapsto> ref\<lparr>r_kref := n\<rparr>)) = count_map (\<lambda>x. r_obj x = b) (refs st)" for b
    using count_map_replace [OF fin r, of "\<lambda>x. r_obj x = b" "ref\<lparr>r_kref := n\<rparr>"] by simp
  moreover have "dom ((refs st)(r \<mapsto> ref\<lparr>r_kref := n\<rparr>)) = dom (refs st)" using r by auto
  ultimately show ?thesis
    using inv struct_kref [where R = "refs st", OF _ r n] unfolding obj_inv_def by (auto intro: count_inv_refs)
qed

definition file_add :: "ttm_object_file \<Rightarrow> ttm_ref_type \<Rightarrow> nat drm_open_hash \<Rightarrow> nat \<Rightarrow> ttm_object_file" where
  "file_add tf t ht r = tf\<lparr>f_refs := f_refs tf @ [r], f_hash := (f_hash tf)(t := ht)\<rparr>"

definition file_del :: "ttm_object_file \<Rightarrow> ttm_ref_type \<Rightarrow> nat drm_open_hash \<Rightarrow> nat \<Rightarrow> ttm_object_file" where
  "file_del tf t ht r = tf\<lparr>f_hash := (f_hash tf)(t := ht), f_refs := remove1 r (f_refs tf)\<rparr>"

lemma f_open_inv: "ht_inv hash_long ht \<Longrightarrow> ht_table ht \<noteq> None"
  by (auto elim: ht_invE)

lemma f_open_add: "f_open tf \<Longrightarrow> ht_inv hash_long ht \<Longrightarrow> f_open (file_add tf t ht r)"
  using f_open_inv [of hash_long ht] by (auto simp: f_open_def file_add_def)

lemma f_open_del: "f_open tf \<Longrightarrow> ht_inv hash_long ht \<Longrightarrow> f_open (file_del tf t ht r)"
  using f_open_inv [of hash_long ht] by (auto simp: f_open_def file_del_def)

lemma file_ok_map:
  "file_ok hash_long K R f tf \<Longrightarrow> f_open tf \<Longrightarrow> ht_inv hash_long (f_hash tf t)"
  "file_ok hash_long K R f tf \<Longrightarrow> f_open tf \<Longrightarrow> ht_map (f_hash tf t) k = Some r \<longleftrightarrow> ref_at K R f t k r"
  by (simp_all add: file_ok_def)

lemma ref_at_add:
  assumes "R r = None" "K (r_obj ref) = Some (o', h, s)"
  shows "ref_at K (R(r \<mapsto> ref)) f t k r' \<longleftrightarrow>
    (if r' = r then r_tfile ref = f \<and> r_type ref = t \<and> k = handle_key h else ref_at K R f t k r')"
  using assms by (auto simp: ref_at_def)

lemma file_ok_add:
  assumes ok: "file_ok hash_long K R f tf" and op: "f_open tf" and r: "R r = None" and b: "K (r_obj ref) = Some (o', h, s)"
    and ref: "r_tfile ref = f" "r_type ref = t"
    and ht: "ht_inv hash_long ht" "ht_map ht = (ht_map (f_hash tf t))(handle_key h \<mapsto> r)" "ht_map (f_hash tf t) (handle_key h) = None"
  shows "file_ok hash_long K (R(r \<mapsto> ref)) f (file_add tf t ht r)"
proof -
  have op': "f_open (file_add tf t ht r)" by (rule f_open_add [OF op ht(1)])
  have none: "ht_map (f_hash tf t') k \<noteq> Some r" for t' k
    using file_ok_map(2) [OF ok op, of t' k r] r by (simp add: ref_at_def)
  have "ht_map (f_hash (file_add tf t ht r) t') k = Some r' \<longleftrightarrow> ref_at K (R(r \<mapsto> ref)) f t' k r'" for t' k r'
    unfolding ref_at_add [where R = R and K = K, OF r b] using ref ht(2,3) none [of t' k] file_ok_map(2) [OF ok op, of t' k r']
    by (auto simp: file_add_def)
  moreover have "r \<notin> set (f_refs tf)" using ok r by (simp add: file_ok_def)
  moreover have "r' \<in> set (f_refs (file_add tf t ht r)) \<longleftrightarrow> (\<exists>x. (R(r \<mapsto> ref)) r' = Some x \<and> r_tfile x = f)" for r'
    using ok r ref(1) by (auto simp: file_ok_def file_add_def)
  ultimately show ?thesis using ok op op' ht(1) by (auto simp: file_ok_def file_add_def)
qed

lemma file_ok_add_other:
  assumes ok: "file_ok hash_long K R g tg" and r: "R r = None" "r_tfile ref \<noteq> g"
  shows "file_ok hash_long K (R(r \<mapsto> ref)) g tg"
proof -
  have "ref_at K (R(r \<mapsto> ref)) g t k r' = ref_at K R g t k r'" for t k r'
    using r by (auto simp: ref_at_def)
  moreover have "(\<exists>x. (R(r \<mapsto> ref)) r' = Some x \<and> r_tfile x = g) \<longleftrightarrow> (\<exists>x. R r' = Some x \<and> r_tfile x = g)" for r'
    using r by auto
  ultimately show ?thesis using ok unfolding file_ok_def by simp
qed

lemma struct_add:
  assumes st: "struct_inv hash_long K R F I" and f: "F f = Some tf" and op: "f_open tf" and r: "R r = None"
    and b: "K (r_obj ref) = Some (o', h, s)" "o' = f \<or> s" and ref: "r_tfile ref = f" "r_type ref = t" "0 < r_kref ref"
    and ht: "ht_inv hash_long ht" "ht_map ht = (ht_map (f_hash tf t))(handle_key h \<mapsto> r)" "ht_map (f_hash tf t) (handle_key h) = None"
  shows "struct_inv hash_long K (R(r \<mapsto> ref)) (F(f \<mapsto> file_add tf t ht r)) I"
proof (rule struct_invI)
  have op': "f_open (file_add tf t ht r)" by (rule f_open_add [OF op ht(1)])
  fix g tg assume g: "(F(f \<mapsto> file_add tf t ht r)) g = Some tg"
  show "file_ok hash_long K (R(r \<mapsto> ref)) g tg"
  proof (cases "g = f")
    case True
    with g file_ok_add [OF struct_file [OF st f] op r b(1) ref(1,2) ht] show ?thesis by simp
  next
    case False
    with g have "file_ok hash_long K R g tg" by (intro struct_file [OF st]) simp
    from file_ok_add_other [OF this r] False ref(1) show ?thesis by simp
  qed
next
  have op': "f_open (file_add tf t ht r)" by (rule f_open_add [OF op ht(1)])
  fix r' ref' assume "(R(r \<mapsto> ref)) r' = Some ref'"
  then consider "r' = r" "ref' = ref" | "R r' = Some ref'" by (cases "r' = r") simp_all
  then show "0 < r_kref ref' \<and> (\<exists>o' h s tf'. K (r_obj ref') = Some (o', h, s) \<and> (F(f \<mapsto> file_add tf t ht r)) (r_tfile ref') = Some tf'
      \<and> f_open tf' \<and> (o' = r_tfile ref' \<or> s))"
  proof cases
    case 1
    then show ?thesis using b ref op' by auto
  next
    case 2
    from struct_ref [OF st 2] obtain o2 h2 s2 tf2 where "K (r_obj ref') = Some (o2, h2, s2)" "F (r_tfile ref') = Some tf2"
      "f_open tf2" "o2 = r_tfile ref' \<or> s2" "0 < r_kref ref'" .
    then show ?thesis using op' by (cases "r_tfile ref' = f") auto
  qed
next
  fix b' o2 h2 s2 assume "K b' = Some (o2, h2, s2)"
  from struct_keyD [OF st this] show "I h2 = Some b' \<and> (F(f \<mapsto> file_add tf t ht r)) o2 \<noteq> None" by simp
qed (use struct_fin [OF st] struct_idrD [OF st] in \<open>(blast | simp)+\<close>)

lemma file_ok_del:
  assumes ok: "file_ok hash_long K R f tf" and op: "f_open tf" and r: "R r = Some ref" and b: "K (r_obj ref) = Some (o', h, s)"
    and ref: "r_tfile ref = f" "r_type ref = t"
  shows "file_ok hash_long K (R(r := None)) f (file_del tf t (drm_ht_remove_item (f_hash tf t) r) r)"
proof -
  let ?tf = "file_del tf t (drm_ht_remove_item (f_hash tf t) r) r"
  have inv: "ht_inv hash_long (f_hash tf t)" by (rule file_ok_map(1) [OF ok op])
  have inv': "ht_inv hash_long (drm_ht_remove_item (f_hash tf t) r)" by (rule drm_ht.remove_obj_invar [OF inv])
  have op': "f_open ?tf" by (rule f_open_del [OF op inv'])
  have uniq: "ht_map (f_hash tf t) j = Some r \<longleftrightarrow> j = handle_key h" for j
    using file_ok_map(2) [OF ok op, of t j r] r b ref by (auto simp: ref_at_def)
  have mp: "ht_map (drm_ht_remove_item (f_hash tf t) r) = (ht_map (f_hash tf t))(handle_key h := None)"
    by (rule drm_ht.remove_obj_law [OF inv uniq])
  have other: "ref_at K R f t' k r \<longleftrightarrow> t' = t \<and> k = handle_key h" for t' k
    using r b ref by (auto simp: ref_at_def)
  have at: "ref_at K (R(r := None)) f t' k r' \<longleftrightarrow> r' \<noteq> r \<and> ref_at K R f t' k r'" for t' k r'
    by (auto simp: ref_at_def)
  have "ht_map (f_hash ?tf t') k = Some r' \<longleftrightarrow> ref_at K (R(r := None)) f t' k r'" for t' k r'
  proof (cases "t' = t")
    case True
    have "ht_map (f_hash tf t) (handle_key h) = Some r" by (simp add: uniq)
    with True show ?thesis unfolding at using mp uniq [of k] file_ok_map(2) [OF ok op, of t k r']
      by (cases "k = handle_key h") (auto simp: file_del_def)
  next
    case False
    then show ?thesis unfolding at using other file_ok_map(2) [OF ok op, of t' k r'] by (auto simp: file_del_def)
  qed
  moreover have "r' \<in> set (f_refs ?tf) \<longleftrightarrow> (\<exists>x. (R(r := None)) r' = Some x \<and> r_tfile x = f)" for r'
    using ok r ref(1) by (auto simp: file_ok_def file_del_def)
  ultimately show ?thesis using ok op op' inv' by (auto simp: file_ok_def file_del_def)
qed

lemma struct_del:
  assumes st: "struct_inv hash_long K R F I" and f: "F f = Some tf" and r: "R r = Some ref"
    and ref: "r_tfile ref = f" "r_type ref = t"
  shows "struct_inv hash_long K (R(r := None)) (F(f \<mapsto> file_del tf t (drm_ht_remove_item (f_hash tf t) r) r)) I"
    and "f_open (file_del tf t (drm_ht_remove_item (f_hash tf t) r) r)"
proof -
  let ?tf = "file_del tf t (drm_ht_remove_item (f_hash tf t) r) r"
  from struct_ref [OF st r] f ref(1) obtain o' h s where b: "K (r_obj ref) = Some (o', h, s)" "f_open tf"
    by (metis option.inject)
  note ok = file_ok_del [OF struct_file [OF st f] b(2) r b(1) ref]
  show op': "f_open ?tf" by (rule f_open_del [OF b(2) drm_ht.remove_obj_invar [OF file_ok_map(1) [OF struct_file [OF st f] b(2)]]])
  show "struct_inv hash_long K (R(r := None)) (F(f \<mapsto> ?tf)) I"
  proof (rule struct_invI)
    fix g tg assume g: "(F(f \<mapsto> ?tf)) g = Some tg"
    show "file_ok hash_long K (R(r := None)) g tg"
    proof (cases "g = f")
      case True
      with g ok show ?thesis by simp
    next
      case False
      with g have "file_ok hash_long K R g tg" by (intro struct_file [OF st]) simp
      moreover have "ref_at K (R(r := None)) g t' k r' = ref_at K R g t' k r'" for t' k r'
        using r ref(1) False by (auto simp: ref_at_def)
      moreover have "(\<exists>x. (R(r := None)) r' = Some x \<and> r_tfile x = g) \<longleftrightarrow> (\<exists>x. R r' = Some x \<and> r_tfile x = g)" for r'
        using r ref(1) False by auto
      ultimately show ?thesis unfolding file_ok_def by simp
    qed
  next
    fix r' ref' assume "(R(r := None)) r' = Some ref'"
    then have "R r' = Some ref'" by (auto split: if_splits)
    from struct_ref [OF st this] obtain o2 h2 s2 tf2 where "K (r_obj ref') = Some (o2, h2, s2)" "F (r_tfile ref') = Some tf2"
      "f_open tf2" "o2 = r_tfile ref' \<or> s2" "0 < r_kref ref'" .
    then show "0 < r_kref ref' \<and> (\<exists>o' h s tf'. K (r_obj ref') = Some (o', h, s) \<and> (F(f \<mapsto> ?tf)) (r_tfile ref') = Some tf'
        \<and> f_open tf' \<and> (o' = r_tfile ref' \<or> s))"
      using op' by (cases "r_tfile ref' = f") auto
  next
    fix b' o2 h2 s2 assume "K b' = Some (o2, h2, s2)"
    from struct_keyD [OF st this] show "I h2 = Some b' \<and> (F(f \<mapsto> ?tf)) o2 \<noteq> None" by simp
  qed (use struct_fin [OF st] struct_idrD [OF st] in \<open>(blast | simp)+\<close>)
qed

section \<open>Operations keep the invariant\<close>

definition is_open :: "nat \<Rightarrow> ttm_objects \<Rightarrow> bool" where
  "is_open f st \<longleftrightarrow> (\<exists>tf. files st f = Some tf \<and> f_open tf)"

lemma still_open_is_open: "still_open st st' \<Longrightarrow> is_open f st \<Longrightarrow> is_open f st'"
  unfolding still_open_def is_open_def by blast

lemma obj_inv_struct: "obj_inv hash_long held st \<Longrightarrow> struct_inv hash_long (bkey (bases st)) (refs st) (files st) (idr st)"
  by (simp add: obj_inv_def)

lemma find_ref_ok:
  assumes inv: "obj_inv hash_long held st" and op: "is_open f st"
  shows "\<exists>x. find_ref hash_long f t k st = Some x \<and> (\<forall>r. x = Some r \<longleftrightarrow> ref_at (bkey (bases st)) (refs st) f t k r)"
proof -
  from op obtain tf where f: "files st f = Some tf" "f_open tf" by (auto simp: is_open_def)
  note ok = file_ok_map [OF struct_file [OF obj_inv_struct [OF inv] f(1)] f(2)]
  show ?thesis
    using f by (auto simp: find_ref_def drm_ht.find_law [OF ok(1)] ok(2) [symmetric] split: option.splits)
qed

lemma ref_at_obj:
  assumes "obj_inv hash_long held st" "ref_at (bkey (bases st)) (refs st) f t k r"
  obtains ref base where "refs st r = Some ref" "bases st (r_obj ref) = Some base" "handle_key (b_handle base) = k"
    "0 < r_kref ref" "b_tfile base = f \<or> b_shareable base" "r_tfile ref = f" "r_type ref = t"
proof -
  from assms(2) obtain ref o' h s where r: "refs st r = Some ref" "r_tfile ref = f" "r_type ref = t"
      "bkey (bases st) (r_obj ref) = Some (o', h, s)" "handle_key h = k"
    by (auto simp: ref_at_def)
  from struct_ref [OF obj_inv_struct [OF assms(1)] r(1)] r(2,4) have "o' = f \<or> s" "0 < r_kref ref"
    by (metis option.inject prod.inject)+
  with r that show ?thesis by (auto simp: bkey_def)
qed

lemma unref_fields:
  "ttm_base_object_unref b st = Some s \<Longrightarrow>
   refs s = refs st \<and> ref_charges s = ref_charges st \<and> dmabufs s = dmabufs st \<and> dma_charges s = dma_charges st"
  by (auto simp: ttm_base_object_unref_def ttm_release_base_def ttm_object_file_unref_def Let_def
      split: nat.splits if_splits bind_splits)

lemma count_map_refs_del:
  assumes "finite (dom R)" "R r = Some ref"
  shows "count_map (\<lambda>x. r_obj x = b) (R(r := None)) + (if b = r_obj ref then 1 else 0) = count_map (\<lambda>x. r_obj x = b) R"
  using count_map_delete [OF assms, of "\<lambda>x. r_obj x = b"] by auto

lemma ref_drop_inv:
  assumes inv: "obj_inv hash_long held st" and r: "refs st r = Some ref" and f: "files st (r_tfile ref) = Some tf"
  shows "obj_inv hash_long (held(r_obj ref := held (r_obj ref) + 1))
    (st\<lparr>files := (files st)(r_tfile ref \<mapsto>
            file_del tf (r_type ref) (drm_ht_remove_item (f_hash tf (r_type ref)) r) r),
        events := ev, refs := (refs st)(r := None), ref_charges := ref_charges st - 1\<rparr>)"
proof -
  have fin: "finite (dom (refs st))" by (rule struct_fin(2) [OF obj_inv_struct [OF inv]])
  have "card (dom ((refs st)(r := None))) = card (dom (refs st)) - 1"
    using r fin by (simp add: dom_def [symmetric] card_Diff_singleton domI)
  moreover have "bases st (r_obj ref) \<noteq> None"
    using struct_ref [OF obj_inv_struct [OF inv] r] by (metis bkey_None option.distinct(1))
  moreover have "count_inv held (bases st) (refs st) (dmabufs st)" using inv by (simp add: obj_inv_def)
  then have "count_inv (held(r_obj ref := held (r_obj ref) + 1)) (bases st) ((refs st)(r := None)) (dmabufs st)"
  proof (rule count_inv_refs)
    fix b show "count_map (\<lambda>x. r_obj x = b) ((refs st)(r := None)) + (held(r_obj ref := held (r_obj ref) + 1)) b
        = count_map (\<lambda>x. r_obj x = b) (refs st) + held b"
      using count_map_refs_del [of "refs st" r ref b, OF fin r] by (auto split: if_splits)
  qed (use calculation in auto)
  ultimately show ?thesis
    using inv struct_del(1) [OF obj_inv_struct [OF inv] f r] by (simp add: obj_inv_def)
qed

lemma ref_release_ok':
  assumes inv: "obj_inv hash_long held st" and r: "refs st r = Some ref"
  shows "\<exists>st' tf tf'. ttm_ref_object_release r (st\<lparr>refs := (refs st)(r \<mapsto> ref\<lparr>r_kref := n\<rparr>)\<rparr>) = Some st' \<and> obj_inv hash_long held st'
    \<and> refs st' = (refs st)(r := None) \<and> dmabufs st' = dmabufs st \<and> (\<forall>g. is_open g st \<longrightarrow> is_open g st')
    \<and> files st (r_tfile ref) = Some tf \<and> files st' (r_tfile ref) = Some tf' \<and> f_refs tf' = remove1 r (f_refs tf)"
proof -
  from struct_ref [OF obj_inv_struct [OF inv] r] obtain o' h s tf where
      b: "bkey (bases st) (r_obj ref) = Some (o', h, s)" and f: "files st (r_tfile ref) = Some tf" "f_open tf" by metis
  from b obtain base where base: "bases st (r_obj ref) = Some base" by (auto simp: bkey_def)
  let ?tf = "file_del tf (r_type ref) (drm_ht_remove_item (f_hash tf (r_type ref)) r) r"
  let ?ev = "events st @ (if r_type ref \<noteq> TTM_REF_USAGE \<and> b_ref_obj_release base then [Ref_Obj_Release (r_obj ref) (r_type ref)] else [])"
  let ?R = "(refs st)(r := None)" and ?c = "ref_charges st - 1"
  let ?st = "st\<lparr>refs := (refs st)(r \<mapsto> ref\<lparr>r_kref := n\<rparr>), files := (files st)(r_tfile ref \<mapsto> ?tf), events := ?ev\<rparr>"
  have inv1: "obj_inv hash_long (held(r_obj ref := held (r_obj ref) + 1)) (?st\<lparr>refs := ?R, ref_charges := ?c\<rparr>)"
    using ref_drop_inv [OF inv r f(1), of ?ev] by simp
  from unref_inv [OF inv1, of "r_obj ref"] obtain st4 where
      st4: "ttm_base_object_unref (r_obj ref) (?st\<lparr>refs := ?R, ref_charges := ?c\<rparr>) = Some st4"
      "obj_inv hash_long held st4" "refs st4 = ?R" "dmabufs st4 = dmabufs st"
      "still_open (?st\<lparr>refs := ?R, ref_charges := ?c\<rparr>) st4" by auto
  from st4(1) obtain s where s: "ttm_base_object_unref (r_obj ref) ?st = Some s" "st4 = s\<lparr>refs := ?R, ref_charges := ?c\<rparr>"
    unfolding unref_frame by auto
  note S = unref_fields [OF s(1)]
  have op: "f_open ?tf" using struct_del(2) [OF obj_inv_struct [OF inv] f(1) r] by simp
  with st4(5) obtain tf' where tf': "files st4 (r_tfile ref) = Some tf'" "f_open tf'" "f_refs tf' = f_refs ?tf"
    unfolding still_open_def by fastforce
  have fs: "files s (r_tfile ref) = Some tf'" using tf'(1) s(2) by simp
  have eq: "s\<lparr>ref_charges := ref_charges s - 1, refs := (refs s)(r := None)\<rparr> = st4" using S s(2) by simp
  have "is_open g st \<Longrightarrow> is_open g st4" for g
  proof -
    assume "is_open g st"
    then have "is_open g (?st\<lparr>refs := ?R, ref_charges := ?c\<rparr>)" using op by (auto simp: is_open_def)
    then show ?thesis by (rule still_open_is_open [OF st4(5)])
  qed
  moreover have "ttm_ref_object_release r (st\<lparr>refs := (refs st)(r \<mapsto> ref\<lparr>r_kref := n\<rparr>)\<rparr>) = Some st4"
    using r base f s(1) fs eq
    by (cases "r_type ref \<noteq> TTM_REF_USAGE \<and> b_ref_obj_release base")
      (auto simp: ttm_ref_object_release_def file_del_def)
  ultimately show ?thesis using st4 tf' f(1) by (auto simp: file_del_def)
qed

lemma ref_release_ok:
  assumes "obj_inv hash_long held st" "refs st r = Some ref"
  shows "\<exists>st' tf tf'. ttm_ref_object_release r st = Some st' \<and> obj_inv hash_long held st'
    \<and> refs st' = (refs st)(r := None) \<and> dmabufs st' = dmabufs st \<and> (\<forall>g. is_open g st \<longrightarrow> is_open g st')
    \<and> files st (r_tfile ref) = Some tf \<and> files st' (r_tfile ref) = Some tf' \<and> f_refs tf' = remove1 r (f_refs tf)"
  using ref_release_ok' [OF assms, of "r_kref ref"] assms(2) by (simp add: fun_upd_idem)

lemma count_map_refs_add:
  assumes "finite (dom R)" "R r = None"
  shows "count_map (\<lambda>x. r_obj x = b) (R(r \<mapsto> ref)) = count_map (\<lambda>x. r_obj x = b) R + (if b = r_obj ref then 1 else 0)"
  using count_map_insert [OF assms, of "\<lambda>x. r_obj x = b" ref] by auto

lemma ref_new_inv:
  assumes inv: "obj_inv hash_long held st" and b: "bases st b = Some base" and f: "files st f = Some tf" "f_open tf"
    and perm: "b_tfile base = f \<or> b_shareable base" and r: "refs st r = None"
    and ht: "ht_inv hash_long ht" "ht_map ht = (ht_map (f_hash tf t))(handle_key (b_handle base) \<mapsto> r)"
      "ht_map (f_hash tf t) (handle_key (b_handle base)) = None"
  shows "obj_inv hash_long held
    (st\<lparr>refs := (refs st)(r \<mapsto> \<lparr>r_kref = 1, r_type = t, r_obj = b, r_tfile = f\<rparr>),
        files := (files st)(f \<mapsto> file_add tf t ht r),
        bases := (bases st)(b \<mapsto> base\<lparr>b_refcount := b_refcount base + 1\<rparr>),
        ref_charges := ref_charges st + 1\<rparr>)"
proof -
  let ?ref = "\<lparr>r_kref = 1, r_type = t, r_obj = b, r_tfile = f\<rparr>"
  have fin: "finite (dom (refs st))" by (rule struct_fin(2) [OF obj_inv_struct [OF inv]])
  have co: "count_inv (held(b := held b + 1)) ((bases st)(b \<mapsto> base\<lparr>b_refcount := b_refcount base + 1\<rparr>)) (refs st) (dmabufs st)"
    using get_inv [OF inv b] by (simp add: obj_inv_def)
  have "count_inv held ((bases st)(b \<mapsto> base\<lparr>b_refcount := b_refcount base + 1\<rparr>)) ((refs st)(r \<mapsto> ?ref)) (dmabufs st)"
    by (rule count_inv_refs [OF co])
      (use count_map_refs_add [of "refs st" r _ ?ref, OF fin r] b in \<open>auto split: if_splits\<close>)
  moreover have "struct_inv hash_long (bkey (bases st)) ((refs st)(r \<mapsto> ?ref)) ((files st)(f \<mapsto> file_add tf t ht r)) (idr st)"
    using struct_add [OF obj_inv_struct [OF inv] f r, of ?ref "b_tfile base" "b_handle base" "b_shareable base" t ht]
      perm ht bkey_Some [of "bases st" b, OF b] by simp
  moreover have "card (dom ((refs st)(r \<mapsto> ?ref))) = Suc (card (dom (refs st)))"
    using fin r by (simp add: card_insert_if domIff)
  ultimately show ?thesis using inv b by (simp add: obj_inv_def bkey_upd)
qed

lemma ref_add_ok:
  assumes inv: "obj_inv hash_long held st" and b: "bases st b = Some base" and op: "is_open f st"
    and fresh: "\<And>r. kmalloc = Some r \<Longrightarrow> refs st r = None"
  shows "\<exists>st' ex ret. ttm_ref_object_add hash_long f b t req mem kmalloc st = Some (st', ex, ret)
    \<and> obj_inv hash_long held st' \<and> dmabufs st' = dmabufs st \<and> bkey (bases st') = bkey (bases st)
    \<and> (\<forall>g. is_open g st \<longrightarrow> is_open g st')
    \<and> (ret = Inr () \<longrightarrow> (\<exists>r. ref_at (bkey (bases st')) (refs st') f t (handle_key (b_handle base)) r))
    \<and> (ret \<noteq> Inr () \<longrightarrow> st' = st)"
proof (cases "b_tfile base = f \<or> b_shareable base")
  case False
  then show ?thesis using inv b by (auto simp: ttm_ref_object_add_def)
next
  case perm: True
  from op obtain tf where f: "files st f = Some tf" "f_open tf" by (auto simp: is_open_def)
  note fm = file_ok_map [OF struct_file [OF obj_inv_struct [OF inv] f(1)] f(2)]
  let ?k = "handle_key (b_handle base)"
  from find_ref_ok [OF inv op, of t ?k] obtain x where
      x: "find_ref hash_long f t ?k st = Some x" "\<And>r. x = Some r \<longleftrightarrow> ref_at (bkey (bases st)) (refs st) f t ?k r" by blast
  show ?thesis
  proof (cases x)
    case (Some r)
    have at: "ref_at (bkey (bases st)) (refs st) f t ?k r" by (rule x(2) [THEN iffD1, OF Some])
    from ref_at_obj [OF inv at] obtain ref where ref: "refs st r = Some ref" "0 < r_kref ref" by metis
    have "obj_inv hash_long held (st\<lparr>refs := (refs st)(r \<mapsto> ref\<lparr>r_kref := r_kref ref + 1\<rparr>)\<rparr>)"
      by (rule kref_inv [OF inv ref(1)]) simp
    then show ?thesis using perm b f x(1) Some ref at
      by (auto simp: ttm_ref_object_add_def is_open_def ref_at_kref intro: exI [of _ r])
  next
    case None
    with x(2) fm(2) [of t ?k] have none: "ht_map (f_hash tf t) ?k = None" by (metis option.distinct(1) option.exhaust)
    consider (req) "req" | (mem) e where "\<not> req" "mem = Inl e" | (km) "\<not> req" "mem = Inr ()" "kmalloc = None"
      | (new) r where "\<not> req" "mem = Inr ()" "kmalloc = Some r" by (cases mem; cases kmalloc) auto
    then show ?thesis
    proof cases
      case (new r)
      from drm_ht.insert_new [OF fm(1) none, of r] obtain ht where ht:
          "drm_ht_insert_item hash_long (f_hash tf t) \<lparr>item_key = ?k, item_obj = r\<rparr> = Inr ht"
          "ht_inv hash_long ht" "ht_map ht = (ht_map (f_hash tf t))(?k \<mapsto> r)" by blast
      note I = ref_new_inv [OF inv b f perm fresh [OF new(3)] ht(2,3) none]
      have "ref_at (bkey (bases st)) ((refs st)(r \<mapsto> \<lparr>r_kref = 1, r_type = t, r_obj = b, r_tfile = f\<rparr>)) f t ?k r"
        using bkey_Some [of "bases st" b, OF b] by (simp add: ref_at_def)
      with new None perm b f x(1) ht I f_open_add [OF f(2) ht(2), of t r] show ?thesis
        by (auto simp: ttm_ref_object_add_def file_add_def is_open_def bkey_upd)
    qed (use perm b f x(1) None inv in \<open>auto simp: ttm_ref_object_add_def\<close>)
  qed
qed

lemma base_unref_ok:
  assumes inv: "obj_inv hash_long held st" and op: "is_open f st"
  shows "\<exists>st' ret. ttm_ref_object_base_unref hash_long f key t st = Some (st', ret) \<and> obj_inv hash_long held st'
    \<and> (\<forall>g. is_open g st \<longrightarrow> is_open g st')"
proof -
  from find_ref_ok [OF inv op, of t "handle_key key"] obtain x where
      x: "find_ref hash_long f t (handle_key key) st = Some x"
      "\<And>r. x = Some r \<longleftrightarrow> ref_at (bkey (bases st)) (refs st) f t (handle_key key) r" by blast
  show ?thesis
  proof (cases x)
    case (Some r)
    from ref_at_obj [OF inv x(2) [THEN iffD1, OF Some]] obtain ref where ref: "refs st r = Some ref" "0 < r_kref ref" by metis
    then obtain n where n: "r_kref ref = Suc n" by (cases "r_kref ref") auto
    show ?thesis
    proof (cases "n = 0")
      case True
      from ref_release_ok' [OF inv ref(1), of n] True n ref(1) x(1) Some show ?thesis
        by (auto simp: ttm_ref_object_base_unref_def)
    next
      case False
      with kref_inv [OF inv ref(1), of n] n ref(1) x(1) Some show ?thesis
        by (auto simp: ttm_ref_object_base_unref_def is_open_def)
    qed
  qed (use x inv in \<open>auto simp: ttm_ref_object_base_unref_def\<close>)
qed

lemma lookup_ok:
  assumes inv: "obj_inv hash_long held st" and op: "is_open f st"
  shows "\<exists>st' x. ttm_base_object_lookup hash_long f key st = Some (st', x)
    \<and> obj_inv hash_long (case x of None \<Rightarrow> held | Some b \<Rightarrow> held(b := held b + 1)) st'
    \<and> bkey (bases st') = bkey (bases st) \<and> files st' = files st \<and> dmabufs st' = dmabufs st
    \<and> (\<forall>b. x = Some b \<longrightarrow> idr st key = Some b \<and> (\<exists>base. bases st' b = Some base \<and> (b_tfile base = f \<or> b_shareable base)))"
proof -
  from find_ref_ok [OF inv op, of TTM_REF_USAGE "handle_key key"] obtain x where
      x: "find_ref hash_long f TTM_REF_USAGE (handle_key key) st = Some x"
      "\<And>r. x = Some r \<longleftrightarrow> ref_at (bkey (bases st)) (refs st) f TTM_REF_USAGE (handle_key key) r" by blast
  show ?thesis
  proof (cases x)
    case (Some r)
    from ref_at_obj [OF inv x(2) [THEN iffD1, OF Some]] obtain ref base where
        ref: "refs st r = Some ref" "bases st (r_obj ref) = Some base" "handle_key (b_handle base) = handle_key key"
        "b_tfile base = f \<or> b_shareable base" by metis
    moreover have "0 < b_refcount base" by (rule obj_inv_base(1) [OF inv ref(2)])
    moreover have "idr st key = Some (r_obj ref)"
      using struct_key(1) [OF obj_inv_struct [OF inv] bkey_Some [of "bases st", OF ref(2)]] ref(3)
      by (simp add: handle_key_eq)
    ultimately show ?thesis using get_inv [OF inv ref(2)] x(1) Some
      by (simp add: ttm_base_object_lookup_def base_get_unless_zero_def bkey_upd)
  qed (use x inv in \<open>auto simp: ttm_base_object_lookup_def\<close>)
qed

subsection \<open>Files\<close>

lemma file_ok_refs:
  "file_ok hash_long K R f tf \<Longrightarrow> r \<in> set (f_refs tf) \<longleftrightarrow> (\<exists>ref. R r = Some ref \<and> r_tfile ref = f)"
  by (simp add: file_ok_def)

lemma release_refs_ok:
  assumes "obj_inv hash_long held st" "is_open f st" "files st f = Some tf" "length (f_refs tf) \<le> n"
  shows "\<exists>st' tf'. release_refs n f st = Some st' \<and> obj_inv hash_long held st' \<and> files st' f = Some tf' \<and> f_refs tf' = []
    \<and> dmabufs st' = dmabufs st \<and> (\<forall>g. is_open g st \<longrightarrow> is_open g st')
    \<and> (\<forall>r. refs st' r = (case refs st r of Some ref \<Rightarrow> if r_tfile ref = f then None else Some ref | None \<Rightarrow> None))"
  using assms
proof (induction n arbitrary: st tf)
  case 0
  have "file_ok hash_long (bkey (bases st)) (refs st) f tf" by (rule struct_file [OF obj_inv_struct [OF 0(1)] 0(3)])
  then have "\<forall>r ref. refs st r = Some ref \<longrightarrow> r_tfile ref \<noteq> f" using 0(4) by (auto simp: file_ok_def)
  with 0 show ?case by (auto simp: release_refs.simps split: option.split)
next
  case (Suc n)
  have ok: "file_ok hash_long (bkey (bases st)) (refs st) f tf"
    by (rule struct_file [OF obj_inv_struct [OF Suc.prems(1)] Suc.prems(3)])
  show ?case
  proof (cases "f_refs tf")
    case Nil
    then have "\<forall>r ref. refs st r = Some ref \<longrightarrow> r_tfile ref \<noteq> f" using ok by (auto simp: file_ok_def)
    with Suc.prems Nil show ?thesis by (auto simp: release_refs.simps split: option.split)
  next
    case (Cons r rs)
    with file_ok_refs [OF ok, of r] obtain ref where ref: "refs st r = Some ref" "r_tfile ref = f" by auto
    from ref_release_ok [OF Suc.prems(1) ref(1)] ref(2) Suc.prems(2,3) Cons obtain st1 tf1 where 1:
        "ttm_ref_object_release r st = Some st1" "obj_inv hash_long held st1" "refs st1 = (refs st)(r := None)"
        "dmabufs st1 = dmabufs st" "\<forall>g. is_open g st \<longrightarrow> is_open g st1" "files st1 f = Some tf1" "f_refs tf1 = rs" by auto
    have "length (f_refs tf1) \<le> n" using Suc.prems(4) Cons 1(7) by simp
    from Suc.IH [OF 1(2) _ 1(6) this] 1(5) Suc.prems(2) obtain st' tf' where 2: "release_refs n f st1 = Some st'"
        "obj_inv hash_long held st'" "files st' f = Some tf'" "f_refs tf' = []" "dmabufs st' = dmabufs st1"
        "\<forall>g. is_open g st1 \<longrightarrow> is_open g st'"
        "\<forall>r. refs st' r = (case refs st1 r of Some ref \<Rightarrow> if r_tfile ref = f then None else Some ref | None \<Rightarrow> None)" by blast
    have "refs st' r' = (case refs st r' of Some ref \<Rightarrow> if r_tfile ref = f then None else Some ref | None \<Rightarrow> None)" for r'
      using 2(7) 1(3) ref by (cases "r' = r") auto
    moreover have "release_refs (Suc n) f st = Some st'"
      using Suc.prems(3) Cons 1(1) 2(1) by (simp add: release_refs.simps [of "Suc n"])
    ultimately show ?thesis using 1 2 by auto
  qed
qed

lemma struct_file_change:
  assumes st: "struct_inv hash_long K R F I" and f: "F f = Some tf"
    and ok: "file_ok hash_long K R f tf \<Longrightarrow> file_ok hash_long K R f tf'"
    and op: "f_open tf' \<or> (\<forall>r ref. R r = Some ref \<longrightarrow> r_tfile ref \<noteq> f)"
  shows "struct_inv hash_long K R (F(f \<mapsto> tf')) I"
proof (rule struct_invI)
  fix g tg assume "(F(f \<mapsto> tf')) g = Some tg"
  then show "file_ok hash_long K R g tg"
    using struct_file [OF st, of g tg] ok [OF struct_file [OF st f]] by (cases "g = f") auto
next
  fix r ref assume r: "R r = Some ref"
  from struct_ref [OF st r] obtain o2 h2 s2 tf2 where "K (r_obj ref) = Some (o2, h2, s2)" "F (r_tfile ref) = Some tf2"
      "f_open tf2" "o2 = r_tfile ref \<or> s2" "0 < r_kref ref" .
  then show "0 < r_kref ref \<and> (\<exists>o' h s tg. K (r_obj ref) = Some (o', h, s) \<and> (F(f \<mapsto> tf')) (r_tfile ref) = Some tg
      \<and> f_open tg \<and> (o' = r_tfile ref \<or> s))"
    using op r by (cases "r_tfile ref = f") auto
next
  fix b o2 h2 s2 assume "K b = Some (o2, h2, s2)"
  from struct_keyD [OF st this] show "I h2 = Some b \<and> (F(f \<mapsto> tf')) o2 \<noteq> None" by simp
qed (use struct_fin [OF st] struct_idrD [OF st] in blast)+

lemma struct_file_free:
  assumes st: "struct_inv hash_long K R F I" and k: "\<And>b h s. K b \<noteq> Some (f, h, s)"
    and r: "\<And>r ref. R r = Some ref \<Longrightarrow> r_tfile ref \<noteq> f"
  shows "struct_inv hash_long K R (F(f := None)) I"
proof (rule struct_invI)
  fix g tg assume "(F(f := None)) g = Some tg"
  then show "file_ok hash_long K R g tg" using struct_file [OF st, of g tg] by (cases "g = f") auto
next
  fix x ref assume x: "R x = Some ref"
  from struct_ref [OF st x] obtain o2 h2 s2 tf2 where "K (r_obj ref) = Some (o2, h2, s2)" "F (r_tfile ref) = Some tf2"
      "f_open tf2" "o2 = r_tfile ref \<or> s2" "0 < r_kref ref" .
  then show "0 < r_kref ref \<and> (\<exists>o' h s tg. K (r_obj ref) = Some (o', h, s) \<and> (F(f := None)) (r_tfile ref) = Some tg
      \<and> f_open tg \<and> (o' = r_tfile ref \<or> s))"
    using r [OF x] by auto
next
  fix b o2 h2 s2 assume "K b = Some (o2, h2, s2)"
  with struct_keyD [OF st this] k [of b h2 s2] show "I h2 = Some b \<and> (F(f := None)) o2 \<noteq> None" by auto
qed (use struct_fin [OF st] struct_idrD [OF st] in blast)+

lemma file_release_ok:
  assumes inv: "obj_inv hash_long held st" and op: "is_open f st"
  shows "\<exists>st'. ttm_object_file_release f st = Some st' \<and> obj_inv hash_long held st' \<and> \<not> is_open f st'
    \<and> dmabufs st' = dmabufs st
    \<and> (\<forall>g. g \<noteq> f \<longrightarrow> is_open g st \<longrightarrow> is_open g st')
    \<and> (\<forall>r ref. refs st' r = Some ref \<longleftrightarrow> refs st r = Some ref \<and> r_tfile ref \<noteq> f)"
proof -
  from op obtain tf where f: "files st f = Some tf" by (auto simp: is_open_def)
  from release_refs_ok [OF inv op f order_refl] obtain st1 tf1 where 1: "release_refs (length (f_refs tf)) f st = Some st1"
      "obj_inv hash_long held st1" "files st1 f = Some tf1" "f_refs tf1 = []" "\<forall>g. is_open g st \<longrightarrow> is_open g st1"
      "\<forall>r. refs st1 r = (case refs st r of Some ref \<Rightarrow> if r_tfile ref = f then None else Some ref | None \<Rightarrow> None)" "dmabufs st1 = dmabufs st" by blast
  have norefs: "r_tfile ref \<noteq> f" if "refs st1 r = Some ref" for r ref
    using 1(6) that by (auto split: option.splits if_splits)
  have op1: "f_open tf1" using 1(3,5) op by (auto simp: is_open_def)
  have rc: "1 + count_map (\<lambda>(o', h, s). o' = f) (bkey (bases st1)) \<le> f_refcount tf1"
    using struct_file [OF obj_inv_struct [OF 1(2)] 1(3)] op1 by (simp add: file_ok_def)
  then obtain n where n: "f_refcount tf1 = Suc n" by (cases "f_refcount tf1") auto
  let ?tf = "tf1\<lparr>f_hash := \<lambda>t. drm_ht_remove (f_hash tf1 t), f_refcount := n\<rparr>"
  let ?st = "st1\<lparr>files := (files st1)(f := (if n = 0 then None else Some ?tf))\<rparr>"
  have closed: "\<not> f_open ?tf" by (simp add: f_open_def drm_ht_remove_def)
  have "struct_inv hash_long (bkey (bases st1)) (refs st1) (files ?st) (idr st1)"
  proof (cases "n = 0")
    case True
    have fin: "finite (dom (bkey (bases st1)))" by (rule struct_fin(1) [OF obj_inv_struct [OF 1(2)]])
    have "bkey (bases st1) b \<noteq> Some (f, h, s)" for b h s
      using rc n True count_map_pos [OF fin, of b "(f, h, s)" "\<lambda>(o', h, s). o' = f"] by auto
    from struct_file_free [OF obj_inv_struct [OF 1(2)] this norefs] True show ?thesis by simp
  next
    case False
    have "file_ok hash_long (bkey (bases st1)) (refs st1) f tf1 \<Longrightarrow> file_ok hash_long (bkey (bases st1)) (refs st1) f ?tf"
      using 1(4) rc n False closed by (simp add: file_ok_def)
    from struct_file_change [OF obj_inv_struct [OF 1(2)] 1(3) this] norefs False show ?thesis by auto
  qed
  then have "obj_inv hash_long held ?st" using 1(2) by (simp add: obj_inv_def)
  moreover have "ttm_object_file_release f st = Some ?st"
    using f 1(1,3) n by (simp add: ttm_object_file_release_def ttm_object_file_unref_def)
  moreover have "refs st1 r = Some ref \<longleftrightarrow> refs st r = Some ref \<and> r_tfile ref \<noteq> f" for r ref
    using 1(6) by (auto split: option.splits)
  ultimately show ?thesis using 1(5,7) closed by (auto simp: is_open_def)
qed

lemma struct_new_file:
  assumes st: "struct_inv hash_long K R F I" and f: "F f = None"
    and tf: "f_refs tf = []" "f_refcount tf = 1" "\<And>t. ht_inv hash_long (f_hash tf t) \<and> ht_map (f_hash tf t) = Map.empty"
  shows "struct_inv hash_long K R (F(f \<mapsto> tf)) I"
proof (rule struct_invI)
  have norefs: "r_tfile ref \<noteq> f" if "R r = Some ref" for r ref
    using struct_ref [OF st that] f by (metis option.distinct(1))
  have nokeys: "o' \<noteq> f" if "K b = Some (o', h, s)" for b o' h s
    using struct_key(2) [OF st that] f by metis
  have "count_map (\<lambda>(o', h, s). o' = f) K = 0"
    using count_map_0 [OF struct_fin(1) [OF st], of "\<lambda>(o', h, s). o' = f"] nokeys by auto
  then have new: "file_ok hash_long K R f tf"
    using tf norefs by (auto simp: file_ok_def ref_at_def)
  fix g tg assume "(F(f \<mapsto> tf)) g = Some tg"
  with struct_file [OF st, of g tg] new show "file_ok hash_long K R g tg" by (cases "g = f") auto
next
  fix r ref assume r: "R r = Some ref"
  from struct_ref [OF st r] obtain o2 h2 s2 tf2 where "K (r_obj ref) = Some (o2, h2, s2)" "F (r_tfile ref) = Some tf2"
      "f_open tf2" "o2 = r_tfile ref \<or> s2" "0 < r_kref ref" .
  with f show "0 < r_kref ref \<and> (\<exists>o' h s tg. K (r_obj ref) = Some (o', h, s) \<and> (F(f \<mapsto> tf)) (r_tfile ref) = Some tg
      \<and> f_open tg \<and> (o' = r_tfile ref \<or> s))"
    by (cases "r_tfile ref = f") auto
next
  fix b o2 h2 s2 assume "K b = Some (o2, h2, s2)"
  from struct_keyD [OF st this] show "I h2 = Some b \<and> (F(f \<mapsto> tf)) o2 \<noteq> None" by simp
qed (use struct_fin [OF st] struct_idrD [OF st] in blast)+

lemma file_init_ok:
  assumes inv: "obj_inv hash_long held st" and hr: "hash_in_range hash_long order" "order < 32"
    and fresh: "\<And>f. kmalloc = Some f \<Longrightarrow> files st f = None"
    and r: "ttm_object_file_init kc vz order kmalloc st = (st', x)"
  shows "obj_inv hash_long held st'" "\<And>f. x = Some f \<Longrightarrow> is_open f st'" "\<And>g. is_open g st \<Longrightarrow> is_open g st'"
proof -
  show "obj_inv hash_long held st'" "\<And>f. x = Some f \<Longrightarrow> is_open f st'" "\<And>g. is_open g st \<Longrightarrow> is_open g st'"
  proof (atomize (full), cases "x")
    case None
    then have "st' = st" using r by (auto simp: ttm_object_file_init_def Let_def split: option.splits if_splits)
    with None inv show "obj_inv hash_long held st' \<and> (\<forall>f. x = Some f \<longrightarrow> is_open f st') \<and> (\<forall>g. is_open g st \<longrightarrow> is_open g st')"
      by simp
  next
    case (Some f)
    let ?tab = "\<lambda>t. drm_ht_create (kc t) (vz t) order :: nat drm_open_hash \<times> unit kres"
    let ?tf = "\<lparr>f_refcount = 1, f_refs = [], f_hash = (\<lambda>t. fst (?tab t))\<rparr>"
    from r Some have f: "kmalloc = Some f" "st' = st\<lparr>files := (files st)(f \<mapsto> ?tf)\<rparr>"
        and all: "list_all (\<lambda>t. snd (?tab t) = Inr ()) ref_types"
      by (auto simp: ttm_object_file_init_def Let_def split: option.splits if_splits)
    have ht: "ht_inv hash_long (fst (?tab t)) \<and> ht_map (fst (?tab t)) = Map.empty" for t
      using all drm_ht_create_ok [OF hr, of "kc t" "vz t" "fst (?tab t)"]
      by (cases t) (auto simp: ref_types_def prod_eq_iff)
    have op: "f_open ?tf" using f_open_inv [of hash_long "fst (?tab TTM_REF_USAGE)"] ht by (simp add: f_open_def)
    from struct_new_file [OF obj_inv_struct [OF inv] fresh [OF f(1)], of ?tf] ht
    have "obj_inv hash_long held st'" using inv f(2) by (simp add: obj_inv_def)
    with op f(2) Some show "obj_inv hash_long held st' \<and> (\<forall>f. x = Some f \<longrightarrow> is_open f st') \<and> (\<forall>g. is_open g st \<longrightarrow> is_open g st')"
      by (auto simp: is_open_def)
  qed
qed

subsection \<open>Creation\<close>

lemma struct_file_ref:
  assumes "struct_inv hash_long K R F I" "F f = Some tf"
  shows "struct_inv hash_long K R (F(f \<mapsto> tf\<lparr>f_refcount := f_refcount tf + 1\<rparr>)) I"
proof (rule struct_file_change [OF assms])
  show "f_open (tf\<lparr>f_refcount := f_refcount tf + 1\<rparr>) \<or> (\<forall>r ref. R r = Some ref \<longrightarrow> r_tfile ref \<noteq> f)"
    using file_ok_refs [OF struct_file [OF assms]] struct_ref [OF assms(1)] assms(2)
    by (metis (no_types, lifting) f_open_def option.inject ttm_object_file.select_convs(3)
        ttm_object_file.surjective ttm_object_file.update_convs(1))
qed (simp add: file_ok_def f_open_def)

lemma struct_new_base:
  assumes st: "struct_inv hash_long K R F I" and f: "F f = Some tf" and b: "K b = None" "I h = None"
  shows "struct_inv hash_long (K(b \<mapsto> (f, h, s))) R (F(f \<mapsto> tf\<lparr>f_refcount := f_refcount tf + 1\<rparr>)) (I(h \<mapsto> b))"
proof (rule struct_invI)
  have at: "ref_at (K(b \<mapsto> (f, h, s))) R g t k r = ref_at K R g t k r" for g t k r
  proof -
    have "r_obj ref \<noteq> b" if "R r = Some ref" for ref
      using struct_ref [OF st that] b(1) by (metis option.distinct(1))
    then show ?thesis unfolding ref_at_def by (metis fun_upd_other)
  qed
  have cnt: "count_map (\<lambda>(o', h, s). o' = g) (K(b \<mapsto> (f, h, s))) = count_map (\<lambda>(o', h, s). o' = g) K + (if f = g then 1 else 0)" for g
    using count_map_insert [OF struct_fin(1) [OF st] b(1), of "\<lambda>(o', h, s). o' = g" "(f, h, s)"] by simp
  fix g tg assume g: "(F(f \<mapsto> tf\<lparr>f_refcount := f_refcount tf + 1\<rparr>)) g = Some tg"
  show "file_ok hash_long (K(b \<mapsto> (f, h, s))) R g tg"
    using g struct_file [OF st f] struct_file [OF st, of g tg] unfolding file_ok_def at cnt
    by (cases "g = f") (auto simp: f_open_def)
next
  note S = struct_file_ref [OF st f]
  fix r ref assume r: "R r = Some ref"
  from struct_ref [OF S r] b(1) show "0 < r_kref ref \<and> (\<exists>o' h' s' tg. (K(b \<mapsto> (f, h, s))) (r_obj ref) = Some (o', h', s')
      \<and> (F(f \<mapsto> tf\<lparr>f_refcount := f_refcount tf + 1\<rparr>)) (r_tfile ref) = Some tg \<and> f_open tg \<and> (o' = r_tfile ref \<or> s'))"
    by (metis fun_upd_other option.distinct(1))
next
  fix b' o2 h2 s2 assume k: "(K(b \<mapsto> (f, h, s))) b' = Some (o2, h2, s2)"
  show "(I(h \<mapsto> b)) h2 = Some b' \<and> (F(f \<mapsto> tf\<lparr>f_refcount := f_refcount tf + 1\<rparr>)) o2 \<noteq> None"
    using k struct_keyD [OF st, of b' o2 h2 s2] b(2) by (cases "b' = b") auto
next
  fix h2 b' assume "(I(h \<mapsto> b)) h2 = Some b'"
  then show "\<exists>o' s'. (K(b \<mapsto> (f, h, s))) b' = Some (o', h2, s')"
    using struct_idrD [OF st, of h2 b'] b(1) by (cases "h2 = h") auto
qed (use struct_fin [OF st] in simp_all)

lemma new_base_inv:
  assumes inv: "obj_inv hash_long held st" and f: "files st f = Some tf" and b: "bases st b = None" "idr st h = None"
    and base: "b_tfile base = f" "b_handle base = h" "b_refcount base = 1" "b_dma_buf base = None"
  shows "obj_inv hash_long (held(b := 1))
    (st\<lparr>files := (files st)(f \<mapsto> tf\<lparr>f_refcount := f_refcount tf + 1\<rparr>), idr := (idr st)(h \<mapsto> b), bases := (bases st)(b \<mapsto> base)\<rparr>)"
proof -
  have co: "count_inv held (bases st) (refs st) (dmabufs st)" using inv by (simp add: obj_inv_def)
  have fin: "finite (dom (refs st))" "finite (dom (dmabufs st))"
    using struct_fin(2) [OF obj_inv_struct [OF inv]] co by (simp_all add: count_inv_def)
  have "r_obj ref \<noteq> b" if "refs st r = Some ref" for r ref
    using struct_ref [OF obj_inv_struct [OF inv] that] b(1) by (metis bkey_None option.distinct(1))
  then have "count_map (\<lambda>ref. r_obj ref = b) (refs st) = 0" by (simp add: count_map_0 [OF fin(1)])
  moreover have "\<not> (d_ours x \<and> d_priv x = b)" if "dmabufs st d = Some x" for d x
    using obj_inv_dma [OF inv that] b(1) by auto
  then have "count_map (\<lambda>x. d_ours x \<and> d_priv x = b) (dmabufs st) = 0" by (simp add: count_map_0 [OF fin(2)])
  ultimately have "base_ok 1 (refs st) (dmabufs st) b base" using base by (simp add: base_ok_def)
  then have "count_inv (held(b := 1)) ((bases st)(b \<mapsto> base)) (refs st) (dmabufs st)"
    using co b(1) by (auto simp: count_inv_def)
  moreover have "struct_inv hash_long ((bkey (bases st))(b \<mapsto> (f, h, b_shareable base))) (refs st)
      ((files st)(f \<mapsto> tf\<lparr>f_refcount := f_refcount tf + 1\<rparr>)) ((idr st)(h \<mapsto> b))"
    using b(1) by (intro struct_new_base [OF obj_inv_struct [OF inv] f _ b(2)]) simp
  ultimately show ?thesis using inv base(1,2) by (simp add: obj_inv_def bkey_new)
qed

lemma base_init_ok:
  assumes inv: "obj_inv hash_long held st" and op: "is_open f st" and b: "bases st b = None"
    and idr: "\<And>h. ida = Inr h \<Longrightarrow> idr st h = None" and fresh: "\<And>r. kmalloc = Some r \<Longrightarrow> refs st r = None"
  shows "\<exists>st' ret. ttm_base_object_init hash_long f b sh ty rel ida mem kmalloc st = Some (st', ret)
    \<and> obj_inv hash_long held st' \<and> (\<forall>g. is_open g st \<longrightarrow> is_open g st')"
proof -
  from op obtain tf where f: "files st f = Some tf" "f_open tf" by (auto simp: is_open_def)
  let ?F = "(files st)(f \<mapsto> tf\<lparr>f_refcount := f_refcount tf + 1\<rparr>)"
  let ?st1 = "st\<lparr>files := ?F\<rparr>"
  have inv1: "obj_inv hash_long held ?st1"
    using inv struct_file_ref [OF obj_inv_struct [OF inv] f(1)] by (simp add: obj_inv_def)
  have op1: "is_open g st \<Longrightarrow> is_open g ?st1" for g using f by (auto simp: is_open_def f_open_def)
  have held: "held b = 0" using inv b by (simp add: obj_inv_def count_inv_def)
  show ?thesis
  proof (cases ida)
    case (Inl e)
    then show ?thesis using f inv1 op1 by (auto simp: ttm_base_object_init_def ttm_object_file_ref_def)
  next
    case (Inr h)
    let ?base = "\<lparr>b_tfile = f, b_refcount = 1, b_handle = h, b_type = ty, b_shareable = sh, b_ref_obj_release = rel, b_dma_buf = None\<rparr>"
    let ?st2 = "st\<lparr>files := ?F, idr := (idr st)(h \<mapsto> b), bases := (bases st)(b \<mapsto> ?base)\<rparr>"
    have inv2: "obj_inv hash_long (held(b := 1)) ?st2"
      by (rule new_base_inv [OF inv f(1) b idr [OF Inr]]) simp_all
    have op2: "is_open g st \<Longrightarrow> is_open g ?st2" for g using op1 [of g] by (simp add: is_open_def)
    have st1: "?st2\<lparr>idr := (idr ?st2)(h := None), bases := (bases ?st2)(b := None)\<rparr> = ?st1"
      using b idr [OF Inr] by (simp add: fun_upd_idem)
    have "bases ?st2 b = Some ?base" "is_open f ?st2" using op2 op by simp_all
    from ref_add_ok [OF inv2 this, of kmalloc TTM_REF_USAGE False mem] fresh obtain st3 ex ret where 3:
        "ttm_ref_object_add hash_long f b TTM_REF_USAGE False mem kmalloc ?st2 = Some (st3, ex, ret)"
        "obj_inv hash_long (held(b := 1)) st3" "\<forall>g. is_open g ?st2 \<longrightarrow> is_open g st3" "ret \<noteq> Inr () \<longrightarrow> st3 = ?st2" by auto
    show ?thesis
    proof (cases ret)
      case (Inl e)
      then have "st3 = ?st2" using 3(4) by simp
      with 3(1) Inl \<open>ida = Inr h\<close> f inv1 op1 st1 show ?thesis
        by (auto simp: ttm_base_object_init_def ttm_object_file_ref_def)
    next
      case (Inr u)
      from unref_inv [OF 3(2), of b] obtain st4 where 4: "ttm_base_object_unref b st3 = Some st4"
          "obj_inv hash_long (held(b := 0)) st4" "still_open st3 st4" by auto
      have "held(b := 0) = held" using held by (simp add: fun_upd_idem)
      moreover have "is_open g st \<Longrightarrow> is_open g st4" for g
        using op2 [of g] 3(3) still_open_is_open [OF 4(3), of g] by blast
      ultimately show ?thesis using 3(1) 4(1,2) Inr \<open>ida = Inr h\<close> f
        by (auto simp: ttm_base_object_init_def ttm_object_file_ref_def)
    qed
  qed
qed

subsection \<open>Dma-bufs\<close>

abbreviation exports :: "nat \<Rightarrow> dma_buf \<Rightarrow> bool" where
  "exports b x \<equiv> d_ours x \<and> d_priv x = b"

lemma dma_count_inv:
  assumes inv: "obj_inv hash_long held st" and d: "dmabufs st d = Some x" and n: "0 < n"
  shows "obj_inv hash_long held (st\<lparr>dmabufs := (dmabufs st)(d \<mapsto> x\<lparr>d_count := n\<rparr>)\<rparr>)"
proof -
  let ?D = "(dmabufs st)(d \<mapsto> x\<lparr>d_count := n\<rparr>)"
  have co: "count_inv held (bases st) (refs st) (dmabufs st)" using inv by (simp add: obj_inv_def)
  then have fin: "finite (dom (dmabufs st))" by (simp add: count_inv_def)
  have c: "count_map (exports b) ?D = count_map (exports b) (dmabufs st)" for b
    using count_map_replace [OF fin d, of "exports b" "x\<lparr>d_count := n\<rparr>"] by simp
  have o': "count_map d_ours ?D = count_map d_ours (dmabufs st)"
    using count_map_replace [OF fin d, of d_ours "x\<lparr>d_count := n\<rparr>"] by simp
  have "base_ok k (refs st) ?D b base" if "base_ok k (refs st) (dmabufs st) b base" for k b base
    using that d unfolding base_ok_def c by auto
  then have "count_inv held (bases st) (refs st) ?D"
    using co d n unfolding count_inv_def by (auto simp: fin)
  then show ?thesis using inv o' by (simp add: obj_inv_def)
qed

lemma dma_drop_inv:
  assumes inv: "obj_inv hash_long held st" and d: "dmabufs st d = Some x" "d_ours x" and b: "bases st (d_priv x) = Some base"
  shows "obj_inv hash_long (held(d_priv x := held (d_priv x) + 1))
    (st\<lparr>bases := (bases st)(d_priv x \<mapsto> (if b_dma_buf base = Some d then base\<lparr>b_dma_buf := None\<rparr> else base)),
        dmabufs := (dmabufs st)(d := None), dma_charges := dma_charges st - 1\<rparr>)"
proof -
  let ?D = "(dmabufs st)(d := None)" and ?base = "if b_dma_buf base = Some d then base\<lparr>b_dma_buf := None\<rparr> else base"
  have co: "count_inv held (bases st) (refs st) (dmabufs st)" using inv by (simp add: obj_inv_def)
  then have fin: "finite (dom (dmabufs st))" by (simp add: count_inv_def)
  have c: "count_map (exports b') (dmabufs st) = count_map (exports b') ?D + (if b' = d_priv x then 1 else 0)" for b'
    using count_map_delete [OF fin d(1), of "exports b'"] d(2) by simp
  have o': "count_map d_ours (dmabufs st) = count_map d_ours ?D + 1"
    using count_map_delete [OF fin d(1), of d_ours] d(2) by simp
  have ok: "base_ok (held (d_priv x) + 1) (refs st) ?D (d_priv x) ?base"
    using co b c [of "d_priv x"] unfolding count_inv_def base_ok_def by auto
  have "base_ok (held b') (refs st) ?D b' base'" if "bases st b' = Some base'" "b' \<noteq> d_priv x" for b' base'
  proof -
    note B = obj_inv_base [OF inv that(1)]
    have "b_refcount base' = count_map (\<lambda>ref. r_obj ref = b') (refs st) + count_map (exports b') ?D + held b'"
      using B(2) c [of b'] that(2) by simp
    moreover have "\<exists>y. ?D d' = Some y \<and> exports b' y" if "b_dma_buf base' = Some d'" for d'
      using B(3) [OF that] d(1) \<open>b' \<noteq> d_priv x\<close> by (cases "d' = d") auto
    ultimately show ?thesis unfolding base_ok_def using B(1) by blast
  qed
  with ok co have "count_inv (held(d_priv x := held (d_priv x) + 1)) ((bases st)(d_priv x \<mapsto> ?base)) (refs st) ?D"
    using b fin unfolding count_inv_def by auto
  moreover have "bkey ((bases st)(d_priv x \<mapsto> ?base)) = bkey (bases st)" by (rule bkey_upd [where B = "bases st", OF b]) simp_all
  ultimately show ?thesis using inv o' by (simp add: obj_inv_def)
qed

lemma dma_buf_put_ok:
  assumes inv: "obj_inv hash_long held st" and d: "dmabufs st d = Some x"
  shows "\<exists>st'. dma_buf_put d st = Some st' \<and> obj_inv hash_long held st' \<and> (\<forall>g. is_open g st \<longrightarrow> is_open g st')"
proof -
  note D = obj_inv_dma [OF inv d]
  consider (more) n where "d_count x = Suc (Suc n)" | (last) "d_count x = Suc 0" "d_ours x" | (foreign) "d_count x = Suc 0" "\<not> d_ours x"
    using D by (metis gr0_conv_Suc not0_implies_Suc)
  then show ?thesis
  proof cases
    case (more n)
    with dma_count_inv [OF inv d, of "Suc n"] d show ?thesis by (auto simp: dma_buf_put_def is_open_def)
  next
    case foreign
    have co: "count_inv held (bases st) (refs st) (dmabufs st)" using inv by (simp add: obj_inv_def)
    then have fin: "finite (dom (dmabufs st))" by (simp add: count_inv_def)
    have "count_map P (dmabufs st) = count_map P ((dmabufs st)(d := None))" if "\<not> P x" for P
      using count_map_delete [OF fin d, of P] that by simp
    from this [of d_ours] this [of "exports _"] foreign have c: "count_map d_ours (dmabufs st) = count_map d_ours ((dmabufs st)(d := None))"
        "\<And>b. count_map (exports b) (dmabufs st) = count_map (exports b) ((dmabufs st)(d := None))" by simp_all
    have "base_ok k (refs st) ((dmabufs st)(d := None)) b base" if "base_ok k (refs st) (dmabufs st) b base" for k b base
      using that d foreign(2) unfolding base_ok_def c(2) by auto
    then have "count_inv held (bases st) (refs st) ((dmabufs st)(d := None))"
      using co fin unfolding count_inv_def by auto
    with inv d foreign c(1) show ?thesis by (auto simp: dma_buf_put_def obj_inv_def is_open_def)
  next
    case last
    with D obtain base where b: "bases st (d_priv x) = Some base" by auto
    let ?B = "(bases st)(d_priv x \<mapsto> (if b_dma_buf base = Some d then base\<lparr>b_dma_buf := None\<rparr> else base))"
    let ?D = "(dmabufs st)(d := None)" and ?c = "dma_charges st - 1"
    from unref_inv [OF dma_drop_inv [OF inv d last(2) b], of "d_priv x"] obtain st1 where 1:
        "ttm_base_object_unref (d_priv x) (st\<lparr>bases := ?B, dmabufs := ?D, dma_charges := ?c\<rparr>) = Some st1"
        "obj_inv hash_long held st1" "still_open (st\<lparr>bases := ?B, dmabufs := ?D, dma_charges := ?c\<rparr>) st1" by auto
    from 1(1) have "ttm_base_object_unref (d_priv x) (st\<lparr>bases := ?B, dma_charges := ?c\<rparr>\<lparr>dmabufs := ?D, dma_charges := ?c\<rparr>) = Some st1"
      by simp
    then obtain s where s: "ttm_base_object_unref (d_priv x) (st\<lparr>bases := ?B, dma_charges := ?c\<rparr>) = Some s"
        "st1 = s\<lparr>dmabufs := ?D, dma_charges := ?c\<rparr>"
      unfolding unref_frame by auto
    note S = unref_fields [OF s(1)]
    have "s\<lparr>dmabufs := ?D\<rparr> = st1" using S s(2) by simp
    moreover have "ttm_prime_dmabuf_release d st = Some s"
    proof (cases "b_dma_buf base = Some d")
      case False
      then have "?B = bases st" using b by (simp add: fun_upd_idem)
      with False s(1) d b show ?thesis by (simp add: ttm_prime_dmabuf_release_def)
    qed (use s(1) d b in \<open>simp add: ttm_prime_dmabuf_release_def\<close>)
    ultimately have "dma_buf_put d st = Some st1" using d last S by (simp add: dma_buf_put_def)
    moreover have "is_open g st \<Longrightarrow> is_open g st1" for g
      using still_open_is_open [OF 1(3), of g] by (simp add: is_open_def)
    ultimately show ?thesis using 1(2) by blast
  qed
qed

lemma get_dma_buf_ok:
  assumes inv: "obj_inv hash_long held st" and d: "dmabufs st d = Some x"
  shows "get_dma_buf d st = Some (st\<lparr>dmabufs := (dmabufs st)(d \<mapsto> x\<lparr>d_count := d_count x + 1\<rparr>)\<rparr>)"
    "obj_inv hash_long held (st\<lparr>dmabufs := (dmabufs st)(d \<mapsto> x\<lparr>d_count := d_count x + 1\<rparr>)\<rparr>)"
  using dma_count_inv [OF inv d, of "d_count x + 1"] d by (simp_all add: get_dma_buf_def)

lemma fd_to_handle_ok:
  assumes inv: "obj_inv hash_long held st" and op: "is_open f st"
    and fd: "\<And>d. fd = Inr d \<Longrightarrow> dmabufs st d \<noteq> None" and fresh: "\<And>r. kmalloc = Some r \<Longrightarrow> refs st r = None"
  shows "\<exists>st' ret. ttm_prime_fd_to_handle hash_long f fd mem kmalloc st = Some (st', ret) \<and> obj_inv hash_long held st'
    \<and> (\<forall>g. is_open g st \<longrightarrow> is_open g st')"
proof (cases fd)
  case (Inr d)
  with fd obtain x where d: "dmabufs st d = Some x" by auto
  let ?x = "x\<lparr>d_count := d_count x + 1\<rparr>"
  let ?st = "st\<lparr>dmabufs := (dmabufs st)(d \<mapsto> ?x)\<rparr>"
  note G = get_dma_buf_ok [OF inv d]
  have op': "is_open g ?st = is_open g st" for g by (simp add: is_open_def)
  show ?thesis
  proof (cases "d_ours x")
    case True
    with obj_inv_dma [OF inv d] obtain base where b: "bases ?st (d_priv x) = Some base" by auto
    from ref_add_ok [OF G(2) b, of f kmalloc TTM_REF_USAGE False mem] op op' fresh obtain st2 ex ret where 2:
        "ttm_ref_object_add hash_long f (d_priv x) TTM_REF_USAGE False mem kmalloc ?st = Some (st2, ex, ret)"
        "obj_inv hash_long held st2" "dmabufs st2 = dmabufs ?st" "\<forall>g. is_open g ?st \<longrightarrow> is_open g st2" by auto
    have "dmabufs st2 d = Some ?x" using 2(3) by simp
    from dma_buf_put_ok [OF 2(2) this] obtain st3 where "dma_buf_put d st2 = Some st3" "obj_inv hash_long held st3"
        "\<forall>g. is_open g st2 \<longrightarrow> is_open g st3" by blast
    with Inr d G(1) b 2 True op' show ?thesis by (auto simp: ttm_prime_fd_to_handle_def)
  next
    case False
    with Inr d G op' show ?thesis by (auto simp: ttm_prime_fd_to_handle_def)
  qed
qed (use inv in \<open>auto simp: ttm_prime_fd_to_handle_def\<close>)

lemma install_fd_ok:
  assumes "obj_inv hash_long held st" "dmabufs st d = Some x"
  shows "\<exists>st' ret. prime_install_fd env d st = Some (st', ret) \<and> obj_inv hash_long held st' \<and> (\<forall>g. is_open g st \<longrightarrow> is_open g st')"
  using dma_buf_put_ok [OF assms] assms(1) by (auto simp: prime_install_fd_def split: sum.split)

lemma unref_with_ok:
  assumes "obj_inv hash_long (held(b := held b + 1)) st"
  shows "\<exists>st'. unref_with b ret st = Some (st', ret) \<and> obj_inv hash_long held st' \<and> (\<forall>g. is_open g st \<longrightarrow> is_open g st')"
  using unref_inv [OF assms, of b] still_open_is_open by (fastforce simp: unref_with_def)

lemma export_inv:
  assumes inv: "obj_inv hash_long (held(b := held b + 1)) st" and b: "bases st b = Some base"
    and d: "dmabufs st d = None"
  shows "obj_inv hash_long held (st\<lparr>dmabufs := (dmabufs st)(d \<mapsto> \<lparr>d_priv = b, d_count = 1, d_ours = True\<rparr>),
    dma_charges := dma_charges st + 1, bases := (bases st)(b \<mapsto> base\<lparr>b_dma_buf := Some d\<rparr>)\<rparr>)"
proof -
  let ?x = "\<lparr>d_priv = b, d_count = 1, d_ours = True\<rparr>"
  let ?D = "(dmabufs st)(d \<mapsto> ?x)"
  have co: "count_inv (held(b := held b + 1)) (bases st) (refs st) (dmabufs st)" using inv by (simp add: obj_inv_def)
  then have fin: "finite (dom (dmabufs st))" by (simp add: count_inv_def)
  have h0: "held b' = 0" if "bases st b' = None" for b'
    using co that b unfolding count_inv_def by (metis fun_upd_other option.distinct(1))
  have c: "count_map (exports b') ?D = count_map (exports b') (dmabufs st) + (if b' = b then 1 else 0)" for b'
    using count_map_insert [OF fin d, of "exports b'" ?x] by auto
  have o': "count_map d_ours ?D = count_map d_ours (dmabufs st) + 1"
    using count_map_insert [OF fin d, of d_ours ?x] by simp
  have "base_ok (held b) (refs st) ?D b (base\<lparr>b_dma_buf := Some d\<rparr>)"
    using obj_inv_base(1,2) [OF inv b] c [of b] by (simp add: base_ok_def)
  moreover have "base_ok (held b') (refs st) ?D b' base'" if "bases st b' = Some base'" "b' \<noteq> b" for b' base'
  proof -
    note B = obj_inv_base [OF inv that(1)]
    have "b_refcount base' = count_map (\<lambda>ref. r_obj ref = b') (refs st) + count_map (exports b') ?D + held b'"
      using B(2) c [of b'] that(2) by simp
    moreover have "\<exists>y. ?D d' = Some y \<and> exports b' y" if "b_dma_buf base' = Some d'" for d'
      using B(3) [OF that] d by (cases "d' = d") auto
    ultimately show ?thesis unfolding base_ok_def using B(1) by blast
  qed
  ultimately have "count_inv held ((bases st)(b \<mapsto> base\<lparr>b_dma_buf := Some d\<rparr>)) (refs st) ?D"
    using co h0 b fin unfolding count_inv_def by auto
  then show ?thesis using inv o' b by (simp add: obj_inv_def bkey_upd)
qed

lemma handle_to_fd_ok:
  assumes inv: "obj_inv hash_long held st" and op: "is_open f st"
    and fresh: "\<And>d. export_ret env = Inr d \<Longrightarrow> dmabufs st d = None"
  shows "\<exists>st' ret. ttm_prime_handle_to_fd hash_long env f handle st = Some (st', ret) \<and> obj_inv hash_long held st'
    \<and> (\<forall>g. is_open g st \<longrightarrow> is_open g st')"
proof -
  from lookup_ok [OF inv op, of handle] obtain st1 x where 1: "ttm_base_object_lookup hash_long f handle st = Some (st1, x)"
      "obj_inv hash_long (case x of None \<Rightarrow> held | Some b \<Rightarrow> held(b := held b + 1)) st1" "files st1 = files st"
      "dmabufs st1 = dmabufs st" "\<forall>b. x = Some b \<longrightarrow> (\<exists>base. bases st1 b = Some base)" by blast
  have op1: "is_open g st1 = is_open g st" for g using 1(3) by (simp add: is_open_def)
  show ?thesis
  proof (cases x)
    case None
    with 1 op1 show ?thesis by (auto simp: ttm_prime_handle_to_fd_def)
  next
    case (Some b)
    with 1 obtain base where b: "bases st1 b = Some base" and inv1: "obj_inv hash_long (held(b := held b + 1)) st1" by auto
    note U = unref_with_ok [OF inv1]
    consider (bad) "\<not> (b_type base = ttm_prime_type \<and> b_shareable base \<and> lock_ok env)"
      | (old) d where "b_type base = ttm_prime_type" "b_shareable base" "lock_ok env" "b_dma_buf base = Some d"
      | (fail) "b_type base = ttm_prime_type" "b_shareable base" "lock_ok env" "b_dma_buf base = None"
          "export_mem env \<noteq> Inr () \<or> (\<exists>e. export_ret env = Inl e)"
      | (new) d where "b_type base = ttm_prime_type" "b_shareable base" "lock_ok env" "b_dma_buf base = None"
          "export_mem env = Inr ()" "export_ret env = Inr d"
      by (cases "b_dma_buf base"; cases "export_ret env") auto
    then show ?thesis
    proof cases
      case bad
      then have "\<exists>e. ttm_prime_handle_to_fd hash_long env f handle st = unref_with b (Inl e) st1"
        using 1(1) Some b by (simp add: ttm_prime_handle_to_fd_def) blast
      with U op1 show ?thesis by metis
    next
      case fail
      then have "\<exists>e. ttm_prime_handle_to_fd hash_long env f handle st = unref_with b (Inl e) st1"
        using 1(1) Some b by (cases "export_mem env") (auto simp: ttm_prime_handle_to_fd_def)
      with U op1 show ?thesis by metis
    next
      case (old d)
      obtain dma where dma: "dmabufs st1 d = Some dma" using obj_inv_base(3) [OF inv1 b old(4)] by blast
      note G = get_dma_buf_ok [OF inv1 dma]
      let ?st2 = "st1\<lparr>dmabufs := (dmabufs st1)(d \<mapsto> dma\<lparr>d_count := d_count dma + 1\<rparr>)\<rparr>"
      have "\<exists>x. dmabufs ?st2 d = Some x" by simp
      then obtain st3 ret where 3: "prime_install_fd env d ?st2 = Some (st3, ret)"
          "obj_inv hash_long (held(b := held b + 1)) st3" "\<forall>g. is_open g ?st2 \<longrightarrow> is_open g st3"
        using install_fd_ok [OF G(2)] by blast
      have "ttm_prime_handle_to_fd hash_long env f handle st = unref_with b ret st3"
        using 1(1) Some b old dma obj_inv_dma [OF inv1 dma] 3(1) G(1) by (simp add: ttm_prime_handle_to_fd_def)
      with unref_with_ok [OF 3(2), of ret] 3(3) op1 show ?thesis by (auto simp: is_open_def)
    next
      case (new d)
      have "dmabufs st1 d = None" using fresh [OF new(6)] 1(4) by simp
      note E = export_inv [OF inv1 b this]
      show ?thesis using install_fd_ok [OF E, of d] 1(1) Some b new op1
        by (simp add: ttm_prime_handle_to_fd_def is_open_def)
    qed
  qed
qed

section \<open>Sequences of operations\<close>

datatype obj_op =
    Open_File "ttm_ref_type \<Rightarrow> nat \<Rightarrow> bool" "ttm_ref_type \<Rightarrow> nat \<Rightarrow> bool" "nat option"
  | Close_File nat
  | Create nat nat bool ttm_object_type bool "u32 kres" "unit kres" "nat option"
  | Add_Ref nat nat ttm_ref_type bool "unit kres" "nat option"
  | Drop_Ref nat u32 ttm_ref_type
  | Lookup nat u32
  | Lookup_For_Ref u32
  | Unref nat
  | Export nat u32 prime_env
  | Import nat "nat kres" "unit kres" "nat option"
  | Put_Dma_Buf nat

text \<open>
  The rules of the interface: files are used while they are open, \<open>kmalloc\<close> and \<open>idr_alloc\<close> return what is
  not in use, a caller drops only references it holds and adds references only to objects it holds, and a file
  descriptor refers to a dma-buf that exists.
\<close>

definition opt_free :: "('k \<Rightarrow> 'v option) \<Rightarrow> 'k option \<Rightarrow> bool" where
  "opt_free m x = (case x of None \<Rightarrow> True | Some k \<Rightarrow> m k = None)"

definition res_free :: "('k \<Rightarrow> 'v option) \<Rightarrow> 'k kres \<Rightarrow> bool" where
  "res_free m x = (case x of Inl e \<Rightarrow> True | Inr k \<Rightarrow> m k = None)"

definition file_is_open :: "nat \<Rightarrow> ttm_objects \<Rightarrow> bool" where
  "file_is_open f st = (case files st f of None \<Rightarrow> False | Some tf \<Rightarrow> ht_table (f_hash tf TTM_REF_USAGE) \<noteq> None)"

fun obj_legal :: "obj_op \<Rightarrow> ttm_objects \<times> (nat \<Rightarrow> nat) \<Rightarrow> bool" where
  "obj_legal (Open_File kc vz km) (st, held) = opt_free (files st) km"
| "obj_legal (Close_File f) (st, held) = file_is_open f st"
| "obj_legal (Create f b sh ty rel ida mem km) (st, held) =
     (file_is_open f st \<and> bases st b = None \<and> res_free (idr st) ida \<and> opt_free (refs st) km)"
| "obj_legal (Add_Ref f b t req mem km) (st, held) = (file_is_open f st \<and> held b > 0 \<and> opt_free (refs st) km)"
| "obj_legal (Drop_Ref f key t) (st, held) = file_is_open f st"
| "obj_legal (Lookup f key) (st, held) = file_is_open f st"
| "obj_legal (Lookup_For_Ref key) (st, held) = True"
| "obj_legal (Unref b) (st, held) = (held b > 0)"
| "obj_legal (Export f key env) (st, held) = (file_is_open f st \<and> res_free (dmabufs st) (export_ret env))"
| "obj_legal (Import f fd mem km) (st, held) =
     (file_is_open f st \<and> opt_free (refs st) km \<and> (case fd of Inl e \<Rightarrow> True | Inr d \<Rightarrow> dmabufs st d \<noteq> None))"
| "obj_legal (Put_Dma_Buf d) (st, held) = (dmabufs st d \<noteq> None)"

definition hold :: "(nat \<Rightarrow> nat) \<Rightarrow> ttm_objects \<times> nat option \<Rightarrow> ttm_objects \<times> (nat \<Rightarrow> nat)" where
  "hold held r = (fst r, case snd r of None \<Rightarrow> held | Some b \<Rightarrow> held(b := held b + 1))"

fun obj_exec :: "hash_fn \<Rightarrow> nat \<Rightarrow> obj_op \<Rightarrow> ttm_objects \<times> (nat \<Rightarrow> nat) \<Rightarrow> (ttm_objects \<times> (nat \<Rightarrow> nat)) option" where
  "obj_exec hash_long order (Open_File kc vz km) (st, held) = Some (fst (ttm_object_file_init kc vz order km st), held)"
| "obj_exec hash_long order (Close_File f) (st, held) = map_option (\<lambda>s. (s, held)) (ttm_object_file_release f st)"
| "obj_exec hash_long order (Create f b sh ty rel ida mem km) (st, held) =
     map_option (\<lambda>(s, _). (s, held)) (ttm_base_object_init hash_long f b sh ty rel ida mem km st)"
| "obj_exec hash_long order (Add_Ref f b t req mem km) (st, held) =
     map_option (\<lambda>(s, _). (s, held)) (ttm_ref_object_add hash_long f b t req mem km st)"
| "obj_exec hash_long order (Drop_Ref f key t) (st, held) =
     map_option (\<lambda>(s, _). (s, held)) (ttm_ref_object_base_unref hash_long f key t st)"
| "obj_exec hash_long order (Lookup f key) (st, held) = map_option (hold held) (ttm_base_object_lookup hash_long f key st)"
| "obj_exec hash_long order (Lookup_For_Ref key) (st, held) = map_option (hold held) (ttm_base_object_lookup_for_ref key st)"
| "obj_exec hash_long order (Unref b) (st, held) = map_option (\<lambda>s. (s, held(b := held b - 1))) (ttm_base_object_unref b st)"
| "obj_exec hash_long order (Export f key env) (st, held) =
     map_option (\<lambda>(s, _). (s, held)) (ttm_prime_handle_to_fd hash_long env f key st)"
| "obj_exec hash_long order (Import f fd mem km) (st, held) =
     map_option (\<lambda>(s, _). (s, held)) (ttm_prime_fd_to_handle hash_long f fd mem km st)"
| "obj_exec hash_long order (Put_Dma_Buf d) (st, held) = map_option (\<lambda>s. (s, held)) (dma_buf_put d st)"

fun obj_run :: "hash_fn \<Rightarrow> nat \<Rightarrow> obj_op list \<Rightarrow> ttm_objects \<times> (nat \<Rightarrow> nat) \<Rightarrow> (ttm_objects \<times> (nat \<Rightarrow> nat)) option" where
  \<comment> \<open>steps that break the rules of the interface are left out\<close>
  "obj_run hash_long order [] s = Some s"
| "obj_run hash_long order (p # ps) s =
     (if obj_legal p s then Option.bind (obj_exec hash_long order p s) (obj_run hash_long order ps)
      else obj_run hash_long order ps s)"

definition ttm_object_device_init :: "bool \<Rightarrow> (nat \<Rightarrow> bool) \<Rightarrow> (nat \<Rightarrow> bool) \<Rightarrow> nat \<Rightarrow> ttm_objects option" where
  \<comment> \<open>\<open>object_hash\<close> is created but never used\<close>
  "ttm_object_device_init kmalloc_ok kcalloc_ok vzalloc_ok hash_order =
     (if \<not> kmalloc_ok \<or> snd (drm_ht_create kcalloc_ok vzalloc_ok hash_order :: nat drm_open_hash \<times> unit kres) \<noteq> Inr () then None
      else Some \<lparr>idr = \<lambda>h. None, bases = \<lambda>b. None, refs = \<lambda>r. None, files = \<lambda>f. None, dmabufs = \<lambda>d. None,
                 ref_charges = 0, dma_charges = 0, events = []\<rparr>)"

lemma file_is_open_iff: "file_is_open f st \<longleftrightarrow> is_open f st"
  by (auto simp: file_is_open_def is_open_def f_open_def split: option.split)

lemma lookup_for_ref_ok:
  assumes inv: "obj_inv hash_long held st"
  shows "\<exists>r. ttm_base_object_lookup_for_ref key st = Some r \<and> obj_inv hash_long (snd (hold held r)) (fst r)"
proof (cases "idr st key")
  case (Some b)
  then have "bases st b \<noteq> None"
    using struct_idrD [OF obj_inv_struct [OF inv]] by (metis bkey_None option.distinct(1))
  from base_get_ok [OF inv this] Some show ?thesis by (auto simp: ttm_base_object_lookup_for_ref_def hold_def)
qed (use inv in \<open>simp add: ttm_base_object_lookup_for_ref_def hold_def\<close>)

lemma held_base:
  assumes "obj_inv hash_long held st" "0 < held b"
  obtains base where "bases st b = Some base"
  using assms unfolding obj_inv_def count_inv_def by (metis not_gr_zero option.exhaust)

lemma obj_exec_ok:
  assumes hr: "hash_in_range hash_long order" "order < 32" and inv: "obj_inv hash_long held st"
    and legal: "obj_legal p (st, held)"
  shows "\<exists>st' held'. obj_exec hash_long order p (st, held) = Some (st', held') \<and> obj_inv hash_long held' st'"
  using legal
proof (induction p "(st, held)" rule: obj_legal.induct)
  case (1 kc vz km)
  obtain st' x where r: "ttm_object_file_init kc vz order km st = (st', x)" by (metis prod.exhaust)
  from file_init_ok(1) [OF inv hr _ r] 1 r show ?case by (auto simp: opt_free_def split: option.splits)
next
  case (2 f)
  with file_release_ok [OF inv] show ?case by (fastforce simp: file_is_open_iff)
next
  case (3 f b sh ty rel ida mem km)
  then have "\<And>h. ida = Inr h \<Longrightarrow> idr st h = None" "\<And>r. km = Some r \<Longrightarrow> refs st r = None"
    by (auto simp: res_free_def opt_free_def)
  with base_init_ok [OF inv, of f b ida km] 3 show ?case by (fastforce simp: file_is_open_iff)
next
  case (4 f b t req mem km)
  then have "\<And>r. km = Some r \<Longrightarrow> refs st r = None" by (auto simp: opt_free_def)
  moreover obtain base where "bases st b = Some base" using held_base [OF inv] 4 by auto
  ultimately show ?case using ref_add_ok [OF inv, of b base f km] 4 by (fastforce simp: file_is_open_iff)
next
  case (5 f key t)
  with base_unref_ok [OF inv] show ?case by (fastforce simp: file_is_open_iff)
next
  case (6 f key)
  with lookup_ok [OF inv, of f key] show ?case by (fastforce simp: file_is_open_iff hold_def)
next
  case (7 key)
  from lookup_for_ref_ok [OF inv, of key] show ?case by (auto simp: hold_def)
next
  case (8 b)
  with unref_inv [OF inv, of b] show ?case by auto
next
  case (9 f key env)
  then have "\<And>d. export_ret env = Inr d \<Longrightarrow> dmabufs st d = None" by (auto simp: res_free_def)
  with handle_to_fd_ok [OF inv, of f env key] 9 show ?case by (fastforce simp: file_is_open_iff)
next
  case (10 f fd mem km)
  then have "\<And>d. fd = Inr d \<Longrightarrow> dmabufs st d \<noteq> None" "\<And>r. km = Some r \<Longrightarrow> refs st r = None"
    by (auto simp: opt_free_def)
  with fd_to_handle_ok [OF inv, of f fd km mem] 10 show ?case by (fastforce simp: file_is_open_iff)
next
  case (11 d)
  with dma_buf_put_ok [OF inv, of d] show ?case by auto
qed

lemma obj_run_ok:
  assumes "hash_in_range hash_long order" "order < 32" "obj_inv hash_long held st"
  shows "\<exists>st' held'. obj_run hash_long order ops (st, held) = Some (st', held') \<and> obj_inv hash_long held' st'"
  using assms(3)
proof (induction ops arbitrary: st held)
  case (Cons p ops)
  show ?case
  proof (cases "obj_legal p (st, held)")
    case True
    from obj_exec_ok [OF assms(1,2) Cons.prems True] Cons.IH True show ?thesis by fastforce
  qed (use Cons in simp)
qed simp

lemma device_init_inv:
  "ttm_object_device_init km kc vz order = Some st \<Longrightarrow> obj_inv hash_long (\<lambda>b. 0) st"
  by (auto simp: ttm_object_device_init_def obj_inv_def struct_inv_def count_inv_def bkey_def split: if_splits)

lemma alive_iff_referenced:
  assumes inv: "obj_inv hash_long held st"
  shows "bases st b \<noteq> None \<longleftrightarrow> 0 < held b \<or> (\<exists>r ref. refs st r = Some ref \<and> r_obj ref = b)
    \<or> (\<exists>d x. dmabufs st d = Some x \<and> d_ours x \<and> d_priv x = b)"
proof (intro iffI)
  assume "bases st b \<noteq> None"
  then obtain base where "bases st b = Some base" by blast
  note B = obj_inv_base(1,2) [OF inv this]
  have fin: "finite (dom (refs st))" "finite (dom (dmabufs st))"
    using inv by (simp_all add: obj_inv_def struct_inv_def count_inv_def)
  show "0 < held b \<or> (\<exists>r ref. refs st r = Some ref \<and> r_obj ref = b) \<or> (\<exists>d x. dmabufs st d = Some x \<and> d_ours x \<and> d_priv x = b)"
  proof (rule ccontr)
    assume n: "\<not> ?thesis"
    then have "count_map (\<lambda>ref. r_obj ref = b) (refs st) = 0" "count_map (exports b) (dmabufs st) = 0"
      by (auto simp: count_map_0 [OF fin(1)] count_map_0 [OF fin(2)])
    with B n show False by simp
  qed
next
  assume "0 < held b \<or> (\<exists>r ref. refs st r = Some ref \<and> r_obj ref = b) \<or> (\<exists>d x. dmabufs st d = Some x \<and> d_ours x \<and> d_priv x = b)"
  then consider "0 < held b" | r ref where "refs st r = Some ref" "r_obj ref = b"
    | d x where "dmabufs st d = Some x" "d_ours x" "d_priv x = b" by auto
  then show "bases st b \<noteq> None"
  proof cases
    case 1
    from held_base [OF inv 1] show ?thesis by blast
  next
    case 2
    from struct_ref [OF obj_inv_struct [OF inv] 2(1)] 2(2) show ?thesis by (metis bkey_None option.distinct(1))
  next
    case 3
    with obj_inv_dma [OF inv 3(1)] show ?thesis by simp
  qed
qed

section \<open>Properties\<close>

text \<open>C11: Whatever sequence of operations that follows the rules of the interface runs on a new device, with any
failures of memory, handle, lock and dma-buf allocation: no freed object, reference, file or dma-buf is used, no
\<open>BUG_ON\<close> fires, every call returns, and an object is in memory exactly while a caller holds it, a file has a
reference to it, or a dma-buf exports it; its reference count is the number of these.\<close>

theorem objects_never_used_after_free:
  assumes "ttm_object_device_init True kc vz order = Some st" "hash_in_range hash_long order" "order < 32"
  shows "\<exists>st' held. obj_run hash_long order ops (st, \<lambda>b. 0) = Some (st', held)
    \<and> (\<forall>b. bases st' b \<noteq> None \<longleftrightarrow> 0 < held b \<or> (\<exists>r ref. refs st' r = Some ref \<and> r_obj ref = b)
             \<or> (\<exists>d x. dmabufs st' d = Some x \<and> d_ours x \<and> d_priv x = b))
    \<and> (\<forall>b base. bases st' b = Some base \<longrightarrow> b_refcount base =
             count_map (\<lambda>ref. r_obj ref = b) (refs st') + count_map (\<lambda>x. d_ours x \<and> d_priv x = b) (dmabufs st') + held b)"
proof -
  from obj_run_ok [OF assms(2,3) device_init_inv [OF assms(1)]] obtain st' held where
      r: "obj_run hash_long order ops (st, \<lambda>b. 0) = Some (st', held)" "obj_inv hash_long held st'" by blast
  with alive_iff_referenced [OF r(2)] obj_inv_base(2) [OF r(2)] show ?thesis by blast
qed

definition new_device :: ttm_objects where
  "new_device = \<lparr>idr = \<lambda>h. None, bases = \<lambda>b. None, refs = \<lambda>r. None, files = \<lambda>f. None, dmabufs = \<lambda>d. None,
     ref_charges = 0, dma_charges = 0, events = []\<rparr>"

lemma device_init_2: "ttm_object_device_init True (\<lambda>n. True) (\<lambda>n. True) 2 = Some new_device"
  by (simp add: ttm_object_device_init_def drm_ht_create_def new_device_def)

definition demo_ops :: "obj_op list" where
  \<comment> \<open>create a shareable object, export it, import it through a second file, close the first file\<close>
  "demo_ops = [Open_File (\<lambda>t n. True) (\<lambda>t n. True) (Some 0), Open_File (\<lambda>t n. True) (\<lambda>t n. True) (Some 1),
     Create 0 7 True ttm_prime_type False (Inr 5) (Inr ()) (Some 0),
     Export 0 5 \<lparr>lock_ok = True, export_mem = Inr (), export_ret = Inr 3, fd_ret = Inr 9\<rparr>,
     Import 1 (Inr 3) (Inr ()) (Some 1), Close_File 0, Put_Dma_Buf 3]"

theorem objects_never_used_after_free_witness:
  "\<exists>st' held. obj_run low_bits_hash 2 demo_ops (new_device, \<lambda>b. 0) = Some (st', held)
    \<and> (\<forall>b. bases st' b \<noteq> None \<longleftrightarrow> 0 < held b \<or> (\<exists>r ref. refs st' r = Some ref \<and> r_obj ref = b)
             \<or> (\<exists>d x. dmabufs st' d = Some x \<and> d_ours x \<and> d_priv x = b))
    \<and> (\<forall>b base. bases st' b = Some base \<longrightarrow> b_refcount base =
             count_map (\<lambda>ref. r_obj ref = b) (refs st') + count_map (\<lambda>x. d_ours x \<and> d_priv x = b) (dmabufs st') + held b)"
  by (rule objects_never_used_after_free [OF device_init_2 low_bits_hash_in_range]) simp_all

text \<open>C25: Closing a file returns, drops all references of the file and no other, and releases exactly the objects
that nobody else refers to: an object survives when a caller holds it, another file has a reference to it, or a
dma-buf exports it.\<close>

theorem file_close_releases_objects:
  assumes "obj_inv hash_long held st" "is_open f st"
  shows "\<exists>st'. ttm_object_file_release f st = Some st' \<and> obj_inv hash_long held st' \<and> \<not> is_open f st'
    \<and> (\<forall>r ref. refs st' r = Some ref \<longleftrightarrow> refs st r = Some ref \<and> r_tfile ref \<noteq> f)
    \<and> (\<forall>b. bases st' b \<noteq> None \<longleftrightarrow> 0 < held b \<or> (\<exists>r ref. refs st r = Some ref \<and> r_obj ref = b \<and> r_tfile ref \<noteq> f)
             \<or> (\<exists>d x. dmabufs st d = Some x \<and> d_ours x \<and> d_priv x = b))"
proof -
  from file_release_ok [OF assms] obtain st' where r: "ttm_object_file_release f st = Some st'"
      "obj_inv hash_long held st'" "\<not> is_open f st'" "dmabufs st' = dmabufs st"
      "\<forall>r ref. refs st' r = Some ref \<longleftrightarrow> refs st r = Some ref \<and> r_tfile ref \<noteq> f" by blast
  show ?thesis
    using r(1-3,5) alive_iff_referenced [OF r(2)] r(4) by (intro exI [of _ st'] conjI) auto
qed

definition one_file :: ttm_objects where
  "one_file = fst (ttm_object_file_init (\<lambda>t n. True) (\<lambda>t n. True) 2 (Some 0) new_device)"

lemma one_file_ok: "obj_inv low_bits_hash (\<lambda>b. 0) one_file" "is_open 0 one_file"
proof -
  obtain st' x where r: "ttm_object_file_init (\<lambda>t n. True) (\<lambda>t n. True) 2 (Some 0) new_device = (st', x)"
    by (metis prod.exhaust)
  have x: "x = Some 0"
    using r by (auto simp: ttm_object_file_init_def drm_ht_create_def ref_types_def Let_def)
  note F = file_init_ok [OF device_init_inv [OF device_init_2] low_bits_hash_in_range _ _ r]
  have "obj_inv low_bits_hash (\<lambda>b. 0) st'" "is_open 0 st'"
    by (intro F(1,2); simp add: new_device_def x)+
  then show "obj_inv low_bits_hash (\<lambda>b. 0) one_file" "is_open 0 one_file" using r by (simp_all add: one_file_def)
qed

theorem file_close_releases_objects_witness:
  "\<exists>st'. ttm_object_file_release 0 one_file = Some st' \<and> obj_inv low_bits_hash (\<lambda>b. 0) st' \<and> \<not> is_open 0 st'
    \<and> (\<forall>r ref. refs st' r = Some ref \<longleftrightarrow> refs one_file r = Some ref \<and> r_tfile ref \<noteq> 0)
    \<and> (\<forall>b. bases st' b \<noteq> None \<longleftrightarrow> 0 < (\<lambda>b. 0 :: nat) b \<or> (\<exists>r ref. refs one_file r = Some ref \<and> r_obj ref = b \<and> r_tfile ref \<noteq> 0)
             \<or> (\<exists>d x. dmabufs one_file d = Some x \<and> d_ours x \<and> d_priv x = b))"
  by (rule file_close_releases_objects [OF one_file_ok])

lemma lookup_exact:
  assumes inv: "obj_inv hash_long held st" and op: "is_open f st"
  shows "\<exists>st' x. ttm_base_object_lookup hash_long f key st = Some (st', x) \<and> refs st' = refs st \<and>
    (\<forall>b. x = Some b \<longleftrightarrow> idr st key = Some b \<and> (\<exists>r ref. refs st r = Some ref \<and> r_tfile ref = f \<and> r_type ref = TTM_REF_USAGE \<and> r_obj ref = b))"
proof -
  from find_ref_ok [OF inv op, of TTM_REF_USAGE "handle_key key"] obtain x where
      x: "find_ref hash_long f TTM_REF_USAGE (handle_key key) st = Some x"
      "\<And>r. x = Some r \<longleftrightarrow> ref_at (bkey (bases st)) (refs st) f TTM_REF_USAGE (handle_key key) r" by blast
  show ?thesis
  proof (cases x)
    case (Some r)
    from ref_at_obj [OF inv x(2) [THEN iffD1, OF Some]] obtain ref base where
        ref: "refs st r = Some ref" "bases st (r_obj ref) = Some base" "handle_key (b_handle base) = handle_key key"
        "r_tfile ref = f" "r_type ref = TTM_REF_USAGE" by metis
    moreover have "0 < b_refcount base" by (rule obj_inv_base(1) [OF inv ref(2)])
    moreover have "idr st key = Some (r_obj ref)"
      using struct_key(1) [OF obj_inv_struct [OF inv] bkey_Some [of "bases st", OF ref(2)]] ref(3)
      by (simp add: handle_key_eq)
    ultimately show ?thesis using x(1) Some
      by (auto simp: ttm_base_object_lookup_def base_get_unless_zero_def)
  next
    case None
    have "\<not> (idr st key = Some b \<and> (\<exists>r ref. refs st r = Some ref \<and> r_tfile ref = f \<and> r_type ref = TTM_REF_USAGE \<and> r_obj ref = b))" for b
    proof (intro notI, elim conjE exE)
      fix r ref assume a: "idr st key = Some b" "refs st r = Some ref" "r_tfile ref = f" "r_type ref = TTM_REF_USAGE" "r_obj ref = b"
      from struct_idrD [OF obj_inv_struct [OF inv] a(1)] a(2-)
      have "ref_at (bkey (bases st)) (refs st) f TTM_REF_USAGE (handle_key key) r" unfolding ref_at_def by blast
      then show False using x(2) None by simp
    qed
    then show ?thesis using x(1) None by (simp add: ttm_base_object_lookup_def)
  qed
qed

lemma refs_respect_sharing:
  assumes "obj_inv hash_long held st" "refs st r = Some ref"
  shows "\<exists>base. bases st (r_obj ref) = Some base \<and> (b_tfile base = r_tfile ref \<or> b_shareable base)"
  using struct_ref [OF obj_inv_struct [OF assms(1)] assms(2)] by (auto simp: bkey_def)

text \<open>C35: Objects that are not shareable stay with the file that created them. After any sequence of operations that follows the rules of
the interface on a new device, every reference that a file has is to an object that the file created or that is shareable, because
\<open>ttm_ref_object_add\<close> and the import of a dma-buf refuse the others. A lookup of a handle by an open file
returns, finds an object exactly when it has that handle and the file has a usage reference to it, and so finds only objects that the file
created or that are shareable.\<close>

theorem handle_lookup_respects_sharing:
  assumes "ttm_object_device_init True kc vz order = Some st" "hash_in_range hash_long order" "order < 32"
  shows "\<exists>st' held. obj_run hash_long order ops (st, \<lambda>b. 0) = Some (st', held)
    \<and> (\<forall>r ref. refs st' r = Some ref \<longrightarrow>
         (\<exists>base. bases st' (r_obj ref) = Some base \<and> (b_tfile base = r_tfile ref \<or> b_shareable base)))
    \<and> (\<forall>f key. file_is_open f st' \<longrightarrow>
         (\<exists>st2 x. ttm_base_object_lookup hash_long f key st' = Some (st2, x) \<and>
            (\<forall>b. x = Some b \<longleftrightarrow> idr st' key = Some b \<and>
               (\<exists>r ref. refs st' r = Some ref \<and> r_tfile ref = f \<and> r_type ref = TTM_REF_USAGE \<and> r_obj ref = b))))"
proof -
  from obj_run_ok [OF assms(2,3) device_init_inv [OF assms(1)]] obtain st' held where
      r: "obj_run hash_long order ops (st, \<lambda>b. 0) = Some (st', held)" "obj_inv hash_long held st'" by blast
  with refs_respect_sharing [OF r(2)] lookup_exact [OF r(2)] show ?thesis unfolding file_is_open_iff by blast
qed

text \<open>
  Witness: file 0 creates a shareable object with handle 5 and one with handle 6 that is not shareable, and file 1 asks for references to both. Then the lookup
  of file 1 finds the first and not the second.
\<close>

definition share_ops :: "obj_op list" where
  "share_ops = [Open_File (\<lambda>t n. True) (\<lambda>t n. True) (Some 0), Open_File (\<lambda>t n. True) (\<lambda>t n. True) (Some 1),
     Create 0 7 True ttm_prime_type False (Inr 5) (Inr ()) (Some 0),
     Create 0 8 False ttm_prime_type False (Inr 6) (Inr ()) (Some 1),
     Lookup_For_Ref 5, Add_Ref 1 7 TTM_REF_USAGE False (Inr ()) (Some 2),
     Lookup_For_Ref 6, Add_Ref 1 8 TTM_REF_USAGE False (Inr ()) (Some 3)]"

lemma share_ops_run:
  "map_option (\<lambda>(s, h). (file_is_open 1 s, idr s 5 = Some 7, idr s 6 = Some 8, map_option (\<lambda>ref. (r_tfile ref, r_type ref, r_obj ref)) (refs s 2),
       map_option (\<lambda>base. (b_tfile base, b_shareable base)) (bases s 8)))
     (obj_run low_bits_hash 2 share_ops (new_device, \<lambda>b. 0)) =
   Some (True, True, True, Some (1, TTM_REF_USAGE, 7), Some (0, False))"
  by code_simp

theorem handle_lookup_respects_sharing_witness:
  "\<exists>st' held. obj_run low_bits_hash 2 share_ops (new_device, \<lambda>b. 0) = Some (st', held)
    \<and> (\<exists>st2. ttm_base_object_lookup low_bits_hash 1 5 st' = Some (st2, Some 7))
    \<and> (\<exists>st2. ttm_base_object_lookup low_bits_hash 1 6 st' = Some (st2, None))"
proof -
  have small: "2 \<le> (64 :: nat)" "2 < (32 :: nat)" by simp_all
  obtain st' held where run: "obj_run low_bits_hash 2 share_ops (new_device, \<lambda>b. 0) = Some (st', held)"
    and share: "\<forall>r ref. refs st' r = Some ref \<longrightarrow> (\<exists>base. bases st' (r_obj ref) = Some base \<and> (b_tfile base = r_tfile ref \<or> b_shareable base))"
    and lk: "\<forall>f key. file_is_open f st' \<longrightarrow>
         (\<exists>st2 x. ttm_base_object_lookup low_bits_hash f key st' = Some (st2, x) \<and>
            (\<forall>b. x = Some b \<longleftrightarrow> idr st' key = Some b \<and>
               (\<exists>r ref. refs st' r = Some ref \<and> r_tfile ref = f \<and> r_type ref = TTM_REF_USAGE \<and> r_obj ref = b)))"
    using handle_lookup_respects_sharing [OF device_init_2 low_bits_hash_in_range [OF small(1)] small(2), of share_ops] by blast
  obtain ref base where st': "file_is_open 1 st'" "idr st' 5 = Some 7" "idr st' 6 = Some 8"
      "refs st' 2 = Some ref" "r_tfile ref = 1" "r_type ref = TTM_REF_USAGE" "r_obj ref = 7"
      "bases st' 8 = Some base" "b_tfile base = 0" "\<not> b_shareable base"
    using share_ops_run run by auto
  obtain st1 y where y: "ttm_base_object_lookup low_bits_hash 1 5 st' = Some (st1, y)"
      "y = Some 7 \<longleftrightarrow> idr st' 5 = Some 7 \<and> (\<exists>r ref. refs st' r = Some ref \<and> r_tfile ref = 1 \<and> r_type ref = TTM_REF_USAGE \<and> r_obj ref = 7)"
    using lk [rule_format, OF st'(1), of 5] by blast
  have "y = Some 7" using y(2) st'(2,4-7) by blast
  with y(1) have "\<exists>st2. ttm_base_object_lookup low_bits_hash 1 5 st' = Some (st2, Some 7)" by blast
  moreover obtain st2 x where x: "ttm_base_object_lookup low_bits_hash 1 6 st' = Some (st2, x)"
      "\<forall>b. x = Some b \<longleftrightarrow> idr st' 6 = Some b \<and> (\<exists>r ref. refs st' r = Some ref \<and> r_tfile ref = 1 \<and> r_type ref = TTM_REF_USAGE \<and> r_obj ref = b)"
    using lk [rule_format, OF st'(1), of 6] by blast
  have "x = None"
  proof (rule ccontr)
    assume "x \<noteq> None"
    then obtain r ref where "refs st' r = Some ref" "r_tfile ref = 1" "r_obj ref = 8" using x(2) st'(3) by auto
    then show False using share st'(8-) by fastforce
  qed
  ultimately show ?thesis using run x(1) by blast
qed

text \<open>
  When no handle can be allocated, \<open>ttm_base_object_init\<close> returns the error without dropping the reference
  it took on the file: the closed file is never freed.
\<close>

lemma failed_init_leaks_file:
  "\<exists>st1 st2 tf. ttm_base_object_init low_bits_hash 0 7 True ttm_prime_type False (Inl ENOSPC) (Inr ()) (Some 0) one_file
       = Some (st1, Inl ENOSPC)
     \<and> ttm_object_file_release 0 st1 = Some st2 \<and> files st2 0 = Some tf \<and> bases st2 = (\<lambda>b. None)"
  by (simp add: one_file_def ttm_object_file_init_def drm_ht_create_def ref_types_def ttm_base_object_init_def
      ttm_object_file_ref_def ttm_object_file_release_def release_refs.simps ttm_object_file_unref_def new_device_def)

end
