(* ===== verification/Vmw_Resource.thy ===== *)
theory Vmw_Resource
  imports Vmw_Prelude "HOL-Library.Monad_Syntax"
begin

text \<open>
  Device resources, \<open>src/vmwgfx_resource.c\<close>: surfaces, contexts, shaders and the like, which exist on the device
  while they have an id. A resource is reserved for a submission by taking it off the list of evictable
  resources of its type; validation gives it an id and evicts others when the device is out of ids.

  The type-specific callbacks of \<open>struct vmw_res_func\<close>, the memory manager and the buffer reservations are one
  parameter \<open>ask\<close> that answers queries and carries a state of its own. Of a callback the model fixes what
  the code here relies on: \<open>create\<close> sets the id when it succeeds, \<open>destroy\<close> gives it back when it
  succeeds, and both leave it alone otherwise. A missing resource or a \<open>BUG_ON\<close> is \<open>None\<close>.
\<close>

section \<open>Data\<close>

datatype vmw_res_type =
    vmw_res_context | vmw_res_surface | vmw_res_stream | vmw_res_shader | vmw_res_dx_context
  | vmw_res_cotable | vmw_res_view

record vmw_res_func =
  rf_type :: vmw_res_type
  rf_needs_backup :: bool
  rf_may_evict :: bool
  rf_create :: bool              \<comment> \<open>the callbacks are not null\<close>
  rf_bind :: bool
  rf_unbind :: bool

record vmw_resource =
  res_kref :: nat
  res_id :: "nat option"         \<comment> \<open>\<open>None\<close> is -1\<close>
  res_backup_size :: nat
  res_backup :: "nat option"
  res_backup_offset :: nat
  res_pin_count :: nat
  res_dirty :: bool
  res_backup_dirty :: bool
  res_mob :: "nat option"        \<comment> \<open>the buffer whose \<open>res_list\<close> holds \<open>mob_head\<close>\<close>
  res_func :: vmw_res_func

datatype res_query =
    Q_Create nat | Q_Destroy nat | Q_Bind nat nat | Q_Unbind nat bool nat
  | Q_Alloc_Backup nat | Q_Reserve_Bo nat | Q_Validate_Bo nat | Q_Alloc_Id nat | Q_Write_Lock

type_synonym 'd res_oracle = "res_query \<Rightarrow> 'd \<Rightarrow> nat kres \<times> 'd"

record 'd res_world =
  ress :: "nat \<Rightarrow> vmw_resource option"
  res_lru :: "vmw_res_type \<Rightarrow> nat list"
  mob_order :: "nat list"        \<comment> \<open>resources that are on a \<open>res_list\<close>, in the order they were added\<close>
  bo_refs :: "nat \<Rightarrow> nat"
  bo_size :: "nat \<Rightarrow> nat"
  bo_pins :: "nat \<Rightarrow> nat"
  env :: 'd

abbreviation VMW_RES_EVICT_ERR_COUNT :: nat where "VMW_RES_EVICT_ERR_COUNT \<equiv> 10"

definition put_res :: "nat \<Rightarrow> vmw_resource \<Rightarrow> 'd res_world \<Rightarrow> 'd res_world" where
  "put_res r res w = w\<lparr>ress := (ress w)(r \<mapsto> res)\<rparr>"

definition consult :: "'d res_oracle \<Rightarrow> res_query \<Rightarrow> 'd res_world \<Rightarrow> nat kres \<times> 'd res_world" where
  "consult ask q w = (case ask q (env w) of (a, d) \<Rightarrow> (a, w\<lparr>env := d\<rparr>))"

definition lru_del :: "nat \<Rightarrow> 'd res_world \<Rightarrow> 'd res_world" where
  "lru_del r w = w\<lparr>res_lru := (\<lambda>t. remove1 r (res_lru w t))\<rparr>"

definition lru_add_tail :: "vmw_res_type \<Rightarrow> nat \<Rightarrow> 'd res_world \<Rightarrow> 'd res_world" where
  "lru_add_tail t r w = w\<lparr>res_lru := (res_lru w)(t := res_lru w t @ [r])\<rparr>"

definition mob_del :: "nat \<Rightarrow> vmw_resource \<Rightarrow> 'd res_world \<Rightarrow> 'd res_world" where
  "mob_del r res w = put_res r (res\<lparr>res_mob := None\<rparr>) (w\<lparr>mob_order := remove1 r (mob_order w)\<rparr>)"

definition mob_add :: "nat \<Rightarrow> vmw_resource \<Rightarrow> nat \<Rightarrow> 'd res_world \<Rightarrow> 'd res_world" where
  "mob_add r res bo w = put_res r (res\<lparr>res_mob := Some bo\<rparr>) (w\<lparr>mob_order := mob_order w @ [r]\<rparr>)"

definition bo_get :: "nat \<Rightarrow> 'd res_world \<Rightarrow> 'd res_world" where
  "bo_get bo w = w\<lparr>bo_refs := (bo_refs w)(bo := bo_refs w bo + 1)\<rparr>"

definition bo_put :: "nat \<Rightarrow> 'd res_world \<Rightarrow> 'd res_world option" where
  "bo_put bo w = (if bo_refs w bo = 0 then None else Some (w\<lparr>bo_refs := (bo_refs w)(bo := bo_refs w bo - 1)\<rparr>))"

section \<open>References and ids\<close>

definition vmw_resource_reference :: "nat \<Rightarrow> 'd res_world \<Rightarrow> 'd res_world option" where
  "vmw_resource_reference r w = do {
     res \<leftarrow> ress w r;
     Some (put_res r (res\<lparr>res_kref := res_kref res + 1\<rparr>) w) }"

definition vmw_resource_reference_unless_doomed :: "nat \<Rightarrow> 'd res_world \<Rightarrow> ('d res_world \<times> bool) option" where
  "vmw_resource_reference_unless_doomed r w = do {
     res \<leftarrow> ress w r;
     if res_kref res = 0 then Some (w, False) else Some (put_res r (res\<lparr>res_kref := res_kref res + 1\<rparr>) w, True) }"

definition vmw_resource_release_id :: "nat \<Rightarrow> 'd res_world \<Rightarrow> 'd res_world option" where
  "vmw_resource_release_id r w = do { res \<leftarrow> ress w r; Some (put_res r (res\<lparr>res_id := None\<rparr>) w) }"

definition vmw_resource_release :: "'d res_oracle \<Rightarrow> nat \<Rightarrow> 'd res_world \<Rightarrow> 'd res_world option" where
  \<comment> \<open>the id goes back to the \<open>idr\<close> with the resource\<close>
  "vmw_resource_release ask r w = do {
     res \<leftarrow> ress w r;
     w \<leftarrow> Some (lru_del r w);
     w \<leftarrow> (case res_backup res of
             None \<Rightarrow> Some w
           | Some bo \<Rightarrow> do {
               w \<leftarrow> Some (if res_mob res \<noteq> None \<and> rf_unbind (res_func res)
                      then snd (consult ask (Q_Unbind r False bo) w) else w);
               bo_put bo (mob_del r (res\<lparr>res_backup_dirty := False, res_backup := None\<rparr>) w) });
     Some (w\<lparr>ress := (ress w)(r := None)\<rparr>) }"

definition vmw_resource_unreference :: "'d res_oracle \<Rightarrow> nat \<Rightarrow> 'd res_world \<Rightarrow> 'd res_world option" where
  "vmw_resource_unreference ask r w = do {
     res \<leftarrow> ress w r;
     (case res_kref res of
        0 \<Rightarrow> None
      | Suc n \<Rightarrow>
          (let w = put_res r (res\<lparr>res_kref := n\<rparr>) w
           in if n = 0 then vmw_resource_release ask r w else Some w)) }"

definition vmw_resource_alloc_id :: "'d res_oracle \<Rightarrow> nat \<Rightarrow> 'd res_world \<Rightarrow> ('d res_world \<times> unit kres) option" where
  "vmw_resource_alloc_id ask r w = do {
     res \<leftarrow> ress w r;
     if res_id res \<noteq> None then None
     else (case consult ask (Q_Alloc_Id r) w of
         (Inr i, w) \<Rightarrow> Some (put_res r (res\<lparr>res_id := Some i\<rparr>) w, Inr ())
       | (Inl e, w) \<Rightarrow> Some (w, Inl e)) }"

definition vmw_resource_init ::
  "'d res_oracle \<Rightarrow> nat \<Rightarrow> bool \<Rightarrow> nat \<Rightarrow> vmw_res_func \<Rightarrow> 'd res_world \<Rightarrow> ('d res_world \<times> unit kres) option" where
  "vmw_resource_init ask r delay_id backup_size func w =
     (let w = put_res r \<lparr>res_kref = 1, res_id = None, res_backup_size = backup_size, res_backup = None,
                res_backup_offset = 0, res_pin_count = 0, res_dirty = False, res_backup_dirty = False,
                res_mob = None, res_func = func\<rparr> w
      in if delay_id then Some (w, Inr ()) else vmw_resource_alloc_id ask r w)"

section \<open>Reserving\<close>

definition vmw_resource_buf_alloc :: "'d res_oracle \<Rightarrow> nat \<Rightarrow> 'd res_world \<Rightarrow> ('d res_world \<times> unit kres) option" where
  "vmw_resource_buf_alloc ask r w = do {
     res \<leftarrow> ress w r;
     (let sz = (res_backup_size res + (PAGE_SIZE - 1)) div PAGE_SIZE * PAGE_SIZE
      in case res_backup res of
           Some bo \<Rightarrow> if bo_size w bo < sz then None else Some (w, Inr ())
         | None \<Rightarrow>
             (case consult ask (Q_Alloc_Backup r) w of
                (Inl e, w) \<Rightarrow> Some (w, Inl e)
              | (Inr bo, w) \<Rightarrow>
                  Some (put_res r (res\<lparr>res_backup := Some bo\<rparr>)
                          (bo_get bo (w\<lparr>bo_size := (bo_size w)(bo := sz)\<rparr>)), Inr ()))) }"

definition vmw_resource_reserve :: "'d res_oracle \<Rightarrow> nat \<Rightarrow> bool \<Rightarrow> 'd res_world \<Rightarrow> ('d res_world \<times> unit kres) option" where
  "vmw_resource_reserve ask r no_backup w = do {
     res \<leftarrow> ress w r;
     w \<leftarrow> Some (lru_del r w);
     if rf_needs_backup (res_func res) \<and> res_backup res = None \<and> \<not> no_backup
     then vmw_resource_buf_alloc ask r w else Some (w, Inr ()) }"

definition on_lru :: "nat \<Rightarrow> 'd res_world \<Rightarrow> bool" where
  "on_lru r w = (case ress w r of None \<Rightarrow> False | Some res \<Rightarrow> r \<in> set (res_lru w (rf_type (res_func res))))"

definition switch_backup_to :: "nat \<Rightarrow> nat option \<Rightarrow> 'd res_world \<Rightarrow> 'd res_world option" where
  "switch_backup_to r new_backup w = do {
     res \<leftarrow> ress w r;
     if new_backup = res_backup res then Some w
     else do {
       w \<leftarrow> (case res_backup res of
              None \<Rightarrow> Some w
            | Some bo \<Rightarrow> bo_put bo (mob_del r (res\<lparr>res_backup := None\<rparr>) w));
       res \<leftarrow> ress w r;
       Some (case new_backup of
               None \<Rightarrow> w
             | Some bo \<Rightarrow> mob_add r (res\<lparr>res_backup := Some bo\<rparr>) bo (bo_get bo w)) } }"

definition vmw_resource_unreserve ::
  "nat \<Rightarrow> bool \<Rightarrow> nat option \<Rightarrow> nat \<Rightarrow> 'd res_world \<Rightarrow> 'd res_world option" where
  "vmw_resource_unreserve r switch_backup new_backup new_backup_offset w = do {
     res \<leftarrow> ress w r;
     if on_lru r w then Some w
     else do {
       w \<leftarrow> (if switch_backup then switch_backup_to r new_backup w else Some w);
       res \<leftarrow> ress w r;
       w \<leftarrow> Some (if switch_backup then put_res r (res\<lparr>res_backup_offset := new_backup_offset\<rparr>) w else w);
       if \<not> rf_may_evict (res_func res) \<or> res_id res = None \<or> res_pin_count res \<noteq> 0 then Some w
       else Some (lru_add_tail (rf_type (res_func res)) r w) } }"

section \<open>Validation and eviction\<close>

definition res_destroy :: "'d res_oracle \<Rightarrow> nat \<Rightarrow> 'd res_world \<Rightarrow> ('d res_world \<times> unit kres) option" where
  \<comment> \<open>\<open>func->destroy(res)\<close>\<close>
  "res_destroy ask r w =
     (case consult ask (Q_Destroy r) w of
        (Inr _, w) \<Rightarrow> map_option (\<lambda>w. (w, Inr ())) (vmw_resource_release_id r w)
      | (Inl e, w) \<Rightarrow> Some (w, Inl e))"

definition validate_create :: "'d res_oracle \<Rightarrow> nat \<Rightarrow> vmw_resource \<Rightarrow> 'd res_world \<Rightarrow> 'd res_world \<times> unit kres" where
  "validate_create ask r res w =
     (if res_id res = None
      then (case consult ask (Q_Create r) w of
              (Inr i, w) \<Rightarrow> (put_res r (res\<lparr>res_id := Some i\<rparr>) w, Inr ())
            | (Inl e, w) \<Rightarrow> (w, Inl e))
      else (w, Inr ()))"

definition validate_bind ::
  "'d res_oracle \<Rightarrow> nat \<Rightarrow> nat option \<Rightarrow> vmw_resource \<Rightarrow> 'd res_world \<Rightarrow> ('d res_world \<times> unit kres) option" where
  \<comment> \<open>a bind that answers non-zero has read the backup back, which is then clean\<close>
  "validate_bind ask r val_bo res w =
     (case val_bo of
        Some bo \<Rightarrow>
          if rf_bind (res_func res) \<and> (\<not> rf_needs_backup (res_func res) \<or> res_mob res = None)
          then (case consult ask (Q_Bind r bo) w of
                  (Inl e, w) \<Rightarrow> map_option (\<lambda>(w, _). (w, Inl e)) (res_destroy ask r w)
                | (Inr n, w) \<Rightarrow>
                    (let res = (if n = 0 then res else res\<lparr>res_backup_dirty := False\<rparr>)
                     in if rf_needs_backup (res_func res)
                        then map_option (\<lambda>b. (mob_add r res b w, Inr ())) (res_backup res)
                        else Some (put_res r res w, Inr ())))
          else Some (w, Inr ())
      | None \<Rightarrow> Some (w, Inr ()))"

definition vmw_resource_do_validate ::
  "'d res_oracle \<Rightarrow> nat \<Rightarrow> nat option \<Rightarrow> 'd res_world \<Rightarrow> ('d res_world \<times> unit kres) option" where
  "vmw_resource_do_validate ask r val_bo w = do {
     res \<leftarrow> ress w r;
     (w, ret) \<leftarrow> Some (validate_create ask r res w);
     (case ret of
        Inl e \<Rightarrow> Some (w, Inl e)
      | Inr _ \<Rightarrow> do {
          res \<leftarrow> ress w r;
          (w, ret) \<leftarrow> validate_bind ask r val_bo res w;
          (case ret of
             Inl e \<Rightarrow> Some (w, Inl e)
           | Inr _ \<Rightarrow> do {
               res \<leftarrow> ress w r;
               Some (put_res r (res\<lparr>res_dirty := True\<rparr>) w, Inr ()) }) }) }"

definition drop_dirty_backup :: "bool \<Rightarrow> nat \<Rightarrow> 'd res_world \<Rightarrow> 'd res_world option" where
  \<comment> \<open>\<open>if (backup_dirty) vmw_bo_unreference(&res->backup)\<close>\<close>
  "drop_dirty_backup dirty r w = do {
     res \<leftarrow> ress w r;
     (case res_backup res of
        Some bo \<Rightarrow> if dirty then bo_put bo (put_res r (res\<lparr>res_backup := None\<rparr>) w) else Some w
      | None \<Rightarrow> Some w) }"

definition vmw_resource_check_buffer ::
  "'d res_oracle \<Rightarrow> nat \<Rightarrow> 'd res_world \<Rightarrow> ('d res_world \<times> nat kres) option" where
  \<comment> \<open>returns the reserved buffer, with one more reference\<close>
  "vmw_resource_check_buffer ask r w = do {
     res \<leftarrow> ress w r;
     (w, ret) \<leftarrow> (if res_backup res = None then vmw_resource_buf_alloc ask r w else Some (w, Inr ()));
     (case ret of
        Inl e \<Rightarrow> Some (w, Inl e)
      | Inr _ \<Rightarrow> do {
          res \<leftarrow> ress w r;
          bo \<leftarrow> res_backup res;
          w \<leftarrow> Some (bo_get bo w);
          (case consult ask (Q_Reserve_Bo bo) w of
             (Inl e, w) \<Rightarrow> map_option (\<lambda>w. (w, Inl e)) (bo_put bo w)
           | (Inr _, w) \<Rightarrow>
               if rf_needs_backup (res_func res) \<and> res_mob res = None then Some (w, Inr bo)
               else (case consult ask (Q_Validate_Bo bo) w of
                   (Inr _, w) \<Rightarrow> Some (w, Inr bo)
                 | (Inl e, w) \<Rightarrow> do {
                     w \<leftarrow> bo_put bo w;
                     map_option (\<lambda>w. (w, Inl e)) (drop_dirty_backup (res_backup_dirty res) r w) })) }) }"

definition evict_unbind ::
  "'d res_oracle \<Rightarrow> nat \<Rightarrow> vmw_resource \<Rightarrow> nat \<Rightarrow> 'd res_world \<Rightarrow> 'd res_world \<times> unit kres" where
  \<comment> \<open>the call of \<open>func->unbind\<close> in \<open>vmw_resource_do_evict\<close>\<close>
  "evict_unbind ask r res bo w =
     (if rf_unbind (res_func res) \<and> (\<not> rf_needs_backup (res_func res) \<or> res_mob res \<noteq> None)
      then (case consult ask (Q_Unbind r (res_dirty res) bo) w of
              (Inl e, w) \<Rightarrow> (w, Inl e)
            | (Inr _, w) \<Rightarrow> (mob_del r res w, Inr ()))
      else (w, Inr ()))"

definition vmw_resource_do_evict :: "'d res_oracle \<Rightarrow> nat \<Rightarrow> 'd res_world \<Rightarrow> ('d res_world \<times> unit kres) option" where
  "vmw_resource_do_evict ask r w = do {
     res \<leftarrow> ress w r;
     if \<not> rf_may_evict (res_func res) then None
     else do {
       (w, ret) \<leftarrow> vmw_resource_check_buffer ask r w;
       (case ret of
          Inl e \<Rightarrow> Some (w, Inl e)
        | Inr bo \<Rightarrow> do {
            res \<leftarrow> ress w r;
            (w, ret) \<leftarrow> Some (evict_unbind ask r res bo w);
            (w, ret) \<leftarrow> (case ret of
               Inl e \<Rightarrow> Some (w, Inl e)
             | Inr _ \<Rightarrow> do {
                 (w, ret) \<leftarrow> res_destroy ask r w;
                 res \<leftarrow> ress w r;
                 Some (put_res r (res\<lparr>res_backup_dirty := True, res_dirty := False\<rparr>) w, ret) });
            map_option (\<lambda>w. (w, ret)) (bo_put bo w) }) } }"

text \<open>
  One round of the loops that make room: the oldest evictable resource of the type is evicted, or goes to the
  end of the list when that fails.
\<close>

definition evict_round ::
  "'d res_oracle \<Rightarrow> vmw_res_type \<Rightarrow> nat \<Rightarrow> 'd res_world \<Rightarrow> ('d res_world \<times> unit kres) option" where
  "evict_round ask t r w = do {
     w \<leftarrow> vmw_resource_reference r w;
     (w, ret) \<leftarrow> vmw_resource_do_evict ask r (lru_del r w);
     w \<leftarrow> Some (case ret of Inr _ \<Rightarrow> w | Inl _ \<Rightarrow> lru_add_tail t r w);
     map_option (\<lambda>w. (w, ret)) (vmw_resource_unreference ask r w) }"

fun validate_loop ::
  "'d res_oracle \<Rightarrow> nat \<Rightarrow> nat option \<Rightarrow> nat \<Rightarrow> nat \<Rightarrow> 'd res_world \<Rightarrow> ('d res_world \<times> unit kres) option" where
  "validate_loop ask r val_bo err_count 0 w = None"
| "validate_loop ask r val_bo err_count (Suc fuel) w = do {
     (w, ret) \<leftarrow> vmw_resource_do_validate ask r val_bo w;
     if ret \<noteq> Inl EBUSY then Some (w, ret)
     else do {
       res \<leftarrow> ress w r;
       (case res_lru w (rf_type (res_func res)) of
          [] \<Rightarrow> Some (w, Inl EBUSY)
        | evict_res # _ \<Rightarrow>
            if \<not> rf_may_evict (res_func res) then Some (w, Inl EBUSY)
            else do {
              (w, ret) \<leftarrow> evict_round ask (rf_type (res_func res)) evict_res w;
              (case ret of
                 Inr _ \<Rightarrow> validate_loop ask r val_bo err_count fuel w
               | Inl e \<Rightarrow>
                   if e = ERESTARTSYS \<or> err_count + 1 > VMW_RES_EVICT_ERR_COUNT then Some (w, Inl e)
                   else validate_loop ask r val_bo (err_count + 1) fuel w) }) } }"

definition vmw_resource_validate ::
  "'d res_oracle \<Rightarrow> nat \<Rightarrow> nat \<Rightarrow> 'd res_world \<Rightarrow> ('d res_world \<times> unit kres) option" where
  "vmw_resource_validate ask fuel r w = do {
     res \<leftarrow> ress w r;
     if \<not> rf_create (res_func res) then Some (w, Inr ())
     else do {
       (w, ret) \<leftarrow> validate_loop ask r (res_backup res) 0 fuel w;
       (case ret of
          Inl e \<Rightarrow> Some (w, Inl e)
        | Inr _ \<Rightarrow> do {
            res \<leftarrow> ress w r;
            (case res_backup res of
               Some bo \<Rightarrow>
                 if \<not> rf_needs_backup (res_func res)
                 then map_option (\<lambda>w. (w, Inr ())) (bo_put bo (mob_del r (res\<lparr>res_backup := None\<rparr>) w))
                 else Some (w, Inr ())
             | None \<Rightarrow> Some (w, Inr ())) }) } }"

fun evict_type_loop :: "'d res_oracle \<Rightarrow> vmw_res_type \<Rightarrow> nat \<Rightarrow> nat \<Rightarrow> 'd res_world \<Rightarrow> 'd res_world option" where
  "evict_type_loop ask t err_count 0 w = None"
| "evict_type_loop ask t err_count (Suc fuel) w =
     (case res_lru w t of
        [] \<Rightarrow> Some w
      | evict_res # _ \<Rightarrow> do {
          (w, ret) \<leftarrow> evict_round ask t evict_res w;
          (case ret of
             Inr _ \<Rightarrow> evict_type_loop ask t err_count fuel w
           | Inl _ \<Rightarrow>
               if err_count + 1 > VMW_RES_EVICT_ERR_COUNT then Some w
               else evict_type_loop ask t (err_count + 1) fuel w) })"

definition vmw_resource_evict_type :: "'d res_oracle \<Rightarrow> nat \<Rightarrow> vmw_res_type \<Rightarrow> 'd res_world \<Rightarrow> 'd res_world option" where
  "vmw_resource_evict_type ask fuel t w = evict_type_loop ask t 0 fuel w"

definition res_types :: "vmw_res_type list" where
  "res_types = [vmw_res_context, vmw_res_surface, vmw_res_stream, vmw_res_shader, vmw_res_dx_context,
     vmw_res_cotable, vmw_res_view]"

fun evict_types :: "'d res_oracle \<Rightarrow> nat \<Rightarrow> vmw_res_type list \<Rightarrow> 'd res_world \<Rightarrow> 'd res_world option" where
  "evict_types ask fuel [] w = Some w"
| "evict_types ask fuel (t # ts) w = Option.bind (vmw_resource_evict_type ask fuel t w) (evict_types ask fuel ts)"

definition vmw_resource_evict_all :: "'d res_oracle \<Rightarrow> nat \<Rightarrow> 'd res_world \<Rightarrow> 'd res_world option" where
  "vmw_resource_evict_all ask fuel w = evict_types ask fuel res_types w"

fun unbind_all :: "'d res_oracle \<Rightarrow> nat \<Rightarrow> nat list \<Rightarrow> 'd res_world \<Rightarrow> 'd res_world option" where
  "unbind_all ask bo [] w = Some w"
| "unbind_all ask bo (r # rs) w = do {
     res \<leftarrow> ress w r;
     if \<not> rf_unbind (res_func res) then unbind_all ask bo rs w
     else (case consult ask (Q_Unbind r True bo) w of
         (_, w) \<Rightarrow> unbind_all ask bo rs (mob_del r (res\<lparr>res_backup_dirty := True, res_dirty := False\<rparr>) w)) }"

definition vmw_resource_unbind_list :: "'d res_oracle \<Rightarrow> nat \<Rightarrow> 'd res_world \<Rightarrow> 'd res_world option" where
  "vmw_resource_unbind_list ask bo w =
     unbind_all ask bo
       (filter (\<lambda>r. case ress w r of None \<Rightarrow> False | Some res \<Rightarrow> res_mob res = Some bo) (mob_order w)) w"

section \<open>Pinning\<close>

definition pin_backup :: "'d res_oracle \<Rightarrow> vmw_resource \<Rightarrow> 'd res_world \<Rightarrow> 'd res_world \<times> unit kres" where
  \<comment> \<open>the backup buffer is made resident, if it is not pinned, and pinned\<close>
  "pin_backup ask res w =
     (case res_backup res of
        None \<Rightarrow> (w, Inr ())
      | Some bo \<Rightarrow>
          (case (if bo_pins w bo = 0 then consult ask (Q_Validate_Bo bo) w else (Inr 0, w)) of
             (Inl e, w) \<Rightarrow> (w, Inl e)
           | (Inr _, w) \<Rightarrow> (w\<lparr>bo_pins := (bo_pins w)(bo := bo_pins w bo + 1)\<rparr>, Inr ())))"

definition pin_first ::
  "'d res_oracle \<Rightarrow> nat \<Rightarrow> nat \<Rightarrow> vmw_resource \<Rightarrow> 'd res_world \<Rightarrow> ('d res_world \<times> unit kres) option" where
  "pin_first ask fuel r res w =
     (if res_pin_count res = 0
      then (case pin_backup ask res w of
              (w, Inl e) \<Rightarrow> Some (w, Inl e)
            | (w, Inr _) \<Rightarrow> vmw_resource_validate ask fuel r w)
      else Some (w, Inr ()))"

definition vmw_resource_pin :: "'d res_oracle \<Rightarrow> nat \<Rightarrow> nat \<Rightarrow> 'd res_world \<Rightarrow> ('d res_world \<times> unit kres) option" where
  \<comment> \<open>the result of \<open>ttm_write_lock\<close> is not tested\<close>
  "vmw_resource_pin ask fuel r w = do {
     w \<leftarrow> Some (snd (consult ask Q_Write_Lock w));
     (w, ret) \<leftarrow> vmw_resource_reserve ask r False w;
     (case ret of
        Inl e \<Rightarrow> Some (w, Inl e)
      | Inr _ \<Rightarrow> do {
          res \<leftarrow> ress w r;
          (w, ret) \<leftarrow> pin_first ask fuel r res w;
          res \<leftarrow> ress w r;
          w \<leftarrow> Some (if ret = Inr () then put_res r (res\<lparr>res_pin_count := res_pin_count res + 1\<rparr>) w else w);
          w \<leftarrow> vmw_resource_unreserve r False None 0 w;
          Some (w, ret) }) }"

definition vmw_resource_unpin :: "'d res_oracle \<Rightarrow> nat \<Rightarrow> 'd res_world \<Rightarrow> 'd res_world option" where
  "vmw_resource_unpin ask r w = do {
     (w, ret) \<leftarrow> vmw_resource_reserve ask r True w;
     res \<leftarrow> ress w r;
     w \<leftarrow> Some (put_res r (res\<lparr>res_pin_count := (if res_pin_count res = 0 then 2 ^ 64 - 1 else res_pin_count res - 1)\<rparr>) w);
     w \<leftarrow> Some (case res_backup res of
            Some bo \<Rightarrow> if res_pin_count res = 1 then w\<lparr>bo_pins := (bo_pins w)(bo := bo_pins w bo - 1)\<rparr> else w
          | None \<Rightarrow> w);
     vmw_resource_unreserve r False None 0 w }"

section \<open>Invariant\<close>

text \<open>
  Resources on a list of evictable resources have its type, an id, and no pin. The references to a backup
  buffer are those of the resources it backs and \<open>ext bo\<close> others.
\<close>

definition evictable :: "vmw_res_type \<Rightarrow> vmw_resource \<Rightarrow> bool" where
  "evictable t res \<longleftrightarrow> rf_type (res_func res) = t \<and> rf_may_evict (res_func res) \<and> res_id res \<noteq> None \<and> res_pin_count res = 0"

definition backs :: "nat \<Rightarrow> vmw_resource \<Rightarrow> bool" where
  "backs bo res \<longleftrightarrow> res_backup res = Some bo"

definition res_inv :: "(nat \<Rightarrow> nat) \<Rightarrow> 'd res_world \<Rightarrow> bool" where
  "res_inv ext w \<longleftrightarrow>
     finite (dom (ress w))
     \<and> (\<forall>t. distinct (res_lru w t) \<and> (\<forall>r\<in>set (res_lru w t). \<exists>res. ress w r = Some res \<and> evictable t res))
     \<and> (\<forall>bo. bo_refs w bo = count_map (backs bo) (ress w) + ext bo)
     \<and> (\<forall>r res. ress w r = Some res \<longrightarrow> 0 < res_kref res)"

definition off_lru :: "nat \<Rightarrow> 'd res_world \<Rightarrow> bool" where
  "off_lru r w \<longleftrightarrow> (\<forall>t. r \<notin> set (res_lru w t))"

named_theorems world_simps \<open>what the small updates of the state leave alone\<close>

lemma put_res_sel [simp, world_simps]:
  "ress (put_res r res w) = (ress w)(r \<mapsto> res)" "res_lru (put_res r res w) = res_lru w"
  "bo_refs (put_res r res w) = bo_refs w" "mob_order (put_res r res w) = mob_order w"
  "bo_size (put_res r res w) = bo_size w" "bo_pins (put_res r res w) = bo_pins w" "env (put_res r res w) = env w"
  by (simp_all add: put_res_def)

lemma lru_del_sel [simp, world_simps]:
  "ress (lru_del r w) = ress w" "res_lru (lru_del r w) t = remove1 r (res_lru w t)" "bo_refs (lru_del r w) = bo_refs w"
  "bo_size (lru_del r w) = bo_size w" "bo_pins (lru_del r w) = bo_pins w"
  by (simp_all add: lru_del_def)

lemma lru_add_sel [simp, world_simps]:
  "ress (lru_add_tail t r w) = ress w" "bo_refs (lru_add_tail t r w) = bo_refs w"
  "res_lru (lru_add_tail t r w) = (res_lru w)(t := res_lru w t @ [r])"
  by (simp_all add: lru_add_tail_def)

lemma mob_sel [simp, world_simps]:
  "ress (mob_del r res w) = (ress w)(r \<mapsto> res\<lparr>res_mob := None\<rparr>)" "res_lru (mob_del r res w) = res_lru w"
  "bo_refs (mob_del r res w) = bo_refs w"
  "ress (mob_add r res bo w) = (ress w)(r \<mapsto> res\<lparr>res_mob := Some bo\<rparr>)" "res_lru (mob_add r res bo w) = res_lru w"
  "bo_refs (mob_add r res bo w) = bo_refs w"
  by (simp_all add: mob_del_def mob_add_def)

lemma bo_get_sel [simp, world_simps]:
  "ress (bo_get bo w) = ress w" "res_lru (bo_get bo w) = res_lru w" "bo_refs (bo_get bo w) = (bo_refs w)(bo := bo_refs w bo + 1)"
  by (simp_all add: bo_get_def)

lemma consult_sel:
  "consult ask q w = (a, w') \<Longrightarrow> ress w' = ress w \<and> res_lru w' = res_lru w \<and> bo_refs w' = bo_refs w \<and> bo_pins w' = bo_pins w
     \<and> mob_order w' = mob_order w \<and> bo_size w' = bo_size w"
  by (auto simp: consult_def split: prod.splits)

lemma res_inv_cong:
  "ress w' = ress w \<Longrightarrow> res_lru w' = res_lru w \<Longrightarrow> bo_refs w' = bo_refs w \<Longrightarrow> res_inv ext w' = res_inv ext w"
  by (simp add: res_inv_def)

lemma consult_inv: "consult ask q w = (a, w') \<Longrightarrow> res_inv ext w' = res_inv ext w"
  by (drule consult_sel) (intro res_inv_cong; simp)

lemma put_res_inv:
  assumes inv: "res_inv ext w" and r: "ress w r = Some res" and b: "res_backup res' = res_backup res" and k: "0 < res_kref res'"
    and l: "\<And>t. r \<in> set (res_lru w t) \<Longrightarrow> evictable t res'"
  shows "res_inv ext (put_res r res' w)"
proof -
  have "count_map (backs bo) ((ress w)(r \<mapsto> res')) = count_map (backs bo) (ress w)" for bo
    using count_map_replace [of "ress w" r res "backs bo" res'] inv r b by (simp add: res_inv_def backs_def)
  with inv k l show ?thesis by (auto simp: res_inv_def)
qed

lemma mob_inv:
  assumes "res_inv ext w" "ress w r = Some res" "res_backup res' = res_backup res" "0 < res_kref res'"
    and "\<And>t. r \<in> set (res_lru w t) \<Longrightarrow> evictable t res'"
  shows "res_inv ext (mob_del r res' w)" "res_inv ext (mob_add r res' bo w)"
proof -
  have "res_inv ext (put_res r (res'\<lparr>res_mob := None\<rparr>) w)" "res_inv ext (put_res r (res'\<lparr>res_mob := Some bo\<rparr>) w)"
    using assms by (intro put_res_inv [OF assms(1,2)]; simp add: evictable_def)+
  then show "res_inv ext (mob_del r res' w)" "res_inv ext (mob_add r res' bo w)"
    by (simp_all add: res_inv_def)
qed

lemma drop_backup_inv:
  assumes inv: "res_inv ext w" and r: "ress w r = Some res" and b: "res_backup res = Some bo"
    and b': "res_backup res' = None" and k: "0 < res_kref res'" and l: "\<And>t. r \<in> set (res_lru w t) \<Longrightarrow> evictable t res'"
  shows "res_inv (ext(bo := ext bo + 1)) (put_res r res' w)"
proof -
  have c: "count_map (backs bo') ((ress w)(r \<mapsto> res')) + (if bo' = bo then 1 else 0) = count_map (backs bo') (ress w)" for bo'
    using count_map_replace [of "ress w" r res "backs bo'" res'] inv r b b' by (auto simp: res_inv_def backs_def split: if_splits)
  have "bo_refs w bo' = count_map (backs bo') ((ress w)(r \<mapsto> res')) + (ext(bo := ext bo + 1)) bo'" for bo'
    using inv c [of bo'] by (auto simp: res_inv_def)
  with inv k l show ?thesis by (auto simp: res_inv_def)
qed

lemma set_backup_inv:
  assumes inv: "res_inv ext w" and r: "ress w r = Some res" and b: "res_backup res = None"
    and b': "res_backup res' = Some bo" and k: "0 < res_kref res'" and l: "\<And>t. r \<in> set (res_lru w t) \<Longrightarrow> evictable t res'"
  shows "res_inv ext (put_res r res' (bo_get bo w))"
proof -
  have c: "count_map (backs bo') ((ress w)(r \<mapsto> res')) = count_map (backs bo') (ress w) + (if bo' = bo then 1 else 0)" for bo'
    using count_map_replace [of "ress w" r res "backs bo'" res'] inv r b b' by (auto simp: res_inv_def backs_def split: if_splits)
  with inv k l show ?thesis by (auto simp: res_inv_def)
qed

lemma bo_get_inv: "res_inv ext w \<Longrightarrow> res_inv (ext(bo := ext bo + 1)) (bo_get bo w)"
  by (auto simp: res_inv_def)

lemma bo_put_inv:
  assumes "res_inv (ext(bo := ext bo + 1)) w"
  shows "\<exists>w'. bo_put bo w = Some w' \<and> res_inv ext w' \<and> ress w' = ress w \<and> res_lru w' = res_lru w"
proof -
  have "bo_refs w bo = count_map (backs bo) (ress w) + (ext bo + 1)" using assms by (simp add: res_inv_def)
  with assms show ?thesis by (auto simp: bo_put_def res_inv_def)
qed

lemma lru_del_inv:
  assumes "res_inv ext w"
  shows "res_inv ext (lru_del r w)"
proof -
  have "distinct (remove1 r (res_lru w t))" "set (remove1 r (res_lru w t)) \<subseteq> set (res_lru w t)" for t
    using assms by (simp_all add: res_inv_def set_remove1_subset)
  with assms show ?thesis unfolding res_inv_def by (simp add: subset_iff)
qed

lemma lru_del_off: "res_inv ext w \<Longrightarrow> off_lru r (lru_del r w)"
  by (auto simp: off_lru_def res_inv_def)

lemma lru_add_inv:
  assumes "res_inv ext w" "off_lru r w" "ress w r = Some res" "evictable t res"
  shows "res_inv ext (lru_add_tail t r w)"
  using assms by (auto simp: res_inv_def off_lru_def)

text \<open>
  What an operation on the reserved resource \<open>r\<close> may change: the record of \<open>r\<close>, without its references, its
  pins and its type. The lists stay.
\<close>

definition only_res :: "nat \<Rightarrow> 'd res_world \<Rightarrow> 'd res_world \<Rightarrow> bool" where
  "only_res r w w' \<longleftrightarrow> res_lru w' = res_lru w \<and> (\<forall>q. q \<noteq> r \<longrightarrow> ress w' q = ress w q)
     \<and> (\<exists>res res'. ress w r = Some res \<and> ress w' r = Some res' \<and> res_kref res' = res_kref res
          \<and> res_func res' = res_func res \<and> res_pin_count res' = res_pin_count res)"

definition id_of :: "nat \<Rightarrow> 'd res_world \<Rightarrow> nat option" where
  "id_of r w = Option.bind (ress w r) res_id"

lemma id_of_Some: "ress w r = Some res \<Longrightarrow> id_of r w = res_id res"
  by (simp add: id_of_def)

lemma only_res_refl: "ress w r = Some res \<Longrightarrow> only_res r w w"
  by (simp add: only_res_def)

lemma only_res_trans: "only_res r w w' \<Longrightarrow> only_res r w' w'' \<Longrightarrow> only_res r w w''"
  by (auto simp: only_res_def)

lemma only_res_off: "only_res r w w' \<Longrightarrow> off_lru q w' = off_lru q w"
  by (simp add: only_res_def off_lru_def)

lemma only_res_update:
  "ress w r = Some res \<Longrightarrow> ress w' = (ress w)(r \<mapsto> res') \<Longrightarrow> res_lru w' = res_lru w \<Longrightarrow> res_kref res' = res_kref res
     \<Longrightarrow> res_func res' = res_func res \<Longrightarrow> res_pin_count res' = res_pin_count res \<Longrightarrow> only_res r w w'"
  by (simp add: only_res_def)

lemma only_res_same: "ress w r = Some res \<Longrightarrow> ress w' = ress w \<Longrightarrow> res_lru w' = res_lru w \<Longrightarrow> only_res r w w'"
  by (simp add: only_res_def)

lemma off_lru_evictable: "off_lru r w \<Longrightarrow> r \<in> set (res_lru w t) \<Longrightarrow> P"
  by (simp add: off_lru_def)

lemma inv_kref: "res_inv ext w \<Longrightarrow> ress w r = Some res \<Longrightarrow> 0 < res_kref res"
  by (simp add: res_inv_def)

lemma bo_size_inv: "res_inv ext (w\<lparr>bo_size := f\<rparr>) = res_inv ext w" "off_lru r (w\<lparr>bo_size := f\<rparr>) = off_lru r w"
  by (simp_all add: res_inv_def off_lru_def)

lemma buf_alloc_ok:
  assumes inv: "res_inv ext w" and r: "ress w r = Some res" and b: "res_backup res = None" and off: "off_lru r w"
  shows "\<exists>w' ret. vmw_resource_buf_alloc ask r w = Some (w', ret) \<and> res_inv ext w' \<and> only_res r w w' \<and> id_of r w' = id_of r w
           \<and> (ret = Inr () \<longrightarrow> (\<exists>res' bo. ress w' r = Some res' \<and> res_backup res' = Some bo))"
proof -
  obtain a w1 where c: "consult ask (Q_Alloc_Backup r) w = (a, w1)" by fastforce
  note s = consult_sel [OF c] and i = consult_inv [OF c, of ext]
  show ?thesis
  proof (cases a)
    case (Inl e)
    with c r b s i inv show ?thesis by (auto simp: vmw_resource_buf_alloc_def Let_def id_of_def intro: only_res_same)
  next
    case (Inr bo)
    define w2 where "w2 = put_res r (res\<lparr>res_backup := Some bo\<rparr>) (bo_get bo (w1\<lparr>bo_size :=
        (bo_size w1)(bo := (res_backup_size res + (PAGE_SIZE - 1)) div PAGE_SIZE * PAGE_SIZE)\<rparr>))"
    have "res_inv ext w2" unfolding w2_def
      using s i inv r b off inv_kref [OF inv r]
      by (intro set_backup_inv [of _ _ _ res]) (auto simp: bo_size_inv off_lru_def)
    moreover have "only_res r w w2" unfolding w2_def using r s by (simp add: only_res_def)
    ultimately show ?thesis using Inr c r b by (auto simp: vmw_resource_buf_alloc_def Let_def w2_def id_of_def)
  qed
qed

lemma destroy_ok:
  assumes inv: "res_inv ext w" and r: "ress w r = Some res" and off: "off_lru r w"
  shows "\<exists>w' ret. res_destroy ask r w = Some (w', ret) \<and> res_inv ext w' \<and> only_res r w w'
           \<and> id_of r w' = (case ret of Inr _ \<Rightarrow> None | Inl _ \<Rightarrow> id_of r w)"
proof -
  obtain a w1 where c: "consult ask (Q_Destroy r) w = (a, w1)" by fastforce
  note s = consult_sel [OF c] and i = consult_inv [OF c, of ext]
  have "res_inv ext (put_res r (res\<lparr>res_id := None\<rparr>) w1)"
    using s i inv r off inv_kref [OF inv r] by (intro put_res_inv [of _ _ _ res]) (auto simp: off_lru_def)
  with c r s i inv show ?thesis
    by (cases a) (auto simp: res_destroy_def vmw_resource_release_id_def id_of_def only_res_def)
qed

lemma drop_dirty_ok:
  assumes inv: "res_inv ext w" and r: "ress w r = Some res" and off: "off_lru r w"
  shows "\<exists>w'. drop_dirty_backup dirty r w = Some w' \<and> res_inv ext w' \<and> only_res r w w' \<and> id_of r w' = id_of r w"
proof (cases "dirty \<and> res_backup res \<noteq> None")
  case True
  then obtain bo where b: "res_backup res = Some bo" by auto
  have "res_inv (ext(bo := ext bo + 1)) (put_res r (res\<lparr>res_backup := None\<rparr>) w)"
    using inv_kref [OF inv r] off by (intro drop_backup_inv [OF inv r b]) (auto simp: off_lru_def)
  from bo_put_inv [OF this] True b r show ?thesis by (auto simp: drop_dirty_backup_def id_of_def only_res_def)
next
  case False
  with inv r show ?thesis by (auto simp: drop_dirty_backup_def intro: only_res_refl split: option.splits)
qed

lemma check_buffer_tail_ok:
  assumes inv: "res_inv ext w" and r: "ress w r = Some res" and off: "off_lru r w" and b: "res_backup res = Some bo"
  shows "\<exists>w' ret. vmw_resource_check_buffer ask r w = Some (w', ret) \<and> only_res r w w' \<and> id_of r w' = id_of r w
           \<and> (case ret of Inr bo \<Rightarrow> res_inv (ext(bo := ext bo + 1)) w' | Inl _ \<Rightarrow> res_inv ext w')"
proof -
  define w0 where "w0 = bo_get bo w"
  have w0: "ress w0 = ress w" "res_lru w0 = res_lru w" by (simp_all add: w0_def)
  obtain a w1 where c1: "consult ask (Q_Reserve_Bo bo) w0 = (a, w1)" by fastforce
  obtain a' w2 where c2: "consult ask (Q_Validate_Bo bo) w1 = (a', w2)" by fastforce
  note s1 = consult_sel [OF c1] and s2 = consult_sel [OF c2]
  have i0: "res_inv (ext(bo := ext bo + 1)) w0" using bo_get_inv [OF inv] by (simp add: w0_def)
  then have i1: "res_inv (ext(bo := ext bo + 1)) w1" and i2: "res_inv (ext(bo := ext bo + 1)) w2"
    using consult_inv [OF c1] consult_inv [OF c2] by simp_all
  obtain w1' where p1: "bo_put bo w1 = Some w1'" "res_inv ext w1'" "ress w1' = ress w" "res_lru w1' = res_lru w"
    using bo_put_inv [OF i1] s1 w0 by auto
  obtain w2' where p2: "bo_put bo w2 = Some w2'" "res_inv ext w2'" "ress w2' = ress w" "res_lru w2' = res_lru w"
    using bo_put_inv [OF i2] s1 s2 w0 by auto
  obtain w3 where d: "drop_dirty_backup (res_backup_dirty res) r w2' = Some w3" "res_inv ext w3" "only_res r w2' w3"
      "id_of r w3 = id_of r w2'"
    using drop_dirty_ok [OF p2(2), of r res] p2 r off by (auto simp: off_lru_def)
  have "only_res r w w3" "id_of r w3 = id_of r w"
    using d p2 only_res_trans [of r w w2' w3] r by (auto simp: only_res_def id_of_def)
  then show ?thesis
    using r b c1 c2 p1 p2 d i1 i2 s1 s2 w0
    by (cases a; cases a') (auto simp: vmw_resource_check_buffer_def w0_def [symmetric] only_res_def id_of_def)
qed

lemma check_buffer_ok:
  assumes inv: "res_inv ext w" and r: "ress w r = Some res" and off: "off_lru r w"
  shows "\<exists>w' ret. vmw_resource_check_buffer ask r w = Some (w', ret) \<and> only_res r w w' \<and> id_of r w' = id_of r w
           \<and> (case ret of Inr bo \<Rightarrow> res_inv (ext(bo := ext bo + 1)) w' | Inl _ \<Rightarrow> res_inv ext w')"
proof (cases "res_backup res")
  case None
  obtain w1 ret where a: "vmw_resource_buf_alloc ask r w = Some (w1, ret)" "res_inv ext w1" "only_res r w w1"
      "id_of r w1 = id_of r w" "ret = Inr () \<longrightarrow> (\<exists>res' bo. ress w1 r = Some res' \<and> res_backup res' = Some bo)"
    using buf_alloc_ok [OF inv r None off] by blast
  show ?thesis
  proof (cases ret)
    case (Inl e)
    with a r None show ?thesis by (auto simp: vmw_resource_check_buffer_def)
  next
    case (Inr u)
    with a(5) obtain res' bo where b: "ress w1 r = Some res'" "res_backup res' = Some bo" by auto
    have "vmw_resource_check_buffer ask r w = vmw_resource_check_buffer ask r w1"
      using r None a b Inr by (simp add: vmw_resource_check_buffer_def)
    then show ?thesis
      using check_buffer_tail_ok [OF a(2) b(1) _ b(2), of ask] off a only_res_off [OF a(3)]
      by (force intro: only_res_trans)
  qed
qed (use check_buffer_tail_ok assms in blast)

lemma put_same_ok:
  assumes inv: "res_inv ext w" and r: "ress w r = Some res" and off: "off_lru r w" and same: "res_backup res' = res_backup res"
      "res_kref res' = res_kref res" "res_func res' = res_func res" "res_pin_count res' = res_pin_count res"
  shows "res_inv ext (put_res r res' w)" "only_res r w (put_res r res' w)"
        "res_inv ext (mob_del r res' w)" "only_res r w (mob_del r res' w)"
        "res_inv ext (mob_add r res' bo w)" "only_res r w (mob_add r res' bo w)"
  using inv_kref [OF inv r] off same r
  by (auto intro!: put_res_inv [OF inv r] mob_inv [OF inv r] simp: only_res_def off_lru_def)

lemma evict_tail_ok:
  assumes inv: "res_inv ext w" and r: "ress w r = Some res" and off: "off_lru r w"
  shows "\<exists>w1 ret w2 res1. res_destroy ask r w = Some (w1, ret) \<and> ress w1 r = Some res1
           \<and> w2 = put_res r (res1\<lparr>res_backup_dirty := True, res_dirty := False\<rparr>) w1
           \<and> res_inv ext w2 \<and> only_res r w w2 \<and> id_of r w2 = (case ret of Inr _ \<Rightarrow> None | Inl _ \<Rightarrow> id_of r w)"
proof -
  obtain w1 ret where d: "res_destroy ask r w = Some (w1, ret)" "res_inv ext w1" "only_res r w w1"
      "id_of r w1 = (case ret of Inr _ \<Rightarrow> None | Inl _ \<Rightarrow> id_of r w)"
    using destroy_ok [OF inv r off] by blast
  then obtain res1 where res1: "ress w1 r = Some res1" by (auto simp: only_res_def)
  have off1: "off_lru r w1" using only_res_off [OF d(3)] off by simp
  have "res_inv ext (put_res r (res1\<lparr>res_backup_dirty := True, res_dirty := False\<rparr>) w1)"
       "only_res r w1 (put_res r (res1\<lparr>res_backup_dirty := True, res_dirty := False\<rparr>) w1)"
    by (intro put_same_ok [OF d(2) res1 off1]; simp)+
  with d res1 show ?thesis by (auto simp: id_of_def intro: only_res_trans)
qed

lemma evict_unbind_ok:
  assumes inv: "res_inv ext w" and r: "ress w r = Some res" and off: "off_lru r w" and u: "evict_unbind ask r res bo w = (w', ret)"
  shows "res_inv ext w'" "only_res r w w'" "id_of r w' = id_of r w"
proof -
  obtain a w1 where c: "consult ask (Q_Unbind r (res_dirty res) bo) w = (a, w1)" by fastforce
  note s = consult_sel [OF c] and i = consult_inv [OF c, of ext]
  have "res_inv ext (mob_del r res w1)" using s i inv off r by (intro put_same_ok [of _ _ _ res]) (simp_all add: off_lru_def)
  with c s i inv r u show "res_inv ext w'" "only_res r w w'" "id_of r w' = id_of r w"
    by (auto simp: evict_unbind_def id_of_def only_res_def split: if_splits sum.splits)
qed

lemma do_evict_ok:
  assumes inv: "res_inv ext w" and r: "ress w r = Some res" and off: "off_lru r w" and may: "rf_may_evict (res_func res)"
  shows "\<exists>w' ret. vmw_resource_do_evict ask r w = Some (w', ret) \<and> res_inv ext w' \<and> only_res r w w'
           \<and> id_of r w' = (case ret of Inr _ \<Rightarrow> None | Inl _ \<Rightarrow> id_of r w)"
proof -
  obtain w1 ret1 where k: "vmw_resource_check_buffer ask r w = Some (w1, ret1)" "only_res r w w1" "id_of r w1 = id_of r w"
      "case ret1 of Inr bo \<Rightarrow> res_inv (ext(bo := ext bo + 1)) w1 | Inl _ \<Rightarrow> res_inv ext w1"
    using check_buffer_ok [OF inv r off] by blast
  show ?thesis
  proof (cases ret1)
    case (Inl e)
    with k r may show ?thesis by (auto simp: vmw_resource_do_evict_def)
  next
    case (Inr bo)
    let ?ext = "ext(bo := ext bo + 1)"
    obtain res1 where r1: "ress w1 r = Some res1" using k(2) by (auto simp: only_res_def)
    have i1: "res_inv ?ext w1" and off1: "off_lru r w1" using k Inr off only_res_off [OF k(2)] by simp_all
    obtain w2 ret2 where u2: "evict_unbind ask r res1 bo w1 = (w2, ret2)" by fastforce
    note u = evict_unbind_ok [OF i1 r1 off1 u2]
    note i2 = u(1) and o2 = u(2) and id2 = u(3)
    obtain res2 where r2: "ress w2 r = Some res2" using o2 by (auto simp: only_res_def)
    have off2: "off_lru r w2" using only_res_off [OF o2] off1 by simp
    obtain w3 ret3 res3 where e: "res_destroy ask r w2 = Some (w3, ret3)" "ress w3 r = Some res3"
        "res_inv ?ext (put_res r (res3\<lparr>res_backup_dirty := True, res_dirty := False\<rparr>) w3)"
        "only_res r w2 (put_res r (res3\<lparr>res_backup_dirty := True, res_dirty := False\<rparr>) w3)"
        "id_of r (put_res r (res3\<lparr>res_backup_dirty := True, res_dirty := False\<rparr>) w3)
           = (case ret3 of Inr _ \<Rightarrow> None | Inl _ \<Rightarrow> id_of r w2)"
      using evict_tail_ok [OF i2 r2 off2] by blast
    define w4 ret4 where "w4 = (case ret2 of Inl _ \<Rightarrow> w2 | Inr _ \<Rightarrow> put_res r (res3\<lparr>res_backup_dirty := True, res_dirty := False\<rparr>) w3)"
      and "ret4 = (case ret2 of Inl e \<Rightarrow> Inl e | Inr _ \<Rightarrow> ret3)"
    have w4: "res_inv ?ext w4" "only_res r w w4" "id_of r w4 = (case ret4 of Inr _ \<Rightarrow> None | Inl _ \<Rightarrow> id_of r w)"
      using e i2 o2 id2 k(2,3) by (auto simp: w4_def ret4_def split: sum.splits intro: only_res_trans)
    obtain w5 where "bo_put bo w4 = Some w5" "res_inv ext w5" "ress w5 = ress w4" "res_lru w5 = res_lru w4"
      using bo_put_inv [OF w4(1)] by blast
    moreover have "vmw_resource_do_evict ask r w = map_option (\<lambda>w. (w, ret4)) (bo_put bo w4)"
      using r may k(1) Inr r1 e(1,2) u2 by (cases ret2) (simp_all add: vmw_resource_do_evict_def w4_def ret4_def)
    ultimately show ?thesis using w4(2,3) by (auto simp: only_res_def id_of_def)
  qed
qed

definition backup_of :: "nat \<Rightarrow> 'd res_world \<Rightarrow> nat option" where
  "backup_of r w = Option.bind (ress w r) res_backup"

lemma validate_create_ok:
  assumes inv: "res_inv ext w" and r: "ress w r = Some res" and off: "off_lru r w" and u: "validate_create ask r res w = (w', ret)"
  shows "res_inv ext w'" "only_res r w w'" "backup_of r w' = backup_of r w" "ret = Inr () \<Longrightarrow> id_of r w' \<noteq> None"
proof -
  obtain a w1 where c: "consult ask (Q_Create r) w = (a, w1)" by fastforce
  note s = consult_sel [OF c] and i = consult_inv [OF c, of ext]
  have "res_inv ext (put_res r (res\<lparr>res_id := Some n\<rparr>) w1)" for n
    using s i inv off r by (intro put_same_ok [of _ _ _ res]) (simp_all add: off_lru_def)
  with c s i inv r u show "res_inv ext w'" "only_res r w w'" "backup_of r w' = backup_of r w" "ret = Inr () \<Longrightarrow> id_of r w' \<noteq> None"
    by (auto simp: validate_create_def id_of_def backup_of_def only_res_def split: if_splits sum.splits)
qed

lemma destroy_backup: "res_destroy ask r w = Some (w', ret) \<Longrightarrow> backup_of r w' = backup_of r w"
  by (auto simp: res_destroy_def vmw_resource_release_id_def consult_def backup_of_def split: prod.splits sum.splits bind_splits)

lemma validate_bind_ok:
  assumes inv: "res_inv ext w" and r: "ress w r = Some res" and off: "off_lru r w" and b: "val_bo = res_backup res"
  shows "\<exists>w' ret. validate_bind ask r val_bo res w = Some (w', ret) \<and> res_inv ext w' \<and> only_res r w w'
           \<and> backup_of r w' = backup_of r w \<and> (ret = Inr () \<longrightarrow> id_of r w' = id_of r w)"
proof (cases "val_bo \<noteq> None \<and> rf_bind (res_func res) \<and> (\<not> rf_needs_backup (res_func res) \<or> res_mob res = None)")
  case True
  then obtain bo where bo: "res_backup res = Some bo" using b by auto
  obtain a w1 where c: "consult ask (Q_Bind r bo) w = (a, w1)" by fastforce
  note s = consult_sel [OF c] and i = consult_inv [OF c, of ext]
  have i1: "res_inv ext w1" and r1: "ress w1 r = Some res" and off1: "off_lru r w1" using s i inv r off by (simp_all add: off_lru_def)
  have o1: "only_res r w w1" "backup_of r w1 = backup_of r w" using s r by (simp_all add: only_res_def backup_of_def)
  show ?thesis
  proof (cases a)
    case (Inl e)
    obtain w2 ret where d: "res_destroy ask r w1 = Some (w2, ret)" "res_inv ext w2" "only_res r w1 w2"
      using destroy_ok [OF i1 r1 off1] by blast
    with True Inl c bo b o1 destroy_backup [OF d(1)] show ?thesis
      by (auto simp: validate_bind_def intro: only_res_trans)
  next
    case (Inr n)
    let ?res = "if n = 0 then res else res\<lparr>res_backup_dirty := False\<rparr>"
    have "res_inv ext (put_res r ?res w1)" "res_inv ext (mob_add r ?res bo w1)"
      by (intro put_same_ok [OF i1 r1 off1]; simp)+
    with True Inr c bo b r r1 o1 s show ?thesis
      by (auto simp: validate_bind_def Let_def only_res_def backup_of_def id_of_def)
  qed
qed (use inv r only_res_refl in \<open>auto simp: validate_bind_def split: option.splits\<close>)

lemma do_validate_ok:
  assumes inv: "res_inv ext w" and r: "ress w r = Some res" and off: "off_lru r w" and b: "val_bo = backup_of r w"
  shows "\<exists>w' ret. vmw_resource_do_validate ask r val_bo w = Some (w', ret) \<and> res_inv ext w' \<and> only_res r w w'
           \<and> backup_of r w' = backup_of r w \<and> (ret = Inr () \<longrightarrow> id_of r w' \<noteq> None)"
proof -
  obtain w1 ret1 where c: "validate_create ask r res w = (w1, ret1)" by fastforce
  note v = validate_create_ok [OF inv r off c]
  show ?thesis
  proof (cases ret1)
    case (Inl e)
    with r c v show ?thesis by (auto simp: vmw_resource_do_validate_def)
  next
    case (Inr u)
    obtain res1 where r1: "ress w1 r = Some res1" using v(2) by (auto simp: only_res_def)
    have off1: "off_lru r w1" using only_res_off [OF v(2)] off by simp
    obtain w2 ret2 where w2: "validate_bind ask r val_bo res1 w1 = Some (w2, ret2)" "res_inv ext w2" "only_res r w1 w2"
        "backup_of r w2 = backup_of r w1" "ret2 = Inr () \<longrightarrow> id_of r w2 = id_of r w1"
      using validate_bind_ok [OF v(1) r1 off1, of val_bo ask] b v(3) r1 by (auto simp: backup_of_def)
    obtain res2 where r2: "ress w2 r = Some res2" using w2(3) by (auto simp: only_res_def)
    have off2: "off_lru r w2" using only_res_off [OF w2(3)] off1 by simp
    have "res_inv ext (put_res r (res2\<lparr>res_dirty := True\<rparr>) w2)" "only_res r w2 (put_res r (res2\<lparr>res_dirty := True\<rparr>) w2)"
      by (intro put_same_ok [OF w2(2) r2 off2]; simp)+
    with r c Inr r1 w2 r2 v show ?thesis
      by (cases ret2) (auto simp: vmw_resource_do_validate_def backup_of_def id_of_def dest: only_res_trans)
  qed
qed

lemma inv_lruD:
  assumes "res_inv ext w" "q \<in> set (res_lru w t)"
  obtains res where "ress w q = Some res" "evictable t res"
proof -
  from assms have "\<exists>res. ress w q = Some res \<and> evictable t res" unfolding res_inv_def by blast
  then show thesis using that by blast
qed

lemma inv_lru_unique:
  assumes "res_inv ext w" "q \<in> set (res_lru w t)" "q \<in> set (res_lru w t')"
  shows "t' = t"
proof -
  obtain res where "ress w q = Some res" "evictable t res" using assms(1,2) by (rule inv_lruD)
  moreover obtain res' where "ress w q = Some res'" "evictable t' res'" using assms(1,3) by (rule inv_lruD)
  ultimately show ?thesis by (simp add: evictable_def)
qed

text \<open>
  A round evicts the head of the list, or moves it to the tail. No other resource changes, and the references
  are as before.
\<close>

lemma evict_round_ok:
  assumes inv: "res_inv ext w" and l: "res_lru w t = q # l"
  shows "\<exists>w' ret. evict_round ask t q w = Some (w', ret) \<and> res_inv ext w'
           \<and> res_lru w' = (res_lru w)(t := l @ (case ret of Inr _ \<Rightarrow> [] | Inl _ \<Rightarrow> [q]))
           \<and> (\<forall>p. p \<noteq> q \<longrightarrow> ress w' p = ress w p)
           \<and> id_of q w' = (case ret of Inr _ \<Rightarrow> None | Inl _ \<Rightarrow> id_of q w)"
proof -
  obtain res where r: "ress w q = Some res" and ev: "evictable t res" using inv l by (auto elim: inv_lruD [of ext w q t])
  define w1 where "w1 = lru_del q (put_res q (res\<lparr>res_kref := res_kref res + 1\<rparr>) w)"
  have i0: "res_inv ext (put_res q (res\<lparr>res_kref := res_kref res + 1\<rparr>) w)"
    using inv r by (intro put_res_inv [of _ _ _ res]) (auto simp: evictable_def elim: inv_lruD)
  have i1: "res_inv ext w1" and off1: "off_lru q w1" using lru_del_inv [OF i0] lru_del_off [OF i0] by (simp_all add: w1_def)
  have r1: "ress w1 q = Some (res\<lparr>res_kref := res_kref res + 1\<rparr>)" by (simp add: w1_def)
  have "q \<notin> set (res_lru w t')" if "t' \<noteq> t" for t' using that l inv_lru_unique [OF inv, of q t t'] by auto
  then have l1: "res_lru w1 = (res_lru w)(t := l)"
    using l by (auto simp: w1_def fun_eq_iff remove1_idem)
  obtain w2 ret where e: "vmw_resource_do_evict ask q w1 = Some (w2, ret)" "res_inv ext w2" "only_res q w1 w2"
      "id_of q w2 = (case ret of Inr _ \<Rightarrow> None | Inl _ \<Rightarrow> id_of q w1)"
    using do_evict_ok [OF i1 r1 off1, of ask] ev by (auto simp: evictable_def)
  obtain res2 where r2: "ress w2 q = Some res2" "res_kref res2 = res_kref res + 1" "res_func res2 = res_func res"
      "res_pin_count res2 = res_pin_count res" using e(3) r1 by (auto simp: only_res_def)
  have off2: "off_lru q w2" using only_res_off [OF e(3)] off1 by simp
  define w3 where "w3 = (case ret of Inr _ \<Rightarrow> w2 | Inl _ \<Rightarrow> lru_add_tail t q w2)"
  have r3: "ress w3 = ress w2" by (simp add: w3_def split: sum.splits)
  have ev2: "evictable t res2" if "ret = Inl x" for x
    using that ev r2 e(4) r1 by (simp add: evictable_def id_of_def)
  have i3: "res_inv ext w3" using e(2) ev2 lru_add_inv [OF e(2) off2 r2(1)] by (auto simp: w3_def split: sum.splits)
  have l3: "res_lru w3 = (res_lru w)(t := l @ (case ret of Inr _ \<Rightarrow> [] | Inl _ \<Rightarrow> [q]))"
    using e(3) l1 by (auto simp: w3_def only_res_def split: sum.splits)
  have ev3: "evictable t' (res2\<lparr>res_kref := res_kref res\<rparr>)" if "q \<in> set (res_lru w3 t')" for t'
    using that i3 r3 r2(1) by (auto simp: evictable_def elim!: inv_lruD)
  have i4: "res_inv ext (put_res q (res2\<lparr>res_kref := res_kref res\<rparr>) w3)"
    using r3 r2 ev3 inv_kref [OF inv r] by (intro put_res_inv [OF i3, of q res2]) auto
  have "evict_round ask t q w = Some (put_res q (res2\<lparr>res_kref := res_kref res\<rparr>) w3, ret)"
  proof -
    have "evict_round ask t q w = map_option (\<lambda>w. (w, ret)) (vmw_resource_unreference ask q w3)"
      using r e(1) by (simp add: evict_round_def vmw_resource_reference_def w1_def w3_def)
    also have "vmw_resource_unreference ask q w3 = Some (put_res q (res2\<lparr>res_kref := res_kref res\<rparr>) w3)"
      using r2 r3 inv_kref [OF inv r] by (simp add: vmw_resource_unreference_def Let_def)
    finally show ?thesis by simp
  qed
  moreover have "\<forall>p. p \<noteq> q \<longrightarrow> ress w3 p = ress w p" using e(3) r3 by (auto simp: only_res_def w1_def)
  ultimately show ?thesis using i4 l3 r2 r3 e(4) r r1 by (auto simp: id_of_def split: sum.splits)
qed

section \<open>Making room\<close>

text \<open>
  What a sequence of rounds on the list of type \<open>t\<close> does: the other lists stay, no resource joins, one that
  left has no id, and resources that were not on the list are as before, \<open>R\<close> apart.
\<close>

definition made_room :: "nat set \<Rightarrow> vmw_res_type \<Rightarrow> 'd res_world \<Rightarrow> 'd res_world \<Rightarrow> bool" where
  "made_room R t w w' \<longleftrightarrow>
     (\<forall>t'. t' \<noteq> t \<longrightarrow> res_lru w' t' = res_lru w t') \<and> set (res_lru w' t) \<subseteq> set (res_lru w t)
     \<and> (\<forall>q. q \<in> set (res_lru w t) \<longrightarrow> q \<notin> set (res_lru w' t) \<longrightarrow> id_of q w' = None)
     \<and> (\<forall>q. q \<notin> set (res_lru w t) \<longrightarrow> q \<notin> R \<longrightarrow> ress w' q = ress w q)"

lemma made_room_refl [simp]: "made_room R t w w"
  by (simp add: made_room_def)

lemma made_room_trans:
  assumes a: "made_room R t w w'" and b: "made_room R t w' w''" and R: "\<And>q. q \<in> R \<Longrightarrow> q \<notin> set (res_lru w t)"
  shows "made_room R t w w''"
proof -
  have "id_of q w'' = None" if "q \<in> set (res_lru w t)" "q \<notin> set (res_lru w'' t)" for q
  proof (cases "q \<in> set (res_lru w' t)")
    case False
    have "ress w'' q = ress w' q" using b False that(1) R by (auto simp: made_room_def)
    then show ?thesis using a False that(1) by (simp add: made_room_def id_of_def)
  qed (use b that(2) in \<open>simp add: made_room_def\<close>)
  moreover have "ress w'' q = ress w q" if "q \<notin> set (res_lru w t)" "q \<notin> R" for q
    using a b that by (auto simp: made_room_def subset_iff)
  ultimately show ?thesis using a b by (auto simp: made_room_def)
qed

lemma only_res_room: "only_res r w w' \<Longrightarrow> made_room {r} t w w'"
  by (auto simp: made_room_def only_res_def)

lemma evict_round_room:
  assumes inv: "res_inv ext w" and l: "res_lru w t = q # l"
  obtains w' ret where "evict_round ask t q w = Some (w', ret)" "res_inv ext w'" "made_room R t w w'"
    "length (res_lru w' t) = (case ret of Inr _ \<Rightarrow> length l | Inl _ \<Rightarrow> Suc (length l))" "\<And>p. p \<noteq> q \<Longrightarrow> ress w' p = ress w p"
proof -
  obtain w' ret where e: "evict_round ask t q w = Some (w', ret)" "res_inv ext w'"
      "res_lru w' = (res_lru w)(t := l @ (case ret of Inr _ \<Rightarrow> [] | Inl _ \<Rightarrow> [q]))"
      "\<forall>p. p \<noteq> q \<longrightarrow> ress w' p = ress w p" "id_of q w' = (case ret of Inr _ \<Rightarrow> None | Inl _ \<Rightarrow> id_of q w)"
    using evict_round_ok [OF inv l, of ask] by blast
  have "made_room R t w w'" using e(3-5) l by (auto simp: made_room_def split: sum.splits)
  moreover have "length (res_lru w' t) = (case ret of Inr _ \<Rightarrow> length l | Inl _ \<Rightarrow> Suc (length l))"
    using e(3) by (simp split: sum.splits)
  ultimately show thesis using e that by blast
qed

lemma room_off: "made_room R t w w' \<Longrightarrow> off_lru r w \<Longrightarrow> off_lru r w'"
  by (auto simp: made_room_def off_lru_def subset_iff) (metis subsetD)

lemma validate_loop_ok:
  assumes "res_inv ext w" "ress w r = Some res" "rf_type (res_func res) = t" "off_lru r w" "val_bo = backup_of r w"
    and "length (res_lru w t) + (VMW_RES_EVICT_ERR_COUNT - err_count) < fuel"
  shows "\<exists>w' ret. validate_loop ask r val_bo err_count fuel w = Some (w', ret) \<and> res_inv ext w' \<and> made_room {r} t w w'
           \<and> backup_of r w' = backup_of r w \<and> ress w' r \<noteq> None \<and> (ret = Inr () \<longrightarrow> id_of r w' \<noteq> None)"
  using assms
proof (induction fuel arbitrary: err_count w res)
  case (Suc fuel)
  note r = Suc.prems(2) and off = Suc.prems(4)
  obtain w1 ret1 where v: "vmw_resource_do_validate ask r val_bo w = Some (w1, ret1)" "res_inv ext w1" "only_res r w w1"
      "backup_of r w1 = backup_of r w" "ret1 = Inr () \<longrightarrow> id_of r w1 \<noteq> None"
    using do_validate_ok [OF Suc.prems(1) r off Suc.prems(5), of ask] by blast
  obtain res1 where r1: "ress w1 r = Some res1" "res_func res1 = res_func res" using v(3) r by (auto simp: only_res_def)
  have off1: "off_lru r w1" and l1: "res_lru w1 = res_lru w" using v(3) off only_res_off [OF v(3)] by (simp_all add: only_res_def)
  note m1 = only_res_room [OF v(3), of t]
  show ?case
  proof (cases "ret1 = Inl EBUSY \<and> rf_may_evict (res_func res) \<and> res_lru w1 t \<noteq> []")
    case False
    with v r1 m1 Suc.prems(3) show ?thesis by (cases "res_lru w1 t") auto
  next
    case True
    then obtain q l where ql: "res_lru w1 t = q # l" by (cases "res_lru w1 t") auto
    obtain w2 ret2 where e: "evict_round ask t q w1 = Some (w2, ret2)" "res_inv ext w2" "made_room {r} t w1 w2"
        "length (res_lru w2 t) = (case ret2 of Inr _ \<Rightarrow> length l | Inl _ \<Rightarrow> Suc (length l))" "\<And>p. p \<noteq> q \<Longrightarrow> ress w2 p = ress w1 p"
      using evict_round_room [OF v(2) ql, of ask "{r}"] by metis
    have "r \<notin> set (res_lru w1 t)" using off1 by (simp add: off_lru_def)
    then have "q \<noteq> r" using ql by auto
    then have r2: "ress w2 r = Some res1" using e(5) r1 by simp
    have off2: "off_lru r w2" using room_off [OF e(3) off1] .
    have m2: "made_room {r} t w w2" using made_room_trans [OF m1 e(3)] off by (simp add: off_lru_def)
    have b2: "val_bo = backup_of r w2" using Suc.prems(5) v(4) r1 r2 by (simp add: backup_of_def)
    have b2': "backup_of r w2 = backup_of r w" using b2 Suc.prems(5) by simp
    have trans: "made_room {r} t w w'" if "made_room {r} t w2 w'" for w'
      using made_room_trans [OF m2 that] off by (simp add: off_lru_def)
    have go: ?thesis if m: "length (res_lru w2 t) + (VMW_RES_EVICT_ERR_COUNT - n) < fuel"
        and step: "validate_loop ask r val_bo err_count (Suc fuel) w = validate_loop ask r val_bo n fuel w2" for n
    proof -
      have "rf_type (res_func res1) = t" using r1(2) Suc.prems(3) by simp
      from Suc.IH [OF e(2) r2 this off2 b2 m] show ?thesis unfolding step b2' using trans by blast
    qed
    show ?thesis
    proof (cases ret2)
      case (Inr u)
      show ?thesis
        by (rule go [of err_count]) (use Inr v(1) True r1 ql e(1,4) l1 Suc.prems(3,6) in auto)
    next
      case (Inl x)
      show ?thesis
      proof (cases "x = ERESTARTSYS \<or> err_count + 1 > VMW_RES_EVICT_ERR_COUNT")
        case True': True
        then show ?thesis using Inl v(1) True r1 ql e(1,2) r2 m2 b2' Suc.prems(3) by auto
      next
        case False
        show ?thesis
          by (rule go [of "err_count + 1"]) (use Inl False v(1) True r1 ql e(1,4) l1 Suc.prems(3,6) in auto)
      qed
    qed
  qed
qed simp

lemma made_room_update:
  assumes m: "made_room {r} t w w'" and same: "res_lru w'' = res_lru w'" "\<And>q. q \<noteq> r \<Longrightarrow> ress w'' q = ress w' q" "id_of r w'' = id_of r w'"
  shows "made_room {r} t w w''"
proof -
  have "id_of q w'' = id_of q w'" for q using same(2,3) by (cases "q = r") (simp_all add: id_of_def)
  then show ?thesis using m same(1,2) by (auto simp: made_room_def)
qed

lemma validate_ok:
  assumes inv: "res_inv ext w" and r: "ress w r = Some res" and off: "off_lru r w"
    and fuel: "length (res_lru w (rf_type (res_func res))) + VMW_RES_EVICT_ERR_COUNT < fuel"
  shows "\<exists>w' ret. vmw_resource_validate ask fuel r w = Some (w', ret) \<and> res_inv ext w'
           \<and> made_room {r} (rf_type (res_func res)) w w' \<and> ress w' r \<noteq> None
           \<and> (backup_of r w' = backup_of r w \<or> backup_of r w' = None)
           \<and> (ret = Inr () \<longrightarrow> rf_create (res_func res) \<longrightarrow> id_of r w' \<noteq> None)"
proof (cases "rf_create (res_func res)")
  case True
  obtain w1 ret where v: "validate_loop ask r (res_backup res) 0 fuel w = Some (w1, ret)" "res_inv ext w1"
      "made_room {r} (rf_type (res_func res)) w w1" "ress w1 r \<noteq> None" "ret = Inr () \<longrightarrow> id_of r w1 \<noteq> None" "backup_of r w1 = backup_of r w"
    using validate_loop_ok [OF inv r refl off, of "res_backup res" 0 fuel ask] fuel r by (auto simp: backup_of_def)
  obtain res1 where r1: "ress w1 r = Some res1" using v(4) by auto
  show ?thesis
  proof (cases "ret = Inr () \<and> res_backup res1 \<noteq> None \<and> \<not> rf_needs_backup (res_func res1)")
    case True': True
    then obtain bo where b: "res_backup res1 = Some bo" by auto
    have "off_lru r w1" using room_off [OF v(3) off] .
    then have "res_inv (ext(bo := ext bo + 1)) (put_res r (res1\<lparr>res_backup := None, res_mob := None\<rparr>) w1)"
      using inv_kref [OF v(2) r1] by (intro drop_backup_inv [OF v(2) r1 b]) (auto simp: off_lru_def)
    then have "res_inv (ext(bo := ext bo + 1)) (mob_del r (res1\<lparr>res_backup := None\<rparr>) w1)"
      by (simp add: res_inv_def)
    then obtain w2 where w2: "bo_put bo (mob_del r (res1\<lparr>res_backup := None\<rparr>) w1) = Some w2" "res_inv ext w2"
        "ress w2 = ress (mob_del r (res1\<lparr>res_backup := None\<rparr>) w1)" "res_lru w2 = res_lru w1"
      using bo_put_inv by force
    have "id_of r w2 = id_of r w1" using w2(3) r1 by (simp add: id_of_def)
    moreover have "made_room {r} (rf_type (res_func res)) w w2"
      using calculation w2(3,4) by (intro made_room_update [OF v(3)]) simp_all
    moreover have "backup_of r w2 = None" using w2(3) by (simp add: backup_of_def)
    ultimately show ?thesis using True True' r v(1,5) r1 b w2 by (auto simp: vmw_resource_validate_def)
  next
    case False
    with True r v r1 show ?thesis by (cases ret; cases "res_backup res1") (auto simp: vmw_resource_validate_def)
  qed
qed (use inv r in \<open>auto simp: vmw_resource_validate_def\<close>)

text \<open>The references and the resources of a state with a released resource.\<close>

lemma remove_res_inv:
  assumes inv: "res_inv ext w" and r: "ress w r = Some res" and b: "res_backup res = None" and off: "off_lru r w"
  shows "res_inv ext (w\<lparr>ress := (ress w)(r := None)\<rparr>)"
proof -
  have c: "count_map (backs bo) ((ress w)(r := None)) = count_map (backs bo) (ress w)" for bo
    using count_map_delete [of "ress w" r res "backs bo"] inv r b by (simp add: res_inv_def backs_def)
  have "q \<noteq> r" if "q \<in> set (res_lru w t)" for q t using that off by (auto simp: off_lru_def)
  with inv c show ?thesis by (auto simp: res_inv_def)
qed

lemma release_kref:
  assumes "ress w r = Some res"
  shows "vmw_resource_release ask r (put_res r (res\<lparr>res_kref := k\<rparr>) w) = vmw_resource_release ask r w"
  using assms
  by (cases "ask (Q_Unbind r False (the (res_backup res))) (env w)")
     (auto simp: vmw_resource_release_def put_res_def lru_del_def consult_def mob_del_def bo_put_def split: option.splits)

lemma release_ok:
  assumes inv: "res_inv ext w" and r: "ress w r = Some res"
  shows "\<exists>w'. vmw_resource_release ask r w = Some w' \<and> res_inv ext w' \<and> ress w' = (ress w)(r := None)"
proof (cases "res_backup res")
  case None
  then show ?thesis
    using remove_res_inv [OF lru_del_inv [OF inv, of r], of r res] r lru_del_off [OF inv] by (simp add: vmw_resource_release_def)
next
  case (Some bo)
  define w1 where "w1 = (if res_mob res \<noteq> None \<and> rf_unbind (res_func res)
      then snd (consult ask (Q_Unbind r False bo) (lru_del r w)) else lru_del r w)"
  obtain a w' where c: "consult ask (Q_Unbind r False bo) (lru_del r w) = (a, w')" by fastforce
  have w1: "ress w1 = ress w" "res_lru w1 = res_lru (lru_del r w)" "bo_refs w1 = bo_refs w"
    using consult_sel [OF c] c by (simp_all add: w1_def)
  have i1: "res_inv ext w1" by (rule iffD2 [OF res_inv_cong lru_del_inv [OF inv, of r]]) (simp_all add: w1)
  have off1: "off_lru r w1" using lru_del_off [OF inv, of r] w1 by (simp add: off_lru_def)
  let ?m = "mob_del r (res\<lparr>res_backup_dirty := False, res_backup := None\<rparr>) w1"
  have "res_inv (ext(bo := ext bo + 1)) (put_res r (res\<lparr>res_backup_dirty := False, res_backup := None, res_mob := None\<rparr>) w1)"
    using inv_kref [OF inv r] off1 w1 r by (intro drop_backup_inv [OF i1 _ Some]) (auto simp: off_lru_def)
  then have "res_inv (ext(bo := ext bo + 1)) ?m" by (simp add: res_inv_def)
  then obtain w2 where w2: "bo_put bo ?m = Some w2" "res_inv ext w2" "ress w2 = ress ?m" "res_lru w2 = res_lru ?m"
    using bo_put_inv by blast
  have "off_lru r w2" using w2(4) off1 by (simp add: off_lru_def)
  then have "res_inv ext (w2\<lparr>ress := (ress w2)(r := None)\<rparr>)" using w2(3) by (intro remove_res_inv [OF w2(2)]) auto
  moreover have "vmw_resource_release ask r w = Some (w2\<lparr>ress := (ress w2)(r := None)\<rparr>)"
    using r Some w2(1) by (auto simp: vmw_resource_release_def w1_def split: if_splits)
  ultimately show ?thesis using w2(3) w1 by auto
qed

lemma unreference_ok:
  assumes inv: "res_inv ext w" and r: "ress w r = Some res"
  shows "\<exists>w'. vmw_resource_unreference ask r w = Some w' \<and> res_inv ext w' \<and> (\<forall>q. q \<noteq> r \<longrightarrow> ress w' q = ress w q)"
proof (cases "res_kref res")
  case 0
  then show ?thesis using inv_kref [OF inv r] by simp
next
  case (Suc n)
  show ?thesis
  proof (cases n)
    case 0
    then show ?thesis using Suc r release_ok [OF inv r, of ask] release_kref [OF r, of ask 0]
      by (auto simp: vmw_resource_unreference_def)
  next
    case (Suc m)
    have "res_inv ext (put_res r (res\<lparr>res_kref := n\<rparr>) w)"
      using Suc inv r by (intro put_res_inv [OF inv r]) (auto simp: evictable_def elim!: inv_lruD)
    then show ?thesis using Suc \<open>res_kref res = Suc n\<close> r by (simp add: vmw_resource_unreference_def Let_def)
  qed
qed

lemma reference_ok:
  assumes inv: "res_inv ext w" and r: "ress w r = Some res"
  shows "\<exists>w'. vmw_resource_reference r w = Some w' \<and> res_inv ext w' \<and> res_lru w' = res_lru w
           \<and> ress w' = (ress w)(r \<mapsto> res\<lparr>res_kref := res_kref res + 1\<rparr>)"
proof -
  have "res_inv ext (put_res r (res\<lparr>res_kref := res_kref res + 1\<rparr>) w)"
    using inv r by (intro put_res_inv [OF inv r]) (auto simp: evictable_def elim!: inv_lruD)
  then show ?thesis using r by (simp add: vmw_resource_reference_def)
qed

section \<open>Reserving, pinning and evicting keep the invariant\<close>

text \<open>
  What an operation on \<open>r\<close> leaves of the other resources, whatever it does to the lists.
\<close>

definition spares :: "nat \<Rightarrow> 'd res_world \<Rightarrow> 'd res_world \<Rightarrow> bool" where
  "spares r w w' \<longleftrightarrow> (\<forall>q. q \<noteq> r \<longrightarrow> off_lru q w \<longrightarrow> ress w' q = ress w q \<and> off_lru q w')"

lemma spares_trans: "spares r w w' \<Longrightarrow> spares r w' w'' \<Longrightarrow> spares r w w''"
  by (simp add: spares_def)

lemma only_res_spares: "only_res r w w' \<Longrightarrow> spares r w w'"
  by (simp add: spares_def only_res_def off_lru_def)

lemma room_spares:
  assumes "made_room {r} t w w'"
  shows "spares r w w'"
proof -
  have "ress w' q = ress w q" if "q \<noteq> r" "off_lru q w" for q
    using assms that by (simp add: made_room_def off_lru_def)
  then show ?thesis using room_off [OF assms] by (simp add: spares_def)
qed

lemma lru_del_spares: "spares r w (lru_del r w)"
  by (auto simp: spares_def off_lru_def dest: notin_set_remove1)

lemma lru_add_spares: "spares r w (lru_add_tail t r w)"
  by (auto simp: spares_def off_lru_def)

lemma reserve_ok:
  assumes inv: "res_inv ext w" and r: "ress w r = Some res"
  shows "\<exists>w' ret. vmw_resource_reserve ask r no_backup w = Some (w', ret) \<and> res_inv ext w' \<and> off_lru r w'
           \<and> only_res r (lru_del r w) w' \<and> id_of r w' = id_of r w"
proof -
  let ?w = "lru_del r w"
  have i: "res_inv ext ?w" and off: "off_lru r ?w" and r': "ress ?w r = Some res" and id: "id_of r ?w = id_of r w"
    using lru_del_inv [OF inv] lru_del_off [OF inv] r by (simp_all add: id_of_def)
  show ?thesis
  proof (cases "rf_needs_backup (res_func res) \<and> res_backup res = None \<and> \<not> no_backup")
    case True
    then obtain w' ret where "vmw_resource_buf_alloc ask r ?w = Some (w', ret)" "res_inv ext w'" "only_res r ?w w'"
        "id_of r w' = id_of r ?w"
      using buf_alloc_ok [OF i r' _ off, of ask] by blast
    with True r id show ?thesis using only_res_off off by (fastforce simp: vmw_resource_reserve_def)
  next
    case False
    with r i off id only_res_refl [OF r'] show ?thesis by (auto simp: vmw_resource_reserve_def)
  qed
qed

lemma switch_backup_ok:
  assumes inv: "res_inv ext w" and r: "ress w r = Some res" and off: "off_lru r w"
  shows "\<exists>w'. switch_backup_to r new_backup w = Some w' \<and> res_inv ext w' \<and> only_res r w w' \<and> id_of r w' = id_of r w"
proof (cases "new_backup = res_backup res")
  case False
  let ?drop = "case res_backup res of None \<Rightarrow> Some w | Some bo \<Rightarrow> bo_put bo (mob_del r (res\<lparr>res_backup := None\<rparr>) w)"
  have "\<exists>w1 res1. ?drop = Some w1 \<and> res_inv ext w1 \<and> only_res r w w1 \<and> id_of r w1 = id_of r w
          \<and> ress w1 r = Some res1 \<and> res_backup res1 = None"
  proof (cases "res_backup res")
    case None
    with inv r show ?thesis by (auto intro: only_res_refl)
  next
    case (Some bo)
    have "res_inv (ext(bo := ext bo + 1)) (put_res r (res\<lparr>res_backup := None, res_mob := None\<rparr>) w)"
      using inv_kref [OF inv r] off by (intro drop_backup_inv [OF inv r Some]) (auto simp: off_lru_def)
    then have "res_inv (ext(bo := ext bo + 1)) (mob_del r (res\<lparr>res_backup := None\<rparr>) w)" by (simp add: res_inv_def)
    from bo_put_inv [OF this] Some r show ?thesis by (auto simp: only_res_def id_of_def)
  qed
  then obtain w1 res1 where w1: "?drop = Some w1" "res_inv ext w1" "only_res r w w1" "id_of r w1 = id_of r w"
      "ress w1 r = Some res1" "res_backup res1 = None" by blast
  have off1: "off_lru r w1" using only_res_off [OF w1(3)] off by simp
  have "res_inv ext (mob_add r (res1\<lparr>res_backup := Some bo\<rparr>) bo (bo_get bo w1))" for bo
  proof -
    have "res_inv ext (put_res r (res1\<lparr>res_backup := Some bo, res_mob := Some bo\<rparr>) (bo_get bo w1))"
      using inv_kref [OF w1(2,5)] off1 by (intro set_backup_inv [OF w1(2,5,6)]) (auto simp: off_lru_def)
    then show ?thesis by (simp add: res_inv_def)
  qed
  moreover have "only_res r w1 (mob_add r (res1\<lparr>res_backup := Some bo\<rparr>) bo (bo_get bo w1))" for bo
    using w1(5) by (simp add: only_res_def)
  ultimately show ?thesis using False r w1
    by (cases new_backup) (auto simp: switch_backup_to_def id_of_def intro: only_res_trans)
qed (use inv r in \<open>auto simp: switch_backup_to_def intro: only_res_refl\<close>)

lemma unreserve_ok:
  assumes inv: "res_inv ext w" and r: "ress w r = Some res"
  shows "\<exists>w'. vmw_resource_unreserve r switch_backup new_backup off' w = Some w' \<and> res_inv ext w' \<and> spares r w w'
           \<and> id_of r w' = id_of r w \<and> (\<exists>res'. ress w' r = Some res' \<and> res_pin_count res' = res_pin_count res \<and> res_func res' = res_func res)
           \<and> (off_lru r w \<longrightarrow> (off_lru r w' \<longleftrightarrow> \<not> rf_may_evict (res_func res) \<or> res_id res = None \<or> res_pin_count res \<noteq> 0))"
proof (cases "on_lru r w")
  case True
  then have "\<not> off_lru r w" using r by (auto simp: on_lru_def off_lru_def)
  with True inv r show ?thesis by (auto simp: vmw_resource_unreserve_def spares_def)
next
  case False
  have off: "off_lru r w"
  proof (rule ccontr)
    assume "\<not> off_lru r w"
    then obtain t where t: "r \<in> set (res_lru w t)" by (auto simp: off_lru_def)
    with inv obtain res' where "ress w r = Some res'" "evictable t res'" by (rule inv_lruD)
    then show False using False r t by (simp add: on_lru_def evictable_def)
  qed
  obtain w1 where w1: "(if switch_backup then switch_backup_to r new_backup w else Some w) = Some w1" "res_inv ext w1"
      "only_res r w w1" "id_of r w1 = id_of r w"
    using switch_backup_ok [OF inv r off, of new_backup] inv only_res_refl [OF r] by (cases switch_backup) auto
  obtain res1 where r1: "ress w1 r = Some res1" "res_func res1 = res_func res" "res_pin_count res1 = res_pin_count res"
    using w1(3) r by (auto simp: only_res_def)
  have off1: "off_lru r w1" using only_res_off [OF w1(3)] off by simp
  define res2 w2 where "res2 = (if switch_backup then res1\<lparr>res_backup_offset := off'\<rparr> else res1)"
    and "w2 = (if switch_backup then put_res r res2 w1 else w1)"
  have w2: "res_inv ext w2" "only_res r w1 w2"
    using w1(2) put_same_ok(1,2) [OF w1(2) r1(1) off1, of res2] only_res_refl [OF r1(1)] by (auto simp: w2_def res2_def)
  have r2: "ress w2 r = Some res2" "res_func res2 = res_func res" "res_id res2 = res_id res" "res_pin_count res2 = res_pin_count res"
    using r1 w1(4) r by (auto simp: w2_def res2_def id_of_def)
  have off2: "off_lru r w2" using only_res_off [OF w2(2)] off1 by simp
  have s2: "spares r w w2" using only_res_spares spares_trans w1(3) w2(2) by blast
  show ?thesis
  proof (cases "\<not> rf_may_evict (res_func res) \<or> res_id res = None \<or> res_pin_count res \<noteq> 0")
    case True
    then have "vmw_resource_unreserve r switch_backup new_backup off' w = Some w2"
      using r False w1(1) r1 r2 by (auto simp: vmw_resource_unreserve_def w2_def res2_def split: if_splits)
    with True w2 s2 r2 off off2 r show ?thesis by (auto simp: id_of_def)
  next
    case False'': False
    then have "vmw_resource_unreserve r switch_backup new_backup off' w = Some (lru_add_tail (rf_type (res_func res)) r w2)"
      using r False w1(1) r1 r2 by (auto simp: vmw_resource_unreserve_def w2_def res2_def split: if_splits)
    moreover have "res_inv ext (lru_add_tail (rf_type (res_func res)) r w2)"
      using False'' r2 by (intro lru_add_inv [OF w2(1) off2 r2(1)]) (simp add: evictable_def)
    moreover have "\<not> off_lru r (lru_add_tail (rf_type (res_func res)) r w2)" by (auto simp: off_lru_def)
    ultimately show ?thesis using False'' spares_trans [OF s2 lru_add_spares] r r2 by (auto simp: id_of_def)
  qed
qed

lemma room_spares_all: "made_room {} t w w' \<Longrightarrow> spares r w w'"
  by (rule room_spares [of r t]) (auto simp: made_room_def)

lemma evict_type_loop_ok:
  assumes "res_inv ext w" "length (res_lru w t) + (VMW_RES_EVICT_ERR_COUNT - err_count) < fuel"
  shows "\<exists>w'. evict_type_loop ask t err_count fuel w = Some w' \<and> res_inv ext w' \<and> made_room {} t w w'"
  using assms
proof (induction fuel arbitrary: err_count w)
  case (Suc fuel)
  show ?case
  proof (cases "res_lru w t")
    case (Cons q l)
    obtain w1 ret where e: "evict_round ask t q w = Some (w1, ret)" "res_inv ext w1" "made_room {} t w w1"
        "length (res_lru w1 t) = (case ret of Inr _ \<Rightarrow> length l | Inl _ \<Rightarrow> Suc (length l))"
      using evict_round_room [OF Suc.prems(1) Cons, of ask "{}"] by metis
    have go: ?thesis if "length (res_lru w1 t) + (VMW_RES_EVICT_ERR_COUNT - n) < fuel"
        "evict_type_loop ask t err_count (Suc fuel) w = evict_type_loop ask t n fuel w1" for n
      using Suc.IH [OF e(2) that(1)] that(2) made_room_trans [OF e(3)] by fastforce
    show ?thesis
    proof (cases ret)
      case (Inr u)
      show ?thesis by (rule go [of err_count]) (use Inr Cons e(1,4) Suc.prems(2) in auto)
    next
      case (Inl x)
      show ?thesis
      proof (cases "err_count + 1 > VMW_RES_EVICT_ERR_COUNT")
        case True
        then show ?thesis using Inl Cons e by auto
      next
        case False
        show ?thesis by (rule go [of "err_count + 1"]) (use False Inl Cons e(1,4) Suc.prems(2) in auto)
      qed
    qed
  qed (use Suc.prems(1) in simp)
qed simp

lemma room_length:
  assumes "res_inv ext w" "res_inv ext w'" "made_room R t w w'"
  shows "length (res_lru w' t') \<le> length (res_lru w t')"
proof (cases "t' = t")
  case True
  have "card (set (res_lru w' t)) \<le> card (set (res_lru w t))" using assms(3) by (intro card_mono) (auto simp: made_room_def)
  then show ?thesis using assms(1,2) True by (simp add: distinct_card res_inv_def)
qed (use assms(3) in \<open>simp add: made_room_def\<close>)

text \<open>\<open>spares_all\<close> is what an operation on no resource in particular keeps.\<close>

definition spares_all :: "'d res_world \<Rightarrow> 'd res_world \<Rightarrow> bool" where
  "spares_all w w' \<longleftrightarrow> (\<forall>q. off_lru q w \<longrightarrow> ress w' q = ress w q \<and> off_lru q w')"

lemma evict_types_ok:
  assumes "res_inv ext w" "\<And>t. t \<in> set ts \<Longrightarrow> length (res_lru w t) + VMW_RES_EVICT_ERR_COUNT < fuel"
  shows "\<exists>w'. evict_types ask fuel ts w = Some w' \<and> res_inv ext w' \<and> spares_all w w'"
  using assms
proof (induction ts arbitrary: w)
  case (Cons t ts)
  obtain w1 where e: "vmw_resource_evict_type ask fuel t w = Some w1" "res_inv ext w1" "made_room {} t w w1"
    using evict_type_loop_ok [OF Cons.prems(1), of t 0 fuel ask] Cons.prems(2) [of t] by (auto simp: vmw_resource_evict_type_def)
  have "length (res_lru w1 t') + VMW_RES_EVICT_ERR_COUNT < fuel" if "t' \<in> set ts" for t'
    using room_length [OF Cons.prems(1) e(2,3), of t'] Cons.prems(2) [of t'] that by simp
  then obtain w2 where w2: "evict_types ask fuel ts w1 = Some w2" "res_inv ext w2" "spares_all w1 w2"
    using Cons.IH [OF e(2)] by blast
  have "spares_all w w1" using e(3) room_off [OF e(3)] by (simp add: spares_all_def made_room_def off_lru_def)
  with w2 e(1) show ?case by (simp add: spares_all_def)
qed (simp add: spares_all_def)

lemma unbind_all_ok:
  assumes "res_inv ext w" "\<And>r. r \<in> set rs \<Longrightarrow> ress w r \<noteq> None"
  shows "\<exists>w'. unbind_all ask bo rs w = Some w' \<and> res_inv ext w' \<and> res_lru w' = res_lru w
           \<and> (\<forall>q. id_of q w' = id_of q w \<and> map_option res_pin_count (ress w' q) = map_option res_pin_count (ress w q))"
  using assms
proof (induction rs arbitrary: w)
  case (Cons r rs)
  obtain res where r: "ress w r = Some res" using Cons.prems(2) [of r] by auto
  show ?case
  proof (cases "rf_unbind (res_func res)")
    case True
    obtain a w1 where c: "consult ask (Q_Unbind r True bo) w = (a, w1)" by fastforce
    note s = consult_sel [OF c] and i = consult_inv [OF c, of ext]
    let ?w = "mob_del r (res\<lparr>res_backup_dirty := True, res_dirty := False\<rparr>) w1"
    have "res_inv ext ?w"
      using s i r Cons.prems(1) inv_kref [OF Cons.prems(1) r]
      by (intro mob_inv [of _ _ _ res]) (auto simp: evictable_def elim!: inv_lruD)
    then obtain w2 where "unbind_all ask bo rs ?w = Some w2" "res_inv ext w2" "res_lru w2 = res_lru ?w"
        "\<forall>q. id_of q w2 = id_of q ?w \<and> map_option res_pin_count (ress w2 q) = map_option res_pin_count (ress ?w q)"
      using Cons.IH [of ?w] Cons.prems(2) s by force
    then show ?thesis using r True c s by (auto simp: id_of_def)
  qed (use Cons r in simp)
qed simp

lemma pin_backup_sel:
  assumes "pin_backup ask res w = (w', ret)"
  shows "ress w' = ress w" "res_lru w' = res_lru w" "bo_refs w' = bo_refs w"
proof -
  obtain a w1 where c: "consult ask (Q_Validate_Bo (the (res_backup res))) w = (a, w1)" by fastforce
  from assms consult_sel [OF c] c show "ress w' = ress w" "res_lru w' = res_lru w" "bo_refs w' = bo_refs w"
    by (auto simp: pin_backup_def split: option.splits sum.splits if_splits)
qed

lemma pin_first_ok:
  assumes inv: "res_inv ext w" and r: "ress w r = Some res" and off: "off_lru r w"
    and fuel: "length (res_lru w (rf_type (res_func res))) + VMW_RES_EVICT_ERR_COUNT < fuel"
  shows "\<exists>w' ret res'. pin_first ask fuel r res w = Some (w', ret) \<and> res_inv ext w' \<and> spares r w w' \<and> off_lru r w'
           \<and> ress w' r = Some res' \<and> (res_pin_count res \<noteq> 0 \<longrightarrow> w' = w)
           \<and> (ret = Inr () \<longrightarrow> res_pin_count res = 0 \<longrightarrow> rf_create (res_func res) \<longrightarrow> id_of r w' \<noteq> None)"
proof (cases "res_pin_count res = 0")
  case True
  obtain w1 ret1 where p: "pin_backup ask res w = (w1, ret1)" by fastforce
  note s = pin_backup_sel [OF p]
  have i1: "res_inv ext w1" using res_inv_cong [OF s] inv by blast
  have r1: "ress w1 r = Some res" and off1: "off_lru r w1" and s1: "spares r w w1" using s r off by (simp_all add: off_lru_def spares_def)
  show ?thesis
  proof (cases ret1)
    case (Inr u)
    obtain w2 ret where v: "vmw_resource_validate ask fuel r w1 = Some (w2, ret)" "res_inv ext w2"
        "made_room {r} (rf_type (res_func res)) w1 w2" "ress w2 r \<noteq> None"
        "ret = Inr () \<longrightarrow> rf_create (res_func res) \<longrightarrow> id_of r w2 \<noteq> None"
      using validate_ok [OF i1 r1 off1, of fuel ask] fuel s by auto
    have "spares r w w2" "off_lru r w2" using spares_trans [OF s1 room_spares [OF v(3)]] room_off [OF v(3) off1] by auto
    with True Inr p v show ?thesis by (auto simp: pin_first_def)
  qed (use True p i1 r1 off1 s1 in \<open>auto simp: pin_first_def\<close>)
qed (use assms in \<open>auto simp: pin_first_def spares_def\<close>)

lemma pin_ok:
  assumes inv: "res_inv ext w" and r: "ress w r = Some res"
    and fuel: "length (res_lru w (rf_type (res_func res))) + VMW_RES_EVICT_ERR_COUNT < fuel"
  shows "\<exists>w' ret res'. vmw_resource_pin ask fuel r w = Some (w', ret) \<and> res_inv ext w' \<and> spares r w w' \<and> ress w' r = Some res'
           \<and> (0 < res_pin_count res \<longrightarrow> 0 < res_pin_count res' \<and> id_of r w' = id_of r w)
           \<and> (ret = Inr () \<longrightarrow> 0 < res_pin_count res' \<and> off_lru r w'
                \<and> (res_pin_count res = 0 \<longrightarrow> rf_create (res_func res) \<longrightarrow> id_of r w' \<noteq> None))"
proof -
  obtain a w0 where c: "consult ask Q_Write_Lock w = (a, w0)" by fastforce
  note s0 = consult_sel [OF c]
  have i0: "res_inv ext w0" and r0: "ress w0 r = Some res" using consult_inv [OF c] inv s0 r by auto
  obtain w1 ret1 where v: "vmw_resource_reserve ask r False w0 = Some (w1, ret1)" "res_inv ext w1" "off_lru r w1"
      "only_res r (lru_del r w0) w1" "id_of r w1 = id_of r w0"
    using reserve_ok [OF i0 r0, of ask False] by blast
  obtain res1 where r1: "ress w1 r = Some res1" "res_func res1 = res_func res" "res_pin_count res1 = res_pin_count res"
    using v(4) r0 by (auto simp: only_res_def)
  have s1: "spares r w w1"
    using spares_trans [OF lru_del_spares only_res_spares [OF v(4)]] s0 by (simp add: spares_def off_lru_def)
  have l1: "length (res_lru w1 t) \<le> length (res_lru w t)" for t
    using v(4) s0 by (simp add: only_res_def length_remove1)
  show ?thesis
  proof (cases ret1)
    case (Inl e)
    with c v r1 s1 s0 r show ?thesis by (auto simp: vmw_resource_pin_def id_of_def)
  next
    case (Inr u)
    obtain w2 ret2 res2 where p: "pin_first ask fuel r res1 w1 = Some (w2, ret2)" "res_inv ext w2" "spares r w1 w2" "off_lru r w2"
        "ress w2 r = Some res2" "res_pin_count res1 \<noteq> 0 \<longrightarrow> w2 = w1"
        "ret2 = Inr () \<longrightarrow> res_pin_count res1 = 0 \<longrightarrow> rf_create (res_func res1) \<longrightarrow> id_of r w2 \<noteq> None"
      using pin_first_ok [OF v(2) r1(1) v(3), of fuel ask] r1(2) l1 [of "rf_type (res_func res)"] fuel by auto
    define res3 w3 where "res3 = (if ret2 = Inr () then res2\<lparr>res_pin_count := res_pin_count res2 + 1\<rparr> else res2)"
      and "w3 = (if ret2 = Inr () then put_res r res3 w2 else w2)"
    have i3: "res_inv ext w3"
      using p(2,4,5) inv_kref [OF p(2,5)] put_res_inv [OF p(2,5), of res3] by (auto simp: w3_def res3_def off_lru_def)
    have r3: "ress w3 r = Some res3" "id_of r w3 = id_of r w2" "off_lru r w3" "spares r w2 w3"
      using p(4,5) by (auto simp: w3_def res3_def id_of_def off_lru_def spares_def)
    obtain w4 res4 where w4: "vmw_resource_unreserve r False None 0 w3 = Some w4" "res_inv ext w4" "spares r w3 w4" "id_of r w4 = id_of r w3"
        "ress w4 r = Some res4" "res_pin_count res4 = res_pin_count res3" "res_pin_count res3 \<noteq> 0 \<longrightarrow> off_lru r w4"
      using unreserve_ok [OF i3 r3(1), of False None 0] r3(3) by blast
    have "vmw_resource_pin ask fuel r w = Some (w4, ret2)"
      using c v(1) Inr r1(1) p(1,5) w4(1)
      by (cases "ret2 = Inr ()") (simp_all add: vmw_resource_pin_def w3_def res3_def)
    moreover have "spares r w w4" using spares_trans s1 p(3) r3(4) w4(3) by blast
    moreover have "0 < res_pin_count res4 \<and> id_of r w4 = id_of r w" if "0 < res_pin_count res"
      using that p(5,6) r1 w4(4,6) r3(2) v(5) s0 by (auto simp: res3_def id_of_def)
    ultimately show ?thesis using w4 r3 p(7) r1 by (auto simp: res3_def)
  qed
qed

lemma unpin_ok:
  assumes inv: "res_inv ext w" and r: "ress w r = Some res"
  shows "\<exists>w'. vmw_resource_unpin ask r w = Some w' \<and> res_inv ext w' \<and> spares r w w'"
proof -
  obtain w1 ret1 where v: "vmw_resource_reserve ask r True w = Some (w1, ret1)" "res_inv ext w1" "off_lru r w1" "only_res r (lru_del r w) w1"
    using reserve_ok [OF inv r, of ask True] by blast
  obtain res1 where r1: "ress w1 r = Some res1" using v(4) by (auto simp: only_res_def)
  have s1: "spares r w w1" using spares_trans [OF lru_del_spares only_res_spares [OF v(4)]] .
  define res2 w2 where "res2 = res1\<lparr>res_pin_count := (if res_pin_count res1 = 0 then 2 ^ 64 - 1 else res_pin_count res1 - 1)\<rparr>"
    and "w2 = (case res_backup res1 of
            Some bo \<Rightarrow> if res_pin_count res1 = 1 then (put_res r res2 w1)\<lparr>bo_pins := (bo_pins w1)(bo := bo_pins w1 bo - 1)\<rparr>
                       else put_res r res2 w1
          | None \<Rightarrow> put_res r res2 w1)"
  have w2: "ress w2 = (ress w1)(r \<mapsto> res2)" "res_lru w2 = res_lru w1" "bo_refs w2 = bo_refs w1"
    by (simp_all add: w2_def split: option.split)
  have "res_inv ext (put_res r res2 w1)"
    using v(3) inv_kref [OF v(2) r1] by (intro put_res_inv [OF v(2) r1]) (auto simp: res2_def off_lru_def)
  then have i2: "res_inv ext w2" using res_inv_cong [of w2 "put_res r res2 w1" ext] w2 by simp
  have s2: "spares r w w2" using s1 w2 by (simp add: spares_def off_lru_def)
  have r2: "ress w2 r = Some res2" using w2 by simp
  obtain w3 where w3: "vmw_resource_unreserve r False None 0 w2 = Some w3" "res_inv ext w3" "spares r w2 w3"
    using unreserve_ok [OF i2 r2, of False None 0] by blast
  have "vmw_resource_unpin ask r w = Some w3"
    using v(1) r1 w3(1)
    by (cases "res_backup res1"; cases "res_pin_count res1 = 0"; cases "res_pin_count res1 = 1") (simp_all add: vmw_resource_unpin_def res2_def w2_def)
  with w3 spares_trans [OF s2 w3(3)] show ?thesis by blast
qed

lemma new_res_inv:
  assumes inv: "res_inv ext w" and r: "ress w r = None" and b: "res_backup res = None" and k: "0 < res_kref res"
  shows "res_inv ext (put_res r res w)"
proof -
  have "count_map (backs bo) ((ress w)(r \<mapsto> res)) = count_map (backs bo) (ress w)" for bo
    using count_map_insert [of "ress w" r "backs bo" res] inv r b by (simp add: res_inv_def backs_def)
  moreover have "q \<noteq> r" if "q \<in> set (res_lru w t)" for q t using that r by (auto elim: inv_lruD [OF inv])
  ultimately show ?thesis using inv k by (auto simp: res_inv_def)
qed

lemma alloc_id_ok:
  assumes inv: "res_inv ext w" and r: "ress w r = Some res" and i: "res_id res = None" and off: "off_lru r w"
  shows "\<exists>w' ret. vmw_resource_alloc_id ask r w = Some (w', ret) \<and> res_inv ext w' \<and> only_res r w w'"
proof -
  obtain a w1 where c: "consult ask (Q_Alloc_Id r) w = (a, w1)" by fastforce
  note s = consult_sel [OF c] and ci = consult_inv [OF c, of ext]
  have "res_inv ext (put_res r (res\<lparr>res_id := Some n\<rparr>) w1)" for n
    using s ci inv off r by (intro put_same_ok [of _ _ _ res]) (simp_all add: off_lru_def)
  then show ?thesis using c s ci inv r i by (cases a) (auto simp: vmw_resource_alloc_id_def only_res_def)
qed

lemma init_ok:
  assumes inv: "res_inv ext w" and r: "ress w r = None"
  shows "\<exists>w' ret. vmw_resource_init ask r delay_id sz func w = Some (w', ret) \<and> res_inv ext w' \<and> spares r w w'"
proof -
  define res where "res = \<lparr>res_kref = 1, res_id = None, res_backup_size = sz, res_backup = None,
      res_backup_offset = 0, res_pin_count = 0, res_dirty = False, res_backup_dirty = False, res_mob = None, res_func = func\<rparr>"
  let ?w = "put_res r res w"
  have i: "res_inv ext ?w" by (rule new_res_inv [OF inv r]) (simp_all add: res_def)
  have off: "off_lru r ?w" using r by (auto simp: off_lru_def elim: inv_lruD [OF inv])
  have s: "spares r w ?w" by (simp add: spares_def off_lru_def)
  obtain w' ret where "vmw_resource_alloc_id ask r ?w = Some (w', ret)" "res_inv ext w'" "only_res r ?w w'"
    using alloc_id_ok [OF i _ _ off, of res ask] by (auto simp: res_def)
  then show ?thesis using i s spares_trans [OF s only_res_spares] by (auto simp: vmw_resource_init_def Let_def res_def)
qed

lemma bo_put_sel: "bo_put bo w = Some w' \<Longrightarrow> ress w' = ress w \<and> res_lru w' = res_lru w"
  by (auto simp: bo_put_def split: if_splits)

lemma release_lru:
  assumes "vmw_resource_release ask r w = Some w'"
  shows "res_lru w' t = remove1 r (res_lru w t)"
proof -
  obtain res where res: "ress w r = Some res" using assms by (cases "ress w r") (simp_all add: vmw_resource_release_def)
  obtain a w1 where c: "consult ask (Q_Unbind r False (the (res_backup res))) (lru_del r w) = (a, w1)" by fastforce
  from assms res c consult_sel [OF c] show ?thesis
    by (auto simp: vmw_resource_release_def dest!: bo_put_sel split: option.splits if_splits bind_splits)
qed

lemma unreference_lru:
  assumes "vmw_resource_unreference ask r w = Some w'" "q \<in> set (res_lru w' t)"
  shows "q \<in> set (res_lru w t)"
  using assms release_lru [of ask r _ w' t] set_remove1_subset [of r "res_lru w t"]
  by (auto simp: vmw_resource_unreference_def Let_def split: bind_splits nat.splits if_splits)

lemma switch_backup_others:
  assumes "switch_backup_to r nb w = Some w'"
  shows "(\<forall>q. q \<noteq> r \<longrightarrow> ress w' q = ress w q) \<and> res_lru w' = res_lru w"
  using assms by (auto simp: switch_backup_to_def dest!: bo_put_sel split: bind_splits if_splits option.splits)

lemma unreserve_others:
  assumes "vmw_resource_unreserve r sw nb off' w = Some w'"
  shows "(\<forall>q. q \<noteq> r \<longrightarrow> ress w' q = ress w q) \<and> (\<forall>t. set (res_lru w t) \<subseteq> set (res_lru w' t))"
  using assms by (auto simp: vmw_resource_unreserve_def dest!: switch_backup_others split: bind_splits if_splits)

section \<open>Histories of operations\<close>

datatype res_op =
    Op_Init nat bool nat vmw_res_func | Op_Reference nat | Op_Unreference nat | Op_Reserve nat bool
  | Op_Unreserve nat bool "nat option" nat | Op_Validate nat | Op_Evict_All | Op_Unbind_List nat | Op_Pin nat | Op_Unpin nat

text \<open>
  The callers' side: operations name a live resource, a new resource is not a live one, and only a reserved
  resource, which is on no list, is validated. The fuel covers every list and eleven failed rounds.
\<close>

fun op_ok :: "res_op \<Rightarrow> 'd res_world \<Rightarrow> bool" where
  "op_ok (Op_Init r _ _ _) w = (ress w r = None)"
| "op_ok (Op_Reference r) w = (ress w r \<noteq> None)"
| "op_ok (Op_Unreference r) w = (ress w r \<noteq> None)"
| "op_ok (Op_Reserve r _) w = (ress w r \<noteq> None)"
| "op_ok (Op_Unreserve r _ _ _) w = (ress w r \<noteq> None)"
| "op_ok (Op_Validate r) w = (ress w r \<noteq> None \<and> \<not> on_lru r w)"
| "op_ok Op_Evict_All w = True"
| "op_ok (Op_Unbind_List _) w = True"
| "op_ok (Op_Pin r) w = (ress w r \<noteq> None)"
| "op_ok (Op_Unpin r) w = (ress w r \<noteq> None)"

definition lru_fuel :: "'d res_world \<Rightarrow> nat" where
  "lru_fuel w = sum_list (map (\<lambda>t. length (res_lru w t)) res_types) + VMW_RES_EVICT_ERR_COUNT + 1"

fun run_op :: "'d res_oracle \<Rightarrow> res_op \<Rightarrow> 'd res_world \<Rightarrow> 'd res_world option" where
  "run_op ask (Op_Init r delay_id sz func) w = map_option fst (vmw_resource_init ask r delay_id sz func w)"
| "run_op ask (Op_Reference r) w = vmw_resource_reference r w"
| "run_op ask (Op_Unreference r) w = vmw_resource_unreference ask r w"
| "run_op ask (Op_Reserve r no_backup) w = map_option fst (vmw_resource_reserve ask r no_backup w)"
| "run_op ask (Op_Unreserve r sw nb off) w = vmw_resource_unreserve r sw nb off w"
| "run_op ask (Op_Validate r) w = map_option fst (vmw_resource_validate ask (lru_fuel w) r w)"
| "run_op ask Op_Evict_All w = vmw_resource_evict_all ask (lru_fuel w) w"
| "run_op ask (Op_Unbind_List bo) w = vmw_resource_unbind_list ask bo w"
| "run_op ask (Op_Pin r) w = map_option fst (vmw_resource_pin ask (lru_fuel w) r w)"
| "run_op ask (Op_Unpin r) w = vmw_resource_unpin ask r w"

inductive res_history :: "'d res_oracle \<Rightarrow> 'd res_world \<Rightarrow> res_op list \<Rightarrow> 'd res_world \<Rightarrow> bool" for ask w0 where
  res_history_start: "res_history ask w0 [] w0"
| res_history_step: "res_history ask w0 ops w \<Longrightarrow> op_ok op w \<Longrightarrow> run_op ask op w = Some w' \<Longrightarrow> res_history ask w0 (ops @ [op]) w'"

inductive_cases res_history_nilE: "res_history ask w0 [] w"

lemma res_types_all: "t \<in> set res_types"
  by (cases t) (simp_all add: res_types_def)

lemma lru_fuel_enough: "length (res_lru w t) + VMW_RES_EVICT_ERR_COUNT < lru_fuel w"
  using member_le_sum_list [of "length (res_lru w t)" "map (\<lambda>t. length (res_lru w t)) res_types"] res_types_all [of t]
  by (simp add: lru_fuel_def)

lemma not_on_lru_off: "res_inv ext w \<Longrightarrow> ress w r = Some res \<Longrightarrow> \<not> on_lru r w \<Longrightarrow> off_lru r w"
proof (unfold off_lru_def, rule allI, rule notI)
  fix t assume inv: "res_inv ext w" and r: "ress w r = Some res" and n: "\<not> on_lru r w" and t: "r \<in> set (res_lru w t)"
  from inv t obtain res' where "ress w r = Some res'" "evictable t res'" by (rule inv_lruD)
  then show False using n t r by (simp add: on_lru_def evictable_def)
qed

text \<open>The resource an operation is about.\<close>

fun op_res :: "res_op \<Rightarrow> nat option" where
  "op_res (Op_Init r _ _ _) = Some r"
| "op_res (Op_Reference r) = Some r"
| "op_res (Op_Unreference r) = Some r"
| "op_res (Op_Reserve r _) = Some r"
| "op_res (Op_Unreserve r _ _ _) = Some r"
| "op_res (Op_Validate r) = Some r"
| "op_res Op_Evict_All = None"
| "op_res (Op_Unbind_List _) = None"
| "op_res (Op_Pin r) = Some r"
| "op_res (Op_Unpin r) = Some r"

lemma unbind_list_ok:
  assumes "res_inv ext w"
  shows "\<exists>w'. vmw_resource_unbind_list ask bo w = Some w' \<and> res_inv ext w' \<and> res_lru w' = res_lru w
           \<and> (\<forall>q. id_of q w' = id_of q w \<and> map_option res_pin_count (ress w' q) = map_option res_pin_count (ress w q))"
  unfolding vmw_resource_unbind_list_def by (rule unbind_all_ok [OF assms]) (auto split: option.splits)

lemma evict_all_ok:
  assumes "res_inv ext w"
  shows "\<exists>w'. vmw_resource_evict_all ask (lru_fuel w) w = Some w' \<and> res_inv ext w' \<and> spares_all w w'"
  unfolding vmw_resource_evict_all_def using evict_types_ok [OF assms] lru_fuel_enough by blast

definition pinned :: "nat \<Rightarrow> 'd res_world \<Rightarrow> bool" where
  "pinned r w \<longleftrightarrow> (case ress w r of None \<Rightarrow> False | Some res \<Rightarrow> 0 < res_pin_count res)"

definition keeps_pin :: "nat \<Rightarrow> 'd res_world \<Rightarrow> 'd res_world \<Rightarrow> bool" where
  "keeps_pin r w w' \<longleftrightarrow> (pinned r w \<longrightarrow> pinned r w' \<and> id_of r w' = id_of r w)"

lemma pinned_off: "res_inv ext w \<Longrightarrow> pinned r w \<Longrightarrow> off_lru r w"
  by (rule ccontr) (auto simp: off_lru_def pinned_def evictable_def elim!: inv_lruD split: option.splits)

lemma spares_keeps_pin: "res_inv ext w \<Longrightarrow> spares q w w' \<Longrightarrow> r \<noteq> q \<Longrightarrow> keeps_pin r w w'"
  using pinned_off [of ext w r] by (auto simp: keeps_pin_def spares_def pinned_def id_of_def)

lemma only_res_keeps_pin: "only_res r (lru_del r w) w' \<Longrightarrow> id_of r w' = id_of r w \<Longrightarrow> keeps_pin r w w'"
  by (auto simp: keeps_pin_def only_res_def pinned_def)

text \<open>The operations whose business it is to change the id or the pins of \<open>r\<close>, or to let go of it.\<close>

definition may_unpin :: "nat \<Rightarrow> res_op \<Rightarrow> bool" where
  "may_unpin r op \<longleftrightarrow> op \<in> {Op_Validate r, Op_Unpin r, Op_Unreference r}"

lemma run_op_on:
  assumes inv: "res_inv ext w" and ok: "op_ok op w" and q: "op_res op = Some q"
  shows "\<exists>w'. run_op ask op w = Some w' \<and> res_inv ext w' \<and> spares q w w' \<and> (\<not> may_unpin q op \<longrightarrow> keeps_pin q w w')"
proof (cases op)
  case (Op_Init r d n f)
  then show ?thesis using init_ok [OF inv, of r ask d n f] ok q by (auto simp: keeps_pin_def pinned_def)
next
  case (Op_Reference r)
  then obtain res where "ress w r = Some res" using ok by auto
  then show ?thesis using Op_Reference reference_ok [OF inv] q
    by (fastforce simp: spares_def off_lru_def keeps_pin_def pinned_def id_of_def)
next
  case (Op_Unreference r)
  then obtain res where r: "ress w r = Some res" using ok by auto
  obtain w' where w': "vmw_resource_unreference ask r w = Some w'" "res_inv ext w'" "\<forall>q. q \<noteq> r \<longrightarrow> ress w' q = ress w q"
      "\<And>q t. q \<in> set (res_lru w' t) \<Longrightarrow> q \<in> set (res_lru w t)"
    using unreference_ok [OF inv r] unreference_lru r by metis
  then show ?thesis using Op_Unreference q by (auto simp: spares_def off_lru_def may_unpin_def)
next
  case (Op_Reserve r b)
  then obtain res where r: "ress w r = Some res" using ok by auto
  obtain w' ret where w': "vmw_resource_reserve ask r b w = Some (w', ret)" "res_inv ext w'" "only_res r (lru_del r w) w'" "id_of r w' = id_of r w"
    using reserve_ok [OF inv r] by blast
  then show ?thesis using Op_Reserve q spares_trans [OF lru_del_spares only_res_spares [OF w'(3)]] only_res_keeps_pin by auto
next
  case (Op_Unreserve r s n off)
  then obtain res where r: "ress w r = Some res" using ok by auto
  then show ?thesis using Op_Unreserve q unreserve_ok [OF inv r, of s n off] by (auto simp: keeps_pin_def pinned_def)
next
  case (Op_Validate r)
  then obtain res where r: "ress w r = Some res" and off: "off_lru r w" using ok not_on_lru_off [OF inv] by auto
  then show ?thesis using Op_Validate q validate_ok [OF inv r off lru_fuel_enough, of ask] room_spares by (fastforce simp: may_unpin_def)
next
  case (Op_Pin r)
  then obtain res where r: "ress w r = Some res" using ok by auto
  then show ?thesis using Op_Pin q pin_ok [OF inv r lru_fuel_enough, of ask] by (fastforce simp: keeps_pin_def pinned_def)
next
  case (Op_Unpin r)
  then obtain res where r: "ress w r = Some res" using ok by auto
  then show ?thesis using Op_Unpin q unpin_ok [OF inv r, of ask] by (auto simp: may_unpin_def)
qed (use q in simp_all)

lemma run_op_ok:
  assumes inv: "res_inv ext w" and ok: "op_ok op w"
  shows "\<exists>w'. run_op ask op w = Some w' \<and> res_inv ext w' \<and> (\<not> may_unpin r op \<longrightarrow> keeps_pin r w w')"
proof (cases "op_res op")
  case (Some q)
  obtain w' where w': "run_op ask op w = Some w'" "res_inv ext w'" "spares q w w'" "\<not> may_unpin q op \<longrightarrow> keeps_pin q w w'"
    using run_op_on [OF inv ok Some] by blast
  then show ?thesis using spares_keeps_pin [OF inv w'(3)] by (cases "r = q") auto
next
  case None
  then consider "op = Op_Evict_All" | bo where "op = Op_Unbind_List bo" by (cases op) auto
  then show ?thesis
  proof cases
    case 1
    then show ?thesis using evict_all_ok [OF inv, of ask] pinned_off [OF inv, of r]
      by (auto simp: spares_all_def keeps_pin_def pinned_def id_of_def)
  next
    case 2
    obtain w' where w': "vmw_resource_unbind_list ask bo w = Some w'" "res_inv ext w'"
        "\<forall>q. id_of q w' = id_of q w \<and> map_option res_pin_count (ress w' q) = map_option res_pin_count (ress w q)"
      using unbind_list_ok [OF inv] by blast
    have "pinned r w' = pinned r w" using w'(3) [rule_format, of r] by (cases "ress w r"; cases "ress w' r") (simp_all add: pinned_def)
    then show ?thesis using 2 w' by (simp add: keeps_pin_def)
  qed
qed

lemma history_inv: "res_history ask w0 ops w \<Longrightarrow> res_inv ext w0 \<Longrightarrow> res_inv ext w"
proof (induction rule: res_history.induct)
  case (res_history_step ops w op w')
  then show ?case using run_op_ok [of ext w op ask] by fastforce
qed

lemma history_pin:
  "res_history ask w0 ops w \<Longrightarrow> res_inv ext w0 \<Longrightarrow> \<forall>op\<in>set ops. \<not> may_unpin r op \<Longrightarrow> keeps_pin r w0 w"
proof (induction rule: res_history.induct)
  case (res_history_step ops w op w')
  have "keeps_pin r w w'" using run_op_ok [OF history_inv [OF res_history_step(1,5)] res_history_step(2), of ask r] res_history_step by auto
  with res_history_step show ?case by (auto simp: keeps_pin_def)
qed (simp add: keeps_pin_def)

section \<open>What the resource manager guarantees\<close>

text \<open>A device with no resources, for the examples, and callbacks that all succeed.\<close>

definition idle_device :: "unit res_world" where
  "idle_device = \<lparr>ress = (\<lambda>r. None), res_lru = (\<lambda>t. []), mob_order = [], bo_refs = (\<lambda>bo. 0), bo_size = (\<lambda>bo. 0),
     bo_pins = (\<lambda>bo. 0), env = ()\<rparr>"

definition all_works :: "unit res_oracle" where
  "all_works q d = (case q of Q_Bind _ _ \<Rightarrow> Inr 1 | Q_Create r \<Rightarrow> Inr r | _ \<Rightarrow> Inr 100, d)"

definition surface_func :: vmw_res_func where
  "surface_func = \<lparr>rf_type = vmw_res_surface, rf_needs_backup = True, rf_may_evict = True, rf_create = True, rf_bind = True,
     rf_unbind = True\<rparr>"

lemma idle_device_inv: "res_inv (\<lambda>bo. 0) idle_device"
  by (simp add: res_inv_def idle_device_def)

lemmas res_eval = idle_device_def surface_func_def vmw_resource_reserve_def vmw_resource_buf_alloc_def
  vmw_resource_validate_def vmw_resource_do_validate_def validate_create_def vmw_resource_unreserve_def vmw_resource_pin_def
  pin_first_def pin_backup_def consult_def put_res_def lru_del_def bo_get_def on_lru_def

definition surface_res :: "nat option \<Rightarrow> nat \<Rightarrow> vmw_resource" where
  "surface_res i pins = \<lparr>res_kref = 1, res_id = i, res_backup_size = 4096, res_backup = None, res_backup_offset = 0,
     res_pin_count = pins, res_dirty = False, res_backup_dirty = False, res_mob = None, res_func = surface_func\<rparr>"

text \<open>Surface 1 is pinned, surface 2 evictable, surface 3 reserved and not on the device.\<close>

definition busy_device :: "unit res_world" where
  "busy_device = idle_device\<lparr>ress := [1 \<mapsto> surface_res (Some 7) 1, 2 \<mapsto> surface_res (Some 8) 0, 3 \<mapsto> surface_res None 0],
     res_lru := (\<lambda>t. [])(vmw_res_surface := [2])\<rparr>"

lemma busy_device_inv: "res_inv (\<lambda>bo. 0) busy_device"
proof -
  have "count_map (backs bo) (ress busy_device) = 0" for bo
    by (subst count_map_0) (auto simp: busy_device_def backs_def surface_res_def split: if_splits)
  then show ?thesis
    by (auto simp: res_inv_def busy_device_def idle_device_def evictable_def surface_res_def surface_func_def split: if_splits)
qed



text \<open>
  C15: ``Having a pin reference means that the resource can never be evicted, and its id will never change as
  long as there is a pin reference'' (\<open>vmw_resource_pin\<close>): after any history of operations on any resources,
  evictions included, a resource that was pinned is still pinned and has the id it had, if it was not itself
  unpinned, dropped or validated again.
\<close>
theorem pinned_resource_keeps_id:
  assumes "res_history ask w0 ops w" "res_inv ext w0" "pinned r w0" "\<forall>op\<in>set ops. \<not> may_unpin r op"
  shows "pinned r w \<and> id_of r w = id_of r w0"
  using history_pin [OF assms(1,2,4)] assms(3) by (simp add: keeps_pin_def)

theorem pinned_resource_keeps_id_witness:
  "\<exists>w. run_op all_works Op_Evict_All busy_device = Some w \<and> pinned 1 w \<and> id_of 1 w = Some 7"
proof -
  obtain w where w: "run_op all_works Op_Evict_All busy_device = Some w"
    using run_op_ok [OF busy_device_inv, of Op_Evict_All all_works] by auto
  have h: "res_history all_works busy_device ([] @ [Op_Evict_All]) w" by (rule res_history_step [OF res_history_start _ w]) simp
  have "pinned 1 busy_device" "id_of 1 busy_device = Some 7"
    by (simp_all add: pinned_def id_of_def busy_device_def surface_res_def)
  then show ?thesis using pinned_resource_keeps_id [OF h busy_device_inv, of 1] w by (simp add: may_unpin_def)
qed



text \<open>When no callback fails, neither does an eviction.\<close>

definition never_fails :: "'d res_oracle \<Rightarrow> bool" where
  "never_fails ask \<longleftrightarrow> (\<forall>q d. case ask q d of (Inr _, _) \<Rightarrow> True | _ \<Rightarrow> False)"

lemma never_fails_consult: "never_fails ask \<Longrightarrow> consult ask q w = (a, w') \<Longrightarrow> \<exists>n. a = Inr n"
  unfolding never_fails_def consult_def by (cases a) (auto split: prod.splits sum.splits dest!: spec [of _ q])

lemma never_fails_destroy: "never_fails ask \<Longrightarrow> res_destroy ask r w = Some (w', ret) \<Longrightarrow> ret = Inr ()"
  by (auto simp: res_destroy_def split: prod.splits sum.splits dest: never_fails_consult)

lemma never_fails_alloc: "never_fails ask \<Longrightarrow> vmw_resource_buf_alloc ask r w = Some (w', ret) \<Longrightarrow> ret = Inr ()"
  by (auto simp: vmw_resource_buf_alloc_def Let_def split: bind_splits option.splits prod.splits sum.splits if_splits
      dest: never_fails_consult)

lemma never_fails_check:
  assumes "never_fails ask" "vmw_resource_check_buffer ask r w = Some (w', ret)"
  shows "\<exists>bo. ret = Inr bo"
  using assms
  by (auto simp: vmw_resource_check_buffer_def split: bind_splits prod.splits sum.splits if_splits
      dest: never_fails_consult never_fails_alloc)

lemma never_fails_evict:
  assumes "never_fails ask" "vmw_resource_do_evict ask r w = Some (w', ret)"
  shows "ret = Inr ()"
  using assms
  by (auto simp: vmw_resource_do_evict_def evict_unbind_def split: bind_splits prod.splits sum.splits if_splits
      dest: never_fails_consult never_fails_check never_fails_destroy)

lemma never_fails_round: "never_fails ask \<Longrightarrow> evict_round ask t q w = Some (w', ret) \<Longrightarrow> ret = Inr ()"
  by (auto simp: evict_round_def split: bind_splits prod.splits dest: never_fails_evict)

lemma evict_type_loop_empties:
  assumes "never_fails ask" "res_inv ext w" "length (res_lru w t) < fuel"
  shows "\<exists>w'. evict_type_loop ask t err_count fuel w = Some w' \<and> res_inv ext w' \<and> made_room {} t w w' \<and> res_lru w' t = []"
  using assms
proof (induction fuel arbitrary: w)
  case (Suc fuel)
  show ?case
  proof (cases "res_lru w t")
    case (Cons q l)
    obtain w1 ret where e: "evict_round ask t q w = Some (w1, ret)" "res_inv ext w1" "made_room {} t w w1"
        "length (res_lru w1 t) = (case ret of Inr _ \<Rightarrow> length l | Inl _ \<Rightarrow> Suc (length l))"
      using evict_round_room [OF Suc.prems(2) Cons, of ask "{}"] by metis
    have ret: "ret = Inr ()" using never_fails_round [OF Suc.prems(1) e(1)] .
    then obtain w2 where "evict_type_loop ask t err_count fuel w1 = Some w2" "res_inv ext w2" "made_room {} t w1 w2" "res_lru w2 t = []"
      using Suc.IH [OF Suc.prems(1) e(2)] e(4) Suc.prems(3) Cons by auto
    then show ?thesis using Cons e(1) ret made_room_trans [OF e(3)] by auto
  qed (use Suc.prems in simp)
qed simp

lemma evict_types_empties:
  assumes "never_fails ask" "res_inv ext w" "\<And>t. t \<in> set ts \<Longrightarrow> length (res_lru w t) < fuel"
  shows "\<exists>w'. evict_types ask fuel ts w = Some w' \<and> res_inv ext w' \<and> spares_all w w'
           \<and> (\<forall>t\<in>set ts. res_lru w' t = [] \<and> (\<forall>q\<in>set (res_lru w t). id_of q w' = None))
           \<and> (\<forall>t. t \<notin> set ts \<longrightarrow> res_lru w' t = res_lru w t)"
  using assms
proof (induction ts arbitrary: w)
  case (Cons t ts)
  obtain w1 where e: "vmw_resource_evict_type ask fuel t w = Some w1" "res_inv ext w1" "made_room {} t w w1" "res_lru w1 t = []"
    using evict_type_loop_empties [OF Cons.prems(1,2), of t fuel 0] Cons.prems(3) [of t] by (auto simp: vmw_resource_evict_type_def)
  have l1: "res_lru w1 t' = (if t' = t then [] else res_lru w t')" for t' using e(3,4) by (simp add: made_room_def)
  have "length (res_lru w1 t') < fuel" if "t' \<in> set ts" for t'
    using room_length [OF Cons.prems(2) e(2,3), of t'] Cons.prems(3) [of t'] that by simp
  then obtain w2 where w2: "evict_types ask fuel ts w1 = Some w2" "res_inv ext w2" "spares_all w1 w2"
      "\<forall>t\<in>set ts. res_lru w2 t = [] \<and> (\<forall>q\<in>set (res_lru w1 t). id_of q w2 = None)"
      "\<forall>t. t \<notin> set ts \<longrightarrow> res_lru w2 t = res_lru w1 t"
    using Cons.IH [OF Cons.prems(1) e(2)] by blast
  have s1: "spares_all w w1" using e(3) room_off [OF e(3)] by (simp add: spares_all_def made_room_def off_lru_def)
  have gone: "id_of q w2 = None" if q: "q \<in> set (res_lru w t)" for q
  proof -
    have "q \<notin> set (res_lru w1 t')" for t'
      using l1 [of t'] inv_lru_unique [OF Cons.prems(2) q, of t'] by auto
    then have "off_lru q w1" by (simp add: off_lru_def)
    then have "ress w2 q = ress w1 q" using w2(3) by (simp add: spares_all_def)
    then show ?thesis using e(3,4) q by (simp add: made_room_def id_of_def)
  qed
  have "\<forall>t'\<in>set (t # ts). res_lru w2 t' = [] \<and> (\<forall>q\<in>set (res_lru w t'). id_of q w2 = None)"
  proof
    fix t' assume t': "t' \<in> set (t # ts)"
    show "res_lru w2 t' = [] \<and> (\<forall>q\<in>set (res_lru w t'). id_of q w2 = None)"
      using t' gone w2(4,5) l1 by (cases "t' = t"; cases "t' \<in> set ts") auto
  qed
  moreover have "spares_all w w2" using s1 w2(3) by (simp add: spares_all_def)
  ultimately show ?case using e(1) w2 l1 by simp
qed (simp add: spares_all_def)



definition create_fails :: "unit res_oracle" where
  "create_fails q d = (case q of Q_Create r \<Rightarrow> Inl ENOMEM | _ \<Rightarrow> Inr 100, d)"

text \<open>
  A pin that fails in \<open>vmw_resource_validate\<close> leaves the backup buffer pinned: \<open>vmw_bo_pin_reserved(vbo, true)\<close>
  comes before the validation and the error path does not undo it.
\<close>
lemma failed_pin_leaves_buffer_pinned:
  "\<exists>w'. vmw_resource_pin create_fails (Suc n) 3 busy_device = Some (w', Inl ENOMEM) \<and> \<not> pinned 3 w' \<and> bo_pins w' 100 = 1"
  by (simp add: create_fails_def busy_device_def surface_res_def res_eval pinned_def)

end
