(* ===== verification/Reservation.thy ===== *)
theory Reservation
  imports Vmw_Prelude "HOL-Library.Monad_Syntax" "HOL-Library.Multiset"
begin

text \<open>
  The fences of a buffer, \<open>src/core/reservation.c\<close>: one exclusive fence and a list of shared fences, of which
  there is at most one per fence context. Room for a shared fence is reserved first, which may fail for want of
  memory; adding it afterwards may not.

  Fences are numbers, and \<open>ctx\<close> gives the context of a fence. An update returns the references it drops, so
  that the references can be accounted for. A write past the end of a list and a \<open>BUG_ON\<close> are \<open>None\<close>. The
  readers are modelled with no update running beside them, which would only make them start over.
\<close>

section \<open>Data\<close>

record reservation_object_list =
  rl_max :: nat
  rl_shared :: "nat list"        \<comment> \<open>the first \<open>shared_count\<close> slots\<close>

record reservation_object =
  ro_excl :: "nat option"
  ro_fence :: "reservation_object_list option"
  ro_staged :: "nat option"      \<comment> \<open>\<open>shared_max\<close> of the staged list, whose slots are not yet set\<close>

definition reservation_object_init :: reservation_object where
  "reservation_object_init = \<lparr>ro_excl = None, ro_fence = None, ro_staged = None\<rparr>"

definition shared_of :: "reservation_object \<Rightarrow> nat list" where
  "shared_of obj = (case ro_fence obj of None \<Rightarrow> [] | Some l \<Rightarrow> rl_shared l)"

section \<open>Updates\<close>

definition reservation_object_reserve_shared :: "(nat \<Rightarrow> bool) \<Rightarrow> reservation_object \<Rightarrow> reservation_object kres" where
  \<comment> \<open>\<open>krealloc_ok m\<close>: there is memory for a list of \<open>m\<close> slots\<close>
  "reservation_object_reserve_shared krealloc_ok obj =
     (let grow = (\<lambda>m. if krealloc_ok m then Inr (obj\<lparr>ro_staged := Some m\<rparr>) else Inl ENOMEM)
      in case ro_fence obj of
           Some old \<Rightarrow>
             if rl_max old \<noteq> 0
             then (if length (rl_shared old) < rl_max old then Inr (obj\<lparr>ro_staged := None\<rparr>)
                   else grow (rl_max old * 2 mod 2 ^ 32))
             else grow 4
         | None \<Rightarrow> grow 4)"

fun replace_first :: "(nat \<Rightarrow> nat) \<Rightarrow> nat \<Rightarrow> nat list \<Rightarrow> (nat list \<times> nat) option" where
  \<comment> \<open>the loop over the slots: the first fence of the context of \<open>f\<close> gives way to \<open>f\<close>\<close>
  "replace_first ctx f [] = None"
| "replace_first ctx f (g # gs) =
     (if ctx g = ctx f then Some (f # gs, g)
      else map_option (\<lambda>(hs, old). (g # hs, old)) (replace_first ctx f gs))"

definition reservation_object_add_shared_inplace ::
  "(nat \<Rightarrow> nat) \<Rightarrow> reservation_object \<Rightarrow> reservation_object_list \<Rightarrow> nat \<Rightarrow> (reservation_object \<times> nat list) option" where
  "reservation_object_add_shared_inplace ctx obj fobj f =
     (case replace_first ctx f (rl_shared fobj) of
        Some (l, old_fence) \<Rightarrow> Some (obj\<lparr>ro_fence := Some (fobj\<lparr>rl_shared := l\<rparr>)\<rparr>, [old_fence])
      | None \<Rightarrow>
          if length (rl_shared fobj) < rl_max fobj
          then Some (obj\<lparr>ro_fence := Some (fobj\<lparr>rl_shared := rl_shared fobj @ [f]\<rparr>)\<rparr>, [])
          else None)"

definition reservation_object_add_shared_replace ::
  "(nat \<Rightarrow> nat) \<Rightarrow> reservation_object \<Rightarrow> reservation_object_list option \<Rightarrow> nat \<Rightarrow> nat
     \<Rightarrow> (reservation_object \<times> nat list) option" where
  \<comment> \<open>the slots go to the staged list of \<open>m\<close> slots, which takes the place of the old one\<close>
  "reservation_object_add_shared_replace ctx obj old m f =
     (let (l, puts) = (case old of
             None \<Rightarrow> ([f], [])
           | Some o' \<Rightarrow> (case replace_first ctx f (rl_shared o') of
                 Some (l, old_fence) \<Rightarrow> (l, [old_fence])
               | None \<Rightarrow> (rl_shared o' @ [f], [])))
      in if length l \<le> m then Some (obj\<lparr>ro_fence := Some \<lparr>rl_max = m, rl_shared = l\<rparr>\<rparr>, puts) else None)"

definition reservation_object_add_shared_fence ::
  "(nat \<Rightarrow> nat) \<Rightarrow> reservation_object \<Rightarrow> nat \<Rightarrow> (reservation_object \<times> nat list) option" where
  "reservation_object_add_shared_fence ctx obj f =
     (let old = ro_fence obj; obj' = obj\<lparr>ro_staged := None\<rparr>
      in case ro_staged obj of
           None \<Rightarrow> (case old of
               None \<Rightarrow> None
             | Some o' \<Rightarrow>
                 if rl_max o' \<le> length (rl_shared o') then None
                 else reservation_object_add_shared_inplace ctx obj' o' f)
         | Some m \<Rightarrow> reservation_object_add_shared_replace ctx obj' old m f)"

definition reservation_object_add_excl_fence ::
  "reservation_object \<Rightarrow> nat option \<Rightarrow> reservation_object \<times> nat list" where
  "reservation_object_add_excl_fence obj f =
     (obj\<lparr>ro_excl := f, ro_fence := map_option (\<lambda>l. l\<lparr>rl_shared := []\<rparr>) (ro_fence obj)\<rparr>,
      rev (shared_of obj) @ (case ro_excl obj of None \<Rightarrow> [] | Some g \<Rightarrow> [g]))"

definition reservation_object_fini :: "reservation_object \<Rightarrow> nat list" where
  \<comment> \<open>the references dropped\<close>
  "reservation_object_fini obj = (case ro_excl obj of None \<Rightarrow> [] | Some g \<Rightarrow> [g]) @ shared_of obj"

section \<open>Readers\<close>

definition reservation_object_test_signaled_rcu :: "(nat \<Rightarrow> bool) \<Rightarrow> reservation_object \<Rightarrow> bool \<Rightarrow> bool" where
  "reservation_object_test_signaled_rcu signaled obj test_all =
     (if test_all \<and> shared_of obj \<noteq> [] then (\<forall>f\<in>set (shared_of obj). signaled f)
      else (case ro_excl obj of None \<Rightarrow> True | Some f \<Rightarrow> signaled f))"

text \<open>
  \<open>wait f s\<close> is \<open>dma_fence_wait_timeout\<close>: it returns the time left, zero when the time is up, or a negative
  error, and the fences signaled since.
\<close>

fun first_unsignaled :: "(nat \<Rightarrow> bool) \<Rightarrow> nat list \<Rightarrow> nat \<Rightarrow> (nat \<times> nat) option" where
  "first_unsignaled signaled [] i = None"
| "first_unsignaled signaled (f # fs) i = (if signaled f then first_unsignaled signaled fs (i + 1) else Some (i, f))"

type_synonym fence_wait = "nat \<Rightarrow> int \<Rightarrow> (nat \<Rightarrow> bool) \<Rightarrow> int \<times> (nat \<Rightarrow> bool)"

fun reservation_wait_loop :: "fence_wait \<Rightarrow> reservation_object \<Rightarrow> bool \<Rightarrow> nat \<Rightarrow> int \<Rightarrow> (nat \<Rightarrow> bool) \<Rightarrow> (int \<times> (nat \<Rightarrow> bool)) option" where
  "reservation_wait_loop wait obj wait_all 0 ret signaled = None"
| "reservation_wait_loop wait obj wait_all (Suc fuel) ret signaled =
     (let shared = (if wait_all then shared_of obj else []);
          fence = (if shared \<noteq> [] then first_unsignaled signaled shared 0
                   else (case ro_excl obj of None \<Rightarrow> None | Some f \<Rightarrow> if signaled f then None else Some (0, f)))
      in case fence of
           None \<Rightarrow> Some (ret, signaled)
         | Some (i, f) \<Rightarrow>
             (case wait f ret signaled of (ret, signaled) \<Rightarrow>
                if 0 < ret \<and> wait_all \<and> i + 1 < length shared then reservation_wait_loop wait obj wait_all fuel ret signaled
                else Some (ret, signaled)))"

definition reservation_object_wait_timeout_rcu ::
  "fence_wait \<Rightarrow> nat \<Rightarrow> reservation_object \<Rightarrow> bool \<Rightarrow> nat \<Rightarrow> (nat \<Rightarrow> bool) \<Rightarrow> (int \<times> (nat \<Rightarrow> bool)) option" where
  "reservation_object_wait_timeout_rcu wait fuel obj wait_all timeout signaled =
     reservation_wait_loop wait obj wait_all fuel (if timeout = 0 then 1 else int timeout) signaled"

section \<open>Invariant\<close>

definition resv_inv :: "(nat \<Rightarrow> nat) \<Rightarrow> reservation_object \<Rightarrow> bool" where
  "resv_inv ctx obj \<longleftrightarrow>
     (case ro_fence obj of None \<Rightarrow> True | Some l \<Rightarrow> 0 < rl_max l \<and> rl_max l < 2 ^ 31 \<and> length (rl_shared l) \<le> rl_max l)
     \<and> distinct (map ctx (shared_of obj))
     \<and> (case ro_staged obj of None \<Rightarrow> True | Some m \<Rightarrow> length (shared_of obj) < m \<and> m < 2 ^ 31)"

definition shared_room :: "reservation_object \<Rightarrow> bool" where
  \<comment> \<open>room for one more shared fence has been reserved\<close>
  "shared_room obj \<longleftrightarrow> ro_staged obj \<noteq> None \<or> (case ro_fence obj of None \<Rightarrow> False | Some l \<Rightarrow> length (rl_shared l) < rl_max l)"

definition fence_of :: "(nat \<Rightarrow> nat) \<Rightarrow> reservation_object \<Rightarrow> nat \<Rightarrow> nat option" where
  \<comment> \<open>the shared fence of a context\<close>
  "fence_of ctx obj = map_of (map (\<lambda>f. (ctx f, f)) (shared_of obj))"

definition fences :: "reservation_object \<Rightarrow> nat multiset" where
  \<comment> \<open>the references an object holds\<close>
  "fences obj = mset (shared_of obj) + (case ro_excl obj of None \<Rightarrow> {#} | Some g \<Rightarrow> {#g#})"

lemma replace_first_None: "replace_first ctx f l = None \<longleftrightarrow> ctx f \<notin> ctx ` set l"
  by (induction l) auto

lemma replace_first_Some:
  assumes "replace_first ctx f l = Some (l', g)"
  shows "length l' = length l" "map ctx l' = map ctx l" "mset l' + {#g#} = mset l + {#f#}" "ctx g = ctx f"
    "distinct (map ctx l) \<Longrightarrow> map_of (map (\<lambda>f. (ctx f, f)) l') = (map_of (map (\<lambda>f. (ctx f, f)) l))(ctx f \<mapsto> f)"
  using assms by (induction l arbitrary: l') (auto split: if_splits)

lemma map_of_snoc_new: "k \<notin> set (map fst xs) \<Longrightarrow> map_of (xs @ [(k, v)]) = (map_of xs)(k \<mapsto> v)"
  by (induction xs) auto

text \<open>The list after a fence is added, in place or in a larger list.\<close>

definition shared_add :: "(nat \<Rightarrow> nat) \<Rightarrow> nat \<Rightarrow> nat list \<Rightarrow> nat list \<times> nat list" where
  "shared_add ctx f l = (case replace_first ctx f l of Some (l', g) \<Rightarrow> (l', [g]) | None \<Rightarrow> (l @ [f], []))"

lemma shared_add_spec:
  assumes "shared_add ctx f l = (l', puts)" "distinct (map ctx l)"
  shows "length l' \<le> Suc (length l)" "distinct (map ctx l')" "mset l' + mset puts = mset l + {#f#}"
    "map_of (map (\<lambda>f. (ctx f, f)) l') = (map_of (map (\<lambda>f. (ctx f, f)) l))(ctx f \<mapsto> f)"
proof -
  have "length l' \<le> Suc (length l) \<and> distinct (map ctx l') \<and> mset l' + mset puts = mset l + {#f#}
      \<and> map_of (map (\<lambda>f. (ctx f, f)) l') = (map_of (map (\<lambda>f. (ctx f, f)) l))(ctx f \<mapsto> f)"
  proof (cases "replace_first ctx f l")
    case None
    have new: "ctx f \<notin> ctx ` set l" using replace_first_None [of ctx f l] None by simp
    have l': "l' = l @ [f]" "puts = []" using assms(1) None by (simp_all add: shared_add_def)
    show ?thesis using assms(2) new map_of_snoc_new [of "ctx f" "map (\<lambda>f. (ctx f, f)) l" f] unfolding l'
      by (simp add: image_image)
  next
    case (Some p)
    then obtain g where g: "replace_first ctx f l = Some (l', g)" "puts = [g]"
      using assms(1) by (auto simp: shared_add_def split: prod.splits)
    show ?thesis using assms(2) g(2) replace_first_Some [OF g(1)] by simp
  qed
  then show "length l' \<le> Suc (length l)" "distinct (map ctx l')" "mset l' + mset puts = mset l + {#f#}"
    "map_of (map (\<lambda>f. (ctx f, f)) l') = (map_of (map (\<lambda>f. (ctx f, f)) l))(ctx f \<mapsto> f)" by auto
qed

lemma shared_add_length: "shared_add ctx f l = (l', puts) \<Longrightarrow> length l < m \<Longrightarrow> length l' \<le> m"
  by (auto simp: shared_add_def split: option.splits dest: replace_first_Some(1))

lemma add_shared_spec:
  assumes inv: "resv_inv ctx obj" and room: "shared_room obj"
  shows "\<exists>obj' puts. reservation_object_add_shared_fence ctx obj f = Some (obj', puts) \<and> resv_inv ctx obj'
           \<and> fence_of ctx obj' = (fence_of ctx obj)(ctx f \<mapsto> f) \<and> ro_excl obj' = ro_excl obj
           \<and> fences obj' + mset puts = fences obj + {#f#}"
proof -
  obtain l puts where sa: "shared_add ctx f (shared_of obj) = (l, puts)" by fastforce
  have d: "distinct (map ctx (shared_of obj))" using inv by (simp add: resv_inv_def)
  note spec = shared_add_spec [OF sa d]
  have go: ?thesis if "reservation_object_add_shared_fence ctx obj f
      = Some (obj\<lparr>ro_staged := None, ro_fence := Some \<lparr>rl_max = m, rl_shared = l\<rparr>\<rparr>, puts)" "length l \<le> m" "0 < m" "m < 2 ^ 31" for m
    using that spec by (auto simp: resv_inv_def fence_of_def fences_def shared_of_def split: option.split)
  show ?thesis
  proof (cases "ro_staged obj")
    case (Some m)
    have "length (shared_of obj) < m" "m < 2 ^ 31" using inv Some by (simp_all add: resv_inv_def)
    then show ?thesis using Some sa shared_add_length [OF sa, of m]
      by (intro go [of m])
         (auto simp: reservation_object_add_shared_fence_def reservation_object_add_shared_replace_def shared_add_def
            shared_of_def Let_def split: option.splits)
  next
    case None
    with room obtain o' where o': "ro_fence obj = Some o'" "length (rl_shared o') < rl_max o'"
      by (auto simp: shared_room_def split: option.splits)
    then have m: "rl_max o' < 2 ^ 31" "shared_of obj = rl_shared o'" using inv by (simp_all add: resv_inv_def shared_of_def)
    then show ?thesis using None o' sa shared_add_length [OF sa, of "rl_max o'"]
      by (intro go [of "rl_max o'"])
         (auto simp: reservation_object_add_shared_fence_def reservation_object_add_shared_inplace_def shared_add_def
            split: option.splits)
  qed
qed

lemma reserve_shared_spec:
  assumes inv: "resv_inv ctx obj" and lim: "\<And>m. krealloc_ok m \<Longrightarrow> m < 2 ^ 31"
  shows "case reservation_object_reserve_shared krealloc_ok obj of
           Inl e \<Rightarrow> e = ENOMEM
         | Inr obj' \<Rightarrow> resv_inv ctx obj' \<and> shared_room obj' \<and> ro_fence obj' = ro_fence obj \<and> ro_excl obj' = ro_excl obj"
  using inv lim
  by (auto simp: reservation_object_reserve_shared_def Let_def resv_inv_def shared_room_def shared_of_def split: option.splits)

lemma init_spec: "resv_inv ctx reservation_object_init" "fences reservation_object_init = {#}"
  by (simp_all add: resv_inv_def reservation_object_init_def shared_of_def fences_def)

lemma add_excl_spec:
  assumes "resv_inv ctx obj" "reservation_object_add_excl_fence obj (Some f) = (obj', puts)"
  shows "resv_inv ctx obj'" "shared_of obj' = []" "ro_excl obj' = Some f" "fences obj' + mset puts = fences obj + {#f#}"
  using assms by (auto simp: reservation_object_add_excl_fence_def resv_inv_def shared_of_def fences_def split: option.splits)

section \<open>Waiting\<close>

lemma length_filter_less:
  assumes "x \<in> set l" "Q x" "\<not> P x" "\<And>y. P y \<Longrightarrow> Q y"
  shows "length (filter P l) < length (filter Q l)"
proof -
  have le: "length (filter P l) \<le> length (filter Q l)" for l using assms(4) by (induction l) (auto intro: le_SucI)
  show ?thesis using assms(1) le by (induction l) (auto simp: assms(2-4) less_Suc_eq_le intro: le_less_trans less_SucI)
qed

text \<open>
  What is relied on of \<open>dma_fence_wait_timeout\<close>: fences stay signaled, and time is left only when the fence
  is signaled.
\<close>

definition wait_ok :: "fence_wait \<Rightarrow> bool" where
  "wait_ok wait \<longleftrightarrow> (\<forall>f t s r s'. wait f t s = (r, s') \<longrightarrow> (\<forall>g. s g \<longrightarrow> s' g) \<and> (0 < r \<longrightarrow> s' f))"

lemma first_unsignaled_None: "first_unsignaled s l i = None \<longleftrightarrow> (\<forall>f\<in>set l. s f)"
  by (induction l arbitrary: i) auto

lemma first_unsignaled_Some:
  "first_unsignaled s l i = Some (j, f) \<Longrightarrow> i \<le> j \<and> j - i < length l \<and> l ! (j - i) = f \<and> \<not> s f \<and> (\<forall>k<j - i. s (l ! k))"
proof (induction l arbitrary: i)
  case (Cons g l)
  show ?case
  proof (cases "s g")
    case True
    then have *: "Suc i \<le> j \<and> j - Suc i < length l \<and> l ! (j - Suc i) = f \<and> \<not> s f \<and> (\<forall>k<j - Suc i. s (l ! k))"
      using Cons.IH [of "Suc i"] Cons.prems by simp
    then have "Suc i \<le> j" by blast
    then have "j - i = Suc (j - Suc i)" by linarith
    then show ?thesis using * True by (auto simp: nth_Cons split: nat.splits)
  qed (use Cons.prems in auto)
qed simp

lemma wait_loop_ok:
  assumes "wait_ok wait" "0 < ret" "length (filter (\<lambda>f. \<not> signaled f) (shared_of obj)) < fuel"
  shows "\<exists>r s. reservation_wait_loop wait obj True fuel ret signaled = Some (r, s)
           \<and> (0 < r \<longrightarrow> reservation_object_test_signaled_rcu s obj True)"
  using assms
proof (induction fuel arbitrary: ret signaled)
  case (Suc fuel)
  show ?case
  proof (cases "shared_of obj")
    case Nil
    obtain r s where w: "wait (the (ro_excl obj)) ret signaled = (r, s)" by fastforce
    then have "0 < r \<Longrightarrow> s (the (ro_excl obj))" using Suc.prems(1) unfolding wait_ok_def by blast
    then show ?thesis using Nil w by (auto simp: reservation_object_test_signaled_rcu_def split: option.splits)
  next
    case (Cons g l)
    show ?thesis
    proof (cases "first_unsignaled signaled (shared_of obj) 0")
      case None
      then show ?thesis using Cons first_unsignaled_None [of signaled "shared_of obj" 0]
        by (simp add: reservation_object_test_signaled_rcu_def del: first_unsignaled.simps)
    next
      case (Some p)
      then obtain i f where p: "first_unsignaled signaled (shared_of obj) 0 = Some (i, f)" by (cases p) auto
      have if': "i < length (shared_of obj)" "shared_of obj ! i = f" "\<not> signaled f" "\<forall>k<i. signaled (shared_of obj ! k)"
        using first_unsignaled_Some [OF p] by auto
      obtain r s where w: "wait f ret signaled = (r, s)" by fastforce
      have mono: "\<And>g. signaled g \<Longrightarrow> s g" and fin: "0 < r \<Longrightarrow> s f" using Suc.prems(1) w unfolding wait_ok_def by blast+
      have unfold: "reservation_wait_loop wait obj True (Suc fuel) ret signaled =
          (if 0 < r \<and> i + 1 < length (shared_of obj) then reservation_wait_loop wait obj True fuel r s else Some (r, s))"
        using p w Cons by (simp add: Let_def del: first_unsignaled.simps)
      show ?thesis
      proof (cases "0 < r \<and> i + 1 < length (shared_of obj)")
        case True
        have "length (filter (\<lambda>f. \<not> s f) (shared_of obj)) < length (filter (\<lambda>f. \<not> signaled f) (shared_of obj))"
          using if' mono fin True by (intro length_filter_less [of f]) (auto simp: set_conv_nth)
        then show ?thesis using Suc.IH [OF Suc.prems(1), of r s] Suc.prems(3) True unfold by simp
      next
        case False
        have "s (shared_of obj ! k)" if "0 < r" "k < length (shared_of obj)" for k
          using that False if' mono fin by (cases "k = i") (auto simp: not_less)
        then have "\<forall>f\<in>set (shared_of obj). s f" if "0 < r" using that by (auto simp: in_set_conv_nth)
        moreover have "reservation_wait_loop wait obj True (Suc fuel) ret signaled = Some (r, s)"
          unfolding unfold using False by auto
        ultimately show ?thesis using Cons by (simp add: reservation_object_test_signaled_rcu_def del: reservation_wait_loop.simps)
      qed
    qed
  qed
qed simp

section \<open>What the reservation object guarantees\<close>

text \<open>
  C31: Once \<open>reservation_object_reserve_shared\<close> has found room, adding a shared fence cannot fail: no \<open>BUG_ON\<close>
  and no write past the list. The shared fences are then what they were, as a map from fence contexts to
  fences, with the context of the new fence mapped to it, and every fence reference is either still held or
  dropped exactly once. Without room the call fails with \<open>-ENOMEM\<close>.
\<close>
theorem shared_fences_refine_map:
  assumes "resv_inv ctx obj" "\<forall>m. krealloc_ok m \<longrightarrow> m < 2 ^ 31"
  shows "case reservation_object_reserve_shared krealloc_ok obj of
           Inl e \<Rightarrow> e = ENOMEM
         | Inr obj1 \<Rightarrow> fence_of ctx obj1 = fence_of ctx obj
             \<and> (\<exists>obj2 puts. reservation_object_add_shared_fence ctx obj1 f = Some (obj2, puts) \<and> resv_inv ctx obj2
                  \<and> fence_of ctx obj2 = (fence_of ctx obj)(ctx f \<mapsto> f) \<and> ro_excl obj2 = ro_excl obj
                  \<and> fences obj2 + mset puts = fences obj + {#f#})"
proof (cases "reservation_object_reserve_shared krealloc_ok obj")
  case (Inl e)
  then show ?thesis using reserve_shared_spec [OF assms(1), of krealloc_ok] assms(2) by simp
next
  case (Inr obj1)
  then have r: "resv_inv ctx obj1" "shared_room obj1" "ro_fence obj1 = ro_fence obj" "ro_excl obj1 = ro_excl obj"
    using reserve_shared_spec [OF assms(1), of krealloc_ok] assms(2) by simp_all
  have "shared_of obj1 = shared_of obj" using r(3) by (simp add: shared_of_def)
  then have "fence_of ctx obj1 = fence_of ctx obj" "fences obj1 = fences obj"
    using r(4) by (simp_all add: fence_of_def fences_def)
  then show ?thesis using Inr add_shared_spec [OF r(1,2), of f] r(4) by simp
qed

theorem shared_fences_refine_map_witness:
  "\<exists>obj2 puts. reservation_object_add_shared_fence (\<lambda>f. f mod 10) (reservation_object_init\<lparr>ro_staged := Some 4\<rparr>) 17 = Some (obj2, puts)
     \<and> fence_of (\<lambda>f. f mod 10) obj2 7 = Some 17"
proof -
  have "reservation_object_reserve_shared (\<lambda>m. m < 100) reservation_object_init = Inr (reservation_object_init\<lparr>ro_staged := Some 4\<rparr>)"
    by (simp add: reservation_object_reserve_shared_def reservation_object_init_def)
  then show ?thesis
    using shared_fences_refine_map [OF init_spec(1) [of "\<lambda>f. f mod 10"], of "\<lambda>m. m < 100" 17] by auto
qed

text \<open>\<open>reservation_object_wait_timeout_rcu\<close> for all fences ends after at most one round per shared fence that is
  not signaled, and one more; when it reports time left, \<open>reservation_object_test_signaled_rcu\<close> agrees that
  the buffer is idle.
\<close>
lemma reservation_wait_all_returns:
  assumes "wait_ok wait" "length (shared_of obj) < fuel"
  shows "\<exists>r s. reservation_object_wait_timeout_rcu wait fuel obj True timeout signaled = Some (r, s)
           \<and> (0 < r \<longrightarrow> reservation_object_test_signaled_rcu s obj True)"
proof -
  have "length (filter (\<lambda>f. \<not> signaled f) (shared_of obj)) < fuel"
    by (rule le_less_trans [OF length_filter_le assms(2)])
  then show ?thesis using wait_loop_ok [OF assms(1), of "if timeout = 0 then 1 else int timeout"]
    by (simp add: reservation_object_wait_timeout_rcu_def)
qed

lemma reservation_wait_all_returns_example:
  "\<exists>r s. reservation_object_wait_timeout_rcu (\<lambda>f t s. (t, s(f := True))) 3
     (reservation_object_init\<lparr>ro_fence := Some \<lparr>rl_max = 4, rl_shared = [5, 6]\<rparr>\<rparr>) True 9 (\<lambda>f. False) = Some (r, s)
     \<and> (0 < r \<longrightarrow> reservation_object_test_signaled_rcu s
          (reservation_object_init\<lparr>ro_fence := Some \<lparr>rl_max = 4, rl_shared = [5, 6]\<rparr>\<rparr>) True)"
  by (rule reservation_wait_all_returns) (simp_all add: wait_ok_def shared_of_def)

text \<open>
  With shared fences the exclusive fence is not looked at, not even when all fences are asked for.
\<close>
lemma test_all_skips_exclusive_fence:
  "shared_of obj \<noteq> [] \<Longrightarrow> reservation_object_test_signaled_rcu s (obj\<lparr>ro_excl := Some f\<rparr>) True
     = reservation_object_test_signaled_rcu s obj True"
  by (simp add: reservation_object_test_signaled_rcu_def shared_of_def)

end
