(* ===== verification/Ttm_Eu.thy ===== *)
theory Ttm_Eu
  imports Reservation
begin

text \<open>
  Reservation of the buffers of a submission, \<open>src/ttm/ttm_execbuf_util.c\<close>: all buffers of a list are locked,
  in list order; a lock that would deadlock makes the code drop everything, wait for that one lock, and start
  over with it. Reserved buffers are off the lists eviction takes its victims from.

  What the \<open>ww_mutex\<close> code, the memory allocator and other tasks do is one parameter \<open>ask\<close>, which answers
  queries and carries a state of its own. Of the mutex the model fixes that a task which holds it gets
  \<open>-EALREADY\<close>, or \<open>-EBUSY\<close> from a trylock; an unlock of a mutex that is not held, a wait for one's own
  mutex and a \<open>BUG_ON\<close> are \<open>None\<close>. The lists of eviction and swapping are kept as membership flags.
\<close>

section \<open>Data\<close>

record ttm_validate_buffer =
  vb_bo :: nat
  vb_shared :: bool

record eu_bo =
  bo_held :: bool                \<comment> \<open>\<open>resv->lock\<close> is held by this task\<close>
  bo_no_evict :: bool            \<comment> \<open>\<open>TTM_PL_FLAG_NO_EVICT\<close> in \<open>mem.placement\<close>\<close>
  bo_swappable :: bool           \<comment> \<open>\<open>ttm\<close> is there and not \<open>TTM_PAGE_FLAG_SG\<close>\<close>
  bo_on_lru :: bool
  bo_on_swap :: bool
  bo_list_kref :: nat
  bo_resv :: reservation_object

record 'd eu_world =
  eu_bos :: "nat \<Rightarrow> eu_bo"
  eu_env :: 'd

datatype eu_query =
    Q_Lock nat | Q_Lock_Interruptible nat | Q_Trylock nat | Q_Lock_Slow nat | Q_Lock_Slow_Interruptible nat
  | Q_Krealloc nat | Q_Cpu_Writers nat

type_synonym 'd eu_oracle = "eu_query \<Rightarrow> 'd \<Rightarrow> nat kres \<times> 'd"

definition eu_ask :: "'d eu_oracle \<Rightarrow> eu_query \<Rightarrow> 'd eu_world \<Rightarrow> nat kres \<times> 'd eu_world" where
  "eu_ask ask q w = (case ask q (eu_env w) of (a, d) \<Rightarrow> (a, w\<lparr>eu_env := d\<rparr>))"

definition set_bo :: "nat \<Rightarrow> (eu_bo \<Rightarrow> eu_bo) \<Rightarrow> 'd eu_world \<Rightarrow> 'd eu_world" where
  "set_bo b f w = w\<lparr>eu_bos := (eu_bos w)(b := f (eu_bos w b))\<rparr>"

definition held :: "'d eu_world \<Rightarrow> nat \<Rightarrow> bool" where
  "held w b = bo_held (eu_bos w b)"

section \<open>Locks and lists\<close>

definition take_lock :: "'d eu_oracle \<Rightarrow> eu_query \<Rightarrow> nat \<Rightarrow> 'd eu_world \<Rightarrow> 'd eu_world \<times> unit kres" where
  "take_lock ask q b w = (case eu_ask ask q w of
      (Inl e, w) \<Rightarrow> (w, Inl e)
    | (Inr _, w) \<Rightarrow> (set_bo b (\<lambda>bo. bo\<lparr>bo_held := True\<rparr>) w, Inr ()))"

definition ttm_bo_reserve :: "'d eu_oracle \<Rightarrow> nat \<Rightarrow> bool \<Rightarrow> bool \<Rightarrow> 'd eu_world \<Rightarrow> 'd eu_world \<times> unit kres" where
  \<comment> \<open>\<open>__ttm_bo_reserve(bo, interruptible, ticket == NULL, ticket)\<close>\<close>
  "ttm_bo_reserve ask b interruptible ticket w =
     (if \<not> ticket
      then (if held w b then (w, Inl EBUSY)
            else (case take_lock ask (Q_Trylock b) b w of (w, Inl _) \<Rightarrow> (w, Inl EBUSY) | r \<Rightarrow> r))
      else if held w b then (w, Inl EALREADY)
      else (case take_lock ask (if interruptible then Q_Lock_Interruptible b else Q_Lock b) b w of
              (w, Inl e) \<Rightarrow> (w, Inl (if e = EINTR then ERESTARTSYS else e))
            | r \<Rightarrow> r))"

definition ttm_bo_unreserve :: "nat \<Rightarrow> 'd eu_world \<Rightarrow> 'd eu_world option" where
  "ttm_bo_unreserve b w = (if held w b then Some (set_bo b (\<lambda>bo. bo\<lparr>bo_held := False\<rparr>) w) else None)"

definition ttm_bo_add_to_lru :: "nat \<Rightarrow> 'd eu_world \<Rightarrow> 'd eu_world option" where
  "ttm_bo_add_to_lru b w =
     (let bo = eu_bos w b in
      if bo_no_evict bo then Some w
      else if bo_on_lru bo then None
      else Some (set_bo b (\<lambda>bo. if bo_swappable bo
                  then bo\<lparr>bo_on_lru := True, bo_on_swap := True, bo_list_kref := bo_list_kref bo + 2\<rparr>
                  else bo\<lparr>bo_on_lru := True, bo_list_kref := bo_list_kref bo + 1\<rparr>) w))"

definition kref_put_list :: "nat \<Rightarrow> nat option" where
  \<comment> \<open>\<open>kref_put(&bo->list_kref, ttm_bo_ref_bug)\<close>\<close>
  "kref_put_list n = (if n \<le> 1 then None else Some (n - 1))"

definition ttm_bo_del_from_lru :: "nat \<Rightarrow> 'd eu_world \<Rightarrow> 'd eu_world option" where
  "ttm_bo_del_from_lru b w = do {
     n \<leftarrow> (if bo_on_swap (eu_bos w b) then kref_put_list (bo_list_kref (eu_bos w b)) else Some (bo_list_kref (eu_bos w b)));
     n \<leftarrow> (if bo_on_lru (eu_bos w b) then kref_put_list n else Some n);
     Some (set_bo b (\<lambda>bo. bo\<lparr>bo_on_lru := False, bo_on_swap := False, bo_list_kref := n\<rparr>) w) }"

section \<open>Reserving a list\<close>

fun ttm_eu_backoff_reservation_reverse :: "'n ttm_validate_buffer_scheme list \<Rightarrow> 'd eu_world \<Rightarrow> 'd eu_world option" where
  \<comment> \<open>the entries before the current one, nearest first\<close>
  "ttm_eu_backoff_reservation_reverse [] w = Some w"
| "ttm_eu_backoff_reservation_reverse (e # es) w = do {
     w \<leftarrow> ttm_bo_unreserve (vb_bo e) w;
     ttm_eu_backoff_reservation_reverse es w }"

fun ttm_eu_del_from_lru_locked :: "'n ttm_validate_buffer_scheme list \<Rightarrow> 'd eu_world \<Rightarrow> 'd eu_world option" where
  "ttm_eu_del_from_lru_locked [] w = Some w"
| "ttm_eu_del_from_lru_locked (e # es) w = do {
     w \<leftarrow> ttm_bo_del_from_lru (vb_bo e) w;
     ttm_eu_del_from_lru_locked es w }"

fun backoff_list :: "'n ttm_validate_buffer_scheme list \<Rightarrow> 'd eu_world \<Rightarrow> 'd eu_world option" where
  "backoff_list [] w = Some w"
| "backoff_list (e # es) w = do {
     w \<leftarrow> ttm_bo_add_to_lru (vb_bo e) w;
     w \<leftarrow> ttm_bo_unreserve (vb_bo e) w;
     backoff_list es w }"

definition ttm_eu_backoff_reservation :: "'n ttm_validate_buffer_scheme list \<Rightarrow> 'd eu_world \<Rightarrow> 'd eu_world option" where
  "ttm_eu_backoff_reservation l w = backoff_list l w"

definition reserve_shared :: "'d eu_oracle \<Rightarrow> 'n ttm_validate_buffer_scheme \<Rightarrow> 'd eu_world \<Rightarrow> 'd eu_world \<times> unit kres" where
  \<comment> \<open>\<open>reservation_object_reserve_shared\<close>, for a shared entry; no allocation reaches \<open>2 ^ 31\<close> slots\<close>
  "reserve_shared ask e w =
     (if \<not> vb_shared e then (w, Inr ())
      else (case eu_ask ask (Q_Krealloc (vb_bo e)) w of (a, w) \<Rightarrow>
          (case reservation_object_reserve_shared (\<lambda>m. a \<noteq> Inl ENOMEM \<and> m < 2 ^ 31) (bo_resv (eu_bos w (vb_bo e))) of
             Inl x \<Rightarrow> (w, Inl x)
           | Inr resv \<Rightarrow> (set_bo (vb_bo e) (\<lambda>bo. bo\<lparr>bo_resv := resv\<rparr>) w, Inr ()))))"

definition reserve_entry ::
  "'d eu_oracle \<Rightarrow> bool \<Rightarrow> bool \<Rightarrow> 'n ttm_validate_buffer_scheme \<Rightarrow> 'd eu_world \<Rightarrow> ('d eu_world \<times> unit kres) option" where
  \<comment> \<open>the lock, dropped again when the buffer is open for CPU access\<close>
  "reserve_entry ask ticket intr e w =
     (case ttm_bo_reserve ask (vb_bo e) intr ticket w of
        (w, Inl x) \<Rightarrow> Some (w, Inl x)
      | (w, Inr _) \<Rightarrow>
          (case eu_ask ask (Q_Cpu_Writers (vb_bo e)) w of
             (a, w) \<Rightarrow>
               if (case a of Inr n \<Rightarrow> 0 < n | Inl _ \<Rightarrow> False)
               then map_option (\<lambda>w. (w, Inl EBUSY)) (ttm_bo_unreserve (vb_bo e) w)
               else Some (w, Inr ())))"

definition lock_slow ::
  "'d eu_oracle \<Rightarrow> bool \<Rightarrow> 'n ttm_validate_buffer_scheme \<Rightarrow> kerr \<Rightarrow> 'd eu_world \<Rightarrow> ('d eu_world \<times> unit kres) option" where
  "lock_slow ask intr e x w =
     (if x \<noteq> EDEADLK then Some (w, Inl x)
      else if held w (vb_bo e) then None
      else if intr then Some (take_lock ask (Q_Lock_Slow_Interruptible (vb_bo e)) (vb_bo e) w)
      else (case eu_ask ask (Q_Lock_Slow (vb_bo e)) w of
          (_, w) \<Rightarrow> Some (set_bo (vb_bo e) (\<lambda>bo. bo\<lparr>bo_held := True\<rparr>) w, Inr ())))"

text \<open>
  The loop: \<open>acc\<close> holds the entries before the current one, which are reserved, \<open>todo\<close> the others. After a
  back-off the entry goes to the front and the loop continues behind it.
\<close>

fun eu_reserve_loop ::
  "'d eu_oracle \<Rightarrow> bool \<Rightarrow> bool \<Rightarrow> nat \<Rightarrow> 'n ttm_validate_buffer_scheme list \<Rightarrow> 'n ttm_validate_buffer_scheme list
     \<Rightarrow> 'n ttm_validate_buffer_scheme list option \<Rightarrow> 'd eu_world
     \<Rightarrow> ('d eu_world \<times> 'n ttm_validate_buffer_scheme list \<times> 'n ttm_validate_buffer_scheme list option \<times> unit kres) option" where
  "eu_reserve_loop ask ticket intr 0 acc todo dups w = None"
| "eu_reserve_loop ask ticket intr (Suc fuel) acc [] dups w = Some (w, acc, dups, Inr ())"
| "eu_reserve_loop ask ticket intr (Suc fuel) acc (e # todo) dups w = do {
     (w, ret) \<leftarrow> reserve_entry ask ticket intr e w;
     if ret = Inl EALREADY \<and> dups \<noteq> None
     then eu_reserve_loop ask ticket intr fuel acc todo (map_option ((#) e) dups) w
     else do {
       (w, ret) \<leftarrow> Some (case ret of Inr _ \<Rightarrow> reserve_shared ask e w | Inl x \<Rightarrow> (w, Inl x));
       (case ret of
          Inr _ \<Rightarrow> eu_reserve_loop ask ticket intr fuel (acc @ [e]) todo dups w
        | Inl x \<Rightarrow> do {
            w \<leftarrow> ttm_eu_backoff_reservation_reverse (rev acc) w;
            (w, ret) \<leftarrow> lock_slow ask intr e x w;
            (w, ret) \<leftarrow> Some (case ret of Inr _ \<Rightarrow> reserve_shared ask e w | Inl y \<Rightarrow> (w, Inl y));
            (case ret of
               Inl y \<Rightarrow> Some (w, acc @ e # todo, dups, Inl (if y = EINTR then ERESTARTSYS else y))
             | Inr _ \<Rightarrow> eu_reserve_loop ask ticket intr fuel [e] (acc @ todo) dups w) }) } }"

definition ttm_eu_reserve_buffers ::
  "'d eu_oracle \<Rightarrow> nat \<Rightarrow> bool \<Rightarrow> bool \<Rightarrow> 'n ttm_validate_buffer_scheme list \<Rightarrow> 'n ttm_validate_buffer_scheme list option
     \<Rightarrow> 'd eu_world
     \<Rightarrow> ('d eu_world \<times> 'n ttm_validate_buffer_scheme list \<times> 'n ttm_validate_buffer_scheme list option \<times> unit kres) option" where
  "ttm_eu_reserve_buffers ask fuel ticket intr l dups w =
     (if l = [] then Some (w, l, dups, Inr ())
      else do {
        (w, l, dups, ret) \<leftarrow> eu_reserve_loop ask ticket intr fuel [] l dups w;
        (case ret of
           Inl x \<Rightarrow> Some (w, l, dups, Inl x)
         | Inr _ \<Rightarrow> map_option (\<lambda>w. (w, l, dups, Inr ())) (ttm_eu_del_from_lru_locked l w)) })"

section \<open>Fencing\<close>

definition add_fence :: "(nat \<Rightarrow> nat) \<Rightarrow> nat \<Rightarrow> 'n ttm_validate_buffer_scheme \<Rightarrow> 'd eu_world \<Rightarrow> 'd eu_world option" where
  \<comment> \<open>the references that the reservation object drops are returned to \<open>dma_fence_put\<close>\<close>
  "add_fence ctx fence e w =
     (let resv = bo_resv (eu_bos w (vb_bo e)) in
      if vb_shared e
      then map_option (\<lambda>(resv, _). set_bo (vb_bo e) (\<lambda>bo. bo\<lparr>bo_resv := resv\<rparr>) w) (reservation_object_add_shared_fence ctx resv fence)
      else Some (set_bo (vb_bo e) (\<lambda>bo. bo\<lparr>bo_resv := fst (reservation_object_add_excl_fence resv (Some fence))\<rparr>) w))"

fun fence_list :: "(nat \<Rightarrow> nat) \<Rightarrow> nat \<Rightarrow> 'n ttm_validate_buffer_scheme list \<Rightarrow> 'd eu_world \<Rightarrow> 'd eu_world option" where
  "fence_list ctx fence [] w = Some w"
| "fence_list ctx fence (e # es) w = do {
     w \<leftarrow> add_fence ctx fence e w;
     w \<leftarrow> ttm_bo_add_to_lru (vb_bo e) w;
     w \<leftarrow> ttm_bo_unreserve (vb_bo e) w;
     fence_list ctx fence es w }"

definition ttm_eu_fence_buffer_objects :: "(nat \<Rightarrow> nat) \<Rightarrow> nat \<Rightarrow> 'n ttm_validate_buffer_scheme list \<Rightarrow> 'd eu_world \<Rightarrow> 'd eu_world option" where
  "ttm_eu_fence_buffer_objects ctx fence l w = fence_list ctx fence l w"

section \<open>The locks a task holds\<close>

definition locked :: "(nat \<Rightarrow> eu_bo) \<Rightarrow> nat set \<Rightarrow> nat \<Rightarrow> eu_bo" where
  "locked bos S b = (if b \<in> S then (bos b)\<lparr>bo_held := True\<rparr> else bos b)"

definition free_in :: "(nat \<Rightarrow> eu_bo) \<Rightarrow> nat list \<Rightarrow> bool" where
  "free_in bos bs \<longleftrightarrow> distinct bs \<and> (\<forall>b\<in>set bs. \<not> bo_held (bos b))"

abbreviation bo_list :: "'n ttm_validate_buffer_scheme list \<Rightarrow> nat list" where
  "bo_list es \<equiv> map vb_bo es"

lemma set_bo_sel [simp]: "eu_bos (set_bo b f w) = (eu_bos w)(b := f (eu_bos w b))" "eu_env (set_bo b f w) = eu_env w"
  by (simp_all add: set_bo_def)

lemma eu_ask_sel: "eu_ask ask q w = (a, w') \<Longrightarrow> eu_bos w' = eu_bos w \<and> ask q (eu_env w) = (a, eu_env w')"
  by (auto simp: eu_ask_def split: prod.splits)

lemma locked_empty [simp]: "locked bos {} = bos"
  by (simp add: locked_def fun_eq_iff)

lemma locked_insert: "(locked bos S)(b := (locked bos S b)\<lparr>bo_held := True\<rparr>) = locked bos (insert b S)"
  by (auto simp: locked_def fun_eq_iff)

lemma locked_remove: "\<not> bo_held (bos b) \<Longrightarrow> (locked bos (insert b S))(b := (locked bos (insert b S) b)\<lparr>bo_held := False\<rparr>) = locked bos (S - {b})"
  by (auto simp: locked_def fun_eq_iff)

lemma backoff_reverse_ok:
  assumes "eu_bos w = locked bos (set (bo_list es))" "free_in bos (bo_list es)"
  shows "\<exists>w'. ttm_eu_backoff_reservation_reverse es w = Some w' \<and> eu_bos w' = bos \<and> eu_env w' = eu_env w"
  using assms
proof (induction es arbitrary: w)
  case (Cons e es)
  let ?b = "vb_bo e"
  define w1 where "w1 = set_bo ?b (\<lambda>bo. bo\<lparr>bo_held := False\<rparr>) w"
  have u: "ttm_bo_unreserve ?b w = Some w1" using Cons.prems by (simp add: ttm_bo_unreserve_def held_def locked_def w1_def)
  have "eu_bos w1 = locked bos (set (bo_list es))" "eu_env w1 = eu_env w"
    using Cons.prems locked_remove [of bos ?b "set (bo_list es)"] by (auto simp: w1_def free_in_def)
  then show ?case using Cons.IH [of w1] Cons.prems(2) u by (auto simp: free_in_def)
qed simp

text \<open>
  What makes the loop end: the mutexes report a deadlock only so often, as the competing tasks get their turn.
  \<open>patience\<close> bounds the reports still to come.
\<close>

definition contention_ends :: "('d \<Rightarrow> nat) \<Rightarrow> 'd eu_oracle \<Rightarrow> bool" where
  "contention_ends patience ask \<longleftrightarrow> (\<forall>q d a d'. ask q d = (a, d') \<longrightarrow>
     patience d' \<le> patience d \<and> (a = Inl EDEADLK \<longrightarrow> patience d' < patience d))"

definition calmer :: "('d \<Rightarrow> nat) \<Rightarrow> 'd eu_oracle \<Rightarrow> 'd eu_world \<Rightarrow> 'd eu_world \<Rightarrow> bool" where
  "calmer patience ask w w' \<longleftrightarrow> (contention_ends patience ask \<longrightarrow> patience (eu_env w') \<le> patience (eu_env w))"

lemma calmer_refl [simp]: "calmer p ask w w"
  by (simp add: calmer_def)

lemma calmer_trans: "calmer p ask w w' \<Longrightarrow> calmer p ask w' w'' \<Longrightarrow> calmer p ask w w''"
  by (auto simp: calmer_def)

lemma calmer_set_bo [simp]: "calmer p ask w (set_bo b f w') = calmer p ask w w'"
  by (simp add: calmer_def)

lemma eu_ask_calmer:
  assumes "eu_ask ask q w = (a, w')"
  shows "calmer p ask w w'" "contention_ends p ask \<Longrightarrow> a = Inl EDEADLK \<Longrightarrow> p (eu_env w') < p (eu_env w)"
  using eu_ask_sel [OF assms] unfolding calmer_def contention_ends_def by blast+

lemma take_lock_ok:
  assumes "take_lock ask q b w = (w', ret)"
  shows "calmer p ask w w'" "contention_ends p ask \<Longrightarrow> ret = Inl EDEADLK \<Longrightarrow> p (eu_env w') < p (eu_env w)"
    "eu_bos w' = (case ret of Inl _ \<Rightarrow> eu_bos w | Inr _ \<Rightarrow> (eu_bos w)(b := (eu_bos w b)\<lparr>bo_held := True\<rparr>))"
proof -
  obtain a w1 where a: "eu_ask ask q w = (a, w1)" by fastforce
  note s = eu_ask_sel [OF a] and c = eu_ask_calmer [OF a, of p]
  from assms a s c show "calmer p ask w w'" "contention_ends p ask \<Longrightarrow> ret = Inl EDEADLK \<Longrightarrow> p (eu_env w') < p (eu_env w)"
    "eu_bos w' = (case ret of Inl _ \<Rightarrow> eu_bos w | Inr _ \<Rightarrow> (eu_bos w)(b := (eu_bos w b)\<lparr>bo_held := True\<rparr>))"
    by (auto simp: take_lock_def split: sum.splits)
qed

lemma bo_reserve_ok:
  assumes "ttm_bo_reserve ask b intr ticket w = (w', ret)"
  shows "calmer p ask w w'" "contention_ends p ask \<Longrightarrow> ret = Inl EDEADLK \<Longrightarrow> p (eu_env w') < p (eu_env w)"
    "eu_bos w' = (case ret of Inl _ \<Rightarrow> eu_bos w | Inr _ \<Rightarrow> (eu_bos w)(b := (eu_bos w b)\<lparr>bo_held := True\<rparr>))"
    "ret = Inr () \<or> ret = Inl EDEADLK \<Longrightarrow> \<not> held w b"
proof -
  obtain w1 r1 where t1: "take_lock ask (Q_Trylock b) b w = (w1, r1)" by fastforce
  obtain w2 r2 where t2: "take_lock ask (if intr then Q_Lock_Interruptible b else Q_Lock b) b w = (w2, r2)" by fastforce
  note k1 = take_lock_ok [OF t1] and k2 = take_lock_ok [OF t2]
  from assms t1 t2 k1 k2 show "calmer p ask w w'" "contention_ends p ask \<Longrightarrow> ret = Inl EDEADLK \<Longrightarrow> p (eu_env w') < p (eu_env w)"
    "eu_bos w' = (case ret of Inl _ \<Rightarrow> eu_bos w | Inr _ \<Rightarrow> (eu_bos w)(b := (eu_bos w b)\<lparr>bo_held := True\<rparr>))"
    "ret = Inr () \<or> ret = Inl EDEADLK \<Longrightarrow> \<not> held w b"
    by (auto simp: ttm_bo_reserve_def split: if_splits sum.splits)
qed

lemma reserve_entry_ok:
  assumes "eu_bos w = locked bos (set bs)"
  shows "\<exists>w' ret. reserve_entry ask ticket intr e w = Some (w', ret) \<and> calmer p ask w w'
     \<and> (contention_ends p ask \<longrightarrow> ret = Inl EDEADLK \<longrightarrow> p (eu_env w') < p (eu_env w))
     \<and> (ret = Inl EDEADLK \<longrightarrow> \<not> bo_held (bos (vb_bo e)))
     \<and> (case ret of Inl _ \<Rightarrow> eu_bos w' = eu_bos w
        | Inr _ \<Rightarrow> vb_bo e \<notin> set bs \<and> \<not> bo_held (bos (vb_bo e)) \<and> eu_bos w' = locked bos (insert (vb_bo e) (set bs)))"
proof -
  let ?b = "vb_bo e"
  obtain w1 r1 where r: "ttm_bo_reserve ask ?b intr ticket w = (w1, r1)" by fastforce
  note k = bo_reserve_ok [OF r]
  show ?thesis
  proof (cases r1)
    case (Inl x)
    have "r1 = Inl EDEADLK \<Longrightarrow> \<not> bo_held (bos ?b)" using k(4) assms by (auto simp: held_def locked_def split: if_splits)
    with Inl r k show ?thesis by (auto simp: reserve_entry_def)
  next
    case (Inr u)
    obtain a w2 where a: "eu_ask ask (Q_Cpu_Writers ?b) w1 = (a, w2)" by fastforce
    note s = eu_ask_sel [OF a] and c = eu_ask_calmer(1) [OF a, of p]
    have b1: "eu_bos w2 = (eu_bos w)(?b := (eu_bos w ?b)\<lparr>bo_held := True\<rparr>)" using k(3) s Inr by simp
    have n: "?b \<notin> set bs" "\<not> bo_held (bos ?b)" using k(4) Inr assms by (auto simp: held_def locked_def split: if_splits)
    have l: "eu_bos w2 = locked bos (insert ?b (set bs))" using b1 assms locked_insert by simp
    have u: "ttm_bo_unreserve ?b w2 = Some (set_bo ?b (\<lambda>bo. bo\<lparr>bo_held := False\<rparr>) w2)"
      using b1 by (simp add: ttm_bo_unreserve_def held_def)
    have "eu_bos (set_bo ?b (\<lambda>bo. bo\<lparr>bo_held := False\<rparr>) w2) = eu_bos w"
      using l assms locked_remove [of bos ?b "set bs"] n by simp
    moreover have "calmer p ask w w2" using calmer_trans [OF k(1) c] .
    ultimately show ?thesis using r Inr a u n l by (auto simp: reserve_entry_def)
  qed
qed

lemma lock_slow_ok:
  assumes "eu_bos w = bos" "x = EDEADLK \<Longrightarrow> \<not> bo_held (bos (vb_bo e))"
  shows "\<exists>w' ret. lock_slow ask intr e x w = Some (w', ret) \<and> calmer p ask w w'
     \<and> (case ret of Inl _ \<Rightarrow> eu_bos w' = bos | Inr _ \<Rightarrow> x = EDEADLK \<and> eu_bos w' = locked bos {vb_bo e})"
proof -
  let ?b = "vb_bo e"
  obtain w1 r1 where t: "take_lock ask (Q_Lock_Slow_Interruptible ?b) ?b w = (w1, r1)" by fastforce
  obtain a w2 where a: "eu_ask ask (Q_Lock_Slow ?b) w = (a, w2)" by fastforce
  have "bos(?b := (bos ?b)\<lparr>bo_held := True\<rparr>) = locked bos {?b}" by (auto simp: locked_def)
  then show ?thesis
    using assms t a take_lock_ok [OF t] eu_ask_sel [OF a] eu_ask_calmer(1) [OF a, of p]
    by (cases r1) (auto simp: lock_slow_def held_def)
qed

text \<open>
  The outcome of the loop on exclusive entries: on success all buffers are locked and nothing else has changed,
  on failure nothing has.
\<close>

definition reserve_outcome ::
  "(nat \<Rightarrow> eu_bo) \<Rightarrow> 'n ttm_validate_buffer_scheme list \<Rightarrow> 'd eu_world \<times> 'n ttm_validate_buffer_scheme list \<times> 'n ttm_validate_buffer_scheme list option \<times> unit kres \<Rightarrow> bool" where
  "reserve_outcome bos l r = (case r of (w', l', dups', ret) \<Rightarrow>
     mset l' = mset l \<and> dups' = None
     \<and> (case ret of Inl _ \<Rightarrow> eu_bos w' = bos | Inr _ \<Rightarrow> free_in bos (bo_list l') \<and> eu_bos w' = locked bos (set (bo_list l'))))"

lemma reserve_shared_excl: "\<not> vb_shared e \<Longrightarrow> reserve_shared ask e w = (w, Inr ())"
  by (simp add: reserve_shared_def)

lemma reserve_outcome_mset: "mset l = mset l' \<Longrightarrow> reserve_outcome bos l = reserve_outcome bos l'"
  by (simp add: reserve_outcome_def fun_eq_iff split: prod.split)

text \<open>
  The claim about a state of the loop: it ends when the fuel covers the deadlocks still to come, and its outcome
  concerns all the entries. A step of the loop carries it back when it permutes the entries and lowers the bound.
\<close>

definition loop_ok :: "('d \<Rightarrow> nat) \<Rightarrow> 'd eu_oracle \<Rightarrow> (nat \<Rightarrow> eu_bo) \<Rightarrow> bool \<Rightarrow> bool \<Rightarrow> nat \<Rightarrow>
    'n ttm_validate_buffer_scheme list \<Rightarrow> 'n ttm_validate_buffer_scheme list \<Rightarrow> 'd eu_world \<Rightarrow> bool" where
  "loop_ok p ask bos ticket intr fuel acc todo w \<longleftrightarrow>
     (contention_ends p ask \<longrightarrow> p (eu_env w) * Suc (length (acc @ todo)) + length todo < fuel
        \<longrightarrow> eu_reserve_loop ask ticket intr fuel acc todo None w \<noteq> None) \<and>
     (\<forall>r. eu_reserve_loop ask ticket intr fuel acc todo None w = Some r \<longrightarrow> reserve_outcome bos (acc @ todo) r)"

lemma loop_ok_step:
  assumes ok: "loop_ok p ask bos ticket intr fuel acc' todo' w'"
    and step: "eu_reserve_loop ask ticket intr (Suc fuel) acc todo None w = eu_reserve_loop ask ticket intr fuel acc' todo' None w'"
    and perm: "mset (acc' @ todo') = mset (acc @ todo)"
    and less: "contention_ends p ask \<Longrightarrow> p (eu_env w') * Suc (length (acc @ todo)) + length todo' <
       p (eu_env w) * Suc (length (acc @ todo)) + length todo"
  shows "loop_ok p ask bos ticket intr (Suc fuel) acc todo w"
proof -
  have len: "length (acc' @ todo') = length (acc @ todo)" using perm by (rule mset_eq_length)
  have same: "reserve_outcome bos (acc' @ todo') = reserve_outcome bos (acc @ todo)"
    using perm by (rule reserve_outcome_mset)
  show ?thesis
    using ok less unfolding loop_ok_def step len same by (meson less_Suc_eq_le order_less_le_trans)
qed

lemma reserve_loop_entry:
  fixes e :: "'n ttm_validate_buffer_scheme"
  assumes IH: "\<And>(acc :: 'n ttm_validate_buffer_scheme list) todo w. eu_bos w = locked bos (set (bo_list acc)) \<Longrightarrow> free_in bos (bo_list acc) \<Longrightarrow>
      \<forall>e\<in>set (acc @ todo). \<not> vb_shared e \<Longrightarrow> loop_ok p ask bos ticket intr fuel acc todo w"
    and w: "eu_bos w = locked bos (set (bo_list acc))" and free: "free_in bos (bo_list acc)"
    and ne: "\<forall>e\<in>set (acc @ e # es). \<not> vb_shared e"
    and r: "reserve_entry ask ticket intr e w = Some (w1, Inr u)" "calmer p ask w w1"
      "vb_bo e \<notin> set (bo_list acc)" "\<not> bo_held (bos (vb_bo e))" "eu_bos w1 = locked bos (insert (vb_bo e) (set (bo_list acc)))"
  shows "loop_ok p ask bos ticket intr (Suc fuel) acc (e # es) w"
proof (rule loop_ok_step)
  show "loop_ok p ask bos ticket intr fuel (acc @ [e]) es w1"
    by (rule IH) (use r(3-) ne free in \<open>auto simp: free_in_def\<close>)
  show "eu_reserve_loop ask ticket intr (Suc fuel) acc (e # es) None w = eu_reserve_loop ask ticket intr fuel (acc @ [e]) es None w1"
    using r(1) ne by (simp add: reserve_shared_excl)
  show "p (eu_env w1) * Suc (length (acc @ e # es)) + length es < p (eu_env w) * Suc (length (acc @ e # es)) + length (e # es)"
    if "contention_ends p ask"
  proof -
    have "p (eu_env w1) * Suc (length (acc @ e # es)) \<le> p (eu_env w) * Suc (length (acc @ e # es))"
      using r(2) that by (intro mult_le_mono1) (simp add: calmer_def)
    then show ?thesis by simp
  qed
qed simp

lemma reserve_loop_backoff:
  fixes e :: "'n ttm_validate_buffer_scheme"
  assumes IH: "\<And>(acc :: 'n ttm_validate_buffer_scheme list) todo w. eu_bos w = locked bos (set (bo_list acc)) \<Longrightarrow> free_in bos (bo_list acc) \<Longrightarrow>
      \<forall>e\<in>set (acc @ todo). \<not> vb_shared e \<Longrightarrow> loop_ok p ask bos ticket intr fuel acc todo w"
    and w: "eu_bos w = locked bos (set (bo_list acc))" and free: "free_in bos (bo_list acc)"
    and ne: "\<forall>e\<in>set (acc @ e # es). \<not> vb_shared e"
    and r: "reserve_entry ask ticket intr e w = Some (w1, Inl x)" "eu_bos w1 = eu_bos w"
      "contention_ends p ask \<Longrightarrow> x = EDEADLK \<Longrightarrow> p (eu_env w1) < p (eu_env w)"
      "x = EDEADLK \<Longrightarrow> \<not> bo_held (bos (vb_bo e))"
  shows "loop_ok p ask bos ticket intr (Suc fuel) acc (e # es) w"
proof -
  have "free_in bos (bo_list (rev acc))" "eu_bos w1 = locked bos (set (bo_list (rev acc)))"
    using w free r(2) by (auto simp: free_in_def rev_map [symmetric])
  then obtain w2 where w2: "ttm_eu_backoff_reservation_reverse (rev acc) w1 = Some w2" "eu_bos w2 = bos" "eu_env w2 = eu_env w1"
    using backoff_reverse_ok by blast
  obtain w3 ret3 where w3: "lock_slow ask intr e x w2 = Some (w3, ret3)" "calmer p ask w2 w3"
      "case ret3 of Inl _ \<Rightarrow> eu_bos w3 = bos | Inr _ \<Rightarrow> x = EDEADLK \<and> eu_bos w3 = locked bos {vb_bo e}"
    using lock_slow_ok [OF w2(2), of x e ask intr p] r(4) by blast
  show ?thesis
  proof (cases ret3)
    case (Inl y)
    have "eu_reserve_loop ask ticket intr (Suc fuel) acc (e # es) None w = Some (w3, acc @ e # es, None, Inl (if y = EINTR then ERESTARTSYS else y))"
      using r(1) w2(1) w3(1) Inl by simp
    then show ?thesis using w3(3) Inl by (simp add: loop_ok_def reserve_outcome_def)
  next
    case (Inr u)
    show ?thesis
    proof (rule loop_ok_step)
      show "loop_ok p ask bos ticket intr fuel [e] (acc @ es) w3"
        by (rule IH) (use Inr w3(3) r(4) ne in \<open>auto simp: free_in_def\<close>)
      show "eu_reserve_loop ask ticket intr (Suc fuel) acc (e # es) None w = eu_reserve_loop ask ticket intr fuel [e] (acc @ es) None w3"
        using r(1) w2(1) w3(1) Inr ne by (simp add: reserve_shared_excl)
      show "p (eu_env w3) * Suc (length (acc @ e # es)) + length (acc @ es) < p (eu_env w) * Suc (length (acc @ e # es)) + length (e # es)"
        if "contention_ends p ask"
      proof -
        have "p (eu_env w3) < p (eu_env w)" using that r(3) w3(2,3) w2(3) Inr by (auto simp: calmer_def)
        then have "Suc (p (eu_env w3)) * Suc (length (acc @ e # es)) \<le> p (eu_env w) * Suc (length (acc @ e # es))"
          by (intro mult_le_mono1) simp
        then show ?thesis by simp
      qed
    qed simp
  qed
qed

lemma reserve_loop_ok:
  assumes "eu_bos w = locked bos (set (bo_list acc))" "free_in bos (bo_list acc)" "\<forall>e\<in>set (acc @ todo). \<not> vb_shared e"
  shows "loop_ok p ask bos ticket intr fuel acc todo w"
  using assms
proof (induction fuel arbitrary: acc todo w)
  case 0
  then show ?case by (simp add: loop_ok_def)
next
  case (Suc fuel)
  show ?case
  proof (cases todo)
    case Nil
    with Suc.prems show ?thesis by (auto simp: loop_ok_def reserve_outcome_def)
  next
    case (Cons e es)
    obtain w1 ret1 where r: "reserve_entry ask ticket intr e w = Some (w1, ret1)" "calmer p ask w w1"
        "contention_ends p ask \<longrightarrow> ret1 = Inl EDEADLK \<longrightarrow> p (eu_env w1) < p (eu_env w)"
        "ret1 = Inl EDEADLK \<longrightarrow> \<not> bo_held (bos (vb_bo e))"
        "case ret1 of Inl _ \<Rightarrow> eu_bos w1 = eu_bos w
          | Inr _ \<Rightarrow> vb_bo e \<notin> set (bo_list acc) \<and> \<not> bo_held (bos (vb_bo e)) \<and> eu_bos w1 = locked bos (insert (vb_bo e) (set (bo_list acc)))"
      using reserve_entry_ok [OF Suc.prems(1), of ask ticket intr e p] by blast
    note prems = Suc.prems [unfolded Cons]
    show ?thesis
    proof (cases ret1)
      case (Inl x)
      show ?thesis unfolding Cons
        by (rule reserve_loop_backoff [OF Suc.IH prems r(1) [unfolded Inl]]) (use r Inl in auto)
    next
      case (Inr u)
      show ?thesis unfolding Cons
        by (rule reserve_loop_entry [OF Suc.IH prems r(1) [unfolded Inr] r(2)]) (use r Inr in auto)
    qed
  qed
qed

section \<open>Walking a list of buffers\<close>

definition at_bos :: "nat set \<Rightarrow> (eu_bo \<Rightarrow> eu_bo) \<Rightarrow> (nat \<Rightarrow> eu_bo) \<Rightarrow> nat \<Rightarrow> eu_bo" where
  "at_bos S f bos b = (if b \<in> S then f (bos b) else bos b)"

text \<open>
  The three walks over a list of distinct buffers change each buffer once, by the same update.
\<close>

lemma walk_ok:
  assumes nil: "\<And>w. g [] w = Some w" and cons: "\<And>e es w. g (e # es) w = Option.bind (step e w) (g es)"
    and step: "\<And>e w. e \<in> set l \<Longrightarrow> P (eu_bos w (vb_bo e)) \<Longrightarrow>
      \<exists>w'. step e w = Some w' \<and> eu_bos w' = (eu_bos w)(vb_bo e := f (eu_bos w (vb_bo e)))"
    and d: "distinct (bo_list l)" and P: "\<And>b. b \<in> set (bo_list l) \<Longrightarrow> P (eu_bos w b)"
  shows "\<exists>w'. g l w = Some w' \<and> eu_bos w' = at_bos (set (bo_list l)) f (eu_bos w)"
  using step d P
proof (induction l arbitrary: w)
  case Nil
  then show ?case by (simp add: nil at_bos_def fun_eq_iff)
next
  case (Cons e es)
  let ?b = "vb_bo e"
  have "e \<in> set (e # es)" "P (eu_bos w ?b)" using Cons.prems(3) [of ?b] by simp_all
  from Cons.prems(1) [OF this] obtain w1 where w1: "step e w = Some w1" "eu_bos w1 = (eu_bos w)(?b := f (eu_bos w ?b))"
    by blast
  have "P (eu_bos w1 b)" if b: "b \<in> set (bo_list es)" for b
  proof -
    have "?b \<notin> set (bo_list es)" using Cons.prems(2) by simp
    then have "b \<noteq> ?b" using b by blast
    then show ?thesis using b Cons.prems(3) [of b] w1(2) by simp
  qed
  then obtain w2 where w2: "g es w1 = Some w2" "eu_bos w2 = at_bos (set (bo_list es)) f (eu_bos w1)"
    using Cons.IH [of w1] Cons.prems(1,2) by auto
  have "eu_bos w2 = at_bos (set (bo_list (e # es))) f (eu_bos w)"
    using w2(2) w1(2) Cons.prems(2) by (auto simp: at_bos_def fun_eq_iff)
  then show ?case using w1(1) w2(1) by (simp add: cons)
qed

text \<open>
  A buffer at rest is on the lists its placement calls for, and each list has a reference to it; so has its owner.
\<close>

definition counted :: "eu_bo \<Rightarrow> bool" where
  "counted bo \<longleftrightarrow> of_bool (bo_on_lru bo) + of_bool (bo_on_swap bo) < bo_list_kref bo"

definition at_rest :: "eu_bo \<Rightarrow> bool" where
  "at_rest bo \<longleftrightarrow> \<not> bo_held bo \<and> bo_on_lru bo = (\<not> bo_no_evict bo) \<and> bo_on_swap bo = (\<not> bo_no_evict bo \<and> bo_swappable bo)
     \<and> counted bo"

definition reserved_bo :: "eu_bo \<Rightarrow> eu_bo" where
  "reserved_bo bo = bo\<lparr>bo_held := True, bo_on_lru := False, bo_on_swap := False,
     bo_list_kref := bo_list_kref bo - of_bool (bo_on_lru bo) - of_bool (bo_on_swap bo)\<rparr>"

definition off_lists :: "eu_bo \<Rightarrow> eu_bo" where
  "off_lists bo = bo\<lparr>bo_on_lru := False, bo_on_swap := False,
     bo_list_kref := bo_list_kref bo - of_bool (bo_on_lru bo) - of_bool (bo_on_swap bo)\<rparr>"

definition released_bo :: "eu_bo \<Rightarrow> eu_bo" where
  "released_bo bo = (let on = \<not> bo_no_evict bo in
     bo\<lparr>bo_held := False, bo_on_lru := on \<or> bo_on_lru bo, bo_on_swap := (on \<and> bo_swappable bo) \<or> bo_on_swap bo,
       bo_list_kref := bo_list_kref bo + of_bool on + of_bool (on \<and> bo_swappable bo)\<rparr>)"

lemma del_lru_step:
  assumes "of_bool (bo_on_lru (eu_bos w b)) + of_bool (bo_on_swap (eu_bos w b)) < bo_list_kref (eu_bos w b)"
  shows "\<exists>w'. ttm_bo_del_from_lru b w = Some w' \<and> eu_bos w' = (eu_bos w)(b := off_lists (eu_bos w b))"
  using assms by (cases "bo_on_lru (eu_bos w b)"; cases "bo_on_swap (eu_bos w b)")
    (auto simp: ttm_bo_del_from_lru_def kref_put_list_def off_lists_def)

lemma release_step:
  assumes "bo_held (eu_bos w b)" "bo_on_lru (eu_bos w b) \<longrightarrow> bo_no_evict (eu_bos w b)"
  shows "\<exists>w'. Option.bind (ttm_bo_add_to_lru b w) (ttm_bo_unreserve b) = Some w' \<and> eu_bos w' = (eu_bos w)(b := released_bo (eu_bos w b))"
  using assms by (auto simp: ttm_bo_add_to_lru_def ttm_bo_unreserve_def held_def released_bo_def Let_def)

lemma del_lru_list_ok:
  assumes "distinct (bo_list l)"
    "\<And>b. b \<in> set (bo_list l) \<Longrightarrow> of_bool (bo_on_lru (eu_bos w b)) + of_bool (bo_on_swap (eu_bos w b)) < bo_list_kref (eu_bos w b)"
  shows "\<exists>w'. ttm_eu_del_from_lru_locked l w = Some w' \<and> eu_bos w' = at_bos (set (bo_list l)) off_lists (eu_bos w)"
  by (rule walk_ok [where step = "\<lambda>e. ttm_bo_del_from_lru (vb_bo e)"
        and P = "\<lambda>bo. of_bool (bo_on_lru bo) + of_bool (bo_on_swap bo) < bo_list_kref bo"])
     (use assms del_lru_step in auto)

lemma backoff_list_ok:
  assumes "distinct (bo_list l)" "\<And>b. b \<in> set (bo_list l) \<Longrightarrow> bo_held (eu_bos w b) \<and> (bo_on_lru (eu_bos w b) \<longrightarrow> bo_no_evict (eu_bos w b))"
  shows "\<exists>w'. backoff_list l w = Some w' \<and> eu_bos w' = at_bos (set (bo_list l)) released_bo (eu_bos w)"
  by (rule walk_ok [where step = "\<lambda>e w. Option.bind (ttm_bo_add_to_lru (vb_bo e) w) (ttm_bo_unreserve (vb_bo e))"
        and P = "\<lambda>bo. bo_held bo \<and> (bo_on_lru bo \<longrightarrow> bo_no_evict bo)"])
     (use assms release_step in auto)

lemma at_bos_mset: "mset l' = mset l \<Longrightarrow> at_bos (set (bo_list l')) f = at_bos (set (bo_list l)) f"
  by (metis mset_map set_mset_mset)

lemma free_in_mset: "mset l' = mset l \<Longrightarrow> free_in bos (bo_list l') = free_in bos (bo_list l)"
  unfolding free_in_def by (metis mset_map mset_eq_imp_distinct_iff set_mset_mset)

lemma reserve_buffers_ok:
  assumes excl: "\<forall>e\<in>set l. \<not> vb_shared e" and cnt: "\<forall>b. counted (eu_bos w b)"
  shows "(contention_ends p ask \<longrightarrow> p (eu_env w) * Suc (length l) + length l < fuel
            \<longrightarrow> ttm_eu_reserve_buffers ask fuel ticket intr l None w \<noteq> None)
       \<and> (\<forall>w' l' dups' ret. ttm_eu_reserve_buffers ask fuel ticket intr l None w = Some (w', l', dups', ret) \<longrightarrow> mset l' = mset l
            \<and> (case ret of Inl _ \<Rightarrow> eu_bos w' = eu_bos w
               | Inr _ \<Rightarrow> free_in (eu_bos w) (bo_list l) \<and> eu_bos w' = at_bos (set (bo_list l)) reserved_bo (eu_bos w)))"
proof (cases "l = []")
  case True
  then show ?thesis by (simp add: ttm_eu_reserve_buffers_def free_in_def at_bos_def fun_eq_iff)
next
  case False
  note loop = reserve_loop_ok [of w "eu_bos w" "[]" l p ask ticket intr fuel, unfolded loop_ok_def]
  have pre: "free_in (eu_bos w) (bo_list [])" "\<forall>e\<in>set ([] @ l). \<not> vb_shared e" using excl by (simp_all add: free_in_def)
  show ?thesis
  proof (cases "eu_reserve_loop ask ticket intr fuel [] l None w")
    case None
    then show ?thesis using loop pre False by (auto simp: ttm_eu_reserve_buffers_def)
  next
    case (Some r)
    obtain w1 l1 d1 ret1 where r: "r = (w1, l1, d1, ret1)" by (cases r) auto
    have out: "reserve_outcome (eu_bos w) l (w1, l1, d1, ret1)" using loop pre Some r by simp
    have m: "mset l1 = mset l" using out by (simp add: reserve_outcome_def)
    show ?thesis
    proof (cases ret1)
      case (Inl x)
      then show ?thesis using out Some r False by (simp add: ttm_eu_reserve_buffers_def reserve_outcome_def)
    next
      case (Inr u)
      have f: "free_in (eu_bos w) (bo_list l1)" and b1: "eu_bos w1 = locked (eu_bos w) (set (bo_list l1))"
        using out Inr by (simp_all add: reserve_outcome_def)
      have "counted (eu_bos w1 b)" for b using cnt b1 by (simp add: counted_def locked_def)
      then obtain w2 where w2: "ttm_eu_del_from_lru_locked l1 w1 = Some w2" "eu_bos w2 = at_bos (set (bo_list l1)) off_lists (eu_bos w1)"
        using del_lru_list_ok [of l1 w1] f by (auto simp: free_in_def counted_def)
      have "eu_bos w2 = at_bos (set (bo_list l1)) reserved_bo (eu_bos w)"
        using w2(2) b1 by (auto simp: fun_eq_iff at_bos_def locked_def off_lists_def reserved_bo_def)
      then have "eu_bos w2 = at_bos (set (bo_list l)) reserved_bo (eu_bos w)" using at_bos_mset [OF m] by metis
      then show ?thesis using Some r Inr False w2(1) m f free_in_mset [OF m] by (simp add: ttm_eu_reserve_buffers_def)
    qed
  qed
qed

lemma fence_step:
  assumes "\<not> vb_shared e" "bo_held (eu_bos w (vb_bo e))" "bo_on_lru (eu_bos w (vb_bo e)) \<longrightarrow> bo_no_evict (eu_bos w (vb_bo e))"
  shows "\<exists>w'. do { w \<leftarrow> add_fence ctx fence e w; w \<leftarrow> ttm_bo_add_to_lru (vb_bo e) w; ttm_bo_unreserve (vb_bo e) w } = Some w'
     \<and> eu_bos w' = (eu_bos w)(vb_bo e := (released_bo (eu_bos w (vb_bo e)))
          \<lparr>bo_resv := fst (reservation_object_add_excl_fence (bo_resv (eu_bos w (vb_bo e))) (Some fence))\<rparr>)"
  using assms by (auto simp: add_fence_def ttm_bo_add_to_lru_def ttm_bo_unreserve_def held_def released_bo_def Let_def)

lemma fence_list_ok:
  assumes excl: "\<forall>e\<in>set l. \<not> vb_shared e" and d: "distinct (bo_list l)"
    and h: "\<And>b. b \<in> set (bo_list l) \<Longrightarrow> bo_held (eu_bos w b) \<and> (bo_on_lru (eu_bos w b) \<longrightarrow> bo_no_evict (eu_bos w b))"
  shows "\<exists>w'. fence_list ctx fence l w = Some w' \<and> eu_bos w' = at_bos (set (bo_list l))
     (\<lambda>bo. (released_bo bo)\<lparr>bo_resv := fst (reservation_object_add_excl_fence (bo_resv bo) (Some fence))\<rparr>) (eu_bos w)"
proof (rule walk_ok [where step = "\<lambda>e w. do { w \<leftarrow> add_fence ctx fence e w; w \<leftarrow> ttm_bo_add_to_lru (vb_bo e) w; ttm_bo_unreserve (vb_bo e) w }"
        and P = "\<lambda>bo. bo_held bo \<and> (bo_on_lru bo \<longrightarrow> bo_no_evict bo)"], goal_cases)
  case (3 e w)
  then show ?case using excl by (intro fence_step) auto
qed (use d h in auto)

lemma released_reserved: "at_rest bo \<Longrightarrow> released_bo (reserved_bo bo) = bo"
  by (cases bo) (auto simp: at_rest_def counted_def released_bo_def reserved_bo_def Let_def)

text \<open>The state after a successful reservation, as the two ways of releasing find it.\<close>

lemma reserved_list:
  assumes excl: "\<forall>e\<in>set l. \<not> vb_shared e" and rest: "\<forall>b. at_rest (eu_bos w b)"
    and r: "ttm_eu_reserve_buffers ask fuel ticket intr l None w = Some (w1, l1, dups1, Inr ())"
  shows "mset l1 = mset l" "set (bo_list l1) = set (bo_list l)" "set l1 = set l" "distinct (bo_list l1)"
    "eu_bos w1 = at_bos (set (bo_list l1)) reserved_bo (eu_bos w)"
    "\<And>b. b \<in> set (bo_list l1) \<Longrightarrow> bo_held (eu_bos w1 b) \<and> (bo_on_lru (eu_bos w1 b) \<longrightarrow> bo_no_evict (eu_bos w1 b))"
proof -
  have cnt: "\<forall>b. counted (eu_bos w b)" using rest by (simp add: at_rest_def)
  have f: "free_in (eu_bos w) (bo_list l)" and b1: "eu_bos w1 = at_bos (set (bo_list l)) reserved_bo (eu_bos w)"
    and m: "mset l1 = mset l"
    using reserve_buffers_ok [OF excl cnt, of "\<lambda>_. 0" ask fuel ticket intr] r by auto
  show "mset l1 = mset l" by (rule m)
  show s: "set (bo_list l1) = set (bo_list l)" by (metis m mset_map set_mset_mset)
  show "set l1 = set l" by (metis m set_mset_mset)
  show "distinct (bo_list l1)" using f free_in_mset [OF m] by (auto simp: free_in_def)
  show b1': "eu_bos w1 = at_bos (set (bo_list l1)) reserved_bo (eu_bos w)" unfolding s by (rule b1)
  show "bo_held (eu_bos w1 b) \<and> (bo_on_lru (eu_bos w1 b) \<longrightarrow> bo_no_evict (eu_bos w1 b))" if "b \<in> set (bo_list l1)" for b
    using that unfolding b1' by (simp add: at_bos_def reserved_bo_def)
qed

lemma reserve_backoff:
  assumes excl: "\<forall>e\<in>set l. \<not> vb_shared e" and rest: "\<forall>b. at_rest (eu_bos w b)"
    and r: "ttm_eu_reserve_buffers ask fuel ticket intr l None w = Some (w1, l1, dups1, Inr ())"
  shows "\<exists>w2. ttm_eu_backoff_reservation l1 w1 = Some w2 \<and> eu_bos w2 = eu_bos w"
proof -
  note k = reserved_list [OF excl rest r]
  obtain w2 where w2: "backoff_list l1 w1 = Some w2" "eu_bos w2 = at_bos (set (bo_list l1)) released_bo (eu_bos w1)"
    using backoff_list_ok [OF k(4,6)] by blast
  have "eu_bos w2 = eu_bos w" using rest released_reserved unfolding w2(2) k(5) by (auto simp: fun_eq_iff at_bos_def)
  then show ?thesis using w2(1) by (simp add: ttm_eu_backoff_reservation_def)
qed

lemma reserve_fence:
  assumes excl: "\<forall>e\<in>set l. \<not> vb_shared e" and rest: "\<forall>b. at_rest (eu_bos w b)"
    and r: "ttm_eu_reserve_buffers ask fuel ticket intr l None w = Some (w1, l1, dups1, Inr ())"
  shows "\<exists>w3. ttm_eu_fence_buffer_objects ctx fence l1 w1 = Some w3
     \<and> (\<forall>b. eu_bos w3 b = (if b \<in> set (bo_list l) then (eu_bos w b)\<lparr>bo_resv :=
          fst (reservation_object_add_excl_fence (bo_resv (eu_bos w b)) (Some fence))\<rparr> else eu_bos w b))"
proof -
  note k = reserved_list [OF excl rest r]
  obtain w3 where w3: "fence_list ctx fence l1 w1 = Some w3" "eu_bos w3 = at_bos (set (bo_list l1))
     (\<lambda>bo. (released_bo bo)\<lparr>bo_resv := fst (reservation_object_add_excl_fence (bo_resv bo) (Some fence))\<rparr>) (eu_bos w1)"
    using fence_list_ok [OF _ k(4,6), of ctx fence] excl k(3) by blast
  have "eu_bos w3 b = (if b \<in> set (bo_list l) then (eu_bos w b)\<lparr>bo_resv :=
      fst (reservation_object_add_excl_fence (bo_resv (eu_bos w b)) (Some fence))\<rparr> else eu_bos w b)" for b
    using rest released_reserved [of "eu_bos w b"] unfolding w3(2) k(5) k(2) by (simp add: at_bos_def reserved_bo_def)
  then show ?thesis using w3(1) by (simp add: ttm_eu_fence_buffer_objects_def)
qed

section \<open>What reservation guarantees\<close>

text \<open>A world of idle buffers, and mutexes that report one deadlock, on buffer 2, and then give way.\<close>

definition idle_bo :: eu_bo where
  "idle_bo = \<lparr>bo_held = False, bo_no_evict = False, bo_swappable = True, bo_on_lru = True, bo_on_swap = True, bo_list_kref = 3,
     bo_resv = reservation_object_init\<rparr>"

definition idle_world :: "nat eu_world" where
  "idle_world = \<lparr>eu_bos = (\<lambda>_. idle_bo), eu_env = 1\<rparr>"

definition one_deadlock :: "nat eu_oracle" where
  "one_deadlock q d = (if q = Q_Lock 2 \<and> 0 < d then (Inl EDEADLK, d - 1) else (Inr 0, d))"

definition two_entries :: "ttm_validate_buffer list" where
  "two_entries = [\<lparr>vb_bo = 1, vb_shared = False\<rparr>, \<lparr>vb_bo = 2, vb_shared = False\<rparr>]"

lemma idle_at_rest: "\<forall>b. at_rest (eu_bos idle_world b)" "\<forall>b. counted (eu_bos idle_world b)"
  by (simp_all add: at_rest_def counted_def idle_world_def idle_bo_def)

lemma two_entries_excl: "\<forall>e\<in>set two_entries. \<not> vb_shared e"
  by (simp add: two_entries_def)

lemma one_deadlock_ends: "contention_ends (\<lambda>d. d) one_deadlock"
  by (auto simp: contention_ends_def one_deadlock_def split: if_splits)

lemmas eu_eval = ttm_eu_reserve_buffers_def two_entries_def reserve_entry_def ttm_bo_reserve_def take_lock_def eu_ask_def
  one_deadlock_def idle_world_def idle_bo_def held_def set_bo_def reserve_shared_def lock_slow_def ttm_bo_unreserve_def
  ttm_bo_del_from_lru_def kref_put_list_def

lemma two_entries_reserved:
  "\<exists>w' l'. ttm_eu_reserve_buffers one_deadlock 9 True False two_entries None idle_world = Some (w', l', None, Inr ())"
  by (simp add: eu_eval eval_nat_numeral)

text \<open>
  C12: \<open>ttm_eu_reserve_buffers\<close> on exclusive entries is all or nothing. When it succeeds every buffer of the list
  is reserved by this task, was not before, is listed once, and is off the lists of eviction and swapping, its
  list references returned. When it fails, after any number of deadlocks and back-offs, no buffer has changed.
  Other buffers never change, and the list is only reordered.
\<close>
theorem eu_reserve_all_or_nothing:
  assumes "\<forall>e\<in>set l. \<not> vb_shared e" "\<forall>b. counted (eu_bos w b)"
    and "ttm_eu_reserve_buffers ask fuel ticket intr l None w = Some (w', l', dups', ret)"
  shows "mset l' = mset l
    \<and> (case ret of
         Inl _ \<Rightarrow> eu_bos w' = eu_bos w
       | Inr _ \<Rightarrow> distinct (bo_list l)
           \<and> (\<forall>b. if b \<in> set (bo_list l) then \<not> held w b \<and> eu_bos w' b = reserved_bo (eu_bos w b) else eu_bos w' b = eu_bos w b))"
  using reserve_buffers_ok [OF assms(1,2), of "\<lambda>_. 0" ask fuel ticket intr] assms(3)
  by (auto simp: free_in_def at_bos_def held_def split: sum.splits)

theorem eu_reserve_all_or_nothing_witness:
  "\<exists>w' l'. ttm_eu_reserve_buffers one_deadlock 9 True False two_entries None idle_world = Some (w', l', None, Inr ())
     \<and> mset l' = mset two_entries \<and> eu_bos w' 2 = reserved_bo idle_bo \<and> eu_bos w' 3 = idle_bo"
proof -
  obtain w' l' where r: "ttm_eu_reserve_buffers one_deadlock 9 True False two_entries None idle_world = Some (w', l', None, Inr ())"
    using two_entries_reserved by blast
  note * = eu_reserve_all_or_nothing [OF two_entries_excl idle_at_rest(2) r]
  have "eu_bos w' 2 = reserved_bo idle_bo" "eu_bos w' 3 = idle_bo"
    using * [THEN conjunct2, simplified, THEN conjunct2, rule_format, of 2] * [THEN conjunct2, simplified, THEN conjunct2, rule_format, of 3]
    by (simp_all add: two_entries_def idle_world_def)
  then show ?thesis using r * by blast
qed

text \<open>
  C28: \<open>ttm_eu_reserve_buffers\<close> ends, if the mutexes report only finitely many deadlocks: with \<open>p\<close> reports to
  come and \<open>n\<close> buffers it takes at most \<open>p * (n + 1) + n + 1\<close> rounds, and it never unlocks a buffer it does
  not hold, waits for a mutex of its own, or drops a list reference that is not there.
\<close>
theorem eu_reserve_returns:
  assumes "\<forall>e\<in>set l. \<not> vb_shared e" "\<forall>b. counted (eu_bos w b)" "contention_ends patience ask"
    and "patience (eu_env w) * Suc (length l) + length l < fuel"
  shows "\<exists>r. ttm_eu_reserve_buffers ask fuel ticket intr l None w = Some r"
  using reserve_buffers_ok [OF assms(1,2), of patience ask fuel ticket intr] assms(3,4) by blast

theorem eu_reserve_returns_witness:
  "\<exists>r. ttm_eu_reserve_buffers one_deadlock 6 True False two_entries None idle_world = Some r"
  by (rule eu_reserve_returns [OF two_entries_excl idle_at_rest(2) one_deadlock_ends]) (simp add: two_entries_def idle_world_def)

text \<open>
  C33: Buffers at rest that were reserved come back unchanged, with the lists and list references they had, when
  \<open>ttm_eu_backoff_reservation\<close> releases them; released by \<open>ttm_eu_fence_buffer_objects\<close> they differ only in
  that each has the fence as its exclusive fence and no shared fence.
\<close>
theorem eu_reserve_release_roundtrip:
  assumes "\<forall>e\<in>set l. \<not> vb_shared e" "\<forall>b. at_rest (eu_bos w b)"
    and "ttm_eu_reserve_buffers ask fuel ticket intr l None w = Some (w1, l1, dups1, Inr ())"
  shows "(\<exists>w2. ttm_eu_backoff_reservation l1 w1 = Some w2 \<and> eu_bos w2 = eu_bos w)
    \<and> (\<exists>w3. ttm_eu_fence_buffer_objects ctx fence l1 w1 = Some w3
         \<and> (\<forall>b. if b \<in> set (bo_list l)
               then ro_excl (bo_resv (eu_bos w3 b)) = Some fence \<and> shared_of (bo_resv (eu_bos w3 b)) = []
                 \<and> (eu_bos w3 b)\<lparr>bo_resv := bo_resv (eu_bos w b)\<rparr> = eu_bos w b
               else eu_bos w3 b = eu_bos w b))"
proof -
  obtain w3 where w3: "ttm_eu_fence_buffer_objects ctx fence l1 w1 = Some w3"
      "\<And>b. eu_bos w3 b = (if b \<in> set (bo_list l) then (eu_bos w b)\<lparr>bo_resv :=
          fst (reservation_object_add_excl_fence (bo_resv (eu_bos w b)) (Some fence))\<rparr> else eu_bos w b)"
    using reserve_fence [OF assms] by blast
  then have "if b \<in> set (bo_list l) then ro_excl (bo_resv (eu_bos w3 b)) = Some fence \<and> shared_of (bo_resv (eu_bos w3 b)) = []
      \<and> (eu_bos w3 b)\<lparr>bo_resv := bo_resv (eu_bos w b)\<rparr> = eu_bos w b else eu_bos w3 b = eu_bos w b" for b
    by (auto simp: reservation_object_add_excl_fence_def shared_of_def split: option.splits)
  then show ?thesis using reserve_backoff [OF assms] w3(1) by simp
qed

theorem eu_reserve_release_roundtrip_witness:
  "\<exists>w1 l1 w2. ttm_eu_reserve_buffers one_deadlock 9 True False two_entries None idle_world = Some (w1, l1, None, Inr ())
     \<and> ttm_eu_backoff_reservation l1 w1 = Some w2 \<and> eu_bos w2 = eu_bos idle_world"
  using two_entries_reserved eu_reserve_release_roundtrip [OF two_entries_excl idle_at_rest(1)] by blast

text \<open>
  A shared entry whose fence slot cannot be allocated stays reserved when the call fails: the back-off starts at
  the entry before it.
\<close>
lemma failed_shared_entry_stays_reserved:
  "\<exists>w' l'. ttm_eu_reserve_buffers (\<lambda>q d. (if q = Q_Krealloc 1 then Inl ENOMEM else Inr 0, d)) (Suc n) True False
       [\<lparr>vb_bo = 1, vb_shared = True\<rparr>] None idle_world = Some (w', l', None, Inl ENOMEM) \<and> held w' 1"
  by (simp add: eu_eval reservation_object_reserve_shared_def reservation_object_init_def Let_def)

end
