(* ===== verification/Validation.thy ===== *)
theory Validation
  imports Vmw_Resource Ttm_Eu Hashtab
begin

text \<open>
  The validation of a submission, \<open>src/vmwgfx_validation.c\<close> and \<open>.h\<close>: a context lists the buffers and resources
  a submission uses, each once when duplicates are merged, and then reserves all of them, makes the buffers
  resident, and gives the resources their device ids; or backs off and leaves everything as it was.

  The state joins the resources of \<open>Vmw_Resource\<close>, the buffer reservations of \<open>Ttm_Eu\<close> and the context, whose
  duplicate table is the hash table of \<open>Hashtab\<close>. A list entry carries the address of its node, and the items
  of the table are the hash members of nodes. Following an item to a node of the other kind, or to one that
  was never filled in, is \<open>None\<close>. Page allocation, the mutex and buffer placement are answered by a parameter.
\<close>

section \<open>Data\<close>

record vmw_validation_bo_node = ttm_validate_buffer +
  bn_addr :: nat
  bn_as_mob :: bool
  bn_cpu_blit :: bool

record vmw_validation_res_node =
  rn_addr :: nat
  rn_res :: nat
  rn_new_backup :: "nat option"
  rn_new_backup_offset :: nat
  rn_no_buffer_needed :: bool
  rn_switching_backup :: bool
  rn_first_usage :: bool
  rn_reserved :: bool

datatype val_item = Bo_Item nat | Res_Item nat   \<comment> \<open>the hash member of the node at an address\<close>

record vmw_validation_context =
  vc_ht :: "val_item drm_open_hash option"
  resource_list :: "vmw_validation_res_node list"
  resource_ctx_list :: "vmw_validation_res_node list"
  vc_bo_list :: "vmw_validation_bo_node list"
  page_list :: "nat list"        \<comment> \<open>addresses of the pages\<close>
  res_mutex :: bool              \<comment> \<open>not null\<close>
  merge_dups :: bool
  mem_size_left :: nat
  page_address :: nat

datatype placement = mob_placement | vram_gmr_placement | vram_placement | nonfixed_placement

datatype val_query = Q_Alloc_Page | Q_Mutex_Lock bool | Q_Bo_Validate nat placement bool

record ('d, 'e, 'f) val_world =
  vw_res :: "'d res_world"
  vw_eu :: "'e eu_world"
  vw_ctx :: vmw_validation_context
  vw_mutex :: bool               \<comment> \<open>the reservation mutex is held by this task\<close>
  vw_env :: 'f

text \<open>What the code calls: the callbacks of the three layers, the hash function, and object addresses as keys.\<close>

record ('d, 'e, 'f) val_par =
  vp_res :: "'d res_oracle"
  vp_eu :: "'e eu_oracle"
  vp_ask :: "val_query \<Rightarrow> 'f \<Rightarrow> nat kres \<times> 'f"
  vp_hash :: hash_fn
  vp_bo_key :: "nat \<Rightarrow> u64"
  vp_res_key :: "nat \<Rightarrow> u64"
  vp_has_mob :: bool
  vp_eu_fuel :: nat

definition val_ask :: "('d, 'e, 'f) val_par \<Rightarrow> val_query \<Rightarrow> ('d, 'e, 'f) val_world \<Rightarrow> nat kres \<times> ('d, 'e, 'f) val_world" where
  "val_ask P q W = (case vp_ask P q (vw_env W) of (a, d) \<Rightarrow> (a, W\<lparr>vw_env := d\<rparr>))"

definition upd_ctx :: "(vmw_validation_context \<Rightarrow> vmw_validation_context) \<Rightarrow> ('d, 'e, 'f) val_world \<Rightarrow> ('d, 'e, 'f) val_world" where
  "upd_ctx f W = W\<lparr>vw_ctx := f (vw_ctx W)\<rparr>"

section \<open>Memory of a context\<close>

definition vmw_validation_align :: "nat \<Rightarrow> nat" where
  \<comment> \<open>\<open>ALIGN(val, sizeof(long))\<close> on \<open>unsigned int\<close>\<close>
  "vmw_validation_align val = (val + 7) mod 2 ^ 32 div 8 * 8"

definition vmw_validation_mem_alloc :: "('d, 'e, 'f) val_par \<Rightarrow> nat \<Rightarrow> ('d, 'e, 'f) val_world \<Rightarrow> ('d, 'e, 'f) val_world \<times> nat option" where
  "vmw_validation_mem_alloc P sz W =
     (let sz = vmw_validation_align sz;
          take = (\<lambda>W. (upd_ctx (\<lambda>ctx. ctx\<lparr>mem_size_left := mem_size_left ctx - sz\<rparr>) W,
                        Some (page_address (vw_ctx W) + (PAGE_SIZE - mem_size_left (vw_ctx W)))))
      in if sz > PAGE_SIZE then (W, None)
         else if mem_size_left (vw_ctx W) < sz
         then (case val_ask P Q_Alloc_Page W of
                 (Inl _, W) \<Rightarrow> (W, None)
               | (Inr page, W) \<Rightarrow>
                   take (upd_ctx (\<lambda>ctx. ctx\<lparr>page_list := page_list ctx @ [page], page_address := page, mem_size_left := PAGE_SIZE\<rparr>) W))
         else take W)"

definition vmw_validation_mem_free :: "vmw_validation_context \<Rightarrow> vmw_validation_context" where
  "vmw_validation_mem_free ctx = ctx\<lparr>page_list := [], mem_size_left := 0\<rparr>"

text \<open>\<open>sizeof\<close> of the two kinds of nodes on a 64-bit kernel.\<close>

definition bo_node_size :: nat where "bo_node_size = 64"
definition res_node_size :: nat where "res_node_size = 72"

section \<open>Duplicates\<close>

definition vmw_validation_find_bo_dup :: "('d, 'e, 'f) val_par \<Rightarrow> vmw_validation_context \<Rightarrow> nat \<Rightarrow> nat option option" where
  \<comment> \<open>the address of the node; the outer option is a pointer to the wrong kind of node\<close>
  "vmw_validation_find_bo_dup P ctx vbo =
     (if \<not> merge_dups ctx then Some None
      else (case vc_ht ctx of
              Some ht \<Rightarrow>
                (case drm_ht_find_item (vp_hash P) ht (vp_bo_key P vbo) of
                   Inl _ \<Rightarrow> Some None
                 | Inr (Bo_Item a) \<Rightarrow> Some (Some a)
                 | Inr (Res_Item _) \<Rightarrow> None)
            | None \<Rightarrow> Some (map_option bn_addr (find (\<lambda>n. vb_bo n = vbo) (vc_bo_list ctx)))))"

definition vmw_validation_find_res_dup :: "('d, 'e, 'f) val_par \<Rightarrow> vmw_validation_context \<Rightarrow> nat \<Rightarrow> nat option option" where
  "vmw_validation_find_res_dup P ctx res =
     (if \<not> merge_dups ctx then Some None
      else (case vc_ht ctx of
              Some ht \<Rightarrow>
                (case drm_ht_find_item (vp_hash P) ht (vp_res_key P res) of
                   Inl _ \<Rightarrow> Some None
                 | Inr (Res_Item a) \<Rightarrow> Some (Some a)
                 | Inr (Bo_Item _) \<Rightarrow> None)
            | None \<Rightarrow> Some (map_option rn_addr
                (case find (\<lambda>n. rn_res n = res) (resource_ctx_list ctx) of
                   Some n \<Rightarrow> Some n
                 | None \<Rightarrow> find (\<lambda>n. rn_res n = res) (resource_list ctx)))))"

definition ht_add :: "('d, 'e, 'f) val_par \<Rightarrow> u64 \<Rightarrow> val_item \<Rightarrow> ('d, 'e, 'f) val_world \<Rightarrow> ('d, 'e, 'f) val_world \<times> unit kres" where
  "ht_add P k item W =
     (case vc_ht (vw_ctx W) of
        None \<Rightarrow> (W, Inr ())
      | Some ht \<Rightarrow>
          (case drm_ht_insert_item (vp_hash P) ht \<lparr>item_key = k, item_obj = item\<rparr> of
             Inl e \<Rightarrow> (W, Inl e)
           | Inr ht' \<Rightarrow> (upd_ctx (\<lambda>ctx. ctx\<lparr>vc_ht := Some ht'\<rparr>) W, Inr ())))"

section \<open>Adding buffers and resources\<close>

definition ttm_bo_reference_unless_doomed :: "nat \<Rightarrow> ('d, 'e, 'f) val_world \<Rightarrow> ('d, 'e, 'f) val_world option" where
  \<comment> \<open>\<open>None\<close> is the null pointer\<close>
  "ttm_bo_reference_unless_doomed vbo W =
     (if bo_refs (vw_res W) vbo = 0 then None else Some (W\<lparr>vw_res := bo_get vbo (vw_res W)\<rparr>))"

definition vmw_validation_add_bo ::
  "('d, 'e, 'f) val_par \<Rightarrow> nat \<Rightarrow> bool \<Rightarrow> bool \<Rightarrow> ('d, 'e, 'f) val_world \<Rightarrow> (('d, 'e, 'f) val_world \<times> unit kres) option" where
  "vmw_validation_add_bo P vbo as_mob cpu_blit W = do {
     dup \<leftarrow> vmw_validation_find_bo_dup P (vw_ctx W) vbo;
     (case dup of
        Some a \<Rightarrow> do {
          n \<leftarrow> find (\<lambda>n. bn_addr n = a) (vc_bo_list (vw_ctx W));
          Some (W, if bn_as_mob n \<noteq> as_mob \<or> bn_cpu_blit n \<noteq> cpu_blit then Inl EINVAL else Inr ()) }
      | None \<Rightarrow>
          (case vmw_validation_mem_alloc P bo_node_size W of
             (W, None) \<Rightarrow> Some (W, Inl ENOMEM)
           | (W, Some a) \<Rightarrow>
               (case ht_add P (vp_bo_key P vbo) (Bo_Item a) W of
                  (W, Inl e) \<Rightarrow> Some (W, Inl e)
                | (W, Inr _) \<Rightarrow>
                    (case ttm_bo_reference_unless_doomed vbo W of
                       None \<Rightarrow> Some (W, Inl ESRCH)
                     | Some W \<Rightarrow>
                         Some (upd_ctx (\<lambda>ctx. ctx\<lparr>vc_bo_list := vc_bo_list ctx @
                           [\<lparr>vb_bo = vbo, vb_shared = False, bn_addr = a, bn_as_mob = as_mob, bn_cpu_blit = cpu_blit\<rparr>]\<rparr>) W,
                           Inr ()))))) }"

definition upd_res_node ::
  "nat \<Rightarrow> (vmw_validation_res_node \<Rightarrow> vmw_validation_res_node) \<Rightarrow> vmw_validation_context \<Rightarrow> vmw_validation_context" where
  "upd_res_node a f ctx = ctx\<lparr>resource_list := map (\<lambda>n. if rn_addr n = a then f n else n) (resource_list ctx),
     resource_ctx_list := map (\<lambda>n. if rn_addr n = a then f n else n) (resource_ctx_list ctx)\<rparr>"

definition list_res_node :: "bool \<Rightarrow> vmw_res_type \<Rightarrow> vmw_validation_res_node \<Rightarrow> vmw_validation_context \<Rightarrow> vmw_validation_context" where
  "list_res_node has_mob t n ctx =
     (if \<not> has_mob then ctx\<lparr>resource_list := resource_list ctx @ [n]\<rparr>
      else (case t of
              vmw_res_context \<Rightarrow> ctx\<lparr>resource_ctx_list := n # resource_ctx_list ctx\<rparr>
            | vmw_res_dx_context \<Rightarrow> ctx\<lparr>resource_ctx_list := n # resource_ctx_list ctx\<rparr>
            | vmw_res_cotable \<Rightarrow> ctx\<lparr>resource_ctx_list := resource_ctx_list ctx @ [n]\<rparr>
            | _ \<Rightarrow> ctx\<lparr>resource_list := resource_list ctx @ [n]\<rparr>))"

definition vmw_validation_add_resource ::
  "('d, 'e, 'f) val_par \<Rightarrow> nat \<Rightarrow> nat \<Rightarrow> ('d, 'e, 'f) val_world \<Rightarrow> (('d, 'e, 'f) val_world \<times> (nat \<times> bool) kres) option" where
  \<comment> \<open>returns the node, for \<open>*p_node\<close>, and \<open>first_usage\<close>\<close>
  "vmw_validation_add_resource P r priv_size W = do {
     dup \<leftarrow> vmw_validation_find_res_dup P (vw_ctx W) r;
     (case dup of
        Some a \<Rightarrow> Some (upd_ctx (upd_res_node a (\<lambda>n. n\<lparr>rn_first_usage := False\<rparr>)) W, Inr (a, False))
      | None \<Rightarrow>
          (case vmw_validation_mem_alloc P (res_node_size + priv_size) W of
             (W, None) \<Rightarrow> Some (W, Inl ENOMEM)
           | (W, Some a) \<Rightarrow>
               (case ht_add P (vp_res_key P r) (Res_Item a) W of
                  (W, Inl e) \<Rightarrow> Some (W, Inl e)
                | (W, Inr _) \<Rightarrow> do {
                    (w, ok) \<leftarrow> vmw_resource_reference_unless_doomed r (vw_res W);
                    if \<not> ok then Some (W, Inl ESRCH)
                    else do {
                      res \<leftarrow> ress w r;
                      Some (upd_ctx (list_res_node (vp_has_mob P) (rf_type (res_func res))
                              \<lparr>rn_addr = a, rn_res = r, rn_new_backup = None, rn_new_backup_offset = 0, rn_no_buffer_needed = False,
                               rn_switching_backup = False, rn_first_usage = True, rn_reserved = False\<rparr>) (W\<lparr>vw_res := w\<rparr>),
                            Inr (a, True)) } }))) }"

definition vmw_validation_res_switch_backup :: "nat \<Rightarrow> nat option \<Rightarrow> nat \<Rightarrow> vmw_validation_context \<Rightarrow> vmw_validation_context" where
  "vmw_validation_res_switch_backup a vbo backup_offset =
     upd_res_node a (\<lambda>val. val\<lparr>rn_switching_backup := True, rn_no_buffer_needed := rn_first_usage val \<or> rn_no_buffer_needed val,
       rn_new_backup := vbo, rn_new_backup_offset := backup_offset\<rparr>)"

section \<open>Reserving\<close>

definition splice_ctx_list :: "vmw_validation_context \<Rightarrow> vmw_validation_context" where
  "splice_ctx_list ctx = ctx\<lparr>resource_list := resource_ctx_list ctx @ resource_list ctx, resource_ctx_list := []\<rparr>"

fun res_unreserve_nodes :: "bool \<Rightarrow> vmw_validation_res_node list \<Rightarrow> 'd res_world \<Rightarrow> 'd res_world option" where
  "res_unreserve_nodes backoff [] w = Some w"
| "res_unreserve_nodes backoff (n # ns) w = do {
     w \<leftarrow> (if rn_reserved n
          then vmw_resource_unreserve (rn_res n) (\<not> backoff \<and> rn_switching_backup n) (rn_new_backup n) (rn_new_backup_offset n) w
          else Some w);
     res_unreserve_nodes backoff ns w }"

definition vmw_validation_res_unreserve :: "bool \<Rightarrow> ('d, 'e, 'f) val_world \<Rightarrow> ('d, 'e, 'f) val_world option" where
  "vmw_validation_res_unreserve backoff W =
     (let W = upd_ctx splice_ctx_list W
      in map_option (\<lambda>w. W\<lparr>vw_res := w\<rparr>) (res_unreserve_nodes backoff (resource_list (vw_ctx W)) (vw_res W)))"

definition add_backup_of :: "('d, 'e, 'f) val_par \<Rightarrow> nat \<Rightarrow> ('d, 'e, 'f) val_world \<Rightarrow> (('d, 'e, 'f) val_world \<times> unit kres) option" where
  "add_backup_of P r W = do {
     res \<leftarrow> ress (vw_res W) r;
     (case res_backup res of
        None \<Rightarrow> Some (W, Inr ())
      | Some vbo \<Rightarrow> vmw_validation_add_bo P vbo (rf_needs_backup (res_func res)) False W) }"

fun res_reserve_loop ::
  "('d, 'e, 'f) val_par \<Rightarrow> nat \<Rightarrow> nat \<Rightarrow> ('d, 'e, 'f) val_world \<Rightarrow> (('d, 'e, 'f) val_world \<times> unit kres) option" where
  \<comment> \<open>the nodes from position \<open>i\<close> on\<close>
  "res_reserve_loop P i 0 W = Some (W, Inr ())"
| "res_reserve_loop P i (Suc k) W =
     (let val = resource_list (vw_ctx W) ! i
      in do {
        (w, ret) \<leftarrow> vmw_resource_reserve (vp_res P) (rn_res val) (rn_no_buffer_needed val) (vw_res W);
        W \<leftarrow> Some (W\<lparr>vw_res := w\<rparr>);
        (case ret of
           Inl e \<Rightarrow> Some (W, Inl e)
         | Inr _ \<Rightarrow> do {
             W \<leftarrow> Some (upd_ctx (\<lambda>ctx. ctx\<lparr>resource_list := (resource_list ctx)[i := val\<lparr>rn_reserved := True\<rparr>]\<rparr>) W);
             (W, ret) \<leftarrow> add_backup_of P (rn_res val) W;
             (case ret of
                Inl e \<Rightarrow> Some (W, Inl e)
              | Inr _ \<Rightarrow> res_reserve_loop P (Suc i) k W) }) })"

definition vmw_validation_res_reserve ::
  "('d, 'e, 'f) val_par \<Rightarrow> ('d, 'e, 'f) val_world \<Rightarrow> (('d, 'e, 'f) val_world \<times> unit kres) option" where
  "vmw_validation_res_reserve P W = do {
     W \<leftarrow> Some (upd_ctx splice_ctx_list W);
     (W, ret) \<leftarrow> res_reserve_loop P 0 (length (resource_list (vw_ctx W))) W;
     (case ret of
        Inr _ \<Rightarrow> Some (W, Inr ())
      | Inl e \<Rightarrow> map_option (\<lambda>W. (W, Inl e)) (vmw_validation_res_unreserve True W)) }"

section \<open>Validating\<close>

definition vmw_validation_bo_reserve :: "('d, 'e, 'f) val_par \<Rightarrow> bool \<Rightarrow> ('d, 'e, 'f) val_world \<Rightarrow> (('d, 'e, 'f) val_world \<times> unit kres) option" where
  "vmw_validation_bo_reserve P intr W =
     map_option (\<lambda>(w, l, _, ret). (upd_ctx (\<lambda>ctx. ctx\<lparr>vc_bo_list := l\<rparr>) (W\<lparr>vw_eu := w\<rparr>), ret))
       (ttm_eu_reserve_buffers (vp_eu P) (vp_eu_fuel P) True intr (vc_bo_list (vw_ctx W)) None (vw_eu W))"

definition vmw_validation_bo_backoff :: "('d, 'e, 'f) val_world \<Rightarrow> ('d, 'e, 'f) val_world option" where
  "vmw_validation_bo_backoff W = map_option (\<lambda>w. W\<lparr>vw_eu := w\<rparr>) (ttm_eu_backoff_reservation (vc_bo_list (vw_ctx W)) (vw_eu W))"

definition vmw_validation_bo_fence :: "(nat \<Rightarrow> nat) \<Rightarrow> nat \<Rightarrow> ('d, 'e, 'f) val_world \<Rightarrow> ('d, 'e, 'f) val_world option" where
  "vmw_validation_bo_fence fctx fence W =
     map_option (\<lambda>w. W\<lparr>vw_eu := w\<rparr>) (ttm_eu_fence_buffer_objects fctx fence (vc_bo_list (vw_ctx W)) (vw_eu W))"

definition ttm_bo_validate ::
  "('d, 'e, 'f) val_par \<Rightarrow> nat \<Rightarrow> placement \<Rightarrow> bool \<Rightarrow> ('d, 'e, 'f) val_world \<Rightarrow> ('d, 'e, 'f) val_world \<times> unit kres" where
  "ttm_bo_validate P bo pl intr W = (case val_ask P (Q_Bo_Validate bo pl intr) W of (a, W) \<Rightarrow> (W, map_sum id (\<lambda>_. ()) a))"

definition vmw_validation_bo_validate_single ::
  "('d, 'e, 'f) val_par \<Rightarrow> nat \<Rightarrow> bool \<Rightarrow> bool \<Rightarrow> ('d, 'e, 'f) val_world \<Rightarrow> ('d, 'e, 'f) val_world \<times> unit kres" where
  "vmw_validation_bo_validate_single P bo interruptible validate_as_mob W =
     (if bo_pins (vw_res W) bo > 0 then (W, Inr ())
      else if validate_as_mob then ttm_bo_validate P bo mob_placement interruptible W
      else (case ttm_bo_validate P bo vram_gmr_placement interruptible W of (W, ret) \<Rightarrow>
              if ret = Inr () \<or> ret = Inl ERESTARTSYS then (W, ret)
              else ttm_bo_validate P bo vram_placement interruptible W))"

fun bo_validate_list ::
  "('d, 'e, 'f) val_par \<Rightarrow> bool \<Rightarrow> vmw_validation_bo_node list \<Rightarrow> ('d, 'e, 'f) val_world \<Rightarrow> ('d, 'e, 'f) val_world \<times> unit kres" where
  "bo_validate_list P intr [] W = (W, Inr ())"
| "bo_validate_list P intr (entry # es) W =
     (case (if bn_cpu_blit entry then ttm_bo_validate P (vb_bo entry) nonfixed_placement intr W
            else vmw_validation_bo_validate_single P (vb_bo entry) intr (bn_as_mob entry) W) of
        (W, Inl e) \<Rightarrow> (W, Inl e)
      | (W, Inr _) \<Rightarrow> bo_validate_list P intr es W)"

definition vmw_validation_bo_validate ::
  "('d, 'e, 'f) val_par \<Rightarrow> bool \<Rightarrow> ('d, 'e, 'f) val_world \<Rightarrow> ('d, 'e, 'f) val_world \<times> unit kres" where
  "vmw_validation_bo_validate P intr W = bo_validate_list P intr (vc_bo_list (vw_ctx W)) W"

fun res_validate_list ::
  "('d, 'e, 'f) val_par \<Rightarrow> vmw_validation_res_node list \<Rightarrow> ('d, 'e, 'f) val_world \<Rightarrow> (('d, 'e, 'f) val_world \<times> unit kres) option" where
  "res_validate_list P [] W = Some (W, Inr ())"
| "res_validate_list P (val # vals) W =
     (let r = rn_res val; backup = backup_of r (vw_res W)
      in do {
        (w, ret) \<leftarrow> vmw_resource_validate (vp_res P) (lru_fuel (vw_res W)) r (vw_res W);
        W \<leftarrow> Some (W\<lparr>vw_res := w\<rparr>);
        (case ret of
           Inl e \<Rightarrow> Some (W, Inl e)
         | Inr _ \<Rightarrow> do {
             (W, ret) \<leftarrow> (if backup \<noteq> None \<and> backup_of r w \<noteq> None \<and> backup \<noteq> backup_of r w
                then add_backup_of P r W else Some (W, Inr ()));
             (case ret of
                Inl e \<Rightarrow> Some (W, Inl e)
              | Inr _ \<Rightarrow> res_validate_list P vals W) }) })"

definition vmw_validation_res_validate :: "('d, 'e, 'f) val_par \<Rightarrow> ('d, 'e, 'f) val_world \<Rightarrow> (('d, 'e, 'f) val_world \<times> unit kres) option" where
  "vmw_validation_res_validate P W = res_validate_list P (resource_list (vw_ctx W)) W"

section \<open>Letting go\<close>

definition vmw_validation_drop_ht :: "vmw_validation_context \<Rightarrow> vmw_validation_context \<times> val_item drm_open_hash option" where
  \<comment> \<open>the table lives on without the items of the context\<close>
  "vmw_validation_drop_ht ctx =
     (case vc_ht ctx of
        None \<Rightarrow> (ctx, None)
      | Some ht \<Rightarrow>
          (let ht = fold (\<lambda>n ht. drm_ht_remove_item ht (Bo_Item (bn_addr n))) (vc_bo_list ctx) ht;
               ht = fold (\<lambda>n ht. drm_ht_remove_item ht (Res_Item (rn_addr n))) (resource_list ctx) ht;
               ht = fold (\<lambda>n ht. drm_ht_remove_item ht (Res_Item (rn_addr n))) (resource_ctx_list ctx) ht
           in (ctx\<lparr>vc_ht := None\<rparr>, Some ht)))"

fun unref_bos :: "vmw_validation_bo_node list \<Rightarrow> 'd res_world \<Rightarrow> 'd res_world option" where
  "unref_bos [] w = Some w"
| "unref_bos (n # ns) w = Option.bind (bo_put (vb_bo n) w) (unref_bos ns)"

fun unref_ress :: "'d res_oracle \<Rightarrow> vmw_validation_res_node list \<Rightarrow> 'd res_world \<Rightarrow> 'd res_world option" where
  "unref_ress ask [] w = Some w"
| "unref_ress ask (n # ns) w = Option.bind (vmw_resource_unreference ask (rn_res n) w) (unref_ress ask ns)"

definition vmw_validation_unref_lists :: "('d, 'e, 'f) val_par \<Rightarrow> ('d, 'e, 'f) val_world \<Rightarrow> ('d, 'e, 'f) val_world option" where
  "vmw_validation_unref_lists P W = do {
     w \<leftarrow> unref_bos (vc_bo_list (vw_ctx W)) (vw_res W);
     W \<leftarrow> Some (upd_ctx splice_ctx_list (W\<lparr>vw_res := w\<rparr>));
     w \<leftarrow> unref_ress (vp_res P) (resource_list (vw_ctx W)) (vw_res W);
     Some (upd_ctx (\<lambda>ctx. vmw_validation_mem_free (ctx\<lparr>vc_bo_list := [], resource_list := []\<rparr>)) (W\<lparr>vw_res := w\<rparr>)) }"

definition unlock_mutex :: "('d, 'e, 'f) val_world \<Rightarrow> ('d, 'e, 'f) val_world option" where
  "unlock_mutex W = (if vw_mutex W then Some (W\<lparr>vw_mutex := False\<rparr>) else None)"

definition lock_mutex :: "('d, 'e, 'f) val_par \<Rightarrow> bool \<Rightarrow> ('d, 'e, 'f) val_world \<Rightarrow> (('d, 'e, 'f) val_world \<times> unit kres) option" where
  "lock_mutex P intr W =
     (if vw_mutex W then None
      else (case val_ask P (Q_Mutex_Lock intr) W of
              (Inl e, W) \<Rightarrow> if intr then Some (W, Inl e) else Some (W\<lparr>vw_mutex := True\<rparr>, Inr ())
            | (Inr _, W) \<Rightarrow> Some (W\<lparr>vw_mutex := True\<rparr>, Inr ())))"

definition prepare_backoff :: "bool \<Rightarrow> ('d, 'e, 'f) val_world \<Rightarrow> ('d, 'e, 'f) val_world option" where
  \<comment> \<open>the labels \<open>out_no_validate\<close> and \<open>out_no_bo_reserve\<close>\<close>
  "prepare_backoff bos_reserved W = do {
     W \<leftarrow> (if bos_reserved then vmw_validation_bo_backoff W else Some W);
     vmw_validation_res_unreserve True W }"

definition validate_all :: "('d, 'e, 'f) val_par \<Rightarrow> bool \<Rightarrow> ('d, 'e, 'f) val_world \<Rightarrow> (('d, 'e, 'f) val_world \<times> unit kres) option" where
  \<comment> \<open>from \<open>vmw_validation_bo_validate\<close> on, with the buffers reserved\<close>
  "validate_all P intr W =
     (case vmw_validation_bo_validate P intr W of
        (W, Inl e) \<Rightarrow> map_option (\<lambda>W. (W, Inl e)) (prepare_backoff True W)
      | (W, Inr _) \<Rightarrow> do {
          (W, ret) \<leftarrow> vmw_validation_res_validate P W;
          (case ret of
             Inl e \<Rightarrow> map_option (\<lambda>W. (W, Inl e)) (prepare_backoff True W)
           | Inr _ \<Rightarrow> Some (W, Inr ())) })"

definition prepare_locked :: "('d, 'e, 'f) val_par \<Rightarrow> bool \<Rightarrow> ('d, 'e, 'f) val_world \<Rightarrow> (('d, 'e, 'f) val_world \<times> unit kres) option" where
  "prepare_locked P intr W = do {
     (W, ret) \<leftarrow> vmw_validation_res_reserve P W;
     (case ret of
        Inl e \<Rightarrow> Some (W, Inl e)
      | Inr _ \<Rightarrow> do {
          (W, ret) \<leftarrow> vmw_validation_bo_reserve P intr W;
          (case ret of
             Inl e \<Rightarrow> map_option (\<lambda>W. (W, Inl e)) (prepare_backoff False W)
           | Inr _ \<Rightarrow> validate_all P intr W) }) }"

definition vmw_validation_prepare ::
  "('d, 'e, 'f) val_par \<Rightarrow> bool \<Rightarrow> bool \<Rightarrow> ('d, 'e, 'f) val_world \<Rightarrow> (('d, 'e, 'f) val_world \<times> unit kres) option" where
  "vmw_validation_prepare P mutex intr W = do {
     (W, ret) \<leftarrow> (if mutex then lock_mutex P intr W else Some (W, Inr ()));
     if ret \<noteq> Inr () then Some (W, Inl ERESTARTSYS)
     else do {
       (W, ret) \<leftarrow> prepare_locked P intr (upd_ctx (\<lambda>ctx. ctx\<lparr>res_mutex := mutex\<rparr>) W);
       W \<leftarrow> (if ret \<noteq> Inr () \<and> mutex then unlock_mutex W else Some W);
       Some (W, ret) } }"

definition vmw_validation_revert :: "('d, 'e, 'f) val_par \<Rightarrow> ('d, 'e, 'f) val_world \<Rightarrow> ('d, 'e, 'f) val_world option" where
  "vmw_validation_revert P W = do {
     W \<leftarrow> vmw_validation_bo_backoff W;
     W \<leftarrow> vmw_validation_res_unreserve True W;
     W \<leftarrow> (if res_mutex (vw_ctx W) then unlock_mutex W else Some W);
     vmw_validation_unref_lists P W }"

definition vmw_validation_done :: "('d, 'e, 'f) val_par \<Rightarrow> (nat \<Rightarrow> nat) \<Rightarrow> nat \<Rightarrow> ('d, 'e, 'f) val_world \<Rightarrow> ('d, 'e, 'f) val_world option" where
  "vmw_validation_done P fctx fence W = do {
     W \<leftarrow> vmw_validation_bo_fence fctx fence W;
     W \<leftarrow> vmw_validation_res_unreserve False W;
     W \<leftarrow> (if res_mutex (vw_ctx W) then unlock_mutex W else Some W);
     vmw_validation_unref_lists P W }"

definition preload :: "('d, 'e, 'f) val_par \<Rightarrow> nat \<Rightarrow> ('d, 'e, 'f) val_world \<Rightarrow> ('d, 'e, 'f) val_world \<times> unit kres" where
  "preload P sz W = (case vmw_validation_mem_alloc P sz W of
      (W, None) \<Rightarrow> (W, Inl ENOMEM)
    | (W, Some _) \<Rightarrow> (upd_ctx (\<lambda>ctx. ctx\<lparr>mem_size_left := mem_size_left ctx + sz\<rparr>) W, Inr ()))"

definition vmw_validation_preload_bo :: "('d, 'e, 'f) val_par \<Rightarrow> ('d, 'e, 'f) val_world \<Rightarrow> ('d, 'e, 'f) val_world \<times> unit kres" where
  "vmw_validation_preload_bo P W = preload P bo_node_size W"

definition vmw_validation_preload_res :: "('d, 'e, 'f) val_par \<Rightarrow> nat \<Rightarrow> ('d, 'e, 'f) val_world \<Rightarrow> ('d, 'e, 'f) val_world \<times> unit kres" where
  "vmw_validation_preload_res P sz W =
     preload P (vmw_validation_align (res_node_size + sz) + vmw_validation_align bo_node_size) W"

section \<open>Invariant of a context\<close>

text \<open>
  \<open>B\<close> and \<open>R\<close> are the buffers and resources in play, whose addresses differ. The table knows the node of each
  listed buffer and resource and nothing else of them.
\<close>

definition keys_ok :: "('d, 'e, 'f) val_par \<Rightarrow> nat set \<Rightarrow> nat set \<Rightarrow> bool" where
  "keys_ok P B R \<longleftrightarrow> inj_on (vp_bo_key P) B \<and> inj_on (vp_res_key P) R \<and> vp_bo_key P ` B \<inter> vp_res_key P ` R = {}"

abbreviation all_res_nodes :: "vmw_validation_context \<Rightarrow> vmw_validation_res_node list" where
  "all_res_nodes ctx \<equiv> resource_ctx_list ctx @ resource_list ctx"

definition ht_agrees :: "('d, 'e, 'f) val_par \<Rightarrow> nat set \<Rightarrow> nat set \<Rightarrow> vmw_validation_context \<Rightarrow> val_item drm_open_hash \<Rightarrow> bool" where
  "ht_agrees P B R ctx ht \<longleftrightarrow> ht_inv (vp_hash P) ht
     \<and> (\<forall>b\<in>B. ht_map ht (vp_bo_key P b) = map_option (\<lambda>n. Bo_Item (bn_addr n)) (find (\<lambda>n. vb_bo n = b) (vc_bo_list ctx)))
     \<and> (\<forall>r\<in>R. ht_map ht (vp_res_key P r) = map_option (\<lambda>n. Res_Item (rn_addr n)) (find (\<lambda>n. rn_res n = r) (all_res_nodes ctx)))"

definition ctx_inv :: "('d, 'e, 'f) val_par \<Rightarrow> nat set \<Rightarrow> nat set \<Rightarrow> vmw_validation_context \<Rightarrow> bool" where
  "ctx_inv P B R ctx \<longleftrightarrow> keys_ok P B R
     \<and> (case vc_ht ctx of None \<Rightarrow> True | Some ht \<Rightarrow> ht_agrees P B R ctx ht)
     \<and> (merge_dups ctx \<longrightarrow> distinct (bo_list (vc_bo_list ctx)) \<and> distinct (map rn_res (all_res_nodes ctx)))
     \<and> (\<forall>n\<in>set (vc_bo_list ctx). \<not> vb_shared n \<and> vb_bo n \<in> B) \<and> (\<forall>n\<in>set (all_res_nodes ctx). rn_res n \<in> R)"

lemma upd_ctx_sel [simp]:
  "vw_ctx (upd_ctx f W) = f (vw_ctx W)" "vw_res (upd_ctx f W) = vw_res W" "vw_eu (upd_ctx f W) = vw_eu W"
  "vw_mutex (upd_ctx f W) = vw_mutex W" "vw_env (upd_ctx f W) = vw_env W"
  by (simp_all add: upd_ctx_def)

lemma val_ask_sel: "val_ask P q W = (a, W') \<Longrightarrow> vw_ctx W' = vw_ctx W \<and> vw_res W' = vw_res W \<and> vw_eu W' = vw_eu W \<and> vw_mutex W' = vw_mutex W"
  by (auto simp: val_ask_def split: prod.splits)

text \<open>Two contexts that differ in their memory only.\<close>

definition same_lists :: "vmw_validation_context \<Rightarrow> vmw_validation_context \<Rightarrow> bool" where
  "same_lists ctx ctx' \<longleftrightarrow> vc_ht ctx' = vc_ht ctx \<and> resource_list ctx' = resource_list ctx
     \<and> resource_ctx_list ctx' = resource_ctx_list ctx \<and> vc_bo_list ctx' = vc_bo_list ctx \<and> merge_dups ctx' = merge_dups ctx
     \<and> res_mutex ctx' = res_mutex ctx"

lemma same_lists_inv: "same_lists ctx ctx' \<Longrightarrow> ctx_inv P B R ctx' = ctx_inv P B R ctx"
  by (simp add: same_lists_def ctx_inv_def ht_agrees_def split: option.split)

lemma mem_alloc_sel:
  assumes "vmw_validation_mem_alloc P sz W = (W', a)"
  shows "same_lists (vw_ctx W) (vw_ctx W')" "vw_res W' = vw_res W" "vw_eu W' = vw_eu W" "vw_mutex W' = vw_mutex W"
proof -
  obtain r W1 where q: "val_ask P Q_Alloc_Page W = (r, W1)" by fastforce
  from assms q val_ask_sel [OF q]
  show "same_lists (vw_ctx W) (vw_ctx W')" "vw_res W' = vw_res W" "vw_eu W' = vw_eu W" "vw_mutex W' = vw_mutex W"
    by (auto simp: vmw_validation_mem_alloc_def Let_def same_lists_def split: if_splits sum.splits)
qed

lemma find_append: "find Q (xs @ ys) = (case find Q xs of Some n \<Rightarrow> Some n | None \<Rightarrow> find Q ys)"
  by (induction xs) auto

lemma find_bo_dup_eq:
  assumes "ctx_inv P B R ctx" "vbo \<in> B"
  shows "vmw_validation_find_bo_dup P ctx vbo
    = Some (if merge_dups ctx then map_option bn_addr (find (\<lambda>n. vb_bo n = vbo) (vc_bo_list ctx)) else None)"
proof (cases "vc_ht ctx")
  case (Some ht)
  then have "ht_inv (vp_hash P) ht"
      "ht_map ht (vp_bo_key P vbo) = map_option (\<lambda>n. Bo_Item (bn_addr n)) (find (\<lambda>n. vb_bo n = vbo) (vc_bo_list ctx))"
    using assms by (auto simp: ctx_inv_def ht_agrees_def)
  then show ?thesis using Some drm_ht.find_law [of "vp_hash P" ht "vp_bo_key P vbo"]
    by (auto simp: vmw_validation_find_bo_dup_def split: option.splits)
qed (simp add: vmw_validation_find_bo_dup_def)

lemma find_res_dup_eq:
  assumes "ctx_inv P B R ctx" "r \<in> R"
  shows "vmw_validation_find_res_dup P ctx r
    = Some (if merge_dups ctx then map_option rn_addr (find (\<lambda>n. rn_res n = r) (all_res_nodes ctx)) else None)"
proof (cases "vc_ht ctx")
  case (Some ht)
  then have "ht_inv (vp_hash P) ht"
      "ht_map ht (vp_res_key P r) = map_option (\<lambda>n. Res_Item (rn_addr n)) (find (\<lambda>n. rn_res n = r) (all_res_nodes ctx))"
    using assms by (auto simp: ctx_inv_def ht_agrees_def)
  then show ?thesis using Some drm_ht.find_law [of "vp_hash P" ht "vp_res_key P r"]
    by (auto simp: vmw_validation_find_res_dup_def split: option.splits)
next
  case None
  then show ?thesis by (simp add: vmw_validation_find_res_dup_def find_append)
qed

text \<open>A new item goes into the table under a key that is free there.\<close>

lemma ht_add_cases:
  assumes "ctx_inv P B R (vw_ctx W)" "ht_add P k item W = (W', ret)"
  shows "vw_res W' = vw_res W" "vw_eu W' = vw_eu W" "vw_mutex W' = vw_mutex W" "vw_env W' = vw_env W"
    "(\<exists>e. ret = Inl e \<and> W' = W) \<or> (vc_ht (vw_ctx W) = None \<and> W' = W)
     \<or> (\<exists>ht ht'. vc_ht (vw_ctx W) = Some ht \<and> W' = upd_ctx (\<lambda>ctx. ctx\<lparr>vc_ht := Some ht'\<rparr>) W \<and> ht_inv (vp_hash P) ht'
          \<and> ht_map ht k = None \<and> ht_map ht' = (ht_map ht)(k \<mapsto> item))"
proof -
  have "ht_inv (vp_hash P) ht" if "vc_ht (vw_ctx W) = Some ht" for ht using assms(1) that by (simp add: ctx_inv_def ht_agrees_def)
  then show "vw_res W' = vw_res W" "vw_eu W' = vw_eu W" "vw_mutex W' = vw_mutex W" "vw_env W' = vw_env W"
    "(\<exists>e. ret = Inl e \<and> W' = W) \<or> (vc_ht (vw_ctx W) = None \<and> W' = W)
     \<or> (\<exists>ht ht'. vc_ht (vw_ctx W) = Some ht \<and> W' = upd_ctx (\<lambda>ctx. ctx\<lparr>vc_ht := Some ht'\<rparr>) W \<and> ht_inv (vp_hash P) ht'
          \<and> ht_map ht k = None \<and> ht_map ht' = (ht_map ht)(k \<mapsto> item))"
    using assms(2) drm_ht.insert_Inr [of "vp_hash P" _ k item]
    by (auto simp: ht_add_def split: option.splits sum.splits)
qed

lemma ht_add_free:
  assumes "ctx_inv P B R (vw_ctx W)" "\<And>ht. vc_ht (vw_ctx W) = Some ht \<Longrightarrow> ht_map ht k = None" "ht_add P k item W = (W', ret)"
  shows "ret = Inr ()"
proof (cases "vc_ht (vw_ctx W)")
  case (Some ht)
  then have "ht_inv (vp_hash P) ht" using assms(1) by (simp add: ctx_inv_def ht_agrees_def)
  then show ?thesis using Some assms(2,3) drm_ht.insert_new [of "vp_hash P" ht k item] by (auto simp: ht_add_def)
qed (use assms(3) in \<open>simp add: ht_add_def\<close>)

lemma ctx_inv_add_bo:
  assumes inv: "ctx_inv P B R ctx" and n: "vb_bo n \<in> B" "\<not> vb_shared n" and d: "merge_dups ctx \<Longrightarrow> vb_bo n \<notin> set (bo_list (vc_bo_list ctx))"
    and ht: "(vc_ht ctx = None \<and> ht' = None) \<or> (\<exists>h h'. vc_ht ctx = Some h \<and> ht' = Some h' \<and> ht_inv (vp_hash P) h'
       \<and> ht_map h (vp_bo_key P (vb_bo n)) = None \<and> ht_map h' = (ht_map h)(vp_bo_key P (vb_bo n) \<mapsto> Bo_Item (bn_addr n)))"
  shows "ctx_inv P B R (ctx\<lparr>vc_ht := ht', vc_bo_list := vc_bo_list ctx @ [n]\<rparr>)"
proof -
  have k: "inj_on (vp_bo_key P) B" "vp_bo_key P ` B \<inter> vp_res_key P ` R = {}" using inv by (simp_all add: ctx_inv_def keys_ok_def)
  have "ht_agrees P B R (ctx\<lparr>vc_ht := ht', vc_bo_list := vc_bo_list ctx @ [n]\<rparr>) h'" if h': "ht' = Some h'" for h'
  proof -
    from ht h' obtain h where h: "vc_ht ctx = Some h" "ht_inv (vp_hash P) h'" "ht_map h (vp_bo_key P (vb_bo n)) = None"
        "ht_map h' = (ht_map h)(vp_bo_key P (vb_bo n) \<mapsto> Bo_Item (bn_addr n))" by auto
    have a: "ht_agrees P B R ctx h" using inv h(1) by (simp add: ctx_inv_def)
    have "find (\<lambda>m. vb_bo m = vb_bo n) (vc_bo_list ctx) = None" using a h(3) n(1) by (auto simp: ht_agrees_def)
    moreover have "vp_bo_key P b = vp_bo_key P (vb_bo n) \<longleftrightarrow> b = vb_bo n" if "b \<in> B" for b using k(1) n(1) that by (simp add: inj_on_eq_iff)
    moreover have "vp_res_key P r \<noteq> vp_bo_key P (vb_bo n)" if "r \<in> R" for r using k(2) n(1) that by (metis disjoint_iff imageI)
    ultimately show ?thesis using a h(2,4) by (auto simp: ht_agrees_def find_append split: option.splits)
  qed
  then show ?thesis using inv n d by (cases ht') (auto simp: ctx_inv_def)
qed

text \<open>What \<open>vmw_validation_add_bo\<close> changes: nothing, or one node at the end with one reference.\<close>

definition bo_added :: "nat \<Rightarrow> bool \<Rightarrow> bool \<Rightarrow> ('d, 'e, 'f) val_world \<Rightarrow> ('d, 'e, 'f) val_world \<Rightarrow> bool" where
  "bo_added vbo as_mob cpu_blit W W' \<longleftrightarrow> vw_res W' = bo_get vbo (vw_res W)
     \<and> (\<exists>a. vc_bo_list (vw_ctx W') = vc_bo_list (vw_ctx W) @
          [\<lparr>vb_bo = vbo, vb_shared = False, bn_addr = a, bn_as_mob = as_mob, bn_cpu_blit = cpu_blit\<rparr>])"

definition same_res_lists :: "('d, 'e, 'f) val_world \<Rightarrow> ('d, 'e, 'f) val_world \<Rightarrow> bool" where
  "same_res_lists W W' \<longleftrightarrow> resource_list (vw_ctx W') = resource_list (vw_ctx W)
     \<and> resource_ctx_list (vw_ctx W') = resource_ctx_list (vw_ctx W) \<and> vw_eu W' = vw_eu W \<and> vw_mutex W' = vw_mutex W
     \<and> merge_dups (vw_ctx W') = merge_dups (vw_ctx W) \<and> res_mutex (vw_ctx W') = res_mutex (vw_ctx W)"

lemma same_res_lists_refl [simp]: "same_res_lists W W"
  by (simp add: same_res_lists_def)

lemma add_bo_new:
  assumes inv: "ctx_inv P B R (vw_ctx W)" and B: "vbo \<in> B" and live: "0 < bo_refs (vw_res W) vbo"
    and new: "merge_dups (vw_ctx W) \<Longrightarrow> find (\<lambda>n. vb_bo n = vbo) (vc_bo_list (vw_ctx W)) = None"
    and c: "vmw_validation_mem_alloc P bo_node_size W = (W1, Some a)" "ht_add P (vp_bo_key P vbo) (Bo_Item a) W1 = (W2, Inr ())"
  shows "\<exists>W'. vmw_validation_add_bo P vbo as_mob cpu_blit W = Some (W', Inr ()) \<and> ctx_inv P B R (vw_ctx W')
           \<and> bo_added vbo as_mob cpu_blit W W' \<and> same_res_lists W W'"
proof -
  let ?n = "\<lparr>vb_bo = vbo, vb_shared = False, bn_addr = a, bn_as_mob = as_mob, bn_cpu_blit = cpu_blit\<rparr>"
  note m = mem_alloc_sel [OF c(1)]
  have i1: "ctx_inv P B R (vw_ctx W1)" using same_lists_inv [OF m(1)] inv by blast
  note h = ht_add_cases [OF i1 c(2)]
  define W' where "W' = upd_ctx (\<lambda>ctx. ctx\<lparr>vc_bo_list := vc_bo_list ctx @ [?n]\<rparr>) (W2\<lparr>vw_res := bo_get vbo (vw_res W2)\<rparr>)"
  have eq: "vmw_validation_add_bo P vbo as_mob cpu_blit W = Some (W', Inr ())"
    using find_bo_dup_eq [OF inv B] new c live m(2) h(1)
    by (auto simp: vmw_validation_add_bo_def ttm_bo_reference_unless_doomed_def W'_def)
  obtain ht2 where W2: "vw_ctx W2 = (vw_ctx W1)\<lparr>vc_ht := ht2\<rparr>" and ht2: "(vc_ht (vw_ctx W1) = None \<and> ht2 = None)
      \<or> (\<exists>h h'. vc_ht (vw_ctx W1) = Some h \<and> ht2 = Some h' \<and> ht_inv (vp_hash P) h'
         \<and> ht_map h (vp_bo_key P (vb_bo ?n)) = None \<and> ht_map h' = (ht_map h)(vp_bo_key P (vb_bo ?n) \<mapsto> Bo_Item (bn_addr ?n)))"
    using h(5) that [of "vc_ht (vw_ctx W2)"] by auto
  have "ctx_inv P B R ((vw_ctx W1)\<lparr>vc_ht := ht2, vc_bo_list := vc_bo_list (vw_ctx W1) @ [?n]\<rparr>)"
  proof (rule ctx_inv_add_bo [OF i1 _ _ _ ht2])
    show "vb_bo ?n \<notin> set (bo_list (vc_bo_list (vw_ctx W1)))" if "merge_dups (vw_ctx W1)"
      using new that m(1) by (auto simp: same_lists_def find_None_iff)
  qed (use B in auto)
  then have "ctx_inv P B R (vw_ctx W')" by (simp add: W'_def W2)
  moreover have "bo_added vbo as_mob cpu_blit W W'" "same_res_lists W W'"
    using m h(1-3) by (simp_all add: W'_def W2 bo_added_def same_res_lists_def same_lists_def)
  ultimately show ?thesis using eq by blast
qed

lemma add_bo_ok:
  assumes inv: "ctx_inv P B R (vw_ctx W)" and B: "vbo \<in> B" and live: "0 < bo_refs (vw_res W) vbo"
  shows "\<exists>W' ret. vmw_validation_add_bo P vbo as_mob cpu_blit W = Some (W', ret) \<and> ctx_inv P B R (vw_ctx W') \<and> same_res_lists W W'
           \<and> (bo_added vbo as_mob cpu_blit W W' \<or> (vw_res W' = vw_res W \<and> vc_bo_list (vw_ctx W') = vc_bo_list (vw_ctx W)
                \<and> (ret = Inr () \<longrightarrow> vbo \<in> set (bo_list (vc_bo_list (vw_ctx W'))))))"
proof (cases "merge_dups (vw_ctx W) \<and> find (\<lambda>n. vb_bo n = vbo) (vc_bo_list (vw_ctx W)) \<noteq> None")
  case True
  then obtain n where n: "find (\<lambda>n. vb_bo n = vbo) (vc_bo_list (vw_ctx W)) = Some n" by auto
  then have nl: "n \<in> set (vc_bo_list (vw_ctx W))" "vb_bo n = vbo" by (auto simp: find_Some_iff)
  then obtain n' where "find (\<lambda>m. bn_addr m = bn_addr n) (vc_bo_list (vw_ctx W)) = Some n'"
    by (cases "find (\<lambda>m. bn_addr m = bn_addr n) (vc_bo_list (vw_ctx W))") (auto simp: find_None_iff)
  then show ?thesis using True n nl inv find_bo_dup_eq [OF inv B] by (auto simp: vmw_validation_add_bo_def)
next
  case False
  then have dup: "vmw_validation_find_bo_dup P (vw_ctx W) vbo = Some None"
    and new: "merge_dups (vw_ctx W) \<Longrightarrow> find (\<lambda>n. vb_bo n = vbo) (vc_bo_list (vw_ctx W)) = None"
    using find_bo_dup_eq [OF inv B] by auto
  obtain W1 r1 where c1: "vmw_validation_mem_alloc P bo_node_size W = (W1, r1)" by fastforce
  note m = mem_alloc_sel [OF c1]
  have i1: "ctx_inv P B R (vw_ctx W1)" using same_lists_inv [OF m(1)] inv by blast
  have s1: "same_res_lists W W1" "vc_bo_list (vw_ctx W1) = vc_bo_list (vw_ctx W)" using m by (auto simp: same_res_lists_def same_lists_def)
  show ?thesis
  proof (cases r1)
    case None
    then show ?thesis using dup c1 i1 s1 m(2) by (simp add: vmw_validation_add_bo_def)
  next
    case (Some a)
    obtain W2 r2 where c2: "ht_add P (vp_bo_key P vbo) (Bo_Item a) W1 = (W2, r2)" by fastforce
    show ?thesis
    proof (cases r2)
      case (Inl e)
      then have "W2 = W1" using c2 by (auto simp: ht_add_def split: option.splits sum.splits)
      then show ?thesis using Inl Some dup c1 c2 i1 s1 m(2) by (simp add: vmw_validation_add_bo_def)
    next
      case (Inr u)
      then show ?thesis using add_bo_new [OF inv B live new, of W1 a W2 as_mob cpu_blit] c1 c2 Some by auto
    qed
  qed
qed

text \<open>The same operations on a context without a table.\<close>

definition no_ht :: "('d, 'e, 'f) val_world \<Rightarrow> ('d, 'e, 'f) val_world" where
  "no_ht W = upd_ctx (\<lambda>ctx. ctx\<lparr>vc_ht := None\<rparr>) W"

lemma no_ht_sel [simp]: "vw_res (no_ht W) = vw_res W" "vw_ctx (no_ht W) = (vw_ctx W)\<lparr>vc_ht := None\<rparr>" "vw_env (no_ht W) = vw_env W"
  by (simp_all add: no_ht_def)

lemma no_ht_inv: "ctx_inv P B R ctx \<Longrightarrow> ctx_inv P B R (ctx\<lparr>vc_ht := None\<rparr>)"
  by (simp add: ctx_inv_def)

lemma mem_alloc_no_ht:
  "vmw_validation_mem_alloc P sz (no_ht W) = (no_ht (fst (vmw_validation_mem_alloc P sz W)), snd (vmw_validation_mem_alloc P sz W))"
  by (auto simp: vmw_validation_mem_alloc_def Let_def val_ask_def no_ht_def upd_ctx_def split: prod.splits sum.splits)

lemma no_ht_upd: "no_ht (upd_ctx (\<lambda>ctx. ctx\<lparr>vc_ht := h\<rparr>) W) = no_ht W"
  by (simp add: no_ht_def upd_ctx_def)

lemma ht_add_no_ht: "ht_add P k item W = (W', Inr ()) \<Longrightarrow> no_ht W' = no_ht W"
  by (auto simp: ht_add_def no_ht_upd split: option.splits sum.splits)

lemma free_bo_key:
  assumes "ctx_inv P B R ctx" "vbo \<in> B" "find (\<lambda>n. vb_bo n = vbo) (vc_bo_list ctx) = None" "vc_ht ctx = Some ht"
  shows "ht_map ht (vp_bo_key P vbo) = None"
  using assms by (simp add: ctx_inv_def ht_agrees_def)

lemma free_res_key:
  assumes "ctx_inv P B R ctx" "r \<in> R" "find (\<lambda>n. rn_res n = r) (all_res_nodes ctx) = None" "vc_ht ctx = Some ht"
  shows "ht_map ht (vp_res_key P r) = None"
  using assms by (simp add: ctx_inv_def ht_agrees_def)

lemma ht_add_after_alloc:
  assumes inv: "ctx_inv P B R (vw_ctx W)" and free: "\<And>ht. vc_ht (vw_ctx W) = Some ht \<Longrightarrow> ht_map ht k = None"
    and c: "vmw_validation_mem_alloc P sz W = (W1, r1)"
  shows "\<exists>W2. ht_add P k item W1 = (W2, Inr ()) \<and> no_ht W2 = no_ht W1 \<and> vw_res W2 = vw_res W1"
proof -
  note m = mem_alloc_sel [OF c]
  have i1: "ctx_inv P B R (vw_ctx W1)" using same_lists_inv [OF m(1)] inv by blast
  obtain W2 r2 where h: "ht_add P k item W1 = (W2, r2)" by fastforce
  have "r2 = Inr ()" using ht_add_free [OF i1 _ h] free m(1) by (simp add: same_lists_def)
  then show ?thesis using h ht_add_no_ht [of P k item W1 W2] ht_add_cases(1) [OF i1 h] by auto
qed

lemma ht_add_none: "ht_add P k item (no_ht W) = (no_ht W, Inr ())"
  by (simp add: ht_add_def)

lemma no_ht_res: "no_ht (W\<lparr>vw_res := w\<rparr>) = (no_ht W)\<lparr>vw_res := w\<rparr>"
  by (simp add: no_ht_def upd_ctx_def)

lemma no_ht_upd_ctx:
  "(\<And>ctx. f (ctx\<lparr>vc_ht := None\<rparr>) = (f ctx)\<lparr>vc_ht := None\<rparr>) \<Longrightarrow> upd_ctx f (no_ht W) = no_ht (upd_ctx f W)"
  by (simp add: no_ht_def upd_ctx_def)

lemma add_bo_no_ht:
  assumes inv: "ctx_inv P B R (vw_ctx W)" and md: "merge_dups (vw_ctx W)" and B: "vbo \<in> B"
  shows "vmw_validation_add_bo P vbo as_mob cpu_blit (no_ht W)
    = map_option (map_prod no_ht id) (vmw_validation_add_bo P vbo as_mob cpu_blit W)"
proof -
  have dup: "vmw_validation_find_bo_dup P (vw_ctx W) vbo = Some (map_option bn_addr (find (\<lambda>n. vb_bo n = vbo) (vc_bo_list (vw_ctx W))))"
    using find_bo_dup_eq [OF inv B] md by simp
  have dup': "vmw_validation_find_bo_dup P (vw_ctx (no_ht W)) vbo = vmw_validation_find_bo_dup P (vw_ctx W) vbo"
    using find_bo_dup_eq [OF no_ht_inv [OF inv] B] md dup by simp
  show ?thesis
  proof (cases "find (\<lambda>n. vb_bo n = vbo) (vc_bo_list (vw_ctx W))")
    case (Some n)
    then show ?thesis using dup dup'
      by (cases "find (\<lambda>m. bn_addr m = bn_addr n) (vc_bo_list (vw_ctx W))") (simp_all add: vmw_validation_add_bo_def del: no_ht_sel(2), simp_all)
  next
    case None
    obtain W1 r1 where c: "vmw_validation_mem_alloc P bo_node_size W = (W1, r1)" by fastforce
    have c': "vmw_validation_mem_alloc P bo_node_size (no_ht W) = (no_ht W1, r1)" using mem_alloc_no_ht [of P bo_node_size W] c by simp
    show ?thesis
    proof (cases r1)
      case None': None
      then show ?thesis using None dup dup' c c' by (simp add: vmw_validation_add_bo_def del: no_ht_sel(2))
    next
      case (Some a)
      obtain W2 where W2: "ht_add P (vp_bo_key P vbo) (Bo_Item a) W1 = (W2, Inr ())" "no_ht W2 = no_ht W1" "vw_res W2 = vw_res W1"
        using ht_add_after_alloc [OF inv free_bo_key [OF inv B None] c] by blast
      have "vw_res W2 = vw_res (no_ht W1)" using W2(3) by simp
      then show ?thesis using None Some dup dup' c c' W2(1) ht_add_none [of P _ _ W1]
        by (simp add: vmw_validation_add_bo_def ttm_bo_reference_unless_doomed_def no_ht_upd_ctx W2(2) [symmetric] no_ht_res [symmetric]
            del: no_ht_sel(2))
    qed
  qed
qed

lemma add_resource_no_ht:
  assumes inv: "ctx_inv P B R (vw_ctx W)" and md: "merge_dups (vw_ctx W)" and R: "r \<in> R"
  shows "vmw_validation_add_resource P r sz (no_ht W) = map_option (map_prod no_ht id) (vmw_validation_add_resource P r sz W)"
proof -
  have dup: "vmw_validation_find_res_dup P (vw_ctx W) r = Some (map_option rn_addr (find (\<lambda>n. rn_res n = r) (all_res_nodes (vw_ctx W))))"
    using find_res_dup_eq [OF inv R] md by simp
  have dup': "vmw_validation_find_res_dup P (vw_ctx (no_ht W)) r = vmw_validation_find_res_dup P (vw_ctx W) r"
    using find_res_dup_eq [OF no_ht_inv [OF inv] R] md dup by simp
  have up: "upd_res_node a f (ctx\<lparr>vc_ht := None\<rparr>) = (upd_res_node a f ctx)\<lparr>vc_ht := None\<rparr>"
    "list_res_node m t n (ctx\<lparr>vc_ht := None\<rparr>) = (list_res_node m t n ctx)\<lparr>vc_ht := None\<rparr>" for a f ctx m t n
    by (simp_all add: upd_res_node_def list_res_node_def split: vmw_res_type.split)
  show ?thesis
  proof (cases "find (\<lambda>n. rn_res n = r) (all_res_nodes (vw_ctx W))")
    case (Some n)
    then show ?thesis using dup dup' by (simp add: vmw_validation_add_resource_def no_ht_upd_ctx up del: no_ht_sel(2))
  next
    case None
    obtain W1 r1 where c: "vmw_validation_mem_alloc P (res_node_size + sz) W = (W1, r1)" by fastforce
    have c': "vmw_validation_mem_alloc P (res_node_size + sz) (no_ht W) = (no_ht W1, r1)"
      using mem_alloc_no_ht [of P "res_node_size + sz" W] c by simp
    show ?thesis
    proof (cases r1)
      case None': None
      then show ?thesis using None dup dup' c c' by (simp add: vmw_validation_add_resource_def del: no_ht_sel(2))
    next
      case (Some a)
      obtain W2 where W2: "ht_add P (vp_res_key P r) (Res_Item a) W1 = (W2, Inr ())" "no_ht W2 = no_ht W1" "vw_res W2 = vw_res W1"
        using ht_add_after_alloc [OF inv free_res_key [OF inv R None] c] by blast
      show ?thesis using None Some dup dup' c c' W2(1,3) ht_add_none [of P _ _ W1]
        by (cases "vmw_resource_reference_unless_doomed r (vw_res W1)")
           (auto simp: vmw_validation_add_resource_def no_ht_upd_ctx up W2(2) [symmetric] no_ht_res [symmetric] Option.bind_eq_None_conv
            split: option.splits bind_splits simp del: no_ht_sel(2))
    qed
  qed
qed

section \<open>Preparing a submission\<close>

text \<open>
  The resources of the context are live, and the buffer references are those of the resources, one per buffer
  node, and \<open>ext\<close> others.
\<close>

definition node_refs :: "(nat \<Rightarrow> nat) \<Rightarrow> vmw_validation_bo_node list \<Rightarrow> nat \<Rightarrow> nat" where
  "node_refs ext l bo = ext bo + count_list (bo_list l) bo"

definition nodes_live :: "vmw_validation_res_node list \<Rightarrow> 'd res_world \<Rightarrow> bool" where
  "nodes_live ns w \<longleftrightarrow> (\<forall>n\<in>set ns. ress w (rn_res n) \<noteq> None)"

definition val_inv :: "('d, 'e, 'f) val_par \<Rightarrow> nat set \<Rightarrow> nat set \<Rightarrow> (nat \<Rightarrow> nat) \<Rightarrow> ('d, 'e, 'f) val_world \<Rightarrow> bool" where
  "val_inv P B R ext W \<longleftrightarrow> ctx_inv P B R (vw_ctx W) \<and> res_inv (node_refs ext (vc_bo_list (vw_ctx W))) (vw_res W)
     \<and> nodes_live (all_res_nodes (vw_ctx W)) (vw_res W) \<and> (\<forall>r b. backup_of r (vw_res W) = Some b \<longrightarrow> b \<in> B)"

definition allocs_known :: "('d, 'e, 'f) val_par \<Rightarrow> nat set \<Rightarrow> bool" where
  "allocs_known P B \<longleftrightarrow> (\<forall>r d n d'. vp_res P (Q_Alloc_Backup r) d = (Inr n, d') \<longrightarrow> n \<in> B)"

lemma nodes_liveD: "nodes_live ns w \<Longrightarrow> n \<in> set ns \<Longrightarrow> \<exists>res. ress w (rn_res n) = Some res"
  unfolding nodes_live_def by blast

lemma nodes_live_cong: "ress w' = ress w \<Longrightarrow> nodes_live ns w' = nodes_live ns w"
  by (simp add: nodes_live_def)

lemma node_refs_snoc: "node_refs ext (l @ [n]) = (node_refs ext l)(vb_bo n := node_refs ext l (vb_bo n) + 1)"
  by (auto simp: node_refs_def)

lemma node_refs_mset: "mset l' = mset l \<Longrightarrow> node_refs ext l' = node_refs ext l"
  unfolding node_refs_def by (metis count_mset mset_map)

lemma find_same_keys:
  assumes "map (\<lambda>n. (rn_res n, rn_addr n)) xs = map (\<lambda>n. (rn_res n, rn_addr n)) ys"
  shows "map_option (\<lambda>n. Res_Item (rn_addr n)) (find (\<lambda>n. rn_res n = r) xs) = map_option (\<lambda>n. Res_Item (rn_addr n)) (find (\<lambda>n. rn_res n = r) ys)"
  using assms
proof (induction xs arbitrary: ys)
  case (Cons x xs)
  then show ?case by (cases ys) auto
qed simp

lemma reserve_backup:
  assumes "vmw_resource_reserve ask r no_backup w = Some (w', ret)" "backup_of r w' = Some b"
  shows "backup_of r w = Some b \<or> (\<exists>d d'. ask (Q_Alloc_Backup r) d = (Inr b, d'))"
proof -
  obtain res where res: "ress w r = Some res" using assms(1) by (cases "ress w r") (simp_all add: vmw_resource_reserve_def)
  obtain a d where a: "ask (Q_Alloc_Backup r) (env w) = (a, d)" by fastforce
  show ?thesis
  proof (cases "rf_needs_backup (res_func res) \<and> res_backup res = None \<and> \<not> no_backup")
    case True
    then show ?thesis using assms res a
      by (cases a) (auto simp: vmw_resource_reserve_def vmw_resource_buf_alloc_def Let_def consult_def backup_of_def lru_del_def put_res_def bo_get_def
          intro: exI [of _ "env w"])
  next
    case False
    then show ?thesis using assms res by (auto simp: vmw_resource_reserve_def backup_of_def)
  qed
qed

lemma backup_live:
  assumes "res_inv ext w" "backup_of r w = Some b"
  shows "0 < bo_refs w b"
proof -
  obtain res where "ress w r = Some res" "res_backup res = Some b" using assms(2) by (auto simp: backup_of_def bind_eq_Some_conv)
  then have "0 < count_map (backs b) (ress w)" using assms(1) by (intro count_map_pos) (auto simp: res_inv_def backs_def)
  then show ?thesis using assms(1) by (simp add: res_inv_def)
qed

text \<open>A node that is marked as reserved keeps its place and its keys.\<close>

lemma mark_reserved_inv:
  assumes inv: "ctx_inv P B R ctx" and i: "i < length (resource_list ctx)"
  shows "ctx_inv P B R (ctx\<lparr>resource_list := (resource_list ctx)[i := (resource_list ctx ! i)\<lparr>rn_reserved := True\<rparr>]\<rparr>)"
proof -
  let ?l = "(resource_list ctx)[i := (resource_list ctx ! i)\<lparr>rn_reserved := True\<rparr>]"
  let ?ctx = "ctx\<lparr>resource_list := ?l\<rparr>"
  have k: "map (\<lambda>n. (rn_res n, rn_addr n)) (all_res_nodes ?ctx) = map (\<lambda>n. (rn_res n, rn_addr n)) (all_res_nodes ctx)"
    using i by (simp add: map_update)  (simp add: list_update_same_conv)
  have m: "map rn_res (all_res_nodes ?ctx) = map rn_res (all_res_nodes ctx)"
    using i by (simp add: map_update) (simp add: list_update_same_conv)
  have "ht_agrees P B R ?ctx h" if "ht_agrees P B R ctx h" for h
    using that find_same_keys [OF k] by (simp add: ht_agrees_def)
  moreover have "\<forall>n\<in>set (all_res_nodes ?ctx). rn_res n \<in> R"
  proof -
    have "rn_res ` set (all_res_nodes ?ctx) = rn_res ` set (all_res_nodes ctx)" using arg_cong [OF m, of set] by (simp only: set_map)
    moreover have "rn_res ` set (all_res_nodes ctx) \<subseteq> R" using inv by (simp only: ctx_inv_def image_subset_iff) blast
    ultimately have "rn_res ` set (all_res_nodes ?ctx) \<subseteq> R" by simp
    then show ?thesis by (simp only: image_subset_iff)
  qed
  ultimately show ?thesis using inv m by (auto simp: ctx_inv_def split: option.splits)
qed

lemma add_backup_ok:
  assumes inv: "val_inv P B R ext W" and live: "ress (vw_res W) r \<noteq> None"
  shows "\<exists>W' ret. add_backup_of P r W = Some (W', ret) \<and> val_inv P B R ext W' \<and> same_res_lists W W'
           \<and> ress (vw_res W') = ress (vw_res W) \<and> res_lru (vw_res W') = res_lru (vw_res W)
           \<and> length (vc_bo_list (vw_ctx W')) \<le> Suc (length (vc_bo_list (vw_ctx W)))"
proof -
  obtain res where res: "ress (vw_res W) r = Some res" using live by auto
  show ?thesis
  proof (cases "res_backup res")
    case None
    then show ?thesis using res inv by (simp add: add_backup_of_def)
  next
    case (Some vbo)
    then have b: "backup_of r (vw_res W) = Some vbo" using res by (simp add: backup_of_def)
    have B: "vbo \<in> B" and c: "ctx_inv P B R (vw_ctx W)" and l: "0 < bo_refs (vw_res W) vbo"
      using inv b backup_live by (auto simp: val_inv_def)
    obtain W' ret where a: "vmw_validation_add_bo P vbo (rf_needs_backup (res_func res)) False W = Some (W', ret)"
        "ctx_inv P B R (vw_ctx W')" "same_res_lists W W'"
        "bo_added vbo (rf_needs_backup (res_func res)) False W W' \<or> (vw_res W' = vw_res W \<and> vc_bo_list (vw_ctx W') = vc_bo_list (vw_ctx W))"
      using add_bo_ok [OF c B l] by blast
    have "res_inv (node_refs ext (vc_bo_list (vw_ctx W'))) (vw_res W') \<and> ress (vw_res W') = ress (vw_res W)
        \<and> res_lru (vw_res W') = res_lru (vw_res W) \<and> length (vc_bo_list (vw_ctx W')) \<le> Suc (length (vc_bo_list (vw_ctx W)))"
      using a(4) inv bo_get_inv [of "node_refs ext (vc_bo_list (vw_ctx W))" "vw_res W" vbo]
      by (auto simp: bo_added_def node_refs_snoc val_inv_def)
    moreover have "all_res_nodes (vw_ctx W') = all_res_nodes (vw_ctx W)" using a(3) by (simp add: same_res_lists_def)
    ultimately have "val_inv P B R ext W'" "ress (vw_res W') = ress (vw_res W)" "res_lru (vw_res W') = res_lru (vw_res W)"
        "length (vc_bo_list (vw_ctx W')) \<le> Suc (length (vc_bo_list (vw_ctx W)))"
      using a(2) inv nodes_live_cong [of "vw_res W'" "vw_res W"] by (simp_all add: val_inv_def backup_of_def)
    then show ?thesis using a(1,3) res Some by (simp add: add_backup_of_def)
  qed
qed

lemma reserve_node_ok:
  assumes inv: "val_inv P B R ext W" and known: "allocs_known P B" and i: "i < length (resource_list (vw_ctx W))"
    and val: "val = resource_list (vw_ctx W) ! i"
  shows "\<exists>w ret. vmw_resource_reserve (vp_res P) (rn_res val) (rn_no_buffer_needed val) (vw_res W) = Some (w, ret)
      \<and> off_lru (rn_res val) w \<and> spares (rn_res val) (vw_res W) w \<and> val_inv P B R ext (W\<lparr>vw_res := w\<rparr>)
      \<and> val_inv P B R ext (upd_ctx (\<lambda>ctx. ctx\<lparr>resource_list := (resource_list ctx)[i := val\<lparr>rn_reserved := True\<rparr>]\<rparr>) (W\<lparr>vw_res := w\<rparr>))"
proof -
  let ?r = "rn_res val" and ?ext = "node_refs ext (vc_bo_list (vw_ctx W))"
  have "val \<in> set (all_res_nodes (vw_ctx W))" using i val by simp
  then obtain res where res: "ress (vw_res W) ?r = Some res" using inv nodes_liveD unfolding val_inv_def by blast
  have ri: "res_inv ?ext (vw_res W)" using inv by (simp add: val_inv_def)
  obtain w ret where w: "vmw_resource_reserve (vp_res P) ?r (rn_no_buffer_needed val) (vw_res W) = Some (w, ret)" "res_inv ?ext w"
      "off_lru ?r w" "only_res ?r (lru_del ?r (vw_res W)) w"
    using reserve_ok [OF ri res, of "vp_res P" "rn_no_buffer_needed val"] by blast
  have sp: "spares ?r (vw_res W) w" using spares_trans [OF lru_del_spares only_res_spares [OF w(4)]] .
  have live: "ress w q \<noteq> None" if "ress (vw_res W) q \<noteq> None" for q using that w(4) by (cases "q = ?r") (auto simp: only_res_def)
  have "b \<in> B" if "backup_of q w = Some b" for q b
  proof (cases "q = ?r")
    case True
    then show ?thesis using reserve_backup [OF w(1), of b] that inv known by (auto simp: val_inv_def allocs_known_def)
  next
    case False
    then have "backup_of q w = backup_of q (vw_res W)" using w(4) by (simp add: only_res_def backup_of_def)
    then show ?thesis using that inv by (auto simp: val_inv_def)
  qed
  moreover have nl: "nodes_live ns w" if "nodes_live ns (vw_res W)" for ns using that live unfolding nodes_live_def by blast
  ultimately have vi: "val_inv P B R ext (W\<lparr>vw_res := w\<rparr>)" using inv w(2) by (simp add: val_inv_def)
  let ?l = "(resource_list (vw_ctx W))[i := val\<lparr>rn_reserved := True\<rparr>]"
  have "nodes_live (resource_ctx_list (vw_ctx W) @ ?l) w"
  proof -
    have "set ?l \<subseteq> insert (val\<lparr>rn_reserved := True\<rparr>) (set (resource_list (vw_ctx W)))" by (rule set_update_subset_insert)
    moreover have "nodes_live (all_res_nodes (vw_ctx W)) w" using vi by (simp add: val_inv_def)
    moreover have "ress w ?r \<noteq> None" using live res by simp
    ultimately show ?thesis unfolding nodes_live_def by auto
  qed
  moreover have "ctx_inv P B R ((vw_ctx W)\<lparr>resource_list := ?l\<rparr>)"
    using mark_reserved_inv [of P B R "vw_ctx W" i] inv i val by (simp add: val_inv_def)
  ultimately have "val_inv P B R ext (upd_ctx (\<lambda>ctx. ctx\<lparr>resource_list := (resource_list ctx)[i := val\<lparr>rn_reserved := True\<rparr>]\<rparr>) (W\<lparr>vw_res := w\<rparr>))"
    using vi by (simp add: val_inv_def)
  then show ?thesis using w sp vi by blast
qed

text \<open>What no step before the buffer reservation changes.\<close>

definition same_job :: "('d, 'e, 'f) val_world \<Rightarrow> ('d, 'e, 'f) val_world \<Rightarrow> bool" where
  "same_job W W' \<longleftrightarrow> vw_eu W' = vw_eu W \<and> vw_mutex W' = vw_mutex W \<and> res_mutex (vw_ctx W') = res_mutex (vw_ctx W)
     \<and> resource_ctx_list (vw_ctx W') = resource_ctx_list (vw_ctx W)
     \<and> map rn_res (resource_list (vw_ctx W')) = map rn_res (resource_list (vw_ctx W))"

lemma same_job_trans: "same_job W W' \<Longrightarrow> same_job W' W'' \<Longrightarrow> same_job W W''"
  by (simp add: same_job_def)

lemma same_job_length: "same_job W W' \<Longrightarrow> length (resource_list (vw_ctx W')) = length (resource_list (vw_ctx W))"
  unfolding same_job_def by (metis length_map)

definition reserved_upto :: "nat \<Rightarrow> ('d, 'e, 'f) val_world \<Rightarrow> bool" where
  "reserved_upto i W \<longleftrightarrow> (\<forall>j<i. off_lru (rn_res (resource_list (vw_ctx W) ! j)) (vw_res W) \<and> rn_reserved (resource_list (vw_ctx W) ! j))"

lemma res_reserve_loop_ok:
  assumes "val_inv P B R ext W" "allocs_known P B" "i + k = length (resource_list (vw_ctx W))" "reserved_upto i W"
  shows "\<exists>W' ret. res_reserve_loop P i k W = Some (W', ret) \<and> val_inv P B R ext W' \<and> same_job W W'
           \<and> length (vc_bo_list (vw_ctx W')) \<le> length (vc_bo_list (vw_ctx W)) + k
           \<and> (ret = Inr () \<longrightarrow> reserved_upto (length (resource_list (vw_ctx W'))) W')"
  using assms
proof (induction k arbitrary: i W)
  case 0
  then show ?case by (simp add: same_job_def)
next
  case (Suc k)
  define val where "val = resource_list (vw_ctx W) ! i"
  have i: "i < length (resource_list (vw_ctx W))" using Suc.prems(3) by simp
  define mark where "mark = (\<lambda>W :: ('a, 'b, 'c) val_world. upd_ctx (\<lambda>ctx. ctx\<lparr>resource_list := (resource_list ctx)[i := val\<lparr>rn_reserved := True\<rparr>]\<rparr>) W)"
  obtain w ret where r: "vmw_resource_reserve (vp_res P) (rn_res val) (rn_no_buffer_needed val) (vw_res W) = Some (w, ret)"
      "off_lru (rn_res val) w" "spares (rn_res val) (vw_res W) w" "val_inv P B R ext (W\<lparr>vw_res := w\<rparr>)"
      "val_inv P B R ext (mark (W\<lparr>vw_res := w\<rparr>))"
    using reserve_node_ok [OF Suc.prems(1,2) i val_def] unfolding mark_def by blast
  show ?case
  proof (cases ret)
    case (Inl e)
    then show ?thesis using r(1,4) val_def by (auto simp: Let_def same_job_def)
  next
    case (Inr u)
    let ?W = "mark (W\<lparr>vw_res := w\<rparr>)"
    have l: "resource_list (vw_ctx ?W) = (resource_list (vw_ctx W))[i := val\<lparr>rn_reserved := True\<rparr>]" by (simp add: mark_def)
    have j: "same_job W ?W" using i unfolding same_job_def l by (simp add: mark_def map_update val_def) (simp add: list_update_same_conv)
    have bl: "vc_bo_list (vw_ctx ?W) = vc_bo_list (vw_ctx W)" by (simp add: mark_def)
    have "val\<lparr>rn_reserved := True\<rparr> \<in> set (resource_list (vw_ctx ?W))" unfolding l using i by (simp add: set_update_memI)
    then have "ress (vw_res ?W) (rn_res val) \<noteq> None"
      using nodes_liveD [of "all_res_nodes (vw_ctx ?W)" "vw_res ?W" "val\<lparr>rn_reserved := True\<rparr>"] r(5) by (auto simp: val_inv_def)
    then obtain W2 ret2 where a: "add_backup_of P (rn_res val) ?W = Some (W2, ret2)" "val_inv P B R ext W2" "same_res_lists ?W W2"
        "ress (vw_res W2) = ress (vw_res ?W)" "res_lru (vw_res W2) = res_lru (vw_res ?W)"
        "length (vc_bo_list (vw_ctx W2)) \<le> Suc (length (vc_bo_list (vw_ctx ?W)))"
      using add_backup_ok [OF r(5)] by blast
    have j2: "same_job W W2" using j a(3) by (auto simp: same_job_def same_res_lists_def)
    have l2: "resource_list (vw_ctx W2) = resource_list (vw_ctx ?W)" using a(3) by (simp add: same_res_lists_def)
    have off: "off_lru q (vw_res W2)" if "off_lru q (vw_res W) \<or> q = rn_res val" for q
    proof -
      have "off_lru q w" using that r(2,3) by (cases "q = rn_res val") (auto simp: spares_def)
      then show ?thesis using a(5) by (simp add: mark_def off_lru_def)
    qed
    have up: "reserved_upto (Suc i) W2"
      using Suc.prems(4) off i unfolding reserved_upto_def l2 l by (auto simp: less_Suc_eq nth_list_update)
    have step: "res_reserve_loop P i (Suc k) W = (case ret2 of Inl e \<Rightarrow> Some (W2, Inl e) | Inr _ \<Rightarrow> res_reserve_loop P (Suc i) k W2)"
      using r(1) Inr a(1) by (simp add: Let_def val_def mark_def)
    show ?thesis
    proof (cases ret2)
      case (Inl e)
      then show ?thesis using step a(2,6) j2 bl by simp
    next
      case Inr': (Inr u)
      have "Suc i + k = length (resource_list (vw_ctx W2))" using Suc.prems(3) same_job_length [OF j2] by simp
      then obtain W3 ret3 where W3: "res_reserve_loop P (Suc i) k W2 = Some (W3, ret3)" "val_inv P B R ext W3" "same_job W2 W3"
          "length (vc_bo_list (vw_ctx W3)) \<le> length (vc_bo_list (vw_ctx W2)) + k"
          "ret3 = Inr () \<longrightarrow> reserved_upto (length (resource_list (vw_ctx W3))) W3"
        using Suc.IH [OF a(2) Suc.prems(2) _ up] by blast
      have "length (vc_bo_list (vw_ctx W3)) \<le> length (vc_bo_list (vw_ctx W)) + Suc k" using W3(4) a(6) bl by simp
      then show ?thesis using step Inr' W3 same_job_trans [OF j2 W3(3)] by simp
    qed
  qed
qed

text \<open>A resource is unreserved when it is on a list of evictable resources, or may not be on one.\<close>

definition unreserved :: "nat \<Rightarrow> 'd res_world \<Rightarrow> bool" where
  "unreserved r w \<longleftrightarrow> \<not> off_lru r w
     \<or> (\<exists>res. ress w r = Some res \<and> (\<not> rf_may_evict (res_func res) \<or> res_id res = None \<or> res_pin_count res \<noteq> 0))"

lemma unreserve_step:
  assumes inv: "res_inv ext w" and live: "ress w r \<noteq> None"
  shows "\<exists>w'. vmw_resource_unreserve r sw nb off' w = Some w' \<and> res_inv ext w' \<and> unreserved r w'
           \<and> (\<forall>q. unreserved q w \<longrightarrow> unreserved q w') \<and> (\<forall>q. ress w q \<noteq> None \<longrightarrow> ress w' q \<noteq> None)"
proof -
  obtain res where r: "ress w r = Some res" using live by auto
  obtain w' res' where u: "vmw_resource_unreserve r sw nb off' w = Some w'" "res_inv ext w'" "id_of r w' = id_of r w" "ress w' r = Some res'"
      "res_pin_count res' = res_pin_count res" "res_func res' = res_func res"
      "off_lru r w \<longrightarrow> (off_lru r w' \<longleftrightarrow> \<not> rf_may_evict (res_func res) \<or> res_id res = None \<or> res_pin_count res \<noteq> 0)"
    using unreserve_ok [OF inv r, of sw nb off'] by blast
  note o = unreserve_others [OF u(1)]
  have keep: "\<not> off_lru q w'" if "\<not> off_lru q w" for q using that o unfolding off_lru_def by blast
  have same: "res_id res' = res_id res" using u(3,4) r by (simp add: id_of_def)
  have "unreserved r w'"
  proof (cases "off_lru r w")
    case True
    then show ?thesis using u(4-7) same unfolding unreserved_def by auto
  qed (use keep in \<open>simp add: unreserved_def\<close>)
  moreover have "unreserved q w'" if "unreserved q w" "q \<noteq> r" for q
    using that keep [of q] o unfolding unreserved_def by metis
  moreover have "ress w' q \<noteq> None" if "ress w q \<noteq> None" for q using that o u(4) by (cases "q = r") auto
  ultimately show ?thesis using u(1,2) by metis
qed

lemma unreserve_nodes_ok:
  assumes "res_inv ext w" "nodes_live ns w"
  shows "\<exists>w'. res_unreserve_nodes backoff ns w = Some w' \<and> res_inv ext w' \<and> (\<forall>q. unreserved q w \<longrightarrow> unreserved q w')
           \<and> (\<forall>n\<in>set ns. rn_reserved n \<longrightarrow> unreserved (rn_res n) w')"
  using assms
proof (induction ns arbitrary: w)
  case (Cons n ns)
  let ?u = "if rn_reserved n then vmw_resource_unreserve (rn_res n) (\<not> backoff \<and> rn_switching_backup n) (rn_new_backup n) (rn_new_backup_offset n) w
      else Some w"
  have "ress w (rn_res n) \<noteq> None" using Cons.prems(2) by (simp add: nodes_live_def)
  then obtain w1 where u: "?u = Some w1" "res_inv ext w1" "rn_reserved n \<longrightarrow> unreserved (rn_res n) w1"
      "\<forall>q. unreserved q w \<longrightarrow> unreserved q w1" "\<forall>q. ress w q \<noteq> None \<longrightarrow> ress w1 q \<noteq> None"
    using unreserve_step [OF Cons.prems(1), of "rn_res n" "\<not> backoff \<and> rn_switching_backup n" "rn_new_backup n" "rn_new_backup_offset n"]
      Cons.prems(1) by (cases "rn_reserved n") auto
  have "nodes_live ns w1" using Cons.prems(2) u(5) unfolding nodes_live_def by simp
  then obtain w2 where "res_unreserve_nodes backoff ns w1 = Some w2" "res_inv ext w2" "\<forall>q. unreserved q w1 \<longrightarrow> unreserved q w2"
      "\<forall>n\<in>set ns. rn_reserved n \<longrightarrow> unreserved (rn_res n) w2"
    using Cons.IH [OF u(2)] by blast
  then show ?case using u(1,3,4) by auto
qed simp

text \<open>Validation gives every resource that has a \<open>create\<close> callback an id, and takes none away.\<close>

definition id_ok :: "nat \<Rightarrow> 'd res_world \<Rightarrow> bool" where
  "id_ok r w \<longleftrightarrow> (\<forall>res. ress w r = Some res \<longrightarrow> rf_create (res_func res) \<longrightarrow> res_id res \<noteq> None)"

lemma validate_step:
  assumes inv: "res_inv ext w" and live: "ress w r \<noteq> None" and off: "off_lru r w"
  shows "\<exists>w' ret. vmw_resource_validate ask (lru_fuel w) r w = Some (w', ret) \<and> res_inv ext w' \<and> spares r w w' \<and> off_lru r w'
           \<and> ress w' r \<noteq> None \<and> (backup_of r w' = backup_of r w \<or> backup_of r w' = None) \<and> (ret = Inr () \<longrightarrow> id_ok r w')"
proof -
  obtain res where r: "ress w r = Some res" using live by auto
  obtain w' ret where v: "vmw_resource_validate ask (lru_fuel w) r w = Some (w', ret)" "res_inv ext w'"
      "made_room {r} (rf_type (res_func res)) w w'" "ress w' r \<noteq> None" "backup_of r w' = backup_of r w \<or> backup_of r w' = None"
      "ret = Inr () \<longrightarrow> rf_create (res_func res) \<longrightarrow> id_of r w' \<noteq> None"
    using validate_ok [OF inv r off lru_fuel_enough, of ask] by blast
  have "id_ok r w'" if "ret = Inr ()"
  proof (cases "rf_create (res_func res)")
    case True
    then show ?thesis using v(6) that by (auto simp: id_ok_def id_of_def)
  next
    case False
    then have "w' = w" using v(1) r by (simp add: vmw_resource_validate_def)
    then show ?thesis using False r by (simp add: id_ok_def)
  qed
  then show ?thesis using v room_spares [OF v(3)] room_off [OF v(3) off] by blast
qed

lemma res_validate_list_ok:
  assumes "res_inv ext (vw_res W)" "nodes_live ns (vw_res W)" "\<forall>n\<in>set ns. off_lru (rn_res n) (vw_res W)"
  shows "\<exists>W' ret. res_validate_list P ns W = Some (W', ret) \<and> res_inv ext (vw_res W') \<and> vw_ctx W' = vw_ctx W \<and> vw_eu W' = vw_eu W
           \<and> vw_mutex W' = vw_mutex W
           \<and> (\<forall>q. off_lru q (vw_res W) \<and> ress (vw_res W) q \<noteq> None \<longrightarrow> off_lru q (vw_res W') \<and> ress (vw_res W') q \<noteq> None
                \<and> (ret = Inr () \<and> (id_ok q (vw_res W) \<or> q \<in> rn_res ` set ns) \<longrightarrow> id_ok q (vw_res W')))"
  using assms
proof (induction ns arbitrary: W)
  case (Cons n ns)
  let ?r = "rn_res n"
  obtain w1 ret1 where v: "vmw_resource_validate (vp_res P) (lru_fuel (vw_res W)) ?r (vw_res W) = Some (w1, ret1)" "res_inv ext w1"
      "spares ?r (vw_res W) w1" "off_lru ?r w1" "ress w1 ?r \<noteq> None"
      "backup_of ?r w1 = backup_of ?r (vw_res W) \<or> backup_of ?r w1 = None" "ret1 = Inr () \<longrightarrow> id_ok ?r w1"
    using validate_step [OF Cons.prems(1), of ?r "vp_res P"] Cons.prems(2,3) by (auto simp: nodes_live_def)
  have keep: "off_lru q w1 \<and> ress w1 q \<noteq> None" if "off_lru q (vw_res W)" "ress (vw_res W) q \<noteq> None" for q
    using that v(3-5) by (cases "q = ?r") (auto simp: spares_def)
  have ids: "id_ok q w1" if "off_lru q (vw_res W)" "id_ok q (vw_res W) \<or> q = ?r" "ret1 = Inr ()" for q
    using that v(3,7) by (cases "q = ?r") (auto simp: spares_def id_ok_def)
  have step: "res_validate_list P (n # ns) W = (case ret1 of Inl e \<Rightarrow> Some (W\<lparr>vw_res := w1\<rparr>, Inl e) | Inr _ \<Rightarrow> res_validate_list P ns (W\<lparr>vw_res := w1\<rparr>))"
    using v(1,6) by (auto simp: Let_def split: sum.split)
  show ?case
  proof (cases ret1)
    case (Inl e)
    then show ?thesis using step v(2) keep by simp
  next
    case (Inr u)
    have "nodes_live ns w1" "\<forall>n\<in>set ns. off_lru (rn_res n) w1" using Cons.prems(2,3) keep unfolding nodes_live_def by simp_all
    then obtain W2 ret2 where W2: "res_validate_list P ns (W\<lparr>vw_res := w1\<rparr>) = Some (W2, ret2)" "res_inv ext (vw_res W2)" "vw_ctx W2 = vw_ctx W"
        "vw_eu W2 = vw_eu W" "vw_mutex W2 = vw_mutex W"
        "\<forall>q. off_lru q w1 \<and> ress w1 q \<noteq> None \<longrightarrow> off_lru q (vw_res W2) \<and> ress (vw_res W2) q \<noteq> None
            \<and> (ret2 = Inr () \<and> (id_ok q w1 \<or> q \<in> rn_res ` set ns) \<longrightarrow> id_ok q (vw_res W2))"
      using Cons.IH [of "W\<lparr>vw_res := w1\<rparr>"] v(2) by auto
    have "off_lru q (vw_res W2) \<and> ress (vw_res W2) q \<noteq> None
        \<and> (ret2 = Inr () \<and> (id_ok q (vw_res W) \<or> q \<in> rn_res ` set (n # ns)) \<longrightarrow> id_ok q (vw_res W2))"
      if "off_lru q (vw_res W)" "ress (vw_res W) q \<noteq> None" for q
      using W2(6) keep [OF that] ids [OF that(1)] Inr by auto
    then show ?thesis using step Inr W2(1-5) by simp
  qed
qed simp

lemma bo_validate_list_sel:
  assumes "bo_validate_list P intr l W = (W', ret)"
  shows "vw_ctx W' = vw_ctx W \<and> vw_res W' = vw_res W \<and> vw_eu W' = vw_eu W \<and> vw_mutex W' = vw_mutex W"
  using assms
proof (induction l arbitrary: W)
  case (Cons e es)
  have v: "vw_ctx W' = vw_ctx W \<and> vw_res W' = vw_res W \<and> vw_eu W' = vw_eu W \<and> vw_mutex W' = vw_mutex W"
    if "ttm_bo_validate P bo pl intr W = (W', ret)" for bo pl W W' ret
    using that by (auto simp: ttm_bo_validate_def dest: val_ask_sel split: prod.splits)
  obtain W1 ret1 where "(if bn_cpu_blit e then ttm_bo_validate P (vb_bo e) nonfixed_placement intr W
      else vmw_validation_bo_validate_single P (vb_bo e) intr (bn_as_mob e) W) = (W1, ret1)" (is "?v = _") by fastforce
  moreover from this have "vw_ctx W1 = vw_ctx W \<and> vw_res W1 = vw_res W \<and> vw_eu W1 = vw_eu W \<and> vw_mutex W1 = vw_mutex W"
    by (auto simp: vmw_validation_bo_validate_single_def dest!: v split: if_splits prod.splits)
  ultimately show ?case using Cons by (cases ret1) auto
qed simp

lemma vmw_bo_reserve_ok:
  assumes ctx: "ctx_inv P B R (vw_ctx W)" and rest: "\<forall>b. at_rest (eu_bos (vw_eu W) b)" and ends: "contention_ends patience (vp_eu P)"
    and fuel: "patience (eu_env (vw_eu W)) * Suc N + N < vp_eu_fuel P" "length (vc_bo_list (vw_ctx W)) \<le> N"
  shows "\<exists>w l ret. vmw_validation_bo_reserve P intr W = Some (upd_ctx (\<lambda>ctx. ctx\<lparr>vc_bo_list := l\<rparr>) (W\<lparr>vw_eu := w\<rparr>), ret)
           \<and> mset l = mset (vc_bo_list (vw_ctx W))
           \<and> (case ret of Inl _ \<Rightarrow> eu_bos w = eu_bos (vw_eu W)
              | Inr _ \<Rightarrow> (\<forall>n\<in>set l. held w (vb_bo n)) \<and> (\<exists>w'. ttm_eu_backoff_reservation l w = Some w' \<and> eu_bos w' = eu_bos (vw_eu W)))"
proof -
  let ?l = "vc_bo_list (vw_ctx W)"
  have excl: "\<forall>e\<in>set ?l. \<not> vb_shared e" using ctx by (simp add: ctx_inv_def)
  have cnt: "\<forall>b. counted (eu_bos (vw_eu W) b)" using rest by (simp add: at_rest_def)
  note r = reserve_buffers_ok [OF excl cnt, of patience "vp_eu P" "vp_eu_fuel P" True intr]
  have "patience (eu_env (vw_eu W)) * Suc (length ?l) \<le> patience (eu_env (vw_eu W)) * Suc N" using fuel(2) by (intro mult_le_mono2) simp
  then have "patience (eu_env (vw_eu W)) * Suc (length ?l) + length ?l < vp_eu_fuel P" using fuel by linarith
  then obtain w l dups ret where q: "ttm_eu_reserve_buffers (vp_eu P) (vp_eu_fuel P) True intr ?l None (vw_eu W) = Some (w, l, dups, ret)"
    using r ends by fastforce
  have m: "mset l = mset ?l" and c: "case ret of Inl _ \<Rightarrow> eu_bos w = eu_bos (vw_eu W)
      | Inr _ \<Rightarrow> free_in (eu_bos (vw_eu W)) (bo_list ?l) \<and> eu_bos w = at_bos (set (bo_list ?l)) reserved_bo (eu_bos (vw_eu W))"
    using r q by blast+
  have "(\<forall>n\<in>set l. held w (vb_bo n)) \<and> (\<exists>w'. ttm_eu_backoff_reservation l w = Some w' \<and> eu_bos w' = eu_bos (vw_eu W))" if "ret = Inr ()"
  proof -
    note q' = q [unfolded that]
    show ?thesis using reserved_list(6) [OF excl rest q'] reserve_backoff [OF excl rest q'] by (auto simp: held_def)
  qed
  then show ?thesis using q m c by (cases ret) (auto simp: vmw_validation_bo_reserve_def)
qed

text \<open>The outcome of a preparation, as the header of \<open>vmw_validation_prepare\<close> describes it.\<close>

definition prepared :: "('d, 'e, 'f) val_world \<Rightarrow> bool" where
  "prepared W \<longleftrightarrow> (\<forall>n\<in>set (resource_list (vw_ctx W)). rn_reserved n \<and> off_lru (rn_res n) (vw_res W) \<and> id_ok (rn_res n) (vw_res W))
     \<and> (\<forall>n\<in>set (vc_bo_list (vw_ctx W)). held (vw_eu W) (vb_bo n))"

definition backed_off :: "('d, 'e, 'f) val_world \<Rightarrow> ('d, 'e, 'f) val_world \<Rightarrow> bool" where
  "backed_off W W' \<longleftrightarrow> eu_bos (vw_eu W') = eu_bos (vw_eu W)
     \<and> (\<forall>n\<in>set (resource_list (vw_ctx W')). rn_reserved n \<longrightarrow> unreserved (rn_res n) (vw_res W'))"

text \<open>The references and resources are accounted for, whatever happened to the table.\<close>

definition res_part :: "(nat \<Rightarrow> nat) \<Rightarrow> ('d, 'e, 'f) val_world \<Rightarrow> bool" where
  "res_part ext W \<longleftrightarrow> res_inv (node_refs ext (vc_bo_list (vw_ctx W))) (vw_res W) \<and> nodes_live (resource_list (vw_ctx W)) (vw_res W)
     \<and> resource_ctx_list (vw_ctx W) = []"

lemma res_unreserve_ok:
  assumes "res_part ext W"
  shows "\<exists>W'. vmw_validation_res_unreserve backoff W = Some W' \<and> res_inv (node_refs ext (vc_bo_list (vw_ctx W'))) (vw_res W')
           \<and> vw_ctx W' = vw_ctx W \<and> vw_eu W' = vw_eu W \<and> vw_mutex W' = vw_mutex W
           \<and> (\<forall>n\<in>set (resource_list (vw_ctx W')). rn_reserved n \<longrightarrow> unreserved (rn_res n) (vw_res W'))"
proof -
  have s: "splice_ctx_list (vw_ctx W) = vw_ctx W" using assms by (simp add: splice_ctx_list_def res_part_def)
  obtain w where "res_unreserve_nodes backoff (resource_list (vw_ctx W)) (vw_res W) = Some w"
      "res_inv (node_refs ext (vc_bo_list (vw_ctx W))) w" "\<forall>n\<in>set (resource_list (vw_ctx W)). rn_reserved n \<longrightarrow> unreserved (rn_res n) w"
    using unreserve_nodes_ok [of "node_refs ext (vc_bo_list (vw_ctx W))" "vw_res W" "resource_list (vw_ctx W)" backoff] assms
    by (auto simp: res_part_def)
  then show ?thesis using s by (auto simp: vmw_validation_res_unreserve_def Let_def)
qed

lemma backoff_ok:
  assumes part: "res_part ext W" and bos: "if reserved then \<exists>w'. ttm_eu_backoff_reservation (vc_bo_list (vw_ctx W)) (vw_eu W) = Some w'
      \<and> eu_bos w' = eu_bos (vw_eu W0) else eu_bos (vw_eu W) = eu_bos (vw_eu W0)"
  shows "\<exists>W'. prepare_backoff reserved W = Some W' \<and> backed_off W0 W' \<and> vw_mutex W' = vw_mutex W \<and> vw_ctx W' = vw_ctx W
           \<and> res_inv (node_refs ext (vc_bo_list (vw_ctx W'))) (vw_res W')"
proof -
  obtain w' where w': "(if reserved then vmw_validation_bo_backoff W else Some W) = Some (W\<lparr>vw_eu := w'\<rparr>)" "eu_bos w' = eu_bos (vw_eu W0)"
    using bos that [of "vw_eu W"] by (cases reserved) (auto simp: vmw_validation_bo_backoff_def)
  have "res_part ext (W\<lparr>vw_eu := w'\<rparr>)" using part by (simp add: res_part_def)
  then show ?thesis using res_unreserve_ok [of ext "W\<lparr>vw_eu := w'\<rparr>" True] w'
    by (auto simp: prepare_backoff_def backed_off_def)
qed

lemma res_reserve_ok:
  assumes inv: "val_inv P B R ext W" and known: "allocs_known P B"
  shows "\<exists>W' ret. vmw_validation_res_reserve P W = Some (W', ret) \<and> vw_eu W' = vw_eu W \<and> vw_mutex W' = vw_mutex W
           \<and> map rn_res (resource_list (vw_ctx W')) = map rn_res (all_res_nodes (vw_ctx W))
           \<and> length (vc_bo_list (vw_ctx W')) \<le> length (vc_bo_list (vw_ctx W)) + length (all_res_nodes (vw_ctx W))
           \<and> res_inv (node_refs ext (vc_bo_list (vw_ctx W'))) (vw_res W')
           \<and> (case ret of
                Inl _ \<Rightarrow> \<forall>n\<in>set (resource_list (vw_ctx W')). rn_reserved n \<longrightarrow> unreserved (rn_res n) (vw_res W')
              | Inr _ \<Rightarrow> ctx_inv P B R (vw_ctx W') \<and> res_part ext W'
                  \<and> (\<forall>n\<in>set (resource_list (vw_ctx W')). rn_reserved n \<and> off_lru (rn_res n) (vw_res W')))"
proof -
  let ?W = "upd_ctx splice_ctx_list W"
  have v: "val_inv P B R ext ?W" using inv by (auto simp: val_inv_def ctx_inv_def ht_agrees_def splice_ctx_list_def split: option.splits)
  have l: "resource_list (vw_ctx ?W) = all_res_nodes (vw_ctx W)" "resource_ctx_list (vw_ctx ?W) = []" "vc_bo_list (vw_ctx ?W) = vc_bo_list (vw_ctx W)"
    by (simp_all add: splice_ctx_list_def)
  obtain W1 ret where r: "res_reserve_loop P 0 (length (resource_list (vw_ctx ?W))) ?W = Some (W1, ret)" "val_inv P B R ext W1" "same_job ?W W1"
      "length (vc_bo_list (vw_ctx W1)) \<le> length (vc_bo_list (vw_ctx ?W)) + length (resource_list (vw_ctx ?W))"
      "ret = Inr () \<longrightarrow> reserved_upto (length (resource_list (vw_ctx W1))) W1"
    using res_reserve_loop_ok [OF v known, of 0 "length (resource_list (vw_ctx ?W))"] by (auto simp: reserved_upto_def)
  have c: "resource_ctx_list (vw_ctx W1) = []" "map rn_res (resource_list (vw_ctx W1)) = map rn_res (all_res_nodes (vw_ctx W))"
      "vw_eu W1 = vw_eu W" "vw_mutex W1 = vw_mutex W" using r(3) l by (simp_all add: same_job_def)
  have part: "res_part ext W1" "ctx_inv P B R (vw_ctx W1)" using r(2) c(1) by (simp_all add: res_part_def val_inv_def)
  show ?thesis
  proof (cases ret)
    case (Inr u)
    then have "\<forall>n\<in>set (resource_list (vw_ctx W1)). rn_reserved n \<and> off_lru (rn_res n) (vw_res W1)"
      using r(5) by (auto simp: reserved_upto_def in_set_conv_nth)
    moreover have "vmw_validation_res_reserve P W = Some (W1, Inr ())" using r(1) Inr by (simp add: vmw_validation_res_reserve_def)
    ultimately show ?thesis using part c r(4) l by (simp add: res_part_def)
  next
    case (Inl e)
    obtain W2 where u: "vmw_validation_res_unreserve True W1 = Some W2" "res_inv (node_refs ext (vc_bo_list (vw_ctx W2))) (vw_res W2)"
        "vw_ctx W2 = vw_ctx W1" "vw_eu W2 = vw_eu W1" "vw_mutex W2 = vw_mutex W1"
        "\<forall>n\<in>set (resource_list (vw_ctx W2)). rn_reserved n \<longrightarrow> unreserved (rn_res n) (vw_res W2)"
      using res_unreserve_ok [OF part(1), of True] by blast
    moreover have "vmw_validation_res_reserve P W = Some (W2, Inl e)" using r(1) Inl u(1) by (simp add: vmw_validation_res_reserve_def)
    ultimately show ?thesis using c r(4) l by simp
  qed
qed

lemma validate_part_ok:
  assumes part: "res_part ext W" and off: "\<forall>n\<in>set (resource_list (vw_ctx W)). rn_reserved n \<and> off_lru (rn_res n) (vw_res W)"
  shows "\<exists>W' ret. vmw_validation_res_validate P W = Some (W', ret) \<and> res_part ext W' \<and> vw_ctx W' = vw_ctx W \<and> vw_eu W' = vw_eu W
           \<and> vw_mutex W' = vw_mutex W
           \<and> (ret = Inr () \<longrightarrow> (\<forall>n\<in>set (resource_list (vw_ctx W')). rn_reserved n \<and> off_lru (rn_res n) (vw_res W') \<and> id_ok (rn_res n) (vw_res W')))"
proof -
  let ?ns = "resource_list (vw_ctx W)"
  have p: "res_inv (node_refs ext (vc_bo_list (vw_ctx W))) (vw_res W)" "nodes_live ?ns (vw_res W)" "\<forall>n\<in>set ?ns. off_lru (rn_res n) (vw_res W)"
    using part off by (simp_all add: res_part_def)
  obtain W' ret where v: "res_validate_list P ?ns W = Some (W', ret)" "res_inv (node_refs ext (vc_bo_list (vw_ctx W))) (vw_res W')"
      "vw_ctx W' = vw_ctx W" "vw_eu W' = vw_eu W" "vw_mutex W' = vw_mutex W"
      "\<forall>q. off_lru q (vw_res W) \<and> ress (vw_res W) q \<noteq> None \<longrightarrow> off_lru q (vw_res W') \<and> ress (vw_res W') q \<noteq> None
          \<and> (ret = Inr () \<and> (id_ok q (vw_res W) \<or> q \<in> rn_res ` set ?ns) \<longrightarrow> id_ok q (vw_res W'))"
    using res_validate_list_ok [OF p, of P] by blast
  have "off_lru (rn_res n) (vw_res W') \<and> ress (vw_res W') (rn_res n) \<noteq> None \<and> (ret = Inr () \<longrightarrow> id_ok (rn_res n) (vw_res W'))"
    if "n \<in> set ?ns" for n
    using v(6) [rule_format, of "rn_res n"] that p(2,3) unfolding nodes_live_def by blast
  then show ?thesis using v part off unfolding vmw_validation_res_validate_def res_part_def nodes_live_def by auto
qed

definition prepare_result :: "(nat \<Rightarrow> nat) \<Rightarrow> ('d, 'e, 'f) val_world \<Rightarrow> ('d, 'e, 'f) val_world \<times> unit kres \<Rightarrow> bool" where
  "prepare_result ext W0 r = (case r of (W', ret) \<Rightarrow>
     vw_mutex W' = vw_mutex W0 \<and> map rn_res (resource_list (vw_ctx W')) = map rn_res (all_res_nodes (vw_ctx W0))
     \<and> res_inv (node_refs ext (vc_bo_list (vw_ctx W'))) (vw_res W')
     \<and> (case ret of Inl _ \<Rightarrow> backed_off W0 W' | Inr _ \<Rightarrow> prepared W'))"

lemma validate_all_ok:
  assumes part: "res_part ext W" and off: "\<forall>n\<in>set (resource_list (vw_ctx W)). rn_reserved n \<and> off_lru (rn_res n) (vw_res W)"
    and held: "\<forall>n\<in>set (vc_bo_list (vw_ctx W)). held (vw_eu W) (vb_bo n)"
    and rel: "\<exists>w'. ttm_eu_backoff_reservation (vc_bo_list (vw_ctx W)) (vw_eu W) = Some w' \<and> eu_bos w' = eu_bos (vw_eu W0)"
    and W0: "vw_mutex W = vw_mutex W0" "map rn_res (resource_list (vw_ctx W)) = map rn_res (all_res_nodes (vw_ctx W0))"
  shows "\<exists>r. validate_all P intr W = Some r \<and> prepare_result ext W0 r"
proof -
  have rel': "\<exists>W'. prepare_backoff True W1 = Some W' \<and> prepare_result ext W0 (W', Inl e)"
    if "res_part ext W1" "vw_ctx W1 = vw_ctx W" "vw_eu W1 = vw_eu W" "vw_mutex W1 = vw_mutex W" for W1 e
    using backoff_ok [of ext W1 True W0] that rel W0 by (auto simp: prepare_result_def)
  obtain W1 ret1 where v: "vmw_validation_bo_validate P intr W = (W1, ret1)" by fastforce
  have s: "vw_ctx W1 = vw_ctx W" "vw_res W1 = vw_res W" "vw_eu W1 = vw_eu W" "vw_mutex W1 = vw_mutex W"
    using bo_validate_list_sel [of P intr _ W W1 ret1] v by (auto simp: vmw_validation_bo_validate_def)
  have p1: "res_part ext W1" using part s by (simp add: res_part_def)
  show ?thesis
  proof (cases ret1)
    case (Inl e)
    then show ?thesis using v rel' [OF p1 s(1,3,4), of e] by (auto simp: validate_all_def)
  next
    case (Inr u)
    obtain W2 ret2 where r: "vmw_validation_res_validate P W1 = Some (W2, ret2)" "res_part ext W2" "vw_ctx W2 = vw_ctx W1"
        "vw_eu W2 = vw_eu W1" "vw_mutex W2 = vw_mutex W1"
        "ret2 = Inr () \<longrightarrow> (\<forall>n\<in>set (resource_list (vw_ctx W2)). rn_reserved n \<and> off_lru (rn_res n) (vw_res W2) \<and> id_ok (rn_res n) (vw_res W2))"
      using validate_part_ok [OF p1, of P] off s by auto
    show ?thesis
    proof (cases ret2)
      case (Inl e)
      then show ?thesis using v Inr r(1) rel' [OF r(2), of e] r(3-5) s by (auto simp: validate_all_def)
    next
      case Inr': (Inr u)
      then have "prepared W2" using r(3,4,6) s held by (simp add: prepared_def)
      then show ?thesis using v Inr Inr' r s W0 by (simp add: validate_all_def prepare_result_def res_part_def)
    qed
  qed
qed

lemma prepare_locked_ok:
  assumes inv: "val_inv P B R ext W" and known: "allocs_known P B" and rest: "\<forall>b. at_rest (eu_bos (vw_eu W) b)"
    and ends: "contention_ends patience (vp_eu P)"
    and fuel: "patience (eu_env (vw_eu W)) * Suc N + N < vp_eu_fuel P" "N = length (vc_bo_list (vw_ctx W)) + length (all_res_nodes (vw_ctx W))"
  shows "\<exists>r. prepare_locked P intr W = Some r \<and> prepare_result ext W r"
proof -
  obtain W1 ret1 where r: "vmw_validation_res_reserve P W = Some (W1, ret1)" "vw_eu W1 = vw_eu W" "vw_mutex W1 = vw_mutex W"
      "map rn_res (resource_list (vw_ctx W1)) = map rn_res (all_res_nodes (vw_ctx W))" "length (vc_bo_list (vw_ctx W1)) \<le> N"
      "res_inv (node_refs ext (vc_bo_list (vw_ctx W1))) (vw_res W1)"
      "case ret1 of Inl _ \<Rightarrow> \<forall>n\<in>set (resource_list (vw_ctx W1)). rn_reserved n \<longrightarrow> unreserved (rn_res n) (vw_res W1)
        | Inr _ \<Rightarrow> ctx_inv P B R (vw_ctx W1) \<and> res_part ext W1 \<and> (\<forall>n\<in>set (resource_list (vw_ctx W1)). rn_reserved n \<and> off_lru (rn_res n) (vw_res W1))"
    using res_reserve_ok [OF inv known] fuel(2) by blast
  show ?thesis
  proof (cases ret1)
    case (Inl e)
    then show ?thesis using r by (simp add: prepare_locked_def prepare_result_def backed_off_def)
  next
    case (Inr u)
    have ctx1: "ctx_inv P B R (vw_ctx W1)" and part1: "res_part ext W1"
      and off1: "\<forall>n\<in>set (resource_list (vw_ctx W1)). rn_reserved n \<and> off_lru (rn_res n) (vw_res W1)" using r(7) Inr by simp_all
    obtain w l ret2 where b: "vmw_validation_bo_reserve P intr W1 = Some (upd_ctx (\<lambda>ctx. ctx\<lparr>vc_bo_list := l\<rparr>) (W1\<lparr>vw_eu := w\<rparr>), ret2)"
        "mset l = mset (vc_bo_list (vw_ctx W1))"
        "case ret2 of Inl _ \<Rightarrow> eu_bos w = eu_bos (vw_eu W1)
          | Inr _ \<Rightarrow> (\<forall>n\<in>set l. held w (vb_bo n)) \<and> (\<exists>w'. ttm_eu_backoff_reservation l w = Some w' \<and> eu_bos w' = eu_bos (vw_eu W1))"
      using vmw_bo_reserve_ok [OF ctx1, of patience N intr] rest ends fuel(1) r(2,5) by auto
    define W2 where "W2 = upd_ctx (\<lambda>ctx. ctx\<lparr>vc_bo_list := l\<rparr>) (W1\<lparr>vw_eu := w\<rparr>)"
    have part2: "res_part ext W2" using part1 node_refs_mset [OF b(2)] by (simp add: W2_def res_part_def)
    have eq: "prepare_locked P intr W = (case ret2 of Inl e \<Rightarrow> map_option (\<lambda>W. (W, Inl e)) (prepare_backoff False W2) | Inr _ \<Rightarrow> validate_all P intr W2)"
      using r(1) Inr b(1) by (simp add: prepare_locked_def W2_def split: sum.split)
    show ?thesis
    proof (cases ret2)
      case (Inl e)
      then show ?thesis using eq backoff_ok [OF part2, of False W] b(3) r(2-4) by (auto simp: W2_def prepare_result_def)
    next
      case Inr': (Inr u)
      have "\<exists>r. validate_all P intr W2 = Some r \<and> prepare_result ext W r"
        using b(3) Inr' r(2-4) off1 by (intro validate_all_ok [OF part2]) (auto simp: W2_def)
      then show ?thesis using eq Inr' by simp
    qed
  qed
qed

lemma lock_mutex_ok:
  assumes "\<not> vw_mutex W"
  shows "\<exists>W' ret. lock_mutex P intr W = Some (W', ret) \<and> vw_ctx W' = vw_ctx W \<and> vw_res W' = vw_res W \<and> vw_eu W' = vw_eu W
           \<and> vw_mutex W' = (ret = Inr ())"
proof -
  obtain a W1 where q: "val_ask P (Q_Mutex_Lock intr) W = (a, W1)" by fastforce
  then show ?thesis using assms val_ask_sel [OF q] by (cases a; cases intr) (simp_all add: lock_mutex_def)
qed

section \<open>What validation guarantees\<close>


text \<open>A submission that uses surface 3 of \<open>busy_device\<close>, and one that uses nothing yet.\<close>

definition small_par :: "(unit, nat, unit) val_par" where
  "small_par = \<lparr>vp_res = all_works, vp_eu = one_deadlock, vp_ask = (\<lambda>q d. (Inr 8192, d)), vp_hash = low_bits_hash,
     vp_bo_key = (\<lambda>b. 1), vp_res_key = (\<lambda>r. 2), vp_has_mob = True, vp_eu_fuel = 4\<rparr>"

definition empty_ctx :: vmw_validation_context where
  "empty_ctx = \<lparr>vc_ht = None, resource_list = [], resource_ctx_list = [], vc_bo_list = [], page_list = [], res_mutex = False,
     merge_dups = True, mem_size_left = 0, page_address = 0\<rparr>"

definition node3 :: vmw_validation_res_node where
  "node3 = \<lparr>rn_addr = 8192, rn_res = 3, rn_new_backup = None, rn_new_backup_offset = 0, rn_no_buffer_needed = False,
     rn_switching_backup = False, rn_first_usage = True, rn_reserved = False\<rparr>"

definition small_job :: "(unit, nat, unit) val_world" where
  "small_job = \<lparr>vw_res = busy_device, vw_eu = idle_world, vw_ctx = empty_ctx\<lparr>resource_list := [node3]\<rparr>, vw_mutex = False, vw_env = ()\<rparr>"

lemma small_job_inv: "val_inv small_par {100} {3} (\<lambda>b. 0) small_job"
proof -
  have "node_refs (\<lambda>b. 0) [] = (\<lambda>b. 0)" by (simp add: node_refs_def fun_eq_iff)
  moreover have "backup_of r busy_device = None" for r
    by (simp add: backup_of_def busy_device_def surface_res_def)
  moreover have "ctx_inv small_par {100} {3} (vw_ctx small_job)"
    by (simp add: ctx_inv_def keys_ok_def small_par_def small_job_def empty_ctx_def node3_def)
  moreover have "ress busy_device 3 \<noteq> None" by (simp add: busy_device_def)
  ultimately show ?thesis using busy_device_inv
    by (simp add: val_inv_def small_job_def empty_ctx_def node3_def nodes_live_def)
qed


definition table_job :: "(unit, nat, unit) val_world" where
  "table_job = small_job\<lparr>vw_ctx := empty_ctx\<lparr>vc_ht := Some \<lparr>ht_order = 0, ht_table = Some [[]]\<rparr>\<rparr>\<rparr>"

lemma table_job_inv: "ctx_inv small_par {100} {3} (vw_ctx table_job)"
proof -
  have "ht_inv low_bits_hash \<lparr>ht_order = 0, ht_table = Some [[]]\<rparr>"
    using low_bits_hash_in_range [of 0] by (simp add: ht_inv_def chain_ok_def)
  then show ?thesis
    by (simp add: ctx_inv_def ht_agrees_def keys_ok_def small_par_def table_job_def small_job_def empty_ctx_def ht_map_def ht_items_def)
qed



section \<open>The memory of a context\<close>

text \<open>
  \<open>live\<close> lists the regions handed out. The regions of the page in use end where its free part begins.
\<close>

definition region_ok :: "vmw_validation_context \<Rightarrow> nat \<times> nat \<Rightarrow> bool" where
  "region_ok ctx = (\<lambda>(a, sz). 8 dvd a \<and> (\<exists>p\<in>set (page_list ctx). p \<le> a \<and> a + sz \<le> p + PAGE_SIZE
     \<and> (p = page_address ctx \<longrightarrow> a + sz \<le> p + (PAGE_SIZE - mem_size_left ctx))))"

definition disjoint_regions :: "nat \<times> nat \<Rightarrow> nat \<times> nat \<Rightarrow> bool" where
  "disjoint_regions = (\<lambda>(a, s) (b, t). a + s \<le> b \<or> b + t \<le> a)"

definition mem_inv :: "vmw_validation_context \<Rightarrow> (nat \<times> nat) list \<Rightarrow> bool" where
  "mem_inv ctx live \<longleftrightarrow> mem_size_left ctx \<le> PAGE_SIZE \<and> 8 dvd mem_size_left ctx
     \<and> (0 < mem_size_left ctx \<longrightarrow> page_address ctx \<in> set (page_list ctx))
     \<and> (\<forall>p\<in>set (page_list ctx). PAGE_SIZE dvd p) \<and> (\<forall>x\<in>set live. region_ok ctx x) \<and> sorted_wrt disjoint_regions live"

lemma pages_apart: "PAGE_SIZE dvd p \<Longrightarrow> PAGE_SIZE dvd q \<Longrightarrow> p \<noteq> q \<Longrightarrow> p + PAGE_SIZE \<le> q \<or> q + PAGE_SIZE \<le> p"
  by (elim dvdE) (auto simp: not_le)

definition take_mem :: "nat \<Rightarrow> vmw_validation_context \<Rightarrow> vmw_validation_context" where
  "take_mem sz ctx = ctx\<lparr>mem_size_left := mem_size_left ctx - sz\<rparr>"

lemma take_mem_inv:
  assumes inv: "mem_inv ctx live" and sz: "0 < sz" "8 dvd sz" "sz \<le> mem_size_left ctx"
  shows "mem_inv (take_mem sz ctx) ((page_address ctx + (PAGE_SIZE - mem_size_left ctx), sz) # live)"
proof -
  let ?p = "page_address ctx" and ?left = "mem_size_left ctx"
  let ?a = "?p + (PAGE_SIZE - ?left)"
  have left: "?left \<le> PAGE_SIZE" "8 dvd ?left" and p: "?p \<in> set (page_list ctx)" "PAGE_SIZE dvd ?p"
    using inv sz by (auto simp: mem_inv_def)
  have a: "8 dvd ?a" using left p(2) by (intro dvd_add dvd_diff_nat) (auto intro: dvd_trans)
  have new: "region_ok (take_mem sz ctx) (?a, sz)" using a p(1) left(1) sz(3) by (auto simp: region_ok_def take_mem_def intro!: bexI [of _ ?p])
  have old: "region_ok (take_mem sz ctx) x" if "region_ok ctx x" for x
    using that sz(3) by (cases x) (auto simp: region_ok_def take_mem_def intro: le_trans)
  have "disjoint_regions (?a, sz) x" if x: "x \<in> set live" for x
  proof -
    obtain b t where bt: "x = (b, t)" by (cases x) auto
    have "region_ok ctx (b, t)" using inv x bt by (auto simp: mem_inv_def)
    then obtain q where q: "q \<in> set (page_list ctx)" "q \<le> b" "b + t \<le> q + PAGE_SIZE" "q = ?p \<longrightarrow> b + t \<le> q + (PAGE_SIZE - ?left)"
      by (auto simp: region_ok_def)
    have "PAGE_SIZE dvd q" using inv q(1) by (auto simp: mem_inv_def)
    then show ?thesis using q pages_apart [OF p(2), of q] left(1) sz(3) bt by (cases "q = ?p") (auto simp: disjoint_regions_def)
  qed
  moreover have "8 dvd ?left - sz" using left(2) sz(2) by (rule dvd_diff_nat)
  ultimately show ?thesis using inv new old left by (auto simp: mem_inv_def take_mem_def)
qed

definition new_page :: "nat \<Rightarrow> vmw_validation_context \<Rightarrow> vmw_validation_context" where
  "new_page page ctx = ctx\<lparr>page_list := page_list ctx @ [page], page_address := page, mem_size_left := PAGE_SIZE\<rparr>"

lemma new_page_inv:
  assumes inv: "mem_inv ctx live" and page: "PAGE_SIZE dvd page" "page \<notin> set (page_list ctx)"
  shows "mem_inv (new_page page ctx) live"
proof -
  have "region_ok (new_page page ctx) x" if "region_ok ctx x" for x
    using that page(2) by (cases x) (auto simp: region_ok_def new_page_def)
  then show ?thesis using inv page(1) by (auto simp: mem_inv_def new_page_def)
qed

lemma align_dvd: "8 dvd vmw_validation_align sz"
  by (simp add: vmw_validation_align_def)

text \<open>The memory that \<open>vmw_validation_mem_alloc\<close> hands out for the nodes of a context is aligned, lies within
  one page of the context, and overlaps nothing handed out before, if the page allocator gives pages that the
  context does not have yet.
\<close>
lemma validation_memory_disjoint:
  assumes "mem_inv (vw_ctx W) live" "0 < vmw_validation_align sz" "vmw_validation_mem_alloc P sz W = (W', Some a)"
    and "\<forall>n d'. vp_ask P Q_Alloc_Page (vw_env W) = (Inr n, d') \<longrightarrow> PAGE_SIZE dvd n \<and> n \<notin> set (page_list (vw_ctx W))"
  shows "mem_inv (vw_ctx W') ((a, vmw_validation_align sz) # live)"
proof (cases "mem_size_left (vw_ctx W) < vmw_validation_align sz")
  case False
  then have "vw_ctx W' = take_mem (vmw_validation_align sz) (vw_ctx W)" "a = page_address (vw_ctx W) + (PAGE_SIZE - mem_size_left (vw_ctx W))"
    using assms(3) by (auto simp: vmw_validation_mem_alloc_def Let_def take_mem_def split: if_splits)
  then show ?thesis using take_mem_inv [OF assms(1,2) align_dvd] False by simp
next
  case True
  obtain r d' where q: "vp_ask P Q_Alloc_Page (vw_env W) = (r, d')" by fastforce
  have le: "vmw_validation_align sz \<le> PAGE_SIZE" using assms(3) by (cases "PAGE_SIZE < vmw_validation_align sz") (simp_all add: vmw_validation_mem_alloc_def Let_def)
  obtain page where r: "r = Inr page" using assms(3) True le q by (cases r) (simp_all add: vmw_validation_mem_alloc_def Let_def val_ask_def)
  have p: "vp_ask P Q_Alloc_Page (vw_env W) = (Inr page, d')" "vmw_validation_align sz \<le> PAGE_SIZE"
      "vw_ctx W' = take_mem (vmw_validation_align sz) (new_page page (vw_ctx W))" "a = page"
    using assms(3) True le q r by (auto simp: vmw_validation_mem_alloc_def Let_def val_ask_def take_mem_def new_page_def)
  have "mem_inv (new_page page (vw_ctx W)) live" using new_page_inv [OF assms(1)] assms(4) p(1) by blast
  from take_mem_inv [OF this assms(2) align_dvd] show ?thesis using p by (simp add: new_page_def)
qed

lemma validation_memory_disjoint_example:
  "mem_inv (vw_ctx (fst (vmw_validation_mem_alloc small_par 64 small_job))) [(8192, 64)]"
proof -
  have "vmw_validation_align 64 = 64" by (simp add: vmw_validation_align_def)
  moreover from this obtain W' where "vmw_validation_mem_alloc small_par 64 small_job = (W', Some 8192)"
    by (simp add: vmw_validation_mem_alloc_def Let_def val_ask_def small_par_def small_job_def empty_ctx_def)
  moreover have "mem_inv (vw_ctx small_job) []" by (simp add: mem_inv_def small_job_def empty_ctx_def)
  ultimately show ?thesis
    using validation_memory_disjoint [of small_job "[]" 64 small_par W' 8192] by (simp add: small_par_def small_job_def empty_ctx_def)
qed

text \<open>
  After a successful preload, an allocation of at most that size takes no new page.
\<close>
lemma preload_no_sleep:
  assumes "preload P sz W = (W', Inr ())" "8 dvd sz" "sz < 2 ^ 31" "vmw_validation_align sz' \<le> sz" "mem_size_left (vw_ctx W) \<le> PAGE_SIZE"
  shows "\<exists>W'' a. vmw_validation_mem_alloc P sz' W' = (W'', Some a) \<and> vw_env W'' = vw_env W'"
proof -
  have al: "vmw_validation_align sz = sz" using assms(2,3) by (elim dvdE) (simp add: vmw_validation_align_def)
  have "sz \<le> mem_size_left (vw_ctx W')" "sz \<le> PAGE_SIZE"
    using assms(1) al by (auto simp: preload_def vmw_validation_mem_alloc_def Let_def val_ask_def split: if_splits prod.splits sum.splits option.splits)
  then show ?thesis using assms(4) by (simp add: vmw_validation_mem_alloc_def Let_def)
qed

section \<open>Two ways to fail\<close>

text \<open>
  A buffer whose last reference is gone is refused with \<open>-ESRCH\<close>, but its item has been put into the table
  already, and neither list has the node: \<open>vmw_validation_drop_ht\<close> leaves the item in the table, which outlives
  the memory of the node.
\<close>
lemma doomed_buffer_stays_in_table:
  "\<exists>W' ht. vmw_validation_add_bo small_par 100 True False table_job = Some (W', Inl ESRCH) \<and> vc_bo_list (vw_ctx W') = []
     \<and> snd (vmw_validation_drop_ht (vw_ctx W')) = Some ht \<and> map item_obj (ht_items ht) = [Bo_Item 8192]"
  by (simp add: vmw_validation_add_bo_def vmw_validation_find_bo_dup_def table_job_def small_job_def empty_ctx_def small_par_def
      drm_ht_find_item_def drm_ht_find_key_rcu_def ht_chain_def vmw_validation_mem_alloc_def vmw_validation_align_def bo_node_size_def
      Let_def val_ask_def ht_add_def drm_ht_insert_item_def ht_set_chain_def low_bits_hash_def upd_ctx_def
      ttm_bo_reference_unless_doomed_def busy_device_def idle_device_def vmw_validation_drop_ht_def ht_items_def)

text \<open>
  A resource for which no backup buffer can be allocated has left the list of evictable resources when
  \<open>vmw_validation_res_reserve\<close> fails, is not marked as reserved, and is not put back.
\<close>
lemma failed_reserve_loses_resource:
  "\<exists>W'. vmw_validation_res_reserve (small_par\<lparr>vp_res := (\<lambda>q d. (Inl ENOMEM, d))\<rparr>)
       (small_job\<lparr>vw_ctx := empty_ctx\<lparr>resource_list := [node3\<lparr>rn_res := 2\<rparr>]\<rparr>\<rparr>) = Some (W', Inl ENOMEM)
     \<and> \<not> unreserved 2 (vw_res W')"
  by (simp add: vmw_validation_res_reserve_def small_par_def small_job_def empty_ctx_def node3_def splice_ctx_list_def upd_ctx_def Let_def
      busy_device_def surface_res_def res_eval vmw_validation_res_unreserve_def unreserved_def off_lru_def)

end
