(* ===== verification/Cmdbuf.thy ===== *)
theory Cmdbuf
  imports Ttm_Bo_Manager Irq Execbuf "HOL-Library.Multiset" "HOL-Library.Sublist"
begin

text \<open>
  The command buffer manager of \<open>src/vmwgfx_cmdbuf.c\<close>, which replaces the FIFO on devices that have it. Command
  buffers wait in the queue of their context, are handed to the device up to a limit, and are freed, put aside or
  rerun when the device has written their status. Large buffers get their space from a range allocator, small
  kernel commands share a current buffer.

  Headers are kept in a heap, a map from addresses; the embedded allocator node of a header has the header's address
  as its number. An access to a header that is not in the heap is \<open>OOPS\<close>. The device is two functions over a state
  of its own: one is called with the two registers that submit a buffer, the other before the driver reads a status,
  and both may write the status and the error offset of a header. Memory that the kernel hands out, signals and what other
  threads do while the caller sleeps are arguments.
\<close>

section \<open>State\<close>

datatype SVGACBStatus =
    SVGA_CB_STATUS_NONE | SVGA_CB_STATUS_COMPLETED | SVGA_CB_STATUS_QUEUE_FULL | SVGA_CB_STATUS_COMMAND_ERROR
  | SVGA_CB_STATUS_CB_HEADER_ERROR | SVGA_CB_STATUS_PREEMPTED | SVGA_CB_STATUS_SUBMISSION_ERROR
  | SVGA_CB_STATUS_PARTIAL_COMPLETE

abbreviation (input) SVGA_CB_CONTEXT_MASK :: u32 where "SVGA_CB_CONTEXT_MASK \<equiv> 0x3f"
abbreviation (input) SVGA_CB_CONTEXT_DEVICE :: u32 where "SVGA_CB_CONTEXT_DEVICE \<equiv> 0x3f"
abbreviation (input) SVGA_CB_CONTEXT_0 :: u32 where "SVGA_CB_CONTEXT_0 \<equiv> 0"
abbreviation (input) SVGA_CB_MAX_QUEUED_PER_CONTEXT :: u32 where "SVGA_CB_MAX_QUEUED_PER_CONTEXT \<equiv> 32"
abbreviation (input) SVGA_CB_FLAG_DX_CONTEXT :: u32 where "SVGA_CB_FLAG_DX_CONTEXT \<equiv> 2"
abbreviation (input) SVGA_CB_FLAG_MOB :: u32 where "SVGA_CB_FLAG_MOB \<equiv> 4"
abbreviation (input) SVGA3D_INVALID_ID :: u32 where "SVGA3D_INVALID_ID \<equiv> - 1"
abbreviation (input) VMW_CMDBUF_INLINE_SIZE :: u64 where "VMW_CMDBUF_INLINE_SIZE \<equiv> 960"

record SVGACBHeader =
  cb_status :: SVGACBStatus
  cb_errorOffset :: u32
  cb_flags :: u32
  cb_length :: u32
  cb_ptr :: u64 \<comment> \<open>the union: an address, or a MOB in the low and an offset in the high half\<close>
  cb_offset :: u32
  cb_dxContext :: u32

record vmw_cmdbuf_header =
  cb_header :: SVGACBHeader
  cb_context :: u32
  hdr_handle :: u64
  hdr_cmd :: nat
  hdr_size :: u64
  hdr_reserved :: u64
  inline_space :: bool

record vmw_cmdbuf_context =
  submitted :: "nat list"
  hw_submitted :: "nat list"
  preempted :: "nat list"
  num_hw_submitted :: u32
  block_submission :: bool

record vmw_cmdbuf_man =
  cm_ctx :: "nat \<Rightarrow> vmw_cmdbuf_context"
  cm_error :: "nat list"
  cm_mm :: "drm_mm option" \<comment> \<open>initialised with the pool\<close>
  cm_map :: nat
  cm_mobid :: u32
  cm_cur :: "nat option"
  cur_pos :: u64
  default_size :: u64
  max_hw_submitted :: u32
  irq_on :: bool
  using_mob :: bool
  has_pool :: bool
  cm_handle :: u64
  cm_size :: u64
  num_contexts :: nat
  cur_mutex :: bool
  cm_work :: bool

record 'd cb_world =
  cman :: vmw_cmdbuf_man
  hdrs :: "nat \<Rightarrow> vmw_cmdbuf_header option"
  cb_dev :: vmw_private
  kmem :: memory
  cb_env :: 'd

type_synonym cb_report = "(SVGACBStatus \<times> u32) option" \<comment> \<open>the status and the error offset, if the device writes them\<close>

record 'd cb_device =
  dev_submit :: "u32 \<Rightarrow> u32 \<Rightarrow> 'd \<Rightarrow> cb_report \<times> 'd"
  dev_poll :: "u64 \<Rightarrow> 'd \<Rightarrow> cb_report \<times> 'd"

definition get_hdr :: "'d cb_world \<Rightarrow> nat \<Rightarrow> vmw_cmdbuf_header kres" where
  "get_hdr w h = (case hdrs w h of None \<Rightarrow> Inl OOPS | Some x \<Rightarrow> Inr x)"

definition upd_cb :: "nat \<Rightarrow> (SVGACBHeader \<Rightarrow> SVGACBHeader) \<Rightarrow> 'd cb_world \<Rightarrow> 'd cb_world" where
  "upd_cb h f w = w\<lparr>hdrs := (hdrs w)(h := map_option (\<lambda>x. x\<lparr>cb_header := f (cb_header x)\<rparr>) (hdrs w h))\<rparr>"

definition upd_ctx :: "nat \<Rightarrow> (vmw_cmdbuf_context \<Rightarrow> vmw_cmdbuf_context) \<Rightarrow> 'd cb_world \<Rightarrow> 'd cb_world" where
  "upd_ctx c f w = w\<lparr>cman := (cman w)\<lparr>cm_ctx := (cm_ctx (cman w))(c := f (cm_ctx (cman w) c))\<rparr>\<rparr>"

abbreviation upd_man_rec :: "(vmw_cmdbuf_man \<Rightarrow> vmw_cmdbuf_man) \<Rightarrow> 'd cb_world \<Rightarrow> 'd cb_world" where
  "upd_man_rec f w \<equiv> w\<lparr>cman := f (cman w)\<rparr>"

abbreviation ctx :: "'d cb_world \<Rightarrow> nat \<Rightarrow> vmw_cmdbuf_context" where
  "ctx w c \<equiv> cm_ctx (cman w) c"

definition device_writes :: "cb_report \<Rightarrow> SVGACBHeader \<Rightarrow> SVGACBHeader" where
  "device_writes r cb = (case r of None \<Rightarrow> cb | Some (st, eo) \<Rightarrow> cb\<lparr>cb_status := st, cb_errorOffset := eo\<rparr>)"

section \<open>Freeing and submitting buffers\<close>

definition vmw_cmdbuf_header_inline_free :: "nat \<Rightarrow> 'd cb_world \<Rightarrow> 'd cb_world kres" where
  "vmw_cmdbuf_header_inline_free h w =
     kbind (get_hdr w h) (\<lambda>x. if \<not> inline_space x then Inr w else Inr (w\<lparr>hdrs := (hdrs w)(h := None)\<rparr>))"

definition cmdbuf_header_free_locked :: "nat \<Rightarrow> 'd cb_world \<Rightarrow> 'd cb_world kres" where
  \<comment> \<open>\<open>__vmw_cmdbuf_header_free\<close>\<close>
  "cmdbuf_header_free_locked h w =
     kbind (get_hdr w h) (\<lambda>x.
       if inline_space x then vmw_cmdbuf_header_inline_free h w
       else (case cm_mm (cman w) of None \<Rightarrow> Inl OOPS
             | Some mm \<Rightarrow> kbind (drm_mm_remove_node mm h) (\<lambda>mm'.
                 Inr (w\<lparr>cman := (cman w)\<lparr>cm_mm := Some mm'\<rparr>, hdrs := (hdrs w)(h := None)\<rparr>))))"

definition vmw_cmdbuf_header_free :: "nat \<Rightarrow> 'd cb_world \<Rightarrow> 'd cb_world kres" where
  "vmw_cmdbuf_header_free h w =
     kbind (get_hdr w h) (\<lambda>x.
       if inline_space x then vmw_cmdbuf_header_inline_free h w else cmdbuf_header_free_locked h w)"

definition vmw_cmdbuf_header_submit :: "'d cb_device \<Rightarrow> nat \<Rightarrow> 'd cb_world \<Rightarrow> ('d cb_world \<times> SVGACBStatus) kres" where
  "vmw_cmdbuf_header_submit dv h w =
     kbind (get_hdr w h) (\<lambda>x.
       let high = ucast (drop_bit 32 (hdr_handle x));
           low = ucast (hdr_handle x) OR (cb_context x AND SVGA_CB_CONTEXT_MASK);
           dev = vmw_write SVGA_REG_COMMAND_LOW low (vmw_write SVGA_REG_COMMAND_HIGH high (cb_dev w));
           r = dev_submit dv high low (cb_env w);
           cb = device_writes (fst r) (cb_header x)
       in Inr (w\<lparr>hdrs := (hdrs w)(h \<mapsto> x\<lparr>cb_header := cb\<rparr>), cb_dev := dev, cb_env := snd r\<rparr>, cb_status cb))"

definition vmw_cmdbuf_ctx_init :: "nat \<Rightarrow> 'd cb_world \<Rightarrow> 'd cb_world" where
  "vmw_cmdbuf_ctx_init c =
     upd_ctx c (\<lambda>x. x\<lparr>hw_submitted := [], submitted := [], preempted := [], num_hw_submitted := 0\<rparr>)"

definition hw_add :: "nat \<Rightarrow> vmw_cmdbuf_context \<Rightarrow> vmw_cmdbuf_context" where
  "hw_add entry x = x\<lparr>submitted := removeAll entry (submitted x), hw_submitted := hw_submitted x @ [entry],
     num_hw_submitted := num_hw_submitted x + 1\<rparr>"

definition hw_del :: "nat \<Rightarrow> vmw_cmdbuf_context \<Rightarrow> vmw_cmdbuf_context" where
  "hw_del entry x = x\<lparr>hw_submitted := removeAll entry (hw_submitted x), num_hw_submitted := num_hw_submitted x - 1\<rparr>"

text \<open>The loop of \<open>vmw_cmdbuf_ctx_submit\<close>, over the queue as it stands at the call; the loop takes its head.\<close>

fun ctx_submit_loop :: "'d cb_device \<Rightarrow> nat \<Rightarrow> nat list \<Rightarrow> 'd cb_world \<Rightarrow> 'd cb_world kres" where
  "ctx_submit_loop dv c [] w = Inr w"
| "ctx_submit_loop dv c (entry # rest) w =
     (if num_hw_submitted (ctx w c) < max_hw_submitted (cman w) \<and> \<not> block_submission (ctx w c)
      then kbind (vmw_cmdbuf_header_submit dv entry w) (\<lambda>(w1, status).
        if status = SVGA_CB_STATUS_QUEUE_FULL then Inr (upd_cb entry (\<lambda>cb. cb\<lparr>cb_status := SVGA_CB_STATUS_NONE\<rparr>) w1)
        else ctx_submit_loop dv c rest (upd_ctx c (hw_add entry) w1))
      else Inr w)"

definition vmw_cmdbuf_ctx_submit :: "'d cb_device \<Rightarrow> nat \<Rightarrow> 'd cb_world \<Rightarrow> 'd cb_world kres" where
  "vmw_cmdbuf_ctx_submit dv c w = ctx_submit_loop dv c (submitted (ctx w c)) w"

section \<open>Processing the contexts\<close>

definition read_status :: "'d cb_device \<Rightarrow> nat \<Rightarrow> 'd cb_world \<Rightarrow> ('d cb_world \<times> SVGACBStatus) kres" where
  \<comment> \<open>\<open>entry->cb_header->status\<close>, which the device may write at any time\<close>
  "read_status dv h w =
     kbind (get_hdr w h) (\<lambda>x.
       let r = dev_poll dv (hdr_handle x) (cb_env w); cb = device_writes (fst r) (cb_header x)
       in Inr (w\<lparr>hdrs := (hdrs w)(h \<mapsto> x\<lparr>cb_header := cb\<rparr>), cb_env := snd r\<rparr>, cb_status cb))"

definition finish_entry :: "nat \<Rightarrow> nat \<Rightarrow> SVGACBStatus \<Rightarrow> 'd cb_world \<Rightarrow> 'd cb_world kres" where
  \<comment> \<open>what \<open>vmw_cmdbuf_ctx_process\<close> does with a buffer the device is done with\<close>
  "finish_entry c entry status w =
     (let w1 = upd_ctx c (hw_del entry) w;
          w2 = upd_cb entry (\<lambda>cb. cb\<lparr>cb_status := SVGA_CB_STATUS_NONE\<rparr>) w1
      in case status of
           SVGA_CB_STATUS_COMMAND_ERROR \<Rightarrow>
             Inr (upd_man_rec (\<lambda>m. m\<lparr>cm_error := cm_error m @ [entry], cm_work := True\<rparr>) w2)
         | SVGA_CB_STATUS_PREEMPTED \<Rightarrow> Inr (upd_ctx c (\<lambda>x. x\<lparr>preempted := preempted x @ [entry]\<rparr>) w2)
         | _ \<Rightarrow> cmdbuf_header_free_locked entry w1)"

fun ctx_finish_loop :: "'d cb_device \<Rightarrow> nat \<Rightarrow> nat list \<Rightarrow> 'd cb_world \<Rightarrow> 'd cb_world kres" where
  "ctx_finish_loop dv c [] w = Inr w"
| "ctx_finish_loop dv c (entry # rest) w =
     kbind (read_status dv entry w) (\<lambda>(w1, status).
       if status = SVGA_CB_STATUS_NONE then Inr w1
       else kbind (finish_entry c entry status w1) (ctx_finish_loop dv c rest))"

definition vmw_cmdbuf_ctx_process :: "'d cb_device \<Rightarrow> nat \<Rightarrow> 'd cb_world \<Rightarrow> ('d cb_world \<times> nat) kres" where
  \<comment> \<open>and by how much it increments \<open>notempty\<close>\<close>
  "vmw_cmdbuf_ctx_process dv c w =
     kbind (vmw_cmdbuf_ctx_submit dv c w) (\<lambda>w1.
     kbind (ctx_finish_loop dv c (hw_submitted (ctx w1 c)) w1) (\<lambda>w2.
     kbind (vmw_cmdbuf_ctx_submit dv c w2) (\<lambda>w3.
       Inr (w3, if submitted (ctx w3 c) \<noteq> [] then 1 else 0))))"

fun process_contexts :: "'d cb_device \<Rightarrow> nat list \<Rightarrow> 'd cb_world \<Rightarrow> nat \<Rightarrow> ('d cb_world \<times> nat) kres" where
  "process_contexts dv [] w notempty = Inr (w, notempty)"
| "process_contexts dv (c # cs) w notempty =
     kbind (vmw_cmdbuf_ctx_process dv c w) (\<lambda>(w1, n). process_contexts dv cs w1 (notempty + n))"

text \<open>Processing a context does not touch \<open>irq_on\<close>, which bounds the retry of \<open>vmw_cmdbuf_man_process\<close>.\<close>

lemma kbind_cong [fundef_cong]: "m = m' \<Longrightarrow> (\<And>x. m' = Inr x \<Longrightarrow> f x = g x) \<Longrightarrow> kbind m f = kbind m' g"
  by (cases m') auto

lemma upd_frame [simp]:
  "irq_on (cman (upd_cb h f w)) = irq_on (cman w)" "irq_on (cman (upd_ctx c g w)) = irq_on (cman w)"
  by (simp_all add: upd_cb_def upd_ctx_def)

lemma header_submit_irq_on:
  "vmw_cmdbuf_header_submit dv h w = Inr (w', st) \<Longrightarrow> irq_on (cman w') = irq_on (cman w)"
  by (auto simp: vmw_cmdbuf_header_submit_def Let_def)

lemma submit_loop_irq_on: "ctx_submit_loop dv c es w = Inr w' \<Longrightarrow> irq_on (cman w') = irq_on (cman w)"
  by (induction dv c es w rule: ctx_submit_loop.induct)
    (auto dest!: header_submit_irq_on split: if_splits)

lemma header_free_irq_on: "cmdbuf_header_free_locked h w = Inr w' \<Longrightarrow> irq_on (cman w') = irq_on (cman w)"
  by (auto simp: cmdbuf_header_free_locked_def vmw_cmdbuf_header_inline_free_def split: if_splits option.splits)

lemma finish_loop_irq_on: "ctx_finish_loop dv c es w = Inr w' \<Longrightarrow> irq_on (cman w') = irq_on (cman w)"
proof (induction dv c es w rule: ctx_finish_loop.induct)
  case (2 dv c entry rest w)
  then obtain w1 st where r: "read_status dv entry w = Inr (w1, st)" by auto
  then have "irq_on (cman w1) = irq_on (cman w)" by (auto simp: read_status_def Let_def)
  moreover have "irq_on (cman w2) = irq_on (cman w1)" if "finish_entry c entry st w1 = Inr w2" for w2
    using that by (cases st) (auto simp: finish_entry_def Let_def dest!: header_free_irq_on)
  ultimately show ?case using 2 r by (auto split: if_splits)
qed simp

lemma ctx_process_irq_on:
  "vmw_cmdbuf_ctx_process dv c w = Inr (w', n) \<Longrightarrow> irq_on (cman w') = irq_on (cman w)"
  by (auto simp: vmw_cmdbuf_ctx_process_def vmw_cmdbuf_ctx_submit_def dest!: submit_loop_irq_on finish_loop_irq_on)

lemma process_irq_on: "process_contexts dv cs w k = Inr (w', m) \<Longrightarrow> irq_on (cman w') = irq_on (cman w)"
  by (induction dv cs w k rule: process_contexts.induct) (auto dest: ctx_process_irq_on)

abbreviation cmdbuf_waiter_add :: "vmw_private \<Rightarrow> vmw_private" where
  "cmdbuf_waiter_add \<equiv> vmw_generic_waiter_add SVGA_IRQFLAG_COMMAND_BUFFER cmdbuf_waiters cmdbuf_waiters_update"

abbreviation cmdbuf_waiter_remove :: "vmw_private \<Rightarrow> vmw_private" where
  "cmdbuf_waiter_remove \<equiv> vmw_generic_waiter_remove SVGA_IRQFLAG_COMMAND_BUFFER cmdbuf_waiters cmdbuf_waiters_update"

function vmw_cmdbuf_man_process :: "'d cb_device \<Rightarrow> 'd cb_world \<Rightarrow> 'd cb_world kres" where
  "vmw_cmdbuf_man_process dv w =
     kbind (process_contexts dv [0..<num_contexts (cman w)] w 0) (\<lambda>(w1, notempty).
       if irq_on (cman w1) \<and> notempty = 0
       then Inr (w1\<lparr>cb_dev := cmdbuf_waiter_remove (cb_dev w1), cman := (cman w1)\<lparr>irq_on := False\<rparr>\<rparr>)
       else if \<not> irq_on (cman w1) \<and> notempty \<noteq> 0
       then vmw_cmdbuf_man_process dv (w1\<lparr>cb_dev := cmdbuf_waiter_add (cb_dev w1), cman := (cman w1)\<lparr>irq_on := True\<rparr>\<rparr>)
       else Inr w1)"
  by pat_completeness auto
termination
  by (relation "measure (\<lambda>(dv, w). if irq_on (cman w) then 0 else 1)") (auto dest!: process_irq_on)

declare vmw_cmdbuf_man_process.simps [simp del]

definition vmw_cmdbuf_ctx_add :: "'d cb_device \<Rightarrow> nat \<Rightarrow> u32 \<Rightarrow> 'd cb_world \<Rightarrow> 'd cb_world kres" where
  "vmw_cmdbuf_ctx_add dv h c w =
     kbind (get_hdr w h) (\<lambda>x.
       let cb = (if cb_flags (cb_header x) AND SVGA_CB_FLAG_DX_CONTEXT = 0 then (cb_header x)\<lparr>cb_dxContext := 0\<rparr> else cb_header x);
           w1 = w\<lparr>hdrs := (hdrs w)(h \<mapsto> x\<lparr>cb_header := cb, cb_context := c\<rparr>)\<rparr>
       in vmw_cmdbuf_man_process dv (upd_ctx (unat c) (\<lambda>x. x\<lparr>submitted := submitted x @ [h]\<rparr>) w1))"

definition vmw_cmdbuf_irqthread :: "'d cb_device \<Rightarrow> 'd cb_world \<Rightarrow> 'd cb_world kres" where
  "vmw_cmdbuf_irqthread dv w = vmw_cmdbuf_man_process dv w"

definition vmw_cmdbuf_man_idle :: "'d cb_device \<Rightarrow> bool \<Rightarrow> 'd cb_world \<Rightarrow> ('d cb_world \<times> bool) kres" where
  "vmw_cmdbuf_man_idle dv check_preempted w =
     kbind (vmw_cmdbuf_man_process dv w) (\<lambda>w1.
       Inr (w1, list_all (\<lambda>c. submitted (ctx w1 c) = [] \<and> hw_submitted (ctx w1 c) = [] \<and>
                  \<not> (check_preempted \<and> preempted (ctx w1 c) \<noteq> [])) [0..<num_contexts (cman w1)] \<and> cm_error (cman w1) = []))"

section \<open>The current buffer\<close>

definition cmdbuf_cur_flush_locked :: "'d cb_device \<Rightarrow> 'd cb_world \<Rightarrow> 'd cb_world kres" where
  \<comment> \<open>\<open>__vmw_cmdbuf_cur_flush\<close>\<close>
  "cmdbuf_cur_flush_locked dv w =
     (case cm_cur (cman w) of None \<Rightarrow> Inr w
      | Some cur \<Rightarrow>
          kbind (if cur_pos (cman w) = 0 then cmdbuf_header_free_locked cur w
                 else vmw_cmdbuf_ctx_add dv cur SVGA_CB_CONTEXT_0 (upd_cb cur (\<lambda>cb. cb\<lparr>cb_length := ucast (cur_pos (cman w))\<rparr>) w))
            (\<lambda>w1. Inr (upd_man_rec (\<lambda>m. m\<lparr>cm_cur := None, cur_pos := 0\<rparr>) w1)))"

definition vmw_cmdbuf_cur_lock :: "bool \<Rightarrow> bool \<Rightarrow> 'd cb_world \<Rightarrow> 'd cb_world \<times> unit kres" where
  \<comment> \<open>the second argument says whether a signal arrives before the mutex is free\<close>
  "vmw_cmdbuf_cur_lock interruptible signal w =
     (if interruptible \<and> signal then (w, Inl ERESTARTSYS) else (upd_man_rec (\<lambda>m. m\<lparr>cur_mutex := True\<rparr>) w, Inr ()))"

definition vmw_cmdbuf_cur_unlock :: "'d cb_world \<Rightarrow> 'd cb_world" where
  "vmw_cmdbuf_cur_unlock w = upd_man_rec (\<lambda>m. m\<lparr>cur_mutex := False\<rparr>) w"

definition vmw_cmdbuf_cur_flush :: "'d cb_device \<Rightarrow> bool \<Rightarrow> bool \<Rightarrow> 'd cb_world \<Rightarrow> ('d cb_world \<times> unit kres) kres" where
  "vmw_cmdbuf_cur_flush dv interruptible signal w =
     (case vmw_cmdbuf_cur_lock interruptible signal w of
        (w1, Inl e) \<Rightarrow> Inr (w1, Inl e)
      | (w1, Inr _) \<Rightarrow> kbind (cmdbuf_cur_flush_locked dv w1) (\<lambda>w2. Inr (vmw_cmdbuf_cur_unlock w2, Inr ())))"

section \<open>Waiting until all buffers are done\<close>

text \<open>
  What ends a sleep: another thread or the interrupt handler has changed the state and wakes the sleeper, a signal
  arrives, or the time is up. A list that runs out means that the caller still sleeps.
\<close>

datatype 'd wake = Activity "'d cb_world \<Rightarrow> 'd cb_world" | Signal | Timeout

fun wait_idle :: "'d cb_device \<Rightarrow> bool \<Rightarrow> 'd wake list \<Rightarrow> 'd cb_world \<Rightarrow> ('d cb_world \<times> int kres) kres option" where
  \<comment> \<open>\<open>wait_event_timeout\<close>: 0 when the time is up, a positive number when the condition holds\<close>
  "wait_idle dv interruptible evs w =
     (case vmw_cmdbuf_man_idle dv True w of
        Inl e \<Rightarrow> Some (Inl e)
      | Inr (w1, True) \<Rightarrow> Some (Inr (w1, Inr 1))
      | Inr (w1, False) \<Rightarrow>
          (case evs of [] \<Rightarrow> None
           | Activity f # evs' \<Rightarrow> wait_idle dv interruptible evs' (f w1)
           | Signal # evs' \<Rightarrow> if interruptible then Some (Inr (w1, Inl ERESTARTSYS)) else wait_idle dv interruptible evs' w1
           | Timeout # evs' \<Rightarrow> Some (Inr (w1, Inr 0))))"

definition vmw_cmdbuf_idle ::
    "'d cb_device \<Rightarrow> bool \<Rightarrow> bool \<Rightarrow> 'd wake list \<Rightarrow> 'd cb_world \<Rightarrow> ('d cb_world \<times> unit kres) kres option" where
  "vmw_cmdbuf_idle dv interruptible signal evs w =
     (case vmw_cmdbuf_cur_flush dv interruptible signal w of
        Inl e \<Rightarrow> Some (Inl e)
      | Inr (w1, _) \<Rightarrow>
          (case wait_idle dv interruptible evs (w1\<lparr>cb_dev := cmdbuf_waiter_add (cb_dev w1)\<rparr>) of
             None \<Rightarrow> None
           | Some (Inl e) \<Rightarrow> Some (Inl e)
           | Some (Inr (w2, r)) \<Rightarrow>
               (let w3 = w2\<lparr>cb_dev := cmdbuf_waiter_remove (cb_dev w2)\<rparr> in
                case r of Inl e \<Rightarrow> Some (Inr (w3, Inl e))
                | Inr n \<Rightarrow>
                    if n = 0
                    then Some (kbind (vmw_cmdbuf_man_idle dv True w3) (\<lambda>(w4, idle). Inr (w4, if idle then Inr () else Inl EBUSY)))
                    else Some (Inr (w3, Inr ())))))"

section \<open>Allocating buffers\<close>

definition pool_insert :: "u64 \<Rightarrow> nat \<Rightarrow> drm_mm \<Rightarrow> drm_mm kres" where
  "pool_insert page_size n mm = drm_mm_insert_node_generic mm n page_size 0 0 (False, False) False"

definition vmw_cmdbuf_try_alloc :: "'d cb_device \<Rightarrow> nat \<Rightarrow> u64 \<Rightarrow> 'd cb_world \<Rightarrow> ('d cb_world \<times> bool) kres" where
  "vmw_cmdbuf_try_alloc dv n page_size w =
     (case cm_mm (cman w) of None \<Rightarrow> Inl OOPS
      | Some mm \<Rightarrow>
          let mm0 = upd_node n (\<lambda>_. clear_node) mm; ins = pool_insert page_size n in
          (case ins mm0 of
             Inr mm1 \<Rightarrow> Inr (upd_man_rec (\<lambda>m. m\<lparr>cm_mm := Some mm1\<rparr>) w, True)
           | Inl e \<Rightarrow>
               if e = OOPS then Inl OOPS
               else kbind (vmw_cmdbuf_man_process dv (upd_man_rec (\<lambda>m. m\<lparr>cm_mm := Some mm0\<rparr>) w)) (\<lambda>w1.
                 case cm_mm (cman w1) of None \<Rightarrow> Inl OOPS
                 | Some mm1 \<Rightarrow>
                     (case ins mm1 of
                        Inr mm2 \<Rightarrow> Inr (upd_man_rec (\<lambda>m. m\<lparr>cm_mm := Some mm2\<rparr>) w1, True)
                      | Inl e \<Rightarrow> if e = OOPS then Inl OOPS else Inr (w1, False)))))"

fun wait_alloc :: "'d cb_device \<Rightarrow> bool \<Rightarrow> nat \<Rightarrow> u64 \<Rightarrow> 'd wake list \<Rightarrow> 'd cb_world \<Rightarrow> ('d cb_world \<times> unit kres) kres option" where
  \<comment> \<open>\<open>wait_event\<close> and \<open>wait_event_interruptible\<close>; they have no time limit\<close>
  "wait_alloc dv interruptible n page_size evs w =
     (case vmw_cmdbuf_try_alloc dv n page_size w of
        Inl e \<Rightarrow> Some (Inl e)
      | Inr (w1, True) \<Rightarrow> Some (Inr (w1, Inr ()))
      | Inr (w1, False) \<Rightarrow>
          (case evs of [] \<Rightarrow> None
           | Activity f # evs' \<Rightarrow> wait_alloc dv interruptible n page_size evs' (f w1)
           | Signal # evs' \<Rightarrow>
               if interruptible then Some (Inr (w1, Inl ERESTARTSYS)) else wait_alloc dv interruptible n page_size evs' w1
           | Timeout # evs' \<Rightarrow> wait_alloc dv interruptible n page_size evs' w1))"

text \<open>What the kernel answers to one allocation: the memory it hands out, and what happens in the sleeps.\<close>

record 'd alloc_env =
  kzalloc_at :: "nat option" \<comment> \<open>the header\<close>
  dma_at :: "(u64 \<times> nat) option" \<comment> \<open>the device header: its bus and its kernel address\<close>
  space_signal :: bool \<comment> \<open>a signal while waiting for \<open>space_mutex\<close>\<close>
  wakes :: "'d wake list"

definition pages_of :: "u64 \<Rightarrow> u64" where
  "pages_of sz = drop_bit 12 (PAGE_ALIGN sz)"

definition vmw_cmdbuf_alloc_space ::
    "'d cb_device \<Rightarrow> 'd alloc_env \<Rightarrow> nat \<Rightarrow> u64 \<Rightarrow> bool \<Rightarrow> 'd cb_world \<Rightarrow> ('d cb_world \<times> unit kres) kres option" where
  "vmw_cmdbuf_alloc_space dv al n sz interruptible w =
     (let page_size = pages_of sz in
      if interruptible \<and> space_signal al then Some (Inr (w, Inl ERESTARTSYS))
      else (case vmw_cmdbuf_try_alloc dv n page_size w of
              Inl e \<Rightarrow> Some (Inl e)
            | Inr (w1, True) \<Rightarrow> Some (Inr (w1, Inr ()))
            | Inr (w1, False) \<Rightarrow>
                (case wait_alloc dv interruptible n page_size (wakes al) (w1\<lparr>cb_dev := cmdbuf_waiter_add (cb_dev w1)\<rparr>) of
                   None \<Rightarrow> None
                 | Some (Inl e) \<Rightarrow> Some (Inl e)
                 | Some (Inr (w2, ret)) \<Rightarrow> Some (Inr (w2\<lparr>cb_dev := cmdbuf_waiter_remove (cb_dev w2)\<rparr>, ret)))))"

definition zero_cb :: SVGACBHeader where
  "zero_cb = \<lparr>cb_status = SVGA_CB_STATUS_NONE, cb_errorOffset = 0, cb_flags = 0, cb_length = 0, cb_ptr = 0, cb_offset = 0, cb_dxContext = 0\<rparr>"

definition mob_ptr :: "u32 \<Rightarrow> u32 \<Rightarrow> u64" where
  \<comment> \<open>\<open>ptr.mob\<close> as the bytes of \<open>ptr.pa\<close>\<close>
  "mob_ptr mobid mobOffset = ucast mobid OR push_bit 32 (ucast mobOffset)"

definition vmw_cmdbuf_space_pool ::
    "'d cb_device \<Rightarrow> 'd alloc_env \<Rightarrow> nat \<Rightarrow> u64 \<Rightarrow> bool \<Rightarrow> 'd cb_world \<Rightarrow> ('d cb_world \<times> vmw_cmdbuf_header kres) kres option" where
  "vmw_cmdbuf_space_pool dv al n sz interruptible w =
     (if \<not> has_pool (cman w) then Some (Inr (w, Inl ENOMEM))
      else (case vmw_cmdbuf_alloc_space dv al n sz interruptible w of
              None \<Rightarrow> None
            | Some (Inl e) \<Rightarrow> Some (Inl e)
            | Some (Inr (w1, Inl e)) \<Rightarrow> Some (Inr (w1, Inl e))
            | Some (Inr (w1, Inr _)) \<Rightarrow>
                (case cm_mm (cman w1) of None \<Rightarrow> Some (Inl OOPS)
                 | Some mm \<Rightarrow>
                     (case dma_at al of
                        None \<Rightarrow> Some (kbind (drm_mm_remove_node mm n) (\<lambda>mm'.
                                  Inr (upd_man_rec (\<lambda>m. m\<lparr>cm_mm := Some mm'\<rparr>) w1, Inl ENOMEM)))
                      | Some (handle, _) \<Rightarrow>
                          (let offset = push_bit 12 (node_start (node_of mm n));
                               cb = (if using_mob (cman w1)
                                     then zero_cb\<lparr>cb_flags := SVGA_CB_FLAG_MOB, cb_ptr := mob_ptr (cm_mobid (cman w1)) (ucast offset)\<rparr>
                                     else zero_cb\<lparr>cb_ptr := cm_handle (cman w1) + offset\<rparr>)
                           in Some (Inr (w1, Inr
                                \<lparr>cb_header = cb, cb_context = 0, hdr_handle = handle, hdr_cmd = cm_map (cman w1) + unat offset,
                                 hdr_size = push_bit 12 (node_size (node_of mm n)), hdr_reserved = 0, inline_space = False\<rparr>)))))))"

definition vmw_cmdbuf_space_inline :: "'d alloc_env \<Rightarrow> u64 \<Rightarrow> vmw_cmdbuf_header kres" where
  "vmw_cmdbuf_space_inline al sz =
     (if sz > VMW_CMDBUF_INLINE_SIZE then Inl ENOMEM
      else (case dma_at al of None \<Rightarrow> Inl ENOMEM
            | Some (handle, vaddr) \<Rightarrow>
                Inr \<lparr>cb_header = zero_cb\<lparr>cb_ptr := handle + 64\<rparr>, cb_context = 0, hdr_handle = handle, hdr_cmd = vaddr + 64,
                     hdr_size = VMW_CMDBUF_INLINE_SIZE, hdr_reserved = 0, inline_space = True\<rparr>))"

definition vmw_cmdbuf_alloc ::
    "'d cb_device \<Rightarrow> 'd alloc_env \<Rightarrow> u64 \<Rightarrow> bool \<Rightarrow> 'd cb_world \<Rightarrow> ('d cb_world \<times> nat kres) kres option" where
  \<comment> \<open>the header it returns; the space is at \<open>hdr_cmd\<close>\<close>
  "vmw_cmdbuf_alloc dv al sz interruptible w =
     (case kzalloc_at al of None \<Rightarrow> Some (Inr (w, Inl ENOMEM))
      | Some n \<Rightarrow>
          (case (if sz \<le> VMW_CMDBUF_INLINE_SIZE then Some (Inr (w, vmw_cmdbuf_space_inline al sz))
                 else vmw_cmdbuf_space_pool dv al n sz interruptible w) of
             None \<Rightarrow> None
           | Some (Inl e) \<Rightarrow> Some (Inl e)
           | Some (Inr (w1, Inl e)) \<Rightarrow> Some (Inr (w1, Inl e))
           | Some (Inr (w1, Inr x)) \<Rightarrow> Some (Inr (w1\<lparr>hdrs := (hdrs w1)(n \<mapsto> x)\<rparr>, Inr n))))"

section \<open>Reserving and committing\<close>

definition set_dx_context :: "u32 \<Rightarrow> SVGACBHeader \<Rightarrow> SVGACBHeader" where
  "set_dx_context ctx_id cb =
     (if ctx_id \<noteq> SVGA3D_INVALID_ID
      then cb\<lparr>cb_flags := cb_flags cb OR SVGA_CB_FLAG_DX_CONTEXT, cb_dxContext := ctx_id\<rparr> else cb)"

definition reserve_in :: "nat \<Rightarrow> u64 \<Rightarrow> u32 \<Rightarrow> 'd cb_world \<Rightarrow> 'd cb_world" where
  "reserve_in h sz ctx_id w =
     w\<lparr>hdrs := (hdrs w)(h := map_option (\<lambda>x. x\<lparr>cb_header := set_dx_context ctx_id (cb_header x), hdr_reserved := sz\<rparr>) (hdrs w h))\<rparr>"

definition cur_unfit :: "u64 \<Rightarrow> u32 \<Rightarrow> vmw_cmdbuf_man \<Rightarrow> vmw_cmdbuf_header \<Rightarrow> bool" where
  "cur_unfit sz ctx_id m cur \<longleftrightarrow> sz + cur_pos m > hdr_size cur \<or>
     cb_flags (cb_header cur) AND SVGA_CB_FLAG_DX_CONTEXT \<noteq> 0 \<and> ctx_id \<noteq> cb_dxContext (cb_header cur)"

definition vmw_cmdbuf_reserve_cur ::
    "'d cb_device \<Rightarrow> 'd alloc_env \<Rightarrow> bool \<Rightarrow> u64 \<Rightarrow> u32 \<Rightarrow> bool \<Rightarrow> 'd cb_world \<Rightarrow> ('d cb_world \<times> nat kres) kres option" where
  \<comment> \<open>the address of the space\<close>
  "vmw_cmdbuf_reserve_cur dv al signal sz ctx_id interruptible w =
     (case vmw_cmdbuf_cur_lock interruptible signal w of
        (w1, Inl e) \<Rightarrow> Some (Inr (w1, Inl ERESTARTSYS))
      | (w1, Inr _) \<Rightarrow>
          (case (case cm_cur (cman w1) of None \<Rightarrow> Inr w1
                 | Some cur \<Rightarrow> kbind (get_hdr w1 cur) (\<lambda>x.
                     if cur_unfit sz ctx_id (cman w1) x then cmdbuf_cur_flush_locked dv w1 else Inr w1)) of
             Inl e \<Rightarrow> Some (Inl e)
           | Inr w2 \<Rightarrow>
               (case (case cm_cur (cman w2) of Some cur \<Rightarrow> Some (Inr (w2, Inr cur))
                      | None \<Rightarrow> vmw_cmdbuf_alloc dv al (max sz (default_size (cman w2))) interruptible w2) of
                  None \<Rightarrow> None
                | Some (Inl e) \<Rightarrow> Some (Inl e)
                | Some (Inr (w3, Inl e)) \<Rightarrow> Some (Inr (vmw_cmdbuf_cur_unlock w3, Inl e))
                | Some (Inr (w3, Inr cur)) \<Rightarrow>
                    (let w4 = reserve_in cur sz ctx_id (upd_man_rec (\<lambda>m. m\<lparr>cm_cur := Some cur\<rparr>) w3) in
                     Some (kbind (get_hdr w4 cur) (\<lambda>x. Inr (w4, Inr (hdr_cmd x + unat (cur_pos (cman w4))))))))))"

definition vmw_cmdbuf_commit_cur :: "'d cb_device \<Rightarrow> u64 \<Rightarrow> bool \<Rightarrow> 'd cb_world \<Rightarrow> 'd cb_world kres" where
  "vmw_cmdbuf_commit_cur dv sz flush w =
     (case cm_cur (cman w) of None \<Rightarrow> Inl OOPS
      | Some cur \<Rightarrow>
          kbind (get_hdr w cur) (\<lambda>_.
          let w1 = upd_man_rec (\<lambda>m. m\<lparr>cur_pos := cur_pos m + sz\<rparr>) w;
              w2 = (if sz = 0 then upd_cb cur (\<lambda>cb. cb\<lparr>cb_flags := cb_flags cb AND NOT SVGA_CB_FLAG_DX_CONTEXT\<rparr>) w1 else w1)
          in kbind (if flush then cmdbuf_cur_flush_locked dv w2 else Inr w2) (\<lambda>w3. Inr (vmw_cmdbuf_cur_unlock w3))))"

definition vmw_cmdbuf_reserve ::
    "'d cb_device \<Rightarrow> 'd alloc_env \<Rightarrow> bool \<Rightarrow> u64 \<Rightarrow> u32 \<Rightarrow> bool \<Rightarrow> nat option \<Rightarrow> 'd cb_world \<Rightarrow> ('d cb_world \<times> nat kres) kres option" where
  "vmw_cmdbuf_reserve dv al signal sz ctx_id interruptible header w =
     (case header of None \<Rightarrow> vmw_cmdbuf_reserve_cur dv al signal sz ctx_id interruptible w
      | Some h \<Rightarrow> Some (kbind (get_hdr w h) (\<lambda>x.
          if sz > hdr_size x then Inr (w, Inl EINVAL) else Inr (reserve_in h sz ctx_id w, Inr (hdr_cmd x)))))"

definition vmw_cmdbuf_commit :: "'d cb_device \<Rightarrow> u64 \<Rightarrow> nat option \<Rightarrow> bool \<Rightarrow> 'd cb_world \<Rightarrow> 'd cb_world kres" where
  "vmw_cmdbuf_commit dv sz header flush w =
     (case header of None \<Rightarrow> vmw_cmdbuf_commit_cur dv sz flush w
      | Some h \<Rightarrow>
          (let w0 = fst (vmw_cmdbuf_cur_lock False False w) in
           kbind (cmdbuf_cur_flush_locked dv w0) (\<lambda>w1.
           kbind (get_hdr w1 h) (\<lambda>_.
             let w2 = upd_man_rec (\<lambda>m. m\<lparr>cm_cur := Some h, cur_pos := sz\<rparr>) w1;
                 w3 = (if sz = 0 then upd_cb h (\<lambda>cb. cb\<lparr>cb_flags := cb_flags cb AND NOT SVGA_CB_FLAG_DX_CONTEXT\<rparr>) w2 else w2)
             in kbind (if flush then cmdbuf_cur_flush_locked dv w3 else Inr w3) (\<lambda>w4. Inr (vmw_cmdbuf_cur_unlock w4))))))"

section \<open>Commands to the device context\<close>

definition write32 :: "memory \<Rightarrow> nat \<Rightarrow> u32 \<Rightarrow> memory" where
  "write32 mem a v = mem(a := ucast v, a + 1 := ucast (drop_bit 8 v), a + 2 := ucast (drop_bit 16 v), a + 3 := ucast (drop_bit 24 v))"

fun write_words :: "memory \<Rightarrow> nat \<Rightarrow> u32 list \<Rightarrow> memory" where
  "write_words mem a [] = mem"
| "write_words mem a (v # vs) = write_words (write32 mem a v) (a + 4) vs"

definition vmw_cmdbuf_send_device_command ::
    "'d cb_device \<Rightarrow> 'd alloc_env \<Rightarrow> u32 list \<Rightarrow> 'd cb_world \<Rightarrow> ('d cb_world \<times> unit kres) kres option" where
  "vmw_cmdbuf_send_device_command dv al command w =
     (case vmw_cmdbuf_alloc dv al (of_nat (4 * length command)) False w of
        None \<Rightarrow> None
      | Some (Inl e) \<Rightarrow> Some (Inl e)
      | Some (Inr (w1, Inl e)) \<Rightarrow> Some (Inr (w1, Inl e))
      | Some (Inr (w1, Inr h)) \<Rightarrow>
          Some (kbind (get_hdr w1 h) (\<lambda>x.
            let w2 = w1\<lparr>kmem := write_words (kmem w1) (hdr_cmd x) command,
                        hdrs := (hdrs w1)(h \<mapsto> x\<lparr>cb_header := (cb_header x)\<lparr>cb_length := of_nat (4 * length command)\<rparr>,
                                               cb_context := SVGA_CB_CONTEXT_DEVICE\<rparr>)\<rparr>
            in kbind (vmw_cmdbuf_header_submit dv h w2) (\<lambda>(w3, status).
               kbind (vmw_cmdbuf_header_free h w3) (\<lambda>w4.
                 Inr (w4, if status \<noteq> SVGA_CB_STATUS_COMPLETED then Inl EINVAL else Inr ()))))))"

definition vmw_cmdbuf_preempt :: "'d cb_device \<Rightarrow> 'd alloc_env \<Rightarrow> u32 \<Rightarrow> 'd cb_world \<Rightarrow> ('d cb_world \<times> unit kres) kres option" where
  "vmw_cmdbuf_preempt dv al context_id = vmw_cmdbuf_send_device_command dv al [2, SVGA_CB_CONTEXT_0 + context_id, 0]"

definition vmw_cmdbuf_startstop ::
    "'d cb_device \<Rightarrow> 'd alloc_env \<Rightarrow> u32 \<Rightarrow> bool \<Rightarrow> 'd cb_world \<Rightarrow> ('d cb_world \<times> unit kres) kres option" where
  "vmw_cmdbuf_startstop dv al context_id enable =
     vmw_cmdbuf_send_device_command dv al [1, if enable then 1 else 0, SVGA_CB_CONTEXT_0 + context_id]"

section \<open>Fences through the manager\<close>

text \<open>What the environment answers to one \<open>vmw_fifo_send_fence\<close>.\<close>

record 'd fence_env =
  fe_alloc :: "'d alloc_env"
  fe_idle :: "'d wake list"
  fe_polls :: "poll_view list"
  fe_oom :: bool
  fe_now :: u64

definition cmdbuf_fallback_idle ::
    "'d cb_device \<Rightarrow> 'd fence_env \<Rightarrow> u32 \<Rightarrow> 'd cb_world \<Rightarrow> ('d cb_world \<times> unit kres) kres option" where
  \<comment> \<open>\<open>vmw_fallback_wait\<close> with \<open>fifo_idle\<close> and not interruptible, when there is a manager\<close>
  "cmdbuf_fallback_idle dv fe seqno w =
     (case vmw_cmdbuf_idle dv False False (fe_idle fe) w of
        Some (Inr (w1, Inr _)) \<Rightarrow>
          (case vmw_fallback_wait (fe_polls fe) True seqno False (cb_dev w1) of
             None \<Rightarrow> None
           | Some (d, ret) \<Rightarrow> Some (Inr (w1\<lparr>cb_dev := d\<rparr>, ret)))
      | r \<Rightarrow> r)"

definition cmdbuf_send_fence ::
    "'d cb_device \<Rightarrow> 'd fence_env \<Rightarrow> 'd cb_world \<Rightarrow> ('d cb_world \<times> u32 \<times> unit kres) kres option" where
  \<comment> \<open>\<open>vmw_fifo_send_fence\<close>, when there is a manager\<close>
  "cmdbuf_send_fence dv fe w =
     (case vmw_cmdbuf_reserve dv (fe_alloc fe) False 8 SVGA3D_INVALID_ID False None w of
        None \<Rightarrow> None
      | Some (Inl e) \<Rightarrow> Some (Inl e)
      | Some (Inr (w1, Inl _)) \<Rightarrow>
          (case cmdbuf_fallback_idle dv fe (marker_seq (cb_dev w1)) w1 of
             None \<Rightarrow> None
           | Some (Inl e) \<Rightarrow> Some (Inl e)
           | Some (Inr (w2, _)) \<Rightarrow> Some (Inr (w2, marker_seq (cb_dev w1), Inl ENOMEM)))
      | Some (Inr (w1, Inr fm)) \<Rightarrow>
          (let seqno = next_seqno (marker_seq (cb_dev w1)); w2 = w1\<lparr>cb_dev := (cb_dev w1)\<lparr>marker_seq := seqno\<rparr>\<rparr> in
           if fifo_capabilities (fifo (cb_dev w2)) AND SVGA_FIFO_CAP_FENCE = 0
           then Some (kbind (vmw_cmdbuf_commit dv 0 None False w2) (\<lambda>w3. Inr (w3, seqno, Inr ())))
           else Some (kbind (vmw_cmdbuf_commit dv 8 None True (w2\<lparr>kmem := write_words (kmem w2) fm [30, seqno]\<rparr>)) (\<lambda>w3.
             let d = upd_fifo (\<lambda>f. f\<lparr>marker_queue := fst (vmw_marker_push (fe_oom fe) (fe_now fe) seqno (marker_queue f))\<rparr>) (cb_dev w3)
             in Inr (w3\<lparr>cb_dev := vmw_update_seqno (fe_now fe) d\<rparr>, seqno, Inr ())))))"

section \<open>Recovering from errors\<close>

definition advance_ptr :: "bool \<Rightarrow> u32 \<Rightarrow> u64 \<Rightarrow> u64" where
  "advance_ptr mob n p = (if mob then mob_ptr (ucast p) (ucast (drop_bit 32 p) + n) else p + ucast n)"

definition skip_command :: "bool \<Rightarrow> u32 \<Rightarrow> vmw_cmdbuf_header \<Rightarrow> vmw_cmdbuf_header" where
  \<comment> \<open>the header of the rest of the buffer\<close>
  "skip_command mob n x =
     x\<lparr>hdr_cmd := hdr_cmd x + unat n,
       cb_header := (cb_header x)\<lparr>cb_ptr := advance_ptr mob n (cb_ptr (cb_header x)), cb_length := cb_length (cb_header x) - n,
                      cb_errorOffset := 0, cb_offset := 0\<rparr>\<rparr>"

text \<open>The first critical section of \<open>vmw_cmdbuf_work_func\<close>: the buffers to rerun, by context, and whether one was dropped.\<close>

fun work_errors ::
    "nat list \<Rightarrow> (nat \<Rightarrow> nat list) \<Rightarrow> bool \<Rightarrow> 'd cb_world \<Rightarrow> ('d cb_world \<times> (nat \<Rightarrow> nat list) \<times> bool) kres" where
  "work_errors [] restart_head send_fence w = Inr (w, restart_head, send_fence)"
| "work_errors (entry # rest) restart_head send_fence w =
     kbind (get_hdr w entry) (\<lambda>x.
     let cb = cb_header x; w1 = upd_man_rec (\<lambda>m. m\<lparr>cm_error := removeAll entry (cm_error m)\<rparr>) w in
     kbind (vmw_cmd_describe (kmem w) (hdr_cmd x + unat (cb_errorOffset cb))) (\<lambda>(known, error_cmd_size, _).
       let new_start_offset = cb_errorOffset cb + error_cmd_size in
       if \<not> known \<or> new_start_offset \<ge> cb_length cb
       then kbind (cmdbuf_header_free_locked entry w1) (work_errors rest restart_head True)
       else (let c = unat (cb_context x) in
             work_errors rest (restart_head(c := restart_head c @ [entry])) send_fence
               (w1\<lparr>hdrs := (hdrs w1)(entry \<mapsto> skip_command (using_mob (cman w1)) new_start_offset x)\<rparr>))))"

fun block_contexts :: "nat list \<Rightarrow> 'd cb_world \<Rightarrow> 'd cb_world" where
  "block_contexts [] w = w"
| "block_contexts (c # cs) w = block_contexts cs (upd_ctx c (\<lambda>x. x\<lparr>block_submission := True\<rparr>) w)"

fun work_restart :: "'d cb_device \<Rightarrow> (nat \<Rightarrow> nat list) \<Rightarrow> nat list \<Rightarrow> 'd cb_world \<Rightarrow> 'd cb_world kres" where
  \<comment> \<open>the loop of the second critical section\<close>
  "work_restart dv restart_head [] w = Inr w"
| "work_restart dv restart_head (c # cs) w =
     kbind (vmw_cmdbuf_ctx_process dv c w) (\<lambda>(w1, _).
       work_restart dv restart_head cs
         (upd_ctx c (\<lambda>x. x\<lparr>preempted := [], block_submission := False,
                           submitted := restart_head c @ preempted x @ submitted x\<rparr>) w1))"

definition work_collect :: "'d cb_world \<Rightarrow> ('d cb_world \<times> (nat \<Rightarrow> nat list) \<times> bool) kres" where
  "work_collect w =
     kbind (work_errors (cm_error (cman w)) (\<lambda>_. []) False w) (\<lambda>(w1, restart_head, send_fence).
       Inr (block_contexts [0..<num_contexts (cman w1)] w1, restart_head, send_fence))"

text \<open>A device command that is sent only under a condition, and whose failure is only logged.\<close>

definition logged :: "bool \<Rightarrow> ('d cb_world \<Rightarrow> ('d cb_world \<times> unit kres) kres option) \<Rightarrow> 'd cb_world \<Rightarrow> 'd cb_world kres option" where
  "logged cond f w =
     (if \<not> cond then Some (Inr w)
      else (case f w of None \<Rightarrow> None | Some (Inl e) \<Rightarrow> Some (Inl e) | Some (Inr (w1, _)) \<Rightarrow> Some (Inr w1)))"

text \<open>
  The two critical sections of \<open>vmw_cmdbuf_work_func\<close> and the preemption between them, when no other thread takes the lock
  in the meantime; what is reached when others do is covered by the steps \<open>collect\<close> and \<open>restart\<close> of \<open>cb_reach\<close>.
\<close>

definition recover ::
    "'d cb_device \<Rightarrow> 'd alloc_env \<Rightarrow> 'd cb_world \<Rightarrow> ('d cb_world \<times> bool) kres option" where
  "recover dv al w =
     (case work_collect w of
        Inl e \<Rightarrow> Some (Inl e)
      | Inr (w1, restart_head, send_fence) \<Rightarrow>
          (case logged (cm_error (cman w) \<noteq> []) (vmw_cmdbuf_preempt dv al 0) w1 of
             None \<Rightarrow> None
           | Some (Inl e) \<Rightarrow> Some (Inl e)
           | Some (Inr w2) \<Rightarrow>
               Some (kbind (work_restart dv restart_head [0..<num_contexts (cman w2)] w2) (\<lambda>w3. Inr (w3, send_fence)))))"

definition vmw_cmdbuf_work_func ::
    "'d cb_device \<Rightarrow> 'd alloc_env \<Rightarrow> 'd alloc_env \<Rightarrow> 'd fence_env \<Rightarrow> 'd cb_world \<Rightarrow> 'd cb_world kres option" where
  "vmw_cmdbuf_work_func dv al1 al2 fe w =
     (let w0 = upd_man_rec (\<lambda>m. m\<lparr>cm_work := False\<rparr>) w; global_block = cm_error (cman w0) \<noteq> [] in
      case recover dv al1 w0 of
        None \<Rightarrow> None
      | Some (Inl e) \<Rightarrow> Some (Inl e)
      | Some (Inr (w1, send_fence)) \<Rightarrow>
          (case vmw_cmdbuf_man_process dv w1 of
             Inl e \<Rightarrow> Some (Inl e)
           | Inr w2 \<Rightarrow>
               (case logged global_block (vmw_cmdbuf_startstop dv al2 0 True) w2 of
                  None \<Rightarrow> None
                | Some (Inl e) \<Rightarrow> Some (Inl e)
                | Some (Inr w3) \<Rightarrow>
                    (if \<not> send_fence then Some (Inr w3)
                     else (case cmdbuf_send_fence dv fe w3 of
                             None \<Rightarrow> None
                           | Some r \<Rightarrow> Some (kbind r (\<lambda>(w4, _, _). Inr w4)))))))"

section \<open>Setting up and taking down\<close>

definition vmw_cmdbuf_set_pool_size ::
    "(nat \<times> u64) option \<Rightarrow> u32 kres \<Rightarrow> nat kres \<Rightarrow> u64 \<Rightarrow> 'd cb_world \<Rightarrow> 'd cb_world \<times> unit kres" where
  \<comment> \<open>the first three arguments are what \<open>dma_alloc_coherent\<close>, \<open>ttm_bo_create\<close> and \<open>ttm_bo_kmap\<close> answer\<close>
  "vmw_cmdbuf_set_pool_size dma_alloc bo_create kmap sz w =
     (if has_pool (cman w) then (w, Inl EINVAL)
      else (let sz = PAGE_ALIGN sz;
                ready = (\<lambda>m. m\<lparr>cm_size := sz, cm_mm := Some (drm_mm_init 0 (drop_bit 12 sz)), has_pool := True,
                                default_size := VMW_CMDBUF_INLINE_SIZE\<rparr>)
            in case dma_alloc of
                 Some (addr, handle) \<Rightarrow>
                   (upd_man_rec (\<lambda>m. ready (m\<lparr>cm_map := addr, cm_handle := handle, using_mob := False\<rparr>)) w, Inr ())
               | None \<Rightarrow>
                   (let w = upd_man_rec (\<lambda>m. m\<lparr>cm_map := 0\<rparr>) w in
                    if capabilities (cb_dev w) AND SVGA_CAP_DX = 0 then (w, Inl ENOMEM)
                    else (case bo_create of Inl e \<Rightarrow> (w, Inl e)
                          | Inr mobid \<Rightarrow>
                              (case kmap of
                                 Inl e \<Rightarrow> (upd_man_rec (\<lambda>m. m\<lparr>using_mob := True\<rparr>) w, Inl e)
                               | Inr addr \<Rightarrow>
                                   (upd_man_rec (\<lambda>m. ready (m\<lparr>cm_map := addr, cm_mobid := mobid, using_mob := True\<rparr>)) w, Inr ()))))))"

definition vmw_cmdbuf_man_destroy ::
    "'d cb_device \<Rightarrow> 'd wake list \<Rightarrow> 'd alloc_env \<Rightarrow> 'd cb_world \<Rightarrow> 'd cb_world kres option" where
  \<comment> \<open>the state in which the manager's memory is freed\<close>
  "vmw_cmdbuf_man_destroy dv evs al w =
     (case vmw_cmdbuf_idle dv False False evs w of
        None \<Rightarrow> None
      | Some (Inl e) \<Rightarrow> Some (Inl e)
      | Some (Inr (w1, _)) \<Rightarrow>
          (case logged True (vmw_cmdbuf_startstop dv al 0 False) w1 of
             None \<Rightarrow> None
           | Some (Inl e) \<Rightarrow> Some (Inl e)
           | Some (Inr w2) \<Rightarrow>
               Some (Inr (w2\<lparr>cb_dev := vmw_generic_waiter_remove SVGA_IRQFLAG_ERROR error_waiters error_waiters_update (cb_dev w2),
                             cman := (cman w2)\<lparr>cm_work := False\<rparr>\<rparr>))))"

definition new_man :: "u32 \<Rightarrow> vmw_cmdbuf_man" where
  \<comment> \<open>the zeroed structure, after the initialisation of its fields\<close>
  "new_man caps =
     \<lparr>cm_ctx = (\<lambda>_. \<lparr>submitted = [], hw_submitted = [], preempted = [], num_hw_submitted = 0, block_submission = False\<rparr>),
      cm_error = [], cm_mm = None, cm_map = 0, cm_mobid = 0, cm_cur = None, cur_pos = 0,
      default_size = VMW_CMDBUF_INLINE_SIZE, max_hw_submitted = SVGA_CB_MAX_QUEUED_PER_CONTEXT - 1,
      irq_on = False, using_mob = False, has_pool = False, cm_handle = 0, cm_size = 0,
      num_contexts = (if caps AND SVGA_CAP_HP_CMD_QUEUE \<noteq> 0 then 2 else 1), cur_mutex = False, cm_work = False\<rparr>"

definition vmw_cmdbuf_man_create ::
    "'d cb_device \<Rightarrow> bool \<Rightarrow> bool \<times> bool \<Rightarrow> 'd alloc_env \<Rightarrow> 'd wake list \<Rightarrow> 'd alloc_env \<Rightarrow> vmw_private \<Rightarrow> memory \<Rightarrow> 'd \<Rightarrow>
     'd cb_world kres kres option" where
  \<comment> \<open>whether the manager and the two DMA pools can be allocated, and what the kernel answers to the
      start command and, when that fails, to the wait and the stop command of the destruction\<close>
  "vmw_cmdbuf_man_create dv kzalloc_ok pools_ok al evs al' dev mem d =
     (if capabilities dev AND SVGA_CAP_COMMAND_BUFFERS = 0 then Some (Inr (Inl ENOSYS))
      else if \<not> kzalloc_ok then Some (Inr (Inl ENOMEM))
      else if \<not> fst pools_ok \<or> \<not> snd pools_ok then Some (Inr (Inl ENOMEM))
      else (let man = new_man (capabilities dev);
                w = fold vmw_cmdbuf_ctx_init [0..<num_contexts man]
                      \<lparr>cman = man, hdrs = (\<lambda>_. None),
                       cb_dev = vmw_generic_waiter_add SVGA_IRQFLAG_ERROR error_waiters error_waiters_update dev,
                       kmem = mem, cb_env = d\<rparr>
            in case vmw_cmdbuf_startstop dv al 0 True w of
                 None \<Rightarrow> None
               | Some (Inl e) \<Rightarrow> Some (Inl e)
               | Some (Inr (w1, Inr _)) \<Rightarrow> Some (Inr (Inr w1))
               | Some (Inr (w1, Inl ret)) \<Rightarrow>
                   (case vmw_cmdbuf_man_destroy dv evs al' w1 of
                      None \<Rightarrow> None | Some (Inl e) \<Rightarrow> Some (Inl e) | Some (Inr _) \<Rightarrow> Some (Inr (Inl ret)))))"

definition vmw_cmdbuf_remove_pool ::
    "'d cb_device \<Rightarrow> 'd wake list \<Rightarrow> 'd cb_world \<Rightarrow> 'd cb_world kres option" where
  "vmw_cmdbuf_remove_pool dv evs w =
     (if \<not> has_pool (cman w) then Some (Inr w)
      else (case vmw_cmdbuf_idle dv False False evs
                   (upd_man_rec (\<lambda>m. m\<lparr>has_pool := False, default_size := VMW_CMDBUF_INLINE_SIZE\<rparr>) w) of
              None \<Rightarrow> None | Some (Inl e) \<Rightarrow> Some (Inl e) | Some (Inr (w1, _)) \<Rightarrow> Some (Inr w1)))"

end
