(* ===== verification/Cmdbuf_Own.thy ===== *)
theory Cmdbuf_Own
  imports Cmdbuf
begin

text \<open>
  Who owns a command buffer. The invariant of the manager of \<open>Cmdbuf\<close>, that processing the contexts, allocating,
  freeing, reserving, committing and flushing keep it and never fault, and in which order buffers leave the queues.
\<close>

section \<open>Ownership of the buffers\<close>

text \<open>
  Every header in the heap is in exactly one place: on a queue of a context, on the error list, the current buffer, or
  in the hands of a thread. The places are counted as a multiset, so that moving a header is a subtraction and an
  addition, and that the sum is the heap says at once that nothing is lost, shared or freed twice.
\<close>

definition queued :: "'d cb_world \<Rightarrow> nat \<Rightarrow> nat list" where
  "queued w c = preempted (ctx w c) @ hw_submitted (ctx w c) @ submitted (ctx w c)"

definition bufs :: "'d cb_world \<Rightarrow> nat multiset" where
  "bufs w = (\<Sum>c<num_contexts (cman w). mset (queued w c)) + mset (cm_error (cman w))"

definition cur_buf :: "'d cb_world \<Rightarrow> nat multiset" where
  "cur_buf w = (case cm_cur (cman w) of None \<Rightarrow> {#} | Some h \<Rightarrow> {#h#})"

definition own :: "nat multiset \<Rightarrow> 'd cb_world \<Rightarrow> bool" where
  "own M w \<longleftrightarrow> finite (dom (hdrs w)) \<and> bufs w + M = mset_set (dom (hdrs w))"

definition counts :: "'d cb_world \<Rightarrow> bool" where
  "counts w \<longleftrightarrow> (\<forall>c<num_contexts (cman w). unat (num_hw_submitted (ctx w c)) = length (hw_submitted (ctx w c)) \<and>
     num_hw_submitted (ctx w c) \<le> max_hw_submitted (cman w))"

definition tagged :: "'d cb_world \<Rightarrow> nat \<Rightarrow> nat set \<Rightarrow> bool" where
  "tagged w h C \<longleftrightarrow> (\<forall>x. hdrs w h = Some x \<longrightarrow> unat (cb_context x) \<in> C)"

definition tags :: "'d cb_world \<Rightarrow> bool" where
  "tags w \<longleftrightarrow> (\<forall>c<num_contexts (cman w). \<forall>h\<in>set (queued w c). tagged w h {c}) \<and>
     (\<forall>h\<in>set (cm_error (cman w)). tagged w h {..<num_contexts (cman w)})"

definition pool_nodes :: "'d cb_world \<Rightarrow> nat set" where
  "pool_nodes w = {h. \<exists>x. hdrs w h = Some x \<and> \<not> inline_space x}"

definition pool_ok :: "nat set \<Rightarrow> 'd cb_world \<Rightarrow> bool" where
  \<comment> \<open>the nodes of the allocator are the buffers in the pool, and those of the allocations under way\<close>
  "pool_ok P w \<longleftrightarrow> 0 \<notin> dom (hdrs w) \<and> pool_nodes w \<inter> P = {} \<and>
     (case cm_mm (cman w) of None \<Rightarrow> pool_nodes w \<union> P = {}
      | Some mm \<Rightarrow> mm_ok 0 (drop_bit 12 (cm_size (cman w))) mm \<and> set (node_list mm) = pool_nodes w \<union> P)"

definition cb_inv :: "nat multiset \<Rightarrow> 'd cb_world \<Rightarrow> bool" where
  "cb_inv M w \<longleftrightarrow> own M w \<and> counts w \<and> tags w \<and> pool_ok {} w"

definition cb_inv_p :: "nat set \<Rightarrow> nat multiset \<Rightarrow> 'd cb_world \<Rightarrow> bool" where
  \<comment> \<open>with nodes in the pool whose headers are not in the heap yet\<close>
  "cb_inv_p P M w \<longleftrightarrow> own M w \<and> counts w \<and> tags w \<and> pool_ok P w"

lemma cb_inv_p_empty: "cb_inv_p {} M w \<longleftrightarrow> cb_inv M w"
  by (simp add: cb_inv_p_def cb_inv_def)

definition cur_ok :: "'d cb_world \<Rightarrow> bool" where
  \<comment> \<open>what is used of the current buffer lies inside it\<close>
  "cur_ok w \<longleftrightarrow> (case cm_cur (cman w) of None \<Rightarrow> cur_pos (cman w) = 0
     | Some cur \<Rightarrow> \<forall>x. hdrs w cur = Some x \<longrightarrow> cur_pos (cman w) \<le> hdr_size x)"

definition reserved_ok :: "'d cb_world \<Rightarrow> bool" where
  \<comment> \<open>and so does what is reserved in it; holds while \<open>cur_mutex\<close> is held between a reservation and its commit\<close>
  "reserved_ok w \<longleftrightarrow> (\<exists>cur x. cm_cur (cman w) = Some cur \<and> hdrs w cur = Some x \<and>
     unat (cur_pos (cman w)) + unat (hdr_reserved x) \<le> unat (hdr_size x))"

definition pool_wf :: "'d cb_world \<Rightarrow> bool" where
  "pool_wf w \<longleftrightarrow> (has_pool (cman w) \<longrightarrow> cm_mm (cman w) \<noteq> None) \<and> default_size (cman w) = VMW_CMDBUF_INLINE_SIZE"

definition cb_ok :: "nat multiset \<Rightarrow> 'd cb_world \<Rightarrow> bool" where
  \<comment> \<open>the invariant between the operations; the current buffer counts as held by the manager\<close>
  "cb_ok M w \<longleftrightarrow> cb_inv (M + cur_buf w) w \<and> 0 < num_contexts (cman w) \<and> num_contexts (cman w) \<le> 2 \<and> cur_ok w \<and> pool_wf w"

text \<open>What processing a context leaves alone: the settings of the manager, the other contexts, and all of a header but
  what the device writes.\<close>

definition static :: "vmw_cmdbuf_man \<Rightarrow> vmw_cmdbuf_man" where
  "static m = m\<lparr>cm_ctx := (\<lambda>_. \<lparr>submitted = [], hw_submitted = [], preempted = [], num_hw_submitted = 0, block_submission = False\<rparr>),
     cm_error := [], cm_mm := None, cm_work := False\<rparr>"

definition core_hdr :: "vmw_cmdbuf_header \<Rightarrow> vmw_cmdbuf_header" where
  "core_hdr x = x\<lparr>cb_header := (cb_header x)\<lparr>cb_status := SVGA_CB_STATUS_NONE, cb_errorOffset := 0\<rparr>\<rparr>"

definition dev_core :: "vmw_private \<Rightarrow> vmw_private" where
  "dev_core dev = dev\<lparr>reg_writes := [], irq_mask := 0, irq_acks := []\<rparr>"

definition frame_c :: "nat \<Rightarrow> 'd cb_world \<Rightarrow> 'd cb_world \<Rightarrow> bool" where
  "frame_c c w w' \<longleftrightarrow> static (cman w') = static (cman w) \<and> kmem w' = kmem w \<and> dev_core (cb_dev w') = dev_core (cb_dev w) \<and>
     (\<forall>d. d \<noteq> c \<longrightarrow> ctx w' d = ctx w d) \<and> block_submission (ctx w' c) = block_submission (ctx w c) \<and>
     (\<forall>h x'. hdrs w' h = Some x' \<longrightarrow> (\<exists>x. hdrs w h = Some x \<and> core_hdr x' = core_hdr x))"

lemma frame_c_refl [simp]: "frame_c c w w"
  by (simp add: frame_c_def)

lemma frame_c_trans [trans]: "frame_c c w w1 \<Longrightarrow> frame_c c w1 w2 \<Longrightarrow> frame_c c w w2"
  unfolding frame_c_def by (metis (no_types, lifting))

lemma static_eqD:
  assumes "static m' = static m"
  shows "cm_cur m' = cm_cur m" "cur_pos m' = cur_pos m" "default_size m' = default_size m" "max_hw_submitted m' = max_hw_submitted m"
    "irq_on m' = irq_on m" "using_mob m' = using_mob m" "has_pool m' = has_pool m" "cm_map m' = cm_map m" "cm_mobid m' = cm_mobid m"
    "cm_handle m' = cm_handle m" "cm_size m' = cm_size m" "num_contexts m' = num_contexts m" "cur_mutex m' = cur_mutex m"
  using assms by (cases m; cases m'; simp add: static_def)+

lemma core_hdr_eqD:
  assumes "core_hdr x' = core_hdr x"
  shows "cb_context x' = cb_context x" "hdr_handle x' = hdr_handle x" "hdr_cmd x' = hdr_cmd x" "hdr_size x' = hdr_size x"
    "hdr_reserved x' = hdr_reserved x" "inline_space x' = inline_space x" "cb_length (cb_header x') = cb_length (cb_header x)"
    "cb_ptr (cb_header x') = cb_ptr (cb_header x)" "cb_flags (cb_header x') = cb_flags (cb_header x)"
    "cb_dxContext (cb_header x') = cb_dxContext (cb_header x)"
  using assms
  by (cases x; cases x'; cases "cb_header x"; cases "cb_header x'"; simp add: core_hdr_def)+

lemma device_writes_core [simp]: "core_hdr (x\<lparr>cb_header := device_writes r (cb_header x)\<rparr>) = core_hdr x"
  "core_hdr (x\<lparr>cb_header := (cb_header x)\<lparr>cb_status := s\<rparr>\<rparr>) = core_hdr x"
  by (auto simp: core_hdr_def device_writes_def split: option.splits)

lemma bufs_upd_ctx:
  assumes "c < num_contexts (cman w)"
  shows "bufs (upd_ctx c f w) + mset (queued w c) = bufs w + mset (queued (upd_ctx c f w) c)"
proof -
  let ?w = "upd_ctx c f w"
  have same: "d \<noteq> c \<Longrightarrow> queued ?w d = queued w d" for d by (simp add: queued_def upd_ctx_def)
  have n: "num_contexts (cman ?w) = num_contexts (cman w)" "cm_error (cman ?w) = cm_error (cman w)"
    by (simp_all add: upd_ctx_def)
  have c: "c \<in> {..<num_contexts (cman w)}" using assms by simp
  have split: "(\<Sum>d<num_contexts (cman w). mset (queued v d)) = mset (queued v c) + (\<Sum>d\<in>{..<num_contexts (cman w)} - {c}. mset (queued v d))" for v :: "'a cb_world"
    by (rule sum.remove [OF _ c]) simp
  have "(\<Sum>d\<in>{..<num_contexts (cman w)} - {c}. mset (queued ?w d)) = (\<Sum>d\<in>{..<num_contexts (cman w)} - {c}. mset (queued w d))"
    by (rule sum.cong) (simp_all add: same)
  then show ?thesis unfolding bufs_def n split [of w] split [of ?w] by (simp add: ac_simps)
qed

lemma mset_balance:
  fixes A A' M M' x x' :: "'a multiset"
  assumes "A' + x = A + x'" "M' + x' = M + x"
  shows "A' + M' = A + M"
proof (rule multiset_eqI)
  fix a
  have "count (A' + x) a = count (A + x') a" "count (M' + x') a = count (M + x) a" using assms by simp_all
  then show "count (A' + M') a = count (A + M) a" by simp
qed

lemma pool_ok_cong:
  assumes "pool_ok P w" "cm_mm (cman w') = cm_mm (cman w)" "cm_size (cman w') = cm_size (cman w)"
    "pool_nodes w' = pool_nodes w" "dom (hdrs w') = dom (hdrs w)"
  shows "pool_ok P w'"
  using assms by (auto simp: pool_ok_def split: option.splits)

lemma cb_invD:
  assumes "cb_inv M w"
  shows "own M w" "counts w" "tags w" "pool_ok {} w" "finite (dom (hdrs w))" "bufs w + M = mset_set (dom (hdrs w))"
  using assms by (auto simp: cb_inv_def own_def)

lemma in_bufs_iff: "cb_inv M w \<Longrightarrow> h \<in># bufs w + M \<longleftrightarrow> hdrs w h \<noteq> None"
  using cb_invD(5,6) [of M w] by (simp add: finite_set_mset_mset_set dom_def)

lemma queued_in_bufs: "c < num_contexts (cman w) \<Longrightarrow> h \<in> set (queued w c) \<Longrightarrow> h \<in># bufs w"
  by (auto simp: bufs_def set_mset_sum)

lemma queued_alive:
  assumes "cb_inv M w" "c < num_contexts (cman w)" "h \<in> set (queued w c)"
  obtains x where "hdrs w h = Some x"
  using in_bufs_iff [OF assms(1), of h] queued_in_bufs [OF assms(2,3)] by auto

lemma held_alive:
  assumes "cb_inv M w" "h \<in># M"
  obtains x where "hdrs w h = Some x"
  using in_bufs_iff [OF assms(1), of h] assms(2) by auto

lemma bufs_distinct:
  assumes "cb_inv M w" shows "count (bufs w) h + count M h \<le> 1"
proof -
  have "count (bufs w + M) h = count (mset_set (dom (hdrs w))) h" using cb_invD(6) [OF assms] by simp
  then show ?thesis using cb_invD(5) [OF assms] by (simp add: count_mset_set')
qed

lemma queued_count_le: "c < num_contexts (cman w) \<Longrightarrow> count_list (queued w c) h \<le> count (bufs w) h"
proof -
  assume c: "c < num_contexts (cman w)"
  have "mset (queued w c) \<subseteq># (\<Sum>c<num_contexts (cman w). mset (queued w c))"
    using c by (simp add: sum.remove [of _ c])
  then have "mset (queued w c) \<subseteq># bufs w"
    unfolding bufs_def by (metis mset_subset_eq_add_left subset_mset.order_trans)
  then have "count (mset (queued w c)) h \<le> count (bufs w) h" by (rule mset_subset_eq_count)
  then show ?thesis by (simp add: count_mset)
qed

lemma queued_distinct:
  assumes "cb_inv M w" "c < num_contexts (cman w)"
  shows "distinct (queued w c)"
proof -
  have "count (mset (queued w c)) h \<le> 1" for h
    using queued_count_le [OF assms(2), of h] bufs_distinct [OF assms(1), of h] by (simp add: count_mset)
  moreover have "count (mset (queued w c)) h = 0 \<longleftrightarrow> h \<notin> set (queued w c)" for h by (metis not_in_iff set_mset_mset)
  ultimately show ?thesis
    unfolding distinct_count_atmost_1 by (metis le_antisym less_one not_less)
qed

text \<open>A change of headers that keeps their context and the kind of their space.\<close>

lemma cb_inv_hdrs:
  assumes inv: "cb_inv M w" and man: "cman w' = cman w" and dom: "dom (hdrs w') = dom (hdrs w)"
    and same: "\<And>h x'. hdrs w' h = Some x' \<Longrightarrow> \<exists>x. hdrs w h = Some x \<and> cb_context x' = cb_context x \<and> inline_space x' = inline_space x"
  shows "cb_inv M w'"
proof -
  have q: "queued w' = queued w" "bufs w' = bufs w" by (simp_all add: queued_def bufs_def man fun_eq_iff)
  have "tagged w h C \<Longrightarrow> tagged w' h C" for h C using same by (fastforce simp: tagged_def)
  then have "tags w'" using cb_invD(3) [OF inv] by (simp add: tags_def q man)
  moreover have "pool_nodes w' = pool_nodes w"
  proof (intro set_eqI iffI)
    fix h assume "h \<in> pool_nodes w'"
    then show "h \<in> pool_nodes w" using same by (fastforce simp: pool_nodes_def)
  next
    fix h assume "h \<in> pool_nodes w"
    then obtain x where x: "hdrs w h = Some x" "\<not> inline_space x" by (auto simp: pool_nodes_def)
    then obtain x' where "hdrs w' h = Some x'" using dom by (metis domD domI)
    with same x show "h \<in> pool_nodes w'" by (fastforce simp: pool_nodes_def)
  qed
  ultimately have "pool_ok {} w'" using pool_ok_cong [OF cb_invD(4) [OF inv], of w'] by (simp add: man dom)
  with \<open>tags w'\<close> show ?thesis
    using inv by (simp add: cb_inv_def own_def counts_def q man dom)
qed

lemma cb_inv_hdr:
  assumes "cb_inv M w" "hdrs w h = Some x" "cb_context x' = cb_context x" "inline_space x' = inline_space x"
  shows "cb_inv M (w\<lparr>hdrs := (hdrs w)(h \<mapsto> x'), cb_dev := dv, kmem := mem, cb_env := d\<rparr>)"
  by (rule cb_inv_hdrs [OF assms(1)]) (use assms in \<open>auto split: if_splits\<close>)

text \<open>A context whose queues exchange entries with the hands of the caller.\<close>

lemma cb_inv_upd_ctx:
  assumes inv: "cb_inv M w" and c: "c < num_contexts (cman w)"
    and bal: "M' + mset (queued (upd_ctx c f w) c) = M + mset (queued w c)"
    and cnt: "unat (num_hw_submitted (f (ctx w c))) = length (hw_submitted (f (ctx w c)))"
      "num_hw_submitted (f (ctx w c)) \<le> max_hw_submitted (cman w)"
    and tag: "\<And>h. h \<in> set (queued (upd_ctx c f w) c) \<Longrightarrow> tagged w h {c}"
  shows "cb_inv M' (upd_ctx c f w)"
proof -
  let ?w = "upd_ctx c f w"
  have same: "num_contexts (cman ?w) = num_contexts (cman w)" "cm_error (cman ?w) = cm_error (cman w)" "hdrs ?w = hdrs w"
      "max_hw_submitted (cman ?w) = max_hw_submitted (cman w)" "cm_mm (cman ?w) = cm_mm (cman w)" "cm_size (cman ?w) = cm_size (cman w)"
      "ctx ?w d = (if d = c then f (ctx w c) else ctx w d)" "d \<noteq> c \<Longrightarrow> queued ?w d = queued w d" for d
    by (simp_all add: upd_ctx_def queued_def)
  have "bufs ?w + M' = bufs w + M"
    by (rule mset_balance [OF bufs_upd_ctx [OF c] bal])
  then have "own M' ?w" using inv by (simp add: cb_inv_def own_def same)
  moreover have "counts ?w" using cb_invD(2) [OF inv] cnt by (simp add: counts_def same)
  moreover have "tagged ?w h C = tagged w h C" for h C by (simp add: tagged_def same)
  then have "tags ?w" using cb_invD(3) [OF inv] tag same(8) unfolding tags_def same(1,2) by metis
  moreover have "pool_ok {} ?w" by (rule pool_ok_cong [OF cb_invD(4) [OF inv]]) (simp_all add: pool_nodes_def same)
  ultimately show ?thesis by (simp add: cb_inv_def)
qed

lemma cb_inv_error:
  assumes inv: "cb_inv M w" and bal: "M' + mset es = M + mset (cm_error (cman w))"
    and tag: "\<And>h. h \<in> set es \<Longrightarrow> tagged w h {..<num_contexts (cman w)}"
  shows "cb_inv M' (w\<lparr>cman := (cman w)\<lparr>cm_error := es, cm_work := b\<rparr>\<rparr>)" (is "cb_inv _ ?w")
proof -
  have q: "queued ?w = queued w" by (simp add: queued_def fun_eq_iff)
  have "bufs ?w + mset (cm_error (cman w)) = bufs w + mset es" by (simp add: bufs_def q ac_simps)
  then have "bufs ?w + M' = bufs w + M" by (rule mset_balance) (rule bal)
  then have "own M' ?w" using inv by (simp add: cb_inv_def own_def)
  moreover have "tags ?w" using cb_invD(3) [OF inv] tag by (simp add: tags_def tagged_def q)
  moreover have "pool_ok {} ?w" by (rule pool_ok_cong [OF cb_invD(4) [OF inv]]) (simp_all add: pool_nodes_def)
  ultimately show ?thesis using inv by (simp add: cb_inv_def counts_def)
qed

lemma cb_inv_p_man:
  \<comment> \<open>changes of the fields that the invariant does not read\<close>
  assumes inv: "cb_inv_p P M w" and same: "hdrs w' = hdrs w" "cm_ctx (cman w') = cm_ctx (cman w)" "cm_error (cman w') = cm_error (cman w)"
      "cm_mm (cman w') = cm_mm (cman w)" "cm_size (cman w') = cm_size (cman w)" "num_contexts (cman w') = num_contexts (cman w)"
      "max_hw_submitted (cman w') = max_hw_submitted (cman w)"
  shows "cb_inv_p P M w'"
proof -
  have q: "queued w' = queued w" by (simp add: queued_def fun_eq_iff same)
  have "pool_ok P w" using inv by (simp add: cb_inv_p_def)
  then have "pool_ok P w'" by (rule pool_ok_cong) (simp_all add: pool_nodes_def same)
  then show ?thesis using inv by (simp add: cb_inv_p_def own_def bufs_def counts_def tags_def tagged_def q same)
qed

lemmas cb_inv_man = cb_inv_p_man [where P = "{}", unfolded cb_inv_p_empty]

lemma free_ok:
  assumes inv: "cb_inv (add_mset h M) w"
  obtains mm' where
    "cmdbuf_header_free_locked h w = Inr (w\<lparr>cman := (cman w)\<lparr>cm_mm := mm'\<rparr>, hdrs := (hdrs w)(h := None)\<rparr>)"
    "cb_inv M (w\<lparr>cman := (cman w)\<lparr>cm_mm := mm'\<rparr>, hdrs := (hdrs w)(h := None)\<rparr>)" "mm' = None \<longleftrightarrow> cm_mm (cman w) = None"
proof -
  obtain x where x: "hdrs w h = Some x" by (rule held_alive [OF inv, of h]) auto
  let ?w = "\<lambda>mm'. w\<lparr>cman := (cman w)\<lparr>cm_mm := mm'\<rparr>, hdrs := (hdrs w)(h := None)\<rparr>"
  have q: "queued (?w mm') = queued w" "bufs (?w mm') = bufs w" for mm' by (simp_all add: queued_def bufs_def fun_eq_iff)
  have "add_mset h (mset_set (dom (hdrs w) - {h})) = add_mset h (bufs w + M)"
    using mset_set.remove [OF cb_invD(5) [OF inv], of h] x cb_invD(6) [OF inv] by (simp add: domI)
  then have "own M (?w mm')" for mm' using cb_invD(5) [OF inv] by (simp add: own_def q)
  moreover have "counts (?w mm')" "tags (?w mm')" for mm'
    using cb_invD(2,3) [OF inv] by (auto simp: counts_def tags_def tagged_def q)
  ultimately have rest: "pool_ok {} (?w mm') \<Longrightarrow> cb_inv M (?w mm')" for mm' by (simp add: cb_inv_def)
  note pool = cb_invD(4) [OF inv]
  have nodes: "pool_nodes (?w mm') = pool_nodes w - {h}" for mm' by (auto simp: pool_nodes_def)
  show ?thesis
  proof (cases "inline_space x")
    case True
    then have "h \<notin> pool_nodes w" using x by (simp add: pool_nodes_def)
    then have "pool_nodes (?w (cm_mm (cman w))) = pool_nodes w" unfolding nodes by simp
    then have "pool_ok {} (?w (cm_mm (cman w)))" using pool by (auto simp: pool_ok_def split: option.splits)
    moreover have "cmdbuf_header_free_locked h w = Inr (?w (cm_mm (cman w)))"
      using x True by (simp add: cmdbuf_header_free_locked_def vmw_cmdbuf_header_inline_free_def get_hdr_def)
    ultimately show ?thesis using rest that [of "cm_mm (cman w)"] by blast
  next
    case False
    then have h: "h \<in> pool_nodes w" using x by (simp add: pool_nodes_def)
    then obtain mm where mm: "cm_mm (cman w) = Some mm" "mm_ok 0 (drop_bit 12 (cm_size (cman w))) mm" "set (node_list mm) = pool_nodes w"
      using pool by (auto simp: pool_ok_def split: option.splits)
    obtain mm' where mm': "drm_mm_remove_node mm h = Inr mm'" "mm_ok 0 (drop_bit 12 (cm_size (cman w))) mm'"
        "set (node_list mm') = set (node_list mm) - {h}"
      using remove_node_spec [OF mm(2), of h] h mm(3) by auto
    have "pool_ok {} (?w (Some mm'))" using pool nodes mm' mm(3) by (simp add: pool_ok_def)
    moreover have "cmdbuf_header_free_locked h w = Inr (?w (Some mm'))"
      using x False mm(1) mm'(1) by (simp add: cmdbuf_header_free_locked_def get_hdr_def)
    ultimately show ?thesis using rest that [of "Some mm'"] mm(1) by simp
  qed
qed

text \<open>Handing a buffer to the device and reading a status.\<close>

lemma header_submit_ok:
  assumes "hdrs w h = Some x"
  obtains cb dv' d where "vmw_cmdbuf_header_submit dv h w = Inr (w\<lparr>hdrs := (hdrs w)(h \<mapsto> x\<lparr>cb_header := cb\<rparr>), cb_dev := dv', cb_env := d\<rparr>, cb_status cb)"
    "core_hdr (x\<lparr>cb_header := cb\<rparr>) = core_hdr x" "dev_core dv' = dev_core (cb_dev w)"
  using assms by (simp add: vmw_cmdbuf_header_submit_def get_hdr_def Let_def vmw_write_def dev_core_def)

lemma read_status_ok:
  assumes "hdrs w h = Some x"
  obtains cb d where "read_status dv h w = Inr (w\<lparr>hdrs := (hdrs w)(h \<mapsto> x\<lparr>cb_header := cb\<rparr>), cb_env := d\<rparr>, cb_status cb)"
    "core_hdr (x\<lparr>cb_header := cb\<rparr>) = core_hdr x"
  using assms by (simp add: read_status_def get_hdr_def Let_def)

lemma cb_inv_core:
  assumes "cb_inv M w" "hdrs w h = Some x" "core_hdr x' = core_hdr x"
  shows "cb_inv M (w\<lparr>hdrs := (hdrs w)(h \<mapsto> x'), cb_dev := dv, cb_env := d\<rparr>)"
    and "dev_core dv = dev_core (cb_dev w) \<Longrightarrow> frame_c c w (w\<lparr>hdrs := (hdrs w)(h \<mapsto> x'), cb_dev := dv, cb_env := d\<rparr>)"
proof -
  show "cb_inv M (w\<lparr>hdrs := (hdrs w)(h \<mapsto> x'), cb_dev := dv, cb_env := d\<rparr>)"
    using cb_inv_hdr [OF assms(1,2), where x' = x' and dv = dv and mem = "kmem w" and d = d] core_hdr_eqD [OF assms(3)] by simp
  show "frame_c c w (w\<lparr>hdrs := (hdrs w)(h \<mapsto> x'), cb_dev := dv, cb_env := d\<rparr>)" if "dev_core dv = dev_core (cb_dev w)"
    using assms that by (auto simp: frame_c_def)
qed

lemma upd_cb_eq: "hdrs w h = Some x \<Longrightarrow> upd_cb h f w = w\<lparr>hdrs := (hdrs w)(h \<mapsto> x\<lparr>cb_header := f (cb_header x)\<rparr>)\<rparr>"
  by (simp add: upd_cb_def)

lemma upd_ctx_frame: "block_submission (f (ctx w c)) = block_submission (ctx w c) \<Longrightarrow> frame_c c w (upd_ctx c f w)"
  by (auto simp: frame_c_def upd_ctx_def static_def)

lemma ctx_upd_ctx [simp]: "ctx (upd_ctx c f w) d = (if d = c then f (ctx w c) else ctx w d)"
  by (simp add: upd_ctx_def)

lemma submit_move:
  assumes inv: "cb_inv M w" and c: "c < num_contexts (cman w)" and es: "submitted (ctx w c) = e # es"
    and room: "num_hw_submitted (ctx w c) < max_hw_submitted (cman w)"
  defines "f \<equiv> hw_add e"
  shows "cb_inv M (upd_ctx c f w)" "submitted (ctx (upd_ctx c f w) c) = es" "hw_submitted (ctx (upd_ctx c f w) c) = hw_submitted (ctx w c) @ [e]"
proof -
  have "distinct (e # es)" using queued_distinct [OF inv c] es by (auto simp: queued_def)
  then have sub: "removeAll e (e # es) = es" by simp
  show "submitted (ctx (upd_ctx c f w) c) = es" "hw_submitted (ctx (upd_ctx c f w) c) = hw_submitted (ctx w c) @ [e]"
    using es sub by (simp_all add: f_def hw_add_def)
  have n: "unat (num_hw_submitted (ctx w c)) = length (hw_submitted (ctx w c))" using cb_invD(2) [OF inv] c by (simp add: counts_def)
  have inc: "num_hw_submitted (ctx w c) + 1 \<le> max_hw_submitted (cman w)" "unat (num_hw_submitted (ctx w c) + 1) = Suc (unat (num_hw_submitted (ctx w c)))"
  proof -
    have "unat (num_hw_submitted (ctx w c)) < unat (max_hw_submitted (cman w))" using room by (simp add: word_less_nat_alt)
    moreover have "unat (max_hw_submitted (cman w)) < 2 ^ 32" using unsigned_less [of "max_hw_submitted (cman w)"] by simp
    ultimately show suc: "unat (num_hw_submitted (ctx w c) + 1) = Suc (unat (num_hw_submitted (ctx w c)))"
      unfolding unat_Suc_mod by simp
    then show "num_hw_submitted (ctx w c) + 1 \<le> max_hw_submitted (cman w)" using room by (simp add: word_le_nat_alt word_less_nat_alt)
  qed
  have q: "queued (upd_ctx c f w) c = preempted (ctx w c) @ (hw_submitted (ctx w c) @ [e]) @ es"
    using es sub by (simp add: queued_def f_def hw_add_def)
  show "cb_inv M (upd_ctx c f w)"
  proof (rule cb_inv_upd_ctx [OF inv c])
    show "M + mset (queued (upd_ctx c f w) c) = M + mset (queued w c)" unfolding q by (simp add: queued_def es)
    show "unat (num_hw_submitted (f (ctx w c))) = length (hw_submitted (f (ctx w c)))" using n inc(2) by (simp add: f_def hw_add_def)
    show "num_hw_submitted (f (ctx w c)) \<le> max_hw_submitted (cman w)" using inc(1) by (simp add: f_def hw_add_def)
    show "tagged w h {c}" if "h \<in> set (queued (upd_ctx c f w) c)" for h
      using that cb_invD(3) [OF inv] c unfolding q by (auto simp: tags_def queued_def es)
  qed
qed

lemma submit_loop_ok:
  assumes "cb_inv M w" "c < num_contexts (cman w)" "submitted (ctx w c) = es"
  shows "\<exists>w' k. ctx_submit_loop dv c es w = Inr w' \<and> cb_inv M w' \<and> frame_c c w w' \<and>
     hw_submitted (ctx w' c) = hw_submitted (ctx w c) @ take k es \<and> submitted (ctx w' c) = drop k es \<and>
     preempted (ctx w' c) = preempted (ctx w c) \<and> cm_error (cman w') = cm_error (cman w) \<and> cm_mm (cman w') = cm_mm (cman w) \<and>
     dom (hdrs w') = dom (hdrs w)"
  using assms
proof (induction es arbitrary: w)
  case Nil
  then show ?case by auto
next
  case (Cons e es)
  show ?case
  proof (cases "num_hw_submitted (ctx w c) < max_hw_submitted (cman w) \<and> \<not> block_submission (ctx w c)")
    case False
    then show ?thesis using Cons.prems by (intro exI [of _ w] exI [of _ 0]) auto
  next
    case True
    have "e \<in> set (queued w c)" using Cons.prems(3) by (simp add: queued_def)
    then obtain x where x: "hdrs w e = Some x" using queued_alive [OF Cons.prems(1,2)] by blast
    obtain cb d dv' where s: "vmw_cmdbuf_header_submit dv e w = Inr (w\<lparr>hdrs := (hdrs w)(e \<mapsto> x\<lparr>cb_header := cb\<rparr>), cb_dev := dv', cb_env := d\<rparr>, cb_status cb)"
        "core_hdr (x\<lparr>cb_header := cb\<rparr>) = core_hdr x" "dev_core dv' = dev_core (cb_dev w)" by (rule header_submit_ok [OF x])
    let ?w1 = "w\<lparr>hdrs := (hdrs w)(e \<mapsto> x\<lparr>cb_header := cb\<rparr>), cb_dev := dv', cb_env := d\<rparr>"
    note w1 = cb_inv_core(1) [OF Cons.prems(1) x s(2), where dv = dv' and d = d] cb_inv_core(2) [OF Cons.prems(1) x s(2,3), where d = d and c = c]
    show ?thesis
    proof (cases "cb_status cb = SVGA_CB_STATUS_QUEUE_FULL")
      case full: True
      let ?x2 = "x\<lparr>cb_header := cb\<lparr>cb_status := SVGA_CB_STATUS_NONE\<rparr>\<rparr>"
      define w2 where "w2 = w\<lparr>hdrs := (hdrs w)(e \<mapsto> ?x2), cb_dev := dv', cb_env := d\<rparr>"
      have "core_hdr ?x2 = core_hdr x" using s(2) by (simp add: core_hdr_def)
      then have "cb_inv M w2" "frame_c c w w2"
        unfolding w2_def using cb_inv_core [OF Cons.prems(1) x] s(3) by blast+
      moreover have "ctx_submit_loop dv c (e # es) w = Inr w2" using True s(1) full by (simp add: upd_cb_def w2_def)
      moreover have "dom (hdrs w2) = dom (hdrs w)" "cman w2 = cman w" using x by (auto simp: w2_def split: if_splits)
      ultimately show ?thesis using Cons.prems(3) by (intro exI [of _ w2] exI [of _ 0] conjI) simp_all
    next
      case False
      let ?f = "hw_add e"
      have step: "ctx_submit_loop dv c (e # es) w = ctx_submit_loop dv c es (upd_ctx c ?f ?w1)"
        using True s(1) False by simp
      have mv: "cb_inv M (upd_ctx c ?f ?w1)" "submitted (ctx (upd_ctx c ?f ?w1) c) = es"
          "hw_submitted (ctx (upd_ctx c ?f ?w1) c) = hw_submitted (ctx w c) @ [e]"
        using submit_move [OF w1(1), of c e es] Cons.prems True by simp_all
      have fr: "frame_c c w (upd_ctx c ?f ?w1)"
        by (rule frame_c_trans [OF w1(2) upd_ctx_frame]) (simp add: hw_add_def)
      have "c < num_contexts (cman (upd_ctx c ?f ?w1))" using Cons.prems(2) by (simp add: upd_ctx_def)
      from Cons.IH [OF mv(1) this mv(2)] obtain w' k where ih: "ctx_submit_loop dv c es (upd_ctx c ?f ?w1) = Inr w'" "cb_inv M w'"
        "frame_c c (upd_ctx c ?f ?w1) w'" "hw_submitted (ctx w' c) = hw_submitted (ctx w c) @ [e] @ take k es" "submitted (ctx w' c) = drop k es"
        "preempted (ctx w' c) = preempted (ctx (upd_ctx c ?f ?w1) c)" "cm_error (cman w') = cm_error (cman (upd_ctx c ?f ?w1))"
        "cm_mm (cman w') = cm_mm (cman (upd_ctx c ?f ?w1))" "dom (hdrs w') = dom (hdrs (upd_ctx c ?f ?w1))"
        unfolding mv(3) by auto
      have "preempted (ctx (upd_ctx c ?f ?w1) c) = preempted (ctx w c)" "cm_error (cman (upd_ctx c ?f ?w1)) = cm_error (cman w)"
          "cm_mm (cman (upd_ctx c ?f ?w1)) = cm_mm (cman w)" "dom (hdrs (upd_ctx c ?f ?w1)) = dom (hdrs w)"
        using x by (auto simp: upd_ctx_def hw_add_def)
      with ih fr show ?thesis unfolding step
        by (intro exI [of _ w'] exI [of _ "Suc k"]) (auto intro: frame_c_trans)
    qed
  qed
qed

lemma finish_take:
  assumes inv: "cb_inv M w" and c: "c < num_contexts (cman w)" and es: "hw_submitted (ctx w c) = e # es"
  defines "w1 \<equiv> upd_ctx c (hw_del e) w"
  shows "cb_inv (add_mset e M) w1" "hw_submitted (ctx w1 c) = es" "submitted (ctx w1 c) = submitted (ctx w c)"
    "preempted (ctx w1 c) = preempted (ctx w c)" "frame_c c w w1" "tagged w1 e {c}"
proof -
  have "distinct (e # es)" using queued_distinct [OF inv c] es by (auto simp: queued_def)
  then have del: "removeAll e (e # es) = es" by simp
  then show hw: "hw_submitted (ctx w1 c) = es" "submitted (ctx w1 c) = submitted (ctx w c)" "preempted (ctx w1 c) = preempted (ctx w c)"
    using es by (simp_all add: w1_def hw_del_def)
  show "frame_c c w w1" unfolding w1_def by (rule upd_ctx_frame) (simp add: hw_del_def)
  have tag: "tagged w h {c}" if "h \<in> set (queued w c)" for h using that cb_invD(3) [OF inv] c by (auto simp: tags_def)
  from this [of e] show "tagged w1 e {c}" by (simp add: w1_def tagged_def upd_ctx_def queued_def es)
  let ?n = "num_hw_submitted (ctx w c)"
  have n: "unat ?n = Suc (length es)" "?n \<le> max_hw_submitted (cman w)"
    using cb_invD(2) [OF inv] c es by (auto simp: counts_def)
  then have one: "1 \<le> ?n" by (metis Suc_eq_plus1 le_add2 unat_1 word_le_nat_alt)
  have dec: "unat (?n - 1) = length es" using n(1) one by (simp add: unat_sub)
  have q: "queued w1 c = preempted (ctx w c) @ es @ submitted (ctx w c)" by (simp add: queued_def hw)
  show "cb_inv (add_mset e M) w1" unfolding w1_def
  proof (rule cb_inv_upd_ctx [OF inv c])
    show "add_mset e M + mset (queued (upd_ctx c (hw_del e) w) c) = M + mset (queued w c)"
      unfolding q [unfolded w1_def] by (simp add: queued_def es)
    show "unat (num_hw_submitted (hw_del e (ctx w c))) = length (hw_submitted (hw_del e (ctx w c)))"
      using dec es del by (simp add: hw_del_def)
    show "num_hw_submitted (hw_del e (ctx w c)) \<le> max_hw_submitted (cman w)"
      using dec n by (simp add: hw_del_def word_le_nat_alt)
    show "tagged w h {c}" if "h \<in> set (queued (upd_ctx c (hw_del e) w) c)" for h
      using that tag unfolding q [unfolded w1_def] by (auto simp: queued_def es)
  qed
qed

lemma finish_entry_ok:
  assumes inv: "cb_inv M w" and c: "c < num_contexts (cman w)" and es: "hw_submitted (ctx w c) = e # es"
  shows "\<exists>w'. finish_entry c e st w = Inr w' \<and> cb_inv M w' \<and> frame_c c w w' \<and>
     hw_submitted (ctx w' c) = es \<and> submitted (ctx w' c) = submitted (ctx w c) \<and>
     preempted (ctx w' c) = preempted (ctx w c) @ (if st = SVGA_CB_STATUS_PREEMPTED then [e] else []) \<and>
     cm_error (cman w') = cm_error (cman w) @ (if st = SVGA_CB_STATUS_COMMAND_ERROR then [e] else []) \<and>
     (hdrs w' e = None \<longleftrightarrow> st \<notin> {SVGA_CB_STATUS_PREEMPTED, SVGA_CB_STATUS_COMMAND_ERROR}) \<and>
     dom (hdrs w') - {e} = dom (hdrs w) - {e} \<and> (cm_mm (cman w') = None \<longleftrightarrow> cm_mm (cman w) = None)"
proof -
  define w1 where "w1 = upd_ctx c (hw_del e) w"
  note take = finish_take [OF assms, folded w1_def]
  have same: "hdrs w1 = hdrs w" "cm_error (cman w1) = cm_error (cman w)" "num_contexts (cman w1) = num_contexts (cman w)"
      "cm_mm (cman w1) = cm_mm (cman w)"
    by (simp_all add: w1_def upd_ctx_def)
  obtain x where x: "hdrs w1 e = Some x" by (rule held_alive [OF take(1), of e]) auto
  define w2 where "w2 = upd_cb e (\<lambda>cb. cb\<lparr>cb_status := SVGA_CB_STATUS_NONE\<rparr>) w1"
  have w2: "w2 = w1\<lparr>hdrs := (hdrs w1)(e \<mapsto> x\<lparr>cb_header := (cb_header x)\<lparr>cb_status := SVGA_CB_STATUS_NONE\<rparr>\<rparr>), cb_dev := cb_dev w1, cb_env := cb_env w1\<rparr>"
    using x by (simp add: w2_def upd_cb_def)
  have inv2: "cb_inv (add_mset e M) w2" "frame_c c w1 w2" unfolding w2 by (rule cb_inv_core [OF take(1) x]; simp)+
  have same2: "cman w2 = cman w1" "dom (hdrs w2) = dom (hdrs w)" "hdrs w2 e \<noteq> None"
    using x by (auto simp: w2 same split: if_splits)
  have tag2: "tagged w2 e {c}" using take(6) x by (simp add: tagged_def w2)
  consider "st = SVGA_CB_STATUS_COMMAND_ERROR" | "st = SVGA_CB_STATUS_PREEMPTED"
    | "st \<notin> {SVGA_CB_STATUS_PREEMPTED, SVGA_CB_STATUS_COMMAND_ERROR}" by blast
  then show ?thesis
  proof cases
    case 1
    define w3 where "w3 = w2\<lparr>cman := (cman w2)\<lparr>cm_error := cm_error (cman w2) @ [e], cm_work := True\<rparr>\<rparr>"
    have "tagged w2 h {..<num_contexts (cman w2)}" if "h \<in> set (cm_error (cman w2) @ [e])" for h
      using that cb_invD(3) [OF inv2(1)] tag2 c by (auto simp: tags_def tagged_def same same2)
    then have "cb_inv M w3" unfolding w3_def by (intro cb_inv_error [OF inv2(1)]) simp_all
    moreover have "frame_c c w2 w3" by (simp add: frame_c_def w3_def static_def)
    then have "frame_c c w w3" using take(5) inv2(2) by (blast intro: frame_c_trans)
    moreover have "finish_entry c e st w = Inr w3"
      by (simp add: finish_entry_def 1 w1_def [symmetric] w2_def [symmetric] w3_def Let_def)
    ultimately show ?thesis using 1 take same same2 by (intro exI [of _ w3]) (auto simp: w3_def)
  next
    case 2
    define w3 where "w3 = upd_ctx c (\<lambda>y. y\<lparr>preempted := preempted y @ [e]\<rparr>) w2"
    have c2: "c < num_contexts (cman w2)" using c by (simp add: same same2)
    have q: "queued w3 c = (preempted (ctx w2 c) @ [e]) @ hw_submitted (ctx w2 c) @ submitted (ctx w2 c)" by (simp add: queued_def w3_def)
    have "cb_inv M w3" unfolding w3_def
    proof (rule cb_inv_upd_ctx [OF inv2(1) c2])
      show "tagged w2 h {c}" if "h \<in> set (queued (upd_ctx c (\<lambda>y. y\<lparr>preempted := preempted y @ [e]\<rparr>) w2) c)" for h
        using that cb_invD(3) [OF inv2(1)] tag2 c2 unfolding q [unfolded w3_def] by (auto simp: tags_def queued_def)
    qed (use cb_invD(2) [OF inv2(1)] c2 q [unfolded w3_def] in \<open>simp_all add: counts_def queued_def\<close>)
    moreover have "frame_c c w2 w3" unfolding w3_def by (rule upd_ctx_frame) simp
    then have "frame_c c w w3" using take(5) inv2(2) by (blast intro: frame_c_trans)
    moreover have "finish_entry c e st w = Inr w3"
      by (simp add: finish_entry_def 2 w1_def [symmetric] w2_def [symmetric] w3_def Let_def)
    ultimately show ?thesis using 2 take same same2 by (intro exI [of _ w3]) (auto simp: w3_def upd_ctx_def)
  next
    case 3
    obtain mm' where fr: "cmdbuf_header_free_locked e w1 = Inr (w1\<lparr>cman := (cman w1)\<lparr>cm_mm := mm'\<rparr>, hdrs := (hdrs w1)(e := None)\<rparr>)"
        "cb_inv M (w1\<lparr>cman := (cman w1)\<lparr>cm_mm := mm'\<rparr>, hdrs := (hdrs w1)(e := None)\<rparr>)" "mm' = None \<longleftrightarrow> cm_mm (cman w1) = None"
      by (rule free_ok [OF take(1)])
    define w3 where "w3 = w1\<lparr>cman := (cman w1)\<lparr>cm_mm := mm'\<rparr>, hdrs := (hdrs w1)(e := None)\<rparr>"
    have "frame_c c w1 w3" by (auto simp: frame_c_def w3_def static_def split: if_splits)
    then have "frame_c c w w3" by (rule frame_c_trans [OF take(5)])
    moreover have "finish_entry c e st w = Inr w3"
      using 3 fr(1) by (cases st) (simp_all add: finish_entry_def w1_def [symmetric] w3_def Let_def)
    ultimately show ?thesis using 3 take same fr(2,3) by (intro exI [of _ w3]) (auto simp: w3_def)
  qed
qed

section \<open>The order of the buffers\<close>

text \<open>
  Between two states of a context: a first part of the buffers that were with the device or waiting for it is
  gone, those that the device preempted are kept in the same order, and the others have kept their order.
\<close>

definition fifo_c :: "nat \<Rightarrow> 'd cb_world \<Rightarrow> 'd cb_world \<Rightarrow> bool" where
  "fifo_c c w w' \<longleftrightarrow> (\<exists>gone pre.
     hw_submitted (ctx w c) @ submitted (ctx w c) = gone @ hw_submitted (ctx w' c) @ submitted (ctx w' c) \<and>
     preempted (ctx w' c) = preempted (ctx w c) @ pre \<and> subseq pre gone)"

definition shrinks :: "'d cb_world \<Rightarrow> 'd cb_world \<Rightarrow> bool" where
  "shrinks w w' \<longleftrightarrow> (\<exists>errs. cm_error (cman w') = cm_error (cman w) @ errs) \<and> dom (hdrs w') \<subseteq> dom (hdrs w) \<and>
     (cm_mm (cman w') = None \<longleftrightarrow> cm_mm (cman w) = None)"

lemma fifo_c_refl [simp]: "fifo_c c w w"
  by (auto simp: fifo_c_def)

lemma fifo_c_trans:
  assumes "fifo_c c w w1" "fifo_c c w1 w2" shows "fifo_c c w w2"
proof -
  obtain g p where 1: "hw_submitted (ctx w c) @ submitted (ctx w c) = g @ hw_submitted (ctx w1 c) @ submitted (ctx w1 c)"
     "preempted (ctx w1 c) = preempted (ctx w c) @ p" "subseq p g" using assms(1) by (auto simp: fifo_c_def)
  obtain g' p' where 2: "hw_submitted (ctx w1 c) @ submitted (ctx w1 c) = g' @ hw_submitted (ctx w2 c) @ submitted (ctx w2 c)"
     "preempted (ctx w2 c) = preempted (ctx w1 c) @ p'" "subseq p' g'" using assms(2) by (auto simp: fifo_c_def)
  show ?thesis unfolding fifo_c_def
    by (rule exI [of _ "g @ g'"], rule exI [of _ "p @ p'"]) (use 1 2 in \<open>simp add: list_emb_append_mono\<close>)
qed

lemma fifo_c_same: "ctx w' c = ctx w c \<Longrightarrow> fifo_c c w w'"
  by (auto simp: fifo_c_def)

lemma shrinks_refl [simp]: "shrinks w w"
  by (simp add: shrinks_def)

lemma shrinks_trans: "shrinks w w1 \<Longrightarrow> shrinks w1 w2 \<Longrightarrow> shrinks w w2"
  unfolding shrinks_def by (metis append.assoc subset_trans)

lemma frame_num: "frame_c c w w' \<Longrightarrow> num_contexts (cman w') = num_contexts (cman w)"
  by (auto simp: frame_c_def dest: static_eqD)

lemma finish_loop_ok:
  assumes "cb_inv M w" "c < num_contexts (cman w)" "hw_submitted (ctx w c) = es"
  shows "\<exists>w'. ctx_finish_loop dv c es w = Inr w' \<and> cb_inv M w' \<and> frame_c c w w' \<and> fifo_c c w w' \<and> shrinks w w' \<and>
     submitted (ctx w' c) = submitted (ctx w c)"
  using assms
proof (induction es arbitrary: w)
  case Nil
  then show ?case by simp
next
  case (Cons e es)
  have "e \<in> set (queued w c)" using Cons.prems(3) by (simp add: queued_def)
  then obtain x where x: "hdrs w e = Some x" using queued_alive [OF Cons.prems(1,2)] by blast
  obtain cb d where s: "read_status dv e w = Inr (w\<lparr>hdrs := (hdrs w)(e \<mapsto> x\<lparr>cb_header := cb\<rparr>), cb_env := d\<rparr>, cb_status cb)"
      "core_hdr (x\<lparr>cb_header := cb\<rparr>) = core_hdr x" by (rule read_status_ok [OF x])
  define w1 where "w1 = w\<lparr>hdrs := (hdrs w)(e \<mapsto> x\<lparr>cb_header := cb\<rparr>), cb_env := d\<rparr>"
  have w1: "cb_inv M w1" "frame_c c w w1"
    using cb_inv_core [OF Cons.prems(1) x s(2), where dv = "cb_dev w" and d = d] by (simp_all add: w1_def)
  have same: "cman w1 = cman w" "dom (hdrs w1) = dom (hdrs w)" using x by (auto simp: w1_def split: if_splits)
  then have f1: "fifo_c c w w1" "shrinks w w1" by (auto simp: fifo_c_def shrinks_def)
  show ?case
  proof (cases "cb_status cb = SVGA_CB_STATUS_NONE")
    case True
    then have "ctx_finish_loop dv c (e # es) w = Inr w1" using s(1) by (simp add: w1_def)
    moreover have "submitted (ctx w1 c) = submitted (ctx w c)" by (simp add: same(1))
    ultimately show ?thesis using w1 f1 by blast
  next
    case False
    obtain w2 where w2: "finish_entry c e (cb_status cb) w1 = Inr w2" "cb_inv M w2" "frame_c c w1 w2" "hw_submitted (ctx w2 c) = es"
        "submitted (ctx w2 c) = submitted (ctx w1 c)"
        "preempted (ctx w2 c) = preempted (ctx w1 c) @ (if cb_status cb = SVGA_CB_STATUS_PREEMPTED then [e] else [])"
        "cm_error (cman w2) = cm_error (cman w1) @ (if cb_status cb = SVGA_CB_STATUS_COMMAND_ERROR then [e] else [])"
        "dom (hdrs w2) - {e} = dom (hdrs w1) - {e}" "cm_mm (cman w2) = None \<longleftrightarrow> cm_mm (cman w1) = None"
      using finish_entry_ok [OF w1(1), of c e es "cb_status cb"] Cons.prems(2,3) same(1) by auto
    have f2: "fifo_c c w1 w2" "shrinks w1 w2"
    proof -
      show "fifo_c c w1 w2" unfolding fifo_c_def
        by (rule exI [of _ "[e]"], rule exI [of _ "if cb_status cb = SVGA_CB_STATUS_PREEMPTED then [e] else []"])
          (use w2 Cons.prems(3) same(1) in simp)
      have "e \<in> dom (hdrs w1)" using x same(2) by auto
      then have "dom (hdrs w2) \<subseteq> dom (hdrs w1)" using w2(8) by auto
      then show "shrinks w1 w2" using w2(7,9) by (auto simp: shrinks_def)
    qed
    have "c < num_contexts (cman w2)" using Cons.prems(2) frame_num [OF w1(2)] frame_num [OF w2(3)] by simp
    from Cons.IH [OF w2(2) this w2(4)] obtain w' where ih: "ctx_finish_loop dv c es w2 = Inr w'" "cb_inv M w'" "frame_c c w2 w'"
      "fifo_c c w2 w'" "shrinks w2 w'" "submitted (ctx w' c) = submitted (ctx w2 c)" by blast
    have "ctx_finish_loop dv c (e # es) w = Inr w'" using s(1) False w2(1) ih(1) by (simp add: w1_def [symmetric])
    moreover have "submitted (ctx w' c) = submitted (ctx w c)" using ih(6) w2(5) same(1) by simp
    moreover have "frame_c c w w'" by (rule frame_c_trans [OF w1(2) frame_c_trans [OF w2(3) ih(3)]])
    ultimately show ?thesis using ih(2,4,5) f1 f2
      by (intro exI [of _ w'] conjI) (blast intro: fifo_c_trans shrinks_trans)+
  qed
qed

lemma ctx_submit_ok:
  assumes "cb_inv M w" "c < num_contexts (cman w)"
  shows "\<exists>w'. vmw_cmdbuf_ctx_submit dv c w = Inr w' \<and> cb_inv M w' \<and> frame_c c w w' \<and> fifo_c c w w' \<and> shrinks w w'"
proof -
  obtain w' k where s: "ctx_submit_loop dv c (submitted (ctx w c)) w = Inr w'" "cb_inv M w'" "frame_c c w w'"
      "hw_submitted (ctx w' c) = hw_submitted (ctx w c) @ take k (submitted (ctx w c))" "submitted (ctx w' c) = drop k (submitted (ctx w c))"
      "preempted (ctx w' c) = preempted (ctx w c)" "cm_error (cman w') = cm_error (cman w)" "dom (hdrs w') = dom (hdrs w)" "cm_mm (cman w') = cm_mm (cman w)"
    using submit_loop_ok [OF assms refl, of dv] by blast
  have "fifo_c c w w'" unfolding fifo_c_def by (rule exI [of _ "[]"], rule exI [of _ "[]"]) (simp add: s)
  with s show ?thesis by (auto simp: vmw_cmdbuf_ctx_submit_def shrinks_def)
qed

lemma ctx_process_ok:
  assumes inv: "cb_inv M w" and c: "c < num_contexts (cman w)"
  shows "\<exists>w' n. vmw_cmdbuf_ctx_process dv c w = Inr (w', n) \<and> cb_inv M w' \<and> frame_c c w w' \<and> fifo_c c w w' \<and> shrinks w w' \<and>
     n = (if submitted (ctx w' c) = [] then 0 else 1)"
proof -
  obtain w1 where w1: "vmw_cmdbuf_ctx_submit dv c w = Inr w1" "cb_inv M w1" "frame_c c w w1" "fifo_c c w w1" "shrinks w w1"
    using ctx_submit_ok [OF assms] by blast
  have c1: "c < num_contexts (cman w1)" using c frame_num [OF w1(3)] by simp
  obtain w2 where w2: "ctx_finish_loop dv c (hw_submitted (ctx w1 c)) w1 = Inr w2" "cb_inv M w2" "frame_c c w1 w2" "fifo_c c w1 w2" "shrinks w1 w2"
    using finish_loop_ok [OF w1(2) c1 refl] by blast
  have c2: "c < num_contexts (cman w2)" using c1 frame_num [OF w2(3)] by simp
  obtain w3 where w3: "vmw_cmdbuf_ctx_submit dv c w2 = Inr w3" "cb_inv M w3" "frame_c c w2 w3" "fifo_c c w2 w3" "shrinks w2 w3"
    using ctx_submit_ok [OF w2(2) c2] by blast
  have "frame_c c w w3" "fifo_c c w w3" "shrinks w w3"
    using w1(3-) w2(3-) w3(3-) by (blast intro: frame_c_trans fifo_c_trans shrinks_trans)+
  moreover have "vmw_cmdbuf_ctx_process dv c w = Inr (w3, if submitted (ctx w3 c) = [] then 0 else 1)"
    using w1(1) w2(1) w3(1) by (simp add: vmw_cmdbuf_ctx_process_def)
  ultimately show ?thesis using w3(2) by blast
qed

text \<open>The same for all contexts at once; only the interrupt source may be switched.\<close>

definition frame_g :: "'d cb_world \<Rightarrow> 'd cb_world \<Rightarrow> bool" where
  "frame_g w w' \<longleftrightarrow> (static (cman w'))\<lparr>irq_on := False\<rparr> = (static (cman w))\<lparr>irq_on := False\<rparr> \<and> kmem w' = kmem w \<and>
     (dev_core (cb_dev w'))\<lparr>cmdbuf_waiters := 0\<rparr> = (dev_core (cb_dev w))\<lparr>cmdbuf_waiters := 0\<rparr> \<and>
     cmdbuf_waiters (cb_dev w') - of_bool (irq_on (cman w')) = cmdbuf_waiters (cb_dev w) - of_bool (irq_on (cman w)) \<and>
     (\<forall>c. block_submission (ctx w' c) = block_submission (ctx w c)) \<and>
     (\<forall>h x'. hdrs w' h = Some x' \<longrightarrow> (\<exists>x. hdrs w h = Some x \<and> core_hdr x' = core_hdr x))"

definition fifo_g :: "'d cb_world \<Rightarrow> 'd cb_world \<Rightarrow> bool" where
  "fifo_g w w' \<longleftrightarrow> (\<forall>c. fifo_c c w w') \<and> shrinks w w'"

lemma frame_g_refl [simp]: "frame_g w w" by (simp add: frame_g_def)

lemma fifo_g_refl [simp]: "fifo_g w w" by (simp add: fifo_g_def)

lemma frame_g_trans [trans]: "frame_g w w1 \<Longrightarrow> frame_g w1 w2 \<Longrightarrow> frame_g w w2"
  unfolding frame_g_def by (metis (no_types, lifting))

lemma fifo_g_trans [trans]: "fifo_g w w1 \<Longrightarrow> fifo_g w1 w2 \<Longrightarrow> fifo_g w w2"
  unfolding fifo_g_def by (blast intro: fifo_c_trans shrinks_trans)

lemma dev_core_waiters: "dev_core d' = dev_core d \<Longrightarrow> cmdbuf_waiters d' = cmdbuf_waiters d"
  by (cases d; cases d') (simp add: dev_core_def)

lemma frame_c_g:
  assumes "frame_c c w w'" shows "frame_g w w'"
proof -
  have f: "static (cman w') = static (cman w)" "dev_core (cb_dev w') = dev_core (cb_dev w)" "kmem w' = kmem w"
      "\<forall>d. d \<noteq> c \<longrightarrow> ctx w' d = ctx w d" "block_submission (ctx w' c) = block_submission (ctx w c)"
      "\<forall>h x'. hdrs w' h = Some x' \<longrightarrow> (\<exists>x. hdrs w h = Some x \<and> core_hdr x' = core_hdr x)"
    using assms by (simp_all add: frame_c_def)
  have "block_submission (ctx w' d) = block_submission (ctx w d)" for d using f(4,5) by (cases "d = c") simp_all
  then show ?thesis
    using f(1,2,3,6) dev_core_waiters [OF f(2)] static_eqD(5) [OF f(1)] by (simp add: frame_g_def)
qed

lemma frame_gD:
  assumes "frame_g w w'"
  shows "cm_cur (cman w') = cm_cur (cman w)" "cur_pos (cman w') = cur_pos (cman w)" "default_size (cman w') = default_size (cman w)"
    "max_hw_submitted (cman w') = max_hw_submitted (cman w)" "using_mob (cman w') = using_mob (cman w)"
    "has_pool (cman w') = has_pool (cman w)" "cm_map (cman w') = cm_map (cman w)" "cm_mobid (cman w') = cm_mobid (cman w)"
    "cm_handle (cman w') = cm_handle (cman w)" "cm_size (cman w') = cm_size (cman w)" "num_contexts (cman w') = num_contexts (cman w)"
    "cur_mutex (cman w') = cur_mutex (cman w)"
proof -
  have e: "(static (cman w'))\<lparr>irq_on := False\<rparr> = (static (cman w))\<lparr>irq_on := False\<rparr>" using assms by (simp add: frame_g_def)
  show "cm_cur (cman w') = cm_cur (cman w)" "cur_pos (cman w') = cur_pos (cman w)" "default_size (cman w') = default_size (cman w)"
    "max_hw_submitted (cman w') = max_hw_submitted (cman w)" "using_mob (cman w') = using_mob (cman w)"
    "has_pool (cman w') = has_pool (cman w)" "cm_map (cman w') = cm_map (cman w)" "cm_mobid (cman w') = cm_mobid (cman w)"
    "cm_handle (cman w') = cm_handle (cman w)" "cm_size (cman w') = cm_size (cman w)" "num_contexts (cman w') = num_contexts (cman w)"
    "cur_mutex (cman w') = cur_mutex (cman w)"
    using e by (cases "cman w"; cases "cman w'"; simp add: static_def)+
qed

lemma process_contexts_ok:
  assumes "cb_inv M w" "\<forall>c\<in>set cs. c < num_contexts (cman w)" "distinct cs"
  shows "\<exists>w' k'. process_contexts dv cs w k = Inr (w', k') \<and> cb_inv M w' \<and> frame_g w w' \<and> irq_on (cman w') = irq_on (cman w) \<and>
     fifo_g w w' \<and> k \<le> k' \<and> (k' = k \<longleftrightarrow> (\<forall>c\<in>set cs. submitted (ctx w' c) = [])) \<and> (\<forall>c. c \<notin> set cs \<longrightarrow> ctx w' c = ctx w c)"
  using assms
proof (induction cs arbitrary: w k)
  case Nil
  then show ?case by simp
next
  case (Cons c cs)
  obtain w1 n where w1: "vmw_cmdbuf_ctx_process dv c w = Inr (w1, n)" "cb_inv M w1" "frame_c c w w1" "fifo_c c w w1" "shrinks w w1"
      "n = (if submitted (ctx w1 c) = [] then 0 else 1)"
    using ctx_process_ok [OF Cons.prems(1), of c dv] Cons.prems(2) by auto
  have others: "ctx w1 d = ctx w d" if "d \<noteq> c" for d using w1(3) that by (simp add: frame_c_def)
  have "fifo_c d w w1" for d
  proof (cases "d = c")
    case True
    show ?thesis unfolding True by (rule w1(4))
  next
    case False
    show ?thesis by (rule fifo_c_same [OF others [OF False]])
  qed
  then have f1: "fifo_g w w1" using w1(5) by (simp add: fifo_g_def)
  have "\<forall>c\<in>set cs. c < num_contexts (cman w1)" using Cons.prems(2) frame_num [OF w1(3)] by simp
  from Cons.IH [OF w1(2) this, of "k + n"] Cons.prems(3) obtain w' k' where ih: "process_contexts dv cs w1 (k + n) = Inr (w', k')" "cb_inv M w'"
      "frame_g w1 w'" "irq_on (cman w') = irq_on (cman w1)" "fifo_g w1 w'" "k + n \<le> k'"
      "k' = k + n \<longleftrightarrow> (\<forall>c\<in>set cs. submitted (ctx w' c) = [])" "\<forall>c. c \<notin> set cs \<longrightarrow> ctx w' c = ctx w1 c" by auto
  have "irq_on (cman w1) = irq_on (cman w)" using w1(3) by (auto simp: frame_c_def dest: static_eqD)
  moreover have "k' = k \<longleftrightarrow> (\<forall>d\<in>set (c # cs). submitted (ctx w' d) = [])"
    using ih(6,7,8) w1(6) Cons.prems(3) by (auto split: if_splits)
  moreover have "\<forall>d. d \<notin> set (c # cs) \<longrightarrow> ctx w' d = ctx w d" using ih(8) others by simp
  ultimately show ?case
    using w1(1) ih frame_g_trans [OF frame_c_g [OF w1(3)] ih(3)] fifo_g_trans [OF f1 ih(5)]
    by (intro exI [of _ w'] exI [of _ k']) simp
qed

lemma waiter_core:
  "(dev_core (cmdbuf_waiter_add dev))\<lparr>cmdbuf_waiters := 0\<rparr> = (dev_core dev)\<lparr>cmdbuf_waiters := 0\<rparr>"
  "(dev_core (cmdbuf_waiter_remove dev))\<lparr>cmdbuf_waiters := 0\<rparr> = (dev_core dev)\<lparr>cmdbuf_waiters := 0\<rparr>"
  "cmdbuf_waiters (cmdbuf_waiter_add dev) = cmdbuf_waiters dev + 1"
  "cmdbuf_waiters (cmdbuf_waiter_remove dev) = cmdbuf_waiters dev - 1"
  by (simp_all add: vmw_generic_waiter_add_def vmw_generic_waiter_remove_def dev_core_def vmw_write_def Let_def)

lemma cb_inv_irq: "cb_inv M w \<Longrightarrow> cb_inv M (w\<lparr>cb_dev := d, cman := (cman w)\<lparr>irq_on := b\<rparr>\<rparr>)"
  by (erule cb_inv_man) simp_all

lemma man_process_ok:
  assumes "cb_inv M w"
  shows "\<exists>w'. vmw_cmdbuf_man_process dv w = Inr w' \<and> cb_inv M w' \<and> frame_g w w' \<and> fifo_g w w' \<and>
     (irq_on (cman w') \<longleftrightarrow> (\<exists>c<num_contexts (cman w'). submitted (ctx w' c) \<noteq> []))"
  using assms
proof (induction dv w rule: vmw_cmdbuf_man_process.induct)
  case (1 dv w)
  obtain w1 k where w1: "process_contexts dv [0..<num_contexts (cman w)] w 0 = Inr (w1, k)" "cb_inv M w1" "frame_g w w1"
      "irq_on (cman w1) = irq_on (cman w)" "fifo_g w w1" "k = 0 \<longleftrightarrow> (\<forall>c\<in>{0..<num_contexts (cman w)}. submitted (ctx w1 c) = [])"
    using process_contexts_ok [OF 1(2), of "[0..<num_contexts (cman w)]" dv 0] by auto
  have n: "num_contexts (cman w1) = num_contexts (cman w)" using frame_gD(11) [OF w1(3)] .
  have k: "k = 0 \<longleftrightarrow> \<not> (\<exists>c<num_contexts (cman w1). submitted (ctx w1 c) \<noteq> [])" using w1(6) n by auto
  let ?off = "w1\<lparr>cb_dev := cmdbuf_waiter_remove (cb_dev w1), cman := (cman w1)\<lparr>irq_on := False\<rparr>\<rparr>"
  let ?on = "w1\<lparr>cb_dev := cmdbuf_waiter_add (cb_dev w1), cman := (cman w1)\<lparr>irq_on := True\<rparr>\<rparr>"
  have fi: "fifo_g w1 ?off" "fifo_g w1 ?on" by (simp_all add: fifo_g_def fifo_c_same shrinks_def)
  note step = vmw_cmdbuf_man_process.simps [of dv w, unfolded w1(1) kbind.simps prod.case]
  consider (off) "irq_on (cman w1)" "k = 0" | (on) "\<not> irq_on (cman w1)" "k \<noteq> 0" | (same) "irq_on (cman w1) \<longleftrightarrow> k \<noteq> 0" by blast
  then show ?case
  proof cases
    case off
    have "frame_g w1 ?off" using off by (simp add: frame_g_def waiter_core static_def)
    moreover have "\<not> (\<exists>c<num_contexts (cman ?off). submitted (ctx ?off c) \<noteq> [])" using k off by simp
    ultimately show ?thesis using off cb_inv_irq [OF w1(2)] fi(1) w1(3,5)
      by (intro exI [of _ ?off]) (auto simp: step intro: frame_g_trans fifo_g_trans)
  next
    case on
    have fr: "frame_g w1 ?on" using on by (simp add: frame_g_def waiter_core static_def)
    obtain w' where "vmw_cmdbuf_man_process dv ?on = Inr w'" "cb_inv M w'" "frame_g ?on w'" "fifo_g ?on w'"
        "irq_on (cman w') \<longleftrightarrow> (\<exists>c<num_contexts (cman w'). submitted (ctx w' c) \<noteq> [])"
      using 1(1) [OF w1(1) refl _ _ cb_inv_irq [OF w1(2)]] on by auto
    then show ?thesis using on fr fi(2) w1(3,5)
      by (intro exI [of _ w']) (auto simp: step intro: frame_g_trans fifo_g_trans)
  next
    case same
    then show ?thesis using w1(2,3,5) k by (intro exI [of _ w1]) (auto simp: step)
  qed
qed

section \<open>Allocation\<close>

lemma cb_inv_new_hdr:
  assumes inv: "cb_inv_p P M w" and n: "hdrs w n = None" "n \<noteq> 0" and P: "P = (if inline_space x then {} else {n})"
  shows "cb_inv (add_mset n M) (w\<lparr>hdrs := (hdrs w)(n \<mapsto> x)\<rparr>)" (is "cb_inv _ ?w")
proof -
  have q: "queued ?w = queued w" "bufs ?w = bufs w" by (simp_all add: queued_def bufs_def fun_eq_iff)
  have d: "finite (dom (hdrs w))" "bufs w + M = mset_set (dom (hdrs w))" using inv by (simp_all add: cb_inv_p_def own_def)
  have "n \<notin> dom (hdrs w)" using n(1) by auto
  with d have "own (add_mset n M) ?w" by (simp add: own_def q)
  moreover have fresh: "n \<notin># bufs w" using n(1) d by (metis UnCI domIff finite_set_mset_mset_set set_mset_union)
  have "tags ?w"
  proof -
    have "h \<noteq> n" if "h \<in> set (cm_error (cman w)) \<or> (\<exists>c<num_contexts (cman w). h \<in> set (queued w c))" for h
    proof -
      have "h \<in># bufs w" using that queued_in_bufs by (auto simp: bufs_def)
      with fresh show ?thesis by auto
    qed
    then show ?thesis using inv by (auto simp: cb_inv_p_def tags_def tagged_def q)
  qed
  moreover have nodes: "pool_nodes ?w = pool_nodes w \<union> P" using P n(1) by (auto simp: pool_nodes_def)
  have "pool_ok {} ?w" using inv n nodes by (auto simp: cb_inv_p_def pool_ok_def split: option.splits)
  ultimately show ?thesis using inv by (simp add: cb_inv_p_def cb_inv_def counts_def)
qed

lemma unat_drop12: "unat (drop_bit 12 (a :: u64)) < 2 ^ 52"
proof -
  have "unat a < 2 ^ 64" using unsigned_less [of a] by simp
  then have "unat a div 4096 < 2 ^ 52" by (simp add: less_mult_imp_div_less)
  then show ?thesis by (simp add: unat_drop_bit_div)
qed

definition no_room :: "u64 \<Rightarrow> 'd cb_world \<Rightarrow> bool" where
  "no_room page_size w \<longleftrightarrow> (\<forall>mm. cm_mm (cman w) = Some mm \<longrightarrow>
     \<not> (\<exists>x. free_place 0 (drop_bit 12 (cm_size (cman w))) mm None page_size 0 x))"

definition placed :: "nat \<Rightarrow> u64 \<Rightarrow> 'd cb_world \<Rightarrow> bool" where
  \<comment> \<open>the node is in the pool, inside it, and clear of the buffers that are there\<close>
  "placed n page_size w \<longleftrightarrow> (\<exists>mm. cm_mm (cman w) = Some mm \<and> n \<in> set (node_list mm) \<and> node_size (node_of mm n) = page_size \<and>
     unat (node_start (node_of mm n)) + unat page_size \<le> unat (drop_bit 12 (cm_size (cman w))))"

lemma pool_insert_ok:
  assumes inv: "cb_inv M w" and mm: "cm_mm (cman w) = Some mm" and n: "hdrs w n = None" "n \<noteq> 0" and sz: "0 < unat page_size" "unat page_size < 2 ^ 52"
  defines "w1 \<equiv> \<lambda>mm'. upd_man_rec (\<lambda>m. m\<lparr>cm_mm := Some mm'\<rparr>) w"
  shows "case pool_insert page_size n mm of Inr mm' \<Rightarrow> cb_inv_p {n} M (w1 mm') \<and> placed n page_size (w1 mm')
    | Inl e \<Rightarrow> e = ENOSPC \<and> no_room page_size w"
proof -
  let ?hi = "drop_bit 12 (cm_size (cman w))"
  have ok: "mm_ok 0 ?hi mm" "set (node_list mm) = pool_nodes w" using cb_invD(4) [OF inv] mm by (simp_all add: pool_ok_def)
  have "n \<notin> pool_nodes w" using n(1) by (simp add: pool_nodes_def)
  then have na: "\<not> allocated (node_of mm n)" using mm_okD(6) [OF ok(1), of n] ok(2) n(2) by simp
  have small: "mm_small ?hi None page_size" using unat_drop12 [of "cm_size (cman w)"] sz(2) by simp
  have eq: "pool_insert page_size n mm = mm_insert mm None n page_size 0 0 (False, False) False"
    by (simp add: pool_insert_def mm_insert_def)
  note spec = mm_insert_complete_raw [OF ok(1) small n(2) na sz(1), of 0 0 "(False, False)" False, folded eq]
  show ?thesis
  proof (cases "pool_insert page_size n mm")
    case (Inl e)
    then show ?thesis using spec mm by (simp add: no_room_def)
  next
    case (Inr mm')
    have q: "queued (w1 mm') = queued w" "pool_nodes (w1 mm') = pool_nodes w" by (simp_all add: queued_def pool_nodes_def w1_def fun_eq_iff)
    have "pool_ok {n} (w1 mm')"
      using spec Inr ok cb_invD(4) [OF inv] \<open>n \<notin> pool_nodes w\<close> unfolding pool_ok_def q by (simp add: w1_def)
    moreover have "placed n page_size (w1 mm')"
      using spec Inr by (auto simp: placed_def w1_def free_place_def)
    ultimately show ?thesis
      using inv Inr by (simp add: cb_inv_p_def cb_inv_def own_def bufs_def counts_def tags_def tagged_def q) (simp add: w1_def)
  qed
qed

lemma try_alloc_ok:
  assumes inv: "cb_inv M w" and mm: "cm_mm (cman w) \<noteq> None" and n: "hdrs w n = None" "n \<noteq> 0" and sz: "0 < unat page_size" "unat page_size < 2 ^ 52"
  shows "\<exists>w' b. vmw_cmdbuf_try_alloc dv n page_size w = Inr (w', b) \<and> frame_g w w' \<and> hdrs w' n = None \<and> cm_mm (cman w') \<noteq> None \<and>
    (if b then cb_inv_p {n} M w' \<and> placed n page_size w' else cb_inv M w' \<and> no_room page_size w')"
proof -
  obtain mm where mm: "cm_mm (cman w) = Some mm" using mm by blast
  define mm0 where "mm0 = upd_node n (\<lambda>_. clear_node) mm"
  define w0 where "w0 = upd_man_rec (\<lambda>m. m\<lparr>cm_mm := Some mm0\<rparr>) w"
  have okm: "mm_ok 0 (drop_bit 12 (cm_size (cman w))) mm" "set (node_list mm) = pool_nodes w" using cb_invD(4) [OF inv] mm by (simp_all add: pool_ok_def)
  have na: "\<not> allocated (node_of mm n)" using mm_okD(6) [OF okm(1), of n] okm(2) n by (auto simp: pool_nodes_def)
  have ok0: "mm_ok 0 (drop_bit 12 (cm_size (cman w))) mm0" unfolding mm0_def
    by (rule upd_node_ok [OF okm(1) n(2) na]) (simp_all add: clear_node_def unscanned_def)
  have inv0: "cb_inv M w0"
  proof -
    have q: "queued w0 = queued w" "pool_nodes w0 = pool_nodes w" by (simp_all add: queued_def pool_nodes_def w0_def fun_eq_iff)
    have "pool_ok {} w0" using ok0 okm cb_invD(4) [OF inv] unfolding pool_ok_def q by (simp add: w0_def mm0_def upd_node_def)
    then show ?thesis using inv by (simp add: cb_inv_def own_def bufs_def counts_def tags_def tagged_def q) (simp add: w0_def)
  qed
  have fr0: "frame_g w (w\<lparr>cman := (cman w)\<lparr>cm_mm := x\<rparr>\<rparr>)" for w :: "'a cb_world" and x by (simp add: frame_g_def static_def)
  have h0: "hdrs w0 n = None" "cm_mm (cman w0) = Some mm0" using n by (simp_all add: w0_def)
  note ins0 = pool_insert_ok [OF inv0 h0(2,1) n(2) sz]
  show ?thesis
  proof (cases "pool_insert page_size n mm0")
    case (Inr mm1)
    let ?w1 = "upd_man_rec (\<lambda>m. m\<lparr>cm_mm := Some mm1\<rparr>) w"
    have "vmw_cmdbuf_try_alloc dv n page_size w = Inr (?w1, True)"
      using mm Inr by (simp add: vmw_cmdbuf_try_alloc_def mm0_def [symmetric])
    moreover have "cb_inv_p {n} M ?w1 \<and> placed n page_size ?w1" using ins0 Inr by (simp add: w0_def)
    ultimately show ?thesis using fr0 n(1) by (intro exI [of _ ?w1] exI [of _ True]) simp
  next
    case (Inl e)
    obtain w1 where w1: "vmw_cmdbuf_man_process dv w0 = Inr w1" "cb_inv M w1" "frame_g w0 w1" "fifo_g w0 w1"
      using man_process_ok [OF inv0] by blast
    have "dom (hdrs w1) \<subseteq> dom (hdrs w0)" using w1(4) by (simp add: fifo_g_def shrinks_def)
    then have n1: "hdrs w1 n = None" using h0(1) by auto
    have fr1: "frame_g w w1" using frame_g_trans [OF fr0 w1(3) [unfolded w0_def]] .
    have eq: "vmw_cmdbuf_try_alloc dv n page_size w = (case cm_mm (cman w1) of None \<Rightarrow> Inl OOPS
        | Some mm1 \<Rightarrow> (case pool_insert page_size n mm1 of
            Inr mm2 \<Rightarrow> Inr (upd_man_rec (\<lambda>m. m\<lparr>cm_mm := Some mm2\<rparr>) w1, True)
          | Inl e \<Rightarrow> if e = OOPS then Inl OOPS else Inr (w1, False)))"
      using mm Inl ins0 w1(1) by (simp add: vmw_cmdbuf_try_alloc_def mm0_def [symmetric] w0_def [symmetric])
    obtain mm1 where mm1: "cm_mm (cman w1) = Some mm1" using w1(4) h0(2) by (auto simp: fifo_g_def shrinks_def)
    note ins1 = pool_insert_ok [OF w1(2) mm1 n1 n(2) sz]
    show ?thesis
    proof (cases "pool_insert page_size n mm1")
      case Inl': (Inl e)
      then show ?thesis using ins1 eq mm1 fr1 w1(2) n1 by (intro exI [of _ w1] exI [of _ False]) simp
    next
      case (Inr mm2)
      let ?w2 = "upd_man_rec (\<lambda>m. m\<lparr>cm_mm := Some mm2\<rparr>) w1"
      show ?thesis using ins1 eq mm1 Inr frame_g_trans [OF fr1 fr0] n1
        by (intro exI [of _ ?w2] exI [of _ True]) simp
    qed
  qed
qed

text \<open>While a thread waits for space, the interrupt thread processes the queues; no one else gets or frees buffers.\<close>

definition quiet :: "('d cb_world \<Rightarrow> 'd cb_world) \<Rightarrow> bool" where
  "quiet f \<longleftrightarrow> (\<forall>M w. cb_inv M w \<longrightarrow> cb_inv M (f w) \<and> frame_g w (f w) \<and> shrinks w (f w))"

abbreviation quiet_wakes :: "'d wake list \<Rightarrow> bool" where
  "quiet_wakes evs \<equiv> \<forall>f. Activity f \<in> set evs \<longrightarrow> quiet f"

definition irq_activity :: "'d cb_device \<Rightarrow> ('d \<Rightarrow> 'd) \<Rightarrow> 'd cb_world \<Rightarrow> 'd cb_world" where
  \<comment> \<open>the device makes progress and the interrupt thread runs\<close>
  "irq_activity dv g w = (case vmw_cmdbuf_irqthread dv (w\<lparr>cb_env := g (cb_env w)\<rparr>) of Inr w' \<Rightarrow> w' | Inl _ \<Rightarrow> w)"

lemma quiet_irq: "quiet (irq_activity dv g)"
  unfolding quiet_def
proof (intro allI impI)
  fix M and w :: "'a cb_world" assume "cb_inv M w"
  then have "cb_inv M (w\<lparr>cb_env := g (cb_env w)\<rparr>)" by (rule cb_inv_man) simp_all
  from man_process_ok [OF this, of dv] obtain w' where "vmw_cmdbuf_man_process dv (w\<lparr>cb_env := g (cb_env w)\<rparr>) = Inr w'" "cb_inv M w'"
      "frame_g (w\<lparr>cb_env := g (cb_env w)\<rparr>) w'" "fifo_g (w\<lparr>cb_env := g (cb_env w)\<rparr>) w'" by blast
  then show "cb_inv M (irq_activity dv g w) \<and> frame_g w (irq_activity dv g w) \<and> shrinks w (irq_activity dv g w)"
    by (simp add: irq_activity_def vmw_cmdbuf_irqthread_def frame_g_def fifo_g_def shrinks_def)
qed

definition space_result :: "nat \<Rightarrow> u64 \<Rightarrow> nat multiset \<Rightarrow> 'd cb_world \<Rightarrow> ('d cb_world \<times> unit kres) kres option \<Rightarrow> bool" where
  "space_result n page_size M w r = (case r of None \<Rightarrow> True | Some (Inl e) \<Rightarrow> False
     | Some (Inr (w', ret)) \<Rightarrow> frame_g w w' \<and> hdrs w' n = None \<and> cm_mm (cman w') \<noteq> None \<and>
         (case ret of Inl e \<Rightarrow> cb_inv M w' | Inr _ \<Rightarrow> cb_inv_p {n} M w' \<and> placed n page_size w'))"

lemma space_result_frame: "frame_g w w1 \<Longrightarrow> space_result n page_size M w1 r \<Longrightarrow> space_result n page_size M w r"
  unfolding space_result_def by (auto split: option.splits sum.splits intro: frame_g_trans)

lemma space_result_cases:
  assumes "space_result n page_size M w r"
  shows "r = None \<or> (\<exists>w' e. r = Some (Inr (w', Inl e))) \<or> (\<exists>w' u. r = Some (Inr (w', Inr u)))"
proof (cases r)
  case (Some x)
  obtain w' ret where x: "x = Inr (w', ret)" using assms Some by (cases x) (auto simp: space_result_def)
  show ?thesis using Some x by (cases ret) auto
qed simp

lemma wait_alloc_ok:
  assumes "cb_inv M w" "cm_mm (cman w) \<noteq> None" "hdrs w n = None" "n \<noteq> 0" "0 < unat page_size" "unat page_size < 2 ^ 52" "quiet_wakes evs"
  shows "space_result n page_size M w (wait_alloc dv interruptible n page_size evs w)"
  using assms
proof (induction dv interruptible n page_size evs w rule: wait_alloc.induct)
  case (1 dv interruptible n page_size evs w)
  note IH = 1(1-3)
  obtain w1 b where w1: "vmw_cmdbuf_try_alloc dv n page_size w = Inr (w1, b)" "frame_g w w1" "hdrs w1 n = None" "cm_mm (cman w1) \<noteq> None"
      "if b then cb_inv_p {n} M w1 \<and> placed n page_size w1 else cb_inv M w1 \<and> no_room page_size w1"
    using try_alloc_ok [OF 1(4-9)] by blast
  show ?case
  proof (cases b)
    case True
    then show ?thesis using w1 by (simp add: space_result_def)
  next
    case False
    have inv1: "cb_inv M w1" using w1(5) False by simp
    show ?thesis
    proof (cases evs)
      case Nil
      then show ?thesis using w1(1) False by (simp add: space_result_def)
    next
      case (Cons ev evs')
      show ?thesis
      proof (cases ev)
        case (Activity f)
        have f: "cb_inv M (f w1)" "frame_g w1 (f w1)" "shrinks w1 (f w1)" using 1(10) inv1 Cons Activity by (auto simp: quiet_def)
        have "hdrs (f w1) n = None" "cm_mm (cman (f w1)) \<noteq> None" using f(3) w1(3,4) by (auto simp: shrinks_def)
        then have "space_result n page_size M (f w1) (wait_alloc dv interruptible n page_size evs' (f w1))"
          using IH(1) [OF w1(1) _ _ Cons Activity f(1)] False 1(7-10) Cons by simp
        then show ?thesis using w1(1) False Cons Activity frame_g_trans [OF w1(2) f(2)] by (simp add: space_result_frame)
      next
        case Signal
        then show ?thesis
          using IH(2) [OF w1(1) _ _ Cons Signal _ inv1 w1(4,3)] False 1(7-10) Cons w1 inv1
          by (cases interruptible) (simp_all add: space_result_frame, simp add: space_result_def)
      next
        case Timeout
        then show ?thesis
          using IH(3) [OF w1(1) _ _ Cons Timeout inv1 w1(4,3)] False 1(7-10) Cons w1 by (simp add: space_result_frame)
      qed
    qed
  qed
qed

lemma unat_pages_of:
  assumes "unat sz + 4095 < 2 ^ 64"
  shows "unat (pages_of sz) = (unat sz + 4095) div 4096"
proof -
  have "unat (sz + 4095) = unat sz + 4095" using assms by (subst unat_add_lem [THEN iffD1]) simp_all
  then show ?thesis by (simp add: pages_of_def unat_drop_bit_div unat_page_align)
qed

lemma alloc_space_ok:
  assumes "cb_inv M w" "cm_mm (cman w) \<noteq> None" "hdrs w n = None" "n \<noteq> 0" "unat sz + 4095 < 2 ^ 64" "0 < unat sz" "quiet_wakes (wakes al)"
  shows "space_result n (pages_of sz) M w (vmw_cmdbuf_alloc_space dv al n sz interruptible w)"
proof (cases "interruptible \<and> space_signal al")
  case True
  then show ?thesis using assms by (simp add: vmw_cmdbuf_alloc_space_def space_result_def Let_def)
next
  case False
  have sz: "0 < unat (pages_of sz)" "unat (pages_of sz) < 2 ^ 52"
    using assms(5,6) unat_pages_of [OF assms(5)] unat_drop12 by (simp_all add: pages_of_def)
  obtain w1 b where w1: "vmw_cmdbuf_try_alloc dv n (pages_of sz) w = Inr (w1, b)" "frame_g w w1" "hdrs w1 n = None" "cm_mm (cman w1) \<noteq> None"
      "if b then cb_inv_p {n} M w1 \<and> placed n (pages_of sz) w1 else cb_inv M w1 \<and> no_room (pages_of sz) w1"
    using try_alloc_ok [OF assms(1-4) sz] by blast
  show ?thesis
  proof (cases b)
    case True
    then show ?thesis using w1 False by (auto simp: vmw_cmdbuf_alloc_space_def space_result_def Let_def)
  next
    case nb: False
    let ?w1 = "w1\<lparr>cb_dev := cmdbuf_waiter_add (cb_dev w1)\<rparr>"
    have "cb_inv M ?w1" using w1(5) nb by (auto intro: cb_inv_man)
    from wait_alloc_ok [OF this _ _ assms(4) sz assms(7), of dv interruptible]
    have wait: "space_result n (pages_of sz) M ?w1 (wait_alloc dv interruptible n (pages_of sz) (wakes al) ?w1)" using w1(3,4) by simp
    let ?rm = "\<lambda>w2. w2\<lparr>cb_dev := cmdbuf_waiter_remove (cb_dev w2)\<rparr>"
    have fr: "frame_g w (?rm w2)" if "frame_g ?w1 w2" for w2
      by (rule frame_g_trans [OF w1(2)]) (use that in \<open>simp add: frame_g_def waiter_core\<close>)
    have invr: "cb_inv M w2 \<Longrightarrow> cb_inv M (?rm w2)" "cb_inv_p {n} M w2 \<Longrightarrow> cb_inv_p {n} M (?rm w2)" for w2 :: "'a cb_world" and n
      by (erule cb_inv_man cb_inv_p_man; simp)+
    have eq: "vmw_cmdbuf_alloc_space dv al n sz interruptible w =
        (case wait_alloc dv interruptible n (pages_of sz) (wakes al) ?w1 of None \<Rightarrow> None | Some (Inl e) \<Rightarrow> Some (Inl e)
         | Some (Inr (w2, ret)) \<Rightarrow> Some (Inr (?rm w2, ret)))"
      using w1(1) nb False by (auto simp: vmw_cmdbuf_alloc_space_def Let_def)
    show ?thesis using wait fr invr unfolding eq
      by (auto simp: space_result_def placed_def split: option.splits sum.splits)
  qed
qed

text \<open>A new header, and the space it stands for.\<close>

definition fresh_space :: "u64 \<Rightarrow> nat \<Rightarrow> 'd cb_world \<Rightarrow> bool" where
  "fresh_space sz n w \<longleftrightarrow> (\<exists>x. hdrs w n = Some x \<and> sz \<le> hdr_size x \<and> cb_flags (cb_header x) AND SVGA_CB_FLAG_DX_CONTEXT = 0 \<and>
     cb_status (cb_header x) = SVGA_CB_STATUS_NONE \<and>
     (\<not> inline_space x \<longrightarrow> (\<exists>mm. cm_mm (cman w) = Some mm \<and> hdr_cmd x = cm_map (cman w) + 4096 * unat (node_start (node_of mm n)) \<and>
        hdr_size x = push_bit 12 (node_size (node_of mm n)))))"

definition alloc_result :: "nat multiset \<Rightarrow> u64 \<Rightarrow> 'd cb_world \<Rightarrow> ('d cb_world \<times> nat kres) kres option \<Rightarrow> bool" where
  "alloc_result M sz w r = (case r of None \<Rightarrow> True | Some (Inl e) \<Rightarrow> False
     | Some (Inr (w', Inl e)) \<Rightarrow> cb_inv M w' \<and> frame_g w w' \<and> (has_pool (cman w) \<longrightarrow> cm_mm (cman w') \<noteq> None)
     | Some (Inr (w', Inr n)) \<Rightarrow> cb_inv (add_mset n M) w' \<and> frame_g w (w'\<lparr>hdrs := (hdrs w')(n := None)\<rparr>) \<and> fresh_space sz n w' \<and>
         (has_pool (cman w) \<longrightarrow> cm_mm (cman w') \<noteq> None))"

lemma unat_push12: "unat (p :: u64) < 2 ^ 52 \<Longrightarrow> unat (push_bit 12 p) = unat p * 4096"
  by (subst unat_push_bit) simp_all

lemma node_bounds:
  assumes "placed n page_size w" "cm_mm (cman w) = Some mm"
  shows "unat (node_start (node_of mm n)) < 2 ^ 52" "node_size (node_of mm n) = page_size" "unat page_size < 2 ^ 52"
  using assms unat_drop12 [of "cm_size (cman w)"] by (auto simp: placed_def)

lemma space_pool_ok:
  assumes inv: "cb_inv M w" and mm: "has_pool (cman w) \<Longrightarrow> cm_mm (cman w) \<noteq> None" and n: "hdrs w n = None" "n \<noteq> 0"
    and sz: "unat sz + 4095 < 2 ^ 64" "0 < unat sz" and q: "quiet_wakes (wakes al)"
  shows "case vmw_cmdbuf_space_pool dv al n sz interruptible w of None \<Rightarrow> True | Some (Inl e) \<Rightarrow> False
    | Some (Inr (w', Inl e)) \<Rightarrow> cb_inv M w' \<and> frame_g w w' \<and> (has_pool (cman w) \<longrightarrow> cm_mm (cman w') \<noteq> None)
    | Some (Inr (w', Inr x)) \<Rightarrow> cm_mm (cman w') \<noteq> None \<and> cb_inv_p {n} M w' \<and> frame_g w w' \<and> hdrs w' n = None \<and> \<not> inline_space x \<and>
        fresh_space sz n (w'\<lparr>hdrs := (hdrs w')(n \<mapsto> x)\<rparr>)"
proof (cases "has_pool (cman w)")
  case False
  then show ?thesis using inv by (simp add: vmw_cmdbuf_space_pool_def)
next
  case True
  note res = alloc_space_ok [OF inv mm [OF True] n sz q, of dv interruptible]
  consider (none) "vmw_cmdbuf_alloc_space dv al n sz interruptible w = None"
    | (err) w1 e where "vmw_cmdbuf_alloc_space dv al n sz interruptible w = Some (Inr (w1, Inl e))"
    | (ok) w1 u where "vmw_cmdbuf_alloc_space dv al n sz interruptible w = Some (Inr (w1, Inr u))"
    using space_result_cases [OF res] by (elim disjE exE)
  then show ?thesis
  proof cases
    case none
    then show ?thesis using True by (simp add: vmw_cmdbuf_space_pool_def)
  next
    case err
    then show ?thesis using True res by (simp add: vmw_cmdbuf_space_pool_def space_result_def)
  next
    case ok
    have w1: "frame_g w w1" "hdrs w1 n = None" "cb_inv_p {n} M w1" "placed n (pages_of sz) w1" and "cm_mm (cman w1) \<noteq> None"
      using res ok by (simp_all add: space_result_def)
    then obtain mm1 where mm1: "cm_mm (cman w1) = Some mm1" by blast
    have in_mm: "n \<in> set (node_list mm1)" using w1(4) mm1 by (simp add: placed_def)
    have okm: "mm_ok 0 (drop_bit 12 (cm_size (cman w1))) mm1" "set (node_list mm1) = insert n (pool_nodes w1)" "0 \<notin> dom (hdrs w1)" "n \<notin> pool_nodes w1"
      using w1(3) mm1 by (auto simp: cb_inv_p_def pool_ok_def)
    show ?thesis
    proof (cases "dma_at al")
      case None
      obtain mm2 where mm2: "drm_mm_remove_node mm1 n = Inr mm2" "mm_ok 0 (drop_bit 12 (cm_size (cman w1))) mm2"
          "set (node_list mm2) = set (node_list mm1) - {n}"
        using remove_node_spec [OF okm(1) in_mm] by auto
      let ?w2 = "upd_man_rec (\<lambda>m. m\<lparr>cm_mm := Some mm2\<rparr>) w1"
      have qq: "queued ?w2 = queued w1" "pool_nodes ?w2 = pool_nodes w1" by (simp_all add: queued_def pool_nodes_def fun_eq_iff)
      have "pool_ok {} ?w2" using mm2 okm unfolding pool_ok_def qq by simp
      then have "cb_inv M ?w2" using w1(3) by (simp add: cb_inv_p_def cb_inv_def own_def bufs_def counts_def tags_def tagged_def qq)
      moreover have "frame_g w ?w2" by (rule frame_g_trans [OF w1(1)]) (simp add: frame_g_def static_def)
      ultimately show ?thesis using True ok mm1 None mm2(1) by (simp add: vmw_cmdbuf_space_pool_def)
    next
      case (Some hv)
      obtain handle va where hv: "hv = (handle, va)" by (cases hv)
      note b = node_bounds [OF w1(4) mm1]
      have "unat sz \<le> unat (push_bit 12 (pages_of sz))"
        using b(3) unat_pages_of [OF sz(1)] by (simp add: unat_push12)
      then have "sz \<le> push_bit 12 (pages_of sz)" by (simp add: word_le_nat_alt)
      then show ?thesis using True ok mm1 Some hv w1 b
        by (simp add: vmw_cmdbuf_space_pool_def fresh_space_def zero_cb_def Let_def unat_push12)
    qed
  qed
qed

lemma alloc_ok:
  assumes inv: "cb_inv M w" and mm: "has_pool (cman w) \<Longrightarrow> cm_mm (cman w) \<noteq> None"
    and n: "\<And>n. kzalloc_at al = Some n \<Longrightarrow> hdrs w n = None \<and> n \<noteq> 0"
    and sz: "unat sz + 4095 < 2 ^ 64" and q: "quiet_wakes (wakes al)"
  shows "alloc_result M sz w (vmw_cmdbuf_alloc dv al sz interruptible w)"
proof (cases "kzalloc_at al")
  case None
  then show ?thesis using inv mm by (simp add: vmw_cmdbuf_alloc_def alloc_result_def)
next
  case (Some m)
  note m = n [OF Some]
  have del: "w1\<lparr>hdrs := (hdrs w1)(m := None)\<rparr> = w1" if "hdrs w1 m = None" for w1 :: "'a cb_world"
    using that by (cases w1) (simp add: fun_upd_idem)
  show ?thesis
  proof (cases "sz \<le> VMW_CMDBUF_INLINE_SIZE")
    case True
    show ?thesis
    proof (cases "dma_at al")
      case None
      then show ?thesis using Some True inv mm by (simp add: vmw_cmdbuf_alloc_def vmw_cmdbuf_space_inline_def alloc_result_def)
    next
      case dma: (Some hv)
      obtain handle va where hv: "hv = (handle, va)" by (cases hv)
      define x where "x = \<lparr>cb_header = zero_cb\<lparr>cb_ptr := handle + 64\<rparr>, cb_context = 0, hdr_handle = handle, hdr_cmd = va + 64,
                     hdr_size = VMW_CMDBUF_INLINE_SIZE, hdr_reserved = 0, inline_space = True\<rparr>"
      have "vmw_cmdbuf_alloc dv al sz interruptible w = Some (Inr (w\<lparr>hdrs := (hdrs w)(m \<mapsto> x)\<rparr>, Inr m))"
        using Some True dma hv by (simp add: vmw_cmdbuf_alloc_def vmw_cmdbuf_space_inline_def x_def not_less [symmetric])
      moreover have "cb_inv (add_mset m M) (w\<lparr>hdrs := (hdrs w)(m \<mapsto> x)\<rparr>)"
        using inv m by (intro cb_inv_new_hdr [where P = "{}"]) (simp_all add: cb_inv_p_empty x_def)
      moreover have "fresh_space sz m (w\<lparr>hdrs := (hdrs w)(m \<mapsto> x)\<rparr>)" using True by (simp add: fresh_space_def x_def zero_cb_def)
      ultimately show ?thesis using m mm del [of w] by (simp add: alloc_result_def)
    qed
  next
    case False
    have "0 < unat sz" using False by (metis le0 neq0_conv unat_eq_zero word_zero_le)
    note sp = space_pool_ok [OF inv mm conjunct1 [OF m] conjunct2 [OF m] sz this q, of dv interruptible]
    show ?thesis
    proof (cases "vmw_cmdbuf_space_pool dv al m sz interruptible w")
      case None
      then show ?thesis using Some False by (simp add: vmw_cmdbuf_alloc_def alloc_result_def)
    next
      case r: (Some y)
      obtain w1 ret where y: "y = Inr (w1, ret)" using sp r by (cases y) auto
      show ?thesis
      proof (cases ret)
        case (Inl e)
        then show ?thesis using Some False r y sp by (simp add: vmw_cmdbuf_alloc_def alloc_result_def)
      next
        case (Inr x)
        have s: "cb_inv_p {m} M w1" "frame_g w w1" "hdrs w1 m = None" "\<not> inline_space x" "fresh_space sz m (w1\<lparr>hdrs := (hdrs w1)(m \<mapsto> x)\<rparr>)"
            "cm_mm (cman w1) \<noteq> None"
          using sp r y Inr by simp_all
        have "cb_inv (add_mset m M) (w1\<lparr>hdrs := (hdrs w1)(m \<mapsto> x)\<rparr>)"
          by (rule cb_inv_new_hdr [OF s(1,3) conjunct2 [OF m]]) (simp add: s(4))
        then show ?thesis using Some False r y Inr s del [OF s(3)] by (simp add: vmw_cmdbuf_alloc_def alloc_result_def)
      qed
    qed
  qed
qed

section \<open>The operations keep the invariant\<close>

text \<open>The state in which a buffer has joined the queue of its context, before the queues are processed.\<close>

definition enqueued :: "nat \<Rightarrow> u32 \<Rightarrow> 'd cb_world \<Rightarrow> 'd cb_world" where
  "enqueued h c w = upd_ctx (unat c) (\<lambda>x. x\<lparr>submitted := submitted x @ [h]\<rparr>)
     (w\<lparr>hdrs := (hdrs w)(h := map_option (\<lambda>x. x\<lparr>cb_header := (if cb_flags (cb_header x) AND SVGA_CB_FLAG_DX_CONTEXT = 0
          then (cb_header x)\<lparr>cb_dxContext := 0\<rparr> else cb_header x), cb_context := c\<rparr>) (hdrs w h))\<rparr>)"

lemma enqueued_inv:
  assumes inv: "cb_inv (add_mset h M) w" and c: "unat c < num_contexts (cman w)"
  shows "cb_inv M (enqueued h c w)"
proof -
  obtain x where x: "hdrs w h = Some x" by (rule held_alive [OF inv, of h]) auto
  define x' where "x' = x\<lparr>cb_header := (if cb_flags (cb_header x) AND SVGA_CB_FLAG_DX_CONTEXT = 0
          then (cb_header x)\<lparr>cb_dxContext := 0\<rparr> else cb_header x), cb_context := c\<rparr>"
  define w1 where "w1 = w\<lparr>hdrs := (hdrs w)(h \<mapsto> x')\<rparr>"
  have q: "queued w1 = queued w" "bufs w1 = bufs w" by (simp_all add: queued_def bufs_def w1_def fun_eq_iff)
  have out: "h \<notin># bufs w" using bufs_distinct [OF inv, of h] by (simp add: not_in_iff)
  have "tags w1"
  proof -
    have "g \<noteq> h" if "g \<in> set (cm_error (cman w)) \<or> (\<exists>c<num_contexts (cman w). g \<in> set (queued w c))" for g
      using that out queued_in_bufs [of _ w g] by (auto simp: bufs_def)
    then show ?thesis using cb_invD(3) [OF inv] unfolding tags_def q by (auto simp: tagged_def w1_def)
  qed
  moreover have dom: "dom (hdrs w1) = dom (hdrs w)" using x by (auto simp: w1_def split: if_splits)
  moreover have "pool_nodes w1 = pool_nodes w" using x by (auto simp: pool_nodes_def w1_def x'_def split: if_splits)
  then have "pool_ok {} w1" by (rule pool_ok_cong [OF cb_invD(4) [OF inv], rotated 2]) (rule dom | simp add: w1_def)+
  ultimately have inv1: "cb_inv (add_mset h M) w1"
    using inv by (simp add: cb_inv_def own_def q counts_def) (simp add: w1_def)
  have eq: "enqueued h c w = upd_ctx (unat c) (\<lambda>x. x\<lparr>submitted := submitted x @ [h]\<rparr>) w1"
    using x by (simp add: enqueued_def w1_def x'_def)
  have c1: "unat c < num_contexts (cman w1)" using c by (simp add: w1_def)
  have qe: "queued (enqueued h c w) (unat c) = queued w1 (unat c) @ [h]" by (simp add: eq queued_def)
  show ?thesis unfolding eq
  proof (rule cb_inv_upd_ctx [OF inv1 c1])
    show "tagged w1 g {unat c}" if "g \<in> set (queued (upd_ctx (unat c) (\<lambda>x. x\<lparr>submitted := submitted x @ [h]\<rparr>) w1) (unat c))" for g
      using that qe cb_invD(3) [OF inv1] c1 unfolding eq by (auto simp: tags_def) (simp add: tagged_def w1_def x'_def)
  qed (use cb_invD(2) [OF inv1] c1 qe in \<open>simp_all add: counts_def eq\<close>)
qed

lemma ctx_add_ok:
  assumes "cb_inv (add_mset h M) w" "unat c < num_contexts (cman w)"
  shows "\<exists>w'. vmw_cmdbuf_ctx_add dv h c w = Inr w' \<and> cb_inv M w' \<and> frame_g (enqueued h c w) w' \<and> fifo_g (enqueued h c w) w'"
proof -
  obtain x where "hdrs w h = Some x" by (rule held_alive [OF assms(1), of h]) auto
  then have "vmw_cmdbuf_ctx_add dv h c w = vmw_cmdbuf_man_process dv (enqueued h c w)"
    by (simp add: vmw_cmdbuf_ctx_add_def get_hdr_def enqueued_def Let_def)
  then show ?thesis using man_process_ok [OF enqueued_inv [OF assms], of dv] by auto
qed

lemma enqueued_fields: "cman (enqueued h c w) = (cman w)\<lparr>cm_ctx := (cm_ctx (cman w))(unat c := (ctx w (unat c))\<lparr>submitted := submitted (ctx w (unat c)) @ [h]\<rparr>)\<rparr>"
  by (simp add: enqueued_def upd_ctx_def)

lemma cb_okD: "cb_ok M w \<Longrightarrow> cb_inv (M + cur_buf w) w" "cb_ok M w \<Longrightarrow> 0 < num_contexts (cman w)" "cb_ok M w \<Longrightarrow> num_contexts (cman w) \<le> 2"
    "cb_ok M w \<Longrightarrow> cur_ok w" "cb_ok M w \<Longrightarrow> pool_wf w"
  by (simp_all add: cb_ok_def)

lemma frame_g_hdr: "frame_g w w' \<Longrightarrow> hdrs w' h = Some x' \<Longrightarrow> \<exists>x. hdrs w h = Some x \<and> core_hdr x' = core_hdr x"
  by (simp add: frame_g_def)

lemma flush_locked_ok:
  assumes ok: "cb_ok M w"
  shows "\<exists>w'. cmdbuf_cur_flush_locked dv w = Inr w' \<and> cb_ok M w' \<and> cm_cur (cman w') = None \<and>
     cur_mutex (cman w') = cur_mutex (cman w) \<and> dom (hdrs w') \<subseteq> dom (hdrs w) \<and>
     (\<forall>h x'. hdrs w' h = Some x' \<longrightarrow> cm_cur (cman w) \<noteq> Some h \<longrightarrow> (\<exists>x. hdrs w h = Some x \<and> core_hdr x' = core_hdr x))"
proof (cases "cm_cur (cman w)")
  case None
  then show ?thesis using ok by (simp add: cmdbuf_cur_flush_locked_def)
next
  case (Some cur)
  have inv: "cb_inv (add_mset cur M) w" using cb_okD(1) [OF ok] Some by (simp add: cur_buf_def)
  define fin where "fin = (\<lambda>w1 :: 'a cb_world. upd_man_rec (\<lambda>m. m\<lparr>cm_cur := None, cur_pos := 0\<rparr>) w1)"
  have finish: "cb_ok M (fin w1)" if "cb_inv M w1" "num_contexts (cman w1) = num_contexts (cman w)" "has_pool (cman w1) = has_pool (cman w)"
      "default_size (cman w1) = default_size (cman w)" "cm_mm (cman w1) = None \<longleftrightarrow> cm_mm (cman w) = None" for w1
  proof -
    have "cb_inv M (fin w1)" by (rule cb_inv_man [OF that(1)]) (simp_all add: fin_def)
    then show ?thesis using that(2-) cb_okD(2,3,5) [OF ok] by (simp add: cb_ok_def cur_buf_def fin_def cur_ok_def pool_wf_def)
  qed
  show ?thesis
  proof (cases "cur_pos (cman w) = 0")
    case True
    obtain mm' where fr: "cmdbuf_header_free_locked cur w = Inr (w\<lparr>cman := (cman w)\<lparr>cm_mm := mm'\<rparr>, hdrs := (hdrs w)(cur := None)\<rparr>)"
        "cb_inv M (w\<lparr>cman := (cman w)\<lparr>cm_mm := mm'\<rparr>, hdrs := (hdrs w)(cur := None)\<rparr>)" "mm' = None \<longleftrightarrow> cm_mm (cman w) = None"
      by (rule free_ok [OF inv])
    let ?w1 = "w\<lparr>cman := (cman w)\<lparr>cm_mm := mm'\<rparr>, hdrs := (hdrs w)(cur := None)\<rparr>"
    have "cmdbuf_cur_flush_locked dv w = Inr (fin ?w1)" using Some True fr(1) by (simp add: cmdbuf_cur_flush_locked_def fin_def)
    moreover have "cb_ok M (fin ?w1)" by (rule finish [OF fr(2)]) (simp_all add: fr(3))
    ultimately show ?thesis using Some fr(3) by (intro exI [of _ "fin ?w1"]) (auto simp: fin_def)
  next
    case False
    define w0 where "w0 = upd_cb cur (\<lambda>cb. cb\<lparr>cb_length := ucast (cur_pos (cman w))\<rparr>) w"
    obtain x where x: "hdrs w cur = Some x" by (rule held_alive [OF inv, of cur]) auto
    have w0: "w0 = w\<lparr>hdrs := (hdrs w)(cur \<mapsto> x\<lparr>cb_header := (cb_header x)\<lparr>cb_length := ucast (cur_pos (cman w))\<rparr>\<rparr>), cb_dev := cb_dev w, kmem := kmem w, cb_env := cb_env w\<rparr>"
      using x by (simp add: w0_def upd_cb_def)
    have inv0: "cb_inv (add_mset cur M) w0" unfolding w0 by (rule cb_inv_hdr [OF inv x]) simp_all
    have c0: "unat SVGA_CB_CONTEXT_0 < num_contexts (cman w0)" using cb_okD(2) [OF ok] by (simp add: w0)
    obtain w1 where w1: "vmw_cmdbuf_ctx_add dv cur SVGA_CB_CONTEXT_0 w0 = Inr w1" "cb_inv M w1"
        "frame_g (enqueued cur SVGA_CB_CONTEXT_0 w0) w1" "fifo_g (enqueued cur SVGA_CB_CONTEXT_0 w0) w1"
      using ctx_add_ok [OF inv0 c0] by blast
    have "cmdbuf_cur_flush_locked dv w = Inr (fin w1)"
      using Some False w1(1) by (simp add: cmdbuf_cur_flush_locked_def fin_def w0_def [symmetric])
    moreover have mm: "cm_mm (cman w1) = None \<longleftrightarrow> cm_mm (cman w) = None" using w1(4) by (simp add: fifo_g_def shrinks_def enqueued_fields w0)
    have "cb_ok M (fin w1)" by (rule finish [OF w1(2)]) (use frame_gD [OF w1(3)] mm in \<open>simp_all add: enqueued_fields w0\<close>)
    moreover have "dom (hdrs (enqueued cur 0 w0)) = dom (hdrs w)" using x by (auto simp: enqueued_def upd_ctx_def w0 split: if_splits)
    then have "dom (hdrs w1) \<subseteq> dom (hdrs w)" using w1(4) by (simp add: fifo_g_def shrinks_def)
    moreover have "\<exists>y. hdrs w h = Some y \<and> core_hdr x' = core_hdr y" if "hdrs w1 h = Some x'" "h \<noteq> cur" for h x'
      using frame_g_hdr [OF w1(3) that(1)] that(2) by (simp add: enqueued_def upd_ctx_def w0)
    ultimately show ?thesis using Some frame_gD [OF w1(3)]
      by (intro exI [of _ "fin w1"]) (simp add: fin_def enqueued_fields w0)
  qed
qed

lemma cur_ok_frame:
  assumes "cur_ok w" "frame_g w w'"
  shows "cur_ok w'"
proof (cases "cm_cur (cman w)")
  case None
  then show ?thesis using assms frame_gD(1,2) [OF assms(2)] by (simp add: cur_ok_def)
next
  case (Some cur)
  have "cur_pos (cman w') \<le> hdr_size x'" if h: "hdrs w' cur = Some x'" for x'
  proof -
    obtain x where "hdrs w cur = Some x" "core_hdr x' = core_hdr x" using frame_g_hdr [OF assms(2) h] by blast
    then show ?thesis using assms(1) Some frame_gD(2,12) [OF assms(2)] core_hdr_eqD [of x' x] by (simp add: cur_ok_def)
  qed
  then show ?thesis using Some frame_gD(1) [OF assms(2)] by (simp add: cur_ok_def)
qed

lemma cb_ok_frame:
  assumes ok: "cb_ok M w" and fr: "frame_g w w'" "cm_mm (cman w') = None \<longleftrightarrow> cm_mm (cman w) = None" and inv: "cb_inv (M' + cur_buf w) w'"
  shows "cb_ok M' w'"
  using inv cb_okD(2,3,5) [OF ok] cur_ok_frame [OF cb_okD(4) [OF ok] fr(1)] fr(2) frame_gD [OF fr(1)]
  by (simp add: cb_ok_def cur_buf_def pool_wf_def)

lemma man_process_keeps:
  assumes "cb_ok M w"
  shows "\<exists>w'. vmw_cmdbuf_man_process dv w = Inr w' \<and> cb_ok M w' \<and> frame_g w w' \<and> fifo_g w w'"
proof -
  obtain w' where w': "vmw_cmdbuf_man_process dv w = Inr w'" "cb_inv (M + cur_buf w) w'" "frame_g w w'" "fifo_g w w'"
    using man_process_ok [OF cb_okD(1) [OF assms]] by blast
  then show ?thesis using cb_ok_frame [OF assms w'(3) _ w'(2)] by (simp add: fifo_g_def shrinks_def)
qed

lemma header_free_keeps:
  assumes ok: "cb_ok (add_mset h M) w"
  shows "\<exists>w'. vmw_cmdbuf_header_free h w = Inr w' \<and> cb_ok M w'"
proof -
  have inv: "cb_inv (add_mset h (M + cur_buf w)) w" using cb_okD(1) [OF ok] by simp
  obtain mm' where fr: "cmdbuf_header_free_locked h w = Inr (w\<lparr>cman := (cman w)\<lparr>cm_mm := mm'\<rparr>, hdrs := (hdrs w)(h := None)\<rparr>)"
      "cb_inv (M + cur_buf w) (w\<lparr>cman := (cman w)\<lparr>cm_mm := mm'\<rparr>, hdrs := (hdrs w)(h := None)\<rparr>)" "mm' = None \<longleftrightarrow> cm_mm (cman w) = None"
    by (rule free_ok [OF inv])
  have "vmw_cmdbuf_header_free h w = cmdbuf_header_free_locked h w"
    by (cases "hdrs w h") (simp_all add: vmw_cmdbuf_header_free_def cmdbuf_header_free_locked_def get_hdr_def)
  moreover have "frame_g w (w\<lparr>cman := (cman w)\<lparr>cm_mm := mm'\<rparr>, hdrs := (hdrs w)(h := None)\<rparr>)"
    by (auto simp: frame_g_def static_def split: if_splits)
  ultimately show ?thesis using fr cb_ok_frame [OF ok _ _ fr(2)] by simp
qed

lemma alloc_keeps:
  assumes ok: "cb_ok M w" and n: "\<And>n. kzalloc_at al = Some n \<Longrightarrow> hdrs w n = None \<and> n \<noteq> 0"
    and sz: "unat sz + 4095 < 2 ^ 64" and q: "quiet_wakes (wakes al)"
  shows "case vmw_cmdbuf_alloc dv al sz interruptible w of None \<Rightarrow> True | Some (Inl e) \<Rightarrow> False
    | Some (Inr (w', Inl e)) \<Rightarrow> cb_ok M w' \<and> frame_g w w'
    | Some (Inr (w', Inr h)) \<Rightarrow> cb_ok (add_mset h M) w' \<and> fresh_space sz h w' \<and> cm_cur (cman w') = cm_cur (cman w) \<and>
        cur_pos (cman w') = cur_pos (cman w) \<and> cur_mutex (cman w') = cur_mutex (cman w) \<and> frame_g w (w'\<lparr>hdrs := (hdrs w')(h := None)\<rparr>)"
proof -
  have pool: "has_pool (cman w) \<Longrightarrow> cm_mm (cman w) \<noteq> None" using cb_okD(5) [OF ok] by (simp add: pool_wf_def)
  have res: "alloc_result (M + cur_buf w) sz w (vmw_cmdbuf_alloc dv al sz interruptible w)"
    by (rule alloc_ok [OF cb_okD(1) [OF ok] pool n sz q])
  show ?thesis
  proof (cases "vmw_cmdbuf_alloc dv al sz interruptible w")
    case None
    then show ?thesis by simp
  next
    case (Some r)
    then obtain w' ret where r: "r = Inr (w', ret)" using res by (cases r) (auto simp: alloc_result_def)
    show ?thesis
    proof (cases ret)
      case (Inl e)
      then have w': "cb_inv (M + cur_buf w) w'" "frame_g w w'" "has_pool (cman w) \<longrightarrow> cm_mm (cman w') \<noteq> None"
        using res Some r by (simp_all add: alloc_result_def)
      have "cb_ok M w'" using w' cb_okD(2,3,5) [OF ok] cur_ok_frame [OF cb_okD(4) [OF ok] w'(2)] frame_gD [OF w'(2)]
        by (simp add: cb_ok_def cur_buf_def pool_wf_def)
      then show ?thesis using Some r Inl w'(2) by simp
    next
      case (Inr h)
      let ?w0 = "w'\<lparr>hdrs := (hdrs w')(h := None)\<rparr>"
      have w': "cb_inv (add_mset h (M + cur_buf w)) w'" "frame_g w ?w0" "fresh_space sz h w'" "has_pool (cman w) \<longrightarrow> cm_mm (cman w') \<noteq> None"
        using res Some r Inr by (simp_all add: alloc_result_def)
      note fr = frame_gD [OF w'(2), simplified]
      have "count (M + cur_buf w) h = 0" using bufs_distinct [OF w'(1), of h] by simp
      then have "cm_cur (cman w) \<noteq> Some h" by (auto simp: cur_buf_def)
      moreover have "cur_ok ?w0" by (rule cur_ok_frame [OF cb_okD(4) [OF ok] w'(2)])
      ultimately have "cur_ok w'" using fr(1) by (auto simp: cur_ok_def split: option.splits)
      then have "cb_ok (add_mset h M) w'" using w' cb_okD(2,3,5) [OF ok] fr by (simp add: cb_ok_def cur_buf_def pool_wf_def)
      then show ?thesis using Some r Inr w'(2,3) fr by simp
    qed
  qed
qed

lemma cur_lock_keeps: "cb_ok M w \<Longrightarrow> cb_ok M (upd_man_rec (\<lambda>m. m\<lparr>cur_mutex := b\<rparr>) w)"
proof -
  assume ok: "cb_ok M w"
  have "cb_inv (M + cur_buf w) (upd_man_rec (\<lambda>m. m\<lparr>cur_mutex := b\<rparr>) w)" by (rule cb_inv_man [OF cb_okD(1) [OF ok]]) simp_all
  moreover have "cur_ok (upd_man_rec (\<lambda>m. m\<lparr>cur_mutex := b\<rparr>) w)"
    using cb_okD(4) [OF ok] by (auto simp: cur_ok_def split: option.splits)
  ultimately show ?thesis using ok by (simp add: cb_ok_def cur_buf_def pool_wf_def)
qed

lemma cb_ok_hdr:
  assumes ok: "cb_ok M w" and x: "hdrs w h = Some x" and same: "cb_context x' = cb_context x" "inline_space x' = inline_space x" "hdr_size x' = hdr_size x"
  shows "cb_ok M (w\<lparr>hdrs := (hdrs w)(h \<mapsto> x')\<rparr>)"
proof -
  let ?w = "w\<lparr>hdrs := (hdrs w)(h \<mapsto> x')\<rparr>"
  have "cb_inv (M + cur_buf w) ?w"
    by (rule cb_inv_hdrs [OF cb_okD(1) [OF ok]]) (use x same in \<open>auto split: if_splits\<close>)
  moreover have "cur_ok ?w" using cb_okD(4) [OF ok] x same(3) by (auto simp: cur_ok_def split: option.splits)
  ultimately show ?thesis using ok by (simp add: cb_ok_def cur_buf_def pool_wf_def)
qed

lemma cur_alive:
  assumes "cb_ok M w" "cm_cur (cman w) = Some cur"
  obtains x where "hdrs w cur = Some x"
  by (rule held_alive [OF cb_okD(1) [OF assms(1)], of cur]) (use assms(2) in \<open>auto simp: cur_buf_def\<close>)

text \<open>The commit, with the buffer given or the current one, from the state with the mutex held.\<close>

lemma commit_tail:
  fixes b :: bool
  assumes ok: "cb_ok M w" and cur: "cm_cur (cman w) = Some cur"
    and w1_def: "w1 = (if b then upd_cb cur (\<lambda>cb. cb\<lparr>cb_flags := cb_flags cb AND NOT SVGA_CB_FLAG_DX_CONTEXT\<rparr>) w else w)"
  shows "\<exists>w'. kbind (if flush then cmdbuf_cur_flush_locked dv w1 else Inr w1) (\<lambda>w3. Inr (vmw_cmdbuf_cur_unlock w3)) = Inr w' \<and> cb_ok M w' \<and>
    \<not> cur_mutex (cman w') \<and> (if flush then cm_cur (cman w') = None else cm_cur (cman w') = Some cur \<and> cur_pos (cman w') = cur_pos (cman w))"
proof -
  obtain x where x: "hdrs w cur = Some x" by (rule cur_alive [OF ok cur])
  have ok1: "cb_ok M w1" unfolding w1_def using cb_ok_hdr [OF ok x] ok x by (simp add: upd_cb_eq)
  have same: "cman w1 = cman w" by (simp add: w1_def upd_cb_def)
  have unlock: "cb_ok M (vmw_cmdbuf_cur_unlock w3)" if "cb_ok M w3" for w3 :: "'a cb_world"
    unfolding vmw_cmdbuf_cur_unlock_def by (rule cur_lock_keeps [OF that])
  show ?thesis
  proof (cases flush)
    case True
    obtain w3 where "cmdbuf_cur_flush_locked dv w1 = Inr w3" "cb_ok M w3" "cm_cur (cman w3) = None"
      using flush_locked_ok [OF ok1] by blast
    then show ?thesis using True unlock by (auto simp: vmw_cmdbuf_cur_unlock_def)
  next
    case False
    then show ?thesis using unlock [OF ok1] same cur by (auto simp: vmw_cmdbuf_cur_unlock_def)
  qed
qed

lemma commit_cur_keeps:
  assumes ok: "cb_ok M w" and res: "reserved_ok w" and sz: "\<And>cur x. cm_cur (cman w) = Some cur \<Longrightarrow> hdrs w cur = Some x \<Longrightarrow> sz \<le> hdr_reserved x"
  shows "\<exists>w'. vmw_cmdbuf_commit_cur dv sz flush w = Inr w' \<and> cb_ok M w' \<and> \<not> cur_mutex (cman w') \<and>
    (\<not> flush \<longrightarrow> cm_cur (cman w') = cm_cur (cman w) \<and> unat (cur_pos (cman w')) = unat (cur_pos (cman w)) + unat sz)"
proof -
  obtain cur x where cur: "cm_cur (cman w) = Some cur" "hdrs w cur = Some x" "unat (cur_pos (cman w)) + unat (hdr_reserved x) \<le> unat (hdr_size x)"
    using res by (auto simp: reserved_ok_def)
  have "unat sz \<le> unat (hdr_reserved x)" using sz [OF cur(1,2)] by (simp add: word_le_nat_alt)
  then have le: "unat (cur_pos (cman w)) + unat sz \<le> unat (hdr_size x)" using cur(3) by simp
  then have sum: "unat (cur_pos (cman w) + sz) = unat (cur_pos (cman w)) + unat sz"
    using unsigned_less [of "hdr_size x", where 'a = nat] by (subst unat_add_lem [THEN iffD1]) simp_all
  define w1 where "w1 = upd_man_rec (\<lambda>m. m\<lparr>cur_pos := cur_pos m + sz\<rparr>) w"
  have "cb_inv (M + cur_buf w) w1" by (rule cb_inv_man [OF cb_okD(1) [OF ok]]) (simp_all add: w1_def)
  moreover have "cur_ok w1" using cur le sum by (simp add: cur_ok_def w1_def word_le_nat_alt)
  ultimately have "cb_ok M w1" using ok by (simp add: cb_ok_def cur_buf_def pool_wf_def w1_def)
  from commit_tail [OF this _ refl, of cur flush dv "sz = 0"] cur obtain w' where
    "kbind (if flush then cmdbuf_cur_flush_locked dv (if sz = 0 then upd_cb cur (\<lambda>cb. cb\<lparr>cb_flags := cb_flags cb AND NOT SVGA_CB_FLAG_DX_CONTEXT\<rparr>) w1 else w1)
       else Inr (if sz = 0 then upd_cb cur (\<lambda>cb. cb\<lparr>cb_flags := cb_flags cb AND NOT SVGA_CB_FLAG_DX_CONTEXT\<rparr>) w1 else w1))
       (\<lambda>w3. Inr (vmw_cmdbuf_cur_unlock w3)) = Inr w'" "cb_ok M w'" "\<not> cur_mutex (cman w')"
    "if flush then cm_cur (cman w') = None else cm_cur (cman w') = Some cur \<and> cur_pos (cman w') = cur_pos (cman w1)"
    by (auto simp: w1_def)
  then show ?thesis using cur sum by (auto simp: vmw_cmdbuf_commit_cur_def get_hdr_def Let_def w1_def)
qed

lemma commit_header_keeps:
  assumes ok: "cb_ok (add_mset h M) w" and sz: "\<And>x. hdrs w h = Some x \<Longrightarrow> sz \<le> hdr_size x"
  shows "\<exists>w'. vmw_cmdbuf_commit dv sz (Some h) flush w = Inr w' \<and> cb_ok M w' \<and> \<not> cur_mutex (cman w') \<and>
    (\<not> flush \<longrightarrow> cm_cur (cman w') = Some h \<and> cur_pos (cman w') = sz)"
proof -
  define w0 where "w0 = upd_man_rec (\<lambda>m. m\<lparr>cur_mutex := True\<rparr>) w"
  have ok0: "cb_ok (add_mset h M) w0" unfolding w0_def by (rule cur_lock_keeps [OF ok])
  obtain w1 where w1: "cmdbuf_cur_flush_locked dv w0 = Inr w1" "cb_ok (add_mset h M) w1" "cm_cur (cman w1) = None"
      and same: "\<forall>h x'. hdrs w1 h = Some x' \<longrightarrow> cm_cur (cman w0) \<noteq> Some h \<longrightarrow> (\<exists>x. hdrs w0 h = Some x \<and> core_hdr x' = core_hdr x)"
    using flush_locked_ok [OF ok0] by blast
  have "count (cur_buf w0) h = 0" using bufs_distinct [OF cb_okD(1) [OF ok0], of h] by simp
  then have nc: "cm_cur (cman w0) \<noteq> Some h" by (auto simp: cur_buf_def)
  have "h \<in># add_mset h M + cur_buf w1" by simp
  from held_alive [OF cb_okD(1) [OF w1(2)] this] obtain x where x: "hdrs w1 h = Some x" .
  define w2 where "w2 = upd_man_rec (\<lambda>m. m\<lparr>cm_cur := Some h, cur_pos := sz\<rparr>) w1"
  have "cb_inv (add_mset h M) w2" by (rule cb_inv_man [of _ w1]) (use cb_okD(1) [OF w1(2)] w1(3) in \<open>simp_all add: w2_def cur_buf_def\<close>)
  moreover obtain x0 where "hdrs w0 h = Some x0" "core_hdr x = core_hdr x0" using same x nc by blast
  then have "sz \<le> hdr_size x" using sz [of x0] core_hdr_eqD(4) [of x x0] by (simp add: w0_def)
  then have "cur_ok w2" using x by (simp add: cur_ok_def w2_def)
  ultimately have "cb_ok M w2" using w1(2) by (simp add: cb_ok_def cur_buf_def pool_wf_def w2_def)
  from commit_tail [OF this _ refl, of h flush dv "sz = 0"] show ?thesis
    using w1(1) x by (auto simp: vmw_cmdbuf_commit_def vmw_cmdbuf_cur_lock_def get_hdr_def Let_def w0_def [symmetric] w2_def)
qed

lemma reserve_in_keeps:
  assumes ok: "cb_ok M w" and x: "hdrs w h = Some x"
  shows "cb_ok M (reserve_in h sz ctx_id w)" "cman (reserve_in h sz ctx_id w) = cman w"
    "\<exists>x'. hdrs (reserve_in h sz ctx_id w) h = Some x' \<and> hdr_reserved x' = sz \<and> hdr_size x' = hdr_size x \<and> hdr_cmd x' = hdr_cmd x"
proof -
  have eq: "reserve_in h sz ctx_id w = w\<lparr>hdrs := (hdrs w)(h \<mapsto> x\<lparr>cb_header := set_dx_context ctx_id (cb_header x), hdr_reserved := sz\<rparr>)\<rparr>"
    using x by (simp add: reserve_in_def)
  show "cb_ok M (reserve_in h sz ctx_id w)" unfolding eq by (rule cb_ok_hdr [OF ok x]) simp_all
qed (use x in \<open>simp_all add: reserve_in_def\<close>)

definition reserved_at :: "u64 \<Rightarrow> 'd cb_world \<Rightarrow> nat \<Rightarrow> bool" where
  \<comment> \<open>the address that a reservation of \<open>sz\<close> bytes returns: after what the current buffer holds, and inside it\<close>
  "reserved_at sz w p \<longleftrightarrow> cur_mutex (cman w) \<and> (\<exists>cur x. cm_cur (cman w) = Some cur \<and> hdrs w cur = Some x \<and> hdr_reserved x = sz \<and>
     p = hdr_cmd x + unat (cur_pos (cman w)) \<and> unat (cur_pos (cman w)) + unat sz \<le> unat (hdr_size x))"

lemma reserve_tail:
  fixes ctx_id :: u32
  assumes ok: "cb_ok M w" and cur: "cm_cur (cman w) = Some cur" "hdrs w cur = Some x" and fits: "unat (cur_pos (cman w)) + unat sz \<le> unat (hdr_size x)"
    and mutex: "cur_mutex (cman w)"
  defines "w1 \<equiv> reserve_in cur sz ctx_id w"
  shows "\<exists>p. kbind (get_hdr w1 cur) (\<lambda>x. Inr (w1, Inr (hdr_cmd x + unat (cur_pos (cman w1))))) = Inr (w1, Inr p) \<and> cb_ok M w1 \<and> reserved_at sz w1 p"
proof -
  note r = reserve_in_keeps [OF ok cur(2), of sz ctx_id, folded w1_def]
  obtain x' where x': "hdrs w1 cur = Some x'" "hdr_reserved x' = sz" "hdr_size x' = hdr_size x" "hdr_cmd x' = hdr_cmd x" using r(3) by blast
  then show ?thesis using r(1,2) cur(1) fits mutex by (auto simp: get_hdr_def reserved_at_def)
qed

lemma reserve_alloc:
  assumes ok: "cb_ok M w" and none: "cm_cur (cman w) = None" and mutex: "cur_mutex (cman w)"
    and n: "\<And>n. kzalloc_at al = Some n \<Longrightarrow> hdrs w n = None \<and> n \<noteq> 0" and sz: "unat sz + 4095 < 2 ^ 64" and q: "quiet_wakes (wakes al)"
  shows "case vmw_cmdbuf_alloc dv al (max sz (default_size (cman w))) interruptible w of None \<Rightarrow> True | Some (Inl e) \<Rightarrow> False
    | Some (Inr (w', Inl e)) \<Rightarrow> cb_ok M w'
    | Some (Inr (w', Inr h)) \<Rightarrow> let w1 = upd_man_rec (\<lambda>m. m\<lparr>cm_cur := Some h\<rparr>) w' in
        cb_ok M w1 \<and> cur_mutex (cman w1) \<and> (\<exists>x. hdrs w1 h = Some x \<and> unat (cur_pos (cman w1)) + unat sz \<le> unat (hdr_size x))"
proof -
  let ?sz = "max sz (default_size (cman w))"
  have "default_size (cman w) = 960" "cur_pos (cman w) = 0" using cb_okD(4,5) [OF ok] none by (simp_all add: pool_wf_def cur_ok_def)
  then have m: "unat ?sz + 4095 < 2 ^ 64" "sz \<le> ?sz" using sz by (simp_all add: max_def)
  note al = alloc_keeps [OF ok n m(1) q, of dv interruptible]
  show ?thesis
  proof (cases "vmw_cmdbuf_alloc dv al ?sz interruptible w")
    case None
    then show ?thesis by simp
  next
    case (Some r)
    then obtain w' ret where r: "r = Inr (w', ret)" using al by (cases r) auto
    show ?thesis
    proof (cases ret)
      case (Inl e)
      then show ?thesis using al Some r by simp
    next
      case (Inr h)
      have w': "cb_ok (add_mset h M) w'" "fresh_space ?sz h w'" "cm_cur (cman w') = None" "cur_pos (cman w') = 0" "cur_mutex (cman w')"
        using al Some r Inr none mutex \<open>cur_pos (cman w) = 0\<close> by simp_all
      obtain x where x: "hdrs w' h = Some x" "?sz \<le> hdr_size x" using w'(2) by (auto simp: fresh_space_def)
      let ?w1 = "upd_man_rec (\<lambda>m. m\<lparr>cm_cur := Some h\<rparr>) w'"
      have "cb_inv (add_mset h M) ?w1" by (rule cb_inv_man [of _ w']) (use cb_okD(1) [OF w'(1)] w'(3) in \<open>simp_all add: cur_buf_def\<close>)
      then have "cb_ok M ?w1" using w' x by (simp add: cb_ok_def cur_buf_def cur_ok_def pool_wf_def)
      moreover have "unat sz \<le> unat (hdr_size x)" using order_trans [OF m(2) x(2)] by (simp add: word_le_nat_alt)
      ultimately show ?thesis using Some r Inr w' x by simp
    qed
  qed
qed

lemma reserve_cur_keeps:
  assumes ok: "cb_ok M w" and n: "\<And>n. kzalloc_at al = Some n \<Longrightarrow> hdrs w n = None \<and> n \<noteq> 0"
    and sz: "unat sz + 4095 < 2 ^ 64" "unat (cur_pos (cman w)) + unat sz < 2 ^ 64" and q: "quiet_wakes (wakes al)"
  shows "case vmw_cmdbuf_reserve_cur dv al signal sz ctx_id interruptible w of None \<Rightarrow> True | Some (Inl e) \<Rightarrow> False
    | Some (Inr (w', Inl e)) \<Rightarrow> cb_ok M w' \<and> (cur_mutex (cman w') \<longrightarrow> cur_mutex (cman w))
    | Some (Inr (w', Inr p)) \<Rightarrow> cb_ok M w' \<and> reserved_at sz w' p"
proof (cases "interruptible \<and> signal")
  case True
  then show ?thesis using ok by (simp add: vmw_cmdbuf_reserve_cur_def vmw_cmdbuf_cur_lock_def)
next
  case False
  define w1 where "w1 = upd_man_rec (\<lambda>m. m\<lparr>cur_mutex := True\<rparr>) w"
  have lock: "vmw_cmdbuf_cur_lock interruptible signal w = (w1, Inr ())" using False by (simp add: vmw_cmdbuf_cur_lock_def w1_def)
  have ok1: "cb_ok M w1" unfolding w1_def by (rule cur_lock_keeps [OF ok])
  define fl where "fl = (case cm_cur (cman w1) of None \<Rightarrow> Inr w1
     | Some cur \<Rightarrow> kbind (get_hdr w1 cur) (\<lambda>x. if cur_unfit sz ctx_id (cman w1) x then cmdbuf_cur_flush_locked dv w1 else Inr w1))"
  have fl: "\<exists>w2. fl = Inr w2 \<and> cb_ok M w2 \<and> cur_mutex (cman w2) \<and> dom (hdrs w2) \<subseteq> dom (hdrs w) \<and>
      (\<forall>cur x. cm_cur (cman w2) = Some cur \<longrightarrow> hdrs w2 cur = Some x \<longrightarrow> unat (cur_pos (cman w2)) + unat sz \<le> unat (hdr_size x))"
  proof (cases "cm_cur (cman w1)")
    case None
    then show ?thesis using ok1 by (simp add: fl_def) (simp add: w1_def)
  next
    case (Some cur)
    obtain x where x: "hdrs w1 cur = Some x" by (rule cur_alive [OF ok1 Some])
    show ?thesis
    proof (cases "cur_unfit sz ctx_id (cman w1) x")
      case True
      obtain w2 where "cmdbuf_cur_flush_locked dv w1 = Inr w2" "cb_ok M w2" "cm_cur (cman w2) = None" "cur_mutex (cman w2) = cur_mutex (cman w1)"
          "dom (hdrs w2) \<subseteq> dom (hdrs w1)" using flush_locked_ok [OF ok1] by blast
      then show ?thesis using True Some x by (simp add: fl_def get_hdr_def w1_def)
    next
      case False
      have "unat (sz + cur_pos (cman w1)) = unat sz + unat (cur_pos (cman w1))" using sz(2) by (subst unat_add_lem [THEN iffD1]) (simp_all add: w1_def)
      then have "unat (cur_pos (cman w1)) + unat sz \<le> unat (hdr_size x)" using False by (simp add: cur_unfit_def word_le_nat_alt not_less)
      then show ?thesis using False Some x ok1 by (simp add: fl_def get_hdr_def) (simp add: w1_def)
    qed
  qed
  then obtain w2 where w2: "fl = Inr w2" "cb_ok M w2" "cur_mutex (cman w2)" "dom (hdrs w2) \<subseteq> dom (hdrs w)"
      "\<And>cur x. cm_cur (cman w2) = Some cur \<Longrightarrow> hdrs w2 cur = Some x \<Longrightarrow> unat (cur_pos (cman w2)) + unat sz \<le> unat (hdr_size x)" by blast
  show ?thesis
  proof (cases "cm_cur (cman w2)")
    case (Some cur)
    obtain x where x: "hdrs w2 cur = Some x" by (rule cur_alive [OF w2(2) Some])
    have same: "upd_man_rec (\<lambda>m. m\<lparr>cm_cur := Some cur\<rparr>) w2 = w2" using Some by (cases w2; cases "cman w2") simp
    show ?thesis using reserve_tail [OF w2(2) Some x w2(5) [OF Some x] w2(3), of ctx_id] Some w2(1) lock
      by (auto simp: vmw_cmdbuf_reserve_cur_def fl_def [symmetric] Let_def same)
  next
    case None
    have n2: "kzalloc_at al = Some m \<Longrightarrow> hdrs w2 m = None \<and> m \<noteq> 0" for m using n [of m] w2(4) by auto
    note al = reserve_alloc [OF w2(2) None w2(3) n2 sz(1) q, of dv interruptible]
    show ?thesis
    proof (cases "vmw_cmdbuf_alloc dv al (max sz (default_size (cman w2))) interruptible w2")
      case N: None
      then show ?thesis using None w2(1) lock by (simp add: vmw_cmdbuf_reserve_cur_def fl_def [symmetric])
    next
      case (Some r)
      then obtain w3 ret where r: "r = Inr (w3, ret)" using al by (cases r) auto
      show ?thesis
      proof (cases ret)
        case (Inl e)
        then show ?thesis using al Some r None w2(1) lock cur_lock_keeps [of M w3 False]
          by (simp add: vmw_cmdbuf_reserve_cur_def fl_def [symmetric] vmw_cmdbuf_cur_unlock_def)
      next
        case (Inr h)
        let ?w3 = "upd_man_rec (\<lambda>m. m\<lparr>cm_cur := Some h\<rparr>) w3"
        obtain x where x: "cb_ok M ?w3" "cur_mutex (cman ?w3)" "hdrs ?w3 h = Some x" "unat (cur_pos (cman ?w3)) + unat sz \<le> unat (hdr_size x)"
          using al Some r Inr by (auto simp: Let_def)
        show ?thesis using reserve_tail [OF x(1) _ x(3,4,2), of ctx_id] Some r Inr None w2(1) lock
          by (auto simp: vmw_cmdbuf_reserve_cur_def fl_def [symmetric] Let_def)
      qed
    qed
  qed
qed

lemma cb_ok_same:
  assumes ok: "cb_ok M w" and same: "cman w' = cman w" "hdrs w' = hdrs w"
  shows "cb_ok M w'"
proof -
  have "cb_inv (M + cur_buf w) w'" by (rule cb_inv_man [OF cb_okD(1) [OF ok]]) (simp_all add: same)
  moreover have "cur_ok w'" using cb_okD(4) [OF ok] by (auto simp: cur_ok_def same split: option.splits)
  ultimately show ?thesis using ok by (simp add: cb_ok_def cur_buf_def pool_wf_def same)
qed

text \<open>A command to the device context is sent and its buffer freed; it leaves the manager as it was.\<close>

lemma device_command_ok:
  assumes n: "\<And>n. kzalloc_at al = Some n \<Longrightarrow> hdrs w n = None" and len: "length command \<le> 240"
  shows "\<exists>w' ret. vmw_cmdbuf_send_device_command dv al command w = Some (Inr (w', ret)) \<and> cman w' = cman w \<and> hdrs w' = hdrs w \<and>
     dev_core (cb_dev w') = dev_core (cb_dev w)"
proof (cases "kzalloc_at al")
  case None
  then show ?thesis by (simp add: vmw_cmdbuf_send_device_command_def vmw_cmdbuf_alloc_def)
next
  case (Some m)
  have "unat (of_nat (4 * length command) :: u64) = 4 * length command" using len by (simp only: unat_of_nat) simp
  then have "(of_nat (4 * length command) :: u64) \<le> 960" using len by (simp only: word_le_nat_alt) simp
  then have inl: "vmw_cmdbuf_alloc dv al (of_nat (4 * length command)) False w =
      (case vmw_cmdbuf_space_inline al (of_nat (4 * length command)) of Inl e \<Rightarrow> Some (Inr (w, Inl e))
       | Inr x \<Rightarrow> Some (Inr (w\<lparr>hdrs := (hdrs w)(m \<mapsto> x)\<rparr>, Inr m)))"
    using Some by (simp add: vmw_cmdbuf_alloc_def split: sum.splits)
  show ?thesis
  proof (cases "vmw_cmdbuf_space_inline al (of_nat (4 * length command))")
    case (Inl e)
    then show ?thesis using inl by (simp add: vmw_cmdbuf_send_device_command_def)
  next
    case (Inr x)
    then have "inline_space x" by (auto simp: vmw_cmdbuf_space_inline_def split: if_splits option.splits)
    moreover have "(hdrs w)(m := None) = hdrs w" using n [OF Some] by (simp add: fun_upd_idem)
    ultimately show ?thesis using inl Inr
      by (simp add: vmw_cmdbuf_send_device_command_def get_hdr_def vmw_cmdbuf_header_submit_def vmw_cmdbuf_header_free_def
          vmw_cmdbuf_header_inline_free_def Let_def vmw_write_def dev_core_def)
  qed
qed

lemma logged_ok:
  assumes ok: "cb_ok M w" and n: "\<And>n. kzalloc_at al = Some n \<Longrightarrow> hdrs w n = None" and len: "length command \<le> 240"
  shows "\<exists>w'. logged b (vmw_cmdbuf_send_device_command dv al command) w = Some (Inr w') \<and> cb_ok M w' \<and> cman w' = cman w \<and> hdrs w' = hdrs w"
proof -
  obtain w' ret where "vmw_cmdbuf_send_device_command dv al command w = Some (Inr (w', ret))" "cman w' = cman w" "hdrs w' = hdrs w"
    using device_command_ok [OF n len] by blast
  then show ?thesis using ok cb_ok_same [OF ok, of w'] by (cases b) (simp_all add: logged_def)
qed

end
