(* ===== verification/Cmdbuf_Reach.thy ===== *)
theory Cmdbuf_Reach
  imports Cmdbuf_Own
begin

text \<open>
  The recovery from device errors, the states of the command buffer manager that sequences of calls reach, and what
  holds in all of them.
\<close>

section \<open>Recovery\<close>

definition error_skip :: "'d cb_world \<Rightarrow> nat \<Rightarrow> u32 option kres" where
  \<comment> \<open>how far the buffer is advanced to rerun it, or nothing if it is dropped\<close>
  "error_skip w e = kbind (get_hdr w e) (\<lambda>x. kbind (vmw_cmd_describe (kmem w) (hdr_cmd x + unat (cb_errorOffset (cb_header x))))
     (\<lambda>(known, sz, _). let n = cb_errorOffset (cb_header x) + sz in
        Inr (if \<not> known \<or> n \<ge> cb_length (cb_header x) then None else Some n)))"

definition restart_of :: "'d cb_world \<Rightarrow> nat list \<Rightarrow> nat \<Rightarrow> nat list" where
  "restart_of w es c = filter (\<lambda>e. (\<exists>n. error_skip w e = Inr (Some n)) \<and> tagged w e {c}) es"

definition held_by :: "(nat \<Rightarrow> nat list) \<Rightarrow> nat list \<Rightarrow> nat multiset" where
  "held_by rh cs = (\<Sum>c\<leftarrow>cs. mset (rh c))"

lemma held_by_upd:
  assumes "c \<in> set cs" "distinct cs"
  shows "held_by (rh(c := rh c @ [e])) cs = add_mset e (held_by rh cs)"
  using assms
proof (induction cs)
  case (Cons d cs)
  show ?case
  proof (cases "d = c")
    case True
    then have "held_by (rh(c := rh c @ [e])) cs = held_by rh cs"
      using Cons.prems(2) by (auto simp: held_by_def intro!: arg_cong [of _ _ sum_list] map_cong)
    then show ?thesis using True by (simp add: held_by_def)
  next
    case False
    then show ?thesis using Cons by (simp add: held_by_def)
  qed
qed simp

lemma error_skip_cong: "hdrs w' e = hdrs w e \<Longrightarrow> kmem w' = kmem w \<Longrightarrow> error_skip w' e = error_skip w e"
  by (simp add: error_skip_def get_hdr_def)

lemma restart_of_cong:
  assumes "\<And>e. e \<in> set es \<Longrightarrow> hdrs w' e = hdrs w e" "kmem w' = kmem w"
  shows "restart_of w' es c = restart_of w es c"
  unfolding restart_of_def using assms by (intro filter_cong) (simp_all add: tagged_def cong: error_skip_cong)

lemma error_distinct:
  assumes "cb_inv M w" shows "distinct (cm_error (cman w))"
proof -
  have "count (mset (cm_error (cman w))) h \<le> 1" for h
    using bufs_distinct [OF assms, of h] by (simp add: bufs_def)
  moreover have "count (mset (cm_error (cman w))) h = 0 \<longleftrightarrow> h \<notin> set (cm_error (cman w))" for h by (metis not_in_iff set_mset_mset)
  ultimately show ?thesis unfolding distinct_count_atmost_1 by (metis le_antisym less_one not_less)
qed

lemma work_error_step:
  assumes inv: "cb_inv (M + held_by rh [0..<num_contexts (cman w)]) w" and es: "cm_error (cman w) = e # es"
    and skip: "error_skip w e = Inr r" and tag: "\<forall>c h. h \<in> set (rh c) \<longrightarrow> tagged w h {c}"
  shows "\<exists>w2 rh2 sf2. work_errors (e # es) rh sf w = work_errors es rh2 sf2 w2 \<and> cb_inv (M + held_by rh2 [0..<num_contexts (cman w)]) w2 \<and>
     cman w2 = (cman w)\<lparr>cm_error := es, cm_mm := cm_mm (cman w2)\<rparr> \<and> kmem w2 = kmem w \<and> (cm_mm (cman w2) = None \<longleftrightarrow> cm_mm (cman w) = None) \<and>
     (\<forall>h. h \<noteq> e \<longrightarrow> hdrs w2 h = hdrs w h) \<and> (\<forall>c h. h \<in> set (rh2 c) \<longrightarrow> tagged w2 h {c}) \<and>
     (\<forall>c<num_contexts (cman w). rh2 c = rh c @ (if r \<noteq> None \<and> tagged w e {c} then [e] else [])) \<and>
     (\<forall>x n. hdrs w e = Some x \<longrightarrow> r = Some n \<longrightarrow> hdrs w2 e = Some (skip_command (using_mob (cman w)) n x))"
proof -
  let ?H = "held_by rh [0..<num_contexts (cman w)]"
  have "distinct (e # es)" using error_distinct [OF inv] es by simp
  then have del: "removeAll e (e # es) = es" by simp
  define w1 where "w1 = upd_man_rec (\<lambda>m. m\<lparr>cm_error := es\<rparr>) w"
  have tage: "tagged w h {..<num_contexts (cman w)}" if "h \<in> set (e # es)" for h
    using cb_invD(3) [OF inv] es that by (auto simp: tags_def)
  have "cb_inv (add_mset e (M + ?H)) (w\<lparr>cman := (cman w)\<lparr>cm_error := es, cm_work := cm_work (cman w)\<rparr>\<rparr>)"
    by (rule cb_inv_error [OF inv]) (use es tage in simp_all)
  then have inv1: "cb_inv (add_mset e (M + ?H)) w1" by (rule cb_inv_man) (simp_all add: w1_def)
  obtain x where x: "hdrs w1 e = Some x" by (rule held_alive [OF inv1, of e]) auto
  have xw: "hdrs w e = Some x" using x by (simp add: w1_def)
  obtain known sz nm where d: "vmw_cmd_describe (kmem w) (hdr_cmd x + unat (cb_errorOffset (cb_header x))) = Inr (known, sz, nm)"
      "r = (if \<not> known \<or> cb_errorOffset (cb_header x) + sz \<ge> cb_length (cb_header x) then None else Some (cb_errorOffset (cb_header x) + sz))"
    using skip xw by (auto simp: error_skip_def get_hdr_def Let_def)
  show ?thesis
  proof (cases r)
    case None
    then have drop: "\<not> known \<or> cb_errorOffset (cb_header x) + sz \<ge> cb_length (cb_header x)" using d(2) by (metis option.distinct(1))
    obtain mm' where fr: "cmdbuf_header_free_locked e w1 = Inr (w1\<lparr>cman := (cman w1)\<lparr>cm_mm := mm'\<rparr>, hdrs := (hdrs w1)(e := None)\<rparr>)"
        "cb_inv (M + ?H) (w1\<lparr>cman := (cman w1)\<lparr>cm_mm := mm'\<rparr>, hdrs := (hdrs w1)(e := None)\<rparr>)" "mm' = None \<longleftrightarrow> cm_mm (cman w1) = None"
      by (rule free_ok [OF inv1])
    let ?w2 = "w1\<lparr>cman := (cman w1)\<lparr>cm_mm := mm'\<rparr>, hdrs := (hdrs w1)(e := None)\<rparr>"
    have "work_errors (e # es) rh sf w = work_errors es rh True ?w2"
      using xw d(1) drop fr(1) es del by (auto simp: get_hdr_def Let_def w1_def)
    then show ?thesis using fr(2,3) tag None
      by (intro exI [of _ ?w2] exI [of _ rh] exI [of _ True]) (auto simp: w1_def tagged_def)
  next
    case (Some n)
    then have keep: "known" "\<not> cb_errorOffset (cb_header x) + sz \<ge> cb_length (cb_header x)" "n = cb_errorOffset (cb_header x) + sz"
      using d(2) by (auto split: if_splits)
    let ?c = "unat (cb_context x)" and ?x2 = "skip_command (using_mob (cman w)) n x"
    let ?w2 = "w1\<lparr>hdrs := (hdrs w1)(e \<mapsto> ?x2)\<rparr>" and ?rh2 = "rh(?c := rh ?c @ [e])"
    have c: "?c < num_contexts (cman w)" using tage [of e] xw by (simp add: tagged_def)
    have "M + held_by ?rh2 [0..<num_contexts (cman w)] = add_mset e (M + ?H)" using c by (simp add: held_by_upd)
    moreover have "cb_inv (add_mset e (M + ?H)) ?w2"
      by (rule cb_inv_hdrs [OF inv1]) (use x in \<open>auto simp: skip_command_def split: if_splits\<close>)
    moreover have "work_errors (e # es) rh sf w = work_errors es ?rh2 sf ?w2"
      using xw d(1) keep es del by (simp add: get_hdr_def Let_def w1_def)
    moreover have t2: "tagged ?w2 h {d} = tagged w h {d}" for d h
      using xw by (simp add: tagged_def w1_def skip_command_def)
    have "\<forall>d h. h \<in> set (?rh2 d) \<longrightarrow> tagged ?w2 h {d}" unfolding t2 using tag xw by (simp add: tagged_def)
    moreover have "\<forall>d. ?rh2 d = rh d @ (if r \<noteq> None \<and> tagged w e {d} then [e] else [])" using xw Some by (simp add: tagged_def)
    ultimately show ?thesis using Some xw
      by (intro exI [of _ ?w2] exI [of _ ?rh2] exI [of _ sf]) (simp add: w1_def)
  qed
qed

lemma work_errors_ok:
  assumes "cb_inv (M + held_by rh [0..<num_contexts (cman w)]) w" "cm_error (cman w) = es"
    and "\<forall>e\<in>set es. \<exists>r. error_skip w e = Inr r"
    and "\<forall>c h. h \<in> set (rh c) \<longrightarrow> tagged w h {c}"
  shows "\<exists>w' rh' sf'. work_errors es rh sf w = Inr (w', rh', sf') \<and> cb_inv (M + held_by rh' [0..<num_contexts (cman w)]) w' \<and>
     cman w' = (cman w)\<lparr>cm_error := [], cm_mm := cm_mm (cman w')\<rparr> \<and> kmem w' = kmem w \<and>
     (cm_mm (cman w') = None \<longleftrightarrow> cm_mm (cman w) = None) \<and>
     (\<forall>c h. h \<in> set (rh' c) \<longrightarrow> tagged w' h {c}) \<and> (\<forall>c<num_contexts (cman w). rh' c = rh c @ restart_of w es c) \<and>
     (\<forall>h. h \<notin> set es \<longrightarrow> hdrs w' h = hdrs w h) \<and>
     (\<forall>e\<in>set es. \<forall>x n. hdrs w e = Some x \<longrightarrow> error_skip w e = Inr (Some n) \<longrightarrow> hdrs w' e = Some (skip_command (using_mob (cman w)) n x))"
  using assms
proof (induction es arbitrary: w rh sf)
  case Nil
  then show ?case by (intro exI [of _ w] exI [of _ rh] exI [of _ sf]) (simp add: restart_of_def)
next
  case (Cons e es)
  let ?n = "num_contexts (cman w)"
  obtain r where r: "error_skip w e = Inr r" using Cons.prems(3) by auto
  obtain w2 rh2 sf2 where st: "work_errors (e # es) rh sf w = work_errors es rh2 sf2 w2" "cb_inv (M + held_by rh2 [0..<?n]) w2"
     "cman w2 = (cman w)\<lparr>cm_error := es, cm_mm := cm_mm (cman w2)\<rparr>" "kmem w2 = kmem w" "cm_mm (cman w2) = None \<longleftrightarrow> cm_mm (cman w) = None"
     "\<forall>h. h \<noteq> e \<longrightarrow> hdrs w2 h = hdrs w h" "\<forall>c h. h \<in> set (rh2 c) \<longrightarrow> tagged w2 h {c}"
     "\<forall>c<?n. rh2 c = rh c @ (if r \<noteq> None \<and> tagged w e {c} then [e] else [])"
     "\<forall>x n. hdrs w e = Some x \<longrightarrow> r = Some n \<longrightarrow> hdrs w2 e = Some (skip_command (using_mob (cman w)) n x)"
    using work_error_step [OF Cons.prems(1,2) r Cons.prems(4), of sf] by (elim exE conjE) (rule that, assumption+)
  have n2: "num_contexts (cman w2) = ?n" "cm_error (cman w2) = es" "using_mob (cman w2) = using_mob (cman w)" by (subst st(3), simp)+
  have ne: "e \<notin> set es" using error_distinct [OF Cons.prems(1)] Cons.prems(2) by simp
  have same: "hdrs w2 h = hdrs w h" if "h \<in> set es" for h using st(6) that ne by metis
  have sk: "error_skip w2 h = error_skip w h" if "h \<in> set es" for h by (rule error_skip_cong [OF same [OF that] st(4)])
  have ro: "restart_of w2 es c = restart_of w es c" for c by (rule restart_of_cong [OF same st(4)])
  have "\<forall>h\<in>set es. \<exists>r. error_skip w2 h = Inr r" using Cons.prems(3) sk by auto
  from Cons.IH [OF st(2) [folded n2(1)] n2(2) this st(7), of sf2] obtain w' rh' sf' where
     ih: "work_errors es rh2 sf2 w2 = Inr (w', rh', sf')" "cb_inv (M + held_by rh' [0..<?n]) w'"
     "cman w' = (cman w2)\<lparr>cm_error := [], cm_mm := cm_mm (cman w')\<rparr>" "kmem w' = kmem w2"
     "cm_mm (cman w') = None \<longleftrightarrow> cm_mm (cman w2) = None" "\<forall>c h. h \<in> set (rh' c) \<longrightarrow> tagged w' h {c}"
     "\<forall>c<?n. rh' c = rh2 c @ restart_of w2 es c" "\<forall>h. h \<notin> set es \<longrightarrow> hdrs w' h = hdrs w2 h"
     "\<forall>e\<in>set es. \<forall>x n. hdrs w2 e = Some x \<longrightarrow> error_skip w2 e = Inr (Some n) \<longrightarrow> hdrs w' e = Some (skip_command (using_mob (cman w)) n x)"
    unfolding n2(1,3) by (elim exE conjE) (rule that, assumption+)
  have "cman w' = (cman w)\<lparr>cm_error := [], cm_mm := cm_mm (cman w')\<rparr>" by (subst ih(3), subst st(3)) simp
  moreover have "restart_of w (e # es) c = (if r \<noteq> None \<and> tagged w e {c} then [e] else []) @ restart_of w es c" for c
    using r by (auto simp: restart_of_def)
  then have "\<forall>c<?n. rh' c = rh c @ restart_of w (e # es) c" using ih(7) st(8) ro by simp
  moreover have "hdrs w' h = hdrs w h" if "h \<notin> set (e # es)" for h using ih(8) st(6) that by simp
  moreover have "hdrs w' h = Some (skip_command (using_mob (cman w)) n x)"
    if "h \<in> set (e # es)" "hdrs w h = Some x" "error_skip w h = Inr (Some n)" for h x n
    using that ih(8,9) st(9) ne r same sk by (cases "h = e") auto
  ultimately show ?case using st(1,4,5) ih(1,2,4,5,6) by (intro exI [of _ w'] exI [of _ rh'] exI [of _ sf']) simp
qed

lemma cb_inv_block:
  assumes inv: "cb_inv M w"
  shows "cb_inv M (upd_ctx c (\<lambda>x. x\<lparr>block_submission := b\<rparr>) w)" (is "cb_inv M ?w")
proof -
  have q: "queued ?w = queued w" by (simp add: queued_def fun_eq_iff)
  have same: "num_contexts (cman ?w) = num_contexts (cman w)" "hdrs ?w = hdrs w" "cm_error (cman ?w) = cm_error (cman w)"
    "max_hw_submitted (cman ?w) = max_hw_submitted (cman w)" by (simp_all add: upd_ctx_def)
  have "pool_ok {} ?w" by (rule pool_ok_cong [OF cb_invD(4) [OF inv]]) (simp_all add: pool_nodes_def upd_ctx_def)
  then show ?thesis using inv by (simp add: cb_inv_def own_def bufs_def counts_def tags_def tagged_def q same)
qed

lemma block_contexts_ok:
  "cb_inv M w \<Longrightarrow> cb_inv M (block_contexts cs w)" "hdrs (block_contexts cs w) = hdrs w" "kmem (block_contexts cs w) = kmem w"
  "ctx (block_contexts cs w) c = (ctx w c)\<lparr>block_submission := block_submission (ctx w c) \<or> c \<in> set cs\<rparr>"
  "static (cman (block_contexts cs w)) = static (cman w)" "cm_error (cman (block_contexts cs w)) = cm_error (cman w)"
  "cm_mm (cman (block_contexts cs w)) = cm_mm (cman w)"
proof -
  show "cb_inv M w \<Longrightarrow> cb_inv M (block_contexts cs w)" by (induction cs arbitrary: w) (simp_all add: cb_inv_block)
  show "ctx (block_contexts cs w) c = (ctx w c)\<lparr>block_submission := block_submission (ctx w c) \<or> c \<in> set cs\<rparr>"
    by (induction cs arbitrary: w) simp_all
  show "hdrs (block_contexts cs w) = hdrs w" "kmem (block_contexts cs w) = kmem w" "static (cman (block_contexts cs w)) = static (cman w)"
    "cm_error (cman (block_contexts cs w)) = cm_error (cman w)" "cm_mm (cman (block_contexts cs w)) = cm_mm (cman w)"
    by (induction cs arbitrary: w; simp add: upd_ctx_def static_def)+
qed

lemma blocked_process_ok:
  assumes inv: "cb_inv M w" and c: "c < num_contexts (cman w)" and blk: "block_submission (ctx w c)"
  shows "\<exists>w' n gone pre. vmw_cmdbuf_ctx_process dv c w = Inr (w', n) \<and> cb_inv M w' \<and> frame_c c w w' \<and> shrinks w w' \<and>
     hw_submitted (ctx w c) = gone @ hw_submitted (ctx w' c) \<and> submitted (ctx w' c) = submitted (ctx w c) \<and>
     preempted (ctx w' c) = preempted (ctx w c) @ pre \<and> subseq pre gone"
proof -
  have none: "vmw_cmdbuf_ctx_submit dv c v = Inr v" if "block_submission (ctx v c)" for v
    using that by (cases "submitted (ctx v c)") (simp_all add: vmw_cmdbuf_ctx_submit_def)
  obtain w' where w': "ctx_finish_loop dv c (hw_submitted (ctx w c)) w = Inr w'" "cb_inv M w'" "frame_c c w w'" "fifo_c c w w'" "shrinks w w'"
      "submitted (ctx w' c) = submitted (ctx w c)"
    using finish_loop_ok [OF inv c refl] by blast
  have "block_submission (ctx w' c)" using w'(3) blk by (simp add: frame_c_def)
  then have "vmw_cmdbuf_ctx_process dv c w = Inr (w', if submitted (ctx w' c) \<noteq> [] then 1 else 0)"
    using w'(1) none [OF blk] none [of w'] by (simp add: vmw_cmdbuf_ctx_process_def)
  moreover obtain gone pre where "hw_submitted (ctx w c) @ submitted (ctx w c) = gone @ hw_submitted (ctx w' c) @ submitted (ctx w' c)"
      "preempted (ctx w' c) = preempted (ctx w c) @ pre" "subseq pre gone" using w'(4) by (auto simp: fifo_c_def)
  ultimately show ?thesis using w' by (auto simp del: append_assoc simp: append_assoc [symmetric])
qed

definition rerun_queue :: "nat \<Rightarrow> nat list \<Rightarrow> 'd cb_world \<Rightarrow> 'd cb_world \<Rightarrow> bool" where
  \<comment> \<open>the queue of a context after the recovery: what is left of the failed buffers, the preempted ones, the waiting ones\<close>
  "rerun_queue c rest w w' \<longleftrightarrow> (\<exists>gone pre. hw_submitted (ctx w c) = gone @ hw_submitted (ctx w' c) \<and> subseq pre gone \<and>
     submitted (ctx w' c) = rest @ preempted (ctx w c) @ pre @ submitted (ctx w c) \<and> preempted (ctx w' c) = [] \<and> \<not> block_submission (ctx w' c))"

lemma tagged_frame: "frame_c c w w' \<Longrightarrow> tagged w h C \<Longrightarrow> tagged w' h C"
  unfolding frame_c_def tagged_def by (metis core_hdr_eqD(1))

lemma splice_ok:
  assumes inv: "cb_inv (M + mset rest) w" and c: "c < num_contexts (cman w)" and tag: "\<forall>h\<in>set rest. tagged w h {c}"
  defines "f \<equiv> \<lambda>x. x\<lparr>preempted := [], block_submission := False, submitted := rest @ preempted x @ submitted x\<rparr>"
  shows "cb_inv M (upd_ctx c f w)"
proof (rule cb_inv_upd_ctx [OF inv c])
  have q: "queued (upd_ctx c f w) c = hw_submitted (ctx w c) @ rest @ preempted (ctx w c) @ submitted (ctx w c)" by (simp add: queued_def f_def)
  show "M + mset (queued (upd_ctx c f w) c) = M + mset rest + mset (queued w c)" unfolding q by (simp add: queued_def ac_simps)
  show "tagged w h {c}" if "h \<in> set (queued (upd_ctx c f w) c)" for h
    using that tag cb_invD(3) [OF inv] c unfolding q by (auto simp: tags_def queued_def)
qed (use cb_invD(2) [OF inv] c in \<open>simp_all add: counts_def f_def\<close>)

definition frame_r :: "'d cb_world \<Rightarrow> 'd cb_world \<Rightarrow> bool" where
  \<comment> \<open>what the recovery leaves alone\<close>
  "frame_r w w' \<longleftrightarrow> static (cman w') = static (cman w) \<and> kmem w' = kmem w \<and>
     (\<forall>h x'. hdrs w' h = Some x' \<longrightarrow> (\<exists>x. hdrs w h = Some x \<and> core_hdr x' = core_hdr x)) \<and> (cm_mm (cman w') = None \<longleftrightarrow> cm_mm (cman w) = None)"

lemma frame_r_trans [trans]: "frame_r w w1 \<Longrightarrow> frame_r w1 w2 \<Longrightarrow> frame_r w w2"
  unfolding frame_r_def by (metis (no_types, lifting))

lemma frame_c_r: "frame_c c w w' \<Longrightarrow> shrinks w w' \<Longrightarrow> frame_r w w'"
  by (simp add: frame_c_def frame_r_def shrinks_def)

lemma upd_ctx_frame_r: "frame_r w (upd_ctx c f w)"
  by (simp add: frame_r_def upd_ctx_def static_def)

lemma frame_r_tagged: "frame_r w w' \<Longrightarrow> tagged w h C \<Longrightarrow> tagged w' h C"
  unfolding frame_r_def tagged_def by (metis core_hdr_eqD(1))

lemma restart_step:
  assumes inv: "cb_inv (M + mset rest) w" and c: "c < num_contexts (cman w)" and blk: "block_submission (ctx w c)"
    and tag: "\<forall>h\<in>set rest. tagged w h {c}"
  shows "\<exists>w1 n. vmw_cmdbuf_ctx_process dv c w = Inr (w1, n) \<and>
     (let w2 = upd_ctx c (\<lambda>x. x\<lparr>preempted := [], block_submission := False, submitted := rest @ preempted x @ submitted x\<rparr>) w1 in
      cb_inv M w2 \<and> frame_r w w2 \<and> (\<forall>d. d \<noteq> c \<longrightarrow> ctx w2 d = ctx w d) \<and> rerun_queue c rest w w2)"
proof -
  obtain w1 n gone pre where w1: "vmw_cmdbuf_ctx_process dv c w = Inr (w1, n)" "cb_inv (M + mset rest) w1" "frame_c c w w1" "shrinks w w1"
     "hw_submitted (ctx w c) = gone @ hw_submitted (ctx w1 c)" "submitted (ctx w1 c) = submitted (ctx w c)"
     "preempted (ctx w1 c) = preempted (ctx w c) @ pre" "subseq pre gone"
    using blocked_process_ok [OF inv c blk, of dv] by (elim exE conjE) (rule that, assumption+)
  let ?f = "\<lambda>x. x\<lparr>preempted := [], block_submission := False, submitted := rest @ preempted x @ submitted x\<rparr>"
  have c1: "c < num_contexts (cman w1)" using c frame_num [OF w1(3)] by simp
  have "\<forall>h\<in>set rest. tagged w1 h {c}" using tag tagged_frame [OF w1(3)] by blast
  from splice_ok [OF w1(2) c1 this] have "cb_inv M (upd_ctx c ?f w1)" .
  moreover have "frame_r w (upd_ctx c ?f w1)" by (rule frame_r_trans [OF frame_c_r [OF w1(3,4)] upd_ctx_frame_r])
  moreover have "\<forall>d. d \<noteq> c \<longrightarrow> ctx (upd_ctx c ?f w1) d = ctx w d" using w1(3) by (simp add: frame_c_def)
  moreover have "rerun_queue c rest w (upd_ctx c ?f w1)" unfolding rerun_queue_def
    by (rule exI [of _ gone], rule exI [of _ pre]) (use w1(5-) in simp)
  ultimately show ?thesis using w1(1) by (simp add: Let_def)
qed

lemma rerun_queue_cong: "ctx v c = ctx w c \<Longrightarrow> ctx v' c = ctx w' c \<Longrightarrow> rerun_queue c rest v v' = rerun_queue c rest w w'"
  by (simp add: rerun_queue_def)

lemma work_restart_ok:
  assumes "cb_inv (M + held_by rh cs) w" "distinct cs" "set cs \<subseteq> {..<num_contexts (cman w)}" "\<forall>c\<in>set cs. block_submission (ctx w c)"
    and "\<forall>c\<in>set cs. \<forall>h\<in>set (rh c). tagged w h {c}"
  shows "\<exists>w'. work_restart dv rh cs w = Inr w' \<and> cb_inv M w' \<and> frame_r w w' \<and> (\<forall>c. c \<notin> set cs \<longrightarrow> ctx w' c = ctx w c) \<and>
     (\<forall>c\<in>set cs. rerun_queue c (rh c) w w')"
  using assms
proof (induction cs arbitrary: w)
  case Nil
  then show ?case by (simp add: held_by_def frame_r_def)
next
  case (Cons c cs)
  have split: "M + held_by rh (c # cs) = M + held_by rh cs + mset (rh c)" by (simp add: held_by_def)
  let ?f = "\<lambda>x. x\<lparr>preempted := [], block_submission := False, submitted := rh c @ preempted x @ submitted x\<rparr>"
  have "c < num_contexts (cman w)" "block_submission (ctx w c)" "\<forall>h\<in>set (rh c). tagged w h {c}" using Cons.prems(3-) by auto
  from restart_step [OF Cons.prems(1) [unfolded split] this, of dv] obtain w1 n where
    w1: "vmw_cmdbuf_ctx_process dv c w = Inr (w1, n)" "cb_inv (M + held_by rh cs) (upd_ctx c ?f w1)" "frame_r w (upd_ctx c ?f w1)"
      "\<forall>d. d \<noteq> c \<longrightarrow> ctx (upd_ctx c ?f w1) d = ctx w d" "rerun_queue c (rh c) w (upd_ctx c ?f w1)"
    unfolding Let_def by (elim exE conjE) (rule that, assumption+)
  let ?w2 = "upd_ctx c ?f w1"
  have n2: "num_contexts (cman ?w2) = num_contexts (cman w)"
    by (rule static_eqD(12)) (use w1(3) in \<open>simp only: frame_r_def\<close>)
  have other: "d \<noteq> c" if "d \<in> set cs" for d using that Cons.prems(2) by auto
  have pre: "distinct cs" "set cs \<subseteq> {..<num_contexts (cman ?w2)}" using Cons.prems(2,3) n2 by simp_all
  have blk: "\<forall>d\<in>set cs. block_submission (ctx ?w2 d)" using Cons.prems(4) w1(4) other by simp
  have tag: "\<forall>d\<in>set cs. \<forall>h\<in>set (rh d). tagged ?w2 h {d}" using Cons.prems(5) frame_r_tagged [OF w1(3)] by simp
  from Cons.IH [OF w1(2) pre blk tag] obtain w' where ih: "work_restart dv rh cs ?w2 = Inr w'" "cb_inv M w'" "frame_r ?w2 w'"
      "\<forall>d. d \<notin> set cs \<longrightarrow> ctx w' d = ctx ?w2 d" "\<forall>d\<in>set cs. rerun_queue d (rh d) ?w2 w'"
    by (elim exE conjE) (rule that, assumption+)
  have "ctx w' c = ctx ?w2 c" using ih(4) Cons.prems(2) by simp
  then have "rerun_queue c (rh c) w w'" using w1(5) rerun_queue_cong [of w c w ?w2 w'] by simp
  moreover have "rerun_queue d (rh d) w w'" if "d \<in> set cs" for d
    using ih(5) that rerun_queue_cong [of ?w2 d w w' w'] w1(4) other [OF that] by blast
  moreover have "work_restart dv rh (c # cs) w = Inr w'" using w1(1) ih(1) by simp
  moreover have "frame_r w w'" by (rule frame_r_trans [OF w1(3) ih(3)])
  ultimately show ?case using ih(2,4) w1(4) by (intro exI [of _ w']) simp
qed

lemma work_collect_ok:
  assumes inv: "cb_inv M w" and skip: "\<forall>e\<in>set (cm_error (cman w)). \<exists>r. error_skip w e = Inr r"
  shows "\<exists>w' rh sf. work_collect w = Inr (w', rh, sf) \<and> cb_inv (M + held_by rh [0..<num_contexts (cman w)]) w' \<and>
     static (cman w') = static (cman w) \<and> kmem w' = kmem w \<and> (cm_mm (cman w') = None \<longleftrightarrow> cm_mm (cman w) = None) \<and>
     (\<forall>c. ctx w' c = (ctx w c)\<lparr>block_submission := block_submission (ctx w c) \<or> c < num_contexts (cman w)\<rparr>) \<and>
     (\<forall>c h. h \<in> set (rh c) \<longrightarrow> tagged w' h {c}) \<and> (\<forall>c<num_contexts (cman w). rh c = restart_of w (cm_error (cman w)) c) \<and>
     (\<forall>h. h \<notin> set (cm_error (cman w)) \<longrightarrow> hdrs w' h = hdrs w h) \<and>
     (\<forall>e\<in>set (cm_error (cman w)). \<forall>x n. hdrs w e = Some x \<longrightarrow> error_skip w e = Inr (Some n) \<longrightarrow>
        hdrs w' e = Some (skip_command (using_mob (cman w)) n x))"
proof -
  let ?n = "num_contexts (cman w)"
  have inv0: "cb_inv (M + held_by (\<lambda>_. []) [0..<?n]) w" using inv by (simp add: held_by_def)
  have tag0: "\<forall>c h. h \<in> set ((\<lambda>_. []) c :: nat list) \<longrightarrow> tagged w h {c}" by simp
  obtain w1 rh sf where w1: "work_errors (cm_error (cman w)) (\<lambda>_. []) False w = Inr (w1, rh, sf)" "cb_inv (M + held_by rh [0..<?n]) w1"
     "cman w1 = (cman w)\<lparr>cm_error := [], cm_mm := cm_mm (cman w1)\<rparr>" "kmem w1 = kmem w" "cm_mm (cman w1) = None \<longleftrightarrow> cm_mm (cman w) = None"
     "\<forall>c h. h \<in> set (rh c) \<longrightarrow> tagged w1 h {c}" "\<forall>c<?n. rh c = [] @ restart_of w (cm_error (cman w)) c"
     "\<forall>h. h \<notin> set (cm_error (cman w)) \<longrightarrow> hdrs w1 h = hdrs w h"
     "\<forall>e\<in>set (cm_error (cman w)). \<forall>x n. hdrs w e = Some x \<longrightarrow> error_skip w e = Inr (Some n) \<longrightarrow>
        hdrs w1 e = Some (skip_command (using_mob (cman w)) n x)"
    using work_errors_ok [OF inv0 refl skip tag0, of False] by (elim exE conjE) (rule that, assumption+)
  let ?w = "block_contexts [0..<?n] w1"
  have n: "num_contexts (cman w1) = ?n" by (subst w1(3)) simp
  then have "work_collect w = Inr (?w, rh, sf)" using w1(1) by (simp add: work_collect_def)
  moreover have "static (cman ?w) = static (cman w)" unfolding block_contexts_ok(5) by (subst w1(3)) (simp add: static_def)
  moreover have "ctx w1 c = ctx w c" for c by (subst w1(3)) simp
  then have "\<forall>c. ctx ?w c = (ctx w c)\<lparr>block_submission := block_submission (ctx w c) \<or> c < ?n\<rparr>" by (simp add: block_contexts_ok(4))
  moreover have "\<forall>c h. h \<in> set (rh c) \<longrightarrow> tagged ?w h {c}" using w1(6) by (simp add: tagged_def block_contexts_ok(2))
  ultimately show ?thesis using w1(2,4,5,7,8,9) block_contexts_ok(1) [OF w1(2), of "[0..<?n]"]
    by (intro exI [of _ ?w] exI [of _ rh] exI [of _ sf]) (simp add: block_contexts_ok(2,3,7))
qed

lemma restart_contents:
  assumes fr: "frame_r w w'" and inv: "cb_inv M w'" and c: "c < num_contexts (cman w')" and q: "rerun_queue c rest v w'"
    and e: "e \<in> set rest" "hdrs w e = Some x"
  shows "\<exists>x'. hdrs w' e = Some x' \<and> core_hdr x' = core_hdr x"
proof -
  have "e \<in> set (queued w' c)" using q e(1) by (auto simp: rerun_queue_def queued_def)
  then obtain x' where "hdrs w' e = Some x'" using queued_alive [OF inv c] by blast
  then show ?thesis using fr e(2) unfolding frame_r_def by (metis option.inject)
qed

lemma recover_ok:
  assumes ok: "cb_ok M w" and skip: "\<forall>e\<in>set (cm_error (cman w)). \<exists>r. error_skip w e = Inr r"
    and al: "\<And>n. kzalloc_at al = Some n \<Longrightarrow> hdrs w n = None"
  shows "\<exists>w' sf. recover dv al w = Some (Inr (w', sf)) \<and> cb_ok M w' \<and> static (cman w') = static (cman w) \<and>
     (\<forall>h. h \<notin> set (cm_error (cman w)) \<longrightarrow> (\<forall>x'. hdrs w' h = Some x' \<longrightarrow> (\<exists>x. hdrs w h = Some x \<and> core_hdr x' = core_hdr x))) \<and>
     (\<forall>c<num_contexts (cman w). rerun_queue c (restart_of w (cm_error (cman w)) c) w w' \<and>
        (\<forall>e\<in>set (restart_of w (cm_error (cman w)) c). \<forall>n x. error_skip w e = Inr (Some n) \<longrightarrow> hdrs w e = Some x \<longrightarrow>
           (\<exists>x'. hdrs w' e = Some x' \<and> core_hdr x' = core_hdr (skip_command (using_mob (cman w)) n x))))"
proof -
  let ?es = "cm_error (cman w)" and ?n = "num_contexts (cman w)"
  obtain w1 rh sf where w1: "work_collect w = Inr (w1, rh, sf)" "cb_inv (M + cur_buf w + held_by rh [0..<?n]) w1"
     "static (cman w1) = static (cman w)" "kmem w1 = kmem w" "cm_mm (cman w1) = None \<longleftrightarrow> cm_mm (cman w) = None"
     "\<forall>c. ctx w1 c = (ctx w c)\<lparr>block_submission := block_submission (ctx w c) \<or> c < ?n\<rparr>"
     "\<forall>c h. h \<in> set (rh c) \<longrightarrow> tagged w1 h {c}" "\<forall>c<?n. rh c = restart_of w ?es c"
     "\<forall>h. h \<notin> set ?es \<longrightarrow> hdrs w1 h = hdrs w h"
     "\<forall>e\<in>set ?es. \<forall>x n. hdrs w e = Some x \<longrightarrow> error_skip w e = Inr (Some n) \<longrightarrow> hdrs w1 e = Some (skip_command (using_mob (cman w)) n x)"
    using work_collect_ok [OF cb_okD(1) [OF ok] skip] by (elim exE conjE) (rule that, assumption+)
  have errs: "e \<in># bufs w" if "e \<in> set ?es" for e using that by (simp add: bufs_def)
  have al1: "hdrs w1 n = None" if "kzalloc_at al = Some n" for n
  proof -
    have "n \<notin> set ?es" using al [OF that] errs [of n] in_bufs_iff [OF cb_okD(1) [OF ok], of n] by auto
    then show ?thesis using al [OF that] w1(9) by simp
  qed
  obtain w2 ret where pre: "vmw_cmdbuf_preempt dv al 0 w1 = Some (Inr (w2, ret))" "cman w2 = cman w1" "hdrs w2 = hdrs w1"
    using device_command_ok [OF al1, of al "[2, SVGA_CB_CONTEXT_0 + 0, 0]" dv] by (auto simp: vmw_cmdbuf_preempt_def)
  define w3 where "w3 = (if ?es \<noteq> [] then w2 else w1)"
  have lg: "logged (?es \<noteq> []) (vmw_cmdbuf_preempt dv al 0) w1 = Some (Inr w3)" using pre(1) by (simp add: logged_def w3_def)
  have w3: "cman w3 = cman w1" "hdrs w3 = hdrs w1" using pre(2,3) by (simp_all add: w3_def)
  have n3: "num_contexts (cman w3) = ?n" using static_eqD(12) [OF w1(3)] w3(1) by simp
  have inv3: "cb_inv (M + cur_buf w + held_by rh [0..<?n]) w3" by (rule cb_inv_man [OF w1(2)]) (simp_all add: w3)
  have sub: "set [0..<?n] \<subseteq> {..<num_contexts (cman w3)}" unfolding n3 by auto
  have blk: "\<forall>c\<in>set [0..<?n]. block_submission (ctx w3 c)" using w1(6) w3(1) by simp
  have tag: "\<forall>c\<in>set [0..<?n]. \<forall>h\<in>set (rh c). tagged w3 h {c}" using w1(7) w3(2) by (simp add: tagged_def)
  obtain w' where w': "work_restart dv rh [0..<?n] w3 = Inr w'" "cb_inv (M + cur_buf w) w'" "frame_r w3 w'" "\<forall>c\<in>set [0..<?n]. rerun_queue c (rh c) w3 w'"
    using work_restart_ok [OF inv3 distinct_upt sub blk tag, of dv] by (elim exE conjE) (rule that, assumption+)
  have st: "static (cman w') = static (cman w)" using w'(3) w1(3) w3(1) by (simp add: frame_r_def)
  have keep: "\<exists>x. hdrs w h = Some x \<and> core_hdr x' = core_hdr x" if "h \<notin> set ?es" "hdrs w' h = Some x'" for h x'
  proof -
    have "\<exists>x. hdrs w3 h = Some x \<and> core_hdr x' = core_hdr x" using w'(3) that(2) by (simp add: frame_r_def)
    then show ?thesis using w1(9) that(1) w3(2) by simp
  qed
  have run: "recover dv al w = Some (Inr (w', sf))" using w1(1) lg w'(1) n3 by (simp add: recover_def)
  have "cur_ok w'"
  proof (cases "cm_cur (cman w)")
    case (Some cur)
    have "count (bufs w) cur = 0" using bufs_distinct [OF cb_okD(1) [OF ok], of cur] Some by (simp add: cur_buf_def)
    then have "cur \<notin> set ?es" using errs [of cur] by (auto simp: count_eq_zero_iff)
    have "cur_pos (cman w) \<le> hdr_size x'" if h: "hdrs w' cur = Some x'" for x'
    proof -
      obtain x where "hdrs w cur = Some x" "core_hdr x' = core_hdr x" using keep [OF \<open>cur \<notin> set ?es\<close> h] by blast
      then show ?thesis using cb_okD(4) [OF ok] Some core_hdr_eqD(4) [of x' x] by (simp add: cur_ok_def)
    qed
    then show ?thesis using Some static_eqD(1,2) [OF st] by (simp add: cur_ok_def)
  qed (use cb_okD(4) [OF ok] static_eqD(1,2) [OF st] in \<open>simp add: cur_ok_def\<close>)
  moreover have "cm_mm (cman w') = None \<longleftrightarrow> cm_mm (cman w) = None" using w'(3) w1(5) w3(1) by (simp add: frame_r_def)
  ultimately have "cb_ok M w'" using w'(2) ok static_eqD(1,3,7,12) [OF st] by (simp add: cb_ok_def cur_buf_def pool_wf_def)
  moreover have "rerun_queue c (restart_of w ?es c) w w'" if "c < ?n" for c
  proof -
    have "rerun_queue c (restart_of w ?es c) w3 w'" using w'(4) w1(8) that by auto
    then show ?thesis using w1(6) w3(1) by (simp add: rerun_queue_def)
  qed
  moreover have "\<exists>x'. hdrs w' e = Some x' \<and> core_hdr x' = core_hdr (skip_command (using_mob (cman w)) n x)"
    if "c < ?n" "e \<in> set (restart_of w ?es c)" "error_skip w e = Inr (Some n)" "hdrs w e = Some x" for c e n x
  proof (rule restart_contents [OF w'(3,2)])
    show "c < num_contexts (cman w')" using that(1) static_eqD(12) [OF st] by simp
    show "rerun_queue c (rh c) w3 w'" using w'(4) that(1) by simp
    show "e \<in> set (rh c)" using w1(8) that(1,2) by simp
    have "e \<in> set ?es" using that(2) by (simp add: restart_of_def)
    then show "hdrs w3 e = Some (skip_command (using_mob (cman w)) n x)" using w1(10) that(3,4) w3(2) by simp
  qed
  ultimately show ?thesis using run st keep by (intro exI [of _ w'] exI [of _ sf]) blast
qed

section \<open>The states of the manager\<close>

definition man_ok :: "nat multiset \<Rightarrow> 'd cb_world \<Rightarrow> bool" where
  "man_ok M w \<longleftrightarrow> cb_ok M w \<and> (cur_mutex (cman w) \<longrightarrow> reserved_ok w)"

definition fresh_env :: "'d alloc_env \<Rightarrow> 'd cb_world \<Rightarrow> bool" where
  \<comment> \<open>what the code relies on from the allocator of the kernel and from the other threads while it sleeps\<close>
  "fresh_env al w \<longleftrightarrow> (\<forall>n. kzalloc_at al = Some n \<longrightarrow> hdrs w n = None \<and> n \<noteq> 0) \<and> quiet_wakes (wakes al)"

definition new_world :: "vmw_private \<Rightarrow> memory \<Rightarrow> 'd \<Rightarrow> 'd cb_world" where
  "new_world dev mem d = \<lparr>cman = new_man (capabilities dev), hdrs = (\<lambda>_. None),
     cb_dev = vmw_generic_waiter_add SVGA_IRQFLAG_ERROR error_waiters error_waiters_update dev, kmem = mem, cb_env = d\<rparr>"

lemma new_world_ok: "man_ok {#} (new_world dev mem d)"
proof -
  let ?w = "new_world dev mem d"
  have e: "queued ?w c = []" for c by (simp add: queued_def new_world_def new_man_def)
  have "bufs ?w = {#}" using e by (simp add: bufs_def new_world_def new_man_def)
  then have "own {#} ?w" by (simp add: own_def new_world_def)
  moreover have "counts ?w" "tags ?w" using e by (simp_all add: counts_def tags_def) (simp_all add: new_world_def new_man_def)
  moreover have "pool_ok {} ?w" by (simp add: pool_ok_def pool_nodes_def new_world_def new_man_def)
  ultimately show ?thesis
    by (simp add: man_ok_def cb_ok_def cb_inv_def) (simp add: cur_buf_def cur_ok_def pool_wf_def new_world_def new_man_def)
qed

lemma ctx_init_new: "fold vmw_cmdbuf_ctx_init cs (new_world dev mem d) = new_world dev mem d"
  by (induction cs) (simp_all add: vmw_cmdbuf_ctx_init_def upd_ctx_def new_world_def new_man_def fun_upd_idem)

lemma create_ok:
  assumes "vmw_cmdbuf_man_create dv b pools al evs al' dev mem d = Some (Inr (Inr w))"
  shows "man_ok {#} w"
proof -
  have "vmw_cmdbuf_startstop dv al 0 True (new_world dev mem d) = Some (Inr (w, Inr ()))"
    using assms unfolding vmw_cmdbuf_man_create_def Let_def new_world_def [symmetric] ctx_init_new
    by (auto split: if_splits option.splits sum.splits prod.splits)
  moreover obtain w' ret where "vmw_cmdbuf_startstop dv al 0 True (new_world dev mem d) = Some (Inr (w', ret))"
      "cman w' = cman (new_world dev mem d)" "hdrs w' = hdrs (new_world dev mem d)"
    using device_command_ok [of al "new_world dev mem d" "[1, 1, 0]" dv] by (auto simp: vmw_cmdbuf_startstop_def new_world_def)
  ultimately have same: "cman w = cman (new_world dev mem d)" "hdrs w = hdrs (new_world dev mem d)" by simp_all
  then show ?thesis using new_world_ok [of dev mem d] cb_ok_same [of "{#}" "new_world dev mem d" w]
    by (simp add: man_ok_def reserved_ok_def)
qed

lemma man_ok_same:
  assumes ok: "man_ok M w" and inv: "cb_inv (M + cur_buf w) w'" and same: "hdrs w' = hdrs w" "num_contexts (cman w') = num_contexts (cman w)"
    "cm_cur (cman w') = cm_cur (cman w)" "cur_pos (cman w') = cur_pos (cman w)" "cur_mutex (cman w') = cur_mutex (cman w)" and pool: "pool_wf w'"
  shows "man_ok M w'"
proof -
  have "cur_ok w'" using ok by (cases "cm_cur (cman w)") (simp_all add: man_ok_def cb_ok_def cur_ok_def same)
  then show ?thesis using ok inv pool by (simp add: man_ok_def cb_ok_def cur_buf_def reserved_ok_def same)
qed

lemma set_pool_ok:
  assumes ok: "man_ok M w" and none: "cm_mm (cman w) = None" and sz: "0 < sz" "unat sz + 4095 < 2 ^ 64"
  shows "man_ok M (fst (vmw_cmdbuf_set_pool_size dma bo kmap sz w))" (is "man_ok M ?w")
proof (cases "cm_mm (cman ?w) = None")
  case True
  have same: "cman ?w = (cman w)\<lparr>cm_map := cm_map (cman ?w), using_mob := using_mob (cman ?w)\<rparr>" "hdrs ?w = hdrs w"
    using True by (auto simp: vmw_cmdbuf_set_pool_size_def Let_def split: if_splits option.splits sum.splits)
  have f: "cm_ctx (cman ?w) = cm_ctx (cman w)" "cm_error (cman ?w) = cm_error (cman w)" "cm_size (cman ?w) = cm_size (cman w)"
    "num_contexts (cman ?w) = num_contexts (cman w)" "max_hw_submitted (cman ?w) = max_hw_submitted (cman w)" "cm_cur (cman ?w) = cm_cur (cman w)"
    "cur_pos (cman ?w) = cur_pos (cman w)" "has_pool (cman ?w) = has_pool (cman w)" "default_size (cman ?w) = default_size (cman w)"
    "cur_mutex (cman ?w) = cur_mutex (cman w)"
    by (subst same(1), simp)+
  have "cb_ok M w" using ok by (simp add: man_ok_def)
  then have "cb_inv (M + cur_buf w) ?w" by (intro cb_inv_man [OF cb_okD(1)]) (use True none f in \<open>simp_all add: same(2)\<close>)
  then show ?thesis by (rule man_ok_same [OF ok]) (use True none ok in \<open>simp_all add: f same(2) pool_wf_def man_ok_def cb_ok_def\<close>)
next
  case False
  let ?s = "PAGE_ALIGN sz"
  have same: "cman ?w = (cman w)\<lparr>cm_map := cm_map (cman ?w), cm_handle := cm_handle (cman ?w), cm_mobid := cm_mobid (cman ?w),
      using_mob := using_mob (cman ?w), cm_size := ?s, cm_mm := Some (drm_mm_init 0 (drop_bit 12 ?s)), has_pool := True,
      default_size := VMW_CMDBUF_INLINE_SIZE\<rparr>" "hdrs ?w = hdrs w"
    using False none by (auto simp: vmw_cmdbuf_set_pool_size_def Let_def split: if_splits option.splits sum.splits)
  have f: "cm_ctx (cman ?w) = cm_ctx (cman w)" "cm_error (cman ?w) = cm_error (cman w)" "cm_size (cman ?w) = ?s"
    "num_contexts (cman ?w) = num_contexts (cman w)" "max_hw_submitted (cman ?w) = max_hw_submitted (cman w)" "cm_cur (cman ?w) = cm_cur (cman w)"
    "cur_pos (cman ?w) = cur_pos (cman w)" "default_size (cman ?w) = 960" "cur_mutex (cman ?w) = cur_mutex (cman w)"
    "cm_mm (cman ?w) = Some (drm_mm_init 0 (drop_bit 12 ?s))"
    by (subst same(1), simp)+
  have inv: "cb_inv (M + cur_buf w) w" using ok cb_okD(1) by (auto simp: man_ok_def)
  have q: "queued ?w = queued w" by (simp add: queued_def fun_eq_iff f)
  have "0 < unat (pages_of sz)" using unat_pages_of [OF sz(2)] sz(1) by (simp add: word_less_nat_alt)
  then have "mm_ok 0 (drop_bit 12 ?s) (drm_mm_init 0 (drop_bit 12 ?s))"
    using mm_init_ok [of 0 "drop_bit 12 ?s"] by (simp add: pages_of_def word_less_nat_alt)
  moreover have "pool_nodes ?w = {}" "0 \<notin> dom (hdrs ?w)" "node_list (drm_mm_init 0 (drop_bit 12 ?s)) = []"
    using cb_invD(4) [OF inv] none by (simp_all add: pool_ok_def pool_nodes_def same(2) drm_mm_init_def)
  ultimately have "pool_ok {} ?w" by (simp add: pool_ok_def f)
  then have "cb_inv (M + cur_buf w) ?w" using inv by (simp add: cb_inv_def own_def bufs_def counts_def tags_def tagged_def q f same(2))
  then show ?thesis by (rule man_ok_same [OF ok]) (simp_all add: f same(2) pool_wf_def)
qed

lemma reserved_keep:
  assumes res: "reserved_ok w" and ok: "cb_ok M w'" and same: "cm_cur (cman w') = cm_cur (cman w)" "cur_pos (cman w') = cur_pos (cman w)"
    and hdr: "\<And>h x'. cm_cur (cman w) = Some h \<Longrightarrow> hdrs w' h = Some x' \<Longrightarrow> \<exists>x. hdrs w h = Some x \<and> core_hdr x' = core_hdr x"
  shows "reserved_ok w'"
proof -
  obtain cur x where cur: "cm_cur (cman w) = Some cur" "hdrs w cur = Some x" "unat (cur_pos (cman w)) + unat (hdr_reserved x) \<le> unat (hdr_size x)"
    using res by (auto simp: reserved_ok_def)
  obtain x' where x': "hdrs w' cur = Some x'" by (rule cur_alive [OF ok]) (use same(1) cur(1) in simp)
  then have "core_hdr x' = core_hdr x" using hdr [OF cur(1) x'] cur(2) by simp
  then show ?thesis using cur x' same core_hdr_eqD(4,5) [of x' x] by (simp add: reserved_ok_def)
qed

text \<open>
  What threads do with the manager, one call at a time; \<open>M\<close> are the buffers that they hold. \<open>vmw_cmdbuf_work_func\<close> gives up the lock
  between its two critical sections, while it sends the preempt command. So besides \<open>recovery\<close>, the two sections without another thread between
  them, each section is a step of its own, \<open>collect\<close> and \<open>restart\<close>, and between them, when the worker holds the
  buffers to rerun, every other step is possible. The contexts stay blocked in the meantime: only
  the second section unblocks them, and \<open>error_mutex\<close> excludes another run of the worker.
\<close>

inductive cb_reach :: "'d cb_device \<Rightarrow> nat multiset \<Rightarrow> 'd cb_world \<Rightarrow> bool" for dv where
  create: "vmw_cmdbuf_man_create dv b pools al evs al' dev mem d = Some (Inr (Inr w)) \<Longrightarrow> cb_reach dv {#} w"
| pool: "cb_reach dv M w \<Longrightarrow> cm_mm (cman w) = None \<Longrightarrow> 0 < sz \<Longrightarrow> unat sz + 4095 < 2 ^ 64 \<Longrightarrow>
    vmw_cmdbuf_set_pool_size dma bo kmap sz w = (w', ret) \<Longrightarrow> cb_reach dv M w'"
| outside: "cb_reach dv M w \<Longrightarrow> cb_reach dv M (w\<lparr>cb_dev := dev, kmem := mem, cb_env := d\<rparr>)"
| interrupt: "cb_reach dv M w \<Longrightarrow> vmw_cmdbuf_irqthread dv w = Inr w' \<Longrightarrow> cb_reach dv M w'"
| alloc: "cb_reach dv M w \<Longrightarrow> fresh_env al w \<Longrightarrow> unat sz + 4095 < 2 ^ 64 \<Longrightarrow>
    vmw_cmdbuf_alloc dv al sz interruptible w = Some (Inr (w', Inr h)) \<Longrightarrow> cb_reach dv (add_mset h M) w'"
| alloc_fails: "cb_reach dv M w \<Longrightarrow> fresh_env al w \<Longrightarrow> unat sz + 4095 < 2 ^ 64 \<Longrightarrow>
    vmw_cmdbuf_alloc dv al sz interruptible w = Some (Inr (w', Inl e)) \<Longrightarrow> cb_reach dv M w'"
| free: "cb_reach dv (add_mset h M) w \<Longrightarrow> vmw_cmdbuf_header_free h w = Inr w' \<Longrightarrow> cb_reach dv M w'"
| reserve: "cb_reach dv (add_mset h M) w \<Longrightarrow>
    vmw_cmdbuf_reserve dv al sg sz ctx_id interruptible (Some h) w = Some (Inr (w', r)) \<Longrightarrow> cb_reach dv (add_mset h M) w'"
| commit: "cb_reach dv (add_mset h M) w \<Longrightarrow> \<not> cur_mutex (cman w) \<Longrightarrow> hdrs w h = Some x \<Longrightarrow> sz \<le> hdr_size x \<Longrightarrow>
    vmw_cmdbuf_commit dv sz (Some h) flush w = Inr w' \<Longrightarrow> cb_reach dv M w'"
| reserve_cur: "cb_reach dv M w \<Longrightarrow> \<not> cur_mutex (cman w) \<Longrightarrow> fresh_env al w \<Longrightarrow> unat (cur_pos (cman w)) + unat sz + 4095 < 2 ^ 64 \<Longrightarrow>
    vmw_cmdbuf_reserve dv al sg sz ctx_id interruptible None w = Some (Inr (w', r)) \<Longrightarrow> cb_reach dv M w'"
| commit_cur: "cb_reach dv M w \<Longrightarrow> cur_mutex (cman w) \<Longrightarrow> cm_cur (cman w) = Some h \<Longrightarrow> hdrs w h = Some x \<Longrightarrow> sz \<le> hdr_reserved x \<Longrightarrow>
    vmw_cmdbuf_commit dv sz None flush w = Inr w' \<Longrightarrow> cb_reach dv M w'"
| flush: "cb_reach dv M w \<Longrightarrow> \<not> cur_mutex (cman w) \<Longrightarrow> vmw_cmdbuf_cur_flush dv interruptible sg w = Inr (w', r) \<Longrightarrow> cb_reach dv M w'"
| recovery: "cb_reach dv M w \<Longrightarrow> \<forall>e\<in>set (cm_error (cman w)). \<exists>r. error_skip w e = Inr r \<Longrightarrow> fresh_env al w \<Longrightarrow>
    recover dv al w = Some (Inr (w', sf)) \<Longrightarrow> cb_reach dv M w'"
| collect: "cb_reach dv M w \<Longrightarrow> \<forall>e\<in>set (cm_error (cman w)). \<exists>r. error_skip w e = Inr r \<Longrightarrow>
    work_collect w = Inr (w', restart_head, sf) \<Longrightarrow> cb_reach dv (M + held_by restart_head [0..<num_contexts (cman w)]) w'"
| restart: "cb_reach dv (M + held_by restart_head [0..<num_contexts (cman w)]) w \<Longrightarrow>
    \<forall>c<num_contexts (cman w). block_submission (ctx w c) \<and> (\<forall>h\<in>set (restart_head c). tagged w h {c}) \<Longrightarrow>
    work_restart dv restart_head [0..<num_contexts (cman w)] w = Inr w' \<Longrightarrow> cb_reach dv M w'"

lemma not_cur:
  assumes "cb_ok (add_mset h M) w" shows "cm_cur (cman w) \<noteq> Some h"
proof -
  have "count (cur_buf w) h = 0" using bufs_distinct [OF cb_okD(1) [OF assms], of h] by simp
  then show ?thesis by (auto simp: cur_buf_def)
qed

lemma man_ok_frame:
  assumes "man_ok M w" "cb_ok M' w'" "frame_g w w'" shows "man_ok M' w'"
proof -
  have "reserved_ok w'" if "reserved_ok w"
    by (rule reserved_keep [OF that assms(2) frame_gD(1,2) [OF assms(3)] frame_g_hdr [OF assms(3)]])
  then show ?thesis using assms(1,2) frame_gD(12) [OF assms(3)] by (simp add: man_ok_def)
qed

lemma man_ok_interrupt:
  assumes "man_ok M w" "vmw_cmdbuf_irqthread dv w = Inr w'" shows "man_ok M w'"
proof -
  have "cb_ok M w" using assms(1) by (simp add: man_ok_def)
  then obtain w1 where "vmw_cmdbuf_man_process dv w = Inr w1" "cb_ok M w1" "frame_g w w1" using man_process_keeps by blast
  then show ?thesis using man_ok_frame [OF assms(1)] assms(2) by (simp add: vmw_cmdbuf_irqthread_def)
qed

lemma man_ok_alloc:
  assumes ok: "man_ok M w" and al: "fresh_env al w" "unat sz + 4095 < 2 ^ 64"
  shows "\<nexists>e. vmw_cmdbuf_alloc dv al sz interruptible w = Some (Inl e)"
    "vmw_cmdbuf_alloc dv al sz interruptible w = Some (Inr (w', Inl e)) \<Longrightarrow> man_ok M w'"
    "vmw_cmdbuf_alloc dv al sz interruptible w = Some (Inr (w', Inr h)) \<Longrightarrow> man_ok (add_mset h M) w'"
proof -
  have k: "cb_ok M w" using ok by (simp add: man_ok_def)
  have n: "\<And>n. kzalloc_at al = Some n \<Longrightarrow> hdrs w n = None \<and> n \<noteq> 0" and q: "quiet_wakes (wakes al)" using al(1) by (simp_all add: fresh_env_def)
  note keeps = alloc_keeps [OF k n al(2) q, of dv interruptible]
  show "\<nexists>e. vmw_cmdbuf_alloc dv al sz interruptible w = Some (Inl e)" using keeps by auto
  show "man_ok M w'" if "vmw_cmdbuf_alloc dv al sz interruptible w = Some (Inr (w', Inl e))"
    using keeps that man_ok_frame [OF ok, of M w'] by simp
  show "man_ok (add_mset h M) w'" if "vmw_cmdbuf_alloc dv al sz interruptible w = Some (Inr (w', Inr h))"
  proof -
    have w': "cb_ok (add_mset h M) w'" "cm_cur (cman w') = cm_cur (cman w)" "cur_pos (cman w') = cur_pos (cman w)"
        "cur_mutex (cman w') = cur_mutex (cman w)" "frame_g w (w'\<lparr>hdrs := (hdrs w')(h := None)\<rparr>)" using keeps that by simp_all
    have "\<exists>x. hdrs w c = Some x \<and> core_hdr x' = core_hdr x" if "cm_cur (cman w) = Some c" "hdrs w' c = Some x'" for c x'
      using frame_g_hdr [OF w'(5), of c x'] not_cur [OF w'(1)] that w'(2) by auto
    then show ?thesis using ok w' reserved_keep [of w "add_mset h M" w'] by (simp add: man_ok_def)
  qed
qed

lemma man_ok_free:
  assumes ok: "man_ok (add_mset h M) w"
  shows "\<exists>w'. vmw_cmdbuf_header_free h w = Inr w' \<and> man_ok M w'"
proof -
  have k: "cb_ok (add_mset h M) w" using ok by (simp add: man_ok_def)
  obtain w' where w': "vmw_cmdbuf_header_free h w = Inr w'" "cb_ok M w'" using header_free_keeps [OF k] by blast
  have same: "cm_cur (cman w') = cm_cur (cman w)" "cur_pos (cman w') = cur_pos (cman w)" "cur_mutex (cman w') = cur_mutex (cman w)"
      "hdrs w' = (hdrs w)(h := None)"
    using w'(1) by (auto simp: vmw_cmdbuf_header_free_def vmw_cmdbuf_header_inline_free_def cmdbuf_header_free_locked_def
        split: if_splits option.splits)
  have "reserved_ok w'" if "reserved_ok w"
    by (rule reserved_keep [OF that w'(2) same(1,2)]) (use not_cur [OF k] same(4) in \<open>auto split: if_splits\<close>)
  then show ?thesis using w' ok same(3) by (auto simp: man_ok_def)
qed

lemma man_ok_reserve:
  assumes ok: "man_ok (add_mset h M) w"
  shows "\<exists>w' r. vmw_cmdbuf_reserve dv al sg sz ctx_id interruptible (Some h) w = Some (Inr (w', r)) \<and> man_ok (add_mset h M) w'"
proof -
  have k: "cb_ok (add_mset h M) w" using ok by (simp add: man_ok_def)
  obtain x where x: "hdrs w h = Some x" by (rule held_alive [OF cb_okD(1) [OF k], of h]) simp
  note keeps = reserve_in_keeps(1,2) [OF k x, of sz ctx_id]
  have "reserved_ok (reserve_in h sz ctx_id w)" if "reserved_ok w"
    by (rule reserved_keep [OF that keeps(1)]) (use not_cur [OF k] keeps(2) in \<open>auto simp: reserve_in_def split: if_splits\<close>)
  then have "man_ok (add_mset h M) (reserve_in h sz ctx_id w)" using ok keeps by (simp add: man_ok_def)
  then show ?thesis using ok x by (auto simp: vmw_cmdbuf_reserve_def get_hdr_def)
qed

lemma man_ok_commit:
  assumes ok: "man_ok (add_mset h M) w" and sz: "hdrs w h = Some x" "sz \<le> hdr_size x"
  shows "\<exists>w'. vmw_cmdbuf_commit dv sz (Some h) flush w = Inr w' \<and> man_ok M w'"
proof -
  have k: "cb_ok (add_mset h M) w" using ok by (simp add: man_ok_def)
  have "sz \<le> hdr_size y" if "hdrs w h = Some y" for y using that sz by simp
  from commit_header_keeps [OF k this, of dv flush] show ?thesis by (auto simp: man_ok_def)
qed

lemma man_ok_reserve_cur:
  assumes ok: "man_ok M w" and free: "\<not> cur_mutex (cman w)" and al: "fresh_env al w" and sz: "unat (cur_pos (cman w)) + unat sz + 4095 < 2 ^ 64"
    and run: "vmw_cmdbuf_reserve dv al sg sz ctx_id interruptible None w = Some (Inr (w', r))"
  shows "man_ok M w'" "r = Inr p \<Longrightarrow> reserved_at sz w' p"
proof -
  have k: "cb_ok M w" using ok by (simp add: man_ok_def)
  have n: "\<And>n. kzalloc_at al = Some n \<Longrightarrow> hdrs w n = None \<and> n \<noteq> 0" and q: "quiet_wakes (wakes al)" using al by (simp_all add: fresh_env_def)
  have s: "unat sz + 4095 < 2 ^ 64" "unat (cur_pos (cman w)) + unat sz < 2 ^ 64" using sz by simp_all
  note keeps = reserve_cur_keeps [OF k n s q, of dv sg ctx_id interruptible]
  have run': "vmw_cmdbuf_reserve_cur dv al sg sz ctx_id interruptible w = Some (Inr (w', r))" using run by (simp add: vmw_cmdbuf_reserve_def)
  show "man_ok M w'"
  proof (cases r)
    case (Inl e)
    then show ?thesis using keeps run' free by (simp add: man_ok_def)
  next
    case (Inr a)
    then have "cb_ok M w'" "reserved_at sz w' a" using keeps run' by simp_all
    then show ?thesis by (auto simp: man_ok_def reserved_at_def reserved_ok_def)
  qed
  show "r = Inr p \<Longrightarrow> reserved_at sz w' p" using keeps run' by simp
qed

lemma man_ok_commit_cur:
  assumes ok: "man_ok M w" and cur: "cur_mutex (cman w)" "cm_cur (cman w) = Some h" "hdrs w h = Some x" "sz \<le> hdr_reserved x"
  shows "\<exists>w'. vmw_cmdbuf_commit dv sz None flush w = Inr w' \<and> man_ok M w' \<and>
    (\<not> flush \<longrightarrow> cm_cur (cman w') = Some h \<and> unat (cur_pos (cman w')) = unat (cur_pos (cman w)) + unat sz)"
proof -
  have k: "cb_ok M w" "reserved_ok w" using ok cur(1) by (simp_all add: man_ok_def)
  have "\<exists>w'. vmw_cmdbuf_commit_cur dv sz flush w = Inr w' \<and> cb_ok M w' \<and> \<not> cur_mutex (cman w') \<and>
    (\<not> flush \<longrightarrow> cm_cur (cman w') = cm_cur (cman w) \<and> unat (cur_pos (cman w')) = unat (cur_pos (cman w)) + unat sz)"
    by (rule commit_cur_keeps [OF k]) (use cur in simp)
  then show ?thesis using cur(2) by (auto simp: man_ok_def vmw_cmdbuf_commit_def)
qed

lemma man_ok_flush:
  assumes ok: "man_ok M w" and free: "\<not> cur_mutex (cman w)"
  shows "\<exists>w' r. vmw_cmdbuf_cur_flush dv interruptible sg w = Inr (w', r) \<and> man_ok M w'"
proof (cases "interruptible \<and> sg")
  case True
  then show ?thesis using ok by (simp add: vmw_cmdbuf_cur_flush_def vmw_cmdbuf_cur_lock_def)
next
  case False
  let ?w = "upd_man_rec (\<lambda>m. m\<lparr>cur_mutex := True\<rparr>) w"
  have "cb_ok M ?w" by (rule cur_lock_keeps) (use ok in \<open>simp add: man_ok_def\<close>)
  then obtain w1 where w1: "cmdbuf_cur_flush_locked dv ?w = Inr w1" "cb_ok M w1" using flush_locked_ok by blast
  have "vmw_cmdbuf_cur_flush dv interruptible sg w = Inr (vmw_cmdbuf_cur_unlock w1, Inr ())"
    using False w1(1) by (simp add: vmw_cmdbuf_cur_flush_def vmw_cmdbuf_cur_lock_def)
  moreover have "man_ok M (vmw_cmdbuf_cur_unlock w1)" using cur_lock_keeps [OF w1(2), of False] by (simp add: man_ok_def vmw_cmdbuf_cur_unlock_def)
  ultimately show ?thesis by blast
qed

lemma man_ok_recover:
  assumes ok: "man_ok M w" and skip: "\<forall>e\<in>set (cm_error (cman w)). \<exists>r. error_skip w e = Inr r" and al: "fresh_env al w"
  shows "\<exists>w' sf. recover dv al w = Some (Inr (w', sf)) \<and> man_ok M w'"
proof -
  have k: "cb_ok M w" using ok by (simp add: man_ok_def)
  have n: "\<And>n. kzalloc_at al = Some n \<Longrightarrow> hdrs w n = None" using al by (simp add: fresh_env_def)
  obtain w' sf where w': "recover dv al w = Some (Inr (w', sf))" "cb_ok M w'" "static (cman w') = static (cman w)"
      "\<forall>h. h \<notin> set (cm_error (cman w)) \<longrightarrow> (\<forall>x'. hdrs w' h = Some x' \<longrightarrow> (\<exists>x. hdrs w h = Some x \<and> core_hdr x' = core_hdr x))"
    using recover_ok [OF k skip n, of al dv] by blast
  have "c \<notin> set (cm_error (cman w))" if "cm_cur (cman w) = Some c" for c
  proof -
    have "count (bufs w) c = 0" using bufs_distinct [OF cb_okD(1) [OF k], of c] that by (simp add: cur_buf_def)
    then show ?thesis by (auto simp: bufs_def)
  qed
  then have "reserved_ok w'" if "reserved_ok w"
    by (intro reserved_keep [OF that w'(2) static_eqD(1,2) [OF w'(3)]]) (use w'(4) in blast)
  then show ?thesis using ok w'(1,2) static_eqD(13) [OF w'(3)] by (auto simp: man_ok_def)
qed

lemma man_ok_collect:
  assumes ok: "man_ok M w" and skip: "\<forall>e\<in>set (cm_error (cman w)). \<exists>r. error_skip w e = Inr r" and run: "work_collect w = Inr (w', rh, sf)"
  shows "man_ok (M + held_by rh [0..<num_contexts (cman w)]) w'"
proof -
  let ?es = "cm_error (cman w)" and ?H = "held_by rh [0..<num_contexts (cman w)]"
  have k: "cb_ok M w" using ok by (simp add: man_ok_def)
  have w': "cb_inv (M + cur_buf w + ?H) w'" "static (cman w') = static (cman w)" "cm_mm (cman w') = None \<longleftrightarrow> cm_mm (cman w) = None"
      "\<forall>h. h \<notin> set ?es \<longrightarrow> hdrs w' h = hdrs w h"
    using work_collect_ok [OF cb_okD(1) [OF k] skip] run by auto
  have cur: "c \<notin> set ?es" if "cm_cur (cman w) = Some c" for c
  proof -
    have "count (bufs w) c = 0" using bufs_distinct [OF cb_okD(1) [OF k], of c] that by (simp add: cur_buf_def)
    then show ?thesis by (auto simp: bufs_def)
  qed
  have "cb_inv (M + ?H + cur_buf w') w'" using w'(1) static_eqD(1) [OF w'(2)] by (simp add: cur_buf_def ac_simps)
  moreover have "cur_ok w'" using cb_okD(4) [OF k] static_eqD(1,2) [OF w'(2)] cur w'(4)
    by (cases "cm_cur (cman w)") (simp_all add: cur_ok_def)
  ultimately have ok': "cb_ok (M + ?H) w'" using w'(3) k static_eqD(1,3,7,12) [OF w'(2)] by (simp add: cb_ok_def pool_wf_def)
  have "reserved_ok w'" if "reserved_ok w"
    by (rule reserved_keep [OF that ok' static_eqD(1,2) [OF w'(2)]]) (use cur w'(4) in auto)
  then show ?thesis using ok ok' static_eqD(13) [OF w'(2)] by (auto simp: man_ok_def)
qed

lemma man_ok_restart:
  assumes ok: "man_ok (M + held_by rh [0..<num_contexts (cman w)]) w"
    and blk: "\<forall>c<num_contexts (cman w). block_submission (ctx w c) \<and> (\<forall>h\<in>set (rh c). tagged w h {c})"
  shows "\<exists>w'. work_restart dv rh [0..<num_contexts (cman w)] w = Inr w' \<and> man_ok M w' \<and>
    (\<forall>c<num_contexts (cman w). rerun_queue c (rh c) w w')"
proof -
  let ?n = "num_contexts (cman w)"
  have k: "cb_ok (M + held_by rh [0..<?n]) w" using ok by (simp add: man_ok_def)
  have inv: "cb_inv (M + cur_buf w + held_by rh [0..<?n]) w" using cb_okD(1) [OF k] by (simp add: ac_simps)
  obtain w' where w': "work_restart dv rh [0..<?n] w = Inr w'" "cb_inv (M + cur_buf w) w'" "frame_r w w'" "\<forall>c\<in>set [0..<?n]. rerun_queue c (rh c) w w'"
    using work_restart_ok [OF inv distinct_upt, of dv] blk by (force simp: atLeast0LessThan)
  have st: "static (cman w') = static (cman w)" and keep: "\<And>h x'. hdrs w' h = Some x' \<Longrightarrow> \<exists>x. hdrs w h = Some x \<and> core_hdr x' = core_hdr x"
    and mm: "cm_mm (cman w') = None \<longleftrightarrow> cm_mm (cman w) = None" using w'(3) by (auto simp: frame_r_def)
  have "cur_ok w'"
  proof (cases "cm_cur (cman w)")
    case (Some cur)
    have "cur_pos (cman w) \<le> hdr_size x'" if h: "hdrs w' cur = Some x'" for x'
    proof -
      obtain x where "hdrs w cur = Some x" "core_hdr x' = core_hdr x" using keep [OF h] by blast
      then show ?thesis using cb_okD(4) [OF k] Some core_hdr_eqD(4) [of x' x] by (simp add: cur_ok_def)
    qed
    then show ?thesis using Some static_eqD(1,2) [OF st] by (simp add: cur_ok_def)
  qed (use cb_okD(4) [OF k] static_eqD(1,2) [OF st] in \<open>simp add: cur_ok_def\<close>)
  then have ok': "cb_ok M w'" using w'(2) k mm static_eqD(1,3,7,12) [OF st] by (simp add: cb_ok_def cur_buf_def pool_wf_def)
  have "reserved_ok w'" if "reserved_ok w" by (rule reserved_keep [OF that ok' static_eqD(1,2) [OF st] keep])
  then show ?thesis using ok ok' w'(1,4) static_eqD(13) [OF st] by (auto simp: man_ok_def)
qed

lemma man_ok_outside: "man_ok M w \<Longrightarrow> man_ok M (w\<lparr>cb_dev := dev, kmem := mem, cb_env := d\<rparr>)"
  using cb_ok_same [of M w "w\<lparr>cb_dev := dev, kmem := mem, cb_env := d\<rparr>"] by (simp add: man_ok_def reserved_ok_def)

lemma reach_ok: "cb_reach dv M w \<Longrightarrow> man_ok M w"
proof (induction rule: cb_reach.induct)
  case (pool M w sz dma bo kmap w' ret)
  then show ?case using set_pool_ok [of M w sz dma bo kmap] by simp
next
  case (free h M w w')
  then show ?case using man_ok_free by fastforce
next
  case (reserve h M w al sg sz ctx_id interruptible w' r)
  then show ?case using man_ok_reserve [of h M w dv al sg sz ctx_id interruptible] by auto
next
  case (commit h M w x sz fl w')
  then show ?case using man_ok_commit [of h M w x sz dv fl] by auto
next
  case (commit_cur M w h x sz fl w')
  then show ?case using man_ok_commit_cur [of M w h x sz dv fl] by auto
next
  case (flush M w interruptible sg w' r)
  then show ?case using man_ok_flush [of M w dv interruptible sg] by auto
next
  case (recovery M w al w' sf)
  then show ?case using man_ok_recover [of M w al dv] by auto
next
  case (restart M restart_head w w')
  then show ?case using man_ok_restart [of M restart_head w dv] by auto
qed (blast intro: create_ok man_ok_outside man_ok_interrupt man_ok_collect man_ok_alloc(2,3) man_ok_reserve_cur(1))+

section \<open>Examples\<close>

text \<open>A device that fails every buffer at its first command; the memory holds two update commands.\<close>

definition sample_device :: "unit cb_device" where
  "sample_device = \<lparr>dev_submit = (\<lambda>high low d. (if low AND 63 = 63 then Some (SVGA_CB_STATUS_COMPLETED, 0) else None, d)),
     dev_poll = (\<lambda>handle d. (Some (SVGA_CB_STATUS_COMMAND_ERROR, 0), d))\<rparr>"

definition sample_alloc :: "nat \<Rightarrow> unit alloc_env" where
  "sample_alloc n = \<lparr>kzalloc_at = Some n, dma_at = Some (4096, 8192), space_signal = False, wakes = []\<rparr>"

definition sample_dev :: vmw_private where "sample_dev = idle_dev\<lparr>capabilities := SVGA_CAP_COMMAND_BUFFERS\<rparr>"

definition sample_new :: "unit cb_world" where
  "sample_new = new_world sample_dev (\<lambda>_. 0) ()"

lemmas alloc_inline_eval = vmw_cmdbuf_alloc_def vmw_cmdbuf_space_inline_def sample_alloc_def sample_device_def
  get_hdr_def Let_def zero_cb_def device_writes_def

definition sample_started :: "unit cb_world" where
  "sample_started = sample_new\<lparr>kmem := write_words (\<lambda>_. 0) 8256 [1, 1, 0],
     cb_dev := vmw_write SVGA_REG_COMMAND_LOW 4159 (vmw_write SVGA_REG_COMMAND_HIGH 0 (cb_dev sample_new))\<rparr>"

lemma sample_startstop: "vmw_cmdbuf_startstop sample_device (sample_alloc 4) 0 True sample_new = Some (Inr (sample_started, Inr ()))"
  by (simp add: vmw_cmdbuf_startstop_def vmw_cmdbuf_send_device_command_def alloc_inline_eval vmw_cmdbuf_header_submit_def
    vmw_cmdbuf_header_free_def vmw_cmdbuf_header_inline_free_def sample_started_def sample_new_def new_world_def fun_upd_idem)

lemma sample_started_reach: "cb_reach sample_device {#} sample_started"
proof (rule cb_reach.create)
  show "vmw_cmdbuf_man_create sample_device True (True, True) (sample_alloc 4) [] (sample_alloc 4) sample_dev (\<lambda>_. 0) () = Some (Inr (Inr sample_started))"
    unfolding vmw_cmdbuf_man_create_def Let_def new_world_def [symmetric] ctx_init_new
    unfolding sample_new_def [symmetric] sample_startstop
    by (simp add: sample_dev_def)
qed

definition sample_hdr :: vmw_cmdbuf_header where
  "sample_hdr = \<lparr>cb_header = zero_cb\<lparr>cb_ptr := 4160\<rparr>, cb_context = 0, hdr_handle = 4096, hdr_cmd = 8256, hdr_size = 960,
     hdr_reserved = 0, inline_space = True\<rparr>"

definition sample_mem :: memory where "sample_mem = write_words (\<lambda>_. 0) 8256 [1, 0, 0, 8, 8, 1, 0, 0, 8, 8]"

definition sample_held :: "unit cb_world" where
  "sample_held = sample_started\<lparr>hdrs := [8 \<mapsto> sample_hdr], cb_dev := cb_dev sample_started, kmem := sample_mem, cb_env := ()\<rparr>"

lemma sample_held_reach: "cb_reach sample_device {#8#} sample_held"
proof -
  have run: "vmw_cmdbuf_alloc sample_device (sample_alloc 8) 40 False sample_started = Some (Inr (sample_started\<lparr>hdrs := [8 \<mapsto> sample_hdr]\<rparr>, Inr 8))"
    by (simp add: alloc_inline_eval sample_started_def sample_new_def new_world_def sample_hdr_def)
  have f: "fresh_env (sample_alloc 8) sample_started" by (simp add: fresh_env_def sample_alloc_def sample_started_def sample_new_def new_world_def)
  from cb_reach.alloc [OF sample_started_reach f _ run] have "cb_reach sample_device {#8#} (sample_started\<lparr>hdrs := [8 \<mapsto> sample_hdr]\<rparr>)" by simp
  from cb_reach.outside [OF this, of "()" sample_mem "cb_dev sample_started"]
  show ?thesis by (simp add: sample_held_def)
qed

lemmas commit_eval = vmw_cmdbuf_commit_def cmdbuf_cur_flush_locked_def vmw_cmdbuf_ctx_add_def vmw_cmdbuf_man_process.simps
  vmw_cmdbuf_ctx_process_def vmw_cmdbuf_ctx_submit_def vmw_cmdbuf_header_submit_def read_status_def finish_entry_def hw_add_def hw_del_def
  upd_ctx_def upd_cb_def vmw_cmdbuf_cur_lock_def vmw_cmdbuf_cur_unlock_def sample_device_def get_hdr_def Let_def device_writes_def zero_cb_def

lemmas sample_eval = sample_held_def sample_started_def sample_new_def new_world_def new_man_def sample_dev_def idle_dev_def sample_hdr_def

definition sample_failed :: "unit cb_world" where
  "sample_failed = sample_held\<lparr>cman := (cman sample_held)\<lparr>cm_ctx := (cm_ctx (cman sample_held))(0 := ctx sample_held 0), cm_error := [8], cm_work := True\<rparr>,
     hdrs := [8 \<mapsto> sample_hdr\<lparr>cb_header := (cb_header sample_hdr)\<lparr>cb_length := 40\<rparr>\<rparr>],
     cb_dev := vmw_write SVGA_REG_COMMAND_LOW 4096 (vmw_write SVGA_REG_COMMAND_HIGH 0 (cb_dev sample_held))\<rparr>"

lemma sample_failed_reach: "cb_reach sample_device {#} sample_failed"
proof (rule cb_reach.commit)
  show "cb_reach sample_device (add_mset 8 {#}) sample_held" by (rule sample_held_reach)
  show "vmw_cmdbuf_commit sample_device 40 (Some 8) True sample_held = Inr sample_failed"
    by (simp add: commit_eval upt_rec sample_failed_def sample_eval)
  show "hdrs sample_held 8 = Some sample_hdr" "40 \<le> hdr_size sample_hdr" "\<not> cur_mutex (cman sample_held)" by (simp_all add: sample_eval)
qed

lemma sample_failed_skip: "cm_error (cman sample_failed) = [8]" "error_skip sample_failed 8 = Inr (Some 20)"
  by (simp_all add: error_skip_def get_hdr_def sample_failed_def sample_hdr_def zero_cb_def vmw_cmd_describe_def Let_def read32_def
    sample_held_def sample_mem_def write32_def word_le_nat_alt)

lemma sample_failed_fresh: "fresh_env (sample_alloc 12) sample_failed"
  by (simp add: fresh_env_def sample_alloc_def sample_failed_def)

section \<open>What the manager guarantees\<close>

lemma reach_owned:
  assumes "cb_reach dv M w"
  shows "bufs w + cur_buf w + M = mset_set (dom (hdrs w))"
    and "c < num_contexts (cman w) \<Longrightarrow> h \<in> set (queued w c) \<Longrightarrow> \<exists>x. hdrs w h = Some x \<and> unat (cb_context x) = c"
    and "c < num_contexts (cman w) \<Longrightarrow> length (hw_submitted (ctx w c)) \<le> unat (max_hw_submitted (cman w))"
    and "cm_mm (cman w) = Some mm \<Longrightarrow> h \<in> pool_nodes w \<Longrightarrow> k \<in> pool_nodes w \<Longrightarrow> h \<noteq> k \<Longrightarrow> span mm h \<inter> span mm k = {}"
proof -
  have inv: "cb_inv (M + cur_buf w) w" using reach_ok [OF assms] cb_okD(1) by (auto simp: man_ok_def)
  show "bufs w + cur_buf w + M = mset_set (dom (hdrs w))" using cb_invD(1) [OF inv] by (simp add: own_def ac_simps)
  show "\<exists>x. hdrs w h = Some x \<and> unat (cb_context x) = c" if "c < num_contexts (cman w)" "h \<in> set (queued w c)"
  proof (rule queued_alive [OF inv that])
    fix x assume "hdrs w h = Some x"
    then show ?thesis using cb_invD(3) [OF inv] that by (auto simp: tags_def tagged_def)
  qed
  show "length (hw_submitted (ctx w c)) \<le> unat (max_hw_submitted (cman w))" if "c < num_contexts (cman w)"
    using cb_invD(2) [OF inv] that by (auto simp: counts_def word_le_nat_alt)
  show "span mm h \<inter> span mm k = {}" if "cm_mm (cman w) = Some mm" "h \<in> pool_nodes w" "k \<in> pool_nodes w" "h \<noteq> k"
  proof -
    have "mm_ok 0 (drop_bit 12 (cm_size (cman w))) mm" "set (node_list mm) = pool_nodes w" using cb_invD(4) [OF inv] that(1) by (simp_all add: pool_ok_def)
    then show ?thesis using mm_ok_disjoint that(2-) by blast
  qed
qed

lemma reach_total:
  assumes "cb_reach dv M w"
  shows "\<exists>w'. vmw_cmdbuf_irqthread dv w = Inr w'"
    and "h \<in># M \<Longrightarrow> \<exists>w'. vmw_cmdbuf_header_free h w = Inr w'"
    and "h \<in># M \<Longrightarrow> \<exists>w' r. vmw_cmdbuf_reserve dv al sg sz ctx_id interruptible (Some h) w = Some (Inr (w', r))"
    and "h \<in># M \<Longrightarrow> hdrs w h = Some x \<Longrightarrow> sz \<le> hdr_size x \<Longrightarrow> \<exists>w'. vmw_cmdbuf_commit dv sz (Some h) flush w = Inr w'"
    and "\<not> cur_mutex (cman w) \<Longrightarrow> \<exists>w' r. vmw_cmdbuf_cur_flush dv interruptible sg w = Inr (w', r)"
    and "fresh_env al w \<Longrightarrow> unat sz + 4095 < 2 ^ 64 \<Longrightarrow> vmw_cmdbuf_alloc dv al sz interruptible w \<noteq> Some (Inl e)"
    and "fresh_env al w \<Longrightarrow> \<forall>e\<in>set (cm_error (cman w)). \<exists>r. error_skip w e = Inr r \<Longrightarrow> \<exists>w' sf. recover dv al w = Some (Inr (w', sf))"
proof -
  note ok = reach_ok [OF assms]
  have held: "man_ok (add_mset h (M - {#h#})) w" if "h \<in># M" for h using ok that by simp
  show "\<exists>w'. vmw_cmdbuf_irqthread dv w = Inr w'" using man_process_keeps [of M w dv] ok by (auto simp: man_ok_def vmw_cmdbuf_irqthread_def)
  show "\<exists>w'. vmw_cmdbuf_header_free h w = Inr w'" if "h \<in># M" using man_ok_free [OF held [OF that]] by blast
  show "\<exists>w' r. vmw_cmdbuf_reserve dv al sg sz ctx_id interruptible (Some h) w = Some (Inr (w', r))" if "h \<in># M"
    using man_ok_reserve [OF held [OF that]] by blast
  show "\<exists>w'. vmw_cmdbuf_commit dv sz (Some h) flush w = Inr w'" if "h \<in># M" "hdrs w h = Some x" "sz \<le> hdr_size x"
    using man_ok_commit [OF held [OF that(1)] that(2,3)] by blast
  show "\<exists>w' r. vmw_cmdbuf_cur_flush dv interruptible sg w = Inr (w', r)" if "\<not> cur_mutex (cman w)" using man_ok_flush [OF ok that] by blast
  show "vmw_cmdbuf_alloc dv al sz interruptible w \<noteq> Some (Inl e)" if "fresh_env al w" "unat sz + 4095 < 2 ^ 64"
    using man_ok_alloc(1) [OF ok that] by blast
  show "\<exists>w' sf. recover dv al w = Some (Inr (w', sf))" if "fresh_env al w" "\<forall>e\<in>set (cm_error (cman w)). \<exists>r. error_skip w e = Inr r"
    using man_ok_recover [OF ok that(2,1)] by blast
qed

text \<open>
  C5: Every command buffer has one owner. In every state that calls of the manager reach, in any order, with any device and any
  answer of the kernel, the headers in memory are exactly those on the queues of the contexts, on the error list, the current
  buffer and the ones that callers hold, each once; a queue holds buffers of its own context, at most \<open>max_hw_submitted\<close> of
  a context are at the device, and the buffers in the pool occupy disjoint page ranges.
\<close>
theorem cmdbuf_ownership:
  assumes "cb_reach dv M w"
  shows "bufs w + cur_buf w + M = mset_set (dom (hdrs w)) \<and>
    (\<forall>c<num_contexts (cman w). length (hw_submitted (ctx w c)) \<le> unat (max_hw_submitted (cman w)) \<and>
       (\<forall>h\<in>set (queued w c). \<exists>x. hdrs w h = Some x \<and> unat (cb_context x) = c)) \<and>
    (\<forall>mm h k. cm_mm (cman w) = Some mm \<longrightarrow> h \<in> pool_nodes w \<longrightarrow> k \<in> pool_nodes w \<longrightarrow> h \<noteq> k \<longrightarrow> span mm h \<inter> span mm k = {})"
  using reach_owned [OF assms] by blast

theorem cmdbuf_ownership_witness:
  "cb_reach sample_device {#} sample_failed \<and> bufs sample_failed + cur_buf sample_failed + {#} = mset_set {8}"
proof -
  have "dom (hdrs sample_failed) = {8}" by (simp add: sample_failed_def)
  then show ?thesis using cmdbuf_ownership [OF sample_failed_reach] sample_failed_reach by simp
qed



text \<open>
  C19: Buffers finish in the order in which they were queued. Processing the manager takes buffers off the front of what a context has at the
  device and waiting, keeps the others in their order, and appends the preempted ones to the preempted queue in their order; the manager asks for
  the command buffer interrupt exactly while buffers wait, and the count of waiters of that interrupt says so.
\<close>
theorem man_process_in_order:
  assumes "cb_reach dv M w"
  shows "\<exists>w'. vmw_cmdbuf_man_process dv w = Inr w' \<and>
    (\<forall>c. \<exists>gone pre. hw_submitted (ctx w c) @ submitted (ctx w c) = gone @ hw_submitted (ctx w' c) @ submitted (ctx w' c) \<and>
       preempted (ctx w' c) = preempted (ctx w c) @ pre \<and> subseq pre gone) \<and>
    (irq_on (cman w') \<longleftrightarrow> (\<exists>c<num_contexts (cman w'). submitted (ctx w' c) \<noteq> [])) \<and>
    cmdbuf_waiters (cb_dev w') - of_bool (irq_on (cman w')) = cmdbuf_waiters (cb_dev w) - of_bool (irq_on (cman w))"
proof -
  have "cb_inv (M + cur_buf w) w" using reach_ok [OF assms] cb_okD(1) by (auto simp: man_ok_def)
  from man_process_ok [OF this, of dv] obtain w' where "vmw_cmdbuf_man_process dv w = Inr w'" "frame_g w w'" "fifo_g w w'"
      "irq_on (cman w') \<longleftrightarrow> (\<exists>c<num_contexts (cman w'). submitted (ctx w' c) \<noteq> [])" by blast
  then show ?thesis by (intro exI [of _ w']) (simp add: fifo_g_def fifo_c_def frame_g_def)
qed

theorem man_process_in_order_witness:
  "cb_reach sample_device {#8#} sample_held \<and> (\<exists>w'. vmw_cmdbuf_man_process sample_device sample_held = Inr w')"
  using man_process_in_order [OF sample_held_reach] sample_held_reach by blast

text \<open>The two halves of a pointer into a MOB.\<close>

lemma mob_ptr_halves: "(ucast (mob_ptr m off) :: u32) = m" "(ucast (drop_bit 32 (mob_ptr m off)) :: u32) = off"
proof -
  have "\<not> bit m (32 + n)" for n using bit_imp_le_length [of m "32 + n"] by auto
  then show "(ucast (mob_ptr m off) :: u32) = m" "(ucast (drop_bit 32 (mob_ptr m off)) :: u32) = off"
    by (auto intro!: bit_word_eqI simp: mob_ptr_def bit_simps)
qed

text \<open>
  The second critical section, whatever other threads have done since the first: it puts the buffers to rerun and then the preempted ones
  in front of those that wait by now.
\<close>
lemma restart_in_order:
  assumes "cb_reach dv (M + held_by rh [0..<num_contexts (cman w)]) w"
    and "\<forall>c<num_contexts (cman w). block_submission (ctx w c) \<and> (\<forall>h\<in>set (rh c). tagged w h {c})"
  shows "\<exists>w'. work_restart dv rh [0..<num_contexts (cman w)] w = Inr w' \<and> cb_reach dv M w' \<and>
    (\<forall>c<num_contexts (cman w). rerun_queue c (rh c) w w')"
  using man_ok_restart [OF reach_ok [OF assms(1)] assms(2), of dv] cb_reach.restart [OF assms] by blast



text \<open>
  C30: Kernel commands get room of their own in the current buffer. A reservation that succeeds returns the address right after the bytes that were committed to the
  current buffer, with all of the reserved room inside the buffer; committing any part of it moves the end of the committed bytes by
  exactly that much, so that the next reservation starts behind it.
\<close>
theorem reserve_commit_appends:
  assumes "cb_reach dv M w" "\<not> cur_mutex (cman w)" "fresh_env al w" "unat (cur_pos (cman w)) + unat sz + 4095 < 2 ^ 64"
    and "vmw_cmdbuf_reserve dv al sg sz ctx_id i None w = Some (Inr (w1, Inr p))"
  shows "\<exists>cur x. cm_cur (cman w1) = Some cur \<and> hdrs w1 cur = Some x \<and> p = hdr_cmd x + unat (cur_pos (cman w1)) \<and>
    p + unat sz \<le> hdr_cmd x + unat (hdr_size x) \<and>
    (\<forall>n. n \<le> sz \<longrightarrow> (\<exists>w2. vmw_cmdbuf_commit dv n None False w1 = Inr w2 \<and> cm_cur (cman w2) = Some cur \<and>
       hdr_cmd x + unat (cur_pos (cman w2)) = p + unat n))"
proof -
  note res = man_ok_reserve_cur [OF reach_ok [OF assms(1)] assms(2-)]
  obtain cur x where x: "cur_mutex (cman w1)" "cm_cur (cman w1) = Some cur" "hdrs w1 cur = Some x" "hdr_reserved x = sz"
      "p = hdr_cmd x + unat (cur_pos (cman w1))" "unat (cur_pos (cman w1)) + unat sz \<le> unat (hdr_size x)"
    using res(2) [OF refl] by (auto simp: reserved_at_def)
  have "\<exists>w2. vmw_cmdbuf_commit dv n None False w1 = Inr w2 \<and> cm_cur (cman w2) = Some cur \<and> hdr_cmd x + unat (cur_pos (cman w2)) = p + unat n"
    if "n \<le> sz" for n
    using man_ok_commit_cur [OF res(1) x(1-3), of n dv False] that x(4,5) by auto
  then show ?thesis using x by (intro exI [of _ cur] exI [of _ x]) simp
qed

lemma sample_reserve:
  "vmw_cmdbuf_reserve sample_device (sample_alloc 8) False 40 SVGA3D_INVALID_ID False None sample_started =
     Some (Inr (sample_started\<lparr>cman := (cman sample_started)\<lparr>cur_mutex := True, cm_cur := Some 8\<rparr>, hdrs := [8 \<mapsto> sample_hdr\<lparr>hdr_reserved := 40\<rparr>]\<rparr>, Inr 8256))"
  by (simp add: vmw_cmdbuf_reserve_def vmw_cmdbuf_reserve_cur_def vmw_cmdbuf_cur_lock_def alloc_inline_eval reserve_in_def set_dx_context_def
    max_def sample_eval)

theorem reserve_commit_appends_witness:
  "\<exists>w1. vmw_cmdbuf_reserve sample_device (sample_alloc 8) False 40 SVGA3D_INVALID_ID False None sample_started = Some (Inr (w1, Inr 8256)) \<and>
     (\<exists>w2. vmw_cmdbuf_commit sample_device 16 None False w1 = Inr w2)"
proof -
  have "\<not> cur_mutex (cman sample_started)" "fresh_env (sample_alloc 8) sample_started" "unat (cur_pos (cman sample_started)) + unat (40 :: u64) + 4095 < 2 ^ 64"
    by (simp_all add: fresh_env_def sample_alloc_def sample_eval)
  from reserve_commit_appends [OF sample_started_reach this sample_reserve] sample_reserve show ?thesis
    by (auto dest: spec [where x = 16])
qed

section \<open>Divergences\<close>

text \<open>A commit of no bytes clears the DX flag of the current buffer, whatever has been committed to it before; the
  flush of the buffer then also clears its DX context.\<close>

lemma empty_commit_drops_dx_context:
  assumes "cm_cur (cman w) = Some cur" "hdrs w cur = Some x"
  shows "\<exists>w' x'. vmw_cmdbuf_commit dv 0 None False w = Inr w' \<and> cur_pos (cman w') = cur_pos (cman w) \<and> hdrs w' cur = Some x' \<and>
    cb_flags (cb_header x') AND SVGA_CB_FLAG_DX_CONTEXT = 0"
proof -
  have "(cb_flags (cb_header x) AND NOT 2) AND 2 = 0" by (simp add: and.assoc)
  then show ?thesis using assms
    by (simp add: vmw_cmdbuf_commit_def vmw_cmdbuf_commit_cur_def get_hdr_def upd_cb_def vmw_cmdbuf_cur_unlock_def Let_def)
qed

text \<open>The recovery advances the pointer of a buffer as a MOB offset whenever the pool is a MOB, but the pointer of an inline
  buffer is an address: the rest of it is not rerun from the next command.\<close>

lemma inline_buffer_advanced_as_mob:
  "inline_space sample_hdr \<and> cb_ptr (cb_header (skip_command True 20 sample_hdr)) \<noteq> cb_ptr (cb_header sample_hdr) + 20"
  by (simp add: skip_command_def advance_ptr_def mob_ptr_def sample_hdr_def)

text \<open>A wait for idle that a signal keeps from flushing the current buffer still reports success while its commands have not been sent.\<close>

lemma idle_ignores_interrupted_flush:
  "let w = sample_started\<lparr>cman := (cman sample_started)\<lparr>cm_cur := Some 8, cur_pos := 40\<rparr>, hdrs := [8 \<mapsto> sample_hdr]\<rparr> in
   \<exists>w'. vmw_cmdbuf_idle sample_device True True [] w = Some (Inr (w', Inr ())) \<and> cm_cur (cman w') = Some 8 \<and> cur_pos (cman w') = 40"
  by (simp add: Let_def vmw_cmdbuf_idle_def vmw_cmdbuf_cur_flush_def vmw_cmdbuf_man_idle_def commit_eval upt_rec sample_eval)

end
