(* ===== verification/Binding.thy ===== *)
theory Binding
  imports Vmw_Prelude
begin

text \<open>
  The context binding manager of \<open>src/vmwgfx_binding.c\<close>. It knows which resource is bound where in every context, so
  that the bindings to a resource can be scrubbed from the contexts in the device before the resource is swapped out, and be
  made again when it is back. Commands of user space stage bindings; they are committed to the context when the commands
  have been submitted.

  Binding states are kept in a map from their addresses, the storage of a binding is a location in a state. A list head is
  the list of the locations that are on it. The state of a context is found by \<open>ctx_state\<close>, and \<open>binding_head\<close> is the list
  that a resource has of the bindings to it. Commands to the device are collected in \<open>cmds\<close>, in the order in which they
  are committed to the FIFO; whether the FIFO has room for the next one is \<open>fifo_room\<close>. The use of a null pointer or of a
  location outside of a state is \<open>OOPS\<close>.
\<close>

section \<open>State\<close>

datatype vmw_ctx_binding_type =
    vmw_ctx_binding_shader | vmw_ctx_binding_rt | vmw_ctx_binding_tex | vmw_ctx_binding_cb | vmw_ctx_binding_dx_shader
  | vmw_ctx_binding_dx_rt | vmw_ctx_binding_sr | vmw_ctx_binding_ds | vmw_ctx_binding_so | vmw_ctx_binding_vb | vmw_ctx_binding_ib

abbreviation (input) INVALID_RES :: u32 where "INVALID_RES \<equiv> - 1" \<comment> \<open>\<open>SVGA3D_INVALID_ID\<close>\<close>
abbreviation (input) SVGA3D_RT_MAX :: nat where "SVGA3D_RT_MAX \<equiv> 10"
abbreviation (input) SVGA3D_MAX_SIMULTANEOUS_RENDER_TARGETS :: nat where "SVGA3D_MAX_SIMULTANEOUS_RENDER_TARGETS \<equiv> 8"
abbreviation (input) SVGA3D_NUM_TEXTURE_UNITS :: nat where "SVGA3D_NUM_TEXTURE_UNITS \<equiv> 32"
abbreviation (input) SVGA3D_DX_MAX_SOTARGETS :: nat where "SVGA3D_DX_MAX_SOTARGETS \<equiv> 4"
abbreviation (input) SVGA3D_DX_MAX_VERTEXBUFFERS :: nat where "SVGA3D_DX_MAX_VERTEXBUFFERS \<equiv> 32"
abbreviation (input) SVGA3D_DX_MAX_SRVIEWS :: nat where "SVGA3D_DX_MAX_SRVIEWS \<equiv> 128"
abbreviation (input) SVGA3D_DX_MAX_CONSTBUFFERS :: nat where "SVGA3D_DX_MAX_CONSTBUFFERS \<equiv> 16"
abbreviation (input) SVGA3D_NUM_SHADERTYPE_DX10 :: nat where "SVGA3D_NUM_SHADERTYPE_DX10 \<equiv> 3"
abbreviation (input) SVGA3D_SHADERTYPE_MIN :: nat where "SVGA3D_SHADERTYPE_MIN \<equiv> 1"
abbreviation (input) SVGA3D_TS_BIND_TEXTURE :: nat where "SVGA3D_TS_BIND_TEXTURE \<equiv> 1"

text \<open>Where \<open>struct vmw_ctx_binding_state\<close> has room for a binding; the shader slot is first where there is one.\<close>

datatype bind_loc =
    per_shader_shader nat | per_shader_const_buffers nat nat | per_shader_shader_res nat nat
  | render_targets nat | texture_units nat | ds_view | so_targets nat | vertex_buffers nat | index_buffer

text \<open>\<open>struct vmw_ctx_bindinfo\<close> with the fields of the structures that are derived from it.\<close>

record vmw_ctx_bindinfo =
  bi_ctx :: "nat option"
  bi_res :: "nat option"
  bi_bt :: vmw_ctx_binding_type
  scrubbed :: bool
  bi_shader_slot :: nat
  bi_slot :: nat
  texture_stage :: nat
  bi_offset :: u32
  bi_size :: u32
  bi_stride :: u32
  bi_format :: u32

record vmw_ctx_binding_state =
  cbs_list :: "bind_loc list"
  slots :: "bind_loc \<Rightarrow> vmw_ctx_bindinfo"
  dirty :: "nat \<Rightarrow> bool"
  dirty_vb :: "nat \<Rightarrow> bool"
  dirty_sr :: "nat \<Rightarrow> nat \<Rightarrow> bool" \<comment> \<open>\<open>per_shader[i].dirty_sr\<close>\<close>
  ps_dirty :: "nat \<Rightarrow> bool" \<comment> \<open>the only bit of \<open>per_shader[i].dirty\<close>\<close>

abbreviation (input) VMW_BINDING_RT_BIT :: nat where "VMW_BINDING_RT_BIT \<equiv> 0"
abbreviation (input) VMW_BINDING_PS_BIT :: nat where "VMW_BINDING_PS_BIT \<equiv> 1"
abbreviation (input) VMW_BINDING_SO_BIT :: nat where "VMW_BINDING_SO_BIT \<equiv> 2"
abbreviation (input) VMW_BINDING_VB_BIT :: nat where "VMW_BINDING_VB_BIT \<equiv> 3"
abbreviation (input) VMW_BINDING_NUM_BITS :: nat where "VMW_BINDING_NUM_BITS \<equiv> 4"

text \<open>The bodies of the commands.\<close>

datatype bind_cmd =
    SVGA3dCmdSetShader (cmd_cid: u32) nat u32
  | SVGA3dCmdSetRenderTarget (cmd_cid: u32) nat u32 nat nat
  | SVGA3dCmdSetTextureState (cmd_cid: u32) nat nat u32
  | SVGA3dCmdDXSetShader u32 nat
  | SVGA3dCmdDXSetSingleConstantBuffer nat nat u32 u32 u32
  | SVGA3dCmdDXSetShaderResources nat nat "u32 list"
  | SVGA3dCmdDXSetRenderTargets u32 "u32 list"
  | SVGA3dCmdDXSetSOTargets "(u32 \<times> u32 \<times> u32) list"
  | SVGA3dCmdDXSetVertexBuffers nat "(u32 \<times> u32 \<times> u32) list"
  | SVGA3dCmdDXSetIndexBuffer u32 u32 u32

record bind_world =
  states :: "nat \<Rightarrow> vmw_ctx_binding_state option"
  ctx_state :: "nat \<Rightarrow> nat option" \<comment> \<open>\<open>vmw_context_binding_state\<close>\<close>
  res_ids :: "nat \<Rightarrow> u32"
  binding_head :: "nat \<Rightarrow> (nat \<times> bind_loc) list"
  fifo_room :: "nat \<Rightarrow> bool"
  reservations :: nat
  cmds :: "(u32 option \<times> bind_cmd) list" \<comment> \<open>with the DX context of the reservation\<close>

definition get_state :: "bind_world \<Rightarrow> nat \<Rightarrow> vmw_ctx_binding_state kres" where
  "get_state w s = (case states w s of None \<Rightarrow> Inl OOPS | Some cbs \<Rightarrow> Inr cbs)"

definition upd_state :: "nat \<Rightarrow> (vmw_ctx_binding_state \<Rightarrow> vmw_ctx_binding_state) \<Rightarrow> bind_world \<Rightarrow> bind_world" where
  "upd_state s f w = w\<lparr>states := (states w)(s := map_option f (states w s))\<rparr>"

definition upd_slot :: "bind_loc \<Rightarrow> (vmw_ctx_bindinfo \<Rightarrow> vmw_ctx_bindinfo) \<Rightarrow> vmw_ctx_binding_state \<Rightarrow> vmw_ctx_binding_state" where
  "upd_slot l f cbs = cbs\<lparr>slots := (slots cbs)(l := f (slots cbs l))\<rparr>"

definition get_bi :: "bind_world \<Rightarrow> nat \<times> bind_loc \<Rightarrow> vmw_ctx_bindinfo kres" where
  "get_bi w e = kbind (get_state w (fst e)) (\<lambda>cbs. Inr (slots cbs (snd e)))"

definition the_ptr :: "'a option \<Rightarrow> 'a kres" where
  "the_ptr p = (case p of None \<Rightarrow> Inl OOPS | Some x \<Rightarrow> Inr x)"

section \<open>Tracking bindings\<close>

definition in_array :: "nat \<Rightarrow> nat \<Rightarrow> bind_loc \<Rightarrow> bind_loc kres" where
  "in_array i n l = (if i < n then Inr l else Inl OOPS)"

definition vmw_binding_loc :: "vmw_ctx_binding_type \<Rightarrow> nat \<Rightarrow> nat \<Rightarrow> bind_loc kres" where
  \<comment> \<open>with the tables of offsets and sizes\<close>
  "vmw_binding_loc bt shader_slot slot =
     (case bt of
        vmw_ctx_binding_shader \<Rightarrow> kbind (in_array shader_slot SVGA3D_NUM_SHADERTYPE_DX10 (per_shader_shader shader_slot)) (in_array slot 1)
      | vmw_ctx_binding_dx_shader \<Rightarrow> kbind (in_array shader_slot SVGA3D_NUM_SHADERTYPE_DX10 (per_shader_shader shader_slot)) (in_array slot 1)
      | vmw_ctx_binding_rt \<Rightarrow> kbind (in_array shader_slot 1 (render_targets slot)) (in_array slot SVGA3D_RT_MAX)
      | vmw_ctx_binding_dx_rt \<Rightarrow> kbind (in_array shader_slot 1 (render_targets slot)) (in_array slot SVGA3D_RT_MAX)
      | vmw_ctx_binding_tex \<Rightarrow> kbind (in_array shader_slot 1 (texture_units slot)) (in_array slot SVGA3D_NUM_TEXTURE_UNITS)
      | vmw_ctx_binding_cb \<Rightarrow>
          kbind (in_array shader_slot SVGA3D_NUM_SHADERTYPE_DX10 (per_shader_const_buffers shader_slot slot)) (in_array slot SVGA3D_DX_MAX_CONSTBUFFERS)
      | vmw_ctx_binding_sr \<Rightarrow>
          kbind (in_array shader_slot SVGA3D_NUM_SHADERTYPE_DX10 (per_shader_shader_res shader_slot slot)) (in_array slot SVGA3D_DX_MAX_SRVIEWS)
      | vmw_ctx_binding_ds \<Rightarrow> kbind (in_array shader_slot 1 ds_view) (in_array slot 1)
      | vmw_ctx_binding_so \<Rightarrow> kbind (in_array shader_slot 1 (so_targets slot)) (in_array slot SVGA3D_DX_MAX_SOTARGETS)
      | vmw_ctx_binding_vb \<Rightarrow> kbind (in_array shader_slot 1 (vertex_buffers slot)) (in_array slot SVGA3D_DX_MAX_VERTEXBUFFERS)
      | vmw_ctx_binding_ib \<Rightarrow> kbind (in_array shader_slot 1 index_buffer) (in_array slot 1))"

definition vmw_binding_drop :: "nat \<times> bind_loc \<Rightarrow> bind_world \<Rightarrow> bind_world kres" where
  \<comment> \<open>the binding is taken off the list of whatever resource has it\<close>
  "vmw_binding_drop e w =
     kbind (get_state w (fst e)) (\<lambda>_.
       Inr (upd_state (fst e) (\<lambda>cbs. upd_slot (snd e) (\<lambda>bi. bi\<lparr>bi_ctx := None\<rparr>) (cbs\<lparr>cbs_list := removeAll (snd e) (cbs_list cbs)\<rparr>))
              (w\<lparr>binding_head := (\<lambda>r. removeAll e (binding_head w r))\<rparr>)))"

definition vmw_binding_add :: "nat \<Rightarrow> vmw_ctx_bindinfo \<Rightarrow> nat \<Rightarrow> nat \<Rightarrow> bind_world \<Rightarrow> bind_world kres" where
  "vmw_binding_add s bi shader_slot slot w =
     kbind (vmw_binding_loc (bi_bt bi) shader_slot slot) (\<lambda>l.
     kbind (get_bi w (s, l)) (\<lambda>b.
     kbind (if bi_ctx b \<noteq> None then vmw_binding_drop (s, l) w else Inr w) (\<lambda>w1.
       Inr (upd_state s (\<lambda>cbs. (upd_slot l (\<lambda>_. bi\<lparr>scrubbed := False\<rparr>) cbs)\<lparr>cbs_list := l # cbs_list cbs\<rparr>) w1))))"

definition vmw_binding_transfer :: "nat \<Rightarrow> nat \<Rightarrow> bind_loc \<Rightarrow> bind_world \<Rightarrow> bind_world kres" where
  "vmw_binding_transfer cbs from l w =
     kbind (get_bi w (from, l)) (\<lambda>bi.
     kbind (get_bi w (cbs, l)) (\<lambda>b.
     kbind (if bi_ctx b \<noteq> None then vmw_binding_drop (cbs, l) w else Inr w) (\<lambda>w1.
       case bi_res bi of None \<Rightarrow> Inr w1
       | Some r \<Rightarrow>
           Inr (upd_state cbs (\<lambda>st. (upd_slot l (\<lambda>_. bi) st)\<lparr>cbs_list := cbs_list st @ [l]\<rparr>)
                  (w1\<lparr>binding_head := (binding_head w1)(r := binding_head w1 r @ [(cbs, l)])\<rparr>)))))"

fun commit_entries :: "nat \<Rightarrow> nat \<Rightarrow> bind_loc list \<Rightarrow> bind_world \<Rightarrow> bind_world kres" where
  "commit_entries to from [] w = Inr w"
| "commit_entries to from (l # ls) w =
     kbind (vmw_binding_transfer to from l w) (\<lambda>w1. kbind (vmw_binding_drop (from, l) w1) (commit_entries to from ls))"

definition vmw_binding_state_commit :: "nat \<Rightarrow> nat \<Rightarrow> bind_world \<Rightarrow> bind_world kres" where
  "vmw_binding_state_commit to from w = kbind (get_state w from) (\<lambda>cbs. commit_entries to from (cbs_list cbs) w)"

fun drop_entries :: "(nat \<times> bind_loc) list \<Rightarrow> bind_world \<Rightarrow> bind_world kres" where
  "drop_entries [] w = Inr w"
| "drop_entries (e # es) w = kbind (vmw_binding_drop e w) (drop_entries es)"

definition state_entries :: "nat \<Rightarrow> bind_world \<Rightarrow> (nat \<times> bind_loc) list kres" where
  "state_entries s w = kbind (get_state w s) (\<lambda>cbs. Inr (map (Pair s) (cbs_list cbs)))"

definition vmw_binding_state_reset :: "nat \<Rightarrow> bind_world \<Rightarrow> bind_world kres" where
  "vmw_binding_state_reset s w = kbind (state_entries s w) (\<lambda>es. drop_entries es w)"

section \<open>Commands\<close>

definition vmw_fifo_send :: "u32 option \<Rightarrow> bind_cmd \<Rightarrow> bind_world \<Rightarrow> bind_world \<times> unit kres" where
  \<comment> \<open>\<open>vmw_fifo_reserve\<close> or \<open>vmw_fifo_reserve_dx\<close>, writing the command, and \<open>vmw_fifo_commit\<close>\<close>
  "vmw_fifo_send dx cmd w =
     (let w1 = w\<lparr>reservations := reservations w + 1\<rparr> in
      if fifo_room w (reservations w) then (w1\<lparr>cmds := cmds w @ [(dx, cmd)]\<rparr>, Inr ()) else (w1, Inl ENOMEM))"

definition bound_id :: "bool \<Rightarrow> vmw_ctx_bindinfo \<Rightarrow> bind_world \<Rightarrow> u32 kres" where
  \<comment> \<open>\<open>rebind ? bi->res->id : SVGA3D_INVALID_ID\<close>\<close>
  "bound_id rebind bi w = (if rebind then kbind (the_ptr (bi_res bi)) (\<lambda>r. Inr (res_ids w r)) else Inr INVALID_RES)"

definition vmw_binding_scrub_shader :: "vmw_ctx_bindinfo \<Rightarrow> bool \<Rightarrow> bind_world \<Rightarrow> (bind_world \<times> unit kres) kres" where
  "vmw_binding_scrub_shader bi rebind w =
     kbind (the_ptr (bi_ctx bi)) (\<lambda>ctx. kbind (bound_id rebind bi w) (\<lambda>shid.
       Inr (vmw_fifo_send None (SVGA3dCmdSetShader (res_ids w ctx) (bi_shader_slot bi + SVGA3D_SHADERTYPE_MIN) shid) w)))"

definition vmw_binding_scrub_render_target :: "vmw_ctx_bindinfo \<Rightarrow> bool \<Rightarrow> bind_world \<Rightarrow> (bind_world \<times> unit kres) kres" where
  "vmw_binding_scrub_render_target bi rebind w =
     kbind (the_ptr (bi_ctx bi)) (\<lambda>ctx. kbind (bound_id rebind bi w) (\<lambda>sid.
       Inr (vmw_fifo_send None (SVGA3dCmdSetRenderTarget (res_ids w ctx) (bi_slot bi) sid 0 0) w)))"

definition vmw_binding_scrub_texture :: "vmw_ctx_bindinfo \<Rightarrow> bool \<Rightarrow> bind_world \<Rightarrow> (bind_world \<times> unit kres) kres" where
  "vmw_binding_scrub_texture bi rebind w =
     kbind (the_ptr (bi_ctx bi)) (\<lambda>ctx. kbind (bound_id rebind bi w) (\<lambda>v.
       Inr (vmw_fifo_send None (SVGA3dCmdSetTextureState (res_ids w ctx) (texture_stage bi) SVGA3D_TS_BIND_TEXTURE v) w)))"

definition vmw_binding_scrub_dx_shader :: "vmw_ctx_bindinfo \<Rightarrow> bool \<Rightarrow> bind_world \<Rightarrow> (bind_world \<times> unit kres) kres" where
  "vmw_binding_scrub_dx_shader bi rebind w =
     kbind (the_ptr (bi_ctx bi)) (\<lambda>ctx. kbind (bound_id rebind bi w) (\<lambda>shid.
       Inr (vmw_fifo_send (Some (res_ids w ctx)) (SVGA3dCmdDXSetShader shid (bi_shader_slot bi + SVGA3D_SHADERTYPE_MIN)) w)))"

definition vmw_binding_scrub_cb :: "vmw_ctx_bindinfo \<Rightarrow> bool \<Rightarrow> bind_world \<Rightarrow> (bind_world \<times> unit kres) kres" where
  "vmw_binding_scrub_cb bi rebind w =
     kbind (the_ptr (bi_ctx bi)) (\<lambda>ctx. kbind (bound_id rebind bi w) (\<lambda>sid.
       Inr (vmw_fifo_send (Some (res_ids w ctx))
              (SVGA3dCmdDXSetSingleConstantBuffer (bi_slot bi) (bi_shader_slot bi + SVGA3D_SHADERTYPE_MIN) sid
                 (if rebind then bi_offset bi else 0) (if rebind then bi_size bi else 0)) w)))"

definition vmw_binding_scrub_ib :: "vmw_ctx_bindinfo \<Rightarrow> bool \<Rightarrow> bind_world \<Rightarrow> (bind_world \<times> unit kres) kres" where
  "vmw_binding_scrub_ib bi rebind w =
     kbind (the_ptr (bi_ctx bi)) (\<lambda>ctx. kbind (bound_id rebind bi w) (\<lambda>sid.
       Inr (vmw_fifo_send (Some (res_ids w ctx))
              (SVGA3dCmdDXSetIndexBuffer sid (if rebind then bi_format bi else 0) (if rebind then bi_offset bi else 0)) w)))"

text \<open>The bindings that are sent together are only marked.\<close>

definition mark_dirty :: "(vmw_ctx_binding_state \<Rightarrow> vmw_ctx_binding_state) \<Rightarrow> vmw_ctx_bindinfo \<Rightarrow> bind_world \<Rightarrow> (bind_world \<times> unit kres) kres" where
  "mark_dirty f bi w =
     kbind (the_ptr (bi_ctx bi)) (\<lambda>ctx. kbind (the_ptr (ctx_state w ctx)) (\<lambda>s. kbind (get_state w s) (\<lambda>_.
       Inr (upd_state s f w, Inr ()))))"

definition vmw_binding_scrub_sr :: "vmw_ctx_bindinfo \<Rightarrow> bool \<Rightarrow> bind_world \<Rightarrow> (bind_world \<times> unit kres) kres" where
  "vmw_binding_scrub_sr bi rebind =
     mark_dirty (\<lambda>cbs. cbs\<lparr>dirty_sr := (dirty_sr cbs)(bi_shader_slot bi := (dirty_sr cbs (bi_shader_slot bi))(bi_slot bi := True)),
                           ps_dirty := (ps_dirty cbs)(bi_shader_slot bi := True),
                           dirty := (dirty cbs)(VMW_BINDING_PS_BIT := True)\<rparr>) bi"

definition vmw_binding_scrub_dx_rt :: "vmw_ctx_bindinfo \<Rightarrow> bool \<Rightarrow> bind_world \<Rightarrow> (bind_world \<times> unit kres) kres" where
  "vmw_binding_scrub_dx_rt bi rebind = mark_dirty (\<lambda>cbs. cbs\<lparr>dirty := (dirty cbs)(VMW_BINDING_RT_BIT := True)\<rparr>) bi"

definition vmw_binding_scrub_so :: "vmw_ctx_bindinfo \<Rightarrow> bool \<Rightarrow> bind_world \<Rightarrow> (bind_world \<times> unit kres) kres" where
  "vmw_binding_scrub_so bi rebind = mark_dirty (\<lambda>cbs. cbs\<lparr>dirty := (dirty cbs)(VMW_BINDING_SO_BIT := True)\<rparr>) bi"

definition vmw_binding_scrub_vb :: "vmw_ctx_bindinfo \<Rightarrow> bool \<Rightarrow> bind_world \<Rightarrow> (bind_world \<times> unit kres) kres" where
  "vmw_binding_scrub_vb bi rebind =
     mark_dirty (\<lambda>cbs. cbs\<lparr>dirty_vb := (dirty_vb cbs)(bi_slot bi := True), dirty := (dirty cbs)(VMW_BINDING_VB_BIT := True)\<rparr>) bi"

definition scrub_func :: "vmw_ctx_binding_type \<Rightarrow> vmw_ctx_bindinfo \<Rightarrow> bool \<Rightarrow> bind_world \<Rightarrow> (bind_world \<times> unit kres) kres" where
  \<comment> \<open>the column of \<open>vmw_binding_infos\<close>\<close>
  "scrub_func bt =
     (case bt of
        vmw_ctx_binding_shader \<Rightarrow> vmw_binding_scrub_shader
      | vmw_ctx_binding_rt \<Rightarrow> vmw_binding_scrub_render_target
      | vmw_ctx_binding_tex \<Rightarrow> vmw_binding_scrub_texture
      | vmw_ctx_binding_cb \<Rightarrow> vmw_binding_scrub_cb
      | vmw_ctx_binding_dx_shader \<Rightarrow> vmw_binding_scrub_dx_shader
      | vmw_ctx_binding_dx_rt \<Rightarrow> vmw_binding_scrub_dx_rt
      | vmw_ctx_binding_sr \<Rightarrow> vmw_binding_scrub_sr
      | vmw_ctx_binding_ds \<Rightarrow> vmw_binding_scrub_dx_rt
      | vmw_ctx_binding_so \<Rightarrow> vmw_binding_scrub_so
      | vmw_ctx_binding_vb \<Rightarrow> vmw_binding_scrub_vb
      | vmw_ctx_binding_ib \<Rightarrow> vmw_binding_scrub_ib)"

section \<open>Delayed commands\<close>

definition vmw_cbs_context :: "vmw_ctx_binding_state \<Rightarrow> nat option" where
  "vmw_cbs_context cbs = (case cbs_list cbs of [] \<Rightarrow> None | l # _ \<Rightarrow> bi_ctx (slots cbs l))"

definition view_id :: "bind_world \<Rightarrow> vmw_ctx_bindinfo \<Rightarrow> u32 kres" where
  \<comment> \<open>\<open>scrubbed ? SVGA3D_INVALID_ID : res->id\<close>, or invalid if there is no binding\<close>
  "view_id w bi = (if bi_ctx bi = None \<or> scrubbed bi then Inr INVALID_RES else kbind (the_ptr (bi_res bi)) (\<lambda>r. Inr (res_ids w r)))"

definition so_entry :: "bind_world \<Rightarrow> vmw_ctx_bindinfo \<Rightarrow> (u32 \<times> u32 \<times> u32) kres" where
  "so_entry w bi = kbind (view_id w bi) (\<lambda>sid. Inr (if scrubbed bi then (sid, 0, 0) else (sid, bi_offset bi, bi_size bi)))"

definition vb_entry :: "bind_world \<Rightarrow> vmw_ctx_bindinfo \<Rightarrow> (u32 \<times> u32 \<times> u32) kres" where
  "vb_entry w bi =
     kbind (view_id w bi) (\<lambda>sid. Inr (if bi_ctx bi = None \<or> scrubbed bi then (sid, 0, 0) else (sid, bi_stride bi, bi_offset bi)))"

text \<open>\<open>vmw_collect_view_ids\<close> and \<open>vmw_collect_so_targets\<close>, which stop at the first location without a binding, and
  \<open>vmw_collect_dirty_view_ids\<close> and \<open>vmw_collect_dirty_vbs\<close>, which go from the first to the last dirty location.\<close>

fun collect_while :: "(vmw_ctx_bindinfo \<Rightarrow> 'a kres) \<Rightarrow> vmw_ctx_bindinfo list \<Rightarrow> 'a list kres" where
  "collect_while f [] = Inr []"
| "collect_while f (bi # bis) =
     (if bi_ctx bi = None then Inr [] else kbind (f bi) (\<lambda>v. kbind (collect_while f bis) (\<lambda>vs. Inr (v # vs))))"

definition find_next_bit :: "(nat \<Rightarrow> bool) \<Rightarrow> nat \<Rightarrow> nat \<Rightarrow> nat" where
  "find_next_bit d max_num i = (case find d [i..<max_num] of None \<Rightarrow> max_num | Some j \<Rightarrow> j)"

fun collect_dirty :: "(vmw_ctx_bindinfo \<Rightarrow> 'a kres) \<Rightarrow> (nat \<Rightarrow> vmw_ctx_bindinfo) \<Rightarrow> (nat \<Rightarrow> bool) \<Rightarrow> nat \<Rightarrow> nat \<Rightarrow> nat list \<Rightarrow> 'a list kres" where
  "collect_dirty f biv d max_num next_bit [] = Inr []"
| "collect_dirty f biv d max_num next_bit (i # is) =
     kbind (f (biv i)) (\<lambda>v.
       if next_bit = i
       then (let n = find_next_bit d max_num (i + 1) in
             if n \<ge> max_num then Inr [v] else kbind (collect_dirty f biv d max_num n is) (\<lambda>vs. Inr (v # vs)))
       else kbind (collect_dirty f biv d max_num next_bit is) (\<lambda>vs. Inr (v # vs)))"

definition vmw_collect_view_ids :: "bind_world \<Rightarrow> vmw_ctx_binding_state \<Rightarrow> nat \<Rightarrow> u32 list kres" where
  "vmw_collect_view_ids w cbs max_num = collect_while (view_id w) (map (\<lambda>i. slots cbs (render_targets i)) [0..<max_num])"

definition vmw_collect_so_targets :: "bind_world \<Rightarrow> vmw_ctx_binding_state \<Rightarrow> nat \<Rightarrow> (u32 \<times> u32 \<times> u32) list kres" where
  "vmw_collect_so_targets w cbs max_num = collect_while (so_entry w) (map (\<lambda>i. slots cbs (so_targets i)) [0..<max_num])"

definition vmw_collect_dirty_view_ids :: "bind_world \<Rightarrow> vmw_ctx_binding_state \<Rightarrow> nat \<Rightarrow> nat \<Rightarrow> (nat \<times> u32 list) kres" where
  \<comment> \<open>\<open>bind_first_slot\<close> and the contents of \<open>bind_cmd_buffer\<close>\<close>
  "vmw_collect_dirty_view_ids w cbs shader_slot max_num =
     (let d = dirty_sr cbs shader_slot; i = find_next_bit d max_num 0 in
      kbind (collect_dirty (view_id w) (\<lambda>j. slots cbs (per_shader_shader_res shader_slot j)) d max_num i [i..<max_num]) (\<lambda>vs. Inr (i, vs)))"

definition vmw_collect_dirty_vbs :: "bind_world \<Rightarrow> vmw_ctx_binding_state \<Rightarrow> nat \<Rightarrow> (nat \<times> (u32 \<times> u32 \<times> u32) list) kres" where
  "vmw_collect_dirty_vbs w cbs max_num =
     (let d = dirty_vb cbs; i = find_next_bit d max_num 0 in
      kbind (collect_dirty (vb_entry w) (\<lambda>j. slots cbs (vertex_buffers j)) d max_num i [i..<max_num]) (\<lambda>vs. Inr (i, vs)))"

definition bitmap_clear :: "nat \<Rightarrow> nat \<Rightarrow> (nat \<Rightarrow> bool) \<Rightarrow> nat \<Rightarrow> bool" where
  "bitmap_clear start n d i = (d i \<and> \<not> (start \<le> i \<and> i < start + n))"

definition vmw_emit_set_sr :: "nat \<Rightarrow> nat \<Rightarrow> bind_world \<Rightarrow> (bind_world \<times> unit kres) kres" where
  "vmw_emit_set_sr s shader_slot w =
     kbind (get_state w s) (\<lambda>cbs.
     kbind (vmw_collect_dirty_view_ids w cbs shader_slot SVGA3D_DX_MAX_SRVIEWS) (\<lambda>(first, ids).
       if ids = [] then Inr (w, Inr ())
       else kbind (the_ptr (vmw_cbs_context cbs)) (\<lambda>ctx.
         case vmw_fifo_send (Some (res_ids w ctx)) (SVGA3dCmdDXSetShaderResources first (shader_slot + SVGA3D_SHADERTYPE_MIN) ids) w of
           (w1, Inl e) \<Rightarrow> Inr (w1, Inl e)
         | (w1, Inr _) \<Rightarrow>
             Inr (upd_state s (\<lambda>st. st\<lparr>dirty_sr := (dirty_sr st)(shader_slot := bitmap_clear first (length ids) (dirty_sr st shader_slot))\<rparr>) w1, Inr ()))))"

definition vmw_emit_set_rt :: "nat \<Rightarrow> bind_world \<Rightarrow> (bind_world \<times> unit kres) kres" where
  "vmw_emit_set_rt s w =
     kbind (get_state w s) (\<lambda>cbs.
     kbind (vmw_collect_view_ids w cbs SVGA3D_MAX_SIMULTANEOUS_RENDER_TARGETS) (\<lambda>ids.
     kbind (the_ptr (vmw_cbs_context cbs)) (\<lambda>ctx.
     kbind (view_id w (slots cbs ds_view)) (\<lambda>dsv.
       Inr (vmw_fifo_send (Some (res_ids w ctx)) (SVGA3dCmdDXSetRenderTargets dsv ids) w)))))"

definition vmw_emit_set_so :: "nat \<Rightarrow> bind_world \<Rightarrow> (bind_world \<times> unit kres) kres" where
  "vmw_emit_set_so s w =
     kbind (get_state w s) (\<lambda>cbs.
     kbind (vmw_collect_so_targets w cbs SVGA3D_DX_MAX_SOTARGETS) (\<lambda>ts.
       if ts = [] then Inr (w, Inr ())
       else kbind (the_ptr (vmw_cbs_context cbs)) (\<lambda>ctx.
         Inr (vmw_fifo_send (Some (res_ids w ctx)) (SVGA3dCmdDXSetSOTargets ts) w))))"

definition vmw_emit_set_vb :: "nat \<Rightarrow> bind_world \<Rightarrow> (bind_world \<times> unit kres) kres" where
  "vmw_emit_set_vb s w =
     kbind (get_state w s) (\<lambda>cbs.
     kbind (vmw_collect_dirty_vbs w cbs SVGA3D_DX_MAX_VERTEXBUFFERS) (\<lambda>(first, vbs).
       if vbs = [] then Inr (w, Inr ())
       else kbind (the_ptr (vmw_cbs_context cbs)) (\<lambda>ctx.
         case vmw_fifo_send (Some (res_ids w ctx)) (SVGA3dCmdDXSetVertexBuffers first vbs) w of
           (w1, Inl e) \<Rightarrow> Inr (w1, Inl e)
         | (w1, Inr _) \<Rightarrow> Inr (upd_state s (\<lambda>st. st\<lparr>dirty_vb := bitmap_clear first (length vbs) (dirty_vb st)\<rparr>) w1, Inr ()))))"

fun emit_ps_loop :: "nat \<Rightarrow> nat list \<Rightarrow> bind_world \<Rightarrow> bind_world kres" where
  "emit_ps_loop s [] w = Inr w"
| "emit_ps_loop s (i # is) w =
     kbind (get_state w s) (\<lambda>cbs.
       if \<not> ps_dirty cbs i then emit_ps_loop s is w
       else kbind (vmw_emit_set_sr s i w) (\<lambda>(w1, ret).
         case ret of Inl _ \<Rightarrow> Inr w1
         | Inr _ \<Rightarrow> emit_ps_loop s is (upd_state s (\<lambda>st. st\<lparr>ps_dirty := (ps_dirty st)(i := False)\<rparr>) w1)))"

definition vmw_binding_emit_dirty_ps :: "nat \<Rightarrow> bind_world \<Rightarrow> (bind_world \<times> unit kres) kres" where
  "vmw_binding_emit_dirty_ps s w = kbind (emit_ps_loop s [0..<SVGA3D_NUM_SHADERTYPE_DX10] w) (\<lambda>w1. Inr (w1, Inr ()))"

definition emit_bit :: "nat \<Rightarrow> nat \<Rightarrow> bind_world \<Rightarrow> (bind_world \<times> unit kres) kres" where
  "emit_bit hit s =
     (if hit = VMW_BINDING_RT_BIT then vmw_emit_set_rt s
      else if hit = VMW_BINDING_PS_BIT then vmw_binding_emit_dirty_ps s
      else if hit = VMW_BINDING_SO_BIT then vmw_emit_set_so s
      else vmw_emit_set_vb s)"

fun emit_dirty_loop :: "nat \<Rightarrow> nat list \<Rightarrow> bind_world \<Rightarrow> (bind_world \<times> unit kres) kres" where
  \<comment> \<open>over the bits from \<open>hit\<close> on; a clean one is skipped by \<open>find_next_bit\<close>\<close>
  "emit_dirty_loop s [] w = Inr (w, Inr ())"
| "emit_dirty_loop s (hit # hits) w =
     kbind (get_state w s) (\<lambda>cbs.
       if \<not> dirty cbs hit then emit_dirty_loop s hits w
       else kbind (emit_bit hit s w) (\<lambda>(w1, ret).
         case ret of Inl e \<Rightarrow> Inr (w1, Inl e)
         | Inr _ \<Rightarrow> emit_dirty_loop s hits (upd_state s (\<lambda>st. st\<lparr>dirty := (dirty st)(hit := False)\<rparr>) w1)))"

definition vmw_binding_emit_dirty :: "nat \<Rightarrow> bind_world \<Rightarrow> (bind_world \<times> unit kres) kres" where
  "vmw_binding_emit_dirty s = emit_dirty_loop s [0..<VMW_BINDING_NUM_BITS]"

section \<open>Scrubbing, killing and rebinding\<close>

definition set_scrubbed :: "bool \<Rightarrow> nat \<times> bind_loc \<Rightarrow> bind_world \<Rightarrow> bind_world" where
  "set_scrubbed b e = upd_state (fst e) (upd_slot (snd e) (\<lambda>bi. bi\<lparr>scrubbed := b\<rparr>))"

fun scrub_entries :: "(nat \<times> bind_loc) list \<Rightarrow> bind_world \<Rightarrow> bind_world kres" where
  "scrub_entries [] w = Inr w"
| "scrub_entries (e # es) w =
     kbind (get_bi w e) (\<lambda>bi.
       if scrubbed bi then scrub_entries es w
       else kbind (scrub_func (bi_bt bi) bi False w) (\<lambda>(w1, _). scrub_entries es (set_scrubbed True e w1)))"

definition vmw_binding_state_scrub :: "nat \<Rightarrow> bind_world \<Rightarrow> bind_world kres" where
  "vmw_binding_state_scrub s w =
     kbind (state_entries s w) (\<lambda>es. kbind (scrub_entries es w) (\<lambda>w1. kbind (vmw_binding_emit_dirty s w1) (\<lambda>(w2, _). Inr w2)))"

definition vmw_binding_state_kill :: "nat \<Rightarrow> bind_world \<Rightarrow> bind_world kres" where
  "vmw_binding_state_kill s w =
     kbind (vmw_binding_state_scrub s w) (\<lambda>w1. kbind (state_entries s w1) (\<lambda>es. drop_entries es w1))"

fun emit_entries :: "(nat \<times> bind_loc) list \<Rightarrow> bind_world \<Rightarrow> bind_world kres" where
  "emit_entries [] w = Inr w"
| "emit_entries (e # es) w =
     kbind (get_bi w e) (\<lambda>bi. kbind (the_ptr (bi_ctx bi)) (\<lambda>ctx. kbind (the_ptr (ctx_state w ctx)) (\<lambda>s.
       kbind (vmw_binding_emit_dirty s w) (\<lambda>(w1, _). emit_entries es w1))))"

definition vmw_binding_res_list_scrub :: "nat \<Rightarrow> bind_world \<Rightarrow> bind_world kres" where
  "vmw_binding_res_list_scrub r w = kbind (scrub_entries (binding_head w r) w) (\<lambda>w1. emit_entries (binding_head w1 r) w1)"

definition vmw_binding_res_list_kill :: "nat \<Rightarrow> bind_world \<Rightarrow> bind_world kres" where
  "vmw_binding_res_list_kill r w = kbind (vmw_binding_res_list_scrub r w) (\<lambda>w1. drop_entries (binding_head w1 r) w1)"

fun rebind_entries :: "(nat \<times> bind_loc) list \<Rightarrow> bind_world \<Rightarrow> (bind_world \<times> unit kres) kres" where
  "rebind_entries [] w = Inr (w, Inr ())"
| "rebind_entries (e # es) w =
     kbind (get_bi w e) (\<lambda>bi.
       if \<not> scrubbed bi then rebind_entries es w
       else if (case bi_res bi of None \<Rightarrow> True | Some r \<Rightarrow> res_ids w r = INVALID_RES) then rebind_entries es w
       else kbind (scrub_func (bi_bt bi) bi True w) (\<lambda>(w1, ret).
         case ret of Inl e' \<Rightarrow> Inr (w1, Inl e') | Inr _ \<Rightarrow> rebind_entries es (set_scrubbed False e w1)))"

definition vmw_binding_rebind_all :: "nat \<Rightarrow> bind_world \<Rightarrow> (bind_world \<times> unit kres) kres" where
  "vmw_binding_rebind_all s w =
     kbind (state_entries s w) (\<lambda>es. kbind (rebind_entries es w) (\<lambda>(w1, ret).
       case ret of Inl e \<Rightarrow> Inr (w1, Inl e) | Inr _ \<Rightarrow> vmw_binding_emit_dirty s w1))"

section \<open>Allocation\<close>

definition zero_bi :: vmw_ctx_bindinfo where
  "zero_bi = \<lparr>bi_ctx = None, bi_res = None, bi_bt = vmw_ctx_binding_shader, scrubbed = False, bi_shader_slot = 0, bi_slot = 0,
     texture_stage = 0, bi_offset = 0, bi_size = 0, bi_stride = 0, bi_format = 0\<rparr>"

definition vmw_binding_state_alloc :: "unit kres \<Rightarrow> nat option \<Rightarrow> bind_world \<Rightarrow> bind_world \<times> nat kres" where
  \<comment> \<open>what \<open>ttm_mem_global_alloc\<close> and \<open>vzalloc\<close> answer\<close>
  "vmw_binding_state_alloc acc vzalloc w =
     (case acc of Inl e \<Rightarrow> (w, Inl e)
      | Inr _ \<Rightarrow>
          (case vzalloc of None \<Rightarrow> (w, Inl ENOMEM)
           | Some s \<Rightarrow>
               (w\<lparr>states := (states w)(s \<mapsto> \<lparr>cbs_list = [], slots = (\<lambda>_. zero_bi), dirty = (\<lambda>_. False), dirty_vb = (\<lambda>_. False),
                    dirty_sr = (\<lambda>_ _. False), ps_dirty = (\<lambda>_. False)\<rparr>)\<rparr>, Inr s)))"

definition vmw_binding_state_free :: "nat \<Rightarrow> bind_world \<Rightarrow> bind_world" where
  "vmw_binding_state_free s w = w\<lparr>states := (states w)(s := None)\<rparr>"

definition vmw_binding_state_list :: "nat \<Rightarrow> bind_world \<Rightarrow> bind_loc list kres" where
  "vmw_binding_state_list s w = kbind (get_state w s) (\<lambda>cbs. Inr (cbs_list cbs))"

end
