(* ===== verification/Binding_Inv.thy ===== *)
theory Binding_Inv
  imports Binding "HOL-Library.Multiset"
begin

text \<open>
  What the binding manager of \<open>Binding\<close> guarantees: the lists of resources hold exactly the bindings that contexts have to
  them, committing overrides the bindings of a context by the staged ones, and what the manager believes to be bound is what
  the commands it sends last name for every location.
\<close>

section \<open>Tracking\<close>

definition bi_place :: "vmw_ctx_bindinfo \<Rightarrow> bind_loc kres" where
  \<comment> \<open>where a binding belongs, from the slots it carries for its commands\<close>
  "bi_place bi = vmw_binding_loc (bi_bt bi)
     (if bi_bt bi \<in> {vmw_ctx_binding_shader, vmw_ctx_binding_dx_shader, vmw_ctx_binding_cb, vmw_ctx_binding_sr} then bi_shader_slot bi else 0)
     (if bi_bt bi = vmw_ctx_binding_tex then texture_stage bi
      else if bi_bt bi \<in> {vmw_ctx_binding_shader, vmw_ctx_binding_dx_shader, vmw_ctx_binding_ds, vmw_ctx_binding_ib} then 0 else bi_slot bi)"

lemma bi_place_scrubbed [simp]: "bi_place (bi\<lparr>scrubbed := b\<rparr>) = bi_place bi"
  by (cases bi) (simp only: bi_place_def vmw_ctx_bindinfo.simps)

definition state_ok :: "vmw_ctx_binding_state \<Rightarrow> bool" where
  "state_ok cbs \<longleftrightarrow> distinct (cbs_list cbs) \<and> (\<forall>l. l \<in> set (cbs_list cbs) \<longleftrightarrow> bi_ctx (slots cbs l) \<noteq> None) \<and>
     (\<forall>l\<in>set (cbs_list cbs). bi_place (slots cbs l) = Inr l)"

definition ctxs_ok :: "bind_world \<Rightarrow> bool" where
  \<comment> \<open>the state of a context holds bindings of that context to resources\<close>
  "ctxs_ok w \<longleftrightarrow> (\<forall>c s. ctx_state w c = Some s \<longrightarrow> (\<exists>cbs. states w s = Some cbs \<and>
     (\<forall>l\<in>set (cbs_list cbs). bi_ctx (slots cbs l) = Some c \<and> bi_res (slots cbs l) \<noteq> None))) \<and>
     (\<forall>c d s. ctx_state w c = Some s \<longrightarrow> ctx_state w d = Some s \<longrightarrow> c = d)"

definition binds :: "bind_world \<Rightarrow> nat \<Rightarrow> nat \<times> bind_loc \<Rightarrow> bool" where
  \<comment> \<open>a context has a binding to a resource there\<close>
  "binds w r e \<longleftrightarrow> (\<exists>c cbs. ctx_state w c = Some (fst e) \<and> states w (fst e) = Some cbs \<and> bi_ctx (slots cbs (snd e)) \<noteq> None \<and>
     bi_res (slots cbs (snd e)) = Some r)"

definition heads_ok :: "bind_world \<Rightarrow> bool" where
  "heads_ok w \<longleftrightarrow> (\<forall>r. distinct (binding_head w r) \<and> set (binding_head w r) = {e. binds w r e})"

definition bind_ok :: "bind_world \<Rightarrow> bool" where
  "bind_ok w \<longleftrightarrow> (\<forall>s cbs. states w s = Some cbs \<longrightarrow> state_ok cbs) \<and> ctxs_ok w \<and> heads_ok w"

lemma bind_okD:
  assumes "bind_ok w"
  shows "states w s = Some cbs \<Longrightarrow> state_ok cbs" "ctxs_ok w" "heads_ok w"
  using assms by (auto simp: bind_ok_def)

lemma ctxs_okD:
  assumes "ctxs_ok w" "ctx_state w c = Some s"
  obtains cbs where "states w s = Some cbs" "\<And>l. l \<in> set (cbs_list cbs) \<Longrightarrow> bi_ctx (slots cbs l) = Some c \<and> bi_res (slots cbs l) \<noteq> None"
  using assms unfolding ctxs_ok_def by blast

lemma states_upd_state [simp]: "states (upd_state s f w) t = (if t = s then map_option f (states w s) else states w t)"
  by (simp add: upd_state_def)

lemma upd_state_same [simp]:
  "ctx_state (upd_state s f w) = ctx_state w" "res_ids (upd_state s f w) = res_ids w" "binding_head (upd_state s f w) = binding_head w"
  "fifo_room (upd_state s f w) = fifo_room w" "reservations (upd_state s f w) = reservations w" "cmds (upd_state s f w) = cmds w"
  by (simp_all add: upd_state_def)

lemma upd_slot_same [simp]:
  "cbs_list (upd_slot l f cbs) = cbs_list cbs" "slots (upd_slot l f cbs) k = (if k = l then f (slots cbs l) else slots cbs k)"
  "dirty (upd_slot l f cbs) = dirty cbs" "dirty_vb (upd_slot l f cbs) = dirty_vb cbs" "dirty_sr (upd_slot l f cbs) = dirty_sr cbs"
  "ps_dirty (upd_slot l f cbs) = ps_dirty cbs"
  by (simp_all add: upd_slot_def)

definition dropped :: "nat \<times> bind_loc \<Rightarrow> bind_world \<Rightarrow> bind_world" where
  "dropped e w = upd_state (fst e) (\<lambda>cbs. upd_slot (snd e) (\<lambda>bi. bi\<lparr>bi_ctx := None\<rparr>) (cbs\<lparr>cbs_list := removeAll (snd e) (cbs_list cbs)\<rparr>))
     (w\<lparr>binding_head := (\<lambda>r. removeAll e (binding_head w r))\<rparr>)"

lemma drop_eq: "states w (fst e) \<noteq> None \<Longrightarrow> vmw_binding_drop e w = Inr (dropped e w)"
  by (auto simp: vmw_binding_drop_def dropped_def get_state_def)

lemma dropped_same [simp]:
  "ctx_state (dropped e w) = ctx_state w" "res_ids (dropped e w) = res_ids w" "cmds (dropped e w) = cmds w" "fifo_room (dropped e w) = fifo_room w"
  "binding_head (dropped e w) r = removeAll e (binding_head w r)"
  "states (dropped e w) t = (if t = fst e then map_option (\<lambda>cbs. upd_slot (snd e) (\<lambda>bi. bi\<lparr>bi_ctx := None\<rparr>)
     (cbs\<lparr>cbs_list := removeAll (snd e) (cbs_list cbs)\<rparr>)) (states w t) else states w t)"
  by (auto simp: dropped_def)

lemma binds_dropped: "binds (dropped e w) r x \<longleftrightarrow> binds w r x \<and> x \<noteq> e"
  by (cases e; cases x) (auto simp: binds_def split: if_splits)

lemma dropped_ok:
  assumes ok: "bind_ok w" shows "bind_ok (dropped e w)"
proof -
  obtain s l where e: "e = (s, l)" by (cases e)
  have "state_ok cbs'" if st: "states (dropped e w) t = Some cbs'" for t cbs'
  proof -
    obtain cbs where cbs: "states w t = Some cbs" using st by (auto split: if_splits)
    then show ?thesis using st bind_okD(1) [OF ok cbs] by (auto simp: state_ok_def e distinct_removeAll split: if_splits)
  qed
  moreover have "ctxs_ok (dropped e w)"
  proof -
    have "\<exists>cbs'. states (dropped e w) t = Some cbs' \<and> (\<forall>k\<in>set (cbs_list cbs'). bi_ctx (slots cbs' k) = Some c \<and> bi_res (slots cbs' k) \<noteq> None)"
      if "ctx_state w c = Some t" for c t
      by (rule ctxs_okD [OF bind_okD(2) [OF ok] that]) (auto simp: e)
    then show ?thesis using bind_okD(2) [OF ok] by (simp add: ctxs_ok_def)
  qed
  moreover have "heads_ok (dropped e w)"
    using bind_okD(3) [OF ok] by (auto simp: heads_ok_def binds_dropped distinct_removeAll)
  ultimately show ?thesis by (simp add: bind_ok_def)
qed

text \<open>Adding to a staged state: one that no context has.\<close>

definition bound :: "bind_world \<Rightarrow> nat \<Rightarrow> bind_loc \<Rightarrow> vmw_ctx_bindinfo option" where
  "bound w s l = (case states w s of None \<Rightarrow> None | Some cbs \<Rightarrow> if bi_ctx (slots cbs l) = None then None else Some (slots cbs l))"

definition staged :: "nat \<Rightarrow> bind_world \<Rightarrow> bool" where
  "staged s w \<longleftrightarrow> states w s \<noteq> None \<and> (\<forall>c. ctx_state w c \<noteq> Some s)"

lemma bound_dropped: "bound (dropped e w) s l = (if e = (s, l) then None else bound w s l)"
  by (cases e) (auto simp: bound_def split: option.splits)

lemma drop_if:
  assumes "states w s = Some cbs" "bind_ok w"
  shows "\<exists>w1. (if bi_ctx (slots cbs l) \<noteq> None then vmw_binding_drop (s, l) w else Inr w) = Inr w1 \<and> bind_ok w1 \<and>
     (\<forall>t k. bound w1 t k = (if (t, k) = (s, l) then None else bound w t k)) \<and> ctx_state w1 = ctx_state w \<and> res_ids w1 = res_ids w \<and>
     cmds w1 = cmds w \<and> (\<forall>t. states w1 t = None \<longleftrightarrow> states w t = None)"
proof (cases "bi_ctx (slots cbs l) = None")
  case True
  then show ?thesis using assms by (intro exI [of _ w]) (auto simp: bound_def)
next
  case False
  then show ?thesis using assms dropped_ok [OF assms(2), of "(s, l)"] drop_eq [of w "(s, l)"]
    by (intro exI [of _ "dropped (s, l) w"]) (auto simp: bound_dropped)
qed

lemma state_ok_put:
  assumes ok: "state_ok cbs" and free: "bi_ctx (slots cbs l) = None" and bi: "bi_ctx bi \<noteq> None" "bi_place bi = Inr l"
    and ls: "mset ls = add_mset l (mset (cbs_list cbs))"
  shows "state_ok ((upd_slot l (\<lambda>_. bi) cbs)\<lparr>cbs_list := ls\<rparr>)"
proof -
  have "l \<notin> set (cbs_list cbs)" using ok free by (simp add: state_ok_def)
  moreover have "set ls = insert l (set (cbs_list cbs))" using arg_cong [OF ls, of set_mset] by simp
  moreover have "distinct ls" using ls ok \<open>l \<notin> set (cbs_list cbs)\<close>
    by (metis distinct.simps(2) mset.simps(2) mset_eq_imp_distinct_iff state_ok_def)
  ultimately show ?thesis using ok bi by (auto simp: state_ok_def)
qed

lemma binding_add_ok:
  assumes ok: "bind_ok w" and st: "staged s w" and bi: "bi_ctx bi \<noteq> None" "bi_place bi = Inr l" "vmw_binding_loc (bi_bt bi) shader_slot slot = Inr l"
  shows "\<exists>w'. vmw_binding_add s bi shader_slot slot w = Inr w' \<and> bind_ok w' \<and> staged s w' \<and> ctx_state w' = ctx_state w \<and>
     (\<forall>t k. bound w' t k = (if (t, k) = (s, l) then Some (bi\<lparr>scrubbed := False\<rparr>) else bound w t k))"
proof -
  obtain cbs where cbs: "states w s = Some cbs" using st by (auto simp: staged_def)
  obtain w1 where w1: "(if bi_ctx (slots cbs l) \<noteq> None then vmw_binding_drop (s, l) w else Inr w) = Inr w1" "bind_ok w1"
      "\<forall>t k. bound w1 t k = (if (t, k) = (s, l) then None else bound w t k)" "ctx_state w1 = ctx_state w" "\<forall>t. states w1 t = None \<longleftrightarrow> states w t = None"
    using drop_if [OF cbs ok, of l] by blast
  define bi' where "bi' = bi\<lparr>scrubbed := False\<rparr>"
  define put where "put = (\<lambda>cbs. (upd_slot l (\<lambda>_. bi') cbs)\<lparr>cbs_list := l # cbs_list cbs\<rparr>)"
  obtain cbs1 where cbs1: "states w1 s = Some cbs1" using w1(5) cbs by (metis not_None_eq)
  have free: "bi_ctx (slots cbs1 l) = None" using w1(3) [rule_format, of s l] cbs1 by (simp add: bound_def split: if_splits)
  let ?w = "upd_state s put w1"
  have run: "vmw_binding_add s bi shader_slot slot w = Inr ?w"
    using w1(1) bi(3) cbs by (simp add: vmw_binding_add_def get_bi_def get_state_def put_def bi'_def)
  have "bi_place bi' = Inr l" using bi(2) by (simp add: bi'_def)
  then have "state_ok (put cbs1)" unfolding put_def
    by (intro state_ok_put [OF bind_okD(1) [OF w1(2) cbs1] free]) (use bi(1) in \<open>simp_all add: bi'_def\<close>)
  then have "\<forall>t cbs'. states ?w t = Some cbs' \<longrightarrow> state_ok cbs'" using bind_okD(1) [OF w1(2)] cbs1 by auto
  moreover have other: "ctx_state w c \<noteq> Some s" for c using st by (simp add: staged_def)
  then have "ctxs_ok ?w" using bind_okD(2) [OF w1(2)] w1(4) by (auto simp: ctxs_ok_def)
  moreover have "binds ?w r x = binds w1 r x" for r x using other w1(4) by (cases x) (auto simp: binds_def split: if_splits)
  then have "heads_ok ?w" using bind_okD(3) [OF w1(2)] by (simp add: heads_ok_def)
  ultimately have "bind_ok ?w" by (simp add: bind_ok_def)
  moreover have "bound ?w t k = (if (t, k) = (s, l) then Some bi' else bound w t k)" for t k
    using w1(3) [rule_format, of t k] cbs1 bi(1) by (auto simp: bound_def put_def bi'_def split: if_splits option.splits)
  ultimately show ?thesis using run cbs1 other w1(4) by (intro exI [of _ ?w]) (auto simp: staged_def bi'_def)
qed

text \<open>One binding of a staged state of a context is committed.\<close>

lemma transfer_ok:
  assumes ok: "bind_ok w" and to: "ctx_state w c = Some s" and stf: "staged f w" and b: "bound w f l = Some bi" "bi_ctx bi = Some c"
  shows "\<exists>w'. vmw_binding_transfer s f l w = Inr w' \<and> bind_ok w' \<and> ctx_state w' = ctx_state w \<and> res_ids w' = res_ids w \<and>
     cmds w' = cmds w \<and> (\<forall>t. states w' t = None \<longleftrightarrow> states w t = None) \<and>
     (\<forall>t k. bound w' t k = (if (t, k) = (s, l) then (if bi_res bi = None then None else Some bi) else bound w t k))"
proof -
  have ne: "f \<noteq> s" using stf to by (auto simp: staged_def)
  obtain fcbs where fcbs: "states w f = Some fcbs" "slots fcbs l = bi" using b(1) by (auto simp: bound_def split: option.splits if_splits)
  obtain cbs where cbs: "states w s = Some cbs" by (rule ctxs_okD [OF bind_okD(2) [OF ok] to])
  obtain w1 where w1: "(if bi_ctx (slots cbs l) \<noteq> None then vmw_binding_drop (s, l) w else Inr w) = Inr w1" "bind_ok w1"
      "\<forall>t k. bound w1 t k = (if (t, k) = (s, l) then None else bound w t k)" "ctx_state w1 = ctx_state w" "res_ids w1 = res_ids w" "cmds w1 = cmds w"
      "\<forall>t. states w1 t = None \<longleftrightarrow> states w t = None"
    using drop_if [OF cbs ok, of l] by blast
  have eq: "vmw_binding_transfer s f l w = (case bi_res bi of None \<Rightarrow> Inr w1
      | Some r \<Rightarrow> Inr (upd_state s (\<lambda>st. (upd_slot l (\<lambda>_. bi) st)\<lparr>cbs_list := cbs_list st @ [l]\<rparr>)
           (w1\<lparr>binding_head := (binding_head w1)(r := binding_head w1 r @ [(s, l)])\<rparr>)))"
    using w1(1) fcbs cbs by (simp add: vmw_binding_transfer_def get_bi_def get_state_def)
  show ?thesis
  proof (cases "bi_res bi")
    case None
    then show ?thesis using eq w1 by (intro exI [of _ w1]) simp
  next
    case (Some r)
    obtain cbs1 where cbs1: "states w1 s = Some cbs1" using w1(7) cbs by (metis not_None_eq)
    have free: "bi_ctx (slots cbs1 l) = None" using w1(3) [rule_format, of s l] cbs1 by (simp add: bound_def split: if_splits)
    define put where "put = (\<lambda>st. (upd_slot l (\<lambda>_. bi) st)\<lparr>cbs_list := cbs_list st @ [l]\<rparr>)"
    let ?w = "upd_state s put (w1\<lparr>binding_head := (binding_head w1)(r := binding_head w1 r @ [(s, l)])\<rparr>)"
    have place: "bi_place bi = Inr l" using bind_okD(1) [OF ok fcbs(1)] fcbs(2) b(2) by (auto simp: state_ok_def)
    have "state_ok (put cbs1)" unfolding put_def
      by (intro state_ok_put [OF bind_okD(1) [OF w1(2) cbs1] free]) (use b(2) place in simp_all)
    then have "\<forall>t cbs'. states ?w t = Some cbs' \<longrightarrow> state_ok cbs'" using bind_okD(1) [OF w1(2)] cbs1 by auto
    moreover have uniq: "d = c" if "ctx_state w d = Some s" for d using bind_okD(2) [OF ok] that to by (auto simp: ctxs_ok_def)
    have old: "\<forall>k\<in>set (cbs_list cbs1). bi_ctx (slots cbs1 k) = Some c \<and> bi_res (slots cbs1 k) \<noteq> None"
      using bind_okD(2) [OF w1(2)] to w1(4) cbs1 by (fastforce simp: ctxs_ok_def)
    have "\<exists>cbs'. states ?w t = Some cbs' \<and> (\<forall>k\<in>set (cbs_list cbs'). bi_ctx (slots cbs' k) = Some d \<and> bi_res (slots cbs' k) \<noteq> None)"
      if d: "ctx_state w d = Some t" for d t
    proof (cases "t = s")
      case True
      then show ?thesis using uniq d cbs1 old Some b(2) by (auto simp: put_def)
    next
      case False
      then show ?thesis using bind_okD(2) [OF w1(2)] d w1(4) by (auto simp: ctxs_ok_def)
    qed
    then have "ctxs_ok ?w" using bind_okD(2) [OF w1(2)] w1(4) by (simp add: ctxs_ok_def)
    moreover have nb: "\<not> binds w1 q (s, l)" for q using free cbs1 by (auto simp: binds_def)
    have "binds ?w q x \<longleftrightarrow> binds w1 q x \<or> q = r \<and> x = (s, l)" for q x
      using to w1(4) cbs1 nb [of q] Some b(2) by (cases x) (auto simp: binds_def put_def split: if_splits)
    then have "heads_ok ?w" using bind_okD(3) [OF w1(2)] nb [of r] by (auto simp: heads_ok_def)
    ultimately have "bind_ok ?w" by (simp add: bind_ok_def)
    moreover have "bound ?w t k = (if (t, k) = (s, l) then Some bi else bound w t k)" for t k
      using w1(3) [rule_format, of t k] cbs1 b(2) by (auto simp: bound_def put_def split: if_splits option.splits)
    ultimately show ?thesis using eq Some w1(4-7) cbs1 cbs by (intro exI [of _ ?w]) (auto simp: put_def)
  qed
qed

definition staged_for :: "nat \<Rightarrow> nat \<Rightarrow> bind_world \<Rightarrow> bool" where
  "staged_for c f w \<longleftrightarrow> staged f w \<and> (\<forall>l bi. bound w f l = Some bi \<longrightarrow> bi_ctx bi = Some c)"

definition override :: "(bind_loc \<Rightarrow> vmw_ctx_bindinfo option) \<Rightarrow> (bind_loc \<Rightarrow> vmw_ctx_bindinfo option) \<Rightarrow> bind_loc \<Rightarrow> vmw_ctx_bindinfo option" where
  \<comment> \<open>the bindings of a context after staged ones, which may also unbind\<close>
  "override m n l = (case n l of None \<Rightarrow> m l | Some bi \<Rightarrow> if bi_res bi = None then None else Some bi)"

lemma commit_entries_ok:
  assumes "bind_ok w" "ctx_state w c = Some s" "staged_for c f w" "distinct ls" "\<forall>l\<in>set ls. bound w f l \<noteq> None"
  shows "\<exists>w'. commit_entries s f ls w = Inr w' \<and> bind_ok w' \<and> ctx_state w' = ctx_state w \<and> res_ids w' = res_ids w \<and> cmds w' = cmds w \<and>
     staged_for c f w' \<and> (\<forall>l. bound w' f l = (if l \<in> set ls then None else bound w f l)) \<and>
     (\<forall>l. bound w' s l = (if l \<in> set ls then override (bound w s) (bound w f) l else bound w s l)) \<and>
     (\<forall>t l. t \<noteq> f \<longrightarrow> t \<noteq> s \<longrightarrow> bound w' t l = bound w t l)"
  using assms
proof (induction ls arbitrary: w)
  case (Cons l ls)
  have ne: "f \<noteq> s" using Cons.prems(2,3) by (auto simp: staged_for_def staged_def)
  obtain bi where bi: "bound w f l = Some bi" using Cons.prems(5) by auto
  then have "bi_ctx bi = Some c" "staged f w" using Cons.prems(3) by (simp_all add: staged_for_def)
  from transfer_ok [OF Cons.prems(1,2) this(2) bi this(1)] obtain w1 where
    w1: "vmw_binding_transfer s f l w = Inr w1" "bind_ok w1" "ctx_state w1 = ctx_state w" "res_ids w1 = res_ids w" "cmds w1 = cmds w"
      "\<forall>t. states w1 t = None \<longleftrightarrow> states w t = None"
      "\<forall>t k. bound w1 t k = (if (t, k) = (s, l) then (if bi_res bi = None then None else Some bi) else bound w t k)" by blast
  let ?w2 = "dropped (f, l) w1"
  have "states w1 f \<noteq> None" using w1(6) Cons.prems(3) by (simp add: staged_for_def staged_def)
  then have run: "vmw_binding_drop (f, l) w1 = Inr ?w2" by (simp add: drop_eq)
  have b2: "bound ?w2 t k = (if (t, k) = (f, l) then None else if (t, k) = (s, l) then (if bi_res bi = None then None else Some bi) else bound w t k)" for t k
    using w1(7) by (simp add: bound_dropped)
  have "staged_for c f ?w2" using Cons.prems(3) w1(3) \<open>states w1 f \<noteq> None\<close> ne b2 by (auto simp: staged_for_def staged_def split: if_splits)
  moreover have "\<forall>k\<in>set ls. bound ?w2 f k \<noteq> None" using Cons.prems(4,5) b2 ne by auto
  ultimately obtain w' where ih: "commit_entries s f ls ?w2 = Inr w'" "bind_ok w'" "ctx_state w' = ctx_state ?w2" "res_ids w' = res_ids ?w2" "cmds w' = cmds ?w2"
      "staged_for c f w'" "\<forall>k. bound w' f k = (if k \<in> set ls then None else bound ?w2 f k)"
      "\<forall>k. bound w' s k = (if k \<in> set ls then override (bound ?w2 s) (bound ?w2 f) k else bound ?w2 s k)"
      "\<forall>t k. t \<noteq> f \<longrightarrow> t \<noteq> s \<longrightarrow> bound w' t k = bound ?w2 t k"
    using Cons.IH [OF dropped_ok [OF w1(2)], of "(f, l)"] Cons.prems(2,4) w1(3) by auto
  have "bound w' s k = (if k \<in> set (l # ls) then override (bound w s) (bound w f) k else bound w s k)" for k
    using ih(8) [rule_format, of k] b2 [of s k] b2 [of f k] bi ne Cons.prems(4) by (auto simp: override_def split: option.splits)
  moreover have "bound w' f k = (if k \<in> set (l # ls) then None else bound w f k)" for k using ih(7) b2 [of f k] ne by auto
  moreover have "bound w' t k = bound w t k" if "t \<noteq> f" "t \<noteq> s" for t k using ih(9) that b2 [of t k] by simp
  ultimately show ?case using w1(1,3,4,5) run ih(1-6) by (intro exI [of _ w']) simp
qed simp

lemma bound_in_list: "bind_ok w \<Longrightarrow> states w s = Some cbs \<Longrightarrow> l \<in> set (cbs_list cbs) \<longleftrightarrow> bound w s l \<noteq> None"
  using bind_okD(1) [of w s cbs] by (auto simp: state_ok_def bound_def)

lemma state_commit_ok:
  assumes ok: "bind_ok w" and s: "ctx_state w c = Some s" and f: "staged_for c f w"
  shows "\<exists>w'. vmw_binding_state_commit s f w = Inr w' \<and> bind_ok w' \<and> ctx_state w' = ctx_state w \<and> res_ids w' = res_ids w \<and> cmds w' = cmds w \<and>
     staged_for c f w' \<and> bound w' f = (\<lambda>_. None) \<and> bound w' s = override (bound w s) (bound w f) \<and>
     (\<forall>t. t \<noteq> f \<longrightarrow> t \<noteq> s \<longrightarrow> bound w' t = bound w t)"
proof -
  obtain cbs where cbs: "states w f = Some cbs" using f by (auto simp: staged_for_def staged_def)
  have d: "distinct (cbs_list cbs)" using bind_okD(1) [OF ok cbs] by (simp add: state_ok_def)
  note l = bound_in_list [OF ok cbs]
  obtain w' where w': "commit_entries s f (cbs_list cbs) w = Inr w'" "bind_ok w'" "ctx_state w' = ctx_state w" "res_ids w' = res_ids w" "cmds w' = cmds w"
     "staged_for c f w'" "\<forall>l. bound w' f l = (if l \<in> set (cbs_list cbs) then None else bound w f l)"
     "\<forall>l. bound w' s l = (if l \<in> set (cbs_list cbs) then override (bound w s) (bound w f) l else bound w s l)"
     "\<forall>t l. t \<noteq> f \<longrightarrow> t \<noteq> s \<longrightarrow> bound w' t l = bound w t l"
    using commit_entries_ok [OF ok s f d] l by blast
  have "bound w' f = (\<lambda>_. None)" using w'(7) l by (auto simp: fun_eq_iff)
  moreover have "bound w' s = override (bound w s) (bound w f)" using w'(8) l by (fastforce simp: fun_eq_iff override_def)
  moreover have "\<forall>t. t \<noteq> f \<longrightarrow> t \<noteq> s \<longrightarrow> bound w' t = bound w t" using w'(9) by (simp add: fun_eq_iff)
  ultimately show ?thesis using w'(1-6) cbs by (intro exI [of _ w']) (simp add: vmw_binding_state_commit_def get_state_def)
qed

lemma drop_entries_ok:
  assumes "bind_ok w" "\<forall>e\<in>set es. states w (fst e) \<noteq> None"
  shows "\<exists>w'. drop_entries es w = Inr w' \<and> bind_ok w' \<and> ctx_state w' = ctx_state w \<and> res_ids w' = res_ids w \<and> cmds w' = cmds w \<and>
     (\<forall>t. states w' t = None \<longleftrightarrow> states w t = None) \<and> (\<forall>r. binding_head w' r = filter (\<lambda>x. x \<notin> set es) (binding_head w r)) \<and>
     (\<forall>s l. bound w' s l = (if (s, l) \<in> set es then None else bound w s l))"
  using assms
proof (induction es arbitrary: w)
  case (Cons e es)
  have "\<forall>x\<in>set es. states (dropped e w) (fst x) \<noteq> None" using Cons.prems(2) by simp
  from Cons.IH [OF dropped_ok [OF Cons.prems(1)] this] obtain w' where w': "drop_entries es (dropped e w) = Inr w'" "bind_ok w'"
     "ctx_state w' = ctx_state w" "res_ids w' = res_ids w" "cmds w' = cmds w" "\<forall>t. states w' t = None \<longleftrightarrow> states (dropped e w) t = None"
     "\<forall>r. binding_head w' r = filter (\<lambda>x. x \<notin> set es) (binding_head (dropped e w) r)"
     "\<forall>s l. bound w' s l = (if (s, l) \<in> set es then None else bound (dropped e w) s l)" by auto
  have "binding_head w' r = filter (\<lambda>x. x \<notin> set (e # es)) (binding_head w r)" for r
    using w'(7) by (simp add: removeAll_filter_not_eq) (metis (no_types, lifting) filter_cong)
  moreover have "bound w' s l = (if (s, l) \<in> set (e # es) then None else bound w s l)" for s l using w'(8) by (auto simp: bound_dropped)
  moreover have "\<forall>t. states w' t = None \<longleftrightarrow> states w t = None" using w'(6) by simp
  moreover have "drop_entries (e # es) w = Inr w'" using Cons.prems(2) w'(1) by (simp add: drop_eq)
  ultimately show ?case using w'(2-5) by (intro exI [of _ w']) simp
qed simp

section \<open>What the device is told\<close>

text \<open>What the body of a command names: the identifier of the context, the location, and the identifier of the resource to bind there.
  What the device does besides is not in the sources and nothing is assumed of it: \<open>table\<close> is read off the commands.\<close>

fun writes :: "u32 option \<times> bind_cmd \<Rightarrow> ((u32 \<times> bind_loc) \<times> u32) list" where
  "writes (dx, SVGA3dCmdSetShader cid type shid) = [((cid, per_shader_shader (type - 1)), shid)]"
| "writes (dx, SVGA3dCmdSetRenderTarget cid type sid face mipmap) = [((cid, render_targets type), sid)]"
| "writes (dx, SVGA3dCmdSetTextureState cid stage name v) = (if name = 1 then [((cid, texture_units stage), v)] else [])"
| "writes (dx, SVGA3dCmdDXSetShader shid type) = (case dx of None \<Rightarrow> [] | Some cid \<Rightarrow> [((cid, per_shader_shader (type - 1)), shid)])"
| "writes (dx, SVGA3dCmdDXSetSingleConstantBuffer slot type sid offset sz) =
     (case dx of None \<Rightarrow> [] | Some cid \<Rightarrow> [((cid, per_shader_const_buffers (type - 1) slot), sid)])"
| "writes (dx, SVGA3dCmdDXSetShaderResources start type ids) =
     (case dx of None \<Rightarrow> []
      | Some cid \<Rightarrow> map (\<lambda>i. ((cid, per_shader_shader_res (type - 1) (start + i)), ids ! i)) [0..<length ids])"
| "writes (dx, SVGA3dCmdDXSetRenderTargets dsv ids) =
     (case dx of None \<Rightarrow> []
      | Some cid \<Rightarrow> ((cid, ds_view), dsv) # map (\<lambda>i. ((cid, render_targets i), ids ! i)) [0..<length ids])"
| "writes (dx, SVGA3dCmdDXSetSOTargets ts) =
     (case dx of None \<Rightarrow> [] | Some cid \<Rightarrow> map (\<lambda>i. ((cid, so_targets i), fst (ts ! i))) [0..<length ts])"
| "writes (dx, SVGA3dCmdDXSetVertexBuffers start vbs) =
     (case dx of None \<Rightarrow> [] | Some cid \<Rightarrow> map (\<lambda>i. ((cid, vertex_buffers (start + i)), fst (vbs ! i))) [0..<length vbs])"
| "writes (dx, SVGA3dCmdDXSetIndexBuffer sid format offset) = (case dx of None \<Rightarrow> [] | Some cid \<Rightarrow> [((cid, index_buffer), sid)])"

type_synonym dev_table = "u32 \<times> bind_loc \<Rightarrow> u32"

definition put_write :: "(u32 \<times> bind_loc) \<times> u32 \<Rightarrow> dev_table \<Rightarrow> dev_table" where
  "put_write kv T = T(fst kv := snd kv)"

definition exec_cmd :: "u32 option \<times> bind_cmd \<Rightarrow> dev_table \<Rightarrow> dev_table" where
  "exec_cmd c T = fold put_write (writes c) T"

definition table :: "dev_table \<Rightarrow> bind_world \<Rightarrow> dev_table" where
  \<comment> \<open>the identifier that the last command to name the location gives it, and \<open>T\<close> where none does\<close>
  "table T w = fold exec_cmd (cmds w) T"

lemma put_write_apply: "put_write kv T k = (if k = fst kv then snd kv else T k)"
  by (simp add: put_write_def)

lemma fold_upd_other: "k \<notin> fst ` set kvs \<Longrightarrow> fold put_write kvs T k = T k"
  by (induction kvs arbitrary: T) (auto simp: put_write_apply)

lemma fold_upd_map:
  assumes "inj_on key (set is)" "distinct is"
  shows "i \<in> set is \<Longrightarrow> fold put_write (map (\<lambda>i. (key i, val i)) is) T (key i) = val i"
  using assms
proof (induction "is" arbitrary: T)
  case (Cons j js)
  show ?case
  proof (cases "i = j")
    case True
    have "key j \<notin> fst ` set (map (\<lambda>i. (key i, val i)) js)" using Cons.prems(2,3) by (auto simp: inj_on_def)
    then have "fold put_write (map (\<lambda>i. (key i, val i)) js) T' (key j) = T' (key j)" for T' by (rule fold_upd_other)
    then have "fold put_write (map (\<lambda>i. (key i, val i)) (j # js)) T (key j) = put_write (key j, val j) T (key j)" by (simp only: list.map fold_simps)
    also have "\<dots> = val j" by (simp add: put_write_def)
    finally show ?thesis using True by simp
  next
    case False
    then show ?thesis using Cons by (simp add: inj_on_def)
  qed
qed simp

definition shown :: "bind_world \<Rightarrow> vmw_ctx_bindinfo \<Rightarrow> u32" where
  "shown w bi = (case bi_res bi of None \<Rightarrow> INVALID_RES | Some r \<Rightarrow> if bi_ctx bi = None \<or> scrubbed bi then INVALID_RES else res_ids w r)"

lemma view_id_shown: "bi_ctx bi = None \<or> bi_res bi \<noteq> None \<Longrightarrow> view_id w bi = Inr (shown w bi)"
  by (auto simp: view_id_def shown_def the_ptr_def split: option.splits)

text \<open>A binding whose command is delayed.\<close>

fun pending :: "vmw_ctx_binding_state \<Rightarrow> bind_loc \<Rightarrow> bool" where
  "pending cbs (per_shader_shader_res k i) = (dirty cbs VMW_BINDING_PS_BIT \<and> ps_dirty cbs k \<and> dirty_sr cbs k i)"
| "pending cbs (render_targets i) = (dirty cbs VMW_BINDING_RT_BIT \<and> bi_bt (slots cbs (render_targets i)) = vmw_ctx_binding_dx_rt)"
| "pending cbs ds_view = dirty cbs VMW_BINDING_RT_BIT"
| "pending cbs (so_targets i) = dirty cbs VMW_BINDING_SO_BIT"
| "pending cbs (vertex_buffers i) = (dirty cbs VMW_BINDING_VB_BIT \<and> dirty_vb cbs i)"
| "pending cbs _ = False"

definition in_sync :: "dev_table \<Rightarrow> bind_world \<Rightarrow> bool" where
  \<comment> \<open>the device was last told what the manager believes, up to delayed commands\<close>
  "in_sync T w \<longleftrightarrow> (\<forall>c s cbs l. ctx_state w c = Some s \<longrightarrow> states w s = Some cbs \<longrightarrow> l \<in> set (cbs_list cbs) \<longrightarrow> \<not> pending cbs l \<longrightarrow>
     table T w (res_ids w c, l) = shown w (slots cbs l))"

lemma in_syncI:
  assumes "ctx_state w' = ctx_state w" "res_ids w' = res_ids w"
    and "\<And>d t cbs k. ctx_state w d = Some t \<Longrightarrow> states w' t = Some cbs \<Longrightarrow> k \<in> set (cbs_list cbs) \<Longrightarrow> \<not> pending cbs k \<Longrightarrow>
      table T w' (res_ids w d, k) = shown w (slots cbs k)"
  shows "in_sync T w'"
proof -
  have "shown w' = shown w" by (rule ext) (auto simp: shown_def assms(2) split: option.splits)
  then show ?thesis using assms by (simp add: in_sync_def)
qed

lemma in_syncD:
  "in_sync T w \<Longrightarrow> ctx_state w d = Some t \<Longrightarrow> states w t = Some cbs \<Longrightarrow> k \<in> set (cbs_list cbs) \<Longrightarrow> \<not> pending cbs k \<Longrightarrow>
   table T w (res_ids w d, k) = shown w (slots cbs k)"
  by (simp add: in_sync_def)

lemma table_cong: "cmds w' = cmds w \<Longrightarrow> table T w' = table T w"
  by (simp add: table_def)

definition ids_ok :: "bind_world \<Rightarrow> bool" where
  "ids_ok w \<longleftrightarrow> (\<forall>c d s t. ctx_state w c = Some s \<longrightarrow> ctx_state w d = Some t \<longrightarrow> res_ids w c = res_ids w d \<longrightarrow> c = d)"

text \<open>The render targets and the stream output targets have no gaps, and DX render targets are those that one command can set.\<close>

definition no_gaps :: "vmw_ctx_binding_state \<Rightarrow> bool" where
  "no_gaps cbs \<longleftrightarrow>
     (\<forall>i. bi_ctx (slots cbs (render_targets i)) \<noteq> None \<longrightarrow> bi_bt (slots cbs (render_targets i)) = vmw_ctx_binding_dx_rt \<longrightarrow>
        i < SVGA3D_MAX_SIMULTANEOUS_RENDER_TARGETS \<and> (\<forall>j<i. bi_ctx (slots cbs (render_targets j)) \<noteq> None)) \<and>
     (\<forall>i. bi_ctx (slots cbs (so_targets i)) \<noteq> None \<longrightarrow> (\<forall>j<i. bi_ctx (slots cbs (so_targets j)) \<noteq> None))"

text \<open>What scrubbing and rebinding leave alone.\<close>

definition core :: "vmw_ctx_binding_state \<Rightarrow> vmw_ctx_binding_state" where
  "core cbs = \<lparr>cbs_list = cbs_list cbs, slots = (\<lambda>l. (slots cbs l)\<lparr>scrubbed := False\<rparr>), dirty = (\<lambda>_. False), dirty_vb = (\<lambda>_. False),
     dirty_sr = (\<lambda>_ _. False), ps_dirty = (\<lambda>_. False)\<rparr>"

definition same_core :: "bind_world \<Rightarrow> bind_world \<Rightarrow> bool" where
  "same_core w w' \<longleftrightarrow> ctx_state w' = ctx_state w \<and> res_ids w' = res_ids w \<and> binding_head w' = binding_head w \<and> fifo_room w' = fifo_room w \<and>
     (\<forall>s. map_option core (states w' s) = map_option core (states w s))"

lemma same_core_refl [simp]: "same_core w w" by (simp add: same_core_def)

lemma same_core_trans [trans]: "same_core w w1 \<Longrightarrow> same_core w1 w2 \<Longrightarrow> same_core w w2" by (simp add: same_core_def)

lemma coreD:
  assumes "core cbs' = core cbs"
  shows "cbs_list cbs' = cbs_list cbs" "bi_ctx (slots cbs' l) = bi_ctx (slots cbs l)" "bi_res (slots cbs' l) = bi_res (slots cbs l)"
    "bi_bt (slots cbs' l) = bi_bt (slots cbs l)" "(slots cbs' l)\<lparr>scrubbed := b\<rparr> = (slots cbs l)\<lparr>scrubbed := b\<rparr>" "bi_place (slots cbs' l) = bi_place (slots cbs l)"
proof -
  show "cbs_list cbs' = cbs_list cbs" using assms by (simp add: core_def)
  have eq: "(slots cbs' l)\<lparr>scrubbed := False\<rparr> = (slots cbs l)\<lparr>scrubbed := False\<rparr>" using assms by (simp add: core_def fun_eq_iff)
  show "bi_ctx (slots cbs' l) = bi_ctx (slots cbs l)" "bi_res (slots cbs' l) = bi_res (slots cbs l)" "bi_bt (slots cbs' l) = bi_bt (slots cbs l)"
    "(slots cbs' l)\<lparr>scrubbed := b\<rparr> = (slots cbs l)\<lparr>scrubbed := b\<rparr>"
    using eq by (cases "slots cbs' l"; cases "slots cbs l"; simp)+
  show "bi_place (slots cbs' l) = bi_place (slots cbs l)" using arg_cong [OF eq, of bi_place] by simp
qed

lemma same_core_state:
  assumes "same_core w w'" "states w' s = Some cbs'"
  obtains cbs where "states w s = Some cbs" "core cbs' = core cbs"
  using assms by (metis (no_types, lifting) map_option_eq_Some option.simps(9) same_core_def)

lemma same_core_sym: "same_core w w' \<Longrightarrow> same_core w' w" by (simp add: same_core_def)

lemma bind_ok_core:
  assumes ok: "bind_ok w" and c: "same_core w w'"
  shows "bind_ok w'"
proof -
  have st: "state_ok cbs'" if s: "states w' s = Some cbs'" for s cbs'
  proof (rule same_core_state [OF c s])
    fix cbs assume "states w s = Some cbs" "core cbs' = core cbs"
    then show ?thesis using bind_okD(1) [OF ok] coreD [of cbs' cbs] by (simp add: state_ok_def)
  qed
  have "\<exists>cbs'. states w' s = Some cbs' \<and> (\<forall>l\<in>set (cbs_list cbs'). bi_ctx (slots cbs' l) = Some d \<and> bi_res (slots cbs' l) \<noteq> None)"
    if "ctx_state w' d = Some s" for d s
  proof -
    have d: "ctx_state w d = Some s" using that c by (simp add: same_core_def)
    obtain cbs where cbs: "states w s = Some cbs" "\<And>l. l \<in> set (cbs_list cbs) \<Longrightarrow> bi_ctx (slots cbs l) = Some d \<and> bi_res (slots cbs l) \<noteq> None"
      by (rule ctxs_okD [OF bind_okD(2) [OF ok] d]) (rule that)
    show ?thesis
    proof (rule same_core_state [OF same_core_sym [OF c] cbs(1)])
      fix cbs' assume "states w' s = Some cbs'" "core cbs = core cbs'"
      then show ?thesis using cbs(2) coreD(1-3) [of cbs cbs'] by simp
    qed
  qed
  then have "ctxs_ok w'" using bind_okD(2) [OF ok] c by (simp add: ctxs_ok_def same_core_def)
  moreover have imp: "binds v r x \<Longrightarrow> same_core v v' \<Longrightarrow> binds v' r x" for v v' r x
  proof -
    assume b: "binds v r x" and sc: "same_core v v'"
    then obtain d cbs where cbs: "ctx_state v d = Some (fst x)" "states v (fst x) = Some cbs" "bi_ctx (slots cbs (snd x)) \<noteq> None" "bi_res (slots cbs (snd x)) = Some r"
      by (auto simp: binds_def)
    obtain cbs' where "states v' (fst x) = Some cbs'" "core cbs = core cbs'" by (rule same_core_state [OF same_core_sym [OF sc] cbs(2)])
    then show "binds v' r x" using cbs sc coreD [of cbs cbs'] by (auto simp: binds_def same_core_def)
  qed
  then have "binds w' r x = binds w r x" for r x using c same_core_sym by blast
  then have "heads_ok w'" using bind_okD(3) [OF ok] c by (simp add: heads_ok_def same_core_def)
  ultimately show ?thesis using st by (simp add: bind_ok_def)
qed

lemma set_scrubbed_same [simp]:
  "ctx_state (set_scrubbed b e w) = ctx_state w" "res_ids (set_scrubbed b e w) = res_ids w" "binding_head (set_scrubbed b e w) = binding_head w"
  "fifo_room (set_scrubbed b e w) = fifo_room w" "cmds (set_scrubbed b e w) = cmds w"
  "states (set_scrubbed b e w) t = (if t = fst e then map_option (upd_slot (snd e) (\<lambda>bi. bi\<lparr>scrubbed := b\<rparr>)) (states w t) else states w t)"
  by (auto simp: set_scrubbed_def)

lemma core_upd_slot [simp]: "core (upd_slot l (\<lambda>bi. bi\<lparr>scrubbed := b\<rparr>) cbs) = core cbs"
  by (simp add: core_def upd_slot_def fun_eq_iff)

lemma pending_upd_slot [simp]: "pending (upd_slot l (\<lambda>bi. bi\<lparr>scrubbed := b\<rparr>) cbs) k = pending cbs k"
  by (cases k) simp_all

definition scrub_of :: "bind_world \<Rightarrow> nat \<times> bind_loc \<Rightarrow> bool" where
  "scrub_of w e = (case states w (fst e) of None \<Rightarrow> False | Some cbs \<Rightarrow> scrubbed (slots cbs (snd e)))"

definition scrub_step :: "dev_table \<Rightarrow> nat \<Rightarrow> bind_loc \<Rightarrow> bool \<Rightarrow> bind_world \<Rightarrow> bind_world \<Rightarrow> bool" where
  \<comment> \<open>one binding is scrubbed or made again, as far as the manager is concerned\<close>
  "scrub_step T s l b w w' \<longleftrightarrow> same_core w w' \<and> in_sync T w' \<and> (\<forall>t. t \<noteq> s \<longrightarrow> states w' t = states w t) \<and>
     (\<forall>e. scrub_of w' e = (if e = (s, l) then b else scrub_of w e))"

lemma scrub_mark:
  assumes ok: "bind_ok w" and sync: "in_sync T w" and c: "ctx_state w c = Some s" "states w s = Some cbs"
    and f: "cbs_list (f cbs) = cbs_list cbs" "slots (f cbs) = slots cbs" "core (f cbs) = core cbs" "\<And>k. pending cbs k \<Longrightarrow> pending (f cbs) k"
      "pending (f cbs) l"
  shows "scrub_step T s l b w (set_scrubbed b (s, l) (upd_state s f w))" (is "scrub_step T s l b w ?w")
proof -
  have "table T ?w (res_ids w d, k) = shown w (slots cbs' k)"
    if a: "ctx_state w d = Some t" "states ?w t = Some cbs'" "k \<in> set (cbs_list cbs')" "\<not> pending cbs' k" for d t cbs' k
  proof (cases "t = s")
    case True
    then have "cbs' = upd_slot l (\<lambda>bi. bi\<lparr>scrubbed := b\<rparr>) (f cbs)" using a(2) c(2) by simp
    then have k: "\<not> pending (f cbs) k" "k \<noteq> l" "slots cbs' k = slots cbs k" "k \<in> set (cbs_list cbs)" using a(3,4) f(1,2,5) by auto
    moreover have "\<not> pending cbs k" using k(1) f(4) by blast
    ultimately show ?thesis using in_syncD [OF sync a(1) _ _ \<open>\<not> pending cbs k\<close>] True c(2) table_cong [of ?w w] by simp
  next
    case False
    then show ?thesis using in_syncD [OF sync a(1) _ a(3,4)] a(2) table_cong [of ?w w] by simp
  qed
  then have "in_sync T ?w" by (intro in_syncI [of ?w w]) simp_all
  moreover have "same_core w ?w" using c(2) f(3) by (simp add: same_core_def)
  moreover have "scrub_of ?w e = (if e = (s, l) then b else scrub_of w e)" for e
    using c(2) f(2) by (cases e) (auto simp: scrub_of_def split: option.splits)
  ultimately show ?thesis by (simp add: scrub_step_def)
qed

lemma exec_single: "writes cmd = [(k, v)] \<Longrightarrow> exec_cmd cmd T = T(k := v)"
  by (simp add: exec_cmd_def put_write_def)

lemma scrub_direct:
  assumes ok: "bind_ok w" and ids: "ids_ok w" and sync: "in_sync T w" and c: "ctx_state w c = Some s" "states w s = Some cbs"
    and wr: "writes cmd = [((res_ids w c, l), v)]" and v: "v = shown w ((slots cbs l)\<lparr>scrubbed := b\<rparr>)"
  shows "scrub_step T s l b w (set_scrubbed b (s, l) (w\<lparr>reservations := n, cmds := cmds w @ [cmd]\<rparr>))" (is "scrub_step T s l b w ?w")
proof -
  have tab: "table T ?w = (table T w)((res_ids w c, l) := v)" by (simp add: table_def exec_single [OF wr])
  have "table T ?w (res_ids w d, k) = shown w (slots cbs' k)"
    if a: "ctx_state w d = Some t" "states ?w t = Some cbs'" "k \<in> set (cbs_list cbs')" "\<not> pending cbs' k" for d t cbs' k
  proof (cases "t = s \<and> k = l")
    case True
    moreover have "d = c" using True a(1) c(1) bind_okD(2) [OF ok] by (auto simp: ctxs_ok_def)
    ultimately show ?thesis using a(2) c(2) tab v by auto
  next
    case False
    obtain cbs0 where cbs0: "states w t = Some cbs0" "k \<in> set (cbs_list cbs0)" "\<not> pending cbs0 k" "slots cbs' k = slots cbs0 k"
      using a(2-4) False by (auto split: if_splits)
    have "(res_ids w d, k) \<noteq> (res_ids w c, l)"
    proof
      assume eq: "(res_ids w d, k) = (res_ids w c, l)"
      then have "d = c" using ids a(1) c(1) unfolding ids_ok_def by blast
      then show False using eq False a(1) c(1) by simp
    qed
    then show ?thesis using in_syncD [OF sync a(1) cbs0(1-3)] cbs0(4) tab by auto
  qed
  then have "in_sync T ?w" by (intro in_syncI [of ?w w]) simp_all
  moreover have "same_core w ?w" using c(2) by (simp add: same_core_def)
  moreover have "scrub_of ?w e = (if e = (s, l) then b else scrub_of w e)" for e
    using c(2) by (cases e) (auto simp: scrub_of_def split: option.splits)
  ultimately show ?thesis by (simp add: scrub_step_def)
qed

lemma bi_place_loc:
  "bi_place bi = Inr l \<Longrightarrow> l =
     (case bi_bt bi of
        vmw_ctx_binding_shader \<Rightarrow> per_shader_shader (bi_shader_slot bi) | vmw_ctx_binding_dx_shader \<Rightarrow> per_shader_shader (bi_shader_slot bi)
      | vmw_ctx_binding_rt \<Rightarrow> render_targets (bi_slot bi) | vmw_ctx_binding_dx_rt \<Rightarrow> render_targets (bi_slot bi)
      | vmw_ctx_binding_tex \<Rightarrow> texture_units (texture_stage bi)
      | vmw_ctx_binding_cb \<Rightarrow> per_shader_const_buffers (bi_shader_slot bi) (bi_slot bi)
      | vmw_ctx_binding_sr \<Rightarrow> per_shader_shader_res (bi_shader_slot bi) (bi_slot bi)
      | vmw_ctx_binding_ds \<Rightarrow> ds_view | vmw_ctx_binding_so \<Rightarrow> so_targets (bi_slot bi) | vmw_ctx_binding_vb \<Rightarrow> vertex_buffers (bi_slot bi)
      | vmw_ctx_binding_ib \<Rightarrow> index_buffer)"
  by (cases "bi_bt bi") (auto simp: bi_place_def vmw_binding_loc_def in_array_def split: if_splits)

text \<open>The types of bindings whose commands are sent at once, and those whose commands are delayed.\<close>

abbreviation delayed :: "vmw_ctx_binding_type \<Rightarrow> bool" where
  "delayed bt \<equiv> bt \<in> {vmw_ctx_binding_dx_rt, vmw_ctx_binding_sr, vmw_ctx_binding_ds, vmw_ctx_binding_so, vmw_ctx_binding_vb}"

lemma scrub_at_once:
  assumes c: "bi_ctx bi = Some c" and place: "bi_place bi = Inr l" and v: "bound_id rb bi w = Inr v" and bt: "\<not> delayed (bi_bt bi)"
  shows "\<exists>dx cmd. scrub_func (bi_bt bi) bi rb w = Inr (vmw_fifo_send dx cmd w) \<and> writes (dx, cmd) = [((res_ids w c, l), v)]"
  using bt bi_place_loc [OF place]
  by (cases "bi_bt bi")
    (simp_all add: scrub_func_def vmw_binding_scrub_shader_def vmw_binding_scrub_render_target_def vmw_binding_scrub_texture_def
      vmw_binding_scrub_cb_def vmw_binding_scrub_dx_shader_def vmw_binding_scrub_ib_def the_ptr_def c v split del: if_split, (rule exI, rule exI, rule conjI, rule refl, simp)+)

lemma scrub_later:
  assumes place: "bi_place bi = Inr l" and bi: "slots cbs l = bi" and bt: "delayed (bi_bt bi)"
  shows "\<exists>f. scrub_func (bi_bt bi) bi rb w = mark_dirty f bi w \<and> cbs_list (f cbs) = cbs_list cbs \<and>
     slots (f cbs) = slots cbs \<and> core (f cbs) = core cbs \<and> (\<forall>k. pending cbs k \<longrightarrow> pending (f cbs) k) \<and> pending (f cbs) l"
  using bt bi bi_place_loc [OF place]
  by (cases "bi_bt bi")
    (simp_all add: scrub_func_def vmw_binding_scrub_dx_rt_def vmw_binding_scrub_sr_def vmw_binding_scrub_so_def vmw_binding_scrub_vb_def,
      (rule exI, rule conjI, rule refl, auto simp: core_def elim: pending.elims)+)

lemma scrub_func_ok:
  assumes ok: "bind_ok w" and ids: "ids_ok w" and sync: "in_sync T w" and room: "\<And>n. fifo_room w n"
    and c: "ctx_state w c = Some s" "states w s = Some cbs" and l: "l \<in> set (cbs_list cbs)"
  shows "\<exists>w1. scrub_func (bi_bt (slots cbs l)) (slots cbs l) rb w = Inr (w1, Inr ()) \<and> scrub_step T s l (\<not> rb) w (set_scrubbed (\<not> rb) (s, l) w1)"
proof -
  define bi where "bi = slots cbs l"
  have place: "bi_place bi = Inr l" using bind_okD(1) [OF ok c(2)] l by (simp add: state_ok_def bi_def)
  obtain r where bi: "bi_ctx bi = Some c" "bi_res bi = Some r"
    using bind_okD(2) [OF ok] c l unfolding ctxs_ok_def bi_def by fastforce
  define v where "v = (if rb then res_ids w r else INVALID_RES)"
  have v: "v = shown w (bi\<lparr>scrubbed := \<not> rb\<rparr>)" "bound_id rb bi w = Inr v"
    using bi by (simp_all add: v_def shown_def bound_id_def the_ptr_def)
  show ?thesis
  proof (cases "delayed (bi_bt bi)")
    case True
    obtain f where f: "scrub_func (bi_bt bi) bi rb w = mark_dirty f bi w" "cbs_list (f cbs) = cbs_list cbs" "slots (f cbs) = slots cbs"
        "core (f cbs) = core cbs" "\<And>k. pending cbs k \<Longrightarrow> pending (f cbs) k" "pending (f cbs) l"
      using scrub_later [OF place bi_def [symmetric] True, of rb w] by blast
    have "mark_dirty f bi w = Inr (upd_state s f w, Inr ())" using bi c by (simp add: mark_dirty_def the_ptr_def get_state_def)
    then show ?thesis using f(1) scrub_mark [where f = f, OF ok sync c f(2-6), of "\<not> rb"] by (simp add: bi_def)
  next
    case False
    obtain dx cmd where d: "scrub_func (bi_bt bi) bi rb w = Inr (vmw_fifo_send dx cmd w)" "writes (dx, cmd) = [((res_ids w c, l), v)]"
      using scrub_at_once [OF bi(1) place v(2) False] by blast
    have "vmw_fifo_send dx cmd w = (w\<lparr>reservations := reservations w + 1, cmds := cmds w @ [(dx, cmd)]\<rparr>, Inr ())"
      using room by (simp add: vmw_fifo_send_def)
    then show ?thesis using d(1) scrub_direct [OF ok ids sync c d(2), of "\<not> rb" "reservations w + 1"] v(1) by (simp add: bi_def)
  qed
qed

end
