(* ===== verification/Binding_Emit.thy ===== *)
theory Binding_Emit
  imports Binding_Inv
begin

text \<open>
  The commands that \<open>vmw_binding_emit_dirty\<close> sends for the bindings that are marked dirty: what is collected for them, and that
  the device was told what the manager believes once they are sent.
\<close>

section \<open>Collecting\<close>

lemma collect_while_ok:
  "(\<And>bi. bi \<in> set bis \<Longrightarrow> f bi = Inr (g bi)) \<Longrightarrow> collect_while f bis = Inr (map g (takeWhile (\<lambda>bi. bi_ctx bi \<noteq> None) bis))"
  by (induction bis) auto

lemma collect_while_upt:
  fixes slot :: "nat \<Rightarrow> vmw_ctx_bindinfo"
  assumes f: "\<And>i. i < m \<Longrightarrow> f (slot i) = Inr (g (slot i))"
  obtains n where "n \<le> m" "collect_while f (map slot [0..<m]) = Inr (map (\<lambda>i. g (slot i)) [0..<n])"
    "\<And>i. i < m \<Longrightarrow> (\<And>j. j \<le> i \<Longrightarrow> bi_ctx (slot j) \<noteq> None) \<Longrightarrow> i < n"
proof -
  define P where "P = (\<lambda>bi :: vmw_ctx_bindinfo. bi_ctx bi \<noteq> None)"
  define n where "n = length (takeWhile P (map slot [0..<m]))"
  have n: "n \<le> m" unfolding n_def by (rule order_trans [OF length_takeWhile_le]) simp
  have "takeWhile P (map slot [0..<m]) = map slot [0..<n]"
    using n by (intro nth_equalityI) (simp_all add: n_def takeWhile_nth del: takeWhile_map)
  moreover have "collect_while f (map slot [0..<m]) = Inr (map g (takeWhile P (map slot [0..<m])))"
    unfolding P_def by (rule collect_while_ok) (use f in auto)
  ultimately have "collect_while f (map slot [0..<m]) = Inr (map (\<lambda>i. g (slot i)) [0..<n])" by (simp add: comp_def)
  moreover have "i < n" if i: "i < m" and b: "\<And>j. j \<le> i \<Longrightarrow> bi_ctx (slot j) \<noteq> None" for i
  proof -
    have "Suc i \<le> n" unfolding n_def by (rule length_takeWhile_less_P_nth) (use i b in \<open>auto simp: P_def\<close>)
    then show ?thesis by simp
  qed
  ultimately show thesis using that n by blast
qed

lemma find_next_bit_props:
  shows find_next_bit_clean: "i \<le> j \<Longrightarrow> j < find_next_bit d m i \<Longrightarrow> j < m \<Longrightarrow> \<not> d j"
    and find_next_bit_ge: "i \<le> m \<Longrightarrow> i \<le> find_next_bit d m i"
    and find_next_bit_le: "find_next_bit d m i \<le> m"
proof -
  have "(\<forall>j. i \<le> j \<longrightarrow> j < find_next_bit d m i \<longrightarrow> j < m \<longrightarrow> \<not> d j) \<and> (i \<le> m \<longrightarrow> i \<le> find_next_bit d m i) \<and> find_next_bit d m i \<le> m"
  proof (cases "find d [i..<m]")
    case None
    then show ?thesis by (simp add: find_next_bit_def) (simp add: find_None_iff)
  next
    case (Some k)
    then obtain n where n: "n < m - i" "d (i + n)" "k = i + n" "\<forall>j<n. \<not> d (i + j)" by (auto simp: find_Some_iff)
    have "\<not> d j" if "i \<le> j" "j < k" for j using n(4) [rule_format, of "j - i"] that n(3) by simp
    then show ?thesis using Some n by (auto simp: find_next_bit_def)
  qed
  then show "i \<le> j \<Longrightarrow> j < find_next_bit d m i \<Longrightarrow> j < m \<Longrightarrow> \<not> d j" "i \<le> m \<Longrightarrow> i \<le> find_next_bit d m i" "find_next_bit d m i \<le> m"
    by blast+
qed

lemma collect_dirty_ok:
  assumes "\<And>j. f (biv j) = Inr (g j)" "i \<le> next_bit" "\<And>j. i \<le> j \<Longrightarrow> j < next_bit \<Longrightarrow> j < m \<Longrightarrow> \<not> d j" "i \<le> m"
  shows "\<exists>n. i \<le> n \<and> n \<le> m \<and> collect_dirty f biv d m next_bit [i..<m] = Inr (map g [i..<n]) \<and> (\<forall>j. i \<le> j \<longrightarrow> j < m \<longrightarrow> d j \<longrightarrow> j < n)"
  using assms(2-)
proof (induction "m - i" arbitrary: i next_bit)
  case 0
  then show ?case by (intro exI [of _ i]) auto
next
  case (Suc k)
  then have i: "i < m" "[i..<m] = i # [Suc i..<m]" by (auto simp: upt_conv_Cons)
  define nb where "nb = (if next_bit = i then find_next_bit d m (i + 1) else next_bit)"
  have nb: "\<not> d j" if j: "Suc i \<le> j" "j < nb" "j < m" for j
    using j Suc.prems(2) [of j] find_next_bit_clean [of "i + 1" j d m] by (simp add: nb_def split: if_splits)
  have sb: "Suc i \<le> nb" using i(1) Suc.prems(1) find_next_bit_ge [of "i + 1" m d] by (auto simp: nb_def)
  have k: "k = m - Suc i" using Suc.hyps(2) by simp
  have "\<exists>n. Suc i \<le> n \<and> n \<le> m \<and> collect_dirty f biv d m nb [Suc i..<m] = Inr (map g [Suc i..<n]) \<and>
     (\<forall>j. Suc i \<le> j \<longrightarrow> j < m \<longrightarrow> d j \<longrightarrow> j < n)"
    by (rule Suc.hyps(1) [OF k sb]) (use nb i(1) in simp_all)
  then obtain n where n: "Suc i \<le> n" "n \<le> m" "collect_dirty f biv d m nb [Suc i..<m] = Inr (map g [Suc i..<n])"
      "\<forall>j. Suc i \<le> j \<longrightarrow> j < m \<longrightarrow> d j \<longrightarrow> j < n" by blast
  have "map g [i..<n] = g i # map g [Suc i..<n]" using n(1) by (simp add: upt_conv_Cons)
  moreover have "\<forall>j. i \<le> j \<longrightarrow> j < m \<longrightarrow> d j \<longrightarrow> j < n"
  proof (intro allI impI)
    fix j assume j: "i \<le> j" "j < m" "d j"
    then show "j < n" using n(1,4) by (cases "j = i") simp_all
  qed
  ultimately have rest: ?case if "\<not> (next_bit = i \<and> nb \<ge> m)" using that n i assms(1)
    by (intro exI [of _ n]) (auto simp: nb_def Let_def split: if_splits)
  have stop: ?case if s: "next_bit = i" "nb \<ge> m"
  proof -
    have "collect_dirty f biv d m next_bit [i..<m] = Inr (map g [i..<Suc i])"
      using s i(2) assms(1) by (simp add: nb_def)
    moreover have "\<forall>j. i \<le> j \<longrightarrow> j < m \<longrightarrow> d j \<longrightarrow> j < Suc i"
    proof (intro allI impI)
      fix j assume j: "i \<le> j" "j < m" "d j"
      then show "j < Suc i" using nb [of j] s(2) by (cases "j = i") simp_all
    qed
    ultimately show ?thesis using i(1) by (intro exI [of _ "Suc i"]) simp
  qed
  show ?case using rest stop by blast
qed

lemma collect_dirty_first:
  assumes "\<And>j. f (biv j) = Inr (g j)"
  obtains n where "n \<le> m" "find_next_bit d m 0 \<le> n"
    "collect_dirty f biv d m (find_next_bit d m 0) [find_next_bit d m 0..<m] = Inr (map g [find_next_bit d m 0..<n])"
    "\<And>j. j < m \<Longrightarrow> d j \<Longrightarrow> find_next_bit d m 0 \<le> j \<and> j < n"
proof -
  obtain n where "find_next_bit d m 0 \<le> n" "n \<le> m"
     "collect_dirty f biv d m (find_next_bit d m 0) [find_next_bit d m 0..<m] = Inr (map g [find_next_bit d m 0..<n])"
     "\<forall>j. find_next_bit d m 0 \<le> j \<longrightarrow> j < m \<longrightarrow> d j \<longrightarrow> j < n"
    using collect_dirty_ok [of f biv g "find_next_bit d m 0" "find_next_bit d m 0" m d] assms find_next_bit_le [of d m 0] by auto
  then show thesis using that find_next_bit_clean [of 0 _ d m] by (meson leI zero_le)
qed

section \<open>Sending\<close>

lemma put_all: "\<forall>kv\<in>set kvs. snd kv = g (fst kv) \<Longrightarrow> fold put_write kvs T k = (if k \<in> fst ` set kvs then g k else T k)"
proof (induction kvs arbitrary: T)
  case (Cons kv kvs)
  then show ?case by (cases "k \<in> fst ` set kvs"; cases "k = fst kv") (simp_all add: put_write_def)
qed simp

lemma upd_state_id [simp]: "upd_state s (\<lambda>x. x) w = w"
  by (simp add: upd_state_def option.map_ident)

definition emits :: "dev_table \<Rightarrow> nat \<Rightarrow> (vmw_ctx_binding_state \<Rightarrow> vmw_ctx_binding_state) \<Rightarrow> bind_world \<Rightarrow> bind_world \<Rightarrow> bool" where
  \<comment> \<open>the commands are sent for what will not be pending any more after \<open>f\<close>\<close>
  "emits T s f w w1 \<longleftrightarrow> same_core w w1 \<and> in_sync T (upd_state s f w1) \<and> (\<forall>t. t \<noteq> s \<longrightarrow> states w1 t = states w t) \<and>
     (\<exists>cbs cbs1. states w s = Some cbs \<and> states w1 s = Some cbs1 \<and> slots cbs1 = slots cbs \<and> dirty cbs1 = dirty cbs)"

definition keeps_slots :: "(vmw_ctx_binding_state \<Rightarrow> vmw_ctx_binding_state) \<Rightarrow> bool" where
  "keeps_slots f \<longleftrightarrow> (\<forall>cbs. cbs_list (f cbs) = cbs_list cbs \<and> slots (f cbs) = slots cbs)"

lemma keeps_slotsD: "keeps_slots f \<Longrightarrow> cbs_list (f cbs) = cbs_list cbs" "keeps_slots f \<Longrightarrow> slots (f cbs) = slots cbs"
  "keeps_slots f \<Longrightarrow> core (f cbs) = core cbs"
  by (simp_all add: keeps_slots_def core_def)

lemma keeps_slots_id [simp]: "keeps_slots (\<lambda>x. x)" by (simp add: keeps_slots_def)

lemma emit_send:
  assumes ok: "bind_ok w" and ids: "ids_ok w" and sync: "in_sync T w" and c: "ctx_state w c = Some s" "states w s = Some cbs"
    and wr: "\<forall>kv\<in>set (writes (Some (res_ids w c), cmd)). fst (fst kv) = res_ids w c \<and> snd kv = shown w (slots cbs (snd (fst kv)))"
    and g: "keeps_slots g" "dirty (g cbs) = dirty cbs" and f: "keeps_slots f"
    and sent: "\<And>k. k \<in> set (cbs_list cbs) \<Longrightarrow> pending cbs k \<Longrightarrow> \<not> pending (f (g cbs)) k \<Longrightarrow>
      (res_ids w c, k) \<in> fst ` set (writes (Some (res_ids w c), cmd))"
  shows "emits T s f w (upd_state s g (w\<lparr>reservations := n, cmds := cmds w @ [(Some (res_ids w c), cmd)]\<rparr>))" (is "emits T s f w ?w1")
proof -
  let ?w = "upd_state s f ?w1" and ?ks = "fst ` set (writes (Some (res_ids w c), cmd))"
  have "table T ?w k = fold put_write (writes (Some (res_ids w c), cmd)) (table T w) k" for k by (simp add: table_def exec_cmd_def)
  also have "\<dots> k = (if k \<in> ?ks then shown w (slots cbs (snd k)) else table T w k)" for k
    by (rule put_all [where g = "\<lambda>k. shown w (slots cbs (snd k))"]) (use wr in blast)
  finally have tab: "table T ?w k = (if k \<in> ?ks then shown w (slots cbs (snd k)) else table T w k)" for k .
  have "table T ?w (res_ids w d, k) = shown w (slots cbs' k)"
    if a: "ctx_state w d = Some t" "states ?w t = Some cbs'" "k \<in> set (cbs_list cbs')" "\<not> pending cbs' k" for d t cbs' k
  proof (cases "t = s")
    case True
    have "d = c" using True a(1) c(1) bind_okD(2) [OF ok] by (auto simp: ctxs_ok_def)
    have cbs': "cbs' = f (g cbs)" using a(2) True c(2) by simp
    then have k: "k \<in> set (cbs_list cbs)" "slots cbs' k = slots cbs k" "\<not> pending (f (g cbs)) k"
      using a(3,4) keeps_slotsD [OF f] keeps_slotsD [OF g(1)] by simp_all
    show ?thesis
    proof (cases "pending cbs k")
      case True
      then show ?thesis using sent [OF k(1) True k(3)] tab \<open>d = c\<close> k(2) by simp
    next
      case False
      then show ?thesis using in_syncD [OF sync c k(1) False] tab \<open>d = c\<close> k(2) by simp
    qed
  next
    case False
    then have "(res_ids w d, k) \<notin> ?ks" using wr ids a(1) c(1) unfolding ids_ok_def by fastforce
    then show ?thesis using in_syncD [OF sync a(1) _ a(3,4)] a(2) False tab by simp
  qed
  then have "in_sync T ?w" by (intro in_syncI [of ?w w]) simp_all
  moreover have "same_core w ?w1" using c(2) keeps_slotsD(3) [OF g(1)] by (simp add: same_core_def)
  ultimately show ?thesis using c(2) g(2) keeps_slotsD [OF g(1)] by (simp add: emits_def)
qed

lemma emit_quiet:
  assumes sync: "in_sync T w" and c: "ctx_state w c = Some s" "states w s = Some cbs" and f: "keeps_slots f" and ok: "bind_ok w"
    and quiet: "\<And>k. k \<in> set (cbs_list cbs) \<Longrightarrow> pending cbs k \<Longrightarrow> pending (f cbs) k"
  shows "emits T s f w w"
proof -
  let ?w = "upd_state s f w"
  have "table T ?w (res_ids w d, k) = shown w (slots cbs' k)"
    if a: "ctx_state w d = Some t" "states ?w t = Some cbs'" "k \<in> set (cbs_list cbs')" "\<not> pending cbs' k" for d t cbs' k
  proof (cases "t = s")
    case True
    then have cbs': "cbs' = f cbs" using a(2) c(2) by simp
    then have "k \<in> set (cbs_list cbs)" "\<not> pending cbs k" "slots cbs' k = slots cbs k" using a(3,4) quiet [of k] keeps_slotsD [OF f] by auto
    then show ?thesis using in_syncD [OF sync a(1)] True c(2) table_cong [of ?w w] by simp
  next
    case False
    then show ?thesis using in_syncD [OF sync a(1) _ a(3,4)] a(2) table_cong [of ?w w] by simp
  qed
  then have "in_sync T ?w" by (intro in_syncI [of ?w w]) simp_all
  then show ?thesis using c(2) by (simp add: emits_def)
qed

lemma fifo_send_room:
  "(\<And>n. fifo_room w n) \<Longrightarrow> vmw_fifo_send dx cmd w = (w\<lparr>reservations := reservations w + 1, cmds := cmds w @ [(dx, cmd)]\<rparr>, Inr ())"
  by (simp add: vmw_fifo_send_def)

lemma slot_bound:
  assumes ok: "bind_ok w" and c: "ctx_state w c = Some s" "states w s = Some cbs"
  shows "bi_ctx (slots cbs l) = None \<or> bi_res (slots cbs l) \<noteq> None" "view_id w (slots cbs l) = Inr (shown w (slots cbs l))"
    "l \<in> set (cbs_list cbs) \<Longrightarrow> bi_ctx (slots cbs l) = Some c" "l \<in> set (cbs_list cbs) \<Longrightarrow> bi_place (slots cbs l) = Inr l"
    "cbs_list cbs \<noteq> [] \<Longrightarrow> vmw_cbs_context cbs = Some c"
proof -
  have l: "l \<in> set (cbs_list cbs) \<longleftrightarrow> bi_ctx (slots cbs l) \<noteq> None" for l using bind_okD(1) [OF ok c(2)] by (simp add: state_ok_def)
  have bi: "l \<in> set (cbs_list cbs) \<Longrightarrow> bi_ctx (slots cbs l) = Some c \<and> bi_res (slots cbs l) \<noteq> None" for l
    using bind_okD(2) [OF ok] c unfolding ctxs_ok_def by fastforce
  show r: "bi_ctx (slots cbs l) = None \<or> bi_res (slots cbs l) \<noteq> None" using l [of l] bi [of l] by blast
  show "view_id w (slots cbs l) = Inr (shown w (slots cbs l))" by (rule view_id_shown [OF r])
  show "l \<in> set (cbs_list cbs) \<Longrightarrow> bi_ctx (slots cbs l) = Some c" using bi by blast
  show "l \<in> set (cbs_list cbs) \<Longrightarrow> bi_place (slots cbs l) = Inr l" using bind_okD(1) [OF ok c(2)] by (simp add: state_ok_def)
  show "cbs_list cbs \<noteq> [] \<Longrightarrow> vmw_cbs_context cbs = Some c"
    using bi [of "hd (cbs_list cbs)"] by (auto simp: vmw_cbs_context_def split: list.splits)
qed

abbreviation clear_hit :: "nat \<Rightarrow> vmw_ctx_binding_state \<Rightarrow> vmw_ctx_binding_state" where
  "clear_hit hit cbs \<equiv> cbs\<lparr>dirty := (dirty cbs)(hit := False)\<rparr>"

lemma keeps_clear_hit [simp]: "keeps_slots (clear_hit hit)" by (simp add: keeps_slots_def)

lemma emit_rt:
  assumes ok: "bind_ok w" and ids: "ids_ok w" and sync: "in_sync T w" and room: "\<And>n. fifo_room w n"
    and c: "ctx_state w c = Some s" "states w s = Some cbs" and ne: "cbs_list cbs \<noteq> []" and gaps: "no_gaps cbs"
  shows "\<exists>w1. vmw_emit_set_rt s w = Inr (w1, Inr ()) \<and> emits T s (clear_hit VMW_BINDING_RT_BIT) w w1"
proof -
  note bd = slot_bound [OF ok c]
  let ?slot = "\<lambda>i. slots cbs (render_targets i)"
  obtain n where n: "n \<le> 8" "collect_while (view_id w) (map ?slot [0..<8]) = Inr (map (\<lambda>i. shown w (?slot i)) [0..<n])"
      "\<And>i. i < 8 \<Longrightarrow> (\<And>j. j \<le> i \<Longrightarrow> bi_ctx (?slot j) \<noteq> None) \<Longrightarrow> i < n"
    by (rule collect_while_upt [where m = 8 and f = "view_id w" and slot = ?slot and g = "shown w"]) (use bd(2) in auto)
  let ?cmd = "SVGA3dCmdDXSetRenderTargets (shown w (slots cbs ds_view)) (map (\<lambda>i. shown w (?slot i)) [0..<n])"
  have run: "vmw_emit_set_rt s w = Inr (w\<lparr>reservations := reservations w + 1, cmds := cmds w @ [(Some (res_ids w c), ?cmd)]\<rparr>, Inr ())"
    using c(2) n(2) bd(2) [of ds_view] bd(5) [OF ne]
    by (simp add: vmw_emit_set_rt_def get_state_def vmw_collect_view_ids_def the_ptr_def fifo_send_room [OF room])
  have ks: "fst ` set (writes (Some (res_ids w c), ?cmd)) = insert (res_ids w c, ds_view) ((\<lambda>i. (res_ids w c, render_targets i)) ` {0..<n})"
    by (simp add: image_image)
  have "emits T s (clear_hit 0) w (upd_state s (\<lambda>x. x) (w\<lparr>reservations := reservations w + 1, cmds := cmds w @ [(Some (res_ids w c), ?cmd)]\<rparr>))"
  proof (rule emit_send [OF ok ids sync c])
    fix k assume k: "k \<in> set (cbs_list cbs)" "pending cbs k" "\<not> pending (clear_hit 0 cbs) k"
    show "(res_ids w c, k) \<in> fst ` set (writes (Some (res_ids w c), ?cmd))"
    proof (cases k)
      case (render_targets i)
      have "i < 8" "\<And>j. j \<le> i \<Longrightarrow> bi_ctx (?slot j) \<noteq> None"
        using gaps k(1,2) bd(3) [OF k(1)] render_targets by (auto simp: no_gaps_def le_less)
      then show ?thesis using n(3) render_targets by (simp add: ks image_iff)
    qed (use k ks in simp_all)
  qed auto
  then show ?thesis using run by simp
qed

lemma emit_so:
  assumes ok: "bind_ok w" and ids: "ids_ok w" and sync: "in_sync T w" and room: "\<And>n. fifo_room w n"
    and c: "ctx_state w c = Some s" "states w s = Some cbs" and ne: "cbs_list cbs \<noteq> []" and gaps: "no_gaps cbs"
  shows "\<exists>w1. vmw_emit_set_so s w = Inr (w1, Inr ()) \<and> emits T s (clear_hit VMW_BINDING_SO_BIT) w w1"
proof -
  note bd = slot_bound [OF ok c]
  let ?slot = "\<lambda>i. slots cbs (so_targets i)"
  define g where "g = (\<lambda>bi. (shown w bi, if scrubbed bi then 0 else bi_offset bi, if scrubbed bi then 0 else bi_size bi))"
  have "so_entry w (?slot i) = Inr (g (?slot i))" for i using bd(2) by (simp add: so_entry_def g_def)
  then obtain n where n: "n \<le> 4" "collect_while (so_entry w) (map ?slot [0..<4]) = Inr (map (\<lambda>i. g (?slot i)) [0..<n])"
      "\<And>i. i < 4 \<Longrightarrow> (\<And>j. j \<le> i \<Longrightarrow> bi_ctx (?slot j) \<noteq> None) \<Longrightarrow> i < n"
    using collect_while_upt [where m = 4 and f = "so_entry w" and slot = ?slot and g = g] by blast
  have low: "i < n" if "so_targets i \<in> set (cbs_list cbs)" for i
  proof (rule n(3))
    show "i < 4" using bd(4) [OF that] by (auto simp: bi_place_def vmw_binding_loc_def in_array_def split: vmw_ctx_binding_type.splits if_splits)
    show "bi_ctx (?slot j) \<noteq> None" if "j \<le> i" for j
      using gaps bd(3) [OF \<open>so_targets i \<in> set (cbs_list cbs)\<close>] that by (auto simp: no_gaps_def le_less)
  qed
  show ?thesis
  proof (cases "n = 0")
    case True
    have "emits T s (clear_hit 2) w w"
    proof (rule emit_quiet [OF sync c _ ok])
      show "pending (clear_hit 2 cbs) k" if "k \<in> set (cbs_list cbs)" "pending cbs k" for k by (cases k) (use that low True in auto)
    qed simp
    moreover have "vmw_emit_set_so s w = Inr (w, Inr ())"
      using True c(2) n(2) by (simp add: vmw_emit_set_so_def get_state_def vmw_collect_so_targets_def)
    ultimately show ?thesis by simp
  next
    case False
    let ?cmd = "SVGA3dCmdDXSetSOTargets (map (\<lambda>i. g (?slot i)) [0..<n])"
    have run: "vmw_emit_set_so s w = Inr (w\<lparr>reservations := reservations w + 1, cmds := cmds w @ [(Some (res_ids w c), ?cmd)]\<rparr>, Inr ())"
      using False c(2) n(2) bd(5) [OF ne]
      by (simp add: vmw_emit_set_so_def get_state_def vmw_collect_so_targets_def the_ptr_def fifo_send_room [OF room])
    have ks: "fst ` set (writes (Some (res_ids w c), ?cmd)) = (\<lambda>i. (res_ids w c, so_targets i)) ` {0..<n}"
      by (simp add: image_image)
    have "emits T s (clear_hit 2) w (upd_state s (\<lambda>x. x) (w\<lparr>reservations := reservations w + 1, cmds := cmds w @ [(Some (res_ids w c), ?cmd)]\<rparr>))"
    proof (rule emit_send [OF ok ids sync c])
      fix k assume k: "k \<in> set (cbs_list cbs)" "pending cbs k" "\<not> pending (clear_hit 2 cbs) k"
      show "(res_ids w c, k) \<in> fst ` set (writes (Some (res_ids w c), ?cmd))" by (cases k) (use k low in \<open>auto simp: ks image_iff\<close>)
    qed (auto simp: g_def)
    then show ?thesis using run by simp
  qed
qed

lemma emit_vb:
  assumes ok: "bind_ok w" and ids: "ids_ok w" and sync: "in_sync T w" and room: "\<And>n. fifo_room w n"
    and c: "ctx_state w c = Some s" "states w s = Some cbs" and ne: "cbs_list cbs \<noteq> []"
  shows "\<exists>w1. vmw_emit_set_vb s w = Inr (w1, Inr ()) \<and> emits T s (clear_hit VMW_BINDING_VB_BIT) w w1"
proof -
  note bd = slot_bound [OF ok c]
  let ?slot = "\<lambda>i. slots cbs (vertex_buffers i)" and ?i = "find_next_bit (dirty_vb cbs) 32 0"
  define g where "g = (\<lambda>bi. (shown w bi, if bi_ctx bi = None \<or> scrubbed bi then (0, 0) else (bi_stride bi, bi_offset bi)))"
  have "vb_entry w (?slot i) = Inr (g (?slot i))" for i using bd(2) by (simp add: vb_entry_def g_def)
  then obtain n where n: "n \<le> 32" "?i \<le> n"
      "collect_dirty (vb_entry w) ?slot (dirty_vb cbs) 32 ?i [?i..<32] = Inr (map (\<lambda>i. g (?slot i)) [?i..<n])"
      "\<And>j. j < 32 \<Longrightarrow> dirty_vb cbs j \<Longrightarrow> ?i \<le> j \<and> j < n"
    using collect_dirty_first [where m = 32 and f = "vb_entry w" and biv = ?slot and g = "\<lambda>i. g (?slot i)" and d = "dirty_vb cbs"] by blast
  have low: "i < 32" if "vertex_buffers i \<in> set (cbs_list cbs)" for i
    using bd(4) [OF that] by (auto simp: bi_place_def vmw_binding_loc_def in_array_def split: vmw_ctx_binding_type.splits if_splits)
  show ?thesis
  proof (cases "?i = n")
    case True
    have "emits T s (clear_hit 3) w w"
    proof (rule emit_quiet [OF sync c _ ok])
      show "pending (clear_hit 3 cbs) k" if "k \<in> set (cbs_list cbs)" "pending cbs k" for k
      proof (cases k)
        case (vertex_buffers j)
        then show ?thesis using that low [of j] n(4) [of j] True by auto
      qed (use that in simp_all)
    qed simp
    moreover have "vmw_emit_set_vb s w = Inr (w, Inr ())"
      using True c(2) n(3) by (simp add: vmw_emit_set_vb_def get_state_def vmw_collect_dirty_vbs_def)
    ultimately show ?thesis by simp
  next
    case False
    let ?cmd = "SVGA3dCmdDXSetVertexBuffers ?i (map (\<lambda>i. g (?slot i)) [?i..<n])"
    let ?g = "\<lambda>st. st\<lparr>dirty_vb := bitmap_clear ?i (n - ?i) (dirty_vb st)\<rparr>"
    have run: "vmw_emit_set_vb s w = Inr (upd_state s ?g (w\<lparr>reservations := reservations w + 1, cmds := cmds w @ [(Some (res_ids w c), ?cmd)]\<rparr>), Inr ())"
      using False n(2,3) c(2) bd(5) [OF ne]
      by (simp add: vmw_emit_set_vb_def get_state_def vmw_collect_dirty_vbs_def the_ptr_def fifo_send_room [OF room] Let_def)
    have ks: "fst ` set (writes (Some (res_ids w c), ?cmd)) = (\<lambda>i. (res_ids w c, vertex_buffers (?i + i))) ` {0..<n - ?i}"
      by (simp add: image_image)
    have "emits T s (clear_hit 3) w (upd_state s ?g (w\<lparr>reservations := reservations w + 1, cmds := cmds w @ [(Some (res_ids w c), ?cmd)]\<rparr>))"
    proof (rule emit_send [OF ok ids sync c])
      fix k assume k: "k \<in> set (cbs_list cbs)" "pending cbs k" "\<not> pending (clear_hit 3 (?g cbs)) k"
      show "(res_ids w c, k) \<in> fst ` set (writes (Some (res_ids w c), ?cmd))"
      proof (cases k)
        case (vertex_buffers j)
        then have "?i \<le> j" "j < n" using n(4) [of j] low k by simp_all
        then show ?thesis using vertex_buffers unfolding ks by (intro image_eqI [of _ _ "j - ?i"]) simp_all
      qed (use k in simp_all)
    qed (auto simp: g_def keeps_slots_def)
    then show ?thesis using run by simp
  qed
qed

abbreviation clear_ps :: "nat \<Rightarrow> vmw_ctx_binding_state \<Rightarrow> vmw_ctx_binding_state" where
  "clear_ps i cbs \<equiv> cbs\<lparr>ps_dirty := (ps_dirty cbs)(i := False)\<rparr>"

lemma emit_sr:
  assumes ok: "bind_ok w" and ids: "ids_ok w" and sync: "in_sync T w" and room: "\<And>n. fifo_room w n"
    and c: "ctx_state w c = Some s" "states w s = Some cbs" and ne: "cbs_list cbs \<noteq> []"
  shows "\<exists>w1. vmw_emit_set_sr s sh w = Inr (w1, Inr ()) \<and> emits T s (clear_ps sh) w w1 \<and> (\<forall>cbs1. states w1 s = Some cbs1 \<longrightarrow> ps_dirty cbs1 = ps_dirty cbs)"
proof -
  note bd = slot_bound [OF ok c]
  let ?slot = "\<lambda>i. slots cbs (per_shader_shader_res sh i)" and ?i = "find_next_bit (dirty_sr cbs sh) 128 0"
  have "view_id w (?slot i) = Inr (shown w (?slot i))" for i by (rule bd(2))
  then obtain n where n: "n \<le> 128" "?i \<le> n"
      "collect_dirty (view_id w) ?slot (dirty_sr cbs sh) 128 ?i [?i..<128] = Inr (map (\<lambda>i. shown w (?slot i)) [?i..<n])"
      "\<And>j. j < 128 \<Longrightarrow> dirty_sr cbs sh j \<Longrightarrow> ?i \<le> j \<and> j < n"
    using collect_dirty_first [where m = 128 and f = "view_id w" and biv = ?slot and g = "\<lambda>i. shown w (?slot i)" and d = "dirty_sr cbs sh"] by blast
  have low: "i < 128" if "per_shader_shader_res k i \<in> set (cbs_list cbs)" for k i
    using bd(4) [OF that] by (auto simp: bi_place_def vmw_binding_loc_def in_array_def split: vmw_ctx_binding_type.splits if_splits)
  show ?thesis
  proof (cases "?i = n")
    case True
    have "emits T s (clear_ps sh) w w"
    proof (rule emit_quiet [OF sync c _ ok])
      show "pending (clear_ps sh cbs) k" if "k \<in> set (cbs_list cbs)" "pending cbs k" for k
      proof (cases k)
        case (per_shader_shader_res t j)
        then show ?thesis using that low [of t j] n(4) [of j] True by auto
      qed (use that in simp_all)
    qed (simp add: keeps_slots_def)
    moreover have "vmw_emit_set_sr s sh w = Inr (w, Inr ())"
      using True c(2) n(3) by (simp add: vmw_emit_set_sr_def get_state_def vmw_collect_dirty_view_ids_def)
    ultimately show ?thesis using c(2) by simp
  next
    case False
    let ?cmd = "SVGA3dCmdDXSetShaderResources ?i (sh + 1) (map (\<lambda>i. shown w (?slot i)) [?i..<n])"
    let ?g = "\<lambda>st. st\<lparr>dirty_sr := (dirty_sr st)(sh := bitmap_clear ?i (n - ?i) (dirty_sr st sh))\<rparr>"
    have run: "vmw_emit_set_sr s sh w = Inr (upd_state s ?g (w\<lparr>reservations := reservations w + 1, cmds := cmds w @ [(Some (res_ids w c), ?cmd)]\<rparr>), Inr ())"
      using False n(2,3) c(2) bd(5) [OF ne]
      by (simp add: vmw_emit_set_sr_def get_state_def vmw_collect_dirty_view_ids_def the_ptr_def fifo_send_room [OF room] Let_def)
    have ks: "fst ` set (writes (Some (res_ids w c), ?cmd)) = (\<lambda>i. (res_ids w c, per_shader_shader_res sh (?i + i))) ` {0..<n - ?i}"
      by (simp add: image_image)
    have "emits T s (clear_ps sh) w (upd_state s ?g (w\<lparr>reservations := reservations w + 1, cmds := cmds w @ [(Some (res_ids w c), ?cmd)]\<rparr>))"
    proof (rule emit_send [OF ok ids sync c])
      fix k assume k: "k \<in> set (cbs_list cbs)" "pending cbs k" "\<not> pending (clear_ps sh (?g cbs)) k"
      show "(res_ids w c, k) \<in> fst ` set (writes (Some (res_ids w c), ?cmd))"
      proof (cases k)
        case (per_shader_shader_res t j)
        then have "t = sh" using k by (simp split: if_splits)
        then have "?i \<le> j" "j < n" using n(4) [of j] low [of t j] k per_shader_shader_res by simp_all
        then show ?thesis using per_shader_shader_res \<open>t = sh\<close> unfolding ks by (intro image_eqI [of _ _ "j - ?i"]) simp_all
      qed (use k in simp_all)
    qed (auto simp: keeps_slots_def)
    then show ?thesis using run c(2) by simp
  qed
qed

text \<open>What emission needs of a context, and what it does to it.\<close>

definition emit_pre :: "dev_table \<Rightarrow> nat \<Rightarrow> nat \<Rightarrow> vmw_ctx_binding_state \<Rightarrow> bind_world \<Rightarrow> bool" where
  "emit_pre T c s cbs w \<longleftrightarrow> bind_ok w \<and> ids_ok w \<and> in_sync T w \<and> (\<forall>n. fifo_room w n) \<and> ctx_state w c = Some s \<and> states w s = Some cbs \<and>
     no_gaps cbs \<and> ((\<exists>h<VMW_BINDING_NUM_BITS. dirty cbs h) \<longrightarrow> cbs_list cbs \<noteq> [])"

definition settles :: "dev_table \<Rightarrow> nat \<Rightarrow> bind_world \<Rightarrow> bind_world \<Rightarrow> bool" where
  "settles T s w w' \<longleftrightarrow> same_core w w' \<and> in_sync T w' \<and> (\<forall>t. t \<noteq> s \<longrightarrow> states w' t = states w t) \<and>
     (\<exists>cbs cbs'. states w s = Some cbs \<and> states w' s = Some cbs' \<and> slots cbs' = slots cbs \<and> (\<forall>h. dirty cbs' h \<longrightarrow> dirty cbs h))"

lemma ids_ok_core: "ids_ok w \<Longrightarrow> same_core w w' \<Longrightarrow> ids_ok w'" by (simp add: ids_ok_def same_core_def)

lemma settles_pre:
  assumes pre: "emit_pre T c s cbs w" and st: "settles T s w w'"
  obtains cbs' where "emit_pre T c s cbs' w'" "slots cbs' = slots cbs" "\<And>h. dirty cbs' h \<Longrightarrow> dirty cbs h" "cbs_list cbs' = cbs_list cbs"
proof -
  obtain cbs' where cbs': "states w' s = Some cbs'" "slots cbs' = slots cbs" "\<And>h. dirty cbs' h \<Longrightarrow> dirty cbs h"
    using pre st by (auto simp: emit_pre_def settles_def)
  have core: "same_core w w'" using st by (simp add: settles_def)
  then have "core cbs' = core cbs" using cbs'(1) pre by (metis (no_types, lifting) emit_pre_def map_option_eq_Some option.inject same_core_def)
  then have l: "cbs_list cbs' = cbs_list cbs" by (rule coreD(1))
  then have "emit_pre T c s cbs' w'"
    using pre st cbs' core bind_ok_core [of w w'] ids_ok_core [of w w'] unfolding emit_pre_def settles_def
    by (auto simp: no_gaps_def same_core_def)
  then show thesis using that cbs' l by blast
qed

lemma settles_trans: "settles T s w w1 \<Longrightarrow> settles T s w1 w2 \<Longrightarrow> settles T s w w2"
  by (auto simp: settles_def intro: same_core_trans)

lemma emits_settles:
  assumes e: "emits T s f w w1" and f: "keeps_slots f" "\<And>cbs h. dirty (f cbs) h \<Longrightarrow> dirty cbs h"
  shows "settles T s w (upd_state s f w1)"
proof -
  have "same_core w1 (upd_state s f w1)" using keeps_slotsD(3) [OF f(1)] by (simp add: same_core_def option.map_comp comp_def)
  then show ?thesis using e same_core_trans [of w w1] keeps_slotsD [OF f(1)] f(2) unfolding settles_def emits_def by fastforce
qed

lemma emit_ps_loop_ok:
  assumes "emit_pre T c s cbs w" "cbs_list cbs \<noteq> []"
  shows "\<exists>w1 cbs1. emit_ps_loop s shs w = Inr w1 \<and> settles T s w w1 \<and> states w1 s = Some cbs1 \<and> dirty cbs1 = dirty cbs \<and>
     (\<forall>k. ps_dirty cbs1 k \<longrightarrow> ps_dirty cbs k \<and> k \<notin> set shs)"
  using assms
proof (induction shs arbitrary: w cbs)
  case Nil
  then show ?case by (auto simp: settles_def emit_pre_def)
next
  case (Cons i shs)
  have st: "states w s = Some cbs" using Cons.prems(1) by (simp add: emit_pre_def)
  show ?case
  proof (cases "ps_dirty cbs i")
    case False
    then show ?thesis using Cons.IH [OF Cons.prems] st by (fastforce simp: get_state_def)
  next
    case True
    obtain w1 where w1: "vmw_emit_set_sr s i w = Inr (w1, Inr ())" "emits T s (clear_ps i) w w1"
        "\<forall>cbs1. states w1 s = Some cbs1 \<longrightarrow> ps_dirty cbs1 = ps_dirty cbs"
      using emit_sr [of w T c s cbs i] Cons.prems by (auto simp: emit_pre_def)
    let ?w2 = "upd_state s (clear_ps i) w1"
    have set2: "settles T s w ?w2" using emits_settles [OF w1(2)] by (simp add: keeps_slots_def)
    obtain cbs1 where cbs1: "states w1 s = Some cbs1" "dirty cbs1 = dirty cbs" using w1(2) st by (auto simp: emits_def)
    obtain cbs2 where cbs2: "emit_pre T c s cbs2 ?w2" "cbs_list cbs2 = cbs_list cbs" by (rule settles_pre [OF Cons.prems(1) set2]) (rule that)
    have eq: "cbs2 = clear_ps i cbs1" using cbs2(1) cbs1(1) by (simp add: emit_pre_def)
    obtain w3 cbs3 where w3: "emit_ps_loop s shs ?w2 = Inr w3" "settles T s ?w2 w3" "states w3 s = Some cbs3" "dirty cbs3 = dirty cbs2"
        "\<forall>k. ps_dirty cbs3 k \<longrightarrow> ps_dirty cbs2 k \<and> k \<notin> set shs"
      using Cons.IH [OF cbs2(1)] cbs2(2) Cons.prems(2) by auto
    have "\<forall>k. ps_dirty cbs3 k \<longrightarrow> ps_dirty cbs k \<and> k \<notin> set (i # shs)"
      using w3(5) eq w1(3) cbs1(1) by (auto split: if_splits)
    moreover have "emit_ps_loop s (i # shs) w = Inr w3" using True st w1(1) w3(1) by (simp add: get_state_def)
    ultimately show ?thesis using settles_trans [OF set2 w3(2)] w3(3,4) eq cbs1(2)
      by (intro exI [of _ w3] exI [of _ cbs3]) (simp del: emit_ps_loop.simps)
  qed
qed

lemma emit_ps:
  assumes pre: "emit_pre T c s cbs w" and ne: "cbs_list cbs \<noteq> []"
  shows "\<exists>w1. vmw_binding_emit_dirty_ps s w = Inr (w1, Inr ()) \<and> emits T s (clear_hit VMW_BINDING_PS_BIT) w w1"
proof -
  obtain w1 cbs1 where w1: "emit_ps_loop s [0..<3] w = Inr w1" "settles T s w w1" "states w1 s = Some cbs1" "dirty cbs1 = dirty cbs"
      "\<forall>k. ps_dirty cbs1 k \<longrightarrow> ps_dirty cbs k \<and> k \<notin> set [0..<3]"
    using emit_ps_loop_ok [OF pre ne, of "[0..<3]"] by blast
  obtain cbs' where cbs': "emit_pre T c s cbs' w1" "slots cbs' = slots cbs" by (rule settles_pre [OF pre w1(2)]) (rule that)
  then have pre1: "emit_pre T c s cbs1 w1" "slots cbs1 = slots cbs" using w1(3) by (simp_all add: emit_pre_def)
  note p = pre1(1) [unfolded emit_pre_def]
  have low: "k < 3" if "per_shader_shader_res k i \<in> set (cbs_list cbs1)" for k i
    using slot_bound(4) [of w1 c s cbs1, OF _ _ _ that] p
    by (auto simp: bi_place_def vmw_binding_loc_def in_array_def split: vmw_ctx_binding_type.splits if_splits)
  have "emits T s (clear_hit 1) w1 w1"
  proof (rule emit_quiet [where c = c and cbs = cbs1])
    show "pending (clear_hit 1 cbs1) k" if "k \<in> set (cbs_list cbs1)" "pending cbs1 k" for k
    proof (cases k)
      case (per_shader_shader_res t j)
      then show ?thesis using that low [of t j] w1(5) by auto
    qed (use that in simp_all)
  qed (use p in simp_all)
  then have "emits T s (clear_hit 1) w w1" using w1(2-4) pre pre1(2) by (simp add: emits_def settles_def emit_pre_def)
  then show ?thesis using w1(1) by (simp add: vmw_binding_emit_dirty_ps_def)
qed

lemma emit_bit_ok:
  assumes pre: "emit_pre T c s cbs w" and hit: "dirty cbs hit" "hit < 4"
  shows "\<exists>w1. emit_bit hit s w = Inr (w1, Inr ()) \<and> emits T s (clear_hit hit) w w1"
proof -
  have ne: "cbs_list cbs \<noteq> []" using pre hit by (auto simp: emit_pre_def)
  note p = pre [unfolded emit_pre_def]
  consider "hit = 0" | "hit = 1" | "hit = 2" | "hit = 3" using hit(2) by linarith
  then show ?thesis
  proof cases
    case 1
    then show ?thesis using emit_rt [of w T c s cbs] p ne by (simp add: emit_bit_def)
  next
    case 2
    then show ?thesis using emit_ps [OF pre ne] by (simp add: emit_bit_def)
  next
    case 3
    then show ?thesis using emit_so [of w T c s cbs] p ne by (simp add: emit_bit_def)
  next
    case 4
    then show ?thesis using emit_vb [of w T c s cbs] p ne by (simp add: emit_bit_def)
  qed
qed

lemma emit_dirty_loop_ok:
  assumes "emit_pre T c s cbs w" "\<forall>h\<in>set hits. h < 4"
  shows "\<exists>w' cbs'. emit_dirty_loop s hits w = Inr (w', Inr ()) \<and> settles T s w w' \<and> states w' s = Some cbs' \<and>
     (\<forall>h\<in>set hits. \<not> dirty cbs' h)"
  using assms
proof (induction hits arbitrary: w cbs)
  case Nil
  then show ?case by (auto simp: settles_def emit_pre_def)
next
  case (Cons h hits)
  have st: "states w s = Some cbs" using Cons.prems(1) by (simp add: emit_pre_def)
  have clean: "\<not> dirty cbs2 h" if "settles T s w1 w2" "states w1 s = Some cbs1" "states w2 s = Some cbs2" "\<not> dirty cbs1 h" for w1 w2 cbs1 cbs2
    using that by (auto simp: settles_def)
  show ?case
  proof (cases "dirty cbs h")
    case False
    obtain w' cbs' where w': "emit_dirty_loop s hits w = Inr (w', Inr ())" "settles T s w w'" "states w' s = Some cbs'" "\<forall>h\<in>set hits. \<not> dirty cbs' h"
      using Cons.IH [OF Cons.prems(1)] Cons.prems(2) by auto
    moreover have "emit_dirty_loop s (h # hits) w = Inr (w', Inr ())" using False st w'(1) by (simp add: get_state_def)
    ultimately show ?thesis using clean [OF w'(2) st w'(3) False]
      by (intro exI [of _ w'] exI [of _ cbs']) (simp del: emit_dirty_loop.simps)
  next
    case True
    obtain w1 where w1: "emit_bit h s w = Inr (w1, Inr ())" "emits T s (clear_hit h) w w1"
      using emit_bit_ok [OF Cons.prems(1) True] Cons.prems(2) by auto
    let ?w2 = "upd_state s (clear_hit h) w1"
    have set2: "settles T s w ?w2" by (rule emits_settles [OF w1(2)]) (simp_all split: if_splits)
    obtain cbs2 where cbs2: "emit_pre T c s cbs2 ?w2" by (rule settles_pre [OF Cons.prems(1) set2]) (rule that)
    have st2: "states ?w2 s = Some cbs2" using cbs2 by (simp add: emit_pre_def)
    have "\<not> dirty cbs2 h" using st2 by auto
    obtain w' cbs' where w': "emit_dirty_loop s hits ?w2 = Inr (w', Inr ())" "settles T s ?w2 w'" "states w' s = Some cbs'" "\<forall>h\<in>set hits. \<not> dirty cbs' h"
      using Cons.IH [OF cbs2] Cons.prems(2) by auto
    moreover have "emit_dirty_loop s (h # hits) w = Inr (w', Inr ())" using True st w1(1) w'(1) by (simp add: get_state_def)
    ultimately show ?thesis using settles_trans [OF set2 w'(2)] clean [OF w'(2) st2 w'(3) \<open>\<not> dirty cbs2 h\<close>]
      by (intro exI [of _ w'] exI [of _ cbs']) (simp del: emit_dirty_loop.simps)
  qed
qed

lemma emit_dirty_ok:
  assumes "emit_pre T c s cbs w"
  obtains w' cbs' where "vmw_binding_emit_dirty s w = Inr (w', Inr ())" "settles T s w w'" "states w' s = Some cbs'" "\<And>h. h < 4 \<Longrightarrow> \<not> dirty cbs' h"
  using emit_dirty_loop_ok [OF assms, of "[0..<4]"] that by (auto simp: vmw_binding_emit_dirty_def)

end
