(* ===== verification/Binding_Scrub.thy ===== *)
theory Binding_Scrub
  imports Binding_Emit
begin

text \<open>
  Scrubbing, killing and rebinding whole lists of bindings, in terms of what the device was last told to bind, and the
  histories of the binding manager.
\<close>

section \<open>Between and during operations\<close>

definition clean :: "vmw_ctx_binding_state \<Rightarrow> bool" where
  "clean cbs \<longleftrightarrow> (\<forall>h<VMW_BINDING_NUM_BITS. \<not> dirty cbs h)"

definition working :: "dev_table \<Rightarrow> bind_world \<Rightarrow> bool" where
  "working T w \<longleftrightarrow> bind_ok w \<and> ids_ok w \<and> in_sync T w \<and> (\<forall>n. fifo_room w n) \<and>
     (\<forall>c s cbs. ctx_state w c = Some s \<longrightarrow> states w s = Some cbs \<longrightarrow> no_gaps cbs \<and> (clean cbs \<or> cbs_list cbs \<noteq> []))"

definition at_rest :: "dev_table \<Rightarrow> bind_world \<Rightarrow> bool" where
  \<comment> \<open>the device was last told what the manager believes, and no command is delayed\<close>
  "at_rest T w \<longleftrightarrow> working T w \<and> (\<forall>c s cbs. ctx_state w c = Some s \<longrightarrow> states w s = Some cbs \<longrightarrow> clean cbs)"

definition tracked :: "bind_world \<Rightarrow> nat \<times> bind_loc \<Rightarrow> bool" where
  "tracked w e \<longleftrightarrow> (\<exists>c cbs. ctx_state w c = Some (fst e) \<and> states w (fst e) = Some cbs \<and> snd e \<in> set (cbs_list cbs))"

lemma clean_not_pending: "clean cbs \<Longrightarrow> \<not> pending cbs k"
  by (cases k) (simp_all add: clean_def)

lemma at_rest_table:
  assumes "at_rest T w" "ctx_state w c = Some s" "states w s = Some cbs" "l \<in> set (cbs_list cbs)"
  shows "table T w (res_ids w c, l) = shown w (slots cbs l)"
proof -
  have "in_sync T w" "clean cbs" using assms by (auto simp: at_rest_def working_def)
  then show ?thesis using in_syncD [OF _ assms(2-4)] clean_not_pending by blast
qed

lemma no_gaps_core:
  assumes "core cbs' = core cbs" shows "no_gaps cbs' = no_gaps cbs"
  by (simp only: no_gaps_def coreD(2,4) [OF assms])

lemma tracked_core: "same_core w w' \<Longrightarrow> tracked w e \<Longrightarrow> tracked w' e"
proof -
  assume sc: "same_core w w'" and "tracked w e"
  then obtain c cbs where c: "ctx_state w c = Some (fst e)" "states w (fst e) = Some cbs" "snd e \<in> set (cbs_list cbs)" by (auto simp: tracked_def)
  obtain cbs' where "states w' (fst e) = Some cbs'" "core cbs = core cbs'" by (rule same_core_state [OF same_core_sym [OF sc] c(2)])
  then show ?thesis using c sc coreD(1) [of cbs cbs'] by (auto simp: tracked_def same_core_def)
qed

lemma working_core:
  assumes wk: "working T w" and sc: "same_core w w'" and sync: "in_sync T w'"
    and dirt: "\<And>c s cbs cbs'. ctx_state w c = Some s \<Longrightarrow> states w s = Some cbs \<Longrightarrow> states w' s = Some cbs' \<Longrightarrow> clean cbs \<Longrightarrow> cbs_list cbs = [] \<Longrightarrow> clean cbs'"
  shows "working T w'"
proof -
  have "no_gaps cbs' \<and> (clean cbs' \<or> cbs_list cbs' \<noteq> [])" if a: "ctx_state w' c = Some s" "states w' s = Some cbs'" for c s cbs'
  proof -
    obtain cbs where cbs: "states w s = Some cbs" "core cbs' = core cbs" by (rule same_core_state [OF sc a(2)])
    have "ctx_state w c = Some s" using a(1) sc by (simp add: same_core_def)
    then have "no_gaps cbs" "clean cbs \<or> cbs_list cbs \<noteq> []" using wk cbs(1) by (auto simp: working_def)
    then show ?thesis using no_gaps_core [OF cbs(2)] coreD(1) [OF cbs(2)] dirt [OF \<open>ctx_state w c = Some s\<close> cbs(1) a(2)] by auto
  qed
  moreover have "bind_ok w'" "ids_ok w'" using wk bind_ok_core [OF _ sc] ids_ok_core [OF _ sc] by (simp_all add: working_def)
  moreover have "\<forall>n. fifo_room w' n" using wk sc by (simp add: working_def same_core_def)
  ultimately show ?thesis using sync by (simp add: working_def)
qed

lemma scrub_step_working:
  assumes wk: "working T w" and st: "scrub_step T s l b w w'" and t: "tracked w (s, l)"
  shows "working T w'"
proof (rule working_core [OF wk])
  show "same_core w w'" "in_sync T w'" using st by (simp_all add: scrub_step_def)
  fix c t cbs cbs' assume a: "states w t = Some cbs" "states w' t = Some cbs'" "clean cbs" "cbs_list cbs = []"
  have "t \<noteq> s" using t a(1,4) by (auto simp: tracked_def)
  then show "clean cbs'" using st a by (simp add: scrub_step_def)
qed

lemma tracked_bi: "tracked w e \<Longrightarrow> \<exists>cbs. get_bi w e = Inr (slots cbs (snd e)) \<and> states w (fst e) = Some cbs"
  by (auto simp: tracked_def get_bi_def get_state_def)

lemma scrub_entry:
  assumes wk: "working T w" and t: "tracked w e"
  obtains cbs w1 where "states w (fst e) = Some cbs" "get_bi w e = Inr (slots cbs (snd e))"
    "scrub_func (bi_bt (slots cbs (snd e))) (slots cbs (snd e)) rb w = Inr (w1, Inr ())"
    "scrub_step T (fst e) (snd e) (\<not> rb) w (set_scrubbed (\<not> rb) e w1)"
proof -
  obtain c cbs where c: "ctx_state w c = Some (fst e)" "states w (fst e) = Some cbs" "snd e \<in> set (cbs_list cbs)"
    using t by (auto simp: tracked_def)
  obtain w1 where "scrub_func (bi_bt (slots cbs (snd e))) (slots cbs (snd e)) rb w = Inr (w1, Inr ())"
    "scrub_step T (fst e) (snd e) (\<not> rb) w (set_scrubbed (\<not> rb) (fst e, snd e) w1)"
    using scrub_func_ok [OF _ _ _ _ c, of T rb] wk by (auto simp: working_def)
  then show thesis using that c(2) by (simp add: get_bi_def get_state_def)
qed

lemma scrub_entries_ok:
  assumes "working T w" "\<forall>e\<in>set es. tracked w e"
  shows "\<exists>w'. scrub_entries es w = Inr w' \<and> working T w' \<and> same_core w w' \<and> (\<forall>e. scrub_of w' e \<longleftrightarrow> scrub_of w e \<or> e \<in> set es) \<and>
     (\<forall>t. t \<notin> fst ` set es \<longrightarrow> states w' t = states w t)"
  using assms
proof (induction es arbitrary: w)
  case (Cons e es)
  obtain cbs w1 where w1: "states w (fst e) = Some cbs" "get_bi w e = Inr (slots cbs (snd e))"
      "scrub_func (bi_bt (slots cbs (snd e))) (slots cbs (snd e)) False w = Inr (w1, Inr ())" "scrub_step T (fst e) (snd e) True w (set_scrubbed True e w1)"
    using scrub_entry [OF Cons.prems(1), of e False] Cons.prems(2) by auto
  have so: "scrub_of w e = scrubbed (slots cbs (snd e))" using w1(1) by (simp add: scrub_of_def)
  show ?case
  proof (cases "scrub_of w e")
    case True
    obtain w' where "scrub_entries es w = Inr w'" "working T w'" "same_core w w'" "\<forall>e. scrub_of w' e \<longleftrightarrow> scrub_of w e \<or> e \<in> set es"
        "\<forall>t. t \<notin> fst ` set es \<longrightarrow> states w' t = states w t" using Cons.IH [OF Cons.prems(1)] Cons.prems(2) by auto
    then show ?thesis using True so w1(2) by (intro exI [of _ w']) auto
  next
    case False
    let ?w2 = "set_scrubbed True e w1"
    have wk: "working T ?w2" by (rule scrub_step_working [OF Cons.prems(1) w1(4)]) (use Cons.prems(2) in simp)
    have sc: "same_core w ?w2" using w1(4) by (simp add: scrub_step_def)
    obtain w' where w': "scrub_entries es ?w2 = Inr w'" "working T w'" "same_core ?w2 w'" "\<forall>x. scrub_of w' x \<longleftrightarrow> scrub_of ?w2 x \<or> x \<in> set es"
        "\<forall>t. t \<notin> fst ` set es \<longrightarrow> states w' t = states ?w2 t" using Cons.IH [OF wk] Cons.prems(2) tracked_core [OF sc] by auto
    have "\<forall>x. scrub_of w' x \<longleftrightarrow> scrub_of w x \<or> x \<in> set (e # es)" using w'(4) w1(4) by (auto simp: scrub_step_def)
    moreover have "\<forall>t. t \<notin> fst ` set (e # es) \<longrightarrow> states w' t = states w t" using w'(5) w1(4) unfolding scrub_step_def by auto
    moreover have "scrub_entries (e # es) w = Inr w'" using False so w1(2,3) w'(1) by simp
    ultimately show ?thesis using w'(2) same_core_trans [OF sc w'(3)] by blast
  qed
qed simp

section \<open>Emission\<close>

definition is_clean :: "bind_world \<Rightarrow> nat \<Rightarrow> bool" where
  "is_clean w s \<longleftrightarrow> (\<forall>cbs. states w s = Some cbs \<longrightarrow> clean cbs)"

lemma is_clean_cong: "states w' t = states w t \<Longrightarrow> is_clean w' t = is_clean w t" by (simp add: is_clean_def)

lemma emit_working:
  assumes wk: "working T w" and c: "ctx_state w c = Some s"
  obtains w' where "vmw_binding_emit_dirty s w = Inr (w', Inr ())" "working T w'" "same_core w w'" "scrub_of w' = scrub_of w"
    "is_clean w' s" "\<And>t. is_clean w t \<Longrightarrow> is_clean w' t"
proof -
  have "ctxs_ok w" using wk bind_okD(2) by (auto simp: working_def)
  then obtain cbs where cbs: "states w s = Some cbs" by (rule ctxs_okD [OF _ c])
  have "emit_pre T c s cbs w" using wk c cbs by (fastforce simp: working_def emit_pre_def clean_def)
  from emit_dirty_ok [OF this] obtain w' cbs' where w': "vmw_binding_emit_dirty s w = Inr (w', Inr ())" "settles T s w w'" "states w' s = Some cbs'"
      "\<And>h. h < 4 \<Longrightarrow> \<not> dirty cbs' h" by blast
  have s: "is_clean w' s" using w'(3,4) by (simp add: is_clean_def clean_def)
  have other: "\<And>t. t \<noteq> s \<Longrightarrow> states w' t = states w t" using w'(2) by (simp add: settles_def)
  have sc: "same_core w w'" "in_sync T w'" using w'(2) by (simp_all add: settles_def)
  have "scrub_of w' e = scrub_of w e" for e
  proof (cases "fst e = s")
    case True
    then show ?thesis using w'(2) by (auto simp: settles_def scrub_of_def)
  next
    case False
    then show ?thesis using other by (simp add: scrub_of_def)
  qed
  moreover have keep: "is_clean w' t" if "is_clean w t" for t using that s other by (cases "t = s") (simp_all add: is_clean_def)
  moreover have "working T w'" by (rule working_core [OF wk sc]) (use keep in \<open>metis is_clean_def option.inject\<close>)
  ultimately show thesis using that w'(1) sc(1) s by blast
qed

lemma emit_entries_ok:
  assumes "working T w" "\<forall>e\<in>set es. tracked w e"
  shows "\<exists>w'. emit_entries es w = Inr w' \<and> working T w' \<and> same_core w w' \<and> scrub_of w' = scrub_of w \<and>
     (\<forall>t. is_clean w t \<or> t \<in> fst ` set es \<longrightarrow> is_clean w' t)"
  using assms
proof (induction es arbitrary: w)
  case (Cons e es)
  obtain c cbs where c: "ctx_state w c = Some (fst e)" "states w (fst e) = Some cbs" "snd e \<in> set (cbs_list cbs)"
    using Cons.prems(2) by (auto simp: tracked_def)
  have "bi_ctx (slots cbs (snd e)) = Some c" using slot_bound(3) [OF _ c(1,2)] c(3) Cons.prems(1) by (simp add: working_def)
  moreover obtain w1 where w1: "vmw_binding_emit_dirty (fst e) w = Inr (w1, Inr ())" "working T w1" "same_core w w1" "scrub_of w1 = scrub_of w"
      "is_clean w1 (fst e)" "\<And>t. is_clean w t \<Longrightarrow> is_clean w1 t" by (rule emit_working [OF Cons.prems(1) c(1)]) (rule that)
  obtain w' where w': "emit_entries es w1 = Inr w'" "working T w'" "same_core w1 w'" "scrub_of w' = scrub_of w1"
      "\<forall>t. is_clean w1 t \<or> t \<in> fst ` set es \<longrightarrow> is_clean w' t"
    using Cons.IH [OF w1(2)] Cons.prems(2) tracked_core [OF w1(3)] by auto
  ultimately have "emit_entries (e # es) w = Inr w'" using c w1(1) by (simp add: get_bi_def get_state_def the_ptr_def)
  moreover have "\<forall>t. is_clean w t \<or> t \<in> fst ` set (e # es) \<longrightarrow> is_clean w' t" using w'(5) w1(5,6) by auto
  ultimately show ?case using w'(2,4) w1(4) same_core_trans [OF w1(3) w'(3)] by (intro exI [of _ w']) simp
qed simp

section \<open>Whole lists\<close>

lemma head_iff:
  assumes ok: "bind_ok w"
  shows "e \<in> set (binding_head w r) \<longleftrightarrow> tracked w e \<and> (\<exists>cbs. states w (fst e) = Some cbs \<and> bi_res (slots cbs (snd e)) = Some r)"
proof -
  have "l \<in> set (cbs_list cbs) \<longleftrightarrow> bi_ctx (slots cbs l) \<noteq> None" if "states w s = Some cbs" for s cbs l
    using bind_okD(1) [OF ok that] by (simp add: state_ok_def)
  then show ?thesis using bind_okD(3) [OF ok] unfolding heads_ok_def binds_def tracked_def by fastforce
qed

lemma at_restI:
  assumes "working T w" "\<And>c s. ctx_state w c = Some s \<Longrightarrow> is_clean w s"
  shows "at_rest T w"
  using assms by (auto simp: at_rest_def is_clean_def)

lemma at_restD: "at_rest T w \<Longrightarrow> working T w" "at_rest T w \<Longrightarrow> ctx_state w c = Some s \<Longrightarrow> is_clean w s"
  by (auto simp: at_rest_def is_clean_def)

lemma res_list_scrub_ok:
  assumes rest: "at_rest T w"
  obtains w' where "vmw_binding_res_list_scrub r w = Inr w'" "at_rest T w'" "same_core w w'"
    "\<And>e. scrub_of w' e \<longleftrightarrow> scrub_of w e \<or> e \<in> set (binding_head w r)"
proof -
  have wk: "working T w" and ok: "bind_ok w" using at_restD(1) [OF rest] by (auto simp: working_def)
  have tr: "\<forall>e\<in>set (binding_head w r). tracked w e" using head_iff [OF ok] by blast
  obtain w1 where w1: "scrub_entries (binding_head w r) w = Inr w1" "working T w1" "same_core w w1"
      "\<forall>e. scrub_of w1 e \<longleftrightarrow> scrub_of w e \<or> e \<in> set (binding_head w r)" "\<forall>t. t \<notin> fst ` set (binding_head w r) \<longrightarrow> states w1 t = states w t"
    using scrub_entries_ok [OF wk tr] by blast
  have h: "binding_head w1 r = binding_head w r" using w1(3) by (simp add: same_core_def)
  have "\<forall>e\<in>set (binding_head w1 r). tracked w1 e" using tr h tracked_core [OF w1(3)] by simp
  from emit_entries_ok [OF w1(2) this] obtain w' where w': "emit_entries (binding_head w1 r) w1 = Inr w'" "working T w'" "same_core w1 w'"
      "scrub_of w' = scrub_of w1" "\<forall>t. is_clean w1 t \<or> t \<in> fst ` set (binding_head w1 r) \<longrightarrow> is_clean w' t" by blast
  have "at_rest T w'"
  proof (rule at_restI [OF w'(2)])
    fix c s assume "ctx_state w' c = Some s"
    then have "is_clean w s" using at_restD(2) [OF rest] w1(3) w'(3) by (simp add: same_core_def)
    then have "is_clean w1 s \<or> s \<in> fst ` set (binding_head w r)" using w1(5) is_clean_cong [of w1 s w] by blast
    then show "is_clean w' s" using w'(5) h by auto
  qed
  then show thesis using that [of w'] w1(1,4) w'(1,4) same_core_trans [OF w1(3) w'(3)] by (simp add: vmw_binding_res_list_scrub_def)
qed

lemma state_entries_eq: "states w s = Some cbs \<Longrightarrow> state_entries s w = Inr (map (Pair s) (cbs_list cbs))"
  by (simp add: state_entries_def get_state_def)

lemma state_tracked: "ctx_state w c = Some s \<Longrightarrow> states w s = Some cbs \<Longrightarrow> \<forall>e\<in>set (map (Pair s) (cbs_list cbs)). tracked w e"
  by (auto simp: tracked_def)

lemma ctx_has_state: "at_rest T w \<Longrightarrow> ctx_state w c = Some s \<Longrightarrow> \<exists>cbs. states w s = Some cbs"
  unfolding at_rest_def working_def using ctxs_okD [OF bind_okD(2)] by metis

lemma state_scrub_ok:
  assumes rest: "at_rest T w" and c: "ctx_state w c = Some s" "states w s = Some cbs"
  obtains w' where "vmw_binding_state_scrub s w = Inr w'" "at_rest T w'" "same_core w w'"
    "\<And>e. scrub_of w' e \<longleftrightarrow> scrub_of w e \<or> fst e = s \<and> snd e \<in> set (cbs_list cbs)"
proof -
  let ?es = "map (Pair s) (cbs_list cbs)"
  obtain w1 where w1: "scrub_entries ?es w = Inr w1" "working T w1" "same_core w w1" "\<forall>e. scrub_of w1 e \<longleftrightarrow> scrub_of w e \<or> e \<in> set ?es"
      "\<forall>t. t \<notin> fst ` set ?es \<longrightarrow> states w1 t = states w t"
    using scrub_entries_ok [OF at_restD(1) [OF rest] state_tracked [OF c]] by blast
  have c1: "ctx_state w1 c = Some s" using c(1) w1(3) by (simp add: same_core_def)
  obtain w' where w': "vmw_binding_emit_dirty s w1 = Inr (w', Inr ())" "working T w'" "same_core w1 w'" "scrub_of w' = scrub_of w1" "is_clean w' s"
      "\<And>t. is_clean w1 t \<Longrightarrow> is_clean w' t" by (rule emit_working [OF w1(2) c1]) (rule that)
  have "at_rest T w'"
  proof (rule at_restI [OF w'(2)])
    fix d t assume "ctx_state w' d = Some t"
    then have "is_clean w t" using at_restD(2) [OF rest] w1(3) w'(3) by (simp add: same_core_def)
    moreover have "t \<notin> fst ` set ?es \<or> t = s" by auto
    then have "states w1 t = states w t" if "t \<noteq> s" using w1(5) that by blast
    ultimately have "is_clean w1 t \<or> t = s" using is_clean_cong [of w1 t w] by blast
    then show "is_clean w' t" using w'(5,6) by blast
  qed
  moreover have "scrub_of w' e \<longleftrightarrow> scrub_of w e \<or> fst e = s \<and> snd e \<in> set (cbs_list cbs)" for e
    using w1(4) w'(4) by (cases e) auto
  ultimately show thesis using that [of w'] w1(1) w'(1) same_core_trans [OF w1(3) w'(3)] c(2)
    by (simp add: vmw_binding_state_scrub_def state_entries_eq)
qed

section \<open>Dropping\<close>

lemma pending_drop: "pending (upd_slot l (\<lambda>bi. bi\<lparr>bi_ctx := None\<rparr>) (cbs\<lparr>cbs_list := ls\<rparr>)) k = pending cbs k"
  by (cases k) simp_all

lemma in_sync_dropped:
  assumes sync: "in_sync T w" shows "in_sync T (dropped e w)"
proof (rule in_syncI [of _ w])
  fix d t cbs k assume a: "ctx_state w d = Some t" "states (dropped e w) t = Some cbs" "k \<in> set (cbs_list cbs)" "\<not> pending cbs k"
  obtain cbs0 where cbs0: "states w t = Some cbs0" using a(2) by (auto split: if_splits)
  have "k \<in> set (cbs_list cbs0)" "\<not> pending cbs0 k" "slots cbs k = slots cbs0 k"
    using a(2-4) cbs0 by (auto simp: pending_drop split: if_splits)
  then show "table T (dropped e w) (res_ids w d, k) = shown w (slots cbs k)"
    using in_syncD [OF sync a(1) cbs0] table_cong [of "dropped e w" w] by simp
qed simp_all

lemma is_clean_dropped: "is_clean w s \<Longrightarrow> is_clean (dropped e w) s"
  by (auto simp: is_clean_def clean_def)

lemma drop_dropped: "vmw_binding_drop e w = Inr w1 \<Longrightarrow> w1 = dropped e w"
  by (auto simp: vmw_binding_drop_def dropped_def)

lemma drop_entries_sync:
  "drop_entries es w = Inr w' \<Longrightarrow> in_sync T w \<Longrightarrow> in_sync T w' \<and> (\<forall>s. is_clean w s \<longrightarrow> is_clean w' s)"
  by (induction es arbitrary: w) (auto dest!: drop_dropped intro: in_sync_dropped is_clean_dropped)

definition gone :: "(nat \<times> bind_loc) set \<Rightarrow> bind_world \<Rightarrow> bind_world \<Rightarrow> bool" where
  "gone E w w' \<longleftrightarrow> ctx_state w' = ctx_state w \<and> res_ids w' = res_ids w \<and> (\<forall>s l. bound w' s l = None \<longleftrightarrow> (s, l) \<in> E \<or> bound w s l = None) \<and>
     (\<forall>r. set (binding_head w' r) = set (binding_head w r) - E)"

lemma bound_core: "same_core w w' \<Longrightarrow> bound w' s l = None \<longleftrightarrow> bound w s l = None"
proof -
  assume sc: "same_core w w'"
  show ?thesis
  proof (cases "states w s")
    case None
    have "map_option core (states w' s) = map_option core (states w s)" using sc by (simp add: same_core_def)
    then show ?thesis using None by (simp add: bound_def)
  next
    case (Some cbs)
    obtain cbs' where "states w' s = Some cbs'" "core cbs = core cbs'" by (rule same_core_state [OF same_core_sym [OF sc] Some])
    then show ?thesis using Some coreD(2) [of cbs cbs' l] by (simp add: bound_def)
  qed
qed

lemma drop_tracked:
  assumes rest: "at_rest T w1" and es: "\<forall>e\<in>set es. tracked w1 e" and sc: "same_core w w1"
  shows "\<exists>w'. drop_entries es w1 = Inr w' \<and> bind_ok w' \<and> in_sync T w' \<and> (\<forall>c s. ctx_state w' c = Some s \<longrightarrow> is_clean w' s) \<and>
     gone (set es) w w' \<and> cmds w' = cmds w1"
proof -
  have ok: "bind_ok w1" and sync: "in_sync T w1" using rest by (simp_all add: at_rest_def working_def)
  have "\<forall>e\<in>set es. states w1 (fst e) \<noteq> None" using es by (auto simp: tracked_def)
  from drop_entries_ok [OF ok this] obtain w' where w': "drop_entries es w1 = Inr w'" "bind_ok w'" "ctx_state w' = ctx_state w1" "res_ids w' = res_ids w1"
     "cmds w' = cmds w1" "\<forall>r. binding_head w' r = filter (\<lambda>x. x \<notin> set es) (binding_head w1 r)"
     "\<forall>s l. bound w' s l = (if (s, l) \<in> set es then None else bound w1 s l)" by blast
  have "gone (set es) w w'" using w'(3,4,6,7) sc bound_core [OF sc] by (auto simp: gone_def same_core_def)
  moreover have "\<forall>c s. ctx_state w' c = Some s \<longrightarrow> is_clean w' s"
    using drop_entries_sync [OF w'(1) sync] at_restD(2) [OF rest] w'(3) by auto
  ultimately show ?thesis using w'(1,2,5) drop_entries_sync [OF w'(1) sync] by blast
qed

lemma res_list_kill_ok:
  assumes rest: "at_rest T w"
  obtains w1 w' where "vmw_binding_res_list_scrub r w = Inr w1" "vmw_binding_res_list_kill r w = Inr w'" "bind_ok w'" "in_sync T w'"
    "gone (set (binding_head w r)) w w'" "binding_head w' r = []" "cmds w' = cmds w1"
proof -
  obtain w1 where w1: "vmw_binding_res_list_scrub r w = Inr w1" "at_rest T w1" "same_core w w1" by (rule res_list_scrub_ok [OF rest, of r]) (rule that)
  have h: "binding_head w1 r = binding_head w r" using w1(3) by (simp add: same_core_def)
  have "bind_ok w1" using w1(2) by (simp add: at_rest_def working_def)
  then have "\<forall>e\<in>set (binding_head w1 r). tracked w1 e" using head_iff by blast
  from drop_tracked [OF w1(2) this w1(3)] h obtain w' where w': "drop_entries (binding_head w1 r) w1 = Inr w'" "bind_ok w'" "in_sync T w'"
      "gone (set (binding_head w r)) w w'" "cmds w' = cmds w1" by auto
  have "set (binding_head w' r) = {}" using w'(4) by (simp add: gone_def)
  then show thesis using that [OF w1(1) _ w'(2,3,4)] w1(1) w'(1,5) by (simp add: vmw_binding_res_list_kill_def)
qed

lemma state_kill_ok:
  assumes rest: "at_rest T w" and c: "ctx_state w c = Some s" "states w s = Some cbs"
  obtains w' where "vmw_binding_state_kill s w = Inr w'" "bind_ok w'" "in_sync T w'" "gone (Pair s ` set (cbs_list cbs)) w w'"
proof -
  obtain w1 where w1: "vmw_binding_state_scrub s w = Inr w1" "at_rest T w1" "same_core w w1" by (rule state_scrub_ok [OF rest c]) (rule that)
  obtain cbs1 where cbs1: "states w1 s = Some cbs1" "core cbs = core cbs1" by (rule same_core_state [OF same_core_sym [OF w1(3)] c(2)])
  have c1: "ctx_state w1 c = Some s" using c(1) w1(3) by (simp add: same_core_def)
  from drop_tracked [OF w1(2) state_tracked [OF c1 cbs1(1)] w1(3)] obtain w' where w': "drop_entries (map (Pair s) (cbs_list cbs1)) w1 = Inr w'"
      "bind_ok w'" "in_sync T w'" "gone (Pair s ` set (cbs_list cbs)) w w'" using coreD(1) [OF cbs1(2)] by auto
  then show thesis using that w1(1) state_entries_eq [OF cbs1(1)] by (simp add: vmw_binding_state_kill_def)
qed

section \<open>Rebinding\<close>

definition has_id :: "bind_world \<Rightarrow> nat \<times> bind_loc \<Rightarrow> bool" where
  "has_id w e \<longleftrightarrow> (\<exists>cbs r. states w (fst e) = Some cbs \<and> bi_res (slots cbs (snd e)) = Some r \<and> res_ids w r \<noteq> INVALID_RES)"

lemma has_id_core: "same_core w w' \<Longrightarrow> has_id w e \<Longrightarrow> has_id w' e"
proof -
  assume sc: "same_core w w'" and "has_id w e"
  then obtain cbs r where c: "states w (fst e) = Some cbs" "bi_res (slots cbs (snd e)) = Some r" "res_ids w r \<noteq> INVALID_RES" by (auto simp: has_id_def)
  obtain cbs' where "states w' (fst e) = Some cbs'" "core cbs = core cbs'" by (rule same_core_state [OF same_core_sym [OF sc] c(1)])
  then show ?thesis using c sc coreD(3) [of cbs cbs' "snd e"] by (auto simp: has_id_def same_core_def)
qed

lemma rebind_entries_ok:
  assumes "working T w" "\<forall>e\<in>set es. tracked w e"
  shows "\<exists>w'. rebind_entries es w = Inr (w', Inr ()) \<and> working T w' \<and> same_core w w' \<and>
     (\<forall>e. scrub_of w' e \<longleftrightarrow> scrub_of w e \<and> \<not> (e \<in> set es \<and> has_id w e)) \<and> (\<forall>t. t \<notin> fst ` set es \<longrightarrow> states w' t = states w t)"
  using assms
proof (induction es arbitrary: w)
  case (Cons e es)
  obtain cbs w1 where w1: "states w (fst e) = Some cbs" "get_bi w e = Inr (slots cbs (snd e))"
      "scrub_func (bi_bt (slots cbs (snd e))) (slots cbs (snd e)) True w = Inr (w1, Inr ())" "scrub_step T (fst e) (snd e) False w (set_scrubbed False e w1)"
    using scrub_entry [OF Cons.prems(1), of e True] Cons.prems(2) by auto
  have so: "scrub_of w e = scrubbed (slots cbs (snd e))" using w1(1) by (simp add: scrub_of_def)
  have id: "(case bi_res (slots cbs (snd e)) of None \<Rightarrow> True | Some r \<Rightarrow> res_ids w r = INVALID_RES) \<longleftrightarrow> \<not> has_id w e"
    using w1(1) by (auto simp: has_id_def split: option.splits)
  show ?case
  proof (cases "scrub_of w e \<and> has_id w e")
    case False
    obtain w' where w': "rebind_entries es w = Inr (w', Inr ())" "working T w'" "same_core w w'"
        "\<forall>e. scrub_of w' e \<longleftrightarrow> scrub_of w e \<and> \<not> (e \<in> set es \<and> has_id w e)" "\<forall>t. t \<notin> fst ` set es \<longrightarrow> states w' t = states w t"
      using Cons.IH [OF Cons.prems(1)] Cons.prems(2) by auto
    have "rebind_entries (e # es) w = Inr (w', Inr ())" using False so id w1(2) w'(1) by simp
    moreover have "\<forall>x. scrub_of w' x \<longleftrightarrow> scrub_of w x \<and> \<not> (x \<in> set (e # es) \<and> has_id w x)" using w'(4) False by auto
    ultimately show ?thesis using w'(2,3,5) by (intro exI [of _ w']) (simp del: rebind_entries.simps)
  next
    case True
    let ?w2 = "set_scrubbed False e w1"
    have wk: "working T ?w2" by (rule scrub_step_working [OF Cons.prems(1) w1(4)]) (use Cons.prems(2) in simp)
    have sc: "same_core w ?w2" using w1(4) by (simp add: scrub_step_def)
    obtain w' where w': "rebind_entries es ?w2 = Inr (w', Inr ())" "working T w'" "same_core ?w2 w'"
        "\<forall>x. scrub_of w' x \<longleftrightarrow> scrub_of ?w2 x \<and> \<not> (x \<in> set es \<and> has_id ?w2 x)" "\<forall>t. t \<notin> fst ` set es \<longrightarrow> states w' t = states ?w2 t"
      using Cons.IH [OF wk] Cons.prems(2) tracked_core [OF sc] by auto
    have "has_id ?w2 x = has_id w x" for x using has_id_core [OF sc] has_id_core [OF same_core_sym [OF sc]] by blast
    then have "\<forall>x. scrub_of w' x \<longleftrightarrow> scrub_of w x \<and> \<not> (x \<in> set (e # es) \<and> has_id w x)" using w'(4) w1(4) True by (auto simp: scrub_step_def)
    moreover have "\<forall>t. t \<notin> fst ` set (e # es) \<longrightarrow> states w' t = states w t" using w'(5) w1(4) unfolding scrub_step_def by auto
    moreover have "rebind_entries (e # es) w = Inr (w', Inr ())" using True so id w1(2,3) w'(1) by simp
    ultimately show ?thesis using w'(2) same_core_trans [OF sc w'(3)] by (intro exI [of _ w']) (simp del: rebind_entries.simps)
  qed
qed simp

lemma rebind_all_ok:
  assumes rest: "at_rest T w" and c: "ctx_state w c = Some s" "states w s = Some cbs"
  obtains w' where "vmw_binding_rebind_all s w = Inr (w', Inr ())" "at_rest T w'" "same_core w w'"
    "\<And>e. scrub_of w' e \<longleftrightarrow> scrub_of w e \<and> \<not> (fst e = s \<and> snd e \<in> set (cbs_list cbs) \<and> has_id w e)"
proof -
  let ?es = "map (Pair s) (cbs_list cbs)"
  obtain w1 where w1: "rebind_entries ?es w = Inr (w1, Inr ())" "working T w1" "same_core w w1"
      "\<forall>e. scrub_of w1 e \<longleftrightarrow> scrub_of w e \<and> \<not> (e \<in> set ?es \<and> has_id w e)" "\<forall>t. t \<notin> fst ` set ?es \<longrightarrow> states w1 t = states w t"
    using rebind_entries_ok [OF at_restD(1) [OF rest] state_tracked [OF c]] by blast
  have c1: "ctx_state w1 c = Some s" using c(1) w1(3) by (simp add: same_core_def)
  obtain w' where w': "vmw_binding_emit_dirty s w1 = Inr (w', Inr ())" "working T w'" "same_core w1 w'" "scrub_of w' = scrub_of w1" "is_clean w' s"
      "\<And>t. is_clean w1 t \<Longrightarrow> is_clean w' t" by (rule emit_working [OF w1(2) c1]) (rule that)
  have "at_rest T w'"
  proof (rule at_restI [OF w'(2)])
    fix d t assume "ctx_state w' d = Some t"
    then have "is_clean w t" using at_restD(2) [OF rest] w1(3) w'(3) by (simp add: same_core_def)
    moreover have "t \<notin> fst ` set ?es \<or> t = s" by auto
    then have "states w1 t = states w t" if "t \<noteq> s" using w1(5) that by blast
    ultimately have "is_clean w1 t \<or> t = s" using is_clean_cong [of w1 t w] by blast
    then show "is_clean w' t" using w'(5,6) by blast
  qed
  moreover have "scrub_of w' e \<longleftrightarrow> scrub_of w e \<and> \<not> (fst e = s \<and> snd e \<in> set (cbs_list cbs) \<and> has_id w e)" for e
    using w1(4) w'(4) by (cases e) auto
  ultimately show thesis using that [of w'] w1(1) w'(1) same_core_trans [OF w1(3) w'(3)] c(2)
    by (simp add: vmw_binding_rebind_all_def state_entries_eq)
qed

text \<open>What the device was last told, from the bindings of a context and which of them are scrubbed.\<close>

lemma at_rest_shows:
  assumes rest: "at_rest T w'" and sc: "same_core w w'" and c: "ctx_state w c = Some s" "states w s = Some cbs" and l: "l \<in> set (cbs_list cbs)"
    and r: "bi_res (slots cbs l) = Some r"
  shows "table T w' (res_ids w c, l) = (if scrub_of w' (s, l) then INVALID_RES else res_ids w r)"
proof -
  obtain cbs' where cbs': "states w' s = Some cbs'" "core cbs = core cbs'" by (rule same_core_state [OF same_core_sym [OF sc] c(2)])
  note eq = coreD [OF cbs'(2)]
  have c': "ctx_state w' c = Some s" and ids: "res_ids w' = res_ids w" using sc c(1) by (simp_all add: same_core_def)
  have l': "l \<in> set (cbs_list cbs')" using l eq(1) by simp
  have "bi_ctx (slots cbs' l) = Some c" using slot_bound(3) [OF _ c' cbs'(1) l'] rest by (simp add: at_rest_def working_def)
  moreover have "bi_res (slots cbs' l) = Some r" using eq(3) r by simp
  ultimately show ?thesis using at_rest_table [OF rest c' cbs'(1) l'] cbs'(1) ids by (simp add: shown_def scrub_of_def)
qed

lemma binding_has_res: "at_rest T w \<Longrightarrow> ctx_state w c = Some s \<Longrightarrow> states w s = Some cbs \<Longrightarrow> l \<in> set (cbs_list cbs) \<Longrightarrow> \<exists>r. bi_res (slots cbs l) = Some r"
  using slot_bound(1,3) [of w c s cbs l] by (auto simp: at_rest_def working_def)

lemma in_head:
  assumes "at_rest T w" "ctx_state w c = Some s" "states w s = Some cbs" "l \<in> set (cbs_list cbs)"
  shows "(s, l) \<in> set (binding_head w r) \<longleftrightarrow> bi_res (slots cbs l) = Some r"
  using head_iff [of w "(s, l)" r] assms by (auto simp: at_rest_def working_def tracked_def)

text \<open>A resource all of whose bindings are scrubbed may get another identifier.\<close>

lemma rename_at_rest:
  assumes rest: "at_rest T w" and r: "ctx_state w r = None" and hidden: "\<And>e. e \<in> set (binding_head w r) \<Longrightarrow> scrub_of w e"
  shows "at_rest T (w\<lparr>res_ids := (res_ids w)(r := i)\<rparr>)" (is "at_rest T ?w")
proof -
  have wk: "working T w" using rest by (simp add: at_rest_def)
  have ne: "d \<noteq> r" if "ctx_state w d = Some t" for d t using that r by auto
  have "in_sync T ?w" unfolding in_sync_def
  proof (intro allI impI)
    fix d t cbs k assume a: "ctx_state ?w d = Some t" "states ?w t = Some cbs" "k \<in> set (cbs_list cbs)" "\<not> pending cbs k"
    then have a': "ctx_state w d = Some t" "states w t = Some cbs" by simp_all
    have "shown ?w (slots cbs k) = shown w (slots cbs k)"
      using hidden [of "(t, k)"] in_head [OF rest a' a(3), of r] a'(2) by (auto simp: shown_def scrub_of_def split: option.splits)
    moreover have "table T ?w = table T w" by (rule table_cong) simp
    ultimately show "table T ?w (res_ids ?w d, k) = shown ?w (slots cbs k)"
      using in_syncD [OF _ a' a(3,4), of T] wk ne [OF a'(1)] by (simp add: working_def)
  qed
  moreover have "bind_ok ?w" using wk by (simp add: working_def bind_ok_def ctxs_ok_def heads_ok_def binds_def)
  moreover have "ids_ok ?w" using wk ne by (auto simp: working_def ids_ok_def)
  ultimately show ?thesis using rest by (simp add: at_rest_def working_def)
qed

end
