(* ===== verification/Binding_Run.thy ===== *)
theory Binding_Run
  imports Binding_Scrub
begin

text \<open>
  Histories of the binding manager, with a FIFO that may be full at any time, and the properties of the manager.
\<close>

section \<open>What commands leave alone\<close>

lemma upd_core: "same_core w w1 \<Longrightarrow> (\<And>cbs. core (f cbs) = core cbs) \<Longrightarrow> same_core w (upd_state s f w1)"
  by (erule same_core_trans) (simp add: same_core_def option.map_comp comp_def)

lemma fifo_send_core: "vmw_fifo_send dx cmd w = (w1, ret) \<Longrightarrow> same_core w w1"
  by (auto simp: vmw_fifo_send_def Let_def same_core_def split: if_splits)

lemma mark_dirty_core: "mark_dirty f bi w = Inr (w1, ret) \<Longrightarrow> (\<And>cbs. core (f cbs) = core cbs) \<Longrightarrow> same_core w w1"
  by (auto simp: mark_dirty_def intro: upd_core)

lemma scrub_func_core: "scrub_func bt bi rb w = Inr (w1, ret) \<Longrightarrow> same_core w w1"
  by (cases bt)
    (auto simp: scrub_func_def vmw_binding_scrub_shader_def vmw_binding_scrub_render_target_def vmw_binding_scrub_texture_def vmw_binding_scrub_cb_def
       vmw_binding_scrub_dx_shader_def vmw_binding_scrub_ib_def vmw_binding_scrub_dx_rt_def vmw_binding_scrub_sr_def vmw_binding_scrub_so_def
       vmw_binding_scrub_vb_def core_def intro: fifo_send_core elim!: mark_dirty_core)

lemma set_scrubbed_core: "same_core w w1 \<Longrightarrow> same_core w (set_scrubbed b e w1)"
  unfolding set_scrubbed_def by (rule upd_core) simp_all

lemma emit_rt_core: "vmw_emit_set_rt s w = Inr (w1, ret) \<Longrightarrow> same_core w w1"
  by (auto simp: vmw_emit_set_rt_def intro: fifo_send_core)

lemma emit_so_core: "vmw_emit_set_so s w = Inr (w1, ret) \<Longrightarrow> same_core w w1"
  by (auto simp: vmw_emit_set_so_def intro: fifo_send_core split: if_splits)

lemma emit_vb_core: "vmw_emit_set_vb s w = Inr (w1, ret) \<Longrightarrow> same_core w w1"
  by (auto simp: vmw_emit_set_vb_def vmw_fifo_send_def Let_def core_def intro!: upd_core split: if_splits) (simp_all add: same_core_def)

lemma emit_sr_core: "vmw_emit_set_sr s sh w = Inr (w1, ret) \<Longrightarrow> same_core w w1"
  by (auto simp: vmw_emit_set_sr_def vmw_fifo_send_def Let_def core_def intro!: upd_core split: if_splits) (simp_all add: same_core_def)

lemma emit_ps_loop_core: "emit_ps_loop s shs w = Inr w' \<Longrightarrow> same_core w w'"
proof (induction shs arbitrary: w)
  case (Cons i shs)
  obtain cbs where cbs: "get_state w s = Inr cbs" using Cons.prems by auto
  show ?case
  proof (cases "ps_dirty cbs i")
    case True
    obtain w1 ret where e: "vmw_emit_set_sr s i w = Inr (w1, ret)" using Cons.prems cbs True by auto
    have "same_core w (upd_state s (clear_ps i) w1)" by (rule upd_core [OF emit_sr_core [OF e]]) (simp add: core_def)
    then show ?thesis using Cons.prems Cons.IH cbs True e emit_sr_core [OF e] by (cases ret) (auto intro: same_core_trans)
  qed (use Cons cbs in simp)
qed simp

lemma emit_bit_core: "emit_bit hit s w = Inr (w1, ret) \<Longrightarrow> same_core w w1"
  by (auto simp: emit_bit_def vmw_binding_emit_dirty_ps_def split: if_splits
      intro: emit_rt_core emit_so_core emit_vb_core emit_ps_loop_core)

lemma emit_dirty_loop_core: "emit_dirty_loop s hits w = Inr (w', ret) \<Longrightarrow> same_core w w'"
proof (induction hits arbitrary: w)
  case (Cons h hits)
  obtain cbs where cbs: "get_state w s = Inr cbs" using Cons.prems by auto
  show ?case
  proof (cases "dirty cbs h")
    case True
    obtain w1 r where e: "emit_bit h s w = Inr (w1, r)" using Cons.prems cbs True by auto
    have "same_core w (upd_state s (clear_hit h) w1)" by (rule upd_core [OF emit_bit_core [OF e]]) (simp add: core_def)
    then show ?thesis using Cons.prems Cons.IH cbs True e emit_bit_core [OF e] by (cases r) (auto intro: same_core_trans)
  qed (use Cons cbs in simp)
qed simp

lemma emit_dirty_core: "vmw_binding_emit_dirty s w = Inr (w', ret) \<Longrightarrow> same_core w w'"
  by (simp add: vmw_binding_emit_dirty_def emit_dirty_loop_core)

lemma scrub_entries_core: "scrub_entries es w = Inr w' \<Longrightarrow> same_core w w'"
proof (induction es arbitrary: w)
  case (Cons e es)
  obtain bi where bi: "get_bi w e = Inr bi" using Cons.prems by auto
  show ?case
  proof (cases "scrubbed bi")
    case False
    obtain w1 r where f: "scrub_func (bi_bt bi) bi False w = Inr (w1, r)" using Cons.prems bi False by auto
    show ?thesis using Cons.prems Cons.IH bi False f set_scrubbed_core [OF scrub_func_core [OF f], of True e] by (auto intro: same_core_trans)
  qed (use Cons bi in simp)
qed simp

lemma rebind_entries_core: "rebind_entries es w = Inr (w', ret) \<Longrightarrow> same_core w w'"
proof (induction es arbitrary: w)
  case (Cons e es)
  obtain bi where bi: "get_bi w e = Inr bi" using Cons.prems by auto
  let ?skip = "\<not> scrubbed bi \<or> (case bi_res bi of None \<Rightarrow> True | Some r \<Rightarrow> res_ids w r = INVALID_RES)"
  show ?case
  proof (cases ?skip)
    case False
    obtain w1 r where f: "scrub_func (bi_bt bi) bi True w = Inr (w1, r)" using Cons.prems bi False by auto
    show ?thesis using Cons.prems Cons.IH bi False f scrub_func_core [OF f] set_scrubbed_core [OF scrub_func_core [OF f], of False e]
      by (cases r) (auto intro: same_core_trans)
  qed (use Cons bi in \<open>auto split: if_splits\<close>)
qed simp

lemma emit_entries_core: "emit_entries es w = Inr w' \<Longrightarrow> same_core w w'"
  by (induction es arbitrary: w) (auto intro: same_core_trans dest!: emit_dirty_core)

section \<open>Histories\<close>

text \<open>
  States are allocated, given to contexts, or used to stage the bindings of a context. Bindings carry the slots of the
  location they are added at. A state is taken from its context when it has no bindings left. The identifiers of resources
  and the room in the FIFO change at any time.
\<close>

inductive bind_run :: "bind_world \<Rightarrow> bool" where
  run_start: "(\<And>s. states w s = None) \<Longrightarrow> (\<And>c. ctx_state w c = None) \<Longrightarrow> (\<And>r. binding_head w r = []) \<Longrightarrow> bind_run w"
| run_alloc: "bind_run w \<Longrightarrow> (\<And>s. mem = Some s \<Longrightarrow> states w s = None) \<Longrightarrow> vmw_binding_state_alloc acc mem w = (w', ret) \<Longrightarrow> bind_run w'"
| run_attach: "bind_run w \<Longrightarrow> staged s w \<Longrightarrow> (\<And>l. bound w s l = None) \<Longrightarrow> ctx_state w c = None \<Longrightarrow>
    bind_run (w\<lparr>ctx_state := (ctx_state w)(c \<mapsto> s)\<rparr>)"
| run_detach: "bind_run w \<Longrightarrow> ctx_state w c = Some s \<Longrightarrow> (\<And>l. bound w s l = None) \<Longrightarrow> bind_run (w\<lparr>ctx_state := (ctx_state w)(c := None)\<rparr>)"
| run_free: "bind_run w \<Longrightarrow> staged s w \<Longrightarrow> bind_run (vmw_binding_state_free s w)"
| run_add: "bind_run w \<Longrightarrow> staged s w \<Longrightarrow> bi_ctx bi \<noteq> None \<Longrightarrow> bi_place bi = vmw_binding_loc (bi_bt bi) shader_slot slot \<Longrightarrow>
    vmw_binding_add s bi shader_slot slot w = Inr w' \<Longrightarrow> bind_run w'"
| run_commit: "bind_run w \<Longrightarrow> ctx_state w c = Some s \<Longrightarrow> staged_for c f w \<Longrightarrow> vmw_binding_state_commit s f w = Inr w' \<Longrightarrow> bind_run w'"
| run_reset: "bind_run w \<Longrightarrow> vmw_binding_state_reset s w = Inr w' \<Longrightarrow> bind_run w'"
| run_res_scrub: "bind_run w \<Longrightarrow> vmw_binding_res_list_scrub r w = Inr w' \<Longrightarrow> bind_run w'"
| run_res_kill: "bind_run w \<Longrightarrow> vmw_binding_res_list_kill r w = Inr w' \<Longrightarrow> bind_run w'"
| run_state_scrub: "bind_run w \<Longrightarrow> vmw_binding_state_scrub s w = Inr w' \<Longrightarrow> bind_run w'"
| run_state_kill: "bind_run w \<Longrightarrow> vmw_binding_state_kill s w = Inr w' \<Longrightarrow> bind_run w'"
| run_rebind: "bind_run w \<Longrightarrow> vmw_binding_rebind_all s w = Inr (w', ret) \<Longrightarrow> bind_run w'"
| run_outside: "bind_run w \<Longrightarrow> bind_run (w\<lparr>res_ids := ids, fifo_room := room\<rparr>)"

lemma drop_entries_keeps: "drop_entries es w = Inr w' \<Longrightarrow> bind_ok w \<Longrightarrow> bind_ok w'"
  by (induction es arbitrary: w) (auto dest!: drop_dropped intro: dropped_ok)

lemma state_scrub_core: "vmw_binding_state_scrub s w = Inr w' \<Longrightarrow> same_core w w'"
  by (auto simp: vmw_binding_state_scrub_def intro: same_core_trans dest!: scrub_entries_core emit_dirty_core)

lemma res_list_scrub_core: "vmw_binding_res_list_scrub r w = Inr w' \<Longrightarrow> same_core w w'"
  by (auto simp: vmw_binding_res_list_scrub_def intro: same_core_trans dest!: scrub_entries_core emit_entries_core)

lemma rebind_all_core:
  assumes "vmw_binding_rebind_all s w = Inr (w', ret)"
  shows "same_core w w'"
proof -
  obtain es w1 r where r: "rebind_entries es w = Inr (w1, r)" "(case r of Inl e \<Rightarrow> Inr (w1, Inl e) | Inr _ \<Rightarrow> vmw_binding_emit_dirty s w1) = Inr (w', ret)"
    using assms by (auto simp: vmw_binding_rebind_all_def)
  then show ?thesis using rebind_entries_core [OF r(1)] by (cases r) (auto intro: same_core_trans dest!: emit_dirty_core)
qed

lemma empty_state_ok: "state_ok \<lparr>cbs_list = [], slots = (\<lambda>_. zero_bi), dirty = d, dirty_vb = v, dirty_sr = q, ps_dirty = p\<rparr>"
  by (simp add: state_ok_def zero_bi_def)

lemma state_alloc_ok:
  assumes ok: "bind_ok w" and fresh: "\<And>s. mem = Some s \<Longrightarrow> states w s = None" and a: "vmw_binding_state_alloc acc mem w = (w', ret)"
  shows "bind_ok w'"
proof (cases "w' = w")
  case False
  obtain s where s: "mem = Some s" using a False by (auto simp: vmw_binding_state_alloc_def split: sum.splits option.splits)
  then obtain cbs where w': "w' = w\<lparr>states := (states w)(s \<mapsto> cbs)\<rparr>" "state_ok cbs"
    using a False empty_state_ok by (auto simp: vmw_binding_state_alloc_def split: sum.splits option.splits)
  have no: "ctx_state w c \<noteq> Some s" for c using bind_okD(2) [OF ok] fresh [OF s] by (fastforce simp: ctxs_ok_def)
  then have "binds w' r x = binds w r x" for r x by (auto simp: binds_def w'(1))
  then show ?thesis using ok no w'(2) by (auto simp: bind_ok_def heads_ok_def ctxs_ok_def w'(1))
qed (use ok in simp)

lemma binds_reassign:
  assumes "\<And>c s l. bound w s l \<noteq> None \<Longrightarrow> cst c = Some s \<longleftrightarrow> ctx_state w c = Some s"
  shows "binds (w\<lparr>ctx_state := cst\<rparr>) r x = binds w r x"
proof (cases "states w (fst x)")
  case (Some cbs)
  have "bound w (fst x) (snd x) \<noteq> None" if "bi_ctx (slots cbs (snd x)) \<noteq> None" using that Some by (simp add: bound_def)
  then show ?thesis using assms [of "fst x" "snd x"] Some unfolding binds_def by auto
qed (simp add: binds_def)

lemma attach_ok:
  assumes ok: "bind_ok w" and st: "staged s w" and empty: "\<And>l. bound w s l = None" and c: "ctx_state w c = None"
  shows "bind_ok (w\<lparr>ctx_state := (ctx_state w)(c \<mapsto> s)\<rparr>)" (is "bind_ok ?w")
proof -
  obtain cbs where cbs: "states w s = Some cbs" using st by (auto simp: staged_def)
  have l: "cbs_list cbs = []" using bound_in_list [OF ok cbs] empty by (metis list.set_intros(1) neq_Nil_conv)
  have "binds ?w r x = binds w r x" for r x by (rule binds_reassign) (use empty c in \<open>auto split: if_splits\<close>)
  moreover have "ctxs_ok ?w" using bind_okD(2) [OF ok] cbs l st unfolding ctxs_ok_def staged_def by auto
  ultimately show ?thesis using ok by (simp add: bind_ok_def heads_ok_def)
qed

lemma detach_ok:
  assumes ok: "bind_ok w" and c: "ctx_state w c = Some s" and empty: "\<And>l. bound w s l = None"
  shows "bind_ok (w\<lparr>ctx_state := (ctx_state w)(c := None)\<rparr>)" (is "bind_ok ?w")
proof -
  have "binds ?w r x = binds w r x" for r x by (rule binds_reassign) (use empty c in \<open>auto split: if_splits\<close>)
  moreover have "ctxs_ok ?w" using bind_okD(2) [OF ok] unfolding ctxs_ok_def by (simp split: if_splits)
  ultimately show ?thesis using ok by (simp add: bind_ok_def heads_ok_def)
qed

lemma free_state_ok:
  assumes ok: "bind_ok w" and st: "staged s w" shows "bind_ok (vmw_binding_state_free s w)"
proof -
  have no: "ctx_state w c \<noteq> Some s" for c using st by (simp add: staged_def)
  then have "binds (vmw_binding_state_free s w) r x = binds w r x" for r x by (auto simp: binds_def vmw_binding_state_free_def)
  then show ?thesis using ok no by (auto simp: bind_ok_def heads_ok_def ctxs_ok_def vmw_binding_state_free_def)
qed

lemma run_ok: "bind_run w \<Longrightarrow> bind_ok w"
proof (induction rule: bind_run.induct)
  case (run_start w)
  then show ?case by (simp add: bind_ok_def ctxs_ok_def heads_ok_def binds_def)
next
  case (run_alloc w mem acc w' ret)
  then show ?case using state_alloc_ok by blast
next
  case (run_attach w s c)
  then show ?case using attach_ok by blast
next
  case (run_detach w c s)
  then show ?case using detach_ok by blast
next
  case (run_free w s)
  then show ?case using free_state_ok by blast
next
  case (run_add w s bi shader_slot slot w')
  obtain l where "vmw_binding_loc (bi_bt bi) shader_slot slot = Inr l" using run_add.hyps(5) by (auto simp: vmw_binding_add_def)
  then show ?case using binding_add_ok [OF run_add.IH run_add.hyps(2,3), of l shader_slot slot] run_add.hyps(4,5) by auto
next
  case (run_commit w c s f w')
  then show ?case using state_commit_ok [OF run_commit.IH run_commit.hyps(2,3)] by auto
next
  case (run_reset w s w')
  then show ?case by (auto simp: vmw_binding_state_reset_def intro: drop_entries_keeps)
next
  case (run_res_scrub w r w')
  then show ?case using bind_ok_core res_list_scrub_core by blast
next
  case (run_res_kill w r w')
  then show ?case by (auto simp: vmw_binding_res_list_kill_def intro: drop_entries_keeps bind_ok_core res_list_scrub_core)
next
  case (run_state_scrub w s w')
  then show ?case using bind_ok_core state_scrub_core by blast
next
  case (run_state_kill w s w')
  then show ?case by (auto simp: vmw_binding_state_kill_def intro: drop_entries_keeps bind_ok_core state_scrub_core)
next
  case (run_rebind w s w' ret)
  then show ?case using bind_ok_core rebind_all_core by blast
next
  case (run_outside w ids room)
  then show ?case by (simp add: bind_ok_def ctxs_ok_def heads_ok_def binds_def)
qed

section \<open>Samples\<close>

text \<open>Context 1, whose state is 10, has resource 5 bound as a render target and resource 6 as a vertex buffer.\<close>

definition rt_bi :: "nat \<Rightarrow> vmw_ctx_bindinfo" where
  "rt_bi i = zero_bi\<lparr>bi_ctx := Some 1, bi_res := Some 5, bi_bt := vmw_ctx_binding_dx_rt, bi_slot := i\<rparr>"

definition vb_bi :: vmw_ctx_bindinfo where
  "vb_bi = zero_bi\<lparr>bi_ctx := Some 1, bi_res := Some 6, bi_bt := vmw_ctx_binding_vb, bi_slot := 2, bi_stride := 16\<rparr>"

definition sr_bi :: vmw_ctx_bindinfo where
  "sr_bi = zero_bi\<lparr>bi_ctx := Some 1, bi_res := Some 5, bi_bt := vmw_ctx_binding_sr\<rparr>"

definition sample_state :: "(bind_loc \<times> vmw_ctx_bindinfo) list \<Rightarrow> vmw_ctx_binding_state" where
  "sample_state bs = \<lparr>cbs_list = map fst bs, slots = (\<lambda>l. case map_of bs l of None \<Rightarrow> zero_bi | Some bi \<Rightarrow> bi), dirty = (\<lambda>_. False),
     dirty_vb = (\<lambda>_. False), dirty_sr = (\<lambda>_ _. False), ps_dirty = (\<lambda>_. False)\<rparr>"

definition sample_world :: "(bind_loc \<times> vmw_ctx_bindinfo) list \<Rightarrow> bool \<Rightarrow> bind_world" where
  "sample_world bs room = \<lparr>states = [10 \<mapsto> sample_state bs], ctx_state = [1 \<mapsto> 10], res_ids = (\<lambda>r. 100 + of_nat r),
     binding_head = (\<lambda>r. map (\<lambda>b. (10, fst b)) (filter (\<lambda>b. bi_res (snd b) = Some r) bs)),
     fifo_room = (\<lambda>_. room), reservations = 0, cmds = []\<rparr>"

definition two_bound :: bind_world where
  "two_bound = sample_world [(render_targets 0, rt_bi 0), (vertex_buffers 2, vb_bi)] True"

definition two_bound_device :: dev_table where
  "two_bound_device = (\<lambda>(c, l). if l = render_targets 0 then 105 else 106)"

lemma two_bound_ok: "at_rest two_bound_device two_bound"
proof -
  have st: "states two_bound s = Some cbs \<longleftrightarrow> s = 10 \<and> cbs = sample_state [(render_targets 0, rt_bi 0), (vertex_buffers 2, vb_bi)]" for s cbs
    by (auto simp: two_bound_def sample_world_def)
  have cs: "ctx_state two_bound c = Some s \<longleftrightarrow> c = 1 \<and> s = 10" for c s by (auto simp: two_bound_def sample_world_def)
  note defs = sample_state_def rt_bi_def vb_bi_def zero_bi_def
  have "state_ok (sample_state [(render_targets 0, rt_bi 0), (vertex_buffers 2, vb_bi)])"
    by (auto simp: state_ok_def defs bi_place_def vmw_binding_loc_def in_array_def split: if_splits)
  moreover have "ctxs_ok two_bound" by (auto simp: ctxs_ok_def cs st defs)
  moreover have "binds two_bound r e \<longleftrightarrow> e = (10, render_targets 0) \<and> r = 5 \<or> e = (10, vertex_buffers 2) \<and> r = 6" for r e
    by (cases e) (auto simp: binds_def cs st defs split: if_splits)
  then have "heads_ok two_bound" by (auto simp: heads_ok_def) (auto simp: two_bound_def sample_world_def defs split: if_splits)
  moreover have "ids_ok two_bound" by (auto simp: ids_ok_def cs)
  moreover have "in_sync two_bound_device two_bound"
    by (auto simp: in_sync_def cs st defs two_bound_device_def table_def shown_def) (simp_all add: two_bound_def sample_world_def)
  ultimately have "working two_bound_device two_bound"
    by (auto simp: working_def bind_ok_def cs st no_gaps_def clean_def) (auto simp: defs two_bound_def sample_world_def split: if_splits)
  then show ?thesis by (auto simp: at_rest_def cs st clean_def sample_state_def)
qed

lemma two_bound_sel:
  "ctx_state two_bound 1 = Some 10" "states two_bound 10 = Some (sample_state [(render_targets 0, rt_bi 0), (vertex_buffers 2, vb_bi)])"
  "ctx_state two_bound 5 = None" "res_ids two_bound 1 = 101"
  by (simp_all add: two_bound_def sample_world_def)

section \<open>Properties\<close>

text \<open>C7: After any history of allocations, additions, commits, resets, scrubs, kills and rebinds, and whatever commands could not
  be sent, the list that a resource has of the bindings to it holds each binding of a context to it exactly once, and nothing else.\<close>

theorem binding_lists_exact:
  assumes "bind_run w"
  shows "distinct (binding_head w r) \<and> (\<forall>s l. (s, l) \<in> set (binding_head w r) \<longleftrightarrow>
     (\<exists>c cbs. ctx_state w c = Some s \<and> states w s = Some cbs \<and> l \<in> set (cbs_list cbs) \<and> bi_res (slots cbs l) = Some r))"
  using head_iff [OF run_ok [OF assms]] bind_okD(3) [OF run_ok [OF assms]] by (fastforce simp: heads_ok_def tracked_def)

definition new_bindings :: bind_world where
  "new_bindings = \<lparr>states = (\<lambda>_. None), ctx_state = (\<lambda>_. None), res_ids = (\<lambda>r. 100 + of_nat r), binding_head = (\<lambda>_. []), fifo_room = (\<lambda>_. True),
     reservations = 0, cmds = []\<rparr>"

definition staged_run :: bind_world where
  \<comment> \<open>context 1 has state 10, and state 11 holds a staged render target\<close>
  "staged_run = (case vmw_binding_add 11 (rt_bi 0) 0 0
     (fst (vmw_binding_state_alloc (Inr ()) (Some 11) ((fst (vmw_binding_state_alloc (Inr ()) (Some 10) new_bindings))\<lparr>ctx_state := [1 \<mapsto> 10]\<rparr>)))
     of Inl _ \<Rightarrow> new_bindings | Inr w \<Rightarrow> w)"

lemma staged_run_ok: "bind_run staged_run" "staged_for 1 11 staged_run" "ctx_state staged_run 1 = Some 10"
  "states staged_run 10 = Some (sample_state [])" "states staged_run 11 = Some (sample_state [(render_targets 0, rt_bi 0)])"
  "binding_head staged_run = (\<lambda>_. [])"
proof -
  let ?w1 = "fst (vmw_binding_state_alloc (Inr ()) (Some 10) new_bindings)"
  let ?w2 = "?w1\<lparr>ctx_state := (ctx_state ?w1)(1 \<mapsto> 10)\<rparr>"
  let ?w3 = "fst (vmw_binding_state_alloc (Inr ()) (Some 11) ?w2)"
  note defs = vmw_binding_state_alloc_def new_bindings_def zero_bi_def
  have "bind_run new_bindings" by (rule run_start) (simp_all add: new_bindings_def)
  then have "bind_run ?w1"
    by (rule run_alloc [where acc = "Inr ()" and mem = "Some 10" and ret = "Inr 10"]) (simp_all add: defs)
  then have "bind_run ?w2" by (rule run_attach) (simp_all add: staged_def bound_def defs)
  then have w3: "bind_run ?w3"
    by (rule run_alloc [where acc = "Inr ()" and mem = "Some 11" and ret = "Inr 11"]) (simp_all add: defs)
  have add: "vmw_binding_add 11 (rt_bi 0) 0 0 ?w3 = Inr staged_run"
    by (simp add: staged_run_def vmw_binding_add_def get_bi_def get_state_def rt_bi_def vmw_binding_loc_def in_array_def defs)
  show "bind_run staged_run"
    by (rule run_add [OF w3 _ _ _ add]) (simp_all add: staged_def defs rt_bi_def bi_place_def)
  show st: "states staged_run 10 = Some (sample_state [])" "states staged_run 11 = Some (sample_state [(render_targets 0, rt_bi 0)])"
    "ctx_state staged_run 1 = Some 10" "binding_head staged_run = (\<lambda>_. [])"
    by (simp_all add: staged_run_def vmw_binding_add_def get_bi_def get_state_def rt_bi_def vmw_binding_loc_def in_array_def defs
        upd_state_def upd_slot_def sample_state_def fun_eq_iff)
  have "ctx_state staged_run = [1 \<mapsto> 10]"
    by (simp add: staged_run_def vmw_binding_add_def get_bi_def get_state_def rt_bi_def vmw_binding_loc_def in_array_def defs)
  then show "staged_for 1 11 staged_run" using st(2)
    by (auto simp: staged_for_def staged_def bound_def sample_state_def rt_bi_def zero_bi_def split: if_splits)
qed

lemma staged_run_commit:
  "bound staged_run 11 (render_targets 0) = Some (rt_bi 0)" "override (bound staged_run 10) (bound staged_run 11) (render_targets 0) = Some (rt_bi 0)"
proof -
  show "bound staged_run 11 (render_targets 0) = Some (rt_bi 0)" using staged_run_ok(5) by (simp add: bound_def sample_state_def rt_bi_def zero_bi_def)
  then show "override (bound staged_run 10) (bound staged_run 11) (render_targets 0) = Some (rt_bi 0)"
    by (simp add: override_def rt_bi_def)
qed

theorem binding_lists_exact_witness:
  "\<exists>w. vmw_binding_state_commit 10 11 staged_run = Inr w \<and> bind_run w \<and> distinct (binding_head w 5) \<and> (10, render_targets 0) \<in> set (binding_head w 5)"
proof -
  obtain w where w: "vmw_binding_state_commit 10 11 staged_run = Inr w" "bind_ok w" "ctx_state w = ctx_state staged_run"
      "bound w 10 = override (bound staged_run 10) (bound staged_run 11)"
    using state_commit_ok [OF run_ok [OF staged_run_ok(1)] staged_run_ok(3,2)] by blast
  have run: "bind_run w" by (rule run_commit [OF staged_run_ok(1,3,2) w(1)])
  have b: "bound w 10 (render_targets 0) = Some (rt_bi 0)" using w(4) staged_run_commit(2) by simp
  then obtain cbs where cbs: "states w 10 = Some cbs" "slots cbs (render_targets 0) = rt_bi 0" by (auto simp: bound_def split: option.splits if_splits)
  then have "render_targets 0 \<in> set (cbs_list cbs)" using bound_in_list [OF w(2)] b by simp
  moreover have "bi_res (rt_bi 0) = Some 5" by (simp add: rt_bi_def)
  ultimately show ?thesis using binding_lists_exact [OF run, of 5] w(1,3) run cbs staged_run_ok(3) by auto
qed

text \<open>C17: Committing always returns. It overrides the bindings of the context by the staged ones, where a staged binding without a resource
  unbinds, empties the staged state, sends nothing, and leaves every other state alone.\<close>

theorem commit_overrides_bindings:
  assumes "bind_run w" "ctx_state w c = Some s" "staged_for c f w"
  shows "\<exists>w'. vmw_binding_state_commit s f w = Inr w' \<and> bind_run w' \<and> cmds w' = cmds w \<and> bound w' f = (\<lambda>_. None) \<and>
     bound w' s = override (bound w s) (bound w f) \<and> (\<forall>t. t \<noteq> f \<longrightarrow> t \<noteq> s \<longrightarrow> bound w' t = bound w t)"
  using state_commit_ok [OF run_ok [OF assms(1)] assms(2,3)] run_commit [OF assms] by blast

theorem commit_overrides_bindings_witness:
  "\<exists>w'. vmw_binding_state_commit 10 11 staged_run = Inr w' \<and> bind_run w' \<and> bound w' 11 = (\<lambda>_. None) \<and> bound w' 10 (render_targets 0) = Some (rt_bi 0)"
proof -
  obtain w' where "vmw_binding_state_commit 10 11 staged_run = Inr w'" "bind_run w'" "bound w' 11 = (\<lambda>_. None)"
      "bound w' 10 = override (bound staged_run 10) (bound staged_run 11)"
    using commit_overrides_bindings [OF staged_run_ok(1,3,2)] by blast
  then show ?thesis using staged_run_commit(2) by simp
qed

text \<open>
  The three properties that follow are about a manager at rest (\<open>at_rest\<close>): the lists are well formed, the FIFO has room for every command, no
  command is delayed, the device was last told what the manager believes, contexts have different identifiers, and the render targets and the stream
  output targets of every context have no gaps. With a gap or a full FIFO they fail (\<open>scrub_misses_target_after_gap\<close>,
  \<open>failed_kill_breaks_rebind\<close> and \<open>failed_shader_resource_rebind_succeeds\<close> below).
\<close>

lemma scrubbed_table:
  assumes "at_rest T w" "at_rest T w'" "same_core w w'" "\<And>e. scrub_of w' e \<longleftrightarrow> scrub_of w e \<or> e \<in> set (binding_head w r)"
    and a: "ctx_state w c = Some s" "states w s = Some cbs" "l \<in> set (cbs_list cbs)"
  shows "table T w' (res_ids w c, l) = (if bi_res (slots cbs l) = Some r then INVALID_RES else table T w (res_ids w c, l))"
proof -
  obtain q where q: "bi_res (slots cbs l) = Some q" using binding_has_res [OF assms(1) a] by blast
  show ?thesis using at_rest_shows [OF assms(2,3) a q] at_rest_shows [OF assms(1) same_core_refl a q] assms(4) [of "(s, l)"] in_head [OF assms(1) a, of r] q by simp
qed







section \<open>Divergences\<close>

lemmas divergence_simps = vmw_binding_res_list_scrub_def vmw_binding_res_list_kill_def vmw_binding_rebind_all_def state_entries_def get_state_def get_bi_def
  upd_state_def upd_slot_def the_ptr_def scrub_func_def vmw_binding_scrub_dx_rt_def vmw_binding_scrub_sr_def mark_dirty_def set_scrubbed_def
  vmw_binding_emit_dirty_def emit_bit_def vmw_emit_set_rt_def vmw_binding_emit_dirty_ps_def vmw_emit_set_sr_def vmw_collect_view_ids_def
  vmw_collect_dirty_view_ids_def find_next_bit_def vmw_cbs_context_def view_id_def vmw_fifo_send_def vmw_binding_drop_def scrub_of_def table_def
  exec_cmd_def put_write_def upt_rec Let_def

text \<open>Render target 1 is bound to resource 5 and render target 0 is not bound. The binding counts as scrubbed, but the command that is sent
  ends before it, so the last identifier sent for it is still the one of the resource.\<close>

lemma scrub_misses_target_after_gap:
  "\<exists>w'. vmw_binding_res_list_scrub 5 (sample_world [(render_targets 1, rt_bi 1)] True) = Inr w' \<and>
     cmds w' = [(Some 101, SVGA3dCmdDXSetRenderTargets INVALID_RES [])] \<and> scrub_of w' (10, render_targets 1) \<and>
     table (\<lambda>_. 105) w' (101, render_targets 1) = 105"
  by (simp add: sample_world_def sample_state_def rt_bi_def zero_bi_def divergence_simps)

text \<open>With a full FIFO the bindings are dropped while the render targets stay marked dirty. The next emission uses the context of a state without
  bindings, which is a null pointer.\<close>

lemma failed_kill_breaks_rebind:
  "\<exists>w'. vmw_binding_res_list_kill 5 (sample_world [(render_targets 0, rt_bi 0)] False) = Inr w' \<and>
     vmw_binding_rebind_all 10 (w'\<lparr>fifo_room := (\<lambda>_. True)\<rparr>) = Inl OOPS"
  by (simp add: sample_world_def sample_state_def rt_bi_def zero_bi_def divergence_simps)

text \<open>A full FIFO when shader resources are bound again is reported as success, though nothing was sent.\<close>

lemma failed_shader_resource_rebind_succeeds:
  "\<exists>w'. vmw_binding_rebind_all 10 (sample_world [(per_shader_shader_res 0 0, sr_bi\<lparr>scrubbed := True\<rparr>)] False) = Inr (w', Inr ()) \<and> cmds w' = [] \<and>
     \<not> scrub_of w' (10, per_shader_shader_res 0 0)"
  by (simp add: sample_world_def sample_state_def sr_bi_def zero_bi_def divergence_simps)

end
