(* ===== verification/Spec2Isabelle.thy ===== *)
theory Spec2Isabelle
  imports Cmdbuf_Res Irq Execbuf Ttm_Lock Rect Surface_Format Ttm_Bo_Manager Ttm_Memory Ttm_Object Validation Cmdbuf_Reach Binding_Run
begin

text \<open>
  Verification of vmwgfx, the Linux kernel driver of the VMware virtual GPU, and of the copy of the DRM and
  TTM code it is built with. All files named below are under \<^verbatim>\<open>src/\<close>.

  \<^bold>\<open>The program.\<close> User space submits buffers of device commands. \<^verbatim>\<open>vmwgfx_execbuf.c\<close> copies a buffer into a
  bounce buffer, verifies every command against a table, translates user handles into device identifiers,
  records relocations, and patches them in. Resources that the commands create or destroy are staged in
  \<^verbatim>\<open>vmwgfx_cmdbuf_res.c\<close>, on the hash table \<^verbatim>\<open>drm_hashtab.c\<close>, and committed or reverted with the submission.
  The verified commands go to the device through the FIFO of \<^verbatim>\<open>vmwgfx_fifo.c\<close>, a ring in device memory, followed
  by a fence command with a sequence number, or, on devices that have it, through the command buffer manager of
  \<^verbatim>\<open>vmwgfx_cmdbuf.c\<close>, which queues buffers per context and reruns what is left of them after an error. \<^verbatim>\<open>vmwgfx_fence.c\<close> keeps the fences the device has not passed,
  \<^verbatim>\<open>vmwgfx_marker.c\<close> the times of submissions, and \<^verbatim>\<open>vmwgfx_irq.c\<close> decides whether a number has been passed
  and keeps the interrupt mask. Buffers live in memory types that TTM manages: \<^verbatim>\<open>ttm/ttm_bo_manager.c\<close> places them
  with the range allocator \<^verbatim>\<open>drm_mm.c\<close>, and \<^verbatim>\<open>ttm/ttm_lock.c\<close> keeps user space out of them during suspend and
  VT switches. \<^verbatim>\<open>ttm/ttm_memory.c\<close> charges allocations against zones of system memory, \<^verbatim>\<open>ttm/ttm_object.c\<close> gives
  user space reference-counted handles. What a submission uses is gathered by \<^verbatim>\<open>vmwgfx_validation.c\<close>: it reserves the
  buffers together (\<^verbatim>\<open>ttm/ttm_execbuf_util.c\<close>, on the fence slots of \<^verbatim>\<open>core/reservation.c\<close>) and makes every resource
  resident (\<^verbatim>\<open>vmwgfx_resource.c\<close>, which evicts others when the device runs out of identifiers).
  \<^verbatim>\<open>vmwgfx_binding.c\<close> knows where contexts have a resource bound, scrubs those bindings before the resource leaves the device and
  makes them again when it is back. The sizes of surfaces come from the table of \<^verbatim>\<open>device_include/svga3d_surfacedefs.h\<close>; what a plane
  of the display shows is computed with the rectangles of \<^verbatim>\<open>drm_rect.c\<close> by \<^verbatim>\<open>drm_plane_helper.c\<close>.

  \<^bold>\<open>Theories.\<close>
  \<^item> \<^verbatim>\<open>Vmw_Prelude\<close>: C integers as words, kernel error codes as values, shared lemmas.
  \<^item> \<^verbatim>\<open>Hashtab\<close> (\<^verbatim>\<open>drm_hashtab.c\<close>): the table is an array of chains sorted by key. Insertion, removal and lookup
    refine a partial map; \<^verbatim>\<open>drm_ht_just_insert_please\<close> returns after at most \<open>2 ^ bits\<close> attempts.
  \<^item> \<^verbatim>\<open>Cmdbuf_Res\<close> (\<^verbatim>\<open>vmwgfx_cmdbuf_res.c\<close>, the users of it in \<^verbatim>\<open>vmwgfx_shader.c\<close> and \<^verbatim>\<open>vmwgfx_so.c\<close>): managers, the
    list of staged changes, commit and revert. A committed batch refines map updates, a reverted one restores the
    maps unless it re-added a key, and the keys of shaders and views do not collide after the range checks. The
    hash table enters through a locale that is interpreted on the definitions of \<^verbatim>\<open>Hashtab\<close>.
  \<^item> \<^verbatim>\<open>Seqno\<close>: wrap-around comparison of 32-bit sequence numbers, shared by the following three.
  \<^item> \<^verbatim>\<open>Vmw_Device\<close> (\<^verbatim>\<open>vmwgfx_drv.h\<close> and the register accessors): the state that FIFO, fences and interrupts share.
  \<^item> \<^verbatim>\<open>Fifo\<close> (\<^verbatim>\<open>vmwgfx_fifo.c\<close>): initialisation, reservation in place or in a bounce buffer, commit with and without
    the RESERVED register. Reserve, write and commit append to the queue of words the device has not consumed.
  \<^item> \<^verbatim>\<open>Fence\<close> (\<^verbatim>\<open>vmwgfx_fence.c\<close>): the list of fences, the goal register, actions and waiting. An update signals
    exactly the passed fences and runs their actions once; waiting returns when the device gets there.
  \<^item> \<^verbatim>\<open>Irq\<close> (\<^verbatim>\<open>vmwgfx_irq.c\<close>, \<^verbatim>\<open>vmwgfx_marker.c\<close>): \<^verbatim>\<open>vmw_seqno_passed\<close>, sending fences, markers, waiter counts.
  \<^item> \<^verbatim>\<open>Execbuf\<close> (\<^verbatim>\<open>vmwgfx_execbuf.c\<close>): the command table, the check of one command and of a buffer, relocations, the
    bounce buffer. Accepted buffers consist of permitted commands that cover the buffer without gaps. The handlers
    behind the table are a parameter: a function from handler, header and command words to a result.
  \<^item> \<^verbatim>\<open>Ttm_Lock\<close> (\<^verbatim>\<open>ttm/ttm_lock.c\<close>): a step relation of threads over the lock word and its flags, with exclusion as
    an invariant of the reachable states and the progress of a waiting writer.
  \<^item> \<^verbatim>\<open>Rect\<close> (\<^verbatim>\<open>drm_rect.c\<close>, \<^verbatim>\<open>drm_plane_helper.c\<close>): clipping, scaling, rotation of rectangles, and the plane check.
  \<^item> \<^verbatim>\<open>Surface_Format\<close> (\<^verbatim>\<open>device_include/svga3d_surfacedefs.h\<close>): the 145 rows of the table, sizes and offsets at 32
    bits, the layout of faces and mip levels.
  \<^item> \<^verbatim>\<open>Mm\<close> (\<^verbatim>\<open>drm_mm.c\<close>): the ring of nodes and the hole stack as linked structures in a store; insertion in a
    range, reservation, removal, replacement, eviction scans.
  \<^item> \<^verbatim>\<open>Ttm_Bo_Manager\<close> (\<^verbatim>\<open>ttm/ttm_bo_manager.c\<close>): a client of the allocator through the locale
    \<^verbatim>\<open>range_allocator\<close>, interpreted on \<^verbatim>\<open>Mm\<close>.
  \<^item> \<^verbatim>\<open>Ttm_Memory\<close> (\<^verbatim>\<open>ttm/ttm_memory.c\<close>): the zones and their limits, charging and freeing at 64 bits, the retry loop
    that shrinks. A failed charge leaves the zones as they were, a successful one stays within the limits.
  \<^item> \<^verbatim>\<open>Ttm_Object\<close> (\<^verbatim>\<open>ttm/ttm_object.c\<close>): base objects, the references of a file in hash tables, prime handles. Counts
    agree with the references that exist, so an object is destroyed with its last one.
  \<^item> \<^verbatim>\<open>Vmw_Resource\<close> (\<^verbatim>\<open>vmwgfx_resource.c\<close>): identifiers, the LRU lists, backup buffers, reservation, validation with
    eviction, pinning. Every resource is on an LRU list exactly when it may be evicted; validation returns.
  \<^item> \<^verbatim>\<open>Reservation\<close> (\<^verbatim>\<open>core/reservation.c\<close>): shared and exclusive fences of a buffer as a map from contexts to fences.
  \<^item> \<^verbatim>\<open>Ttm_Eu\<close> (\<^verbatim>\<open>ttm/ttm_execbuf_util.c\<close>): reservation of a list of buffers with back-off on deadlock, release, fencing.
  \<^item> \<^verbatim>\<open>Validation\<close> (\<^verbatim>\<open>vmwgfx_validation.c\<close>): the context of a submission, its memory, the two kinds of entries and the
    duplicate table, prepare, revert and done. Rests on the three theories before it.
  \<^item> \<^verbatim>\<open>Cmdbuf\<close>, \<^verbatim>\<open>Cmdbuf_Own\<close>, \<^verbatim>\<open>Cmdbuf_Reach\<close> (\<^verbatim>\<open>vmwgfx_cmdbuf.c\<close>): the command buffer manager over the range allocator of
    \<^verbatim>\<open>Mm\<close>. The first theory is the model: headers in a heap, the queues of the contexts, the current buffer, the recovery.
    The second shows that every operation keeps the ownership of the buffers, counted as a multiset, and the order of the
    queues. The third treats the recovery and all states that sequences of calls reach: nothing is lost, used after it
    was freed, or run out of order.
  \<^item> \<^verbatim>\<open>Binding\<close>, \<^verbatim>\<open>Binding_Inv\<close>, \<^verbatim>\<open>Binding_Emit\<close>, \<^verbatim>\<open>Binding_Scrub\<close>, \<^verbatim>\<open>Binding_Run\<close> (\<^verbatim>\<open>vmwgfx_binding.c\<close>): the bindings of contexts. The
    model keeps the states of contexts and the staged ones in a store, the lists of bindings as lists of locations, and the commands
    in the order in which they are sent. \<^verbatim>\<open>Binding_Inv\<close> has the invariant of the lists, commits as overriding a map, and what the
    commands tell the device; \<^verbatim>\<open>Binding_Emit\<close> the delayed commands; \<^verbatim>\<open>Binding_Scrub\<close> scrubbing, killing and rebinding whole lists;
    \<^verbatim>\<open>Binding_Run\<close> the histories and the properties. The statements about what the device was told are for a FIFO with room and targets
    without gaps, and three lemmas show what happens otherwise; the lists of bindings are exact in every case.

  \<^bold>\<open>Conventions.\<close> Unsigned C integers are words where wrap-around matters. Kernel memory allocation, the device and
  the clock are arguments of the operations that use them: a boolean or a stream of answers, so that every failure
  is a branch of the model. Code that runs under one lock is one step; interleaving is modelled where the code
  has several critical sections or sleeps between them (\<^verbatim>\<open>Ttm_Lock\<close>, \<^verbatim>\<open>Irq\<close>, the waits of \<^verbatim>\<open>Fence\<close> and \<^verbatim>\<open>Fifo\<close>,
  the steps of \<^verbatim>\<open>Cmdbuf_Reach\<close>).

  \<^bold>\<open>Bounds and fuel.\<close> Loops whose end depends on the device or on user data take fuel, and their theorems give
  a sufficient amount: the verifier loop one round per byte of the buffer, the growth of the bounce buffer one
  round per doubling, the rerun of the fence update one round per unsignaled fence and one more, the waits one
  round per event of the device, the validation of a resource one round per entry of its LRU list and eleven more,
  the reservation of \<open>n\<close> buffers with \<open>p\<close> deadlocks \<open>p * (n + 1) + n + 1\<close> entries, the wait for a reservation one round
  per shared fence and one more. Processing the command buffers is repeated at most once, since the repetition switches the
  interrupt on. Where no amount is enough the theory proves that too (\<^verbatim>\<open>vmw_cmd_check_all_hangs\<close>,
  \<^verbatim>\<open>vmw_resize_cmd_bounce_hangs\<close>, \<^verbatim>\<open>fifo_reserve_spins\<close>). All other loops are structural or have a measure.

  \<^bold>\<open>Not modelled.\<close> The mode-setting core of DRM (atomic state, CRTCs, connectors, properties), EDID and display
  modes, vertical blanking, device and file glue, the movement of buffer objects and page pools of TTM, the display units of the driver, the callbacks of the resource
  types (they are parameters of \<^verbatim>\<open>Vmw_Resource\<close>), and the individual command handlers of the verifier. Debug output, sysfs and the compatibility wrappers
  for old kernels have no behaviour to verify.
\<close>

end
